(* ===== verification/Dude_Prelude.thy ===== *)
theory Dude_Prelude
  imports Main "HOL-Library.Word" "HOL-Library.List_Lexorder" "HOL-Library.Product_Lexorder"
    "HOL-Library.Sublist" "HOL-Library.Multiset"
begin

text \<open>
  The shared vocabulary of the development: byte strings, the exceptions the Python sources
  raise, the result type that carries them, big-endian integers, and the generic lemmas on lists
  and maps that the components use.

  A Python \<^verbatim>\<open>bytes\<close> value is a list of 8-bit words; Python compares byte strings
  lexicographically by unsigned byte, which is the order of \<open>List_Lexorder\<close> on words. A Python
  \<^verbatim>\<open>int\<close> is an \<^typ>\<open>int\<close>. A function of the sources that may raise returns a value of
  \<open>exn + 'a\<close>: \<^const>\<open>Inl\<close> is the exception that leaves the function.
\<close>

unbundle bit_operations_syntax

type_synonym byte = "8 word"
type_synonym bytes = "byte list"

text \<open>
  The exception classes. The first group are subclasses of \<^verbatim>\<open>StoreError\<close>, the second
  group are subclasses of \<^verbatim>\<open>DudeError\<close> only, the last group are outside
  \<^verbatim>\<open>DudeError\<close>: an \<^verbatim>\<open>except DudeError\<close> clause does not stop them.
  \<open>OutOfFuel\<close> is not an exception of the program: it marks an exhausted fuel argument, and each
  fuelled definition has a lemma that it is never returned.
\<close>

datatype exn =
    OpError | LayerError | ManagementError | ManagedMapError | CheckpointError | TreeSyncError
  | CodecError | CryptoError | QuorumError | SessionError | RoundError | RoundAdapterError
  | SettleError | SettleAdapterError | AddressError | EnvelopeError | LinkError | FramingError
  | SyncAdapterError | LiteAdapterError | CheckpointAdapterError | SealedBoxError
  | AeadMalformedError | AeadAuthFailedError | LightClientError | SocketSubstrateError
  | InvariantError | IntegrityError | ReplayRefusedError | IndexError | ValueError | OverflowError
  | KeyError | TypeError | RuntimeError
  | OutOfFuel

type_synonym 'a res = "exn + 'a"

fun is_store_error :: "exn \<Rightarrow> bool" where
  "is_store_error e =
     (e \<in> {OpError, LayerError, ManagementError, ManagedMapError, CheckpointError, TreeSyncError})"

fun is_dude_error :: "exn \<Rightarrow> bool" where
  "is_dude_error e =
     (e \<notin> {InvariantError, IntegrityError, ReplayRefusedError, IndexError, ValueError,
           OverflowError, KeyError, TypeError, RuntimeError, OutOfFuel})"

named_theorems wire_simps \<open>encodings and decodings of the wire types\<close>
named_theorems wf_simps \<open>well-formedness of encoded values\<close>

section \<open>Results\<close>

text \<open>Sequencing of two computations that may raise: the second runs on the first's value.\<close>

definition rbind :: "'e + 'a \<Rightarrow> ('a \<Rightarrow> 'e + 'b) \<Rightarrow> 'e + 'b" where
  "rbind m f = (case m of Inl e \<Rightarrow> Inl e | Inr x \<Rightarrow> f x)"

text \<open>An \<^verbatim>\<open>assert\<close>-like early raise: \<open>guard_exn b e\<close> raises \<open>e\<close> unless \<open>b\<close>.\<close>

definition guard_exn :: "bool \<Rightarrow> exn \<Rightarrow> unit res" where
  "guard_exn b e = (if b then Inr () else Inl e)"

text \<open>\<^verbatim>\<open>try: ... except DudeError as e: raise X from e\<close>.\<close>

definition rewrap :: "(exn \<Rightarrow> bool) \<Rightarrow> exn \<Rightarrow> 'a res \<Rightarrow> 'a res" where
  "rewrap caught x m = (case m of Inl e \<Rightarrow> Inl (if caught e then x else e) | Inr v \<Rightarrow> Inr v)"

text \<open>\<^verbatim>\<open>try: ... except DudeError: return d\<close>.\<close>

definition recover :: "(exn \<Rightarrow> bool) \<Rightarrow> 'a \<Rightarrow> 'a res \<Rightarrow> 'a res" where
  "recover caught d m = (case m of Inl e \<Rightarrow> (if caught e then Inr d else Inl e) | Inr v \<Rightarrow> Inr v)"

text \<open>A comprehension \<^verbatim>\<open>tuple(f(x) for x in xs)\<close> whose body may raise.\<close>

fun mapM :: "('a \<Rightarrow> 'e + 'b) \<Rightarrow> 'a list \<Rightarrow> 'e + 'b list" where
  "mapM f [] = Inr []"
| "mapM f (x # xs) = rbind (f x) (\<lambda>y. rbind (mapM f xs) (\<lambda>ys. Inr (y # ys)))"

lemma rbind_simps [simp]:
  "rbind (Inl e) f = Inl e" "rbind (Inr x) f = f x"
  by (simp_all add: rbind_def)

lemma rbind_Inr_conv: "rbind m f = Inr y \<longleftrightarrow> (\<exists>x. m = Inr x \<and> f x = Inr y)"
  by (cases m) auto

lemma rbind_Inl_conv: "rbind m f = Inl e \<longleftrightarrow> m = Inl e \<or> (\<exists>x. m = Inr x \<and> f x = Inl e)"
  by (cases m) auto

lemma rbind_assoc: "rbind (rbind m f) g = rbind m (\<lambda>x. rbind (f x) g)"
  by (cases m) auto

lemma rbind_cong [fundef_cong]:
  "m = m' \<Longrightarrow> (\<And>x. m' = Inr x \<Longrightarrow> f x = g x) \<Longrightarrow> rbind m f = rbind m' g"
  by (cases m') auto

lemma guard_exn_simps [simp]:
  "guard_exn True e = Inr ()" "guard_exn False e = Inl e"
  "guard_exn b e = Inr u \<longleftrightarrow> b" "guard_exn b e = Inl e' \<longleftrightarrow> \<not> b \<and> e' = e"
  by (auto simp: guard_exn_def)

lemma rewrap_simps [simp]:
  "rewrap c x (Inr v) = Inr v" "rewrap c x (Inl e) = Inl (if c e then x else e)"
  "rewrap c x m = Inr v \<longleftrightarrow> m = Inr v"
  by (auto simp: rewrap_def split: sum.splits)

lemma recover_simps [simp]:
  "recover c d (Inr v) = Inr v"
  "recover c d (Inl e) = (if c e then Inr d else Inl e)"
  by (auto simp: recover_def)

lemma mapM_cong [fundef_cong]:
  "xs = ys \<Longrightarrow> (\<And>x. x \<in> set ys \<Longrightarrow> f x = g x) \<Longrightarrow> mapM f xs = mapM g ys"
  by (induction ys arbitrary: xs) auto

lemma mapM_Inr_iff:
  "mapM f xs = Inr ys \<longleftrightarrow> list_all2 (\<lambda>x y. f x = Inr y) xs ys"
  by (induction xs arbitrary: ys) (auto simp: rbind_Inr_conv list_all2_Cons1)

lemma mapM_inverse [simp]:
  "(\<And>x. x \<in> set xs \<Longrightarrow> f (g x) = Inr x) \<Longrightarrow> mapM f (map g xs) = Inr xs"
  by (induction xs) auto

lemma mapM_map_Inr [simp]:
  "(\<And>x. x \<in> set xs \<Longrightarrow> f (g x) = Inr (k x)) \<Longrightarrow> mapM f (map g xs) = Inr (map k xs)"
  by (induction xs) auto

lemma mapM_length: "mapM f xs = Inr ys \<Longrightarrow> length ys = length xs"
  by (auto simp: mapM_Inr_iff dest: list_all2_lengthD)

lemma mapM_Inl: "mapM f xs = Inl e \<Longrightarrow> \<exists>x \<in> set xs. f x = Inl e"
  by (induction xs) (auto simp: rbind_Inl_conv)

section \<open>Byte literals and big-endian integers\<close>

text \<open>The bytes literal \<^verbatim>\<open>b"..."\<close>.\<close>

definition ascii :: "string \<Rightarrow> bytes" where
  "ascii s = map of_char s"

lemma ascii_simps [simp]:
  "ascii [] = []" "ascii (c # s) = of_char c # ascii s"
  by (simp_all add: ascii_def)

lemma length_ascii [simp]: "length (ascii s) = length s"
  by (simp add: ascii_def)

text \<open>
  \<^verbatim>\<open>n.to_bytes(k, "big")\<close>: an \<^verbatim>\<open>OverflowError\<close> when \<open>n\<close> is negative or does not
  fit, and \<^verbatim>\<open>int.from_bytes(b, "big")\<close>.
\<close>

fun be_bytes :: "nat \<Rightarrow> nat \<Rightarrow> bytes" where
  "be_bytes 0 n = []"
| "be_bytes (Suc k) n = be_bytes k (n div 256) @ [of_nat (n mod 256)]"

definition to_bytes :: "nat \<Rightarrow> int \<Rightarrow> bytes res" where
  "to_bytes k n = (if 0 \<le> n \<and> n < 256 ^ k then Inr (be_bytes k (nat n)) else Inl OverflowError)"

definition from_bytes :: "bytes \<Rightarrow> nat" where
  "from_bytes b = foldl (\<lambda>a d. a * 256 + unat d) 0 b"

lemma length_be_bytes [simp]: "length (be_bytes k n) = k"
  by (induction k n rule: be_bytes.induct) auto

lemma from_bytes_snoc: "from_bytes (b @ [d]) = from_bytes b * 256 + unat d"
  by (simp add: from_bytes_def)

lemma from_bytes_Nil [simp]: "from_bytes [] = 0"
  by (simp add: from_bytes_def)

lemma unat_of_nat_byte: "n < 256 \<Longrightarrow> unat (of_nat n :: byte) = n"
  by (simp add: unat_of_nat)

lemma unat_byte_less: "unat (d :: byte) < 256"
  using unsigned_less[of d] by simp

lemma from_bytes_be_bytes: "n < 256 ^ k \<Longrightarrow> from_bytes (be_bytes k n) = n"
proof (induction k n rule: be_bytes.induct)
  case (1 n)
  then show ?case by simp
next
  case (2 k n)
  have "n div 256 < 256 ^ k"
    using 2 by (simp add: less_mult_imp_div_less mult.commute)
  then have "from_bytes (be_bytes k (n div 256)) = n div 256" by (rule 2)
  then show ?case
    by (simp add: from_bytes_snoc unat_of_nat_byte)
qed

lemma from_bytes_bound: "from_bytes b < 256 ^ length b"
proof (induction b rule: rev_induct)
  case Nil
  show ?case by simp
next
  case (snoc d b)
  have "Suc (from_bytes b) * 256 \<le> 256 ^ length b * 256"
    using snoc by (intro mult_le_mono1) (rule Suc_leI)
  moreover have "from_bytes b * 256 + unat d < Suc (from_bytes b) * 256"
    using unat_byte_less[of d] by simp
  ultimately have "from_bytes b * 256 + unat d < 256 ^ length b * 256" by (rule less_le_trans[rotated])
  then show ?case by (simp add: from_bytes_snoc mult.commute)
qed

lemma be_bytes_from_bytes: "be_bytes (length b) (from_bytes b) = b"
proof (induction b rule: rev_induct)
  case (snoc d b)
  with unat_byte_less[of d] show ?case by (simp add: from_bytes_snoc)
qed simp

lemma to_bytes_Inr: "to_bytes k n = Inr b \<longleftrightarrow> 0 \<le> n \<and> n < 256 ^ k \<and> b = be_bytes k (nat n)"
  by (auto simp: to_bytes_def)

lemma to_bytes_from_bytes: "to_bytes k n = Inr b \<Longrightarrow> int (from_bytes b) = n"
proof -
  assume "to_bytes k n = Inr b"
  then have n: "0 \<le> n" "n < 256 ^ k" and b: "b = be_bytes k (nat n)"
    by (auto simp only: to_bytes_Inr)
  have "nat n < 256 ^ k"
    using n by (metis nat_less_iff of_nat_numeral of_nat_power)
  then have "from_bytes b = nat n" unfolding b by (rule from_bytes_be_bytes)
  with n show ?thesis by simp
qed

lemma to_bytes_inj: "to_bytes k m = Inr b \<Longrightarrow> to_bytes k n = Inr b \<Longrightarrow> m = n"
  using to_bytes_from_bytes by blast

end
