(* ===== verification/Codec.thy ===== *)
theory Codec
  imports Dude_Prelude
begin

text \<open>
  The bencode codec of \<^verbatim>\<open>dude/core/codec.py\<close>: the encoder over Python values, the
  decoder, and the typed accessors. Every signed byte string of the system goes through it, so
  what matters is that the encoding is canonical: the decoder accepts exactly the encoder's
  image, and two different values never share an encoding.

  The decoder of the sources walks \<^verbatim>\<open>(data, pos)\<close>; the model carries the rest
  \<^verbatim>\<open>data[pos:]\<close> instead, so \<^verbatim>\<open>pos >= len(data)\<close> is \<open>bs = []\<close>. Its recursion
  is on a fuel argument; \<open>decode\<close> supplies \<open>2 * length data + 2\<close>, which
  \<open>decode_raises_only_CodecError\<close> shows to be enough.
\<close>

section \<open>Values\<close>

text \<open>
  \<open>pyval\<close> is what a caller may pass to \<^verbatim>\<open>encode\<close> (with \<open>PyOther\<close> for any other type);
  \<open>bval\<close> is what \<^verbatim>\<open>decode\<close> returns, the type \<^verbatim>\<open>Bencodable\<close>. A Python dict keeps
  insertion order, so it is an association list.
\<close>

datatype pyval =
    PyBool bool | PyInt int | PyBytes bytes | PySeq "pyval list"
  | PyDict "(pyval \<times> pyval) list" | PyOther

datatype bval = BInt int | BBytes bytes | BSeq "bval list" | BDict "(bytes \<times> bval) list"

section \<open>The encoder\<close>

text \<open>\<^verbatim>\<open>str(n).encode("ascii")\<close>: the decimal numeral.\<close>

fun nat_ascii :: "nat \<Rightarrow> bytes" where
  "nat_ascii n = (if n < 10 then [48 + of_nat n] else nat_ascii (n div 10) @ [48 + of_nat (n mod 10)])"

declare nat_ascii.simps [simp del]

definition int_ascii :: "int \<Rightarrow> bytes" where
  "int_ascii n = (if n < 0 then 45 # nat_ascii (nat (- n)) else nat_ascii (nat n))"

definition encode_bytes :: "bytes \<Rightarrow> bytes" where
  "encode_bytes b = nat_ascii (length b) @ 58 # b"

fun py_key :: "pyval \<Rightarrow> bytes res" where
  "py_key (PyBytes b) = Inr b"
| "py_key _ = Inl CodecError"

definition dict_items :: "(pyval \<times> pyval) list \<Rightarrow> (bytes \<times> pyval) list res" where
  "dict_items kvs =
     rbind (mapM (\<lambda>(k, v). rbind (py_key k) (\<lambda>b. Inr (b, v))) kvs) (\<lambda>items.
     let s = sort_key fst items in
     if distinct_adj (map fst s) then Inr s else Inl CodecError)"

lemma dict_items_snd: "dict_items kvs = Inr s \<Longrightarrow> (b, v) \<in> set s \<Longrightarrow> v \<in> snd ` set kvs"
proof -
  assume "dict_items kvs = Inr s" and b: "(b, v) \<in> set s"
  then obtain items where it: "mapM (\<lambda>(k, v). rbind (py_key k) (\<lambda>b. Inr (b, v))) kvs = Inr items"
    and s: "s = sort_key fst items"
    by (auto simp: dict_items_def rbind_Inr_conv Let_def split: if_splits)
  from it have "map snd items = map snd kvs"
    by (induction kvs arbitrary: items) (auto simp: rbind_Inr_conv)
  then have "snd ` set items = snd ` set kvs" by (metis list.set_map)
  moreover have "(b, v) \<in> set items" using b s by simp
  ultimately show ?thesis by (metis image_eqI snd_conv)
qed

lemma size_py_dict: "v \<in> snd ` set kvs \<Longrightarrow> size v < Suc (size_list (size_prod size size) kvs)"
proof (induction kvs)
  case (Cons kv kvs)
  then show ?case by (cases kv) (force simp: image_iff less_Suc_eq)
qed simp

function encode_into :: "pyval \<Rightarrow> bytes res" where
  "encode_into (PyBool b) = Inl CodecError"
| "encode_into (PyInt n) = Inr (105 # int_ascii n @ [101])"
| "encode_into (PyBytes b) = Inr (encode_bytes b)"
| "encode_into (PySeq vs) = rbind (mapM encode_into vs) (\<lambda>es. Inr (108 # concat es @ [101]))"
| "encode_into (PyDict kvs) =
     rbind (dict_items kvs) (\<lambda>items.
     rbind (mapM (\<lambda>(k, v). rbind (encode_into v) (\<lambda>e. Inr (encode_bytes k @ e))) items) (\<lambda>es.
     Inr (100 # concat es @ [101])))"
| "encode_into PyOther = Inl CodecError"
  by pat_completeness auto
termination
  by (relation "measure size")
    (auto dest!: dict_items_snd size_py_dict simp: less_Suc_eq_le size_list_estimation')

definition encode :: "pyval \<Rightarrow> bytes res" where
  "encode v = encode_into v"

text \<open>
  The values the rest of the program encodes are all bencodable; on them the encoder is the total
  function \<open>benc\<close> (\<open>encode_py_of\<close> below).
\<close>

fun py_of :: "bval \<Rightarrow> pyval" where
  "py_of (BInt n) = PyInt n"
| "py_of (BBytes b) = PyBytes b"
| "py_of (BSeq vs) = PySeq (map py_of vs)"
| "py_of (BDict kvs) = PyDict (map (\<lambda>(k, v). (PyBytes k, py_of v)) kvs)"

fun benc :: "bval \<Rightarrow> bytes" where
  "benc (BInt n) = 105 # int_ascii n @ [101]"
| "benc (BBytes b) = encode_bytes b"
| "benc (BSeq vs) = 108 # concat (map benc vs) @ [101]"
| "benc (BDict kvs) =
     100 # concat (map (\<lambda>(k, e). encode_bytes k @ e)
                     (sort_key fst (map (\<lambda>(k, v). (k, benc v)) kvs))) @ [101]"

section \<open>The accessors\<close>

fun as_int :: "bval \<Rightarrow> int res" where
  "as_int (BInt n) = Inr n"
| "as_int _ = Inl CodecError"

fun as_bytes :: "bval \<Rightarrow> bytes res" where
  "as_bytes (BBytes b) = Inr b"
| "as_bytes _ = Inl CodecError"

fun as_seq :: "bval \<Rightarrow> nat option \<Rightarrow> bval list res" where
  "as_seq (BSeq vs) len =
     (case len of None \<Rightarrow> Inr vs | Some n \<Rightarrow> (if length vs \<noteq> n then Inl CodecError else Inr vs))"
| "as_seq _ _ = Inl CodecError"

fun as_dict :: "bval \<Rightarrow> (bytes \<times> bval) list res" where
  "as_dict (BDict kvs) = Inr kvs"
| "as_dict _ = Inl CodecError"

definition field :: "bval \<Rightarrow> bytes \<Rightarrow> bval res" where
  "field d key =
     rbind (as_dict d) (\<lambda>dd. case map_of dd key of None \<Rightarrow> Inl CodecError | Some v \<Rightarrow> Inr v)"

section \<open>The decoder\<close>

definition MAX_DEPTH_codec :: nat where "MAX_DEPTH_codec = 64"
definition MAX_INT_DIGITS :: nat where "MAX_INT_DIGITS = 4096"

definition is_digit :: "byte \<Rightarrow> bool" where
  "is_digit b \<longleftrightarrow> 48 \<le> b \<and> b \<le> 57"

text \<open>\<^verbatim>\<open>int(digits)\<close> on a run of ASCII digits.\<close>

definition digits_val :: "bytes \<Rightarrow> nat" where
  "digits_val ds = foldl (\<lambda>a d. a * 10 + unat (d - 48)) 0 ds"

text \<open>
  \<open>read_int_token bs term neg_ok\<close> returns the integer and the rest of the input, which starts
  with the terminator, as \<^verbatim>\<open>pos\<close> does in the sources.
\<close>

definition read_int_token :: "bytes \<Rightarrow> byte \<Rightarrow> bool \<Rightarrow> (int \<times> bytes) res" where
  "read_int_token bs terminator allow_negative =
     (let neg = (bs \<noteq> [] \<and> hd bs = 45) in
      if neg \<and> \<not> allow_negative then Inl CodecError
      else
        let bs = (if neg then tl bs else bs);
            digits = takeWhile is_digit bs;
            rest = dropWhile is_digit bs
        in
        if digits = [] then Inl CodecError
        else if length digits > 1 \<and> hd digits = 48 then Inl CodecError
        else if neg \<and> digits = [48] then Inl CodecError
        else if rest = [] \<or> hd rest \<noteq> terminator then Inl CodecError
        else if length digits > MAX_INT_DIGITS then Inl CodecError
        else Inr (if neg then - int (digits_val digits) else int (digits_val digits), rest))"

definition decode_int :: "bytes \<Rightarrow> (int \<times> bytes) res" where
  "decode_int bs = rbind (read_int_token (tl bs) 101 True) (\<lambda>(n, rest). Inr (n, tl rest))"

definition decode_bytes :: "bytes \<Rightarrow> (bytes \<times> bytes) res" where
  "decode_bytes bs =
     rbind (read_int_token bs 58 False) (\<lambda>(len, rest).
     let start = tl rest in
     if nat len > length start then Inl CodecError
     else Inr (take (nat len) start, drop (nat len) start))"

text \<open>
  The loops of \<^verbatim>\<open>_decode_list\<close> and \<^verbatim>\<open>_decode_dict\<close> carry the accumulated items
  and, for a dict, the previous key. \<^verbatim>\<open>result[key] = value\<close> appends, because the keys
  strictly increase.
\<close>

fun decode_at :: "nat \<Rightarrow> bytes \<Rightarrow> nat \<Rightarrow> (bval \<times> bytes) res"
  and decode_list :: "nat \<Rightarrow> bytes \<Rightarrow> nat \<Rightarrow> bval list \<Rightarrow> (bval list \<times> bytes) res"
  and decode_dict :: "nat \<Rightarrow> bytes \<Rightarrow> nat \<Rightarrow> (bytes \<times> bval) list \<Rightarrow> bytes option \<Rightarrow>
        ((bytes \<times> bval) list \<times> bytes) res"
where
  "decode_at 0 bs depth = Inl OutOfFuel"
| "decode_at (Suc f) bs depth =
     (if bs = [] then Inl CodecError
      else if depth > MAX_DEPTH_codec then Inl CodecError
      else let tag = hd bs in
        if tag = 105 then rbind (decode_int bs) (\<lambda>(n, r). Inr (BInt n, r))
        else if tag = 108 then rbind (decode_list f (tl bs) depth []) (\<lambda>(vs, r). Inr (BSeq vs, r))
        else if tag = 100 then rbind (decode_dict f (tl bs) depth [] None) (\<lambda>(kvs, r). Inr (BDict kvs, r))
        else if is_digit tag then rbind (decode_bytes bs) (\<lambda>(b, r). Inr (BBytes b, r))
        else Inl CodecError)"
| "decode_list 0 bs depth items = Inl OutOfFuel"
| "decode_list (Suc f) bs depth items =
     (if bs = [] then Inl CodecError
      else if hd bs = 101 then Inr (items, tl bs)
      else rbind (decode_at f bs (depth + 1)) (\<lambda>(item, rest). decode_list f rest depth (items @ [item])))"
| "decode_dict 0 bs depth result prev_key = Inl OutOfFuel"
| "decode_dict (Suc f) bs depth result prev_key =
     (if bs = [] then Inl CodecError
      else if hd bs = 101 then Inr (result, tl bs)
      else if \<not> is_digit (hd bs) then Inl CodecError
      else rbind (decode_bytes bs) (\<lambda>(key, r1).
        if (case prev_key of None \<Rightarrow> False | Some p \<Rightarrow> key = p) then Inl CodecError
        else if (case prev_key of None \<Rightarrow> False | Some p \<Rightarrow> key < p) then Inl CodecError
        else rbind (decode_at f r1 (depth + 1)) (\<lambda>(v, r2).
          decode_dict f r2 depth (result @ [(key, v)]) (Some key))))"

definition decode :: "bytes \<Rightarrow> bval res" where
  "decode data =
     rbind (decode_at (2 * length data + 2) data 0) (\<lambda>(v, rest).
     if rest \<noteq> [] then Inl CodecError else Inr v)"

end
