(* ===== verification/Codec_Canonical.thy ===== *)
theory Codec_Canonical
  imports Codec
begin

text \<open>
  Correctness of the codec of \<open>Codec\<close>: decoding inverts encoding on every value within the
  codec's limits, every accepted byte string is the encoding of the value it decodes to (the
  encoding is canonical), and malformed input raises \<^verbatim>\<open>CodecError\<close> and nothing else.
\<close>

section \<open>Decimal numerals\<close>

lemma is_digit_48: "n < 10 \<Longrightarrow> is_digit (48 + of_nat n)"
  by (simp add: is_digit_def word_le_nat_alt unat_word_ariths unat_of_nat_byte)

lemma digit_minus_48: "n < 10 \<Longrightarrow> unat (of_nat n :: byte) = n"
  by (simp add: unat_of_nat_byte)

lemma digit_back: "is_digit d \<Longrightarrow> 48 + of_nat (unat (d - 48)) = d"
  by simp

lemma digit_val_less: "is_digit d \<Longrightarrow> unat (d - 48) < 10"
  by (simp add: is_digit_def unat_sub word_le_nat_alt less_diff_conv2)

lemma is_digit_nat_ascii: "d \<in> set (nat_ascii n) \<Longrightarrow> is_digit d"
proof (induction n rule: nat_ascii.induct)
  case (1 n)
  show ?case
  proof (cases "n < 10")
    case True
    with "1.prems" show ?thesis by (subst (asm) nat_ascii.simps) (auto intro: is_digit_48)
  next
    case False
    with "1.prems" "1.IH" show ?thesis
      by (subst (asm) nat_ascii.simps) (auto intro: is_digit_48)
  qed
qed

lemma nat_ascii_nonempty [simp]: "nat_ascii n \<noteq> []"
  by (subst nat_ascii.simps) simp

lemma digits_val_snoc [simp]: "digits_val (ds @ [d]) = digits_val ds * 10 + unat (d - 48)"
  by (simp add: digits_val_def)

lemma digits_val_single [simp]: "digits_val [d] = unat (d - 48)"
  by (simp add: digits_val_def)

lemma digits_val_nat_ascii [simp]: "digits_val (nat_ascii n) = n"
proof (induction n rule: nat_ascii.induct)
  case (1 n)
  show ?case
  proof (cases "n < 10")
    case True
    then show ?thesis by (subst nat_ascii.simps) (simp add: digit_minus_48)
  next
    case False
    with 1 show ?thesis
      by (subst nat_ascii.simps) (simp add: digit_minus_48)
  qed
qed

lemma hd_nat_ascii: "0 < n \<Longrightarrow> hd (nat_ascii n) \<noteq> 48"
proof (induction n rule: nat_ascii.induct)
  case (1 n)
  show ?case
  proof (cases "n < 10")
    case True
    have "(48 + of_nat n :: byte) \<noteq> 48"
      using True "1.prems" by (metis add_cancel_right_right digit_minus_48 unat_0 less_numeral_extra(3))
    with True show ?thesis by (subst nat_ascii.simps) simp
  next
    case False
    with 1 show ?thesis by (subst nat_ascii.simps) simp
  qed
qed

lemma nat_ascii_0 [simp]: "nat_ascii 0 = [48]"
  by (subst nat_ascii.simps) simp

lemma hd_nat_ascii_long: "length (nat_ascii n) > 1 \<Longrightarrow> hd (nat_ascii n) \<noteq> 48"
  using hd_nat_ascii[of n] by (cases "n = 0") auto

text \<open>A run of digits without a leading zero is the numeral of its value.\<close>

lemma nat_ascii_digits_val:
  "ds \<noteq> [] \<Longrightarrow> \<forall>d \<in> set ds. is_digit d \<Longrightarrow> length ds > 1 \<longrightarrow> hd ds \<noteq> 48 \<Longrightarrow>
   nat_ascii (digits_val ds) = ds"
proof (induction ds rule: rev_induct)
  case (snoc d ds)
  have d: "is_digit d" using snoc.prems by simp
  show ?case
  proof (cases "ds = []")
    case True
    with d show ?thesis
      by (subst nat_ascii.simps) (simp add: digit_val_less)
  next
    case False
    have IH: "nat_ascii (digits_val ds) = ds"
      using snoc False by (cases ds) auto
    have pos: "0 < digits_val ds"
    proof (rule ccontr)
      assume "\<not> 0 < digits_val ds"
      then have "ds = [48]" using IH by simp
      with snoc.prems show False by simp
    qed
    have q: "(digits_val ds * 10 + unat (d - 48)) div 10 = digits_val ds"
        using digit_val_less[OF d] by auto
    show ?thesis
      using pos IH d digit_val_less[OF d] by (subst nat_ascii.simps) (simp add: q)
  qed
qed simp

lemma takeWhile_digits: "\<not> is_digit t \<Longrightarrow> takeWhile is_digit (nat_ascii n @ t # rest) = nat_ascii n"
  and dropWhile_digits: "\<not> is_digit t \<Longrightarrow> dropWhile is_digit (nat_ascii n @ t # rest) = t # rest"
  by (auto simp: takeWhile_append dropWhile_append dest: is_digit_nat_ascii)

lemma not_digits [simp]: "\<not> is_digit 45" "\<not> is_digit 58" "\<not> is_digit 101" "\<not> is_digit 105"
  "\<not> is_digit 108" "\<not> is_digit 100"
  by (simp_all add: is_digit_def)

lemma hd_nat_ascii_not_minus: "hd (nat_ascii n @ xs) \<noteq> 45"
  using is_digit_nat_ascii[of "hd (nat_ascii n)" n] by (auto simp: hd_append)

section \<open>The decoder accepts the encoder's output\<close>

definition int_digits :: "int \<Rightarrow> nat" where
  "int_digits n = length (nat_ascii (nat \<bar>n\<bar>))"

lemma read_int_token_int_ascii:
  assumes "int_digits n \<le> MAX_INT_DIGITS" "\<not> is_digit t" "neg_ok \<or> 0 \<le> n"
  shows "read_int_token (int_ascii n @ t # rest) t neg_ok = Inr (n, t # rest)"
proof (cases "n < 0")
  case True
  with assms have "nat_ascii (nat (- n)) \<noteq> [48]"
    using hd_nat_ascii[of "nat (- n)"] by auto
  with True assms hd_nat_ascii_long[of "nat (- n)"] show ?thesis
    by (auto simp: read_int_token_def int_ascii_def int_digits_def takeWhile_digits dropWhile_digits Let_def)
next
  case False
  with assms hd_nat_ascii_long[of "nat n"] hd_nat_ascii_not_minus[of "nat n" "t # rest"]
  show ?thesis
    by (auto simp: read_int_token_def int_ascii_def int_digits_def takeWhile_digits dropWhile_digits Let_def)
qed

lemma read_int_token_Inr:
  assumes "read_int_token bs t neg_ok = Inr (n, rest)"
  shows "bs = int_ascii n @ rest \<and> rest \<noteq> [] \<and> hd rest = t \<and> int_digits n \<le> MAX_INT_DIGITS \<and>
         (neg_ok \<or> 0 \<le> n)"
proof -
  define neg where "neg = (bs \<noteq> [] \<and> hd bs = 45)"
  define bs' where "bs' = (if neg then tl bs else bs)"
  define ds where "ds = takeWhile is_digit bs'"
  have rest: "rest = dropWhile is_digit bs'" and ds0: "ds \<noteq> []"
    and lz: "length ds > 1 \<longrightarrow> hd ds \<noteq> 48" and nz: "neg \<longrightarrow> ds \<noteq> [48]"
    and t: "rest \<noteq> []" "hd rest = t" and len: "length ds \<le> MAX_INT_DIGITS"
    and n: "n = (if neg then - int (digits_val ds) else int (digits_val ds))"
    and neg: "neg \<longrightarrow> neg_ok"
    using assms unfolding read_int_token_def neg_def bs'_def ds_def Let_def
    by (auto split: if_splits)
  have num: "nat_ascii (digits_val ds) = ds"
    using ds0 lz by (intro nat_ascii_digits_val) (auto simp: ds_def dest: set_takeWhileD)
  have pos: "neg \<Longrightarrow> 0 < digits_val ds"
    using nz num by (cases "digits_val ds") auto
  have bs': "bs' = ds @ rest" unfolding ds_def rest by simp
  have bs: "bs = (if neg then 45 # bs' else bs')"
    unfolding bs'_def neg_def by (cases bs) auto
  have "nat \<bar>n\<bar> = digits_val ds" using n by auto
  then have dig: "int_digits n \<le> MAX_INT_DIGITS" using num len by (simp add: int_digits_def)
  have "bs = int_ascii n @ rest"
    using bs bs' num pos n by (auto simp: int_ascii_def)
  with t dig n neg show ?thesis by auto
qed

lemma decode_bytes_encode_bytes:
  "int_digits (int (length b)) \<le> MAX_INT_DIGITS \<Longrightarrow>
   decode_bytes (encode_bytes b @ rest) = Inr (b, rest)"
  using read_int_token_int_ascii[of "int (length b)" 58 False "b @ rest"]
  by (simp add: decode_bytes_def encode_bytes_def int_ascii_def)

lemma decode_bytes_Inr:
  assumes "decode_bytes bs = Inr (b, rest)"
  shows "bs = encode_bytes b @ rest \<and> int_digits (int (length b)) \<le> MAX_INT_DIGITS"
proof -
  obtain n r where tok: "read_int_token bs 58 False = Inr (n, r)"
    and le: "nat n \<le> length (tl r)"
    and b: "b = take (nat n) (tl r)" and rest: "rest = drop (nat n) (tl r)"
    using assms by (auto simp: decode_bytes_def rbind_Inr_conv Let_def split: if_splits)
  from read_int_token_Inr[OF tok] have *: "bs = int_ascii n @ r" "r \<noteq> []" "hd r = 58"
    "int_digits n \<le> MAX_INT_DIGITS" "0 \<le> n" by auto
  have len: "length b = nat n" using b le by simp
  have "r = 58 # b @ rest" using *(2,3) b rest by (cases r) auto
  with * len show ?thesis by (simp add: encode_bytes_def int_ascii_def)
qed

text \<open>
  The values the codec carries: dict keys strictly increase, every integer and every length has at
  most \<^verbatim>\<open>_MAX_INT_DIGITS\<close> digits, and containers nest at most \<^verbatim>\<open>_MAX_DEPTH\<close> deep.
\<close>

fun bvalid :: "bval \<Rightarrow> bool" where
  "bvalid (BInt n) = (int_digits n \<le> MAX_INT_DIGITS)"
| "bvalid (BBytes b) = (int_digits (int (length b)) \<le> MAX_INT_DIGITS)"
| "bvalid (BSeq vs) = list_all bvalid vs"
| "bvalid (BDict kvs) =
     (sorted_wrt (<) (map fst kvs) \<and>
      list_all (\<lambda>(k, v). int_digits (int (length k)) \<le> MAX_INT_DIGITS \<and> bvalid v) kvs)"

fun bdepth :: "bval \<Rightarrow> nat" where
  "bdepth (BSeq vs) = (if vs = [] then 0 else Suc (fold max (map bdepth vs) 0))"
| "bdepth (BDict kvs) = (if kvs = [] then 0 else Suc (fold max (map (\<lambda>(k, v). bdepth v) kvs) 0))"
| "bdepth _ = 0"

definition bencodable :: "bval \<Rightarrow> bool" where
  "bencodable v \<longleftrightarrow> bvalid v \<and> bdepth v \<le> MAX_DEPTH_codec"


text \<open>Small numbers are far inside the digit limit.\<close>

lemma length_nat_ascii_le: "length (nat_ascii n) \<le> Suc n"
proof (induction n rule: nat_ascii.induct)
  case (1 n)
  show ?case
  proof (cases "n < 10")
    case False
    then have "length (nat_ascii (n div 10)) \<le> Suc (n div 10)" by (rule 1)
    moreover have "n div 10 < n" using False by simp
    ultimately show ?thesis using False by (subst nat_ascii.simps) simp
  qed (subst nat_ascii.simps, simp)
qed

lemma small_int_digits: "\<bar>n\<bar> < 4096 \<Longrightarrow> int_digits n \<le> MAX_INT_DIGITS"
  using length_nat_ascii_le[of "nat \<bar>n\<bar>"] by (simp add: int_digits_def MAX_INT_DIGITS_def)

section \<open>Shape of an encoding\<close>

lemma add_fold_max_le:
  "d + fold max xs (m :: nat) \<le> k \<longleftrightarrow> d + m \<le> k \<and> (\<forall>x \<in> set xs. d + x \<le> k)"
  by (induction xs arbitrary: m) (auto simp: max_def)

lemma bdepth_BSeq_le:
  "d + bdepth (BSeq vs) \<le> k \<longleftrightarrow> d \<le> k \<and> (\<forall>v \<in> set vs. Suc d + bdepth v \<le> k)"
  using add_fold_max_le[of "Suc d" "map bdepth vs" 0 k] by (cases vs) auto

lemma bdepth_BDict_le:
  "d + bdepth (BDict kvs) \<le> k \<longleftrightarrow> d \<le> k \<and> (\<forall>(_, v) \<in> set kvs. Suc d + bdepth v \<le> k)"
  using add_fold_max_le[of "Suc d" "map (\<lambda>(k, v). bdepth v) kvs" 0 k]
  by (cases kvs) (auto simp: split_beta)

lemmas bdepth_le = bdepth_BSeq_le bdepth_BDict_le

lemma hd_encode_bytes: "is_digit (hd (encode_bytes b @ xs))"
  using is_digit_nat_ascii[of "hd (nat_ascii (length b))" "length b"]
  by (simp add: encode_bytes_def hd_append)

lemma encode_bytes_nonempty [simp]: "encode_bytes b \<noteq> []"
  by (simp add: encode_bytes_def)

lemma benc_nonempty [simp]: "benc v \<noteq> []"
  by (cases v) auto

lemma hd_benc_not_e: "hd (benc v @ xs) \<noteq> 101"
proof (cases v)
  case (BBytes b)
  then show ?thesis using hd_encode_bytes[of b xs] by auto
qed auto

declare bdepth.simps(1,2) [simp del] benc.simps(4) [simp del]

definition benc_pairs :: "(bytes \<times> bval) list \<Rightarrow> bytes" where
  "benc_pairs kvs = concat (map (\<lambda>(k, v). encode_bytes k @ benc v) kvs)"

lemma benc_BDict_sorted:
  assumes "sorted_wrt (<) (map fst kvs)"
  shows "benc (BDict kvs) = 100 # benc_pairs kvs @ [101]"
proof -
  have "sorted (map fst (map (\<lambda>(k, v). (k, benc v)) kvs))"
    using assms by (simp add: split_beta comp_def strict_sorted_imp_sorted)
  then have "sort_key fst (map (\<lambda>(k, v). (k, benc v)) kvs) = map (\<lambda>(k, v). (k, benc v)) kvs"
    by (rule sort_key_id_if_sorted)
  then show ?thesis
    by (simp add: benc.simps(4) benc_pairs_def comp_def case_prod_unfold)
qed

section \<open>Round trip\<close>

lemma length_benc_pos: "1 \<le> length (benc v)"
  by (simp add: Suc_le_eq)

text \<open>The two loops, given that the item decoder works on each item's encoding.\<close>

lemma decode_list_items:
  assumes "\<And>v r g. v \<in> set vs \<Longrightarrow> 2 * length (benc v) \<le> g \<Longrightarrow>
             decode_at g (benc v @ r) (Suc d) = Inr (v, r)"
    and "2 * length (concat (map benc vs)) + 1 \<le> f"
  shows "decode_list f (concat (map benc vs) @ 101 # rest) d items = Inr (items @ vs, rest)"
  using assms
proof (induction vs arbitrary: f items)
  case Nil
  then show ?case by (cases f) auto
next
  case (Cons v vs)
  then obtain g where f: "f = Suc g" by (cases f) auto
  from Cons.prems(2) f length_benc_pos[of v]
  have g: "2 * length (benc v) \<le> g" "2 * length (concat (map benc vs)) + 1 \<le> g" by auto
  let ?r = "concat (map benc vs) @ 101 # rest"
  have "decode_at g (benc v @ ?r) (Suc d) = Inr (v, ?r)"
    by (rule Cons.prems(1)) (use g in auto)
  moreover have "decode_list g ?r d (items @ [v]) = Inr ((items @ [v]) @ vs, rest)"
    by (rule Cons.IH) (use Cons.prems(1) g in auto)
  ultimately show ?case using hd_benc_not_e[of v ?r] by (simp add: f)
qed

lemma decode_dict_items:
  assumes "\<And>k v r g. (k, v) \<in> set kvs \<Longrightarrow> 2 * length (benc v) \<le> g \<Longrightarrow>
             decode_at g (benc v @ r) (Suc d) = Inr (v, r)"
    and "\<forall>(k, v) \<in> set kvs. int_digits (int (length k)) \<le> MAX_INT_DIGITS"
    and "2 * length (benc_pairs kvs) + 1 \<le> f"
    and "sorted_wrt (<) (map fst kvs)" and "\<forall>p. prev = Some p \<longrightarrow> (\<forall>k \<in> fst ` set kvs. p < k)"
  shows "decode_dict f (benc_pairs kvs @ 101 # rest) d res prev = Inr (res @ kvs, rest)"
  using assms
proof (induction kvs arbitrary: f res prev)
  case Nil
  then show ?case by (cases f) (auto simp: benc_pairs_def)
next
  case (Cons kv kvs)
  obtain k v where kv: "kv = (k, v)" by (cases kv)
  from Cons.prems(3) obtain g where f: "f = Suc g" by (cases f) auto
  let ?r = "benc_pairs kvs @ 101 # rest"
  have pairs: "benc_pairs (kv # kvs) = encode_bytes k @ benc v @ benc_pairs kvs"
    by (simp add: benc_pairs_def kv)
  have g: "2 * length (benc v) \<le> g" "2 * length (benc_pairs kvs) + 1 \<le> g"
    using Cons.prems(3) f length_benc_pos[of v] by (auto simp: pairs)
  have "decode_at g (benc v @ ?r) (Suc d) = Inr (v, ?r)"
    by (rule Cons.prems(1)) (use g kv in auto)
  moreover have "decode_dict g ?r d (res @ [(k, v)]) (Some k) = Inr ((res @ [(k, v)]) @ kvs, rest)"
    by (rule Cons.IH) (use Cons.prems g kv in auto)
  moreover have "decode_bytes (encode_bytes k @ benc v @ ?r) = Inr (k, benc v @ ?r)"
    using Cons.prems(2) kv by (intro decode_bytes_encode_bytes) auto
  moreover have "hd (encode_bytes k @ xs) \<noteq> 101" for xs
    using hd_encode_bytes[of k xs] by auto
  ultimately show ?case
    using Cons.prems(5) hd_encode_bytes[of k]
    by (auto simp: f pairs kv[symmetric] split: option.splits) (auto simp: kv)
qed

lemma decode_at_benc:
  "bvalid v \<Longrightarrow> d + bdepth v \<le> MAX_DEPTH_codec \<Longrightarrow> 2 * length (benc v) \<le> f \<Longrightarrow>
   decode_at f (benc v @ rest) d = Inr (v, rest)"
proof (induction v arbitrary: d f rest)
  case (BInt n)
  then obtain g where f: "f = Suc g" by (cases f) auto
  from BInt read_int_token_int_ascii[of n 101 True rest] show ?case
    by (simp add: f decode_int_def)
next
  case (BBytes b)
  then obtain g where f: "f = Suc g" by (cases f) auto
  from BBytes hd_encode_bytes[of b rest] show ?case
    by (auto simp: f decode_bytes_encode_bytes Let_def)
next
  case (BSeq vs)
  then obtain g where f: "f = Suc g" by (cases f) auto
  have "decode_list g (concat (map benc vs) @ 101 # rest) d [] = Inr ([] @ vs, rest)"
    using BSeq.prems
    by (intro decode_list_items BSeq.IH) (auto simp: f list_all_iff bdepth_BSeq_le)
  with BSeq.prems show ?case by (simp add: f)
next
  case (BDict kvs)
  then obtain g where f: "f = Suc g" by (cases f) auto
  have srt: "sorted_wrt (<) (map fst kvs)" using BDict.prems by simp
  have "decode_dict g (benc_pairs kvs @ 101 # rest) d [] None = Inr ([] @ kvs, rest)"
  proof (rule decode_dict_items)
    fix k v r h assume "(k, v) \<in> set kvs" "2 * length (benc v) \<le> h"
    then show "decode_at h (benc v @ r) (Suc d) = Inr (v, r)"
      using BDict.prems by (intro BDict.IH[of "(k, v)"]) (auto simp: list_all_iff bdepth_BDict_le)
  qed (use BDict.prems srt f in \<open>auto simp: list_all_iff benc_BDict_sorted\<close>)
  with BDict.prems show ?case by (simp add: f benc_BDict_sorted[OF srt])
qed

lemma decode_benc: "bencodable v \<Longrightarrow> decode (benc v) = Inr v"
  using decode_at_benc[of v 0 "2 * length (benc v) + 2" "[]"]
  by (simp add: decode_def bencodable_def)


text \<open>On bencodable values the encoder of the sources is \<open>benc\<close>.\<close>

lemma distinct_adj_sorted_lt: "sorted_wrt (<) (xs :: bytes list) \<Longrightarrow> distinct_adj xs"
  by (induction xs rule: induct_list012) auto

lemma dict_items_py_of:
  assumes "sorted_wrt (<) (map fst kvs)"
  shows "dict_items (map (\<lambda>(k, v). (PyBytes k, py_of v)) kvs) = Inr (map (\<lambda>(k, v). (k, py_of v)) kvs)"
proof -
  have m: "mapM (\<lambda>(k, v). rbind (py_key k) (\<lambda>b. Inr (b, v))) (map (\<lambda>(k, v). (PyBytes k, py_of v)) kvs)
      = Inr (map (\<lambda>(k, v). (k, py_of v)) kvs)"
    by (rule mapM_map_Inr) auto
  have f: "map fst (map (\<lambda>(k, v). (k, py_of v)) kvs) = map fst kvs"
    by (simp add: comp_def case_prod_unfold)
  have "sort_key fst (map (\<lambda>(k, v). (k, py_of v)) kvs) = map (\<lambda>(k, v). (k, py_of v)) kvs"
    by (rule sort_key_id_if_sorted) (unfold f, rule strict_sorted_imp_sorted[OF assms])
  then show ?thesis
    unfolding dict_items_def m rbind_simps Let_def f
    by (simp only: f distinct_adj_sorted_lt[OF assms] if_True)
qed

lemma encode_into_py_of: "bvalid v \<Longrightarrow> encode_into (py_of v) = Inr (benc v)"
proof (induction v)
  case (BSeq vs)
  then show ?case by (simp add: list_all_iff mapM_map_Inr[of vs encode_into py_of benc])
next
  case (BDict kvs)
  have "mapM (\<lambda>(k, v). rbind (encode_into v) (\<lambda>e. Inr (encode_bytes k @ e)))
          (map (\<lambda>(k, v). (k, py_of v)) kvs) = Inr (map (\<lambda>(k, v). encode_bytes k @ benc v) kvs)"
    using BDict by (intro mapM_map_Inr) (fastforce simp: list_all_iff)
  with BDict.prems show ?case
    by (simp add: dict_items_py_of benc_BDict_sorted benc_pairs_def)
qed auto

section \<open>Canonicity\<close>

text \<open>What a successful run of each of the three decoders says about its input.\<close>

lemma decode_canonical:
  "decode_at f bs d = Inr (v, rest) \<Longrightarrow>
     bs = benc v @ rest \<and> bvalid v \<and> d + bdepth v \<le> MAX_DEPTH_codec"
  "decode_list f bs d items = Inr (vs, rest) \<Longrightarrow>
     \<exists>ws. vs = items @ ws \<and> bs = concat (map benc ws) @ 101 # rest \<and> list_all bvalid ws \<and>
          (\<forall>w \<in> set ws. Suc d + bdepth w \<le> MAX_DEPTH_codec)"
  "decode_dict f bs d res prev = Inr (kvs, rest) \<Longrightarrow>
     \<exists>ws. kvs = res @ ws \<and> bs = benc_pairs ws @ 101 # rest \<and> bvalid (BDict ws) \<and>
          (\<forall>p. prev = Some p \<longrightarrow> (\<forall>k \<in> fst ` set ws. p < k)) \<and>
          (\<forall>(_, w) \<in> set ws. Suc d + bdepth w \<le> MAX_DEPTH_codec)"
proof (induction f bs d and f bs d items and f bs d res prev
    arbitrary: v rest and vs rest and kvs rest
    rule: decode_at_decode_list_decode_dict.induct)
  case (2 f bs depth)
  have ne: "bs \<noteq> []" "depth \<le> MAX_DEPTH_codec" and hd_tl: "bs = hd bs # tl bs"
    using 2(3) by (auto split: if_splits)
  consider (i) n where "hd bs = 105" "v = BInt n" "decode_int bs = Inr (n, rest)"
    | (l) vs where "hd bs = 108" "v = BSeq vs" "decode_list f (tl bs) depth [] = Inr (vs, rest)"
    | (d) kvs where "hd bs = 100" "v = BDict kvs" "decode_dict f (tl bs) depth [] None = Inr (kvs, rest)"
    | (b) b where "v = BBytes b" "decode_bytes bs = Inr (b, rest)"
    using 2(3) by (auto simp: rbind_Inr_conv Let_def split: if_splits)
  then show ?case
  proof cases
    case i
    then obtain r where "read_int_token (tl bs) 101 True = Inr (n, r)" "rest = tl r"
      by (auto simp: decode_int_def rbind_Inr_conv)
    with read_int_token_Inr[OF this(1)] i hd_tl ne show ?thesis
      by (cases r) auto
  next
    case l
    have "\<exists>ws. vs = [] @ ws \<and> tl bs = concat (map benc ws) @ 101 # rest \<and> list_all bvalid ws \<and>
          (\<forall>w \<in> set ws. Suc depth + bdepth w \<le> MAX_DEPTH_codec)"
      by (rule 2(1)) (use l ne in auto)
    with l hd_tl ne show ?thesis by (auto simp: bdepth_BSeq_le)
  next
    case d
    have "\<exists>ws. kvs = [] @ ws \<and> tl bs = benc_pairs ws @ 101 # rest \<and> bvalid (BDict ws) \<and>
          (\<forall>p. None = Some p \<longrightarrow> (\<forall>k \<in> fst ` set ws. p < k)) \<and>
          (\<forall>(_, w) \<in> set ws. Suc depth + bdepth w \<le> MAX_DEPTH_codec)"
      by (rule 2(2)) (use d ne in auto)
    with d hd_tl ne show ?thesis by (auto simp: bdepth_BDict_le benc_BDict_sorted)
  next
    case b
    with decode_bytes_Inr[OF b(2)] ne show ?thesis by auto
  qed
next
  case (4 f bs depth items)
  show ?case
  proof (cases "hd bs = 101")
    case True
    with 4(3) show ?thesis by (cases bs) (auto split: if_splits)
  next
    case False
    with 4(3) obtain item r where at: "decode_at f bs (depth + 1) = Inr (item, r)"
      and lst: "decode_list f r depth (items @ [item]) = Inr (vs, rest)" and ne: "bs \<noteq> []"
      by (auto simp: rbind_Inr_conv split: if_splits)
    from 4(1)[OF ne False at] 4(2)[OF ne False at refl lst] show ?thesis by fastforce
  qed
next
  case (6 f bs depth res prev)
  show ?case
  proof (cases "hd bs = 101")
    case True
    with 6(3) show ?thesis by (cases bs) (auto simp: benc_pairs_def split: if_splits)
  next
    case False
    with 6(3) obtain key r1 where ne: "bs \<noteq> []" "\<not> \<not> is_digit (hd bs)" and key: "decode_bytes bs = Inr (key, r1)"
      and ord: "\<not> (case prev of None \<Rightarrow> False | Some p \<Rightarrow> key = p)"
               "\<not> (case prev of None \<Rightarrow> False | Some p \<Rightarrow> key < p)"
      and tail: "rbind (decode_at f r1 (depth + 1))
         (\<lambda>(v, r2). decode_dict f r2 depth (res @ [(key, v)]) (Some key)) = Inr (kvs, rest)"
      by (auto simp: rbind_Inr_conv split: if_splits)
    then obtain w r2 where at: "decode_at f r1 (depth + 1) = Inr (w, r2)"
      and lst: "decode_dict f r2 depth (res @ [(key, w)]) (Some key) = Inr (kvs, rest)"
      by (auto simp: rbind_Inr_conv)
    from ord have lt: "prev = Some p \<Longrightarrow> p < key" for p by auto
    from 6(1)[OF ne(1) False ne(2) key refl ord at]
         6(2)[OF ne(1) False ne(2) key refl ord at refl lst]
         decode_bytes_Inr[OF key]
    obtain ws where ws: "kvs = (res @ [(key, w)]) @ ws" "r2 = benc_pairs ws @ 101 # rest"
      "bvalid (BDict ws)" "\<forall>k \<in> fst ` set ws. key < k"
      "\<forall>(_, w) \<in> set ws. Suc depth + bdepth w \<le> MAX_DEPTH_codec"
      "bs = encode_bytes key @ r1" "int_digits (int (length key)) \<le> MAX_INT_DIGITS"
      "r1 = benc w @ r2" "bvalid w" "Suc depth + bdepth w \<le> MAX_DEPTH_codec"
      by auto
    then show ?thesis
      by (intro exI[of _ "(key, w) # ws"]) (auto simp: benc_pairs_def dest!: lt intro: less_trans)
  qed
qed auto


lemma decode_Inr_iff: "decode raw = Inr v \<longleftrightarrow> bencodable v \<and> raw = benc v"
proof
  assume "decode raw = Inr v"
  then have "decode_at (2 * length raw + 2) raw 0 = Inr (v, [])"
    by (auto simp: decode_def rbind_Inr_conv split: if_splits)
  from decode_canonical(1)[OF this] show "bencodable v \<and> raw = benc v"
    by (simp add: bencodable_def)
qed (auto intro: decode_benc)

lemma encode_py_of: "bencodable v \<Longrightarrow> encode (py_of v) = Inr (benc v)"
  by (simp add: encode_def encode_into_py_of bencodable_def)

lemma benc_inj: "bencodable v \<Longrightarrow> bencodable w \<Longrightarrow> benc v = benc w \<Longrightarrow> v = w"
  by (metis decode_benc sum.inject(2))

section \<open>Errors\<close>

lemma read_int_token_error: "read_int_token bs t ok = Inl e \<Longrightarrow> e = CodecError"
  by (auto simp: read_int_token_def Let_def split: if_splits)

lemma decode_bytes_error: "decode_bytes bs = Inl e \<Longrightarrow> e = CodecError"
  by (auto simp: decode_bytes_def rbind_Inl_conv Let_def split: if_splits dest: read_int_token_error)

lemma decode_int_error: "decode_int bs = Inl e \<Longrightarrow> e = CodecError"
  by (auto simp: decode_int_def rbind_Inl_conv dest: read_int_token_error)

lemma decode_at_shorter: "decode_at f bs d = Inr (v, rest) \<Longrightarrow> length rest < length bs"
  using decode_canonical(1)[of f bs d v rest] by (auto simp: length_benc_pos Suc_le_eq)

lemma decode_bytes_shorter: "decode_bytes bs = Inr (b, rest) \<Longrightarrow> length rest < length bs"
  using decode_bytes_Inr[of bs b rest] by auto

text \<open>Enough fuel: no input runs the decoder out of it, so the loops of the sources end.\<close>

lemma decode_errors:
  "2 * length bs + 1 \<le> f \<Longrightarrow> decode_at f bs d = Inl e \<Longrightarrow> e = CodecError"
  "2 * length bs + 2 \<le> f \<Longrightarrow> decode_list f bs d items = Inl e \<Longrightarrow> e = CodecError"
  "2 * length bs + 2 \<le> f \<Longrightarrow> decode_dict f bs d res prev = Inl e \<Longrightarrow> e = CodecError"
proof (induction f bs d and f bs d items and f bs d res prev
    rule: decode_at_decode_list_decode_dict.induct)
  case (2 f bs depth)
  have len: "bs \<noteq> [] \<Longrightarrow> 2 * length (tl bs) + 2 \<le> f" using 2(3) by (cases bs) auto
  from 2(4) len 2(1,2) show ?case
    by (auto simp: rbind_Inl_conv Let_def split: if_splits dest: decode_int_error decode_bytes_error)
next
  case (4 f bs depth items)
  show ?case
  proof (cases "bs = [] \<or> hd bs = 101")
    case False
    then consider "decode_at f bs (depth + 1) = Inl e"
      | item r where "decode_at f bs (depth + 1) = Inr (item, r)"
          "decode_list f r depth (items @ [item]) = Inl e"
      using 4(4) by (auto simp: rbind_Inl_conv)
    then show ?thesis
    proof cases
      case 1
      with 4(1,3) False show ?thesis by auto
    next
      case 2
      from decode_at_shorter[OF 2(1)] 4(3) have "2 * length r + 2 \<le> f" by linarith
      with 4(2)[OF _ _ 2(1) refl _ 2(2)] False show ?thesis by auto
    qed
  qed (use 4(4) in \<open>auto split: if_splits\<close>)
next
  case (6 f bs depth res prev)
  show ?case
  proof (cases "\<exists>key r1. bs \<noteq> [] \<and> hd bs \<noteq> 101 \<and> is_digit (hd bs) \<and> decode_bytes bs = Inr (key, r1) \<and>
      \<not> (case prev of None \<Rightarrow> False | Some p \<Rightarrow> key = p) \<and>
      \<not> (case prev of None \<Rightarrow> False | Some p \<Rightarrow> key < p)")
    case True
    then obtain key r1 where ne: "bs \<noteq> []" "hd bs \<noteq> 101" "\<not> \<not> is_digit (hd bs)"
      and key: "decode_bytes bs = Inr (key, r1)"
      and ord: "\<not> (case prev of None \<Rightarrow> False | Some p \<Rightarrow> key = p)"
               "\<not> (case prev of None \<Rightarrow> False | Some p \<Rightarrow> key < p)" by blast
    have len: "2 * length r1 + 2 \<le> f" using decode_bytes_shorter[OF key] 6(3) by linarith
    consider "decode_at f r1 (depth + 1) = Inl e"
      | v r2 where "decode_at f r1 (depth + 1) = Inr (v, r2)"
          "decode_dict f r2 depth (res @ [(key, v)]) (Some key) = Inl e"
      using 6(4) ne key ord by (auto simp: rbind_Inl_conv)
    then show ?thesis
    proof cases
      case 1
      with 6(1)[OF ne key refl ord] len show ?thesis by auto
    next
      case 2
      from decode_at_shorter[OF 2(1)] len have "2 * length r2 + 2 \<le> f" by linarith
      with 6(2)[OF ne key refl ord 2(1) refl _ 2(2)] show ?thesis by auto
    qed
  qed (use 6(4) in \<open>auto simp: rbind_Inl_conv split: if_splits option.splits dest: decode_bytes_error\<close>)
qed auto

lemma decode_error: "decode raw = Inl e \<Longrightarrow> e = CodecError"
  using decode_errors(1)[of raw "2 * length raw + 2" 0 e]
  by (auto simp: decode_def rbind_Inl_conv simp del: decode_at.simps split: if_splits)

section \<open>The accessors\<close>

lemma accessor_simps [simp]:
  "as_int v = Inr n \<longleftrightarrow> v = BInt n" "as_bytes v = Inr b \<longleftrightarrow> v = BBytes b"
  "as_seq v None = Inr vs \<longleftrightarrow> v = BSeq vs"
  "as_seq v (Some k) = Inr vs \<longleftrightarrow> v = BSeq vs \<and> length vs = k"
  "as_dict v = Inr kvs \<longleftrightarrow> v = BDict kvs"
  by (cases v; auto)+

lemma accessor_errors:
  "as_int v = Inl e \<Longrightarrow> e = CodecError" "as_bytes v = Inl e \<Longrightarrow> e = CodecError"
  "as_seq v len = Inl e \<Longrightarrow> e = CodecError" "as_dict v = Inl e \<Longrightarrow> e = CodecError"
  by (cases v; auto split: option.splits if_splits)+

section \<open>Properties\<close>

text \<open>
  C17: The codec is canonical: a byte string decodes to a value exactly when the value is within
  the codec's limits and the byte string is what the encoder makes of it. So decoding inverts
  encoding, every accepted input is its value's only encoding, and no two values share one.
\<close>

theorem codec_canonical:
  "decode raw = Inr v \<longleftrightarrow> bencodable v \<and> encode (py_of v) = Inr raw"
  using decode_Inr_iff encode_py_of by auto

text \<open>
  C18: Decoding terminates on every input, with a value or with \<^verbatim>\<open>CodecError\<close>: no other
  exception is raised (no index error), and the fuel of the model, the length of the input, is never
  exhausted.
\<close>

theorem decode_raises_only_CodecError:
  "(\<exists>v. decode raw = Inr v) \<or> decode raw = Inl CodecError"
  by (cases "decode raw") (auto dest: decode_error)

end
