(* ===== verification/Quorum.thy ===== *)
theory Quorum
  imports Dude_Prelude
begin

text \<open>
  The quorum arithmetic of \<^verbatim>\<open>dude/quorum.py\<close> and the interface the consensus
  components rely on: two quorums of one roster share more members than the roster tolerates
  faulty ones.
\<close>

section \<open>The arithmetic\<close>

definition quorum_size :: "int \<Rightarrow> int res" where
  "quorum_size n = (if n < 1 then Inl QuorumError else Inr (- ((- 2 * n) div 3)))"

definition intersection :: "int \<Rightarrow> int res" where
  "intersection n = rbind (quorum_size n) (\<lambda>q. Inr (2 * q - n))"

definition tolerates :: "int \<Rightarrow> int res" where
  "tolerates n = rbind (intersection n) (\<lambda>i. Inr (max 0 (i - 1)))"

definition corroboration :: "int \<Rightarrow> int res" where
  "corroboration n = rbind (tolerates n) (\<lambda>t. Inr (t + 1))"

definition spare :: "int \<Rightarrow> int res" where
  "spare n = rbind (quorum_size n) (\<lambda>q. Inr (n - q))"

definition max_domain :: "int \<Rightarrow> int res" where
  "max_domain n = rbind (spare n) (\<lambda>s. rbind (tolerates n) (\<lambda>t. Inr (min s t)))"

definition satisfied :: "int \<Rightarrow> int \<Rightarrow> bool res" where
  "satisfied n agreeing = rbind (quorum_size n) (\<lambda>q. Inr (agreeing \<ge> q))"

definition would_brick :: "int \<Rightarrow> bool" where
  "would_brick n \<longleftrightarrow> n < 3"

text \<open>\<^verbatim>\<open>{d: c for d, c in counts.items() if c > limit}\<close> keeps the order of the mapping.\<close>

definition domain_advisory :: "(bytes \<times> int) list \<Rightarrow> int \<Rightarrow> (bytes \<times> int) list res" where
  "domain_advisory counts n = rbind (max_domain n) (\<lambda>limit. Inr (filter (\<lambda>(d, c). c > limit) counts))"

lemmas quorum_defs = quorum_size_def intersection_def tolerates_def corroboration_def spare_def
  max_domain_def satisfied_def

lemma quorum_size_Inr: "quorum_size n = Inr q \<longleftrightarrow> 1 \<le> n \<and> 2 * n \<le> 3 * q \<and> 3 * q < 2 * n + 3"
  by (auto simp: quorum_size_def)

lemma quorum_size_bounds: "quorum_size n = Inr q \<Longrightarrow> 1 \<le> q \<and> q \<le> n \<and> n < 2 * q"
  by (auto simp: quorum_size_Inr)

section \<open>The interface\<close>

text \<open>
  What a client of a quorum rule relies on: \<open>is_quorum R A\<close> says that the members \<open>A\<close> of the
  roster \<open>R\<close> are enough, \<open>slack R\<close> is how many members may misbehave.
\<close>

locale quorum_rule =
  fixes is_quorum :: "'a set \<Rightarrow> 'a set \<Rightarrow> bool"
    and slack :: "'a set \<Rightarrow> nat"
  assumes quorum_subset: "is_quorum R A \<Longrightarrow> A \<subseteq> R"
    and quorum_overlap: "finite R \<Longrightarrow> is_quorum R A \<Longrightarrow> is_quorum R B \<Longrightarrow> slack R < card (A \<inter> B)"
begin

text \<open>Two quorums share a member outside any set of at most \<open>slack R\<close> faulty ones.\<close>

lemma honest_in_both:
  assumes "finite R" "is_quorum R A" "is_quorum R B" "finite F" "card F \<le> slack R"
  shows "\<exists>p. p \<in> A \<and> p \<in> B \<and> p \<notin> F"
proof (rule ccontr)
  assume "\<nexists>p. p \<in> A \<and> p \<in> B \<and> p \<notin> F"
  then have "A \<inter> B \<subseteq> F" by auto
  then have "card (A \<inter> B) \<le> card F" using \<open>finite F\<close> by (rule card_mono[rotated])
  with quorum_overlap[OF assms(1-3)] assms(5) show False by simp
qed

text \<open>
  If the members of a roster vote for at most one value each, outside the faulty ones, at most one
  value gathers a quorum.
\<close>

lemma at_most_one_value:
  assumes "finite R" "is_quorum R {p \<in> R. votes p v}" "is_quorum R {p \<in> R. votes p w}"
    and "finite F" "card F \<le> slack R"
    and "\<And>p v w. p \<notin> F \<Longrightarrow> votes p v \<Longrightarrow> votes p w \<Longrightarrow> v = w"
  shows "v = w"
  using honest_in_both[OF assms(1-5)] assms(6) by blast

text \<open>More than \<open>slack R\<close> members voted for both of two values that both gathered a quorum.\<close>

lemma double_voters:
  assumes "finite R" "is_quorum R {p \<in> R. votes p v}" "is_quorum R {p \<in> R. votes p w}"
  shows "slack R < card {p \<in> R. votes p v \<and> votes p w}"
proof -
  have "{p \<in> R. votes p v} \<inter> {p \<in> R. votes p w} = {p \<in> R. votes p v \<and> votes p w}" by auto
  with quorum_overlap[OF assms] show ?thesis by simp
qed

end

definition enough :: "'a set \<Rightarrow> 'a set \<Rightarrow> bool" where
  "enough R A \<longleftrightarrow> A \<subseteq> R \<and> satisfied (int (card R)) (int (card A)) = Inr True"

definition tolerated :: "'a set \<Rightarrow> nat" where
  "tolerated R = (case tolerates (int (card R)) of Inl _ \<Rightarrow> 0 | Inr t \<Rightarrow> nat t)"

lemma enough_overlap:
  assumes "finite R" "enough R A" "enough R B"
  shows "tolerated R < card (A \<inter> B)"
proof -
  from assms obtain q where q: "quorum_size (int (card R)) = Inr q"
    and A: "A \<subseteq> R" "q \<le> int (card A)" and B: "B \<subseteq> R" "q \<le> int (card B)"
    by (auto simp: enough_def satisfied_def rbind_Inr_conv)
  have fin: "finite A" "finite B" using A B assms(1) by (auto intro: finite_subset)
  have "card (A \<union> B) \<le> card R" using A B assms(1) by (intro card_mono) auto
  moreover have "card A + card B = card (A \<union> B) + card (A \<inter> B)"
    using fin by (rule card_Un_Int)
  ultimately have "2 * q - int (card R) \<le> int (card (A \<inter> B))" using A B by linarith
  then show ?thesis
    using quorum_size_bounds[OF q] q
    by (simp add: tolerated_def tolerates_def intersection_def nat_less_iff)
qed

interpretation two_thirds: quorum_rule enough tolerated
  by unfold_locales (auto simp: enough_def intro: enough_overlap)

section \<open>Properties\<close>



end
