(* ===== verification/Crypto.thy ===== *)
theory Crypto
  imports Dude_Prelude Quorum
begin

text \<open>
  \<^verbatim>\<open>dude/core/crypto.py\<close>: fixed-width byte strings, hashing, keys, the point
  accumulator, signer bitmaps and list multisignatures.

  The primitives themselves (BLAKE2b, Ed25519 and its group, sealed boxes) are C code behind
  \<^verbatim>\<open>hashlib\<close> and \<^verbatim>\<open>nacl\<close>; they are the fields of the record \<open>prims\<close>, an
  argument of every definition that uses them. What a theorem needs of them is a named
  hypothesis: \<open>sign_correct\<close> (a signature made with a seed verifies under its public key),
  \<open>digest_width\<close> (a digest has the width asked for), \<open>acc_laws\<close> (the points the accumulator
  uses form a commutative group).
\<close>

record prims =
  blake2b :: "bytes \<Rightarrow> bytes \<Rightarrow> nat \<Rightarrow> bytes \<Rightarrow> bytes" \<comment> \<open>key, person, digest size, data\<close>
  ed25519_public :: "bytes \<Rightarrow> bytes"
  ed25519_sign :: "bytes \<Rightarrow> bytes \<Rightarrow> bytes"
  ed25519_is_valid_point :: "bytes \<Rightarrow> bool"
  ed25519_verify_raw :: "bytes \<Rightarrow> bytes \<Rightarrow> bytes \<Rightarrow> bool" \<comment> \<open>key, message, signature\<close>
  ed25519_from_uniform :: "bytes \<Rightarrow> bytes"
  ed25519_add :: "bytes \<Rightarrow> bytes \<Rightarrow> bytes"
  ed25519_sub :: "bytes \<Rightarrow> bytes \<Rightarrow> bytes"

type_synonym digest = bytes
type_synonym public_key = bytes
type_synonym signature = bytes
type_synonym accumulator = bytes
type_synonym seed = bytes

section \<open>Fixed-width byte strings and hashing\<close>

definition DIGEST_SIZE :: nat where "DIGEST_SIZE = 32"
definition ACC_SIZE :: nat where "ACC_SIZE = 32"
definition SIG_SIZE :: nat where "SIG_SIZE = 64"
definition KEY_SIZE :: nat where "KEY_SIZE = 32"

lemmas crypto_sizes [simp] = DIGEST_SIZE_def ACC_SIZE_def SIG_SIZE_def KEY_SIZE_def

text \<open>The constructor of a \<^verbatim>\<open>_Fixed\<close> subclass of width \<open>w\<close>.\<close>

definition fixed :: "nat \<Rightarrow> bytes \<Rightarrow> bytes res" where
  "fixed w raw = (if length raw \<noteq> w then Inl CryptoError else Inr raw)"

abbreviation Digest :: "bytes \<Rightarrow> digest res" where "Digest \<equiv> fixed DIGEST_SIZE"
abbreviation PublicKey :: "bytes \<Rightarrow> public_key res" where "PublicKey \<equiv> fixed KEY_SIZE"
abbreviation Signature :: "bytes \<Rightarrow> signature res" where "Signature \<equiv> fixed SIG_SIZE"
abbreviation Accumulator :: "bytes \<Rightarrow> accumulator res" where "Accumulator \<equiv> fixed ACC_SIZE"

lemma fixed_Inr [simp]: "fixed w raw = Inr b \<longleftrightarrow> length raw = w \<and> b = raw"
  by (auto simp: fixed_def)

lemma fixed_error: "fixed w raw = Inl e \<Longrightarrow> e = CryptoError"
  by (auto simp: fixed_def split: if_splits)

lemma fixed_ok [simp]: "length raw = w \<Longrightarrow> fixed w raw = Inr raw"
  by simp

definition h :: "prims \<Rightarrow> bytes \<Rightarrow> digest" where
  "h c data = blake2b c [] [] DIGEST_SIZE data"

definition h_domain :: "prims \<Rightarrow> bytes \<Rightarrow> bytes \<Rightarrow> digest" where
  "h_domain c person data = blake2b c [] person DIGEST_SIZE data"

definition digest_width :: "prims \<Rightarrow> bool" where
  "digest_width c \<longleftrightarrow> (\<forall>key person n data. length (blake2b c key person n data) = n)"

lemma length_h: "digest_width c \<Longrightarrow> length (h c data) = 32"
  by (simp add: h_def digest_width_def)

lemma length_h_domain: "digest_width c \<Longrightarrow> length (h_domain c p data) = 32"
  by (simp add: h_domain_def digest_width_def)

section \<open>The point accumulator\<close>

definition PERSON_ACC :: bytes where "PERSON_ACC = ascii ''dude.acc:v1''"

definition ACC_IDENTITY :: accumulator where
  "ACC_IDENTITY = 1 # replicate (ACC_SIZE - 1) 0"

definition acc_element :: "prims \<Rightarrow> bytes \<Rightarrow> accumulator" where
  "acc_element c enc = ed25519_from_uniform c (h c (PERSON_ACC @ enc))"

definition acc_add :: "prims \<Rightarrow> accumulator \<Rightarrow> accumulator \<Rightarrow> accumulator" where
  "acc_add c a b = ed25519_add c a b"

definition acc_sub :: "prims \<Rightarrow> accumulator \<Rightarrow> accumulator \<Rightarrow> accumulator" where
  "acc_sub c a b = ed25519_sub c a b"

text \<open>
  The points reachable by the accumulator form a commutative group with \<^const>\<open>ACC_IDENTITY\<close>
  as unit: \<open>G\<close> is the set of encodings of curve points.
\<close>

definition acc_laws :: "prims \<Rightarrow> bytes set \<Rightarrow> bool" where
  "acc_laws c G \<longleftrightarrow>
     ACC_IDENTITY \<in> G \<and> (\<forall>a \<in> G. length a = ACC_SIZE) \<and> (\<forall>x. ed25519_from_uniform c x \<in> G) \<and>
     (\<forall>a \<in> G. \<forall>b \<in> G. ed25519_add c a b \<in> G \<and> ed25519_sub c a b \<in> G) \<and>
     (\<forall>a \<in> G. ed25519_add c ACC_IDENTITY a = a) \<and>
     (\<forall>a \<in> G. \<forall>b \<in> G. ed25519_add c a b = ed25519_add c b a) \<and>
     (\<forall>a \<in> G. \<forall>b \<in> G. \<forall>d \<in> G. ed25519_add c (ed25519_add c a b) d = ed25519_add c a (ed25519_add c b d)) \<and>
     (\<forall>a \<in> G. \<forall>b \<in> G. ed25519_sub c (ed25519_add c a b) b = a) \<and>
     (\<forall>a \<in> G. \<forall>b \<in> G. ed25519_add c (ed25519_sub c a b) b = a)"

lemma acc_lawsD:
  assumes "acc_laws c G"
  shows acc_identity_in: "ACC_IDENTITY \<in> G"
    and acc_length: "a \<in> G \<Longrightarrow> length a = 32"
    and acc_element_in: "acc_element c x \<in> G"
    and acc_add_in: "a \<in> G \<Longrightarrow> b \<in> G \<Longrightarrow> acc_add c a b \<in> G"
    and acc_sub_in: "a \<in> G \<Longrightarrow> b \<in> G \<Longrightarrow> acc_sub c a b \<in> G"
    and acc_add_left_id: "a \<in> G \<Longrightarrow> acc_add c ACC_IDENTITY a = a"
    and acc_add_commute: "a \<in> G \<Longrightarrow> b \<in> G \<Longrightarrow> acc_add c a b = acc_add c b a"
    and acc_add_assoc: "a \<in> G \<Longrightarrow> b \<in> G \<Longrightarrow> d \<in> G \<Longrightarrow>
          acc_add c (acc_add c a b) d = acc_add c a (acc_add c b d)"
    and acc_sub_add: "a \<in> G \<Longrightarrow> b \<in> G \<Longrightarrow> acc_sub c (acc_add c a b) b = a"
    and acc_add_sub: "a \<in> G \<Longrightarrow> b \<in> G \<Longrightarrow> acc_add c (acc_sub c a b) b = a"
  using assms unfolding acc_laws_def acc_element_def acc_add_def acc_sub_def by auto

section \<open>Keys and signatures\<close>

datatype VerifyFailure = BAD_SIGNATURE | MALFORMED_KEY

text \<open>
  \<^verbatim>\<open>_ed25519_verify\<close>. The key cache of the sources only avoids rebuilding a
  \<^verbatim>\<open>VerifyKey\<close>, it never changes the answer.
\<close>

definition ed25519_verify :: "prims \<Rightarrow> public_key \<Rightarrow> bytes \<Rightarrow> signature \<Rightarrow> VerifyFailure option" where
  "ed25519_verify c pk msg sig =
     (if \<not> ed25519_is_valid_point c pk then Some MALFORMED_KEY
      else if \<not> ed25519_verify_raw c pk msg sig then Some BAD_SIGNATURE
      else None)"

definition pk_verify :: "prims \<Rightarrow> public_key \<Rightarrow> bytes \<Rightarrow> signature \<Rightarrow> bool" where
  "pk_verify c pk msg sig = (ed25519_verify c pk msg sig = None)"

text \<open>A \<^verbatim>\<open>Keypair\<close> is its seed; its public half is derived.\<close>

definition kp_public :: "prims \<Rightarrow> seed \<Rightarrow> public_key" where
  "kp_public c kp = ed25519_public c kp"

definition kp_sign :: "prims \<Rightarrow> seed \<Rightarrow> bytes \<Rightarrow> signature" where
  "kp_sign c kp msg = ed25519_sign c kp msg"

definition POP_PREFIX :: bytes where "POP_PREFIX = ascii ''dude.pop:''"

definition prove_possession :: "prims \<Rightarrow> seed \<Rightarrow> signature" where
  "prove_possession c kp = kp_sign c kp (POP_PREFIX @ kp_public c kp)"

definition verify_possession :: "prims \<Rightarrow> public_key \<Rightarrow> signature \<Rightarrow> bool" where
  "verify_possession c pk pop = pk_verify c pk (POP_PREFIX @ pk) pop"

definition sign_correct :: "prims \<Rightarrow> bool" where
  "sign_correct c \<longleftrightarrow> (\<forall>kp msg. ed25519_is_valid_point c (ed25519_public c kp) \<and>
     ed25519_verify_raw c (ed25519_public c kp) msg (ed25519_sign c kp msg))"

lemma kp_sign_verifies [simp]: "sign_correct c \<Longrightarrow> pk_verify c (kp_public c kp) msg (kp_sign c kp msg)"
  by (simp add: pk_verify_def ed25519_verify_def kp_public_def kp_sign_def sign_correct_def)

lemma possession_verifies: "sign_correct c \<Longrightarrow> verify_possession c (kp_public c kp) (prove_possession c kp)"
  by (simp add: verify_possession_def prove_possession_def)

section \<open>Signer bitmaps\<close>

definition bitmap_size :: "nat \<Rightarrow> nat" where
  "bitmap_size n = (n + 7) div 8"

text \<open>\<^verbatim>\<open>0x80 >> (i & 7)\<close>, the mask of signer \<open>i\<close> inside its byte.\<close>

definition bit_mask :: "nat \<Rightarrow> byte" where
  "bit_mask i = drop_bit (i mod 8) 128"

fun bitmap_loop :: "int list \<Rightarrow> nat \<Rightarrow> bytes \<Rightarrow> bytes res" where
  "bitmap_loop [] n buf = Inr buf"
| "bitmap_loop (i # is) n buf =
     (if \<not> (0 \<le> i \<and> i < int n) then Inl CryptoError
      else bitmap_loop is n (buf[nat i div 8 := (buf ! (nat i div 8)) OR bit_mask (nat i)]))"

definition bitmap_set :: "int list \<Rightarrow> nat \<Rightarrow> bytes res" where
  "bitmap_set indices n = bitmap_loop indices n (replicate ((n + 7) div 8) 0)"

definition bitmap_indices :: "bytes \<Rightarrow> nat \<Rightarrow> nat list res" where
  "bitmap_indices bitmap n =
     (if length bitmap \<noteq> (n + 7) div 8 then Inl CryptoError
      else Inr (filter (\<lambda>i. bitmap ! (i div 8) AND bit_mask i \<noteq> 0) [0..<n]))"

definition bitmap_count :: "bytes \<Rightarrow> nat \<Rightarrow> nat res" where
  "bitmap_count bitmap n = rbind (bitmap_indices bitmap n) (\<lambda>is. Inr (length is))"

section \<open>Multisignatures\<close>

record MultiSig =
  ms_bitmap :: bytes
  ms_sigs :: "signature list"

definition UNSIGNED_ms :: MultiSig where
  "UNSIGNED_ms = \<lparr>ms_bitmap = [], ms_sigs = []\<rparr>"

text \<open>
  \<^verbatim>\<open>MultiSig.combine(shares_by_index, n)\<close>; the dict of shares is an association list with
  distinct indices.
\<close>

definition ms_combine :: "(int \<times> signature) list \<Rightarrow> nat \<Rightarrow> MultiSig res" where
  "ms_combine shares n =
     (let indices = sort (map fst shares) in
      rbind (bitmap_set indices n) (\<lambda>bm.
      rbind (mapM (\<lambda>i. case map_of shares i of None \<Rightarrow> Inl KeyError | Some s \<Rightarrow> Inr s) indices)
        (\<lambda>sigs. Inr \<lparr>ms_bitmap = bm, ms_sigs = sigs\<rparr>)))"

definition ms_indices :: "MultiSig \<Rightarrow> nat \<Rightarrow> nat list res" where
  "ms_indices ms n = bitmap_indices (ms_bitmap ms) n"

definition ms_count :: "MultiSig \<Rightarrow> nat \<Rightarrow> nat res" where
  "ms_count ms n = rbind (ms_indices ms n) (\<lambda>is. Inr (length is))"

definition ms_verify :: "prims \<Rightarrow> MultiSig \<Rightarrow> bytes \<Rightarrow> public_key list \<Rightarrow> bool res" where
  "ms_verify c ms msg signers =
     (if length (ms_bitmap ms) \<noteq> bitmap_size (length signers) then Inr False
      else rbind (ms_indices ms (length signers)) (\<lambda>indices.
        if length indices \<noteq> length (ms_sigs ms) then Inr False
        else Inr (list_all (\<lambda>(idx, sig). pk_verify c (signers ! idx) msg sig)
                    (zip indices (ms_sigs ms)))))"

section \<open>Lemmas\<close>

lemma bit_128: "bit (128 :: byte) j \<longleftrightarrow> j = 7"
proof -
  have eq: "(128 :: byte) = 2 ^ 7" by simp
  have "possible_bit TYPE(byte) 7" by simp
  then show ?thesis unfolding eq bit_exp_iff by blast
qed

lemma bit_mask_iff: "bit (bit_mask i) k \<longleftrightarrow> k = 7 - i mod 8"
proof -
  have "i mod 8 < 8" by simp
  then show ?thesis
    unfolding bit_mask_def bit_drop_bit_eq comp_def bit_128 by linarith
qed

lemma and_bit_mask: "w AND bit_mask i \<noteq> 0 \<longleftrightarrow> bit w (7 - i mod 8)"
proof -
  have "w AND bit_mask i = 0 \<longleftrightarrow> (\<forall>k. \<not> bit (w AND bit_mask i) k)"
    using bit_eqI[of "w AND bit_mask i" 0] by auto
  then show ?thesis by (auto simp: bit_and_iff bit_mask_iff)
qed

lemma bit_or_mask: "bit (w OR bit_mask i) k \<longleftrightarrow> bit w k \<or> k = 7 - i mod 8"
  by (auto simp: bit_simps bit_mask_iff)

definition has_signer :: "bytes \<Rightarrow> nat \<Rightarrow> bool" where
  "has_signer bm i \<longleftrightarrow> bit (bm ! (i div 8)) (7 - i mod 8)"

lemma seven_minus_inj: "7 - i mod 8 = 7 - j mod 8 \<longleftrightarrow> i mod 8 = j mod (8 :: nat)"
proof -
  have "i mod 8 < 8" "j mod 8 < 8" by simp_all
  then show ?thesis by linarith
qed

lemma has_signer_set_bit:
  assumes "i div 8 < length bm"
  shows "has_signer (bm[i div 8 := bm ! (i div 8) OR bit_mask i]) j \<longleftrightarrow> has_signer bm j \<or> j = i"
proof (cases "j div 8 = i div 8")
  case True
  then have "j = i \<longleftrightarrow> j mod 8 = i mod 8" by (metis div_mult_mod_eq)
  with True assms show ?thesis
    by (simp add: has_signer_def bit_or_mask seven_minus_inj)
next
  case False
  then show ?thesis by (auto simp: has_signer_def)
qed

lemma index_in_bitmap: "i < n \<Longrightarrow> i div 8 < (n + 7) div (8 :: nat)"
  using div_le_mono[of "i + 8" "n + 7" 8] by simp

lemma bitmap_loop_ok:
  assumes "\<forall>i \<in> set is. 0 \<le> i \<and> i < int n" "length buf = (n + 7) div 8"
  shows "\<exists>bm. bitmap_loop is n buf = Inr bm \<and> length bm = (n + 7) div 8 \<and>
              (\<forall>j. has_signer bm j \<longleftrightarrow> has_signer buf j \<or> int j \<in> set is)"
  using assms
proof (induction "is" arbitrary: buf)
  case (Cons i "is")
  let ?i = "nat i"
  let ?buf = "buf[?i div 8 := buf ! (?i div 8) OR bit_mask ?i]"
  have i: "?i < n" "0 \<le> i" using Cons.prems by auto
  have "\<exists>bm. bitmap_loop is n ?buf = Inr bm \<and> length bm = (n + 7) div 8 \<and>
          (\<forall>j. has_signer bm j \<longleftrightarrow> has_signer ?buf j \<or> int j \<in> set is)"
    using Cons.prems by (intro Cons.IH) auto
  moreover have "has_signer ?buf j \<longleftrightarrow> has_signer buf j \<or> int j = i" for j
    using has_signer_set_bit[of ?i buf j] index_in_bitmap[OF i(1)] i Cons.prems(2) by auto
  ultimately show ?case using Cons.prems by auto
qed simp

lemma bitmap_indices_eq:
  "length bm = (n + 7) div 8 \<Longrightarrow> bitmap_indices bm n = Inr (filter (has_signer bm) [0..<n])"
  by (simp add: bitmap_indices_def and_bit_mask has_signer_def[abs_def])

lemma bitmap_set_indices:
  assumes "\<forall>i \<in> set is. 0 \<le> i \<and> i < int n"
  shows "\<exists>bm. bitmap_set is n = Inr bm \<and> length bm = bitmap_size n \<and>
              bitmap_indices bm n = Inr (filter (\<lambda>j. int j \<in> set is) [0..<n])"
proof -
  obtain bm where bm: "bitmap_set is n = Inr bm" "length bm = (n + 7) div 8"
    "\<forall>j. has_signer bm j \<longleftrightarrow> has_signer (replicate ((n + 7) div 8) 0) j \<or> int j \<in> set is"
    using bitmap_loop_ok[OF assms, of "replicate ((n + 7) div 8) 0"] unfolding bitmap_set_def by auto
  have "filter (has_signer bm) [0..<n] = filter (\<lambda>j. int j \<in> set is) [0..<n]"
    by (rule filter_cong) (use bm(3) in \<open>auto simp: has_signer_def index_in_bitmap\<close>)
  with bm show ?thesis by (simp add: bitmap_indices_eq bitmap_size_def)
qed

lemma bitmap_set_error: "bitmap_set is n = Inl e \<Longrightarrow> e = CryptoError"
proof -
  have "bitmap_loop is n buf = Inl e \<Longrightarrow> e = CryptoError" for buf
    by (induction "is" arbitrary: buf) (auto split: if_splits)
  then show "bitmap_set is n = Inl e \<Longrightarrow> e = CryptoError" unfolding bitmap_set_def by blast
qed

text \<open>A verification never raises: a bitmap of the wrong width is a refusal.\<close>

lemma ms_verify_total: "\<exists>b. ms_verify c ms msg signers = Inr b"
  by (auto simp: ms_verify_def ms_indices_def bitmap_indices_def bitmap_size_def)

text \<open>What an accepted multisignature says: every signer it names signed the message.\<close>

lemma ms_verify_True:
  assumes "ms_verify c ms msg signers = Inr True"
  obtains idxs where "ms_indices ms (length signers) = Inr idxs" "sorted idxs" "distinct idxs"
    "set idxs \<subseteq> {..<length signers}"
    "\<forall>i \<in> set idxs. \<exists>sig \<in> set (ms_sigs ms). pk_verify c (signers ! i) msg sig"
proof -
  let ?n = "length signers"
  have w: "length (ms_bitmap ms) = (?n + 7) div 8"
    using assms by (auto simp: ms_verify_def bitmap_size_def split: if_splits)
  define idxs where "idxs = filter (has_signer (ms_bitmap ms)) [0..<?n]"
  have i: "ms_indices ms ?n = Inr idxs"
    using w by (simp add: ms_indices_def bitmap_indices_eq idxs_def)
  have len: "length idxs = length (ms_sigs ms)"
    and all: "list_all (\<lambda>(idx, sig). pk_verify c (signers ! idx) msg sig) (zip idxs (ms_sigs ms))"
    using assms w i by (auto simp: ms_verify_def bitmap_size_def split: if_splits)
  have "\<exists>sig \<in> set (ms_sigs ms). pk_verify c (signers ! k) msg sig" if "k \<in> set idxs" for k
  proof -
    from that obtain j where "j < length idxs" "idxs ! j = k" by (auto simp: in_set_conv_nth)
    then have "(k, ms_sigs ms ! j) \<in> set (zip idxs (ms_sigs ms))"
      using len by (metis (no_types, lifting) in_set_zip fst_conv snd_conv)
    with all len \<open>j < length idxs\<close> show ?thesis by (auto simp: list_all_iff)
  qed
  moreover have "sorted idxs" "distinct idxs" "set idxs \<subseteq> {..<?n}"
    by (auto simp: idxs_def sorted_wrt_filter)
  ultimately show thesis using i that by blast
qed

end
