(* ===== verification/Wire.thy ===== *)
theory Wire
  imports Codec_Canonical Crypto
begin

text \<open>
  The interface every wire type of the program offers: an encoder and a decoder that inverts it
  on the well-formed values. The carrier of the encoding is a byte string, or a bencodable value
  where a type is embedded in another one. Each component interprets \<open>wire\<close> on its own
  encoder and decoder.
\<close>

locale wire =
  fixes enc :: "'a \<Rightarrow> 'w"
    and dec :: "'w \<Rightarrow> 'e + 'a"
    and ok :: "'a \<Rightarrow> bool"
  assumes dec_enc: "ok x \<Longrightarrow> dec (enc x) = Inr x"
begin

lemma enc_inject: "ok x \<Longrightarrow> ok y \<Longrightarrow> enc x = enc y \<Longrightarrow> x = y"
  by (metis dec_enc sum.inject(2))

lemma dec_enc_list: "list_all ok xs \<Longrightarrow> mapM dec (map enc xs) = Inr xs"
  by (rule mapM_inverse) (auto simp: list_all_iff dec_enc)

lemma enc_inject_on: "inj_on enc {x. ok x}"
  by (rule inj_onI) (auto intro: enc_inject)

end

text \<open>From here on encodings are opaque: they are read through the decoder.\<close>

declare benc.simps [simp del] decode_at.simps [simp del] decode_list.simps [simp del]
  decode_dict.simps [simp del] encode_into.simps [simp del]

text \<open>The codec itself, on bencodable values.\<close>

interpretation bencode: wire benc decode bencodable
  by unfold_locales (rule decode_benc)

text \<open>Reading a tuple of known length off an encoded value, and a tuple of any length.\<close>

definition decode_seq :: "bytes \<Rightarrow> nat option \<Rightarrow> bval list res" where
  "decode_seq raw len = rbind (decode raw) (\<lambda>v. as_seq v len)"

lemma decode_seq_benc [simp]:
  "bencodable (BSeq vs) \<Longrightarrow> decode_seq (benc (BSeq vs)) None = Inr vs"
  "bencodable (BSeq vs) \<Longrightarrow> length vs = n \<Longrightarrow> decode_seq (benc (BSeq vs)) (Some n) = Inr vs"
  by (simp_all add: decode_seq_def decode_benc)

lemma decode_seq_error: "decode_seq raw len = Inl e \<Longrightarrow> e = CodecError"
  by (auto simp: decode_seq_def rbind_Inl_conv dest: decode_error accessor_errors(3))

lemma decode_seq_Inr:
  "decode_seq raw len = Inr vs \<Longrightarrow>
     raw = benc (BSeq vs) \<and> bencodable (BSeq vs) \<and> (\<forall>n. len = Some n \<longrightarrow> length vs = n)"
  by (cases len) (auto simp: decode_seq_def rbind_Inr_conv decode_Inr_iff)

text \<open>The byte strings of a tuple: \<^verbatim>\<open>tuple(codec.as_bytes(x) for x in codec.as_seq(v))\<close>.\<close>

definition as_bytes_seq :: "bval \<Rightarrow> bytes list res" where
  "as_bytes_seq v = rbind (as_seq v None) (mapM as_bytes)"

lemma as_bytes_seq_map [simp]: "as_bytes_seq (BSeq (map BBytes bs)) = Inr bs"
  by (simp add: as_bytes_seq_def)

lemma mapM_fixed [simp]: "\<forall>d \<in> set ds. length d = w \<Longrightarrow> mapM (fixed w) ds = Inr ds"
  by (induction ds) (auto simp: fixed_ok)

end
