(* ===== verification/Sample_Prims.thy ===== *)
theory Sample_Prims
  imports Crypto
begin

text \<open>
  A concrete instance of the record \<^typ>\<open>prims\<close>, on which the hypotheses about primitives are
  shown to be satisfiable and on which the witnesses evaluate. It has the widths and the laws of
  the real primitives and none of their hardness. \<open>sample xs\<close> numbers the hash inputs \<open>xs\<close> and
  answers with the number, so that it does not collide on them; a signature is the padded key;
  the accumulator adds modulo \<open>256 ^ 32\<close>.
\<close>

definition position :: "'a list \<Rightarrow> 'a \<Rightarrow> nat" where
  "position xs x = length (takeWhile (\<lambda>y. y \<noteq> x) xs)"

definition pad_to :: "nat \<Rightarrow> bytes \<Rightarrow> bytes" where
  "pad_to n b = take n (b @ replicate n 0)"

definition sample_mod :: int where "sample_mod = 256 ^ 32"

definition acc_num :: "bytes \<Rightarrow> int" where
  "acc_num b = int (from_bytes b)"

definition num_acc :: "int \<Rightarrow> bytes" where
  "num_acc n = be_bytes 32 (nat (n mod sample_mod))"

definition sample :: "bytes list \<Rightarrow> prims" where
  "sample xs =
     \<lparr>blake2b = (\<lambda>key person n data. be_bytes n (Suc (position xs (key @ person @ data)))),
      ed25519_public = (\<lambda>seed. pad_to 32 seed),
      ed25519_sign = (\<lambda>seed msg. pad_to 64 (pad_to 32 seed)),
      ed25519_is_valid_point = (\<lambda>pk. length pk = 32),
      ed25519_verify_raw = (\<lambda>pk msg sig. sig = pad_to 64 pk),
      ed25519_from_uniform = (\<lambda>x. pad_to 32 x),
      ed25519_add = (\<lambda>a b. num_acc (acc_num a + acc_num b - acc_num ACC_IDENTITY)),
      ed25519_sub = (\<lambda>a b. num_acc (acc_num a - acc_num b + acc_num ACC_IDENTITY))\<rparr>"

lemma length_pad_to [simp]: "length (pad_to n b) = n"
  by (simp add: pad_to_def)

lemma sample_digest_width: "digest_width (sample xs)"
  by (simp add: digest_width_def sample_def)

lemma sample_sign_correct: "sign_correct (sample xs)"
  by (simp add: sign_correct_def sample_def)

lemma position_inject:
  assumes "x \<in> set xs" "position xs x = position xs y"
  shows "x = y"
proof -
  have at: "xs ! position xs z = z" if "position xs z < length xs" for z
    using nth_length_takeWhile[of "\<lambda>y. y \<noteq> z" xs] that unfolding position_def by blast
  have lt: "position xs x < length xs"
    using assms(1) unfolding position_def by (induction xs) auto
  have "position xs y < length xs" using lt assms(2) by (rule subst[where P = "\<lambda>n. n < length xs", rotated])
  then have "xs ! position xs x = y" unfolding assms(2) by (rule at)
  then show ?thesis using at[OF lt] by (rule trans[OF sym, rotated])
qed

lemma position_le: "position xs x \<le> length xs"
  unfolding position_def by (rule length_takeWhile_le)

text \<open>The sample hash separates the listed inputs from each other and from every other input.\<close>

lemma sample_h_inject:
  assumes "x \<in> set xs" "length xs < 2 ^ 16" "blake2b (sample xs) [] p 32 d = blake2b (sample xs) [] q 32 e"
    "p @ d = x"
  shows "p @ d = q @ e"
proof -
  let ?m = "Suc (position xs (p @ d))" and ?n = "Suc (position xs (q @ e))"
  have big: "(2 ^ 16 :: nat) < 256 ^ 32" by simp
  have "?m \<le> 2 ^ 16" "?n \<le> 2 ^ 16"
    using position_le[of xs "p @ d"] position_le[of xs "q @ e"] assms(2)
    by (auto intro!: Suc_leI elim: le_less_trans simp del: power_numeral)
  then have "?m < 256 ^ 32" "?n < 256 ^ 32" using big by (blast intro: le_less_trans)+
  moreover have "be_bytes 32 ?m = be_bytes 32 ?n" using assms(3) by (simp add: sample_def)
  ultimately have "?m = ?n" using from_bytes_be_bytes by metis
  then show ?thesis using position_inject[of x xs] assms(1,4) by auto
qed

lemma sample_mod_pos: "0 < sample_mod"
  by (simp add: sample_mod_def)

lemma length_num_acc [simp]: "length (num_acc n) = 32"
  by (simp add: num_acc_def)

lemma acc_num_num_acc: "acc_num (num_acc n) = n mod sample_mod"
proof -
  have "n mod sample_mod < 256 ^ 32" "0 \<le> n mod sample_mod"
    using pos_mod_bound[OF sample_mod_pos, of n] pos_mod_sign[OF sample_mod_pos, of n]
    unfolding sample_mod_def by blast+
  then have "nat (n mod sample_mod) < 256 ^ 32"
    by (metis nat_less_iff of_nat_numeral of_nat_power)
  then have "from_bytes (be_bytes 32 (nat (n mod sample_mod))) = nat (n mod sample_mod)"
    by (rule from_bytes_be_bytes)
  then show ?thesis
    using \<open>0 \<le> n mod sample_mod\<close> unfolding acc_num_def num_acc_def by (metis nat_0_le)
qed

lemma num_acc_acc_num: "length b = 32 \<Longrightarrow> num_acc (acc_num b) = b"
proof -
  assume len: "length b = 32"
  have "int (from_bytes b) < int (256 ^ 32)"
    using from_bytes_bound[of b] len by (simp only: of_nat_less_iff)
  then have lt: "acc_num b < sample_mod"
    unfolding acc_num_def sample_mod_def by (simp only: of_nat_power of_nat_numeral)
  have "0 \<le> acc_num b" unfolding acc_num_def by (rule of_nat_0_le_iff)
  then have "acc_num b mod sample_mod = acc_num b" using lt by (rule mod_pos_pos_trivial)
  then have "num_acc (acc_num b) = be_bytes 32 (from_bytes b)"
    unfolding num_acc_def by (simp add: acc_num_def)
  then show ?thesis using be_bytes_from_bytes[of b] len by simp
qed

lemma num_acc_cong: "x mod sample_mod = y mod sample_mod \<Longrightarrow> num_acc x = num_acc y"
  by (simp add: num_acc_def)

lemma num_acc_left: "num_acc (x mod sample_mod + y - z) = num_acc (x + y - z)"
  and num_acc_right: "num_acc (y + x mod sample_mod - z) = num_acc (y + x - z)"
  and num_acc_minus: "num_acc (x mod sample_mod - y + z) = num_acc (x - y + z)"
proof -
  have "(x mod sample_mod + w) mod sample_mod = (x + w) mod sample_mod" for w
    by (rule mod_add_left_eq)
  from this[of "y - z"] this[of "z - y"]
  show "num_acc (x mod sample_mod + y - z) = num_acc (x + y - z)"
    "num_acc (y + x mod sample_mod - z) = num_acc (y + x - z)"
    "num_acc (x mod sample_mod - y + z) = num_acc (x - y + z)"
    by (auto intro!: num_acc_cong simp: algebra_simps)
qed

text \<open>The sample accumulator is a commutative group on the byte strings of width 32.\<close>

lemma sample_acc_laws: "acc_laws (sample xs) {b. length b = 32}"
proof -
  have add: "ed25519_add (sample xs) a b = num_acc (acc_num a + acc_num b - acc_num ACC_IDENTITY)"
    and sub: "ed25519_sub (sample xs) a b = num_acc (acc_num a - acc_num b + acc_num ACC_IDENTITY)"
    and uni: "ed25519_from_uniform (sample xs) x = pad_to 32 x" for a b x
    by (simp_all add: sample_def)
  show ?thesis
    unfolding acc_laws_def add sub uni
  proof (intro conjI ballI)
    fix a b d :: bytes
    assume a: "a \<in> {b. length b = 32}"
    show "num_acc (acc_num ACC_IDENTITY + acc_num a - acc_num ACC_IDENTITY) = a"
      using a by (simp add: num_acc_acc_num)
    show "num_acc (acc_num a + acc_num b - acc_num ACC_IDENTITY)
        = num_acc (acc_num b + acc_num a - acc_num ACC_IDENTITY)"
      by (simp add: add.commute)
    show "num_acc (acc_num (num_acc (acc_num a + acc_num b - acc_num ACC_IDENTITY)) + acc_num d
          - acc_num ACC_IDENTITY)
        = num_acc (acc_num a + acc_num (num_acc (acc_num b + acc_num d - acc_num ACC_IDENTITY))
          - acc_num ACC_IDENTITY)"
      unfolding acc_num_num_acc num_acc_left num_acc_right num_acc_minus by (simp add: algebra_simps)
    have "num_acc (acc_num (num_acc (acc_num a + acc_num b - acc_num ACC_IDENTITY)) - acc_num b
        + acc_num ACC_IDENTITY) = num_acc (acc_num a)"
      unfolding acc_num_num_acc num_acc_left num_acc_right num_acc_minus by (simp add: algebra_simps)
    then show "num_acc (acc_num (num_acc (acc_num a + acc_num b - acc_num ACC_IDENTITY)) - acc_num b
        + acc_num ACC_IDENTITY) = a" using a by (simp add: num_acc_acc_num)
    have "num_acc (acc_num (num_acc (acc_num a - acc_num b + acc_num ACC_IDENTITY)) + acc_num b
        - acc_num ACC_IDENTITY) = num_acc (acc_num a)"
      unfolding acc_num_num_acc num_acc_left num_acc_right num_acc_minus by (simp add: algebra_simps)
    then show "num_acc (acc_num (num_acc (acc_num a - acc_num b + acc_num ACC_IDENTITY)) + acc_num b
        - acc_num ACC_IDENTITY) = a" using a by (simp add: num_acc_acc_num)
  qed (simp_all add: ACC_IDENTITY_def)
qed

end
