(* ===== verification/Ops.thy ===== *)
theory Ops
  imports Wire Sample_Prims
begin

text \<open>
  The data model of \<^verbatim>\<open>dude/store/ops.py\<close>: mutations, guard predicates, steps,
  transactions and signed transactions, with their encodings.
\<close>

definition STORE_MANAGEMENT :: int where "STORE_MANAGEMENT = 0"
definition STORE_DATA :: int where "STORE_DATA = 1"
definition EPOCH_NONE :: int where "EPOCH_NONE = 0"
definition MAX_NAME_BYTES :: nat where "MAX_NAME_BYTES = 128"

lemmas ops_consts [simp] = STORE_MANAGEMENT_def STORE_DATA_def EPOCH_NONE_def MAX_NAME_BYTES_def

section \<open>Held rows\<close>

record Held =
  held_value :: bytes
  held_epoch :: int
  held_cred :: bytes

definition held_bval :: "Held \<Rightarrow> bval" where
  "held_bval x = BSeq [BBytes (held_value x), BInt (held_epoch x), BBytes (held_cred x)]"

definition held_encode :: "Held \<Rightarrow> bytes" where
  "held_encode x = benc (held_bval x)"

definition held_decode :: "bytes \<Rightarrow> Held res" where
  "held_decode raw =
     rbind (decode_seq raw (Some 3)) (\<lambda>parts.
     rbind (as_bytes (parts ! 0)) (\<lambda>v.
     rbind (as_int (parts ! 1)) (\<lambda>e.
     rbind (as_bytes (parts ! 2)) (\<lambda>c.
     Inr \<lparr>held_value = v, held_epoch = e, held_cred = c\<rparr>))))"

interpretation held_wire: wire held_encode held_decode "\<lambda>x. bencodable (held_bval x)"
  by unfold_locales (simp add: held_encode_def held_decode_def held_bval_def)

section \<open>Mutations and predicates\<close>

datatype Mutation =
    Set (mut_store: int) (mut_name: bytes) (mut_value: bytes) (mut_epoch: int)
  | Del (mut_store: int) (mut_name: bytes)

datatype Predicate =
    Absent (pred_store: int) (pred_name: bytes)
  | Holds (pred_store: int) (pred_name: bytes) (pred_digest: digest)
  | Exists (pred_store: int) (pred_name: bytes)
  | HoldsAny (pred_store: int) (pred_name: bytes) (pred_digests: "digest list")

text \<open>The tags of \<^verbatim>\<open>OpType\<close>.\<close>

definition T_SET :: bytes where "T_SET = ascii ''s''"
definition T_DEL :: bytes where "T_DEL = ascii ''d''"
definition T_ABSENT :: bytes where "T_ABSENT = ascii ''a''"
definition T_HOLDS :: bytes where "T_HOLDS = ascii ''h''"
definition T_EXISTS :: bytes where "T_EXISTS = ascii ''e''"
definition T_HOLDS_ANY :: bytes where "T_HOLDS_ANY = ascii ''A''"

lemmas op_tags = T_SET_def T_DEL_def T_ABSENT_def T_HOLDS_def T_EXISTS_def T_HOLDS_ANY_def

fun mut_encode :: "Mutation \<Rightarrow> bval" where
  "mut_encode (Set st nm v e) = BSeq [BBytes T_SET, BInt st, BBytes nm, BBytes v, BInt e]"
| "mut_encode (Del st nm) = BSeq [BBytes T_DEL, BInt st, BBytes nm]"

definition set_decode :: "bval \<Rightarrow> Mutation res" where
  "set_decode v =
     rbind (as_seq v (Some 5)) (\<lambda>p.
     rbind (as_int (p ! 1)) (\<lambda>st.
     rbind (as_bytes (p ! 2)) (\<lambda>nm.
     rbind (as_bytes (p ! 3)) (\<lambda>val.
     rbind (as_int (p ! 4)) (\<lambda>e. Inr (Set st nm val e))))))"

definition del_decode :: "bval \<Rightarrow> Mutation res" where
  "del_decode v =
     rbind (as_seq v (Some 3)) (\<lambda>p.
     rbind (as_int (p ! 1)) (\<lambda>st.
     rbind (as_bytes (p ! 2)) (\<lambda>nm. Inr (Del st nm))))"

text \<open>\<^verbatim>\<open>tag = codec.as_bytes(p[0]) if p else b""\<close>.\<close>

definition op_tag :: "bval \<Rightarrow> bytes res" where
  "op_tag v = rbind (as_seq v None) (\<lambda>p. if p = [] then Inr [] else as_bytes (p ! 0))"

definition mut_decode :: "bval \<Rightarrow> Mutation res" where
  "mut_decode v =
     rbind (op_tag v) (\<lambda>tag.
     if tag = T_SET then set_decode v
     else if tag = T_DEL then del_decode v
     else Inl OpError)"

fun pred_encode :: "Predicate \<Rightarrow> bval" where
  "pred_encode (Absent st nm) = BSeq [BBytes T_ABSENT, BInt st, BBytes nm]"
| "pred_encode (Holds st nm d) = BSeq [BBytes T_HOLDS, BInt st, BBytes nm, BBytes d]"
| "pred_encode (Exists st nm) = BSeq [BBytes T_EXISTS, BInt st, BBytes nm]"
| "pred_encode (HoldsAny st nm ds) =
     BSeq [BBytes T_HOLDS_ANY, BInt st, BBytes nm, BSeq (map BBytes ds)]"

definition absent_decode :: "bval \<Rightarrow> Predicate res" where
  "absent_decode v =
     rbind (as_seq v (Some 3)) (\<lambda>p.
     rbind (as_int (p ! 1)) (\<lambda>st. rbind (as_bytes (p ! 2)) (\<lambda>nm. Inr (Absent st nm))))"

definition holds_decode :: "bval \<Rightarrow> Predicate res" where
  "holds_decode v =
     rbind (as_seq v (Some 4)) (\<lambda>p.
     rbind (as_int (p ! 1)) (\<lambda>st.
     rbind (as_bytes (p ! 2)) (\<lambda>nm.
     rbind (as_bytes (p ! 3)) (\<lambda>raw.
     rbind (Digest raw) (\<lambda>d. Inr (Holds st nm d))))))"

definition exists_decode :: "bval \<Rightarrow> Predicate res" where
  "exists_decode v =
     rbind (as_seq v (Some 3)) (\<lambda>p.
     rbind (as_int (p ! 1)) (\<lambda>st. rbind (as_bytes (p ! 2)) (\<lambda>nm. Inr (Exists st nm))))"

definition holds_any_decode :: "bval \<Rightarrow> Predicate res" where
  "holds_any_decode v =
     rbind (as_seq v (Some 4)) (\<lambda>p.
     rbind (as_int (p ! 1)) (\<lambda>st.
     rbind (as_bytes (p ! 2)) (\<lambda>nm.
     rbind (as_seq (p ! 3) None) (\<lambda>ds.
     rbind (mapM (\<lambda>d. rbind (as_bytes d) Digest) ds) (\<lambda>ds. Inr (HoldsAny st nm ds))))))"

definition pred_decode :: "bval \<Rightarrow> Predicate res" where
  "pred_decode v =
     rbind (op_tag v) (\<lambda>tag.
     if tag = T_ABSENT then absent_decode v
     else if tag = T_HOLDS then holds_decode v
     else if tag = T_EXISTS then exists_decode v
     else if tag = T_HOLDS_ANY then holds_any_decode v
     else Inl OpError)"

fun pred_ok :: "Predicate \<Rightarrow> bool" where
  "pred_ok (Holds st nm d) = (length d = DIGEST_SIZE)"
| "pred_ok (HoldsAny st nm ds) = list_all (\<lambda>d. length d = DIGEST_SIZE) ds"
| "pred_ok _ = True"

lemma mapM_digests: "list_all (\<lambda>d. length d = 32) ds \<Longrightarrow>
    mapM (\<lambda>d. rbind (as_bytes d) (fixed 32)) (map BBytes ds) = Inr ds"
  by (induction ds) auto

interpretation mut_wire: wire mut_encode mut_decode "\<lambda>_. True"
proof unfold_locales
  fix m show "mut_decode (mut_encode m) = Inr m"
    by (cases m) (simp_all add: mut_decode_def op_tag_def set_decode_def del_decode_def op_tags)
qed

interpretation pred_wire: wire pred_encode pred_decode pred_ok
proof unfold_locales
  fix p assume "pred_ok p"
  then show "pred_decode (pred_encode p) = Inr p"
    by (cases p) (simp_all add: pred_decode_def op_tag_def op_tags mapM_digests absent_decode_def
        holds_decode_def exists_decode_def holds_any_decode_def)
qed

section \<open>Steps and transactions\<close>

definition value_digest :: "prims \<Rightarrow> bytes \<Rightarrow> digest" where
  "value_digest c ciphertext = h c ciphertext"

record Step =
  step_guards :: "Predicate list"
  step_mutation :: Mutation
  step_soft :: bool

type_synonym Transaction = "Step list"

definition step_encode :: "Step \<Rightarrow> bval" where
  "step_encode st =
     BSeq [BSeq (map pred_encode (step_guards st)), mut_encode (step_mutation st),
           BInt (if step_soft st then 1 else 0)]"

definition step_decode :: "bval \<Rightarrow> Step res" where
  "step_decode v =
     rbind (as_seq v (Some 3)) (\<lambda>p.
     rbind (rbind (as_seq (p ! 0) None) (mapM pred_decode)) (\<lambda>guards.
     rbind (mut_decode (p ! 1)) (\<lambda>mutation.
     rbind (as_int (p ! 2)) (\<lambda>soft.
     Inr \<lparr>step_guards = guards, step_mutation = mutation, step_soft = (soft \<noteq> 0)\<rparr>))))"

definition step_ok :: "Step \<Rightarrow> bool" where
  "step_ok st = list_all pred_ok (step_guards st)"

interpretation step_wire: wire step_encode step_decode step_ok
  by unfold_locales
    (simp add: step_encode_def step_decode_def step_ok_def pred_wire.dec_enc_list mut_wire.dec_enc)

text \<open>\<^verbatim>\<open>Transaction.then\<close>, \<^verbatim>\<open>then_soft\<close>, \<^verbatim>\<open>__add__\<close> and \<^verbatim>\<open>ops.writes\<close>.\<close>

definition tx_then :: "Transaction \<Rightarrow> Mutation \<Rightarrow> Predicate list \<Rightarrow> Transaction" where
  "tx_then tx m guards = tx @ [\<lparr>step_guards = guards, step_mutation = m, step_soft = False\<rparr>]"

definition tx_then_soft :: "Transaction \<Rightarrow> Mutation \<Rightarrow> Predicate list \<Rightarrow> Transaction" where
  "tx_then_soft tx m guards = tx @ [\<lparr>step_guards = guards, step_mutation = m, step_soft = True\<rparr>]"

definition tx_add :: "Transaction \<Rightarrow> Transaction \<Rightarrow> Transaction" where
  "tx_add a b = a @ b"

definition writes_of :: "Mutation list \<Rightarrow> Transaction" where
  "writes_of ms = map (\<lambda>m. \<lparr>step_guards = [], step_mutation = m, step_soft = False\<rparr>) ms"

definition tx_encode :: "Transaction \<Rightarrow> bytes" where
  "tx_encode tx = benc (BSeq (map step_encode tx))"

definition tx_decode :: "bytes \<Rightarrow> Transaction res" where
  "tx_decode raw = rbind (decode_seq raw None) (mapM step_decode)"

definition tx_ok :: "Transaction \<Rightarrow> bool" where
  "tx_ok tx \<longleftrightarrow> list_all step_ok tx \<and> bencodable (BSeq (map step_encode tx))"

interpretation tx_wire: wire tx_encode tx_decode tx_ok
  by unfold_locales (simp add: tx_encode_def tx_decode_def tx_ok_def step_wire.dec_enc_list)

definition tx_mutations :: "Transaction \<Rightarrow> Mutation list" where
  "tx_mutations tx = map step_mutation tx"

definition tx_guards :: "Transaction \<Rightarrow> Predicate list" where
  "tx_guards tx = concat (map step_guards tx)"

text \<open>The keys of a dict built by \<^verbatim>\<open>setdefault\<close>: each key at its first place.\<close>

fun dict_keys :: "'k list \<Rightarrow> 'k list \<Rightarrow> 'k list" where
  "dict_keys seen [] = seen"
| "dict_keys seen (k # ks) = dict_keys (if k \<in> set seen then seen else seen @ [k]) ks"

definition tx_writes :: "Transaction \<Rightarrow> (int \<times> bytes) list" where
  "tx_writes tx = dict_keys [] (map (\<lambda>m. (mut_store m, mut_name m)) (tx_mutations tx))"

definition tx_reads :: "Transaction \<Rightarrow> (int \<times> bytes) list" where
  "tx_reads tx = dict_keys [] (map (\<lambda>g. (pred_store g, pred_name g)) (tx_guards tx))"

definition tx_stores :: "Transaction \<Rightarrow> int set" where
  "tx_stores tx = fst ` set (tx_writes tx)"

definition tx_effects :: "prims \<Rightarrow> Transaction \<Rightarrow> (int \<times> bytes) \<rightharpoonup> digest option" where
  "tx_effects c tx =
     foldl (\<lambda>out m. out((mut_store m, mut_name m) \<mapsto>
              (case m of Set _ _ v _ \<Rightarrow> Some (value_digest c v) | Del _ _ \<Rightarrow> None)))
       Map.empty (tx_mutations tx)"

section \<open>Signed transactions\<close>

record SignedTransaction =
  stx_author :: public_key
  stx_ts :: int
  stx_txn :: Transaction
  stx_sig :: signature

definition body_bval :: "public_key \<Rightarrow> int \<Rightarrow> Transaction \<Rightarrow> bval" where
  "body_bval author ts steps = BSeq [BBytes author, BInt ts, BSeq (map step_encode steps)]"

definition body_bytes :: "public_key \<Rightarrow> int \<Rightarrow> Transaction \<Rightarrow> bytes" where
  "body_bytes author ts steps = benc (body_bval author ts steps)"

definition tx_sign :: "prims \<Rightarrow> Transaction \<Rightarrow> seed \<Rightarrow> int \<Rightarrow> SignedTransaction" where
  "tx_sign c tx kp ts =
     \<lparr>stx_author = kp_public c kp, stx_ts = ts, stx_txn = tx,
      stx_sig = kp_sign c kp (body_bytes (kp_public c kp) ts tx)\<rparr>"

definition stx_body :: "SignedTransaction \<Rightarrow> bytes" where
  "stx_body tx = body_bytes (stx_author tx) (stx_ts tx) (stx_txn tx)"

definition stx_raw_bval :: "SignedTransaction \<Rightarrow> bval" where
  "stx_raw_bval tx = BSeq [BBytes (stx_body tx), BBytes (stx_sig tx)]"

definition stx_raw :: "SignedTransaction \<Rightarrow> bytes" where
  "stx_raw tx = benc (stx_raw_bval tx)"

definition op_hash :: "prims \<Rightarrow> SignedTransaction \<Rightarrow> digest" where
  "op_hash c tx = h c (stx_raw tx)"

definition stx_verify :: "prims \<Rightarrow> SignedTransaction \<Rightarrow> bool" where
  "stx_verify c tx = pk_verify c (stx_author tx) (stx_body tx) (stx_sig tx)"

definition stx_decode :: "bytes \<Rightarrow> SignedTransaction res" where
  "stx_decode raw =
     rbind (decode_seq raw (Some 2)) (\<lambda>outer.
     rbind (as_bytes (outer ! 0)) (\<lambda>body_raw.
     rbind (decode_seq body_raw (Some 3)) (\<lambda>body.
     rbind (rbind (as_bytes (body ! 0)) PublicKey) (\<lambda>author.
     rbind (as_int (body ! 1)) (\<lambda>ts.
     rbind (rbind (as_seq (body ! 2) None) (mapM step_decode)) (\<lambda>steps.
     rbind (rbind (as_bytes (outer ! 1)) Signature) (\<lambda>sig.
     Inr \<lparr>stx_author = author, stx_ts = ts, stx_txn = steps, stx_sig = sig\<rparr>)))))))"

text \<open>
  A well-formed signed transaction: fields of the right width and an encoding inside the codec's
  limits, as every decoded or locally built one is.
\<close>

definition stx_ok :: "SignedTransaction \<Rightarrow> bool" where
  "stx_ok tx \<longleftrightarrow>
     length (stx_author tx) = KEY_SIZE \<and> length (stx_sig tx) = SIG_SIZE \<and>
     list_all step_ok (stx_txn tx) \<and>
     bencodable (body_bval (stx_author tx) (stx_ts tx) (stx_txn tx)) \<and>
     bencodable (stx_raw_bval tx)"

interpretation stx_wire: wire stx_raw stx_decode stx_ok
  by unfold_locales
    (simp add: stx_raw_def stx_decode_def stx_ok_def stx_raw_bval_def stx_body_def body_bytes_def
      body_bval_def step_wire.dec_enc_list)

section \<open>What a signature and an identity bind\<close>

lemma body_bytes_inject:
  assumes "list_all step_ok tx" "list_all step_ok tx'"
    "bencodable (body_bval a ts tx)" "bencodable (body_bval a' ts' tx')"
  shows "body_bytes a ts tx = body_bytes a' ts' tx' \<longleftrightarrow> a = a' \<and> ts = ts' \<and> tx = tx'"
proof
  assume "body_bytes a ts tx = body_bytes a' ts' tx'"
  then have eq: "a = a'" "ts = ts'" and enc: "map step_encode tx = map step_encode tx'"
    using bencode.enc_inject[OF assms(3,4)] by (auto simp: body_bytes_def body_bval_def)
  have "mapM step_decode (map step_encode tx) = Inr tx" "mapM step_decode (map step_encode tx') = Inr tx'"
    using assms(1,2) by (auto intro: step_wire.dec_enc_list)
  then have "tx = tx'" unfolding enc by (rule Inr_inject[OF trans[OF sym]])
  with eq show "a = a' \<and> ts = ts' \<and> tx = tx'" by blast
qed simp

lemma stx_okD:
  "stx_ok s \<Longrightarrow> list_all step_ok (stx_txn s)"
  "stx_ok s \<Longrightarrow> bencodable (body_bval (stx_author s) (stx_ts s) (stx_txn s))"
  by (simp_all add: stx_ok_def)

text \<open>
  C29: a signed transaction survives the wire, and its identity is its content: it decodes from
  its own encoding to itself, and two well-formed signed transactions have the same
  \<^verbatim>\<open>op_hash\<close> exactly when they are equal in author, timestamp, steps and signature,
  provided the two encodings do not collide under the hash.
\<close>

theorem signed_transaction_identity:
  assumes "stx_ok s" "stx_ok t" "inj_on (h c) {stx_raw s, stx_raw t}"
  shows "stx_decode (stx_raw s) = Inr s \<and> (op_hash c s = op_hash c t \<longleftrightarrow> s = t)"
proof
  show "stx_decode (stx_raw s) = Inr s" using assms(1) by (rule stx_wire.dec_enc)
  show "op_hash c s = op_hash c t \<longleftrightarrow> s = t"
    using assms(3) stx_wire.enc_inject[OF assms(1,2)] by (auto simp: op_hash_def inj_on_def)
qed

definition sample_tx :: Transaction where
  "sample_tx =
     [\<lparr>step_guards = [Absent 1 [1]], step_mutation = Set 1 [1] [7] 0, step_soft = False\<rparr>,
      \<lparr>step_guards = [Exists 1 [1]], step_mutation = Del 1 [2], step_soft = True\<rparr>]"

definition sample_stx :: "int \<Rightarrow> SignedTransaction" where
  "sample_stx ts = \<lparr>stx_author = replicate 32 1, stx_ts = ts, stx_txn = sample_tx, stx_sig = replicate 64 2\<rparr>"

lemma sample_body:
  "body_bval (replicate 32 1) ts sample_tx =
     BSeq [BBytes (replicate 32 1), BInt ts,
       BSeq [BSeq [BSeq [BSeq [BBytes [97], BInt 1, BBytes [1]]],
                   BSeq [BBytes [115], BInt 1, BBytes [1], BBytes [7], BInt 0], BInt 0],
             BSeq [BSeq [BSeq [BBytes [101], BInt 1, BBytes [1]]],
                   BSeq [BBytes [100], BInt 1, BBytes [2]], BInt 1]]]"
  by (simp add: body_bval_def sample_tx_def step_encode_def op_tags)

lemma length_sample_body:
  "length (body_bytes (replicate 32 1) 3 sample_tx) < 4096"
  "length (body_bytes (replicate 32 1) 4 sample_tx) < 4096"
  by (simp_all add: body_bytes_def sample_body benc.simps encode_bytes_def int_ascii_def nat_ascii.simps)

lemma sample_stx_ok: "stx_ok (sample_stx 3)" "stx_ok (sample_stx 4)" 
  using length_sample_body
  by (simp_all add: stx_ok_def sample_stx_def sample_body stx_raw_bval_def stx_body_def bencodable_def
      MAX_DEPTH_codec_def small_int_digits bdepth.simps)
    (simp_all add: sample_tx_def step_ok_def)

lemma sample_h_inj_on: "length xs < 2 ^ 16 \<Longrightarrow> inj_on (h (sample xs)) (set xs)"
  using sample_h_inject[of _ xs "[]" _ "[]"] by (auto intro!: inj_onI simp: h_def)

theorem signed_transaction_identity_witness:
  "stx_decode (stx_raw (sample_stx 3)) = Inr (sample_stx 3) \<and>
   op_hash (sample [stx_raw (sample_stx 3), stx_raw (sample_stx 4)]) (sample_stx 3) \<noteq>
   op_hash (sample [stx_raw (sample_stx 3), stx_raw (sample_stx 4)]) (sample_stx 4)"
proof -
  let ?xs = "[stx_raw (sample_stx 3), stx_raw (sample_stx 4)]"
  have "inj_on (h (sample ?xs)) {stx_raw (sample_stx 3), stx_raw (sample_stx 4)}"
    using sample_h_inj_on[of ?xs] by simp
  from signed_transaction_identity[OF sample_stx_ok this]
  show ?thesis by (simp add: sample_stx_def)
qed

text \<open>
  What a signature commits to. A transaction signed with a key verifies under that key's
  public half; and two well-formed signed transactions with the same signed bytes agree on author,
  timestamp and steps, so a signature cannot be moved to another author, time or content.
\<close>

lemma signature_binds_body:
  assumes "sign_correct c" "stx_ok s" "stx_ok t"
  shows "stx_verify c (tx_sign c tx kp ts) \<and>
    (stx_body s = stx_body t \<longleftrightarrow>
       stx_author s = stx_author t \<and> stx_ts s = stx_ts t \<and> stx_txn s = stx_txn t)"
proof
  show "stx_verify c (tx_sign c tx kp ts)"
    using assms(1) by (simp add: stx_verify_def tx_sign_def stx_body_def)
  show "stx_body s = stx_body t \<longleftrightarrow>
       stx_author s = stx_author t \<and> stx_ts s = stx_ts t \<and> stx_txn s = stx_txn t"
    unfolding stx_body_def using assms(2,3) by (intro body_bytes_inject stx_okD)
qed

lemma signature_binds_body_witness:
  "stx_verify (sample []) (tx_sign (sample []) sample_tx [1] 3) \<and>
   stx_body (sample_stx 3) \<noteq> stx_body (sample_stx 4)"
  using signature_binds_body[OF sample_sign_correct[of "[]"] sample_stx_ok, of sample_tx "[1]" 3]
  by (simp add: sample_stx_def)

end
