(* ===== verification/Smt.thy ===== *)
theory Smt
  imports Ops
begin

text \<open>
  The sparse Merkle tree of \<^verbatim>\<open>dude/store/smt.py\<close>: key paths, node hashes, the byte ranges
  of subtrees, proofs and their verification, and the tree over the \<^verbatim>\<open>live\<close> table with
  its memo table. The tables are values: \<open>live\<close> is the list of the rows, \<open>memo\<close> the map from
  \<^verbatim>\<open>(depth, prefix)\<close> to a stored hash. A definition that fills the memo returns it.
\<close>

section \<open>Paths and node hashes\<close>

definition MAX_DEPTH :: nat where "MAX_DEPTH = 256"
definition EMPTY :: digest where "EMPTY = replicate DIGEST_SIZE 0"
definition PERSON_PATH :: bytes where "PERSON_PATH = ascii ''dude.smt.path''"
definition PERSON_LEAF :: bytes where "PERSON_LEAF = ascii ''dude.smt.leaf''"
definition PERSON_BRANCH :: bytes where "PERSON_BRANCH = ascii ''dude.smt.node''"

definition path_of :: "prims \<Rightarrow> int \<Rightarrow> bytes \<Rightarrow> bytes" where
  "path_of c store name = h_domain c PERSON_PATH (benc (BSeq [BInt store, BBytes name]))"

definition leaf_hash :: "prims \<Rightarrow> bytes \<Rightarrow> digest \<Rightarrow> digest \<Rightarrow> int \<Rightarrow> digest res" where
  "leaf_hash c path vhash chash epoch =
     rbind (to_bytes 8 epoch) (\<lambda>e. Inr (h_domain c PERSON_LEAF (path @ vhash @ chash @ e)))"

definition branch_hash :: "prims \<Rightarrow> nat \<Rightarrow> bytes \<Rightarrow> digest \<Rightarrow> digest \<Rightarrow> digest res" where
  "branch_hash c depth pfx left right =
     rbind (to_bytes 2 (int depth)) (\<lambda>d. Inr (h_domain c PERSON_BRANCH (d @ pfx @ left @ right)))"

definition bit_at :: "bytes \<Rightarrow> nat \<Rightarrow> byte res" where
  "bit_at path i =
     (if i div 8 < length path then Inr (drop_bit (7 - i mod 8) (path ! (i div 8)) AND 1)
      else Inl IndexError)"

definition with_bit :: "bytes \<Rightarrow> nat \<Rightarrow> bool \<Rightarrow> bytes res" where
  "with_bit path depth b =
     (let padded = path @ replicate (DIGEST_SIZE - length path) 0;
          i = depth div 8; mask = push_bit (7 - depth mod 8) (1 :: byte)
      in if i < length padded
         then Inr (take i padded @ [if b then padded ! i OR mask else padded ! i AND NOT mask]
                   @ drop (i + 1) padded)
         else Inl IndexError)"

text \<open>
  \<^verbatim>\<open>bounds\<close>: \<^verbatim>\<open>path[full]\<close> raises past the end of the path, and
  \<^verbatim>\<open>bytes(pad)\<close> raises for a negative \<^verbatim>\<open>pad\<close>.
\<close>

definition bounds :: "bytes \<Rightarrow> nat \<Rightarrow> (bytes \<times> bytes) res" where
  "bounds path depth =
     (let full = depth div 8; rem = depth mod 8; head = take full path;
          mask = push_bit (8 - rem) (255 :: byte)
      in rbind (if rem \<noteq> 0
                then if full < length path
                     then Inr (head @ [path ! full AND mask], head @ [(path ! full AND mask) OR NOT mask])
                     else Inl IndexError
                else Inr (head, head))
         (\<lambda>(lo, hi).
          if length lo \<le> DIGEST_SIZE
          then Inr (lo @ replicate (DIGEST_SIZE - length lo) 0, hi @ replicate (DIGEST_SIZE - length lo) 255)
          else Inl ValueError))"

definition flip :: "bytes \<Rightarrow> nat \<Rightarrow> bytes res" where
  "flip path i =
     (if i div 8 < length path
      then Inr (path[i div 8 := path ! (i div 8) XOR push_bit (7 - i mod 8) 1])
      else Inl IndexError)"

section \<open>Proofs\<close>

record Proof =
  pf_siblings :: "digest list"
  pf_occupant :: "(bytes \<times> digest) option"

definition proof_bval :: "Proof \<Rightarrow> bval" where
  "proof_bval p =
     BSeq [BSeq (map BBytes (pf_siblings p)),
           BSeq (case pf_occupant p of None \<Rightarrow> [] | Some (q, d) \<Rightarrow> [BBytes q, BBytes d])]"

definition proof_encode :: "Proof \<Rightarrow> bytes" where
  "proof_encode p = benc (proof_bval p)"

text \<open>\<^verbatim>\<open>occ[0]\<close> and \<^verbatim>\<open>occ[1]\<close> of a sequence that is not empty.\<close>

definition occupant_decode :: "bval list \<Rightarrow> (bytes \<times> digest) option res" where
  "occupant_decode occ =
     (if occ = [] then Inr None
      else rbind (as_bytes (occ ! 0)) (\<lambda>q.
           if length occ = 1 then Inl IndexError
           else rbind (rbind (as_bytes (occ ! 1)) Digest) (\<lambda>d. Inr (Some (q, d)))))"

definition proof_decode :: "bytes \<Rightarrow> Proof res" where
  "proof_decode raw =
     rbind (decode_seq raw (Some 2)) (\<lambda>p.
     rbind (as_seq (p ! 1) None) (\<lambda>occ.
     rbind (rbind (as_seq (p ! 0) None) (mapM (\<lambda>s. rbind (as_bytes s) Digest))) (\<lambda>sibs.
     rbind (occupant_decode occ) (\<lambda>oc.
     Inr \<lparr>pf_siblings = sibs, pf_occupant = oc\<rparr>))))"

definition proof_ok :: "Proof \<Rightarrow> bool" where
  "proof_ok p \<longleftrightarrow>
     list_all (\<lambda>d. length d = DIGEST_SIZE) (pf_siblings p) \<and>
     (case pf_occupant p of None \<Rightarrow> True | Some (_, d) \<Rightarrow> length d = DIGEST_SIZE) \<and>
     bencodable (proof_bval p)"

interpretation proof_wire: wire proof_encode proof_decode proof_ok
proof unfold_locales
  fix p :: Proof
  assume ok: "proof_ok p"
  obtain sibs oc where p: "p = \<lparr>pf_siblings = sibs, pf_occupant = oc\<rparr>" by (cases p)
  from ok show "proof_decode (proof_encode p) = Inr p"
    by (cases oc) (auto simp: p proof_ok_def proof_encode_def proof_decode_def proof_bval_def
        occupant_decode_def mapM_digests)
qed

text \<open>\<^verbatim>\<open>_fold\<close>: \<open>smt_fold c path siblings n node\<close> runs the loop for the depths below \<open>n\<close>.\<close>

fun fold_from :: "prims \<Rightarrow> bytes \<Rightarrow> digest list \<Rightarrow> nat \<Rightarrow> digest \<Rightarrow> digest res" where
  "fold_from c path siblings 0 node = Inr node"
| "fold_from c path siblings (Suc depth) node =
     rbind (bounds path depth) (\<lambda>(at, _).
     rbind (bit_at path depth) (\<lambda>b.
     rbind (if b = 0 then branch_hash c depth at node (siblings ! depth)
            else branch_hash c depth at (siblings ! depth) node)
     (\<lambda>node'. fold_from c path siblings depth node')))"

definition smt_fold :: "prims \<Rightarrow> bytes \<Rightarrow> digest \<Rightarrow> digest list \<Rightarrow> digest res" where
  "smt_fold c path terminal siblings = fold_from c path siblings (length siblings) terminal"

definition smt_present :: "prims \<Rightarrow> digest \<Rightarrow> bytes \<Rightarrow> Held \<Rightarrow> Proof \<Rightarrow> bool res" where
  "smt_present c root path held proof =
     (case pf_occupant proof of
        None \<Rightarrow> Inr False
      | Some (p, d) \<Rightarrow>
          if p \<noteq> path then Inr False
          else rbind (leaf_hash c path (h c (held_value held)) (h c (held_cred held)) (held_epoch held))
            (\<lambda>term. if d \<noteq> term then Inr False
             else rbind (smt_fold c path term (pf_siblings proof)) (\<lambda>r. Inr (r = root))))"

definition smt_absent :: "prims \<Rightarrow> digest \<Rightarrow> bytes \<Rightarrow> Proof \<Rightarrow> bool res" where
  "smt_absent c root path proof =
     (case pf_occupant proof of
        None \<Rightarrow> rbind (smt_fold c path EMPTY (pf_siblings proof)) (\<lambda>r. Inr (r = root))
      | Some (other, term) \<Rightarrow>
          if other = path then Inr False
          else rbind (bounds other (length (pf_siblings proof))) (\<lambda>bo.
               rbind (bounds path (length (pf_siblings proof))) (\<lambda>bp.
               if bo \<noteq> bp then Inr False
               else rbind (smt_fold c path term (pf_siblings proof)) (\<lambda>r. Inr (r = root)))))"

definition smt_verify :: "prims \<Rightarrow> digest \<Rightarrow> int \<Rightarrow> bytes \<Rightarrow> Held option \<Rightarrow> Proof \<Rightarrow> bool res" where
  "smt_verify c root store name held proof =
     (if length (pf_siblings proof) > MAX_DEPTH then Inr False
      else case held of
        None \<Rightarrow> smt_absent c root (path_of c store name) proof
      | Some row \<Rightarrow> smt_present c root (path_of c store name) row proof)"

section \<open>The tree over the live table\<close>

text \<open>A row of the \<^verbatim>\<open>live\<close> table.\<close>

record live_row =
  lr_store :: int
  lr_name :: bytes
  lr_value :: bytes
  lr_epoch :: int
  lr_path :: bytes
  lr_cred :: bytes

type_synonym memo = "nat \<times> bytes \<rightharpoonup> digest"

text \<open>\<^verbatim>\<open>SELECT ... FROM live WHERE path>=? AND path<=? ORDER BY path\<close>.\<close>

definition select_range :: "live_row list \<Rightarrow> bytes \<Rightarrow> bytes \<Rightarrow> live_row list" where
  "select_range live lo hi = sort_key lr_path (filter (\<lambda>r. lo \<le> lr_path r \<and> lr_path r \<le> hi) live)"

definition row_leaf :: "prims \<Rightarrow> live_row \<Rightarrow> (bytes \<times> digest) res" where
  "row_leaf c r =
     rbind (leaf_hash c (lr_path r) (h c (lr_value r)) (h c (lr_cred r)) (lr_epoch r))
       (\<lambda>d. Inr (lr_path r, d))"

definition tree_leaves :: "prims \<Rightarrow> live_row list \<Rightarrow> bytes \<Rightarrow> nat \<Rightarrow> (bytes \<times> digest) list res" where
  "tree_leaves c live path depth =
     rbind (bounds path depth) (\<lambda>(lo, hi). mapM (row_leaf c) (take 2 (select_range live lo hi)))"

lemma bounds_length:
  "bounds path depth = Inr (lo, hi) \<Longrightarrow> length lo = DIGEST_SIZE \<and> length hi = DIGEST_SIZE"
  by (auto simp: bounds_def Let_def split: if_splits)

text \<open>
  \<^verbatim>\<open>Tree.hash_under\<close>. The recursion ends because it flips a bit of \<open>path\<close> at \<open>depth\<close>, and
  below the first call every path is 32 bytes long.
\<close>

function hash_under :: "prims \<Rightarrow> bool \<Rightarrow> live_row list \<Rightarrow> bytes \<Rightarrow> nat \<Rightarrow> memo \<Rightarrow> (digest \<times> memo) res" where
  "hash_under c memoize live path depth memo =
     rbind (bounds path depth) (\<lambda>(lo, _).
     case memo (depth, lo) of
       Some stored \<Rightarrow> rbind (Digest stored) (\<lambda>d. Inr (d, memo))
     | None \<Rightarrow>
       rbind (tree_leaves c live path depth) (\<lambda>found.
       if found = [] then Inr (EMPTY, memo)
       else if length found = 1 then Inr (snd (found ! 0), memo)
       else
         rbind (bounds path (depth + 1)) (\<lambda>(a, _).
         rbind (flip path depth) (\<lambda>fp.
         rbind (bounds fp (depth + 1)) (\<lambda>(b, _).
         rbind (bit_at path depth) (\<lambda>bt.
         rbind (hash_under c memoize live (if bt = 1 then b else a) (depth + 1) memo) (\<lambda>(lh, memo1).
         rbind (hash_under c memoize live (if bt = 1 then a else b) (depth + 1) memo1) (\<lambda>(rh, memo2).
         rbind (branch_hash c depth lo lh rh) (\<lambda>node.
         Inr (node, if memoize then memo2((depth, lo) \<mapsto> node) else memo2))))))))))"
  by pat_completeness auto
termination
proof (relation "measure (\<lambda>(c, mz, live, path, depth, memo). 8 * max 32 (length path) + 1 - depth)")
qed (auto simp: flip_def dest!: bounds_length split: if_splits)

definition tree_root :: "prims \<Rightarrow> bool \<Rightarrow> live_row list \<Rightarrow> memo \<Rightarrow> (digest \<times> memo) res" where
  "tree_root c memoize live memo = hash_under c memoize live (replicate DIGEST_SIZE 0) 0 memo"

definition invalidate :: "bytes \<Rightarrow> memo \<Rightarrow> memo res" where
  "invalidate path memo =
     rbind (mapM (\<lambda>d. rbind (bounds path d) (\<lambda>(lo, _). Inr (d, lo))) [0..<MAX_DEPTH + 1])
       (\<lambda>keys. Inr (\<lambda>k. if k \<in> set keys then None else memo k))"

text \<open>
  \<^verbatim>\<open>Tree.prove\<close>: the loop of \<^verbatim>\<open>prove\<close> runs at most \<^const>\<open>MAX_DEPTH\<close> times;
  \<open>fuel\<close> counts the depths left.
\<close>

fun prove_from ::
  "prims \<Rightarrow> bool \<Rightarrow> live_row list \<Rightarrow> bytes \<Rightarrow> nat \<Rightarrow> nat \<Rightarrow> digest list \<Rightarrow> memo \<Rightarrow> (Proof \<times> memo) res" where
  "prove_from c memoize live path 0 depth siblings memo =
     Inr (\<lparr>pf_siblings = siblings, pf_occupant = None\<rparr>, memo)"
| "prove_from c memoize live path (Suc left) depth siblings memo =
     rbind (tree_leaves c live path depth) (\<lambda>found.
     if length found \<le> 1
     then Inr (\<lparr>pf_siblings = siblings, pf_occupant = (if found = [] then None else Some (found ! 0))\<rparr>, memo)
     else
       rbind (flip path depth) (\<lambda>fp.
       rbind (hash_under c memoize live fp (depth + 1) memo) (\<lambda>(sib, memo').
       prove_from c memoize live path left (depth + 1) (siblings @ [sib]) memo')))"

definition prove :: "prims \<Rightarrow> bool \<Rightarrow> live_row list \<Rightarrow> int \<Rightarrow> bytes \<Rightarrow> memo \<Rightarrow> (Proof \<times> memo) res" where
  "prove c memoize live store name memo =
     prove_from c memoize live (path_of c store name) MAX_DEPTH 0 [] memo"

end
