(* ===== verification/Smt_Paths.thy ===== *)
theory Smt_Paths
  imports Smt
begin

text \<open>
  The geometry of the tree: a 32-byte path is a string of 256 bits, most significant first; the
  range \<^verbatim>\<open>bounds(path, depth)\<close> holds exactly the paths that agree with \<open>path\<close> on the first
  \<open>depth\<close> bits; flipping or cutting a path acts on single bits.
\<close>

abbreviation path_bit :: "bytes \<Rightarrow> nat \<Rightarrow> bool" where
  "path_bit \<equiv> has_signer"

definition agree :: "nat \<Rightarrow> bytes \<Rightarrow> bytes \<Rightarrow> bool" where
  "agree d p q \<longleftrightarrow> (\<forall>i < d. path_bit p i = path_bit q i)"

lemma agree_refl [simp]: "agree d p p"
  and agree_sym: "agree d p q \<Longrightarrow> agree d q p"
  and agree_trans: "agree d p q \<Longrightarrow> agree d q r \<Longrightarrow> agree d p r"
  and agree_0 [simp]: "agree 0 p q"
  and agree_Suc: "agree (Suc d) p q \<longleftrightarrow> agree d p q \<and> path_bit p d = path_bit q d"
  by (auto simp: agree_def less_Suc_eq)

lemma agree_mono: "agree d p q \<Longrightarrow> e \<le> d \<Longrightarrow> agree e p q"
  by (auto simp: agree_def)

section \<open>Bits of a byte\<close>

definition high_mask :: "nat \<Rightarrow> byte" where
  "high_mask r = push_bit (8 - r) 255"

lemma bit_255: "bit (255 :: byte) k \<longleftrightarrow> k < 8"
proof -
  have eq: "(255 :: byte) = mask 8" by (simp add: mask_eq_exp_minus_1)
  show ?thesis unfolding eq semiring_bit_operations_class.bit_mask_iff by simp
qed

lemma bit_high_mask: "r \<le> 8 \<Longrightarrow> bit (high_mask r) k \<longleftrightarrow> 8 - r \<le> k \<and> k < 8"
  using bit_255[of "k - (8 - r)"] by (auto simp: high_mask_def bit_push_bit_iff simp del: bit_numeral_iff)

lemma byte_eq_iff: "a = b \<longleftrightarrow> (\<forall>k < 8. bit a k = bit (b :: byte) k)"
proof
  assume "\<forall>k < 8. bit a k = bit b k"
  then show "a = b" by (intro bit_word_eqI) simp
qed simp

lemma byte_eq_iff_msb: "a = b \<longleftrightarrow> (\<forall>j < 8. bit a (7 - j) = bit (b :: byte) (7 - j))"
proof
  assume E: "\<forall>j < 8. bit a (7 - j) = bit b (7 - j)"
  have "bit a k = bit b k" if "k < 8" for k
    using E[rule_format, of "7 - k"] that by simp
  then show "a = b" unfolding byte_eq_iff by blast
qed simp

lemma and_high_mask_eq_iff:
  assumes "r \<le> 8"
  shows "a AND high_mask r = b AND high_mask r \<longleftrightarrow> (\<forall>j < r. bit a (7 - j) = bit b (7 - j))"
proof -
  have "a AND high_mask r = b AND high_mask r \<longleftrightarrow>
      (\<forall>j < 8. 8 - r \<le> 7 - j \<longrightarrow> bit a (7 - j) = bit b (7 - j))"
    using assms by (subst byte_eq_iff_msb) (auto simp: bit_and_iff bit_high_mask)
  also have "\<dots> \<longleftrightarrow> (\<forall>j < r. bit a (7 - j) = bit b (7 - j))"
    using assms by (intro iffI allI impI) (auto dest!: spec)
  finally show ?thesis .
qed

lemma path_bit_byte: "j < 8 \<Longrightarrow> path_bit p (8 * f + j) = bit (p ! f) (7 - j)"
  by (simp add: has_signer_def)

lemma nth_eq_iff_bits: "p ! f = q ! f \<longleftrightarrow> (\<forall>j < 8. path_bit p (8 * f + j) = path_bit q (8 * f + j))"
  by (subst byte_eq_iff_msb) (auto simp: path_bit_byte)

lemma take_eq_iff_bits:
  assumes "f \<le> length p" "f \<le> length q"
  shows "take f p = take f q \<longleftrightarrow> agree (8 * f) p q"
proof -
  have "take f p = take f q \<longleftrightarrow> (\<forall>g < f. p ! g = q ! g)"
    using assms by (auto simp: list_eq_iff_nth_eq)
  also have "\<dots> \<longleftrightarrow> (\<forall>i < 8 * f. path_bit p i = path_bit q i)"
  proof
    assume L: "\<forall>g < f. p ! g = q ! g"
    show "\<forall>i < 8 * f. path_bit p i = path_bit q i"
    proof (intro allI impI)
      fix i assume "i < 8 * f"
      then have "i div 8 < f" by (simp add: less_mult_imp_div_less mult.commute)
      with L show "path_bit p i = path_bit q i" by (simp add: has_signer_def)
    qed
  next
    assume R: "\<forall>i < 8 * f. path_bit p i = path_bit q i"
    show "\<forall>g < f. p ! g = q ! g"
    proof (intro allI impI)
      fix g assume "g < f"
      then have "8 * g + j < 8 * f" if "j < 8" for j using that by linarith
      with R show "p ! g = q ! g" unfolding nth_eq_iff_bits by blast
    qed
  qed
  finally show ?thesis by (simp add: agree_def)
qed

lemma path_eq_iff_agree: "length p = 32 \<Longrightarrow> length q = 32 \<Longrightarrow> p = q \<longleftrightarrow> agree 256 p q"
  using take_eq_iff_bits[of 32 p q] by simp

lemma agree_split:
  assumes "length p = 32" "length q = 32" "d \<le> 256"
  shows "agree d p q \<longleftrightarrow> take (d div 8) p = take (d div 8) q \<and>
    (d mod 8 \<noteq> 0 \<longrightarrow> p ! (d div 8) AND high_mask (d mod 8) = q ! (d div 8) AND high_mask (d mod 8))"
proof -
  let ?f = "d div 8" and ?r = "d mod 8"
  have d: "d = 8 * ?f + ?r" and r: "?r < 8" by simp_all
  have f: "?f \<le> 32" using div_le_mono[OF assms(3), of 8] by simp
  have "agree d p q \<longleftrightarrow> agree (8 * ?f) p q \<and> (\<forall>j < ?r. path_bit p (8 * ?f + j) = path_bit q (8 * ?f + j))"
  proof
    assume A: "agree (8 * ?f) p q \<and> (\<forall>j < ?r. path_bit p (8 * ?f + j) = path_bit q (8 * ?f + j))"
    show "agree d p q"
      unfolding agree_def
    proof (intro allI impI)
      fix i assume "i < d"
      then show "path_bit p i = path_bit q i"
      proof (cases "i < 8 * ?f")
        case True
        with A show ?thesis by (simp add: agree_def)
      next
        case False
        then have "i = 8 * ?f + (i - 8 * ?f)" "i - 8 * ?f < ?r" using \<open>i < d\<close> d by linarith+
        with A show ?thesis by metis
      qed
    qed
  next
    assume A: "agree d p q"
    then have "agree (8 * ?f) p q" by (rule agree_mono) (use d in linarith)
    moreover have "path_bit p (8 * ?f + j) = path_bit q (8 * ?f + j)" if "j < ?r" for j
    proof -
      have "8 * ?f + j < d" using d that by linarith
      with A show ?thesis by (simp add: agree_def)
    qed
    ultimately show "agree (8 * ?f) p q \<and> (\<forall>j < ?r. path_bit p (8 * ?f + j) = path_bit q (8 * ?f + j))"
      by blast
  qed
  also have "(\<forall>j < ?r. path_bit p (8 * ?f + j) = path_bit q (8 * ?f + j)) \<longleftrightarrow>
      p ! ?f AND high_mask ?r = q ! ?f AND high_mask ?r"
    using r by (simp add: and_high_mask_eq_iff path_bit_byte)
  finally show ?thesis using take_eq_iff_bits[of ?f p q] f assms by auto
qed

section \<open>Ranges of paths\<close>

lemma between_append:
  fixes q :: bytes
  assumes "length head \<le> length q"
  shows "head @ l \<le> q \<and> q \<le> head @ u \<longleftrightarrow>
    take (length head) q = head \<and> l \<le> drop (length head) q \<and> drop (length head) q \<le> u"
  using assms
proof (induction head arbitrary: q)
  case (Cons x head)
  then obtain y t where q: "q = y # t" by (cases q) auto
  have "length head \<le> length t" using Cons.prems q by simp
  from Cons.IH[OF this] show ?case unfolding q by auto
qed simp

lemma zeros_le: "length t = n \<Longrightarrow> replicate n 0 \<le> (t :: bytes)"
proof (induction n arbitrary: t)
  case (Suc n)
  then obtain y t' where "t = y # t'" by (cases t) auto
  with Suc show ?case by (auto simp: word_gt_0 order_le_less)
qed simp

lemma byte_le_255: "(y :: byte) \<le> 255"
proof -
  have eq: "(255 :: byte) = - 1" by simp
  show ?thesis unfolding eq by (rule word_n1_ge)
qed

lemma le_ones: "length t = n \<Longrightarrow> (t :: bytes) \<le> replicate n 255"
proof (induction n arbitrary: t)
  case (Suc n)
  then obtain y t' where "t = y # t'" by (cases t) auto
  with Suc show ?case using byte_le_255[of y] by (auto simp: order_le_less)
qed simp

lemma between_Cons:
  fixes y a b :: byte
  assumes "length t = n"
  shows "a # replicate n 0 \<le> y # t \<and> y # t \<le> b # replicate n 255 \<longleftrightarrow> a \<le> y \<and> y \<le> b"
  using zeros_le[OF assms] le_ones[OF assms] by auto

lemma drop_bit_byte_mono: "a \<le> b \<Longrightarrow> drop_bit k a \<le> drop_bit k (b :: byte)"
  unfolding word_le_nat_alt unat_drop_bit_eq by (simp add: drop_bit_eq_div[where ?'a = nat] div_le_mono)

lemma drop_bit_masked:
  assumes "r \<le> 8"
  shows "drop_bit (8 - r) (b AND high_mask r) = drop_bit (8 - r) b"
    and "drop_bit (8 - r) ((b AND high_mask r) OR NOT (high_mask r)) = drop_bit (8 - r) b"
proof -
  have len: "bit b k \<Longrightarrow> k < 8" for k using bit_imp_le_length[of b k] by simp
  show "drop_bit (8 - r) (b AND high_mask r) = drop_bit (8 - r) b"
    using assms len by (intro bit_word_eqI) (auto simp: bit_drop_bit_eq bit_and_iff bit_high_mask)
  show "drop_bit (8 - r) ((b AND high_mask r) OR NOT (high_mask r)) = drop_bit (8 - r) b"
    using assms len
    by (intro bit_word_eqI) (auto simp: bit_drop_bit_eq bit_and_iff bit_or_iff bit_not_iff bit_high_mask)
qed

lemma between_mask:
  assumes "r \<le> 8"
  shows "b AND high_mask r \<le> y \<and> y \<le> (b AND high_mask r) OR NOT (high_mask r) \<longleftrightarrow>
    b AND high_mask r = y AND high_mask r"
proof
  assume "b AND high_mask r \<le> y \<and> y \<le> (b AND high_mask r) OR NOT (high_mask r)"
  then have "drop_bit (8 - r) y = drop_bit (8 - r) b"
    using drop_bit_byte_mono[of "b AND high_mask r" y "8 - r"]
      drop_bit_byte_mono[of y "(b AND high_mask r) OR NOT (high_mask r)" "8 - r"]
    unfolding drop_bit_masked[OF assms] by (auto intro: order_antisym)
  then have "bit y (8 - r + i) = bit b (8 - r + i)" for i by (metis bit_drop_bit_eq comp_def)
  then have "bit y k = bit b k" if "8 - r \<le> k" for k using that le_Suc_ex by blast
  then show "b AND high_mask r = y AND high_mask r"
    using assms by (intro bit_word_eqI) (auto simp: bit_and_iff bit_high_mask)
next
  assume eq: "b AND high_mask r = y AND high_mask r"
  have "y OR NOT (high_mask r) = (y AND high_mask r) OR NOT (high_mask r)"
    by (intro bit_word_eqI) (auto simp: bit_and_iff bit_or_iff bit_not_iff)
  then show "b AND high_mask r \<le> y \<and> y \<le> (b AND high_mask r) OR NOT (high_mask r)"
    unfolding eq using word_and_le2[of y "high_mask r"] le_word_or2[of y "NOT (high_mask r)"]
    by (metis and.commute)
qed

text \<open>The range of a subtree: what \<^const>\<open>bounds\<close> returns and which paths it holds.\<close>

definition lo_of :: "bytes \<Rightarrow> nat \<Rightarrow> bytes" where
  "lo_of p d = fst (projr (bounds p d))"

definition hi_of :: "bytes \<Rightarrow> nat \<Rightarrow> bytes" where
  "hi_of p d = snd (projr (bounds p d))"

lemma bounds_path:
  assumes "length p = 32" "d \<le> 256"
  shows "bounds p d = Inr (lo_of p d, hi_of p d)"
    and "length (lo_of p d) = 32"
    and "length q = 32 \<Longrightarrow> lo_of p d \<le> q \<and> q \<le> hi_of p d \<longleftrightarrow> agree d p q"
proof -
  let ?f = "d div 8" and ?r = "d mod 8"
  have f: "?f \<le> 32" using div_le_mono[OF assms(2), of 8] by simp
  have fr: "?f < 32" if "?r \<noteq> 0"
  proof (rule ccontr)
    assume "\<not> ?f < 32"
    then have "256 \<le> 8 * ?f" by linarith
    moreover have "d = 8 * ?f + ?r" by simp
    ultimately show False using assms(2) that by linarith
  qed
  have hm: "push_bit (8 - ?r) 255 = high_mask ?r" by (simp add: high_mask_def)
  have b0: "bounds p d = Inr (take ?f p @ replicate (32 - ?f) 0, take ?f p @ replicate (32 - ?f) 255)" if "?r = 0"
    using that assms f by (simp add: bounds_def Let_def)
  have b1: "bounds p d =
      Inr (take ?f p @ (p ! ?f AND high_mask ?r) # replicate (31 - ?f) 0,
           take ?f p @ ((p ! ?f AND high_mask ?r) OR NOT (high_mask ?r)) # replicate (31 - ?f) 255)" if "?r \<noteq> 0"
    using that assms fr by (auto simp: bounds_def Let_def hm)
  show B: "bounds p d = Inr (lo_of p d, hi_of p d)"
    using b0 b1 unfolding lo_of_def hi_of_def by (cases "?r = 0") auto
  show "length (lo_of p d) = 32" using bounds_length[OF B] by simp
  assume q: "length q = 32"
  have t: "length (take ?f p) = ?f" using assms f by simp
  show "lo_of p d \<le> q \<and> q \<le> hi_of p d \<longleftrightarrow> agree d p q"
  proof (cases "?r = 0")
    case True
    then have "lo_of p d = take ?f p @ replicate (32 - ?f) 0" "hi_of p d = take ?f p @ replicate (32 - ?f) 255"
      using b0 B by auto
    then have "lo_of p d \<le> q \<and> q \<le> hi_of p d \<longleftrightarrow> take ?f q = take ?f p"
      using between_append[of "take ?f p" q] zeros_le[of "drop ?f q"] le_ones[of "drop ?f q"] q t f by auto
    then show ?thesis using agree_split[OF assms(1) q assms(2)] True by auto
  next
    case False
    then have lo: "lo_of p d = take ?f p @ (p ! ?f AND high_mask ?r) # replicate (31 - ?f) 0"
      and hi: "hi_of p d = take ?f p @ ((p ! ?f AND high_mask ?r) OR NOT (high_mask ?r)) # replicate (31 - ?f) 255"
      using b1 B by auto
    have dq: "drop ?f q = q ! ?f # drop (Suc ?f) q" using q fr[OF False] by (simp add: Cons_nth_drop_Suc)
    have "lo_of p d \<le> q \<and> q \<le> hi_of p d \<longleftrightarrow> take ?f q = take ?f p \<and>
        (p ! ?f AND high_mask ?r) # replicate (31 - ?f) 0 \<le> drop ?f q \<and>
        drop ?f q \<le> ((p ! ?f AND high_mask ?r) OR NOT (high_mask ?r)) # replicate (31 - ?f) 255"
      using between_append[of "take ?f p" q] q t f unfolding lo hi by simp
    also have "(p ! ?f AND high_mask ?r) # replicate (31 - ?f) 0 \<le> drop ?f q \<and>
        drop ?f q \<le> ((p ! ?f AND high_mask ?r) OR NOT (high_mask ?r)) # replicate (31 - ?f) 255 \<longleftrightarrow>
        p ! ?f AND high_mask ?r \<le> q ! ?f \<and> q ! ?f \<le> (p ! ?f AND high_mask ?r) OR NOT (high_mask ?r)"
      unfolding dq by (rule between_Cons) (simp add: q)
    also have "\<dots> \<longleftrightarrow> p ! ?f AND high_mask ?r = q ! ?f AND high_mask ?r"
      by (rule between_mask) simp
    finally show ?thesis using agree_split[OF assms(1) q assms(2)] False by auto
  qed
qed

lemma in_own_range: "length p = 32 \<Longrightarrow> d \<le> 256 \<Longrightarrow> lo_of p d \<le> p \<and> p \<le> hi_of p d"
  using bounds_path(3)[of p d p] by simp

lemma agree_lo: "length p = 32 \<Longrightarrow> d \<le> 256 \<Longrightarrow> agree d p (lo_of p d)"
  using in_own_range[of p d] bounds_path(2,3)[of p d] by (metis order_refl order_trans)

lemma bounds_eq_iff:
  assumes "length p = 32" "length q = 32" "d \<le> 256"
  shows "bounds p d = bounds q d \<longleftrightarrow> agree d p q"
proof
  assume "bounds p d = bounds q d"
  then have "lo_of p d = lo_of q d" by (simp add: lo_of_def)
  with agree_lo[of p d] agree_lo[of q d] assms show "agree d p q" by (metis agree_sym agree_trans)
next
  assume "agree d p q"
  then have "take (d div 8) p = take (d div 8) q"
    "d mod 8 \<noteq> 0 \<longrightarrow> p ! (d div 8) AND high_mask (d mod 8) = q ! (d div 8) AND high_mask (d mod 8)"
    using agree_split[OF assms] by auto
  then show "bounds p d = bounds q d" using assms by (auto simp: bounds_def high_mask_def Let_def)
qed

lemma lo_of_cong: "length p = 32 \<Longrightarrow> length q = 32 \<Longrightarrow> d \<le> 256 \<Longrightarrow> agree d p q \<Longrightarrow> lo_of p d = lo_of q d"
  using bounds_eq_iff[of p q d] by (simp add: lo_of_def)

lemma bounds_parts [simp]: "length p = 32 \<Longrightarrow> d \<le> 256 \<Longrightarrow> bounds p d = Inr (lo_of p d, hi_of p d)"
  by (rule bounds_path(1))

lemma length_lo_of [simp]: "length p = 32 \<Longrightarrow> d \<le> 256 \<Longrightarrow> length (lo_of p d) = 32"
  by (rule bounds_path(2))

section \<open>Single bits of a path\<close>

lemma index_in_path: "i < 256 \<Longrightarrow> i div 8 < (32 :: nat)"
  by (simp add: less_mult_imp_div_less)

lemma drop_bit_and_1: "drop_bit k w AND 1 = (if bit w k then 1 else (0 :: byte))"
  by (simp add: and_one_eq mod_2_eq_odd bit_iff_odd_drop_bit)

lemma bit_at_path [simp]:
  "length p = 32 \<Longrightarrow> i < 256 \<Longrightarrow> bit_at p i = Inr (if path_bit p i then 1 else 0)"
  using index_in_path[of i] by (simp add: bit_at_def drop_bit_and_1 has_signer_def)

lemma has_signer_update:
  assumes "i div 8 < length p" "\<And>k. k \<noteq> 7 - i mod 8 \<Longrightarrow> bit v k = bit (p ! (i div 8)) k"
  shows "has_signer (p[i div 8 := v]) j \<longleftrightarrow> (if j = i then bit v (7 - i mod 8) else has_signer p j)"
proof (cases "j div 8 = i div 8")
  case True
  then have "j = i \<longleftrightarrow> j mod 8 = i mod 8" by (metis div_mult_mod_eq)
  moreover have "7 - j mod 8 \<noteq> 7 - i mod 8" if "j mod 8 \<noteq> i mod 8"
    using that seven_minus_inj[of j i] by simp
  ultimately show ?thesis using True assms by (auto simp: has_signer_def)
next
  case False
  then show ?thesis by (auto simp: has_signer_def)
qed

lemma bit_push_one: "bit (2 ^ (7 - i mod 8) :: byte) k \<longleftrightarrow> k = 7 - i mod 8"
proof -
  have "7 - i mod 8 < (8 :: nat)" by simp
  then show ?thesis by (auto simp: bit_exp_iff)
qed

lemma flip_path:
  assumes "length p = 32" "i < 256"
  obtains q where "flip p i = Inr q" "length q = 32" "\<And>j. path_bit q j = (if j = i then \<not> path_bit p i else path_bit p j)"
proof
  let ?v = "p ! (i div 8) XOR push_bit (7 - i mod 8) 1"
  let ?q = "p[i div 8 := ?v]"
  show "flip p i = Inr ?q" using assms index_in_path by (simp add: flip_def)
  show "length ?q = 32" using assms by simp
  have lt: "i div 8 < length p" using assms index_in_path by simp
  show "path_bit ?q j = (if j = i then \<not> path_bit p i else path_bit p j)" for j
  proof -
    have "path_bit ?q j = (if j = i then bit ?v (7 - i mod 8) else path_bit p j)"
      using lt by (rule has_signer_update) (simp add: bit_xor_iff bit_push_one)
    moreover have "bit ?v (7 - i mod 8) = (\<not> path_bit p i)"
      by (simp add: bit_xor_iff bit_push_one has_signer_def)
    ultimately show ?thesis by presburger
  qed
qed

lemma with_bit_path:
  assumes "length p = 32" "i < 256"
  obtains q where "with_bit p i b = Inr q" "length q = 32" "\<And>j. path_bit q j = (if j = i then b else path_bit p j)"
proof
  let ?m = "push_bit (7 - i mod 8) (1 :: byte)"
  let ?v = "if b then p ! (i div 8) OR ?m else p ! (i div 8) AND NOT ?m"
  let ?q = "p[i div 8 := ?v]"
  have lt: "i div 8 < length p" using assms index_in_path by simp
  show "with_bit p i b = Inr ?q" using assms lt by (simp add: with_bit_def Let_def upd_conv_take_nth_drop)
  show "length ?q = 32" using assms by simp
  show "path_bit ?q j = (if j = i then b else path_bit p j)" for j
  proof -
    have "path_bit ?q j = (if j = i then bit ?v (7 - i mod 8) else path_bit p j)"
      using lt
    proof (rule has_signer_update)
      fix k assume k: "k \<noteq> 7 - i mod 8"
      show "bit ?v k = bit (p ! (i div 8)) k"
        using k by (auto simp: bit_or_iff bit_and_iff bit_not_iff bit_push_one dest: bit_imp_le_length)
    qed
    moreover have "bit ?v (7 - i mod 8) = b"
      by (auto simp: bit_or_iff bit_and_iff bit_not_iff bit_push_one)
    ultimately show ?thesis by presburger
  qed
qed

text \<open>The two halves of a subtree: the side of \<open>p\<close> and the other side.\<close>

definition other_side :: "bytes \<Rightarrow> nat \<Rightarrow> bytes" where
  "other_side p i = projr (flip p i)"

lemma other_side:
  assumes "length p = 32" "i < 256"
  shows "flip p i = Inr (other_side p i)" "length (other_side p i) = 32"
    "path_bit (other_side p i) j = (if j = i then \<not> path_bit p i else path_bit p j)"
  using flip_path[OF assms] unfolding other_side_def by (metis sum.sel(2))+

lemma agree_other_side: "length p = 32 \<Longrightarrow> i < 256 \<Longrightarrow> d \<le> i \<Longrightarrow> agree d p (other_side p i)"
  by (auto simp: agree_def other_side(3))

end
