(* ===== verification/Smt_Tree.thy ===== *)
theory Smt_Tree
  imports Smt_Paths
begin

text \<open>
  What the tree of \<^verbatim>\<open>smt.py\<close> computes. \<open>merkle\<close> is the reference: the hash of a set of
  leaves by repeated splitting on the next path bit, with no table, range query, ordering or memo.
  \<open>node_hash\<close> applies it to the rows below a prefix, and \<^const>\<open>hash_under\<close>, with a memo that is
  consistent with the table, returns exactly that value and keeps the memo consistent.
\<close>

definition row_digest :: "prims \<Rightarrow> live_row \<Rightarrow> digest" where
  "row_digest c r = h_domain c PERSON_LEAF
     (lr_path r @ h c (lr_value r) @ h c (lr_cred r) @ be_bytes 8 (nat (lr_epoch r)))"

definition leaf_of :: "prims \<Rightarrow> live_row \<Rightarrow> bytes \<times> digest" where
  "leaf_of c r = (lr_path r, row_digest c r)"

primrec merkle :: "prims \<Rightarrow> nat \<Rightarrow> (bytes \<times> digest) list \<Rightarrow> digest" where
  "merkle c 0 L = (if length L = 1 then snd (hd L) else EMPTY)"
| "merkle c (Suc k) L =
     (if L = [] then EMPTY
      else if length L = 1 then snd (hd L)
      else h_domain c PERSON_BRANCH
       (be_bytes 2 (255 - k) @ lo_of (fst (hd L)) (255 - k)
        @ merkle c k (filter (\<lambda>z. \<not> path_bit (fst z) (255 - k)) L)
        @ merkle c k (filter (\<lambda>z. path_bit (fst z) (255 - k)) L)))"

definition subtree :: "live_row list \<Rightarrow> bytes \<Rightarrow> nat \<Rightarrow> live_row list" where
  "subtree live p d = filter (\<lambda>r. agree d p (lr_path r)) live"

definition node_hash :: "prims \<Rightarrow> live_row list \<Rightarrow> bytes \<Rightarrow> nat \<Rightarrow> digest" where
  "node_hash c live p d = merkle c (256 - d) (map (leaf_of c) (subtree live p d))"

text \<open>A table the tree can hash: 32-byte paths, no two rows on one path, epochs of 8 bytes.\<close>

definition rows_ok :: "live_row list \<Rightarrow> bool" where
  "rows_ok live \<longleftrightarrow>
     (\<forall>r \<in> set live. length (lr_path r) = 32 \<and> 0 \<le> lr_epoch r \<and> lr_epoch r < 256 ^ 8) \<and>
     distinct (map lr_path live)"

definition memo_ok :: "prims \<Rightarrow> live_row list \<Rightarrow> memo \<Rightarrow> bool" where
  "memo_ok c live memo \<longleftrightarrow>
     (\<forall>p d v. length p = 32 \<and> d \<le> 256 \<and> memo (d, lo_of p d) = Some v \<longrightarrow> v = node_hash c live p d)"

lemma memo_ok_empty [simp]: "memo_ok c live Map.empty"
  by (simp add: memo_ok_def)

section \<open>The reference hash\<close>

lemma merkle_branch:
  assumes "2 \<le> length L"
  shows "merkle c (Suc k) L =
    h_domain c PERSON_BRANCH
      (be_bytes 2 (255 - k) @ lo_of (fst (hd L)) (255 - k)
       @ merkle c k (filter (\<lambda>z. \<not> path_bit (fst z) (255 - k)) L)
       @ merkle c k (filter (\<lambda>z. path_bit (fst z) (255 - k)) L))"
  using assms by auto

lemma merkle_few: "merkle c k [] = EMPTY" "merkle c k [x] = snd x"
  by (cases k; simp)+

lemma length_merkle:
  assumes "digest_width c" "\<forall>x \<in> set L. length (snd x) = 32"
  shows "length (merkle c k L) = 32"
  using assms by (cases k) (auto simp: EMPTY_def length_h_domain length_Suc_conv)

lemma length_row_digest: "digest_width c \<Longrightarrow> length (row_digest c r) = 32"
  by (simp add: row_digest_def length_h_domain)

lemma length_node_hash: "digest_width c \<Longrightarrow> length (node_hash c live p d) = 32"
  unfolding node_hash_def by (rule length_merkle) (auto simp: leaf_of_def length_row_digest)

declare merkle.simps [simp del]

lemma mset_short: "mset L = mset L' \<Longrightarrow> length L \<le> 1 \<Longrightarrow> L = L'"
  by (metis One_nat_def le_Suc_eq le_zero_eq length_0_conv length_Suc_conv mset_single_iff mset_single_iff_right
      mset.simps(1) mset_zero_iff size_mset)

text \<open>The order of the leaves does not matter.\<close>

lemma merkle_mset:
  assumes "mset L = mset L'" "k \<le> 256" "\<forall>x \<in> set L. length (fst x) = 32"
    "\<forall>x \<in> set L. \<forall>y \<in> set L. agree (256 - k) (fst x) (fst y)"
  shows "merkle c k L = merkle c k L'"
  using assms
proof (induction k arbitrary: L L')
  case 0
  then have "length L = length L'" by (metis size_mset)
  with mset_short[OF 0(1)] show ?case by (cases "length L = 1") (auto simp: merkle.simps)
next
  case (Suc k)
  have len: "length L = length L'" and sets: "set L = set L'"
    using Suc.prems(1) by (metis size_mset, metis set_mset_mset)
  show ?case
  proof (cases "2 \<le> length L")
    case False
    then have "L = L'" using mset_short[OF Suc.prems(1)] by simp
    then show ?thesis by (rule arg_cong)
  next
    case True
    then have "L \<noteq> []" "L' \<noteq> []" using len by auto
    then have in_L: "hd L \<in> set L" "hd L' \<in> set L" using sets hd_in_set by metis+
    have d: "256 - Suc k = 255 - k" "255 - k \<le> 256" and d': "256 - k = Suc (255 - k)"
      using Suc.prems(2) by auto
    have lo: "lo_of (fst (hd L)) (255 - k) = lo_of (fst (hd L')) (255 - k)"
      using in_L Suc.prems(3,4) d by (intro lo_of_cong) auto
    have sub: "merkle c k (filter P L) = merkle c k (filter P L')"
      if "\<And>x y. P x \<Longrightarrow> P y \<Longrightarrow> path_bit (fst x) (255 - k) = path_bit (fst y) (255 - k)" for P
      by (rule Suc.IH) (use Suc.prems that d d' in \<open>auto simp: agree_Suc\<close>)
    show ?thesis
      using True len lo sub[of "\<lambda>z. \<not> path_bit (fst z) (255 - k)"] sub[of "\<lambda>z. path_bit (fst z) (255 - k)"]
      by (simp add: merkle_branch)
  qed
qed

section \<open>Subtrees\<close>

lemma subtree_cong: "agree d p q \<Longrightarrow> subtree live p d = subtree live q d"
  unfolding subtree_def by (rule filter_cong) (auto intro: agree_trans agree_sym)

lemma node_hash_cong: "agree d p q \<Longrightarrow> node_hash c live p d = node_hash c live q d"
  by (simp add: node_hash_def subtree_cong)

lemma subtree_Suc: "subtree live p (Suc d) = filter (\<lambda>r. path_bit (lr_path r) d = path_bit p d) (subtree live p d)"
  by (auto simp: subtree_def agree_Suc intro: filter_cong)

lemma subtree_all [simp]: "subtree live p 0 = live"
  by (simp add: subtree_def)

lemma map_filter_leaf:
  "filter (\<lambda>z. P (fst z)) (map (leaf_of c) rs) = map (leaf_of c) (filter (\<lambda>r. P (lr_path r)) rs)"
  by (induction rs) (auto simp: leaf_of_def)

lemma rows_okD:
  assumes "rows_ok live" "r \<in> set live"
  shows "length (lr_path r) = 32" "0 \<le> lr_epoch r" "lr_epoch r < 256 ^ 8"
  using assms unfolding rows_ok_def by blast+

lemma subtree_256:
  assumes "rows_ok live" "length p = 32"
  shows "length (subtree live p 256) \<le> 1"
proof -
  have "distinct (map lr_path (subtree live p 256))"
    using assms(1) by (auto simp: rows_ok_def subtree_def intro: distinct_map_filter)
  moreover have "set (map lr_path (subtree live p 256)) \<subseteq> {p}"
    using rows_okD(1)[OF assms(1)] assms(2) by (auto simp: subtree_def path_eq_iff_agree intro: agree_sym)
  ultimately have "card (set (map lr_path (subtree live p 256))) \<le> 1"
    by (metis card_mono card.empty card_insert_disjoint empty_iff finite.emptyI finite_insert One_nat_def)
  with \<open>distinct _\<close> show ?thesis by (metis distinct_card length_map)
qed

text \<open>A node with two rows below it is the branch of its two halves.\<close>

lemma node_hash_branch:
  assumes rows: "rows_ok live" and p: "length p = 32" "d < 256" and two: "2 \<le> length (subtree live p d)"
  shows "branch_hash c d (lo_of p d)
      (if path_bit p d then node_hash c live (other_side p d) (Suc d) else node_hash c live p (Suc d))
      (if path_bit p d then node_hash c live p (Suc d) else node_hash c live (other_side p d) (Suc d))
    = Inr (node_hash c live p d)"
proof -
  let ?L = "map (leaf_of c) (subtree live p d)"
  have k: "256 - d = Suc (255 - d)" "255 - (255 - d) = d" "256 - Suc d = 255 - d" using p by auto
  have hd: "agree d p (fst (hd ?L))" "length (fst (hd ?L)) = 32"
  proof -
    have ne: "subtree live p d \<noteq> []" using two by auto
    then have "fst (hd ?L) = lr_path (hd (subtree live p d))" by (simp add: hd_map leaf_of_def)
    then show "agree d p (fst (hd ?L))" "length (fst (hd ?L)) = 32"
      using hd_in_set[OF ne] rows_okD(1)[OF rows] by (auto simp: subtree_def)
  qed
  have lo: "lo_of (fst (hd ?L)) d = lo_of p d"
    using hd p by (intro lo_of_cong agree_sym[OF hd(1)]) auto
  have side: "node_hash c live q (Suc d) = merkle c (255 - d) (filter (\<lambda>z. path_bit (fst z) d = b) ?L)"
    if "agree d q p" "path_bit q d = b" for q b
    using that subtree_cong[of d q p live] map_filter_leaf[of "\<lambda>p. path_bit p d = b" c]
    by (simp add: node_hash_def subtree_Suc k)
  have ag: "agree d (other_side p d) p" using agree_other_side[of p d d] p by (auto intro: agree_sym)
  have os: "path_bit (other_side p d) d = (\<not> path_bit p d)" using other_side(3)[of p d d] p by simp
  have b2: "to_bytes 2 (int d) = Inr (be_bytes 2 d)" using p by (simp add: to_bytes_def)
  have "node_hash c live p d = h_domain c PERSON_BRANCH (be_bytes 2 d @ lo_of p d
      @ merkle c (255 - d) (filter (\<lambda>z. path_bit (fst z) d = False) ?L)
      @ merkle c (255 - d) (filter (\<lambda>z. path_bit (fst z) d = True) ?L))"
    unfolding node_hash_def k(1) using two by (simp add: merkle_branch k(2) lo)
  then show ?thesis
    using side[OF ag os] side[of p "path_bit p d"] b2 by (cases "path_bit p d") (auto simp: branch_hash_def)
qed

section \<open>The range query sees the subtree\<close>

lemma select_range_subtree:
  assumes "rows_ok live" "length p = 32" "d \<le> 256"
  shows "select_range live (lo_of p d) (hi_of p d) = sort_key lr_path (subtree live p d)"
proof -
  have "filter (\<lambda>r. lo_of p d \<le> lr_path r \<and> lr_path r \<le> hi_of p d) live = subtree live p d"
    unfolding subtree_def
    by (rule filter_cong[OF refl]) (use bounds_path(3) rows_okD(1)[OF assms(1)] assms(2,3) in blast)
  then show ?thesis by (simp add: select_range_def)
qed

lemma row_leaf_ok: "rows_ok live \<Longrightarrow> r \<in> set live \<Longrightarrow> row_leaf c r = Inr (leaf_of c r)"
  using rows_okD[of live r] by (simp add: row_leaf_def leaf_hash_def leaf_of_def row_digest_def to_bytes_def)

lemma tree_leaves_eq:
  assumes "rows_ok live" "length p = 32" "d \<le> 256"
  shows "tree_leaves c live p d = Inr (map (leaf_of c) (take 2 (sort_key lr_path (subtree live p d))))"
proof -
  let ?rs = "take 2 (sort_key lr_path (subtree live p d))"
  have "set ?rs \<subseteq> set live" by (auto dest!: in_set_takeD simp: subtree_def)
  then have "\<forall>r \<in> set ?rs. row_leaf c r = Inr (leaf_of c r)" using row_leaf_ok[OF assms(1)] by blast
  then have "mapM (row_leaf c) ?rs = Inr (map (leaf_of c) ?rs)"
    using mapM_map_Inr[of ?rs "row_leaf c" "\<lambda>r. r" "leaf_of c"] by simp
  then show ?thesis using assms by (simp add: tree_leaves_def select_range_subtree)
qed

lemma leaves_found:
  assumes "found = map (leaf_of c) (take 2 (sort_key lr_path (subtree live p d)))"
  shows "found = [] \<longleftrightarrow> subtree live p d = []"
    and "length found = 1 \<longleftrightarrow> length (subtree live p d) = 1"
    and "length found \<le> 1 \<longleftrightarrow> length (subtree live p d) \<le> 1"
    and "length (subtree live p d) = 1 \<Longrightarrow> found = map (leaf_of c) (subtree live p d)"
proof -
  have len: "length found = min 2 (length (subtree live p d))"
    unfolding assms by (simp add: min.commute)
  show "found = [] \<longleftrightarrow> subtree live p d = []"
    using len by (cases "subtree live p d") auto
  show "length found = 1 \<longleftrightarrow> length (subtree live p d) = 1"
    "length found \<le> 1 \<longleftrightarrow> length (subtree live p d) \<le> 1"
    using len by auto
  assume "length (subtree live p d) = 1"
  then obtain r where r: "subtree live p d = [r]" by (auto simp: length_Suc_conv)
  show "found = map (leaf_of c) (subtree live p d)" unfolding assms r by simp
qed

lemma node_hash_empty: "subtree live p d = [] \<Longrightarrow> node_hash c live p d = EMPTY"
  by (simp add: node_hash_def merkle_few)

lemma node_hash_single: "length (subtree live p d) = 1 \<Longrightarrow> node_hash c live p d = row_digest c (hd (subtree live p d))"
  by (auto simp: node_hash_def length_Suc_conv merkle_few leaf_of_def)

section \<open>\<^verbatim>\<open>hash_under\<close> computes the reference hash\<close>

lemma children:
  assumes "length p = 32" "d < 256"
  shows "agree (Suc d) p (lo_of p (Suc d))" "agree (Suc d) (other_side p d) (lo_of (other_side p d) (Suc d))"
  using assms other_side(2) by (auto intro!: agree_lo)

lemma memo_okD: "memo_ok c live memo \<Longrightarrow> length p = 32 \<Longrightarrow> d \<le> 256 \<Longrightarrow> memo (d, lo_of p d) = Some v \<Longrightarrow> v = node_hash c live p d"
  by (auto simp: memo_ok_def)

lemma memo_ok_upd:
  assumes "memo_ok c live memo" "length p = 32" "d \<le> 256"
  shows "memo_ok c live (memo((d, lo_of p d) \<mapsto> node_hash c live p d))"
  unfolding memo_ok_def
proof (intro allI impI)
  fix q e v
  assume q: "length q = 32 \<and> e \<le> 256 \<and> (memo((d, lo_of p d) \<mapsto> node_hash c live p d)) (e, lo_of q e) = Some v"
  show "v = node_hash c live q e"
  proof (cases "e = d \<and> lo_of q e = lo_of p d")
    case True
    then have "agree d p q" using agree_lo[of p d] agree_lo[of q d] assms q by (metis agree_sym agree_trans)
    with True q show ?thesis using node_hash_cong[of d p q c live] by auto
  next
    case False
    with q have "memo (e, lo_of q e) = Some v" by (auto split: if_splits)
    with q show ?thesis using memo_okD[OF assms(1)] by blast
  qed
qed

declare hash_under.simps [simp del]

lemma hash_under_hit:
  assumes "digest_width c" "memo_ok c live memo" "length p = 32" "d \<le> 256" "memo (d, lo_of p d) = Some v"
  shows "hash_under c mz live p d memo = Inr (node_hash c live p d, memo)"
  using assms memo_okD[OF assms(2-5)] length_node_hash[OF assms(1), of live p d]
  by (simp add: hash_under.simps)

lemma hash_under_few:
  assumes "rows_ok live" "length p = 32" "d \<le> 256" "memo (d, lo_of p d) = None" "length (subtree live p d) \<le> 1"
  shows "hash_under c mz live p d memo = Inr (node_hash c live p d, memo)"
proof -
  define found where "found = map (leaf_of c) (take 2 (sort_key lr_path (subtree live p d)))"
  have leaves: "tree_leaves c live p d = Inr found"
    using tree_leaves_eq assms(1-3) by (simp add: found_def)
  note found = leaves_found[OF found_def]
  show ?thesis
  proof (cases "subtree live p d = []")
    case True
    then show ?thesis using assms leaves found(1) by (simp add: hash_under.simps node_hash_empty)
  next
    case False
    then have one: "length (subtree live p d) = 1" using assms(5) by (cases "subtree live p d") auto
    then obtain r where r: "subtree live p d = [r]" by (auto simp: length_Suc_conv)
    have f: "found = [leaf_of c r]" using found(4)[OF one] r by simp
    show ?thesis using assms leaves node_hash_single[OF one] by (simp add: hash_under.simps f r leaf_of_def)
  qed
qed

definition left_path :: "bytes \<Rightarrow> nat \<Rightarrow> bytes" where
  "left_path p d = lo_of (if path_bit p d then other_side p d else p) (Suc d)"

definition right_path :: "bytes \<Rightarrow> nat \<Rightarrow> bytes" where
  "right_path p d = lo_of (if path_bit p d then p else other_side p d) (Suc d)"

lemma hash_under_split:
  assumes "rows_ok live" "length p = 32" "d < 256" "memo (d, lo_of p d) = None" "2 \<le> length (subtree live p d)"
  shows "hash_under c mz live p d memo =
    rbind (hash_under c mz live (left_path p d) (Suc d) memo) (\<lambda>(lh, memo1).
    rbind (hash_under c mz live (right_path p d) (Suc d) memo1) (\<lambda>(rh, memo2).
    rbind (branch_hash c d (lo_of p d) lh rh) (\<lambda>node.
    Inr (node, if mz then memo2((d, lo_of p d) \<mapsto> node) else memo2))))"
proof -
  define found where "found = map (leaf_of c) (take 2 (sort_key lr_path (subtree live p d)))"
  have leaves: "tree_leaves c live p d = Inr found"
    using tree_leaves_eq assms(1-3) by (simp add: found_def)
  note found = leaves_found[OF found_def]
  have ne: "found \<noteq> []" "length found \<noteq> 1" using found(1,2) assms(5) by auto
  show ?thesis
    using assms leaves ne other_side(1,2)[of p d]
    by (subst hash_under.simps) (simp add: left_path_def right_path_def cong: rbind_cong)
qed

lemma halves:
  assumes "length p = 32" "d < 256"
  shows "length (left_path p d) = 32" "length (right_path p d) = 32"
    "node_hash c live (left_path p d) (Suc d) =
       (if path_bit p d then node_hash c live (other_side p d) (Suc d) else node_hash c live p (Suc d))"
    "node_hash c live (right_path p d) (Suc d) =
       (if path_bit p d then node_hash c live p (Suc d) else node_hash c live (other_side p d) (Suc d))"
  using children[OF assms] assms other_side(2)[OF assms]
  by (auto simp: left_path_def right_path_def dest: node_hash_cong[of _ _ _ c live])

lemma hash_under_node_hash:
  assumes "digest_width c" "rows_ok live" "memo_ok c live memo" "length p = 32" "d \<le> 256"
  shows "\<exists>memo'. hash_under c mz live p d memo = Inr (node_hash c live p d, memo') \<and>
    memo_ok c live memo' \<and> (mz \<or> memo' = memo)"
  using assms(3-)
proof (induction "256 - d" arbitrary: p d memo rule: less_induct)
  case less
  consider v where "memo (d, lo_of p d) = Some v"
    | "memo (d, lo_of p d) = None" "length (subtree live p d) \<le> 1"
    | "memo (d, lo_of p d) = None" "2 \<le> length (subtree live p d)"
    using not_less_eq_eq[of "length (subtree live p d)" 1]
    by (cases "memo (d, lo_of p d)") (auto simp: numeral_2_eq_2)
  then show ?case
  proof cases
    case 1
    then show ?thesis using hash_under_hit[OF assms(1)] less.prems by auto
  next
    case 2
    then show ?thesis using hash_under_few[OF assms(2)] less.prems by auto
  next
    case 3
    have "d \<noteq> 256" using subtree_256[OF assms(2) less.prems(2)] 3(2) by auto
    then have d: "d < 256" "256 - Suc d < 256 - d" "Suc d \<le> 256" using less.prems(3) by auto
    note hv = halves[OF less.prems(2) d(1)]
    obtain m1 where m1: "hash_under c mz live (left_path p d) (Suc d) memo =
        Inr (node_hash c live (left_path p d) (Suc d), m1)" "memo_ok c live m1" "mz \<or> m1 = memo"
      using less.hyps[OF d(2) less.prems(1) hv(1) d(3)] by blast
    obtain m2 where m2: "hash_under c mz live (right_path p d) (Suc d) m1 =
        Inr (node_hash c live (right_path p d) (Suc d), m2)" "memo_ok c live m2" "mz \<or> m2 = m1"
      using less.hyps[OF d(2) m1(2) hv(2) d(3)] by blast
    have "hash_under c mz live p d memo =
        Inr (node_hash c live p d, if mz then m2((d, lo_of p d) \<mapsto> node_hash c live p d) else m2)"
      using hash_under_split[where memo = memo, OF assms(2) less.prems(2) d(1) 3] m1(1) m2(1)
        node_hash_branch[OF assms(2) less.prems(2) d(1) 3(2), of c] hv(3,4) by simp
    then show ?thesis
      using memo_ok_upd[OF m2(2) less.prems(2,3)] m1(3) m2(2,3) by auto
  qed
qed

end
