(* ===== verification/Smt_Proofs.thy ===== *)
theory Smt_Proofs
  imports Smt_Tree
begin

text \<open>
  The services the tree offers to the store and to clients: the memo survives a write because
  \<^const>\<open>invalidate\<close> drops the path's own nodes; the proofs \<^const>\<open>prove\<close> builds verify; an
  accepted presence proof names a row of the table; equal roots mean equal tables. The last three
  concern hashing, so they carry what they need of it as hypotheses on the inputs actually hashed.
\<close>

section \<open>The memo across writes\<close>

lemma node_hash_mset:
  assumes "rows_ok live" "d \<le> 256" "mset (subtree live p d) = mset (subtree live' p d)"
  shows "node_hash c live p d = node_hash c live' p d"
  unfolding node_hash_def
proof (rule merkle_mset)
  show "mset (map (leaf_of c) (subtree live p d)) = mset (map (leaf_of c) (subtree live' p d))"
    using assms(3) by (metis mset_map)
  show "\<forall>x \<in> set (map (leaf_of c) (subtree live p d)). length (fst x) = 32"
    using rows_okD(1)[OF assms(1)] by (auto simp: leaf_of_def subtree_def)
  have "agree d (lr_path r) (lr_path r')" if "agree d p (lr_path r)" "agree d p (lr_path r')" for r r'
    using that by (blast intro: agree_trans agree_sym)
  then show "\<forall>x \<in> set (map (leaf_of c) (subtree live p d)). \<forall>y \<in> set (map (leaf_of c) (subtree live p d)).
      agree (256 - (256 - d)) (fst x) (fst y)"
    using assms(2) by (auto simp: leaf_of_def subtree_def)
qed simp

lemma subtree_mset_other:
  assumes "mset (filter (\<lambda>r. lr_path r \<noteq> path) live) = mset (filter (\<lambda>r. lr_path r \<noteq> path) live')"
    "\<not> agree d p path"
  shows "mset (subtree live p d) = mset (subtree live' p d)"
proof -
  have "subtree rs p d = filter (\<lambda>r. agree d p (lr_path r)) (filter (\<lambda>r. lr_path r \<noteq> path) rs)" for rs
    unfolding subtree_def filter_filter by (rule filter_cong) (use assms(2) in auto)
  then show ?thesis using assms(1) by (metis mset_filter)
qed

lemma mapM_keys:
  "length path = 32 \<Longrightarrow>
     mapM (\<lambda>d. rbind (bounds path d) (\<lambda>(lo, _). Inr (d, lo))) [0..<257] = Inr (map (\<lambda>d. (d, lo_of path d)) [0..<257])"
  using mapM_map_Inr[of "[0..<257]" "\<lambda>d. rbind (bounds path d) (\<lambda>(lo, _). Inr (d, lo))" "\<lambda>d. d" "\<lambda>d. (d, lo_of path d)"]
  by (simp del: upt_Suc upt_rec_numeral)

text \<open>After a write at \<open>path\<close>, the memo with the nodes above \<open>path\<close> dropped is consistent with the new table.\<close>

lemma invalidate_keeps_memo_ok:
  assumes "rows_ok live" "memo_ok c live memo" "length path = 32"
    "mset (filter (\<lambda>r. lr_path r \<noteq> path) live) = mset (filter (\<lambda>r. lr_path r \<noteq> path) live')"
  obtains memo' where "invalidate path memo = Inr memo'" "memo_ok c live' memo'"
proof
  let ?keys = "map (\<lambda>d. (d, lo_of path d)) [0..<257]"
  let ?memo = "\<lambda>k. if k \<in> set ?keys then None else memo k"
  show "invalidate path memo = Inr ?memo"
    using mapM_keys[OF assms(3)] by (simp add: invalidate_def MAX_DEPTH_def del: upt_Suc upt_rec_numeral)
  show "memo_ok c live' ?memo"
    unfolding memo_ok_def
  proof (intro allI impI)
    fix p d v
    assume p: "length p = 32 \<and> d \<le> 256 \<and> ?memo (d, lo_of p d) = Some v"
    then have "lo_of p d \<noteq> lo_of path d" and v: "v = node_hash c live p d"
      using memo_okD[OF assms(2)] by (auto split: if_splits)
    then have "\<not> agree d p path" using p assms(3) lo_of_cong by blast
    then show "v = node_hash c live' p d"
      unfolding v using node_hash_mset[OF assms(1)] subtree_mset_other[OF assms(4)] p by blast
  qed
qed

section \<open>Proofs built from the table verify\<close>

definition sibling_path :: "prims \<Rightarrow> live_row list \<Rightarrow> bytes \<Rightarrow> digest list \<Rightarrow> bool" where
  "sibling_path c live p sibs \<longleftrightarrow>
     (\<forall>i < length sibs. i < 256 \<and> sibs ! i = node_hash c live (other_side p i) (Suc i) \<and>
        2 \<le> length (subtree live p i))"

lemma fold_from_node_hash:
  assumes "rows_ok live" "length p = 32" "sibling_path c live p sibs" "n \<le> length sibs"
  shows "fold_from c p sibs n (node_hash c live p n) = Inr (node_hash c live p 0)"
  using assms(4)
proof (induction n)
  case (Suc n)
  then have n: "n < 256" "sibs ! n = node_hash c live (other_side p n) (Suc n)" "2 \<le> length (subtree live p n)"
    using assms(3) unfolding sibling_path_def by auto
  show ?case
    using Suc n assms(2) node_hash_branch[OF assms(1,2) n(1,3), of c] by (cases "path_bit p n") simp_all
qed simp

lemma prove_from_sibling_path:
  assumes "digest_width c" "rows_ok live" "length p = 32" "length (subtree live p 255) \<le> 1"
    "memo_ok c live memo" "sibling_path c live p sibs" "left + length sibs = 256"
    "length sibs = 256 \<longrightarrow> length (subtree live p 255) > 1"
  shows "\<exists>sibs' memo'. prove_from c mz live p left (length sibs) sibs memo =
      Inr (\<lparr>pf_siblings = sibs',
            pf_occupant = (if subtree live p (length sibs') = [] then None
                           else Some (leaf_of c (hd (subtree live p (length sibs')))))\<rparr>, memo') \<and>
    sibling_path c live p sibs' \<and> length sibs' \<le> 256 \<and> length (subtree live p (length sibs')) \<le> 1"
  using assms(5-)
proof (induction left arbitrary: sibs memo)
  case 0
  then show ?case using assms(4) by simp
next
  case (Suc left)
  let ?d = "length sibs"
  define found where "found = map (leaf_of c) (take 2 (sort_key lr_path (subtree live p ?d)))"
  have leaves: "tree_leaves c live p ?d = Inr found"
    using tree_leaves_eq[OF assms(2,3), of ?d] Suc.prems(3) by (simp add: found_def)
  note found = leaves_found[OF found_def]
  show ?case
  proof (cases "length found \<le> 1")
    case True
    then have few: "length (subtree live p ?d) \<le> 1" using found(3) by simp
    then have "found \<noteq> [] \<Longrightarrow> found ! 0 = leaf_of c (hd (subtree live p ?d))"
      using found(1,4) by (cases "subtree live p ?d") auto
    then show ?thesis using True few leaves found(1) Suc.prems(2,3) by (intro exI[of _ sibs]) auto
  next
    case False
    then have two: "2 \<le> length (subtree live p ?d)" using found(3) by simp
    have d: "?d < 256" "Suc ?d \<le> 256" using Suc.prems(3) by auto
    obtain memo' where hu: "hash_under c mz live (other_side p ?d) (Suc ?d) memo =
        Inr (node_hash c live (other_side p ?d) (Suc ?d), memo')" "memo_ok c live memo'"
      using hash_under_node_hash[OF assms(1,2) Suc.prems(1) other_side(2)[OF assms(3) d(1)] d(2)] by blast
    let ?sibs = "sibs @ [node_hash c live (other_side p ?d) (Suc ?d)]"
    have sp: "sibling_path c live p ?sibs"
      using Suc.prems(2) two d unfolding sibling_path_def by (auto simp: nth_append less_Suc_eq)
    have last: "length ?sibs = 256 \<longrightarrow> length (subtree live p 255) > 1" using two by auto
    show ?thesis
      using Suc.IH[OF hu(2) sp] last Suc.prems(3) leaves False hu(1) other_side(1)[OF assms(3) d(1)] by simp
  qed
qed

text \<open>
  The lookup \<^verbatim>\<open>SELECT value, epoch, cred FROM live WHERE store=? AND name=?\<close>.
\<close>

definition held_of :: "live_row \<Rightarrow> Held" where
  "held_of r = \<lparr>held_value = lr_value r, held_epoch = lr_epoch r, held_cred = lr_cred r\<rparr>"

definition live_get :: "live_row list \<Rightarrow> int \<Rightarrow> bytes \<Rightarrow> Held option" where
  "live_get live store name = map_option held_of (find (\<lambda>r. lr_store r = store \<and> lr_name r = name) live)"

text \<open>Every row sits at the path of its key, and the key asked for shares its path with no other.\<close>

definition keyed :: "prims \<Rightarrow> live_row list \<Rightarrow> bool" where
  "keyed c live \<longleftrightarrow> (\<forall>r \<in> set live. lr_path r = path_of c (lr_store r) (lr_name r))"

definition own_path :: "prims \<Rightarrow> live_row list \<Rightarrow> int \<Rightarrow> bytes \<Rightarrow> bool" where
  "own_path c live store name \<longleftrightarrow>
     (\<forall>r \<in> set live. lr_path r = path_of c store name \<longrightarrow> lr_store r = store \<and> lr_name r = name)"

lemma length_path_of: "digest_width c \<Longrightarrow> length (path_of c store name) = 32"
  by (simp add: path_of_def length_h_domain)

lemma live_get_Some:
  assumes "keyed c live" "live_get live store name = Some x"
  obtains r where "r \<in> set live" "lr_path r = path_of c store name" "x = held_of r"
proof -
  obtain r where "find (\<lambda>r. lr_store r = store \<and> lr_name r = name) live = Some r" "x = held_of r"
    using assms(2) by (auto simp: live_get_def)
  then have "r \<in> set live" "lr_store r = store" "lr_name r = name" by (auto simp: find_Some_iff)
  then show thesis using that assms(1) \<open>x = held_of r\<close> by (auto simp: keyed_def)
qed

lemma live_get_None:
  assumes "own_path c live store name" "live_get live store name = None" "r \<in> set live"
  shows "lr_path r \<noteq> path_of c store name"
  using assms by (auto simp: live_get_def own_path_def find_None_iff)

lemma leaf_hash_row:
  assumes "rows_ok live" "r \<in> set live"
  shows "leaf_hash c (lr_path r) (h c (lr_value r)) (h c (lr_cred r)) (lr_epoch r) = Inr (row_digest c r)"
  using rows_okD[OF assms] by (simp add: leaf_hash_def row_digest_def to_bytes_def)

lemma verify_node_hash:
  assumes "rows_ok live" "keyed c live" "own_path c live store name" "digest_width c"
    "sibling_path c live (path_of c store name) sibs" "length sibs \<le> 256"
    "length (subtree live (path_of c store name) (length sibs)) \<le> 1"
  shows "smt_verify c (node_hash c live (path_of c store name) 0) store name (live_get live store name)
    \<lparr>pf_siblings = sibs,
     pf_occupant = (if subtree live (path_of c store name) (length sibs) = [] then None
                    else Some (leaf_of c (hd (subtree live (path_of c store name) (length sibs)))))\<rparr> = Inr True"
proof -
  let ?p = "path_of c store name" and ?n = "length sibs"
  let ?sub = "subtree live ?p ?n"
  have p: "length ?p = 32" using length_path_of[OF assms(4)] .
  have fold: "smt_fold c ?p (node_hash c live ?p ?n) sibs = Inr (node_hash c live ?p 0)"
    unfolding smt_fold_def using fold_from_node_hash[OF assms(1) p assms(5)] by simp
  show ?thesis
  proof (cases "live_get live store name")
    case None
    show ?thesis
    proof (cases "?sub = []")
      case True
      then show ?thesis
        using None fold assms(6) node_hash_empty[OF True, of c]
        by (simp add: smt_verify_def smt_absent_def MAX_DEPTH_def)
    next
      case False
      then have one: "length ?sub = 1" using assms(7) by (cases ?sub) auto
      have r: "hd ?sub \<in> set live" "agree ?n ?p (lr_path (hd ?sub))"
        using hd_in_set[OF False] by (auto simp: subtree_def)
      have "bounds (lr_path (hd ?sub)) ?n = bounds ?p ?n"
        using r p rows_okD(1)[OF assms(1) r(1)] assms(6) bounds_eq_iff agree_sym by blast
      then show ?thesis
        using None False fold assms(6) p live_get_None[OF assms(3) None r(1)] node_hash_single[OF one, of c]
        by (simp add: smt_verify_def smt_absent_def MAX_DEPTH_def leaf_of_def)
    qed
  next
    case (Some x)
    then obtain r where r: "r \<in> set live" "lr_path r = ?p" "x = held_of r"
      using live_get_Some[OF assms(2)] by blast
    then have "r \<in> set ?sub" by (simp add: subtree_def)
    then have sub: "?sub = [r]" using assms(7) by (cases ?sub) auto
    then have "node_hash c live ?p ?n = row_digest c r" using node_hash_single[of live ?p ?n c] by simp
    then show ?thesis
      using Some fold assms(6) sub r leaf_hash_row[OF assms(1) r(1), of c]
      by (simp add: smt_verify_def smt_present_def MAX_DEPTH_def leaf_of_def held_of_def)
  qed
qed

section \<open>What an accepted proof and a root say\<close>

text \<open>
  The pairs of domain tag and data hashed for the table's own tree, and for one proof. The
  theorems below assume that the hash does not collide on these (finitely many) inputs and does
  not map one of them to the reserved hash of the empty tree.
\<close>

definition leaf_input :: "prims \<Rightarrow> bytes \<Rightarrow> bytes \<Rightarrow> bytes \<Rightarrow> int \<Rightarrow> bytes \<times> bytes" where
  "leaf_input c path value cred epoch =
     (PERSON_LEAF, path @ h c value @ h c cred @ be_bytes 8 (nat epoch))"

definition row_input :: "prims \<Rightarrow> live_row \<Rightarrow> bytes \<times> bytes" where
  "row_input c r = leaf_input c (lr_path r) (lr_value r) (lr_cred r) (lr_epoch r)"

definition branch_input :: "bytes \<Rightarrow> nat \<Rightarrow> digest \<Rightarrow> digest \<Rightarrow> bytes \<times> bytes" where
  "branch_input p d own other =
     (PERSON_BRANCH, be_bytes 2 d @ lo_of p d @ (if path_bit p d then other @ own else own @ other))"

definition tree_inputs :: "prims \<Rightarrow> live_row list \<Rightarrow> (bytes \<times> bytes) set" where
  "tree_inputs c live =
     row_input c ` set live \<union>
     {branch_input p d (node_hash c live p (Suc d)) (node_hash c live (other_side p d) (Suc d)) | p d.
        length p = 32 \<and> d < 256 \<and> 2 \<le> length (subtree live p d)}"

fun fold_inputs :: "prims \<Rightarrow> bytes \<Rightarrow> digest list \<Rightarrow> nat \<Rightarrow> digest \<Rightarrow> (bytes \<times> bytes) list" where
  "fold_inputs c p sibs 0 node = []"
| "fold_inputs c p sibs (Suc d) node =
     (let i = branch_input p d node (sibs ! d) in i # fold_inputs c p sibs d (h_domain c (fst i) (snd i)))"

definition no_clash :: "prims \<Rightarrow> (bytes \<times> bytes) set \<Rightarrow> bool" where
  "no_clash c S \<longleftrightarrow>
     inj_on (\<lambda>(person, data). h_domain c person data) S \<and>
     (\<forall>(person, data) \<in> S. h_domain c person data \<noteq> EMPTY)"

lemma no_clashD:
  assumes "no_clash c S" "i \<in> S"
  shows "h_domain c (fst i) (snd i) \<noteq> EMPTY"
    and "j \<in> S \<Longrightarrow> h_domain c (fst i) (snd i) = h_domain c (fst j) (snd j) \<Longrightarrow> i = j"
  using assms unfolding no_clash_def inj_on_def by (auto simp: split_beta)

lemma no_clash_mono: "no_clash c S \<Longrightarrow> T \<subseteq> S \<Longrightarrow> no_clash c T"
  by (auto simp: no_clash_def intro: inj_on_subset)

lemma row_digest_input: "row_digest c r = h_domain c (fst (row_input c r)) (snd (row_input c r))"
  by (simp add: row_digest_def row_input_def leaf_input_def)

lemma node_hash_input:
  assumes "rows_ok live" "length p = 32" "d < 256" "2 \<le> length (subtree live p d)"
    "i = branch_input p d (node_hash c live p (Suc d)) (node_hash c live (other_side p d) (Suc d))"
  shows "node_hash c live p d = h_domain c (fst i) (snd i)"
  using node_hash_branch[OF assms(1-4), of c] assms(3)
  by (auto simp: assms(5) branch_hash_def branch_input_def to_bytes_def split: if_splits)

lemma tags_differ: "PERSON_LEAF \<noteq> PERSON_BRANCH"
  by (simp add: PERSON_LEAF_def PERSON_BRANCH_def)

lemma fst_branch_input [simp]: "fst (branch_input p d a b) = PERSON_BRANCH"
  and fst_row_input [simp]: "fst (row_input c r) = PERSON_LEAF"
  and fst_leaf_input [simp]: "fst (leaf_input c q v w e) = PERSON_LEAF"
  by (simp_all add: branch_input_def row_input_def leaf_input_def)

lemma branch_input_inject:
  assumes "branch_input p d a b = branch_input q d a' b'" "length (lo_of p d) = 32" "length (lo_of q d) = 32"
    "length a = 32" "length b = 32" "length a' = 32" "length b' = 32" "path_bit p d = path_bit q d"
  shows "lo_of p d = lo_of q d \<and> a = a' \<and> b = b'"
  using assms by (auto simp: branch_input_def split: if_splits)

text \<open>The three shapes of a node, as hashes of known inputs.\<close>

lemma node_hash_cases:
  assumes "rows_ok live" "length p = 32" "d \<le> 256"
  obtains "subtree live p d = []" "node_hash c live p d = EMPTY"
    | r where "r \<in> set live" "subtree live p d = [r]"
        "node_hash c live p d = h_domain c (fst (row_input c r)) (snd (row_input c r))"
        "row_input c r \<in> tree_inputs c live"
    | i where "d < 256" "2 \<le> length (subtree live p d)"
        "i = branch_input p d (node_hash c live p (Suc d)) (node_hash c live (other_side p d) (Suc d))"
        "node_hash c live p d = h_domain c (fst i) (snd i)" "i \<in> tree_inputs c live"
proof -
  consider "subtree live p d = []" | r where "subtree live p d = [r]" | "2 \<le> length (subtree live p d)"
    by (cases "subtree live p d" rule: remdups_adj.cases) auto
  then show thesis
  proof cases
    case 1
    then show thesis using that(1) node_hash_empty by blast
  next
    case (2 r)
    then have "r \<in> set (subtree live p d)" by simp
    then have "r \<in> set live" by (simp add: subtree_def)
    moreover have "node_hash c live p d = row_digest c r" using node_hash_single[of live p d c] 2 by simp
    ultimately show thesis using that(2) 2 by (auto simp: row_digest_input tree_inputs_def)
  next
    case 3
    then have "d \<noteq> 256" using subtree_256[OF assms(1,2)] by auto
    then have d: "d < 256" using assms(3) by simp
    show thesis
      by (rule that(3)[OF d 3 refl node_hash_input[OF assms(1,2) d 3 refl]])
        (use assms(2) d 3 in \<open>auto simp: tree_inputs_def\<close>)
  qed
qed

lemma fold_from_down:
  assumes "rows_ok live" "digest_width c" "length p = 32" "no_clash c S" "tree_inputs c live \<subseteq> S"
    "\<forall>s \<in> set sibs. length s = 32"
  shows "fold_from c p sibs n node = Inr (node_hash c live p 0) \<Longrightarrow> n \<le> length sibs \<Longrightarrow> n \<le> 256 \<Longrightarrow>
    length node = 32 \<Longrightarrow> set (fold_inputs c p sibs n node) \<subseteq> S \<Longrightarrow> node = node_hash c live p n"
proof (induction n arbitrary: node)
  case (Suc d)
  define i where "i = branch_input p d node (sibs ! d)"
  let ?up = "h_domain c (fst i) (snd i)"
  have d: "d < 256" "d \<le> 256" and i: "i \<in> S"
    using Suc.prems by (auto simp: i_def Let_def)
  have step: "fold_from c p sibs (Suc d) node = fold_from c p sibs d ?up"
    using assms(3) d
    by (cases "path_bit p d") (simp_all add: branch_hash_def to_bytes_def i_def branch_input_def)
  have up: "?up = node_hash c live p d"
    by (rule Suc.IH) (use Suc.prems step assms(2) in \<open>auto simp: length_h_domain i_def Let_def\<close>)
  have sib: "length (sibs ! d) = 32" using Suc.prems(2) assms(6) by simp
  show ?case
  proof (cases rule: node_hash_cases[OF assms(1,3) d(2), of c])
    case 1
    with up no_clashD(1)[OF assms(4) i] show ?thesis by simp
  next
    case (2 r)
    then have "i = row_input c r"
      using up no_clashD(2)[OF assms(4) i subsetD[OF assms(5) 2(4)]] by simp
    then show ?thesis using tags_differ by (metis fst_branch_input fst_row_input i_def)
  next
    case (3 j)
    then have "i = j" using up no_clashD(2)[OF assms(4) i subsetD[OF assms(5) 3(5)]] by metis
    then show ?thesis
      using 3(3) assms(3) d Suc.prems(4) sib length_node_hash[OF assms(2)]
        branch_input_inject[of p d node "sibs ! d" p] unfolding i_def by auto
  qed
qed simp

definition contents :: "live_row \<Rightarrow> bytes \<times> bytes \<times> bytes \<times> int" where
  "contents r = (lr_path r, lr_value r, lr_cred r, lr_epoch r)"

definition blobs :: "live_row list \<Rightarrow> bytes set" where
  "blobs live = lr_value ` set live \<union> lr_cred ` set live"

lemma be_bytes_inject: "0 \<le> m \<Longrightarrow> m < 256 ^ 8 \<Longrightarrow> 0 \<le> n \<Longrightarrow> n < 256 ^ 8 \<Longrightarrow>
    be_bytes 8 (nat m) = be_bytes 8 (nat n) \<Longrightarrow> m = n"
  by (rule to_bytes_inj[of 8 m "be_bytes 8 (nat m)"]) (simp_all add: to_bytes_Inr)

lemma leaf_input_inject:
  assumes "leaf_input c p v w e = leaf_input c q v' w' e'" "digest_width c" "length p = 32" "length q = 32"
    "0 \<le> e" "e < 256 ^ 8" "0 \<le> e'" "e' < 256 ^ 8" "inj_on (h c) {v, v', w, w'}"
  shows "p = q \<and> v = v' \<and> w = w' \<and> e = e'"
proof -
  have "p = q" "h c v = h c v'" "h c w = h c w'" "be_bytes 8 (nat e) = be_bytes 8 (nat e')"
    using assms(1-4) by (auto simp: leaf_input_def length_h)
  moreover from this(4) have "e = e'" using assms(5-8) by (intro be_bytes_inject)
  ultimately show ?thesis using assms(9) by (auto dest: inj_onD)
qed

lemma row_input_inject:
  assumes "row_input c r = row_input c r'" "digest_width c" "rows_ok live" "rows_ok live'"
    "r \<in> set live" "r' \<in> set live'" "inj_on (h c) (blobs live \<union> blobs live')"
  shows "contents r = contents r'"
proof -
  have "inj_on (h c) {lr_value r, lr_value r', lr_cred r, lr_cred r'}"
    by (rule inj_on_subset[OF assms(7)]) (use assms(5,6) in \<open>auto simp: blobs_def\<close>)
  from leaf_input_inject[OF assms(1)[unfolded row_input_def] assms(2) _ _ _ _ _ _ this] show ?thesis
    using rows_okD[OF assms(3,5)] rows_okD[OF assms(4,6)] by (simp add: contents_def)
qed

lemma set_subtree_Suc:
  assumes "length p = 32" "d < 256"
  shows "set (subtree live p d) = set (subtree live p (Suc d)) \<union> set (subtree live (other_side p d) (Suc d))"
proof -
  have "agree d (other_side p d) p" "path_bit (other_side p d) d = (\<not> path_bit p d)"
    using agree_other_side[OF assms, of d] other_side(3)[OF assms, of d] agree_sym by auto
  then show ?thesis using subtree_cong[of d "other_side p d" p live] by (auto simp: subtree_Suc)
qed

lemma node_hash_inject:
  assumes "rows_ok live" "rows_ok live'" "digest_width c" "no_clash c (tree_inputs c live \<union> tree_inputs c live')"
  shows "length p = 32 \<Longrightarrow> d \<le> 256 \<Longrightarrow> node_hash c live p d = node_hash c live' p d \<Longrightarrow>
    row_input c ` set (subtree live p d) = row_input c ` set (subtree live' p d)"
proof (induction "256 - d" arbitrary: p d rule: less_induct)
  case less
  note clash = no_clashD[OF assms(4)]
  show ?case
  proof (cases rule: node_hash_cases[OF assms(1) less.prems(1,2), of c])
    case 1
    note none = 1
    show ?thesis
    proof (cases rule: node_hash_cases[OF assms(2) less.prems(1,2), of c])
      case 1
      with none show ?thesis by simp
    next
      case (2 r)
      with none show ?thesis using less.prems(3) clash(1)[OF UnI2[OF 2(4)]] by simp
    next
      case (3 i)
      with none show ?thesis using less.prems(3) clash(1)[OF UnI2[OF 3(5)]] by metis
    qed
  next
    case (2 r)
    note one = 2
    show ?thesis
    proof (cases rule: node_hash_cases[OF assms(2) less.prems(1,2), of c])
      case 1
      then show ?thesis using one(3) less.prems(3) clash(1)[OF UnI1[OF one(4)]] by simp
    next
      case (2 r')
      then have "row_input c r = row_input c r'"
        using one(3) less.prems(3) clash(2)[OF UnI1[OF one(4)] UnI2[OF 2(4)]] by metis
      then show ?thesis using one(2) 2(2) by simp
    next
      case (3 i)
      then have "row_input c r = i"
        using one(3) less.prems(3) clash(2)[OF UnI1[OF one(4)] UnI2[OF 3(5)]] by metis
      then show ?thesis using 3(3) tags_differ by (metis fst_branch_input fst_row_input)
    qed
  next
    case (3 i)
    note live = 3
    show ?thesis
    proof (cases rule: node_hash_cases[OF assms(2) less.prems(1,2), of c])
      case 1
      then show ?thesis using live(4) less.prems(3) clash(1)[OF UnI1[OF live(5)]] by metis
    next
      case (2 r)
      then have "row_input c r = i"
        using live(4) less.prems(3) clash(2)[OF UnI1[OF live(5)] UnI2[OF 2(4)]] by metis
      then show ?thesis using live(3) tags_differ by (metis fst_branch_input fst_row_input)
    next
      case (3 j)
      then have "i = j"
        using live(4) less.prems(3) clash(2)[OF UnI1[OF live(5)] UnI2[OF 3(5)]] by metis
      then have "node_hash c live p (Suc d) = node_hash c live' p (Suc d)"
        "node_hash c live (other_side p d) (Suc d) = node_hash c live' (other_side p d) (Suc d)"
        using live(3) 3(3) less.prems(1,2) length_node_hash[OF assms(3)] branch_input_inject by auto
      then show ?thesis
        using less.hyps[of "Suc d" p] less.hyps[of "Suc d" "other_side p d"] less.prems(1) live(1)
          other_side(2)[OF less.prems(1) live(1)] set_subtree_Suc[OF less.prems(1) live(1)]
        by (simp add: image_Un)
    qed
  qed
qed

lemma node_hash_root: "node_hash c live p 0 = merkle c 256 (map (leaf_of c) live)"
  by (simp add: node_hash_def)

lemma tree_root_node_hash:
  assumes "digest_width c" "rows_ok live" "memo_ok c live memo"
  shows "\<exists>memo'. tree_root c mz live memo = Inr (merkle c 256 (map (leaf_of c) live), memo') \<and> memo_ok c live memo'"
  using hash_under_node_hash[OF assms, of "replicate 32 0" 0 mz] by (auto simp: tree_root_def node_hash_root)

lemma merkle_contents:
  assumes "rows_ok live" "rows_ok live'" "contents ` set live = contents ` set live'"
  shows "merkle c 256 (map (leaf_of c) live) = merkle c 256 (map (leaf_of c) live')"
proof (rule merkle_mset)
  define f where "f = (\<lambda>(p, v, w, e). (p, h_domain c PERSON_LEAF (p @ h c v @ h c w @ be_bytes 8 (nat e))))"
  have f: "map (leaf_of c) rs = map f (map contents rs)" for rs
    by (simp add: f_def contents_def leaf_of_def row_digest_def)
  have "distinct (map contents rs)" if "rows_ok rs" for rs
    using that by (auto simp: rows_ok_def distinct_map inj_on_def contents_def)
  then have "mset (map contents live) = mset (map contents live')"
    using assms by (intro set_eq_iff_mset_eq_distinct[THEN iffD1]) auto
  then show "mset (map (leaf_of c) live) = mset (map (leaf_of c) live')" unfolding f by (metis mset_map)
qed (use rows_okD(1)[OF assms(1)] in \<open>auto simp: leaf_of_def\<close>)

section \<open>Properties\<close>

text \<open>
  C19: the memoised tree computes the reference tree, before and after a write. With a consistent
  memo \<^verbatim>\<open>Tree.root()\<close> returns the Merkle hash of the rows; and after any change to the
  row at \<open>path\<close>, with \<^verbatim>\<open>invalidate(path)\<close> called, the root is the Merkle hash of the new
  rows: no stale node is ever served.
\<close>

theorem memoised_root_is_merkle:
  assumes "digest_width c" "rows_ok live" "memo_ok c live memo" "rows_ok live'" "length path = 32"
    "mset (filter (\<lambda>r. lr_path r \<noteq> path) live) = mset (filter (\<lambda>r. lr_path r \<noteq> path) live')"
  shows "\<exists>m1 m2 m3. tree_root c mz live memo = Inr (merkle c 256 (map (leaf_of c) live), m1) \<and>
    invalidate path m1 = Inr m2 \<and>
    tree_root c mz live' m2 = Inr (merkle c 256 (map (leaf_of c) live'), m3)"
proof -
  obtain m1 where m1: "tree_root c mz live memo = Inr (merkle c 256 (map (leaf_of c) live), m1)" "memo_ok c live m1"
    using tree_root_node_hash[OF assms(1-3)] by blast
  obtain m2 where m2: "invalidate path m1 = Inr m2" "memo_ok c live' m2"
    using invalidate_keeps_memo_ok[OF assms(2) m1(2) assms(5,6)] by blast
  show ?thesis using m1 m2 tree_root_node_hash[OF assms(1,4) m2(2), of mz] by blast
qed

definition sample_row :: live_row where
  "sample_row = \<lparr>lr_store = 1, lr_name = [7], lr_value = [9], lr_epoch = 0,
     lr_path = path_of (sample []) 1 [7], lr_cred = [9]\<rparr>"

lemma sample_rows_ok: "rows_ok [sample_row]" "rows_ok []" "keyed (sample []) [sample_row]"
    "own_path (sample []) [sample_row] 1 [7]"
  by (simp_all add: rows_ok_def keyed_def own_path_def sample_row_def length_path_of[OF sample_digest_width])

lemma sample_tree_inputs: "tree_inputs (sample []) [sample_row] = {row_input (sample []) sample_row}"
    "tree_inputs (sample []) [] = {}"
  by (auto simp: tree_inputs_def subtree_def split: if_splits)

lemma sample_hash_not_EMPTY: "h_domain (sample []) p d \<noteq> EMPTY"
proof
  assume "h_domain (sample []) p d = EMPTY"
  then have "be_bytes 32 1 = EMPTY" by (simp add: h_domain_def sample_def position_def)
  moreover have "foldl (\<lambda>a d. a * 256 + unat d) 0 (replicate n 0) = 0" for n by (induction n) auto
  ultimately have "from_bytes (be_bytes 32 1) = 0" by (simp add: EMPTY_def from_bytes_def)
  then show False by (simp add: from_bytes_be_bytes)
qed

lemma sample_no_clash: "no_clash (sample []) {i}"
  using sample_hash_not_EMPTY by (simp add: no_clash_def split_beta)

theorem memoised_root_is_merkle_witness:
  "\<exists>m1 m2 m3.
     tree_root (sample []) True [sample_row] Map.empty = Inr (row_digest (sample []) sample_row, m1) \<and>
     invalidate (lr_path sample_row) m1 = Inr m2 \<and> tree_root (sample []) True [] m2 = Inr (EMPTY, m3)"
proof -
  have "length (lr_path sample_row) = 32"
    using length_path_of[OF sample_digest_width] by (simp add: sample_row_def)
  from memoised_root_is_merkle[OF sample_digest_width[of "[]"] sample_rows_ok(1) memo_ok_empty sample_rows_ok(2) this, of True]
  show ?thesis by (simp add: merkle_few leaf_of_def)
qed

text \<open>
  Completeness of proofs. For any key, \<^verbatim>\<open>Tree.prove\<close> returns a proof that
  \<^verbatim>\<open>smt.verify\<close> accepts against \<^verbatim>\<open>Tree.root()\<close>, for the row the table holds or, when it
  holds none, for its absence. The key must not share its path, nor all but the last bit of it,
  with another row.
\<close>

lemma prove_verifies:
  assumes "digest_width c" "rows_ok live" "keyed c live" "memo_ok c live memo"
    "own_path c live store name" "length (subtree live (path_of c store name) 255) \<le> 1"
  shows "\<exists>root m1 pf m2. tree_root c mz live memo = Inr (root, m1) \<and>
    prove c mz live store name m1 = Inr (pf, m2) \<and>
    smt_verify c root store name (live_get live store name) pf = Inr True"
proof -
  let ?p = "path_of c store name"
  obtain m1 where m1: "tree_root c mz live memo = Inr (node_hash c live ?p 0, m1)" "memo_ok c live m1"
    using tree_root_node_hash[OF assms(1,2,4)] unfolding node_hash_root by blast
  have p: "length ?p = 32" using length_path_of[OF assms(1)] .
  have "sibling_path c live ?p []" by (simp add: sibling_path_def)
  from prove_from_sibling_path[OF assms(1,2) p assms(6) m1(2) this, of MAX_DEPTH mz]
  obtain sibs m2 where pf: "prove c mz live store name m1 =
      Inr (\<lparr>pf_siblings = sibs, pf_occupant = (if subtree live ?p (length sibs) = [] then None
         else Some (leaf_of c (hd (subtree live ?p (length sibs)))))\<rparr>, m2)"
      "sibling_path c live ?p sibs" "length sibs \<le> 256" "length (subtree live ?p (length sibs)) \<le> 1"
    unfolding prove_def by (auto simp: MAX_DEPTH_def)
  show ?thesis using m1(1) pf(1) verify_node_hash[OF assms(2,3,5,1) pf(2-4)] by blast
qed

lemma prove_verifies_witness:
  "\<exists>root m1 pf m2. tree_root (sample []) False [sample_row] Map.empty = Inr (root, m1) \<and>
    prove (sample []) False [sample_row] 1 [7] m1 = Inr (pf, m2) \<and>
    smt_verify (sample []) root 1 [7] (Some (held_of sample_row)) pf = Inr True"
  using prove_verifies[OF sample_digest_width[of "[]"] sample_rows_ok(1,3) memo_ok_empty sample_rows_ok(4), of False]
  by (simp add: subtree_def live_get_def sample_row_def)

text \<open>
  Soundness of presence proofs. If \<^verbatim>\<open>smt.verify\<close> accepts a row for a key against the
  root of a table, the table holds a row at that key's path with that value, credential and epoch,
  unless the hash collides on the inputs of this check and of the tree.
\<close>

lemma presence_proof_sound:
  assumes "digest_width c" "rows_ok live"
    "smt_verify c (merkle c 256 (map (leaf_of c) live)) store name (Some held) pf = Inr True"
    "\<forall>s \<in> set (pf_siblings pf). length s = 32"
    "no_clash c (tree_inputs c live \<union>
       {leaf_input c (path_of c store name) (held_value held) (held_cred held) (held_epoch held)} \<union>
       set (fold_inputs c (path_of c store name) (pf_siblings pf) (length (pf_siblings pf))
         (snd (the (pf_occupant pf)))))"
    "inj_on (h c) (blobs live \<union> {held_value held, held_cred held})"
  shows "\<exists>r \<in> set live. lr_path r = path_of c store name \<and> held_of r = held"
proof -
  let ?p = "path_of c store name" and ?n = "length (pf_siblings pf)"
  let ?i = "leaf_input c ?p (held_value held) (held_cred held) (held_epoch held)"
  let ?S = "tree_inputs c live \<union> {?i} \<union> set (fold_inputs c ?p (pf_siblings pf) ?n (snd (the (pf_occupant pf))))"
  have p: "length ?p = 32" using length_path_of[OF assms(1)] .
  obtain lh where n: "?n \<le> 256" and occ: "pf_occupant pf = Some (?p, lh)"
    and lf: "leaf_hash c ?p (h c (held_value held)) (h c (held_cred held)) (held_epoch held) = Inr lh"
    and fold: "fold_from c ?p (pf_siblings pf) ?n lh = Inr (node_hash c live ?p 0)"
    using assms(3)
    by (auto simp: smt_verify_def smt_present_def smt_fold_def MAX_DEPTH_def node_hash_root rbind_Inr_conv
        split: if_splits option.splits)
  have ep: "0 \<le> held_epoch held" "held_epoch held < 256 ^ 8" and t: "lh = h_domain c (fst ?i) (snd ?i)"
    using lf by (auto simp: leaf_hash_def leaf_input_def rbind_Inr_conv to_bytes_Inr)
  have sub: "tree_inputs c live \<subseteq> ?S" by blast
  have "set (fold_inputs c ?p (pf_siblings pf) ?n lh) \<subseteq> ?S" unfolding occ by auto
  then have node: "node_hash c live ?p ?n = h_domain c (fst ?i) (snd ?i)"
    using fold_from_down[OF assms(2,1) p assms(5) sub assms(4) fold order_refl n] t length_h_domain[OF assms(1)] by simp
  note clash = no_clashD[OF assms(5), of ?i]
  show ?thesis
  proof (cases rule: node_hash_cases[OF assms(2) p n, of c])
    case 1
    then show ?thesis using clash(1) node by simp
  next
    case (2 r)
    have eq: "?i = row_input c r"
      using clash(2)[of "row_input c r"] node 2(3,4) by (metis UnCI insertI1)
    have inj: "inj_on (h c) {held_value held, lr_value r, held_cred held, lr_cred r}"
      by (rule inj_on_subset[OF assms(6)]) (use 2(1) in \<open>auto simp: blobs_def\<close>)
    have "?p = lr_path r \<and> held_value held = lr_value r \<and> held_cred held = lr_cred r \<and> held_epoch held = lr_epoch r"
      by (rule leaf_input_inject[OF eq[unfolded row_input_def] assms(1) p _ ep _ _ inj])
        (use rows_okD[OF assms(2) 2(1)] in auto)
    with 2(1) show ?thesis by (intro bexI[of _ r]) (auto simp: held_of_def)
  next
    case (3 j)
    then have "?i = j" using clash(2)[of j] node by (metis UnCI insertI1)
    then show ?thesis using 3(3) tags_differ by (metis fst_branch_input fst_leaf_input)
  qed
qed

lemma presence_proof_sound_witness:
  "\<exists>r \<in> set [sample_row]. lr_path r = path_of (sample []) 1 [7] \<and> held_of r = held_of sample_row"
proof (rule presence_proof_sound)
  let ?c = "sample []"
  let ?pf = "\<lparr>pf_siblings = [], pf_occupant = Some (leaf_of ?c sample_row)\<rparr>"
  show "digest_width ?c" by (rule sample_digest_width)
  show "rows_ok [sample_row]" by (rule sample_rows_ok)
  show "smt_verify ?c (merkle ?c 256 (map (leaf_of ?c) [sample_row])) 1 [7] (Some (held_of sample_row)) ?pf = Inr True"
    using leaf_hash_row[OF sample_rows_ok(1), of sample_row ?c]
    by (simp add: smt_verify_def smt_present_def smt_fold_def merkle_few leaf_of_def held_of_def)
      (simp add: sample_row_def smt_fold_def)
  show "\<forall>s \<in> set (pf_siblings ?pf). length s = 32" by simp
  have "leaf_input ?c (path_of ?c 1 [7]) (held_value (held_of sample_row)) (held_cred (held_of sample_row))
      (held_epoch (held_of sample_row)) = row_input ?c sample_row"
    by (simp add: row_input_def held_of_def) (simp add: sample_row_def)
  then show "no_clash ?c (tree_inputs ?c [sample_row] \<union>
      {leaf_input ?c (path_of ?c 1 [7]) (held_value (held_of sample_row)) (held_cred (held_of sample_row))
        (held_epoch (held_of sample_row))} \<union>
      set (fold_inputs ?c (path_of ?c 1 [7]) (pf_siblings ?pf) (length (pf_siblings ?pf)) (snd (the (pf_occupant ?pf)))))"
    using sample_no_clash[of "row_input ?c sample_row"] by (simp add: sample_tree_inputs)
  show "inj_on (h ?c) (blobs [sample_row] \<union> {held_value (held_of sample_row), held_cred (held_of sample_row)})"
    by (simp add: blobs_def held_of_def sample_row_def)
qed

text \<open>
  C20: the state root identifies the state. Two tables have the same root exactly when they hold
  the same paths with the same values, credentials and epochs, unless the hash collides on the
  inputs of the two trees.
\<close>

theorem state_root_identifies_state:
  assumes "digest_width c" "rows_ok live" "rows_ok live'"
    "no_clash c (tree_inputs c live \<union> tree_inputs c live')"
    "inj_on (h c) (blobs live \<union> blobs live')"
  shows "\<exists>r m r' m'. tree_root c mz live Map.empty = Inr (r, m) \<and> tree_root c mz live' Map.empty = Inr (r', m') \<and>
    (r = r' \<longleftrightarrow> contents ` set live = contents ` set live')"
proof -
  let ?root = "\<lambda>rs. merkle c 256 (map (leaf_of c) rs)"
  have "contents ` set live = contents ` set live'" if eq: "?root live = ?root live'"
  proof -
    have rows: "row_input c ` set live = row_input c ` set live'"
      using node_hash_inject[OF assms(2,3,1,4), of "replicate 32 0" 0] eq by (simp add: node_hash_root)
    have "\<exists>r' \<in> set live'. contents r = contents r'" if "r \<in> set live" for r
    proof -
      from that rows obtain r' where "r' \<in> set live'" "row_input c r = row_input c r'" by (metis image_iff)
      then show ?thesis using row_input_inject[OF _ assms(1-3) that _ assms(5)] by blast
    qed
    moreover have "\<exists>r \<in> set live. contents r' = contents r" if "r' \<in> set live'" for r'
    proof -
      from that rows obtain r where "r \<in> set live" "row_input c r = row_input c r'" by (metis image_iff)
      then show ?thesis using row_input_inject[OF _ assms(1-3) _ that assms(5)] by metis
    qed
    ultimately show ?thesis by (auto simp: image_iff)
  qed
  then show ?thesis
    using tree_root_node_hash[OF assms(1,2) memo_ok_empty, of mz] tree_root_node_hash[OF assms(1,3) memo_ok_empty, of mz]
      merkle_contents[OF assms(2,3), of c] by blast
qed

theorem state_root_identifies_state_witness:
  "\<exists>r m r' m'. tree_root (sample []) False [sample_row] Map.empty = Inr (r, m) \<and>
     tree_root (sample []) False [] Map.empty = Inr (r', m') \<and> r \<noteq> r'"
proof -
  have "no_clash (sample []) (tree_inputs (sample []) [sample_row] \<union> tree_inputs (sample []) [])"
    using sample_no_clash by (simp add: sample_tree_inputs)
  moreover have "inj_on (h (sample [])) (blobs [sample_row] \<union> blobs [])"
    by (simp add: blobs_def sample_row_def)
  ultimately show ?thesis
    using state_root_identifies_state[OF sample_digest_width[of "[]"] sample_rows_ok(1,2), of False]
    by (simp add: contents_def)
qed

text \<open>
  Absence proofs are not sound. Whatever the root and whatever the key, a proof with no
  siblings whose occupant is any other path, carrying the root itself as its leaf hash, is
  accepted by \<^verbatim>\<open>smt.verify\<close> as a proof that the key is absent: \<^verbatim>\<open>_absent\<close> never
  checks that the occupant's hash is the hash of a leaf at the occupant's path.
\<close>

lemma absence_proof_forgeable:
  assumes "other \<noteq> path_of c store name"
  shows "smt_verify c root store name None \<lparr>pf_siblings = [], pf_occupant = Some (other, root)\<rparr> = Inr True"
  using assms by (simp add: smt_verify_def smt_absent_def smt_fold_def MAX_DEPTH_def bounds_def)

lemma absence_proof_forgeable_witness:
  "live_get [sample_row] 1 [7] \<noteq> None \<and>
   smt_verify (sample []) (row_digest (sample []) sample_row) 1 [7] None
     \<lparr>pf_siblings = [], pf_occupant = Some ([], row_digest (sample []) sample_row)\<rparr> = Inr True"
proof
  show "live_get [sample_row] 1 [7] \<noteq> None" by (simp add: live_get_def sample_row_def)
  have "[] \<noteq> path_of (sample []) 1 [7]" using length_path_of[OF sample_digest_width, of "[]" 1 "[7]"] by auto
  then show "smt_verify (sample []) (row_digest (sample []) sample_row) 1 [7] None
     \<lparr>pf_siblings = [], pf_occupant = Some ([], row_digest (sample []) sample_row)\<rparr> = Inr True"
    by (rule absence_proof_forgeable)
qed

text \<open>
  Verifying a proof is not total. A row whose claimed epoch does not fit eight bytes makes
  \<^verbatim>\<open>smt.verify\<close> raise \<^verbatim>\<open>OverflowError\<close>, which is not a \<^verbatim>\<open>DudeError\<close>; for every
  other epoch a presence check of a well-formed path returns a verdict.
\<close>

lemma verify_overflows_iff:
  assumes "digest_width c" "pf_occupant pf = Some (path_of c store name, d)" "length (pf_siblings pf) \<le> 256"
  shows "(smt_verify c root store name (Some held) pf = Inl OverflowError \<longleftrightarrow>
      \<not> (0 \<le> held_epoch held \<and> held_epoch held < 256 ^ 8)) \<and>
    (0 \<le> held_epoch held \<and> held_epoch held < 256 ^ 8 \<longrightarrow>
      (\<exists>b. smt_verify c root store name (Some held) pf = Inr b))"
proof -
  let ?p = "path_of c store name"
  have p: "length ?p = 32" using length_path_of[OF assms(1)] .
  have fold: "\<exists>r. fold_from c ?p sibs n node = Inr r" if "n \<le> 256" for sibs n node
    using that
  proof (induction n arbitrary: node)
    case (Suc n)
    then show ?case using p by (cases "path_bit ?p n") (simp_all add: branch_hash_def to_bytes_def)
  qed simp
  show ?thesis
  proof (cases "0 \<le> held_epoch held \<and> held_epoch held < 256 ^ 8")
    case True
    define lh where "lh = h_domain c PERSON_LEAF
      (?p @ h c (held_value held) @ h c (held_cred held) @ be_bytes 8 (nat (held_epoch held)))"
    have "leaf_hash c ?p (h c (held_value held)) (h c (held_cred held)) (held_epoch held) = Inr lh"
      using True by (simp add: leaf_hash_def to_bytes_def lh_def)
    moreover obtain r where "fold_from c ?p (pf_siblings pf) (length (pf_siblings pf)) lh = Inr r"
      using fold[OF assms(3)] by blast
    ultimately have "\<exists>b. smt_verify c root store name (Some held) pf = Inr b"
      using assms(2,3) by (cases "d = lh") (auto simp: smt_verify_def smt_present_def smt_fold_def MAX_DEPTH_def)
    with True show ?thesis by auto
  next
    case False
    then have "to_bytes 8 (held_epoch held) = Inl OverflowError" unfolding to_bytes_def by presburger
    then show ?thesis using assms(2,3) False
      by (simp add: smt_verify_def smt_present_def leaf_hash_def MAX_DEPTH_def)
  qed
qed

lemma verify_overflows_iff_witness:
  "smt_verify (sample []) EMPTY 1 [7] (Some \<lparr>held_value = [9], held_epoch = -1, held_cred = []\<rparr>)
     \<lparr>pf_siblings = [], pf_occupant = Some (path_of (sample []) 1 [7], EMPTY)\<rparr> = Inl OverflowError"
  using verify_overflows_iff[OF sample_digest_width[of "[]"],
      of "\<lparr>pf_siblings = [], pf_occupant = Some (path_of (sample []) 1 [7], EMPTY)\<rparr>" 1 "[7]" EMPTY EMPTY
        "\<lparr>held_value = [9], held_epoch = -1, held_cred = []\<rparr>"]
  by simp

end
