(* ===== verification/Layer.thy ===== *)
theory Layer
  imports Smt "HOL-Library.AList"
begin

text \<open>
  \<^verbatim>\<open>dude/store/layer.py\<close>: the abstract reader and view, the overlay of buffered mutations
  over a reader, and the layer, an overlay over a frozen view that also computes the state root
  and the accumulator its mutations would give.

  The abstract base classes \<^verbatim>\<open>Reader\<close> and \<^verbatim>\<open>View\<close> are records of functions; a Python
  dict is an association list in insertion order, updated by \<^const>\<open>AList.update\<close>.
\<close>

type_synonym key = "int \<times> bytes"
type_synonym delta = "(key \<times> Held option) list"

definition element :: "prims \<Rightarrow> int \<Rightarrow> bytes \<Rightarrow> bytes \<Rightarrow> int \<Rightarrow> accumulator" where
  "element c store name value epoch =
     acc_element c (benc (BSeq [BInt store, BBytes name, BBytes value, BInt epoch]))"

definition log_element :: "prims \<Rightarrow> int \<Rightarrow> digest \<Rightarrow> accumulator" where
  "log_element c idx ophash = acc_element c (benc (BSeq [BBytes (ascii ''log''), BInt idx, BBytes ophash]))"

record PathRow =
  pr_store :: int
  pr_name :: bytes
  pr_value :: bytes
  pr_credential :: bytes
  pr_epoch :: int

text \<open>The columns a range query of the \<^verbatim>\<open>live\<close> table selects.\<close>

definition path_row :: "live_row \<Rightarrow> PathRow" where
  "path_row r = \<lparr>pr_store = lr_store r, pr_name = lr_name r, pr_value = lr_value r,
     pr_credential = lr_cred r, pr_epoch = lr_epoch r\<rparr>"

record BlockHead =
  bh_block_num :: int
  bh_block_hash :: digest

definition bh_bval :: "BlockHead \<Rightarrow> bval" where
  "bh_bval b = BSeq [BInt (bh_block_num b), BBytes (bh_block_hash b)]"

definition bh_encode :: "BlockHead \<Rightarrow> bytes" where
  "bh_encode b = benc (bh_bval b)"

definition bh_decode :: "bytes \<Rightarrow> BlockHead res" where
  "bh_decode raw =
     rbind (decode_seq raw (Some 2)) (\<lambda>parts.
     rbind (as_int (parts ! 0)) (\<lambda>n.
     rbind (rbind (as_bytes (parts ! 1)) Digest) (\<lambda>d.
     Inr \<lparr>bh_block_num = n, bh_block_hash = d\<rparr>)))"

interpretation bh_wire: wire bh_encode bh_decode "\<lambda>b. length (bh_block_hash b) = DIGEST_SIZE \<and> bencodable (bh_bval b)"
  by unfold_locales (simp add: bh_encode_def bh_decode_def bh_bval_def)

section \<open>Readers and views\<close>

record Reader =
  rd_get :: "int \<Rightarrow> bytes \<Rightarrow> Held option res"
  rd_anchor :: "public_key res"
  rd_count_prefix :: "int \<Rightarrow> bytes \<Rightarrow> int res"
  rd_nth_prefix :: "int \<Rightarrow> bytes \<Rightarrow> int \<Rightarrow> bool \<Rightarrow> (bytes \<times> Held) option res" \<comment> \<open>store, prefix, n, descending\<close>

record View = Reader +
  vw_accumulator :: "accumulator res"
  vw_hash_under :: "bytes \<Rightarrow> nat \<Rightarrow> digest res"
  vw_rows_in_path_range :: "bytes \<Rightarrow> bytes \<Rightarrow> PathRow list res"
  vw_is_frozen :: bool

section \<open>Overlays\<close>

record 'b Overlay =
  ov_base :: 'b
  ov_delta :: delta
  ov_log :: "Mutation list"
  ov_frozen :: bool

definition overlay_new :: "'b \<Rightarrow> 'b Overlay" where
  "overlay_new base = \<lparr>ov_base = base, ov_delta = [], ov_log = [], ov_frozen = False\<rparr>"

definition ov_get :: "('r Reader_scheme, 'a) Overlay_scheme \<Rightarrow> int \<Rightarrow> bytes \<Rightarrow> Held option res" where
  "ov_get ov store name =
     (case map_of (ov_delta ov) (store, name) of
        None \<Rightarrow> rd_get (ov_base ov) store name
      | Some held \<Rightarrow> Inr held)"

definition in_prefix :: "bytes \<Rightarrow> bytes \<Rightarrow> bool" where
  "in_prefix pfx name \<longleftrightarrow> pfx \<le> name \<and> name < pfx @ [255]"

definition counted :: "Held option \<Rightarrow> bool" where
  "counted held = (case held of None \<Rightarrow> False | Some x \<Rightarrow> held_epoch x = EPOCH_NONE)"

fun count_delta :: "(int \<Rightarrow> bytes \<Rightarrow> Held option res) \<Rightarrow> int \<Rightarrow> bytes \<Rightarrow> delta \<Rightarrow> int \<Rightarrow> int res" where
  "count_delta base_get store pfx [] cnt = Inr cnt"
| "count_delta base_get store pfx (((st, name), held) # rest) cnt =
     (if st \<noteq> store \<or> \<not> in_prefix pfx name then count_delta base_get store pfx rest cnt
      else rbind (base_get st name) (\<lambda>was.
        count_delta base_get store pfx rest
          (if counted held \<and> \<not> counted was then cnt + 1
           else if counted was \<and> \<not> counted held then cnt - 1
           else cnt)))"

definition ov_count_prefix :: "('r Reader_scheme, 'a) Overlay_scheme \<Rightarrow> int \<Rightarrow> bytes \<Rightarrow> int res" where
  "ov_count_prefix ov store pfx =
     rbind (rd_count_prefix (ov_base ov) store pfx) (\<lambda>cnt.
     count_delta (rd_get (ov_base ov)) store pfx (ov_delta ov) cnt)"

text \<open>
  The \<^verbatim>\<open>while True\<close> loop of \<^verbatim>\<open>nth_prefix\<close> asks the base for its entries one by one
  until it returns none; \<open>fuel\<close> bounds the number of entries.
\<close>

fun base_entries ::
  "nat \<Rightarrow> ('r Reader_scheme) \<Rightarrow> int \<Rightarrow> bytes \<Rightarrow> int \<Rightarrow> (bytes \<times> Held) list \<Rightarrow> (bytes \<times> Held) list res" where
  "base_entries 0 base store pfx i merged = Inl OutOfFuel"
| "base_entries (Suc fuel) base store pfx i merged =
     rbind (rd_nth_prefix base store pfx i False) (\<lambda>result.
     case result of
       None \<Rightarrow> Inr merged
     | Some (k, v) \<Rightarrow> base_entries fuel base store pfx (i + 1) (AList.update k v merged))"

fun merge_delta :: "int \<Rightarrow> bytes \<Rightarrow> delta \<Rightarrow> (bytes \<times> Held) list \<Rightarrow> (bytes \<times> Held) list" where
  "merge_delta store pfx [] merged = merged"
| "merge_delta store pfx (((st, name), held) # rest) merged =
     merge_delta store pfx rest
       (if st \<noteq> store \<or> \<not> in_prefix pfx name then merged
        else case held of
          Some x \<Rightarrow> if held_epoch x = EPOCH_NONE then AList.update name x merged else AList.delete name merged
        | None \<Rightarrow> AList.delete name merged)"

text \<open>\<^verbatim>\<open>keys[n]\<close> counts from the end for a negative \<open>n\<close>.\<close>

definition py_index :: "'a list \<Rightarrow> int \<Rightarrow> 'a res" where
  "py_index xs n =
     (if 0 \<le> n \<and> n < int (length xs) then Inr (xs ! nat n)
      else if n < 0 \<and> - n \<le> int (length xs) then Inr (xs ! nat (int (length xs) + n))
      else Inl IndexError)"

definition ov_nth_prefix ::
  "('r Reader_scheme, 'a) Overlay_scheme \<Rightarrow> nat \<Rightarrow> int \<Rightarrow> bytes \<Rightarrow> int \<Rightarrow> bool \<Rightarrow> (bytes \<times> Held) option res" where
  "ov_nth_prefix ov fuel store pfx n descending =
     rbind (base_entries fuel (ov_base ov) store pfx 0 []) (\<lambda>entries.
     let merged = merge_delta store pfx (ov_delta ov) entries;
         keys = (if descending then rev (sort (map fst merged)) else sort (map fst merged))
     in if n \<ge> int (length keys) then Inr None
        else rbind (py_index keys n) (\<lambda>k. Inr (map_option (\<lambda>v. (k, v)) (map_of merged k))))"

definition ov_freeze :: "('b, 'a) Overlay_scheme \<Rightarrow> ('b, 'a) Overlay_scheme" where
  "ov_freeze ov = ov\<lparr>ov_frozen := True\<rparr>"

definition held_after :: "Mutation \<Rightarrow> bytes \<Rightarrow> Held option" where
  "held_after m cred =
     (case m of Set _ _ v e \<Rightarrow> Some \<lparr>held_value = v, held_epoch = e, held_cred = cred\<rparr> | Del _ _ \<Rightarrow> None)"

abbreviation mut_key :: "Mutation \<Rightarrow> key" where
  "mut_key m \<equiv> (mut_store m, mut_name m)"

definition ov_apply :: "('b, 'a) Overlay_scheme \<Rightarrow> Mutation \<Rightarrow> bytes \<Rightarrow> ('b, 'a) Overlay_scheme res" where
  "ov_apply ov m cred =
     (if ov_frozen ov then Inl LayerError
      else Inr (ov\<lparr>ov_delta := AList.update (mut_key m) (held_after m cred) (ov_delta ov),
                  ov_log := ov_log ov @ [m]\<rparr>))"

text \<open>\<^verbatim>\<open>self._delta.update(child.delta)\<close>.\<close>

definition dict_update :: "('k \<times> 'v) list \<Rightarrow> ('k \<times> 'v) list \<Rightarrow> ('k \<times> 'v) list" where
  "dict_update d child = foldl (\<lambda>acc (k, v). AList.update k v acc) d child"

definition ov_absorb :: "('b, 'a) Overlay_scheme \<Rightarrow> ('c, 'd) Overlay_scheme \<Rightarrow> ('b, 'a) Overlay_scheme res" where
  "ov_absorb ov child =
     (if ov_frozen ov then Inl LayerError
      else Inr (ov\<lparr>ov_delta := dict_update (ov_delta ov) (ov_delta child),
                  ov_log := ov_log ov @ ov_log child\<rparr>))"

text \<open>An overlay is a reader.\<close>

definition overlay_reader :: "nat \<Rightarrow> ('r Reader_scheme, 'a) Overlay_scheme \<Rightarrow> Reader" where
  "overlay_reader fuel ov =
     \<lparr>rd_get = ov_get ov, rd_anchor = rd_anchor (ov_base ov),
      rd_count_prefix = ov_count_prefix ov, rd_nth_prefix = ov_nth_prefix ov fuel\<rparr>"

text \<open>\<^verbatim>\<open>holds(reader, pred)\<close>.\<close>

fun holds :: "prims \<Rightarrow> 'r Reader_scheme \<Rightarrow> Predicate \<Rightarrow> bool res" where
  "holds c reader (Absent st nm) = rbind (rd_get reader st nm) (\<lambda>cur. Inr (cur = None))"
| "holds c reader (Exists st nm) = rbind (rd_get reader st nm) (\<lambda>cur. Inr (cur \<noteq> None))"
| "holds c reader (HoldsAny st nm ds) =
     rbind (rd_get reader st nm) (\<lambda>cur.
     Inr (case cur of None \<Rightarrow> False | Some x \<Rightarrow> value_digest c (held_value x) \<in> set ds))"
| "holds c reader (Holds st nm d) =
     rbind (rd_get reader st nm) (\<lambda>cur.
     Inr (case cur of None \<Rightarrow> False | Some x \<Rightarrow> value_digest c (held_value x) = d))"

section \<open>Layers\<close>

record Layer = "View Overlay" +
  ly_memo :: memo

definition layer_new :: "View \<Rightarrow> Layer res" where
  "layer_new base =
     (if \<not> vw_is_frozen base then Inl LayerError
      else Inr \<lparr>ov_base = base, ov_delta = [], ov_log = [], ov_frozen = False, ly_memo = Map.empty\<rparr>)"

fun acc_delta :: "prims \<Rightarrow> (int \<Rightarrow> bytes \<Rightarrow> Held option res) \<Rightarrow> delta \<Rightarrow> accumulator \<Rightarrow> accumulator res" where
  "acc_delta c base_get [] acc = Inr acc"
| "acc_delta c base_get (((st, name), held) # rest) acc =
     rbind (base_get st name) (\<lambda>was.
     let acc1 = (case was of None \<Rightarrow> acc
                 | Some w \<Rightarrow> acc_sub c acc (element c st name (held_value w) (held_epoch w)));
         acc2 = (case held of None \<Rightarrow> acc1
                 | Some x \<Rightarrow> acc_add c acc1 (element c st name (held_value x) (held_epoch x)))
     in acc_delta c base_get rest acc2)"

definition layer_accumulator :: "prims \<Rightarrow> Layer \<Rightarrow> accumulator res" where
  "layer_accumulator c L =
     rbind (vw_accumulator (ov_base L)) (\<lambda>acc. acc_delta c (rd_get (ov_base L)) (ov_delta L) acc)"

definition delta_touches_range :: "prims \<Rightarrow> delta \<Rightarrow> bytes \<Rightarrow> bytes \<Rightarrow> bool" where
  "delta_touches_range c delta lo hi =
     list_ex (\<lambda>((st, name), _). lo \<le> path_of c st name \<and> path_of c st name \<le> hi) delta"

text \<open>The dict comprehension keyed by path.\<close>

definition delta_by_path :: "prims \<Rightarrow> delta \<Rightarrow> bytes \<Rightarrow> bytes \<Rightarrow> (bytes \<times> (int \<times> bytes \<times> Held option)) list" where
  "delta_by_path c delta lo hi =
     dict_update []
       (map (\<lambda>((st, name), held). (path_of c st name, (st, name, held)))
          (filter (\<lambda>((st, name), _). lo \<le> path_of c st name \<and> path_of c st name \<le> hi) delta))"

definition row_path :: "prims \<Rightarrow> PathRow \<Rightarrow> bytes" where
  "row_path c r = path_of c (pr_store r) (pr_name r)"

definition effective_leaves ::
  "prims \<Rightarrow> Layer \<Rightarrow> bytes \<Rightarrow> bytes \<Rightarrow> nat \<Rightarrow> (bytes \<times> digest) list res" where
  "effective_leaves c L lo hi at_most =
     (let dp = delta_by_path c (ov_delta L) lo hi in
      rbind (vw_rows_in_path_range (ov_base L) lo hi) (\<lambda>rows.
      rbind (mapM (\<lambda>r. rbind (leaf_hash c (row_path c r) (h c (pr_value r)) (h c (pr_credential r)) (pr_epoch r))
                         (\<lambda>d. Inr (row_path c r, d)))
               (filter (\<lambda>r. row_path c r \<notin> fst ` set dp) rows)) (\<lambda>base_leaves.
      rbind (mapM (\<lambda>(path, x). rbind (leaf_hash c path (h c (held_value x)) (h c (held_cred x)) (held_epoch x))
                         (\<lambda>d. Inr (path, d)))
               (List.map_filter (\<lambda>(path, (_, _, held)). map_option (\<lambda>x. (path, x)) held) dp)) (\<lambda>delta_leaves.
      Inr (take at_most (sort_key fst (base_leaves @ delta_leaves)))))))"

text \<open>
  \<^verbatim>\<open>Layer.hash_under\<close>. The memo is filled only while the layer is frozen. The left child is
  the prefix itself cut one bit further, so \<open>pfx\<close> is expected to have a zero bit at \<open>depth\<close>.
\<close>

function layer_hash_under :: "prims \<Rightarrow> Layer \<Rightarrow> bytes \<Rightarrow> nat \<Rightarrow> memo \<Rightarrow> (digest \<times> memo) res" where
  "layer_hash_under c L pfx depth memo =
     rbind (bounds pfx depth) (\<lambda>(lo, hi).
     if \<not> delta_touches_range c (ov_delta L) lo hi
     then rbind (vw_hash_under (ov_base L) pfx depth) (\<lambda>d. Inr (d, memo))
     else case memo (depth, lo) of
       Some stored \<Rightarrow> Inr (stored, memo)
     | None \<Rightarrow>
       rbind (effective_leaves c L lo hi 2) (\<lambda>effective.
       rbind (if effective = [] then Inr (EMPTY, memo)
              else if length effective = 1 then Inr (snd (effective ! 0), memo)
              else
                rbind (bounds pfx (depth + 1)) (\<lambda>(left, _).
                rbind (with_bit pfx depth True) (\<lambda>wb.
                rbind (bounds wb (depth + 1)) (\<lambda>(right, _).
                rbind (layer_hash_under c L left (depth + 1) memo) (\<lambda>(lh, memo1).
                rbind (layer_hash_under c L right (depth + 1) memo1) (\<lambda>(rh, memo2).
                rbind (branch_hash c depth lo lh rh) (\<lambda>node. Inr (node, memo2))))))))
       (\<lambda>(result, memo'). Inr (result, if ov_frozen L then memo'((depth, lo) \<mapsto> result) else memo'))))"
  by pat_completeness auto
termination
proof (relation "measure (\<lambda>(c, L, pfx, depth, memo). 8 * max 32 (length pfx) + 1 - depth)")
qed (auto simp: with_bit_def Let_def dest!: bounds_length split: if_splits)

definition layer_state_root :: "prims \<Rightarrow> Layer \<Rightarrow> digest res" where
  "layer_state_root c L =
     rbind (layer_hash_under c L (replicate DIGEST_SIZE 0) 0 (ly_memo L)) (\<lambda>(d, _). Inr d)"

definition layer_rows_in_path_range :: "prims \<Rightarrow> Layer \<Rightarrow> bytes \<Rightarrow> bytes \<Rightarrow> PathRow list res" where
  "layer_rows_in_path_range c L lo hi =
     (let dp = delta_by_path c (ov_delta L) lo hi in
      rbind (vw_rows_in_path_range (ov_base L) lo hi) (\<lambda>rows.
      let kept = map (\<lambda>r. (row_path c r, r)) (filter (\<lambda>r. row_path c r \<notin> fst ` set dp) rows);
          new = List.map_filter (\<lambda>(path, (st, name, held)).
                  map_option (\<lambda>x. (path, \<lparr>pr_store = st, pr_name = name, pr_value = held_value x,
                      pr_credential = held_cred x, pr_epoch = held_epoch x\<rparr>)) held) dp
      in Inr (map snd (sort_key fst (dict_update (dict_update [] kept) new)))))"

text \<open>A layer is a view; a frozen one may be the base of the next layer.\<close>

definition layer_view :: "prims \<Rightarrow> nat \<Rightarrow> Layer \<Rightarrow> View" where
  "layer_view c fuel L =
     \<lparr>rd_get = ov_get L, rd_anchor = rd_anchor (ov_base L),
      rd_count_prefix = ov_count_prefix L, rd_nth_prefix = ov_nth_prefix L fuel,
      vw_accumulator = layer_accumulator c L,
      vw_hash_under = (\<lambda>p d. rbind (layer_hash_under c L p d (ly_memo L)) (\<lambda>(x, _). Inr x)),
      vw_rows_in_path_range = layer_rows_in_path_range c L,
      vw_is_frozen = ov_frozen L\<rparr>"

end
