(* ===== verification/Tables.thy ===== *)
theory Tables
  imports Layer Smt_Proofs
begin

text \<open>
  The live table as a finite map: setting one key, the rows a delta of buffered writes leads to,
  and the accumulator as the sum of the elements of the rows. Both ways the program has of
  changing state, buffering writes in a layer and committing them to the tables, are compared
  through these definitions.
\<close>

definition row_key :: "live_row \<Rightarrow> key" where
  "row_key r = (lr_store r, lr_name r)"

definition mk_row :: "prims \<Rightarrow> key \<Rightarrow> Held \<Rightarrow> live_row" where
  "mk_row c k x = \<lparr>lr_store = fst k, lr_name = snd k, lr_value = held_value x, lr_epoch = held_epoch x,
     lr_path = path_of c (fst k) (snd k), lr_cred = held_cred x\<rparr>"

definition held_rows :: "prims \<Rightarrow> key \<Rightarrow> Held option \<Rightarrow> live_row list" where
  "held_rows c k v = (case v of None \<Rightarrow> [] | Some x \<Rightarrow> [mk_row c k x])"

definition table_set :: "prims \<Rightarrow> key \<Rightarrow> Held option \<Rightarrow> live_row list \<Rightarrow> live_row list" where
  "table_set c k v rows = filter (\<lambda>r. row_key r \<noteq> k) rows @ held_rows c k v"

definition apply_delta :: "prims \<Rightarrow> delta \<Rightarrow> live_row list \<Rightarrow> live_row list" where
  "apply_delta c delta rows = foldl (\<lambda>rs (k, v). table_set c k v rs) rows delta"

text \<open>A table: every row at the path of its key, no two on one path, epochs of eight bytes.\<close>

definition table_ok :: "prims \<Rightarrow> live_row list \<Rightarrow> bool" where
  "table_ok c rows \<longleftrightarrow> rows_ok rows \<and> keyed c rows"

definition key_path :: "prims \<Rightarrow> key \<Rightarrow> bytes" where
  "key_path c k = path_of c (fst k) (snd k)"

fun held_epoch_ok :: "Held option \<Rightarrow> bool" where
  "held_epoch_ok None = True"
| "held_epoch_ok (Some x) = (0 \<le> held_epoch x \<and> held_epoch x < 256 ^ 8)"

section \<open>Setting one key\<close>

lemma row_key_mk_row [simp]: "row_key (mk_row c k x) = k"
  by (simp add: row_key_def mk_row_def)

lemma held_of_mk_row [simp]: "held_of (mk_row c k x) = x"
  by (simp add: held_of_def mk_row_def)

lemma set_held_rows: "set (held_rows c k v) = (case v of None \<Rightarrow> {} | Some x \<Rightarrow> {mk_row c k x})"
  by (simp add: held_rows_def split: option.split)

lemma live_get_row_key: "live_get rows st nm = map_option held_of (find (\<lambda>r. row_key r = (st, nm)) rows)"
  by (simp add: live_get_def row_key_def)

lemma find_append: "find P (xs @ ys) = (case find P xs of None \<Rightarrow> find P ys | Some x \<Rightarrow> Some x)"
  by (induction xs) auto

lemma find_filter_other:
  "(\<And>r. P r \<Longrightarrow> Q r) \<Longrightarrow> find P (filter Q xs) = find P xs"
  by (induction xs) auto

lemma live_get_table_set:
  "live_get (table_set c k v rows) st nm = (if (st, nm) = k then v else live_get rows st nm)"
proof (cases "(st, nm) = k")
  case True
  have "find (\<lambda>r. row_key r = k) (filter (\<lambda>r. row_key r \<noteq> k) rows) = None"
    by (simp add: find_None_iff)
  with True show ?thesis
    by (cases v) (simp_all add: live_get_row_key table_set_def find_append held_rows_def)
next
  case False
  have "find (\<lambda>r. row_key r = (st, nm)) (filter (\<lambda>r. row_key r \<noteq> k) rows) = find (\<lambda>r. row_key r = (st, nm)) rows"
    by (rule find_filter_other) (use False in auto)
  moreover have "find (\<lambda>r. row_key r = (st, nm)) (held_rows c k v) = None"
    using False by (simp add: held_rows_def split: option.split)
  ultimately have "find (\<lambda>r. row_key r = (st, nm)) (table_set c k v rows) = find (\<lambda>r. row_key r = (st, nm)) rows"
    unfolding table_set_def find_append by (simp split: option.split)
  with False show ?thesis by (simp add: live_get_row_key)
qed

lemma keys_table_set: "row_key ` set (table_set c k v rows) \<subseteq> insert k (row_key ` set rows)"
  by (auto simp: table_set_def set_held_rows split: option.splits)

lemma keyed_path: "keyed c rows \<Longrightarrow> r \<in> set rows \<Longrightarrow> lr_path r = key_path c (row_key r)"
  by (simp add: keyed_def key_path_def row_key_def)

lemma table_ok_set:
  assumes "table_ok c rows" "digest_width c" "held_epoch_ok v"
    "inj_on (key_path c) (insert k (row_key ` set rows))"
  shows "table_ok c (table_set c k v rows)"
proof -
  have rows: "rows_ok rows" "keyed c rows" using assms(1) by (auto simp: table_ok_def)
  have len: "length (key_path c k) = 32" using length_path_of[OF assms(2)] by (simp add: key_path_def)
  have new: "lr_path (mk_row c k x) = key_path c k" for x by (simp add: mk_row_def key_path_def)
  have k: "keyed c (table_set c k v rows)"
    using rows(2) by (auto simp: keyed_def table_set_def set_held_rows mk_row_def split: option.splits)
  have other: "lr_path r \<noteq> key_path c k" if "r \<in> set rows" "row_key r \<noteq> k" for r
    using that keyed_path[OF rows(2) that(1)] inj_onD[OF assms(4), of "row_key r" k] by auto
  have "key_path c k \<notin> lr_path ` set (filter (\<lambda>r. row_key r \<noteq> k) rows)" using other by force
  moreover have "distinct (map lr_path (filter (\<lambda>r. row_key r \<noteq> k) rows))"
    using rows(1) by (auto simp: rows_ok_def intro: distinct_map_filter)
  ultimately have "distinct (map lr_path (table_set c k v rows))"
    by (cases v) (auto simp: table_set_def held_rows_def new)
  moreover have "length (lr_path r) = 32 \<and> 0 \<le> lr_epoch r \<and> lr_epoch r < 256 ^ 8" if "r \<in> set (table_set c k v rows)" for r
  proof (cases "r \<in> set rows")
    case True
    then show ?thesis using rows_okD[OF rows(1)] by blast
  next
    case False
    with that obtain x where "v = Some x" "r = mk_row c k x"
      by (auto simp: table_set_def set_held_rows split: option.splits)
    then show ?thesis using assms(3) len new[of x] by (simp add: mk_row_def)
  qed
  ultimately show ?thesis using k by (auto simp: table_ok_def rows_ok_def)
qed

text \<open>A table is determined by what a lookup returns.\<close>

lemma table_row_iff:
  assumes "table_ok c rows"
  shows "r \<in> set rows \<longleftrightarrow>
    live_get rows (lr_store r) (lr_name r) = Some (held_of r) \<and> lr_path r = key_path c (row_key r)"
proof
  assume r: "r \<in> set rows"
  have path: "lr_path r = key_path c (row_key r)" using assms r keyed_path by (auto simp: table_ok_def)
  have "q = r" if "q \<in> set rows" "row_key q = row_key r" for q
  proof -
    have "lr_path q = lr_path r" using that r keyed_path[of c rows] assms by (simp add: table_ok_def)
    then show ?thesis using that(1) r assms by (auto simp: table_ok_def rows_ok_def distinct_map inj_on_def)
  qed
  then have "find (\<lambda>q. row_key q = row_key r) rows = Some r"
    using r by (induction rows) auto
  then show "live_get rows (lr_store r) (lr_name r) = Some (held_of r) \<and> lr_path r = key_path c (row_key r)"
    using path by (simp add: live_get_row_key) (simp add: row_key_def)
next
  assume R: "live_get rows (lr_store r) (lr_name r) = Some (held_of r) \<and> lr_path r = key_path c (row_key r)"
  then obtain q where q: "find (\<lambda>q. row_key q = row_key r) rows = Some q" "held_of q = held_of r"
    by (auto simp: live_get_row_key row_key_def)
  then have q': "q \<in> set rows" "row_key q = row_key r" by (auto simp: find_Some_iff)
  then have "lr_path q = lr_path r" using R assms keyed_path by (auto simp: table_ok_def)
  with q(2) q'(2) have "q = r" by (cases q; cases r) (auto simp: held_of_def row_key_def)
  with q' show "r \<in> set rows" by simp
qed

lemma table_eqI:
  assumes "table_ok c rows" "table_ok c rows'" "\<And>st nm. live_get rows st nm = live_get rows' st nm"
  shows "set rows = set rows'"
  by (rule set_eqI) (simp only: table_row_iff[OF assms(1)] table_row_iff[OF assms(2)] assms(3))

lemma table_mset_eq:
  assumes "table_ok c rows" "table_ok c rows'" "set rows = set rows'"
  shows "mset rows = mset rows'"
proof -
  have "distinct rows" "distinct rows'"
    using assms(1,2) by (auto simp: table_ok_def rows_ok_def distinct_map)
  then show ?thesis using assms(3) by (simp add: set_eq_iff_mset_eq_distinct)
qed

section \<open>Applying a delta\<close>

lemma apply_delta_snoc: "apply_delta c (delta @ [(k, v)]) rows = table_set c k v (apply_delta c delta rows)"
  by (simp add: apply_delta_def)

lemma apply_delta_Nil [simp]: "apply_delta c [] rows = rows"
  by (simp add: apply_delta_def)

lemma map_of_rev_distinct: "distinct (map fst d) \<Longrightarrow> map_of (rev d) = map_of d"
  by (rule map_of_eqI) (auto simp: rev_map[symmetric] intro!: ext simp: map_of_inject_set)

lemma live_get_apply_delta_rev:
  "live_get (apply_delta c delta rows) st nm =
     (case map_of (rev delta) (st, nm) of None \<Rightarrow> live_get rows st nm | Some v \<Rightarrow> v)"
proof (induction delta rule: rev_induct)
  case (snoc kv delta)
  then show ?case by (cases kv) (auto simp: apply_delta_snoc live_get_table_set)
qed simp

lemma live_get_apply_delta:
  "distinct (map fst delta) \<Longrightarrow>
     live_get (apply_delta c delta rows) st nm =
       (case map_of delta (st, nm) of None \<Rightarrow> live_get rows st nm | Some v \<Rightarrow> v)"
  by (simp add: live_get_apply_delta_rev map_of_rev_distinct)

lemma keys_apply_delta: "row_key ` set (apply_delta c delta rows) \<subseteq> fst ` set delta \<union> row_key ` set rows"
proof (induction delta rule: rev_induct)
  case (snoc kv delta)
  obtain k v where kv: "kv = (k, v)" by (cases kv)
  have "row_key ` set (apply_delta c (delta @ [kv]) rows) \<subseteq> insert k (row_key ` set (apply_delta c delta rows))"
    unfolding kv apply_delta_snoc by (rule keys_table_set)
  also have "\<dots> \<subseteq> insert k (fst ` set delta \<union> row_key ` set rows)" using snoc by (rule insert_mono)
  finally show ?case by (simp add: kv)
qed simp

lemma table_ok_apply_delta:
  assumes "table_ok c rows" "digest_width c" "\<forall>kv \<in> set delta. held_epoch_ok (snd kv)"
    "inj_on (key_path c) (fst ` set delta \<union> row_key ` set rows)"
  shows "table_ok c (apply_delta c delta rows)"
  using assms(3,4)
proof (induction delta rule: rev_induct)
  case (snoc kv delta)
  obtain k v where kv: "kv = (k, v)" by (cases kv)
  have inj: "inj_on (key_path c) (fst ` set delta \<union> row_key ` set rows)"
    by (rule inj_on_subset[OF snoc.prems(2)]) auto
  have "insert k (row_key ` set (apply_delta c delta rows)) \<subseteq> fst ` set (delta @ [kv]) \<union> row_key ` set rows"
    using keys_apply_delta[of c delta rows] kv by auto
  then have "inj_on (key_path c) (insert k (row_key ` set (apply_delta c delta rows)))"
    by (rule inj_on_subset[OF snoc.prems(2)])
  then show ?case
    unfolding kv apply_delta_snoc using snoc.prems(1) kv inj snoc.IH by (intro table_ok_set assms(2)) auto
qed (simp add: assms(1))

lemma apply_delta_eq:
  "distinct (map fst delta) \<Longrightarrow>
     apply_delta c delta rows =
       filter (\<lambda>r. row_key r \<notin> fst ` set delta) rows @ concat (map (\<lambda>(k, v). held_rows c k v) delta)"
proof (induction delta rule: rev_induct)
  case (snoc kv delta)
  obtain k v where kv: "kv = (k, v)" by (cases kv)
  have k: "k \<notin> fst ` set delta" and d: "distinct (map fst delta)" using snoc.prems kv by auto
  have "row_key r \<noteq> k" if "r \<in> set (concat (map (\<lambda>(k, v). held_rows c k v) delta))" for r
    using that k by (auto simp: set_held_rows split: option.splits prod.splits) force
  then have "filter (\<lambda>r. row_key r \<noteq> k) (concat (map (\<lambda>(k, v). held_rows c k v) delta)) =
      concat (map (\<lambda>(k, v). held_rows c k v) delta)"
    by (simp add: filter_id_conv)
  then show ?case
    unfolding kv apply_delta_snoc table_set_def snoc.IH[OF d]
    by (simp add: conj_commute)
qed simp

section \<open>The accumulator of a table\<close>

definition row_element :: "prims \<Rightarrow> live_row \<Rightarrow> accumulator" where
  "row_element c r = element c (lr_store r) (lr_name r) (lr_value r) (lr_epoch r)"

definition acc_sum :: "prims \<Rightarrow> live_row list \<Rightarrow> accumulator" where
  "acc_sum c rows = foldr (\<lambda>r a. acc_add c a (row_element c r)) rows ACC_IDENTITY"

lemma row_element_in: "acc_laws c G \<Longrightarrow> row_element c r \<in> G"
  by (simp add: row_element_def element_def acc_element_in)

lemma acc_sum_in: "acc_laws c G \<Longrightarrow> acc_sum c rows \<in> G"
  by (induction rows) (auto simp: acc_sum_def acc_identity_in acc_add_in row_element_in)

lemma acc_sum_Cons: "acc_sum c (r # rows) = acc_add c (acc_sum c rows) (row_element c r)"
  by (simp add: acc_sum_def)

lemma acc_sum_middle:
  assumes "acc_laws c G"
  shows "acc_sum c (xs @ r # ys) = acc_add c (acc_sum c (xs @ ys)) (row_element c r)"
proof (induction xs)
  case (Cons x xs)
  note in_G = acc_sum_in[OF assms] row_element_in[OF assms]
  have "acc_add c (acc_add c (acc_sum c (xs @ ys)) (row_element c r)) (row_element c x) =
      acc_add c (acc_add c (acc_sum c (xs @ ys)) (row_element c x)) (row_element c r)"
    using in_G acc_add_assoc[OF assms] acc_add_commute[OF assms] by metis
  with Cons show ?case by (simp add: acc_sum_Cons)
qed (simp add: acc_sum_Cons)

lemma acc_sum_mset: "acc_laws c G \<Longrightarrow> mset xs = mset ys \<Longrightarrow> acc_sum c xs = acc_sum c ys"
proof (induction xs arbitrary: ys)
  case (Cons x xs)
  then have "x \<in> set ys" by (metis list.set_intros(1) set_mset_mset)
  then obtain as bs where ys: "ys = as @ x # bs" by (meson split_list)
  with Cons.prems(2) have "mset xs = mset (as @ bs)" by simp
  then have "acc_sum c xs = acc_sum c (as @ bs)" using Cons.prems(1) by (rule Cons.IH[rotated])
  with Cons.prems(1) show ?case by (simp add: ys acc_sum_Cons acc_sum_middle)
qed simp

lemma filter_key_split:
  assumes "table_ok c rows" "r \<in> set rows"
  obtains xs ys where "rows = xs @ r # ys" "filter (\<lambda>q. row_key q \<noteq> row_key r) rows = xs @ ys"
proof -
  from assms(2) obtain xs ys where rows: "rows = xs @ r # ys" by (meson split_list)
  have "row_key q \<noteq> row_key r" if "q \<in> set (xs @ ys)" for q
  proof
    assume eq: "row_key q = row_key r"
    have "lr_path q = lr_path r" using eq that assms keyed_path[of c rows] rows by (auto simp: table_ok_def)
    then have "lr_path r \<in> lr_path ` set (xs @ ys)" using that by (metis imageI)
    with rows assms(1) show False by (auto simp: table_ok_def rows_ok_def)
  qed
  then have "filter (\<lambda>q. row_key q \<noteq> row_key r) xs = xs" "filter (\<lambda>q. row_key q \<noteq> row_key r) ys = ys"
    by (auto simp: filter_id_conv)
  then show thesis using that rows by simp
qed

definition acc_without :: "prims \<Rightarrow> key \<Rightarrow> Held option \<Rightarrow> accumulator \<Rightarrow> accumulator" where
  "acc_without c k was acc =
     (case was of None \<Rightarrow> acc | Some w \<Rightarrow> acc_sub c acc (element c (fst k) (snd k) (held_value w) (held_epoch w)))"

definition acc_with :: "prims \<Rightarrow> key \<Rightarrow> Held option \<Rightarrow> accumulator \<Rightarrow> accumulator" where
  "acc_with c k now acc =
     (case now of None \<Rightarrow> acc | Some x \<Rightarrow> acc_add c acc (element c (fst k) (snd k) (held_value x) (held_epoch x)))"

text \<open>
  Subtracting the element of the row a key has and adding that of the row it gets keeps the
  accumulator the sum over the table.
\<close>

lemma acc_sum_table_set:
  assumes "acc_laws c G" "table_ok c rows"
  shows "acc_with c k v (acc_without c k (live_get rows (fst k) (snd k)) (acc_sum c rows)) =
    acc_sum c (table_set c k v rows)"
proof -
  have wo: "acc_without c k (live_get rows (fst k) (snd k)) (acc_sum c rows) =
      acc_sum c (filter (\<lambda>r. row_key r \<noteq> k) rows)"
  proof (cases "find (\<lambda>r. row_key r = k) rows")
    case None
    then have "filter (\<lambda>r. row_key r \<noteq> k) rows = rows" by (auto simp: find_None_iff filter_id_conv)
    with None show ?thesis by (simp add: acc_without_def live_get_row_key)
  next
    case (Some r)
    then have r: "r \<in> set rows" "row_key r = k" by (auto simp: find_Some_iff)
    from filter_key_split[OF assms(2) r(1)] obtain xs ys where
      sp: "rows = xs @ r # ys" "filter (\<lambda>q. row_key q \<noteq> row_key r) rows = xs @ ys" by blast
    have "acc_sum c rows = acc_add c (acc_sum c (xs @ ys)) (row_element c r)"
      unfolding sp(1) by (rule acc_sum_middle[OF assms(1)])
    then have "acc_sub c (acc_sum c rows) (row_element c r) = acc_sum c (xs @ ys)"
      using acc_sub_add[OF assms(1) acc_sum_in[OF assms(1)] row_element_in[OF assms(1)]] by simp
    moreover have "element c (fst k) (snd k) (held_value (held_of r)) (held_epoch (held_of r)) = row_element c r"
      using r(2) by (auto simp: row_element_def held_of_def row_key_def)
    ultimately show ?thesis
      using Some sp(2) r(2) by (simp add: acc_without_def live_get_row_key)
  qed
  show ?thesis
  proof (cases v)
    case None
    then show ?thesis using wo by (simp add: acc_with_def table_set_def held_rows_def)
  next
    case (Some x)
    have "acc_sum c (table_set c k v rows) =
        acc_add c (acc_sum c (filter (\<lambda>r. row_key r \<noteq> k) rows @ [])) (row_element c (mk_row c k x))"
      unfolding Some table_set_def held_rows_def option.case
      by (rule acc_sum_middle[OF assms(1), of _ _ "[]"])
    then show ?thesis using Some wo by (simp add: acc_with_def row_element_def mk_row_def)
  qed
qed

end
