(* ===== verification/Layer_View.thy ===== *)
theory Layer_View
  imports Tables
begin

text \<open>
  A layer over a view is the view of the changed table. \<open>view_ok c rows v\<close> says that the view
  \<open>v\<close> shows the table \<open>rows\<close>: its lookups, range reads, subtree hashes and accumulator are those
  of the table. A store reader shows its \<^verbatim>\<open>live\<close> table; and a layer over a view that shows
  \<open>rows\<close> shows \<open>rows\<close> with the layer's delta applied, so layers may be stacked.
\<close>

text \<open>A prefix as the tree recursion passes it: the lower end of its own range.\<close>

definition canonical :: "bytes \<Rightarrow> nat \<Rightarrow> bool" where
  "canonical p d \<longleftrightarrow> length p = 32 \<and> d \<le> 256 \<and> lo_of p d = p"

definition in_range :: "int \<Rightarrow> bool" where
  "in_range n \<longleftrightarrow> - (2 ^ 63) \<le> n \<and> n < 2 ^ 63"

definition view_ok :: "prims \<Rightarrow> live_row list \<Rightarrow> 'a View_scheme \<Rightarrow> bool" where
  "view_ok c rows v \<longleftrightarrow>
     table_ok c rows \<and>
     (\<forall>st nm. in_range st \<longrightarrow> rd_get v st nm = Inr (live_get rows st nm)) \<and>
     (\<forall>lo hi. vw_rows_in_path_range v lo hi = Inr (map path_row (select_range rows lo hi))) \<and>
     (\<forall>p d. canonical p d \<longrightarrow> vw_hash_under v p d = Inr (node_hash c rows p d)) \<and>
     vw_accumulator v = Inr (acc_sum c rows)"

definition delta_ok :: "prims \<Rightarrow> delta \<Rightarrow> live_row list \<Rightarrow> bool" where
  "delta_ok c delta rows \<longleftrightarrow>
     distinct (map fst delta) \<and>
     (\<forall>((st, nm), v) \<in> set delta. in_range st \<and> held_epoch_ok v) \<and>
     inj_on (key_path c) (fst ` set delta \<union> row_key ` set rows)"

lemma delta_ok_table:
  "delta_ok c delta rows \<Longrightarrow> table_ok c rows \<Longrightarrow> digest_width c \<Longrightarrow> table_ok c (apply_delta c delta rows)"
  by (rule table_ok_apply_delta) (auto simp: delta_ok_def)

section \<open>Dictionaries with distinct keys\<close>

lemma update_new: "k \<notin> fst ` set d \<Longrightarrow> AList.update k v d = d @ [(k, v)]"
  by (induction d) auto

lemma dict_update_distinct: "distinct (map fst (d @ xs)) \<Longrightarrow> dict_update d xs = d @ xs"
proof (induction xs arbitrary: d)
  case (Cons kv xs)
  obtain k v where kv: "kv = (k, v)" by (cases kv)
  have "k \<notin> fst ` set d" and "distinct (map fst ((d @ [(k, v)]) @ xs))" using Cons.prems kv by auto
  then show ?case using Cons.IH[of "d @ [(k, v)]"] by (simp add: kv dict_update_def update_new)
qed (simp add: dict_update_def)

lemma sort_key_mset:
  "mset xs = mset ys \<Longrightarrow> distinct (map f xs) \<Longrightarrow> sort_key f xs = sort_key f ys"
  using sort_key_inj_key_eq[of xs "sort_key f ys" f] by (simp add: distinct_map)

lemma distinct_map_mset: "mset xs = mset ys \<Longrightarrow> distinct (map f xs) \<longleftrightarrow> distinct (map f ys)"
  by (rule mset_eq_imp_distinct_iff) (simp only: mset_map)

lemma mk_row_sel [simp]:
  "lr_path (mk_row c k x) = path_of c (fst k) (snd k)" "lr_store (mk_row c k x) = fst k" "lr_name (mk_row c k x) = snd k"
  by (simp_all add: mk_row_def)

section \<open>The rows a layer sees\<close>

lemma path_in_delta:
  assumes "table_ok c rows" "inj_on (key_path c) (fst ` set delta \<union> row_key ` set rows)"
    "r \<in> set rows" "lo \<le> lr_path r" "lr_path r \<le> hi"
  shows "lr_path r \<in> key_path c ` fst ` set (filter (\<lambda>((st, nm), _). lo \<le> path_of c st nm \<and> path_of c st nm \<le> hi) delta)
    \<longleftrightarrow> row_key r \<in> fst ` set delta"
proof
  have path: "lr_path r = key_path c (row_key r)" using keyed_path assms(1,3) by (auto simp: table_ok_def)
  assume "lr_path r \<in> key_path c ` fst ` set (filter (\<lambda>((st, nm), _). lo \<le> path_of c st nm \<and> path_of c st nm \<le> hi) delta)"
  then obtain k where "k \<in> fst ` set delta" "key_path c k = key_path c (row_key r)" using path by force
  then have "k = row_key r" using assms(3) by (intro inj_onD[OF assms(2)]) auto
  then show "row_key r \<in> fst ` set delta" using \<open>k \<in> _\<close> by simp
next
  have path: "lr_path r = key_path c (row_key r)" using keyed_path assms(1,3) by (auto simp: table_ok_def)
  assume "row_key r \<in> fst ` set delta"
  then obtain v where "(row_key r, v) \<in> set delta" by force
  moreover have "lo \<le> path_of c (lr_store r) (lr_name r)" "path_of c (lr_store r) (lr_name r) \<le> hi"
    using assms(4,5) path by (auto simp: key_path_def row_key_def)
  ultimately have "(row_key r, v) \<in> set (filter (\<lambda>((st, nm), _). lo \<le> path_of c st nm \<and> path_of c st nm \<le> hi) delta)"
    by (auto simp: row_key_def)
  then show "lr_path r \<in> key_path c ` fst ` set (filter (\<lambda>((st, nm), _). lo \<le> path_of c st nm \<and> path_of c st nm \<le> hi) delta)"
    using path by (metis (no_types, lifting) fst_conv imageI)
qed

lemma delta_by_path_eq:
  assumes "delta_ok c delta rows"
  shows "delta_by_path c delta lo hi =
    map (\<lambda>((st, nm), v). (path_of c st nm, (st, nm, v)))
      (filter (\<lambda>((st, nm), _). lo \<le> path_of c st nm \<and> path_of c st nm \<le> hi) delta)"
proof -
  let ?D = "filter (\<lambda>((st, nm), _). lo \<le> path_of c st nm \<and> path_of c st nm \<le> hi) delta"
  have d: "distinct (map fst ?D)" using assms by (auto simp: delta_ok_def intro: distinct_map_filter)
  have inj: "inj_on (key_path c) (set (map fst ?D))"
    using assms by (auto simp: delta_ok_def intro: inj_on_subset)
  have "map fst (map (\<lambda>((st, nm), v). (path_of c st nm, (st, nm, v))) ?D) = map (key_path c) (map fst ?D)"
    by (simp add: key_path_def split_beta comp_def)
  then have "distinct (map fst (map (\<lambda>((st, nm), v). (path_of c st nm, (st, nm, v))) ?D))"
    using d inj by (simp add: distinct_map comp_inj_on del: map_map)
  then show ?thesis unfolding delta_by_path_def by (subst dict_update_distinct) auto
qed

lemma fst_delta_by_path:
  assumes "delta_ok c delta rows"
  shows "fst ` set (delta_by_path c delta lo hi) =
    key_path c ` fst ` set (filter (\<lambda>((st, nm), _). lo \<le> path_of c st nm \<and> path_of c st nm \<le> hi) delta)"
  unfolding delta_by_path_eq[OF assms] by (force simp: key_path_def)

text \<open>The base rows a layer keeps and the rows its delta adds, inside a range.\<close>

definition kept_rows :: "delta \<Rightarrow> live_row list \<Rightarrow> bytes \<Rightarrow> bytes \<Rightarrow> live_row list" where
  "kept_rows delta rows lo hi = filter (\<lambda>r. row_key r \<notin> fst ` set delta) (select_range rows lo hi)"

definition new_rows :: "prims \<Rightarrow> delta \<Rightarrow> bytes \<Rightarrow> bytes \<Rightarrow> live_row list" where
  "new_rows c delta lo hi =
     concat (map (\<lambda>(k, v). held_rows c k v)
       (filter (\<lambda>((st, nm), _). lo \<le> path_of c st nm \<and> path_of c st nm \<le> hi) delta))"

lemma mset_kept_new:
  assumes "delta_ok c delta rows"
  shows "mset (kept_rows delta rows lo hi @ new_rows c delta lo hi) =
    mset (filter (\<lambda>r. lo \<le> lr_path r \<and> lr_path r \<le> hi) (apply_delta c delta rows))"
proof -
  let ?in = "\<lambda>r. lo \<le> lr_path r \<and> lr_path r \<le> hi"
  have "filter ?in (held_rows c k v) = (if lo \<le> path_of c (fst k) (snd k) \<and> path_of c (fst k) (snd k) \<le> hi then held_rows c k v else [])" for k v
    by (simp add: held_rows_def mk_row_def split: option.split)
  then have "filter ?in (concat (map (\<lambda>(k, v). held_rows c k v) delta)) = new_rows c delta lo hi"
    unfolding new_rows_def by (induction delta) (auto split: if_splits)
  moreover have "mset (kept_rows delta rows lo hi) = mset (filter ?in (filter (\<lambda>r. row_key r \<notin> fst ` set delta) rows))"
    by (simp add: kept_rows_def select_range_def filter_filter_mset conj_commute)
  moreover have "distinct (map fst delta)" using assms by (simp add: delta_ok_def)
  ultimately show ?thesis by (simp add: apply_delta_eq)
qed

lemma sort_kept_new:
  assumes "delta_ok c delta rows" "table_ok c (apply_delta c delta rows)" "\<And>r. f (g r) = lr_path r"
  shows "sort_key f (map g (kept_rows delta rows lo hi @ new_rows c delta lo hi)) =
    map g (select_range (apply_delta c delta rows) lo hi)"
proof -
  let ?R = "filter (\<lambda>r. lo \<le> lr_path r \<and> lr_path r \<le> hi) (apply_delta c delta rows)"
  have d: "distinct (map lr_path ?R)"
    using assms(2) by (auto simp: table_ok_def rows_ok_def intro: distinct_map_filter)
  have f: "map f (map g xs) = map lr_path xs" for xs using assms(3) by simp
  have "mset (map g (kept_rows delta rows lo hi @ new_rows c delta lo hi)) = mset (map g ?R)"
    unfolding mset_map mset_kept_new[OF assms(1)] by (rule refl)
  also have m: "\<dots> = mset (map g (sort_key lr_path ?R))" unfolding mset_map mset_sort by (rule refl)
  finally have mset: "mset (map g (kept_rows delta rows lo hi @ new_rows c delta lo hi)) = mset (map g (sort_key lr_path ?R))" .
  have "inj_on f (set (map g ?R))" using d assms(3) by (auto simp: distinct_map inj_on_def)
  then have inj: "inj_on f (set (map g (kept_rows delta rows lo hi @ new_rows c delta lo hi)))"
    using mset_eq_setD[OF mset] mset_eq_setD[OF m] by simp
  have sorted: "sorted (map f (map g (sort_key lr_path ?R)))" unfolding f by simp
  show ?thesis unfolding select_range_def by (rule sort_key_inj_key_eq[OF mset inj sorted])
qed

lemma row_path_path_row: "keyed c rows \<Longrightarrow> r \<in> set rows \<Longrightarrow> row_path c (path_row r) = lr_path r"
  by (simp add: row_path_def path_row_def keyed_def)

lemma filter_kept:
  assumes "delta_ok c delta rows" "table_ok c rows"
  shows "filter (\<lambda>r. row_path c r \<notin> fst ` set (delta_by_path c delta lo hi)) (map path_row (select_range rows lo hi)) =
    map path_row (kept_rows delta rows lo hi)"
proof -
  have "row_path c (path_row r) \<notin> fst ` set (delta_by_path c delta lo hi) \<longleftrightarrow> row_key r \<notin> fst ` set delta"
    if "r \<in> set (select_range rows lo hi)" for r
    using that assms path_in_delta[of c rows delta r lo hi] row_path_path_row[of c rows r]
    by (simp add: fst_delta_by_path[OF assms(1)] select_range_def table_ok_def delta_ok_def)
  then show ?thesis unfolding kept_rows_def filter_map comp_def by (intro arg_cong[of _ _ "map path_row"] filter_cong) auto
qed

lemma map_filter_new:
  assumes "delta_ok c delta rows"
  shows "List.map_filter (\<lambda>(path, (st, nm, v)). map_option (g path st nm) v) (delta_by_path c delta lo hi) =
    map (\<lambda>r. g (lr_path r) (lr_store r) (lr_name r) (held_of r)) (new_rows c delta lo hi)"
  unfolding delta_by_path_eq[OF assms] new_rows_def
  by (induction delta) (auto simp: List.map_filter_simps held_rows_def split: option.splits)

lemma layer_rows_eq:
  assumes "view_ok c rows (ov_base L)" "delta_ok c (ov_delta L) rows" "digest_width c"
  shows "layer_rows_in_path_range c L lo hi =
    Inr (map path_row (select_range (apply_delta c (ov_delta L) rows) lo hi))"
proof -
  let ?D = "ov_delta L"
  have base: "table_ok c rows" "vw_rows_in_path_range (ov_base L) lo hi = Inr (map path_row (select_range rows lo hi))"
    using assms(1) by (auto simp: view_ok_def)
  have tab: "table_ok c (apply_delta c ?D rows)" using delta_ok_table assms(2,3) base(1) by blast
  define g where "g = (\<lambda>r. (lr_path r, path_row r))"
  have kept: "map (\<lambda>r. (row_path c r, r)) (map path_row (kept_rows ?D rows lo hi)) = map g (kept_rows ?D rows lo hi)"
    using row_path_path_row[of c rows] base(1)
    by (auto simp: g_def kept_rows_def select_range_def table_ok_def)
  have new: "List.map_filter (\<lambda>(path, (st, nm, v)).
        map_option (\<lambda>x. (path, \<lparr>pr_store = st, pr_name = nm, pr_value = held_value x,
          pr_credential = held_cred x, pr_epoch = held_epoch x\<rparr>)) v) (delta_by_path c ?D lo hi) =
      map g (new_rows c ?D lo hi)"
    using map_filter_new[OF assms(2), of "\<lambda>path st nm x. (path, \<lparr>pr_store = st, pr_name = nm, pr_value = held_value x,
          pr_credential = held_cred x, pr_epoch = held_epoch x\<rparr>)" lo hi]
    by (simp add: g_def path_row_def held_of_def)
  have sort: "sort_key fst (map g (kept_rows ?D rows lo hi @ new_rows c ?D lo hi)) =
      map g (select_range (apply_delta c ?D rows) lo hi)"
    by (rule sort_kept_new[OF assms(2) tab]) (simp add: g_def)
  have "distinct (map lr_path (filter (\<lambda>r. lo \<le> lr_path r \<and> lr_path r \<le> hi) (apply_delta c ?D rows)))"
    using tab by (auto simp: table_ok_def rows_ok_def intro: distinct_map_filter)
  then have "distinct (map lr_path (kept_rows ?D rows lo hi @ new_rows c ?D lo hi))"
    using distinct_map_mset[OF mset_kept_new[OF assms(2)]] by blast
  then have "distinct (map fst (map g (kept_rows ?D rows lo hi @ new_rows c ?D lo hi)))"
    by (simp add: g_def comp_def)
  then have "dict_update (dict_update [] (map g (kept_rows ?D rows lo hi))) (map g (new_rows c ?D lo hi)) =
      map g (kept_rows ?D rows lo hi @ new_rows c ?D lo hi)"
    by (subst dict_update_distinct; subst dict_update_distinct) auto
  then show ?thesis
    unfolding layer_rows_in_path_range_def Let_def base(2) rbind_simps filter_kept[OF assms(2) base(1)] kept new
    using sort by (simp add: g_def comp_def)
qed

lemma effective_leaves_eq:
  assumes "view_ok c rows (ov_base L)" "delta_ok c (ov_delta L) rows" "digest_width c"
  shows "effective_leaves c L lo hi n =
    Inr (take n (map (leaf_of c) (select_range (apply_delta c (ov_delta L) rows) lo hi)))"
proof -
  let ?D = "ov_delta L"
  have base: "table_ok c rows" "vw_rows_in_path_range (ov_base L) lo hi = Inr (map path_row (select_range rows lo hi))"
    using assms(1) by (auto simp: view_ok_def)
  have tab: "table_ok c (apply_delta c ?D rows)" using delta_ok_table assms(2,3) base(1) by blast
  have kept: "mapM (\<lambda>r. rbind (leaf_hash c (row_path c r) (h c (pr_value r)) (h c (pr_credential r)) (pr_epoch r))
        (\<lambda>d. Inr (row_path c r, d))) (map path_row (kept_rows ?D rows lo hi)) = Inr (map (leaf_of c) (kept_rows ?D rows lo hi))"
  proof (rule mapM_map_Inr)
    fix r assume "r \<in> set (kept_rows ?D rows lo hi)"
    then have r: "r \<in> set rows" by (auto simp: kept_rows_def select_range_def)
    then show "rbind (leaf_hash c (row_path c (path_row r)) (h c (pr_value (path_row r))) (h c (pr_credential (path_row r)))
        (pr_epoch (path_row r))) (\<lambda>d. Inr (row_path c (path_row r), d)) = Inr (leaf_of c r)"
      using row_path_path_row[of c rows r] leaf_hash_row[of rows r c] base(1)
      by (simp add: table_ok_def path_row_def leaf_of_def)
  qed
  have in_new: "r \<in> set (apply_delta c ?D rows)" if "r \<in> set (new_rows c ?D lo hi)" for r
  proof -
    have "r \<in># mset (kept_rows ?D rows lo hi @ new_rows c ?D lo hi)" using that by simp
    then show ?thesis unfolding mset_kept_new[OF assms(2)] by simp
  qed
  have new: "mapM (\<lambda>(path, x). rbind (leaf_hash c path (h c (held_value x)) (h c (held_cred x)) (held_epoch x))
        (\<lambda>d. Inr (path, d))) (map (\<lambda>r. (lr_path r, held_of r)) (new_rows c ?D lo hi)) = Inr (map (leaf_of c) (new_rows c ?D lo hi))"
  proof (rule mapM_map_Inr)
    fix r assume "r \<in> set (new_rows c ?D lo hi)"
    then show "(case (lr_path r, held_of r) of (path, x) \<Rightarrow>
        rbind (leaf_hash c path (h c (held_value x)) (h c (held_cred x)) (held_epoch x)) (\<lambda>d. Inr (path, d))) = Inr (leaf_of c r)"
      using leaf_hash_row[of "apply_delta c ?D rows" r c] in_new tab
      by (simp add: table_ok_def held_of_def leaf_of_def)
  qed
  have mf: "List.map_filter (\<lambda>(path, (_, _, v)). map_option (\<lambda>x. (path, x)) v) (delta_by_path c ?D lo hi) =
      map (\<lambda>r. (lr_path r, held_of r)) (new_rows c ?D lo hi)"
    using map_filter_new[OF assms(2), of "\<lambda>path st nm x. (path, x)" lo hi] by simp
  have "sort_key fst (map (leaf_of c) (kept_rows ?D rows lo hi) @ map (leaf_of c) (new_rows c ?D lo hi)) =
      map (leaf_of c) (select_range (apply_delta c ?D rows) lo hi)"
    using sort_kept_new[OF assms(2) tab, of fst "leaf_of c" lo hi] by (simp add: leaf_of_def)
  then show ?thesis
    unfolding effective_leaves_def Let_def base(2) rbind_simps filter_kept[OF assms(2) base(1)] kept mf new by simp
qed

section \<open>The subtree hashes a layer computes\<close>

lemma lo_of_bit:
  assumes "length p = 32" "d < 256"
  shows "\<not> path_bit (lo_of p d) d"
proof -
  let ?f = "d div 8" and ?r = "d mod 8"
  have f: "?f < 32" using assms(2) index_in_path by blast
  have lo: "lo_of p d = fst (projr (bounds p d))" by (simp add: lo_of_def)
  show ?thesis
  proof (cases "?r = 0")
    case True
    then have "lo_of p d = take ?f p @ replicate (32 - ?f) 0"
      using assms f unfolding lo by (simp add: bounds_def Let_def)
    then have "lo_of p d ! ?f = 0" using assms f by (simp add: nth_append)
    then show ?thesis by (simp add: has_signer_def)
  next
    case False
    then have "lo_of p d = take ?f p @ (p ! ?f AND high_mask ?r) # replicate (31 - ?f) 0"
      using assms f unfolding lo by (simp add: bounds_def Let_def high_mask_def)
    then have "lo_of p d ! ?f = p ! ?f AND high_mask ?r" using assms f by (simp add: nth_append)
    moreover have "\<not> bit (high_mask ?r) (7 - ?r)" using False by (simp add: bit_high_mask)
    ultimately show ?thesis by (simp add: has_signer_def bit_and_iff)
  qed
qed

lemma lo_of_lo: "length p = 32 \<Longrightarrow> d \<le> 256 \<Longrightarrow> lo_of (lo_of p d) d = lo_of p d"
  by (rule lo_of_cong) (auto intro: agree_sym agree_lo)

lemma canonical_lo: "length p = 32 \<Longrightarrow> d \<le> 256 \<Longrightarrow> canonical (lo_of p d) d"
  by (simp add: canonical_def lo_of_lo)

lemma canonical_bit: "canonical p d \<Longrightarrow> d < 256 \<Longrightarrow> \<not> path_bit p d"
  using lo_of_bit[of p d] by (simp add: canonical_def)

lemma with_bit_right:
  assumes "canonical p d" "d < 256"
  obtains q where "with_bit p d True = Inr q" "length q = 32" "agree (Suc d) q (other_side p d)"
proof -
  have p: "length p = 32" using assms(1) by (simp add: canonical_def)
  obtain q where q: "with_bit p d True = Inr q" "length q = 32" "\<And>j. path_bit q j = (if j = d then True else path_bit p j)"
    using with_bit_path[OF p assms(2), of True] by blast
  have "agree (Suc d) q (other_side p d)"
    using q(3) other_side(3)[OF p assms(2)] canonical_bit[OF assms] by (simp add: agree_def)
  then show thesis using that q by blast
qed

lemma subtree_untouched:
  assumes "delta_ok c delta rows" "table_ok c rows" "digest_width c" "length p = 32" "d \<le> 256"
    "\<not> delta_touches_range c delta (lo_of p d) (hi_of p d)"
  shows "subtree (apply_delta c delta rows) p d = subtree rows p d"
proof -
  have no: "\<not> agree d p (key_path c k)" if "k \<in> fst ` set delta" for k
  proof -
    have "\<not> (lo_of p d \<le> key_path c k \<and> key_path c k \<le> hi_of p d)"
      using that assms(6) by (force simp: delta_touches_range_def list_ex_iff key_path_def)
    then show ?thesis
      using bounds_path(3)[OF assms(4,5), of "key_path c k"] length_path_of[OF assms(3)]
      by (auto simp: key_path_def)
  qed
  have "subtree (concat (map (\<lambda>(k, v). held_rows c k v) delta)) p d = []"
    unfolding subtree_def filter_empty_conv
    using no by (force simp: set_held_rows key_path_def split: option.splits)
  moreover have "agree d p (lr_path r) \<Longrightarrow> row_key r \<notin> fst ` set delta" if "r \<in> set rows" for r
    using no[of "row_key r"] keyed_path[of c rows r] assms(2) that by (metis table_ok_def)
  then have "subtree (filter (\<lambda>r. row_key r \<notin> fst ` set delta) rows) p d = subtree rows p d"
    unfolding subtree_def filter_filter by (intro filter_cong) auto
  moreover have "distinct (map fst delta)" using assms(1) by (simp add: delta_ok_def)
  ultimately show ?thesis by (simp add: apply_delta_eq subtree_def)
qed

declare layer_hash_under.simps [simp del]

lemma layer_hash_under_spec:
  assumes base: "view_ok c rows (ov_base L)" and delta: "delta_ok c (ov_delta L) rows" and dw: "digest_width c"
    and R: "R = apply_delta c (ov_delta L) rows"
  shows "canonical p d \<Longrightarrow> memo_ok c R memo \<Longrightarrow>
    \<exists>memo'. layer_hash_under c L p d memo = Inr (node_hash c R p d, memo') \<and> memo_ok c R memo'"
proof (induction "256 - d" arbitrary: p d memo rule: less_induct)
  case less
  have p: "length p = 32" "d \<le> 256" "lo_of p d = p" using less.prems(1) by (auto simp: canonical_def)
  have rows: "table_ok c rows" using base by (simp add: view_ok_def)
  have tab: "table_ok c R" unfolding R by (rule delta_ok_table[OF delta rows dw])
  then have rok: "rows_ok R" by (simp add: table_ok_def)
  define found where "found = map (leaf_of c) (take 2 (sort_key lr_path (subtree R p d)))"
  have eff: "effective_leaves c L (lo_of p d) (hi_of p d) 2 = Inr found"
    using effective_leaves_eq[OF base delta dw, of "lo_of p d" "hi_of p d" 2] select_range_subtree[OF rok p(1,2)]
    by (simp add: found_def R take_map)
  note found = leaves_found[OF found_def]
  have upd: "memo_ok c R m \<Longrightarrow> memo_ok c R (m((d, p) \<mapsto> node_hash c R p d))" for m
    using memo_ok_upd[of c R m p d] p by simp
  consider (base) "\<not> delta_touches_range c (ov_delta L) (lo_of p d) (hi_of p d)"
    | (hit) v where "delta_touches_range c (ov_delta L) (lo_of p d) (hi_of p d)" "memo (d, lo_of p d) = Some v"
    | (few) "delta_touches_range c (ov_delta L) (lo_of p d) (hi_of p d)" "memo (d, lo_of p d) = None" "length (subtree R p d) \<le> 1"
    | (split) "delta_touches_range c (ov_delta L) (lo_of p d) (hi_of p d)" "memo (d, lo_of p d) = None" "2 \<le> length (subtree R p d)"
    using not_less_eq_eq[of "length (subtree R p d)" 1]
    by (cases "memo (d, lo_of p d)") (auto simp: numeral_2_eq_2)
  then show ?case
  proof cases
    case base
    then have "node_hash c R p d = node_hash c rows p d"
      unfolding R node_hash_def using subtree_untouched[OF delta rows dw p(1,2)] by simp
    moreover have "vw_hash_under (ov_base L) p d = Inr (node_hash c rows p d)"
      using assms(1) less.prems(1) by (simp add: view_ok_def)
    ultimately show ?thesis using base p less.prems(2) by (simp add: layer_hash_under.simps)
  next
    case hit
    then show ?thesis
      using memo_okD[OF less.prems(2) p(1,2)] p less.prems(2) by (auto simp: layer_hash_under.simps)
  next
    case few
    show ?thesis
    proof (cases "subtree R p d = []")
      case True
      then have "found = []" using found(1) by simp
      then show ?thesis
        using few p eff upd[OF less.prems(2)] less.prems(2) node_hash_empty[OF True, of c]
        by (simp add: layer_hash_under.simps)
    next
      case False
      then have one: "length (subtree R p d) = 1" using few(3) by (cases "subtree R p d") auto
      then obtain r where r: "subtree R p d = [r]" by (auto simp: length_Suc_conv)
      have f: "found = [leaf_of c r]" using found(4)[OF one] r by simp
      have "node_hash c R p d = row_digest c r" using node_hash_single[OF one] r by simp
      then show ?thesis
        using few p eff upd[OF less.prems(2)] less.prems(2) by (simp add: layer_hash_under.simps f leaf_of_def)
    qed
  next
    case split
    have "d \<noteq> 256" using subtree_256[OF rok p(1)] split(3) by auto
    then have d: "d < 256" "256 - Suc d < 256 - d" "Suc d \<le> 256" using p(2) by auto
    obtain q where q: "with_bit p d True = Inr q" "length q = 32" "agree (Suc d) q (other_side p d)"
      using with_bit_right[OF less.prems(1) d(1)] by blast
    have os: "length (other_side p d) = 32" using other_side(2)[OF p(1) d(1)] .
    obtain m1 where m1: "layer_hash_under c L (lo_of p (Suc d)) (Suc d) memo =
        Inr (node_hash c R (lo_of p (Suc d)) (Suc d), m1)" "memo_ok c R m1"
      using less.hyps[OF d(2) canonical_lo[OF p(1) d(3)] less.prems(2)] by blast
    obtain m2 where m2: "layer_hash_under c L (lo_of q (Suc d)) (Suc d) m1 =
        Inr (node_hash c R (lo_of q (Suc d)) (Suc d), m2)" "memo_ok c R m2"
      using less.hyps[OF d(2) canonical_lo[OF q(2) d(3)] m1(2)] by blast
    have left: "node_hash c R (lo_of p (Suc d)) (Suc d) = node_hash c R p (Suc d)"
      using node_hash_cong[OF agree_lo[OF p(1) d(3)]] by simp
    have "agree (Suc d) (lo_of q (Suc d)) (other_side p d)"
      using agree_lo[OF q(2) d(3)] q(3) agree_sym agree_trans by blast
    then have right: "node_hash c R (lo_of q (Suc d)) (Suc d) = node_hash c R (other_side p d) (Suc d)"
      by (rule node_hash_cong)
    have "branch_hash c d (lo_of p d) (node_hash c R p (Suc d)) (node_hash c R (other_side p d) (Suc d)) =
        Inr (node_hash c R p d)"
      using node_hash_branch[OF rok p(1) d(1) split(3), of c] canonical_bit[OF less.prems(1) d(1)] by simp
    moreover have "found \<noteq> []" "length found \<noteq> 1" using found(1,2) split(3) by auto
    ultimately show ?thesis
      using split p q d m1(1) m2 left right eff upd[OF m2(2)]
      by (subst layer_hash_under.simps) (simp cong: rbind_cong)
  qed
qed

section \<open>A layer is the view of the changed table\<close>

lemma acc_delta_sum:
  assumes "acc_laws c G" "digest_width c"
  shows "delta_ok c (done @ delta) rows \<Longrightarrow> table_ok c rows \<Longrightarrow>
    (\<And>st nm. in_range st \<Longrightarrow> base_get st nm = Inr (live_get rows st nm)) \<Longrightarrow>
    acc_delta c base_get delta (acc_sum c (apply_delta c done rows)) = Inr (acc_sum c (apply_delta c (done @ delta) rows))"
proof (induction delta arbitrary: "done")
  case (Cons kv delta)
  obtain st nm v where kv: "kv = ((st, nm), v)" by (metis surj_pair)
  let ?R = "apply_delta c done rows"
  have dok: "delta_ok c (done @ [kv]) rows" "delta_ok c done rows"
    using Cons.prems(1) by (auto simp: delta_ok_def intro: inj_on_subset)
  have tab: "table_ok c ?R" by (rule delta_ok_table[OF dok(2) Cons.prems(2) assms(2)])
  have new: "(st, nm) \<notin> fst ` set done" and rng: "in_range st" using Cons.prems(1) kv by (auto simp: delta_ok_def)
  then have "map_of done (st, nm) = None" by (simp add: map_of_eq_None_iff)
  then have "live_get ?R st nm = live_get rows st nm"
    using dok(2) by (subst live_get_apply_delta) (simp_all add: delta_ok_def)
  then have step: "acc_with c (st, nm) v (acc_without c (st, nm) (live_get rows st nm) (acc_sum c ?R)) =
      acc_sum c (apply_delta c (done @ [kv]) rows)"
    using acc_sum_table_set[OF assms(1) tab, of "(st, nm)" v] by (simp add: kv apply_delta_snoc)
  have "acc_delta c base_get (kv # delta) (acc_sum c ?R) =
      acc_delta c base_get delta (acc_sum c (apply_delta c (done @ [kv]) rows))"
    using Cons.prems(3)[OF rng] step by (simp add: kv acc_with_def acc_without_def Let_def split: option.splits)
  then show ?case using Cons.IH[of "done @ [kv]"] Cons.prems by simp
qed simp

theorem layer_view_ok:
  assumes "view_ok c rows (ov_base L)" "delta_ok c (ov_delta L) rows" "digest_width c" "acc_laws c G"
    "memo_ok c (apply_delta c (ov_delta L) rows) (ly_memo L)"
  shows "view_ok c (apply_delta c (ov_delta L) rows) (layer_view c fuel L)"
proof -
  let ?D = "ov_delta L" and ?R = "apply_delta c (ov_delta L) rows"
  have rows: "table_ok c rows" using assms(1) by (simp add: view_ok_def)
  have d: "distinct (map fst ?D)" using assms(2) by (simp add: delta_ok_def)
  have get: "in_range st \<Longrightarrow> ov_get L st nm = Inr (live_get ?R st nm)" for st nm
    using assms(1) live_get_apply_delta[OF d] by (auto simp: ov_get_def view_ok_def split: option.splits)
  have "layer_accumulator c L = Inr (acc_sum c ?R)"
    using acc_delta_sum[OF assms(4,3), of "[]" ?D rows "rd_get (ov_base L)"] assms(1,2)
    by (simp add: layer_accumulator_def view_ok_def)
  moreover have "canonical p k \<Longrightarrow>
      rbind (layer_hash_under c L p k (ly_memo L)) (\<lambda>(x, _). Inr x) = Inr (node_hash c ?R p k)" for p k
    using layer_hash_under_spec[OF assms(1-3) refl _ assms(5)] by fastforce
  ultimately show ?thesis
    unfolding view_ok_def layer_view_def
    using delta_ok_table[OF assms(2) rows assms(3)] get layer_rows_eq[OF assms(1-3)] by simp
qed

end
