(* ===== verification/Settle.thy ===== *)
theory Settle
  imports Layer
begin

text \<open>
  \<^verbatim>\<open>dude/store/settle.py\<close>: whether a signed transaction applies to a reader, and what a
  batch of them leaves. The authoriser, an abstract base class, is a record of functions; the
  management component provides the one the node uses.
\<close>

record Authoriser =
  au_may_write :: "Reader \<Rightarrow> public_key \<Rightarrow> int \<Rightarrow> bool res"
  au_current_epoch :: "int \<Rightarrow> Reader \<Rightarrow> int res"
  au_epoch_target :: "bytes \<Rightarrow> int option"

datatype Reason = R_INVALID | R_SIGNATURE | R_AUTHORITY | R_GUARD | R_SETTLED | R_EPOCH | R_NAME_SHAPE | R_EPOCH_JUMP

record Verdict =
  vd_why :: "Reason option"
  vd_step :: "nat option"

definition OK_verdict :: Verdict where
  "OK_verdict = \<lparr>vd_why = None, vd_step = None\<rparr>"

definition vd_ok :: "Verdict \<Rightarrow> bool" where
  "vd_ok v = (vd_why v = None)"

definition rejected :: "Reason \<Rightarrow> nat option \<Rightarrow> Verdict" where
  "rejected why i = \<lparr>vd_why = Some why, vd_step = i\<rparr>"

text \<open>\<^verbatim>\<open>_epoch_step\<close>.\<close>

definition epoch_step :: "Reader \<Rightarrow> Authoriser \<Rightarrow> bytes \<Rightarrow> int \<Rightarrow> Reason option res" where
  "epoch_step layer auth value target =
     (case rbind (decode value) as_int of
        Inl e \<Rightarrow> if is_dude_error e then Inr (Some R_EPOCH_JUMP) else Inl e
      | Inr want \<Rightarrow>
          rbind (au_current_epoch auth target layer) (\<lambda>cur.
          Inr (if want = cur + 1 then None else Some R_EPOCH_JUMP)))"

text \<open>\<^verbatim>\<open>_data_row_shape\<close>.\<close>

definition data_row_shape :: "Reader \<Rightarrow> Authoriser \<Rightarrow> Mutation \<Rightarrow> Reason option res" where
  "data_row_shape layer auth m =
     (if length (mut_name m) > MAX_NAME_BYTES then Inr (Some R_NAME_SHAPE)
      else case m of
        Del store name \<Rightarrow>
          if store = STORE_MANAGEMENT \<and> au_epoch_target auth name \<noteq> None then Inr (Some R_EPOCH_JUMP)
          else Inr None
      | Set store name value epoch \<Rightarrow>
          if store = STORE_MANAGEMENT then
            (case au_epoch_target auth name of
               None \<Rightarrow> Inr None
             | Some target \<Rightarrow> epoch_step layer auth value target)
          else if epoch = EPOCH_NONE then Inr None
          else if length name \<noteq> DIGEST_SIZE then Inr (Some R_NAME_SHAPE)
          else rbind (au_current_epoch auth store layer) (\<lambda>current.
            Inr (if epoch \<noteq> current \<and> (current < 2 \<or> epoch \<noteq> current - 1) then Some R_EPOCH else None)))"

text \<open>\<^verbatim>\<open>all(holds(layer, g) for g in step.guards)\<close>, which stops at the first that fails.\<close>

fun all_hold :: "prims \<Rightarrow> Reader \<Rightarrow> Predicate list \<Rightarrow> bool res" where
  "all_hold c reader [] = Inr True"
| "all_hold c reader (g # gs) = rbind (holds c reader g) (\<lambda>b. if b then all_hold c reader gs else Inr False)"

fun evaluate_steps ::
  "prims \<Rightarrow> nat \<Rightarrow> Authoriser \<Rightarrow> public_key \<Rightarrow> bytes \<Rightarrow> nat \<Rightarrow> Step list \<Rightarrow> Reader Overlay \<Rightarrow>
   (Verdict \<times> Reader Overlay) res" where
  "evaluate_steps c fuel auth author raw i [] layer = Inr (OK_verdict, layer)"
| "evaluate_steps c fuel auth author raw i (step # steps) layer =
     (let m = step_mutation step; view = overlay_reader fuel layer in
      rbind (au_may_write auth view author (mut_store m)) (\<lambda>may.
      if \<not> may then Inr (rejected R_AUTHORITY (Some i), layer)
      else rbind (data_row_shape view auth m) (\<lambda>shape.
        case shape of
          Some why \<Rightarrow> Inr (rejected why (Some i), layer)
        | None \<Rightarrow>
            rbind (all_hold c view (step_guards step)) (\<lambda>guard_ok.
            if \<not> guard_ok then
              if step_soft step then evaluate_steps c fuel auth author raw (i + 1) steps layer
              else Inr (rejected R_GUARD (Some i), layer)
            else rbind (ov_apply layer m raw) (\<lambda>layer'.
              evaluate_steps c fuel auth author raw (i + 1) steps layer')))))"

definition evaluate ::
  "prims \<Rightarrow> nat \<Rightarrow> Reader \<Rightarrow> SignedTransaction \<Rightarrow> Authoriser \<Rightarrow> (Verdict \<times> Reader Overlay) res" where
  "evaluate c fuel reader tx auth =
     (if \<not> stx_verify c tx then Inr (rejected R_SIGNATURE None, overlay_new reader)
      else evaluate_steps c fuel auth (stx_author tx) (stx_raw tx) 0 (stx_txn tx) (overlay_new reader))"

text \<open>\<^verbatim>\<open>vouched\<close>: the author of the credential that set the row's value.\<close>

definition vouched :: "prims \<Rightarrow> Reader \<Rightarrow> int \<Rightarrow> bytes \<Rightarrow> bytes \<Rightarrow> public_key option res" where
  "vouched c reader store name credential =
     rbind (rd_get reader store name) (\<lambda>held.
     case held of
       None \<Rightarrow> Inr None
     | Some x \<Rightarrow>
         if credential = [] then Inr None
         else case stx_decode credential of
           Inl e \<Rightarrow> if is_dude_error e then Inr None else Inl e
         | Inr cred \<Rightarrow>
             if \<not> stx_verify c cred then Inr None
             else Inr (if list_ex (\<lambda>step. case step_mutation step of
                           Set st nm v _ \<Rightarrow> st = store \<and> nm = name \<and> value_digest c v = value_digest c (held_value x)
                         | Del _ _ \<Rightarrow> False) (stx_txn cred)
                       then Some (stx_author cred) else None))"

record Reject =
  rj_tx :: SignedTransaction
  rj_verdict :: Verdict

record Screened =
  sc_survivors :: "SignedTransaction list"
  sc_rejects :: "Reject list"

text \<open>The loop of \<^verbatim>\<open>apply_to\<close>; \<open>view\<close> turns the target into the reader it is.\<close>

fun apply_to_loop ::
  "prims \<Rightarrow> nat \<Rightarrow> Authoriser \<Rightarrow> SignedTransaction list \<Rightarrow> ('r Reader_scheme, 'a) Overlay_scheme \<Rightarrow>
   digest set \<Rightarrow> SignedTransaction list \<Rightarrow> Reject list \<Rightarrow>
   (('r Reader_scheme, 'a) Overlay_scheme \<times> Screened) res" where
  "apply_to_loop c fuel auth [] target seen keep dropped =
     Inr (target, \<lparr>sc_survivors = keep, sc_rejects = dropped\<rparr>)"
| "apply_to_loop c fuel auth (tx # batch) target seen keep dropped =
     (if op_hash c tx \<in> seen then
        apply_to_loop c fuel auth batch target seen keep
          (dropped @ [\<lparr>rj_tx = tx, rj_verdict = rejected R_SETTLED None\<rparr>])
      else rbind (evaluate c fuel (overlay_reader fuel target) tx auth) (\<lambda>(verdict, layer).
        if vd_ok verdict then
          rbind (ov_absorb target layer) (\<lambda>target'.
          apply_to_loop c fuel auth batch target' (insert (op_hash c tx) seen) (keep @ [tx]) dropped)
        else apply_to_loop c fuel auth batch target seen keep
          (dropped @ [\<lparr>rj_tx = tx, rj_verdict = verdict\<rparr>])))"

definition apply_to ::
  "prims \<Rightarrow> nat \<Rightarrow> ('r Reader_scheme, 'a) Overlay_scheme \<Rightarrow> SignedTransaction list \<Rightarrow> Authoriser \<Rightarrow>
   (('r Reader_scheme, 'a) Overlay_scheme \<times> Screened) res" where
  "apply_to c fuel target batch auth = apply_to_loop c fuel auth batch target {} [] []"

definition would_apply ::
  "prims \<Rightarrow> nat \<Rightarrow> 'r Reader_scheme \<Rightarrow> SignedTransaction list \<Rightarrow> Authoriser \<Rightarrow> Screened res" where
  "would_apply c fuel reader batch auth =
     rbind (apply_to c fuel (overlay_new reader) batch auth) (\<lambda>(_, s). Inr s)"

end
