(* ===== verification/Session.thy ===== *)
theory Session
  imports Settle
begin

text \<open>
  \<^verbatim>\<open>dude/session.py\<close>: reading one store through a reader, the guards a caller may put on a
  write, and the transactions a session builds. A Python \<^verbatim>\<open>str\<close> is represented by its
  UTF-8 encoding; the substrate, which encrypts names and values of data stores and submits
  transactions over the network, is a record of functions.
\<close>

datatype name = Str (name_utf8: bytes) | Bytes (name_utf8: bytes)

record SRecord =
  rec_name :: name
  rec_store_id :: int
  rec_token :: bytes
  rec_value :: bytes
  rec_raw :: bytes
  rec_epoch :: int
  rec_absent :: bool

record Sealed =
  sl_token :: bytes
  sl_ciphertext :: bytes
  sl_epoch :: int

section \<open>Settlement results\<close>

datatype SettleResult = Settled (sr_op_hash: digest) (sr_block_num: int) (sr_block_hash: digest) | Pending | Unknown

fun settle_bval :: "SettleResult \<Rightarrow> bval" where
  "settle_bval (Settled oh n bh) = BSeq [BBytes (ascii ''settled''), BBytes oh, BInt n, BBytes bh]"
| "settle_bval Pending = BSeq [BBytes (ascii ''pending'')]"
| "settle_bval Unknown = BSeq [BBytes (ascii ''unknown'')]"

definition settle_encode :: "SettleResult \<Rightarrow> bytes" where
  "settle_encode r = benc (settle_bval r)"

text \<open>\<^verbatim>\<open>parts[0]\<close> of an empty sequence raises \<^verbatim>\<open>IndexError\<close>.\<close>

definition settle_decode :: "bytes \<Rightarrow> SettleResult res" where
  "settle_decode raw =
     rbind (decode_seq raw None) (\<lambda>parts.
     if parts = [] then Inl IndexError
     else rbind (as_bytes (parts ! 0)) (\<lambda>tag.
       if tag = ascii ''settled'' then
         rbind (decode_seq raw (Some 4)) (\<lambda>p.
         rbind (rbind (as_bytes (p ! 1)) Digest) (\<lambda>oh.
         rbind (as_int (p ! 2)) (\<lambda>n.
         rbind (rbind (as_bytes (p ! 3)) Digest) (\<lambda>bh. Inr (Settled oh n bh)))))
       else if tag = ascii ''pending'' then Inr Pending
       else if tag = ascii ''unknown'' then Inr Unknown
       else Inl SessionError))"

fun settle_ok :: "SettleResult \<Rightarrow> bool" where
  "settle_ok (Settled oh n bh) \<longleftrightarrow>
     length oh = DIGEST_SIZE \<and> length bh = DIGEST_SIZE \<and> bencodable (settle_bval (Settled oh n bh))"
| "settle_ok r = bencodable (settle_bval r)"

interpretation settle_wire: wire settle_encode settle_decode settle_ok
proof unfold_locales
  fix r assume "settle_ok r"
  then show "settle_decode (settle_encode r) = Inr r"
    by (cases r) (simp_all add: settle_encode_def settle_decode_def)
qed

section \<open>Sessions\<close>

record Session =
  se_reader :: Reader
  se_store_id :: int

definition session_token :: "Session \<Rightarrow> name \<Rightarrow> bool \<Rightarrow> bytes res" where
  "session_token s nm plaintext =
     (if se_store_id s = STORE_MANAGEMENT \<or> plaintext then Inr (name_utf8 nm) else Inl SessionError)"

definition session_seal :: "Session \<Rightarrow> name \<Rightarrow> bytes \<Rightarrow> bool \<Rightarrow> Sealed res" where
  "session_seal s nm value plaintext =
     (if se_store_id s = STORE_MANAGEMENT \<or> plaintext
      then rbind (session_token s nm True) (\<lambda>t. Inr \<lparr>sl_token = t, sl_ciphertext = value, sl_epoch = EPOCH_NONE\<rparr>)
      else Inl SessionError)"

definition session_decrypt :: "Session \<Rightarrow> name \<Rightarrow> bytes \<Rightarrow> int \<Rightarrow> bytes res" where
  "session_decrypt s nm ciphertext epoch =
     (if se_store_id s = STORE_MANAGEMENT \<or> epoch = EPOCH_NONE then Inr ciphertext else Inl SessionError)"

text \<open>\<^verbatim>\<open>get\<close>, over the class's own \<^verbatim>\<open>token\<close> and \<^verbatim>\<open>_decrypt\<close>.\<close>

definition get_record ::
  "Session \<Rightarrow> (name \<Rightarrow> bool \<Rightarrow> bytes res) \<Rightarrow> (name \<Rightarrow> bytes \<Rightarrow> int \<Rightarrow> bytes res) \<Rightarrow> name \<Rightarrow> bool \<Rightarrow> SRecord res" where
  "get_record s token decrypt nm plaintext =
     rbind (token nm plaintext) (\<lambda>t.
     rbind (rd_get (se_reader s) (se_store_id s) t) (\<lambda>raw.
     case raw of
       None \<Rightarrow> Inr \<lparr>rec_name = nm, rec_store_id = se_store_id s, rec_token = t, rec_value = [], rec_raw = [],
                   rec_epoch = 0, rec_absent = True\<rparr>
     | Some x \<Rightarrow>
         rbind (decrypt nm (held_value x) (held_epoch x)) (\<lambda>v.
         Inr \<lparr>rec_name = nm, rec_store_id = se_store_id s, rec_token = t, rec_value = v,
             rec_raw = held_value x, rec_epoch = held_epoch x, rec_absent = False\<rparr>)))"

definition session_get :: "Session \<Rightarrow> name \<Rightarrow> bool \<Rightarrow> SRecord res" where
  "session_get s nm plaintext = get_record s (session_token s) (session_decrypt s) nm plaintext"

definition session_anchor :: "Session \<Rightarrow> public_key res" where
  "session_anchor s = rd_anchor (se_reader s)"

definition session_count_prefix :: "Session \<Rightarrow> bytes \<Rightarrow> int res" where
  "session_count_prefix s pfx = rd_count_prefix (se_reader s) (se_store_id s) pfx"

definition session_nth_prefix :: "Session \<Rightarrow> bytes \<Rightarrow> int \<Rightarrow> bool \<Rightarrow> (bytes \<times> Held) option res" where
  "session_nth_prefix s pfx n descending = rd_nth_prefix (se_reader s) (se_store_id s) pfx n descending"

section \<open>Guards\<close>

datatype expectation = NoExpect | ExpectOne SRecord | ExpectAny "SRecord list"

record GuardOpts =
  go_expect :: expectation
  go_guards :: "Predicate list" \<comment> \<open>a single predicate is a list of one\<close>
  go_absent :: "bool option"
  go_exists :: "bool option"
  go_soft :: bool

definition no_opts :: GuardOpts where
  "no_opts = \<lparr>go_expect = NoExpect, go_guards = [], go_absent = None, go_exists = None, go_soft = False\<rparr>"

definition expect_guards :: "prims \<Rightarrow> int \<Rightarrow> bytes \<Rightarrow> expectation \<Rightarrow> Predicate list res" where
  "expect_guards c store_id token e =
     (case e of
        NoExpect \<Rightarrow> Inr []
      | ExpectOne r \<Rightarrow>
          if rec_absent r then Inl SessionError else Inr [Holds store_id token (value_digest c (rec_raw r))]
      | ExpectAny rs \<Rightarrow>
          rbind (mapM (\<lambda>r. if rec_absent r then Inl SessionError else Inr (value_digest c (rec_raw r))) rs)
            (\<lambda>ds. Inr [HoldsAny store_id token ds]))"

definition collect_guards :: "prims \<Rightarrow> int \<Rightarrow> bytes \<Rightarrow> GuardOpts \<Rightarrow> Predicate list res" where
  "collect_guards c store_id token opts =
     (if go_absent opts \<noteq> None \<and> go_exists opts \<noteq> None \<and> go_absent opts = go_exists opts then Inl SessionError
      else rbind (expect_guards c store_id token (go_expect opts)) (\<lambda>ex.
        Inr (go_guards opts @ ex @
          (if go_absent opts = Some True \<or> go_exists opts = Some False then [Absent store_id token]
           else if go_absent opts = Some False \<or> go_exists opts = Some True then [Exists store_id token]
           else []))))"

definition build_step :: "prims \<Rightarrow> Mutation \<Rightarrow> GuardOpts \<Rightarrow> Step res" where
  "build_step c m opts =
     rbind (collect_guards c (mut_store m) (mut_name m) opts) (\<lambda>gs.
     Inr \<lparr>step_guards = gs, step_mutation = m, step_soft = go_soft opts\<rparr>)"

section \<open>Writable sessions\<close>

record Substrate = Reader +
  sub_token :: "int \<Rightarrow> bytes \<Rightarrow> bytes res"
  sub_seal :: "int \<Rightarrow> bytes \<Rightarrow> bytes \<Rightarrow> Sealed res"
  sub_decrypt :: "int \<Rightarrow> bytes \<Rightarrow> bytes \<Rightarrow> int \<Rightarrow> bytes res"

record SessionRW =
  rw_sub :: Substrate
  rw_store_id :: int

definition rw_session :: "SessionRW \<Rightarrow> Session" where
  "rw_session s = \<lparr>se_reader = Reader.truncate (rw_sub s), se_store_id = rw_store_id s\<rparr>"

definition rw_token :: "SessionRW \<Rightarrow> name \<Rightarrow> bool \<Rightarrow> bytes res" where
  "rw_token s nm plaintext =
     (if rw_store_id s = STORE_MANAGEMENT \<or> plaintext then Inr (name_utf8 nm)
      else case nm of Bytes _ \<Rightarrow> Inl SessionError | Str u \<Rightarrow> sub_token (rw_sub s) (rw_store_id s) u)"

definition rw_seal :: "SessionRW \<Rightarrow> name \<Rightarrow> bytes \<Rightarrow> bool \<Rightarrow> Sealed res" where
  "rw_seal s nm value plaintext =
     (if rw_store_id s = STORE_MANAGEMENT \<or> plaintext
      then rbind (rw_token s nm True) (\<lambda>t. Inr \<lparr>sl_token = t, sl_ciphertext = value, sl_epoch = EPOCH_NONE\<rparr>)
      else case nm of Bytes _ \<Rightarrow> Inl SessionError | Str u \<Rightarrow> sub_seal (rw_sub s) (rw_store_id s) u value)"

definition rw_decrypt :: "SessionRW \<Rightarrow> name \<Rightarrow> bytes \<Rightarrow> int \<Rightarrow> bytes res" where
  "rw_decrypt s nm ciphertext epoch =
     (if rw_store_id s = STORE_MANAGEMENT \<or> epoch = EPOCH_NONE then Inr ciphertext
      else case nm of Bytes _ \<Rightarrow> Inl SessionError
        | Str u \<Rightarrow> sub_decrypt (rw_sub s) (rw_store_id s) u ciphertext epoch)"

definition rw_get :: "SessionRW \<Rightarrow> name \<Rightarrow> bool \<Rightarrow> SRecord res" where
  "rw_get s nm plaintext = get_record (rw_session s) (rw_token s) (rw_decrypt s) nm plaintext"

text \<open>The step \<^verbatim>\<open>put\<close> and \<^verbatim>\<open>delete\<close> submit, alone or as part of a \<^verbatim>\<open>TxBuilder\<close>.\<close>

definition rw_put_step :: "prims \<Rightarrow> SessionRW \<Rightarrow> bytes \<Rightarrow> bytes \<Rightarrow> bool \<Rightarrow> GuardOpts \<Rightarrow> Step res" where
  "rw_put_step c s nm value plaintext opts =
     rbind (rw_seal s (Str nm) value plaintext) (\<lambda>sealed.
     build_step c (Set (rw_store_id s) (sl_token sealed) (sl_ciphertext sealed) (sl_epoch sealed)) opts)"

definition rw_delete_step :: "prims \<Rightarrow> SessionRW \<Rightarrow> bytes \<Rightarrow> bool \<Rightarrow> GuardOpts \<Rightarrow> Step res" where
  "rw_delete_step c s nm plaintext opts =
     rbind (rw_token s (Str nm) plaintext) (\<lambda>t. build_step c (Del (rw_store_id s) t) opts)"

definition builder_put :: "prims \<Rightarrow> SessionRW \<Rightarrow> Step list \<Rightarrow> bytes \<Rightarrow> bytes \<Rightarrow> bool \<Rightarrow> GuardOpts \<Rightarrow> Step list res" where
  "builder_put c s steps nm value plaintext opts =
     rbind (rw_put_step c s nm value plaintext opts) (\<lambda>st. Inr (steps @ [st]))"

definition builder_delete :: "prims \<Rightarrow> SessionRW \<Rightarrow> Step list \<Rightarrow> bytes \<Rightarrow> bool \<Rightarrow> GuardOpts \<Rightarrow> Step list res" where
  "builder_delete c s steps nm plaintext opts =
     rbind (rw_delete_step c s nm plaintext opts) (\<lambda>st. Inr (steps @ [st]))"

definition builder_as_tx :: "Step list \<Rightarrow> Transaction res" where
  "builder_as_tx steps = (if steps = [] then Inl SessionError else Inr steps)"

end
