(* ===== verification/Managed_Map.thy ===== *)
theory Managed_Map
  imports Session
begin

text \<open>
  \<^verbatim>\<open>dude/ds/managed_map.py\<close>: a map kept in rows of one store, with a meta row (count and
  key accumulator), an index row per slot and an entry row per key. A removal moves the last key
  into the freed slot. Reads go through a session; writes are transactions the caller submits.
\<close>

record MapMeta =
  mm_count :: int
  mm_acc :: accumulator
  mm_raw :: bytes

record MapEntry =
  me_index :: int
  me_value :: bytes
  me_raw :: bytes

text \<open>\<^verbatim>\<open>MapAcc\<close>: an accumulator of keys under a prefix.\<close>

definition macc_element :: "prims \<Rightarrow> bytes \<Rightarrow> bytes \<Rightarrow> accumulator" where
  "macc_element c pfx key = acc_element c (benc (BSeq [BBytes pfx, BBytes key]))"

definition macc_init :: "accumulator option \<Rightarrow> accumulator" where
  "macc_init acc = (case acc of None \<Rightarrow> ACC_IDENTITY | Some a \<Rightarrow> a)"

definition macc_add :: "prims \<Rightarrow> bytes \<Rightarrow> accumulator \<Rightarrow> bytes \<Rightarrow> accumulator" where
  "macc_add c pfx acc key = acc_add c acc (macc_element c pfx key)"

definition macc_sub :: "prims \<Rightarrow> bytes \<Rightarrow> accumulator \<Rightarrow> bytes \<Rightarrow> accumulator" where
  "macc_sub c pfx acc key = acc_sub c acc (macc_element c pfx key)"

definition meta_encode :: "int \<Rightarrow> accumulator \<Rightarrow> bytes" where
  "meta_encode n acc = benc (BSeq [BInt n, BBytes acc])"

definition meta_decode :: "bytes \<Rightarrow> MapMeta res" where
  "meta_decode raw =
     rbind (decode_seq raw (Some 2)) (\<lambda>p.
     rbind (as_int (p ! 0)) (\<lambda>n.
     rbind (rbind (as_bytes (p ! 1)) Accumulator) (\<lambda>a.
     Inr \<lparr>mm_count = n, mm_acc = a, mm_raw = raw\<rparr>)))"

definition entry_encode :: "int \<Rightarrow> bytes \<Rightarrow> bytes" where
  "entry_encode index value = benc (BSeq [BInt index, BBytes value])"

definition entry_decode :: "bytes \<Rightarrow> MapEntry res" where
  "entry_decode raw =
     rbind (decode_seq raw (Some 2)) (\<lambda>p.
     rbind (as_int (p ! 0)) (\<lambda>i.
     rbind (as_bytes (p ! 1)) (\<lambda>v.
     Inr \<lparr>me_index = i, me_value = v, me_raw = raw\<rparr>)))"

section \<open>Reads\<close>

definition meta_name :: "bytes \<Rightarrow> bytes" where
  "meta_name pfx = pfx @ [0]"

definition index_name :: "bytes \<Rightarrow> int \<Rightarrow> bytes res" where
  "index_name pfx idx = rbind (to_bytes 4 idx) (\<lambda>b. Inr (pfx @ [1] @ b))"

definition entry_name :: "bytes \<Rightarrow> bytes \<Rightarrow> bytes" where
  "entry_name pfx key = pfx @ [2] @ key"

definition mmap_get :: "Session \<Rightarrow> bytes \<Rightarrow> bytes option res" where
  "mmap_get s nm =
     rbind (session_get s (Bytes nm) False) (\<lambda>r. Inr (if rec_absent r then None else Some (rec_value r)))"

definition mmap_meta :: "Session \<Rightarrow> bytes \<Rightarrow> MapMeta option res" where
  "mmap_meta s pfx =
     rbind (mmap_get s (meta_name pfx)) (\<lambda>raw.
     case raw of None \<Rightarrow> Inr None | Some r \<Rightarrow> rbind (meta_decode r) (\<lambda>m. Inr (Some m)))"

definition mmap_entry :: "Session \<Rightarrow> bytes \<Rightarrow> bytes \<Rightarrow> MapEntry option res" where
  "mmap_entry s pfx key =
     rbind (mmap_get s (entry_name pfx key)) (\<lambda>raw.
     case raw of
       None \<Rightarrow> Inr None
     | Some r \<Rightarrow> recover (\<lambda>e. is_dude_error e \<or> e = ValueError \<or> e = IndexError) None
                   (rbind (entry_decode r) (\<lambda>m. Inr (Some m))))"

definition mmap_key_at :: "Session \<Rightarrow> bytes \<Rightarrow> int \<Rightarrow> bytes option res" where
  "mmap_key_at s pfx idx = rbind (index_name pfx idx) (mmap_get s)"

definition mmap_count :: "Session \<Rightarrow> bytes \<Rightarrow> int res" where
  "mmap_count s pfx = rbind (mmap_meta s pfx) (\<lambda>m. Inr (case m of None \<Rightarrow> 0 | Some x \<Rightarrow> mm_count x))"

definition mmap_keys :: "Session \<Rightarrow> bytes \<Rightarrow> bytes list res" where
  "mmap_keys s pfx =
     rbind (mmap_meta s pfx) (\<lambda>m.
     case m of
       None \<Rightarrow> Inr []
     | Some x \<Rightarrow>
         rbind (mapM (\<lambda>i. mmap_key_at s pfx (int i)) [0..<nat (mm_count x)]) (\<lambda>ks.
         Inr (List.map_filter (\<lambda>k. k) ks)))"

definition mmap_items :: "Session \<Rightarrow> bytes \<Rightarrow> (bytes \<times> bytes) list res" where
  "mmap_items s pfx =
     rbind (mmap_keys s pfx) (\<lambda>ks.
     rbind (mapM (\<lambda>k. rbind (mmap_entry s pfx k) (\<lambda>e. Inr (map_option (\<lambda>x. (k, me_value x)) e))) ks) (\<lambda>es.
     Inr (List.map_filter (\<lambda>e. e) es)))"

section \<open>Writes\<close>

definition plain_step :: "Predicate list \<Rightarrow> Mutation \<Rightarrow> Step" where
  "plain_step gs m = \<lparr>step_guards = gs, step_mutation = m, step_soft = False\<rparr>"

text \<open>A \<^verbatim>\<open>Set\<close> with the default epoch.\<close>

abbreviation SetP :: "int \<Rightarrow> bytes \<Rightarrow> bytes \<Rightarrow> Mutation" where
  "SetP s nm v \<equiv> Set s nm v EPOCH_NONE"

definition meta_guard :: "prims \<Rightarrow> int \<Rightarrow> bytes \<Rightarrow> MapMeta option \<Rightarrow> Predicate" where
  "meta_guard c s pfx current =
     (case current of
        Some m \<Rightarrow> Holds s (meta_name pfx) (value_digest c (mm_raw m))
      | None \<Rightarrow> Absent s (meta_name pfx))"

definition tx_add_key :: "prims \<Rightarrow> int \<Rightarrow> bytes \<Rightarrow> bytes \<Rightarrow> bytes \<Rightarrow> MapMeta option \<Rightarrow> Transaction res" where
  "tx_add_key c s pfx key value current =
     (let n = (case current of None \<Rightarrow> 0 | Some m \<Rightarrow> mm_count m);
          new_acc = macc_add c pfx (macc_init (map_option mm_acc current)) key
      in rbind (index_name pfx n) (\<lambda>ix.
         Inr [plain_step [meta_guard c s pfx current] (SetP s (meta_name pfx) (meta_encode (n + 1) new_acc)),
              plain_step [] (SetP s ix key),
              plain_step [Absent s (entry_name pfx key)] (SetP s (entry_name pfx key) (entry_encode n value))]))"

definition tx_remove_key ::
  "prims \<Rightarrow> int \<Rightarrow> bytes \<Rightarrow> bytes \<Rightarrow> MapMeta \<Rightarrow> MapEntry \<Rightarrow> bytes \<Rightarrow> MapEntry \<Rightarrow> Transaction res" where
  "tx_remove_key c s pfx key current victim last_key last_entry =
     (let last_idx = mm_count current - 1;
          new_acc = macc_sub c pfx (mm_acc current) key
      in rbind (index_name pfx last_idx) (\<lambda>lix.
         let steps = [plain_step [Holds s (meta_name pfx) (value_digest c (mm_raw current))]
                        (SetP s (meta_name pfx) (meta_encode last_idx new_acc)),
                      plain_step [] (Del s (entry_name pfx key)),
                      plain_step [] (Del s lix)]
         in if me_index victim \<noteq> last_idx then
              rbind (index_name pfx (me_index victim)) (\<lambda>vix.
              Inr (steps @
                [plain_step [] (SetP s vix last_key),
                 plain_step [] (SetP s (entry_name pfx last_key) (entry_encode (me_index victim) (me_value last_entry)))]))
            else Inr steps))"

definition tx_update_key :: "prims \<Rightarrow> int \<Rightarrow> bytes \<Rightarrow> bytes \<Rightarrow> bytes \<Rightarrow> MapEntry \<Rightarrow> Transaction" where
  "tx_update_key c s pfx key new_value current =
     [plain_step [Holds s (entry_name pfx key) (value_digest c (me_raw current))]
        (SetP s (entry_name pfx key) (entry_encode (me_index current) new_value))]"

definition tx_add_entry :: "int \<Rightarrow> bytes \<Rightarrow> bytes \<Rightarrow> bytes \<Rightarrow> int \<Rightarrow> Transaction res" where
  "tx_add_entry s pfx key value index =
     rbind (index_name pfx index) (\<lambda>ix.
     Inr [plain_step [] (SetP s ix key),
          plain_step [Absent s (entry_name pfx key)] (SetP s (entry_name pfx key) (entry_encode index value))])"

definition tx_meta_write :: "prims \<Rightarrow> int \<Rightarrow> bytes \<Rightarrow> int \<Rightarrow> accumulator \<Rightarrow> MapMeta option \<Rightarrow> Transaction" where
  "tx_meta_write c s pfx new_count new_acc current =
     [plain_step [meta_guard c s pfx current] (SetP s (meta_name pfx) (meta_encode new_count new_acc))]"

fun batch_add_loop ::
  "prims \<Rightarrow> int \<Rightarrow> bytes \<Rightarrow> (bytes \<times> bytes) list \<Rightarrow> int \<Rightarrow> accumulator \<Rightarrow> Transaction \<Rightarrow>
   (Transaction \<times> int \<times> accumulator) res" where
  "batch_add_loop c s pfx [] n acc tx = Inr (tx, n, acc)"
| "batch_add_loop c s pfx ((key, value) # es) n acc tx =
     rbind (tx_add_entry s pfx key value n) (\<lambda>t.
     batch_add_loop c s pfx es (n + 1) (macc_add c pfx acc key) (tx_add tx t))"

definition batch_add :: "prims \<Rightarrow> Session \<Rightarrow> bytes \<Rightarrow> (bytes \<times> bytes) list \<Rightarrow> Transaction res" where
  "batch_add c s pfx entries =
     rbind (mmap_meta s pfx) (\<lambda>meta.
     rbind (batch_add_loop c (se_store_id s) pfx entries
              (case meta of None \<Rightarrow> 0 | Some m \<Rightarrow> mm_count m) (macc_init (map_option mm_acc meta)) [])
       (\<lambda>(tx, n, acc). Inr (tx_add tx (tx_meta_write c (se_store_id s) pfx n acc meta))))"

definition mmap_add :: "prims \<Rightarrow> Session \<Rightarrow> bytes \<Rightarrow> bytes \<Rightarrow> bytes \<Rightarrow> Transaction res" where
  "mmap_add c s pfx key value =
     rbind (mmap_meta s pfx) (\<lambda>m. tx_add_key c (se_store_id s) pfx key value m)"

definition mmap_remove :: "prims \<Rightarrow> Session \<Rightarrow> bytes \<Rightarrow> bytes \<Rightarrow> Transaction res" where
  "mmap_remove c s pfx key =
     rbind (mmap_meta s pfx) (\<lambda>m.
     case m of
       None \<Rightarrow> Inl ManagedMapError
     | Some meta \<Rightarrow>
     rbind (mmap_entry s pfx key) (\<lambda>v.
     case v of
       None \<Rightarrow> Inl ManagedMapError
     | Some victim \<Rightarrow>
     rbind (mmap_key_at s pfx (mm_count meta - 1)) (\<lambda>lk.
     case lk of
       None \<Rightarrow> Inl ManagedMapError
     | Some last_key \<Rightarrow>
     rbind (mmap_entry s pfx last_key) (\<lambda>le.
     case le of
       None \<Rightarrow> Inl ManagedMapError
     | Some last_entry \<Rightarrow> tx_remove_key c (se_store_id s) pfx key meta victim last_key last_entry))))"

definition mmap_update :: "prims \<Rightarrow> Session \<Rightarrow> bytes \<Rightarrow> bytes \<Rightarrow> bytes \<Rightarrow> Transaction res" where
  "mmap_update c s pfx key new_value =
     rbind (mmap_entry s pfx key) (\<lambda>e.
     case e of
       None \<Rightarrow> Inl ManagedMapError
     | Some current \<Rightarrow> Inr (tx_update_key c (se_store_id s) pfx key new_value current))"

end
