(* ===== verification/Address.thy ===== *)
theory Address
  imports Wire "HOL-Library.AList"
begin

text \<open>
  \<^verbatim>\<open>dude/net/address.py\<close>: addresses and endpoints and their textual and bencoded forms. A
  Python \<^verbatim>\<open>str\<close> is its UTF-8 encoding, so \<^verbatim>\<open>value.decode()\<close> is a check that the bytes
  are UTF-8.
\<close>

datatype Scheme = INPROC | UNIX | TCP | ONION

fun scheme_value :: "Scheme \<Rightarrow> bytes" where
  "scheme_value INPROC = ascii ''inproc''"
| "scheme_value UNIX = ascii ''unix''"
| "scheme_value TCP = ascii ''tcp''"
| "scheme_value ONION = ascii ''onion''"

text \<open>\<^verbatim>\<open>Scheme(raw)\<close>.\<close>

definition scheme_of :: "bytes \<Rightarrow> Scheme res" where
  "scheme_of raw =
     (case find (\<lambda>s. scheme_value s = raw) [INPROC, UNIX, TCP, ONION] of
        Some s \<Rightarrow> Inr s | None \<Rightarrow> Inl ValueError)"

definition utf8_cont :: "byte \<Rightarrow> bool" where
  "utf8_cont b \<longleftrightarrow> 128 \<le> b \<and> b \<le> 191"

fun utf8_valid :: "bytes \<Rightarrow> bool" where
  "utf8_valid [] = True"
| "utf8_valid (a # bs) =
     (if a < 128 then utf8_valid bs
      else if 194 \<le> a \<and> a \<le> 223 then
        (case bs of b # rest \<Rightarrow> utf8_cont b \<and> utf8_valid rest | _ \<Rightarrow> False)
      else if 224 \<le> a \<and> a \<le> 239 then
        (case bs of b # d # rest \<Rightarrow>
           utf8_cont b \<and> (a = 224 \<longrightarrow> 160 \<le> b) \<and> (a = 237 \<longrightarrow> b \<le> 159) \<and> utf8_cont d \<and> utf8_valid rest
         | _ \<Rightarrow> False)
      else if 240 \<le> a \<and> a \<le> 244 then
        (case bs of b # d # e # rest \<Rightarrow>
           utf8_cont b \<and> (a = 240 \<longrightarrow> 144 \<le> b) \<and> (a = 244 \<longrightarrow> b \<le> 143) \<and> utf8_cont d \<and> utf8_cont e \<and> utf8_valid rest
         | _ \<Rightarrow> False)
      else False)"

record Address =
  ad_scheme :: Scheme
  ad_value :: bytes

definition address_encode :: "Address \<Rightarrow> bytes" where
  "address_encode a = scheme_value (ad_scheme a) @ [58] @ ad_value a"

text \<open>\<^verbatim>\<open>raw.partition(b":")\<close>.\<close>

definition partition_colon :: "bytes \<Rightarrow> bytes \<times> bool \<times> bytes" where
  "partition_colon raw =
     (takeWhile (\<lambda>b. b \<noteq> 58) raw, dropWhile (\<lambda>b. b \<noteq> 58) raw \<noteq> [], drop 1 (dropWhile (\<lambda>b. b \<noteq> 58) raw))"

definition address_parse :: "bytes \<Rightarrow> Address res" where
  "address_parse raw =
     (let (scheme, sep, value) = partition_colon raw in
      if \<not> sep then Inl AddressError
      else case scheme_of scheme of
        Inl _ \<Rightarrow> Inl AddressError
      | Inr s \<Rightarrow> if utf8_valid value then Inr \<lparr>ad_scheme = s, ad_value = value\<rparr> else Inl AddressError)"

definition parse_all :: "bytes list \<Rightarrow> Address list" where
  "parse_all raws = List.map_filter (\<lambda>raw. case address_parse raw of Inr a \<Rightarrow> Some a | Inl _ \<Rightarrow> None) raws"

interpretation address_wire: wire address_encode address_parse "\<lambda>a. utf8_valid (ad_value a)"
proof unfold_locales
  fix a :: Address assume "utf8_valid (ad_value a)"
  moreover have "address_encode a = scheme_value (ad_scheme a) @ 58 # ad_value a"
    by (simp add: address_encode_def)
  moreover have colon: "58 \<notin> set (scheme_value (ad_scheme a))" by (cases "ad_scheme a") simp_all
  moreover have "scheme_of (scheme_value (ad_scheme a)) = Inr (ad_scheme a)"
    by (cases "ad_scheme a") (simp_all add: scheme_of_def)
  moreover from colon have "partition_colon (scheme_value (ad_scheme a) @ 58 # ad_value a)
      = (scheme_value (ad_scheme a), True, ad_value a)"
    by (auto simp: partition_colon_def takeWhile_eq_all_conv dropWhile_append takeWhile_append)
  ultimately show "address_parse (address_encode a) = Inr a"
    by (simp add: address_parse_def)
qed

section \<open>Endpoints\<close>

text \<open>The options are a dict; its items are kept sorted by key, as \<^verbatim>\<open>encode\<close> writes them.\<close>

record Endpoint =
  ep_address :: Address
  ep_options :: "(bytes \<times> bytes) list"

definition endpoint_bval :: "Endpoint \<Rightarrow> bval" where
  "endpoint_bval e =
     BSeq [BBytes (address_encode (ep_address e)),
           BDict (map (\<lambda>(k, v). (k, BBytes v)) (sort_key fst (ep_options e)))]"

definition endpoint_encode :: "Endpoint \<Rightarrow> bytes" where
  "endpoint_encode e = benc (endpoint_bval e)"

definition endpoint_parse :: "bytes \<Rightarrow> Endpoint res" where
  "endpoint_parse raw =
     (case decode raw of
        Inl e \<Rightarrow> if e = CodecError
          then rbind (address_parse raw) (\<lambda>a. Inr \<lparr>ep_address = a, ep_options = []\<rparr>) else Inl e
      | Inr (BBytes b) \<Rightarrow> rbind (address_parse b) (\<lambda>a. Inr \<lparr>ep_address = a, ep_options = []\<rparr>)
      | Inr v \<Rightarrow>
          rbind (as_seq v (Some 2)) (\<lambda>f.
          rbind (as_dict (f ! 1)) (\<lambda>opts.
          rbind (mapM (\<lambda>(k, x). rbind (as_bytes x) (\<lambda>b. Inr (k, b))) opts) (\<lambda>parsed.
          rbind (rbind (as_bytes (f ! 0)) address_parse) (\<lambda>a.
          Inr \<lparr>ep_address = a, ep_options = parsed\<rparr>)))))"

definition endpoint_option :: "Endpoint \<Rightarrow> bytes \<Rightarrow> bytes \<Rightarrow> bytes" where
  "endpoint_option e key dflt = (case map_of (ep_options e) key of None \<Rightarrow> dflt | Some v \<Rightarrow> v)"

definition endpoints :: "bytes list \<Rightarrow> Endpoint list res" where
  "endpoints raws =
     rbind (mapM (\<lambda>raw. case endpoint_parse raw of
         Inr e \<Rightarrow> Inr (Some e)
       | Inl x \<Rightarrow> if x = AddressError \<or> x = CodecError then Inr None else Inl x) raws)
       (\<lambda>es. Inr (List.map_filter (\<lambda>e. e) es))"

definition endpoint_ok :: "Endpoint \<Rightarrow> bool" where
  "endpoint_ok e \<longleftrightarrow>
     utf8_valid (ad_value (ep_address e)) \<and> sorted_wrt (<) (map fst (ep_options e)) \<and> bencodable (endpoint_bval e)"

lemma mapM_options: "mapM (\<lambda>(k, x). rbind (as_bytes x) (\<lambda>b. Inr (k, b))) (map (\<lambda>(k, v). (k, BBytes v)) xs) = Inr xs"
  by (induction xs) auto

interpretation endpoint_wire: wire endpoint_encode endpoint_parse endpoint_ok
proof unfold_locales
  fix e :: Endpoint assume ok: "endpoint_ok e"
  then have "sorted (map fst (ep_options e))"
    by (auto simp: endpoint_ok_def intro: sorted_wrt_mono_rel[of _ "(<)" "(\<le>)"])
  then have s: "sort_key fst (ep_options e) = ep_options e" by (rule sort_key_id_if_sorted)
  show "endpoint_parse (endpoint_encode e) = Inr e"
    using ok by (simp add: endpoint_parse_def endpoint_encode_def endpoint_ok_def decode_benc)
      (simp add: endpoint_bval_def s mapM_options address_wire.dec_enc)
qed

end
