(* ===== verification/Management.thy ===== *)
theory Management
  imports Managed_Map Address
begin

text \<open>
  \<^verbatim>\<open>dude/store/management.py\<close>: the rows of the management store. Certificates, quorum
  authorisations, node records, the roster commitment and grants with their encodings; the reader
  that answers who may do what, which is the authoriser settlement uses; and the writer that
  composes the transactions of the managers.
\<close>

section \<open>Roles and certificates\<close>

datatype Role = MANAGER | CLIENT_RO | CLIENT_RW | COMPACTOR

fun role_value :: "Role \<Rightarrow> bytes" where
  "role_value MANAGER = ascii ''manager''"
| "role_value CLIENT_RO = ascii ''client_ro''"
| "role_value CLIENT_RW = ascii ''client_rw''"
| "role_value COMPACTOR = ascii ''compactor''"

text \<open>\<^verbatim>\<open>Role(raw)\<close>, with its \<^verbatim>\<open>ValueError\<close> turned into a \<^verbatim>\<open>ManagementError\<close>.\<close>

definition role_of :: "bytes \<Rightarrow> Role res" where
  "role_of raw =
     (case find (\<lambda>r. role_value r = raw) [MANAGER, CLIENT_RO, CLIENT_RW, COMPACTOR] of
        Some r \<Rightarrow> Inr r | None \<Rightarrow> Inl ManagementError)"

definition CERT_DOMAIN :: bytes where "CERT_DOMAIN = ascii ''dude.management.cert:''"
definition CERT_PURPOSE_ROSTER :: bytes where "CERT_PURPOSE_ROSTER = ascii ''roster''"
definition CERT_PURPOSE_ROSTER_COMMITMENT :: bytes where
  "CERT_PURPOSE_ROSTER_COMMITMENT = ascii ''roster_commitment''"

record Cert =
  ct_signer :: public_key
  ct_subject :: bytes
  ct_purpose :: bytes
  ct_sig :: signature

definition cert_message :: "bytes \<Rightarrow> bytes \<Rightarrow> bytes" where
  "cert_message purpose subject = CERT_DOMAIN @ purpose @ ascii '':'' @ subject"

definition cert_sign :: "prims \<Rightarrow> seed \<Rightarrow> bytes \<Rightarrow> bytes \<Rightarrow> Cert" where
  "cert_sign c signer subject purpose =
     \<lparr>ct_signer = kp_public c signer, ct_subject = subject, ct_purpose = purpose,
      ct_sig = kp_sign c signer (cert_message purpose subject)\<rparr>"

definition sign_grant :: "prims \<Rightarrow> seed \<Rightarrow> public_key \<Rightarrow> Role \<Rightarrow> Cert" where
  "sign_grant c signer subject role = cert_sign c signer subject (role_value role)"

definition sign_roster :: "prims \<Rightarrow> seed \<Rightarrow> public_key \<Rightarrow> Cert" where
  "sign_roster c signer subject = cert_sign c signer subject CERT_PURPOSE_ROSTER"

definition sign_roster_commitment :: "prims \<Rightarrow> seed \<Rightarrow> bytes \<Rightarrow> Cert" where
  "sign_roster_commitment c signer commitment_bytes =
     cert_sign c signer (h c commitment_bytes) CERT_PURPOSE_ROSTER_COMMITMENT"

definition cert_verify :: "prims \<Rightarrow> Cert \<Rightarrow> bool" where
  "cert_verify c ct = pk_verify c (ct_signer ct) (cert_message (ct_purpose ct) (ct_subject ct)) (ct_sig ct)"

definition cert_bval :: "Cert \<Rightarrow> bval" where
  "cert_bval ct = BSeq [BBytes (ct_signer ct), BBytes (ct_subject ct), BBytes (ct_purpose ct), BBytes (ct_sig ct)]"

definition cert_encode :: "Cert \<Rightarrow> bytes" where
  "cert_encode ct = benc (cert_bval ct)"

definition cert_decode :: "bytes \<Rightarrow> Cert res" where
  "cert_decode raw =
     rewrap is_dude_error ManagementError
       (rbind (decode_seq raw (Some 4)) (\<lambda>p.
        rbind (rbind (as_bytes (p ! 0)) PublicKey) (\<lambda>signer.
        rbind (as_bytes (p ! 1)) (\<lambda>subject.
        rbind (as_bytes (p ! 2)) (\<lambda>purpose.
        rbind (rbind (as_bytes (p ! 3)) Signature) (\<lambda>sig.
        Inr \<lparr>ct_signer = signer, ct_subject = subject, ct_purpose = purpose, ct_sig = sig\<rparr>))))))"

definition cert_ok :: "Cert \<Rightarrow> bool" where
  "cert_ok ct \<longleftrightarrow> length (ct_signer ct) = KEY_SIZE \<and> length (ct_sig ct) = SIG_SIZE \<and> bencodable (cert_bval ct)"

interpretation cert_wire: wire cert_encode cert_decode cert_ok
  by unfold_locales (simp add: cert_encode_def cert_decode_def cert_ok_def cert_bval_def)

section \<open>Quorum authorisation\<close>

record Authorization =
  az_multisig :: MultiSig
  az_payload :: bytes
  az_roster :: "public_key list"
  az_anchor :: public_key

definition az_verify :: "prims \<Rightarrow> Authorization \<Rightarrow> bool res" where
  "az_verify c a =
     (let signers = az_roster a @ [az_anchor a]; manager_slot = length (az_roster a) in
      rbind (ms_verify c (az_multisig a) (az_payload a) signers) (\<lambda>good.
      if \<not> good then Inr False
      else rbind (ms_indices (az_multisig a) (length signers)) (\<lambda>set_indices.
        if manager_slot \<in> set set_indices then Inr True
        else if az_roster a = [] then Inr False
        else rbind (quorum_size (int (length (az_roster a)))) (\<lambda>q.
          Inr (int (length (filter (\<lambda>i. i < manager_slot) set_indices)) \<ge> q)))))"

section \<open>Node records, roster commitment, grants\<close>

record NodeRecord =
  nr_identity :: public_key
  nr_endpoints :: "Endpoint list"
  nr_cert :: Cert
  nr_domains :: "bytes set"

definition bytes_seq :: "bytes list \<Rightarrow> bval" where
  "bytes_seq bs = BSeq (map BBytes bs)"

definition ints_seq :: "int list \<Rightarrow> bval" where
  "ints_seq is = BSeq (map BInt is)"

definition nr_fields :: "NodeRecord \<Rightarrow> bval list" where
  "nr_fields r =
     [bytes_seq (sort (map endpoint_encode (nr_endpoints r))),
      bytes_seq (sorted_list_of_set (nr_domains r)),
      BBytes (cert_encode (nr_cert r))]"

definition nr_encode :: "NodeRecord \<Rightarrow> bytes" where
  "nr_encode r = benc (BSeq (BBytes (nr_identity r) # nr_fields r))"

definition nr_encode_row :: "NodeRecord \<Rightarrow> bytes" where
  "nr_encode_row r = benc (BSeq (nr_fields r))"

definition nr_of_fields :: "public_key \<Rightarrow> bval list \<Rightarrow> NodeRecord res" where
  "nr_of_fields identity f =
     rbind (rbind (as_seq (f ! 0) None) (mapM (\<lambda>e. rbind (as_bytes e) endpoint_parse))) (\<lambda>eps.
     rbind (as_bytes_seq (f ! 1)) (\<lambda>doms.
     rbind (rbind (as_bytes (f ! 2)) cert_decode) (\<lambda>ct.
     Inr \<lparr>nr_identity = identity, nr_endpoints = eps, nr_cert = ct, nr_domains = set doms\<rparr>)))"

definition nr_decode :: "bytes \<Rightarrow> NodeRecord res" where
  "nr_decode raw =
     rbind (decode_seq raw (Some 4)) (\<lambda>f.
     rbind (rbind (as_bytes (f ! 0)) PublicKey) (\<lambda>identity. nr_of_fields identity (tl f)))"

definition nr_decode_row :: "public_key \<Rightarrow> bytes \<Rightarrow> NodeRecord res" where
  "nr_decode_row identity raw = rbind (decode_seq raw (Some 3)) (nr_of_fields identity)"

record RosterCommitment =
  rc_serial :: int
  rc_members :: "public_key list"
  rc_state_fingerprint :: digest
  rc_cert :: Cert

definition rc_fingerprint :: "prims \<Rightarrow> NodeRecord list \<Rightarrow> digest" where
  "rc_fingerprint c records =
     h c (benc (BSeq (map (\<lambda>r. BSeq [BBytes (nr_identity r),
            bytes_seq (sort (map endpoint_encode (nr_endpoints r))),
            bytes_seq (sorted_list_of_set (nr_domains r))])
          (sort_key nr_identity records))))"

definition rc_content :: "int \<Rightarrow> public_key list \<Rightarrow> digest \<Rightarrow> bytes" where
  "rc_content serial members fp = benc (BSeq [BInt serial, bytes_seq (sort members), BBytes fp])"

definition rc_subject :: "prims \<Rightarrow> RosterCommitment \<Rightarrow> digest" where
  "rc_subject c rc = h c (rc_content (rc_serial rc) (rc_members rc) (rc_state_fingerprint rc))"

definition rc_attests :: "prims \<Rightarrow> RosterCommitment \<Rightarrow> bool" where
  "rc_attests c rc \<longleftrightarrow>
     ct_purpose (rc_cert rc) = CERT_PURPOSE_ROSTER_COMMITMENT \<and> ct_subject (rc_cert rc) = rc_subject c rc"

definition rc_encode_row :: "RosterCommitment \<Rightarrow> bytes" where
  "rc_encode_row rc =
     benc (BSeq [BInt (rc_serial rc), bytes_seq (sort (rc_members rc)), BBytes (rc_state_fingerprint rc),
                 BBytes (cert_encode (rc_cert rc))])"

definition rc_decode_row :: "bytes \<Rightarrow> RosterCommitment res" where
  "rc_decode_row raw =
     rewrap is_dude_error ManagementError
       (rbind (decode_seq raw (Some 4)) (\<lambda>f.
        rbind (as_int (f ! 0)) (\<lambda>serial.
        rbind (rbind (as_seq (f ! 1) None) (mapM (\<lambda>m. rbind (as_bytes m) PublicKey))) (\<lambda>members.
        rbind (rbind (as_bytes (f ! 2)) Digest) (\<lambda>fp.
        rbind (rbind (as_bytes (f ! 3)) cert_decode) (\<lambda>ct.
        Inr \<lparr>rc_serial = serial, rc_members = members, rc_state_fingerprint = fp, rc_cert = ct\<rparr>))))))"

record Grant =
  gr_identity :: public_key
  gr_role :: Role
  gr_stores :: "int set"
  gr_kinds :: "int set"
  gr_cert :: Cert

definition grant_fields :: "Grant \<Rightarrow> bval list" where
  "grant_fields g =
     [BBytes (role_value (gr_role g)), ints_seq (sorted_list_of_set (gr_stores g)),
      ints_seq (sorted_list_of_set (gr_kinds g)), BBytes (cert_encode (gr_cert g))]"

definition grant_encode :: "Grant \<Rightarrow> bytes" where
  "grant_encode g = benc (BSeq (BBytes (gr_identity g) # grant_fields g))"

definition grant_encode_row :: "Grant \<Rightarrow> bytes" where
  "grant_encode_row g = benc (BSeq (grant_fields g))"

definition grant_of_fields :: "public_key \<Rightarrow> bval list \<Rightarrow> Grant res" where
  "grant_of_fields identity f =
     rbind (rbind (as_bytes (f ! 0)) role_of) (\<lambda>role.
     rbind (rbind (as_seq (f ! 1) None) (mapM as_int)) (\<lambda>stores.
     rbind (rbind (as_seq (f ! 2) None) (mapM as_int)) (\<lambda>kinds.
     rbind (rbind (as_bytes (f ! 3)) cert_decode) (\<lambda>ct.
     Inr \<lparr>gr_identity = identity, gr_role = role, gr_stores = set stores, gr_kinds = set kinds, gr_cert = ct\<rparr>))))"

definition grant_decode :: "bytes \<Rightarrow> Grant res" where
  "grant_decode raw =
     rbind (decode_seq raw (Some 5)) (\<lambda>f.
     rbind (rbind (as_bytes (f ! 0)) PublicKey) (\<lambda>identity. grant_of_fields identity (tl f)))"

definition grant_decode_row :: "public_key \<Rightarrow> bytes \<Rightarrow> Grant res" where
  "grant_decode_row identity raw = rbind (decode_seq raw (Some 4)) (grant_of_fields identity)"

section \<open>Row names\<close>

definition P_NODE :: bytes where "P_NODE = ascii ''node/''"
definition P_GRANT :: bytes where "P_GRANT = ascii ''grant/''"
definition P_POP :: bytes where "P_POP = ascii ''pop/''"
definition P_WRAP :: bytes where "P_WRAP = ascii ''wrap/''"
definition P_BLIND :: bytes where "P_BLIND = ascii ''blind/''"
definition P_COMPACT :: bytes where "P_COMPACT = ascii ''compact''"
definition P_ROSTER :: bytes where "P_ROSTER = ascii ''roster''"
definition P_EPOCH :: bytes where "P_EPOCH = ascii ''epoch/''"

definition store_key :: "int \<Rightarrow> bytes res" where
  "store_key store_id = to_bytes 8 store_id"

definition epoch_key :: "int \<Rightarrow> bytes res" where
  "epoch_key store_id = rbind (store_key store_id) (\<lambda>k. Inr (P_EPOCH @ k))"

definition blind_key :: "int \<Rightarrow> public_key \<Rightarrow> bytes res" where
  "blind_key store_id who = rbind (store_key store_id) (\<lambda>k. Inr (P_BLIND @ k @ who))"

definition wrap_key :: "int \<Rightarrow> int \<Rightarrow> public_key \<Rightarrow> bytes res" where
  "wrap_key store_id epoch who =
     rbind (store_key store_id) (\<lambda>k. rbind (to_bytes 8 epoch) (\<lambda>e. Inr (P_WRAP @ k @ e @ who)))"

section \<open>Attestations\<close>

record Attestation =
  at_key :: bytes
  at_purpose :: bytes
  at_subject :: bytes

text \<open>Rows of a managed map whose certificate \<open>signer\<close> signed; undecodable rows are skipped.\<close>

definition attested_rows ::
  "Session \<Rightarrow> bytes \<Rightarrow> (public_key \<Rightarrow> bytes \<Rightarrow> (bytes \<times> public_key) res) \<Rightarrow> public_key \<Rightarrow> Attestation list res" where
  "attested_rows s pfx decode_row signer =
     rbind (mmap_keys s pfx) (\<lambda>keys.
     rbind (mapM (\<lambda>key.
       rbind (PublicKey key) (\<lambda>who.
       rbind (mmap_entry s pfx key) (\<lambda>entry.
       case entry of
         None \<Rightarrow> Inr None
       | Some e \<Rightarrow>
           recover is_dude_error None
             (rbind (decode_row who (me_value e)) (\<lambda>(purpose, by).
              Inr (if by = signer
                   then Some \<lparr>at_key = entry_name pfx key, at_purpose = purpose, at_subject = who\<rparr>
                   else None)))))) keys) (\<lambda>found.
     Inr (List.map_filter (\<lambda>x. x) found)))"

definition attestations_by :: "prims \<Rightarrow> Session \<Rightarrow> public_key \<Rightarrow> Attestation list res" where
  "attestations_by c s signer =
     rbind (attested_rows s P_NODE
              (\<lambda>who v. rbind (nr_decode_row who v) (\<lambda>r. Inr (CERT_PURPOSE_ROSTER, ct_signer (nr_cert r)))) signer) (\<lambda>ns.
     rbind (attested_rows s P_GRANT
              (\<lambda>who v. rbind (grant_decode_row who v) (\<lambda>g. Inr (role_value (gr_role g), ct_signer (gr_cert g)))) signer) (\<lambda>gs.
     rbind (session_get s (Bytes P_ROSTER) False) (\<lambda>rec.
     let out = ns @ gs in
     if rec_absent rec then Inr (sort_key at_key out)
     else case rc_decode_row (rec_value rec) of
       Inl e \<Rightarrow> if is_dude_error e then Inr (sort_key at_key out) else Inl e
     | Inr rc \<Rightarrow>
         Inr (sort_key at_key
           (if ct_signer (rc_cert rc) = signer
            then out @ [\<lparr>at_key = P_ROSTER, at_purpose = CERT_PURPOSE_ROSTER_COMMITMENT, at_subject = rc_subject c rc\<rparr>]
            else out)))))"

section \<open>The reader\<close>

record MgmtReader =
  mg_session :: Session
  mg_anchor :: public_key

definition mgmt_new :: "Session \<Rightarrow> MgmtReader res" where
  "mgmt_new s = rbind (session_anchor s) (\<lambda>a. Inr \<lparr>mg_session = s, mg_anchor = a\<rparr>)"

text \<open>The dict of decodable node rows, in key order of the index.\<close>

definition mg_nodes :: "MgmtReader \<Rightarrow> (public_key \<times> NodeRecord) list res" where
  "mg_nodes m =
     rbind (mmap_keys (mg_session m) P_NODE) (\<lambda>keys.
     rbind (mapM (\<lambda>key.
       rbind (PublicKey key) (\<lambda>who.
       rbind (mmap_entry (mg_session m) P_NODE key) (\<lambda>entry.
       case entry of
         None \<Rightarrow> Inr None
       | Some e \<Rightarrow> recover is_dude_error None
           (rbind (nr_decode_row who (me_value e)) (\<lambda>r. Inr (Some (who, r))))))) keys) (\<lambda>found.
     Inr (dict_update [] (List.map_filter (\<lambda>x. x) found))))"

text \<open>\<^verbatim>\<open>_read_grant\<close>, through a given reader or the session.\<close>

definition read_grant :: "MgmtReader \<Rightarrow> public_key \<Rightarrow> Reader option \<Rightarrow> Grant option res" where
  "read_grant m who reader =
     (case reader of
        Some r \<Rightarrow>
          rbind (rd_get r STORE_MANAGEMENT (entry_name P_GRANT who)) (\<lambda>held.
          case held of
            None \<Rightarrow> Inr None
          | Some x \<Rightarrow>
              recover (\<lambda>e. is_dude_error e \<or> e = ValueError \<or> e = IndexError) None
                (rbind (entry_decode (held_value x)) (\<lambda>e.
                 rbind (grant_decode_row who (me_value e)) (\<lambda>g. Inr (Some g)))))
      | None \<Rightarrow>
          rbind (mmap_entry (mg_session m) P_GRANT who) (\<lambda>entry.
          case entry of
            None \<Rightarrow> Inr None
          | Some e \<Rightarrow> recover is_dude_error None
              (rbind (grant_decode_row who (me_value e)) (\<lambda>g. Inr (Some g)))))"

definition anchor_only_purposes :: "bytes list" where
  "anchor_only_purposes = [role_value MANAGER, role_value COMPACTOR]"

definition anchor_or_manager_purposes :: "bytes list" where
  "anchor_or_manager_purposes =
     [role_value CLIENT_RO, role_value CLIENT_RW, CERT_PURPOSE_ROSTER, CERT_PURPOSE_ROSTER_COMMITMENT]"

definition verify_cert :: "prims \<Rightarrow> MgmtReader \<Rightarrow> Cert \<Rightarrow> Reader option \<Rightarrow> bool res" where
  "verify_cert c m cert reader =
     (if \<not> cert_verify c cert then Inr False
      else if ct_purpose cert \<in> set anchor_only_purposes then Inr (ct_signer cert = mg_anchor m)
      else if ct_purpose cert \<in> set anchor_or_manager_purposes then
        if ct_signer cert = mg_anchor m then Inr True
        else rbind (read_grant m (ct_signer cert) reader) (\<lambda>grant.
          case grant of
            None \<Rightarrow> Inr False
          | Some g \<Rightarrow>
              Inr (gr_role g = MANAGER \<and> ct_subject (gr_cert g) = ct_signer cert \<and>
                   ct_purpose (gr_cert g) = role_value MANAGER \<and> cert_verify c (gr_cert g) \<and>
                   ct_signer (gr_cert g) = mg_anchor m))
      else Inr False)"

definition seats :: "prims \<Rightarrow> MgmtReader \<Rightarrow> public_key \<Rightarrow> NodeRecord \<Rightarrow> bool res" where
  "seats c m who r =
     (if ct_subject (nr_cert r) = who \<and> ct_purpose (nr_cert r) = CERT_PURPOSE_ROSTER
      then verify_cert c m (nr_cert r) None else Inr False)"

definition mg_roster :: "prims \<Rightarrow> MgmtReader \<Rightarrow> public_key list res" where
  "mg_roster c m =
     rbind (mg_nodes m) (\<lambda>ns.
     rbind (mapM (\<lambda>(who, r). rbind (seats c m who r) (\<lambda>b. Inr (if b then Some who else None))) ns) (\<lambda>ws.
     Inr (sort (List.map_filter (\<lambda>x. x) ws))))"

text \<open>
  \<^verbatim>\<open>roster()\<close> with its cache: the cached roster is returned while the serial function, when
  there is one, repeats the serial it was computed at.
\<close>

record RosterCache =
  rch_roster :: "public_key list option"
  rch_serial :: "int option"

definition roster_cached ::
  "prims \<Rightarrow> MgmtReader \<Rightarrow> int option option \<Rightarrow> RosterCache \<Rightarrow> (public_key list \<times> RosterCache) res" where
  "roster_cached c m serial_fn cache =
     (case (serial_fn, rch_roster cache) of
        (Some serial, Some r) \<Rightarrow>
          if serial = rch_serial cache then Inr (r, cache)
          else rbind (mg_roster c m) (\<lambda>r'. Inr (r', \<lparr>rch_roster = Some r', rch_serial = serial\<rparr>))
      | (Some serial, None) \<Rightarrow>
          rbind (mg_roster c m) (\<lambda>r'. Inr (r', \<lparr>rch_roster = Some r', rch_serial = serial\<rparr>))
      | (None, _) \<Rightarrow>
          rbind (mg_roster c m) (\<lambda>r'. Inr (r', cache\<lparr>rch_roster := Some r'\<rparr>)))"

definition is_member :: "prims \<Rightarrow> MgmtReader \<Rightarrow> public_key \<Rightarrow> bool res" where
  "is_member c m who =
     rbind (mmap_entry (mg_session m) P_NODE who) (\<lambda>entry.
     case entry of
       None \<Rightarrow> Inr False
     | Some e \<Rightarrow>
         (case nr_decode_row who (me_value e) of
            Inl x \<Rightarrow> if is_dude_error x then Inr False else Inl x
          | Inr r \<Rightarrow> seats c m who r))"

definition grant_cert_ok :: "prims \<Rightarrow> MgmtReader \<Rightarrow> Grant \<Rightarrow> Reader option \<Rightarrow> bool res" where
  "grant_cert_ok c m g reader =
     (if ct_subject (gr_cert g) \<noteq> gr_identity g then Inr False
      else if ct_purpose (gr_cert g) \<noteq> role_value (gr_role g) then Inr False
      else verify_cert c m (gr_cert g) reader)"

definition valid_grant :: "prims \<Rightarrow> MgmtReader \<Rightarrow> public_key \<Rightarrow> Reader option \<Rightarrow> Grant option res" where
  "valid_grant c m who reader =
     rbind (read_grant m who reader) (\<lambda>g.
     case g of
       None \<Rightarrow> Inr None
     | Some gr \<Rightarrow> rbind (grant_cert_ok c m gr reader) (\<lambda>good. Inr (if good then Some gr else None)))"

definition authorized_identities :: "prims \<Rightarrow> MgmtReader \<Rightarrow> public_key set res" where
  "authorized_identities c m =
     rbind (mmap_keys (mg_session m) P_GRANT) (\<lambda>keys.
     rbind (mapM (\<lambda>key. rbind (PublicKey key) (\<lambda>who.
       rbind (valid_grant c m who None) (\<lambda>g. Inr (if g = None then None else Some who)))) keys) (\<lambda>ws.
     Inr (insert (mg_anchor m) (set (List.map_filter (\<lambda>x. x) ws)))))"

definition manager_grants :: "prims \<Rightarrow> MgmtReader \<Rightarrow> Grant list res" where
  "manager_grants c m =
     rbind (mmap_keys (mg_session m) P_GRANT) (\<lambda>keys.
     rbind (mapM (\<lambda>key. rbind (PublicKey key) (\<lambda>who.
       rbind (read_grant m who None) (\<lambda>g.
       case g of
         None \<Rightarrow> Inr None
       | Some gr \<Rightarrow>
           if gr_role gr \<noteq> MANAGER then Inr None
           else rbind (grant_cert_ok c m gr None) (\<lambda>good. Inr (if good then Some gr else None))))) keys) (\<lambda>gs.
     Inr (sort_key gr_identity (List.map_filter (\<lambda>x. x) gs))))"

definition roster_commitment :: "prims \<Rightarrow> MgmtReader \<Rightarrow> RosterCommitment option res" where
  "roster_commitment c m =
     rbind (session_get (mg_session m) (Bytes P_ROSTER) False) (\<lambda>rec.
     if rec_absent rec then Inr None
     else case rc_decode_row (rec_value rec) of
       Inl e \<Rightarrow> if is_dude_error e then Inr None else Inl e
     | Inr rc \<Rightarrow>
         if \<not> rc_attests c rc then Inr None
         else rbind (verify_cert c m (rc_cert rc) None) (\<lambda>good.
           if \<not> good then Inr None
           else rbind (mg_nodes m) (\<lambda>ns.
             let held = filter (\<lambda>r. nr_identity r \<in> set (rc_members rc)) (map snd ns)
             in Inr (if rc_fingerprint c held \<noteq> rc_state_fingerprint rc then None else Some rc))))"

definition endpoints_of :: "MgmtReader \<Rightarrow> public_key \<Rightarrow> Endpoint list res" where
  "endpoints_of m who =
     rbind (mg_nodes m) (\<lambda>ns. Inr (case map_of ns who of None \<Rightarrow> [] | Some r \<Rightarrow> nr_endpoints r))"

definition may_write :: "prims \<Rightarrow> MgmtReader \<Rightarrow> Reader \<Rightarrow> public_key \<Rightarrow> int \<Rightarrow> bool res" where
  "may_write c m reader who store_id =
     (if who = mg_anchor m then Inr True
      else rbind (valid_grant c m who (Some reader)) (\<lambda>g.
        case g of
          None \<Rightarrow> Inr False
        | Some gr \<Rightarrow>
            Inr (if gr_role gr = MANAGER then True
                 else if gr_role gr = COMPACTOR then store_id = STORE_MANAGEMENT
                 else gr_role gr = CLIENT_RW \<and> store_id \<in> gr_stores gr)))"

definition has_standing :: "prims \<Rightarrow> MgmtReader \<Rightarrow> Reader \<Rightarrow> public_key \<Rightarrow> bool res" where
  "has_standing c m reader who =
     (if who = mg_anchor m then Inr True
      else rbind (is_member c m who) (\<lambda>mem.
        if mem then Inr True
        else rbind (valid_grant c m who (Some reader)) (\<lambda>g. Inr (g \<noteq> None))))"

definition may_read :: "prims \<Rightarrow> MgmtReader \<Rightarrow> Reader \<Rightarrow> public_key \<Rightarrow> int \<Rightarrow> bool res" where
  "may_read c m reader who store_id =
     (if store_id = STORE_MANAGEMENT then has_standing c m reader who
      else if who = mg_anchor m then Inr True
      else rbind (is_member c m who) (\<lambda>mem.
        if mem then Inr True
        else rbind (valid_grant c m who (Some reader)) (\<lambda>g.
          case g of
            None \<Rightarrow> Inr False
          | Some gr \<Rightarrow> Inr (gr_role gr = MANAGER \<or> store_id \<in> gr_stores gr))))"

definition may_send :: "prims \<Rightarrow> MgmtReader \<Rightarrow> public_key \<Rightarrow> int \<Rightarrow> bool res" where
  "may_send c m who kind =
     (if who = mg_anchor m then Inr True
      else rbind (valid_grant c m who None) (\<lambda>g.
        case g of
          None \<Rightarrow> Inr False
        | Some gr \<Rightarrow> Inr (gr_role gr = MANAGER \<or> kind \<in> gr_kinds gr)))"

definition possession_proof :: "MgmtReader \<Rightarrow> public_key \<Rightarrow> signature option res" where
  "possession_proof m who =
     rbind (session_get (mg_session m) (Bytes (P_POP @ who)) False) (\<lambda>rec.
     if rec_absent rec then Inr None else rbind (Signature (rec_value rec)) (\<lambda>s. Inr (Some s)))"

definition epoch_target :: "bytes \<Rightarrow> int option" where
  "epoch_target name =
     (if take (length P_EPOCH) name \<noteq> P_EPOCH \<or> length name \<noteq> length P_EPOCH + 8 then None
      else Some (int (from_bytes (drop (length P_EPOCH) name))))"

definition current_epoch :: "MgmtReader \<Rightarrow> int \<Rightarrow> Reader option \<Rightarrow> int res" where
  "current_epoch m store_id reader =
     rbind (epoch_key store_id) (\<lambda>k.
     case reader of
       Some r \<Rightarrow>
         rbind (rd_get r STORE_MANAGEMENT k) (\<lambda>raw.
         case raw of None \<Rightarrow> Inr EPOCH_NONE | Some x \<Rightarrow> rbind (decode (held_value x)) as_int)
     | None \<Rightarrow>
         rbind (session_get (mg_session m) (Bytes k) False) (\<lambda>rec.
         if rec_absent rec then Inr EPOCH_NONE else rbind (decode (rec_value rec)) as_int))"

definition wraps_for :: "MgmtReader \<Rightarrow> int \<Rightarrow> public_key \<Rightarrow> (int \<times> bytes) list res" where
  "wraps_for m store_id who =
     rbind (current_epoch m store_id None) (\<lambda>cur.
     rbind (mapM (\<lambda>epoch.
       rbind (wrap_key store_id epoch who) (\<lambda>k.
       rbind (session_get (mg_session m) (Bytes k) False) (\<lambda>rec.
       Inr (if rec_absent rec then None else Some (epoch, rec_value rec))))) [1..cur]) (\<lambda>ws.
     Inr (List.map_filter (\<lambda>x. x) ws)))"

definition blinding_wrap :: "MgmtReader \<Rightarrow> int \<Rightarrow> public_key \<Rightarrow> bytes option res" where
  "blinding_wrap m store_id who =
     rbind (blind_key store_id who) (\<lambda>k.
     rbind (session_get (mg_session m) (Bytes k) False) (\<lambda>rec.
     Inr (if rec_absent rec then None else Some (rec_value rec))))"

definition domain_groups :: "MgmtReader \<Rightarrow> (bytes \<Rightarrow> public_key set) res" where
  "domain_groups m =
     rbind (mg_nodes m) (\<lambda>ns. Inr (\<lambda>d. nr_identity ` {r \<in> snd ` set ns. d \<in> nr_domains r}))"

text \<open>The counts per domain, in the order the domains are first met (sorted within one record).\<close>

definition domain_counts :: "NodeRecord list \<Rightarrow> (bytes \<times> int) list" where
  "domain_counts rs =
     foldl (\<lambda>counts d. AList.update d ((case map_of counts d of None \<Rightarrow> 0 | Some n \<Rightarrow> n) + 1) counts)
       [] (concat (map (\<lambda>r. sorted_list_of_set (nr_domains r)) rs))"

definition check_domains :: "MgmtReader \<Rightarrow> (bytes \<times> int) list res" where
  "check_domains m =
     rbind (mg_nodes m) (\<lambda>ns. domain_advisory (domain_counts (map snd ns)) (int (length ns)))"

text \<open>The authoriser settlement is given.\<close>

definition mgmt_auth :: "prims \<Rightarrow> MgmtReader \<Rightarrow> Authoriser" where
  "mgmt_auth c m =
     \<lparr>au_may_write = may_write c m, au_current_epoch = (\<lambda>st r. current_epoch m st (Some r)),
      au_epoch_target = epoch_target\<rparr>"

section \<open>The writer\<close>

definition check_node :: "prims \<Rightarrow> MgmtReader \<Rightarrow> NodeRecord \<Rightarrow> unit res" where
  "check_node c m r =
     (if ct_subject (nr_cert r) \<noteq> nr_identity r then Inl ManagementError
      else if ct_purpose (nr_cert r) \<noteq> CERT_PURPOSE_ROSTER then Inl ManagementError
      else rbind (verify_cert c m (nr_cert r) None) (\<lambda>good. guard_exn good ManagementError))"

fun remove_nodes :: "prims \<Rightarrow> MgmtReader \<Rightarrow> public_key list \<Rightarrow> Transaction \<Rightarrow> Transaction res" where
  "remove_nodes c m [] tx = Inr tx"
| "remove_nodes c m (who # rest) tx =
     rbind (mmap_remove c (mg_session m) P_NODE who) (\<lambda>t.
     remove_nodes c m rest
       (tx_add (tx_add tx t) (writes_of [Del (se_store_id (mg_session m)) (P_POP @ who)])))"

text \<open>The dict of nodes after the change.\<close>

definition nodes_after ::
  "(public_key \<times> NodeRecord) list \<Rightarrow> NodeRecord list \<Rightarrow> public_key list \<Rightarrow> (public_key \<times> NodeRecord) list" where
  "nodes_after before add remove =
     foldl (\<lambda>d r. AList.update (nr_identity r) r d) (foldl (\<lambda>d who. AList.delete who d) before remove) add"

definition change_roster ::
  "prims \<Rightarrow> MgmtReader \<Rightarrow> seed \<Rightarrow> NodeRecord list \<Rightarrow> public_key list \<Rightarrow> Transaction res" where
  "change_roster c m commitment_signer add remove =
     rbind (mg_nodes m) (\<lambda>before.
     let after = nodes_after before add remove; s = se_store_id (mg_session m) in
     if \<not> would_brick (int (length before)) \<and> would_brick (int (length after)) then Inl ManagementError
     else
     rbind (mapM (check_node c m) add) (\<lambda>_.
     rbind (remove_nodes c m remove []) (\<lambda>tx.
     rbind (if add = [] then Inr tx
            else rbind (batch_add c (mg_session m) P_NODE (map (\<lambda>r. (nr_identity r, nr_encode_row r)) add))
                   (\<lambda>t. Inr (tx_add tx t))) (\<lambda>tx.
     rbind (roster_commitment c m) (\<lambda>current.
     let next_serial = (case current of None \<Rightarrow> 1 | Some rc \<Rightarrow> rc_serial rc + 1);
         members = map fst after;
         fp = rc_fingerprint c (map snd after);
         cert = sign_roster_commitment c commitment_signer (rc_content next_serial members fp)
     in rbind (verify_cert c m cert None) (\<lambda>good.
        if \<not> good then Inl ManagementError
        else Inr (tx_add tx (writes_of [SetP s P_ROSTER
          (rc_encode_row \<lparr>rc_serial = next_serial, rc_members = members, rc_state_fingerprint = fp,
             rc_cert = cert\<rparr>)]))))))))"

definition add_node ::
  "prims \<Rightarrow> MgmtReader \<Rightarrow> public_key \<Rightarrow> Endpoint list \<Rightarrow> Cert \<Rightarrow> seed \<Rightarrow> bytes set \<Rightarrow> Transaction res" where
  "add_node c m who eps cert signer domains =
     change_roster c m signer
       [\<lparr>nr_identity = who, nr_endpoints = eps, nr_cert = cert, nr_domains = domains\<rparr>] []"

definition remove_node :: "prims \<Rightarrow> MgmtReader \<Rightarrow> public_key \<Rightarrow> seed \<Rightarrow> Transaction res" where
  "remove_node c m who signer = change_roster c m signer [] [who]"

definition authorise ::
  "prims \<Rightarrow> MgmtReader \<Rightarrow> public_key \<Rightarrow> Role \<Rightarrow> int set \<Rightarrow> int set \<Rightarrow> signature option \<Rightarrow> Cert option \<Rightarrow>
   Transaction res" where
  "authorise c m who role stores kinds pop cert =
     (case pop of
        None \<Rightarrow> Inl ManagementError
      | Some p \<Rightarrow>
          if \<not> verify_possession c who p then Inl ManagementError
          else case cert of
            None \<Rightarrow> Inl ManagementError
          | Some ct \<Rightarrow>
              if ct_subject ct \<noteq> who then Inl ManagementError
              else if ct_purpose ct \<noteq> role_value role then Inl ManagementError
              else rbind (verify_cert c m ct None) (\<lambda>good.
                if \<not> good then Inl ManagementError
                else rbind (mmap_add c (mg_session m) P_GRANT who
                       (grant_encode_row \<lparr>gr_identity = who, gr_role = role, gr_stores = stores,
                          gr_kinds = kinds, gr_cert = ct\<rparr>)) (\<lambda>t.
                  Inr (tx_add t (writes_of [SetP (se_store_id (mg_session m)) (P_POP @ who) p])))))"

definition require_signer :: "prims \<Rightarrow> MgmtReader \<Rightarrow> Cert \<Rightarrow> unit res" where
  "require_signer c m cert = rbind (verify_cert c m cert None) (\<lambda>good. guard_exn good ManagementError)"

definition reissue :: "prims \<Rightarrow> MgmtReader \<Rightarrow> Attestation \<Rightarrow> seed \<Rightarrow> Transaction res" where
  "reissue c m att signer =
     (let s = mg_session m; sid = se_store_id s in
      if at_key att = P_ROSTER then
        rbind (session_get s (Bytes P_ROSTER) False) (\<lambda>rec.
        if rec_absent rec then Inl ManagementError
        else rbind (rc_decode_row (rec_value rec)) (\<lambda>rc.
          let cert = sign_roster_commitment c signer
                (rc_content (rc_serial rc) (rc_members rc) (rc_state_fingerprint rc))
          in rbind (require_signer c m cert) (\<lambda>_.
             Inr (writes_of [SetP sid P_ROSTER (rc_encode_row (rc\<lparr>rc_cert := cert\<rparr>))]))))
      else
        rbind (PublicKey (at_subject att)) (\<lambda>identity.
        let is_node = (at_key att = entry_name P_NODE identity);
            pfx = (if is_node then P_NODE else P_GRANT)
        in rbind (mmap_entry s pfx identity) (\<lambda>entry.
           case entry of
             None \<Rightarrow> Inl ManagementError
           | Some e \<Rightarrow>
               rbind (if is_node then
                        rbind (nr_decode_row identity (me_value e)) (\<lambda>r.
                        let cert = sign_roster c signer identity in
                        rbind (require_signer c m cert) (\<lambda>_. Inr (nr_encode_row (r\<lparr>nr_cert := cert\<rparr>))))
                      else
                        rbind (grant_decode_row identity (me_value e)) (\<lambda>g.
                        let cert = sign_grant c signer identity (gr_role g) in
                        rbind (require_signer c m cert) (\<lambda>_. Inr (grant_encode_row (g\<lparr>gr_cert := cert\<rparr>)))))
                 (\<lambda>new_value. Inr (tx_update_key c sid pfx identity new_value e)))))"

fun reissue_all :: "prims \<Rightarrow> MgmtReader \<Rightarrow> seed \<Rightarrow> Attestation list \<Rightarrow> Transaction \<Rightarrow> Transaction res" where
  "reissue_all c m signer [] tx = Inr tx"
| "reissue_all c m signer (att # rest) tx =
     rbind (reissue c m att signer) (\<lambda>t. reissue_all c m signer rest (tx_add tx t))"

text \<open>The anchor of a \<^verbatim>\<open>MgmtReader\<close> is never \<^verbatim>\<open>None\<close>: its constructor reads it.\<close>

definition revoke :: "prims \<Rightarrow> MgmtReader \<Rightarrow> public_key \<Rightarrow> seed \<Rightarrow> Transaction res" where
  "revoke c m who reissue_signer =
     rbind (read_grant m who None) (\<lambda>target.
     if (case target of None \<Rightarrow> False
         | Some g \<Rightarrow> gr_role g \<in> {MANAGER, COMPACTOR} \<and> kp_public c reissue_signer \<noteq> mg_anchor m)
     then Inl ManagementError
     else
     rbind (attestations_by c (mg_session m) who) (\<lambda>attested.
     rbind (reissue_all c m reissue_signer attested []) (\<lambda>tx.
     rbind (mmap_remove c (mg_session m) P_GRANT who) (\<lambda>t.
     Inr (tx_add (tx_add tx t) (writes_of [Del (se_store_id (mg_session m)) (P_POP @ who)]))))))"

definition admit_reader ::
  "MgmtReader \<Rightarrow> public_key \<Rightarrow> int \<Rightarrow> (int \<times> bytes) list \<Rightarrow> bytes \<Rightarrow> Transaction res" where
  "admit_reader m who store_id wraps blinding =
     (let sid = se_store_id (mg_session m) in
      rbind (blind_key store_id who) (\<lambda>bk.
      rbind (mapM (\<lambda>(e, w). rbind (wrap_key store_id e who) (\<lambda>k. Inr (SetP sid k w))) (sort_key fst wraps)) (\<lambda>ws.
      Inr (writes_of (SetP sid bk blinding # ws)))))"

definition rotate ::
  "MgmtReader \<Rightarrow> int \<Rightarrow> int \<Rightarrow> (public_key \<times> bytes) list \<Rightarrow> (public_key \<times> bytes) list \<Rightarrow> Transaction res" where
  "rotate m store_id from_epoch wraps blinding =
     (let sid = se_store_id (mg_session m); to = from_epoch + 1 in
      rbind (epoch_key store_id) (\<lambda>ek.
      rbind (mapM (\<lambda>(who, w). rbind (wrap_key store_id to who) (\<lambda>k. Inr (SetP sid k w))) (sort_key fst wraps)) (\<lambda>ws.
      rbind (mapM (\<lambda>(who, b). rbind (blind_key store_id who) (\<lambda>k. Inr (SetP sid k b))) (sort_key fst blinding)) (\<lambda>bs.
      Inr (writes_of (SetP sid ek (benc (BInt to)) # ws @ bs))))))"

definition compact :: "prims \<Rightarrow> MgmtReader \<Rightarrow> int \<Rightarrow> Transaction res" where
  "compact c m block_num =
     (let s = se_store_id (mg_session m) in
      rbind (session_get (mg_session m) (Bytes P_COMPACT) False) (\<lambda>rec.
      rbind (to_bytes 8 block_num) (\<lambda>value.
      Inr [plain_step [if rec_absent rec then Absent s P_COMPACT
                       else Holds s P_COMPACT (value_digest c (rec_value rec))]
             (SetP s P_COMPACT value)])))"

end
