(* ===== verification/Store.thy ===== *)
theory Store
  imports Management Smt_Proofs
begin

text \<open>
  \<^verbatim>\<open>dude/store/store.py\<close>: the replicated store over its SQLite tables. A database is the
  record \<open>Db\<close> of its tables; a statement is a list operation on a table. Three properties of
  SQLite that the code meets are part of the model: an integer parameter outside 64 bits is an
  \<^verbatim>\<open>OverflowError\<close> of the Python binding, a violated key constraint of a plain
  \<^verbatim>\<open>INSERT\<close> is an \<^verbatim>\<open>IntegrityError\<close>, and \<^verbatim>\<open>INSERT OR REPLACE\<close> first
  deletes every row that conflicts with a unique index. A write transaction that raises is rolled
  back.
\<close>

record EntryRow =
  en_idx :: int
  en_op_hash :: digest
  en_raw :: bytes
  en_author :: public_key
  en_ts :: int

record BlockRow =
  bk_block_num :: int
  bk_first_height :: int
  bk_height :: int
  bk_bytes :: bytes
  bk_hash :: digest

record Db =
  db_entry :: "EntryRow list"
  db_live :: "live_row list"
  db_memo :: memo
  db_meta :: "string \<rightharpoonup> bytes"
  db_block :: "BlockRow list"
  db_checkpoint :: "(int \<times> bytes) list"

definition db_empty :: Db where
  "db_empty = \<lparr>db_entry = [], db_live = [], db_memo = Map.empty, db_meta = Map.empty, db_block = [], db_checkpoint = []\<rparr>"

record Entry =
  ent_idx :: int
  ent_item :: SignedTransaction

record Dropped =
  dr_op_hash :: digest
  dr_why :: Reason

record Applied =
  ap_settled :: "(int \<times> digest) list"
  ap_dropped :: "Dropped list"

text \<open>Binding an integer parameter.\<close>

definition sql_int :: "int \<Rightarrow> unit res" where
  "sql_int n = guard_exn (- (2 ^ 63) \<le> n \<and> n < 2 ^ 63) OverflowError"

section \<open>Reads\<close>

definition get_meta :: "Db \<Rightarrow> string \<Rightarrow> bytes \<Rightarrow> bytes" where
  "get_meta db k d = (case db_meta db k of None \<Rightarrow> d | Some v \<Rightarrow> v)"

definition sr_get :: "Db \<Rightarrow> int \<Rightarrow> bytes \<Rightarrow> Held option res" where
  "sr_get db store name = rbind (sql_int store) (\<lambda>_. Inr (live_get (db_live db) store name))"

definition sr_accumulator :: "Db \<Rightarrow> accumulator res" where
  "sr_accumulator db = Accumulator (get_meta db ''acc'' ACC_IDENTITY)"

definition sr_log_accumulator :: "Db \<Rightarrow> accumulator res" where
  "sr_log_accumulator db = Accumulator (get_meta db ''acc_log'' ACC_IDENTITY)"

definition sr_hash_under :: "prims \<Rightarrow> Db \<Rightarrow> bytes \<Rightarrow> nat \<Rightarrow> digest res" where
  "sr_hash_under c db pfx depth =
     rbind (hash_under c False (db_live db) pfx depth (db_memo db)) (\<lambda>(d, _). Inr d)"

definition sr_state_root :: "prims \<Rightarrow> Db \<Rightarrow> digest res" where
  "sr_state_root c db = rbind (tree_root c False (db_live db) (db_memo db)) (\<lambda>(d, _). Inr d)"

definition sr_prove :: "prims \<Rightarrow> Db \<Rightarrow> int \<Rightarrow> bytes \<Rightarrow> Proof res" where
  "sr_prove c db store name = rbind (prove c False (db_live db) store name (db_memo db)) (\<lambda>(p, _). Inr p)"

definition prefix_rows :: "Db \<Rightarrow> int \<Rightarrow> bytes \<Rightarrow> live_row list" where
  "prefix_rows db store pfx =
     filter (\<lambda>r. lr_store r = store \<and> lr_epoch r = 0 \<and> in_prefix pfx (lr_name r)) (db_live db)"

definition sr_count_prefix :: "Db \<Rightarrow> int \<Rightarrow> bytes \<Rightarrow> int res" where
  "sr_count_prefix db store pfx = rbind (sql_int store) (\<lambda>_. Inr (int (length (prefix_rows db store pfx))))"

text \<open>\<^verbatim>\<open>ORDER BY name LIMIT 1 OFFSET n\<close>; a negative offset counts as zero.\<close>

definition sr_nth_prefix :: "Db \<Rightarrow> int \<Rightarrow> bytes \<Rightarrow> int \<Rightarrow> bool \<Rightarrow> (bytes \<times> Held) option res" where
  "sr_nth_prefix db store pfx n descending =
     rbind (sql_int store) (\<lambda>_.
     rbind (sql_int n) (\<lambda>_.
     let asc = sort_key lr_name (prefix_rows db store pfx);
         rows = drop (nat n) (if descending then rev asc else asc)
     in Inr (case rows of [] \<Rightarrow> None | r # _ \<Rightarrow> Some (lr_name r, held_of r))))"

definition sr_head :: "Db \<Rightarrow> int" where
  "sr_head db =
     (if db_entry db \<noteq> [] then Max (en_idx ` set (db_entry db))
      else int (from_bytes (get_meta db ''head_floor'' [])))"

definition sr_entries :: "Db \<Rightarrow> int \<Rightarrow> int option \<Rightarrow> Entry list res" where
  "sr_entries db frm to =
     (let hi = (case to of None \<Rightarrow> sr_head db | Some t \<Rightarrow> t) in
      rbind (sql_int frm) (\<lambda>_.
      rbind (sql_int hi) (\<lambda>_.
      mapM (\<lambda>e. rbind (stx_decode (en_raw e)) (\<lambda>tx. Inr \<lparr>ent_idx = en_idx e, ent_item = tx\<rparr>))
        (sort_key en_idx (filter (\<lambda>e. frm \<le> en_idx e \<and> en_idx e \<le> hi) (db_entry db))))))"

definition find_block :: "Db \<Rightarrow> int \<Rightarrow> BlockRow option" where
  "find_block db n = find (\<lambda>b. bk_block_num b = n) (db_block db)"

definition sr_settled_at :: "Db \<Rightarrow> int \<Rightarrow> bytes option res" where
  "sr_settled_at db n = rbind (sql_int n) (\<lambda>_. Inr (map_option bk_bytes (find_block db n)))"

definition sr_bodies_of_block :: "Db \<Rightarrow> int \<Rightarrow> SignedTransaction list res" where
  "sr_bodies_of_block db n =
     rbind (sql_int n) (\<lambda>_.
     case find_block db n of
       None \<Rightarrow> Inr []
     | Some b \<Rightarrow>
         if bk_first_height b > bk_height b then Inr []
         else rbind (sr_entries db (bk_first_height b) (Some (bk_height b))) (\<lambda>es. Inr (map ent_item es)))"

definition sr_oldest_block_num :: "Db \<Rightarrow> int option" where
  "sr_oldest_block_num db = (if db_block db = [] then None else Some (Min (bk_block_num ` set (db_block db))))"

definition sr_head_block_num :: "Db \<Rightarrow> int option" where
  "sr_head_block_num db = (if db_block db = [] then None else Some (Max (bk_block_num ` set (db_block db))))"

definition sr_head_block_hash :: "Db \<Rightarrow> digest option res" where
  "sr_head_block_hash db =
     (case rev (sort_key bk_block_num (db_block db)) of
        [] \<Rightarrow> Inr None
      | b # _ \<Rightarrow> rbind (Digest (bk_hash b)) (\<lambda>d. Inr (Some d)))"

definition sr_checkpoint_meta_bytes :: "Db \<Rightarrow> bytes option" where
  "sr_checkpoint_meta_bytes db = map_of (db_checkpoint db) 0"

definition sr_checkpoint_chunk_count :: "Db \<Rightarrow> int" where
  "sr_checkpoint_chunk_count db = int (length (filter (\<lambda>(seq, _). seq > 0) (db_checkpoint db)))"

text \<open>\<^verbatim>\<open>WHERE seq > ? ORDER BY seq LIMIT ?\<close>; a negative limit is no limit.\<close>

definition sr_checkpoint_chunks :: "Db \<Rightarrow> int \<Rightarrow> int \<Rightarrow> bytes list res" where
  "sr_checkpoint_chunks db offset limit =
     rbind (sql_int offset) (\<lambda>_.
     rbind (sql_int limit) (\<lambda>_.
     let rows = map snd (sort_key fst (filter (\<lambda>(seq, _). seq > offset) (db_checkpoint db)))
     in Inr (if limit < 0 then rows else take (nat limit) rows)))"

definition sr_credential :: "Db \<Rightarrow> int \<Rightarrow> bytes \<Rightarrow> bytes res" where
  "sr_credential db store name =
     rbind (sr_get db store name) (\<lambda>x. Inr (case x of None \<Rightarrow> [] | Some y \<Rightarrow> held_cred y))"

definition sr_anchor :: "Db \<Rightarrow> public_key res" where
  "sr_anchor db =
     (let raw = get_meta db ''anchor'' [] in if raw = [] then Inl InvariantError else PublicKey raw)"

definition sr_seeds :: "Db \<Rightarrow> bytes list res" where
  "sr_seeds db =
     (let raw = get_meta db ''seeds'' [] in
      if raw = [] then Inr [] else rbind (decode raw) as_bytes_seq)"

definition sr_roster_serial :: "Db \<Rightarrow> int" where
  "sr_roster_serial db = int (from_bytes (get_meta db ''roster_serial'' []))"

definition sr_rows_in_path_range :: "Db \<Rightarrow> bytes \<Rightarrow> bytes \<Rightarrow> PathRow list" where
  "sr_rows_in_path_range db lo hi = map path_row (select_range (db_live db) lo hi)"

definition sr_subtree_data_size :: "Db \<Rightarrow> bytes \<Rightarrow> nat \<Rightarrow> int res" where
  "sr_subtree_data_size db pfx depth =
     rbind (bounds pfx depth) (\<lambda>(lo, hi).
     Inr (int (sum_list (map (\<lambda>r. length (lr_value r) + length (lr_cred r)) (select_range (db_live db) lo hi)))))"

definition sr_subtree_rows :: "Db \<Rightarrow> bytes \<Rightarrow> nat \<Rightarrow> PathRow list res" where
  "sr_subtree_rows db pfx depth =
     rbind (bounds pfx depth) (\<lambda>(lo, hi). Inr (sr_rows_in_path_range db lo hi))"

definition sr_has_settled :: "Db \<Rightarrow> digest list \<Rightarrow> digest set" where
  "sr_has_settled db ophs = set ophs \<inter> en_op_hash ` set (db_entry db)"

definition sr_settlement_of :: "Db \<Rightarrow> digest \<Rightarrow> SettleResult option res" where
  "sr_settlement_of db oph =
     (case find (\<lambda>(e, b). bk_first_height b \<le> en_idx e \<and> en_idx e \<le> bk_height b)
             (List.product (filter (\<lambda>e. en_op_hash e = oph) (db_entry db)) (db_block db)) of
        None \<Rightarrow> Inr None
      | Some (e, b) \<Rightarrow> rbind (Digest (bk_hash b)) (\<lambda>d. Inr (Some (Settled oph (bk_block_num b) d))))"

text \<open>A store reader is a view: frozen, as its snapshot cannot change under it.\<close>

definition store_view :: "prims \<Rightarrow> Db \<Rightarrow> View" where
  "store_view c db =
     \<lparr>rd_get = sr_get db, rd_anchor = sr_anchor db,
      rd_count_prefix = sr_count_prefix db, rd_nth_prefix = sr_nth_prefix db,
      vw_accumulator = sr_accumulator db, vw_hash_under = sr_hash_under c db,
      vw_rows_in_path_range = (\<lambda>lo hi. Inr (sr_rows_in_path_range db lo hi)),
      vw_is_frozen = True\<rparr>"

definition store_reader :: "prims \<Rightarrow> Db \<Rightarrow> Reader" where
  "store_reader c db = Reader.truncate (store_view c db)"

definition mgmt_reader :: "prims \<Rightarrow> Db \<Rightarrow> MgmtReader res" where
  "mgmt_reader c db = mgmt_new \<lparr>se_reader = store_reader c db, se_store_id = STORE_MANAGEMENT\<rparr>"

section \<open>Writes\<close>

definition set_meta :: "string \<Rightarrow> bytes \<Rightarrow> Db \<Rightarrow> Db" where
  "set_meta k v db = db\<lparr>db_meta := (db_meta db)(k \<mapsto> v)\<rparr>"

definition log_add :: "prims \<Rightarrow> int \<Rightarrow> digest \<Rightarrow> Db \<Rightarrow> Db res" where
  "log_add c idx oph db =
     rbind (sr_log_accumulator db) (\<lambda>a. Inr (set_meta ''acc_log'' (acc_add c a (log_element c idx oph)) db))"

definition remember_roster_serial :: "prims \<Rightarrow> Db \<Rightarrow> Db res" where
  "remember_roster_serial c db =
     (if get_meta db ''anchor'' [] = [] then Inr db
      else rbind (mgmt_reader c db) (\<lambda>m.
        rbind (roster_commitment c m) (\<lambda>rc.
        case rc of
          None \<Rightarrow> Inr db
        | Some x \<Rightarrow>
            if rc_serial x > sr_roster_serial db
            then rbind (to_bytes 8 (rc_serial x)) (\<lambda>b. Inr (set_meta ''roster_serial'' b db))
            else Inr db)))"

definition provision :: "public_key \<Rightarrow> bytes list \<Rightarrow> Db \<Rightarrow> Db res" where
  "provision manager seeds db =
     (let raw = get_meta db ''anchor'' [] in
      rbind (if raw = [] then Inr () else rbind (PublicKey raw) (\<lambda>pk. guard_exn (pk = manager) InvariantError)) (\<lambda>_.
      let db1 = set_meta ''anchor'' manager db in
      Inr (if seeds = [] then db1 else set_meta ''seeds'' (benc (bytes_seq (sort seeds))) db1)))"

definition persist_checkpoint :: "prims \<Rightarrow> bytes \<Rightarrow> bytes list \<Rightarrow> Db \<Rightarrow> Db" where
  "persist_checkpoint c meta_bytes chunk_blobs db =
     set_meta ''checkpoint_id'' (h c meta_bytes)
       (db\<lparr>db_checkpoint := (0, meta_bytes) # zip (map int [1..<Suc (length chunk_blobs)]) chunk_blobs\<rparr>)"

definition reset_for_checkpoint :: "Db \<Rightarrow> Db" where
  "reset_for_checkpoint db = db_empty\<lparr>db_checkpoint := db_checkpoint db\<rparr>"

text \<open>\<^verbatim>\<open>INSERT OR REPLACE INTO live\<close>: rows with the same key or the same path give way.\<close>

definition live_upsert :: "live_row \<Rightarrow> live_row list \<Rightarrow> live_row list" where
  "live_upsert r live =
     filter (\<lambda>q. \<not> (lr_store q = lr_store r \<and> lr_name q = lr_name r) \<and> lr_path q \<noteq> lr_path r) live @ [r]"

definition live_delete :: "int \<Rightarrow> bytes \<Rightarrow> live_row list \<Rightarrow> live_row list" where
  "live_delete store name live = filter (\<lambda>q. \<not> (lr_store q = store \<and> lr_name q = name)) live"

definition insert_live_row :: "prims \<Rightarrow> PathRow \<Rightarrow> Db \<Rightarrow> Db res" where
  "insert_live_row c row db =
     (let path = path_of c (pr_store row) (pr_name row) in
      rbind (invalidate path (db_memo db)) (\<lambda>memo.
      rbind (sql_int (pr_store row)) (\<lambda>_.
      rbind (sql_int (pr_epoch row)) (\<lambda>_.
      Inr (db\<lparr>db_memo := memo,
             db_live := live_upsert \<lparr>lr_store = pr_store row, lr_name = pr_name row, lr_value = pr_value row,
                lr_epoch = pr_epoch row, lr_path = path, lr_cred = pr_credential row\<rparr> (db_live db)\<rparr>)))))"

text \<open>Returns the number of entries deleted.\<close>

definition gc_below :: "int \<Rightarrow> Db \<Rightarrow> (int \<times> Db) res" where
  "gc_below pivot db =
     rbind (sql_int pivot) (\<lambda>_.
     case find_block db pivot of
       None \<Rightarrow> Inr (0, db)
     | Some b \<Rightarrow>
         let fh = bk_first_height b in
         Inr (int (length (filter (\<lambda>e. en_idx e < fh) (db_entry db))),
              db\<lparr>db_entry := filter (\<lambda>e. \<not> en_idx e < fh) (db_entry db),
                 db_block := filter (\<lambda>k. \<not> bk_block_num k < pivot) (db_block db)\<rparr>))"

definition insert_entry :: "int \<Rightarrow> digest \<Rightarrow> bytes \<Rightarrow> public_key \<Rightarrow> int \<Rightarrow> Db \<Rightarrow> Db res" where
  "insert_entry idx oph raw author ts db =
     rbind (sql_int idx) (\<lambda>_.
     rbind (sql_int ts) (\<lambda>_.
     if list_ex (\<lambda>e. en_idx e = idx \<or> en_op_hash e = oph) (db_entry db) then Inl IntegrityError
     else Inr (db\<lparr>db_entry := db_entry db @
            [\<lparr>en_idx = idx, en_op_hash = oph, en_raw = raw, en_author = author, en_ts = ts\<rparr>]\<rparr>)))"

definition commit_mutation :: "prims \<Rightarrow> bytes \<Rightarrow> Mutation \<Rightarrow> Db \<times> accumulator \<Rightarrow> (Db \<times> accumulator) res" where
  "commit_mutation c cred m = (\<lambda>(db, acc).
     rbind (sr_get db (mut_store m) (mut_name m)) (\<lambda>cur.
     let acc1 = (case cur of None \<Rightarrow> acc
           | Some x \<Rightarrow> acc_sub c acc (element c (mut_store m) (mut_name m) (held_value x) (held_epoch x)));
         path = path_of c (mut_store m) (mut_name m)
     in rbind (invalidate path (db_memo db)) (\<lambda>memo.
        case m of
          Set store name value epoch \<Rightarrow>
            rbind (sql_int epoch) (\<lambda>_.
            Inr (db\<lparr>db_memo := memo,
                    db_live := live_upsert \<lparr>lr_store = store, lr_name = name, lr_value = value,
                      lr_epoch = epoch, lr_path = path, lr_cred = cred\<rparr> (db_live db)\<rparr>,
                 acc_add c acc1 (element c store name value epoch)))
        | Del store name \<Rightarrow>
            Inr (db\<lparr>db_memo := memo, db_live := live_delete store name (db_live db)\<rparr>, acc1))))"

fun commit_mutations :: "prims \<Rightarrow> bytes \<Rightarrow> Mutation list \<Rightarrow> Db \<times> accumulator \<Rightarrow> (Db \<times> accumulator) res" where
  "commit_mutations c cred [] s = Inr s"
| "commit_mutations c cred (m # ms) s = rbind (commit_mutation c cred m s) (commit_mutations c cred ms)"

text \<open>\<^verbatim>\<open>_commit\<close>.\<close>

definition commit_tx ::
  "prims \<Rightarrow> int \<Rightarrow> SignedTransaction \<Rightarrow> Mutation list \<Rightarrow> accumulator \<Rightarrow> Db \<Rightarrow> (Db \<times> accumulator) res" where
  "commit_tx c idx tx ms acc db =
     rbind (insert_entry idx (op_hash c tx) (stx_raw tx) (stx_author tx) (stx_ts tx) db) (\<lambda>db1.
     rbind (log_add c idx (op_hash c tx) db1) (\<lambda>db2.
     commit_mutations c (stx_raw tx) ms (db2, acc)))"

text \<open>The loop of \<^verbatim>\<open>_apply_within\<close>.\<close>

fun apply_loop ::
  "prims \<Rightarrow> nat \<Rightarrow> Authoriser \<Rightarrow> SignedTransaction list \<Rightarrow> digest set \<Rightarrow> int \<Rightarrow> accumulator \<Rightarrow> Applied \<Rightarrow> Db \<Rightarrow>
   (Applied \<times> accumulator \<times> Db) res" where
  "apply_loop c fuel auth [] already idx acc out db = Inr (out, acc, db)"
| "apply_loop c fuel auth (tx # batch) already idx acc out db =
     (if op_hash c tx \<in> already then
        apply_loop c fuel auth batch already idx acc
          (out\<lparr>ap_dropped := ap_dropped out @ [\<lparr>dr_op_hash = op_hash c tx, dr_why = R_SETTLED\<rparr>]\<rparr>) db
      else rbind (evaluate c fuel (store_reader c db) tx auth) (\<lambda>(verdict, layer).
        case vd_why verdict of
          Some why \<Rightarrow>
            apply_loop c fuel auth batch already idx acc
              (out\<lparr>ap_dropped := ap_dropped out @ [\<lparr>dr_op_hash = op_hash c tx, dr_why = why\<rparr>]\<rparr>) db
        | None \<Rightarrow>
            rbind (commit_tx c (idx + 1) tx (ov_log layer) acc db) (\<lambda>(db', acc').
            apply_loop c fuel auth batch (insert (op_hash c tx) already) (idx + 1) acc'
              (out\<lparr>ap_settled := ap_settled out @ [(idx + 1, op_hash c tx)]\<rparr>) db')))"

definition apply_within ::
  "prims \<Rightarrow> nat \<Rightarrow> SignedTransaction list \<Rightarrow> Authoriser \<Rightarrow> Db \<Rightarrow> (Applied \<times> Db) res" where
  "apply_within c fuel batch auth db =
     rbind (sr_accumulator db) (\<lambda>acc.
     rbind (apply_loop c fuel auth batch (sr_has_settled db (map (op_hash c) batch)) (sr_head db) acc
              \<lparr>ap_settled = [], ap_dropped = []\<rparr> db) (\<lambda>(out, acc', db').
     Inr (out, set_meta ''acc'' acc' db')))"

definition commit_block ::
  "prims \<Rightarrow> nat \<Rightarrow> int \<Rightarrow> int \<Rightarrow> bytes \<Rightarrow> digest \<Rightarrow> SignedTransaction list \<Rightarrow> Authoriser \<Rightarrow> Db \<Rightarrow> (Applied \<times> Db) res" where
  "commit_block c fuel block_num first_height block_bytes block_hash batch auth db =
     rbind (sql_int block_num) (\<lambda>_.
     case find_block db block_num of
       Some b \<Rightarrow>
         if bk_hash b = block_hash then Inr (\<lparr>ap_settled = [], ap_dropped = []\<rparr>, db)
         else Inl InvariantError
     | None \<Rightarrow>
         rbind (apply_within c fuel batch auth db) (\<lambda>(out, db1).
         rbind (sql_int first_height) (\<lambda>_.
         if list_ex (\<lambda>b. bk_hash b = block_hash) (db_block db1) then Inl IntegrityError
         else Inr (out, db1\<lparr>db_block := db_block db1 @
                [\<lparr>bk_block_num = block_num, bk_first_height = first_height, bk_height = sr_head db1,
                  bk_bytes = block_bytes, bk_hash = block_hash\<rparr>]\<rparr>))))"

fun replay_loop :: "prims \<Rightarrow> Entry list \<Rightarrow> accumulator \<Rightarrow> Db \<Rightarrow> (accumulator \<times> Db) res" where
  "replay_loop c [] acc db = Inr (acc, db)"
| "replay_loop c (e # es) acc db =
     (if \<not> stx_verify c (ent_item e) then Inl ReplayRefusedError
      else rbind (commit_tx c (ent_idx e) (ent_item e) (tx_mutations (stx_txn (ent_item e))) acc db)
             (\<lambda>(db', acc'). replay_loop c es acc' db'))"

definition replay :: "prims \<Rightarrow> Entry list \<Rightarrow> Db \<Rightarrow> Db res" where
  "replay c items db =
     rbind (sr_accumulator db) (\<lambda>acc.
     rbind (replay_loop c items acc db) (\<lambda>(acc', db').
     remember_roster_serial c (set_meta ''acc'' acc' db')))"

section \<open>Transactions of the database\<close>

text \<open>\<^verbatim>\<open>with self.write() as w\<close>: commit on return, roll back on any exception.\<close>

definition store_write :: "(Db \<Rightarrow> ('a \<times> Db) res) \<Rightarrow> Db \<Rightarrow> 'a res \<times> Db" where
  "store_write f db = (case f db of Inl e \<Rightarrow> (Inl e, db) | Inr (x, db') \<Rightarrow> (Inr x, db'))"

definition store_apply :: "prims \<Rightarrow> nat \<Rightarrow> SignedTransaction list \<Rightarrow> Authoriser \<Rightarrow> Db \<Rightarrow> Applied res \<times> Db" where
  "store_apply c fuel batch auth db = store_write (apply_within c fuel batch auth) db"

definition store_commit_block ::
  "prims \<Rightarrow> nat \<Rightarrow> int \<Rightarrow> int \<Rightarrow> bytes \<Rightarrow> digest \<Rightarrow> SignedTransaction list \<Rightarrow> Authoriser \<Rightarrow> Db \<Rightarrow> Applied res \<times> Db" where
  "store_commit_block c fuel block_num first_height block_bytes block_hash batch auth db =
     store_write (commit_block c fuel block_num first_height block_bytes block_hash batch auth) db"

definition store_gc_below :: "int \<Rightarrow> Db \<Rightarrow> int res \<times> Db" where
  "store_gc_below pivot db = store_write (gc_below pivot) db"

definition store_provision :: "public_key \<Rightarrow> bytes list \<Rightarrow> Db \<Rightarrow> unit res \<times> Db" where
  "store_provision manager seeds db =
     store_write (\<lambda>db. rbind (provision manager seeds db) (\<lambda>db'. Inr ((), db'))) db"

text \<open>\<^verbatim>\<open>Store.replay\<close> returns why it refused, or nothing; other exceptions pass.\<close>

definition store_replay :: "prims \<Rightarrow> Entry list \<Rightarrow> Db \<Rightarrow> bool res \<times> Db" where
  "store_replay c items db =
     (case store_write (\<lambda>db. rbind (replay c items db) (\<lambda>db'. Inr ((), db'))) db of
        (Inl ReplayRefusedError, db') \<Rightarrow> (Inr True, db')
      | (Inl e, db') \<Rightarrow> (Inl e, db')
      | (Inr (), db') \<Rightarrow> (Inr False, db'))"

text \<open>\<^verbatim>\<open>rebuild\<close>: a fresh store with the same anchor and the log replayed.\<close>

definition rebuild :: "prims \<Rightarrow> Db \<Rightarrow> Db res" where
  "rebuild c db =
     rbind (sr_anchor db) (\<lambda>a.
     rbind (fst (store_provision a [] db_empty)) (\<lambda>_.
     rbind (sr_entries db 1 None) (\<lambda>es.
     rbind (fst (store_replay c es (snd (store_provision a [] db_empty)))) (\<lambda>_.
     Inr (snd (store_replay c es (snd (store_provision a [] db_empty))))))))"

end
