(* ===== verification/Store_Inv.thy ===== *)
theory Store_Inv
  imports Layer_View Store
begin

text \<open>
  The invariant of the store and what each write keeps of it: the \<^verbatim>\<open>live\<close> table is well
  formed, the memo agrees with it, and the accumulators are those of the table and the log. The
  locale \<open>state_view\<close> is the contract of anything that can be settled against: it shows a table.
  The store and the layer both provide it, and \<open>view_pair\<close> compares two providers.
\<close>

definition db_ok :: "prims \<Rightarrow> Db \<Rightarrow> bool" where
  "db_ok c db \<longleftrightarrow>
     table_ok c (db_live db) \<and> memo_ok c (db_live db) (db_memo db) \<and>
     get_meta db ''acc'' ACC_IDENTITY = acc_sum c (db_live db) \<and>
     (\<forall>r \<in> set (db_live db). in_range (lr_store r))"

definition log_ok :: "accumulator set \<Rightarrow> Db \<Rightarrow> bool" where
  "log_ok G db \<longleftrightarrow> get_meta db ''acc_log'' ACC_IDENTITY \<in> G"

lemma sql_int_in_range [simp]: "in_range n \<Longrightarrow> sql_int n = Inr ()"
  by (simp add: sql_int_def in_range_def guard_exn_def)

lemma sql_int_out [simp]: "\<not> in_range n \<Longrightarrow> sql_int n = Inl OverflowError"
  by (auto simp: sql_int_def in_range_def guard_exn_def)

lemma sr_get_eq:
  "sr_get db st nm = (if in_range st then Inr (live_get (db_live db) st nm) else Inl OverflowError)"
  by (simp add: sr_get_def)

lemma acc_lengthI: "acc_laws c G \<Longrightarrow> a \<in> G \<Longrightarrow> Accumulator a = Inr a"
  by (simp add: fixed_def acc_length)

lemma acc_sum_Accumulator: "acc_laws c G \<Longrightarrow> Accumulator (acc_sum c rows) = Inr (acc_sum c rows)"
  using acc_sum_in acc_lengthI by blast

section \<open>Views\<close>

locale state_view =
  fixes prims_of :: "'s \<Rightarrow> prims" and view :: "'s \<Rightarrow> View" and table :: "'s \<Rightarrow> live_row list" and ok :: "'s \<Rightarrow> bool"
  assumes shown: "ok s \<Longrightarrow> view_ok (prims_of s) (table s) (view s)"
begin

lemma table: "ok s \<Longrightarrow> table_ok (prims_of s) (table s)"
  using shown by (simp add: view_ok_def)

lemma root: "ok s \<Longrightarrow> vw_hash_under (view s) (replicate 32 0) 0 = Inr (node_hash (prims_of s) (table s) (replicate 32 0) 0)"
  using shown by (simp add: view_ok_def canonical_def lo_of_def bounds_def)

lemma accumulator: "ok s \<Longrightarrow> vw_accumulator (view s) = Inr (acc_sum (prims_of s) (table s))"
  using shown by (simp add: view_ok_def)

end

text \<open>Two views of the same contents have one state root and one accumulator.\<close>

locale view_pair =
  a: state_view ca va ta oka + b: state_view cb vb tb okb
  for ca :: "'s \<Rightarrow> prims" and va ta oka and cb :: "'t \<Rightarrow> prims" and vb tb okb
begin

lemma same_mset:
  assumes "oka s" "okb t" "ca s = cb t" "\<And>st nm. live_get (ta s) st nm = live_get (tb t) st nm"
  shows "mset (ta s) = mset (tb t)"
proof -
  have tabs: "table_ok (ca s) (ta s)" "table_ok (ca s) (tb t)" using a.table[OF assms(1)] b.table[OF assms(2)] assms(3) by auto
  show ?thesis by (rule table_mset_eq[OF tabs table_eqI[OF tabs assms(4)]])
qed

lemma same_commitments:
  assumes "oka s" "okb t" "ca s = cb t" "acc_laws (ca s) G" "\<And>st nm. live_get (ta s) st nm = live_get (tb t) st nm"
  shows "vw_hash_under (va s) (replicate 32 0) 0 = vw_hash_under (vb t) (replicate 32 0) 0"
    and "vw_accumulator (va s) = vw_accumulator (vb t)"
proof -
  note m = same_mset[OF assms(1-3,5)]
  have "rows_ok (ta s)" using a.table[OF assms(1)] by (simp add: table_ok_def)
  moreover have "mset (subtree (ta s) (replicate 32 0) 0) = mset (subtree (tb t) (replicate 32 0) 0)"
    using m by (simp add: subtree_def flip: mset_filter)
  ultimately have "node_hash (ca s) (ta s) (replicate 32 0) 0 = node_hash (ca s) (tb t) (replicate 32 0) 0"
    by (intro node_hash_mset) auto
  then show "vw_hash_under (va s) (replicate 32 0) 0 = vw_hash_under (vb t) (replicate 32 0) 0"
    using a.root[OF assms(1)] b.root[OF assms(2)] assms(3) by simp
  show "vw_accumulator (va s) = vw_accumulator (vb t)"
    using a.accumulator[OF assms(1)] b.accumulator[OF assms(2)] acc_sum_mset[OF assms(4) m] assms(3) by simp
qed

end

lemma store_view_ok:
  assumes "db_ok c db" "digest_width c" "acc_laws c G"
  shows "view_ok c (db_live db) (store_view c db)"
proof -
  have db: "table_ok c (db_live db)" "rows_ok (db_live db)" "memo_ok c (db_live db) (db_memo db)"
    "get_meta db ''acc'' ACC_IDENTITY = acc_sum c (db_live db)"
    using assms(1) by (auto simp: db_ok_def table_ok_def)
  have "sr_hash_under c db p d = Inr (node_hash c (db_live db) p d)" if "canonical p d" for p d
    using hash_under_node_hash[OF assms(2) db(2,3), of p d False] that
    by (auto simp: sr_hash_under_def canonical_def simp del: hash_under.simps)
  then show ?thesis
    using db acc_sum_Accumulator[OF assms(3)]
    by (simp add: view_ok_def store_view_def sr_get_eq sr_rows_in_path_range_def sr_accumulator_def)
qed

definition store_shows :: "prims \<times> accumulator set \<times> Db \<Rightarrow> bool" where
  "store_shows = (\<lambda>(c, G, db). db_ok c db \<and> digest_width c \<and> acc_laws c G)"

definition layer_shows :: "prims \<times> accumulator set \<times> Db \<times> Layer \<Rightarrow> bool" where
  "layer_shows = (\<lambda>(c, G, db, L).
     store_shows (c, G, db) \<and> ov_base L = store_view c db \<and> delta_ok c (ov_delta L) (db_live db) \<and>
     memo_ok c (apply_delta c (ov_delta L) (db_live db)) (ly_memo L))"

interpretation sv: state_view fst "\<lambda>(c, G, db). store_view c db" "\<lambda>(c, G, db). db_live db" store_shows
  by unfold_locales (auto simp: store_shows_def intro: store_view_ok)

interpretation lv: state_view fst "\<lambda>(c, G, db, L). layer_view c 0 L"
  "\<lambda>(c, G, db, L). apply_delta c (ov_delta L) (db_live db)" layer_shows
proof
  fix s assume "layer_shows s"
  then obtain c G db L where s: "s = (c, G, db, L)" and ok: "db_ok c db" "digest_width c" "acc_laws c G"
      and L: "ov_base L = store_view c db" "delta_ok c (ov_delta L) (db_live db)"
        "memo_ok c (apply_delta c (ov_delta L) (db_live db)) (ly_memo L)"
    by (cases s) (auto simp: layer_shows_def store_shows_def)
  have "view_ok c (db_live db) (ov_base L)" unfolding L(1) by (rule store_view_ok[OF ok])
  then show "view_ok (fst s) ((\<lambda>(c, G, db, L). apply_delta c (ov_delta L) (db_live db)) s)
      ((\<lambda>(c, G, db, L). layer_view c 0 L) s)"
    using layer_view_ok[OF _ L(2) ok(2,3) L(3)] by (simp add: s)
qed

interpretation store_layer: view_pair
  fst "\<lambda>(c, G, db). store_view c db" "\<lambda>(c, G, db). db_live db" store_shows
  fst "\<lambda>(c, G, db, L). layer_view c 0 L" "\<lambda>(c, G, db, L). apply_delta c (ov_delta L) (db_live db)" layer_shows
  by unfold_locales

section \<open>Committing mutations\<close>

lemma live_upsert_table_set:
  assumes "table_ok c rows" "inj_on (key_path c) (insert k (row_key ` set rows))"
  shows "live_upsert (mk_row c k x) rows = table_set c k (Some x) rows"
proof -
  have "lr_path r \<noteq> key_path c k \<longleftrightarrow> row_key r \<noteq> k" if "r \<in> set rows" for r
    using that keyed_path[of c rows r] assms inj_onD[OF assms(2), of "row_key r" k] by (auto simp: table_ok_def)
  then have "filter (\<lambda>q. \<not> (lr_store q = fst k \<and> lr_name q = snd k) \<and> lr_path q \<noteq> key_path c k) rows =
      filter (\<lambda>r. row_key r \<noteq> k) rows"
    by (intro filter_cong) (auto simp: row_key_def)
  then show ?thesis by (simp add: live_upsert_def table_set_def held_rows_def key_path_def)
qed

lemma live_delete_table_set: "live_delete st nm rows = table_set c (st, nm) None rows"
  by (simp add: live_delete_def table_set_def held_rows_def row_key_def)

lemma table_set_other_paths:
  assumes "table_ok c rows" "inj_on (key_path c) (insert k (row_key ` set rows))"
  shows "filter (\<lambda>r. lr_path r \<noteq> key_path c k) rows = filter (\<lambda>r. lr_path r \<noteq> key_path c k) (table_set c k v rows)"
proof -
  have "lr_path r \<noteq> key_path c k \<longleftrightarrow> row_key r \<noteq> k" if "r \<in> set rows" for r
    using that keyed_path[of c rows r] assms inj_onD[OF assms(2), of "row_key r" k] by (auto simp: table_ok_def)
  then show ?thesis
    by (auto simp: table_set_def held_rows_def key_path_def intro!: filter_cong split: option.split)
qed

fun mut_in_range :: "Mutation \<Rightarrow> bool" where
  "mut_in_range (Set st nm v e) = (in_range st \<and> 0 \<le> e \<and> e < 2 ^ 63)"
| "mut_in_range (Del st nm) = in_range st"

lemma mut_in_range_store: "mut_in_range m \<Longrightarrow> in_range (mut_store m)"
  by (cases m) auto

lemma held_after_epoch_ok: "mut_in_range m \<Longrightarrow> held_epoch_ok (held_after m cred)"
  by (cases m) (auto simp: held_after_def)

lemma commit_mutation_table:
  assumes "table_ok c (db_live db)" "memo_ok c (db_live db) (db_memo db)" "acc = acc_sum c (db_live db)"
    "digest_width c" "acc_laws c G" "mut_in_range m"
    "inj_on (key_path c) (insert (mut_key m) (row_key ` set (db_live db)))"
  obtains memo where
    "commit_mutation c cred m (db, acc) =
       Inr (db\<lparr>db_memo := memo, db_live := table_set c (mut_key m) (held_after m cred) (db_live db)\<rparr>,
            acc_sum c (table_set c (mut_key m) (held_after m cred) (db_live db)))"
    "memo_ok c (table_set c (mut_key m) (held_after m cred) (db_live db)) memo"
proof -
  let ?k = "mut_key m" and ?v = "held_after m cred"
  let ?rows = "table_set c ?k ?v (db_live db)"
  have len: "length (key_path c ?k) = 32" using length_path_of[OF assms(4)] by (simp add: key_path_def)
  have rok: "rows_ok (db_live db)" using assms(1) by (simp add: table_ok_def)
  have same: "mset (filter (\<lambda>r. lr_path r \<noteq> key_path c ?k) (db_live db)) = mset (filter (\<lambda>r. lr_path r \<noteq> key_path c ?k) ?rows)"
    by (rule arg_cong[OF table_set_other_paths[OF assms(1,7)]])
  obtain memo where memo: "invalidate (key_path c ?k) (db_memo db) = Inr memo" "memo_ok c ?rows memo"
    by (rule invalidate_keeps_memo_ok[OF rok assms(2) len same])
  have acc: "acc_with c ?k ?v (acc_without c ?k (live_get (db_live db) (mut_store m) (mut_name m)) acc) = acc_sum c ?rows"
    using acc_sum_table_set[OF assms(5,1), of ?k ?v] assms(3) by simp
  have up: "m = Set st nm v e \<Longrightarrow> live_upsert \<lparr>lr_store = st, lr_name = nm, lr_value = v, lr_epoch = e,
      lr_path = path_of c st nm, lr_cred = cred\<rparr> (db_live db) = ?rows" for st nm v e
    using live_upsert_table_set[OF assms(1,7), of "\<lparr>held_value = v, held_epoch = e, held_cred = cred\<rparr>"]
    by (simp add: held_after_def mk_row_def)
  have "commit_mutation c cred m (db, acc) = Inr (db\<lparr>db_memo := memo, db_live := ?rows\<rparr>, acc_sum c ?rows)"
  proof (cases m)
    case (Set st nm v e)
    then have "in_range st" "in_range e" using assms(6) by (auto simp: in_range_def)
    then show ?thesis
      using memo(1) acc up[OF Set] Set
      by (simp add: commit_mutation_def sr_get_eq key_path_def acc_with_def acc_without_def held_after_def split: option.splits)
  next
    case (Del st nm)
    then have "in_range st" using assms(6) by simp
    then show ?thesis
      using memo(1) acc Del live_delete_table_set[of st nm "db_live db" c]
      by (simp add: commit_mutation_def sr_get_eq key_path_def acc_with_def acc_without_def held_after_def split: option.splits)
  qed
  with memo(2) show thesis using that by blast
qed

end
