(* ===== verification/Preview.thy ===== *)
theory Preview
  imports Store_Inv
begin

text \<open>
  The preview a layer gives and the commit the store makes are the same computation: settling a
  batch on a layer over the store and settling it in the store accept the same transactions, in the
  same order and for the same reasons, and end with the same rows, state root and accumulator. This
  is what lets a node sign the root of a block before any node has written it.
\<close>

section \<open>Evaluation depends on the reader through its lookups only\<close>

definition auth_by_get :: "Authoriser \<Rightarrow> bool" where
  "auth_by_get auth \<longleftrightarrow>
     (\<forall>r r'. rd_get r = rd_get r' \<longrightarrow>
        au_may_write auth r = au_may_write auth r' \<and> (\<forall>t. au_current_epoch auth t r = au_current_epoch auth t r'))"

lemma auth_by_getD:
  assumes "auth_by_get auth" "rd_get r = rd_get r'"
  shows "au_may_write auth r = au_may_write auth r'" "au_current_epoch auth t r = au_current_epoch auth t r'"
  using assms unfolding auth_by_get_def by blast+

lemma mgmt_auth_by_get: "auth_by_get (mgmt_auth c m)"
  unfolding auth_by_get_def
proof (intro allI impI)
  fix r r' :: Reader
  assume get: "rd_get r = rd_get r'"
  have grant: "read_grant m who (Some r) = read_grant m who (Some r')" for who
    unfolding read_grant_def option.case get ..
  have cert: "verify_cert c m x (Some r) = verify_cert c m x (Some r')" for x
    unfolding verify_cert_def grant ..
  have "valid_grant c m who (Some r) = valid_grant c m who (Some r')" for who
    unfolding valid_grant_def grant_cert_ok_def cert grant ..
  then have "may_write c m r = may_write c m r'"
    by (intro ext) (simp add: may_write_def)
  moreover have "current_epoch m t (Some r) = current_epoch m t (Some r')" for t
    unfolding current_epoch_def option.case get ..
  ultimately show "au_may_write (mgmt_auth c m) r = au_may_write (mgmt_auth c m) r' \<and>
      (\<forall>t. au_current_epoch (mgmt_auth c m) t r = au_current_epoch (mgmt_auth c m) t r')"
    by (simp add: mgmt_auth_def)
qed

lemma holds_cong: "rd_get r = rd_get r' \<Longrightarrow> holds c r g = holds c r' g"
  by (cases g) simp_all

lemma all_hold_cong: "rd_get r = rd_get r' \<Longrightarrow> all_hold c r gs = all_hold c r' gs"
  by (induction gs) (simp_all add: holds_cong[of r r'] cong: if_cong)

lemma data_row_shape_cong:
  assumes "auth_by_get auth" "rd_get r = rd_get r'"
  shows "data_row_shape r auth m = data_row_shape r' auth m"
proof -
  have "epoch_step r auth v t = epoch_step r' auth v t" for v t
    unfolding epoch_step_def auth_by_getD(2)[OF assms] ..
  then show ?thesis unfolding data_row_shape_def auth_by_getD(2)[OF assms] by (simp cong: Mutation.case_cong option.case_cong if_cong)
qed

lemma overlay_reader_get: "rd_get (overlay_reader fuel ov) = ov_get ov"
  by (simp add: overlay_reader_def)

lemma ov_get_rebase: "rd_get r = rd_get (ov_base ov) \<Longrightarrow> ov_get (ov\<lparr>ov_base := r\<rparr>) = ov_get ov"
  by (intro ext) (simp add: ov_get_def split: option.split)

lemma evaluate_steps_rebase:
  assumes "auth_by_get auth"
  shows "rd_get r = rd_get (ov_base ov) \<Longrightarrow>
    evaluate_steps c fuel auth who raw i steps (ov\<lparr>ov_base := r\<rparr>) =
      rbind (evaluate_steps c fuel auth who raw i steps ov) (\<lambda>(v, l). Inr (v, l\<lparr>ov_base := r\<rparr>))"
proof (induction steps arbitrary: i ov)
  case (Cons step steps)
  let ?V = "overlay_reader fuel ov" and ?V' = "overlay_reader fuel (ov\<lparr>ov_base := r\<rparr>)"
  have get: "rd_get ?V' = rd_get ?V" by (simp add: overlay_reader_get ov_get_rebase[OF Cons.prems])
  note same = auth_by_getD(1)[OF assms get] data_row_shape_cong[OF assms get] all_hold_cong[OF get]
  have app: "ov_apply (ov\<lparr>ov_base := r\<rparr>) m raw = rbind (ov_apply ov m raw) (\<lambda>l. Inr (l\<lparr>ov_base := r\<rparr>))" for m
    by (simp add: ov_apply_def)
  have base: "ov_apply ov m raw = Inr l \<Longrightarrow> rd_get r = rd_get (ov_base l)" for m l
    using Cons.prems by (auto simp: ov_apply_def split: if_splits)
  have app_rec: "rbind (ov_apply (ov\<lparr>ov_base := r\<rparr>) m raw) (evaluate_steps c fuel auth who raw (i + 1) steps) =
      rbind (rbind (ov_apply ov m raw) (evaluate_steps c fuel auth who raw (i + 1) steps)) (\<lambda>(v, l). Inr (v, l\<lparr>ov_base := r\<rparr>))" for m
    unfolding app rbind_assoc using Cons.IH[OF base] by (auto cong: rbind_cong)
  show ?case
    using Cons.IH[OF Cons.prems] app_rec[of "step_mutation step"]
    by (auto simp: same Let_def rbind_assoc split: option.splits intro!: rbind_cong)
qed simp

text \<open>
  The fuel of \<^const>\<open>base_entries\<close> plays no part in settlement: guards and authority read single rows,
  and never the rows of a prefix.
\<close>

lemma evaluate_steps_fuel:
  assumes "auth_by_get auth"
  shows "evaluate_steps c fuel auth who raw i steps ov = evaluate_steps c fuel' auth who raw i steps ov"
proof (induction steps arbitrary: i ov)
  case (Cons step steps)
  have get: "rd_get (overlay_reader fuel ov) = rd_get (overlay_reader fuel' ov)" by (simp add: overlay_reader_get)
  show ?case
    unfolding evaluate_steps.simps Let_def auth_by_getD(1)[OF assms get] data_row_shape_cong[OF assms get] all_hold_cong[OF get] Cons.IH ..
qed simp

lemma evaluate_fuel: "auth_by_get auth \<Longrightarrow> evaluate c fuel r tx auth = evaluate c fuel' r tx auth"
  by (simp add: evaluate_def evaluate_steps_fuel[of auth c fuel _ _ _ _ _ fuel'])

lemma apply_loop_fuel:
  "auth_by_get auth \<Longrightarrow> apply_loop c fuel auth batch seen idx acc out db = apply_loop c fuel' auth batch seen idx acc out db"
proof (induction batch arbitrary: seen idx acc out db)
  case (Cons tx batch)
  show ?case unfolding apply_loop.simps evaluate_fuel[OF Cons.prems, of c fuel _ tx fuel'] Cons.IH[OF Cons.prems] ..
qed simp

lemma commit_block_fuel:
  "commit_block c fuel n fh bs hsh batch (mgmt_auth c m) db = commit_block c fuel' n fh bs hsh batch (mgmt_auth c m) db"
  unfolding commit_block_def apply_within_def apply_loop_fuel[OF mgmt_auth_by_get, of c fuel c m batch _ _ _ _ _ fuel'] ..

section \<open>What an evaluation writes\<close>

definition writes :: "bytes \<Rightarrow> Mutation list \<Rightarrow> key \<Rightarrow> Held option option" where
  "writes cred ms = foldl (\<lambda>f m. f(mut_key m \<mapsto> held_after m cred)) Map.empty ms"

lemma writes_snoc: "writes cred (ms @ [m]) = (writes cred ms)(mut_key m \<mapsto> held_after m cred)"
  by (simp add: writes_def)

text \<open>The overlay an evaluation leaves: a list of the steps' mutations logged, and their writes as the delta.\<close>

definition extends_by :: "'b Overlay \<Rightarrow> bytes \<Rightarrow> Mutation list \<Rightarrow> 'b Overlay \<Rightarrow> bool" where
  "extends_by ov raw ms ov' \<longleftrightarrow>
     ov_log ov' = ov_log ov @ ms \<and> ov_frozen ov' = ov_frozen ov \<and> ov_base ov' = ov_base ov \<and>
     map_of (ov_delta ov') = map_of (ov_delta ov) ++ writes raw ms \<and>
     (distinct (map fst (ov_delta ov)) \<longrightarrow> distinct (map fst (ov_delta ov')))"

lemma extends_by_refl: "extends_by ov raw [] ov"
  by (simp add: extends_by_def writes_def)

lemma writes_append: "writes cred (ms @ ns) = writes cred ms ++ writes cred ns"
proof (induction ns rule: rev_induct)
  case (snoc n ns)
  then show ?case using writes_snoc[of cred "ms @ ns" n] by (auto simp: writes_snoc map_add_def)
qed (simp add: writes_def)

lemma extends_by_trans:
  "extends_by a raw ms b \<Longrightarrow> extends_by b raw ns d \<Longrightarrow> extends_by a raw (ms @ ns) d"
  by (auto simp: extends_by_def writes_append)

lemma extends_by_apply: "ov_apply ov m raw = Inr ov' \<Longrightarrow> extends_by ov raw [m] ov'"
  by (auto simp: ov_apply_def extends_by_def writes_def update_conv' fun_eq_iff map_add_def distinct_update split: if_splits)

lemma evaluate_steps_extends:
  "evaluate_steps c fuel auth who raw i steps ov = Inr (v, ov') \<Longrightarrow>
     \<exists>ms. extends_by ov raw ms ov' \<and> set ms \<subseteq> step_mutation ` set steps"
proof (induction steps arbitrary: i ov)
  case Nil
  then show ?case using extends_by_refl by (intro exI[of _ "[]"]) auto
next
  case (Cons step steps)
  let ?m = "step_mutation step"
  consider (stop) "ov' = ov"
    | (skip) "evaluate_steps c fuel auth who raw (i + 1) steps ov = Inr (v, ov')"
    | (go) ov1 where "ov_apply ov ?m raw = Inr ov1" "evaluate_steps c fuel auth who raw (i + 1) steps ov1 = Inr (v, ov')"
    using Cons.prems by (auto simp: Let_def rbind_Inr_conv split: if_splits option.splits)
  then show ?case
  proof cases
    case stop
    then show ?thesis using extends_by_refl by (intro exI[of _ "[]"]) auto
  next
    case skip
    then show ?thesis using Cons.IH by fastforce
  next
    case go
    then obtain ms where "extends_by ov1 raw ms ov'" "set ms \<subseteq> step_mutation ` set steps" using Cons.IH by blast
    then show ?thesis using extends_by_trans[OF extends_by_apply[OF go(1)]] by (intro exI[of _ "?m # ms"]) auto
  qed
qed

lemma evaluate_extends:
  assumes "evaluate c fuel r tx auth = Inr (v, layer)"
  shows "map_of (ov_delta layer) = writes (stx_raw tx) (ov_log layer)" "distinct (map fst (ov_delta layer))"
    "set (ov_log layer) \<subseteq> set (tx_mutations (stx_txn tx))"
proof -
  have "\<exists>ms. extends_by (overlay_new r) (stx_raw tx) ms layer \<and> set ms \<subseteq> step_mutation ` set (stx_txn tx)"
    using assms evaluate_steps_extends extends_by_refl
    by (fastforce simp: evaluate_def split: if_splits)
  then obtain ms where "extends_by (overlay_new r) (stx_raw tx) ms layer" "set ms \<subseteq> step_mutation ` set (stx_txn tx)"
    by blast
  then show "map_of (ov_delta layer) = writes (stx_raw tx) (ov_log layer)" "distinct (map fst (ov_delta layer))"
    "set (ov_log layer) \<subseteq> set (tx_mutations (stx_txn tx))"
    by (auto simp: extends_by_def overlay_new_def tx_mutations_def)
qed

lemma evaluate_rebase:
  assumes "auth_by_get auth" "rd_get r = rd_get r'"
  shows "evaluate c fuel r tx auth = rbind (evaluate c fuel r' tx auth) (\<lambda>(v, l). Inr (v, l\<lparr>ov_base := r\<rparr>))"
  using evaluate_steps_rebase[OF assms(1), of r "overlay_new r'"] assms(2)
  by (simp add: evaluate_def overlay_new_def)

section \<open>What a commit writes\<close>

text \<open>The state of the store inside a write transaction, its accumulator still in hand.\<close>

definition running :: "prims \<Rightarrow> accumulator set \<Rightarrow> key set \<Rightarrow> Db \<Rightarrow> accumulator \<Rightarrow> bool" where
  "running c G K db acc \<longleftrightarrow>
     table_ok c (db_live db) \<and> memo_ok c (db_live db) (db_memo db) \<and> acc = acc_sum c (db_live db) \<and>
     log_ok G db \<and> row_key ` set (db_live db) \<subseteq> K"

lemma commit_mutations_running:
  assumes "digest_width c" "acc_laws c G" "inj_on (key_path c) K"
  shows "running c G K db acc \<Longrightarrow> \<forall>m \<in> set ms. mut_in_range m \<and> mut_key m \<in> K \<Longrightarrow>
    \<exists>rows memo acc'.
      commit_mutations c cred ms (db, acc) = Inr (db\<lparr>db_memo := memo, db_live := rows\<rparr>, acc') \<and>
      running c G K (db\<lparr>db_memo := memo, db_live := rows\<rparr>) acc' \<and>
      (\<forall>st nm. live_get rows st nm = (case writes cred ms (st, nm) of None \<Rightarrow> live_get (db_live db) st nm | Some v \<Rightarrow> v))"
proof (induction ms arbitrary: db acc)
  case Nil
  then show ?case
    by (intro exI[of _ "db_live db"] exI[of _ "db_memo db"] exI[of _ acc]) (simp add: writes_def)
next
  case (Cons m ms)
  have m: "mut_in_range m" "mut_key m \<in> K" using Cons.prems(2) by auto
  have run: "table_ok c (db_live db)" "memo_ok c (db_live db) (db_memo db)" "acc = acc_sum c (db_live db)"
      "row_key ` set (db_live db) \<subseteq> K" "log_ok G db"
    using Cons.prems(1) by (auto simp: running_def)
  let ?R = "table_set c (mut_key m) (held_after m cred) (db_live db)"
  have inj: "inj_on (key_path c) (insert (mut_key m) (row_key ` set (db_live db)))"
    by (rule inj_on_subset[OF assms(3)]) (use m(2) run(4) in auto)
  obtain memo where memo: "commit_mutation c cred m (db, acc) = Inr (db\<lparr>db_memo := memo, db_live := ?R\<rparr>, acc_sum c ?R)"
      "memo_ok c ?R memo"
    by (rule commit_mutation_table[OF run(1-3) assms(1,2) m(1) inj])
  have "table_ok c ?R" by (rule table_ok_set[OF run(1) assms(1) held_after_epoch_ok[OF m(1)] inj])
  moreover have "row_key ` set ?R \<subseteq> K" using keys_table_set[of c "mut_key m" "held_after m cred" "db_live db"] m(2) run(4) by auto
  ultimately have "running c G K (db\<lparr>db_memo := memo, db_live := ?R\<rparr>) (acc_sum c ?R)"
    using memo(2) run(5) by (simp add: running_def log_ok_def get_meta_def)
  then have "\<exists>rows memo' acc'.
    commit_mutations c cred ms (db\<lparr>db_memo := memo, db_live := ?R\<rparr>, acc_sum c ?R) =
        Inr (db\<lparr>db_memo := memo', db_live := rows\<rparr>, acc') \<and>
    running c G K (db\<lparr>db_memo := memo', db_live := rows\<rparr>) acc' \<and>
    (\<forall>st nm. live_get rows st nm = (case writes cred ms (st, nm) of None \<Rightarrow> live_get ?R st nm | Some v \<Rightarrow> v))"
    using Cons.IH[of "db\<lparr>db_memo := memo, db_live := ?R\<rparr>" "acc_sum c ?R"] Cons.prems(2) by (simp cong: option.case_cong)
  then obtain rows memo' acc' where IH:
    "commit_mutations c cred ms (db\<lparr>db_memo := memo, db_live := ?R\<rparr>, acc_sum c ?R) =
        Inr (db\<lparr>db_memo := memo', db_live := rows\<rparr>, acc')"
    "running c G K (db\<lparr>db_memo := memo', db_live := rows\<rparr>) acc'"
    "\<forall>st nm. live_get rows st nm = (case writes cred ms (st, nm) of None \<Rightarrow> live_get ?R st nm | Some v \<Rightarrow> v)"
    by blast
  have "writes cred (m # ms) k = (case writes cred ms k of None \<Rightarrow> if k = mut_key m then Some (held_after m cred) else None | Some v \<Rightarrow> Some v)" for k
    using writes_append[of cred "[m]" ms] by (auto simp: map_add_def writes_def split: option.splits)
  then have "live_get rows st nm =
      (case writes cred (m # ms) (st, nm) of None \<Rightarrow> live_get (db_live db) st nm | Some v \<Rightarrow> v)" for st nm
    using IH(3) by (simp add: live_get_table_set split: option.split)
  then show ?case using IH(1,2) memo(1) by auto
qed

lemma commit_tx_running:
  assumes "digest_width c" "acc_laws c G" "inj_on (key_path c) K" "running c G K db acc"
    and ms: "\<forall>m \<in> set ms. mut_in_range m \<and> mut_key m \<in> K"
    and entry: "in_range idx" "in_range (stx_ts tx)" "\<forall>e \<in> set (db_entry db). en_idx e < idx" "op_hash c tx \<notin> en_op_hash ` set (db_entry db)"
  obtains db' acc' where "commit_tx c idx tx ms acc db = Inr (db', acc')" "running c G K db' acc'"
    "\<forall>st nm. live_get (db_live db') st nm = (case writes (stx_raw tx) ms (st, nm) of None \<Rightarrow> live_get (db_live db) st nm | Some v \<Rightarrow> v)"
    "db_entry db' = db_entry db @ [\<lparr>en_idx = idx, en_op_hash = op_hash c tx, en_raw = stx_raw tx, en_author = stx_author tx, en_ts = stx_ts tx\<rparr>]"
proof -
  let ?e = "\<lparr>en_idx = idx, en_op_hash = op_hash c tx, en_raw = stx_raw tx, en_author = stx_author tx, en_ts = stx_ts tx\<rparr>"
  let ?a = "get_meta db ''acc_log'' ACC_IDENTITY"
  let ?db = "set_meta ''acc_log'' (acc_add c ?a (log_element c idx (op_hash c tx))) (db\<lparr>db_entry := db_entry db @ [?e]\<rparr>)"
  have a: "?a \<in> G" using assms(4) by (simp add: running_def log_ok_def)
  have "insert_entry idx (op_hash c tx) (stx_raw tx) (stx_author tx) (stx_ts tx) db = Inr (db\<lparr>db_entry := db_entry db @ [?e]\<rparr>)"
    using entry by (force simp: insert_entry_def list_ex_iff)
  moreover have "log_add c idx (op_hash c tx) (db\<lparr>db_entry := db_entry db @ [?e]\<rparr>) = Inr ?db"
    using acc_lengthI[OF assms(2) a] by (simp add: log_add_def sr_log_accumulator_def get_meta_def)
  ultimately have tx: "commit_tx c idx tx ms acc db = commit_mutations c (stx_raw tx) ms (?db, acc)"
    by (simp add: commit_tx_def)
  have "acc_add c ?a (log_element c idx (op_hash c tx)) \<in> G"
    using assms(2) a by (simp add: acc_add_in acc_element_in log_element_def)
  then have "running c G K ?db acc"
    using assms(4) by (simp add: running_def set_meta_def log_ok_def get_meta_def)
  from commit_mutations_running[OF assms(1-3) this ms, of "stx_raw tx"] show thesis
    using that by (auto simp: tx set_meta_def cong: option.case_cong)
qed

section \<open>The two loops\<close>

text \<open>The overlay \<open>target\<close>, over a reader of the rows \<open>base\<close>, shows what the store holds now.\<close>

definition mirrored :: "key set \<Rightarrow> live_row list \<Rightarrow> ('b, 'a) Overlay_scheme \<Rightarrow> Db \<Rightarrow> bool" where
  "mirrored K base target db \<longleftrightarrow>
     \<not> ov_frozen target \<and> distinct (map fst (ov_delta target)) \<and>
     fst ` set (ov_delta target) \<subseteq> K \<and> (\<forall>kv \<in> set (ov_delta target). held_epoch_ok (snd kv)) \<and>
     (\<forall>st nm. live_get (db_live db) st nm =
        (case map_of (ov_delta target) (st, nm) of None \<Rightarrow> live_get base st nm | Some v \<Rightarrow> v))"

lemma map_of_dict_update: "map_of (dict_update d child) = map_of d ++ map_of (rev child)"
proof (induction child rule: rev_induct)
  case (snoc kv child)
  then show ?case by (cases kv) (auto simp: dict_update_def update_conv' map_add_def)
qed (simp add: dict_update_def)

lemma distinct_dict_update: "distinct (map fst d) \<Longrightarrow> distinct (map fst (dict_update d child))"
proof (induction child rule: rev_induct)
  case (snoc kv child)
  then show ?case by (cases kv) (simp add: dict_update_def distinct_update)
qed (simp add: dict_update_def)

lemma writes_dom: "writes cred ms k = Some v \<Longrightarrow> \<exists>m \<in> set ms. k = mut_key m \<and> v = held_after m cred"
proof (induction ms rule: rev_induct)
  case (snoc m ms)
  then show ?case by (auto simp: writes_snoc split: if_splits)
qed (simp add: writes_def)

lemma mirrored_absorb:
  assumes "mirrored K base target db" "ov_absorb target layer = Inr target'"
    and layer: "map_of (ov_delta layer) = writes raw ms" "distinct (map fst (ov_delta layer))"
    and ms: "\<forall>m \<in> set ms. mut_in_range m \<and> mut_key m \<in> K"
    and db': "\<And>st nm. live_get (db_live db') st nm = (case writes raw ms (st, nm) of None \<Rightarrow> live_get (db_live db) st nm | Some v \<Rightarrow> v)"
  shows "mirrored K base target' db'"
proof -
  let ?D = "dict_update (ov_delta target) (ov_delta layer)"
  have t: "ov_delta target' = ?D" "ov_frozen target' = ov_frozen target"
    using assms(2) by (auto simp: ov_absorb_def split: if_splits)
  have d: "distinct (map fst ?D)" using assms(1) by (simp add: distinct_dict_update mirrored_def)
  have map: "map_of ?D = map_of (ov_delta target) ++ writes raw ms"
    using layer by (simp add: map_of_dict_update map_of_rev_distinct)
  have "fst kv \<in> K \<and> held_epoch_ok (snd kv)" if kv: "kv \<in> set ?D" for kv
  proof -
    have "map_of ?D (fst kv) = Some (snd kv)" using kv d by simp
    then consider "writes raw ms (fst kv) = Some (snd kv)" | "map_of (ov_delta target) (fst kv) = Some (snd kv)"
      unfolding map by (auto simp: map_add_Some_iff)
    then show ?thesis
    proof cases
      case 1
      then show ?thesis using writes_dom ms held_after_epoch_ok by fastforce
    next
      case 2
      then have "kv \<in> set (ov_delta target)" using map_of_SomeD by fastforce
      then show ?thesis using assms(1) by (auto simp: mirrored_def)
    qed
  qed
  moreover have "live_get (db_live db') st nm = (case map_of ?D (st, nm) of None \<Rightarrow> live_get base st nm | Some v \<Rightarrow> v)" for st nm
    using assms(1) db' unfolding map mirrored_def by (simp add: map_add_def split: option.split)
  ultimately show ?thesis using assms(1) d t by (auto simp: mirrored_def)
qed

lemma mirrored_get:
  assumes "mirrored K (db_live db0) target db" "rd_get (ov_base target) = sr_get db0" "\<forall>k \<in> K. in_range (fst k)"
  shows "rd_get (overlay_reader fuel target) = sr_get db"
proof (intro ext)
  fix st nm
  have "map_of (ov_delta target) (st, nm) = None" if "\<not> in_range st"
    using that assms(1,3) by (force simp: mirrored_def map_of_eq_None_iff)
  then show "rd_get (overlay_reader fuel target) st nm = sr_get db st nm"
    using assms(1,2) by (cases "in_range st") (auto simp: overlay_reader_get ov_get_def sr_get_eq mirrored_def split: option.split)
qed

text \<open>What is asked of a batch: 64-bit stores, epochs and times, and keys with distinct paths.\<close>

definition batch_ok :: "key set \<Rightarrow> SignedTransaction list \<Rightarrow> bool" where
  "batch_ok K batch \<longleftrightarrow>
     (\<forall>tx \<in> set batch. in_range (stx_ts tx) \<and>
        (\<forall>m \<in> set (tx_mutations (stx_txn tx)). mut_in_range m \<and> mut_key m \<in> K))"

definition log_room :: "digest set \<Rightarrow> digest set \<Rightarrow> int \<Rightarrow> int \<Rightarrow> Db \<Rightarrow> bool" where
  "log_room H seen idx n db \<longleftrightarrow>
     0 \<le> idx \<and> idx + n < 2 ^ 63 \<and> (\<forall>e \<in> set (db_entry db). en_idx e \<le> idx) \<and>
     H \<inter> en_op_hash ` set (db_entry db) \<subseteq> seen"

text \<open>The outcomes of the two loops correspond.\<close>

definition same_outcome :: "prims \<Rightarrow> Screened \<Rightarrow> Applied \<Rightarrow> bool" where
  "same_outcome c sc out \<longleftrightarrow>
     map snd (ap_settled out) = map (op_hash c) (sc_survivors sc) \<and>
     map (\<lambda>d. (dr_op_hash d, Some (dr_why d))) (ap_dropped out) =
       map (\<lambda>r. (op_hash c (rj_tx r), vd_why (rj_verdict r))) (sc_rejects sc)"

lemma loops_agree:
  assumes given: "digest_width c" "acc_laws c G" "inj_on (key_path c) K" "\<forall>k \<in> K. in_range (fst k)" "auth_by_get auth"
  shows "running c G K db acc \<Longrightarrow> mirrored K (db_live db0) target db \<Longrightarrow> rd_get (ov_base target) = sr_get db0 \<Longrightarrow>
    batch_ok K batch \<Longrightarrow> log_room (op_hash c ` set batch) seen idx (int (length batch)) db \<Longrightarrow>
    same_outcome c \<lparr>sc_survivors = keep, sc_rejects = dropped\<rparr> out \<Longrightarrow>
    (case apply_to_loop c fuel auth batch target seen keep dropped of
       Inl e \<Rightarrow> apply_loop c fuel auth batch seen idx acc out db = Inl e
     | Inr (target', sc) \<Rightarrow> \<exists>out' acc' db'.
         apply_loop c fuel auth batch seen idx acc out db = Inr (out', acc', db') \<and> same_outcome c sc out' \<and>
         running c G K db' acc' \<and> mirrored K (db_live db0) target' db' \<and> ov_base target' = ov_base target)"
proof (induction batch arbitrary: target seen keep dropped idx acc out db)
  case (Cons tx batch)
  have get: "rd_get (overlay_reader fuel target) = rd_get (store_reader c db)"
    using mirrored_get[OF Cons.prems(2,3) given(4)]
    by (simp add: store_reader_def store_view_def Reader.truncate_def)
  have room: "log_room (op_hash c ` set batch) seen idx (int (length batch)) db"
    using Cons.prems(5) by (auto simp: log_room_def)
  have bok: "batch_ok K batch" using Cons.prems(4) by (simp add: batch_ok_def)
  show ?case
  proof (cases "op_hash c tx \<in> seen")
    case True
    let ?dropped = "dropped @ [\<lparr>rj_tx = tx, rj_verdict = rejected R_SETTLED None\<rparr>]"
    let ?out = "out\<lparr>ap_dropped := ap_dropped out @ [\<lparr>dr_op_hash = op_hash c tx, dr_why = R_SETTLED\<rparr>]\<rparr>"
    have "same_outcome c \<lparr>sc_survivors = keep, sc_rejects = ?dropped\<rparr> ?out"
      using Cons.prems(6) by (simp add: same_outcome_def rejected_def)
    note IH = Cons.IH[OF Cons.prems(1-3) bok room this]
    show ?thesis using IH unfolding apply_to_loop.simps apply_loop.simps if_P[OF True] .
  next
    case new: False
    show ?thesis
    proof (cases "evaluate c fuel (store_reader c db) tx auth")
      case (Inl e)
      then show ?thesis using new evaluate_rebase[OF given(5) get] by simp
    next
      case (Inr vl)
      obtain v layer where vl: "vl = (v, layer)" by (cases vl)
      have ev: "evaluate c fuel (store_reader c db) tx auth = Inr (v, layer)" using Inr vl by simp
      have ev': "evaluate c fuel (overlay_reader fuel target) tx auth = Inr (v, layer\<lparr>ov_base := overlay_reader fuel target\<rparr>)"
        using evaluate_rebase[OF given(5) get, of c fuel tx] ev by simp
      note ext = evaluate_extends[OF ev]
      show ?thesis
      proof (cases "vd_why v")
        case (Some why)
        let ?out = "out\<lparr>ap_dropped := ap_dropped out @ [\<lparr>dr_op_hash = op_hash c tx, dr_why = why\<rparr>]\<rparr>"
        have "same_outcome c \<lparr>sc_survivors = keep, sc_rejects = dropped @ [\<lparr>rj_tx = tx, rj_verdict = v\<rparr>]\<rparr> ?out"
          using Cons.prems(6) Some by (simp add: same_outcome_def)
        note IH = Cons.IH[OF Cons.prems(1-3) bok room this]
        have "\<not> vd_ok v" using Some by (simp add: vd_ok_def)
        then show ?thesis
          using IH unfolding apply_to_loop.simps apply_loop.simps if_not_P[OF new] ev ev' rbind_simps prod.case Some option.case
          by (simp only: if_False)
      next
        case None
        have ms: "\<forall>m \<in> set (ov_log layer). mut_in_range m \<and> mut_key m \<in> K"
          using ext(3) Cons.prems(4) by (auto simp: batch_ok_def)
        have entry: "in_range (idx + 1)" "in_range (stx_ts tx)" "\<forall>e \<in> set (db_entry db). en_idx e < idx + 1"
            "op_hash c tx \<notin> en_op_hash ` set (db_entry db)"
          using Cons.prems(4,5) new by (auto simp: batch_ok_def log_room_def in_range_def)
        obtain db1 acc1 where c1: "commit_tx c (idx + 1) tx (ov_log layer) acc db = Inr (db1, acc1)" "running c G K db1 acc1"
            "\<forall>st nm. live_get (db_live db1) st nm = (case writes (stx_raw tx) (ov_log layer) (st, nm) of
                None \<Rightarrow> live_get (db_live db) st nm | Some v \<Rightarrow> v)"
            "db_entry db1 = db_entry db @ [\<lparr>en_idx = idx + 1, en_op_hash = op_hash c tx, en_raw = stx_raw tx,
                en_author = stx_author tx, en_ts = stx_ts tx\<rparr>]"
          by (rule commit_tx_running[OF given(1-3) Cons.prems(1) ms entry])
        obtain target1 where t1: "ov_absorb target (layer\<lparr>ov_base := overlay_reader fuel target\<rparr>) = Inr target1"
            "ov_base target1 = ov_base target"
          using Cons.prems(2) by (simp add: ov_absorb_def mirrored_def)
        have mir: "mirrored K (db_live db0) target1 db1"
          by (rule mirrored_absorb[OF Cons.prems(2) t1(1) _ _ ms spec[OF spec[OF c1(3)]]]) (use ext(1,2) in simp_all)
        have base1: "rd_get (ov_base target1) = sr_get db0" using t1(2) Cons.prems(3) by simp
        have room1: "log_room (op_hash c ` set batch) (insert (op_hash c tx) seen) (idx + 1) (int (length batch)) db1"
          using Cons.prems(5) c1(4) by (auto simp: log_room_def)
        have "same_outcome c \<lparr>sc_survivors = keep @ [tx], sc_rejects = dropped\<rparr>
            (out\<lparr>ap_settled := ap_settled out @ [(idx + 1, op_hash c tx)]\<rparr>)"
          using Cons.prems(6) by (simp add: same_outcome_def)
        note IH = Cons.IH[OF c1(2) mir base1 bok room1 this]
        have "vd_ok v" using None by (simp add: vd_ok_def)
        then show ?thesis
          using IH unfolding apply_to_loop.simps apply_loop.simps if_not_P[OF new] ev ev' rbind_simps prod.case
            None option.case t1 c1(1)
          by (simp only: if_True rbind_simps prod.case t1)
      qed
    qed
  qed
qed auto

lemma mirrored_delta_ok:
  assumes "mirrored K base target db" "inj_on (key_path c) K" "\<forall>k \<in> K. in_range (fst k)" "row_key ` set base \<subseteq> K"
  shows "delta_ok c (ov_delta target) base"
proof -
  have sub: "fst ` set (ov_delta target) \<subseteq> K" using assms(1) by (simp add: mirrored_def)
  then have "fst kv \<in> K" if "kv \<in> set (ov_delta target)" for kv using that by auto
  then have "in_range (fst (fst kv)) \<and> held_epoch_ok (snd kv)" if "kv \<in> set (ov_delta target)" for kv
    using that assms(1,3) by (auto simp: mirrored_def)
  moreover have "inj_on (key_path c) (fst ` set (ov_delta target) \<union> row_key ` set base)"
    by (rule inj_on_subset[OF assms(2)]) (use sub assms(4) in auto)
  ultimately show ?thesis using assms(1) by (fastforce simp: delta_ok_def mirrored_def)
qed

lemma apply_to_loop_memo:
  "apply_to_loop c fuel auth batch (L :: Layer) seen keep dropped = Inr (L', sc) \<Longrightarrow> ly_memo L' = ly_memo L"
proof (induction batch arbitrary: L seen keep dropped)
  case (Cons tx batch)
  have "ov_absorb L layer = Inr L1 \<Longrightarrow> ly_memo L1 = ly_memo L" for layer :: "Reader Overlay" and L1
    by (auto simp: ov_absorb_def split: if_splits)
  then show ?case using Cons by (fastforce simp: rbind_Inr_conv split: if_splits prod.splits)
qed simp

definition batch_keys :: "SignedTransaction list \<Rightarrow> key set" where
  "batch_keys batch = (\<Union>tx \<in> set batch. mut_key ` set (tx_mutations (stx_txn tx)))"

text \<open>The engine of the properties of previews; the layer may be frozen once the batch is on it.\<close>

lemma preview_exact:
  assumes "digest_width c" "acc_laws c G" "db_ok c db" "log_ok G db"
    and "inj_on (key_path c) (row_key ` set (db_live db) \<union> batch_keys batch)"
    and "batch_ok UNIV batch" "sr_has_settled db (map (op_hash c) batch) = {}"
    and "0 \<le> sr_head db" "sr_head db + int (length batch) < 2 ^ 63"
    and "layer_new (store_view c db) = Inr L"
  shows "case apply_to c fuel L batch (mgmt_auth c m) of
      Inl e \<Rightarrow> apply_within c fuel batch (mgmt_auth c m) db = Inl e
    | Inr (L', sc) \<Rightarrow> \<exists>out db'.
        apply_within c fuel batch (mgmt_auth c m) db = Inr (out, db') \<and> same_outcome c sc out \<and>
        (\<forall>st nm. sr_get db' st nm = ov_get L' st nm) \<and>
        (\<forall>K. K = L' \<or> K = ov_freeze L' \<longrightarrow> sr_state_root c db' = layer_state_root c K \<and> sr_accumulator db' = layer_accumulator c K) \<and>
        db_ok c db' \<and> log_ok G db'"
proof -
  let ?auth = "mgmt_auth c m" and ?acc = "acc_sum c (db_live db)" and ?out = "\<lparr>ap_settled = [], ap_dropped = []\<rparr>"
  define K where "K = row_key ` set (db_live db) \<union> batch_keys batch"
  have L: "ov_base L = store_view c db" "ov_delta L = []" "\<not> ov_frozen L" "ly_memo L = Map.empty"
    using assms(10) by (auto simp: layer_new_def store_view_def)
  have K: "inj_on (key_path c) K" "\<forall>k \<in> K. in_range (fst k)"
    using assms(3,5,6) mut_in_range_store by (auto simp: K_def batch_keys_def batch_ok_def db_ok_def row_key_def)
  have run: "running c G K db ?acc" using assms(3,4) by (auto simp: running_def db_ok_def K_def)
  have mir: "mirrored K (db_live db) L db" using L by (simp add: mirrored_def)
  have base: "rd_get (ov_base L) = sr_get db" using L(1) by (simp add: store_view_def)
  have bok: "batch_ok K batch" using assms(6) by (auto simp: batch_ok_def K_def batch_keys_def)
  have "en_idx e \<le> sr_head db" if "e \<in> set (db_entry db)" for e using that by (auto simp: sr_head_def)
  then have room: "log_room (op_hash c ` set batch) {} (sr_head db) (int (length batch)) db"
    using assms(7-9) by (auto simp: log_room_def sr_has_settled_def)
  have within: "apply_within c fuel batch ?auth db =
      rbind (apply_loop c fuel ?auth batch {} (sr_head db) ?acc ?out db) (\<lambda>(out, acc', db'). Inr (out, set_meta ''acc'' acc' db'))"
    using assms(3,7) acc_sum_Accumulator[OF assms(2)] by (simp add: apply_within_def sr_accumulator_def db_ok_def)
  note loops = loops_agree[OF assms(1,2) K mgmt_auth_by_get run mir base bok room, of "[]" "[]" ?out fuel c m]
  show ?thesis
  proof (cases "apply_to c fuel L batch ?auth")
    case (Inl e)
    then show ?thesis using loops within by (simp add: apply_to_def same_outcome_def)
  next
    case (Inr r)
    obtain L' sc where r: "r = (L', sc)" by (cases r)
    then obtain out acc' db1 where o: "apply_loop c fuel ?auth batch {} (sr_head db) ?acc ?out db = Inr (out, acc', db1)"
        "same_outcome c sc out" "running c G K db1 acc'" "mirrored K (db_live db) L' db1" "ov_base L' = ov_base L"
      using Inr loops by (auto simp: apply_to_def same_outcome_def)
    let ?db = "set_meta ''acc'' acc' db1"
    have live: "db_live ?db = db_live db1" by (simp add: set_meta_def)
    have range: "in_range (lr_store r)" if "r \<in> set (db_live db1)" for r
    proof -
      have "row_key r \<in> K" using o(3) that by (auto simp: running_def)
      then show ?thesis using K(2) by (fastforce simp: row_key_def)
    qed
    have ok: "db_ok c ?db" "log_ok G ?db"
      using o(3) range by (auto simp: running_def db_ok_def log_ok_def get_meta_def set_meta_def)
    have get: "sr_get ?db st nm = ov_get L' st nm" for st nm
      using mirrored_get[OF o(4) _ K(2), of 0] base o(5) by (simp add: overlay_reader_get sr_get_eq live fun_eq_iff)
    have "ly_memo L' = Map.empty" using apply_to_loop_memo Inr r L(4) by (simp add: apply_to_def)
    moreover have dok: "delta_ok c (ov_delta L') (db_live db)"
      by (rule mirrored_delta_ok[OF o(4) K]) (auto simp: K_def)
    ultimately have views: "store_shows (c, G, ?db)" "K = L' \<or> K = ov_freeze L' \<Longrightarrow> layer_shows (c, G, db, K)" for K
      using ok(1) assms(1-3) L(1) o(5) by (auto simp: store_shows_def layer_shows_def memo_ok_def ov_freeze_def)
    have commit: "sr_state_root c ?db = layer_state_root c K \<and> sr_accumulator ?db = layer_accumulator c K"
      if K: "K = L' \<or> K = ov_freeze L'" for K
    proof -
      have "ov_delta K = ov_delta L'" using K by (auto simp: ov_freeze_def)
      then have "live_get (db_live ?db) st nm = live_get (apply_delta c (ov_delta K) (db_live db)) st nm" for st nm
        using o(4) live by (simp add: mirrored_def live_get_apply_delta)
      from store_layer.same_commitments[OF views(1) views(2)[OF K], of G] this show ?thesis
        using assms(2) by (simp add: store_view_def layer_view_def sr_hash_under_def sr_state_root_def tree_root_def layer_state_root_def)
    qed
    then show ?thesis using Inr r within o(1,2) get ok by auto
  qed
qed

text \<open>
  C1: Settling a batch on a layer over the store previews settling it in the store. With the
  management authoriser, and whatever the batch: if the preview raises, the commit raises the same
  error; otherwise the commit succeeds, settles the survivors of the preview in their order, drops
  its rejects with the same reasons, and leaves a store whose every lookup, whose state root and
  whose accumulator are those the layer computed, and which satisfies the store's invariant again.
  The integers of the batch fit SQLite's 64 bits, no two keys share a path and no transaction of
  the batch is already settled.
\<close>

theorem preview_matches_commit:
  assumes "digest_width c" "acc_laws c G" "db_ok c db" "log_ok G db"
    and "inj_on (key_path c) (row_key ` set (db_live db) \<union> batch_keys batch)"
    and "batch_ok UNIV batch" "sr_has_settled db (map (op_hash c) batch) = {}"
    and "0 \<le> sr_head db" "sr_head db + int (length batch) < 2 ^ 63"
    and "layer_new (store_view c db) = Inr L"
  shows "case apply_to c fuel L batch (mgmt_auth c m) of
      Inl e \<Rightarrow> apply_within c fuel batch (mgmt_auth c m) db = Inl e
    | Inr (L', sc) \<Rightarrow> \<exists>out db'.
        apply_within c fuel batch (mgmt_auth c m) db = Inr (out, db') \<and> same_outcome c sc out \<and>
        (\<forall>st nm. sr_get db' st nm = ov_get L' st nm) \<and>
        sr_state_root c db' = layer_state_root c L' \<and> sr_accumulator db' = layer_accumulator c L' \<and>
        db_ok c db' \<and> log_ok G db'"
  using preview_exact[OF assms, of fuel m] by (simp split: sum.splits prod.splits) blast

definition sample_put :: SignedTransaction where
  "sample_put = tx_sign (sample [])
     [\<lparr>step_guards = [Absent 1 [1]], step_mutation = Set 1 [1] [7] 0, step_soft = False\<rparr>] [1] 3"

definition sample_mgmt :: MgmtReader where
  "sample_mgmt = \<lparr>mg_session = \<lparr>se_reader = store_reader (sample []) db_empty, se_store_id = STORE_MANAGEMENT\<rparr>,
     mg_anchor = stx_author sample_put\<rparr>"

lemma sample_put_sel:
  "stx_ts sample_put = 3" "batch_keys [sample_put] = {(1, [1])}"
  "tx_mutations (stx_txn sample_put) = [Set 1 [1] [7] 0]"
  by (simp_all add: sample_put_def tx_sign_def batch_keys_def tx_mutations_def)

lemma db_ok_empty: "db_ok c db_empty"
  by (simp add: db_ok_def db_empty_def table_ok_def rows_ok_def keyed_def memo_ok_def get_meta_def acc_sum_def)

lemma sample_log_ok: "log_ok {b. length b = 32} db_empty"
  by (simp add: log_ok_def db_empty_def get_meta_def ACC_IDENTITY_def)

theorem preview_matches_commit_witness:
  "\<exists>L. layer_new (store_view (sample []) db_empty) = Inr L \<and>
     (case apply_to (sample []) 5 L [sample_put] (mgmt_auth (sample []) sample_mgmt) of
        Inl e \<Rightarrow> apply_within (sample []) 5 [sample_put] (mgmt_auth (sample []) sample_mgmt) db_empty = Inl e
      | Inr (L', sc) \<Rightarrow> \<exists>out db'.
          apply_within (sample []) 5 [sample_put] (mgmt_auth (sample []) sample_mgmt) db_empty = Inr (out, db') \<and>
          same_outcome (sample []) sc out \<and>
          (\<forall>st nm. sr_get db' st nm = ov_get L' st nm) \<and>
          sr_state_root (sample []) db' = layer_state_root (sample []) L' \<and>
          sr_accumulator db' = layer_accumulator (sample []) L' \<and>
          db_ok (sample []) db' \<and> log_ok {b. length b = 32} db')"
proof -
  let ?L = "\<lparr>ov_base = store_view (sample []) db_empty, ov_delta = [], ov_log = [], ov_frozen = False, ly_memo = Map.empty\<rparr>"
  have L: "layer_new (store_view (sample []) db_empty) = Inr ?L" by (simp add: layer_new_def store_view_def)
  have "batch_ok UNIV [sample_put]" by (simp add: batch_ok_def sample_put_sel in_range_def)
  moreover have "inj_on (key_path (sample [])) (row_key ` set (db_live db_empty) \<union> batch_keys [sample_put])"
    by (simp add: db_empty_def sample_put_sel)
  moreover have "sr_has_settled db_empty (map (op_hash (sample [])) [sample_put]) = {}" "sr_head db_empty = 0"
    by (simp_all add: sr_has_settled_def db_empty_def sr_head_def get_meta_def from_bytes_def)
  ultimately show ?thesis
    using preview_matches_commit[OF sample_digest_width sample_acc_laws db_ok_empty sample_log_ok _ _ _ _ _ L, of "[sample_put]" 5 sample_mgmt] L
    by simp
qed

end
