(* ===== verification/Settle_Props.thy ===== *)
theory Settle_Props
  imports Preview
begin

text \<open>
  What settlement guarantees about authority: who may write where, how key epochs move, and what
  the store's log, blocks and garbage collection keep.
\<close>

section \<open>Authority\<close>

lemma valid_grant_by_get:
  assumes "\<And>nm. rd_get r STORE_MANAGEMENT nm = rd_get r' STORE_MANAGEMENT nm"
  shows "valid_grant c m who (Some r) = valid_grant c m who (Some r')"
proof -
  have grant: "read_grant m w (Some r) = read_grant m w (Some r')" for w
    unfolding read_grant_def option.case assms ..
  have cert: "verify_cert c m x (Some r) = verify_cert c m x (Some r')" for x
    unfolding verify_cert_def grant ..
  show ?thesis unfolding valid_grant_def grant_cert_ok_def cert grant ..
qed

text \<open>One step of an accepted evaluation: authorised and well shaped, and either applied or, if soft, skipped.\<close>

lemma evaluate_step_ok:
  assumes "evaluate_steps c fuel auth who raw i (step # steps) ov = Inr (v, ov')" "vd_ok v"
  obtains (skip) "au_may_write auth (overlay_reader fuel ov) who (mut_store (step_mutation step)) = Inr True"
      "data_row_shape (overlay_reader fuel ov) auth (step_mutation step) = Inr None"
      "step_soft step" "all_hold c (overlay_reader fuel ov) (step_guards step) = Inr False"
      "evaluate_steps c fuel auth who raw (i + 1) steps ov = Inr (v, ov')"
    | (go) ov1 where "au_may_write auth (overlay_reader fuel ov) who (mut_store (step_mutation step)) = Inr True"
      "data_row_shape (overlay_reader fuel ov) auth (step_mutation step) = Inr None"
      "all_hold c (overlay_reader fuel ov) (step_guards step) = Inr True"
      "ov_apply ov (step_mutation step) raw = Inr ov1"
      "evaluate_steps c fuel auth who raw (i + 1) steps ov1 = Inr (v, ov')"
proof -
  let ?V = "overlay_reader fuel ov" and ?m = "step_mutation step"
  have no: "\<not> vd_ok (rejected why j)" for why j by (simp add: rejected_def vd_ok_def)
  obtain may where may: "au_may_write auth ?V who (mut_store ?m) = Inr may"
    using assms(1) by (auto simp: Let_def rbind_Inr_conv)
  then have "may" using assms no by (cases may) auto
  note may = may[unfolded eqTrueI[OF this]]
  obtain shape where shape: "data_row_shape ?V auth ?m = Inr shape"
    using assms(1) by (auto simp: Let_def rbind_Inr_conv may)
  then have "shape = None" using assms no by (cases shape) (auto simp: may)
  note shape = shape[unfolded this]
  obtain held where held: "all_hold c ?V (step_guards step) = Inr held"
    using assms(1) by (auto simp: Let_def rbind_Inr_conv may shape)
  show thesis
  proof (cases held)
    case True
    obtain ov1 where "ov_apply ov ?m raw = Inr ov1"
      using assms(1) held True by (auto simp: Let_def rbind_Inr_conv may shape)
    then show thesis using go[OF may shape] assms(1) held True by (simp add: may shape)
  next
    case False
    have "step_soft step" using assms no held False by (cases "step_soft step") (auto simp: may shape)
    then show thesis using skip[OF may shape] assms(1) held False by (simp add: may shape)
  qed
qed

lemma ov_get_apply:
  "ov_apply ov m cred = Inr ov1 \<Longrightarrow>
     ov_get ov1 st nm = (if (st, nm) = mut_key m then Inr (held_after m cred) else ov_get ov st nm)"
  by (auto simp: ov_apply_def ov_get_def update_conv' split: if_splits option.split)

text \<open>A client with a grant that does not cover the management store stays inside its stores.\<close>

lemma evaluate_steps_confined:
  assumes "who \<noteq> mg_anchor m" "gr_role g = CLIENT_RW \<or> gr_role g = CLIENT_RO" "STORE_MANAGEMENT \<notin> gr_stores g"
  shows "evaluate_steps c fuel (mgmt_auth c m) who raw i steps ov = Inr (v, ov') \<Longrightarrow> vd_ok v \<Longrightarrow>
    valid_grant c m who (Some (overlay_reader fuel ov)) = Inr (Some g) \<Longrightarrow>
    \<forall>s \<in> set steps. gr_role g = CLIENT_RW \<and> mut_store (step_mutation s) \<in> gr_stores g"
proof (induction steps arbitrary: i ov)
  case (Cons step steps)
  let ?m = "step_mutation step" and ?V = "overlay_reader fuel ov"
  have mw: "au_may_write (mgmt_auth c m) ?V who (mut_store ?m) =
      Inr (gr_role g = CLIENT_RW \<and> mut_store ?m \<in> gr_stores g)"
    using assms(1,2) Cons.prems(3) by (auto simp: mgmt_auth_def may_write_def)
  then have here: "gr_role g = CLIENT_RW \<and> mut_store ?m \<in> gr_stores g"
    using evaluate_step_ok[OF Cons.prems(1,2)] by fastforce
  then have other: "mut_store ?m \<noteq> STORE_MANAGEMENT" using assms(3) by auto
  have keep: "valid_grant c m who (Some (overlay_reader fuel ov1)) = Inr (Some g)"
    if "ov_apply ov ?m raw = Inr ov1" for ov1
  proof -
    have "ov_get ov1 STORE_MANAGEMENT nm = ov_get ov STORE_MANAGEMENT nm" for nm
      using ov_get_apply[OF that, of STORE_MANAGEMENT nm] other by auto
    then show ?thesis using valid_grant_by_get Cons.prems(3) overlay_reader_get by metis
  qed
  from Cons.prems(1,2) show ?case
  proof (cases rule: evaluate_step_ok)
    case skip
    then show ?thesis using Cons.IH[OF skip(5) Cons.prems(2,3)] here by simp
  next
    case go
    then show ?thesis using Cons.IH[OF go(5) Cons.prems(2) keep[OF go(4)]] here by simp
  qed
qed simp

lemma overlay_new_get: "ov_get (overlay_new r) = rd_get r"
  by (intro ext) (simp add: ov_get_def overlay_new_def)

text \<open>
  C27: Authority of clients. When settlement accepts a transaction whose author is not the anchor,
  its author has a valid grant at the reader the transaction was evaluated on or it has no steps;
  and if that grant is a client's and does not name the management store, it is a read-write grant
  and every step of the transaction, the skipped ones too, writes a store it names. So a client
  cannot enlarge its own authority in the transaction that uses it.
\<close>

theorem client_confined:
  assumes "evaluate c fuel r tx (mgmt_auth c m) = Inr (v, layer)" "vd_ok v" "stx_author tx \<noteq> mg_anchor m"
    "stx_txn tx \<noteq> []"
  shows "stx_verify c tx \<and> (\<exists>g. valid_grant c m (stx_author tx) (Some r) = Inr (Some g) \<and>
    ((gr_role g = CLIENT_RW \<or> gr_role g = CLIENT_RO) \<and> STORE_MANAGEMENT \<notin> gr_stores g \<longrightarrow>
      gr_role g = CLIENT_RW \<and> (\<forall>mu \<in> set (tx_mutations (stx_txn tx)). mut_store mu \<in> gr_stores g)))"
proof -
  let ?V = "overlay_reader fuel (overlay_new r)"
  have ver: "stx_verify c tx" using assms(1,2) by (auto simp: evaluate_def rejected_def vd_ok_def split: if_splits)
  then have ev: "evaluate_steps c fuel (mgmt_auth c m) (stx_author tx) (stx_raw tx) 0 (stx_txn tx) (overlay_new r) = Inr (v, layer)"
    using assms(1) by (simp add: evaluate_def)
  have vg: "valid_grant c m (stx_author tx) (Some ?V) = valid_grant c m (stx_author tx) (Some r)"
    by (rule valid_grant_by_get) (simp add: overlay_reader_get overlay_new_get)
  obtain s ss where ss: "stx_txn tx = s # ss" using assms(4) by (cases "stx_txn tx") auto
  have "au_may_write (mgmt_auth c m) ?V (stx_author tx) (mut_store (step_mutation s)) = Inr True"
    using ev assms(2) unfolding ss by (rule evaluate_step_ok)
  then obtain g where g: "valid_grant c m (stx_author tx) (Some r) = Inr (Some g)"
    using assms(3) vg by (auto simp: mgmt_auth_def may_write_def rbind_Inr_conv split: option.splits)
  have "gr_role g = CLIENT_RW \<and> (\<forall>mu \<in> set (tx_mutations (stx_txn tx)). mut_store mu \<in> gr_stores g)"
    if "gr_role g = CLIENT_RW \<or> gr_role g = CLIENT_RO" "STORE_MANAGEMENT \<notin> gr_stores g"
    using evaluate_steps_confined[OF assms(3) that ev assms(2)] vg g ss by (auto simp: tx_mutations_def)
  then show ?thesis using ver g by blast
qed

section \<open>Key epochs\<close>

lemma epoch_target_epoch_key:
  assumes "epoch_key s = Inr k"
  shows "epoch_target k = Some s"
proof -
  obtain b where b: "to_bytes 8 s = Inr b" "k = P_EPOCH @ b"
    using assms by (auto simp: epoch_key_def store_key_def rbind_Inr_conv)
  then have "length b = 8" by (simp add: to_bytes_Inr)
  then show ?thesis using to_bytes_from_bytes[OF b(1)] b(2) by (simp add: epoch_target_def)
qed

text \<open>A write of an epoch row that passes the shape check moves the epoch up by one.\<close>

lemma epoch_write_advances:
  assumes "epoch_key s = Inr k" "mut_key mu = (STORE_MANAGEMENT, k)" "data_row_shape r (mgmt_auth c m) mu = Inr None"
    "current_epoch m s (Some r) = Inr e" "ov_apply ov mu raw = Inr ov1"
  shows "current_epoch m s (Some (overlay_reader fuel ov1)) = Inr (e + 1)"
proof (cases mu)
  case (Del st nm)
  then show ?thesis
    using assms(2,3) epoch_target_epoch_key[OF assms(1)] by (simp add: data_row_shape_def mgmt_auth_def split: if_splits)
next
  case (Set st nm v ep)
  have sn: "st = STORE_MANAGEMENT" "nm = k" using Set assms(2) by auto
  have "epoch_step r (mgmt_auth c m) v s = Inr None"
    using assms(3) sn Set epoch_target_epoch_key[OF assms(1)]
    by (simp add: data_row_shape_def mgmt_auth_def split: if_splits)
  then have "rbind (decode v) as_int = Inr (e + 1)"
    using assms(4) by (auto simp: epoch_step_def mgmt_auth_def split: sum.splits if_splits)
  moreover have "ov_get ov1 STORE_MANAGEMENT k = Inr (held_after mu raw)"
    using ov_get_apply[OF assms(5)] assms(2) by simp
  ultimately show ?thesis using assms(1) Set by (simp add: current_epoch_def overlay_reader_get held_after_def)
qed

abbreviation epoch_writes :: "bytes \<Rightarrow> Mutation list \<Rightarrow> nat" where
  "epoch_writes k ms \<equiv> length (filter (\<lambda>mu. mut_key mu = (STORE_MANAGEMENT, k)) ms)"

lemma evaluate_steps_epoch:
  assumes "epoch_key s = Inr k"
  shows "evaluate_steps c fuel (mgmt_auth c m) who raw i steps ov = Inr (v, ov') \<Longrightarrow> vd_ok v \<Longrightarrow>
    current_epoch m s (Some (overlay_reader fuel ov)) = Inr e \<Longrightarrow>
    current_epoch m s (Some (overlay_reader fuel ov')) =
      Inr (e + int (epoch_writes k (ov_log ov')) - int (epoch_writes k (ov_log ov)))"
proof (induction steps arbitrary: i ov e)
  case (Cons step steps)
  let ?m = "step_mutation step"
  from Cons.prems(1,2) show ?case
  proof (cases rule: evaluate_step_ok)
    case skip
    then show ?thesis using Cons.IH[OF skip(5) Cons.prems(2,3)] by simp
  next
    case (go ov1)
    have log: "ov_log ov1 = ov_log ov @ [?m]" using go(4) by (auto simp: ov_apply_def split: if_splits)
    show ?thesis
    proof (cases "mut_key ?m = (STORE_MANAGEMENT, k)")
      case True
      then show ?thesis
        using Cons.IH[OF go(5) Cons.prems(2) epoch_write_advances[OF assms True go(2) Cons.prems(3) go(4)]] log by simp
    next
      case False
      then have "ov_get ov1 STORE_MANAGEMENT k = ov_get ov STORE_MANAGEMENT k" using ov_get_apply[OF go(4)] by auto
      then have "current_epoch m s (Some (overlay_reader fuel ov1)) = Inr e"
        using Cons.prems(3) assms by (simp add: current_epoch_def overlay_reader_get)
      then show ?thesis using Cons.IH[OF go(5) Cons.prems(2)] log False by simp
    qed
  qed
qed simp

text \<open>
  C28: Key epochs advance one at a time. Across an accepted transaction, the key epoch that the
  management rows give a store grows by exactly the number of writes the transaction made to that
  store's epoch row: an epoch is never skipped, repeated, lowered or deleted, whoever the author is.
\<close>

theorem epochs_advance_by_one:
  assumes "evaluate c fuel r tx (mgmt_auth c m) = Inr (v, layer)" "vd_ok v" "epoch_key s = Inr k"
    "current_epoch m s (Some r) = Inr e"
  shows "current_epoch m s (Some (overlay_reader fuel layer)) = Inr (e + int (epoch_writes k (ov_log layer)))"
proof -
  have "evaluate_steps c fuel (mgmt_auth c m) (stx_author tx) (stx_raw tx) 0 (stx_txn tx) (overlay_new r) = Inr (v, layer)"
    using assms(1,2) by (auto simp: evaluate_def rejected_def vd_ok_def split: if_splits)
  moreover have "current_epoch m s (Some (overlay_reader fuel (overlay_new r))) = Inr e"
    using assms(3,4) by (simp add: current_epoch_def overlay_reader_get overlay_new_get)
  ultimately show ?thesis using evaluate_steps_epoch[OF assms(3)] assms(2) by (fastforce simp: overlay_new_def)
qed

section \<open>Grant rows\<close>

lemma role_of_value: "role_of (role_value r) = Inr r"
  by (cases r) (simp_all add: role_of_def ascii_def)

lemma ints_seq_back: "rbind (as_seq (ints_seq ns) None) (mapM as_int) = Inr ns"
proof -
  have "mapM as_int (map BInt ns) = Inr ns" by (induction ns) simp_all
  then show ?thesis by (simp add: ints_seq_def)
qed

lemma grant_row_roundtrip:
  assumes "finite (gr_stores g)" "finite (gr_kinds g)" "cert_ok (gr_cert g)" "bencodable (BSeq (grant_fields g))"
  shows "grant_decode_row (gr_identity g) (grant_encode_row g) = Inr g"
proof -
  have "decode_seq (grant_encode_row g) (Some 4) = Inr (grant_fields g)"
    using decode_benc[OF assms(4)] by (simp add: grant_encode_row_def decode_seq_def grant_fields_def)
  then show ?thesis
    using assms(1-3) cert_wire.dec_enc[OF assms(3)]
    by (simp add: grant_decode_row_def grant_of_fields_def grant_fields_def ints_seq_back role_of_value)
qed

section \<open>Witnesses\<close>

definition sample_grant :: Grant where
  "sample_grant = \<lparr>gr_identity = kp_public (sample []) [2], gr_role = CLIENT_RW, gr_stores = {1}, gr_kinds = {},
     gr_cert = sign_grant (sample []) [1] (kp_public (sample []) [2]) CLIENT_RW\<rparr>"

definition sample_anchored :: MgmtReader where
  "sample_anchored = sample_mgmt\<lparr>mg_anchor := kp_public (sample []) [1]\<rparr>"

definition grant_held :: Held where
  "grant_held = \<lparr>held_value = entry_encode 0 (grant_encode_row sample_grant), held_epoch = 0, held_cred = []\<rparr>"

definition grant_reader :: Reader where
  "grant_reader =
     \<lparr>rd_get = (\<lambda>st nm. Inr (if (st, nm) = (STORE_MANAGEMENT, entry_name P_GRANT (kp_public (sample []) [2]))
        then Some grant_held else None)),
      rd_anchor = Inr (kp_public (sample []) [1]), rd_count_prefix = (\<lambda>_ _. Inr 0), rd_nth_prefix = (\<lambda>_ _ _ _. Inr None)\<rparr>"

lemma sample_keys:
  "length (kp_public (sample []) k) = 32" "kp_public (sample []) [1] \<noteq> kp_public (sample []) [2]"
  by (simp_all add: kp_public_def sample_def pad_to_def)

lemmas small_bval = bencodable_def MAX_DEPTH_codec_def bdepth.simps small_int_digits

lemma sample_cert:
  "gr_cert sample_grant = \<lparr>ct_signer = kp_public (sample []) [1], ct_subject = kp_public (sample []) [2],
     ct_purpose = role_value CLIENT_RW, ct_sig = kp_sign (sample []) [1] (cert_message (role_value CLIENT_RW) (kp_public (sample []) [2]))\<rparr>"
  by (simp add: sample_grant_def sign_grant_def cert_sign_def)

lemma sample_sig_length: "length (kp_sign (sample []) k msg) = 64"
  by (simp add: kp_sign_def sample_def)

lemma sample_lengths:
  "length (cert_encode (gr_cert sample_grant)) < 1024" "length (grant_encode_row sample_grant) < 4096"
proof -
  show cert: "length (cert_encode (gr_cert sample_grant)) < 1024"
    by (simp add: cert_encode_def cert_bval_def sample_cert benc.simps encode_bytes_def int_ascii_def nat_ascii.simps
        sample_keys sample_sig_length ascii_def)
  have "length (encode_bytes (cert_encode (gr_cert sample_grant))) < 4000"
    using cert length_nat_ascii_le[of "length (cert_encode (gr_cert sample_grant))"] by (simp add: encode_bytes_def)
  moreover have "grant_fields sample_grant =
      [BBytes (ascii ''client_rw''), BSeq [BInt 1], BSeq [], BBytes (cert_encode (gr_cert sample_grant))]"
    by (simp add: grant_fields_def ints_seq_def) (simp add: sample_grant_def)
  moreover have "length (encode_bytes (ascii ''client_rw'')) = 11" "length (int_ascii 1) = 1"
    by (simp_all add: encode_bytes_def nat_ascii.simps ascii_def int_ascii_def)
  ultimately show "length (grant_encode_row sample_grant) < 4096"
    by (simp add: grant_encode_row_def benc.simps)
qed

lemma sample_grant_row: "grant_decode_row (kp_public (sample []) [2]) (grant_encode_row sample_grant) = Inr sample_grant"
proof -
  have "cert_ok (gr_cert sample_grant)"
    by (simp add: cert_ok_def sample_cert cert_bval_def sample_keys sample_sig_length small_bval ascii_def)
  moreover have "bencodable (BSeq (grant_fields sample_grant))"
    using sample_lengths(1) by (simp add: grant_fields_def ints_seq_def small_bval)
      (simp add: sample_grant_def small_bval ascii_def)
  ultimately show ?thesis using grant_row_roundtrip[of sample_grant] by (simp add: sample_grant_def)
qed

lemma sample_valid_grant:
  "valid_grant (sample []) sample_anchored (kp_public (sample []) [2]) (Some grant_reader) = Inr (Some sample_grant)"
proof -
  have "entry_decode (held_value grant_held) =
      Inr \<lparr>me_index = 0, me_value = grant_encode_row sample_grant, me_raw = held_value grant_held\<rparr>"
    using sample_lengths(2) by (simp add: entry_decode_def grant_held_def entry_encode_def small_bval)
  then have "read_grant sample_anchored (kp_public (sample []) [2]) (Some grant_reader) = Inr (Some sample_grant)"
    by (simp add: read_grant_def grant_reader_def sample_grant_row recover_def)
  moreover have "cert_verify (sample []) (gr_cert sample_grant)"
    by (simp add: cert_verify_def sample_grant_def sign_grant_def cert_sign_def sample_sign_correct)
  ultimately show ?thesis
    by (simp add: valid_grant_def grant_cert_ok_def verify_cert_def sample_grant_def sign_grant_def cert_sign_def
        anchor_only_purposes_def anchor_or_manager_purposes_def sample_anchored_def ascii_def)
qed

definition client_put :: SignedTransaction where
  "client_put = tx_sign (sample []) [\<lparr>step_guards = [], step_mutation = Set 1 [1] [7] 0, step_soft = False\<rparr>] [2] 3"

lemma client_put_evaluates:
  "\<exists>layer. evaluate (sample []) 5 grant_reader client_put (mgmt_auth (sample []) sample_anchored) = Inr (OK_verdict, layer)"
proof -
  have author: "stx_author client_put = kp_public (sample []) [2]" by (simp add: client_put_def tx_sign_def)
  have "valid_grant (sample []) sample_anchored (kp_public (sample []) [2]) (Some (overlay_reader 5 (overlay_new grant_reader))) =
      Inr (Some sample_grant)"
    using valid_grant_by_get[of "overlay_reader 5 (overlay_new grant_reader)" grant_reader] sample_valid_grant
    by (simp add: overlay_reader_get overlay_new_get)
  moreover have "kp_public (sample []) [2] \<noteq> mg_anchor sample_anchored"
    using sample_keys(2) by (simp add: sample_anchored_def)
  moreover have "stx_verify (sample []) client_put"
    by (simp add: client_put_def tx_sign_def stx_verify_def stx_body_def sample_sign_correct)
  ultimately show ?thesis
    by (simp add: evaluate_def author) (simp add: client_put_def tx_sign_def Let_def mgmt_auth_def may_write_def
      sample_grant_def data_row_shape_def ov_apply_def overlay_new_def)
qed

theorem client_confined_witness:
  "stx_verify (sample []) client_put \<and>
   (\<exists>g. valid_grant (sample []) sample_anchored (stx_author client_put) (Some grant_reader) = Inr (Some g) \<and>
     ((gr_role g = CLIENT_RW \<or> gr_role g = CLIENT_RO) \<and> STORE_MANAGEMENT \<notin> gr_stores g \<longrightarrow>
      gr_role g = CLIENT_RW \<and> (\<forall>mu \<in> set (tx_mutations (stx_txn client_put)). mut_store mu \<in> gr_stores g)))"
proof -
  obtain layer where ev: "evaluate (sample []) 5 grant_reader client_put (mgmt_auth (sample []) sample_anchored) = Inr (OK_verdict, layer)"
    using client_put_evaluates by blast
  have "vd_ok OK_verdict" "stx_author client_put \<noteq> mg_anchor sample_anchored" "stx_txn client_put \<noteq> []"
    using sample_keys(2) by (simp_all add: vd_ok_def OK_verdict_def client_put_def tx_sign_def sample_anchored_def)
  then show ?thesis by (rule client_confined[OF ev])
qed

theorem epochs_advance_by_one_witness:
  "\<exists>layer. evaluate (sample []) 5 grant_reader client_put (mgmt_auth (sample []) sample_anchored) = Inr (OK_verdict, layer) \<and>
     current_epoch sample_anchored 1 (Some (overlay_reader 5 layer)) =
       Inr (0 + int (epoch_writes (P_EPOCH @ be_bytes 8 1) (ov_log layer)))"
proof -
  obtain layer where ev: "evaluate (sample []) 5 grant_reader client_put (mgmt_auth (sample []) sample_anchored) = Inr (OK_verdict, layer)"
    using client_put_evaluates by blast
  have k: "epoch_key 1 = Inr (P_EPOCH @ be_bytes 8 1)" by (simp add: epoch_key_def store_key_def to_bytes_def)
  have "P_EPOCH @ be_bytes 8 1 \<noteq> entry_name P_GRANT (kp_public (sample []) [2])"
    by (simp add: entry_name_def P_EPOCH_def P_GRANT_def ascii_def)
  then have "current_epoch sample_anchored 1 (Some grant_reader) = Inr 0"
    by (simp add: current_epoch_def k grant_reader_def)
  from epochs_advance_by_one[OF ev _ k this] ev show ?thesis by (auto simp: vd_ok_def OK_verdict_def)
qed

end
