(* ===== verification/Store_Log.thy ===== *)
theory Store_Log
  imports Settle_Props
begin

text \<open>
  The settled log of the store: the entries a batch appends and the log accumulator they extend,
  blocks that are committed once, what garbage collection keeps, and where replaying the log
  departs from having settled it.
\<close>

section \<open>What a batch appends to the log\<close>

lemma commit_mutation_frame:
  "commit_mutation c cred m (db, acc) = Inr (db', acc') \<Longrightarrow>
     db_entry db' = db_entry db \<and> db_meta db' = db_meta db \<and> db_block db' = db_block db \<and>
     db_checkpoint db' = db_checkpoint db"
  by (cases m) (auto simp: commit_mutation_def Let_def rbind_Inr_conv)

lemma commit_mutations_frame:
  "commit_mutations c cred ms (db, acc) = Inr (db', acc') \<Longrightarrow>
     db_entry db' = db_entry db \<and> db_meta db' = db_meta db \<and> db_block db' = db_block db \<and>
     db_checkpoint db' = db_checkpoint db"
proof (induction ms arbitrary: db acc)
  case (Cons m ms)
  then obtain db1 acc1 where "commit_mutation c cred m (db, acc) = Inr (db1, acc1)"
      "commit_mutations c cred ms (db1, acc1) = Inr (db', acc')"
    by (auto simp: rbind_Inr_conv)
  then show ?case using Cons.IH commit_mutation_frame by metis
qed simp

text \<open>The log accumulator after the transactions \<open>hs\<close> are appended above \<open>base\<close>.\<close>

fun extend_log :: "prims \<Rightarrow> int \<Rightarrow> accumulator \<Rightarrow> digest list \<Rightarrow> accumulator" where
  "extend_log c base acc [] = acc"
| "extend_log c base acc (x # xs) = extend_log c (base + 1) (acc_add c acc (log_element c (base + 1) x)) xs"

fun numbered :: "int \<Rightarrow> digest list \<Rightarrow> (int \<times> digest) list" where
  "numbered base [] = []"
| "numbered base (x # xs) = (base + 1, x) # numbered (base + 1) xs"

text \<open>\<open>db'\<close> is \<open>db\<close> with the transactions \<open>hs\<close> logged above \<open>idx\<close>, blocks and other metadata as they were.\<close>

definition logged :: "prims \<Rightarrow> int \<Rightarrow> digest list \<Rightarrow> Db \<Rightarrow> Db \<Rightarrow> bool" where
  "logged c idx hs db db' \<longleftrightarrow>
     map (\<lambda>e. (en_idx e, en_op_hash e)) (db_entry db') =
       map (\<lambda>e. (en_idx e, en_op_hash e)) (db_entry db) @ numbered idx hs \<and>
     get_meta db' ''acc_log'' ACC_IDENTITY = extend_log c idx (get_meta db ''acc_log'' ACC_IDENTITY) hs \<and>
     (\<forall>k. k \<noteq> ''acc_log'' \<longrightarrow> db_meta db' k = db_meta db k) \<and>
     db_block db' = db_block db \<and> db_checkpoint db' = db_checkpoint db"

lemma logged_refl: "logged c idx [] db db"
  by (simp add: logged_def)

lemma logged_Cons:
  assumes "logged c idx [x] db db1" "logged c (idx + 1) hs db1 db2"
  shows "logged c idx (x # hs) db db2"
  using assms by (simp add: logged_def)

lemma commit_tx_logged:
  assumes "commit_tx c idx tx ms acc db = Inr (db', acc')"
  shows "logged c (idx - 1) [op_hash c tx] db db'"
proof -
  from assms obtain db1 db2 where
    ins: "insert_entry idx (op_hash c tx) (stx_raw tx) (stx_author tx) (stx_ts tx) db = Inr db1" and
    log: "log_add c idx (op_hash c tx) db1 = Inr db2" and
    com: "commit_mutations c (stx_raw tx) ms (db2, acc) = Inr (db', acc')"
    by (auto simp: commit_tx_def rbind_Inr_conv)
  have db1: "db1 = db\<lparr>db_entry := db_entry db @ [\<lparr>en_idx = idx, en_op_hash = op_hash c tx, en_raw = stx_raw tx,
      en_author = stx_author tx, en_ts = stx_ts tx\<rparr>]\<rparr>"
    using ins by (auto simp: insert_entry_def rbind_Inr_conv split: if_splits)
  obtain a where a: "Accumulator (get_meta db1 ''acc_log'' ACC_IDENTITY) = Inr a"
      "db2 = set_meta ''acc_log'' (acc_add c a (log_element c idx (op_hash c tx))) db1"
    using log by (auto simp: log_add_def sr_log_accumulator_def rbind_Inr_conv)
  then have "a = get_meta db ''acc_log'' ACC_IDENTITY"
    by (auto simp: fixed_def db1 get_meta_def split: if_splits)
  then show ?thesis
    using commit_mutations_frame[OF com] a(2) db1 by (simp add: logged_def set_meta_def get_meta_def)
qed

lemma apply_loop_logged:
  "apply_loop c fuel auth batch already idx acc out db = Inr (out', acc', db') \<Longrightarrow>
     \<exists>hs. logged c idx hs db db' \<and> ap_settled out' = ap_settled out @ numbered idx hs"
proof (induction batch arbitrary: already idx acc out db)
  case Nil
  then show ?case using logged_refl by (intro exI[of _ "[]"]) auto
next
  case (Cons tx batch)
  consider (skip) out1 where "apply_loop c fuel auth batch already idx acc out1 db = Inr (out', acc', db')"
        "ap_settled out1 = ap_settled out"
    | (go) layer :: "Reader Overlay" and db1 acc1 where "commit_tx c (idx + 1) tx (ov_log layer) acc db = Inr (db1, acc1)"
        "apply_loop c fuel auth batch (insert (op_hash c tx) already) (idx + 1) acc1
          (out\<lparr>ap_settled := ap_settled out @ [(idx + 1, op_hash c tx)]\<rparr>) db1 = Inr (out', acc', db')"
  proof (cases "op_hash c tx \<in> already")
    case True
    then show thesis using Cons.prems skip[of "out\<lparr>ap_dropped := ap_dropped out @ [\<lparr>dr_op_hash = op_hash c tx, dr_why = R_SETTLED\<rparr>]\<rparr>"] by simp
  next
    case False
    then obtain v layer where ev: "evaluate c fuel (store_reader c db) tx auth = Inr (v, layer)"
      using Cons.prems by (auto simp: rbind_Inr_conv)
    show thesis
    proof (cases "vd_why v")
      case None
      then show thesis using Cons.prems False ev go[of layer] by (auto simp: rbind_Inr_conv)
    next
      case (Some why)
      then show thesis using Cons.prems False ev skip[of "out\<lparr>ap_dropped := ap_dropped out @ [\<lparr>dr_op_hash = op_hash c tx, dr_why = why\<rparr>]\<rparr>"] by simp
    qed
  qed
  then show ?case
  proof cases
    case skip
    then show ?thesis using Cons.IH[OF skip(1)] by simp
  next
    case go
    have one: "logged c idx [op_hash c tx] db db1" using commit_tx_logged[OF go(1)] by simp
    obtain hs where "logged c (idx + 1) hs db1 db'"
        "ap_settled out' = ap_settled out @ [(idx + 1, op_hash c tx)] @ numbered (idx + 1) hs"
      using Cons.IH[OF go(2)] by auto
    then show ?thesis using logged_Cons[OF one] by (intro exI[of _ "op_hash c tx # hs"]) simp
  qed
qed

lemma numbered_snd: "map snd (numbered base hs) = hs"
  by (induction hs arbitrary: base) simp_all

lemma numbered_fst: "map fst (numbered base hs) = [base + 1 .. base + int (length hs)]"
proof (induction hs arbitrary: base)
  case (Cons x hs)
  have "base + 1 + int (length hs) = base + int (length (x # hs))" by simp
  then show ?case using Cons[of "base + 1"] by (simp add: upto_rec1 algebra_simps)
qed simp

lemma head_logged:
  assumes "logged c (sr_head db) hs db db'"
  shows "sr_head db' = sr_head db + int (length hs)"
proof -
  have meta: "get_meta db' ''head_floor'' [] = get_meta db ''head_floor'' []"
    using assms by (simp add: logged_def get_meta_def)
  have entries: "map (\<lambda>e. (en_idx e, en_op_hash e)) (db_entry db') =
      map (\<lambda>e. (en_idx e, en_op_hash e)) (db_entry db) @ numbered (sr_head db) hs"
    using assms by (simp add: logged_def)
  have idx: "en_idx ` set (db_entry db') = en_idx ` set (db_entry db) \<union> {sr_head db + 1 .. sr_head db + int (length hs)}"
  proof -
    have "map en_idx (db_entry db') = map en_idx (db_entry db) @ map fst (numbered (sr_head db) hs)"
      using arg_cong[OF entries, of "map fst"] by (simp add: comp_def)
    then have "set (map en_idx (db_entry db')) = set (map en_idx (db_entry db)) \<union> set (map fst (numbered (sr_head db) hs))"
      by simp
    then show ?thesis unfolding numbered_fst by simp
  qed
  show ?thesis
  proof (cases "hs = []")
    case True
    then show ?thesis using idx meta by (auto simp: sr_head_def)
  next
    case False
    then have pos: "0 < length hs" "1 \<le> int (length hs)" by (cases hs; simp)+
    then have "sr_head db + 1 \<in> en_idx ` set (db_entry db')" unfolding idx by auto
    then have "db_entry db' \<noteq> []" by auto
    moreover have "Max (en_idx ` set (db_entry db')) = sr_head db + int (length hs)"
    proof (rule Max_eqI)
      fix y assume "y \<in> en_idx ` set (db_entry db')"
      then consider "y \<in> en_idx ` set (db_entry db)" | "y \<le> sr_head db + int (length hs)" unfolding idx by auto
      then show "y \<le> sr_head db + int (length hs)"
      proof cases
        case 1
        then have "y \<le> sr_head db" by (auto simp: sr_head_def)
        then show ?thesis by simp
      qed
    next
      show "sr_head db + int (length hs) \<in> en_idx ` set (db_entry db')" unfolding idx using pos by auto
    qed simp
    ultimately show ?thesis by (simp add: sr_head_def)
  qed
qed

lemma apply_within_log:
  assumes "apply_within c fuel batch auth db = Inr (out, db')"
  defines "hs \<equiv> map snd (ap_settled out)"
  shows "ap_settled out = numbered (sr_head db) hs" "sr_head db' = sr_head db + int (length hs)"
    "get_meta db' ''acc_log'' ACC_IDENTITY = extend_log c (sr_head db) (get_meta db ''acc_log'' ACC_IDENTITY) hs"
    "\<And>k. k \<noteq> ''acc'' \<Longrightarrow> k \<noteq> ''acc_log'' \<Longrightarrow> db_meta db' k = db_meta db k" "db_block db' = db_block db"
    "en_op_hash ` set (db_entry db') = en_op_hash ` set (db_entry db) \<union> set hs"
proof -
  obtain acc acc' db1 where loop: "apply_loop c fuel auth batch (sr_has_settled db (map (op_hash c) batch)) (sr_head db) acc
      \<lparr>ap_settled = [], ap_dropped = []\<rparr> db = Inr (out, acc', db1)" and db': "db' = set_meta ''acc'' acc' db1"
    using assms(1) by (auto simp: apply_within_def rbind_Inr_conv)
  from apply_loop_logged[OF loop] obtain gs where gs: "logged c (sr_head db) gs db db1" "ap_settled out = numbered (sr_head db) gs"
    by auto
  then have hs: "hs = gs" by (simp add: hs_def numbered_snd)
  have "sr_head db' = sr_head db1" by (simp add: db' sr_head_def set_meta_def get_meta_def)
  then show "sr_head db' = sr_head db + int (length hs)" using head_logged[OF gs(1)] hs by simp
  show "ap_settled out = numbered (sr_head db) hs" using gs(2) hs by simp
  show "get_meta db' ''acc_log'' ACC_IDENTITY = extend_log c (sr_head db) (get_meta db ''acc_log'' ACC_IDENTITY) hs"
      "db_block db' = db_block db" "\<And>k. k \<noteq> ''acc'' \<Longrightarrow> k \<noteq> ''acc_log'' \<Longrightarrow> db_meta db' k = db_meta db k"
    using gs(1) hs by (simp_all add: db' set_meta_def logged_def get_meta_def)
  have "map (\<lambda>e. (en_idx e, en_op_hash e)) (db_entry db1) =
      map (\<lambda>e. (en_idx e, en_op_hash e)) (db_entry db) @ numbered (sr_head db) gs"
    using gs(1) by (simp add: logged_def)
  from arg_cong[OF this, of "map snd"] have "map en_op_hash (db_entry db1) = map en_op_hash (db_entry db) @ gs"
    by (simp add: comp_def numbered_snd)
  from arg_cong[OF this, of set] show "en_op_hash ` set (db_entry db') = en_op_hash ` set (db_entry db) \<union> set hs"
    by (simp add: db' set_meta_def hs)
qed

section \<open>Blocks\<close>

text \<open>
  A block is committed once. When committing a block succeeds and adds it, the block row is
  found under its number with its hash, the head is the height the block records, and committing
  the same number and hash again, with whatever batch, changes nothing and settles nothing, while
  another hash under that number is refused as a fork.
\<close>

lemma commit_block_once:
  assumes "commit_block c fuel n fh bs hsh batch auth db = Inr (out, db')" "find_block db n = None"
  shows "(\<exists>b. find_block db' n = Some b \<and> bk_hash b = hsh \<and> bk_height b = sr_head db' \<and> bk_first_height b = fh \<and> bk_bytes b = bs) \<and>
    commit_block c fuel' n fh' bs' hsh batch' auth' db' = Inr (\<lparr>ap_settled = [], ap_dropped = []\<rparr>, db') \<and>
    (hsh' \<noteq> hsh \<longrightarrow> commit_block c fuel' n fh' bs' hsh' batch' auth' db' = Inl InvariantError)"
proof -
  obtain u where n: "sql_int n = Inr u" using assms(1) by (auto simp: commit_block_def rbind_Inr_conv)
  obtain db1 where w: "apply_within c fuel batch auth db = Inr (out, db1)"
      "db' = db1\<lparr>db_block := db_block db1 @ [\<lparr>bk_block_num = n, bk_first_height = fh, bk_height = sr_head db1,
         bk_bytes = bs, bk_hash = hsh\<rparr>]\<rparr>"
    using assms by (auto simp: commit_block_def rbind_Inr_conv split: if_splits)
  have "find_block db1 n = None" using assms(2) apply_within_log(5)[OF w(1)] by (simp add: find_block_def)
  then have "find_block db' n = Some \<lparr>bk_block_num = n, bk_first_height = fh, bk_height = sr_head db1, bk_bytes = bs, bk_hash = hsh\<rparr>"
    by (simp add: find_block_def w(2) find_append)
  moreover have "sr_head db' = sr_head db1" by (simp add: w(2) sr_head_def get_meta_def)
  ultimately show ?thesis using n by (simp add: commit_block_def)
qed

section \<open>Garbage collection\<close>

text \<open>
  What garbage collection keeps. Collecting below a block that exists deletes exactly the
  entries under its first height and the blocks under its number, and touches no row, memo or
  metadata, so every lookup, proof and commitment of the state stays. The head of the log survives
  exactly when some entry is at or above the pivot's first height; otherwise, which happens when the
  pivot and every block after it are empty, the head falls back to the floor left by a checkpoint,
  zero if there is none, and the next transaction is numbered from there.
\<close>

lemma gc_below_keeps:
  assumes "find_block db pivot = Some b" "in_range pivot"
  shows "\<exists>n db'. gc_below pivot db = Inr (n, db') \<and>
    db_live db' = db_live db \<and> db_memo db' = db_memo db \<and> db_meta db' = db_meta db \<and>
    set (db_entry db') = {e \<in> set (db_entry db). bk_first_height b \<le> en_idx e} \<and>
    set (db_block db') = {k \<in> set (db_block db). pivot \<le> bk_block_num k} \<and>
    n = int (length (db_entry db)) - int (length (db_entry db')) \<and>
    sr_head db' = (if \<exists>e \<in> set (db_entry db). bk_first_height b \<le> en_idx e then sr_head db
                   else int (from_bytes (get_meta db ''head_floor'' [])))"
proof -
  let ?es = "filter (\<lambda>e. \<not> en_idx e < bk_first_height b) (db_entry db)"
  let ?db = "db\<lparr>db_entry := ?es, db_block := filter (\<lambda>k. \<not> bk_block_num k < pivot) (db_block db)\<rparr>"
  have gc: "gc_below pivot db = Inr (int (length (filter (\<lambda>e. en_idx e < bk_first_height b) (db_entry db))), ?db)"
    using assms by (simp add: gc_below_def Let_def)
  have n: "int (length (filter (\<lambda>e. en_idx e < bk_first_height b) (db_entry db))) =
      int (length (db_entry db)) - int (length ?es)"
    using sum_length_filter_compl[of "\<lambda>e. en_idx e < bk_first_height b" "db_entry db"] by simp
  have head: "sr_head ?db = sr_head db" if e: "e \<in> set (db_entry db)" "bk_first_height b \<le> en_idx e" for e
  proof -
    have in_es: "e \<in> set ?es" using e by auto
    have "Max (en_idx ` set ?es) = Max (en_idx ` set (db_entry db))"
    proof (rule Max_eqI)
      fix y assume "y \<in> en_idx ` set ?es"
      then show "y \<le> Max (en_idx ` set (db_entry db))" by (intro Max_ge) auto
    next
      obtain m where m: "m \<in> set (db_entry db)" "en_idx m = Max (en_idx ` set (db_entry db))"
        using Max_in[of "en_idx ` set (db_entry db)"] e(1) by (metis (no_types, lifting) List.finite_set empty_iff finite_imageI image_iff)
      moreover have "en_idx e \<le> en_idx m" using m(2) e(1) by simp
      ultimately show "Max (en_idx ` set (db_entry db)) \<in> en_idx ` set ?es" using e(2) by (intro image_eqI[of _ _ m]) auto
    qed simp
    moreover have "?es \<noteq> []" "db_entry db \<noteq> []" using in_es e(1) by (auto simp: filter_empty_conv)
    ultimately show ?thesis by (simp add: sr_head_def)
  qed
  have "sr_head ?db = int (from_bytes (get_meta db ''head_floor'' []))"
    if "\<not> (\<exists>e \<in> set (db_entry db). bk_first_height b \<le> en_idx e)"
  proof -
    have "?es = []" using that by (auto simp: filter_empty_conv)
    then show ?thesis by (simp add: sr_head_def get_meta_def)
  qed
  with head have "sr_head ?db = (if \<exists>e \<in> set (db_entry db). bk_first_height b \<le> en_idx e then sr_head db
      else int (from_bytes (get_meta db ''head_floor'' [])))"
    by auto
  then show ?thesis using gc n by (intro exI[of _ "int (length (filter (\<lambda>e. en_idx e < bk_first_height b) (db_entry db)))"] exI[of _ ?db]) auto
qed

section \<open>Replay\<close>

lemma running_of_db_ok:
  assumes "db_ok c db" "log_ok G db" "row_key ` set (db_live db) \<subseteq> K"
  shows "running c G K db (acc_sum c (db_live db))"
  using assms by (simp add: running_def db_ok_def)

lemma writes_only:
  "m \<in> set ms \<Longrightarrow> \<forall>m' \<in> set ms. mut_key m' = mut_key m \<longrightarrow> m' = m \<Longrightarrow>
     writes cred ms (mut_key m) = Some (held_after m cred)"
proof (induction ms rule: rev_induct)
  case (snoc x ms)
  then show ?case by (cases "mut_key x = mut_key m") (auto simp: writes_snoc)
qed simp

text \<open>
  Replaying the log is not settling it. Settlement commits the mutations the evaluation kept;
  replay commits every mutation of the logged transaction, the soft steps that settlement skipped
  included. So when an accepted transaction has a soft step that was skipped and whose key no other
  step writes, replaying the same transaction over the same store gives that key the value the
  settled store does not have. The hypotheses ask that the skipped write would change the row.
\<close>

lemma replay_applies_skipped_steps:
  assumes "digest_width c" "acc_laws c G" "db_ok c db" "log_ok G db" "stx_verify c tx"
    and "inj_on (key_path c) (row_key ` set (db_live db) \<union> batch_keys [tx])" "batch_ok UNIV [tx]"
    and "op_hash c tx \<notin> en_op_hash ` set (db_entry db)" "0 \<le> sr_head db" "sr_head db + 1 < 2 ^ 63"
    and ev: "evaluate c fuel (store_reader c db) tx auth = Inr (v, layer)" "vd_ok v"
    and skipped: "m \<in> set (tx_mutations (stx_txn tx))" "mut_key m \<notin> mut_key ` set (ov_log layer)"
      "\<forall>m' \<in> set (tx_mutations (stx_txn tx)). mut_key m' = mut_key m \<longrightarrow> m' = m"
      "live_get (db_live db) (mut_store m) (mut_name m) \<noteq> held_after m (stx_raw tx)"
  shows "\<exists>out settled acc replayed.
    apply_within c fuel [tx] auth db = Inr (out, settled) \<and> map snd (ap_settled out) = [op_hash c tx] \<and>
    replay_loop c [\<lparr>ent_idx = sr_head db + 1, ent_item = tx\<rparr>] (acc_sum c (db_live db)) db = Inr (acc, replayed) \<and>
    live_get (db_live settled) (mut_store m) (mut_name m) = live_get (db_live db) (mut_store m) (mut_name m) \<and>
    live_get (db_live replayed) (mut_store m) (mut_name m) = held_after m (stx_raw tx) \<and>
    live_get (db_live settled) (mut_store m) (mut_name m) \<noteq> live_get (db_live replayed) (mut_store m) (mut_name m)"
proof -
  let ?K = "row_key ` set (db_live db) \<union> batch_keys [tx]" and ?all = "tx_mutations (stx_txn tx)"
  let ?acc = "acc_sum c (db_live db)"
  have run: "running c G ?K db ?acc" using assms(3,4) by (intro running_of_db_ok) auto
  have all: "\<forall>m \<in> set ?all. mut_in_range m \<and> mut_key m \<in> ?K"
    using assms(7) by (auto simp: batch_ok_def batch_keys_def)
  then have kept: "\<forall>m \<in> set (ov_log layer). mut_in_range m \<and> mut_key m \<in> ?K"
    using evaluate_extends(3)[OF ev(1)] by blast
  have entry: "in_range (sr_head db + 1)" "in_range (stx_ts tx)" "\<forall>e \<in> set (db_entry db). en_idx e < sr_head db + 1"
    using assms(7,9,10) by (auto simp: in_range_def batch_ok_def sr_head_def)
  obtain db1 acc1 where s: "commit_tx c (sr_head db + 1) tx (ov_log layer) ?acc db = Inr (db1, acc1)"
      "\<forall>st nm. live_get (db_live db1) st nm = (case writes (stx_raw tx) (ov_log layer) (st, nm) of None \<Rightarrow> live_get (db_live db) st nm | Some v \<Rightarrow> v)"
    by (rule commit_tx_running[OF assms(1,2,6) run kept entry assms(8)])
  obtain db2 acc2 where r: "commit_tx c (sr_head db + 1) tx ?all ?acc db = Inr (db2, acc2)"
      "\<forall>st nm. live_get (db_live db2) st nm = (case writes (stx_raw tx) ?all (st, nm) of None \<Rightarrow> live_get (db_live db) st nm | Some v \<Rightarrow> v)"
    by (rule commit_tx_running[OF assms(1,2,6) run all entry assms(8)])
  have "writes (stx_raw tx) (ov_log layer) (mut_key m) = None"
    using skipped(2) by (cases "writes (stx_raw tx) (ov_log layer) (mut_key m)") (auto dest: writes_dom)
  then have settled: "live_get (db_live db1) (mut_store m) (mut_name m) = live_get (db_live db) (mut_store m) (mut_name m)"
    using s(2) by simp
  have "writes (stx_raw tx) ?all (mut_key m) = Some (held_after m (stx_raw tx))"
    by (rule writes_only[OF skipped(1,3)])
  then have replayed: "live_get (db_live db2) (mut_store m) (mut_name m) = held_after m (stx_raw tx)" using r(2) by simp
  have "Accumulator (get_meta db ''acc'' ACC_IDENTITY) = Inr ?acc"
    using assms(3) acc_sum_Accumulator[OF assms(2)] by (simp add: db_ok_def)
  then have "apply_within c fuel [tx] auth db =
      Inr (\<lparr>ap_settled = [(sr_head db + 1, op_hash c tx)], ap_dropped = []\<rparr>, set_meta ''acc'' acc1 db1)"
    using assms(8) ev s(1) by (simp add: apply_within_def sr_accumulator_def sr_has_settled_def vd_ok_def)
  moreover have "replay_loop c [\<lparr>ent_idx = sr_head db + 1, ent_item = tx\<rparr>] ?acc db = Inr (acc2, db2)"
    using assms(5) r(1) by simp
  ultimately show ?thesis using settled replayed skipped(4) by (simp add: set_meta_def)
qed

section \<open>Witnesses\<close>

lemma commit_block_once_witness:
  "\<exists>out db'. commit_block (sample []) 5 0 1 [1] [2] [] (mgmt_auth (sample []) sample_mgmt) db_empty = Inr (out, db') \<and>
    (\<exists>b. find_block db' 0 = Some b \<and> bk_hash b = [2] \<and> bk_height b = sr_head db' \<and> bk_first_height b = 1 \<and> bk_bytes b = [1]) \<and>
    commit_block (sample []) 5 0 7 [9] [2] [sample_put] (mgmt_auth (sample []) sample_mgmt) db' = Inr (\<lparr>ap_settled = [], ap_dropped = []\<rparr>, db') \<and>
    commit_block (sample []) 5 0 7 [9] [3] [sample_put] (mgmt_auth (sample []) sample_mgmt) db' = Inl InvariantError"
proof -
  have acc: "Accumulator ACC_IDENTITY = Inr ACC_IDENTITY" by (simp add: fixed_def ACC_IDENTITY_def)
  have none: "find_block db_empty 0 = None" by (simp add: find_block_def db_empty_def)
  obtain out db' where ok: "commit_block (sample []) 5 0 1 [1] [2] [] (mgmt_auth (sample []) sample_mgmt) db_empty = Inr (out, db')"
    using none acc by (simp add: commit_block_def apply_within_def sr_accumulator_def get_meta_def in_range_def)
      (simp add: db_empty_def set_meta_def)
  show ?thesis
    using ok commit_block_once[OF ok none, where fuel' = 5 and fh' = 7 and bs' = "[9]" and batch' = "[sample_put]"
        and auth' = "mgmt_auth (sample []) sample_mgmt" and hsh' = "[3]"] by auto
qed

definition gc_sample :: Db where
  "gc_sample = db_empty\<lparr>db_entry := [\<lparr>en_idx = 1, en_op_hash = [1], en_raw = [], en_author = [], en_ts = 0\<rparr>],
     db_block := [\<lparr>bk_block_num = 0, bk_first_height = 1, bk_height = 1, bk_bytes = [], bk_hash = [1]\<rparr>,
                  \<lparr>bk_block_num = 1, bk_first_height = 2, bk_height = 1, bk_bytes = [], bk_hash = [2]\<rparr>]\<rparr>"

text \<open>Collecting at an empty head block empties the log and sends the head back to zero.\<close>

lemma gc_below_keeps_witness:
  "\<exists>n db'. gc_below 1 gc_sample = Inr (n, db') \<and> set (db_entry db') = {} \<and> sr_head gc_sample = 1 \<and> sr_head db' = 0"
proof -
  have find: "find_block gc_sample 1 = Some \<lparr>bk_block_num = 1, bk_first_height = 2, bk_height = 1, bk_bytes = [], bk_hash = [2]\<rparr>"
    by (simp add: find_block_def gc_sample_def)
  have none: "\<not> (\<exists>e \<in> set (db_entry gc_sample). 2 \<le> en_idx e)" by (simp add: gc_sample_def)
  obtain n db' where gc: "gc_below 1 gc_sample = Inr (n, db')"
      "set (db_entry db') = {e \<in> set (db_entry gc_sample). 2 \<le> en_idx e}"
      "sr_head db' = int (from_bytes (get_meta gc_sample ''head_floor'' []))"
    using gc_below_keeps[OF find] none by (auto simp: in_range_def)
  have "set (db_entry db') = {}" unfolding gc(2) using none by blast
  moreover have "sr_head gc_sample = 1" by (simp add: sr_head_def gc_sample_def)
  moreover have "sr_head db' = 0" unfolding gc(3) by (simp add: get_meta_def gc_sample_def db_empty_def)
  ultimately show ?thesis using gc(1) by blast
qed

definition soft_put :: SignedTransaction where
  "soft_put = tx_sign (sample []) [\<lparr>step_guards = [Exists 1 [9]], step_mutation = Set 1 [2] [8] 0, step_soft = True\<rparr>] [1] 3"

lemma soft_put_sel:
  "stx_author soft_put = kp_public (sample []) [1]" "stx_ts soft_put = 3" "stx_verify (sample []) soft_put"
  "tx_mutations (stx_txn soft_put) = [Set 1 [2] [8] 0]" "batch_keys [soft_put] = {(1, [2])}"
  by (simp_all add: soft_put_def tx_sign_def stx_verify_def stx_body_def sample_sign_correct tx_mutations_def batch_keys_def)

lemma soft_put_skipped:
  "evaluate (sample []) 5 (store_reader (sample []) db_empty) soft_put (mgmt_auth (sample []) sample_anchored) =
     Inr (OK_verdict, overlay_new (store_reader (sample []) db_empty))"
proof -
  have "ov_get (overlay_new (store_reader (sample []) db_empty)) 1 [9] = Inr None"
    by (simp add: overlay_new_get store_reader_def store_view_def Reader.truncate_def sr_get_eq in_range_def db_empty_def live_get_def)
  then show ?thesis
    by (simp add: evaluate_def soft_put_sel)
      (simp add: soft_put_def tx_sign_def Let_def mgmt_auth_def may_write_def sample_anchored_def data_row_shape_def overlay_reader_get)
qed

lemma replay_applies_skipped_steps_witness:
  "\<exists>out settled acc replayed.
    apply_within (sample []) 5 [soft_put] (mgmt_auth (sample []) sample_anchored) db_empty = Inr (out, settled) \<and>
    map snd (ap_settled out) = [op_hash (sample []) soft_put] \<and>
    replay_loop (sample []) [\<lparr>ent_idx = sr_head db_empty + 1, ent_item = soft_put\<rparr>] (acc_sum (sample []) (db_live db_empty)) db_empty = Inr (acc, replayed) \<and>
    live_get (db_live settled) 1 [2] \<noteq> live_get (db_live replayed) 1 [2]"
proof -
  let ?m = "Set 1 [2] [8] 0"
  have "batch_ok UNIV [soft_put]" by (simp add: batch_ok_def soft_put_sel in_range_def)
  moreover have "inj_on (key_path (sample [])) (row_key ` set (db_live db_empty) \<union> batch_keys [soft_put])"
    by (simp add: db_empty_def soft_put_sel)
  moreover have "op_hash (sample []) soft_put \<notin> en_op_hash ` set (db_entry db_empty)" "sr_head db_empty = 0"
    by (simp_all add: db_empty_def sr_head_def get_meta_def)
  moreover have "live_get (db_live db_empty) (mut_store ?m) (mut_name ?m) \<noteq> held_after ?m (stx_raw soft_put)"
    by (simp add: db_empty_def live_get_def held_after_def)
  ultimately show ?thesis
    using replay_applies_skipped_steps[OF sample_digest_width sample_acc_laws db_ok_empty sample_log_ok soft_put_sel(3)
        _ _ _ _ _ soft_put_skipped, of ?m]
    by (auto simp: soft_put_sel vd_ok_def OK_verdict_def overlay_new_def)
qed

end
