(* ===== verification/Tunables.thy ===== *)
theory Tunables
  imports Dude_Prelude
begin

text \<open>
  \<^verbatim>\<open>dude/tunables.py\<close>: the deployment-wide dials and the times derived from them. The
  only float of the record, \<^verbatim>\<open>safety_margin\<close>, is used once, in
  \<^verbatim>\<open>int(int(block_time_floor) * safety_margin)\<close>; that product is the field
  \<open>safety_scale\<close>, a function on the integer floor, for the default margin 1.5 exactly three halves
  rounded towards zero. The transport policy and the random keepalive interval are not modelled.
\<close>

record Tunables =
  rtt_max :: int
  clock_skew :: int
  retry_budget :: int
  held_convergence_max :: int
  safety_scale :: "int \<Rightarrow> int"
  windows_to_settle :: int
  pull_batch :: int
  max_attempts :: int
  desired_links_per_peer :: int
  breaker_threshold :: int
  budget_max_tokens :: int
  budget_token_ratio :: int

definition DEFAULT :: Tunables where
  "DEFAULT = \<lparr>rtt_max = 2000, clock_skew = 2000, retry_budget = 2, held_convergence_max = 3,
     safety_scale = (\<lambda>n. 3 * n div 2), windows_to_settle = 2, pull_batch = 32, max_attempts = 8,
     desired_links_per_peer = 2, breaker_threshold = 5, budget_max_tokens = 10000, budget_token_ratio = 100\<rparr>"

text \<open>\<^verbatim>\<open>__post_init__\<close>: a count below one is refused, and so is a margin below one.\<close>

definition tunables_new :: "Tunables \<Rightarrow> Tunables res" where
  "tunables_new t =
     (if retry_budget t < 1 \<or> held_convergence_max t < 1 \<or> \<not> (safety_scale t 1 \<ge> 1) \<or> windows_to_settle t < 1 \<or>
         pull_batch t < 1 \<or> max_attempts t < 1 \<or> desired_links_per_peer t < 1
      then Inl InvariantError else Inr t)"

section \<open>Derived times\<close>

definition single_wave_budget :: "Tunables \<Rightarrow> int" where
  "single_wave_budget t = rtt_max t * retry_budget t"

definition held_wave_budget :: "Tunables \<Rightarrow> int" where
  "held_wave_budget t = single_wave_budget t * held_convergence_max t"

definition block_time_floor :: "Tunables \<Rightarrow> int" where
  "block_time_floor t = held_wave_budget t + single_wave_budget t * 2 + clock_skew t"

definition block_time :: "Tunables \<Rightarrow> int" where
  "block_time t = safety_scale t (block_time_floor t)"

definition cut_reserve :: "Tunables \<Rightarrow> int" where
  "cut_reserve t = single_wave_budget t * 2"

definition admission_floor :: "Tunables \<Rightarrow> int" where
  "admission_floor t = block_time t + clock_skew t + rtt_max t * 2"

definition w_admit :: "Tunables \<Rightarrow> int" where
  "w_admit t = admission_floor t"

definition endorse_margin :: "Tunables \<Rightarrow> int" where
  "endorse_margin t = block_time t * windows_to_settle t + clock_skew t"

definition w_valid_margin :: "Tunables \<Rightarrow> int" where
  "w_valid_margin t = endorse_margin t"

definition w_valid :: "Tunables \<Rightarrow> int" where
  "w_valid t = w_admit t + w_valid_margin t"

definition evict_after :: "Tunables \<Rightarrow> int" where
  "evict_after t = w_valid t"

definition ttl_round :: "Tunables \<Rightarrow> int" where
  "ttl_round t = endorse_margin t"

definition ttl_exchange :: "Tunables \<Rightarrow> int" where
  "ttl_exchange t = block_time_floor t"

definition ttl_lite :: "Tunables \<Rightarrow> int" where
  "ttl_lite t = block_time t + clock_skew t"

definition ttl_longest :: "Tunables \<Rightarrow> int" where
  "ttl_longest t = max (ttl_round t) (max (ttl_exchange t) (ttl_lite t))"

definition window :: "Tunables \<Rightarrow> int" where
  "window t = ttl_longest t + clock_skew t"

definition poll_interval :: "Tunables \<Rightarrow> int" where
  "poll_interval t = block_time t"

definition freshness_window :: "Tunables \<Rightarrow> int" where
  "freshness_window t = poll_interval t + rtt_max t + clock_skew t"

definition pull_timeout :: "Tunables \<Rightarrow> int" where
  "pull_timeout t = block_time_floor t"

definition liveness_window :: "Tunables \<Rightarrow> int" where
  "liveness_window t = windows_to_settle t"

definition backoff_base :: "Tunables \<Rightarrow> int" where
  "backoff_base t = rtt_max t"

definition backoff_cap :: "Tunables \<Rightarrow> int" where
  "backoff_cap t = ttl_longest t"

definition stagger_cap :: "Tunables \<Rightarrow> int" where
  "stagger_cap t = rtt_max t"

definition breaker_cooldown :: "Tunables \<Rightarrow> int" where
  "breaker_cooldown t = block_time_floor t"

definition expected_rtt :: "Tunables \<Rightarrow> int" where
  "expected_rtt t = rtt_max t"

definition tcp_connect :: "Tunables \<Rightarrow> int" where
  "tcp_connect t = rtt_max t * 2"

definition tcp_send :: "Tunables \<Rightarrow> int" where
  "tcp_send t = rtt_max t * 2"

definition link_maintenance_interval :: "Tunables \<Rightarrow> int" where
  "link_maintenance_interval t = block_time t"

definition keepalive_threshold :: "Tunables \<Rightarrow> int" where
  "keepalive_threshold t = block_time t * 2"

definition unauthenticated_link_lifetime :: "Tunables \<Rightarrow> int" where
  "unauthenticated_link_lifetime t = rtt_max t * 3"

definition skew_buckets :: "Tunables \<Rightarrow> int" where
  "skew_buckets t = - (- clock_skew t div block_time t)"

definition bucket_of :: "Tunables \<Rightarrow> int \<Rightarrow> int" where
  "bucket_of t ts = ts div block_time t"

definition bucket_start :: "Tunables \<Rightarrow> int \<Rightarrow> int" where
  "bucket_start t b = block_time t * b"

section \<open>Well-formed tunables\<close>

text \<open>
  What the constructor checks, with positive times and a scale that does not shrink its argument,
  as a margin of at least one does not.
\<close>

definition tunables_ok :: "Tunables \<Rightarrow> bool" where
  "tunables_ok t \<longleftrightarrow> tunables_new t = Inr t \<and> 0 < rtt_max t \<and> 0 \<le> clock_skew t \<and> (\<forall>n \<ge> 0. n \<le> safety_scale t n)"

lemma tunables_okD:
  assumes "tunables_ok t"
  shows "0 < rtt_max t" "0 \<le> clock_skew t" "1 \<le> retry_budget t" "1 \<le> held_convergence_max t" "1 \<le> windows_to_settle t"
    "1 \<le> pull_batch t" "1 \<le> max_attempts t" "0 \<le> n \<Longrightarrow> n \<le> safety_scale t n"
  using assms by (auto simp: tunables_ok_def tunables_new_def split: if_splits)

lemma DEFAULT_ok: "tunables_ok DEFAULT"
  by (auto simp: tunables_ok_def tunables_new_def DEFAULT_def)

lemma wave_pos:
  assumes "tunables_ok t"
  shows "rtt_max t \<le> single_wave_budget t" "single_wave_budget t \<le> held_wave_budget t"
    "3 * single_wave_budget t + clock_skew t \<le> block_time_floor t" "block_time_floor t \<le> block_time t" "0 < block_time t"
proof -
  note D = tunables_okD[OF assms]
  show s: "rtt_max t \<le> single_wave_budget t"
    using D(1,3) by (simp add: single_wave_budget_def)
  then show h: "single_wave_budget t \<le> held_wave_budget t"
    using D(1,4) by (simp add: held_wave_budget_def)
  then show f: "3 * single_wave_budget t + clock_skew t \<le> block_time_floor t"
    by (simp add: block_time_floor_def)
  show b: "block_time_floor t \<le> block_time t"
    unfolding block_time_def by (rule D(8)) (use f s D in linarith)
  show "0 < block_time t" using b f s D by linarith
qed

lemma bucket_bounds:
  assumes "tunables_ok t"
  shows "bucket_start t (bucket_of t now) \<le> now" "now < bucket_start t (bucket_of t now + 1)"
proof -
  have p: "0 < block_time t" by (rule wave_pos[OF assms])
  show "bucket_start t (bucket_of t now) \<le> now"
    using pos_mod_sign[OF p, of now] by (simp add: bucket_start_def bucket_of_def minus_mod_eq_mult_div[symmetric])
  show "now < bucket_start t (bucket_of t now + 1)"
    using pos_mod_bound[OF p, of now] minus_mod_eq_mult_div[of now "block_time t"]
    by (simp add: bucket_start_def bucket_of_def distrib_left)
qed

text \<open>
  The derived times fit together. For tunables the constructor accepts, with positive times: an
  envelope is accepted for at least as long as any message may be retransmitted, plus the clock
  skew; a bucket leaves the collecting phase a positive time after it opens, and after the cut
  there is room for two waves; a peer polled every interval is never judged silent; and nothing is
  evicted before the latest block it could still settle in.
\<close>

lemma tunables_coherent:
  assumes "tunables_ok t"
  shows "ttl_round t + clock_skew t \<le> window t \<and> ttl_exchange t + clock_skew t \<le> window t \<and> ttl_lite t + clock_skew t \<le> window t \<and>
    bucket_start t (b + 1) + held_wave_budget t \<le> bucket_start t (b + 2) - cut_reserve t \<and>
    bucket_start t (b + 2) - cut_reserve t < bucket_start t (b + 2) \<and>
    poll_interval t < freshness_window t \<and> w_admit t + block_time t \<le> evict_after t"
proof -
  note D = tunables_okD[OF assms] and W = wave_pos[OF assms]
  have "ttl_round t \<le> ttl_longest t" "ttl_exchange t \<le> ttl_longest t" "ttl_lite t \<le> ttl_longest t"
    by (auto simp: ttl_longest_def)
  moreover have "held_wave_budget t + cut_reserve t \<le> block_time t"
    using W(4) D(2) by (simp add: block_time_floor_def cut_reserve_def)
  moreover have "0 < cut_reserve t" using W(1) D(1) by (simp add: cut_reserve_def)
  moreover have "block_time t \<le> block_time t * windows_to_settle t" using W(5) D(5) by simp
  ultimately show ?thesis
    using D(1,2) by (simp add: window_def bucket_start_def poll_interval_def freshness_window_def evict_after_def w_valid_def
        w_valid_margin_def endorse_margin_def algebra_simps)
qed

lemma tunables_coherent_witness:
  "ttl_round DEFAULT + clock_skew DEFAULT \<le> window DEFAULT \<and>
   bucket_start DEFAULT 6 + held_wave_budget DEFAULT \<le> bucket_start DEFAULT 7 - cut_reserve DEFAULT"
  using tunables_coherent[OF DEFAULT_ok, of 5] by simp

end
