(* ===== verification/Mempool.thy ===== *)
theory Mempool
  imports Tunables Store_Log
begin

text \<open>
  \<^verbatim>\<open>dude/consensus/canonical.py\<close> and \<^verbatim>\<open>dude/consensus/mempool.py\<close>: batches in
  the one order every node assumes, and the pool of admitted transactions, by bucket. The lock of
  the pool serialises its operations, each of which is one function here.
\<close>

section \<open>Canonical batches\<close>

text \<open>\<^verbatim>\<open>CanonicalBatch.__init__\<close>: a stable sort by the hash of the transaction.\<close>

definition canonical_batch :: "prims \<Rightarrow> SignedTransaction list \<Rightarrow> SignedTransaction list" where
  "canonical_batch c txs = sort_key (op_hash c) txs"

definition batch_hashes :: "prims \<Rightarrow> SignedTransaction list \<Rightarrow> digest set" where
  "batch_hashes c txs = op_hash c ` set txs"

definition batch_filter :: "prims \<Rightarrow> SignedTransaction list \<Rightarrow> digest set \<Rightarrow> SignedTransaction list" where
  "batch_filter c txs keep = canonical_batch c (filter (\<lambda>tx. op_hash c tx \<in> keep) txs)"

definition bodies_canonical :: "prims \<Rightarrow> SignedTransaction list \<Rightarrow> SignedTransaction list" where
  "bodies_canonical c bodies = canonical_batch c bodies"

definition hashes_canonical :: "digest list \<Rightarrow> digest list" where
  "hashes_canonical hs = sort hs"

lemma set_canonical [simp]: "set (canonical_batch c txs) = set txs"
  by (simp add: canonical_batch_def)

lemma batch_filter_eq:
  "batch_filter c (canonical_batch c txs) keep = filter (\<lambda>tx. op_hash c tx \<in> keep) (canonical_batch c txs)"
  unfolding batch_filter_def canonical_batch_def
  by (simp add: sort_key_id_if_sorted sorted_filter)

section \<open>The pool\<close>

datatype Refusal = RF_INVALID | TOO_OLD | TOO_NEW | DUPLICATE | UNSIGNED | CANNOT_APPLY | NOT_IN_ROSTER | REPEATED_OP

text \<open>\<^verbatim>\<open>pending\<close>: a dict of dicts, as association lists in insertion order.\<close>

type_synonym pool = "(digest \<times> SignedTransaction) list"

record Mempool =
  mp_tunables :: Tunables
  mp_pending :: "(int \<times> pool) list"

definition mempool_new :: "Tunables \<Rightarrow> Mempool" where
  "mempool_new t = \<lparr>mp_tunables = t, mp_pending = []\<rparr>"

text \<open>The checks the two doors share, after the time window.\<close>

definition valid_body :: "prims \<Rightarrow> nat \<Rightarrow> SignedTransaction \<Rightarrow> Db \<Rightarrow> Authoriser \<Rightarrow> Refusal option res" where
  "valid_body c fuel tx db auth =
     (if \<not> stx_verify c tx then Inr (Some UNSIGNED)
      else if \<not> distinct (tx_mutations (stx_txn tx)) then Inr (Some REPEATED_OP)
      else if sr_has_settled db [op_hash c tx] \<noteq> {} then Inr (Some DUPLICATE)
      else rbind (would_apply c fuel (store_reader c db) [tx] auth) (\<lambda>s.
        Inr (if sc_rejects s \<noteq> [] then Some CANNOT_APPLY else None)))"

definition mp_valid :: "prims \<Rightarrow> nat \<Rightarrow> Mempool \<Rightarrow> SignedTransaction \<Rightarrow> int \<Rightarrow> Db \<Rightarrow> Authoriser \<Rightarrow> Refusal option res" where
  "mp_valid c fuel mp tx now db auth =
     (let t = mp_tunables mp in
      if now - stx_ts tx > w_admit t then Inr (Some TOO_OLD)
      else if stx_ts tx - now > w_admit t then Inr (Some TOO_NEW)
      else valid_body c fuel tx db auth)"

definition valid_for_bucket ::
  "prims \<Rightarrow> nat \<Rightarrow> Mempool \<Rightarrow> SignedTransaction \<Rightarrow> int \<Rightarrow> Db \<Rightarrow> Authoriser \<Rightarrow> Refusal option res" where
  "valid_for_bucket c fuel mp tx bucket db auth =
     (let t = mp_tunables mp;
          earliest = bucket_start t bucket - w_admit t - clock_skew t;
          latest = bucket_start t (bucket + 1) + w_admit t + clock_skew t
      in if stx_ts tx < earliest then Inr (Some TOO_OLD)
         else if stx_ts tx > latest then Inr (Some TOO_NEW)
         else valid_body c fuel tx db auth)"

text \<open>\<^verbatim>\<open>self.pending.setdefault(landed, {})[tx.op_hash] = tx\<close>.\<close>

definition pool_put :: "prims \<Rightarrow> int \<Rightarrow> SignedTransaction \<Rightarrow> (int \<times> pool) list \<Rightarrow> (int \<times> pool) list" where
  "pool_put c landed tx pending =
     (let held = (case map_of pending landed of None \<Rightarrow> [] | Some p \<Rightarrow> p)
      in AList.update landed (AList.update (op_hash c tx) tx held) pending)"

definition mp_admit ::
  "prims \<Rightarrow> nat \<Rightarrow> Mempool \<Rightarrow> SignedTransaction \<Rightarrow> int \<Rightarrow> Db \<Rightarrow> Authoriser \<Rightarrow> (Refusal option \<times> Mempool) res" where
  "mp_admit c fuel mp tx now db auth =
     (if list_ex (\<lambda>(_, held). op_hash c tx \<in> fst ` set held) (mp_pending mp) then Inr (Some DUPLICATE, mp)
      else rbind (mp_valid c fuel mp tx now db auth) (\<lambda>why.
        case why of
          Some r \<Rightarrow> Inr (Some r, mp)
        | None \<Rightarrow>
            let t = mp_tunables mp; landed = max (bucket_of t (stx_ts tx)) (bucket_of t now)
            in Inr (None, mp\<lparr>mp_pending := pool_put c landed tx (mp_pending mp)\<rparr>)))"

definition mp_buckets :: "Mempool \<Rightarrow> int list" where
  "mp_buckets mp = sort (map fst (filter (\<lambda>(_, held). held \<noteq> []) (mp_pending mp)))"

definition all_hashes :: "Mempool \<Rightarrow> digest set" where
  "all_hashes mp = (\<Union>(_, held) \<in> set (mp_pending mp). fst ` set held)"

definition all_bodies :: "prims \<Rightarrow> Mempool \<Rightarrow> pool" where
  "all_bodies c mp =
     dict_update [] (map (\<lambda>tx. (op_hash c tx, tx)) (concat (map (\<lambda>(_, held). map snd held) (mp_pending mp))))"

definition mp_snapshot :: "Mempool \<Rightarrow> Mempool" where
  "mp_snapshot mp = \<lparr>mp_tunables = mp_tunables mp, mp_pending = filter (\<lambda>(_, held). held \<noteq> []) (mp_pending mp)\<rparr>"

definition evict_settled :: "Db \<Rightarrow> Mempool \<Rightarrow> Mempool" where
  "evict_settled db mp =
     (let hs = concat (map (\<lambda>(_, held). map fst held) (mp_pending mp));
          settled = sr_has_settled db hs;
          kept = map (\<lambda>(b, held). (b, filter (\<lambda>(k, _). k \<notin> settled) held)) (mp_pending mp)
      in mp\<lparr>mp_pending := filter (\<lambda>(_, held). held \<noteq> []) kept\<rparr>)"

definition mp_len :: "Mempool \<Rightarrow> int" where
  "mp_len mp = int (sum_list (map (\<lambda>(_, held). length held) (mp_pending mp)))"

section \<open>The invariant of the pool\<close>

definition pool_entries :: "Mempool \<Rightarrow> (digest \<times> SignedTransaction) list" where
  "pool_entries mp = concat (map snd (mp_pending mp))"

text \<open>Every transaction is keyed by its hash, no hash is held twice, in one bucket or in two.\<close>

definition mempool_ok :: "prims \<Rightarrow> Mempool \<Rightarrow> bool" where
  "mempool_ok c mp \<longleftrightarrow>
     distinct (map fst (mp_pending mp)) \<and> distinct (map fst (pool_entries mp)) \<and>
     (\<forall>(k, tx) \<in> set (pool_entries mp). k = op_hash c tx)"

lemma all_hashes_entries: "all_hashes mp = fst ` set (pool_entries mp)"
  by (force simp: all_hashes_def pool_entries_def)

lemma mset_pool_put:
  assumes "distinct (map fst pending)" "op_hash c tx \<notin> fst ` set (concat (map snd pending))"
  shows "mset (concat (map snd (pool_put c b tx pending))) = mset (concat (map snd pending)) + {#(op_hash c tx, tx)#}"
proof -
  have held: "op_hash c tx \<notin> fst ` set held" if "(b', held) \<in> set pending" for b' held
    using assms(2) that by force
  show ?thesis using assms(1) held
  proof (induction pending)
    case (Cons p pending)
    obtain b' held where p: "p = (b', held)" by (cases p)
    show ?case
    proof (cases "b' = b")
      case True
      then show ?thesis using Cons.prems(2)[of b' held] p by (simp add: pool_put_def Let_def update_new)
    next
      case False
      then have "pool_put c b tx (p # pending) = p # pool_put c b tx pending" by (simp add: p pool_put_def Let_def)
      moreover have "mset (concat (map snd (pool_put c b tx pending))) = mset (concat (map snd pending)) + {#(op_hash c tx, tx)#}"
        by (rule Cons.IH) (use Cons.prems in auto)
      ultimately show ?thesis by simp
    qed
  qed (simp add: pool_put_def Let_def)
qed

lemma distinct_pool_put: "distinct (map fst pending) \<Longrightarrow> distinct (map fst (pool_put c b tx pending))"
  by (simp add: pool_put_def Let_def distinct_update)

lemma mempool_ok_put:
  assumes "mempool_ok c mp" "op_hash c tx \<notin> all_hashes mp"
  shows "mempool_ok c (mp\<lparr>mp_pending := pool_put c b tx (mp_pending mp)\<rparr>)"
    "set (pool_entries (mp\<lparr>mp_pending := pool_put c b tx (mp_pending mp)\<rparr>)) = insert (op_hash c tx, tx) (set (pool_entries mp))"
proof -
  let ?new = "mp\<lparr>mp_pending := pool_put c b tx (mp_pending mp)\<rparr>"
  have d: "distinct (map fst (mp_pending mp))" using assms(1) by (simp add: mempool_ok_def)
  have fresh: "op_hash c tx \<notin> fst ` set (pool_entries mp)" using assms(2) by (simp add: all_hashes_entries)
  have m: "mset (pool_entries ?new) = mset (pool_entries mp @ [(op_hash c tx, tx)])"
    using mset_pool_put[OF d, of c tx b] fresh by (simp add: pool_entries_def)
  then show s: "set (pool_entries ?new) = insert (op_hash c tx, tx) (set (pool_entries mp))"
    using mset_eq_setD[OF m] by simp
  have "distinct (map fst (pool_entries ?new)) \<longleftrightarrow> distinct (map fst (pool_entries mp @ [(op_hash c tx, tx)]))"
    by (rule distinct_map_mset[OF m])
  then show "mempool_ok c ?new"
    using assms(1) fresh s distinct_pool_put[OF d] by (auto simp: mempool_ok_def)
qed

lemma concat_nonempty: "concat (map snd (filter (\<lambda>(_, held). held \<noteq> []) xs)) = concat (map snd xs)"
  by (induction xs) auto

lemma evict_pool:
  "pool_entries (evict_settled db mp) = filter (\<lambda>(k, _). k \<notin> en_op_hash ` set (db_entry db)) (pool_entries mp)"
proof -
  define hs where "hs = concat (map (\<lambda>(_, held). map fst held) (mp_pending mp))"
  define settled where "settled = sr_has_settled db hs"
  let ?kept = "map (\<lambda>(b, held). (b, filter (\<lambda>(k, _). k \<notin> settled) held)) (mp_pending mp)"
  have hs: "set hs = fst ` set (pool_entries mp)" by (force simp: hs_def pool_entries_def)
  have "pool_entries (evict_settled db mp) = concat (map snd ?kept)"
    by (simp add: evict_settled_def pool_entries_def settled_def hs_def Let_def concat_nonempty)
  also have "\<dots> = filter (\<lambda>(k, _). k \<notin> settled) (pool_entries mp)"
    by (simp add: pool_entries_def filter_concat comp_def case_prod_beta)
  also have "\<dots> = filter (\<lambda>(k, _). k \<notin> en_op_hash ` set (db_entry db)) (pool_entries mp)"
  proof (rule filter_cong[OF refl])
    fix x assume "x \<in> set (pool_entries mp)"
    then have "fst x \<in> set hs" using hs by simp
    then show "(case x of (k, _) \<Rightarrow> k \<notin> settled) = (case x of (k, _) \<Rightarrow> k \<notin> en_op_hash ` set (db_entry db))"
      by (simp add: settled_def sr_has_settled_def case_prod_beta)
  qed
  finally show ?thesis .
qed

lemma mempool_ok_evict:
  assumes "mempool_ok c mp"
  shows "mempool_ok c (evict_settled db mp)"
proof -
  have "distinct (map fst (filter P (map (\<lambda>(b, held). (b, f held)) xs)))" if "distinct (map fst xs)"
    for P and f :: "pool \<Rightarrow> pool" and xs :: "(int \<times> pool) list"
  proof -
    have "map fst (map (\<lambda>(b, held). (b, f held)) xs) = map fst xs" by (induction xs) auto
    then show ?thesis using that by (intro distinct_map_filter) (simp only:)
  qed
  then have "distinct (map fst (mp_pending (evict_settled db mp)))"
    using assms by (simp add: evict_settled_def Let_def mempool_ok_def)
  then show ?thesis using assms by (auto simp: mempool_ok_def evict_pool intro: distinct_map_filter)
qed

text \<open>
  The pool holds each transaction once, under its own hash. Admission of a transaction either
  refuses it and leaves the pool alone, or adds exactly that transaction, which was not held, has a
  valid signature, is inside the time window, is not settled and applies on its own to the store.
  Eviction removes exactly the settled transactions. Both keep the invariant of the pool.
\<close>

lemma mempool_admit_evict:
  assumes "mempool_ok c mp" "mp_admit c fuel mp tx now db auth = Inr (why, mp')"
  shows "mempool_ok c mp' \<and> mempool_ok c (evict_settled db mp) \<and>
    all_hashes (evict_settled db mp) = all_hashes mp - en_op_hash ` set (db_entry db) \<and>
    (why \<noteq> None \<longrightarrow> mp' = mp) \<and>
    (why = None \<longrightarrow> op_hash c tx \<notin> all_hashes mp \<and> set (pool_entries mp') = insert (op_hash c tx, tx) (set (pool_entries mp)) \<and>
      stx_verify c tx \<and> \<bar>now - stx_ts tx\<bar> \<le> w_admit (mp_tunables mp) \<and> op_hash c tx \<notin> en_op_hash ` set (db_entry db) \<and>
      (\<exists>s. would_apply c fuel (store_reader c db) [tx] auth = Inr s \<and> sc_rejects s = []))"
proof -
  have ev: "all_hashes (evict_settled db mp) = all_hashes mp - en_op_hash ` set (db_entry db)"
    unfolding all_hashes_entries evict_pool by force
  show ?thesis
  proof (cases why)
    case (Some r)
    then have "mp' = mp" using assms(2) by (auto simp: mp_admit_def Let_def rbind_Inr_conv split: if_splits option.splits)
    then show ?thesis using Some assms(1) mempool_ok_evict[OF assms(1)] ev by simp
  next
    case None
    then have fresh: "op_hash c tx \<notin> all_hashes mp" and valid: "mp_valid c fuel mp tx now db auth = Inr None"
      and mp': "mp' = mp\<lparr>mp_pending := pool_put c (max (bucket_of (mp_tunables mp) (stx_ts tx)) (bucket_of (mp_tunables mp) now)) tx (mp_pending mp)\<rparr>"
      using assms(2) by (auto simp: mp_admit_def Let_def rbind_Inr_conv all_hashes_def list_ex_iff split: if_splits option.splits)
    have "stx_verify c tx \<and> \<bar>now - stx_ts tx\<bar> \<le> w_admit (mp_tunables mp) \<and> op_hash c tx \<notin> en_op_hash ` set (db_entry db) \<and>
        (\<exists>s. would_apply c fuel (store_reader c db) [tx] auth = Inr s \<and> sc_rejects s = [])"
      using valid by (auto simp: mp_valid_def valid_body_def Let_def rbind_Inr_conv sr_has_settled_def split: if_splits)
    then show ?thesis
      using None fresh mp' mempool_ok_put[OF assms(1) fresh] mempool_ok_evict[OF assms(1)] ev by simp
  qed
qed

text \<open>
  What a node admits, its peers accept. A transaction admitted at a time \<open>now\<close> passes the
  check peers make of the bodies of a bucket, against the same store, for the bucket of any clock
  that is at most the clock skew away from \<open>now\<close>.
\<close>

lemma admitted_valid_for_bucket:
  assumes "tunables_ok (mp_tunables mp)" "mp_valid c fuel mp tx now db auth = Inr None"
    and "\<bar>now' - now\<bar> \<le> clock_skew (mp_tunables mp)"
  shows "valid_for_bucket c fuel mp tx (bucket_of (mp_tunables mp) now') db auth = Inr None"
proof -
  let ?t = "mp_tunables mp"
  have "\<bar>now - stx_ts tx\<bar> \<le> w_admit ?t" and body: "valid_body c fuel tx db auth = Inr None"
    using assms(2) by (auto simp: mp_valid_def Let_def split: if_splits)
  then show ?thesis
    using bucket_bounds[OF assms(1), of now'] assms(3) by (simp add: valid_for_bucket_def Let_def abs_le_iff)
qed

section \<open>Witnesses\<close>

definition mem_sample :: Mempool where
  "mem_sample = mempool_new DEFAULT"

lemma sample_valid: "mp_valid (sample []) 5 mem_sample soft_put 3 db_empty (mgmt_auth (sample []) sample_anchored) = Inr None"
proof -
  have w: "w_admit (mp_tunables mem_sample) \<ge> 0"
    using wave_pos(5)[OF DEFAULT_ok] by (simp add: mem_sample_def mempool_new_def w_admit_def admission_floor_def) (simp add: DEFAULT_def)
  have "rd_get (overlay_reader 5 (overlay_new (store_reader (sample []) db_empty))) = rd_get (store_reader (sample []) db_empty)"
    by (simp add: overlay_reader_get overlay_new_get)
  from evaluate_rebase[OF mgmt_auth_by_get this] soft_put_skipped
  have "\<exists>l. evaluate (sample []) 5 (overlay_reader 5 (overlay_new (store_reader (sample []) db_empty))) soft_put
      (mgmt_auth (sample []) sample_anchored) = Inr (OK_verdict, l)"
    by simp
  then have "\<exists>s. would_apply (sample []) 5 (store_reader (sample []) db_empty) [soft_put] (mgmt_auth (sample []) sample_anchored) = Inr s \<and>
      sc_rejects s = []"
    by (auto simp: would_apply_def apply_to_def OK_verdict_def vd_ok_def ov_absorb_def) (auto simp: overlay_new_def)
  then show ?thesis
    using w by (auto simp: mp_valid_def Let_def valid_body_def soft_put_sel sr_has_settled_def db_empty_def)
qed

lemma mempool_admit_evict_witness:
  "\<exists>mp'. mp_admit (sample []) 5 mem_sample soft_put 3 db_empty (mgmt_auth (sample []) sample_anchored) = Inr (None, mp') \<and>
     mempool_ok (sample []) mp' \<and> set (pool_entries mp') = {(op_hash (sample []) soft_put, soft_put)}"
proof -
  have ok: "mempool_ok (sample []) mem_sample" and empty: "pool_entries mem_sample = []"
    by (simp_all add: mempool_ok_def mem_sample_def mempool_new_def pool_entries_def)
  obtain mp' where ad: "mp_admit (sample []) 5 mem_sample soft_put 3 db_empty (mgmt_auth (sample []) sample_anchored) = Inr (None, mp')"
    using sample_valid by (simp add: mp_admit_def Let_def) (simp add: mem_sample_def mempool_new_def)
  show ?thesis using ad mempool_admit_evict[OF ok ad] empty by auto
qed

lemma admitted_valid_for_bucket_witness:
  "valid_for_bucket (sample []) 5 mem_sample soft_put (bucket_of DEFAULT 4) db_empty (mgmt_auth (sample []) sample_anchored) = Inr None"
  using admitted_valid_for_bucket[OF _ sample_valid, of 4] DEFAULT_ok by (simp add: mem_sample_def mempool_new_def) (simp add: DEFAULT_def)

end
