(* ===== verification/Sealing.thy ===== *)
theory Sealing
  imports Wire Sample_Prims
begin

text \<open>
  The part of \<^verbatim>\<open>dude/core/crypto.py\<close> that hides data: sealed boxes, authenticated
  encryption, the derivation of subkeys, and the screen tag of a frame. The primitives of PyNaCl
  are a second record of parameters, \<open>boxes\<close>; randomness is an argument. What the code relies on
  is \<open>boxes_correct\<close>: the public key of a seed can be sealed to, what is sealed to it opens with the seed, and what is
  encrypted under a key and associated data decrypts under the same. Sealing converts the recipient's Ed25519 key to a key of the
  other curve, which fails on bytes that are no usable point; PyNaCl then raises its \<^verbatim>\<open>RuntimeError\<close>, a subclass of
  Python's and no \<^verbatim>\<open>DudeError\<close>. \<open>points_convert\<close> says that a point that passes the check of
  \<^verbatim>\<open>crypto_core_ed25519_is_valid_point\<close> can be converted.
\<close>

record boxes =
  box_key_ok :: "public_key \<Rightarrow> bool" \<comment> \<open>the key converts to a Curve25519 key\<close>
  box_encrypt :: "public_key \<Rightarrow> bytes \<Rightarrow> bytes \<Rightarrow> bytes" \<comment> \<open>recipient, randomness, message\<close>
  box_decrypt :: "seed \<Rightarrow> bytes \<Rightarrow> bytes option"
  aead_encrypt :: "bytes \<Rightarrow> bytes \<Rightarrow> bytes \<Rightarrow> bytes \<Rightarrow> bytes" \<comment> \<open>key, associated data, nonce, message; with the nonce in front\<close>
  aead_decrypt :: "bytes \<Rightarrow> bytes \<Rightarrow> bytes \<Rightarrow> bytes option"

definition NONCE_SIZE :: nat where "NONCE_SIZE = 24"
definition AEAD_TAG_SIZE :: nat where "AEAD_TAG_SIZE = 16"
definition SCREEN_TAG_SIZE :: nat where "SCREEN_TAG_SIZE = 16"
definition MASTER_SIZE :: nat where "MASTER_SIZE = 32"

abbreviation Master :: "bytes \<Rightarrow> bytes res" where "Master \<equiv> fixed MASTER_SIZE"
abbreviation ScreenTag :: "bytes \<Rightarrow> bytes res" where "ScreenTag \<equiv> fixed SCREEN_TAG_SIZE"

definition boxes_correct :: "prims \<Rightarrow> boxes \<Rightarrow> bool" where
  "boxes_correct c x \<longleftrightarrow>
     (\<forall>sk. box_key_ok x (kp_public c sk)) \<and>
     (\<forall>sk rnd msg. box_decrypt x sk (box_encrypt x (kp_public c sk) rnd msg) = Some msg) \<and>
     (\<forall>k aad n msg. length n = NONCE_SIZE \<longrightarrow>
        aead_decrypt x k aad (aead_encrypt x k aad n msg) = Some msg \<and>
        length (aead_encrypt x k aad n msg) = NONCE_SIZE + AEAD_TAG_SIZE + length msg)"

definition points_convert :: "prims \<Rightarrow> boxes \<Rightarrow> bool" where
  "points_convert c x \<longleftrightarrow> (\<forall>pk. ed25519_is_valid_point c pk \<longrightarrow> box_key_ok x pk)"

definition pk_seal :: "boxes \<Rightarrow> public_key \<Rightarrow> bytes \<Rightarrow> bytes \<Rightarrow> bytes res" where
  "pk_seal x pk rnd msg = (if box_key_ok x pk then Inr (box_encrypt x pk rnd msg) else Inl RuntimeError)"

definition open_sealed_raw :: "boxes \<Rightarrow> seed \<Rightarrow> bytes \<Rightarrow> bytes res" where
  "open_sealed_raw x kp blob = (case box_decrypt x kp blob of None \<Rightarrow> Inl SealedBoxError | Some m \<Rightarrow> Inr m)"

text \<open>\<^verbatim>\<open>Master\<close> raises \<^verbatim>\<open>CryptoError\<close>, which the \<^verbatim>\<open>except\<close> clause does not name.\<close>

definition open_sealed :: "boxes \<Rightarrow> seed \<Rightarrow> bytes \<Rightarrow> bytes res" where
  "open_sealed x kp blob = (case box_decrypt x kp blob of None \<Rightarrow> Inl SealedBoxError | Some m \<Rightarrow> Master m)"

definition PERSON_SCREEN :: bytes where "PERSON_SCREEN = ascii ''dude.screen''"
definition PERSON_ENC :: bytes where "PERSON_ENC = ascii ''dude.enc''"
definition PERSON_NAME :: bytes where "PERSON_NAME = ascii ''dude.name''"
definition PERSON_NAME_TOKEN :: bytes where "PERSON_NAME_TOKEN = ascii ''dude.nametok''"

definition screen_tag :: "prims \<Rightarrow> public_key \<Rightarrow> bytes \<Rightarrow> bytes" where
  "screen_tag c node sealed = blake2b c node PERSON_SCREEN SCREEN_TAG_SIZE sealed"

definition subkey :: "prims \<Rightarrow> bytes \<Rightarrow> bytes \<Rightarrow> bytes" where
  "subkey c master person = blake2b c master person DIGEST_SIZE []"

definition derive_value_key :: "prims \<Rightarrow> bytes \<Rightarrow> bytes" where
  "derive_value_key c m = subkey c m PERSON_ENC"

definition derive_name_key :: "prims \<Rightarrow> bytes \<Rightarrow> bytes" where
  "derive_name_key c m = subkey c m PERSON_NAME"

definition derive_name_token :: "prims \<Rightarrow> bytes \<Rightarrow> bytes \<Rightarrow> bytes" where
  "derive_name_token c k nm = blake2b c k PERSON_NAME_TOKEN DIGEST_SIZE nm"

definition derive_item_key :: "prims \<Rightarrow> bytes \<Rightarrow> bytes \<Rightarrow> bytes" where
  "derive_item_key c vk token = blake2b c vk PERSON_ENC DIGEST_SIZE token"

definition aead_seal :: "boxes \<Rightarrow> bytes \<Rightarrow> bytes \<Rightarrow> bytes \<Rightarrow> bytes \<Rightarrow> bytes" where
  "aead_seal x k aad nonce pt = aead_encrypt x k aad nonce pt"

definition aead_open :: "boxes \<Rightarrow> bytes \<Rightarrow> bytes \<Rightarrow> bytes \<Rightarrow> bytes res" where
  "aead_open x k aad sealed =
     (if length sealed < NONCE_SIZE + AEAD_TAG_SIZE then Inl AeadMalformedError
      else case aead_decrypt x k aad sealed of None \<Rightarrow> Inl AeadAuthFailedError | Some m \<Rightarrow> Inr m)"

lemma pk_seal_Inr: "pk_seal x pk rnd msg = Inr blob \<longleftrightarrow> box_key_ok x pk \<and> blob = box_encrypt x pk rnd msg"
  by (auto simp: pk_seal_def)

lemma open_seal: "boxes_correct c x \<Longrightarrow> rbind (pk_seal x (kp_public c kp) rnd msg) (open_sealed_raw x kp) = Inr msg"
  by (simp add: boxes_correct_def open_sealed_raw_def pk_seal_def)

lemma aead_open_seal:
  "boxes_correct c x \<Longrightarrow> length n = NONCE_SIZE \<Longrightarrow> aead_open x k aad (aead_seal x k aad n pt) = Inr pt"
  by (simp add: boxes_correct_def aead_open_def aead_seal_def)

text \<open>A concrete instance: boxes and ciphertexts that carry their key, their data and the message.\<close>

definition sample_boxes :: boxes where
  "sample_boxes =
     \<lparr>box_key_ok = (\<lambda>pk. length pk = 32),
      box_encrypt = (\<lambda>pk rnd msg. pk @ msg),
      box_decrypt = (\<lambda>sk blob. if take 32 blob = pad_to 32 sk then Some (drop 32 blob) else None),
      aead_encrypt = (\<lambda>k aad n msg. n @ replicate 16 0 @ msg),
      aead_decrypt = (\<lambda>k aad blob. Some (drop 40 blob))\<rparr>"

lemma sample_boxes_correct: "boxes_correct (sample xs) sample_boxes"
proof -
  have "kp_public (sample xs) sk = pad_to 32 sk" for sk by (simp add: kp_public_def sample_def)
  then show ?thesis by (simp add: boxes_correct_def sample_boxes_def NONCE_SIZE_def AEAD_TAG_SIZE_def)
qed

lemma sample_points_convert: "points_convert (sample xs) sample_boxes"
  by (simp add: points_convert_def sample_def sample_boxes_def)

end
