(* ===== verification/Envelope.thy ===== *)
theory Envelope
  imports Sealing
begin

text \<open>
  \<^verbatim>\<open>dude/net/envelope.py\<close>: the verbs of the protocol, envelopes, their signed form, and
  the sealed frames that travel.
\<close>

datatype Verb =
    V_PING | V_PONG | V_SUBMIT | V_ACCEPTED | V_TX_STATUS | V_BODIES | V_TX_STATUS_REPLY | V_HELD | V_SIG | V_SETTLE_SIG
  | V_HEIGHT | V_HEIGHT_REPLY | V_GETBLOCK | V_SETTLED_BLOCK | V_SYNC_REFUSED | V_GET_CHECKPOINT | V_CHECKPOINT_META
  | V_GET_CHUNKS | V_CHUNKS_REPLY | V_GET_ANCHORS | V_ANCHORS_REPLY | V_GET_PROOF | V_PROOF_REPLY | V_LITE_REFUSED
  | V_NODE_STATUS | V_NODE_STATUS_REPLY | V_COUNT_PREFIX | V_COUNT_PREFIX_REPLY | V_NTH_PREFIX | V_NTH_PREFIX_REPLY
  | V_REFUSED | V_PROVISION

fun verb_value :: "Verb \<Rightarrow> int" where
  "verb_value V_PING = 1"
| "verb_value V_PONG = 2"
| "verb_value V_SUBMIT = 10"
| "verb_value V_ACCEPTED = 11"
| "verb_value V_TX_STATUS = 12"
| "verb_value V_BODIES = 13"
| "verb_value V_TX_STATUS_REPLY = 14"
| "verb_value V_HELD = 22"
| "verb_value V_SIG = 23"
| "verb_value V_SETTLE_SIG = 24"
| "verb_value V_HEIGHT = 30"
| "verb_value V_HEIGHT_REPLY = 31"
| "verb_value V_GETBLOCK = 32"
| "verb_value V_SETTLED_BLOCK = 33"
| "verb_value V_SYNC_REFUSED = 34"
| "verb_value V_GET_CHECKPOINT = 35"
| "verb_value V_CHECKPOINT_META = 36"
| "verb_value V_GET_CHUNKS = 37"
| "verb_value V_CHUNKS_REPLY = 38"
| "verb_value V_GET_ANCHORS = 40"
| "verb_value V_ANCHORS_REPLY = 41"
| "verb_value V_GET_PROOF = 42"
| "verb_value V_PROOF_REPLY = 43"
| "verb_value V_LITE_REFUSED = 44"
| "verb_value V_NODE_STATUS = 50"
| "verb_value V_NODE_STATUS_REPLY = 51"
| "verb_value V_COUNT_PREFIX = 60"
| "verb_value V_COUNT_PREFIX_REPLY = 61"
| "verb_value V_NTH_PREFIX = 62"
| "verb_value V_NTH_PREFIX_REPLY = 63"
| "verb_value V_REFUSED = 90"
| "verb_value V_PROVISION = 100"

definition all_verbs :: "Verb list" where
  "all_verbs = [V_PING, V_PONG, V_SUBMIT, V_ACCEPTED, V_TX_STATUS, V_BODIES, V_TX_STATUS_REPLY, V_HELD, V_SIG, V_SETTLE_SIG,
     V_HEIGHT, V_HEIGHT_REPLY, V_GETBLOCK, V_SETTLED_BLOCK, V_SYNC_REFUSED, V_GET_CHECKPOINT, V_CHECKPOINT_META,
     V_GET_CHUNKS, V_CHUNKS_REPLY, V_GET_ANCHORS, V_ANCHORS_REPLY, V_GET_PROOF, V_PROOF_REPLY, V_LITE_REFUSED,
     V_NODE_STATUS, V_NODE_STATUS_REPLY, V_COUNT_PREFIX, V_COUNT_PREFIX_REPLY, V_NTH_PREFIX, V_NTH_PREFIX_REPLY,
     V_REFUSED, V_PROVISION]"

text \<open>\<^verbatim>\<open>Verb(n)\<close>, which raises \<^verbatim>\<open>ValueError\<close> on an unknown value.\<close>

definition verb_of :: "int \<Rightarrow> Verb res" where
  "verb_of n = (case find (\<lambda>v. verb_value v = n) all_verbs of None \<Rightarrow> Inl ValueError | Some v \<Rightarrow> Inr v)"

lemma verb_of_value [simp]: "verb_of (verb_value v) = Inr v"
  by (cases v) (simp_all add: verb_of_def all_verbs_def)

section \<open>Message identifiers\<close>

type_synonym MessageId = bytes

definition MID_PREFIX_SIZE :: nat where "MID_PREFIX_SIZE = 7"
definition MID_SIZE :: nat where "MID_SIZE = 8"

text \<open>\<^verbatim>\<open>bytes([attempt])\<close> raises \<^verbatim>\<open>ValueError\<close> outside a byte.\<close>

definition attempt_byte :: "int \<Rightarrow> bytes res" where
  "attempt_byte n = (if 0 \<le> n \<and> n < 256 then Inr [of_int n] else Inl ValueError)"

definition mid_random :: "bytes \<Rightarrow> int \<Rightarrow> MessageId res" where
  "mid_random rnd attempt = rbind (attempt_byte attempt) (\<lambda>b. Inr (take MID_PREFIX_SIZE rnd @ b))"

definition correlation_id :: "MessageId \<Rightarrow> bytes" where
  "correlation_id mid = take MID_PREFIX_SIZE mid"

definition mid_attempt :: "MessageId \<Rightarrow> int res" where
  "mid_attempt mid = (if MID_PREFIX_SIZE < length mid then Inr (uint (mid ! MID_PREFIX_SIZE)) else Inl IndexError)"

definition with_attempt :: "MessageId \<Rightarrow> int \<Rightarrow> MessageId res" where
  "with_attempt mid attempt = rbind (attempt_byte attempt) (\<lambda>b. Inr (correlation_id mid @ b))"

definition MAX_FRAME_BYTES :: int where "MAX_FRAME_BYTES = 2 ^ 24"

section \<open>Envelopes\<close>

record Envelope =
  ev_to :: public_key
  ev_verb :: Verb
  ev_mid :: MessageId
  ev_body :: bytes
  ev_reply_to :: MessageId

definition env_bval :: "Envelope \<Rightarrow> bval" where
  "env_bval e = BSeq [BBytes (ev_to e), BInt (verb_value (ev_verb e)), BBytes (ev_mid e), BBytes (ev_body e), BBytes (ev_reply_to e)]"

definition env_encode :: "Envelope \<Rightarrow> bytes" where
  "env_encode e = benc (env_bval e)"

definition env_decode :: "bytes \<Rightarrow> Envelope res" where
  "env_decode raw =
     rbind (rewrap (\<lambda>e. e = CodecError \<or> e = CryptoError) EnvelopeError
       (rbind (decode_seq raw (Some 5)) (\<lambda>f.
        rbind (rbind (as_bytes (f ! 0)) PublicKey) (\<lambda>to.
        rbind (as_int (f ! 1)) (\<lambda>v.
        rbind (as_bytes (f ! 2)) (\<lambda>mid.
        rbind (as_bytes (f ! 3)) (\<lambda>body.
        rbind (as_bytes (f ! 4)) (\<lambda>reply_to.
        Inr (to, v, mid, body, reply_to))))))))) (\<lambda>(to, v, mid, body, reply_to).
     rbind (rewrap (\<lambda>e. e = ValueError) EnvelopeError (verb_of v)) (\<lambda>verb.
     Inr \<lparr>ev_to = to, ev_verb = verb, ev_mid = mid, ev_body = body, ev_reply_to = reply_to\<rparr>))"

definition env_ok :: "Envelope \<Rightarrow> bool" where
  "env_ok e \<longleftrightarrow> length (ev_to e) = KEY_SIZE \<and> bencodable (env_bval e)"

interpretation env_wire: wire env_encode env_decode env_ok
  by unfold_locales (simp add: env_encode_def env_decode_def env_ok_def env_bval_def rewrap_def)

section \<open>Signed envelopes\<close>

definition envelope_body_bytes :: "public_key \<Rightarrow> int \<Rightarrow> Envelope \<Rightarrow> bytes" where
  "envelope_body_bytes frm ts env = benc (BSeq [BBytes frm, BInt ts, BBytes (env_encode env)])"

record SignedEnvelope =
  se_frm :: public_key
  se_ts :: int
  se_env :: Envelope
  se_sig :: signature

definition env_sign :: "prims \<Rightarrow> Envelope \<Rightarrow> seed \<Rightarrow> int \<Rightarrow> SignedEnvelope" where
  "env_sign c env kp ts =
     \<lparr>se_frm = kp_public c kp, se_ts = ts, se_env = env,
      se_sig = kp_sign c kp (envelope_body_bytes (kp_public c kp) ts env)\<rparr>"

definition se_body :: "SignedEnvelope \<Rightarrow> bytes" where
  "se_body s = envelope_body_bytes (se_frm s) (se_ts s) (se_env s)"

definition se_raw :: "SignedEnvelope \<Rightarrow> bytes" where
  "se_raw s = benc (BSeq [BBytes (se_body s), BBytes (se_sig s)])"

definition se_verify :: "prims \<Rightarrow> SignedEnvelope \<Rightarrow> bool" where
  "se_verify c s = pk_verify c (se_frm s) (se_body s) (se_sig s)"

definition se_fresh :: "SignedEnvelope \<Rightarrow> int \<Rightarrow> int \<Rightarrow> bool" where
  "se_fresh s now window = (\<bar>now - se_ts s\<bar> \<le> window)"

definition se_answer :: "SignedEnvelope \<Rightarrow> Verb \<Rightarrow> bytes \<Rightarrow> bytes \<Rightarrow> Envelope res" where
  "se_answer s verb body rnd =
     rbind (mid_random rnd 0) (\<lambda>mid.
     Inr \<lparr>ev_to = se_frm s, ev_verb = verb, ev_mid = mid, ev_body = body, ev_reply_to = ev_mid (se_env s)\<rparr>)"

definition se_accept :: "prims \<Rightarrow> SignedEnvelope \<Rightarrow> public_key \<Rightarrow> int \<Rightarrow> int \<Rightarrow> MessageId option \<Rightarrow> unit res" where
  "se_accept c s me now window in_reply_to =
     (if ev_to (se_env s) \<noteq> me then Inl EnvelopeError
      else if \<not> se_fresh s now window then Inl EnvelopeError
      else if \<not> se_verify c s then Inl EnvelopeError
      else if in_reply_to \<noteq> None \<and> Some (ev_reply_to (se_env s)) \<noteq> in_reply_to then Inl EnvelopeError
      else Inr ())"

definition se_decode :: "bytes \<Rightarrow> SignedEnvelope res" where
  "se_decode raw =
     rbind (decode_seq raw (Some 2)) (\<lambda>outer.
     rbind (rbind (as_bytes (outer ! 0)) (\<lambda>b. decode_seq b (Some 3))) (\<lambda>f.
     rbind (rbind (as_bytes (f ! 0)) PublicKey) (\<lambda>frm.
     rbind (as_int (f ! 1)) (\<lambda>ts.
     rbind (rbind (as_bytes (f ! 2)) env_decode) (\<lambda>env.
     rbind (rbind (as_bytes (outer ! 1)) Signature) (\<lambda>sig.
     Inr \<lparr>se_frm = frm, se_ts = ts, se_env = env, se_sig = sig\<rparr>))))))"

definition se_ok :: "SignedEnvelope \<Rightarrow> bool" where
  "se_ok s \<longleftrightarrow> length (se_frm s) = KEY_SIZE \<and> length (se_sig s) = SIG_SIZE \<and> env_ok (se_env s) \<and>
     bencodable (BSeq [BBytes (se_frm s), BInt (se_ts s), BBytes (env_encode (se_env s))]) \<and>
     bencodable (BSeq [BBytes (se_body s), BBytes (se_sig s)])"

interpretation se_wire: wire se_raw se_decode se_ok
  by unfold_locales (simp add: se_raw_def se_decode_def se_ok_def se_body_def envelope_body_bytes_def env_wire.dec_enc)

section \<open>Frames\<close>

record Frame =
  fr_tag :: bytes
  fr_sealed :: bytes

definition se_seal :: "prims \<Rightarrow> boxes \<Rightarrow> SignedEnvelope \<Rightarrow> bytes \<Rightarrow> Frame res" where
  "se_seal c x s rnd =
     rbind (pk_seal x (ev_to (se_env s)) rnd (se_raw s)) (\<lambda>sealed.
     Inr \<lparr>fr_tag = screen_tag c (ev_to (se_env s)) sealed, fr_sealed = sealed\<rparr>)"

definition frame_raw :: "Frame \<Rightarrow> bytes" where
  "frame_raw f = benc (BSeq [BBytes (fr_tag f), BBytes (fr_sealed f)])"

definition frame_decode :: "bytes \<Rightarrow> Frame res" where
  "frame_decode raw =
     rbind (decode_seq raw (Some 2)) (\<lambda>f.
     rbind (rbind (as_bytes (f ! 0)) ScreenTag) (\<lambda>tag.
     rbind (as_bytes (f ! 1)) (\<lambda>sealed. Inr \<lparr>fr_tag = tag, fr_sealed = sealed\<rparr>)))"

definition addressed_to :: "prims \<Rightarrow> Frame \<Rightarrow> public_key \<Rightarrow> bool" where
  "addressed_to c f me = (screen_tag c me (fr_sealed f) = fr_tag f)"

definition unseal :: "boxes \<Rightarrow> Frame \<Rightarrow> seed \<Rightarrow> SignedEnvelope res" where
  "unseal x f kp =
     rbind (rewrap (\<lambda>e. e = SealedBoxError) EnvelopeError (open_sealed_raw x kp (fr_sealed f))) se_decode"

definition frame_ok :: "Frame \<Rightarrow> bool" where
  "frame_ok f \<longleftrightarrow> length (fr_tag f) = SCREEN_TAG_SIZE \<and> bencodable (BSeq [BBytes (fr_tag f), BBytes (fr_sealed f)])"

interpretation frame_wire: wire frame_raw frame_decode frame_ok
  by unfold_locales (simp add: frame_raw_def frame_decode_def frame_ok_def)

section \<open>Properties\<close>

text \<open>
  A frame carries its envelope to its recipient and to nobody else's acceptance. A signed
  envelope sealed to its recipient, encoded, decoded and unsealed by the recipient comes back as it
  was; the recipient's own key recognises the frame; and it is accepted exactly when it is
  addressed to the one who accepts it, fresh, signed by its sender, and answers the request it is
  matched with.
\<close>

lemma envelope_delivery:
  assumes "boxes_correct c x" "sign_correct c" "ev_to env = kp_public c rcpt"
    and "s = env_sign c env kp ts" "se_ok s" "se_seal c x s rnd = Inr f" "frame_ok f"
  shows "rbind (frame_decode (frame_raw f)) (\<lambda>f. unseal x f rcpt) = Inr s \<and>
    addressed_to c f (kp_public c rcpt) \<and>
    (se_accept c s me now window rt = Inr () \<longleftrightarrow>
       me = kp_public c rcpt \<and> \<bar>now - ts\<bar> \<le> window \<and> (rt = None \<or> rt = Some (ev_reply_to env)))"
proof -
  have to: "ev_to (se_env s) = kp_public c rcpt" using assms(3,4) by (simp add: env_sign_def)
  obtain sealed where sealed: "pk_seal x (kp_public c rcpt) rnd (se_raw s) = Inr sealed"
      "f = \<lparr>fr_tag = screen_tag c (kp_public c rcpt) sealed, fr_sealed = sealed\<rparr>"
    using assms(6) to by (auto simp: se_seal_def rbind_Inr_conv)
  have "unseal x f rcpt = Inr s"
    using open_seal[OF assms(1), of rcpt rnd "se_raw s"] se_wire.dec_enc[OF assms(5)] sealed by (simp add: unseal_def rewrap_def)
  moreover have "addressed_to c f (kp_public c rcpt)"
    by (simp add: addressed_to_def sealed(2))
  moreover have "se_verify c s" using assms(2,4) by (simp add: se_verify_def se_body_def env_sign_def)
  then have "se_accept c s me now window rt = Inr () \<longleftrightarrow>
       me = kp_public c rcpt \<and> \<bar>now - ts\<bar> \<le> window \<and> (rt = None \<or> rt = Some (ev_reply_to env))"
    using to assms(4) by (auto simp: se_accept_def se_fresh_def env_sign_def)
  ultimately show ?thesis using frame_wire.dec_enc[OF assms(7)] by simp
qed

text \<open>
  What the signature of an envelope covers. Two well-formed signed envelopes with the same
  signed bytes agree on sender, time, recipient, verb, message identifier, body and the request
  answered, so a signature cannot be moved to another recipient or another message.
\<close>

lemma envelope_signature_covers:
  assumes "se_ok s" "se_ok t" "se_body s = se_body t"
  shows "se_frm s = se_frm t \<and> se_ts s = se_ts t \<and> se_env s = se_env t"
proof -
  have "BSeq [BBytes (se_frm s), BInt (se_ts s), BBytes (env_encode (se_env s))] =
      BSeq [BBytes (se_frm t), BInt (se_ts t), BBytes (env_encode (se_env t))]"
    by (rule benc_inj) (use assms in \<open>auto simp: se_ok_def se_body_def envelope_body_bytes_def\<close>)
  then show ?thesis using env_wire.enc_inject assms(1,2) by (auto simp: se_ok_def)
qed

definition sample_env :: Envelope where
  "sample_env = \<lparr>ev_to = kp_public (sample []) [2], ev_verb = V_SUBMIT, ev_mid = replicate 8 1, ev_body = [], ev_reply_to = []\<rparr>"

lemma sample_len: "length (kp_public (sample xs) k) = 32" "length (kp_sign (sample xs) k m) = 64"
  by (simp_all add: kp_public_def kp_sign_def sample_def)

lemmas env_small = bencodable_def MAX_DEPTH_codec_def bdepth.simps small_int_digits

lemma length_encode_bytes: "length (encode_bytes b) \<le> 2 * length b + 2"
  using length_nat_ascii_le[of "length b"] by (simp add: encode_bytes_def)

lemma sample_env_size: "length (env_encode sample_env) < 256"
proof -
  have "length (encode_bytes (kp_public (sample []) [2])) \<le> 66" "length (encode_bytes (replicate 8 (1 :: byte))) \<le> 18"
      "length (encode_bytes []) \<le> 2"
    using length_encode_bytes[of "kp_public (sample []) [2]"] length_encode_bytes[of "replicate 8 (1 :: byte)"]
      length_encode_bytes[of "[]"] by (simp_all add: sample_len)
  moreover have "length (int_ascii 10) = 2" by (simp add: int_ascii_def nat_ascii.simps)
  ultimately show ?thesis by (simp add: env_encode_def env_bval_def sample_env_def benc.simps)
qed

lemma sample_body_size: "length (envelope_body_bytes (kp_public (sample []) [1]) 3 sample_env) < 1024"
proof -
  have "length (encode_bytes (kp_public (sample []) [1])) \<le> 66" "length (encode_bytes (env_encode sample_env)) \<le> 512"
    using length_encode_bytes[of "kp_public (sample []) [1]"] length_encode_bytes[of "env_encode sample_env"] sample_env_size
    by (simp_all add: sample_len)
  moreover have "length (int_ascii 3) = 1" by (simp add: int_ascii_def nat_ascii.simps)
  ultimately show ?thesis by (simp add: envelope_body_bytes_def benc.simps)
qed

lemma sample_se_ok: "se_ok (env_sign (sample []) sample_env [1] 3)"
proof -
  have "env_ok sample_env"
    by (simp add: env_ok_def env_bval_def sample_env_def sample_len env_small)
  then show ?thesis
    using sample_env_size sample_body_size by (simp add: se_ok_def env_sign_def se_body_def sample_len env_small)
qed

text \<open>The sample envelope, sealed.\<close>

definition sample_frame :: Frame where
  "sample_frame =
     (let s = env_sign (sample []) sample_env [1] 3; sealed = box_encrypt sample_boxes (ev_to sample_env) [] (se_raw s)
      in \<lparr>fr_tag = screen_tag (sample []) (ev_to sample_env) sealed, fr_sealed = sealed\<rparr>)"

lemma sample_frame_sealed: "se_seal (sample []) sample_boxes (env_sign (sample []) sample_env [1] 3) [] = Inr sample_frame"
  by (simp add: se_seal_def pk_seal_def sample_frame_def Let_def env_sign_def)
    (simp add: sample_boxes_def sample_env_def sample_len)

lemma sample_frame_ok: "frame_ok sample_frame"
proof -
  let ?s = "env_sign (sample []) sample_env [1] 3"
  have "length (encode_bytes (se_body ?s)) \<le> 2048" "length (encode_bytes (se_sig ?s)) \<le> 130"
    using length_encode_bytes[of "se_body ?s"] length_encode_bytes[of "se_sig ?s"] sample_body_size
    by (simp_all add: env_sign_def se_body_def sample_len)
  then have "length (se_raw ?s) \<le> 2200" by (simp add: se_raw_def benc.simps)
  then have "length (box_encrypt sample_boxes (ev_to sample_env) [] (se_raw ?s)) < 4096"
    by (simp add: sample_boxes_def sample_env_def sample_len)
  then show ?thesis
    by (simp add: frame_ok_def sample_frame_def Let_def env_small) (simp add: screen_tag_def sample_def SCREEN_TAG_SIZE_def env_small)
qed

lemma envelope_delivery_witness:
  "rbind (frame_decode (frame_raw sample_frame)) (\<lambda>f. unseal sample_boxes f [2]) = Inr (env_sign (sample []) sample_env [1] 3) \<and>
   addressed_to (sample []) sample_frame (kp_public (sample []) [2]) \<and>
   se_accept (sample []) (env_sign (sample []) sample_env [1] 3) (kp_public (sample []) [2]) 5 10 None = Inr ()"
proof -
  have "ev_to sample_env = kp_public (sample []) [2]" by (simp add: sample_env_def)
  from envelope_delivery[OF sample_boxes_correct sample_sign_correct this refl sample_se_ok sample_frame_sealed sample_frame_ok,
      of "kp_public (sample []) [2]" 5 10 None]
  show ?thesis by simp
qed

lemma envelope_signature_covers_witness:
  "se_body (env_sign (sample []) sample_env [1] 3) = se_body (env_sign (sample []) sample_env [1] 3) \<and>
   se_env (env_sign (sample []) sample_env [1] 3) = sample_env"
  using envelope_signature_covers[OF sample_se_ok sample_se_ok refl] by (simp add: env_sign_def)

end
