(* ===== verification/Round.thy ===== *)
theory Round
  imports Mempool Envelope
begin

text \<open>
  \<^verbatim>\<open>dude/consensus/round.py\<close>: one round of agreement on the slice of a bucket. A node
  advertises what it holds, pushes bodies its peers lack, cuts a slice at the deadline, signs it,
  and ratifies when a quorum of the roster has signed the same slice. A frozenset of hashes is a
  finite set. The callback \<^verbatim>\<open>screen\<close>, which reads the coordinator's store when it is
  called, is an argument of the tick that calls it.
\<close>

section \<open>Messages\<close>

datatype Target = ToAll | ToPeer public_key

definition recipients :: "Target \<Rightarrow> public_key list \<Rightarrow> public_key \<Rightarrow> public_key list" where
  "recipients target roster me =
     (case target of ToAll \<Rightarrow> filter (\<lambda>p. p \<noteq> me) roster | ToPeer p \<Rightarrow> if p \<noteq> me then [p] else [])"

definition SLICE_DOMAIN :: bytes where "SLICE_DOMAIN = ascii ''dude.round.slice''"

record Sig =
  sg_bucket :: int
  sg_prev_block :: digest
  sg_slice_hash :: digest
  sg_sig :: signature

datatype RoundMsg =
    M_Held int digest "digest set"
  | M_Sig Sig
  | M_Bodies int digest "SignedTransaction list"

fun msg_bucket :: "RoundMsg \<Rightarrow> int" where
  "msg_bucket (M_Held b _ _) = b"
| "msg_bucket (M_Sig s) = sg_bucket s"
| "msg_bucket (M_Bodies b _ _) = b"

fun msg_prev_block :: "RoundMsg \<Rightarrow> digest" where
  "msg_prev_block (M_Held _ p _) = p"
| "msg_prev_block (M_Sig s) = sg_prev_block s"
| "msg_prev_block (M_Bodies _ p _) = p"

definition sig_payload :: "int \<Rightarrow> digest \<Rightarrow> digest \<Rightarrow> bytes" where
  "sig_payload bucket prev_block sh = benc (BSeq [BBytes SLICE_DOMAIN, BInt bucket, BBytes prev_block, BBytes sh])"

definition sig_sign :: "prims \<Rightarrow> seed \<Rightarrow> int \<Rightarrow> digest \<Rightarrow> digest \<Rightarrow> Sig" where
  "sig_sign c kp bucket prev_block sh =
     \<lparr>sg_bucket = bucket, sg_prev_block = prev_block, sg_slice_hash = sh,
      sg_sig = kp_sign c kp (sig_payload bucket prev_block sh)\<rparr>"

definition sig_verify :: "prims \<Rightarrow> Sig \<Rightarrow> public_key \<Rightarrow> bool" where
  "sig_verify c s pk = pk_verify c pk (sig_payload (sg_bucket s) (sg_prev_block s) (sg_slice_hash s)) (sg_sig s)"

fun encode_inner :: "RoundMsg \<Rightarrow> bytes" where
  "encode_inner (M_Held b p hs) = benc (BSeq [BInt b, BBytes p, bytes_seq (hashes_canonical (sorted_list_of_set hs))])"
| "encode_inner (M_Sig s) = benc (BSeq [BInt (sg_bucket s), BBytes (sg_prev_block s), BBytes (sg_slice_hash s), BBytes (sg_sig s)])"
| "encode_inner (M_Bodies b p txs) = benc (BSeq [BInt b, BBytes p, bytes_seq (map stx_raw txs)])"

fun msg_verb :: "RoundMsg \<Rightarrow> Verb" where
  "msg_verb (M_Held _ _ _) = V_HELD"
| "msg_verb (M_Sig _) = V_SIG"
| "msg_verb (M_Bodies _ _ _) = V_BODIES"

definition round_held_decode :: "bytes \<Rightarrow> RoundMsg res" where
  "round_held_decode body =
     rewrap is_dude_error RoundAdapterError
       (rbind (decode_seq body (Some 3)) (\<lambda>p.
        rbind (rbind (as_seq (p ! 2) None) (mapM (\<lambda>x. rbind (as_bytes x) Digest))) (\<lambda>hs.
        rbind (as_int (p ! 0)) (\<lambda>b.
        rbind (rbind (as_bytes (p ! 1)) Digest) (\<lambda>prev.
        Inr (M_Held b prev (set hs)))))))"

definition sig_decode :: "bytes \<Rightarrow> RoundMsg res" where
  "sig_decode body =
     rewrap is_dude_error RoundAdapterError
       (rbind (decode_seq body (Some 4)) (\<lambda>p.
        rbind (as_int (p ! 0)) (\<lambda>b.
        rbind (rbind (as_bytes (p ! 1)) Digest) (\<lambda>prev.
        rbind (rbind (as_bytes (p ! 2)) Digest) (\<lambda>sh.
        rbind (rbind (as_bytes (p ! 3)) Signature) (\<lambda>sg.
        Inr (M_Sig \<lparr>sg_bucket = b, sg_prev_block = prev, sg_slice_hash = sh, sg_sig = sg\<rparr>)))))))"

definition bodies_decode :: "bytes \<Rightarrow> RoundMsg res" where
  "bodies_decode body =
     rewrap is_dude_error RoundAdapterError
       (rbind (decode_seq body (Some 3)) (\<lambda>p.
        rbind (rbind (as_seq (p ! 2) None) (mapM (\<lambda>x. rbind (as_bytes x) stx_decode))) (\<lambda>txs.
        rbind (as_int (p ! 0)) (\<lambda>b.
        rbind (rbind (as_bytes (p ! 1)) Digest) (\<lambda>prev.
        Inr (M_Bodies b prev txs))))))"

definition msg_decode :: "Verb \<Rightarrow> bytes \<Rightarrow> RoundMsg res" where
  "msg_decode verb body =
     (case verb of
        V_HELD \<Rightarrow> round_held_decode body
      | V_SIG \<Rightarrow> sig_decode body
      | V_BODIES \<Rightarrow> bodies_decode body
      | _ \<Rightarrow> Inl RoundAdapterError)"

text \<open>\<^verbatim>\<open>bucket_of\<close> indexes the decoded tuple before its length is known.\<close>

definition msg_bucket_of :: "bytes \<Rightarrow> int res" where
  "msg_bucket_of body =
     rewrap is_dude_error RoundAdapterError
       (rbind (decode_seq body None) (\<lambda>p. if p = [] then Inl IndexError else as_int (p ! 0)))"

section \<open>Blocks\<close>

record Block =
  bl_bucket :: int
  bl_hashes :: "digest list"

definition slice_hash :: "prims \<Rightarrow> int \<Rightarrow> digest list \<Rightarrow> digest" where
  "slice_hash c bucket hs = h c (benc (BSeq [BInt bucket, bytes_seq (hashes_canonical hs)]))"

definition block_slice_hash :: "prims \<Rightarrow> Block \<Rightarrow> digest" where
  "block_slice_hash c b = slice_hash c (bl_bucket b) (bl_hashes b)"

definition slice_set_hash :: "prims \<Rightarrow> int \<Rightarrow> digest set \<Rightarrow> digest" where
  "slice_set_hash c bucket hs = slice_hash c bucket (sorted_list_of_set hs)"

section \<open>The state of a round\<close>

datatype RState = COLLECT | FINALIZE | GONE | ABANDONED

record Round =
  rn_bucket :: int
  rn_me :: seed
  rn_roster :: "public_key list"
  rn_prev_block :: digest
  rn_quorum :: int
  rn_state :: RState
  rn_now :: int
  rn_close_by :: int
  rn_abandon_by :: int
  rn_local :: "pool option"
  rn_peer_holds :: "(public_key \<times> digest set) list"
  rn_peer_sigs :: "(public_key \<times> Sig) list"
  rn_my_sig :: "Sig option"
  rn_equivocations :: "(public_key \<times> Sig \<times> Sig) list"
  rn_divergences :: "(public_key \<times> digest) list"
  rn_gap_attempts :: "((public_key \<times> digest) \<times> int) list"
  rn_ratified :: "Block option"
  rn_slice_bodies :: "SignedTransaction list"
  rn_surviving :: "SignedTransaction list"
  rn_outbox :: "(Target \<times> RoundMsg) list"
  rn_pending_slice :: "digest set"

definition round_new :: "prims \<Rightarrow> int \<Rightarrow> seed \<Rightarrow> public_key list \<Rightarrow> digest \<Rightarrow> int \<Rightarrow> int \<Rightarrow> int \<Rightarrow> Round res" where
  "round_new c bucket me roster prev_block now close_by abandon_by =
     (if kp_public c me \<notin> set roster then Inl RoundError
      else if close_by \<le> now then Inl RoundError
      else if abandon_by \<le> close_by then Inl RoundError
      else rbind (quorum_size (int (length roster))) (\<lambda>q.
        Inr \<lparr>rn_bucket = bucket, rn_me = me, rn_roster = roster, rn_prev_block = prev_block, rn_quorum = q,
             rn_state = COLLECT, rn_now = now, rn_close_by = close_by, rn_abandon_by = abandon_by,
             rn_local = None, rn_peer_holds = [], rn_peer_sigs = [], rn_my_sig = None, rn_equivocations = [],
             rn_divergences = [], rn_gap_attempts = [], rn_ratified = None, rn_slice_bodies = [], rn_surviving = [],
             rn_outbox = [], rn_pending_slice = {}\<rparr>))"

definition push :: "Target \<Rightarrow> RoundMsg \<Rightarrow> Round \<Rightarrow> Round" where
  "push target msg r = r\<lparr>rn_outbox := rn_outbox r @ [(target, msg)]\<rparr>"

definition held_msg :: "Round \<Rightarrow> pool \<Rightarrow> RoundMsg" where
  "held_msg r bodies = M_Held (rn_bucket r) (rn_prev_block r) (fst ` set bodies)"

text \<open>\<^verbatim>\<open>{tx.op_hash: tx for tx in bodies}\<close>.\<close>

definition by_hash :: "prims \<Rightarrow> SignedTransaction list \<Rightarrow> pool" where
  "by_hash c txs = dict_update [] (map (\<lambda>tx. (op_hash c tx, tx)) txs)"

definition add_local :: "prims \<Rightarrow> SignedTransaction list \<Rightarrow> Round \<Rightarrow> Round res" where
  "add_local c bodies r =
     (if rn_local r \<noteq> None then Inl RoundError
      else if rn_state r \<noteq> COLLECT then Inl RoundError
      else let held = by_hash c bodies in Inr (push ToAll (held_msg r held) (r\<lparr>rn_local := Some held\<rparr>)))"

text \<open>
  \<^verbatim>\<open>_elected\<close>: counts the sighting, and elects the holder with the least hash. Two holders
  with the same hash, a collision of the hash function, would be told apart by the iteration order
  of a Python set; the model elects both.
\<close>

definition election_key :: "prims \<Rightarrow> Round \<Rightarrow> digest \<Rightarrow> public_key \<Rightarrow> int \<Rightarrow> public_key \<Rightarrow> digest" where
  "election_key c r x to attempt p =
     h c (benc (BSeq [BInt (rn_bucket r), BBytes x, BBytes to, BInt attempt, BBytes p]))"

definition elected :: "prims \<Rightarrow> digest \<Rightarrow> public_key \<Rightarrow> Round \<Rightarrow> bool \<times> Round" where
  "elected c x to r =
     (let attempt = (case map_of (rn_gap_attempts r) (to, x) of None \<Rightarrow> 0 | Some n \<Rightarrow> n);
          r' = r\<lparr>rn_gap_attempts := AList.update (to, x) (attempt + 1) (rn_gap_attempts r)\<rparr>;
          me = kp_public c (rn_me r);
          holders = me # map fst (filter (\<lambda>(_, hs). x \<in> hs) (rn_peer_holds r))
      in (list_all (\<lambda>p. election_key c r x to attempt me \<le> election_key c r x to attempt p) holders, r'))"

fun push_loop :: "prims \<Rightarrow> pool \<Rightarrow> public_key \<Rightarrow> digest list \<Rightarrow> Round \<Rightarrow> SignedTransaction list \<Rightarrow> SignedTransaction list \<times> Round" where
  "push_loop c bodies to [] r send = (send, r)"
| "push_loop c bodies to (x # xs) r send =
     (let (won, r') = elected c x to r
      in push_loop c bodies to xs r'
           (if won then (case map_of bodies x of None \<Rightarrow> send | Some tx \<Rightarrow> send @ [tx]) else send))"

definition push_missing :: "prims \<Rightarrow> public_key \<Rightarrow> digest set \<Rightarrow> Round \<Rightarrow> Round" where
  "push_missing c to theirs r =
     (case rn_local r of
        None \<Rightarrow> r
      | Some bodies \<Rightarrow>
          if rn_state r \<noteq> COLLECT then r
          else let (send, r') = push_loop c bodies to (sort (filter (\<lambda>x. x \<notin> theirs) (remdups (map fst bodies)))) r []
               in if send = [] then r' else push (ToPeer to) (M_Bodies (rn_bucket r) (rn_prev_block r) send) r')"

definition on_held :: "prims \<Rightarrow> digest set \<Rightarrow> public_key \<Rightarrow> Round \<Rightarrow> Round" where
  "on_held c hashes from r =
     (if rn_state r = GONE then r
      else push_missing c from hashes (r\<lparr>rn_peer_holds := AList.update from hashes (rn_peer_holds r)\<rparr>))"

text \<open>\<^verbatim>\<open>_try_ratify\<close>.\<close>

definition agreeing :: "digest \<Rightarrow> Round \<Rightarrow> (public_key \<times> Sig) list" where
  "agreeing want r = filter (\<lambda>(_, s). sg_slice_hash s = want) (rn_peer_sigs r)"

definition try_ratify :: "Round \<Rightarrow> Round" where
  "try_ratify r =
     (if rn_state r \<noteq> FINALIZE then r
      else case rn_my_sig r of
        None \<Rightarrow> r
      | Some mine \<Rightarrow>
          if int (length (agreeing (sg_slice_hash mine) r)) < rn_quorum r then r
          else r\<lparr>rn_ratified := Some \<lparr>bl_bucket = rn_bucket r, bl_hashes = hashes_canonical (sorted_list_of_set (rn_pending_slice r))\<rparr>,
                 rn_state := GONE\<rparr>)"

definition on_sig :: "prims \<Rightarrow> Sig \<Rightarrow> public_key \<Rightarrow> Round \<Rightarrow> Round" where
  "on_sig c s from r =
     (if \<not> sig_verify c s from then r
      else case map_of (rn_peer_sigs r) from of
        Some prior \<Rightarrow>
          if sg_slice_hash prior \<noteq> sg_slice_hash s then r\<lparr>rn_equivocations := rn_equivocations r @ [(from, prior, s)]\<rparr>
          else if rn_state r = GONE then r
          else try_ratify (r\<lparr>rn_peer_sigs := AList.update from s (rn_peer_sigs r)\<rparr>)
      | None \<Rightarrow>
          if rn_state r = GONE then r
          else try_ratify (r\<lparr>rn_peer_sigs := AList.update from s (rn_peer_sigs r)\<rparr>))"

definition round_receive :: "prims \<Rightarrow> RoundMsg \<Rightarrow> public_key \<Rightarrow> int \<Rightarrow> Round \<Rightarrow> Round res" where
  "round_receive c msg from now r =
     (if now < rn_now r then Inl RoundError
      else let r1 = r\<lparr>rn_now := now\<rparr> in
        Inr (if msg_bucket msg \<noteq> rn_bucket r1 then r1
             else if from \<notin> set (rn_roster r1) then r1
             else if msg_prev_block msg \<noteq> rn_prev_block r1
               then r1\<lparr>rn_divergences := rn_divergences r1 @ [(from, msg_prev_block msg)]\<rparr>
             else case msg of
               M_Held _ _ hashes \<Rightarrow> on_held c hashes from r1
             | M_Sig s \<Rightarrow> on_sig c s from r1
             | M_Bodies _ _ _ \<Rightarrow> r1))"

text \<open>\<^verbatim>\<open>absorb\<close>, of a \<^verbatim>\<open>Bodies\<close> message with its bucket and base.\<close>

definition round_absorb ::
  "prims \<Rightarrow> int \<Rightarrow> digest \<Rightarrow> public_key \<Rightarrow> SignedTransaction list \<Rightarrow> Round \<Rightarrow> Round" where
  "round_absorb c bucket prev_block from validated r =
     (if bucket \<noteq> rn_bucket r \<or> from \<notin> set (rn_roster r) then r
      else if prev_block \<noteq> rn_prev_block r then r\<lparr>rn_divergences := rn_divergences r @ [(from, prev_block)]\<rparr>
      else case rn_local r of
        None \<Rightarrow> r
      | Some bodies \<Rightarrow>
          if rn_state r \<noteq> COLLECT then r
          else let fresh = by_hash c (filter (\<lambda>tx. op_hash c tx \<notin> fst ` set bodies) validated) in
            if fresh = [] then r
            else let all = dict_update bodies fresh in push ToAll (held_msg r all) (r\<lparr>rn_local := Some all\<rparr>))"

section \<open>The cut\<close>

text \<open>\<^verbatim>\<open>itertools.combinations\<close>.\<close>

fun combinations :: "'a list \<Rightarrow> nat \<Rightarrow> 'a list list" where
  "combinations xs 0 = [[]]"
| "combinations [] (Suc k) = []"
| "combinations (x # xs) (Suc k) = map (Cons x) (combinations xs k) @ combinations xs (Suc k)"

definition all_holdings :: "prims \<Rightarrow> Round \<Rightarrow> (public_key \<times> digest set) list" where
  "all_holdings c r =
     (case rn_local r of
        None \<Rightarrow> rn_peer_holds r
      | Some bodies \<Rightarrow> AList.update (kp_public c (rn_me r)) (fst ` set bodies) (rn_peer_holds r))"

text \<open>
  The intersection over one combination; the loop that stops at an empty intersection has the same
  value.
\<close>

definition combo_inter :: "(public_key \<times> digest set) list \<Rightarrow> digest set \<Rightarrow> public_key list \<Rightarrow> digest set" where
  "combo_inter holdings local combo =
     foldl (\<lambda>acc p. acc \<inter> (case map_of holdings p of None \<Rightarrow> {} | Some s \<Rightarrow> s)) local combo"

fun slice_scan :: "digest set list \<Rightarrow> digest set list \<Rightarrow> nat \<Rightarrow> digest set list" where
  "slice_scan [] candidates max_size = candidates"
| "slice_scan (common # rest) candidates max_size =
     (if card common < max_size then slice_scan rest candidates max_size
      else if card common > max_size then slice_scan rest [common] (card common)
      else slice_scan rest (if common \<in> set candidates then candidates else candidates @ [common]) max_size)"

text \<open>The least of a nonempty list by a key, the first of several.\<close>

fun min_by :: "('a \<Rightarrow> 'k :: linorder) \<Rightarrow> 'a \<Rightarrow> 'a list \<Rightarrow> 'a" where
  "min_by f best [] = best"
| "min_by f best (x # xs) = min_by f (if f x < f best then x else best) xs"

definition compute_slice :: "prims \<Rightarrow> Round \<Rightarrow> digest set \<Rightarrow> digest set" where
  "compute_slice c r local =
     (let holdings = all_holdings c r in
      if int (length holdings) < rn_quorum r then {}
      else let inters = map (combo_inter holdings local) (combinations (sort (map fst holdings)) (nat (rn_quorum r)))
           in case slice_scan inters [] 0 of
                [] \<Rightarrow> {}
              | x # xs \<Rightarrow> min_by (slice_set_hash c (rn_bucket r)) x xs)"

definition finalize :: "prims \<Rightarrow> (SignedTransaction list \<Rightarrow> digest set res) \<Rightarrow> Round \<Rightarrow> Round res" where
  "finalize c screen r =
     (case rn_local r of
        None \<Rightarrow> Inr r
      | Some bodies \<Rightarrow>
          let cut = compute_slice c r (fst ` set bodies);
              candidate = bodies_canonical c (map snd (filter (\<lambda>(k, _). k \<in> cut) bodies))
          in rbind (screen candidate) (\<lambda>keep.
             let applicable = batch_filter c candidate keep;
                 slice_hashes = batch_hashes c applicable;
                 mine = sig_sign c (rn_me r) (rn_bucket r) (rn_prev_block r) (slice_set_hash c (rn_bucket r) slice_hashes);
                 r1 = r\<lparr>rn_slice_bodies := applicable, rn_my_sig := Some mine,
                       rn_peer_sigs := AList.update (kp_public c (rn_me r)) mine (rn_peer_sigs r),
                       rn_surviving := bodies_canonical c (filter (\<lambda>tx. op_hash c tx \<notin> slice_hashes) (map snd bodies)),
                       rn_pending_slice := slice_hashes, rn_state := FINALIZE\<rparr>
             in Inr (try_ratify (push ToAll (M_Sig mine) r1))))"

definition abandon :: "prims \<Rightarrow> Round \<Rightarrow> Round" where
  "abandon c r =
     (case rn_local r of
        None \<Rightarrow> r
      | Some bodies \<Rightarrow> r\<lparr>rn_surviving := bodies_canonical c (map snd bodies), rn_state := ABANDONED\<rparr>)"

definition round_tick :: "prims \<Rightarrow> (SignedTransaction list \<Rightarrow> digest set res) \<Rightarrow> int \<Rightarrow> Round \<Rightarrow> Round res" where
  "round_tick c screen now r =
     (if now < rn_now r then Inl RoundError
      else let r1 = r\<lparr>rn_now := now\<rparr> in
        rbind (if rn_state r1 = COLLECT \<and> rn_local r1 \<noteq> None \<and> now \<ge> rn_close_by r1 then finalize c screen r1 else Inr r1)
          (\<lambda>r2. Inr (if rn_state r2 = FINALIZE \<and> now \<ge> rn_abandon_by r2 then abandon c r2 else r2)))"

definition round_outbox :: "Round \<Rightarrow> (Target \<times> RoundMsg) list \<times> Round" where
  "round_outbox r = (rn_outbox r, r\<lparr>rn_outbox := []\<rparr>)"

definition round_surviving :: "Round \<Rightarrow> SignedTransaction list res" where
  "round_surviving r = (if rn_state r \<in> {GONE, ABANDONED} then Inr (rn_surviving r) else Inl RoundError)"

definition round_slice_bodies :: "Round \<Rightarrow> SignedTransaction list res" where
  "round_slice_bodies r = (if rn_ratified r = None then Inl RoundError else Inr (rn_slice_bodies r))"

end
