(* ===== verification/Settle_Round.thy ===== *)
theory Settle_Round
  imports Round
begin

text \<open>
  \<^verbatim>\<open>dude/consensus/settle_round.py\<close>: the second round, in which the roster signs the
  anchors that a ratified block leaves; settled blocks, alone and with their bodies, and their wire
  forms.
\<close>

record Anchors =
  an_block_num :: int
  an_height :: int
  an_prev_block :: digest
  an_state_root :: digest
  an_acc_state :: accumulator
  an_acc_log :: accumulator

definition ANCHORS_DOMAIN :: bytes where "ANCHORS_DOMAIN = ascii ''dude.settle_round.anchors''"

definition anchors_fields :: "Anchors \<Rightarrow> bval list" where
  "anchors_fields a =
     [BInt (an_block_num a), BInt (an_height a), BBytes (an_prev_block a), BBytes (an_state_root a),
      BBytes (an_acc_state a), BBytes (an_acc_log a)]"

definition anchors_of_fields :: "bval list \<Rightarrow> Anchors res" where
  "anchors_of_fields f =
     rbind (as_int (f ! 0)) (\<lambda>n.
     rbind (as_int (f ! 1)) (\<lambda>ht.
     rbind (rbind (as_bytes (f ! 2)) Digest) (\<lambda>prev.
     rbind (rbind (as_bytes (f ! 3)) Digest) (\<lambda>root.
     rbind (rbind (as_bytes (f ! 4)) Accumulator) (\<lambda>acc.
     rbind (rbind (as_bytes (f ! 5)) Accumulator) (\<lambda>lg.
     Inr \<lparr>an_block_num = n, an_height = ht, an_prev_block = prev, an_state_root = root, an_acc_state = acc, an_acc_log = lg\<rparr>))))))"

definition anchors_ok :: "Anchors \<Rightarrow> bool" where
  "anchors_ok a \<longleftrightarrow> length (an_prev_block a) = DIGEST_SIZE \<and> length (an_state_root a) = DIGEST_SIZE \<and>
     length (an_acc_state a) = ACC_SIZE \<and> length (an_acc_log a) = ACC_SIZE"

lemma anchors_of_fields_inverse [simp]: "anchors_ok a \<Longrightarrow> anchors_of_fields (anchors_fields a @ rest) = Inr a"
  by (simp add: anchors_of_fields_def anchors_fields_def anchors_ok_def)

lemma anchors_fields_inject: "anchors_fields a = anchors_fields b \<Longrightarrow> a = b"
  by (cases a; cases b) (simp add: anchors_fields_def)

definition settle_payload :: "digest \<Rightarrow> Anchors \<Rightarrow> bytes" where
  "settle_payload sh a = benc (BSeq (BBytes ANCHORS_DOMAIN # BBytes sh # anchors_fields a))"

record SettleSig =
  ss_slice_hash :: digest
  ss_anchors :: Anchors
  ss_sig :: signature

definition settle_sign :: "prims \<Rightarrow> seed \<Rightarrow> digest \<Rightarrow> Anchors \<Rightarrow> SettleSig" where
  "settle_sign c kp sh a = \<lparr>ss_slice_hash = sh, ss_anchors = a, ss_sig = kp_sign c kp (settle_payload sh a)\<rparr>"

definition settle_sig_verify :: "prims \<Rightarrow> SettleSig \<Rightarrow> public_key \<Rightarrow> bool" where
  "settle_sig_verify c m pk = pk_verify c pk (settle_payload (ss_slice_hash m) (ss_anchors m)) (ss_sig m)"

definition settle_sig_bval :: "SettleSig \<Rightarrow> bval" where
  "settle_sig_bval m = BSeq (BBytes (ss_slice_hash m) # anchors_fields (ss_anchors m) @ [BBytes (ss_sig m)])"

definition settle_sig_encode :: "SettleSig \<Rightarrow> bytes" where
  "settle_sig_encode m = benc (settle_sig_bval m)"

definition settle_sig_decode :: "Verb \<Rightarrow> bytes \<Rightarrow> SettleSig res" where
  "settle_sig_decode verb body =
     (if verb \<noteq> V_SETTLE_SIG then Inl SettleAdapterError
      else rewrap is_dude_error SettleAdapterError
        (rbind (decode_seq body (Some 8)) (\<lambda>p.
         rbind (rbind (as_bytes (p ! 0)) Digest) (\<lambda>sh.
         rbind (anchors_of_fields (tl p)) (\<lambda>a.
         rbind (rbind (as_bytes (p ! 7)) Signature) (\<lambda>sg.
         Inr \<lparr>ss_slice_hash = sh, ss_anchors = a, ss_sig = sg\<rparr>))))))"

text \<open>\<^verbatim>\<open>slice_hash_of\<close> indexes the decoded tuple before its length is known.\<close>

definition slice_hash_of :: "bytes \<Rightarrow> digest res" where
  "slice_hash_of body =
     rewrap is_dude_error SettleAdapterError
       (rbind (decode_seq body None) (\<lambda>p. if p = [] then Inl IndexError else rbind (as_bytes (p ! 0)) Digest))"

definition settle_sig_ok :: "SettleSig \<Rightarrow> bool" where
  "settle_sig_ok m \<longleftrightarrow> length (ss_slice_hash m) = DIGEST_SIZE \<and> anchors_ok (ss_anchors m) \<and> length (ss_sig m) = SIG_SIZE \<and>
     bencodable (settle_sig_bval m)"

interpretation settle_sig_wire: wire settle_sig_encode "settle_sig_decode V_SETTLE_SIG" settle_sig_ok
proof
  fix m assume ok: "settle_sig_ok m"
  then have "decode_seq (settle_sig_encode m) (Some 8) =
      Inr (BBytes (ss_slice_hash m) # anchors_fields (ss_anchors m) @ [BBytes (ss_sig m)])"
    by (simp add: settle_sig_encode_def settle_sig_bval_def settle_sig_ok_def anchors_fields_def)
  then show "settle_sig_decode V_SETTLE_SIG (settle_sig_encode m) = Inr m"
    using ok by (simp add: settle_sig_decode_def rewrap_def settle_sig_ok_def) (simp add: anchors_fields_def)
qed

section \<open>Settled blocks\<close>

record SettledBlock =
  sb_block :: Block
  sb_anchors :: Anchors
  sb_multisig :: MultiSig

definition identity_bval :: "SettledBlock \<Rightarrow> bval" where
  "identity_bval s =
     BSeq (BInt (bl_bucket (sb_block s)) # bytes_seq (hashes_canonical (bl_hashes (sb_block s))) # anchors_fields (sb_anchors s))"

definition identity_bytes :: "SettledBlock \<Rightarrow> bytes" where
  "identity_bytes s = benc (identity_bval s)"

definition block_hash :: "prims \<Rightarrow> SettledBlock \<Rightarrow> digest" where
  "block_hash c s = h c (identity_bytes s)"

definition sb_bval :: "SettledBlock \<Rightarrow> bval" where
  "sb_bval s = BSeq [BBytes (identity_bytes s), BBytes (ms_bitmap (sb_multisig s)), bytes_seq (ms_sigs (sb_multisig s))]"

definition sb_encode :: "SettledBlock \<Rightarrow> bytes" where
  "sb_encode s = benc (sb_bval s)"

definition sb_decode :: "bytes \<Rightarrow> SettledBlock res" where
  "sb_decode raw =
     rewrap is_dude_error SettleError
       (rbind (decode_seq raw (Some 3)) (\<lambda>outer.
        rbind (rbind (as_bytes (outer ! 0)) (\<lambda>b. decode_seq b (Some 8))) (\<lambda>identity.
        rbind (as_int (identity ! 0)) (\<lambda>bucket.
        rbind (rbind (as_seq (identity ! 1) None) (mapM (\<lambda>x. rbind (as_bytes x) Digest))) (\<lambda>hs.
        rbind (anchors_of_fields (tl (tl identity))) (\<lambda>a.
        rbind (as_bytes (outer ! 1)) (\<lambda>bm.
        rbind (rbind (as_seq (outer ! 2) None) (mapM (\<lambda>x. rbind (as_bytes x) Signature))) (\<lambda>sigs.
        Inr \<lparr>sb_block = \<lparr>bl_bucket = bucket, bl_hashes = hashes_canonical hs\<rparr>, sb_anchors = a,
             sb_multisig = \<lparr>ms_bitmap = bm, ms_sigs = sigs\<rparr>\<rparr>))))))))"

definition sb_ok :: "SettledBlock \<Rightarrow> bool" where
  "sb_ok s \<longleftrightarrow> sorted (bl_hashes (sb_block s)) \<and> (\<forall>x \<in> set (bl_hashes (sb_block s)). length x = DIGEST_SIZE) \<and>
     anchors_ok (sb_anchors s) \<and> (\<forall>x \<in> set (ms_sigs (sb_multisig s)). length x = SIG_SIZE) \<and>
     bencodable (identity_bval s) \<and> bencodable (sb_bval s)"

lemma mapM_bytes_fixed: "\<forall>x \<in> set xs. length x = w \<Longrightarrow> mapM (\<lambda>x. rbind (as_bytes x) (fixed w)) (map BBytes xs) = Inr xs"
  by (induction xs) (auto simp: fixed_ok)

interpretation sb_wire: wire sb_encode sb_decode sb_ok
proof
  fix s assume ok: "sb_ok s"
  have outer: "decode_seq (sb_encode s) (Some 3) =
      Inr [BBytes (identity_bytes s), BBytes (ms_bitmap (sb_multisig s)), bytes_seq (ms_sigs (sb_multisig s))]"
    using ok by (simp add: sb_encode_def sb_bval_def sb_ok_def)
  have id: "decode_seq (identity_bytes s) (Some 8) =
      Inr (BInt (bl_bucket (sb_block s)) # bytes_seq (hashes_canonical (bl_hashes (sb_block s))) # anchors_fields (sb_anchors s))"
    using ok by (simp add: identity_bytes_def identity_bval_def sb_ok_def anchors_fields_def)
  have sorted: "hashes_canonical (bl_hashes (sb_block s)) = bl_hashes (sb_block s)"
    using ok by (simp add: hashes_canonical_def sb_ok_def sorted_sort_id)
  have "anchors_of_fields (anchors_fields (sb_anchors s)) = Inr (sb_anchors s)"
    using anchors_of_fields_inverse[of "sb_anchors s" "[]"] ok by (simp add: sb_ok_def)
  then show "sb_decode (sb_encode s) = Inr s"
    using ok by (simp add: sb_decode_def outer id sorted rewrap_def sb_ok_def bytes_seq_def mapM_bytes_fixed)
qed

record SettledBlockWithBodies =
  sbb_block :: SettledBlock
  sbb_bodies :: "SignedTransaction list"

definition sbb_bval :: "SettledBlockWithBodies \<Rightarrow> bval" where
  "sbb_bval s = BSeq [BBytes (sb_encode (sbb_block s)), bytes_seq (map stx_raw (sbb_bodies s))]"

definition sbb_encode :: "SettledBlockWithBodies \<Rightarrow> bytes" where
  "sbb_encode s = benc (sbb_bval s)"

definition sbb_decode :: "bytes \<Rightarrow> SettledBlockWithBodies res" where
  "sbb_decode raw =
     rewrap is_dude_error SettleError
       (rbind (decode_seq raw (Some 2)) (\<lambda>p.
        rbind (rbind (as_bytes (p ! 0)) sb_decode) (\<lambda>block.
        rbind (rbind (as_seq (p ! 1) None) (mapM (\<lambda>x. rbind (as_bytes x) stx_decode))) (\<lambda>bodies.
        Inr \<lparr>sbb_block = block, sbb_bodies = bodies\<rparr>))))"

definition sbb_ok :: "SettledBlockWithBodies \<Rightarrow> bool" where
  "sbb_ok s \<longleftrightarrow> sb_ok (sbb_block s) \<and> (\<forall>tx \<in> set (sbb_bodies s). stx_ok tx) \<and> bencodable (sbb_bval s)"

lemma mapM_stx: "\<forall>tx \<in> set txs. stx_ok tx \<Longrightarrow> mapM (\<lambda>x. rbind (as_bytes x) stx_decode) (map BBytes (map stx_raw txs)) = Inr txs"
  by (induction txs) (auto simp: stx_wire.dec_enc)

interpretation sbb_wire: wire sbb_encode sbb_decode sbb_ok
proof
  fix s assume ok: "sbb_ok s"
  have "decode_seq (sbb_encode s) (Some 2) = Inr [BBytes (sb_encode (sbb_block s)), bytes_seq (map stx_raw (sbb_bodies s))]"
    using ok by (simp add: sbb_encode_def sbb_bval_def sbb_ok_def)
  then show "sbb_decode (sbb_encode s) = Inr s"
    using ok mapM_stx[of "sbb_bodies s"] by (simp add: sbb_decode_def rewrap_def sbb_ok_def sb_wire.dec_enc bytes_seq_def)
qed

definition GENESIS_DOMAIN :: bytes where "GENESIS_DOMAIN = ascii ''dude.genesis:''"

definition genesis_stamp :: "prims \<Rightarrow> public_key \<Rightarrow> digest" where
  "genesis_stamp c manager = h c (GENESIS_DOMAIN @ manager)"

section \<open>The round\<close>

datatype SState = S_INVALID | COLLECTING | SETTLED | S_ABANDONED

record SettleRound =
  sr_block :: Block
  sr_me :: seed
  sr_roster :: "public_key list"
  sr_quorum :: int
  sr_anchors :: Anchors
  sr_slice_hash :: digest
  sr_abandon_by :: int
  sr_sigs :: "(public_key \<times> signature) list"
  sr_divergences :: "(public_key \<times> Anchors) list"
  sr_outbox :: "(Target \<times> SettleSig) list"
  sr_state :: SState
  sr_settled :: "SettledBlock option"

text \<open>The shares by roster position.\<close>

definition settle_shares :: "SettleRound \<Rightarrow> (int \<times> signature) list" where
  "settle_shares r =
     List.map_filter (\<lambda>(i, m). map_option (\<lambda>s. (int i, s)) (map_of (sr_sigs r) m)) (enumerate 0 (sr_roster r))"

definition try_settle :: "SettleRound \<Rightarrow> SettleRound res" where
  "try_settle r =
     (if sr_state r \<noteq> COLLECTING then Inr r
      else if int (length (sr_sigs r)) < sr_quorum r then Inr r
      else rbind (ms_combine (settle_shares r) (length (sr_roster r) + 1)) (\<lambda>ms.
        Inr (r\<lparr>sr_settled := Some \<lparr>sb_block = sr_block r, sb_anchors = sr_anchors r, sb_multisig = ms\<rparr>, sr_state := SETTLED\<rparr>)))"

definition settle_new :: "prims \<Rightarrow> Block \<Rightarrow> seed \<Rightarrow> public_key list \<Rightarrow> Anchors \<Rightarrow> int \<Rightarrow> SettleRound res" where
  "settle_new c block me roster anchors abandon_by =
     (if kp_public c me \<notin> set roster then Inl SettleError
      else rbind (quorum_size (int (length roster))) (\<lambda>q.
        let sh = block_slice_hash c block; mine = settle_sign c me sh anchors in
        try_settle \<lparr>sr_block = block, sr_me = me, sr_roster = roster, sr_quorum = q, sr_anchors = anchors,
          sr_slice_hash = sh, sr_abandon_by = abandon_by, sr_sigs = [(kp_public c me, ss_sig mine)], sr_divergences = [],
          sr_outbox = [(ToAll, mine)], sr_state = COLLECTING, sr_settled = None\<rparr>))"

definition settle_receive :: "prims \<Rightarrow> SettleSig \<Rightarrow> public_key \<Rightarrow> SettleRound \<Rightarrow> SettleRound res" where
  "settle_receive c msg from r =
     (if from \<notin> set (sr_roster r) then Inr r
      else if from = kp_public c (sr_me r) then Inr r
      else if ss_slice_hash msg \<noteq> sr_slice_hash r then Inr r
      else if \<not> settle_sig_verify c msg from then Inr r
      else if ss_anchors msg \<noteq> sr_anchors r then Inr (r\<lparr>sr_divergences := sr_divergences r @ [(from, ss_anchors msg)]\<rparr>)
      else if sr_state r \<noteq> COLLECTING then Inr r
      else try_settle (r\<lparr>sr_sigs := AList.update from (ss_sig msg) (sr_sigs r)\<rparr>))"

definition settle_tick :: "int \<Rightarrow> SettleRound \<Rightarrow> SettleRound" where
  "settle_tick now r = (if sr_state r = COLLECTING \<and> now \<ge> sr_abandon_by r then r\<lparr>sr_state := S_ABANDONED\<rparr> else r)"

definition settle_outbox :: "SettleRound \<Rightarrow> (Target \<times> SettleSig) list \<times> SettleRound" where
  "settle_outbox r = (sr_outbox r, r\<lparr>sr_outbox := []\<rparr>)"

end
