(* ===== verification/Round_Safety.thy ===== *)
theory Round_Safety
  imports Settle_Round
begin

text \<open>
  Safety of the agreement round. The runs of a round are the inductive predicate \<open>round_run\<close>: a
  fresh round, then any sequence of its operations with any messages, clocks and screens. What a
  round ratifies was signed by a quorum, and two rounds on the same base ratify the same slice
  unless more members signed two slices than the quorum rule tolerates.
\<close>

section \<open>Runs\<close>

inductive round_run :: "prims \<Rightarrow> Round \<Rightarrow> bool" for c where
  start: "round_new c bucket me roster prev now close_by abandon_by = Inr r \<Longrightarrow> round_run c r"
| local: "round_run c r \<Longrightarrow> add_local c bodies r = Inr r' \<Longrightarrow> round_run c r'"
| receive: "round_run c r \<Longrightarrow> round_receive c msg from now r = Inr r' \<Longrightarrow> round_run c r'"
| absorb: "round_run c r \<Longrightarrow> round_run c (round_absorb c bucket prev from txs r)"
| tick: "round_run c r \<Longrightarrow> round_tick c screen now r = Inr r' \<Longrightarrow> round_run c r'"
| drain: "round_run c r \<Longrightarrow> round_run c (snd (round_outbox r))"

definition sigs_ok :: "prims \<Rightarrow> Round \<Rightarrow> bool" where
  "sigs_ok c r \<longleftrightarrow>
     quorum_size (int (length (rn_roster r))) = Inr (rn_quorum r) \<and> kp_public c (rn_me r) \<in> set (rn_roster r) \<and>
     distinct (map fst (rn_peer_sigs r)) \<and>
     (\<forall>(p, s) \<in> set (rn_peer_sigs r). p \<in> set (rn_roster r) \<and> sig_verify c s p \<and>
        sg_bucket s = rn_bucket r \<and> sg_prev_block s = rn_prev_block r)"

definition cut_ok :: "prims \<Rightarrow> Round \<Rightarrow> bool" where
  "cut_ok c r \<longleftrightarrow>
     (rn_state r = COLLECT \<longrightarrow> rn_my_sig r = None \<and> rn_ratified r = None) \<and>
     (rn_ratified r \<noteq> None \<longrightarrow> rn_state r = GONE) \<and>
     (\<forall>mine. rn_my_sig r = Some mine \<longrightarrow> sg_slice_hash mine = slice_set_hash c (rn_bucket r) (rn_pending_slice r)) \<and>
     (\<forall>b. rn_ratified r = Some b \<longrightarrow> bl_bucket b = rn_bucket r \<and> bl_hashes b = sorted_list_of_set (rn_pending_slice r) \<and>
        rn_quorum r \<le> int (length (agreeing (slice_set_hash c (rn_bucket r) (rn_pending_slice r)) r)))"

abbreviation same_round :: "Round \<Rightarrow> Round \<Rightarrow> bool" where
  "same_round r r' \<equiv> rn_bucket r' = rn_bucket r \<and> rn_prev_block r' = rn_prev_block r \<and> rn_roster r' = rn_roster r \<and>
     rn_quorum r' = rn_quorum r \<and> rn_me r' = rn_me r"

text \<open>The fields the invariant reads.\<close>

abbreviation same_votes :: "Round \<Rightarrow> Round \<Rightarrow> bool" where
  "same_votes r r' \<equiv> same_round r r' \<and> rn_peer_sigs r' = rn_peer_sigs r \<and> rn_my_sig r' = rn_my_sig r \<and>
     rn_ratified r' = rn_ratified r \<and> rn_pending_slice r' = rn_pending_slice r \<and> rn_state r' = rn_state r"

lemma set_alist_update: "set (AList.update k v al) \<subseteq> insert (k, v) (set al)"
  by (induction al) auto

lemma sigs_ok_same: "same_round r r' \<Longrightarrow> rn_peer_sigs r' = rn_peer_sigs r \<Longrightarrow> sigs_ok c r \<Longrightarrow> sigs_ok c r'"
  by (simp add: sigs_ok_def)

lemma cut_ok_same: "same_votes r r' \<Longrightarrow> cut_ok c r \<Longrightarrow> cut_ok c r'"
  by (simp add: cut_ok_def agreeing_def)

lemma push_same: "same_votes r (push t m r)"
  by (simp add: push_def)

lemma elected_same: "same_votes r (snd (elected c x to r))"
  by (simp add: elected_def Let_def)

lemma push_loop_same: "push_loop c bodies to xs r send = (out, r') \<Longrightarrow> same_votes r r'"
proof (induction xs arbitrary: r send)
  case (Cons x xs)
  obtain won r1 where e: "elected c x to r = (won, r1)" by (cases "elected c x to r")
  have "same_votes r r1" using elected_same[where r = r and c = c and x = x and to = to] e by simp
  moreover have "same_votes r1 r'" using Cons.IH Cons.prems e by simp
  ultimately show ?case by simp
qed simp

lemma push_missing_same: "same_votes r (push_missing c to theirs r)"
proof (cases "rn_local r")
  case (Some bodies)
  let ?xs = "sort (filter (\<lambda>x. x \<notin> theirs) (remdups (map fst bodies)))"
  obtain send r1 where p: "push_loop c bodies to ?xs r [] = (send, r1)" by (cases "push_loop c bodies to ?xs r []")
  have "same_votes r r1" using push_loop_same[OF p] .
  then show ?thesis using Some p by (simp add: push_missing_def push_def)
qed (simp add: push_missing_def)

lemma on_held_same: "same_votes r (on_held c hs from r)"
  using push_missing_same[where r = "r\<lparr>rn_peer_holds := AList.update from hs (rn_peer_holds r)\<rparr>" and c = c and to = "from" and theirs = hs]
  by (simp add: on_held_def)

lemma absorb_same: "same_votes r (round_absorb c bucket prev from txs r)"
  by (simp add: round_absorb_def Let_def push_def split: option.split)

section \<open>The invariant\<close>

lemma try_ratify_inv:
  assumes "sigs_ok c r" "cut_ok c r"
  shows "sigs_ok c (try_ratify r) \<and> cut_ok c (try_ratify r)"
proof -
  have "sigs_ok c (try_ratify r)" using assms(1) by (simp add: try_ratify_def sigs_ok_def split: option.split)
  moreover have "cut_ok c (try_ratify r)"
  proof (cases "rn_state r = FINALIZE \<and> (\<exists>mine. rn_my_sig r = Some mine \<and> \<not> int (length (agreeing (sg_slice_hash mine) r)) < rn_quorum r)")
    case True
    then obtain mine where m: "rn_state r = FINALIZE" "rn_my_sig r = Some mine"
        "rn_quorum r \<le> int (length (agreeing (sg_slice_hash mine) r))" by auto
    have "sg_slice_hash mine = slice_set_hash c (rn_bucket r) (rn_pending_slice r)" using assms(2) m(2) by (simp add: cut_ok_def)
    moreover have "hashes_canonical (sorted_list_of_set (rn_pending_slice r)) = sorted_list_of_set (rn_pending_slice r)"
      by (simp add: hashes_canonical_def sorted_sort_id)
    ultimately show ?thesis using m assms(2) by (simp add: try_ratify_def cut_ok_def agreeing_def)
  next
    case False
    then have "try_ratify r = r" by (auto simp: try_ratify_def split: option.split)
    then show ?thesis using assms(2) by simp
  qed
  ultimately show ?thesis ..
qed

lemma record_sig_inv:
  assumes "sigs_ok c r" "cut_ok c r" "rn_state r \<noteq> GONE" "from \<in> set (rn_roster r)" "sig_verify c s from"
    "sg_bucket s = rn_bucket r" "sg_prev_block s = rn_prev_block r"
  shows "sigs_ok c (try_ratify (r\<lparr>rn_peer_sigs := AList.update from s (rn_peer_sigs r)\<rparr>)) \<and>
    cut_ok c (try_ratify (r\<lparr>rn_peer_sigs := AList.update from s (rn_peer_sigs r)\<rparr>))"
proof (rule try_ratify_inv)
  let ?r = "r\<lparr>rn_peer_sigs := AList.update from s (rn_peer_sigs r)\<rparr>"
  have "set (AList.update from s (rn_peer_sigs r)) \<subseteq> insert (from, s) (set (rn_peer_sigs r))"
    by (rule set_alist_update)
  then show "sigs_ok c ?r" using assms(1,4-7) by (fastforce simp: sigs_ok_def distinct_update)
  have "rn_ratified r = None" using assms(2,3) by (auto simp: cut_ok_def)
  then show "cut_ok c ?r" using assms(2,3) by (simp add: cut_ok_def)
qed

lemma on_sig_inv:
  assumes "sigs_ok c r" "cut_ok c r" "from \<in> set (rn_roster r)" "sg_bucket s = rn_bucket r" "sg_prev_block s = rn_prev_block r"
  shows "sigs_ok c (on_sig c s from r) \<and> cut_ok c (on_sig c s from r)"
proof -
  have eq: "sigs_ok c (r\<lparr>rn_equivocations := e\<rparr>) \<and> cut_ok c (r\<lparr>rn_equivocations := e\<rparr>)" for e
    using sigs_ok_same[where r = r and r' = "r\<lparr>rn_equivocations := e\<rparr>" and c = c] cut_ok_same[where r = r and r' = "r\<lparr>rn_equivocations := e\<rparr>" and c = c] assms(1,2) by simp
  have rec: "rn_state r \<noteq> GONE \<Longrightarrow> sig_verify c s from \<Longrightarrow>
      sigs_ok c (try_ratify (r\<lparr>rn_peer_sigs := AList.update from s (rn_peer_sigs r)\<rparr>)) \<and>
      cut_ok c (try_ratify (r\<lparr>rn_peer_sigs := AList.update from s (rn_peer_sigs r)\<rparr>))"
    using record_sig_inv[OF assms(1,2) _ assms(3) _ assms(4,5)] by blast
  show ?thesis using eq rec assms(1,2) by (auto simp: on_sig_def split: option.split)
qed

lemma finalize_inv:
  assumes "sigs_ok c r" "cut_ok c r" "rn_state r = COLLECT" "sign_correct c" "finalize c screen r = Inr r'"
  shows "sigs_ok c r' \<and> cut_ok c r'"
proof (cases "rn_local r")
  case None
  then show ?thesis using assms by (simp add: finalize_def)
next
  case (Some bodies)
  define cut where "cut = compute_slice c r (fst ` set bodies)"
  define candidate where "candidate = bodies_canonical c (map snd (filter (\<lambda>(k, _). k \<in> cut) bodies))"
  obtain keep where keep: "screen candidate = Inr keep"
    using assms(5) Some by (auto simp: finalize_def Let_def rbind_Inr_conv cut_def candidate_def)
  define hs where "hs = batch_hashes c (batch_filter c candidate keep)"
  define mine where "mine = sig_sign c (rn_me r) (rn_bucket r) (rn_prev_block r) (slice_set_hash c (rn_bucket r) hs)"
  define r1 where "r1 = push ToAll (M_Sig mine) (r\<lparr>rn_slice_bodies := batch_filter c candidate keep, rn_my_sig := Some mine,
     rn_peer_sigs := AList.update (kp_public c (rn_me r)) mine (rn_peer_sigs r),
     rn_surviving := bodies_canonical c (filter (\<lambda>tx. op_hash c tx \<notin> hs) (map snd bodies)),
     rn_pending_slice := hs, rn_state := FINALIZE\<rparr>)"
  have r': "r' = try_ratify r1"
    using assms(5) Some keep by (simp add: finalize_def Let_def r1_def mine_def hs_def candidate_def cut_def)
  have v: "sig_verify c mine (kp_public c (rn_me r))" "sg_bucket mine = rn_bucket r" "sg_prev_block mine = rn_prev_block r"
      "sg_slice_hash mine = slice_set_hash c (rn_bucket r) hs"
    using assms(4) by (simp_all add: mine_def sig_sign_def sig_verify_def)
  have "set (AList.update (kp_public c (rn_me r)) mine (rn_peer_sigs r)) \<subseteq> insert (kp_public c (rn_me r), mine) (set (rn_peer_sigs r))"
    by (rule set_alist_update)
  then have "sigs_ok c r1" using assms(1) v by (fastforce simp: sigs_ok_def r1_def push_def distinct_update)
  moreover have "cut_ok c r1" using assms(2,3) v(4) by (simp add: cut_ok_def r1_def push_def)
  ultimately show ?thesis unfolding r' by (rule try_ratify_inv)
qed

lemma round_run_inv:
  assumes "sign_correct c" "round_run c r"
  shows "sigs_ok c r \<and> cut_ok c r"
  using assms(2)
proof induction
  case (start bucket me roster prev now close_by abandon_by r)
  then show ?case by (auto simp: round_new_def rbind_Inr_conv sigs_ok_def cut_ok_def split: if_splits)
next
  case (local r bodies r')
  then have "same_votes r r'" by (auto simp: add_local_def Let_def push_def split: if_splits)
  then show ?case using local sigs_ok_same[where r = r and r' = r' and c = c] cut_ok_same[where r = r and r' = r' and c = c] by simp
next
  case (receive r msg "from" now r')
  define r1 where "r1 = r\<lparr>rn_now := now\<rparr>"
  have inv: "sigs_ok c r1" "cut_ok c r1"
    using receive.IH sigs_ok_same[where r = r and r' = r1 and c = c] cut_ok_same[where r = r and r' = r1 and c = c] by (simp_all add: r1_def)
  have div: "sigs_ok c (r1\<lparr>rn_divergences := d\<rparr>) \<and> cut_ok c (r1\<lparr>rn_divergences := d\<rparr>)" for d
    using inv sigs_ok_same[where r = r1 and r' = "r1\<lparr>rn_divergences := d\<rparr>" and c = c] cut_ok_same[where r = r1 and r' = "r1\<lparr>rn_divergences := d\<rparr>" and c = c] by simp
  have held: "sigs_ok c (on_held c hs from r1) \<and> cut_ok c (on_held c hs from r1)" for hs
    using on_held_same[where r = r1 and c = c and hs = hs and ?from = "from"] inv sigs_ok_same[where r = r1 and r' = "on_held c hs from r1" and c = c] cut_ok_same[where r = r1 and r' = "on_held c hs from r1" and c = c] by simp
  have "r' = (if msg_bucket msg \<noteq> rn_bucket r1 then r1 else if from \<notin> set (rn_roster r1) then r1
      else if msg_prev_block msg \<noteq> rn_prev_block r1 then r1\<lparr>rn_divergences := rn_divergences r1 @ [(from, msg_prev_block msg)]\<rparr>
      else case msg of M_Held _ _ hashes \<Rightarrow> on_held c hashes from r1 | M_Sig s \<Rightarrow> on_sig c s from r1 | M_Bodies _ _ _ \<Rightarrow> r1)"
    using receive.hyps(2) unfolding round_receive_def Let_def r1_def[symmetric] by (auto split: if_splits)
  then show ?case
    using inv div held on_sig_inv[OF inv, of "from"] by (cases msg) (auto simp: inv)
next
  case (absorb r bucket prev "from" txs)
  then show ?case
    using absorb_same[where r = r and c = c and bucket = bucket and prev = prev and ?from = "from" and txs = txs] sigs_ok_same[where r = r and r' = "round_absorb c bucket prev from txs r" and c = c]
      cut_ok_same[where r = r and r' = "round_absorb c bucket prev from txs r" and c = c] by simp
next
  case (tick r screen now r')
  define r1 where "r1 = r\<lparr>rn_now := now\<rparr>"
  have inv: "sigs_ok c r1" "cut_ok c r1"
    using tick.IH sigs_ok_same[where r = r and r' = r1 and c = c] cut_ok_same[where r = r and r' = r1 and c = c] by (simp_all add: r1_def)
  let ?fin = "if rn_state r1 = COLLECT \<and> rn_local r1 \<noteq> None \<and> now \<ge> rn_close_by r1 then finalize c screen r1 else Inr r1"
  have "rbind ?fin (\<lambda>r2. Inr (if rn_state r2 = FINALIZE \<and> now \<ge> rn_abandon_by r2 then abandon c r2 else r2)) = Inr r'"
    using tick.hyps(2) unfolding round_tick_def Let_def r1_def[symmetric] by (meson Inl_Inr_False)
  then obtain r2 where r2: "?fin = Inr r2" "r' = (if rn_state r2 = FINALIZE \<and> now \<ge> rn_abandon_by r2 then abandon c r2 else r2)"
    unfolding rbind_Inr_conv by blast
  have inv2: "sigs_ok c r2 \<and> cut_ok c r2"
    using r2(1) inv finalize_inv[OF inv _ assms(1)] by (auto split: if_splits)
  then have "sigs_ok c (abandon c r2)" by (simp add: abandon_def sigs_ok_def split: option.split)
  moreover have "rn_state r2 = FINALIZE \<Longrightarrow> cut_ok c (abandon c r2)"
    using inv2 by (auto simp: abandon_def cut_ok_def split: option.split)
  ultimately show ?case using r2(2) inv2 by simp
next
  case (drain r)
  then show ?case
    using sigs_ok_same[where r = r and r' = "snd (round_outbox r)" and c = c] cut_ok_same[where r = r and r' = "snd (round_outbox r)" and c = c] by (simp add: round_outbox_def)
qed

section \<open>Agreement\<close>

lemma enough_votes:
  assumes "distinct R" "quorum_size (int (length R)) = Inr q" "distinct (map fst votes)" "q \<le> int (length votes)"
    and "fst ` set votes \<subseteq> set R"
  shows "enough (set R) (fst ` set votes)"
proof -
  have "card (fst ` set votes) = length votes" using assms(3) distinct_card[of "map fst votes"] by simp
  then show ?thesis using assms(2,4,5) distinct_card[OF assms(1)] by (auto simp: enough_def satisfied_def)
qed

text \<open>The signatures a round holds for the slice it ratified are a quorum's.\<close>

lemma ratified_quorum:
  assumes "sign_correct c" "round_run c r" "rn_ratified r = Some b" "distinct (rn_roster r)"
  shows "enough (set (rn_roster r)) (fst ` set (agreeing (block_slice_hash c b) r))"
proof (rule enough_votes[OF assms(4)])
  have inv: "sigs_ok c r" "cut_ok c r" using round_run_inv[OF assms(1,2)] by auto
  show "quorum_size (int (length (rn_roster r))) = Inr (rn_quorum r)" using inv(1) by (simp add: sigs_ok_def)
  show "rn_quorum r \<le> int (length (agreeing (block_slice_hash c b) r))"
    using inv(2) assms(3) by (auto simp: cut_ok_def block_slice_hash_def slice_set_hash_def)
  show "distinct (map fst (agreeing (block_slice_hash c b) r))"
    using inv(1) by (auto simp: sigs_ok_def agreeing_def intro: distinct_map_filter)
  show "fst ` set (agreeing (block_slice_hash c b) r) \<subseteq> set (rn_roster r)"
    using inv(1) by (force simp: sigs_ok_def agreeing_def)
qed

text \<open>
  The members caught signing two slices: each round holds a verifying signature of theirs for the
  same bucket and base, on different slices. The two signatures are transferable evidence.
\<close>

definition double_signers :: "prims \<Rightarrow> Round \<Rightarrow> Round \<Rightarrow> public_key set" where
  "double_signers c r r' =
     {p \<in> set (rn_roster r). \<exists>s s'. map_of (rn_peer_sigs r) p = Some s \<and> map_of (rn_peer_sigs r') p = Some s' \<and>
        sig_verify c s p \<and> sig_verify c s' p \<and> sg_bucket s = sg_bucket s' \<and> sg_prev_block s = sg_prev_block s' \<and>
        sg_slice_hash s \<noteq> sg_slice_hash s'}"

lemma agreeing_vote:
  assumes "sigs_ok c r" "p \<in> fst ` set (agreeing sh r)"
  obtains s where "map_of (rn_peer_sigs r) p = Some s" "sig_verify c s p" "sg_slice_hash s = sh" "p \<in> set (rn_roster r)"
    "sg_bucket s = rn_bucket r" "sg_prev_block s = rn_prev_block r"
proof -
  from assms(2) obtain s where "(p, s) \<in> set (rn_peer_sigs r)" "sg_slice_hash s = sh" by (auto simp: agreeing_def)
  then show thesis using assms(1) that by (auto simp: sigs_ok_def)
qed

text \<open>
  C2: Agreement. Take any two runs of the round, of two nodes or of one, with the same roster,
  bucket and base, in which a block is ratified. Unless the two rounds together hold conflicting
  signatures of more members than the quorum rule tolerates, the two blocks have the same slice
  hash.
\<close>

theorem ratification_agreement:
  assumes "sign_correct c" "round_run c r" "round_run c r'" "distinct (rn_roster r)"
    and "rn_roster r' = rn_roster r" "rn_bucket r' = rn_bucket r" "rn_prev_block r' = rn_prev_block r"
    and "rn_ratified r = Some b" "rn_ratified r' = Some b'"
    and "card (double_signers c r r') \<le> tolerated (set (rn_roster r))"
  shows "block_slice_hash c b = block_slice_hash c b'"
proof (rule ccontr)
  let ?A = "fst ` set (agreeing (block_slice_hash c b) r)" and ?B = "fst ` set (agreeing (block_slice_hash c b') r')"
  assume neq: "block_slice_hash c b \<noteq> block_slice_hash c b'"
  have inv: "sigs_ok c r" "sigs_ok c r'" using round_run_inv[OF assms(1)] assms(2,3) by auto
  have "distinct (rn_roster r')" using assms(4,5) by simp
  then have "tolerated (set (rn_roster r)) < card (?A \<inter> ?B)"
    using ratified_quorum[OF assms(1,2,8,4)] ratified_quorum[OF assms(1,3,9)] assms(5)
    by (intro two_thirds.quorum_overlap) simp_all
  moreover have "?A \<inter> ?B \<subseteq> double_signers c r r'"
  proof
    fix p assume "p \<in> ?A \<inter> ?B"
    then have a: "p \<in> ?A" and b: "p \<in> ?B" by auto
    obtain s where s: "map_of (rn_peer_sigs r) p = Some s" "sig_verify c s p" "sg_slice_hash s = block_slice_hash c b"
        "p \<in> set (rn_roster r)" "sg_bucket s = rn_bucket r" "sg_prev_block s = rn_prev_block r"
      using agreeing_vote[OF inv(1) a] by blast
    obtain s' where s': "map_of (rn_peer_sigs r') p = Some s'" "sig_verify c s' p" "sg_slice_hash s' = block_slice_hash c b'"
        "sg_bucket s' = rn_bucket r'" "sg_prev_block s' = rn_prev_block r'"
      using agreeing_vote[OF inv(2) b] by blast
    show "p \<in> double_signers c r r'" using s s' neq assms(6,7) by (simp add: double_signers_def)
  qed
  then have "card (?A \<inter> ?B) \<le> card (double_signers c r r')" by (intro card_mono) (simp_all add: double_signers_def)
  ultimately show False using assms(10) by simp
qed

text \<open>A roster of one: the node cuts at the deadline and its own signature is a quorum.\<close>

definition alone :: "SignedTransaction list \<Rightarrow> Round res" where
  "alone bodies =
     (let c = sample []; me = replicate 32 7 in
      rbind (round_new c 4 me [kp_public c me] (replicate 32 0) 0 10 20) (\<lambda>r.
      rbind (add_local c bodies r) (round_tick c (\<lambda>_. Inr {}) 10)))"

lemma alone_runs: "alone bodies = Inr r \<Longrightarrow> round_run (sample []) r"
  unfolding alone_def Let_def rbind_Inr_conv by (blast intro: round_run.intros)

lemma quorum_one: "quorum_size 1 = Inr 1"
  by code_simp

lemma alone_ratifies:
  "\<exists>r s. alone bodies = Inr r \<and> rn_ratified r = Some \<lparr>bl_bucket = 4, bl_hashes = []\<rparr> \<and>
     rn_roster r = [kp_public (sample []) (replicate 32 7)] \<and> rn_bucket r = 4 \<and> rn_prev_block r = replicate 32 0 \<and>
     rn_peer_sigs r = [(kp_public (sample []) (replicate 32 7), s)] \<and> sg_slice_hash s = slice_set_hash (sample []) 4 {}"
  by (simp add: alone_def Let_def round_new_def quorum_one add_local_def push_def round_tick_def finalize_def
      batch_filter_def batch_hashes_def try_ratify_def agreeing_def sig_sign_def hashes_canonical_def bodies_canonical_def)

theorem ratification_agreement_witness:
  "\<exists>r r' b b'. alone [] = Inr r \<and> alone [soft_put] = Inr r' \<and> rn_ratified r = Some b \<and> rn_ratified r' = Some b' \<and>
     block_slice_hash (sample []) b = block_slice_hash (sample []) b'"
proof -
  let ?pk = "kp_public (sample []) (replicate 32 7)" and ?b = "\<lparr>bl_bucket = 4, bl_hashes = []\<rparr>"
  obtain r s r' s' where r: "alone [] = Inr r" "rn_ratified r = Some ?b" "rn_roster r = [?pk]" "rn_bucket r = 4"
      "rn_prev_block r = replicate 32 0" "rn_peer_sigs r = [(?pk, s)]" "sg_slice_hash s = slice_set_hash (sample []) 4 {}"
    and r': "alone [soft_put] = Inr r'" "rn_ratified r' = Some ?b" "rn_roster r' = [?pk]" "rn_bucket r' = 4"
      "rn_prev_block r' = replicate 32 0" "rn_peer_sigs r' = [(?pk, s')]" "sg_slice_hash s' = slice_set_hash (sample []) 4 {}"
    using alone_ratifies by metis
  have "double_signers (sample []) r r' = {}" using r r' by (auto simp: double_signers_def)
  then have "block_slice_hash (sample []) ?b = block_slice_hash (sample []) ?b"
    using r r' by (intro ratification_agreement[OF sample_sign_correct alone_runs[OF r(1)] alone_runs[OF r'(1)] _ _ _ _ r(2) r'(2)]) simp_all
  then show ?thesis using r(1,2) r'(1,2) by blast
qed

end
