(* ===== verification/Settle_Safety.thy ===== *)
theory Settle_Safety
  imports Round_Safety
begin

text \<open>
  Safety of the settle round: the multisignature a settle round assembles passes the check that
  followers and light clients make of a settled block, and two settle rounds for the same slice
  settle on the same anchors unless too many members sign twice.
\<close>

section \<open>Assembled multisignatures verify\<close>

lemma mapM_total: "(\<And>x. x \<in> set xs \<Longrightarrow> f x = Inr (g x)) \<Longrightarrow> mapM f xs = Inr (map g xs)"
  by (induction xs) auto

lemma ms_combine_verifies:
  assumes dist: "distinct (map fst shares)"
    and shares: "\<And>i s. (i, s) \<in> set shares \<Longrightarrow> 0 \<le> i \<and> i < int (length signers) \<and> pk_verify c (signers ! nat i) msg s"
  obtains ms where "ms_combine shares (length signers) = Inr ms" "ms_verify c ms msg signers = Inr True"
    "ms_indices ms (length signers) = Inr (filter (\<lambda>j. int j \<in> fst ` set shares) [0..<length signers])"
proof -
  let ?n = "length signers" and ?is = "sort (map fst shares)"
  let ?js = "filter (\<lambda>j. int j \<in> fst ` set shares) [0..<?n]"
  obtain bm where bm: "bitmap_set ?is ?n = Inr bm" "length bm = bitmap_size ?n" "bitmap_indices bm ?n = Inr ?js"
    using bitmap_set_indices[of ?is ?n] shares by force
  have look: "map_of shares i = Some s" if "(i, s) \<in> set shares" for i s using that dist by simp
  have sigs: "mapM (\<lambda>i. case map_of shares i of None \<Rightarrow> Inl KeyError | Some s \<Rightarrow> Inr s) ?is = Inr (map (\<lambda>i. the (map_of shares i)) ?is)"
    by (rule mapM_total) (auto dest!: look)
  have js: "map int ?js = ?is"
  proof (rule sorted_distinct_set_unique)
    have "sorted ?js" by (simp add: sorted_wrt_filter)
    then show "sorted (map int ?js)" by (rule sorted_map_mono) (simp add: mono_on_def)
    have "i \<in> int ` set ?js" if "i \<in> fst ` set shares" for i
    proof -
      have "0 \<le> i \<and> i < int ?n" using that shares by force
      then have "i = int (nat i)" "nat i \<in> set ?js" using that by auto
      then show ?thesis by blast
    qed
    then show "set (map int ?js) = set ?is" by auto
    show "distinct (map int ?js)" by (simp add: distinct_map)
  qed (use dist in simp_all)
  define ms where "ms = \<lparr>ms_bitmap = bm, ms_sigs = map (\<lambda>i. the (map_of shares i)) ?is\<rparr>"
  have comb: "ms_combine shares ?n = Inr ms" using bm(1) sigs by (simp add: ms_combine_def Let_def ms_def)
  have idx: "ms_indices ms ?n = Inr ?js" using bm(3) by (simp add: ms_indices_def ms_def)
  have eq: "ms_sigs ms = map (\<lambda>j. the (map_of shares (int j))) ?js" unfolding ms_def js[symmetric] by simp
  have "pk_verify c (signers ! j) msg (the (map_of shares (int j)))" if "j \<in> set ?js" for j
  proof -
    from that obtain s where s: "(int j, s) \<in> set shares" by auto
    then show ?thesis using shares[OF s] look[OF s] by simp
  qed
  then have "list_all (\<lambda>(j, s). pk_verify c (signers ! j) msg s) (zip ?js (ms_sigs ms))"
    unfolding eq zip_map2 by (auto simp: list_all_iff zip_same)
  moreover have "length (ms_sigs ms) = length ?js" using arg_cong[OF js, of length] by (simp add: ms_def)
  moreover have "length (ms_bitmap ms) = bitmap_size ?n" using bm(2) by (simp add: ms_def)
  ultimately have "ms_verify c ms msg signers = Inr True" using idx by (simp add: ms_verify_def)
  then show thesis using that comb idx by blast
qed

section \<open>Runs\<close>

inductive settle_run :: "prims \<Rightarrow> SettleRound \<Rightarrow> bool" for c where
  start: "settle_new c block me roster anchors abandon_by = Inr r \<Longrightarrow> settle_run c r"
| receive: "settle_run c r \<Longrightarrow> settle_receive c msg from r = Inr r' \<Longrightarrow> settle_run c r'"
| tick: "settle_run c r \<Longrightarrow> settle_run c (settle_tick now r)"
| drain: "settle_run c r \<Longrightarrow> settle_run c (snd (settle_outbox r))"

definition settle_shares_ok :: "prims \<Rightarrow> SettleRound \<Rightarrow> bool" where
  "settle_shares_ok c r \<longleftrightarrow>
     quorum_size (int (length (sr_roster r))) = Inr (sr_quorum r) \<and> sr_slice_hash r = block_slice_hash c (sr_block r) \<and>
     kp_public c (sr_me r) \<in> set (sr_roster r) \<and> distinct (map fst (sr_sigs r)) \<and>
     (\<forall>(p, s) \<in> set (sr_sigs r). p \<in> set (sr_roster r) \<and> pk_verify c p (settle_payload (sr_slice_hash r) (sr_anchors r)) s)"

definition settled_ok :: "SettleRound \<Rightarrow> bool" where
  "settled_ok r \<longleftrightarrow>
     (case sr_settled r of
        None \<Rightarrow> sr_state r \<noteq> SETTLED
      | Some sb \<Rightarrow> sr_state r = SETTLED \<and> sb_block sb = sr_block r \<and> sb_anchors sb = sr_anchors r \<and>
          sr_quorum r \<le> int (length (sr_sigs r)) \<and>
          ms_combine (settle_shares r) (length (sr_roster r) + 1) = Inr (sb_multisig sb))"

lemma try_settle_inv:
  assumes "settle_shares_ok c r" "sr_settled r = None" "sr_state r \<noteq> SETTLED" "try_settle r = Inr r'"
  shows "settle_shares_ok c r' \<and> settled_ok r'"
  using assms by (auto simp: try_settle_def rbind_Inr_conv settle_shares_ok_def settled_ok_def settle_shares_def split: if_splits)

lemma settle_start_inv:
  assumes "sign_correct c" "settle_new c block me roster anchors abandon_by = Inr r"
  shows "settle_shares_ok c r \<and> settled_ok r"
proof -
  let ?mine = "settle_sign c me (block_slice_hash c block) anchors"
  have mem: "kp_public c me \<in> set roster" using assms(2) by (rule contrapos_pp) (simp add: settle_new_def)
  then obtain q where q: "quorum_size (int (length roster)) = Inr q" and
    t: "try_settle \<lparr>sr_block = block, sr_me = me, sr_roster = roster, sr_quorum = q, sr_anchors = anchors,
          sr_slice_hash = block_slice_hash c block, sr_abandon_by = abandon_by, sr_sigs = [(kp_public c me, ss_sig ?mine)],
          sr_divergences = [], sr_outbox = [(ToAll, ?mine)], sr_state = COLLECTING, sr_settled = None\<rparr> = Inr r"
    using assms(2) unfolding settle_new_def Let_def rbind_Inr_conv by (simp add: rbind_Inr_conv) blast
  show ?thesis by (rule try_settle_inv[OF _ _ _ t]) (use assms(1) mem q in \<open>simp_all add: settle_shares_ok_def settle_sign_def\<close>)
qed

lemma settle_vote_ok:
  assumes "settle_shares_ok c r" "from \<in> set (sr_roster r)" "settle_sig_verify c msg from"
    "ss_slice_hash msg = sr_slice_hash r" "ss_anchors msg = sr_anchors r"
  shows "settle_shares_ok c (r\<lparr>sr_sigs := AList.update from (ss_sig msg) (sr_sigs r)\<rparr>)"
proof -
  have sub: "x \<in> set (AList.update from (ss_sig msg) (sr_sigs r)) \<Longrightarrow> x = (from, ss_sig msg) \<or> x \<in> set (sr_sigs r)" for x
    using set_alist_update[of "from" "ss_sig msg" "sr_sigs r"] by blast
  have "pk_verify c from (settle_payload (sr_slice_hash r) (sr_anchors r)) (ss_sig msg)"
    using assms(3-5) by (simp add: settle_sig_verify_def)
  then have "case x of (p, s) \<Rightarrow> p \<in> set (sr_roster r) \<and> pk_verify c p (settle_payload (sr_slice_hash r) (sr_anchors r)) s"
    if "x \<in> set (AList.update from (ss_sig msg) (sr_sigs r))" for x
    using sub[OF that] assms(1,2) unfolding settle_shares_ok_def by fastforce
  then show ?thesis using assms(1) by (simp add: settle_shares_ok_def distinct_update)
qed

lemma settle_receive_cases:
  assumes "settle_receive c msg from r = Inr r'"
  obtains "r' = r" | "r' = r\<lparr>sr_divergences := sr_divergences r @ [(from, ss_anchors msg)]\<rparr>"
    | "try_settle (r\<lparr>sr_sigs := AList.update from (ss_sig msg) (sr_sigs r)\<rparr>) = Inr r'" "from \<in> set (sr_roster r)"
      "settle_sig_verify c msg from" "ss_slice_hash msg = sr_slice_hash r" "ss_anchors msg = sr_anchors r" "sr_state r = COLLECTING"
proof (cases "from \<in> set (sr_roster r) \<and> from \<noteq> kp_public c (sr_me r) \<and> ss_slice_hash msg = sr_slice_hash r \<and> settle_sig_verify c msg from")
  case False
  then have "settle_receive c msg from r = Inr r" by (auto simp: settle_receive_def)
  then show thesis using assms that(1) by simp
next
  case True
  then have eq: "settle_receive c msg from r =
      (if ss_anchors msg \<noteq> sr_anchors r then Inr (r\<lparr>sr_divergences := sr_divergences r @ [(from, ss_anchors msg)]\<rparr>)
       else if sr_state r \<noteq> COLLECTING then Inr r
       else try_settle (r\<lparr>sr_sigs := AList.update from (ss_sig msg) (sr_sigs r)\<rparr>))"
    by (simp add: settle_receive_def)
  show thesis
  proof (cases "ss_anchors msg = sr_anchors r")
    case same: True
    show thesis
    proof (cases "sr_state r = COLLECTING")
      case st: True
      then have "try_settle (r\<lparr>sr_sigs := AList.update from (ss_sig msg) (sr_sigs r)\<rparr>) = Inr r'" using assms eq same by simp
      then show thesis using that(3) True same st by blast
    next
      case False
      then show thesis using assms eq same that(1) by simp
    qed
  next
    case False
    then show thesis using assms eq that(2) by simp
  qed
qed

lemma settle_inv_frame:
  assumes "settle_shares_ok c r \<and> settled_ok r" "sr_state r' = sr_state r \<or> sr_state r = COLLECTING \<and> sr_state r' = S_ABANDONED"
    and "sr_block r' = sr_block r" "sr_me r' = sr_me r" "sr_roster r' = sr_roster r" "sr_quorum r' = sr_quorum r"
      "sr_anchors r' = sr_anchors r" "sr_slice_hash r' = sr_slice_hash r" "sr_sigs r' = sr_sigs r" "sr_settled r' = sr_settled r"
  shows "settle_shares_ok c r' \<and> settled_ok r'"
  using assms(1,2) unfolding settle_shares_ok_def settled_ok_def settle_shares_def assms(3-)
  by (auto split: option.splits)

lemma settle_run_inv:
  assumes "sign_correct c" "settle_run c r"
  shows "settle_shares_ok c r \<and> settled_ok r"
  using assms(2)
proof induction
  case (start block me roster anchors abandon_by r)
  then show ?case using settle_start_inv[OF assms(1)] by blast
next
  case (receive r msg "from" r')
  from receive.hyps(2) show ?case
  proof (cases rule: settle_receive_cases)
    case 3
    have "sr_settled r = None" using receive.IH 3(6) by (auto simp: settled_ok_def split: option.splits)
    then show ?thesis using 3 receive.IH by (intro try_settle_inv[OF settle_vote_ok _ _ 3(1)]) simp_all
  qed (use receive.IH settle_inv_frame[OF receive.IH, of r'] in simp_all)
next
  case (tick r now)
  from tick.IH show ?case by (rule settle_inv_frame) (simp_all add: settle_tick_def)
next
  case (drain r)
  from drain.IH show ?case by (rule settle_inv_frame) (simp_all add: settle_outbox_def)
qed

section \<open>Settled blocks\<close>

lemma settle_shares_iff: "(i, s) \<in> set (settle_shares r) \<longleftrightarrow>
    (\<exists>k < length (sr_roster r). i = int k \<and> map_of (sr_sigs r) (sr_roster r ! k) = Some s)"
  by (force simp: settle_shares_def List.map_filter_def in_set_enumerate_eq image_iff)

lemma settle_shares_distinct: "distinct (map fst (settle_shares r))"
proof -
  have "map fst (settle_shares r) = map (int \<circ> fst) (filter (\<lambda>x. (\<lambda>(i, m). map_option (\<lambda>s. (int i, s)) (map_of (sr_sigs r) m)) x \<noteq> None) (enumerate 0 (sr_roster r)))"
    by (auto simp: settle_shares_def List.map_filter_def)
  moreover have "distinct (map fst (enumerate 0 (sr_roster r)))" by simp
  then have "distinct (map fst (filter Q (enumerate 0 (sr_roster r))))" for Q by (rule distinct_map_filter)
  ultimately show ?thesis by (simp add: map_map[symmetric] distinct_map inj_on_def del: map_map)
qed

text \<open>As many positions of the roster are set as members have signed.\<close>

lemma settle_slots:
  assumes "settle_shares_ok c r"
  shows "length (sr_sigs r) \<le> length (filter (\<lambda>j. int j \<in> fst ` set (settle_shares r)) [0..<length (sr_roster r)])"
proof -
  let ?J = "set (filter (\<lambda>j. int j \<in> fst ` set (settle_shares r)) [0..<length (sr_roster r)])"
  have "fst ` set (sr_sigs r) \<subseteq> (\<lambda>j. sr_roster r ! j) ` ?J"
  proof
    fix p assume "p \<in> fst ` set (sr_sigs r)"
    then obtain s where s: "(p, s) \<in> set (sr_sigs r)" by auto
    then have "map_of (sr_sigs r) p = Some s" using assms by (simp add: settle_shares_ok_def)
    moreover have "p \<in> set (sr_roster r)" using assms s by (auto simp: settle_shares_ok_def)
    then obtain k where k: "k < length (sr_roster r)" "sr_roster r ! k = p" by (auto simp: in_set_conv_nth)
    ultimately have "(int k, s) \<in> set (settle_shares r)" by (auto simp: settle_shares_iff)
    then have "k \<in> ?J" using k(1) by force
    then show "p \<in> (\<lambda>j. sr_roster r ! j) ` ?J" using k(2) by blast
  qed
  then have "card (fst ` set (sr_sigs r)) \<le> card ?J" using surj_card_le[of ?J] by blast
  moreover have "card (fst ` set (sr_sigs r)) = length (sr_sigs r)"
    using assms distinct_card[of "map fst (sr_sigs r)"] by (simp add: settle_shares_ok_def)
  moreover have "card ?J = length (filter (\<lambda>j. int j \<in> fst ` set (settle_shares r)) [0..<length (sr_roster r)])"
    by (rule distinct_card) simp
  ultimately show ?thesis by simp
qed

lemma settle_combine:
  assumes "settle_shares_ok c r"
  obtains ms where "ms_combine (settle_shares r) (length (sr_roster r) + 1) = Inr ms"
    "sr_quorum r \<le> int (length (sr_sigs r)) \<Longrightarrow>
       az_verify c \<lparr>az_multisig = ms, az_payload = settle_payload (sr_slice_hash r) (sr_anchors r), az_roster = sr_roster r, az_anchor = anchor\<rparr> = Inr True"
proof -
  let ?signers = "sr_roster r @ [anchor]" and ?n = "length (sr_roster r)"
  let ?P = "\<lambda>j. int j \<in> fst ` set (settle_shares r)"
  have share: "0 \<le> i \<and> i < int (length ?signers) \<and> pk_verify c (?signers ! nat i) (settle_payload (sr_slice_hash r) (sr_anchors r)) s"
    if m: "(i, s) \<in> set (settle_shares r)" for i s
  proof -
    obtain k where k: "k < ?n" "i = int k" "map_of (sr_sigs r) (sr_roster r ! k) = Some s"
      using m unfolding settle_shares_iff by blast
    then have "(sr_roster r ! k, s) \<in> set (sr_sigs r)" by (simp add: map_of_SomeD)
    then show ?thesis using k assms by (auto simp: settle_shares_ok_def nth_append)
  qed
  obtain ms where ms: "ms_combine (settle_shares r) (length ?signers) = Inr ms"
      "ms_verify c ms (settle_payload (sr_slice_hash r) (sr_anchors r)) ?signers = Inr True"
      "ms_indices ms (length ?signers) = Inr (filter ?P [0..<length ?signers])"
    by (rule ms_combine_verifies[OF settle_shares_distinct share]) blast+
  have "?n \<notin> set (filter ?P [0..<length ?signers])" by (auto simp: settle_shares_iff)
  moreover have "filter (\<lambda>i. i < ?n) (filter ?P [0..<length ?signers]) = filter ?P [0..<?n]"
    by (simp add: filter_filter conj_commute) (rule filter_cong, auto)
  moreover have "sr_roster r \<noteq> []" using assms by (auto simp: settle_shares_ok_def)
  ultimately have "az_verify c \<lparr>az_multisig = ms, az_payload = settle_payload (sr_slice_hash r) (sr_anchors r), az_roster = sr_roster r,
      az_anchor = anchor\<rparr> = Inr True" if "sr_quorum r \<le> int (length (sr_sigs r))"
    using ms settle_slots[OF assms] assms that by (auto simp: az_verify_def settle_shares_ok_def)
  then show thesis using that ms(1) by simp
qed

text \<open>
  A settle round never fails to assemble its multisignature, and the block it settles passes the
  authorisation check of the chain, with the roster of the round and any manager anchor.
\<close>

lemma settled_block_verifies:
  assumes "sign_correct c" "settle_run c r"
  shows "(\<exists>r'. settle_receive c msg from r = Inr r') \<and>
    (\<forall>sb. sr_settled r = Some sb \<longrightarrow>
       az_verify c \<lparr>az_multisig = sb_multisig sb, az_payload = settle_payload (block_slice_hash c (sb_block sb)) (sb_anchors sb),
         az_roster = sr_roster r, az_anchor = anchor\<rparr> = Inr True)"
proof -
  have inv: "settle_shares_ok c r" "settled_ok r" using settle_run_inv[OF assms] by auto
  have total: "\<exists>r'. settle_receive c msg from r = Inr r'"
  proof (cases "from \<in> set (sr_roster r) \<and> ss_slice_hash msg = sr_slice_hash r \<and> settle_sig_verify c msg from \<and> ss_anchors msg = sr_anchors r")
    case True
    let ?r = "r\<lparr>sr_sigs := AList.update from (ss_sig msg) (sr_sigs r)\<rparr>"
    have "settle_shares_ok c ?r" using settle_vote_ok[OF inv(1)] True by blast
    from settle_combine[OF this] obtain ms where "ms_combine (settle_shares ?r) (length (sr_roster ?r) + 1) = Inr ms" by metis
    then have "\<exists>r'. try_settle ?r = Inr r'" by (simp add: try_settle_def)
    then show ?thesis by (auto simp: settle_receive_def)
  qed (auto simp: settle_receive_def)
  have "az_verify c \<lparr>az_multisig = sb_multisig sb, az_payload = settle_payload (block_slice_hash c (sb_block sb)) (sb_anchors sb),
      az_roster = sr_roster r, az_anchor = anchor\<rparr> = Inr True" if "sr_settled r = Some sb" for sb
    using settle_combine[OF inv(1), of anchor] inv that by (auto simp: settled_ok_def settle_shares_ok_def)
  then show ?thesis using total by blast
qed

text \<open>A settle round of a roster of one, on the empty block.\<close>

definition sole_seed :: bytes where "sole_seed = replicate 32 7"

definition sole_anchors :: Anchors where
  "sole_anchors = \<lparr>an_block_num = 1, an_height = 0, an_prev_block = replicate 32 0, an_state_root = replicate 32 0,
     an_acc_state = ACC_IDENTITY, an_acc_log = ACC_IDENTITY\<rparr>"

definition sole_settle :: "int \<Rightarrow> SettleRound res" where
  "sole_settle abandon_by = settle_new (sample []) \<lparr>bl_bucket = 4, bl_hashes = []\<rparr> sole_seed [kp_public (sample []) sole_seed] sole_anchors abandon_by"

lemma sole_combine: "\<exists>ms. ms_combine [(0, s)] 2 = Inr ms"
  using bitmap_set_indices[of "[0]" 2] by (auto simp: ms_combine_def)

lemma sole_settles: "\<exists>r sb. sole_settle t = Inr r \<and> sr_settled r = Some sb \<and> sr_roster r = [kp_public (sample []) sole_seed] \<and>
    sb_block sb = \<lparr>bl_bucket = 4, bl_hashes = []\<rparr> \<and> sr_anchors r = sole_anchors"
proof -
  obtain ms where "ms_combine [(0, ss_sig (settle_sign (sample []) sole_seed
      (block_slice_hash (sample []) \<lparr>bl_bucket = 4, bl_hashes = []\<rparr>) sole_anchors))] 2 = Inr ms"
    using sole_combine by blast
  then show ?thesis
    by (simp add: sole_settle_def settle_new_def Let_def quorum_one try_settle_def settle_shares_def enumerate_Suc_eq map_filter_simps numeral_2_eq_2)
qed

lemma settled_quorum:
  assumes "sign_correct c" "settle_run c r" "sr_settled r = Some sb" "distinct (sr_roster r)"
  shows "enough (set (sr_roster r)) (fst ` set (sr_sigs r))"
proof (rule enough_votes[OF assms(4)])
  have inv: "settle_shares_ok c r" "settled_ok r" using settle_run_inv[OF assms(1,2)] by auto
  show "quorum_size (int (length (sr_roster r))) = Inr (sr_quorum r)" "distinct (map fst (sr_sigs r))"
    using inv(1) by (simp_all add: settle_shares_ok_def)
  show "sr_quorum r \<le> int (length (sr_sigs r))" using inv(2) assms(3) by (simp add: settled_ok_def)
  show "fst ` set (sr_sigs r) \<subseteq> set (sr_roster r)" using inv(1) by (auto simp: settle_shares_ok_def)
qed

text \<open>The members with verifying signatures in both rounds, on different anchors for the same slice.\<close>

definition double_settlers :: "prims \<Rightarrow> SettleRound \<Rightarrow> SettleRound \<Rightarrow> public_key set" where
  "double_settlers c r r' =
     {p \<in> set (sr_roster r). \<exists>s s'. map_of (sr_sigs r) p = Some s \<and> map_of (sr_sigs r') p = Some s' \<and>
        pk_verify c p (settle_payload (sr_slice_hash r) (sr_anchors r)) s \<and>
        pk_verify c p (settle_payload (sr_slice_hash r') (sr_anchors r')) s' \<and>
        sr_slice_hash r = sr_slice_hash r' \<and> sr_anchors r \<noteq> sr_anchors r'}"

lemma settle_vote:
  assumes "settle_shares_ok c r" "p \<in> fst ` set (sr_sigs r)"
  obtains s where "map_of (sr_sigs r) p = Some s" "pk_verify c p (settle_payload (sr_slice_hash r) (sr_anchors r)) s" "p \<in> set (sr_roster r)"
  using assms by (auto simp: settle_shares_ok_def)

text \<open>
  C3: Agreement on anchors. If two settle rounds of the same roster settle a block with the same
  slice, then the anchors they settle on, with the state root and both accumulators, are equal,
  unless the two rounds together hold signatures on both anchors of more members than the quorum
  rule tolerates.
\<close>

theorem settlement_agreement:
  assumes "sign_correct c" "settle_run c r" "settle_run c r'" "distinct (sr_roster r)" "sr_roster r' = sr_roster r"
    and "sr_settled r = Some sb" "sr_settled r' = Some sb'"
    and "block_slice_hash c (sb_block sb') = block_slice_hash c (sb_block sb)"
    and "card (double_settlers c r r') \<le> tolerated (set (sr_roster r))"
  shows "sb_anchors sb = sb_anchors sb'"
proof (rule ccontr)
  let ?A = "fst ` set (sr_sigs r)" and ?B = "fst ` set (sr_sigs r')"
  assume neq: "sb_anchors sb \<noteq> sb_anchors sb'"
  have inv: "settle_shares_ok c r" "settled_ok r" "settle_shares_ok c r'" "settled_ok r'"
    using settle_run_inv[OF assms(1)] assms(2,3) by auto
  have conflict: "sr_slice_hash r = sr_slice_hash r'" "sr_anchors r \<noteq> sr_anchors r'"
    using inv assms(6-8) neq by (simp_all add: settle_shares_ok_def settled_ok_def)
  have "distinct (sr_roster r')" using assms(4,5) by simp
  then have "tolerated (set (sr_roster r)) < card (?A \<inter> ?B)"
    using settled_quorum[OF assms(1,2,6,4)] settled_quorum[OF assms(1,3,7)] assms(5)
    by (intro two_thirds.quorum_overlap) simp_all
  moreover have "?A \<inter> ?B \<subseteq> double_settlers c r r'"
  proof
    fix p assume "p \<in> ?A \<inter> ?B"
    then have a: "p \<in> ?A" and b: "p \<in> ?B" by auto
    obtain s where s: "map_of (sr_sigs r) p = Some s" "pk_verify c p (settle_payload (sr_slice_hash r) (sr_anchors r)) s"
        "p \<in> set (sr_roster r)" by (rule settle_vote[OF inv(1) a])
    obtain s' where s': "map_of (sr_sigs r') p = Some s'" "pk_verify c p (settle_payload (sr_slice_hash r') (sr_anchors r')) s'"
      by (rule settle_vote[OF inv(3) b])
    show "p \<in> double_settlers c r r'" unfolding double_settlers_def using s s' conflict by blast
  qed
  then have "card (?A \<inter> ?B) \<le> card (double_settlers c r r')" by (intro card_mono) (simp_all add: double_settlers_def)
  ultimately show False using assms(9) by simp
qed

theorem settlement_agreement_witness:
  "\<exists>r sb r' sb'. sole_settle 20 = Inr r \<and> sr_settled r = Some sb \<and> sole_settle 30 = Inr r' \<and> sr_settled r' = Some sb' \<and>
     sb_anchors sb = sb_anchors sb'"
proof -
  obtain r sb where r: "sole_settle 20 = Inr r" "sr_settled r = Some sb" "sr_roster r = [kp_public (sample []) sole_seed]"
      "sb_block sb = \<lparr>bl_bucket = 4, bl_hashes = []\<rparr>" "sr_anchors r = sole_anchors"
    using sole_settles by blast
  obtain r' sb' where r': "sole_settle 30 = Inr r'" "sr_settled r' = Some sb'" "sr_roster r' = [kp_public (sample []) sole_seed]"
      "sb_block sb' = \<lparr>bl_bucket = 4, bl_hashes = []\<rparr>" "sr_anchors r' = sole_anchors"
    using sole_settles by blast
  have run: "settle_run (sample []) r" "settle_run (sample []) r'"
    using r(1) r'(1) unfolding sole_settle_def by (auto intro: settle_run.start)
  have "double_settlers (sample []) r r' = {}" using r(5) r'(5) by (simp add: double_settlers_def)
  then have "sb_anchors sb = sb_anchors sb'"
    using r r' by (intro settlement_agreement[OF sample_sign_correct run _ _ r(2) r'(2)]) simp_all
  then show ?thesis using r(1,2) r'(1,2) by blast
qed

end
