(* ===== verification/Round_Cut.thy ===== *)
theory Round_Cut
  imports Settle_Safety
begin

text \<open>
  What the cut of a round is: the largest set of transactions that a quorum of the members this
  node has heard from, and the node itself, all hold. And what becomes of the transactions of a
  round: each is in the slice or survives into the next round.
\<close>

section \<open>Combinations\<close>

lemma combinations_sound:
  "ys \<in> set (combinations xs k) \<Longrightarrow> length ys = k \<and> set ys \<subseteq> set xs \<and> (distinct xs \<longrightarrow> distinct ys)"
proof (induction xs k arbitrary: ys rule: combinations.induct)
  case (3 x xs k)
  then consider zs where "ys = x # zs" "zs \<in> set (combinations xs k)" | "ys \<in> set (combinations xs (Suc k))" by auto
  then show ?case
  proof cases
    case 1
    then show ?thesis using 3(1)[OF 1(2)] by auto
  next
    case 2
    then show ?thesis using 3(2)[OF 2] by auto
  qed
qed auto

lemma combinations_Cons: "ys \<in> set (combinations xs k) \<Longrightarrow> ys \<in> set (combinations (x # xs) k)"
  by (cases k; cases xs) auto

lemma combinations_complete:
  "distinct xs \<Longrightarrow> A \<subseteq> set xs \<Longrightarrow> filter (\<lambda>x. x \<in> A) xs \<in> set (combinations xs (card A))"
proof (induction xs arbitrary: A)
  case (Cons x xs)
  show ?case
  proof (cases "x \<in> A")
    case True
    have "finite A" using Cons.prems(2) by (rule finite_subset) simp
    then have k: "card A = Suc (card (A - {x}))" using True by (rule card.remove)
    have "distinct xs" "A - {x} \<subseteq> set xs" using Cons.prems by auto
    then have in_rest: "filter (\<lambda>y. y \<in> A - {x}) xs \<in> set (combinations xs (card (A - {x})))" by (rule Cons.IH)
    have "filter (\<lambda>y. y \<in> A) xs = filter (\<lambda>y. y \<in> A - {x}) xs" using Cons.prems(1) by (intro filter_cong) auto
    then have "filter (\<lambda>y. y \<in> A) (x # xs) = x # filter (\<lambda>y. y \<in> A - {x}) xs" using True by simp
    then show ?thesis unfolding k using in_rest by simp
  next
    case False
    have "distinct xs" "A \<subseteq> set xs" using Cons.prems False by auto
    then have "filter (\<lambda>y. y \<in> A) xs \<in> set (combinations xs (card A))" by (rule Cons.IH)
    then show ?thesis using False combinations_Cons by simp
  qed
qed simp

section \<open>The scan for the largest\<close>

lemma slice_scan_props:
  assumes "\<And>x. x \<in> set cands \<Longrightarrow> card x = m" "\<And>x. x \<in> set seen \<Longrightarrow> card x \<le> m" "cands = [] \<Longrightarrow> m = 0 \<and> seen = []"
    and "set cands \<subseteq> set seen"
  shows "set (slice_scan xs cands m) \<subseteq> set (seen @ xs) \<and> (seen @ xs \<noteq> [] \<longrightarrow> slice_scan xs cands m \<noteq> []) \<and>
    (\<forall>x \<in> set (slice_scan xs cands m). \<forall>y \<in> set (seen @ xs). card y \<le> card x)"
  using assms
proof (induction xs arbitrary: cands m seen)
  case Nil
  then show ?case by auto
next
  case (Cons z xs)
  obtain cs k where step: "slice_scan (z # xs) cands m = slice_scan xs cs k" and
    inv: "\<And>x. x \<in> set cs \<Longrightarrow> card x = k" "\<And>x. x \<in> set (seen @ [z]) \<Longrightarrow> card x \<le> k" "cs \<noteq> []" "set cs \<subseteq> set (seen @ [z])"
  proof -
    consider (less) "card z < m" | (more) "m < card z" | (same) "card z = m" by linarith
    then show thesis
    proof cases
      case less
      then show thesis using Cons.prems by (intro that[of cands m]) auto
    next
      case more
      then show thesis using Cons.prems by (intro that[of "[z]" "card z"]) (auto dest: Cons.prems(2))
    next
      case same
      then show thesis using Cons.prems by (intro that[of "if z \<in> set cands then cands else cands @ [z]" m]) (auto split: if_splits)
    qed
  qed
  have eq: "seen @ z # xs = (seen @ [z]) @ xs" by simp
  show ?case unfolding step eq by (rule Cons.IH) (use inv in simp_all)
qed

lemma min_by_in: "min_by f b xs \<in> set (b # xs)"
proof (induction xs arbitrary: b)
  case (Cons a xs)
  have "min_by f (if f a < f b then a else b) xs \<in> set ((if f a < f b then a else b) # xs)" by (rule Cons.IH)
  then show ?case by (auto split: if_splits)
qed simp

section \<open>The bodies of a round\<close>

text \<open>The dicts of a round have distinct keys, and its bodies are filed under their hashes.\<close>

definition dicts_ok :: "prims \<Rightarrow> Round \<Rightarrow> bool" where
  "dicts_ok c r \<longleftrightarrow> 0 < rn_quorum r \<and> distinct (map fst (rn_peer_holds r)) \<and>
     (\<forall>bodies. rn_local r = Some bodies \<longrightarrow> distinct (map fst bodies) \<and> (\<forall>(k, tx) \<in> set bodies. k = op_hash c tx))"

text \<open>Where the transactions of the round are, once it has cut.\<close>

definition fate_ok :: "prims \<Rightarrow> Round \<Rightarrow> bool" where
  "fate_ok c r \<longleftrightarrow>
     (case rn_local r of
        None \<Rightarrow> rn_state r = COLLECT
      | Some bodies \<Rightarrow>
         (rn_state r = FINALIZE \<or> rn_state r = GONE \<longrightarrow>
            canonical_batch c (rn_slice_bodies r) = rn_slice_bodies r \<and>
            set (rn_slice_bodies r) \<subseteq> snd ` set bodies \<and> rn_pending_slice r = op_hash c ` set (rn_slice_bodies r) \<and>
            set (rn_surviving r) = {tx \<in> snd ` set bodies. op_hash c tx \<notin> rn_pending_slice r}) \<and>
         (rn_state r = ABANDONED \<longrightarrow> set (rn_surviving r) = snd ` set bodies))"

abbreviation same_bodies :: "Round \<Rightarrow> Round \<Rightarrow> bool" where
  "same_bodies r r' \<equiv> rn_state r' = rn_state r \<and> rn_local r' = rn_local r \<and> rn_slice_bodies r' = rn_slice_bodies r \<and>
     rn_pending_slice r' = rn_pending_slice r \<and> rn_surviving r' = rn_surviving r \<and> rn_quorum r' = rn_quorum r"

lemma fate_ok_same: "same_bodies r r' \<Longrightarrow> fate_ok c r \<Longrightarrow> fate_ok c r'"
  by (simp add: fate_ok_def split: option.splits)

lemma dicts_ok_same: "same_bodies r r' \<Longrightarrow> distinct (map fst (rn_peer_holds r')) \<Longrightarrow> dicts_ok c r \<Longrightarrow> dicts_ok c r'"
  by (simp add: dicts_ok_def)

lemma push_loop_bodies: "push_loop c bodies to xs r send = (out, r') \<Longrightarrow> same_bodies r r' \<and> rn_peer_holds r' = rn_peer_holds r"
proof (induction xs arbitrary: r send)
  case (Cons x xs)
  obtain won r1 where e: "elected c x to r = (won, r1)" by (cases "elected c x to r")
  have "same_bodies r r1 \<and> rn_peer_holds r1 = rn_peer_holds r" using e by (auto simp: elected_def Let_def)
  moreover have "same_bodies r1 r' \<and> rn_peer_holds r' = rn_peer_holds r1" using Cons.IH Cons.prems e by simp
  ultimately show ?case by simp
qed simp

lemma push_missing_bodies: "same_bodies r (push_missing c to theirs r) \<and> rn_peer_holds (push_missing c to theirs r) = rn_peer_holds r"
proof (cases "rn_local r")
  case (Some bodies)
  let ?xs = "sort (filter (\<lambda>x. x \<notin> theirs) (remdups (map fst bodies)))"
  obtain send r1 where p: "push_loop c bodies to ?xs r [] = (send, r1)" by (cases "push_loop c bodies to ?xs r []")
  show ?thesis using Some p push_loop_bodies[OF p] by (simp add: push_missing_def push_def)
qed (simp add: push_missing_def)

lemma on_held_bodies: "same_bodies r (on_held c hs from r)"
  using push_missing_bodies[where r = "r\<lparr>rn_peer_holds := AList.update from hs (rn_peer_holds r)\<rparr>" and c = c and to = "from" and theirs = hs]
  by (simp add: on_held_def)

lemma on_held_dicts: "distinct (map fst (rn_peer_holds r)) \<Longrightarrow> distinct (map fst (rn_peer_holds (on_held c hs from r)))"
  using push_missing_bodies[where r = "r\<lparr>rn_peer_holds := AList.update from hs (rn_peer_holds r)\<rparr>" and c = c and to = "from" and theirs = hs]
  by (simp add: on_held_def distinct_update)

lemma by_hash_ok: "distinct (map fst (by_hash c txs)) \<and> (\<forall>(k, tx) \<in> set (by_hash c txs). k = op_hash c tx)"
proof -
  have "distinct (map fst (by_hash c txs))" by (simp add: by_hash_def distinct_dict_update)
  moreover have "k = op_hash c tx" if "map_of (by_hash c txs) k = Some tx" for k tx
    using that by (auto simp: by_hash_def map_of_dict_update dest!: map_of_SomeD)
  ultimately show ?thesis by auto
qed

lemma dict_update_ok:
  assumes "distinct (map fst a)" "\<forall>(k, tx) \<in> set a. k = f tx" "\<forall>(k, tx) \<in> set b. k = f tx"
  shows "distinct (map fst (dict_update a b)) \<and> (\<forall>(k, tx) \<in> set (dict_update a b). k = f tx)"
proof -
  have d: "distinct (map fst (dict_update a b))" using assms(1) by (rule distinct_dict_update)
  moreover have "k = f tx" if "map_of (dict_update a b) k = Some tx" for k tx
    using that assms(2,3) by (auto simp: map_of_dict_update map_add_Some_iff dest!: map_of_SomeD)
  ultimately show ?thesis by auto
qed

lemma try_ratify_bodies:
  "rn_local (try_ratify r) = rn_local r" "rn_slice_bodies (try_ratify r) = rn_slice_bodies r"
  "rn_pending_slice (try_ratify r) = rn_pending_slice r" "rn_surviving (try_ratify r) = rn_surviving r"
  "rn_peer_holds (try_ratify r) = rn_peer_holds r" "rn_quorum (try_ratify r) = rn_quorum r"
  "rn_state (try_ratify r) = rn_state r \<or> rn_state r = FINALIZE \<and> rn_state (try_ratify r) = GONE"
  by (simp_all add: try_ratify_def split: option.split)

lemma try_ratify_fate:
  assumes "dicts_ok c r" "fate_ok c r"
  shows "dicts_ok c (try_ratify r) \<and> fate_ok c (try_ratify r)"
  using assms try_ratify_bodies(7)[of r]
  by (auto simp: dicts_ok_def fate_ok_def try_ratify_bodies(1-6) split: option.splits)

lemma on_sig_fate:
  assumes "dicts_ok c r" "fate_ok c r"
  shows "dicts_ok c (on_sig c s from r) \<and> fate_ok c (on_sig c s from r)"
proof -
  have frame: "dicts_ok c (r\<lparr>rn_equivocations := e\<rparr>) \<and> fate_ok c (r\<lparr>rn_equivocations := e\<rparr>)"
      "dicts_ok c (r\<lparr>rn_peer_sigs := g\<rparr>) \<and> fate_ok c (r\<lparr>rn_peer_sigs := g\<rparr>)" for e g
    using assms by (simp_all add: dicts_ok_def fate_ok_def split: option.splits)
  then have "dicts_ok c (try_ratify (r\<lparr>rn_peer_sigs := g\<rparr>)) \<and> fate_ok c (try_ratify (r\<lparr>rn_peer_sigs := g\<rparr>))" for g
    using try_ratify_fate by blast
  then show ?thesis using frame(1) assms unfolding on_sig_def by (simp split: option.split)
qed

lemma finalize_fate:
  assumes "dicts_ok c r" "rn_state r = COLLECT" "fate_ok c r" "finalize c screen r = Inr r'"
  shows "dicts_ok c r' \<and> fate_ok c r'"
proof (cases "rn_local r")
  case None
  then show ?thesis using assms by (simp add: finalize_def)
next
  case (Some bodies)
  define candidate where "candidate = bodies_canonical c (map snd (filter (\<lambda>(k, _). k \<in> compute_slice c r (fst ` set bodies)) bodies))"
  obtain keep where keep: "screen candidate = Inr keep"
    using assms(4) Some by (auto simp: finalize_def Let_def rbind_Inr_conv candidate_def)
  define sliced where "sliced = batch_filter c candidate keep"
  define mine where "mine = sig_sign c (rn_me r) (rn_bucket r) (rn_prev_block r) (slice_set_hash c (rn_bucket r) (batch_hashes c sliced))"
  define r1 where "r1 = push ToAll (M_Sig mine) (r\<lparr>rn_slice_bodies := sliced, rn_my_sig := Some mine,
     rn_peer_sigs := AList.update (kp_public c (rn_me r)) mine (rn_peer_sigs r),
     rn_surviving := bodies_canonical c (filter (\<lambda>tx. op_hash c tx \<notin> batch_hashes c sliced) (map snd bodies)),
     rn_pending_slice := batch_hashes c sliced, rn_state := FINALIZE\<rparr>)"
  have r': "r' = try_ratify r1"
    using assms(4) Some keep by (simp add: finalize_def Let_def r1_def mine_def sliced_def candidate_def)
  have "set sliced \<subseteq> snd ` set bodies"
    by (auto simp: sliced_def batch_filter_def candidate_def bodies_canonical_def)
  moreover have "canonical_batch c sliced = sliced"
    by (simp add: sliced_def batch_filter_def canonical_batch_def sort_key_id_if_sorted)
  ultimately have "fate_ok c r1" using Some by (auto simp: fate_ok_def r1_def push_def batch_hashes_def bodies_canonical_def)
  moreover have "dicts_ok c r1" using assms(1) by (simp add: dicts_ok_def r1_def push_def)
  ultimately show ?thesis unfolding r' by (intro try_ratify_fate)
qed

lemma absorb_fate:
  assumes "dicts_ok c r" "fate_ok c r"
  shows "dicts_ok c (round_absorb c bucket prev from txs r) \<and> fate_ok c (round_absorb c bucket prev from txs r)"
proof (cases "rn_local r")
  case None
  then show ?thesis using assms by (simp add: round_absorb_def dicts_ok_def fate_ok_def)
next
  case (Some bodies)
  define fresh where "fresh = by_hash c (filter (\<lambda>tx. op_hash c tx \<notin> fst ` set bodies) txs)"
  have upd: "distinct (map fst (dict_update bodies fresh)) \<and> (\<forall>(k, tx) \<in> set (dict_update bodies fresh). k = op_hash c tx)"
    using assms(1) Some by_hash_ok by (intro dict_update_ok) (auto simp: dicts_ok_def fresh_def)
  have eq: "round_absorb c bucket prev from txs r =
      (if bucket \<noteq> rn_bucket r \<or> from \<notin> set (rn_roster r) then r
       else if prev \<noteq> rn_prev_block r then r\<lparr>rn_divergences := rn_divergences r @ [(from, prev)]\<rparr>
       else if rn_state r \<noteq> COLLECT \<or> fresh = [] then r
       else push ToAll (held_msg r (dict_update bodies fresh)) (r\<lparr>rn_local := Some (dict_update bodies fresh)\<rparr>))"
    using Some by (simp add: round_absorb_def Let_def fresh_def)
  have "dicts_ok c (r\<lparr>rn_divergences := d\<rparr>) \<and> fate_ok c (r\<lparr>rn_divergences := d\<rparr>)" for d
    using assms by (simp add: dicts_ok_def fate_ok_def split: option.splits)
  moreover have "dicts_ok c (push ToAll m (r\<lparr>rn_local := Some (dict_update bodies fresh)\<rparr>)) \<and>
      fate_ok c (push ToAll m (r\<lparr>rn_local := Some (dict_update bodies fresh)\<rparr>))" if "rn_state r = COLLECT" for m
    using upd assms that by (simp add: push_def dicts_ok_def fate_ok_def)
  ultimately show ?thesis using assms unfolding eq by simp
qed

lemma abandon_fate:
  assumes "dicts_ok c r" "fate_ok c r"
  shows "dicts_ok c (abandon c r) \<and> fate_ok c (abandon c r)"
  using assms by (cases "rn_local r") (simp_all add: abandon_def dicts_ok_def fate_ok_def bodies_canonical_def)

lemma quorum_positive: "quorum_size n = Inr q \<Longrightarrow> 0 < q"
  by (auto simp: quorum_size_def split: if_splits)

lemma round_run_bodies:
  assumes "round_run c r"
  shows "dicts_ok c r \<and> fate_ok c r"
  using assms
proof induction
  case (start bucket me roster prev now close_by abandon_by r)
  then show ?case
    by (auto simp: round_new_def rbind_Inr_conv dicts_ok_def fate_ok_def dest: quorum_positive split: if_splits)
next
  case (local r bodies r')
  then have st: "rn_state r = COLLECT" and r': "r' = push ToAll (held_msg r (by_hash c bodies)) (r\<lparr>rn_local := Some (by_hash c bodies)\<rparr>)"
    by (auto simp: add_local_def Let_def split: if_splits)
  then show ?case using local.IH by_hash_ok[of c bodies] by (simp add: r' push_def dicts_ok_def fate_ok_def)
next
  case (receive r msg "from" now r')
  define r1 where "r1 = r\<lparr>rn_now := now\<rparr>"
  have inv: "dicts_ok c r1" "fate_ok c r1"
    using receive.IH fate_ok_same[where r = r and r' = r1 and c = c] by (simp_all add: r1_def dicts_ok_def)
  have div: "dicts_ok c (r1\<lparr>rn_divergences := d\<rparr>) \<and> fate_ok c (r1\<lparr>rn_divergences := d\<rparr>)" for d
    using inv by (simp add: dicts_ok_def fate_ok_def split: option.splits)
  have held: "dicts_ok c (on_held c hs from r1) \<and> fate_ok c (on_held c hs from r1)" for hs
    using on_held_bodies[where r = r1 and c = c and hs = hs and ?from = "from"]
      on_held_dicts[where r = r1 and c = c and hs = hs and ?from = "from"] inv
      dicts_ok_same[where r = r1 and c = c and r' = "on_held c hs from r1"] fate_ok_same[where r = r1 and c = c and r' = "on_held c hs from r1"]
    by (simp add: dicts_ok_def)
  have "r' = (if msg_bucket msg \<noteq> rn_bucket r1 then r1 else if from \<notin> set (rn_roster r1) then r1
      else if msg_prev_block msg \<noteq> rn_prev_block r1 then r1\<lparr>rn_divergences := rn_divergences r1 @ [(from, msg_prev_block msg)]\<rparr>
      else case msg of M_Held _ _ hashes \<Rightarrow> on_held c hashes from r1 | M_Sig s \<Rightarrow> on_sig c s from r1 | M_Bodies _ _ _ \<Rightarrow> r1)"
    using receive.hyps(2) unfolding round_receive_def Let_def r1_def[symmetric] by (auto split: if_splits)
  then show ?case using inv div held on_sig_fate[OF inv, where ?from = "from"] by (cases msg) simp_all
next
  case (absorb r bucket prev "from" txs)
  then show ?case using absorb_fate by blast
next
  case (tick r screen now r')
  define r1 where "r1 = r\<lparr>rn_now := now\<rparr>"
  have inv: "dicts_ok c r1" "fate_ok c r1"
    using tick.IH fate_ok_same[where r = r and r' = r1 and c = c] by (simp_all add: r1_def dicts_ok_def)
  let ?fin = "if rn_state r1 = COLLECT \<and> rn_local r1 \<noteq> None \<and> now \<ge> rn_close_by r1 then finalize c screen r1 else Inr r1"
  have "rbind ?fin (\<lambda>r2. Inr (if rn_state r2 = FINALIZE \<and> now \<ge> rn_abandon_by r2 then abandon c r2 else r2)) = Inr r'"
    using tick.hyps(2) unfolding round_tick_def Let_def r1_def[symmetric] by (meson Inl_Inr_False)
  then obtain r2 where r2: "?fin = Inr r2" "r' = (if rn_state r2 = FINALIZE \<and> now \<ge> rn_abandon_by r2 then abandon c r2 else r2)"
    unfolding rbind_Inr_conv by blast
  have "dicts_ok c r2 \<and> fate_ok c r2"
    using r2(1) inv finalize_fate[OF inv(1) _ inv(2)] by (auto split: if_splits)
  then show ?case using r2(2) abandon_fate by simp
next
  case (drain r)
  then show ?case by (simp add: round_outbox_def dicts_ok_def fate_ok_def split: option.splits)
qed

section \<open>What the cut is\<close>

text \<open>The local transactions that all members of \<open>Q\<close> hold.\<close>

definition held_by :: "(public_key \<times> digest set) list \<Rightarrow> digest set \<Rightarrow> public_key set \<Rightarrow> digest set" where
  "held_by holdings local Q = {x \<in> local. \<forall>p \<in> Q. \<exists>hs. map_of holdings p = Some hs \<and> x \<in> hs}"

lemma combo_inter_eq: "combo_inter holdings local combo = held_by holdings local (set combo)"
proof (induction combo arbitrary: local)
  case (Cons p combo)
  have "combo_inter holdings local (p # combo) =
      combo_inter holdings (local \<inter> (case map_of holdings p of None \<Rightarrow> {} | Some s \<Rightarrow> s)) combo"
    by (simp add: combo_inter_def)
  then show ?case unfolding Cons by (auto simp: held_by_def split: option.splits)
qed (simp add: combo_inter_def held_by_def)

lemma all_holdings_distinct:
  assumes "dicts_ok c r"
  shows "distinct (map fst (all_holdings c r))"
  using assms by (auto simp: dicts_ok_def all_holdings_def distinct_update split: option.split)

text \<open>
  C21: The cut is the largest set of its transactions that a quorum holds. In every run of a round,
  the slice a node computes from its own transactions is held by the node itself and by a quorum's
  worth of the members it has heard from, and no quorum of them holds more of its transactions in
  common; with too few members heard from, it is empty.
\<close>

theorem cut_is_largest_quorum_holding:
  assumes "round_run c r" "finite local"
  defines "S \<equiv> compute_slice c r local" and "H \<equiv> all_holdings c r" and "q \<equiv> nat (rn_quorum r)"
  shows "S \<subseteq> local \<and>
    (length H < q \<longrightarrow> S = {}) \<and>
    (q \<le> length H \<longrightarrow> (\<exists>Q. Q \<subseteq> fst ` set H \<and> card Q = q \<and> S = held_by H local Q)) \<and>
    (\<forall>Q. Q \<subseteq> fst ` set H \<and> card Q = q \<longrightarrow> card (held_by H local Q) \<le> card S)"
proof (cases "length H < q")
  case True
  then have "int (length H) < rn_quorum r" by (simp add: q_def zless_nat_eq_int_zless)
  then have "S = {}" by (simp add: S_def compute_slice_def H_def Let_def)
  moreover have "\<not> (Q \<subseteq> fst ` set H \<and> card Q = q)" for Q
  proof
    assume "Q \<subseteq> fst ` set H \<and> card Q = q"
    then have "q \<le> card (fst ` set H)" using card_mono[of "fst ` set H" Q] by simp
    also have "\<dots> \<le> length H" using card_length[of "map fst H"] by simp
    finally show False using True by simp
  qed
  ultimately show ?thesis using True by auto
next
  case False
  let ?keys = "sort (map fst H)"
  let ?inters = "map (combo_inter H local) (combinations ?keys q)"
  have d: "dicts_ok c r" using round_run_bodies[OF assms(1)] by simp
  have keys: "distinct ?keys" using all_holdings_distinct[OF d] by (simp add: H_def)
  have len: "card (fst ` set H) = length H" using distinct_card[of "map fst H"] keys by simp
  obtain Q0 where Q0: "Q0 \<subseteq> fst ` set H" "card Q0 = q"
    using False len by (metis not_less obtain_subset_with_card_n)
  have member: "held_by H local Q \<in> set ?inters" if "Q \<subseteq> fst ` set H" "card Q = q" for Q
  proof -
    have mem: "filter (\<lambda>p. p \<in> Q) ?keys \<in> set (combinations ?keys q)"
      using combinations_complete[OF keys, of Q] that by simp
    have "set (filter (\<lambda>p. p \<in> Q) ?keys) = Q" using that(1) by auto
    then have "held_by H local Q = combo_inter H local (filter (\<lambda>p. p \<in> Q) ?keys)" unfolding combo_inter_eq by simp
    then show ?thesis unfolding list.set_map using mem by (rule image_eqI)
  qed
  have scan: "set (slice_scan ?inters [] 0) \<subseteq> set ?inters" "slice_scan ?inters [] 0 \<noteq> []"
      "\<And>x y. x \<in> set (slice_scan ?inters [] 0) \<Longrightarrow> y \<in> set ?inters \<Longrightarrow> card y \<le> card x"
    using slice_scan_props[of "[]" 0 "[]" ?inters] member[OF Q0] by auto
  have "\<not> int (length H) < rn_quorum r" using False by (simp add: q_def zless_nat_eq_int_zless)
  then have "S = (case slice_scan ?inters [] 0 of [] \<Rightarrow> {} | x # xs \<Rightarrow> min_by (slice_set_hash c (rn_bucket r)) x xs)"
    by (simp add: S_def compute_slice_def H_def[symmetric] q_def Let_def)
  then have "S \<in> set (slice_scan ?inters [] 0)"
    using scan(2) min_by_in[of "slice_set_hash c (rn_bucket r)"] by (cases "slice_scan ?inters [] 0") auto
  moreover from this obtain combo where combo: "combo \<in> set (combinations ?keys q)" "S = held_by H local (set combo)"
    using scan(1) combo_inter_eq by auto
  moreover have "set combo \<subseteq> fst ` set H" "card (set combo) = q"
    using combinations_sound[OF combo(1)] keys distinct_card by auto
  ultimately show ?thesis using False scan(3) member by (auto simp: held_by_def)
qed

lemma alone_open: "\<exists>r. round_new (sample []) 4 (replicate 32 7) [kp_public (sample []) (replicate 32 7)] (replicate 32 0) 0 10 20 = Inr r \<and>
    rn_quorum r = 1 \<and> rn_local r = None \<and> rn_peer_holds r = []"
  by (simp add: round_new_def quorum_one)

text \<open>The witness: a roster of one holding one transaction cuts exactly that transaction.\<close>

theorem cut_is_largest_quorum_holding_witness:
  "\<exists>r. round_run (sample []) r \<and> rn_quorum r = 1 \<and> all_holdings (sample []) r = [(kp_public (sample []) (replicate 32 7), {op_hash (sample []) soft_put})] \<and>
     compute_slice (sample []) r {op_hash (sample []) soft_put} = {op_hash (sample []) soft_put}"
proof -
  let ?c = "sample []" and ?x = "op_hash (sample []) soft_put" and ?pk = "kp_public (sample []) (replicate 32 7)"
  obtain r0 where r0: "round_new ?c 4 (replicate 32 7) [?pk] (replicate 32 0) 0 10 20 = Inr r0" "rn_quorum r0 = 1" "rn_local r0 = None"
      "rn_peer_holds r0 = []" using alone_open by blast
  then have "rn_state r0 = COLLECT" "rn_me r0 = replicate 32 7" by (auto simp: round_new_def quorum_one)
  then obtain r where r: "add_local ?c [soft_put] r0 = Inr r" "rn_quorum r = 1" "rn_local r = Some [(?x, soft_put)]" "rn_peer_holds r = []"
      "rn_me r = replicate 32 7"
    using r0 by (simp add: add_local_def push_def by_hash_def dict_update_def Let_def)
  have run: "round_run ?c r" by (rule round_run.local[OF round_run.start[OF r0(1)] r(1)])
  have H: "all_holdings ?c r = [(?pk, {?x})]" using r by (simp add: all_holdings_def)
  have "held_by [(?pk, {?x})] {?x} {?pk} = {?x}" by (auto simp: held_by_def)
  then have "card {?x} \<le> card (compute_slice ?c r {?x}) \<and> compute_slice ?c r {?x} \<subseteq> {?x}"
    using cut_is_largest_quorum_holding[OF run, of "{?x}"] r(2) by (auto simp: H)
  then have "compute_slice ?c r {?x} = {?x}" by (auto simp: subset_singleton_iff)
  then show ?thesis using run r(2) H by blast
qed

text \<open>
  C22: A round loses no transaction and settles none that it did not hold. When a round has
  ratified a block, the hashes of the block are those of its slice bodies, every transaction it held
  is in the slice or survives, and none is both; when it was abandoned, everything it held survives.
  A round that is over always has its transactions.
\<close>

theorem round_loses_nothing:
  assumes "sign_correct c" "round_run c r" "rn_state r = GONE \<or> rn_state r = ABANDONED"
  shows "\<exists>bodies. rn_local r = Some bodies \<and> round_surviving r = Inr (rn_surviving r) \<and>
    (\<forall>b. rn_ratified r = Some b \<longrightarrow>
       rn_state r = GONE \<and> round_slice_bodies r = Inr (rn_slice_bodies r) \<and>
       bl_hashes b = sorted_list_of_set (op_hash c ` set (rn_slice_bodies r)) \<and>
       snd ` set bodies = set (rn_slice_bodies r) \<union> set (rn_surviving r) \<and>
       op_hash c ` set (rn_slice_bodies r) \<inter> op_hash c ` set (rn_surviving r) = {}) \<and>
    (rn_state r = ABANDONED \<longrightarrow> set (rn_surviving r) = snd ` set bodies)"
proof -
  have inv: "dicts_ok c r" "fate_ok c r" "cut_ok c r"
    using round_run_bodies[OF assms(2)] round_run_inv[OF assms(1,2)] by auto
  obtain bodies where l: "rn_local r = Some bodies" using inv(2) assms(3) by (auto simp: fate_ok_def split: option.splits)
  have uniq: "tx = tx'" if "tx \<in> snd ` set bodies" "tx' \<in> snd ` set bodies" "op_hash c tx = op_hash c tx'" for tx tx'
  proof -
    have filed: "(op_hash c t, t) \<in> set bodies" if t: "t \<in> snd ` set bodies" for t
    proof -
      from t obtain k where k: "(k, t) \<in> set bodies" by auto
      have all: "\<forall>(k, tx) \<in> set bodies. k = op_hash c tx" using inv(1) l by (simp add: dicts_ok_def)
      have "k = op_hash c t" using bspec[OF all k] by simp
      then show ?thesis using k by simp
    qed
    have d: "distinct (map fst bodies)" using inv(1) l by (simp add: dicts_ok_def)
    have "Some tx = Some tx'"
      using map_of_is_SomeI[OF d filed[OF that(1)]] map_of_is_SomeI[OF d filed[OF that(2)]] that(3) by metis
    then show ?thesis by (rule option.inject[THEN iffD1])
  qed
  have "rn_state r = GONE \<and> bl_hashes b = sorted_list_of_set (op_hash c ` set (rn_slice_bodies r)) \<and>
      snd ` set bodies = set (rn_slice_bodies r) \<union> set (rn_surviving r) \<and>
      op_hash c ` set (rn_slice_bodies r) \<inter> op_hash c ` set (rn_surviving r) = {}" if b: "rn_ratified r = Some b" for b
  proof -
    have gone: "rn_state r = GONE" and h: "bl_hashes b = sorted_list_of_set (rn_pending_slice r)" using inv(3) b by (auto simp: cut_ok_def)
    have f: "set (rn_slice_bodies r) \<subseteq> snd ` set bodies" "rn_pending_slice r = op_hash c ` set (rn_slice_bodies r)"
        "set (rn_surviving r) = {tx \<in> snd ` set bodies. op_hash c tx \<notin> rn_pending_slice r}"
      using inv(2) l gone by (simp_all add: fate_ok_def)
    have sliced: "tx \<in> set (rn_slice_bodies r)" if tx: "tx \<in> snd ` set bodies" "op_hash c tx \<in> rn_pending_slice r" for tx
    proof -
      from tx(2) obtain tx' where tx': "tx' \<in> set (rn_slice_bodies r)" "op_hash c tx = op_hash c tx'" unfolding f(2) by blast
      then have "tx = tx'" using uniq[OF tx(1)] f(1) by blast
      then show ?thesis using tx'(1) by simp
    qed
    have "snd ` set bodies = set (rn_slice_bodies r) \<union> set (rn_surviving r)" unfolding f(3) using sliced f(1) by blast
    moreover have "op_hash c ` set (rn_slice_bodies r) \<inter> op_hash c ` set (rn_surviving r) = {}" unfolding f(2)[symmetric] f(3) by blast
    ultimately show ?thesis using gone h f(2) by simp
  qed
  moreover have "rn_state r = ABANDONED \<longrightarrow> set (rn_surviving r) = snd ` set bodies" using inv(2) l by (simp add: fate_ok_def)
  moreover have "round_surviving r = Inr (rn_surviving r)" using assms(3) by (auto simp: round_surviving_def)
  ultimately show ?thesis using l by (intro exI[of _ bodies]) (simp add: round_slice_bodies_def)
qed

theorem round_loses_nothing_witness:
  "\<exists>r bodies. alone [soft_put] = Inr r \<and> rn_local r = Some bodies \<and> rn_ratified r \<noteq> None \<and>
     snd ` set bodies = set (rn_slice_bodies r) \<union> set (rn_surviving r)"
proof -
  obtain r where r: "alone [soft_put] = Inr r" "rn_ratified r = Some \<lparr>bl_bucket = 4, bl_hashes = []\<rparr>" using alone_ratifies by blast
  have run: "round_run (sample []) r" by (rule alone_runs[OF r(1)])
  then have "rn_state r = GONE" using round_run_inv[OF sample_sign_correct run] r(2) by (simp add: cut_ok_def)
  with round_loses_nothing[OF sample_sign_correct run] r show ?thesis by auto
qed

end
