(* ===== verification/Chain.thy ===== *)
theory Chain
  imports Round_Cut Tunables
begin

text \<open>
  \<^verbatim>\<open>dude/sync/chain.py\<close>: walking settled blocks from a known tip, and how far behind a
  head is. A follower and a light client both trust a block only through \<open>advance\<close>.
\<close>

definition NO_BUCKET :: int where "NO_BUCKET = -1"

datatype ChainRefusal = CR_INVALID | NOTHING_TO_WALK | BROKEN_LINK | UNAUTHORISED

definition block_authorization :: "prims \<Rightarrow> SettledBlock \<Rightarrow> public_key list \<Rightarrow> public_key \<Rightarrow> Authorization" where
  "block_authorization c b roster anchor =
     \<lparr>az_multisig = sb_multisig b, az_payload = settle_payload (block_slice_hash c (sb_block b)) (sb_anchors b),
      az_roster = roster, az_anchor = anchor\<rparr>"

text \<open>The loop of \<^verbatim>\<open>advance\<close>, with the head reached so far.\<close>

fun advance_loop ::
  "prims \<Rightarrow> public_key list \<Rightarrow> public_key \<Rightarrow> SettledBlock list \<Rightarrow> digest \<Rightarrow> SettledBlock option \<Rightarrow> (ChainRefusal + SettledBlock) res" where
  "advance_loop c roster anchor [] prev head = (case head of None \<Rightarrow> Inl InvariantError | Some b \<Rightarrow> Inr (Inr b))"
| "advance_loop c roster anchor (b # bs) prev head =
     (if an_prev_block (sb_anchors b) \<noteq> prev then Inr (Inl BROKEN_LINK)
      else rbind (az_verify c (block_authorization c b roster anchor)) (\<lambda>good.
        if \<not> good then Inr (Inl UNAUTHORISED)
        else advance_loop c roster anchor bs (block_hash c b) (Some b)))"

definition advance ::
  "prims \<Rightarrow> digest \<Rightarrow> SettledBlock list \<Rightarrow> public_key list \<Rightarrow> public_key \<Rightarrow> (ChainRefusal + SettledBlock) res" where
  "advance c from_hash blocks roster anchor =
     (if blocks = [] then Inr (Inl NOTHING_TO_WALK) else advance_loop c roster anchor blocks from_hash None)"

definition buckets_behind :: "int \<Rightarrow> int \<Rightarrow> Tunables \<Rightarrow> int" where
  "buckets_behind head_bucket now t = bucket_of t now - windows_to_settle t - head_bucket"

definition is_stale :: "int \<Rightarrow> int \<Rightarrow> Tunables \<Rightarrow> bool" where
  "is_stale head_bucket now t = (buckets_behind head_bucket now t > skew_buckets t)"

section \<open>What an accepted chain is\<close>

text \<open>Each block names the hash of the one before it.\<close>

fun linked :: "prims \<Rightarrow> digest \<Rightarrow> SettledBlock list \<Rightarrow> bool" where
  "linked c prev [] \<longleftrightarrow> True"
| "linked c prev (b # bs) \<longleftrightarrow> an_prev_block (sb_anchors b) = prev \<and> linked c (block_hash c b) bs"

text \<open>The manager, or a quorum of the positions of the roster, signed the slice and the anchors of the block.\<close>

definition endorsed :: "prims \<Rightarrow> public_key list \<Rightarrow> public_key \<Rightarrow> SettledBlock \<Rightarrow> bool" where
  "endorsed c roster anchor b \<longleftrightarrow>
     (let payload = settle_payload (block_slice_hash c (sb_block b)) (sb_anchors b); sigs = set (ms_sigs (sb_multisig b)) in
      (\<exists>sg \<in> sigs. pk_verify c anchor payload sg) \<or>
      (\<exists>I q. I \<subseteq> {..<length roster} \<and> quorum_size (int (length roster)) = Inr q \<and> q \<le> int (card I) \<and>
         (\<forall>i \<in> I. \<exists>sg \<in> sigs. pk_verify c (roster ! i) payload sg)))"

lemma quorum_size_total: "0 < n \<Longrightarrow> \<exists>q. quorum_size n = Inr q"
  by (simp add: quorum_size_def)

lemma az_verify_total: "\<exists>b. az_verify c a = Inr b"
proof -
  let ?signers = "az_roster a @ [az_anchor a]"
  obtain good where good: "ms_verify c (az_multisig a) (az_payload a) ?signers = Inr good" using ms_verify_total by blast
  show ?thesis
  proof (cases good)
    case True
    then obtain idxs where "ms_indices (az_multisig a) (length ?signers) = Inr idxs"
      using ms_verify_True good by metis
    moreover have "az_roster a \<noteq> [] \<Longrightarrow> \<exists>q. quorum_size (int (length (az_roster a))) = Inr q"
      by (rule quorum_size_total) simp
    ultimately show ?thesis using good by (auto simp: az_verify_def Let_def)
  qed (use good in \<open>auto simp: az_verify_def Let_def\<close>)
qed

lemma az_verify_endorsed:
  assumes "az_verify c (block_authorization c b roster anchor) = Inr True"
  shows "endorsed c roster anchor b"
proof -
  let ?payload = "settle_payload (block_slice_hash c (sb_block b)) (sb_anchors b)" and ?ms = "sb_multisig b"
  let ?signers = "roster @ [anchor]" and ?n = "length roster"
  obtain good where good: "ms_verify c ?ms ?payload ?signers = Inr good" using ms_verify_total by blast
  with assms have good': "ms_verify c ?ms ?payload ?signers = Inr True"
    by (cases good) (auto simp: az_verify_def block_authorization_def Let_def)
  then obtain idxs where i: "ms_indices ?ms (length ?signers) = Inr idxs" "distinct idxs" "set idxs \<subseteq> {..<length ?signers}"
      and v: "\<forall>i \<in> set idxs. \<exists>sg \<in> set (ms_sigs ?ms). pk_verify c (?signers ! i) ?payload sg"
    by (rule ms_verify_True) blast
  show ?thesis
  proof (cases "?n \<in> set idxs")
    case True
    then have "\<exists>sg \<in> set (ms_sigs ?ms). pk_verify c anchor ?payload sg" using bspec[OF v True] by simp
    then show ?thesis by (simp add: endorsed_def Let_def)
  next
    case False
    let ?low = "filter (\<lambda>i. i < ?n) idxs"
    obtain q where q: "quorum_size (int ?n) = Inr q" "q \<le> int (length ?low)"
      using assms good' i(1) False by (auto simp: az_verify_def block_authorization_def Let_def rbind_Inr_conv split: if_splits)
    have "card (set ?low) = length ?low" by (rule distinct_card) (use i(2) in simp)
    moreover have "\<exists>sg \<in> set (ms_sigs ?ms). pk_verify c (roster ! j) ?payload sg" if "j \<in> set ?low" for j
    proof -
      have j: "j \<in> set idxs" "j < ?n" using that by auto
      then show ?thesis using bspec[OF v j(1)] by (simp add: nth_append)
    qed
    ultimately show ?thesis unfolding endorsed_def Let_def using q by (intro disjI2 exI[of _ "set ?low"] exI[of _ q]) auto
  qed
qed

lemma advance_loop_iff:
  "advance_loop c roster anchor bs prev (Some hd0) = Inr (Inr head) \<longleftrightarrow>
     linked c prev bs \<and> (\<forall>b \<in> set bs. az_verify c (block_authorization c b roster anchor) = Inr True) \<and> head = last (hd0 # bs)"
proof (induction bs arbitrary: prev hd0)
  case (Cons b bs)
  obtain good where "az_verify c (block_authorization c b roster anchor) = Inr good" using az_verify_total by blast
  then show ?case using Cons[of "block_hash c b" b] by (cases good) auto
qed auto

lemma advance_iff:
  "advance c from_hash blocks roster anchor = Inr (Inr head) \<longleftrightarrow>
     blocks \<noteq> [] \<and> linked c from_hash blocks \<and> head = last blocks \<and>
     (\<forall>b \<in> set blocks. az_verify c (block_authorization c b roster anchor) = Inr True)"
proof (cases blocks)
  case (Cons b bs)
  obtain good where "az_verify c (block_authorization c b roster anchor) = Inr good" using az_verify_total by blast
  then show ?thesis unfolding Cons by (cases good) (auto simp: advance_def advance_loop_iff)
qed (simp add: advance_def)

lemma advance_total: "\<exists>out. advance c from_hash blocks roster anchor = Inr out"
proof -
  have loop: "\<exists>out. advance_loop c roster anchor bs prev (Some b0) = Inr out" for bs prev b0
  proof (induction bs arbitrary: prev b0)
    case (Cons b bs)
    obtain good where "az_verify c (block_authorization c b roster anchor) = Inr good" using az_verify_total by blast
    then show ?case using Cons by simp
  qed simp
  show ?thesis
  proof (cases blocks)
    case (Cons b bs)
    obtain good where "az_verify c (block_authorization c b roster anchor) = Inr good" using az_verify_total by blast
    then show ?thesis unfolding Cons using loop by (simp add: advance_def)
  qed (simp add: advance_def)
qed

text \<open>
  A walk along the chain accepts exactly the linked, authorised chains. Walking from a tip never
  raises; it returns a head exactly when there is a block, every block names the hash of the one
  before it, starting with the tip, and every block passes the authorisation check; the head is the
  last block, and each block walked was signed by the manager or by a quorum of the roster.
\<close>

lemma advance_accepts_linked_chains:
  "(\<exists>out. advance c from_hash blocks roster anchor = Inr out) \<and>
   (advance c from_hash blocks roster anchor = Inr (Inr head) \<longleftrightarrow>
     blocks \<noteq> [] \<and> linked c from_hash blocks \<and> head = last blocks \<and>
     (\<forall>b \<in> set blocks. az_verify c (block_authorization c b roster anchor) = Inr True)) \<and>
   (advance c from_hash blocks roster anchor = Inr (Inr head) \<longrightarrow> (\<forall>b \<in> set blocks. endorsed c roster anchor b))"
  using advance_total advance_iff az_verify_endorsed by blast

lemma advance_accepts_linked_chains_witness:
  "\<exists>r sb. sole_settle 20 = Inr r \<and> sr_settled r = Some sb \<and>
     advance (sample []) (replicate 32 0) [sb] (sr_roster r) (replicate 32 9) = Inr (Inr sb) \<and>
     endorsed (sample []) (sr_roster r) (replicate 32 9) sb"
proof -
  obtain r sb where r: "sole_settle 20 = Inr r" "sr_settled r = Some sb" "sr_anchors r = sole_anchors" using sole_settles by blast
  have run: "settle_run (sample []) r" using r(1) unfolding sole_settle_def by (rule settle_run.start)
  then have "settled_ok r" using settle_run_inv[OF sample_sign_correct] by blast
  then have "an_prev_block (sb_anchors sb) = replicate 32 0" using r(2,3) by (simp add: settled_ok_def sole_anchors_def)
  moreover have "az_verify (sample []) (block_authorization (sample []) sb (sr_roster r) (replicate 32 9)) = Inr True"
    using settle_combine[of "sample []" r "replicate 32 9"] settle_run_inv[OF sample_sign_correct run] r(2)
    by (auto simp: block_authorization_def settled_ok_def settle_shares_ok_def)
  ultimately show ?thesis
    using r(1,2) advance_accepts_linked_chains[of "sample []" "replicate 32 0" "[sb]" "sr_roster r" "replicate 32 9" sb] by auto
qed

text \<open>
  C23: A settled block is accepted by every node at its base. A settle round never fails on a
  message, the assembly of the multisignature included, and the block it settles extends, for any
  node with the same roster and any manager, the chain whose tip is the previous block that the
  anchors name: the walk accepts it as the new head.
\<close>

theorem settled_block_extends_chain:
  assumes "sign_correct c" "settle_run c r"
  shows "(\<exists>r'. settle_receive c msg from r = Inr r') \<and>
    (sr_settled r = Some sb \<longrightarrow> advance c (an_prev_block (sr_anchors r)) [sb] (sr_roster r) anchor = Inr (Inr sb))"
proof -
  note v = settled_block_verifies[OF assms, where msg = msg and ?from = "from" and anchor = anchor]
  have "advance c (an_prev_block (sr_anchors r)) [sb] (sr_roster r) anchor = Inr (Inr sb)" if sb: "sr_settled r = Some sb"
  proof -
    have "settled_ok r" using settle_run_inv[OF assms] by auto
    then have "sb_anchors sb = sr_anchors r" using sb by (simp add: settled_ok_def)
    moreover have "az_verify c (block_authorization c sb (sr_roster r) anchor) = Inr True"
      using v sb by (simp add: block_authorization_def)
    ultimately show ?thesis by (simp add: advance_def)
  qed
  then show ?thesis using v by blast
qed

theorem settled_block_extends_chain_witness:
  "\<exists>r sb. sole_settle 20 = Inr r \<and> sr_settled r = Some sb \<and>
     advance (sample []) (an_prev_block (sr_anchors r)) [sb] (sr_roster r) (replicate 32 9) = Inr (Inr sb)"
proof -
  obtain r sb where r: "sole_settle 20 = Inr r" "sr_settled r = Some sb" using sole_settles by blast
  have "settle_run (sample []) r" using r(1) unfolding sole_settle_def by (rule settle_run.start)
  from settled_block_extends_chain[OF sample_sign_correct this] r show ?thesis by blast
qed

end
