(* ===== verification/Anchoring.thy ===== *)
theory Anchoring
  imports Chain
begin

text \<open>
  The anchors of a block are computed on a layer before the block is committed: by the coordinator
  when it promotes a ratified block (\<^verbatim>\<open>Coordinator._promote_to_settling\<close>), by the follower
  when it checks an offered block (\<^verbatim>\<open>Follower._preview_matches_signed_anchors\<close>), and by the
  manager who signs a block alone (\<^verbatim>\<open>_apply_manager_signed_block\<close>). The three share the
  computation defined here, and the theory shows that committing the block then leaves a store with
  exactly those anchors.
\<close>

definition anchors_of :: "prims \<Rightarrow> Db \<Rightarrow> Layer \<Rightarrow> SignedTransaction list \<Rightarrow> int \<Rightarrow> digest \<Rightarrow> Anchors res" where
  "anchors_of c db L applied block_num prev_block =
     rbind (sr_log_accumulator db) (\<lambda>lg.
     rbind (layer_state_root c L) (\<lambda>root.
     rbind (layer_accumulator c L) (\<lambda>acc.
     Inr \<lparr>an_block_num = block_num, an_height = sr_head db + int (length applied), an_prev_block = prev_block,
          an_state_root = root, an_acc_state = acc,
          an_acc_log = extend_log c (sr_head db) lg (map (op_hash c) applied)\<rparr>)))"

text \<open>The screen of a block: the batch settled on a fresh layer over the store, and the layer frozen.\<close>

definition screen_block :: "prims \<Rightarrow> nat \<Rightarrow> Db \<Rightarrow> SignedTransaction list \<Rightarrow> (Layer \<times> Screened) res" where
  "screen_block c fuel db batch =
     rbind (layer_new (store_view c db)) (\<lambda>L.
     rbind (mgmt_reader c db) (\<lambda>m.
     rbind (apply_to c fuel L batch (mgmt_auth c m)) (\<lambda>(L', sc).
     Inr (ov_freeze L', sc))))"

text \<open>\<^verbatim>\<open>_expect_anchors\<close>.\<close>

definition expect_anchors :: "prims \<Rightarrow> Anchors \<Rightarrow> Db \<Rightarrow> unit res" where
  "expect_anchors c want db =
     (if sr_head db \<noteq> an_height want then Inl InvariantError
      else rbind (sr_state_root c db) (\<lambda>root.
        if root \<noteq> an_state_root want then Inl InvariantError
        else rbind (sr_accumulator db) (\<lambda>acc.
          if acc \<noteq> an_acc_state want then Inl InvariantError
          else rbind (sr_log_accumulator db) (\<lambda>lg.
            if lg \<noteq> an_acc_log want then Inl InvariantError else Inr ()))))"

text \<open>
  What the store and the batch must satisfy for a preview to be exact: the invariants of the store,
  integers that SQLite can hold, no two keys on one path, and no transaction settled already.
\<close>

definition exact_preview :: "prims \<Rightarrow> accumulator set \<Rightarrow> Db \<Rightarrow> SignedTransaction list \<Rightarrow> bool" where
  "exact_preview c G db batch \<longleftrightarrow>
     digest_width c \<and> acc_laws c G \<and> db_ok c db \<and> log_ok G db \<and>
     inj_on (key_path c) (row_key ` set (db_live db) \<union> batch_keys batch) \<and> batch_ok UNIV batch \<and>
     sr_has_settled db (map (op_hash c) batch) = {} \<and> 0 \<le> sr_head db \<and> sr_head db + int (length batch) < 2 ^ 63"

lemma anchors_of_names:
  "anchors_of c db L applied n prev = Inr a \<Longrightarrow> an_block_num a = n \<and> an_prev_block a = prev"
  by (auto simp: anchors_of_def rbind_Inr_conv)

section \<open>Committing what was screened\<close>

lemma apply_to_loop_accepts:
  "apply_to_loop c fuel auth batch ov seen keep dropped = Inr (ov', sc) \<Longrightarrow> sc_rejects sc = [] \<Longrightarrow>
     sc_survivors sc = keep @ batch \<and> dropped = []"
proof (induction batch arbitrary: ov seen keep dropped)
  case (Cons tx batch)
  have kept: "dropped' = []" if "apply_to_loop c fuel auth batch t seen' keep' dropped' = Inr (ov', sc)" for t seen' keep' dropped'
    using Cons.IH[OF that Cons.prems(2)] by simp
  have new: "op_hash c tx \<notin> seen" using Cons.prems(1) kept by fastforce
  then obtain v layer where ev: "evaluate c fuel (overlay_reader fuel ov) tx auth = Inr (v, layer)"
    using Cons.prems(1) by (auto simp: rbind_Inr_conv)
  have "vd_ok v"
  proof (rule ccontr)
    assume "\<not> vd_ok v"
    then have "apply_to_loop c fuel auth batch ov seen keep (dropped @ [\<lparr>rj_tx = tx, rj_verdict = v\<rparr>]) = Inr (ov', sc)"
      using Cons.prems(1) new ev by simp
    from kept[OF this] show False by simp
  qed
  then obtain t where "apply_to_loop c fuel auth batch t (insert (op_hash c tx) seen) (keep @ [tx]) dropped = Inr (ov', sc)"
    using Cons.prems(1) new ev by (auto simp: rbind_Inr_conv)
  from Cons.IH[OF this Cons.prems(2)] show ?case by simp
qed auto

text \<open>A screened batch without rejects, when it is committed as a block.\<close>

lemma commit_screened_block:
  assumes exact: "exact_preview c G db batch" and m: "mgmt_reader c db = Inr m"
    and screen: "screen_block c fuel db batch = Inr (L, sc)" "sc_rejects sc = []"
    and anchors: "anchors_of c db L (sc_survivors sc) n prev = Inr a"
    and block: "find_block db n = None" "in_range n" "in_range fh" "hsh \<notin> bk_hash ` set (db_block db)"
  obtains out db' where "commit_block c fuel n fh bs hsh batch (mgmt_auth c m) db = Inr (out, db')"
    "map snd (ap_settled out) = map (op_hash c) batch" "ap_dropped out = []"
    "expect_anchors c a db' = Inr ()" "db_ok c db'" "log_ok G db'"
    "db_block db' = db_block db @ [\<lparr>bk_block_num = n, bk_first_height = fh, bk_height = an_height a, bk_bytes = bs, bk_hash = hsh\<rparr>]"
    "en_op_hash ` set (db_entry db') = en_op_hash ` set (db_entry db) \<union> op_hash c ` set batch"
proof -
  obtain L0 L1 where L0: "layer_new (store_view c db) = Inr L0" and L1: "apply_to c fuel L0 batch (mgmt_auth c m) = Inr (L1, sc)"
      and L: "L = ov_freeze L1"
    using screen(1) m by (auto simp: screen_block_def rbind_Inr_conv)
  have surv: "sc_survivors sc = batch" using apply_to_loop_accepts[of c fuel _ batch L0 "{}" "[]" "[]" L1 sc] L1 screen(2) by (simp add: apply_to_def)
  note pre = exact[unfolded exact_preview_def]
  obtain out db1 where w: "apply_within c fuel batch (mgmt_auth c m) db = Inr (out, db1)" "same_outcome c sc out"
      "sr_state_root c db1 = layer_state_root c L" "sr_accumulator db1 = layer_accumulator c L" "db_ok c db1" "log_ok G db1"
    using preview_exact[of c G db batch L0 fuel m] pre L0 L1 L by auto
  have hs: "map snd (ap_settled out) = map (op_hash c) batch" and nodrop: "ap_dropped out = []"
    using w(2) surv screen(2) by (simp_all add: same_outcome_def)
  note lg = apply_within_log[OF w(1), unfolded hs]
  have gmem: "get_meta db1 ''acc_log'' ACC_IDENTITY \<in> G" "acc_laws c G" using w(6) pre by (simp_all add: log_ok_def)
  define db' where "db' = db1\<lparr>db_block := db_block db1 @ [\<lparr>bk_block_num = n, bk_first_height = fh, bk_height = sr_head db1,
     bk_bytes = bs, bk_hash = hsh\<rparr>]\<rparr>"
  have same: "sr_head db' = sr_head db1" "sr_state_root c db' = sr_state_root c db1" "sr_accumulator db' = sr_accumulator db1"
      "sr_log_accumulator db' = sr_log_accumulator db1" "db_ok c db' = db_ok c db1" "log_ok G db' = log_ok G db1"
    by (simp_all add: db'_def sr_head_def sr_state_root_def sr_accumulator_def sr_log_accumulator_def db_ok_def log_ok_def get_meta_def)
  have commit: "commit_block c fuel n fh bs hsh batch (mgmt_auth c m) db = Inr (out, db')"
    using block w(1) lg(5) by (auto simp: commit_block_def db'_def list_ex_iff)
  obtain lgacc root acc where a: "sr_log_accumulator db = Inr lgacc" "layer_state_root c L = Inr root" "layer_accumulator c L = Inr acc"
      "a = \<lparr>an_block_num = n, an_height = sr_head db + int (length batch), an_prev_block = prev, an_state_root = root, an_acc_state = acc,
          an_acc_log = extend_log c (sr_head db) lgacc (map (op_hash c) batch)\<rparr>"
    using anchors surv by (auto simp: anchors_of_def rbind_Inr_conv)
  have "lgacc = get_meta db ''acc_log'' ACC_IDENTITY" using a(1) by (auto simp: sr_log_accumulator_def fixed_def split: if_splits)
  then have "sr_log_accumulator db1 = Inr (an_acc_log a)"
    using lg(3) gmem acc_length[OF gmem(2)] a(4) by (simp add: sr_log_accumulator_def fixed_def ACC_SIZE_def)
  then have "expect_anchors c a db' = Inr ()" using same w(3,4) a lg(2) by (simp add: expect_anchors_def)
  moreover have "db_block db' = db_block db @ [\<lparr>bk_block_num = n, bk_first_height = fh, bk_height = an_height a, bk_bytes = bs, bk_hash = hsh\<rparr>]"
    using lg(2,5) a(4) by (simp add: db'_def)
  moreover have "en_op_hash ` set (db_entry db') = en_op_hash ` set (db_entry db) \<union> op_hash c ` set batch"
    using lg(6) by (simp add: db'_def)
  ultimately show thesis using that commit hs nodrop same w(5,6) by blast
qed

end
