(* ===== verification/Bootstrap.thy ===== *)
theory Bootstrap
  imports Anchoring
begin

text \<open>
  \<^verbatim>\<open>dude/consensus/bootstrap.py\<close>: blocks the manager signs alone, the genesis block and the
  interventions, and the transaction that composes a genesis.
\<close>

section \<open>Manager-signed blocks\<close>

definition apply_manager_signed_block ::
  "prims \<Rightarrow> nat \<Rightarrow> seed \<Rightarrow> SignedTransaction list \<Rightarrow> int \<Rightarrow> digest \<Rightarrow> int \<Rightarrow> Db \<Rightarrow> (SettledBlockWithBodies \<times> Db) res" where
  "apply_manager_signed_block c fuel master bodies block_num prev_block bucket db =
     (let bodies = bodies_canonical c bodies in
      rbind (screen_block c fuel db bodies) (\<lambda>(L, screened).
      if sc_rejects screened \<noteq> [] then Inl InvariantError
      else
      let applied = sc_survivors screened; base_head = sr_head db in
      rbind (anchors_of c db L applied block_num prev_block) (\<lambda>anchors.
      let block = \<lparr>bl_bucket = bucket, bl_hashes = hashes_canonical (map (op_hash c) bodies)\<rparr>;
          manager_sig = kp_sign c master (settle_payload (block_slice_hash c block) anchors)
      in rbind (mgmt_reader c db) (\<lambda>m.
         rbind (mg_roster c m) (\<lambda>roster.
         let n = length roster + 1 in
         rbind (ms_combine [(int n - 1, manager_sig)] n) (\<lambda>ms.
         let sb = \<lparr>sb_block = block, sb_anchors = anchors, sb_multisig = ms\<rparr> in
         rbind (commit_block c fuel (an_block_num anchors) (base_head + 1) (sb_encode sb) (block_hash c sb) bodies (mgmt_auth c m) db)
           (\<lambda>(_, db'). Inr (\<lparr>sbb_block = sb, sbb_bodies = bodies\<rparr>, db'))))))))"

text \<open>
  \<^verbatim>\<open>store.anchor()\<close> raises on an unprovisioned store, so the comparison of its result with
  \<^verbatim>\<open>None\<close> never holds.
\<close>

definition bootstrap ::
  "prims \<Rightarrow> nat \<Rightarrow> seed \<Rightarrow> SignedTransaction list \<Rightarrow> int \<Rightarrow> Db \<Rightarrow> (SettledBlockWithBodies \<times> Db) res" where
  "bootstrap c fuel master bodies bucket db =
     (if sr_head_block_num db \<noteq> None then Inl InvariantError
      else rbind (sr_anchor db) (\<lambda>anchor.
        if anchor \<noteq> kp_public c master then Inl InvariantError
        else apply_manager_signed_block c fuel master bodies 0 (genesis_stamp c (kp_public c master)) bucket db))"

definition intervene ::
  "prims \<Rightarrow> nat \<Rightarrow> seed \<Rightarrow> SignedTransaction list \<Rightarrow> int \<Rightarrow> Db \<Rightarrow> (SettledBlockWithBodies \<times> Db) res" where
  "intervene c fuel master bodies bucket db =
     (case sr_head_block_num db of
        None \<Rightarrow> Inl InvariantError
      | Some prev_num \<Rightarrow>
          rbind (sr_anchor db) (\<lambda>anchor.
            if anchor \<noteq> kp_public c master then Inl InvariantError
            else rbind (sr_head_block_hash db) (\<lambda>prev_hash.
              case prev_hash of
                None \<Rightarrow> Inl InvariantError
              | Some ph \<Rightarrow> apply_manager_signed_block c fuel master bodies (prev_num + 1) ph bucket db)))"

section \<open>Composing a genesis\<close>

text \<open>\<^verbatim>\<open>mint_first_keyepoch\<close>, with the two random secrets and the randomness of each seal as arguments.\<close>

definition mint_first_keyepoch ::
  "prims \<Rightarrow> boxes \<Rightarrow> MgmtReader \<Rightarrow> seed \<Rightarrow> int \<Rightarrow> public_key list \<Rightarrow> bytes \<Rightarrow> bytes \<Rightarrow> (public_key \<Rightarrow> bytes) \<Rightarrow> (public_key \<Rightarrow> bytes) \<Rightarrow> Transaction res" where
  "mint_first_keyepoch c x m anchor store_id others master blinding rnd_m rnd_b =
     (let all_keys = kp_public c anchor # others in
      rbind (mapM (\<lambda>pk. rbind (pk_seal x pk (rnd_m pk) master) (\<lambda>blob. Inr (pk, blob))) all_keys) (\<lambda>wraps.
      rbind (mapM (\<lambda>pk. rbind (pk_seal x pk (rnd_b pk) blinding) (\<lambda>blob. Inr (pk, blob))) all_keys) (\<lambda>blinds.
      rotate m store_id EPOCH_NONE (dict_update [] wraps) (dict_update [] blinds))))"

text \<open>The inner \<^verbatim>\<open>_grant\<close>: a row of the grants map and the step that files the possession proof.\<close>

definition genesis_grant :: "prims \<Rightarrow> MgmtReader \<Rightarrow> seed \<Rightarrow> seed \<times> Role \<times> int set \<Rightarrow> ((bytes \<times> bytes) \<times> Mutation) res" where
  "genesis_grant c m anchor g =
     (case g of (kp, role, stores) \<Rightarrow>
      let pk = kp_public c kp; cert = sign_grant c anchor pk role in
      rbind (verify_cert c m cert None) (\<lambda>good.
      if \<not> good then Inl InvariantError
      else let pop = prove_possession c kp in
        if \<not> verify_possession c pk pop then Inl InvariantError
        else Inr ((pk, grant_encode_row \<lparr>gr_identity = pk, gr_role = role, gr_stores = stores, gr_kinds = {}, gr_cert = cert\<rparr>),
                  SetP STORE_MANAGEMENT (P_POP @ pk) pop)))"

definition compose_genesis ::
  "prims \<Rightarrow> boxes \<Rightarrow> seed \<Rightarrow> (public_key \<times> Endpoint list) list \<Rightarrow> seed list \<Rightarrow> seed list \<Rightarrow> seed list \<Rightarrow> int \<Rightarrow>
   bytes \<Rightarrow> bytes \<Rightarrow> (public_key \<Rightarrow> bytes) \<Rightarrow> (public_key \<Rightarrow> bytes) \<Rightarrow> SignedTransaction res" where
  "compose_genesis c x anchor node_endpoints managers ro_clients rw_clients ts master blinding rnd_m rnd_b =
     rbind (provision (kp_public c anchor) [] db_empty) (\<lambda>scratch.
     rbind (mgmt_reader c scratch) (\<lambda>w.
     rbind (mapM (genesis_grant c w anchor)
              (map (\<lambda>kp. (kp, MANAGER, {STORE_MANAGEMENT, STORE_DATA})) managers @
               map (\<lambda>kp. (kp, CLIENT_RO, {STORE_DATA})) ro_clients @
               map (\<lambda>kp. (kp, CLIENT_RW, {STORE_DATA})) rw_clients)) (\<lambda>gs.
     rbind (if gs = [] then Inr []
            else rbind (batch_add c (mg_session w) P_GRANT (map fst gs)) (\<lambda>t. Inr (tx_add t (writes_of (map snd gs))))) (\<lambda>tx1.
     rbind (mint_first_keyepoch c x w anchor STORE_DATA (map (kp_public c) (managers @ ro_clients @ rw_clients)) master blinding rnd_m rnd_b) (\<lambda>tx2.
     rbind (change_roster c w anchor
              (map (\<lambda>(pub, eps). \<lparr>nr_identity = pub, nr_endpoints = eps, nr_cert = sign_roster c anchor pub, nr_domains = {}\<rparr>) node_endpoints) []) (\<lambda>tx3.
     Inr (tx_sign c (tx_add (tx_add tx1 tx2) tx3) anchor ts)))))))"

section \<open>What the manager's blocks leave\<close>

lemma commit_block_fresh:
  assumes "commit_block c fuel n fh bs hsh batch auth db = Inr (out, db')" "find_block db n = None"
  shows "in_range n" "in_range fh" "hsh \<notin> bk_hash ` set (db_block db)"
proof -
  obtain db1 where w: "apply_within c fuel batch auth db = Inr (out, db1)" "\<not> list_ex (\<lambda>b. bk_hash b = hsh) (db_block db1)"
      "sql_int n = Inr ()" "sql_int fh = Inr ()"
    using assms by (auto simp: commit_block_def rbind_Inr_conv split: if_splits)
  then show "in_range n" "in_range fh" using sql_int_out by (metis Inl_Inr_False)+
  show "hsh \<notin> bk_hash ` set (db_block db)" using w(2) apply_within_log(5)[OF w(1)] by (auto simp: list_ex_iff)
qed

lemma next_block_fresh: "sr_head_block_num db = Some k \<Longrightarrow> k < n \<Longrightarrow> find_block db n = None"
  by (auto simp: sr_head_block_num_def find_block_def find_None_iff split: if_splits)

lemma manager_share: "\<exists>ms. ms_combine [(int n - 1, s)] n = Inr ms" if "0 < n"
  using bitmap_set_indices[of "[int n - 1]" n] that by (auto simp: ms_combine_def)

lemma manager_multisig:
  assumes "pk_verify c anchor msg s" "ms_combine [(int (length roster), s)] (length roster + 1) = Inr ms"
  shows "az_verify c \<lparr>az_multisig = ms, az_payload = msg, az_roster = roster, az_anchor = anchor\<rparr> = Inr True"
proof -
  let ?signers = "roster @ [anchor]"
  obtain ms' where ms': "ms_combine [(int (length roster), s)] (length ?signers) = Inr ms'" "ms_verify c ms' msg ?signers = Inr True"
      "ms_indices ms' (length ?signers) = Inr (filter (\<lambda>j. int j \<in> fst ` set [(int (length roster), s)]) [0..<length ?signers])"
    by (rule ms_combine_verifies[of "[(int (length roster), s)]" ?signers c msg]) (use assms(1) in \<open>auto simp: nth_append\<close>)
  moreover have "ms' = ms" using ms'(1) assms(2) by simp
  ultimately show ?thesis by (simp add: az_verify_def Let_def)
qed

lemma manager_block_exact:
  assumes "sign_correct c" "exact_preview c G db (bodies_canonical c bodies)" "find_block db block_num = None"
    and run: "apply_manager_signed_block c fuel master bodies block_num prev_block bucket db = Inr (sbb, db')"
  obtains m roster where "mgmt_reader c db = Inr m" "mg_roster c m = Inr roster"
    "advance c prev_block [sbb_block sbb] roster (kp_public c master) = Inr (Inr (sbb_block sbb))"
    "sbb_bodies sbb = bodies_canonical c bodies" "expect_anchors c (sb_anchors (sbb_block sbb)) db' = Inr ()"
    "db_ok c db'" "log_ok G db'" "an_block_num (sb_anchors (sbb_block sbb)) = block_num"
    "db_block db' = db_block db @ [\<lparr>bk_block_num = block_num, bk_first_height = sr_head db + 1,
       bk_height = an_height (sb_anchors (sbb_block sbb)), bk_bytes = sb_encode (sbb_block sbb), bk_hash = block_hash c (sbb_block sbb)\<rparr>]"
    "en_op_hash ` set (db_entry db') = en_op_hash ` set (db_entry db) \<union> op_hash c ` set bodies"
proof -
  let ?bodies = "bodies_canonical c bodies" and ?sb = "sbb_block sbb"
  define block where "block = \<lparr>bl_bucket = bucket, bl_hashes = hashes_canonical (map (op_hash c) ?bodies)\<rparr>"
  obtain L sc where sc: "screen_block c fuel db ?bodies = Inr (L, sc)" "sc_rejects sc = []"
    using run by (auto simp: apply_manager_signed_block_def Let_def rbind_Inr_conv split: if_splits)
  obtain a where a: "anchors_of c db L (sc_survivors sc) block_num prev_block = Inr a"
    using run sc by (auto simp: apply_manager_signed_block_def Let_def rbind_Inr_conv)
  obtain m roster ms where m: "mgmt_reader c db = Inr m" "mg_roster c m = Inr roster"
      and ms: "ms_combine [(int (length roster), kp_sign c master (settle_payload (block_slice_hash c block) a))] (length roster + 1) = Inr ms"
      and commit: "\<exists>out. commit_block c fuel (an_block_num a) (sr_head db + 1) (sb_encode ?sb) (block_hash c ?sb) ?bodies (mgmt_auth c m) db = Inr (out, db')"
      and sb: "?sb = \<lparr>sb_block = block, sb_anchors = a, sb_multisig = ms\<rparr>" "sbb_bodies sbb = ?bodies"
    using run sc a by (auto simp: apply_manager_signed_block_def Let_def rbind_Inr_conv block_def)
  have num: "an_block_num a = block_num" "an_prev_block a = prev_block" using a by (auto simp: anchors_of_def rbind_Inr_conv)
  obtain out where com: "commit_block c fuel block_num (sr_head db + 1) (sb_encode ?sb) (block_hash c ?sb) ?bodies (mgmt_auth c m) db = Inr (out, db')"
    using commit num by auto
  note fresh = commit_block_fresh[OF com assms(3)]
  have walk: "advance c prev_block [?sb] roster (kp_public c master) = Inr (Inr ?sb)"
  proof -
    have "az_verify c (block_authorization c ?sb roster (kp_public c master)) = Inr True"
      unfolding block_authorization_def sb by (simp, rule manager_multisig[OF _ ms]) (use assms(1) in simp)
    then show ?thesis by (simp add: advance_def sb num)
  qed
  obtain out2 db2 where c2: "commit_block c fuel block_num (sr_head db + 1) (sb_encode ?sb) (block_hash c ?sb) ?bodies (mgmt_auth c m) db = Inr (out2, db2)"
      and post: "expect_anchors c a db2 = Inr ()" "db_ok c db2" "log_ok G db2"
      "db_block db2 = db_block db @ [\<lparr>bk_block_num = block_num, bk_first_height = sr_head db + 1, bk_height = an_height a, bk_bytes = sb_encode ?sb, bk_hash = block_hash c ?sb\<rparr>]"
      "en_op_hash ` set (db_entry db2) = en_op_hash ` set (db_entry db) \<union> op_hash c ` set ?bodies"
    by (rule commit_screened_block[OF assms(2) m(1) sc a assms(3) fresh])
  have "db2 = db'" using com c2 by simp
  note post' = post[unfolded this]
  show thesis by (rule that[OF m walk sb(2)]) (use post' sb(1) num in \<open>simp_all add: bodies_canonical_def\<close>)
qed

lemma head_after_append:
  assumes "db_block db' = db_block db @ [b]" "\<And>x. x \<in> set (db_block db) \<Longrightarrow> bk_block_num x < bk_block_num b"
  shows "sr_head_block_num db' = Some (bk_block_num b)" "length (bk_hash b) = DIGEST_SIZE \<Longrightarrow> sr_head_block_hash db' = Inr (Some (bk_hash b))"
proof -
  have "Max (bk_block_num ` set (db_block db')) = bk_block_num b"
    using assms by (intro Max_eqI) (auto simp: less_imp_le)
  then show "sr_head_block_num db' = Some (bk_block_num b)" using assms(1) by (simp add: sr_head_block_num_def)
  have "sort_key bk_block_num (db_block db') = sort_key bk_block_num (db_block db) @ [b]"
  proof (rule properties_for_sort_key)
    show "mset (sort_key bk_block_num (db_block db) @ [b]) = mset (db_block db')" using assms(1) by simp
    show "sorted (map bk_block_num (sort_key bk_block_num (db_block db) @ [b]))"
      using assms(2) by (auto simp: sorted_append less_imp_le)
    fix k
    assume "k \<in> set (sort_key bk_block_num (db_block db) @ [b])"
    show "filter (\<lambda>x. bk_block_num k = bk_block_num x) (sort_key bk_block_num (db_block db) @ [b]) =
        filter (\<lambda>x. bk_block_num k = bk_block_num x) (db_block db')"
      using assms(1) by (simp add: eq_commute[of "bk_block_num k"] sort_key_stable)
  qed
  then show "length (bk_hash b) = DIGEST_SIZE \<Longrightarrow> sr_head_block_hash db' = Inr (Some (bk_hash b))"
    by (simp add: sr_head_block_hash_def fixed_def)
qed

text \<open>
  C26: The manager's own blocks are exact and peers accept them. When the genesis block is made or
  the manager intervenes, on a store and with transactions for which previews are exact: the store
  afterwards has exactly the height, the state root and the accumulators that the manager signed,
  its head is the new block, its invariants hold, a node with the same roster walks from the old
  tip to the new block, and another genesis is refused.
\<close>

theorem manager_blocks_are_exact:
  assumes "sign_correct c" "exact_preview c G db (bodies_canonical c bodies)"
    and "bootstrap c fuel master bodies bucket db = Inr (sbb, db') \<and> tip = genesis_stamp c (kp_public c master) \<or>
         intervene c fuel master bodies bucket db = Inr (sbb, db') \<and> sr_head_block_hash db = Inr (Some tip)"
  shows "expect_anchors c (sb_anchors (sbb_block sbb)) db' = Inr () \<and> db_ok c db' \<and> log_ok G db' \<and>
    sr_head_block_num db' = Some (an_block_num (sb_anchors (sbb_block sbb))) \<and>
    sr_head_block_hash db' = Inr (Some (block_hash c (sbb_block sbb))) \<and>
    en_op_hash ` set (db_entry db') = en_op_hash ` set (db_entry db) \<union> op_hash c ` set bodies \<and>
    (\<exists>m roster. mgmt_reader c db = Inr m \<and> mg_roster c m = Inr roster \<and>
       advance c tip [sbb_block sbb] roster (kp_public c master) = Inr (Inr (sbb_block sbb))) \<and>
    bootstrap c fuel' master' bodies' bucket' db' = Inl InvariantError"
proof -
  obtain n where run: "apply_manager_signed_block c fuel master bodies n tip bucket db = Inr (sbb, db')"
      and n: "\<And>x. x \<in> set (db_block db) \<Longrightarrow> bk_block_num x < n"
  proof -
    from assms(3) show thesis
    proof
      assume b: "bootstrap c fuel master bodies bucket db = Inr (sbb, db') \<and> tip = genesis_stamp c (kp_public c master)"
      then have "db_block db = []" by (auto simp: bootstrap_def sr_head_block_num_def split: if_splits)
      then show thesis using b by (intro that[of 0]) (auto simp: bootstrap_def rbind_Inr_conv split: if_splits)
    next
      assume i: "intervene c fuel master bodies bucket db = Inr (sbb, db') \<and> sr_head_block_hash db = Inr (Some tip)"
      then obtain k where k: "sr_head_block_num db = Some k" by (auto simp: intervene_def split: option.splits)
      then have "bk_block_num x \<le> k" if "x \<in> set (db_block db)" for x
        using that by (auto simp: sr_head_block_num_def split: if_splits)
      then show thesis using i k by (intro that[of "k + 1"]) (force simp: intervene_def rbind_Inr_conv split: if_splits)+
    qed
  qed
  have "find_block db n = None" using n by (auto simp: find_block_def find_None_iff)
  from manager_block_exact[OF assms(1,2) this run] obtain m roster where
    mr: "mgmt_reader c db = Inr m" "mg_roster c m = Inr roster"
      "advance c tip [sbb_block sbb] roster (kp_public c master) = Inr (Inr (sbb_block sbb))" and
    post: "expect_anchors c (sb_anchors (sbb_block sbb)) db' = Inr ()" "db_ok c db'" "log_ok G db'"
      "an_block_num (sb_anchors (sbb_block sbb)) = n" and
    blocks: "db_block db' = db_block db @ [\<lparr>bk_block_num = n, bk_first_height = sr_head db + 1,
       bk_height = an_height (sb_anchors (sbb_block sbb)), bk_bytes = sb_encode (sbb_block sbb), bk_hash = block_hash c (sbb_block sbb)\<rparr>]" and
    entries: "en_op_hash ` set (db_entry db') = en_op_hash ` set (db_entry db) \<union> op_hash c ` set bodies"
    by metis
  have "digest_width c" using assms(2) by (simp add: exact_preview_def)
  then have "length (block_hash c (sbb_block sbb)) = DIGEST_SIZE" by (simp add: block_hash_def h_def digest_width_def)
  then have heads: "sr_head_block_num db' = Some n" "sr_head_block_hash db' = Inr (Some (block_hash c (sbb_block sbb)))"
    using head_after_append[OF blocks] n by simp_all
  have "bootstrap c fuel' master' bodies' bucket' db' = Inl InvariantError" using heads(1) by (simp add: bootstrap_def)
  then show ?thesis using post mr entries heads by blast
qed

section \<open>A provisioned store\<close>

definition db_home :: Db where
  "db_home = set_meta ''anchor'' (kp_public (sample []) [1]) db_empty"

lemma home_sel: "db_live db_home = []" "db_entry db_home = []" "db_block db_home = []"
   "db_meta db_home = [''anchor'' \<mapsto> kp_public (sample []) [1]]" "db_memo db_home = db_memo db_empty"
  by (simp_all add: db_home_def set_meta_def db_empty_def)

lemma store_reader_sel: "rd_get (store_reader c db) = sr_get db" "rd_anchor (store_reader c db) = sr_anchor db"
  by (simp_all add: store_reader_def store_view_def Reader.defs)

lemma home_anchor: "sr_anchor db_home = Inr (kp_public (sample []) [1])"
proof -
  have "length (kp_public (sample []) [1]) = 32" by (simp add: kp_public_def sample_def)
  then have "kp_public (sample []) [1] \<noteq> []" "PublicKey (kp_public (sample []) [1]) = Inr (kp_public (sample []) [1])" by (auto simp: fixed_def)
  then show ?thesis by (simp add: sr_anchor_def get_meta_def home_sel)
qed

lemma home_reader: "mgmt_reader (sample []) db_home = Inr \<lparr>mg_session = \<lparr>se_reader = store_reader (sample []) db_home, se_store_id = 0\<rparr>,
   mg_anchor = kp_public (sample []) [1]\<rparr>"
  by (simp add: mgmt_reader_def mgmt_new_def session_anchor_def store_reader_sel home_anchor)

lemma home_roster: "mg_roster (sample []) \<lparr>mg_session = \<lparr>se_reader = store_reader (sample []) db_home, se_store_id = 0\<rparr>,
   mg_anchor = a\<rparr> = Inr []"
  by (simp add: mg_roster_def mg_nodes_def mmap_keys_def mmap_meta_def mmap_get_def session_get_def get_record_def session_token_def
    store_reader_sel sr_get_eq home_sel in_range_def live_get_def dict_update_def map_filter_simps)

lemma home_root: "sr_state_root c db_home = Inr EMPTY" "sr_hash_under c db_home (replicate 32 0) 0 = Inr EMPTY"
proof -
  obtain lo hi where b: "bounds (replicate 32 0) 0 = Inr (lo, hi)" by (simp add: bounds_def)
  show "sr_hash_under c db_home (replicate 32 0) 0 = Inr EMPTY" 
    by (simp add: sr_hash_under_def hash_under.simps[of _ _ _ "replicate 32 0"] b home_sel db_empty_def tree_leaves_def select_range_def)
  then show "sr_state_root c db_home = Inr EMPTY" 
    by (simp add: sr_state_root_def tree_root_def sr_hash_under_def)
qed

lemma home_acc: "sr_accumulator db_home = Inr ACC_IDENTITY" "sr_log_accumulator db_home = Inr ACC_IDENTITY" "sr_head db_home = 0"
  by (simp_all add: sr_accumulator_def sr_log_accumulator_def get_meta_def home_sel ACC_IDENTITY_def fixed_def sr_head_def from_bytes_def)

lemma home_layer:
  assumes "layer_new (store_view c db_home) = Inr L"
  shows "layer_state_root c (ov_freeze L) = Inr EMPTY" "layer_accumulator c (ov_freeze L) = Inr ACC_IDENTITY"
proof -
  have L: "ov_freeze L = \<lparr>ov_base = store_view c db_home, ov_delta = [], ov_log = [], ov_frozen = True, ly_memo = Map.empty\<rparr>"
    using assms by (auto simp: layer_new_def store_view_def ov_freeze_def)
  obtain lo hi where b: "bounds (replicate 32 0) 0 = Inr (lo, hi)" by (simp add: bounds_def)
  show "layer_state_root c (ov_freeze L) = Inr EMPTY"
    using home_root(2)[of c] by (simp add: L layer_state_root_def layer_hash_under.simps[of _ _ "replicate 32 0"] b delta_touches_range_def store_view_def)
  show "layer_accumulator c (ov_freeze L) = Inr ACC_IDENTITY" by (simp add: L layer_accumulator_def store_view_def home_acc)
qed

lemma home_boots: "\<exists>sbb db'. bootstrap (sample []) 5 [1] [] 7 db_home = Inr (sbb, db')"
proof -
  let ?c = "sample []"
  obtain L where L: "layer_new (store_view ?c db_home) = Inr L" by (simp add: layer_new_def store_view_def)
  then have screen: "screen_block ?c 5 db_home [] = Inr (ov_freeze L, \<lparr>sc_survivors = [], sc_rejects = []\<rparr>)"
    by (simp add: screen_block_def home_reader apply_to_def)
  obtain ms where ms: "ms_combine [(0, s)] 1 = Inr (ms s)" for s
    using manager_share[of 1] by (simp add: ms_combine_def Let_def)  metis
  have "bodies_canonical ?c [] = []" by (simp add: bodies_canonical_def canonical_batch_def)
  then show ?thesis
    using screen home_layer[OF L] ms
    by (simp add: bootstrap_def sr_head_block_num_def home_sel home_anchor apply_manager_signed_block_def home_reader home_roster Let_def anchors_of_def home_acc
       commit_block_def find_block_def in_range_def apply_within_def sr_has_settled_def set_meta_def)
qed

lemma home_exact: "exact_preview (sample []) {b. length b = 32} db_home []"
  using db_ok_empty[of "sample []"] sample_log_ok
  by (simp add: exact_preview_def sample_digest_width sample_acc_laws home_acc home_sel db_ok_def log_ok_def get_meta_def
      batch_ok_def batch_keys_def sr_has_settled_def db_empty_def)

theorem manager_blocks_are_exact_witness:
  "\<exists>sbb db'. bootstrap (sample []) 5 [1] [] 7 db_home = Inr (sbb, db') \<and>
     expect_anchors (sample []) (sb_anchors (sbb_block sbb)) db' = Inr () \<and>
     sr_head_block_hash db' = Inr (Some (block_hash (sample []) (sbb_block sbb))) \<and>
     bootstrap (sample []) 5 [1] [] 8 db' = Inl InvariantError"
proof -
  obtain sbb db' where b: "bootstrap (sample []) 5 [1] [] 7 db_home = Inr (sbb, db')" using home_boots by blast
  have e: "exact_preview (sample []) {b. length b = 32} db_home (bodies_canonical (sample []) [])"
    using home_exact by (simp add: bodies_canonical_def canonical_batch_def)
  show ?thesis
    using manager_blocks_are_exact[OF sample_sign_correct e, of 5 "[1]" 7 sbb db' "genesis_stamp (sample []) (kp_public (sample []) [1])"] b by blast
qed

end
