(* ===== verification/Coordinator.thy ===== *)
theory Coordinator
  imports Bootstrap
begin

text \<open>
  \<^verbatim>\<open>dude/consensus/coordinator.py\<close>: the coordinator opens a round per bucket, promotes a
  ratified round to a settle round, and commits the settled block. Its handlers run one at a time on
  an event loop; a handler is a function on the coordinator's state, an exception ends the process.
  The clock readings of a handler are arguments, and so is the callback \<^verbatim>\<open>behind\<close>. Events
  posted to the loop are appended to \<open>co_posted\<close>; a scheduled event is the content of its timer slot,
  and the invariant at the end shows that no slot is overwritten while its timer may still fire for a
  round that is gone.
\<close>

section \<open>Events and state\<close>

datatype Encodable = E_Round RoundMsg | E_Settle SettleSig

datatype CoEvent =
    RoundMessage public_key Verb bytes
  | SettleMessage public_key Verb bytes
  | RoundClose int
  | RoundAbandon int
  | SettleAbandon digest
  | BucketTick
  | SendConsensus public_key Encodable
  | BlockSettled

record Settling =
  st_bucket :: int
  st_block :: Block
  st_layer :: Layer
  st_applied :: "SignedTransaction list"
  st_surviving :: "SignedTransaction list"
  st_anchors :: Anchors
  st_first_height :: int
  st_round :: SettleRound

type_synonym timer = "(int \<times> CoEvent) option"

record Coordinator =
  co_me :: seed
  co_db :: Db
  co_tunables :: Tunables
  co_mempool :: Mempool
  co_round :: "Round option"
  co_settling :: "Settling option"
  co_bucket :: int
  co_stalls :: int
  co_close_timer :: timer
  co_abandon_timer :: timer
  co_settle_timer :: timer
  co_bucket_timer :: timer
  co_posted :: "CoEvent list"

definition co_new :: "seed \<Rightarrow> Db \<Rightarrow> Tunables \<Rightarrow> Coordinator" where
  "co_new me db t =
     \<lparr>co_me = me, co_db = db, co_tunables = t, co_mempool = mempool_new t, co_round = None, co_settling = None,
      co_bucket = -1, co_stalls = 0, co_close_timer = None, co_abandon_timer = None, co_settle_timer = None,
      co_bucket_timer = None, co_posted = []\<rparr>"

definition co_post :: "CoEvent list \<Rightarrow> Coordinator \<Rightarrow> Coordinator" where
  "co_post es co = co\<lparr>co_posted := co_posted co @ es\<rparr>"

definition co_start :: "int \<Rightarrow> Coordinator \<Rightarrow> Coordinator" where
  "co_start now co =
     co_post [BucketTick] (if co_bucket co < 0 then co\<lparr>co_bucket := bucket_of (co_tunables co) now\<rparr> else co)"

definition co_mgmt :: "prims \<Rightarrow> Coordinator \<Rightarrow> MgmtReader res" where
  "co_mgmt c co = mgmt_reader c (co_db co)"

definition in_roster :: "prims \<Rightarrow> Coordinator \<Rightarrow> bool res" where
  "in_roster c co = rbind (co_mgmt c co) (\<lambda>m. is_member c m (kp_public c (co_me co)))"

definition co_submit :: "prims \<Rightarrow> nat \<Rightarrow> SignedTransaction \<Rightarrow> int \<Rightarrow> Coordinator \<Rightarrow> (Refusal option \<times> Coordinator) res" where
  "co_submit c fuel tx now co =
     rbind (in_roster c co) (\<lambda>b.
     if \<not> b then Inr (Some NOT_IN_ROSTER, co)
     else rbind (co_mgmt c co) (\<lambda>m.
       rbind (mp_admit c fuel (co_mempool co) tx now (co_db co) (mgmt_auth c m)) (\<lambda>(why, mp).
       Inr (why, co\<lparr>co_mempool := mp\<rparr>))))"

definition tip_of :: "prims \<Rightarrow> Db \<Rightarrow> digest res" where
  "tip_of c db =
     rbind (sr_head_block_hash db) (\<lambda>prev.
     case prev of
       Some p \<Rightarrow> Inr p
     | None \<Rightarrow> rbind (sr_anchor db) (\<lambda>manager. Inr (genesis_stamp c manager)))"

definition co_prev_block :: "prims \<Rightarrow> Coordinator \<Rightarrow> digest res" where
  "co_prev_block c co = tip_of c (co_db co)"

definition co_abandon_by :: "Coordinator \<Rightarrow> int \<Rightarrow> int" where
  "co_abandon_by co bucket = bucket_start (co_tunables co) (bucket + 2)"

definition co_close_by :: "Coordinator \<Rightarrow> int \<Rightarrow> int" where
  "co_close_by co bucket = co_abandon_by co bucket - cut_reserve (co_tunables co)"

section \<open>Timers and outboxes\<close>

definition cancel_round_timers :: "Coordinator \<Rightarrow> Coordinator" where
  "cancel_round_timers co = co\<lparr>co_close_timer := None, co_abandon_timer := None\<rparr>"

definition cancel_settle_timer :: "Coordinator \<Rightarrow> Coordinator" where
  "cancel_settle_timer co = co\<lparr>co_settle_timer := None\<rparr>"

definition schedule_bucket_tick :: "int \<Rightarrow> Coordinator \<Rightarrow> Coordinator" where
  "schedule_bucket_tick now co =
     (let next_boundary = bucket_start (co_tunables co) (co_bucket co + 1) in
      if next_boundary \<le> now then co_post [BucketTick] (co\<lparr>co_bucket_timer := None\<rparr>)
      else co\<lparr>co_bucket_timer := Some (next_boundary, BucketTick)\<rparr>)"

definition sends :: "prims \<Rightarrow> Coordinator \<Rightarrow> public_key list \<Rightarrow> (Target \<times> Encodable) list \<Rightarrow> CoEvent list" where
  "sends c co roster out =
     concat (map (\<lambda>(target, msg). map (\<lambda>peer. SendConsensus peer msg) (recipients target roster (kp_public c (co_me co)))) out)"

definition flush_round :: "prims \<Rightarrow> Coordinator \<Rightarrow> Coordinator" where
  "flush_round c co =
     (case co_round co of
        None \<Rightarrow> co
      | Some r \<Rightarrow>
          let (out, r') = round_outbox r
          in co_post (sends c co (rn_roster r) (map (\<lambda>(t, m). (t, E_Round m)) out)) (co\<lparr>co_round := Some r'\<rparr>))"

definition flush_settle :: "prims \<Rightarrow> Coordinator \<Rightarrow> Coordinator" where
  "flush_settle c co =
     (case co_settling co of
        None \<Rightarrow> co
      | Some s \<Rightarrow>
          let (out, r') = settle_outbox (st_round s)
          in co_post (sends c co (sr_roster (st_round s)) (map (\<lambda>(t, m). (t, E_Settle m)) out))
               (co\<lparr>co_settling := Some (s\<lparr>st_round := r'\<rparr>)\<rparr>))"

section \<open>Promotion and settlement\<close>

text \<open>The first survivor of an author with an isolated role stands alone.\<close>

fun isolate :: "prims \<Rightarrow> MgmtReader \<Rightarrow> SignedTransaction list \<Rightarrow> SignedTransaction list \<Rightarrow> digest set res" where
  "isolate c m all [] = Inr (op_hash c ` set all)"
| "isolate c m all (tx # rest) =
     rbind (read_grant m (stx_author tx) None) (\<lambda>g.
     case g of
       Some gr \<Rightarrow> if gr_role gr = COMPACTOR then Inr {op_hash c tx} else isolate c m all rest
     | None \<Rightarrow> isolate c m all rest)"

definition screen_slice :: "prims \<Rightarrow> nat \<Rightarrow> Db \<Rightarrow> SignedTransaction list \<Rightarrow> digest set res" where
  "screen_slice c fuel db candidate =
     (let already = sr_has_settled db (map (op_hash c) candidate);
          fresh = filter (\<lambda>tx. op_hash c tx \<notin> already) candidate
      in rbind (layer_new (store_view c db)) (\<lambda>L.
         rbind (mgmt_reader c db) (\<lambda>m.
         rbind (apply_to c fuel L fresh (mgmt_auth c m)) (\<lambda>(_, sc).
         isolate c m (sc_survivors sc) (sc_survivors sc)))))"

definition drop_round :: "Coordinator \<Rightarrow> Coordinator" where
  "drop_round co = (cancel_round_timers co)\<lparr>co_round := None\<rparr>"

definition promote_to_settling :: "prims \<Rightarrow> nat \<Rightarrow> Coordinator \<Rightarrow> Coordinator res" where
  "promote_to_settling c fuel co =
     (case co_round co of
        None \<Rightarrow> Inl InvariantError
      | Some r \<Rightarrow>
        (case rn_ratified r of
           None \<Rightarrow> Inl InvariantError
         | Some block \<Rightarrow>
           rbind (in_roster c co) (\<lambda>member.
           if \<not> member then Inr (drop_round co)
           else
           rbind (round_slice_bodies r) (\<lambda>slice_txs.
           rbind (round_surviving r) (\<lambda>surviving.
           rbind (co_prev_block c co) (\<lambda>prev.
           if prev \<noteq> rn_prev_block r then Inr (drop_round co)
           else
           rbind (co_mgmt c co) (\<lambda>m.
           rbind (mg_roster c m) (\<lambda>roster.
           rbind (screen_block c fuel (co_db co) slice_txs) (\<lambda>(L, screened).
           if sc_rejects screened \<noteq> [] then Inr (drop_round co)
           else
           let applied = sc_survivors screened;
               block_num = (case sr_head_block_num (co_db co) of None \<Rightarrow> 0 | Some k \<Rightarrow> k) + 1
           in rbind (anchors_of c (co_db co) L applied block_num (rn_prev_block r)) (\<lambda>anchors.
              rbind (settle_new c block (co_me co) roster anchors (co_abandon_by co (rn_bucket r))) (\<lambda>sr.
              let s = \<lparr>st_bucket = rn_bucket r, st_block = block, st_layer = L, st_applied = applied, st_surviving = surviving,
                       st_anchors = anchors, st_first_height = sr_head (co_db co) + 1, st_round = sr\<rparr>;
                  co1 = drop_round (co\<lparr>co_settling := Some s\<rparr>)
              in Inr (flush_settle c (co1\<lparr>co_settle_timer :=
                   Some (co_abandon_by co (rn_bucket r), SettleAbandon (block_slice_hash c block))\<rparr>)))))))))))))"

definition check_ratified :: "prims \<Rightarrow> nat \<Rightarrow> Coordinator \<Rightarrow> Coordinator res" where
  "check_ratified c fuel co =
     (case co_round co of
        None \<Rightarrow> Inr co
      | Some r \<Rightarrow>
          if rn_ratified r \<noteq> None \<and> co_settling co = None
          then rewrap is_dude_error InvariantError (promote_to_settling c fuel co)
          else Inr co)"

definition do_settled :: "prims \<Rightarrow> nat \<Rightarrow> Coordinator \<Rightarrow> Coordinator res" where
  "do_settled c fuel co =
     (case co_settling co of
        None \<Rightarrow> Inl InvariantError
      | Some s \<Rightarrow>
        (case sr_settled (st_round s) of
           None \<Rightarrow> Inl InvariantError
         | Some sb \<Rightarrow>
           rbind (co_mgmt c co) (\<lambda>m.
           rbind (commit_block c fuel (an_block_num (st_anchors s)) (st_first_height s) (sb_encode sb) (block_hash c sb)
                    (st_applied s) (mgmt_auth c m) (co_db co)) (\<lambda>(_, db').
           rbind (expect_anchors c (st_anchors s) db') (\<lambda>_.
           Inr (co_post [BlockSettled, BucketTick]
             (co\<lparr>co_db := db', co_mempool := evict_settled db' (co_mempool co), co_settling := None, co_stalls := 0\<rparr>)))))))"

definition do_settle_abandoned :: "Coordinator \<Rightarrow> Coordinator res" where
  "do_settle_abandoned co =
     (case co_settling co of
        None \<Rightarrow> Inl InvariantError
      | Some s \<Rightarrow>
          Inr (if sr_divergences (st_round s) = [] then co\<lparr>co_settling := None, co_stalls := 0\<rparr>
               else co\<lparr>co_settling := None, co_stalls := co_stalls co + 1\<rparr>))"

definition check_settled :: "prims \<Rightarrow> nat \<Rightarrow> Coordinator \<Rightarrow> Coordinator res" where
  "check_settled c fuel co =
     (case co_settling co of
        None \<Rightarrow> Inr co
      | Some s \<Rightarrow>
          if sr_settled (st_round s) \<noteq> None then do_settled c fuel (cancel_settle_timer co)
          else if sr_state (st_round s) = S_ABANDONED then do_settle_abandoned (cancel_settle_timer co)
          else Inr co)"

section \<open>Opening and closing buckets\<close>

definition open_round :: "prims \<Rightarrow> int \<Rightarrow> Mempool \<Rightarrow> int \<Rightarrow> Coordinator \<Rightarrow> Coordinator res" where
  "open_round c bucket frozen now co =
     rbind (in_roster c co) (\<lambda>member.
     if \<not> member then Inr co
     else
     rbind (co_mgmt c co) (\<lambda>m.
     rbind (mg_roster c m) (\<lambda>roster.
     rbind (co_prev_block c co) (\<lambda>prev.
     rbind (round_new c bucket (co_me co) roster prev now (co_close_by co bucket) (co_abandon_by co bucket)) (\<lambda>r.
     rbind (add_local c (map snd (all_bodies c frozen)) r) (\<lambda>r'.
     Inr (flush_round c (co\<lparr>co_round := Some r',
       co_close_timer := Some (co_close_by co bucket, RoundClose bucket),
       co_abandon_timer := Some (co_abandon_by co bucket, RoundAbandon bucket)\<rparr>))))))))"

definition close_current_bucket :: "prims \<Rightarrow> (int \<Rightarrow> bool res) \<Rightarrow> int \<Rightarrow> Coordinator \<Rightarrow> Coordinator res" where
  "close_current_bucket c behind now co =
     (let closed = bucket_of (co_tunables co) now - 1 in
      if co_round co \<noteq> None then Inr co
      else if closed < co_bucket co then Inr co
      else if now \<ge> co_close_by co closed then Inr (co\<lparr>co_bucket := closed + 1\<rparr>)
      else rbind (behind now) (\<lambda>b.
        if b then Inr (co\<lparr>co_bucket := closed + 1\<rparr>)
        else rbind (open_round c closed (mp_snapshot (co_mempool co)) now co) (\<lambda>co'.
          Inr (co'\<lparr>co_bucket := closed + 1\<rparr>))))"

section \<open>Handlers\<close>

text \<open>Both rounds brought to \<open>now\<close>, as \<^verbatim>\<open>_catch_up\<close> does before a message is handled.\<close>

definition tick_settling :: "int \<Rightarrow> Coordinator \<Rightarrow> Coordinator" where
  "tick_settling now co =
     (case co_settling co of None \<Rightarrow> co | Some s \<Rightarrow> co\<lparr>co_settling := Some (s\<lparr>st_round := settle_tick now (st_round s)\<rparr>)\<rparr>)"

definition tick_round :: "prims \<Rightarrow> nat \<Rightarrow> int \<Rightarrow> Coordinator \<Rightarrow> Coordinator res" where
  "tick_round c fuel now co =
     (case co_round co of
        None \<Rightarrow> Inr co
      | Some r \<Rightarrow> rbind (round_tick c (screen_slice c fuel (co_db co)) now r) (\<lambda>r'. Inr (co\<lparr>co_round := Some r'\<rparr>)))"

definition drop_abandoned :: "Coordinator \<Rightarrow> Coordinator" where
  "drop_abandoned co =
     (case co_round co of None \<Rightarrow> co | Some r \<Rightarrow> if rn_state r = ABANDONED then drop_round co else co)"

definition catch_up :: "prims \<Rightarrow> nat \<Rightarrow> (int \<Rightarrow> bool res) \<Rightarrow> int \<Rightarrow> Coordinator \<Rightarrow> Coordinator res" where
  "catch_up c fuel behind now co =
     rbind (if co_settling co = None then Inr co else check_settled c fuel (flush_settle c (tick_settling now co))) (\<lambda>co1.
     rbind (if co_round co1 = None then Inr co1
            else rbind (tick_round c fuel now co1) (\<lambda>co2. Inr (drop_abandoned (flush_round c co2)))) (\<lambda>co3.
     rbind (check_ratified c fuel co3) (close_current_bucket c behind now)))"

text \<open>The bodies of a message that are valid for the bucket.\<close>

fun good_bodies :: "prims \<Rightarrow> nat \<Rightarrow> Coordinator \<Rightarrow> MgmtReader \<Rightarrow> int \<Rightarrow> SignedTransaction list \<Rightarrow> SignedTransaction list res" where
  "good_bodies c fuel co m bucket [] = Inr []"
| "good_bodies c fuel co m bucket (tx # txs) =
     rbind (valid_for_bucket c fuel (co_mempool co) tx bucket (co_db co) (mgmt_auth c m)) (\<lambda>why.
     rbind (good_bodies c fuel co m bucket txs) (\<lambda>rest. Inr (if why = None then tx # rest else rest)))"

definition absorb_bodies :: "prims \<Rightarrow> nat \<Rightarrow> public_key \<Rightarrow> Verb \<Rightarrow> bytes \<Rightarrow> Round \<Rightarrow> Coordinator \<Rightarrow> Round res" where
  "absorb_bodies c fuel frm verb body r co =
     rbind (msg_decode verb body) (\<lambda>msg.
     case msg of
       M_Bodies b prev txs \<Rightarrow>
         if txs = [] then Inr (round_absorb c b prev frm [] r)
         else rbind (co_mgmt c co) (\<lambda>m.
           rbind (good_bodies c fuel co m (rn_bucket r) txs) (\<lambda>good. Inr (round_absorb c b prev frm good r)))
     | _ \<Rightarrow> Inr r)"

text \<open>
  \<^verbatim>\<open>_on_round_msg\<close>, with the clock read before and after the catch-up. A malformed message is
  dropped after the catch-up has happened; a message for another bucket likewise.
\<close>

definition on_round_msg ::
  "prims \<Rightarrow> nat \<Rightarrow> (int \<Rightarrow> bool res) \<Rightarrow> public_key \<Rightarrow> Verb \<Rightarrow> bytes \<Rightarrow> int \<Rightarrow> int \<Rightarrow> Coordinator \<Rightarrow> Coordinator res" where
  "on_round_msg c fuel behind frm verb body now now2 co =
     (case msg_bucket_of body of
        Inl RoundAdapterError \<Rightarrow> Inr co
      | Inl e \<Rightarrow> Inl e
      | Inr bucket \<Rightarrow>
          rbind (catch_up c fuel behind now co) (\<lambda>co1.
          case co_round co1 of
            None \<Rightarrow> Inr co1
          | Some r \<Rightarrow>
              if rn_bucket r \<noteq> bucket then Inr co1
              else
              (case (if verb = V_BODIES then absorb_bodies c fuel frm verb body r co1
                     else rbind (msg_decode verb body) (\<lambda>msg. round_receive c msg frm now2 r)) of
                 Inl RoundAdapterError \<Rightarrow> Inr co1
               | Inl e \<Rightarrow> Inl e
               | Inr r' \<Rightarrow> check_ratified c fuel (flush_round c (co1\<lparr>co_round := Some r'\<rparr>)))))"

definition on_settle_msg ::
  "prims \<Rightarrow> nat \<Rightarrow> (int \<Rightarrow> bool res) \<Rightarrow> public_key \<Rightarrow> Verb \<Rightarrow> bytes \<Rightarrow> int \<Rightarrow> Coordinator \<Rightarrow> Coordinator res" where
  "on_settle_msg c fuel behind frm verb body now co =
     (case slice_hash_of body of
        Inl SettleAdapterError \<Rightarrow> Inr co
      | Inl e \<Rightarrow> Inl e
      | Inr sh \<Rightarrow>
          rbind (catch_up c fuel behind now co) (\<lambda>co1.
          case co_settling co1 of
            None \<Rightarrow> Inr co1
          | Some s \<Rightarrow>
              if block_slice_hash c (st_block s) \<noteq> sh then Inr co1
              else
              (case rbind (settle_sig_decode verb body) (\<lambda>msg. settle_receive c msg frm (st_round s)) of
                 Inl SettleAdapterError \<Rightarrow> Inr co1
               | Inl e \<Rightarrow> Inl e
               | Inr sr \<Rightarrow> check_settled c fuel (flush_settle c (co1\<lparr>co_settling := Some (s\<lparr>st_round := sr\<rparr>)\<rparr>)))))"

definition on_round_close :: "prims \<Rightarrow> nat \<Rightarrow> int \<Rightarrow> int \<Rightarrow> Coordinator \<Rightarrow> Coordinator res" where
  "on_round_close c fuel bucket now co =
     (case co_round co of
        None \<Rightarrow> Inr co
      | Some r \<Rightarrow>
          if rn_bucket r \<noteq> bucket then Inr co
          else rbind (tick_round c fuel now co) (\<lambda>co1. check_ratified c fuel (flush_round c co1)))"

definition on_round_abandon :: "prims \<Rightarrow> nat \<Rightarrow> int \<Rightarrow> int \<Rightarrow> Coordinator \<Rightarrow> Coordinator res" where
  "on_round_abandon c fuel bucket now co =
     (case co_round co of
        None \<Rightarrow> Inr co
      | Some r \<Rightarrow>
          if rn_bucket r \<noteq> bucket then Inr co
          else rbind (tick_round c fuel now co) (\<lambda>co1. Inr (drop_abandoned co1)))"

definition on_settle_abandon :: "prims \<Rightarrow> digest \<Rightarrow> int \<Rightarrow> Coordinator \<Rightarrow> Coordinator res" where
  "on_settle_abandon c sh now co =
     (case co_settling co of
        None \<Rightarrow> Inr co
      | Some s \<Rightarrow>
          if block_slice_hash c (st_block s) \<noteq> sh then Inr co
          else let sr = settle_tick now (st_round s); co1 = co\<lparr>co_settling := Some (s\<lparr>st_round := sr\<rparr>)\<rparr>
               in if sr_state sr = S_ABANDONED then do_settle_abandoned (cancel_settle_timer co1) else Inr co1)"

definition on_bucket_tick :: "prims \<Rightarrow> (int \<Rightarrow> bool res) \<Rightarrow> int \<Rightarrow> Coordinator \<Rightarrow> Coordinator res" where
  "on_bucket_tick c behind now co =
     rbind (close_current_bucket c behind now co) (\<lambda>co1. Inr (schedule_bucket_tick now co1))"

text \<open>The loop's dispatch on the events the coordinator registers.\<close>

fun co_handle :: "prims \<Rightarrow> nat \<Rightarrow> (int \<Rightarrow> bool res) \<Rightarrow> CoEvent \<Rightarrow> int \<Rightarrow> int \<Rightarrow> Coordinator \<Rightarrow> Coordinator res" where
  "co_handle c fuel behind (RoundMessage frm verb body) now now2 co = on_round_msg c fuel behind frm verb body now now2 co"
| "co_handle c fuel behind (SettleMessage frm verb body) now now2 co = on_settle_msg c fuel behind frm verb body now co"
| "co_handle c fuel behind (RoundClose bucket) now now2 co = on_round_close c fuel bucket now co"
| "co_handle c fuel behind (RoundAbandon bucket) now now2 co = on_round_abandon c fuel bucket now co"
| "co_handle c fuel behind (SettleAbandon sh) now now2 co = on_settle_abandon c sh now co"
| "co_handle c fuel behind BucketTick now now2 co = on_bucket_tick c behind now co"
| "co_handle c fuel behind (SendConsensus peer msg) now now2 co = Inl TypeError"
| "co_handle c fuel behind BlockSettled now now2 co = Inl TypeError"

end
