(* ===== verification/Coordinator_Props.thy ===== *)
theory Coordinator_Props
  imports Coordinator
begin

text \<open>
  The coordinator's invariant over every handler, what a promotion commits to and why committing it
  cannot fail, and two behaviours of the code that its comments do not announce.
\<close>

section \<open>The invariant\<close>

definition slot_ok :: "prims \<Rightarrow> Settling \<Rightarrow> bool" where
  "slot_ok c s \<longleftrightarrow> settle_run c (st_round s) \<and> sr_anchors (st_round s) = st_anchors s \<and> sr_block (st_round s) = st_block s"

definition co_inv :: "prims \<Rightarrow> Coordinator \<Rightarrow> bool" where
  "co_inv c co \<longleftrightarrow>
     (co_round co = None \<longrightarrow> co_close_timer co = None \<and> co_abandon_timer co = None) \<and>
     (\<forall>r. co_round co = Some r \<longrightarrow> round_run c r) \<and>
     (co_settling co = None \<longrightarrow> co_settle_timer co = None) \<and>
     (\<forall>s. co_settling co = Some s \<longrightarrow> slot_ok c s)"

lemma co_inv_bucket [simp]: "co_inv c (co\<lparr>co_bucket := b\<rparr>) = co_inv c co"
  by (simp add: co_inv_def)

lemma co_inv_post [simp]: "co_inv c (co_post es co) = co_inv c co"
  by (simp add: co_inv_def co_post_def)

lemma co_inv_round: "co_inv c co \<Longrightarrow> round_run c r \<Longrightarrow> co_inv c (co\<lparr>co_round := Some r\<rparr>)"
  by (simp add: co_inv_def)

lemma co_inv_settling: "co_inv c co \<Longrightarrow> slot_ok c s \<Longrightarrow> co_inv c (co\<lparr>co_settling := Some s\<rparr>)"
  by (simp add: co_inv_def)

lemma co_inv_drop_round [simp]: "co_inv c co \<Longrightarrow> co_inv c (drop_round co)"
  by (simp add: co_inv_def drop_round_def cancel_round_timers_def)

lemma co_invD: "co_inv c co \<Longrightarrow> co_round co = Some r \<Longrightarrow> round_run c r" "co_inv c co \<Longrightarrow> co_settling co = Some s \<Longrightarrow> slot_ok c s"
  by (simp_all add: co_inv_def)

lemma flush_round_inv [simp]: "co_inv c co \<Longrightarrow> co_inv c (flush_round c co)"
proof (cases "co_round co")
  case (Some r)
  assume inv: "co_inv c co"
  have "round_run c (snd (round_outbox r))" using round_run.drain co_invD(1)[OF inv Some] by blast
  then show ?thesis using inv Some by (auto simp: flush_round_def co_inv_round split: prod.split)
qed (simp add: flush_round_def)

lemma slot_drain: "slot_ok c s \<Longrightarrow> slot_ok c (s\<lparr>st_round := snd (settle_outbox (st_round s))\<rparr>)"
  by (auto simp: slot_ok_def settle_outbox_def dest: settle_run.drain)

lemma slot_tick: "slot_ok c s \<Longrightarrow> slot_ok c (s\<lparr>st_round := settle_tick now (st_round s)\<rparr>)"
  using settle_run.tick[of c "st_round s" now] by (auto simp: slot_ok_def settle_tick_def)

lemma flush_settle_inv [simp]: "co_inv c co \<Longrightarrow> co_inv c (flush_settle c co)"
proof (cases "co_settling co")
  case (Some s)
  assume inv: "co_inv c co"
  have "slot_ok c (s\<lparr>st_round := snd (settle_outbox (st_round s))\<rparr>)" by (rule slot_drain[OF co_invD(2)[OF inv Some]])
  then show ?thesis using inv Some by (auto simp: flush_settle_def co_inv_settling split: prod.split)
qed (simp add: flush_settle_def)

lemma try_settle_frame:
  "try_settle r = Inr r' \<Longrightarrow> sr_anchors r' = sr_anchors r \<and> sr_block r' = sr_block r \<and> sr_roster r' = sr_roster r"
  by (auto simp: try_settle_def rbind_Inr_conv split: if_splits)

lemma slot_receive:
  assumes "slot_ok c s" "settle_receive c msg from (st_round s) = Inr sr"
  shows "slot_ok c (s\<lparr>st_round := sr\<rparr>)"
proof -
  have "settle_run c sr" using assms by (auto simp: slot_ok_def intro: settle_run.receive)
  moreover from assms(2) have "sr_anchors sr = sr_anchors (st_round s) \<and> sr_block sr = sr_block (st_round s)"
    by (cases rule: settle_receive_cases) (auto dest: try_settle_frame)
  ultimately show ?thesis using assms(1) by (simp add: slot_ok_def)
qed

lemma settle_new_frame:
  assumes "settle_new c block me roster anchors abandon_by = Inr r"
  shows "sr_anchors r = anchors \<and> sr_block r = block \<and> sr_roster r = roster"
proof -
  have mem: "kp_public c me \<in> set roster" using assms by (rule contrapos_pp) (simp add: settle_new_def)
  then obtain r0 where "try_settle r0 = Inr r" "sr_anchors r0 = anchors" "sr_block r0 = block" "sr_roster r0 = roster"
    using assms by (simp add: settle_new_def Let_def rbind_Inr_conv) force
  then show ?thesis using try_settle_frame by metis
qed

text \<open>What a promotion that does not drop the round does.\<close>

lemma promote_cases:
  assumes "promote_to_settling c fuel co = Inr co'"
  obtains (dropped) "co' = drop_round co"
  | (promoted) r block m roster L sc a sr s where
      "co_round co = Some r" "rn_ratified r = Some block" "round_slice_bodies r = Inr (rn_slice_bodies r)"
      "tip_of c (co_db co) = Inr (rn_prev_block r)" "mgmt_reader c (co_db co) = Inr m" "mg_roster c m = Inr roster"
      "screen_block c fuel (co_db co) (rn_slice_bodies r) = Inr (L, sc)" "sc_rejects sc = []"
      "anchors_of c (co_db co) L (sc_survivors sc) ((case sr_head_block_num (co_db co) of None \<Rightarrow> 0 | Some k \<Rightarrow> k) + 1) (rn_prev_block r) = Inr a"
      "settle_new c block (co_me co) roster a (co_abandon_by co (rn_bucket r)) = Inr sr"
      "s = \<lparr>st_bucket = rn_bucket r, st_block = block, st_layer = L, st_applied = sc_survivors sc, st_surviving = rn_surviving r,
            st_anchors = a, st_first_height = sr_head (co_db co) + 1, st_round = sr\<rparr>"
      "co' = flush_settle c ((drop_round (co\<lparr>co_settling := Some s\<rparr>))\<lparr>co_settle_timer :=
               Some (co_abandon_by co (rn_bucket r), SettleAbandon (block_slice_hash c block))\<rparr>)"
proof -
  obtain r block where rb: "co_round co = Some r" "rn_ratified r = Some block"
    using assms by (auto simp: promote_to_settling_def split: option.splits)
  obtain member where member: "in_roster c co = Inr member"
    using assms rb by (auto simp: promote_to_settling_def rbind_Inr_conv)
  show thesis
  proof (cases "co' = drop_round co")
    case False
    then have member: "in_roster c co = Inr True" using assms rb member by (cases member) (auto simp: promote_to_settling_def)
    have bodies: "round_slice_bodies r = Inr (rn_slice_bodies r)" using rb(2) by (simp add: round_slice_bodies_def)
    obtain sv where surv: "round_surviving r = Inr sv" using assms rb member bodies by (auto simp: promote_to_settling_def rbind_Inr_conv)
    then have sv: "sv = rn_surviving r" by (auto simp: round_surviving_def split: if_splits)
    obtain prev where prev: "co_prev_block c co = Inr prev"
      using assms rb member bodies surv by (auto simp: promote_to_settling_def rbind_Inr_conv)
    have same: "prev = rn_prev_block r"
      using assms rb member bodies surv prev False by (auto simp: promote_to_settling_def split: if_splits)
    obtain m roster where mr: "co_mgmt c co = Inr m" "mg_roster c m = Inr roster"
      using assms rb member bodies surv prev same by (auto simp: promote_to_settling_def rbind_Inr_conv)
    obtain L sc where sc: "screen_block c fuel (co_db co) (rn_slice_bodies r) = Inr (L, sc)"
      using assms rb member bodies surv prev same mr by (auto simp: promote_to_settling_def rbind_Inr_conv)
    have rej: "sc_rejects sc = []"
      using assms rb member bodies surv prev same mr sc False by (auto simp: promote_to_settling_def split: if_splits)
    obtain a where a: "anchors_of c (co_db co) L (sc_survivors sc) ((case sr_head_block_num (co_db co) of None \<Rightarrow> 0 | Some k \<Rightarrow> k) + 1) (rn_prev_block r) = Inr a"
      using assms rb member bodies surv prev same mr sc rej by (auto simp: promote_to_settling_def rbind_Inr_conv Let_def)
    obtain sr where sr: "settle_new c block (co_me co) roster a (co_abandon_by co (rn_bucket r)) = Inr sr"
      using assms rb member bodies surv prev same mr sc rej a by (auto simp: promote_to_settling_def rbind_Inr_conv Let_def)
    have "co' = flush_settle c ((drop_round (co\<lparr>co_settling := Some \<lparr>st_bucket = rn_bucket r, st_block = block, st_layer = L,
        st_applied = sc_survivors sc, st_surviving = rn_surviving r, st_anchors = a, st_first_height = sr_head (co_db co) + 1, st_round = sr\<rparr>\<rparr>))\<lparr>co_settle_timer :=
        Some (co_abandon_by co (rn_bucket r), SettleAbandon (block_slice_hash c block))\<rparr>)"
      using assms rb member bodies surv prev same mr sc rej a sr sv by (simp add: promote_to_settling_def Let_def)
    then show thesis using promoted[OF rb bodies _ _ mr(2) sc rej a sr refl] prev same mr(1) by (simp add: co_prev_block_def co_mgmt_def)
  qed (use dropped in blast)
qed

lemma promote_inv:
  assumes "co_inv c co" "promote_to_settling c fuel co = Inr co'"
  shows "co_inv c co'"
  using assms(2)
proof (cases rule: promote_cases)
  case dropped
  then show ?thesis using assms(1) by simp
next
  case (promoted r block m roster L sc a sr s)
  have "slot_ok c s"
    using settle_run.start[OF promoted(10)] settle_new_frame[OF promoted(10)] by (simp add: slot_ok_def promoted(11))
  then have "co_inv c ((drop_round (co\<lparr>co_settling := Some s\<rparr>))\<lparr>co_settle_timer := t\<rparr>)" for t
    using assms(1) by (simp add: co_inv_def drop_round_def cancel_round_timers_def)
  then show ?thesis unfolding promoted(12) by (rule flush_settle_inv)
qed

lemma check_ratified_inv:
  assumes "co_inv c co" "check_ratified c fuel co = Inr co'"
  shows "co_inv c co'"
proof -
  have "co' = co \<or> promote_to_settling c fuel co = Inr co'"
    using assms(2) by (auto simp: check_ratified_def rewrap_def split: option.splits if_splits sum.splits)
  then show ?thesis using assms(1) promote_inv by blast
qed

lemma do_settled_inv:
  assumes "co_inv c co" "do_settled c fuel (cancel_settle_timer co) = Inr co'"
  shows "co_inv c co'"
proof -
  obtain db mp where "co' = co_post [BlockSettled, BucketTick]
      ((cancel_settle_timer co)\<lparr>co_db := db, co_mempool := mp, co_settling := None, co_stalls := 0\<rparr>)"
    using assms(2) by (auto simp: do_settled_def rbind_Inr_conv split: option.splits)
  then show ?thesis using assms(1) by (simp add: co_inv_def co_post_def cancel_settle_timer_def)
qed

lemma do_settle_abandoned_inv:
  assumes "co_inv c co" "do_settle_abandoned (cancel_settle_timer co) = Inr co'"
  shows "co_inv c co'"
proof -
  obtain n where "co' = (cancel_settle_timer co)\<lparr>co_settling := None, co_stalls := n\<rparr>"
    using assms(2) by (auto simp: do_settle_abandoned_def split: option.splits if_splits)
  then show ?thesis using assms(1) by (simp add: co_inv_def cancel_settle_timer_def)
qed

lemma check_settled_inv:
  assumes "co_inv c co" "check_settled c fuel co = Inr co'"
  shows "co_inv c co'"
proof -
  have "co' = co \<or> do_settled c fuel (cancel_settle_timer co) = Inr co' \<or> do_settle_abandoned (cancel_settle_timer co) = Inr co'"
    using assms(2) by (auto simp: check_settled_def split: option.splits if_splits)
  then show ?thesis using assms(1) do_settled_inv do_settle_abandoned_inv by blast
qed

lemma open_round_cases:
  assumes "open_round c bucket frozen now co = Inr co'"
  obtains "co' = co"
  | m roster prev r r' where "mgmt_reader c (co_db co) = Inr m" "mg_roster c m = Inr roster" "tip_of c (co_db co) = Inr prev"
      "round_new c bucket (co_me co) roster prev now (co_close_by co bucket) (co_abandon_by co bucket) = Inr r"
      "add_local c (map snd (all_bodies c frozen)) r = Inr r'"
      "co' = flush_round c (co\<lparr>co_round := Some r', co_close_timer := Some (co_close_by co bucket, RoundClose bucket),
         co_abandon_timer := Some (co_abandon_by co bucket, RoundAbandon bucket)\<rparr>)"
  using assms by (auto simp: open_round_def co_mgmt_def co_prev_block_def rbind_Inr_conv split: if_splits)

lemma open_round_inv:
  assumes "co_inv c co" "open_round c bucket frozen now co = Inr co'"
  shows "co_inv c co'"
  using assms(2)
proof (cases rule: open_round_cases)
  case 1
  then show ?thesis using assms(1) by simp
next
  case (2 m roster prev r r')
  have "round_run c r'" by (rule round_run.local[OF round_run.start[OF 2(4)] 2(5)])
  then show ?thesis unfolding 2(6) using assms(1) by (intro flush_round_inv) (simp add: co_inv_def)
qed

lemma close_bucket_cases:
  assumes "close_current_bucket c behind now co = Inr co'"
  obtains "co' = co" | b where "co' = co\<lparr>co_bucket := b\<rparr>"
  | bucket co1 where "open_round c bucket (mp_snapshot (co_mempool co)) now co = Inr co1" "co' = co1\<lparr>co_bucket := bucket + 1\<rparr>"
      "co_round co = None" "bucket = bucket_of (co_tunables co) now - 1"
proof -
  let ?closed = "bucket_of (co_tunables co) now - 1"
  show thesis
  proof (cases "co_round co = None \<and> \<not> ?closed < co_bucket co \<and> \<not> now \<ge> co_close_by co ?closed")
    case True
    then obtain b where b: "behind now = Inr b" using assms by (auto simp: close_current_bucket_def Let_def rbind_Inr_conv)
    show thesis
    proof (cases b)
      case True': True
      then have "co' = co\<lparr>co_bucket := ?closed + 1\<rparr>" using assms True b by (simp add: close_current_bucket_def Let_def)
      then show thesis by (rule that(2))
    next
      case False
      then obtain co1 where "open_round c ?closed (mp_snapshot (co_mempool co)) now co = Inr co1" "co' = co1\<lparr>co_bucket := ?closed + 1\<rparr>"
        using assms True b by (auto simp: close_current_bucket_def Let_def rbind_Inr_conv)
      then show thesis using True that(3) by blast
    qed
  next
    case False
    then have "close_current_bucket c behind now co = Inr co \<or> close_current_bucket c behind now co = Inr (co\<lparr>co_bucket := ?closed + 1\<rparr>)"
      by (auto simp: close_current_bucket_def Let_def)
    then have "co' = co \<or> co' = co\<lparr>co_bucket := ?closed + 1\<rparr>" using assms by auto
    then show thesis using that(1,2) by blast
  qed
qed

lemma close_bucket_inv:
  assumes "co_inv c co" "close_current_bucket c behind now co = Inr co'"
  shows "co_inv c co'"
  using assms(2) by (cases rule: close_bucket_cases) (use assms(1) open_round_inv in auto)

lemma tick_round_inv:
  assumes "co_inv c co" "tick_round c fuel now co = Inr co'"
  shows "co_inv c co'"
proof -
  have "co' = co \<or> (\<exists>r r'. co_round co = Some r \<and> round_tick c (screen_slice c fuel (co_db co)) now r = Inr r' \<and> co' = co\<lparr>co_round := Some r'\<rparr>)"
    using assms(2) by (auto simp: tick_round_def rbind_Inr_conv split: option.splits)
  then show ?thesis using assms(1) co_inv_round round_run.tick co_invD(1) by metis
qed

lemma drop_abandoned_inv [simp]: "co_inv c co \<Longrightarrow> co_inv c (drop_abandoned co)"
  by (simp add: drop_abandoned_def split: option.split)

lemma tick_settling_inv [simp]: "co_inv c co \<Longrightarrow> co_inv c (tick_settling now co)"
  by (auto simp: tick_settling_def split: option.split intro!: co_inv_settling slot_tick dest: co_invD)

lemma catch_up_inv:
  assumes "co_inv c co" "catch_up c fuel behind now co = Inr co'"
  shows "co_inv c co'"
proof -
  obtain co1 co3 co4 where s: "(if co_settling co = None then Inr co else check_settled c fuel (flush_settle c (tick_settling now co))) = Inr co1"
      "(if co_round co1 = None then Inr co1 else rbind (tick_round c fuel now co1) (\<lambda>co2. Inr (drop_abandoned (flush_round c co2)))) = Inr co3"
      "check_ratified c fuel co3 = Inr co4" "close_current_bucket c behind now co4 = Inr co'"
    using assms(2) unfolding catch_up_def rbind_Inr_conv by blast
  have inv1: "co_inv c co1"
  proof (cases "co_settling co = None")
    case False
    have "check_settled c fuel (flush_settle c (tick_settling now co)) = Inr co1" using s(1) unfolding if_not_P[OF False] .
    then show ?thesis using check_settled_inv assms(1) by (metis flush_settle_inv tick_settling_inv)
  qed (use s(1) assms(1) in simp)
  have "co_inv c co3"
  proof (cases "co_round co1 = None")
    case False
    obtain co2 where "tick_round c fuel now co1 = Inr co2" "co3 = drop_abandoned (flush_round c co2)"
      using s(2) unfolding if_not_P[OF False] rbind_Inr_conv by blast
    then show ?thesis using tick_round_inv[OF inv1] by simp
  qed (use s(2) inv1 in simp)
  then show ?thesis using s(3,4) check_ratified_inv close_bucket_inv by blast
qed

lemma absorb_bodies_run:
  assumes "round_run c r" "absorb_bodies c fuel frm verb body r co = Inr r'"
  shows "round_run c r'"
proof -
  obtain msg where msg: "msg_decode verb body = Inr msg" using assms(2) by (auto simp: absorb_bodies_def rbind_Inr_conv)
  have "r' = r \<or> (\<exists>b prev txs. r' = round_absorb c b prev frm txs r)"
    using assms(2) msg by (cases msg) (auto simp: absorb_bodies_def rbind_Inr_conv split: if_splits)
  then show ?thesis using assms(1) round_run.absorb by blast
qed

lemma on_round_msg_inv:
  assumes "co_inv c co" "on_round_msg c fuel behind frm verb body now now2 co = Inr co'"
  shows "co_inv c co'"
proof (cases "msg_bucket_of body")
  case (Inl e)
  then show ?thesis using assms by (cases e) (auto simp: on_round_msg_def)
next
  case (Inr bucket)
  then obtain co1 where cu: "catch_up c fuel behind now co = Inr co1" using assms(2) by (auto simp: on_round_msg_def rbind_Inr_conv)
  have inv: "co_inv c co1" by (rule catch_up_inv[OF assms(1) cu])
  show ?thesis
  proof (cases "co' = co1")
    case False
    define act where "act r = (if verb = V_BODIES then absorb_bodies c fuel frm verb body r co1
        else rbind (msg_decode verb body) (\<lambda>msg. round_receive c msg frm now2 r))" for r
    obtain r where r: "co_round co1 = Some r" "rn_bucket r = bucket"
      using assms(2) Inr cu False by (auto simp: on_round_msg_def split: option.splits if_splits)
    have eq: "(case act r of Inl RoundAdapterError \<Rightarrow> Inr co1 | Inl e \<Rightarrow> Inl e
        | Inr r' \<Rightarrow> check_ratified c fuel (flush_round c (co1\<lparr>co_round := Some r'\<rparr>))) = Inr co'"
      using assms(2) Inr cu r by (simp add: on_round_msg_def act_def)
    obtain r' where r': "act r = Inr r'"
    proof (cases "act r")
      case (Inl e)
      then show thesis using eq False by (cases e) auto
    qed (use that in blast)
    have "round_run c r" by (rule co_invD(1)[OF inv r(1)])
    then have "round_run c r'"
      using r' absorb_bodies_run unfolding act_def by (auto simp: rbind_Inr_conv split: if_splits intro: round_run.receive)
    then have "co_inv c (flush_round c (co1\<lparr>co_round := Some r'\<rparr>))" using inv co_inv_round by simp
    then show ?thesis using eq r' check_ratified_inv by simp
  qed (use inv in simp)
qed

lemma on_settle_msg_inv:
  assumes "co_inv c co" "on_settle_msg c fuel behind frm verb body now co = Inr co'"
  shows "co_inv c co'"
proof (cases "slice_hash_of body")
  case (Inl e)
  then show ?thesis using assms by (cases e) (auto simp: on_settle_msg_def)
next
  case (Inr sh)
  then obtain co1 where cu: "catch_up c fuel behind now co = Inr co1" using assms(2) by (auto simp: on_settle_msg_def rbind_Inr_conv)
  have inv: "co_inv c co1" by (rule catch_up_inv[OF assms(1) cu])
  show ?thesis
  proof (cases "co' = co1")
    case False
    obtain s where s: "co_settling co1 = Some s" "block_slice_hash c (st_block s) = sh"
      using assms(2) Inr cu False by (auto simp: on_settle_msg_def split: option.splits if_splits)
    define act where "act = rbind (settle_sig_decode verb body) (\<lambda>msg. settle_receive c msg frm (st_round s))"
    have eq: "(case act of Inl SettleAdapterError \<Rightarrow> Inr co1 | Inl e \<Rightarrow> Inl e
        | Inr sr \<Rightarrow> check_settled c fuel (flush_settle c (co1\<lparr>co_settling := Some (s\<lparr>st_round := sr\<rparr>)\<rparr>))) = Inr co'"
      using assms(2) Inr cu s by (simp add: on_settle_msg_def act_def)
    obtain sr where sr: "act = Inr sr"
    proof (cases act)
      case (Inl e)
      then show thesis using eq False by (cases e) auto
    qed (use that in blast)
    have "slot_ok c (s\<lparr>st_round := sr\<rparr>)"
      using sr slot_receive[OF co_invD(2)[OF inv s(1)]] unfolding act_def by (auto simp: rbind_Inr_conv)
    then have "co_inv c (flush_settle c (co1\<lparr>co_settling := Some (s\<lparr>st_round := sr\<rparr>)\<rparr>))" using inv co_inv_settling by simp
    then show ?thesis using eq sr check_settled_inv by simp
  qed (use inv in simp)
qed

lemma on_settle_abandon_inv:
  assumes "co_inv c co" "on_settle_abandon c sh now co = Inr co'"
  shows "co_inv c co'"
proof (cases "co' = co")
  case False
  then obtain s where s: "co_settling co = Some s" "block_slice_hash c (st_block s) = sh"
    using assms(2) by (auto simp: on_settle_abandon_def split: option.splits if_splits)
  let ?co1 = "co\<lparr>co_settling := Some (s\<lparr>st_round := settle_tick now (st_round s)\<rparr>)\<rparr>"
  have inv: "co_inv c ?co1" using slot_tick[OF co_invD(2)[OF assms(1) s(1)]] assms(1) co_inv_settling by blast
  have "co' = ?co1 \<or> do_settle_abandoned (cancel_settle_timer ?co1) = Inr co'"
    using assms(2) s by (auto simp: on_settle_abandon_def Let_def split: if_splits)
  then show ?thesis using inv do_settle_abandoned_inv by blast
qed (use assms(1) in simp)

lemma handler_inv:
  assumes "co_inv c co" "co_handle c fuel behind e now now2 co = Inr co'"
  shows "co_inv c co'"
proof (cases e)
  case (RoundClose bucket)
  then have "co' = co \<or> (\<exists>co1. tick_round c fuel now co = Inr co1 \<and> check_ratified c fuel (flush_round c co1) = Inr co')"
    using assms(2) by (auto simp: on_round_close_def rbind_Inr_conv split: option.splits if_splits)
  then show ?thesis using assms(1) tick_round_inv check_ratified_inv flush_round_inv by metis
next
  case (RoundAbandon bucket)
  then have "co' = co \<or> (\<exists>co1. tick_round c fuel now co = Inr co1 \<and> co' = drop_abandoned co1)"
    using assms(2) by (auto simp: on_round_abandon_def rbind_Inr_conv split: option.splits if_splits)
  then show ?thesis using assms(1) tick_round_inv drop_abandoned_inv by metis
next
  case BucketTick
  then obtain co1 where "close_current_bucket c behind now co = Inr co1" "co' = schedule_bucket_tick now co1"
    using assms(2) by (auto simp: on_bucket_tick_def rbind_Inr_conv)
  moreover have "co_inv c co1 \<Longrightarrow> co_inv c (schedule_bucket_tick now co1)"
    by (simp add: schedule_bucket_tick_def Let_def co_inv_def co_post_def)
  ultimately show ?thesis using close_bucket_inv[OF assms(1)] by blast
next
  case (RoundMessage frm verb body)
  then show ?thesis using assms(2) on_round_msg_inv[OF assms(1)] by simp
next
  case (SettleMessage frm verb body)
  then show ?thesis using assms(2) on_settle_msg_inv[OF assms(1)] by simp
next
  case (SettleAbandon sh)
  then show ?thesis using assms(2) on_settle_abandon_inv[OF assms(1)] by simp
qed (use assms(2) in simp_all)

text \<open>The runs of a coordinator: its handlers and submissions, while others may write the store.\<close>

inductive co_run :: "prims \<Rightarrow> nat \<Rightarrow> Coordinator \<Rightarrow> bool" for c fuel where
  fresh: "co_run c fuel (co_start now (co_new me db t))"
| submit: "co_run c fuel co \<Longrightarrow> co_submit c fuel tx now co = Inr (why, co') \<Longrightarrow> co_run c fuel co'"
| handle: "co_run c fuel co \<Longrightarrow> co_handle c fuel behind e now now2 co = Inr co' \<Longrightarrow> co_run c fuel co'"
| store: "co_run c fuel co \<Longrightarrow> co_run c fuel (co\<lparr>co_db := db\<rparr>)"

lemma co_run_inv: "co_run c fuel co \<Longrightarrow> co_inv c co"
proof (induction rule: co_run.induct)
  case (fresh now me db t)
  then show ?case by (simp add: co_start_def co_new_def co_inv_def co_post_def)
next
  case (submit co tx now why co')
  then obtain mp where "co' = co \<or> co' = co\<lparr>co_mempool := mp\<rparr>"
    by (auto simp: co_submit_def rbind_Inr_conv split: if_splits)
  then show ?case using submit.IH by (auto simp: co_inv_def)
next
  case (handle co behind e now now2 co')
  then show ?case using handler_inv by blast
next
  case (store co db)
  then show ?case by (simp add: co_inv_def)
qed

text \<open>
  C16: In every run of a coordinator, whatever messages, timers, submissions and writes of others
  come in whatever order: its round, if it has one, is in a state that a run of the round protocol
  reaches, its settle round is in one that a run of the settle protocol reaches and is on the
  anchors and the block of its slot; and with no round there is no round timer, with no settle slot
  no settle timer, so that no timer outlives what it was set for.
\<close>

theorem coordinator_invariant:
  assumes "co_run c fuel co"
  shows "(\<forall>r. co_round co = Some r \<longrightarrow> round_run c r) \<and>
    (\<forall>s. co_settling co = Some s \<longrightarrow> settle_run c (st_round s) \<and> sr_anchors (st_round s) = st_anchors s \<and> sr_block (st_round s) = st_block s) \<and>
    (co_round co = None \<longrightarrow> co_close_timer co = None \<and> co_abandon_timer co = None) \<and>
    (co_settling co = None \<longrightarrow> co_settle_timer co = None)"
  using co_run_inv[OF assms] by (simp add: co_inv_def slot_ok_def)

theorem coordinator_invariant_witness:
  "co_run (sample []) 5 (co_start 4 (co_new (replicate 32 7) db_home DEFAULT)) \<and>
   co_settle_timer (co_start 4 (co_new (replicate 32 7) db_home DEFAULT)) = None"
proof -
  have run: "co_run (sample []) 5 (co_start 4 (co_new (replicate 32 7) db_home DEFAULT))" by (rule co_run.fresh)
  have "co_settling (co_start 4 (co_new (replicate 32 7) db_home DEFAULT)) = None" by (simp add: co_start_def co_new_def co_post_def)
  then show ?thesis using coordinator_invariant[OF run] run by blast
qed

section \<open>Settling what was signed\<close>

text \<open>
  A slot as a promotion fills it on a store: the batch screens without a reject, the anchors are
  those of the screen, one block above the head of the chain.
\<close>

definition next_num :: "Db \<Rightarrow> int" where
  "next_num db = (case sr_head_block_num db of None \<Rightarrow> 0 | Some k \<Rightarrow> k) + 1"

definition slot_exact :: "prims \<Rightarrow> nat \<Rightarrow> Db \<Rightarrow> Settling \<Rightarrow> bool" where
  "slot_exact c fuel db s \<longleftrightarrow> slot_ok c s \<and> st_first_height s = sr_head db + 1 \<and>
     (\<exists>m L sc prev. mgmt_reader c db = Inr m \<and> tip_of c db = Inr prev \<and>
        screen_block c fuel db (st_applied s) = Inr (L, sc) \<and> sc_rejects sc = [] \<and>
        anchors_of c db L (sc_survivors sc) (next_num db) prev = Inr (st_anchors s))"

lemma screen_survivors: "screen_block c fuel db batch = Inr (L, sc) \<Longrightarrow> sc_rejects sc = [] \<Longrightarrow> sc_survivors sc = batch"
  using apply_to_loop_accepts by (fastforce simp: screen_block_def rbind_Inr_conv apply_to_def)

lemma promote_slot_exact:
  assumes "promote_to_settling c fuel co = Inr co1" "co_settling co = None" "co_settling co1 = Some s"
  shows "slot_exact c fuel (co_db co) s"
  using assms(1)
proof (cases rule: promote_cases)
  case dropped
  then show ?thesis using assms(2,3) by (simp add: drop_round_def cancel_round_timers_def)
next
  case (promoted r block m roster L sc a sr s0)
  have s: "s = s0\<lparr>st_round := snd (settle_outbox sr)\<rparr>"
    using assms(3) unfolding promoted(12)
    by (auto simp: promoted(11) flush_settle_def drop_round_def cancel_round_timers_def co_post_def split: prod.splits)
  have "slot_ok c s0"
    using settle_run.start[OF promoted(10)] settle_new_frame[OF promoted(10)] by (simp add: slot_ok_def promoted(11))
  then have "slot_ok c s" using slot_drain[of c s0] by (simp add: s promoted(11))
  moreover have "sc_survivors sc = rn_slice_bodies r" by (rule screen_survivors[OF promoted(7,8)])
  ultimately show ?thesis
    using promoted(4,5,7,8,9) unfolding slot_exact_def next_num_def by (auto simp: s promoted(11))
qed

lemma below_next: "x \<in> set (db_block db) \<Longrightarrow> bk_block_num x < next_num db"
proof -
  assume x: "x \<in> set (db_block db)"
  then have "bk_block_num x \<le> Max (bk_block_num ` set (db_block db))" by simp
  moreover have "db_block db \<noteq> []" using x by auto
  ultimately show ?thesis by (simp add: next_num_def sr_head_block_num_def)
qed

text \<open>
  C4: What the quorum signed is what the store becomes. A promotion that fills the settle slot fills
  it with a batch that screens without a reject on the store and with the anchors of that screen.
  When the settle round of such a slot reaches a settled block while the store is as it was, then
  committing it cannot fail, on a store and with transactions for which previews are exact and with
  a block hash that is new: the store then has the height, the state root and both accumulators of
  the signed anchors, its head is the settled block, exactly the slice is added to the log, the
  mempool holds none of it any more, and the slot is free.
\<close>

theorem settled_is_what_was_signed:
  assumes "sign_correct c" "slot_exact c fuel (co_db co) s" "sr_settled (st_round s) = Some sb" "co_settling co = Some s"
    and "exact_preview c G (co_db co) (st_applied s)" "block_hash c sb \<notin> bk_hash ` set (db_block (co_db co))"
    and "in_range (next_num (co_db co))" "in_range (st_first_height s)"
  shows "(promote_to_settling c fuel co0 = Inr co1 \<and> co_settling co0 = None \<and> co_settling co1 = Some s1 \<longrightarrow>
      slot_exact c fuel (co_db co0) s1 \<and>
      (settle_receive c msg from (st_round s1) = Inr r' \<longrightarrow> slot_exact c fuel (co_db co0) (s1\<lparr>st_round := r'\<rparr>))) \<and>
    (\<exists>co2. do_settled c fuel co = Inr co2 \<and>
      expect_anchors c (sb_anchors sb) (co_db co2) = Inr () \<and> db_ok c (co_db co2) \<and> log_ok G (co_db co2) \<and>
      sr_head_block_hash (co_db co2) = Inr (Some (block_hash c sb)) \<and>
      en_op_hash ` set (db_entry (co_db co2)) = en_op_hash ` set (db_entry (co_db co)) \<union> op_hash c ` set (st_applied s) \<and>
      all_hashes (co_mempool co2) \<inter> op_hash c ` set (st_applied s) = {} \<and> co_settling co2 = None)"
proof -
  let ?db = "co_db co" and ?n = "next_num (co_db co)" and ?batch = "st_applied s"
  obtain m L sc prev where ok: "slot_ok c s" "st_first_height s = sr_head ?db + 1"
      and x: "mgmt_reader c ?db = Inr m" "screen_block c fuel ?db ?batch = Inr (L, sc)" "sc_rejects sc = []"
        "anchors_of c ?db L (sc_survivors sc) ?n prev = Inr (st_anchors s)"
    using assms(2) by (auto simp: slot_exact_def)
  have anch: "sb_anchors sb = st_anchors s"
    using settle_run_inv[OF assms(1), of "st_round s"] ok(1) assms(3) by (simp add: slot_ok_def settled_ok_def)
  have num: "an_block_num (st_anchors s) = ?n" using anchors_of_names[OF x(4)] by simp
  have fresh: "find_block ?db ?n = None" using below_next by (force simp: find_block_def find_None_iff)
  have ranges: "in_range ?n" "in_range (sr_head ?db + 1)" using assms(7,8) ok(2) by simp_all
  obtain out db' where com: "commit_block c fuel ?n (sr_head ?db + 1) (sb_encode sb) (block_hash c sb) ?batch (mgmt_auth c m) ?db = Inr (out, db')"
      and post: "expect_anchors c (st_anchors s) db' = Inr ()" "db_ok c db'" "log_ok G db'"
      "db_block db' = db_block ?db @ [\<lparr>bk_block_num = ?n, bk_first_height = sr_head ?db + 1, bk_height = an_height (st_anchors s), bk_bytes = sb_encode sb, bk_hash = block_hash c sb\<rparr>]"
      "en_op_hash ` set (db_entry db') = en_op_hash ` set (db_entry ?db) \<union> op_hash c ` set ?batch"
    by (rule commit_screened_block[OF assms(5) x fresh ranges assms(6)])
  have "digest_width c" using assms(5) by (simp add: exact_preview_def)
  then have head: "sr_head_block_hash db' = Inr (Some (block_hash c sb))"
    using head_after_append(2)[OF post(4)] below_next by (simp add: block_hash_def h_def digest_width_def)
  let ?co2 = "co_post [BlockSettled, BucketTick] (co\<lparr>co_db := db', co_mempool := evict_settled db' (co_mempool co), co_settling := None, co_stalls := 0\<rparr>)"
  have "do_settled c fuel co = Inr ?co2"
    using assms(3,4) x(1) com post(1) num ok(2) by (simp add: do_settled_def co_mgmt_def)
  moreover have "all_hashes (evict_settled db' (co_mempool co)) \<inter> op_hash c ` set ?batch = {}"
    unfolding all_hashes_entries evict_pool using post(5) by auto
  ultimately have main: "\<exists>co2. do_settled c fuel co = Inr co2 \<and>
      expect_anchors c (sb_anchors sb) (co_db co2) = Inr () \<and> db_ok c (co_db co2) \<and> log_ok G (co_db co2) \<and>
      sr_head_block_hash (co_db co2) = Inr (Some (block_hash c sb)) \<and>
      en_op_hash ` set (db_entry (co_db co2)) = en_op_hash ` set (db_entry (co_db co)) \<union> op_hash c ` set (st_applied s) \<and>
      all_hashes (co_mempool co2) \<inter> op_hash c ` set (st_applied s) = {} \<and> co_settling co2 = None"
    using post(1-3,5) anch head by (intro exI[of _ ?co2]) (simp add: co_post_def)
  have keep: "slot_exact c fuel (co_db co0) (s1\<lparr>st_round := r'\<rparr>)"
    if "slot_exact c fuel (co_db co0) s1" "settle_receive c msg from (st_round s1) = Inr r'"
  proof -
    have "slot_ok c (s1\<lparr>st_round := r'\<rparr>)" using that(1) slot_receive[OF _ that(2)] by (simp add: slot_exact_def)
    then show ?thesis using that(1) by (simp add: slot_exact_def)
  qed
  have fills: "slot_exact c fuel (co_db co0) s1"
    if "promote_to_settling c fuel co0 = Inr co1 \<and> co_settling co0 = None \<and> co_settling co1 = Some s1"
    using that promote_slot_exact by simp
  show ?thesis by (intro conjI impI fills keep main) simp_all
qed

text \<open>A slot on the provisioned store: the empty block, a roster of one.\<close>

definition home_anchors :: Anchors where
  "home_anchors = \<lparr>an_block_num = 1, an_height = 0, an_prev_block = genesis_stamp (sample []) (kp_public (sample []) [1]),
     an_state_root = EMPTY, an_acc_state = ACC_IDENTITY, an_acc_log = ACC_IDENTITY\<rparr>"

lemma home_settles:
  "\<exists>sr sb. settle_new (sample []) \<lparr>bl_bucket = 4, bl_hashes = []\<rparr> sole_seed [kp_public (sample []) sole_seed] home_anchors t = Inr sr \<and>
     sr_settled sr = Some sb"
proof -
  obtain ms where "ms_combine [(0, ss_sig (settle_sign (sample []) sole_seed
      (block_slice_hash (sample []) \<lparr>bl_bucket = 4, bl_hashes = []\<rparr>) home_anchors))] 2 = Inr ms"
    using sole_combine by blast
  then show ?thesis
    by (simp add: settle_new_def Let_def quorum_one try_settle_def settle_shares_def enumerate_Suc_eq map_filter_simps numeral_2_eq_2)
qed

theorem settled_is_what_was_signed_witness:
  "\<exists>s sb co2. sr_settled (st_round s) = Some sb \<and> slot_exact (sample []) 5 db_home s \<and>
     do_settled (sample []) 5 ((co_new sole_seed db_home DEFAULT)\<lparr>co_settling := Some s\<rparr>) = Inr co2 \<and>
     expect_anchors (sample []) (sb_anchors sb) (co_db co2) = Inr () \<and>
     sr_head_block_hash (co_db co2) = Inr (Some (block_hash (sample []) sb))"
proof -
  let ?c = "sample []"
  obtain sr sb where sr: "settle_new ?c \<lparr>bl_bucket = 4, bl_hashes = []\<rparr> sole_seed [kp_public ?c sole_seed] home_anchors 20 = Inr sr"
      "sr_settled sr = Some sb" using home_settles by blast
  obtain L where L: "layer_new (store_view ?c db_home) = Inr L" by (simp add: layer_new_def store_view_def)
  then have screen: "screen_block ?c 5 db_home [] = Inr (ov_freeze L, \<lparr>sc_survivors = [], sc_rejects = []\<rparr>)"
    by (simp add: screen_block_def home_reader apply_to_def)
  define s where "s = \<lparr>st_bucket = 4, st_block = \<lparr>bl_bucket = 4, bl_hashes = []\<rparr>, st_layer = ov_freeze L, st_applied = [],
     st_surviving = [], st_anchors = home_anchors, st_first_height = 1, st_round = sr\<rparr>"
  have num: "next_num db_home = 1" by (simp add: next_num_def sr_head_block_num_def home_sel)
  have "tip_of ?c db_home = Inr (an_prev_block home_anchors)"
    by (simp add: tip_of_def sr_head_block_hash_def home_sel home_anchor home_anchors_def)
  moreover have "anchors_of ?c db_home (ov_freeze L) [] 1 (an_prev_block home_anchors) = Inr home_anchors"
    using home_layer[OF L] by (simp add: anchors_of_def home_acc home_anchors_def)
  ultimately have slot: "slot_exact ?c 5 db_home s"
    using settle_run.start[OF sr(1)] settle_new_frame[OF sr(1)] home_reader screen num
    by (simp add: slot_exact_def slot_ok_def s_def home_acc)
  have "\<exists>co2. do_settled ?c 5 ((co_new sole_seed db_home DEFAULT)\<lparr>co_settling := Some s\<rparr>) = Inr co2 \<and>
      expect_anchors ?c (sb_anchors sb) (co_db co2) = Inr () \<and> sr_head_block_hash (co_db co2) = Inr (Some (block_hash ?c sb))"
    using settled_is_what_was_signed[OF sample_sign_correct[of "[]"], where fuel = 5 and
        co = "(co_new sole_seed db_home DEFAULT)\<lparr>co_settling := Some s\<rparr>" and s = s and sb = sb and G = "{b. length b = 32}"]
      slot sr(2) home_exact num by (simp add: co_new_def s_def home_sel in_range_def) blast
  then show ?thesis using slot sr(2) by (intro exI[of _ s] exI[of _ sb]) (auto simp: s_def)
qed

section \<open>Behaviours of note\<close>

text \<open>The events that the timers of the coordinator raise.\<close>

fun timer_event :: "CoEvent \<Rightarrow> bool" where
  "timer_event (RoundClose _) = True"
| "timer_event (RoundAbandon _) = True"
| "timer_event (SettleAbandon _) = True"
| "timer_event BucketTick = True"
| "timer_event _ = False"

lemma flush_round_keeps: "co_settling (flush_round c co) = co_settling co" "co_db (flush_round c co) = co_db co"
  by (auto simp: flush_round_def co_post_def split: option.split prod.split)

lemma tick_round_keeps: "tick_round c fuel now co = Inr co' \<Longrightarrow> co_settling co' = co_settling co \<and> co_db co' = co_db co"
  by (auto simp: tick_round_def rbind_Inr_conv split: option.splits)

lemma drop_abandoned_keeps: "co_settling (drop_abandoned co) = co_settling co" "co_db (drop_abandoned co) = co_db co"
  by (auto simp: drop_abandoned_def drop_round_def cancel_round_timers_def split: option.split)

lemma check_ratified_busy: "co_settling co = Some s \<Longrightarrow> check_ratified c fuel co = Inr co"
  by (simp add: check_ratified_def split: option.split)

lemma open_round_keeps:
  assumes "open_round c bucket frozen now co = Inr co'"
  shows "co_settling co' = co_settling co \<and> co_db co' = co_db co"
  using assms by (cases rule: open_round_cases) (simp_all add: flush_round_keeps)

lemma close_bucket_keeps:
  assumes "close_current_bucket c behind now co = Inr co'"
  shows "co_settling co' = co_settling co \<and> co_db co' = co_db co"
  using assms by (cases rule: close_bucket_cases) (auto dest: open_round_keeps)

text \<open>
  The coordinator looks whether its settle round has settled only after a message has come in: while its slot holds a settled
  round, no timer event commits the block, and the slot keeps it.
\<close>

lemma settled_slot_waits:
  assumes "co_settling co = Some s" "sr_settled (st_round s) = Some sb" "sr_state (st_round s) = SETTLED"
    and "timer_event e" "co_handle c fuel behind e now now2 co = Inr co'"
  shows "co_db co' = co_db co \<and>
    (\<exists>s'. co_settling co' = Some s' \<and> sr_settled (st_round s') = Some sb \<and> sr_state (st_round s') = SETTLED)"
proof (cases e)
  case (RoundClose bucket)
  then consider "co' = co" | co1 where "tick_round c fuel now co = Inr co1" "check_ratified c fuel (flush_round c co1) = Inr co'"
    using assms(5) by (auto simp: on_round_close_def rbind_Inr_conv split: option.splits if_splits)
  then show ?thesis
  proof cases
    case 2
    then have "co_settling (flush_round c co1) = Some s" "co_db (flush_round c co1) = co_db co"
      using tick_round_keeps assms(1) by (simp_all add: flush_round_keeps)
    then show ?thesis using 2(2) check_ratified_busy[of "flush_round c co1" s c fuel] assms(2,3) by auto
  qed (use assms in auto)
next
  case (RoundAbandon bucket)
  then consider "co' = co" | co1 where "tick_round c fuel now co = Inr co1" "co' = drop_abandoned co1"
    using assms(5) by (auto simp: on_round_abandon_def rbind_Inr_conv split: option.splits if_splits)
  then show ?thesis by cases (use assms(1-3) tick_round_keeps drop_abandoned_keeps in auto)
next
  case (SettleAbandon sh)
  have "settle_tick now (st_round s) = st_round s" using assms(3) by (simp add: settle_tick_def)
  then have "co' = co \<or> co' = co\<lparr>co_settling := Some s\<rparr>"
    using SettleAbandon assms(1,3,5) by (auto simp: on_settle_abandon_def split: if_splits)
  then show ?thesis using assms(1-3) by auto
next
  case BucketTick
  then obtain co1 where co1: "close_current_bucket c behind now co = Inr co1" "co' = schedule_bucket_tick now co1"
    using assms(5) by (auto simp: on_bucket_tick_def rbind_Inr_conv)
  have "co_settling co' = co_settling co1 \<and> co_db co' = co_db co1" by (simp add: co1(2) schedule_bucket_tick_def Let_def co_post_def)
  then show ?thesis using close_bucket_keeps[OF co1(1)] assms(1-3) by auto
qed (use assms(4) in simp_all)

lemma keyed_map: "\<forall>(k, tx) \<in> set B. k = f tx \<Longrightarrow> map (\<lambda>tx. (f tx, tx)) (map snd B) = B"
  by (induction B) auto

lemma map_of_dict: "distinct (map fst B) \<Longrightarrow> map_of (dict_update [] B) = map_of B"
proof -
  assume d: "distinct (map fst B)"
  have "map_of (rev B) = map_of B" using d by (intro map_of_rev_distinct) simp
  then show ?thesis by (simp add: map_of_dict_update)
qed

text \<open>
  The mempool holds a transaction until it settles, however old it is. Eviction, which takes no
  clock, keeps every transaction that is not settled; and a round that is given a snapshot of the
  pool, as the coordinator does when it opens one, holds and offers each of them, also those whose
  window of validity is long past.
\<close>

lemma unsettled_transactions_are_offered_forever:
  assumes "mempool_ok c mp" "(k, tx) \<in> set (pool_entries mp)" "k \<notin> en_op_hash ` set (db_entry db)"
    and "add_local c (map snd (all_bodies c (mp_snapshot (evict_settled db mp)))) r = Inr r'"
  shows "(k, tx) \<in> set (pool_entries (evict_settled db mp)) \<and>
    (\<exists>bodies. rn_local r' = Some bodies \<and> map_of bodies k = Some tx \<and> (ToAll, held_msg r bodies) \<in> set (rn_outbox r'))"
proof -
  let ?P = "pool_entries (evict_settled db mp)" and ?B = "all_bodies c (mp_snapshot (evict_settled db mp))"
  have kept: "(k, tx) \<in> set ?P" using assms(2,3) by (simp add: evict_pool)
  have ok: "distinct (map fst ?P)" "\<forall>(k, tx) \<in> set ?P. k = op_hash c tx"
    using mempool_ok_evict[OF assms(1), of db] by (simp_all add: mempool_ok_def)
  have "concat (map (\<lambda>(_, held). map snd held) (filter (\<lambda>(_, held). held \<noteq> []) xs)) = map snd (concat (map snd xs))"
    for xs :: "(int \<times> pool) list" by (induction xs) auto
  then have "?B = dict_update [] (map (\<lambda>tx. (op_hash c tx, tx)) (map snd ?P))"
    by (simp add: all_bodies_def mp_snapshot_def pool_entries_def)
  then have B: "?B = dict_update [] ?P" unfolding keyed_map[OF ok(2)] .
  have "distinct (map fst ?B) \<and> (\<forall>(k, tx) \<in> set ?B. k = op_hash c tx)"
    unfolding B by (rule dict_update_ok) (use ok(2) in simp_all)
  then have "by_hash c (map snd ?B) = dict_update [] ?B" "distinct (map fst ?B)"
    using keyed_map[of ?B "op_hash c"] by (simp_all add: by_hash_def)
  then have "map_of (by_hash c (map snd ?B)) = map_of ?P" using map_of_dict[OF ok(1)] B by (simp add: map_of_dict)
  then have "map_of (by_hash c (map snd ?B)) k = Some tx" using ok(1) kept by simp
  moreover have "rn_local r' = Some (by_hash c (map snd ?B))" "(ToAll, held_msg r (by_hash c (map snd ?B))) \<in> set (rn_outbox r')"
    using assms(4) by (auto simp: add_local_def Let_def push_def split: if_splits)
  ultimately show ?thesis using kept by blast
qed

lemma unsettled_transactions_are_offered_forever_witness:
  "\<exists>mp r r'. mp_pending mp = [(0, [(op_hash (sample []) soft_put, soft_put)])] \<and>
     round_new (sample []) 4000 sole_seed [kp_public (sample []) sole_seed] (replicate 32 0) 9000000 9000010 9000020 = Inr r \<and>
     add_local (sample []) (map snd (all_bodies (sample []) (mp_snapshot (evict_settled db_home mp)))) r = Inr r' \<and>
     (\<exists>bodies. rn_local r' = Some bodies \<and> map_of bodies (op_hash (sample []) soft_put) = Some soft_put)"
proof -
  let ?c = "sample []" and ?k = "op_hash (sample []) soft_put"
  define mp where "mp = \<lparr>mp_tunables = DEFAULT, mp_pending = [(0, [(?k, soft_put)])]\<rparr>"
  have e: "pool_entries mp = [(?k, soft_put)]" by (simp add: mp_def pool_entries_def)
  have ok: "mempool_ok ?c mp" by (simp add: mempool_ok_def e) (simp add: mp_def)
  obtain r where r: "round_new ?c 4000 sole_seed [kp_public ?c sole_seed] (replicate 32 0) 9000000 9000010 9000020 = Inr r"
      "rn_local r = None" "rn_state r = COLLECT"
    by (simp add: round_new_def quorum_one)
  then obtain r' where r': "add_local ?c (map snd (all_bodies ?c (mp_snapshot (evict_settled db_home mp)))) r = Inr r'"
    by (simp add: add_local_def Let_def)
  have "(?k, soft_put) \<in> set (pool_entries mp)" "?k \<notin> en_op_hash ` set (db_entry db_home)" by (simp_all add: e home_sel)
  from unsettled_transactions_are_offered_forever[OF ok this r']
  have "\<exists>bodies. rn_local r' = Some bodies \<and> map_of bodies ?k = Some soft_put" by blast
  moreover have "mp_pending mp = [(0, [(?k, soft_put)])]" by (simp add: mp_def)
  ultimately show ?thesis using r(1) r' by blast
qed

end
