(* ===== verification/Sample_Store.thy ===== *)
theory Sample_Store
  imports Coordinator_Props
begin

text \<open>
  A store with one seated node, on which the properties of replication are witnessed: provisioned to
  a manager, with the three rows of the node map that seat one key. The hash of the primitives is the
  sample hash that separates the paths of the three rows.
\<close>

definition seat_record :: "prims \<Rightarrow> NodeRecord" where
  "seat_record c = \<lparr>nr_identity = sole_seed, nr_endpoints = [], nr_cert = sign_roster c [1] sole_seed, nr_domains = {}\<rparr>"

definition seat_rows :: "prims \<Rightarrow> (bytes \<times> bytes) list" where
  "seat_rows c =
     [(meta_name P_NODE, meta_encode 1 ACC_IDENTITY),
      (P_NODE @ [1] @ be_bytes 4 0, sole_seed),
      (entry_name P_NODE sole_seed, entry_encode 0 (nr_encode_row (seat_record c)))]"

definition seat_names :: "bytes list" where
  "seat_names = [meta_name P_NODE, P_NODE @ [1] @ be_bytes 4 0, entry_name P_NODE sole_seed]"

definition seat_prims :: prims where
  "seat_prims = sample (map (\<lambda>nm. PERSON_PATH @ benc (BSeq [BInt 0, BBytes nm])) seat_names)"

definition seat_live :: "live_row list" where
  "seat_live = map (\<lambda>(nm, v). mk_row seat_prims (0, nm) \<lparr>held_value = v, held_epoch = 0, held_cred = []\<rparr>) (seat_rows seat_prims)"

definition db_seat :: Db where
  "db_seat = set_meta ''acc'' (acc_sum seat_prims seat_live) (set_meta ''anchor'' (kp_public seat_prims [1]) db_empty\<lparr>db_live := seat_live\<rparr>)"

lemma seat_laws: "digest_width seat_prims" "sign_correct seat_prims" "acc_laws seat_prims {b. length b = 32}"
  by (simp_all add: seat_prims_def sample_digest_width sample_sign_correct sample_acc_laws)

lemma seat_public: "kp_public seat_prims sd = pad_to 32 sd" "pad_to 32 sole_seed = sole_seed"
  by (simp_all add: seat_prims_def kp_public_def sample_def pad_to_def sole_seed_def)

lemmas small_bval = bencodable_def MAX_DEPTH_codec_def small_int_digits bdepth.simps

lemma seat_sig: "length (kp_sign seat_prims sd msg) = 64"
  by (simp add: seat_prims_def kp_sign_def sample_def)

lemma seat_names_distinct: "distinct seat_names"
  by (simp add: seat_names_def meta_name_def entry_name_def)

lemma seat_paths: "inj_on (\<lambda>nm. path_of seat_prims 0 nm) (set seat_names)"
proof (rule inj_onI)
  fix a b assume ab: "a \<in> set seat_names" "b \<in> set seat_names" "path_of seat_prims 0 a = path_of seat_prims 0 b"
  let ?f = "\<lambda>nm. PERSON_PATH @ benc (BSeq [BInt 0, BBytes nm])"
  have mem: "?f a \<in> set (map ?f seat_names)" unfolding set_map by (rule imageI[OF ab(1)])
  have len: "length (map ?f seat_names) < 2 ^ 16" by (simp add: seat_names_def)
  have "blake2b seat_prims [] PERSON_PATH 32 (benc (BSeq [BInt 0, BBytes a])) = blake2b seat_prims [] PERSON_PATH 32 (benc (BSeq [BInt 0, BBytes b]))"
    using ab(3) by (simp add: path_of_def h_domain_def)
  from sample_h_inject[OF mem len this[unfolded seat_prims_def] refl] have "?f a = ?f b" .
  then have eq: "benc (BSeq [BInt 0, BBytes a]) = benc (BSeq [BInt 0, BBytes b])" by simp
  have "bencodable (BSeq [BInt 0, BBytes x])" if "x \<in> set seat_names" for x
    using that by (auto simp: small_bval seat_names_def meta_name_def entry_name_def P_NODE_def sole_seed_def)
  from benc_inj[OF this[OF ab(1)] this[OF ab(2)] eq] show "a = b" by simp
qed

lemma seat_keys: "map lr_name seat_live = seat_names" "r \<in> set seat_live \<Longrightarrow> lr_store r = 0 \<and> lr_epoch r = 0 \<and> lr_path r = path_of seat_prims 0 (lr_name r)"
  by (auto simp: seat_live_def seat_names_def seat_rows_def mk_row_def)

lemma seat_table: "table_ok seat_prims seat_live"
proof -
  have "map lr_path seat_live = map (path_of seat_prims 0) seat_names"
    using seat_keys by (simp add: seat_keys(1)[symmetric])
  then have "distinct (map lr_path seat_live)" using seat_paths seat_names_distinct by (simp add: distinct_map)
  moreover have "length (path_of seat_prims 0 nm) = 32" for nm
    using seat_laws(1) by (simp add: path_of_def h_domain_def digest_width_def)
  ultimately show ?thesis using seat_keys(2) by (auto simp: table_ok_def rows_ok_def keyed_def)
qed

lemma seat_sel: "db_live db_seat = seat_live" "db_entry db_seat = []" "db_block db_seat = []" "db_memo db_seat = Map.empty"
   "get_meta db_seat ''anchor'' [] = kp_public seat_prims [1]" "get_meta db_seat ''acc'' ACC_IDENTITY = acc_sum seat_prims seat_live"
   "get_meta db_seat ''acc_log'' ACC_IDENTITY = ACC_IDENTITY" "get_meta db_seat ''head_floor'' [] = []"
  by (simp_all add: db_seat_def set_meta_def db_empty_def get_meta_def)

lemma seat_db_ok: "db_ok seat_prims db_seat"
  using seat_table seat_keys(2) by (simp add: db_ok_def seat_sel in_range_def)

lemma length_ACC_IDENTITY: "length ACC_IDENTITY = 32"
  by (simp add: ACC_IDENTITY_def)

lemma seat_reads: "sr_head db_seat = 0" "sr_log_accumulator db_seat = Inr ACC_IDENTITY" "sr_head_block_num db_seat = None"
    "sr_anchor db_seat = Inr (kp_public seat_prims [1])" "next_num db_seat = 1"
    "tip_of seat_prims db_seat = Inr (genesis_stamp seat_prims (kp_public seat_prims [1]))"
proof -
  have "length (kp_public seat_prims [1]) = 32" by (simp add: seat_public)
  then have "kp_public seat_prims [1] \<noteq> []" "PublicKey (kp_public seat_prims [1]) = Inr (kp_public seat_prims [1])" by (auto simp: fixed_def)
  then show a: "sr_anchor db_seat = Inr (kp_public seat_prims [1])" by (simp add: sr_anchor_def seat_sel)
  show "sr_head db_seat = 0" "sr_log_accumulator db_seat = Inr ACC_IDENTITY" "sr_head_block_num db_seat = None" "next_num db_seat = 1"
    using length_ACC_IDENTITY by (simp_all add: sr_head_def seat_sel from_bytes_def sr_log_accumulator_def fixed_def sr_head_block_num_def next_num_def)
  show "tip_of seat_prims db_seat = Inr (genesis_stamp seat_prims (kp_public seat_prims [1]))"
    by (simp add: tip_of_def sr_head_block_hash_def seat_sel a)
qed

lemma seat_exact: "exact_preview seat_prims {b. length b = 32} db_seat []"
proof -
  have rows: "inj_on (key_path seat_prims) (row_key ` set (db_live db_seat))"
  proof (rule inj_onI)
    fix x y assume "x \<in> row_key ` set (db_live db_seat)" "y \<in> row_key ` set (db_live db_seat)" and eq: "key_path seat_prims x = key_path seat_prims y"
    then obtain r r' where r: "r \<in> set seat_live" "r' \<in> set seat_live" "x = row_key r" "y = row_key r'" by (auto simp: seat_sel)
    then have "lr_name r \<in> set seat_names" "lr_name r' \<in> set seat_names" by (simp_all add: seat_keys(1)[symmetric])
    with eq show "x = y" using inj_onD[OF seat_paths] seat_keys(2) r by (auto simp: row_key_def key_path_def)
  qed
  then show ?thesis
    using seat_db_ok seat_laws length_ACC_IDENTITY
    by (simp add: exact_preview_def seat_reads seat_sel log_ok_def batch_ok_def batch_keys_def sr_has_settled_def)
qed

lemma seat_reader: "mgmt_reader seat_prims db_seat = Inr \<lparr>mg_session = \<lparr>se_reader = store_reader seat_prims db_seat, se_store_id = 0\<rparr>,
   mg_anchor = kp_public seat_prims [1]\<rparr>"
  by (simp add: mgmt_reader_def mgmt_new_def session_anchor_def store_reader_sel seat_reads)

lemma seat_get: "(nm, v) \<in> set (seat_rows seat_prims) \<Longrightarrow> live_get seat_live 0 nm = Some \<lparr>held_value = v, held_epoch = 0, held_cred = []\<rparr>"
  using seat_names_distinct
  by (auto simp: seat_live_def seat_rows_def seat_names_def live_get_def mk_row_def held_of_def)

lemma seat_entry_reads:
  "(nm, v) \<in> set (seat_rows seat_prims) \<Longrightarrow>
     mmap_get \<lparr>se_reader = store_reader seat_prims db_seat, se_store_id = 0\<rparr> nm = Inr (Some v)"
  using seat_get[of nm v]
  by (simp add: mmap_get_def session_get_def get_record_def session_token_def session_decrypt_def store_reader_sel sr_get_eq seat_sel in_range_def)

lemma seat_cert_lengths: "length (ct_signer (nr_cert (seat_record c))) = 32 \<Longrightarrow> length (ct_sig (nr_cert (seat_record c))) = 64 \<Longrightarrow>
    length (cert_encode (nr_cert (seat_record c))) < 300"
  by (simp add: cert_encode_def cert_bval_def seat_record_def sign_roster_def cert_sign_def CERT_PURPOSE_ROSTER_def sole_seed_def
      benc.simps encode_bytes_def int_ascii_def nat_ascii.simps)

lemma seat_cert: "cert_ok (nr_cert (seat_record seat_prims))" "length (cert_encode (nr_cert (seat_record seat_prims))) < 300"
    "length (nr_encode_row (seat_record seat_prims)) < 400"
proof -
  let ?ct = "nr_cert (seat_record seat_prims)"
  have len: "length (ct_signer ?ct) = 32" "length (ct_sig ?ct) = 64" "length (ct_subject ?ct) = 32" "length (ct_purpose ?ct) = 6"
    by (simp_all add: seat_record_def sign_roster_def cert_sign_def seat_public sole_seed_def CERT_PURPOSE_ROSTER_def seat_sig)
  then show "cert_ok ?ct" by (simp add: cert_ok_def cert_bval_def small_bval)
  show l: "length (cert_encode ?ct) < 300" by (rule seat_cert_lengths[OF len(1,2)])
  have "length (nat_ascii (length (cert_encode ?ct))) \<le> 300" using length_nat_ascii_le[of "length (cert_encode ?ct)"] l by simp
  then show "length (nr_encode_row (seat_record seat_prims)) < 400"
    using l by (simp add: nr_encode_row_def nr_fields_def seat_record_def bytes_seq_def benc.simps encode_bytes_def int_ascii_def nat_ascii.simps)
qed

text \<open>The row of the node map, and that it seats the node.\<close>

lemma seat_node:
  "mmap_entry \<lparr>se_reader = store_reader seat_prims db_seat, se_store_id = 0\<rparr> P_NODE sole_seed =
     Inr (Some \<lparr>me_index = 0, me_value = nr_encode_row (seat_record seat_prims), me_raw = entry_encode 0 (nr_encode_row (seat_record seat_prims))\<rparr>)"
  "nr_decode_row sole_seed (nr_encode_row (seat_record seat_prims)) = Inr (seat_record seat_prims)"
  "seats seat_prims \<lparr>mg_session = \<lparr>se_reader = store_reader seat_prims db_seat, se_store_id = 0\<rparr>, mg_anchor = kp_public seat_prims [1]\<rparr>
     sole_seed (seat_record seat_prims) = Inr True"
proof -
  have "bencodable (BSeq [BInt 0, BBytes (nr_encode_row (seat_record seat_prims))])" using seat_cert(3) by (simp add: small_bval)
  then show "mmap_entry \<lparr>se_reader = store_reader seat_prims db_seat, se_store_id = 0\<rparr> P_NODE sole_seed =
      Inr (Some \<lparr>me_index = 0, me_value = nr_encode_row (seat_record seat_prims), me_raw = entry_encode 0 (nr_encode_row (seat_record seat_prims))\<rparr>)"
    using seat_entry_reads[of "entry_name P_NODE sole_seed" "entry_encode 0 (nr_encode_row (seat_record seat_prims))"]
    by (simp add: mmap_entry_def seat_rows_def entry_decode_def entry_encode_def)
  have "bencodable (BSeq (nr_fields (seat_record seat_prims)))" using seat_cert(2) by (simp add: small_bval nr_fields_def seat_record_def bytes_seq_def)
  then have "decode_seq (nr_encode_row (seat_record seat_prims)) (Some 3) = Inr (nr_fields (seat_record seat_prims))"
    by (simp add: nr_encode_row_def nr_fields_def)
  moreover have "cert_decode (cert_encode (nr_cert (seat_record seat_prims))) = Inr (nr_cert (seat_record seat_prims))"
    using seat_cert(1) by (rule cert_wire.dec_enc)
  ultimately show "nr_decode_row sole_seed (nr_encode_row (seat_record seat_prims)) = Inr (seat_record seat_prims)"
    by (simp add: nr_decode_row_def nr_of_fields_def nr_fields_def) (simp add: seat_record_def bytes_seq_def as_bytes_seq_def)
  show "seats seat_prims \<lparr>mg_session = \<lparr>se_reader = store_reader seat_prims db_seat, se_store_id = 0\<rparr>, mg_anchor = kp_public seat_prims [1]\<rparr>
      sole_seed (seat_record seat_prims) = Inr True"
    using seat_laws(2) by (simp add: seats_def seat_record_def sign_roster_def cert_sign_def verify_cert_def cert_verify_def
      anchor_only_purposes_def anchor_or_manager_purposes_def CERT_PURPOSE_ROSTER_def)
qed

lemma seat_member: "is_member seat_prims \<lparr>mg_session = \<lparr>se_reader = store_reader seat_prims db_seat, se_store_id = 0\<rparr>,
   mg_anchor = kp_public seat_prims [1]\<rparr> sole_seed = Inr True"
  by (simp add: is_member_def seat_node)

lemma seat_roster: "mg_roster seat_prims \<lparr>mg_session = \<lparr>se_reader = store_reader seat_prims db_seat, se_store_id = 0\<rparr>,
   mg_anchor = kp_public seat_prims [1]\<rparr> = Inr [sole_seed]"
proof -
  let ?s = "\<lparr>se_reader = store_reader seat_prims db_seat, se_store_id = 0\<rparr>"
  have "bencodable (BSeq [BInt 1, BBytes ACC_IDENTITY])" using length_ACC_IDENTITY by (simp add: small_bval)
  then have meta: "mmap_meta ?s P_NODE = Inr (Some \<lparr>mm_count = 1, mm_acc = ACC_IDENTITY, mm_raw = meta_encode 1 ACC_IDENTITY\<rparr>)"
    using seat_entry_reads[of "meta_name P_NODE" "meta_encode 1 ACC_IDENTITY"] length_ACC_IDENTITY
    by (simp add: mmap_meta_def seat_rows_def meta_decode_def meta_encode_def fixed_def)
  have key: "mmap_key_at ?s P_NODE 0 = Inr (Some sole_seed)"
    using seat_entry_reads[of "P_NODE @ [1] @ be_bytes 4 0" sole_seed] by (simp add: mmap_key_at_def index_name_def to_bytes_def seat_rows_def)
  have keys: "mmap_keys ?s P_NODE = Inr [sole_seed]" by (simp add: mmap_keys_def meta key map_filter_simps)
  have "PublicKey sole_seed = Inr sole_seed" by (simp add: fixed_def sole_seed_def)
  then have "mg_nodes \<lparr>mg_session = ?s, mg_anchor = kp_public seat_prims [1]\<rparr> = Inr [(sole_seed, seat_record seat_prims)]"
    by (simp add: mg_nodes_def keys seat_node(1,2) map_filter_simps dict_update_def)
  then show ?thesis by (simp add: mg_roster_def seat_node(3) map_filter_simps)
qed

section \<open>A settled slot on the store\<close>

definition seat_anchors :: Anchors where
  "seat_anchors = \<lparr>an_block_num = 1, an_height = 0, an_prev_block = genesis_stamp seat_prims (kp_public seat_prims [1]),
     an_state_root = node_hash seat_prims seat_live (replicate 32 0) 0, an_acc_state = acc_sum seat_prims seat_live,
     an_acc_log = ACC_IDENTITY\<rparr>"

lemma seat_screen:
  obtains L where "screen_block seat_prims 5 db_seat [] = Inr (L, \<lparr>sc_survivors = [], sc_rejects = []\<rparr>)"
    "anchors_of seat_prims db_seat L [] 1 (an_prev_block seat_anchors) = Inr seat_anchors"
proof -
  obtain L where L: "layer_new (store_view seat_prims db_seat) = Inr L" by (simp add: layer_new_def store_view_def)
  have fr: "ov_freeze L = \<lparr>ov_base = store_view seat_prims db_seat, ov_delta = [], ov_log = [], ov_frozen = True, ly_memo = Map.empty\<rparr>"
    using L by (auto simp: layer_new_def store_view_def ov_freeze_def)
  have st: "store_shows (seat_prims, {b. length b = 32}, db_seat)" using seat_db_ok seat_laws by (simp add: store_shows_def)
  have root: "sr_hash_under seat_prims db_seat (replicate 32 0) 0 = Inr (node_hash seat_prims seat_live (replicate 32 0) 0)"
    and acc: "sr_accumulator db_seat = Inr (acc_sum seat_prims seat_live)"
    using sv.root[OF st] sv.accumulator[OF st] by (simp_all add: seat_sel store_view_def)
  obtain lo hi where b: "bounds (replicate 32 0) 0 = Inr (lo, hi)" by (simp add: bounds_def)
  have "layer_state_root seat_prims (ov_freeze L) = Inr (node_hash seat_prims seat_live (replicate 32 0) 0)"
    using root by (simp add: fr layer_state_root_def layer_hash_under.simps[of _ _ "replicate 32 0"] b delta_touches_range_def store_view_def)
  moreover have "layer_accumulator seat_prims (ov_freeze L) = Inr (acc_sum seat_prims seat_live)"
    using acc by (simp add: fr layer_accumulator_def store_view_def)
  ultimately have "anchors_of seat_prims db_seat (ov_freeze L) [] 1 (an_prev_block seat_anchors) = Inr seat_anchors"
    by (simp add: anchors_of_def seat_reads seat_anchors_def)
  moreover have "screen_block seat_prims 5 db_seat [] = Inr (ov_freeze L, \<lparr>sc_survivors = [], sc_rejects = []\<rparr>)"
    using L by (simp add: screen_block_def seat_reader apply_to_def)
  ultimately show thesis by (intro that)
qed

lemma seat_anchors_ok: "anchors_ok seat_anchors"
  using length_node_hash[OF seat_laws(1)] acc_sum_in[OF seat_laws(3)] seat_laws(1) length_ACC_IDENTITY
  by (simp add: anchors_ok_def seat_anchors_def genesis_stamp_def h_def digest_width_def)

lemma sole_multisig: "\<exists>bm. ms_combine [(0, s)] 2 = Inr \<lparr>ms_bitmap = bm, ms_sigs = [s]\<rparr> \<and> length bm = 1"
  using bitmap_set_indices[of "[0]" 2] by (auto simp: ms_combine_def bitmap_size_def)

lemma seat_settles:
  obtains sr sb where "settle_new seat_prims \<lparr>bl_bucket = 4, bl_hashes = []\<rparr> sole_seed [sole_seed] seat_anchors 20 = Inr sr"
    "sr_settled sr = Some sb" "sb_ok sb"
proof -
  let ?b = "\<lparr>bl_bucket = 4, bl_hashes = []\<rparr>"
  let ?sig = "ss_sig (settle_sign seat_prims sole_seed (block_slice_hash seat_prims ?b) seat_anchors)"
  obtain bm where bm: "ms_combine [(0, ?sig)] 2 = Inr \<lparr>ms_bitmap = bm, ms_sigs = [?sig]\<rparr>" "length bm = 1" using sole_multisig by blast
  have pk: "kp_public seat_prims sole_seed = sole_seed" by (simp only: seat_public)
  define sb where "sb = \<lparr>sb_block = ?b, sb_anchors = seat_anchors, sb_multisig = \<lparr>ms_bitmap = bm, ms_sigs = [?sig]\<rparr>\<rparr>"
  have sig: "length ?sig = 64" by (simp add: settle_sign_def seat_sig)
  have lens: "length (an_prev_block seat_anchors) = 32" "length (an_state_root seat_anchors) = 32" "length (an_acc_state seat_anchors) = 32"
      "length (an_acc_log seat_anchors) = 32" "an_block_num seat_anchors = 1" "an_height seat_anchors = 0"
    using seat_anchors_ok by (simp_all add: anchors_ok_def) (simp_all add: seat_anchors_def)
  have "length (identity_bytes sb) < 4096"
    using lens by (simp add: identity_bytes_def identity_bval_def anchors_fields_def sb_def bytes_seq_def hashes_canonical_def benc.simps
      encode_bytes_def int_ascii_def nat_ascii.simps)
  then have "sb_ok sb"
    using seat_anchors_ok lens sig bm(2)
    by (simp add: sb_ok_def identity_bval_def sb_bval_def small_bval bytes_seq_def anchors_fields_def) (simp add: sb_def hashes_canonical_def small_bval lens)
  moreover have "\<exists>sr. settle_new seat_prims ?b sole_seed [sole_seed] seat_anchors 20 = Inr sr \<and> sr_settled sr = Some sb"
    using bm(1) by (simp add: settle_new_def Let_def quorum_one try_settle_def settle_shares_def enumerate_Suc_eq map_filter_simps numeral_2_eq_2 pk sb_def)
  ultimately show thesis using that by blast
qed

end
