(* ===== verification/Silent_Run.thy ===== *)
theory Silent_Run
  imports Sample_Store
begin

text \<open>
  A coordinator that no message reaches: the runs of \<^verbatim>\<open>dude/consensus/coordinator.py\<close> that consist of submissions and
  timer events. They never commit a block, and for a node alone in its roster the block is signed by the whole roster and waits.
\<close>

section \<open>Runs without messages\<close>

inductive silent_run :: "prims \<Rightarrow> nat \<Rightarrow> Coordinator \<Rightarrow> Coordinator \<Rightarrow> bool" for c fuel co where
  here: "silent_run c fuel co co"
| submit: "silent_run c fuel co co1 \<Longrightarrow> co_submit c fuel tx now co1 = Inr (why, co2) \<Longrightarrow> silent_run c fuel co co2"
| timer: "silent_run c fuel co co1 \<Longrightarrow> timer_event e \<Longrightarrow> co_handle c fuel behind e now now2 co1 = Inr co2 \<Longrightarrow> silent_run c fuel co co2"

text \<open>The slot holds a block that the whole roster signed.\<close>

definition holds_settled :: "SettledBlock \<Rightarrow> Coordinator \<Rightarrow> bool" where
  "holds_settled sb co \<longleftrightarrow> (\<exists>s. co_settling co = Some s \<and> sr_settled (st_round s) = Some sb \<and> sr_state (st_round s) = SETTLED)"

definition sole :: "prims \<Rightarrow> seed \<Rightarrow> Db \<Rightarrow> bool" where
  "sole c me db \<longleftrightarrow> (\<exists>m. mgmt_reader c db = Inr m \<and> mg_roster c m = Inr [kp_public c me])"

lemma sole_settles_at_once:
  "\<exists>r sb. settle_new c block me [kp_public c me] anchors t = Inr r \<and> sr_settled r = Some sb \<and> sr_state r = SETTLED"
proof -
  obtain ms where "ms_combine [(0, ss_sig (settle_sign c me (block_slice_hash c block) anchors))] 2 = Inr ms"
    using sole_combine by blast
  then show ?thesis
    by (simp add: settle_new_def Let_def quorum_one try_settle_def settle_shares_def enumerate_Suc_eq map_filter_simps numeral_2_eq_2)
qed

lemma submit_keeps: "co_submit c fuel tx now co = Inr (why, co') \<Longrightarrow> co_me co' = co_me co \<and> co_db co' = co_db co \<and> co_settling co' = co_settling co"
  by (auto simp: co_submit_def rbind_Inr_conv split: if_splits)

lemma me_kept [simp]: "co_me (flush_round c co) = co_me co" "co_me (flush_settle c co) = co_me co" "co_me (drop_round co) = co_me co"
  "co_me (drop_abandoned co) = co_me co" "co_me (schedule_bucket_tick now co) = co_me co"
  by (auto simp: flush_round_def flush_settle_def drop_round_def drop_abandoned_def cancel_round_timers_def schedule_bucket_tick_def co_post_def Let_def
      split: option.split prod.split)

lemma tick_round_me: "tick_round c fuel now co = Inr co' \<Longrightarrow> co_me co' = co_me co"
  by (auto simp: tick_round_def rbind_Inr_conv split: option.splits)

lemma close_bucket_me:
  assumes "close_current_bucket c behind now co = Inr co'"
  shows "co_me co' = co_me co"
  using assms
proof (cases rule: close_bucket_cases)
  case (3 bucket co1)
  from 3(1) have "co_me co1 = co_me co" by (cases rule: open_round_cases) simp_all
  then show ?thesis by (simp add: 3(2))
qed simp_all

lemma promote_sole:
  assumes "promote_to_settling c fuel co = Inr co'" "sole c (co_me co) (co_db co)" "co_settling co = None"
  shows "co_me co' = co_me co \<and> co_db co' = co_db co \<and> (co_settling co' = None \<or> (\<exists>sb. holds_settled sb co'))"
  using assms(1)
proof (cases rule: promote_cases)
  case dropped
  then show ?thesis using assms(3) by (simp add: drop_round_def cancel_round_timers_def)
next
  case (promoted r block m roster L sc a sr s)
  obtain sb where "sr_settled sr = Some sb" "sr_state sr = SETTLED"
    using promoted(5,6,10) assms(2) sole_settles_at_once[of c block "co_me co" a "co_abandon_by co (rn_bucket r)"] by (auto simp: sole_def)
  then show ?thesis
    by (auto simp: promoted(11,12) flush_settle_def drop_round_def cancel_round_timers_def co_post_def settle_outbox_def holds_settled_def)
qed

lemma check_ratified_sole:
  assumes "check_ratified c fuel co = Inr co'" "sole c (co_me co) (co_db co)" "co_settling co = None"
  shows "co_me co' = co_me co \<and> co_db co' = co_db co \<and> (co_settling co' = None \<or> (\<exists>sb. holds_settled sb co'))"
proof -
  have "co' = co \<or> promote_to_settling c fuel co = Inr co'"
    using assms(1) by (auto simp: check_ratified_def rewrap_def split: option.splits if_splits sum.splits)
  then show ?thesis using promote_sole assms(2,3) by blast
qed

lemma timer_sole:
  assumes "timer_event e" "co_handle c fuel behind e now now2 co = Inr co'" "sole c (co_me co) (co_db co)" "co_settling co = None"
  shows "co_me co' = co_me co \<and> co_db co' = co_db co \<and> (co_settling co' = None \<or> (\<exists>sb. holds_settled sb co'))"
proof (cases e)
  case (RoundClose bucket)
  then consider "co' = co" | co1 where "tick_round c fuel now co = Inr co1" "check_ratified c fuel (flush_round c co1) = Inr co'"
    using assms(2) by (auto simp: on_round_close_def rbind_Inr_conv split: option.splits if_splits)
  then show ?thesis
  proof cases
    case 2
    from check_ratified_sole[OF 2(2)] show ?thesis
      using tick_round_keeps[OF 2(1)] tick_round_me[OF 2(1)] assms(3,4) by (simp add: flush_round_keeps)
  qed (use assms in simp)
next
  case (RoundAbandon bucket)
  then consider "co' = co" | co1 where "tick_round c fuel now co = Inr co1" "co' = drop_abandoned co1"
    using assms(2) by (auto simp: on_round_abandon_def rbind_Inr_conv split: option.splits if_splits)
  then show ?thesis by cases (use assms(4) tick_round_keeps tick_round_me drop_abandoned_keeps in auto)
next
  case (SettleAbandon sh)
  then show ?thesis using assms(2,4) by (simp add: on_settle_abandon_def)
next
  case BucketTick
  then obtain co1 where co1: "close_current_bucket c behind now co = Inr co1" "co' = schedule_bucket_tick now co1"
    using assms(2) by (auto simp: on_bucket_tick_def rbind_Inr_conv)
  have "co_settling co' = co_settling co1 \<and> co_db co' = co_db co1" by (simp add: co1(2) schedule_bucket_tick_def Let_def co_post_def)
  then show ?thesis using close_bucket_keeps[OF co1(1)] close_bucket_me[OF co1(1)] co1(2) assms(4) by simp
qed (use assms(1) in simp_all)

lemma silent_keeps_settled:
  assumes "silent_run c fuel co co'" "holds_settled sb co"
  shows "co_db co' = co_db co \<and> holds_settled sb co'"
  using assms
proof (induction rule: silent_run.induct)
  case (submit co1 tx now why co2)
  then show ?case using submit_keeps[OF submit(2)] by (simp add: holds_settled_def)
next
  case (timer co1 e behind now now2 co2)
  then obtain s where "co_settling co1 = Some s" "sr_settled (st_round s) = Some sb" "sr_state (st_round s) = SETTLED" "co_db co1 = co_db co"
    by (auto simp: holds_settled_def)
  from settled_slot_waits[OF this(1-3) timer(2,3)] this(4) show ?case by (auto simp: holds_settled_def)
qed simp

lemma silent_sole:
  assumes "silent_run c fuel co co'" "sole c (co_me co) (co_db co)" "co_settling co = None"
  shows "co_db co' = co_db co \<and> (co_settling co' = None \<and> co_me co' = co_me co \<or> (\<exists>sb. holds_settled sb co'))"
  using assms
proof (induction rule: silent_run.induct)
  case (submit co1 tx now why co2)
  then show ?case using submit_keeps[OF submit(2)] by (simp add: holds_settled_def)
next
  case (timer co1 e behind now now2 co2)
  note IH = timer.IH[OF timer.prems]
  show ?case
  proof (cases "co_settling co1")
    case None
    then have "co_me co1 = co_me co" using IH by (auto simp: holds_settled_def)
    then show ?thesis using timer_sole[OF timer(2,3)] None IH timer.prems(1) by auto
  next
    case (Some s)
    then obtain sb where "holds_settled sb co1" using IH by auto
    then show ?thesis using silent_keeps_settled[OF silent_run.timer[OF silent_run.here timer(2,3)]] IH by auto
  qed
qed simp

text \<open>
  C38: A node alone in its roster commits no block until a message reaches it. From its start, whatever transactions are
  submitted and whatever timers fire, and as long as no round or settle message arrives, its store stays as it was; and a block in
  its slot is settled from the moment it is there, signed by the whole roster, and stays in the slot, uncommitted, in every
  such continuation. (A peer there is not; of the senders whose messages are passed on, only the manager is left.)
\<close>

theorem solitary_node_never_commits:
  assumes "mgmt_reader c db = Inr m" "mg_roster c m = Inr [kp_public c me]" "silent_run c fuel (co_start now (co_new me db t)) co"
  shows "co_db co = db \<and>
    (\<forall>s. co_settling co = Some s \<longrightarrow>
       (\<exists>sb. sr_settled (st_round s) = Some sb \<and>
          (\<forall>co'. silent_run c fuel co co' \<longrightarrow>
             co_db co' = db \<and> (\<exists>s'. co_settling co' = Some s' \<and> sr_settled (st_round s') = Some sb))))"
proof -
  have start: "co_me (co_start now (co_new me db t)) = me" "co_db (co_start now (co_new me db t)) = db" "co_settling (co_start now (co_new me db t)) = None"
    by (simp_all add: co_start_def co_new_def co_post_def)
  have "sole c me db" using assms(1,2) by (auto simp: sole_def)
  with silent_sole[OF assms(3)] have inv: "co_db co = db" "co_settling co = None \<or> (\<exists>sb. holds_settled sb co)"
    unfolding start by blast+
  show ?thesis
  proof (intro conjI allI impI inv(1))
    fix s assume "co_settling co = Some s"
    then obtain sb where "sr_settled (st_round s) = Some sb" "holds_settled sb co" using inv(2) by (auto simp: holds_settled_def)
    moreover have "co_db co' = db \<and> (\<exists>s'. co_settling co' = Some s' \<and> sr_settled (st_round s') = Some sb)" if "silent_run c fuel co co'" for co'
      using silent_keeps_settled[OF that \<open>holds_settled sb co\<close>] inv(1) by (auto simp: holds_settled_def)
    ultimately show "\<exists>sb. sr_settled (st_round s) = Some sb \<and>
        (\<forall>co'. silent_run c fuel co co' \<longrightarrow> co_db co' = db \<and> (\<exists>s'. co_settling co' = Some s' \<and> sr_settled (st_round s') = Some sb))"
      by blast
  qed
qed

section \<open>A solitary node at work\<close>

definition seat_start :: Coordinator where
  "seat_start = co_start 0 (co_new sole_seed db_seat DEFAULT)"

lemma seat_times: "bucket_of DEFAULT 0 = 0" "bucket_of DEFAULT (block_time DEFAULT) = 1" "0 < block_time DEFAULT"
   "block_time DEFAULT < bucket_start DEFAULT 2 - cut_reserve DEFAULT" "0 < cut_reserve DEFAULT"
  by code_simp+

lemma seat_start_sel: "co_me seat_start = sole_seed" "co_db seat_start = db_seat" "co_settling seat_start = None" "co_tunables seat_start = DEFAULT"
    "co_round seat_start = None" "co_bucket seat_start = 0" "co_mempool seat_start = mempool_new DEFAULT"
  by (simp_all add: seat_start_def co_start_def co_new_def co_post_def seat_times)

lemma seat_own: "kp_public seat_prims sole_seed = sole_seed"
  by (simp only: seat_public)

lemma seat_in_roster: "co_me co = sole_seed \<Longrightarrow> co_db co = db_seat \<Longrightarrow> in_roster seat_prims co = Inr True"
  using seat_member by (simp add: in_roster_def co_mgmt_def seat_reader seat_own)

text \<open>The round of the first bucket, opened without transactions, and after its cut.\<close>

definition seat_round :: Round where
  "seat_round = \<lparr>rn_bucket = 0, rn_me = sole_seed, rn_roster = [sole_seed], rn_prev_block = an_prev_block seat_anchors, rn_quorum = 1,
     rn_state = COLLECT, rn_now = block_time DEFAULT, rn_close_by = bucket_start DEFAULT 2 - cut_reserve DEFAULT, rn_abandon_by = bucket_start DEFAULT 2,
     rn_local = Some [], rn_peer_holds = [], rn_peer_sigs = [], rn_my_sig = None, rn_equivocations = [],
     rn_divergences = [], rn_gap_attempts = [], rn_ratified = None, rn_slice_bodies = [], rn_surviving = [],
     rn_outbox = [], rn_pending_slice = {}\<rparr>"

lemma seat_opens:
  obtains co where "co_handle seat_prims 5 (\<lambda>_. Inr False) BucketTick (block_time DEFAULT) 0 seat_start = Inr co"
    "co_db co = db_seat" "co_me co = sole_seed" "co_settling co = None" "co_tunables co = DEFAULT" "co_round co = Some seat_round"
proof -
  let ?B = "block_time DEFAULT"
  have times: "co_close_by seat_start 0 = bucket_start DEFAULT 2 - cut_reserve DEFAULT" "co_abandon_by seat_start 0 = bucket_start DEFAULT 2"
    by (simp_all add: co_close_by_def co_abandon_by_def seat_start_sel)
  have prev: "co_prev_block seat_prims seat_start = Inr (an_prev_block seat_anchors)"
    by (simp add: co_prev_block_def seat_start_sel seat_reads seat_anchors_def)
  have none: "all_bodies seat_prims (mp_snapshot (mempool_new DEFAULT)) = []"
    by (simp add: all_bodies_def mp_snapshot_def mempool_new_def dict_update_def)
  let ?r = "seat_round\<lparr>rn_local := None\<rparr>"
  have new: "round_new seat_prims 0 sole_seed [sole_seed] (an_prev_block seat_anchors) ?B (co_close_by seat_start 0) (co_abandon_by seat_start 0) = Inr ?r"
    using seat_times by (simp add: round_new_def seat_own quorum_one times seat_round_def)
  obtain msg where local: "add_local seat_prims [] ?r = Inr (seat_round\<lparr>rn_outbox := [(ToAll, msg)]\<rparr>)"
    by (simp add: add_local_def seat_round_def by_hash_def dict_update_def push_def Let_def)
  have flushed: "round_outbox (seat_round\<lparr>rn_outbox := [(ToAll, msg)]\<rparr>) = ([(ToAll, msg)], seat_round)"
    by (simp add: round_outbox_def seat_round_def)
  obtain co where co: "open_round seat_prims 0 (mp_snapshot (co_mempool seat_start)) ?B seat_start = Inr co" "co_round co = Some seat_round"
      "co_db co = db_seat" "co_me co = sole_seed" "co_settling co = None" "co_tunables co = DEFAULT"
    using seat_in_roster[OF seat_start_sel(1,2)] prev new local flushed seat_reader seat_roster
    by (simp add: open_round_def co_mgmt_def seat_start_sel none flush_round_def co_post_def)
  have "\<not> ?B \<ge> co_close_by seat_start 0" using seat_times(4) times by simp
  then have "close_current_bucket seat_prims (\<lambda>_. Inr False) ?B seat_start = Inr (co\<lparr>co_bucket := 1\<rparr>)"
    using co(1) by (simp add: close_current_bucket_def Let_def seat_start_sel seat_times)
  then show thesis
    using that[of "schedule_bucket_tick ?B (co\<lparr>co_bucket := 1\<rparr>)"] co
    by (simp add: on_bucket_tick_def schedule_bucket_tick_def Let_def co_post_def)
qed

lemma seat_ratifies:
  obtains r where "round_tick seat_prims (screen_slice seat_prims 5 db_seat) (bucket_start DEFAULT 2 - cut_reserve DEFAULT) seat_round = Inr r"
    "rn_ratified r = Some \<lparr>bl_bucket = 0, bl_hashes = []\<rparr>" "rn_state r = GONE" "rn_slice_bodies r = []" "rn_surviving r = []"
    "rn_prev_block r = an_prev_block seat_anchors" "rn_bucket r = 0"
proof -
  obtain L where L: "layer_new (store_view seat_prims db_seat) = Inr L" by (simp add: layer_new_def store_view_def)
  have screen: "screen_slice seat_prims 5 db_seat [] = Inr {}"
    using L by (simp add: screen_slice_def sr_has_settled_def seat_reader apply_to_def)
  have cut: "compute_slice seat_prims (seat_round\<lparr>rn_now := now\<rparr>) {} = {}" for now
    by (simp add: compute_slice_def all_holdings_def seat_round_def combo_inter_def)
  have empty: "bodies_canonical seat_prims [] = []" "batch_filter seat_prims [] {} = []" "batch_hashes seat_prims [] = {}" "hashes_canonical [] = []"
    by (simp_all add: bodies_canonical_def batch_filter_def batch_hashes_def hashes_canonical_def canonical_batch_def)
  let ?now = "bucket_start DEFAULT 2 - cut_reserve DEFAULT"
  let ?r = "seat_round\<lparr>rn_now := ?now\<rparr>"
  have loc: "rn_local ?r = Some []" by (simp add: seat_round_def)
  obtain mine where fin: "finalize seat_prims (screen_slice seat_prims 5 db_seat) ?r =
      Inr (try_ratify (push ToAll (M_Sig mine) (?r\<lparr>rn_slice_bodies := [], rn_my_sig := Some mine, rn_peer_sigs := [(sole_seed, mine)], rn_surviving := [],
        rn_pending_slice := {}, rn_state := FINALIZE\<rparr>)))"
    by (simp add: finalize_def loc cut empty screen Let_def) (simp add: seat_round_def seat_own)
  define r where "r = try_ratify (push ToAll (M_Sig mine) (?r\<lparr>rn_slice_bodies := [], rn_my_sig := Some mine, rn_peer_sigs := [(sole_seed, mine)], rn_surviving := [],
        rn_pending_slice := {}, rn_state := FINALIZE\<rparr>))"
  have r: "rn_ratified r = Some \<lparr>bl_bucket = 0, bl_hashes = []\<rparr>" "rn_state r = GONE" "rn_slice_bodies r = []" "rn_surviving r = []"
    "rn_prev_block r = an_prev_block seat_anchors" "rn_bucket r = 0"
    by (simp_all add: r_def seat_round_def try_ratify_def push_def agreeing_def empty)
  have "\<not> ?now < rn_now seat_round" "rn_state ?r = COLLECT" "rn_close_by ?r \<le> ?now" using seat_times(4) by (simp_all add: seat_round_def)
  then have "round_tick seat_prims (screen_slice seat_prims 5 db_seat) ?now seat_round = Inr r"
    using fin r(2) loc by (simp add: round_tick_def Let_def r_def[symmetric])
  then show thesis using r by (rule that)
qed

theorem solitary_node_never_commits_witness:
  "\<exists>co s sb. silent_run seat_prims 5 seat_start co \<and> co_settling co = Some s \<and> sr_settled (st_round s) = Some sb \<and> co_db co = db_seat"
proof -
  let ?now = "bucket_start DEFAULT 2 - cut_reserve DEFAULT"
  obtain co1 where one: "co_handle seat_prims 5 (\<lambda>_. Inr False) BucketTick (block_time DEFAULT) 0 seat_start = Inr co1"
    and co1: "co_db co1 = db_seat" "co_me co1 = sole_seed" "co_settling co1 = None" "co_tunables co1 = DEFAULT" "co_round co1 = Some seat_round"
    by (rule seat_opens)
  obtain r where tick: "round_tick seat_prims (screen_slice seat_prims 5 db_seat) ?now seat_round = Inr r"
    and r: "rn_ratified r = Some \<lparr>bl_bucket = 0, bl_hashes = []\<rparr>" "rn_state r = GONE" "rn_slice_bodies r = []" "rn_surviving r = []"
      "rn_prev_block r = an_prev_block seat_anchors" "rn_bucket r = 0"
    by (rule seat_ratifies)
  define co2 where "co2 = flush_round seat_prims (co1\<lparr>co_round := Some r\<rparr>)"
  have co2: "co_db co2 = db_seat" "co_me co2 = sole_seed" "co_settling co2 = None" "co_tunables co2 = DEFAULT" "co_round co2 = Some (r\<lparr>rn_outbox := []\<rparr>)"
    by (simp_all add: co2_def co1 flush_round_def round_outbox_def co_post_def)
  obtain L where L: "screen_block seat_prims 5 db_seat [] = Inr (L, \<lparr>sc_survivors = [], sc_rejects = []\<rparr>)"
      "anchors_of seat_prims db_seat L [] 1 (an_prev_block seat_anchors) = Inr seat_anchors" by (rule seat_screen)
  obtain sr where sr: "settle_new seat_prims \<lparr>bl_bucket = 0, bl_hashes = []\<rparr> sole_seed [sole_seed] seat_anchors (co_abandon_by co2 0) = Inr sr"
    using sole_settles_at_once[of seat_prims _ sole_seed] unfolding seat_own by blast
  have prev: "co_prev_block seat_prims co2 = Inr (an_prev_block seat_anchors)"
    by (simp add: co_prev_block_def co2 seat_reads seat_anchors_def)
  have "\<exists>co3 s. promote_to_settling seat_prims 5 co2 = Inr co3 \<and> co_settling co3 = Some s"
    using seat_in_roster[OF co2(2,1)] prev L sr r seat_roster seat_reader
    by (simp add: promote_to_settling_def co2 co_mgmt_def round_slice_bodies_def round_surviving_def seat_reads Let_def flush_settle_def
        drop_round_def cancel_round_timers_def settle_outbox_def co_post_def)
  then obtain co3 s where p: "promote_to_settling seat_prims 5 co2 = Inr co3" "co_settling co3 = Some s" by blast
  have two: "co_handle seat_prims 5 (\<lambda>_. Inr False) (RoundClose 0) ?now 0 co1 = Inr co3"
    using tick p(1) co2 r(1)
    by (simp add: on_round_close_def tick_round_def co1 co2_def[symmetric] check_ratified_def rewrap_def) (simp add: seat_round_def)
  have run: "silent_run seat_prims 5 seat_start co3"
    by (rule silent_run.timer[OF silent_run.timer[OF silent_run.here _ one] _ two]) simp_all
  have "mg_roster seat_prims \<lparr>mg_session = \<lparr>se_reader = store_reader seat_prims db_seat, se_store_id = 0\<rparr>, mg_anchor = kp_public seat_prims [1]\<rparr> =
      Inr [kp_public seat_prims sole_seed]" using seat_roster by (simp only: seat_own)
  from solitary_node_never_commits[OF seat_reader this run[unfolded seat_start_def]] p(2) run show ?thesis by blast
qed

end
