(* ===== verification/Sync_Adapter.thy ===== *)
theory Sync_Adapter
  imports Coordinator
begin

text \<open>
  \<^verbatim>\<open>dude/sync/refusal.py\<close> and \<^verbatim>\<open>dude/sync/adapter.py\<close>: the messages by which a
  node pulls settled blocks from its peers, and their wire forms.
\<close>

datatype SyncRefusedReason =
    R_INVALID | R_NOT_YET_SETTLED | R_UNKNOWN | R_NO_STATE | R_UNKNOWN_STORE | R_MALFORMED_QUERY
  | R_FORK_DETECTED | R_INTERNAL | R_UNAUTHORISED | R_COMPACTED | R_CHECKPOINT_STALE

fun reason_value :: "SyncRefusedReason \<Rightarrow> bytes" where
  "reason_value R_INVALID = ascii ''invalid''"
| "reason_value R_NOT_YET_SETTLED = ascii ''not-yet-settled''"
| "reason_value R_UNKNOWN = ascii ''unknown''"
| "reason_value R_NO_STATE = ascii ''no-state''"
| "reason_value R_UNKNOWN_STORE = ascii ''unknown-store''"
| "reason_value R_MALFORMED_QUERY = ascii ''malformed-query''"
| "reason_value R_FORK_DETECTED = ascii ''fork-detected''"
| "reason_value R_INTERNAL = ascii ''internal''"
| "reason_value R_UNAUTHORISED = ascii ''unauthorised''"
| "reason_value R_COMPACTED = ascii ''compacted''"
| "reason_value R_CHECKPOINT_STALE = ascii ''checkpoint-stale''"

text \<open>
  \<^verbatim>\<open>SyncRefusedReason(body.decode("utf-8"))\<close>. The values are ASCII, so a byte string decodes
  to one of them exactly when it is its encoding; what is no UTF-8, or no value, is a
  \<^verbatim>\<open>ValueError\<close>.
\<close>

definition all_reasons :: "SyncRefusedReason list" where
  "all_reasons = [R_INVALID, R_NOT_YET_SETTLED, R_UNKNOWN, R_NO_STATE, R_UNKNOWN_STORE, R_MALFORMED_QUERY,
     R_FORK_DETECTED, R_INTERNAL, R_UNAUTHORISED, R_COMPACTED, R_CHECKPOINT_STALE]"

definition reason_of :: "bytes \<Rightarrow> SyncRefusedReason res" where
  "reason_of b = (case find (\<lambda>r. reason_value r = b) all_reasons of None \<Rightarrow> Inl ValueError | Some r \<Rightarrow> Inr r)"

datatype SyncMsg =
    HeightAsk
  | HeightReply int digest
  | GetBlocks int int
  | SettledBlockReply "SettledBlockWithBodies list"
  | SyncRefused SyncRefusedReason "int option"

fun sync_verb :: "SyncMsg \<Rightarrow> Verb" where
  "sync_verb HeightAsk = V_HEIGHT"
| "sync_verb (HeightReply _ _) = V_HEIGHT_REPLY"
| "sync_verb (GetBlocks _ _) = V_GETBLOCK"
| "sync_verb (SettledBlockReply _) = V_SETTLED_BLOCK"
| "sync_verb (SyncRefused _ _) = V_SYNC_REFUSED"

fun sync_encode_inner :: "SyncMsg \<Rightarrow> bytes" where
  "sync_encode_inner HeightAsk = []"
| "sync_encode_inner (HeightReply n tip) = benc (BSeq [BInt n, BBytes tip])"
| "sync_encode_inner (GetBlocks frm cnt) = benc (BSeq [BInt frm, BInt cnt])"
| "sync_encode_inner (SettledBlockReply payload) = benc (bytes_seq (map sbb_encode payload))"
| "sync_encode_inner (SyncRefused reason (Some n)) = benc (BSeq [BBytes (reason_value reason), BInt n])"
| "sync_encode_inner (SyncRefused reason None) = reason_value reason"

definition height_ask_decode :: "bytes \<Rightarrow> SyncMsg res" where
  "height_ask_decode body = (if body \<noteq> [] then Inl SyncAdapterError else Inr HeightAsk)"

definition height_reply_decode :: "bytes \<Rightarrow> SyncMsg res" where
  "height_reply_decode body =
     rewrap is_dude_error SyncAdapterError
       (rbind (decode_seq body (Some 2)) (\<lambda>p.
        rbind (as_int (p ! 0)) (\<lambda>n.
        rbind (rbind (as_bytes (p ! 1)) Digest) (\<lambda>tip. Inr (HeightReply n tip)))))"

definition getblocks_decode :: "bytes \<Rightarrow> SyncMsg res" where
  "getblocks_decode body =
     rewrap is_dude_error SyncAdapterError
       (rbind (decode_seq body (Some 2)) (\<lambda>p.
        rbind (as_int (p ! 0)) (\<lambda>frm.
        rbind (as_int (p ! 1)) (\<lambda>cnt. Inr (GetBlocks frm cnt)))))"

text \<open>The payload is decoded outside the \<^verbatim>\<open>try\<close>: its errors keep their own class.\<close>

definition settled_reply_decode :: "bytes \<Rightarrow> SyncMsg res" where
  "settled_reply_decode body =
     rbind (rewrap is_dude_error SyncAdapterError (decode_seq body None)) (\<lambda>raw.
     rbind (mapM (\<lambda>x. rbind (as_bytes x) sbb_decode) raw) (\<lambda>payload. Inr (SettledBlockReply payload)))"

text \<open>
  The first form of a refusal, a list of reason and block number, then the second, the reason alone.
  The first element of the list is read before its length is known.
\<close>

definition refused_list_decode :: "bytes \<Rightarrow> SyncMsg res" where
  "refused_list_decode body =
     rbind (decode_seq body None) (\<lambda>parts.
     if parts = [] then Inl IndexError
     else rbind (rbind (as_bytes (parts ! 0)) reason_of) (\<lambda>reason.
       rbind (if length parts > 1 then rbind (as_int (parts ! 1)) (\<lambda>n. Inr (Some n)) else Inr None) (\<lambda>n.
       Inr (SyncRefused reason n))))"

definition refused_decode :: "bytes \<Rightarrow> SyncMsg res" where
  "refused_decode body =
     (case refused_list_decode body of
        Inr m \<Rightarrow> Inr m
      | Inl e \<Rightarrow>
          if is_dude_error e \<or> e = ValueError
          then rewrap (\<lambda>x. x = ValueError) SyncAdapterError (rbind (reason_of body) (\<lambda>r. Inr (SyncRefused r None)))
          else Inl e)"

fun sync_decode :: "Verb \<Rightarrow> bytes \<Rightarrow> SyncMsg res" where
  "sync_decode V_HEIGHT body = height_ask_decode body"
| "sync_decode V_HEIGHT_REPLY body = height_reply_decode body"
| "sync_decode V_GETBLOCK body = getblocks_decode body"
| "sync_decode V_SETTLED_BLOCK body = settled_reply_decode body"
| "sync_decode V_SYNC_REFUSED body = refused_decode body"
| "sync_decode _ body = Inl SyncAdapterError"

section \<open>Round trip\<close>

fun sync_ok :: "SyncMsg \<Rightarrow> bool" where
  "sync_ok HeightAsk = True"
| "sync_ok (HeightReply n tip) \<longleftrightarrow> length tip = DIGEST_SIZE \<and> bencodable (BSeq [BInt n, BBytes tip])"
| "sync_ok (GetBlocks frm cnt) \<longleftrightarrow> bencodable (BSeq [BInt frm, BInt cnt])"
| "sync_ok (SettledBlockReply payload) \<longleftrightarrow> (\<forall>s \<in> set payload. sbb_ok s) \<and> bencodable (bytes_seq (map sbb_encode payload))"
| "sync_ok (SyncRefused reason (Some n)) \<longleftrightarrow> bencodable (BSeq [BBytes (reason_value reason), BInt n])"
| "sync_ok (SyncRefused reason None) \<longleftrightarrow> True"

lemma reason_of_value [simp]: "reason_of (reason_value r) = Inr r"
  by (cases r) (simp_all add: reason_of_def all_reasons_def)

lemma reason_is_no_bencoding: "decode (reason_value r) = Inl CodecError"
  by (cases r; hypsubst; code_simp)

lemma mapM_sbb: "\<forall>s \<in> set ss. sbb_ok s \<Longrightarrow> mapM (\<lambda>x. rbind (as_bytes x) sbb_decode) (map BBytes (map sbb_encode ss)) = Inr ss"
  by (induction ss) (auto simp: sbb_wire.dec_enc)

lemma refused_round_trip: "sync_ok (SyncRefused r n) \<Longrightarrow> refused_decode (sync_encode_inner (SyncRefused r n)) = Inr (SyncRefused r n)"
proof (cases n)
  case None
  then show ?thesis by (simp add: refused_decode_def refused_list_decode_def decode_seq_def reason_is_no_bencoding)
qed (simp add: refused_decode_def refused_list_decode_def)

interpretation sync_wire: wire "\<lambda>m. (sync_verb m, sync_encode_inner m)" "\<lambda>(v, b). sync_decode v b" sync_ok
proof
  fix m assume ok: "sync_ok m"
  show "(case (sync_verb m, sync_encode_inner m) of (v, b) \<Rightarrow> sync_decode v b) = Inr m"
  proof (cases m)
    case (SettledBlockReply payload)
    then show ?thesis using ok mapM_sbb[of payload] by (simp add: settled_reply_decode_def bytes_seq_def)
  next
    case (SyncRefused r n)
    then show ?thesis using ok refused_round_trip by simp
  qed (use ok in \<open>simp_all add: height_ask_decode_def height_reply_decode_def getblocks_decode_def\<close>)
qed

end
