(* ===== verification/Follower.thy ===== *)
theory Follower
  imports Sync_Adapter Coordinator_Props
begin

text \<open>
  \<^verbatim>\<open>dude/sync/follower.py\<close>: the follower polls its peers for their heights, pulls the blocks
  it lacks from one of them at a time, checks each and commits it. Its handlers run one at a time on
  an event loop; the clock readings of a handler are arguments, in the order in which it takes them.
  A dict is an association list in insertion order. A scheduled event is the content of its timer
  slot; events posted to the loop are appended to \<open>fl_posted\<close>. The roster that
  \<^verbatim>\<open>mgmt_reader.roster()\<close> returns is that of the store: the lemma \<open>roster_cache_transparent\<close>
  shows that its memo, keyed by the head block, cannot be told from it.
\<close>

section \<open>Events and state\<close>

datatype FoEvent =
    PeerMessage SyncMsg public_key
  | PeerAdded public_key
  | PeerRemoved public_key
  | PullCancelled public_key
  | PollPeer public_key
  | PullExpiry public_key int
  | SendToPeer public_key SyncMsg
  | BlockCommitted

record HeightReport =
  hr_block_num :: int
  hr_tip_hash :: digest
  hr_at :: int

record PullInFlight =
  pf_peer :: public_key
  pf_frm :: int
  pf_count :: int
  pf_sent_at :: int

record Follower =
  fl_me :: seed
  fl_db :: Db
  fl_tunables :: Tunables
  fl_heads :: "(public_key \<times> HeightReport) list"
  fl_poll_timers :: "(public_key \<times> int \<times> FoEvent) list"
  fl_pulling :: "PullInFlight option"
  fl_pull_timer :: "(int \<times> FoEvent) option"
  fl_last_ok :: "(public_key \<times> int) list"
  fl_last_fail :: "(public_key \<times> int) list"
  fl_compacted :: "(public_key \<times> int) list"
  fl_posted :: "FoEvent list"

definition follower_new :: "seed \<Rightarrow> Db \<Rightarrow> Tunables \<Rightarrow> Follower" where
  "follower_new me db t =
     \<lparr>fl_me = me, fl_db = db, fl_tunables = t, fl_heads = [], fl_poll_timers = [], fl_pulling = None, fl_pull_timer = None,
      fl_last_ok = [], fl_last_fail = [], fl_compacted = [], fl_posted = []\<rparr>"

definition fo_post :: "FoEvent list \<Rightarrow> Follower \<Rightarrow> Follower" where
  "fo_post es fl = fl\<lparr>fl_posted := fl_posted fl @ es\<rparr>"

text \<open>\<^verbatim>\<open>self.store.head_block_num() or 0\<close>.\<close>

definition head_num :: "Db \<Rightarrow> int" where
  "head_num db = (case sr_head_block_num db of None \<Rightarrow> 0 | Some k \<Rightarrow> k)"

section \<open>Timers and pulls\<close>

definition schedule_poll :: "public_key \<Rightarrow> int \<Rightarrow> Follower \<Rightarrow> Follower" where
  "schedule_poll peer at fl = fl\<lparr>fl_poll_timers := AList.update peer (at, PollPeer peer) (fl_poll_timers fl)\<rparr>"

definition cancel_pull_timer :: "Follower \<Rightarrow> Follower" where
  "cancel_pull_timer fl = fl\<lparr>fl_pull_timer := None\<rparr>"

definition fail_at :: "public_key \<Rightarrow> int \<Rightarrow> Follower \<Rightarrow> Follower" where
  "fail_at peer now fl = fl\<lparr>fl_last_fail := AList.update peer now (fl_last_fail fl)\<rparr>"

definition dict_get :: "('k \<times> int) list \<Rightarrow> 'k \<Rightarrow> int" where
  "dict_get d k = (case map_of d k of None \<Rightarrow> 0 | Some v \<Rightarrow> v)"

definition source_key :: "Follower \<Rightarrow> public_key \<times> HeightReport \<Rightarrow> int \<times> int \<times> int" where
  "source_key fl p_hr = (- dict_get (fl_last_ok fl) (fst p_hr), dict_get (fl_last_fail fl) (fst p_hr), - hr_block_num (snd p_hr))"

definition pull_candidates :: "Follower \<Rightarrow> (public_key \<times> HeightReport) list" where
  "pull_candidates fl = filter (\<lambda>(peer, hr). hr_block_num hr > head_num (fl_db fl)) (fl_heads fl)"

definition pick_pull_source :: "Follower \<Rightarrow> public_key option" where
  "pick_pull_source fl =
     (case sort_key (source_key fl) (pull_candidates fl) of [] \<Rightarrow> None | (peer, _) # _ \<Rightarrow> Some peer)"

definition pull_from :: "public_key \<Rightarrow> int \<Rightarrow> Follower \<Rightarrow> Follower" where
  "pull_from peer now fl =
     (let frm = head_num (fl_db fl) + 1; cnt = pull_batch (fl_tunables fl);
          fl1 = fo_post [SendToPeer peer (GetBlocks frm cnt)] fl;
          fl2 = fl1\<lparr>fl_pulling := Some \<lparr>pf_peer = peer, pf_frm = frm, pf_count = cnt, pf_sent_at = now\<rparr>\<rparr>
      in (cancel_pull_timer fl2)\<lparr>fl_pull_timer := Some (now + pull_timeout (fl_tunables fl), PullExpiry peer now)\<rparr>)"

definition try_pull :: "int \<Rightarrow> Follower \<Rightarrow> Follower" where
  "try_pull now fl =
     (if fl_pulling fl \<noteq> None then fl
      else case pick_pull_source fl of None \<Rightarrow> fl | Some source \<Rightarrow> pull_from source now fl)"

text \<open>The end of the pull in flight: its timer cancelled and the slot empty.\<close>

definition end_pull :: "Follower \<Rightarrow> Follower" where
  "end_pull fl = (cancel_pull_timer fl)\<lparr>fl_pulling := None\<rparr>"

section \<open>Adopting blocks\<close>

definition preview_matches :: "prims \<Rightarrow> nat \<Rightarrow> SignedTransaction list \<Rightarrow> Anchors \<Rightarrow> Db \<Rightarrow> bool res" where
  "preview_matches c fuel bodies expected db =
     rbind (screen_block c fuel db bodies) (\<lambda>(L, screened).
     if sc_rejects screened \<noteq> [] then Inr False
     else rbind (anchors_of c db L (sc_survivors screened) (an_block_num expected) (an_prev_block expected)) (\<lambda>computed.
       Inr (computed = expected)))"

definition adopt :: "prims \<Rightarrow> nat \<Rightarrow> SettledBlockWithBodies \<Rightarrow> Follower \<Rightarrow> (bool \<times> Follower) res" where
  "adopt c fuel offer fl =
     (let sb = sbb_block offer; db = fl_db fl in
      rbind (tip_of c db) (\<lambda>tip.
      rbind (mgmt_reader c db) (\<lambda>m.
      rbind (mg_roster c m) (\<lambda>roster.
      rbind (sr_anchor db) (\<lambda>anchor.
      rbind (advance c tip [sb] roster anchor) (\<lambda>walked.
      case walked of
        Inl refusal \<Rightarrow> Inr (False, fl)
      | Inr _ \<Rightarrow>
          if op_hash c ` set (sbb_bodies offer) \<noteq> set (bl_hashes (sb_block sb)) then Inr (False, fl)
          else if \<not> list_all (stx_verify c) (sbb_bodies offer) then Inr (False, fl)
          else
          let ordered = bodies_canonical c (sbb_bodies offer) in
          rbind (preview_matches c fuel ordered (sb_anchors sb) db) (\<lambda>good.
          if \<not> good then Inr (False, fl)
          else rbind (commit_block c fuel (an_block_num (sb_anchors sb)) (sr_head db + 1) (sb_encode sb) (block_hash c sb)
                        ordered (mgmt_auth c m) db) (\<lambda>(_, db').
            Inr (True, fo_post [BlockCommitted] (fl\<lparr>fl_db := db'\<rparr>))))))))))"

text \<open>The loop over the offered blocks: the number adopted, or \<open>None\<close> where one is refused.\<close>

fun adopt_run :: "prims \<Rightarrow> nat \<Rightarrow> int \<Rightarrow> SettledBlockWithBodies list \<Rightarrow> int \<Rightarrow> Follower \<Rightarrow> (int option \<times> Follower) res" where
  "adopt_run c fuel frm [] served fl = Inr (Some served, fl)"
| "adopt_run c fuel frm (offer # rest) served fl =
     (if an_block_num (sb_anchors (sbb_block offer)) \<noteq> frm + served then Inr (None, fl)
      else rbind (adopt c fuel offer fl) (\<lambda>(good, fl').
        if good then adopt_run c fuel frm rest (served + 1) fl' else Inr (None, fl')))"

section \<open>Handlers\<close>

definition on_height_reply :: "int \<Rightarrow> digest \<Rightarrow> public_key \<Rightarrow> int \<Rightarrow> int \<Rightarrow> Follower \<Rightarrow> Follower" where
  "on_height_reply n tip frm now now2 fl =
     try_pull now2 (fl\<lparr>fl_heads := AList.update frm \<lparr>hr_block_num = n, hr_tip_hash = tip, hr_at = now\<rparr> (fl_heads fl)\<rparr>)"

definition on_settled_blocks ::
  "prims \<Rightarrow> nat \<Rightarrow> SettledBlockWithBodies list \<Rightarrow> public_key \<Rightarrow> int \<Rightarrow> int \<Rightarrow> Follower \<Rightarrow> Follower res" where
  "on_settled_blocks c fuel payload frm now now2 fl =
     (case fl_pulling fl of
        None \<Rightarrow> Inr fl
      | Some p \<Rightarrow>
          if frm \<noteq> pf_peer p then Inr fl
          else rbind (adopt_run c fuel (pf_frm p) payload 0 (end_pull fl)) (\<lambda>(served, fl').
            Inr (case served of
                   None \<Rightarrow> fail_at frm now fl'
                 | Some k \<Rightarrow>
                     if k = 0 then fl'
                     else try_pull now2 (fl'\<lparr>fl_last_ok := AList.update frm now (fl_last_ok fl')\<rparr>))))"

definition on_refused :: "SyncRefusedReason \<Rightarrow> int option \<Rightarrow> public_key \<Rightarrow> int \<Rightarrow> int \<Rightarrow> Follower \<Rightarrow> Follower" where
  "on_refused reason at frm now now2 fl =
     (case fl_pulling fl of
        None \<Rightarrow> fl
      | Some p \<Rightarrow>
          if frm \<noteq> pf_peer p then fl
          else let fl1 = end_pull fl in
            (if reason = R_NOT_YET_SETTLED then
               try_pull now2
                 (case map_of (fl_heads fl1) frm of
                    None \<Rightarrow> fl1
                  | Some hr \<Rightarrow> fl1\<lparr>fl_heads := AList.update frm (hr\<lparr>hr_block_num := pf_frm p - 1\<rparr>) (fl_heads fl1)\<rparr>)
             else
               case at of
                 Some n \<Rightarrow>
                   if reason = R_COMPACTED then fail_at frm now (fl1\<lparr>fl_compacted := AList.update frm n (fl_compacted fl1)\<rparr>)
                   else fail_at frm now fl1
               | None \<Rightarrow> fail_at frm now fl1))"

definition on_peer_message :: "prims \<Rightarrow> nat \<Rightarrow> SyncMsg \<Rightarrow> public_key \<Rightarrow> int \<Rightarrow> int \<Rightarrow> Follower \<Rightarrow> Follower res" where
  "on_peer_message c fuel msg frm now now2 fl =
     (if frm = kp_public c (fl_me fl) then Inr fl
      else case msg of
        HeightReply n tip \<Rightarrow> Inr (on_height_reply n tip frm now now2 fl)
      | SettledBlockReply payload \<Rightarrow> on_settled_blocks c fuel payload frm now now2 fl
      | SyncRefused reason at \<Rightarrow> Inr (on_refused reason at frm now now2 fl)
      | _ \<Rightarrow> Inr fl)"

definition on_peer_added :: "prims \<Rightarrow> public_key \<Rightarrow> int \<Rightarrow> Follower \<Rightarrow> Follower" where
  "on_peer_added c peer now fl =
     (if peer = kp_public c (fl_me fl) \<or> peer \<in> fst ` set (fl_poll_timers fl) then fl else schedule_poll peer now fl)"

definition on_peer_removed :: "public_key \<Rightarrow> Follower \<Rightarrow> Follower" where
  "on_peer_removed peer fl =
     (let fl1 = fl\<lparr>fl_poll_timers := AList.delete peer (fl_poll_timers fl), fl_heads := AList.delete peer (fl_heads fl),
                   fl_last_ok := AList.delete peer (fl_last_ok fl), fl_last_fail := AList.delete peer (fl_last_fail fl)\<rparr>
      in case fl_pulling fl1 of None \<Rightarrow> fl1 | Some p \<Rightarrow> if pf_peer p = peer then end_pull fl1 else fl1)"

definition on_pull_cancelled :: "public_key \<Rightarrow> int \<Rightarrow> int \<Rightarrow> Follower \<Rightarrow> Follower" where
  "on_pull_cancelled peer now now2 fl =
     (case fl_pulling fl of
        None \<Rightarrow> fl
      | Some p \<Rightarrow> if pf_peer p = peer then try_pull now2 (fail_at peer now (end_pull fl)) else fl)"

definition on_poll_peer :: "public_key \<Rightarrow> int \<Rightarrow> Follower \<Rightarrow> Follower" where
  "on_poll_peer peer now fl =
     (if peer \<notin> fst ` set (fl_poll_timers fl) then fl
      else schedule_poll peer (now + poll_interval (fl_tunables fl)) (fo_post [SendToPeer peer HeightAsk] fl))"

definition on_pull_expiry :: "public_key \<Rightarrow> int \<Rightarrow> int \<Rightarrow> int \<Rightarrow> Follower \<Rightarrow> Follower" where
  "on_pull_expiry peer sent_at now now2 fl =
     (case fl_pulling fl of
        None \<Rightarrow> fl
      | Some p \<Rightarrow>
          if pf_peer p \<noteq> peer \<or> pf_sent_at p \<noteq> sent_at then fl
          else try_pull now2 (fail_at (pf_peer p) now (end_pull fl)))"

text \<open>
  The loop's dispatch on the events the follower registers; the loop raises for the two it posts for
  others unless they have registered a handler of their own.
\<close>

fun fo_handle :: "prims \<Rightarrow> nat \<Rightarrow> FoEvent \<Rightarrow> int \<Rightarrow> int \<Rightarrow> Follower \<Rightarrow> Follower res" where
  "fo_handle c fuel (PeerMessage msg frm) now now2 fl = on_peer_message c fuel msg frm now now2 fl"
| "fo_handle c fuel (PeerAdded peer) now now2 fl = Inr (on_peer_added c peer now fl)"
| "fo_handle c fuel (PeerRemoved peer) now now2 fl = Inr (on_peer_removed peer fl)"
| "fo_handle c fuel (PullCancelled peer) now now2 fl = Inr (on_pull_cancelled peer now now2 fl)"
| "fo_handle c fuel (PollPeer peer) now now2 fl = Inr (on_poll_peer peer now fl)"
| "fo_handle c fuel (PullExpiry peer sent_at) now now2 fl = Inr (on_pull_expiry peer sent_at now now2 fl)"
| "fo_handle c fuel (SendToPeer peer msg) now now2 fl = Inl TypeError"
| "fo_handle c fuel BlockCommitted now now2 fl = Inl TypeError"

section \<open>Queries\<close>

definition ahead_of :: "Follower \<Rightarrow> public_key list \<Rightarrow> int \<Rightarrow> (public_key \<times> HeightReport) list" where
  "ahead_of fl roster now =
     filter (\<lambda>(peer, hr). peer \<in> set roster \<and> \<not> now - hr_at hr > freshness_window (fl_tunables fl) \<and>
               hr_block_num hr > head_num (fl_db fl)) (fl_heads fl)"

definition behind :: "prims \<Rightarrow> int \<Rightarrow> Follower \<Rightarrow> bool res" where
  "behind c now fl =
     rbind (mgmt_reader c (fl_db fl)) (\<lambda>m.
     rbind (mg_roster c m) (\<lambda>roster.
     if roster = [] then Inr False
     else rbind (corroboration (int (length roster))) (\<lambda>k. Inr (int (length (ahead_of fl roster now)) \<ge> k))))"

definition needs_checkpoint :: "Follower \<Rightarrow> int option" where
  "needs_checkpoint fl =
     (if fl_compacted fl = [] then None
      else let peers_with_heads = fst ` set (pull_candidates fl) in
        (if peers_with_heads = {} then None
         else if peers_with_heads \<subseteq> fst ` set (fl_compacted fl) then Some (Max (snd ` set (fl_compacted fl)))
         else None))"

definition compacted_peers :: "Follower \<Rightarrow> public_key list" where
  "compacted_peers fl = map fst (fl_compacted fl)"

definition clear_compacted :: "Follower \<Rightarrow> Follower" where
  "clear_compacted fl = fl\<lparr>fl_compacted := []\<rparr>"

section \<open>Serving peers\<close>

definition serve_height :: "prims \<Rightarrow> Db \<Rightarrow> SyncMsg res" where
  "serve_height c db = rbind (tip_of c db) (\<lambda>tip. Inr (HeightReply (head_num db) tip))"

fun serve_blocks :: "Db \<Rightarrow> nat \<Rightarrow> int \<Rightarrow> SettledBlockWithBodies list res" where
  "serve_blocks db 0 n = Inr []"
| "serve_blocks db (Suc k) n =
     rbind (sr_settled_at db n) (\<lambda>raw.
     case raw of
       None \<Rightarrow> Inr []
     | Some b \<Rightarrow>
         rbind (sb_decode b) (\<lambda>sb.
         rbind (sr_bodies_of_block db n) (\<lambda>bodies.
         rbind (serve_blocks db k (n + 1)) (\<lambda>rest. Inr (\<lparr>sbb_block = sb, sbb_bodies = bodies\<rparr> # rest)))))"

definition serve_getblocks :: "Db \<Rightarrow> int \<Rightarrow> int \<Rightarrow> int \<Rightarrow> SyncMsg res" where
  "serve_getblocks db frm cnt cap =
     rbind (serve_blocks db (nat (max 0 (min cnt cap))) frm) (\<lambda>out.
     Inr (if out \<noteq> [] then SettledBlockReply out
          else case sr_oldest_block_num db of
            Some oldest \<Rightarrow> if frm < oldest then SyncRefused R_COMPACTED (Some oldest) else SyncRefused R_NOT_YET_SETTLED None
          | None \<Rightarrow> SyncRefused R_NOT_YET_SETTLED None))"

section \<open>The memo of the roster\<close>

text \<open>
  The memo is coherent with a store when, if it is keyed by the head block of the store, it holds the
  roster of the store. It then answers as the store does and stays coherent, and a store with another
  head block leaves it coherent.
\<close>

definition cache_coherent :: "prims \<Rightarrow> Db \<Rightarrow> RosterCache \<Rightarrow> bool" where
  "cache_coherent c db cache \<longleftrightarrow>
     (\<forall>r m. rch_roster cache = Some r \<and> rch_serial cache = sr_head_block_num db \<and> mgmt_reader c db = Inr m \<longrightarrow> mg_roster c m = Inr r)"

lemma roster_cache_transparent:
  assumes "cache_coherent c db cache" "mgmt_reader c db = Inr m"
  shows "rbind (roster_cached c m (Some (sr_head_block_num db)) cache) (\<lambda>(r, _). Inr r) = mg_roster c m"
    and "roster_cached c m (Some (sr_head_block_num db)) cache = Inr (r, cache') \<Longrightarrow> cache_coherent c db cache'"
proof -
  show "rbind (roster_cached c m (Some (sr_head_block_num db)) cache) (\<lambda>(r, _). Inr r) = mg_roster c m"
    using assms by (cases "mg_roster c m") (auto simp: roster_cached_def cache_coherent_def split: option.splits)
  show "cache_coherent c db cache'" if "roster_cached c m (Some (sr_head_block_num db)) cache = Inr (r, cache')"
    using assms that by (auto simp: roster_cached_def cache_coherent_def rbind_Inr_conv split: option.splits if_splits)
qed

lemma new_head_coherent: "rch_serial cache \<noteq> sr_head_block_num db \<Longrightarrow> cache_coherent c db cache"
  by (simp add: cache_coherent_def)

end
