(* ===== verification/Follower_Props.thy ===== *)
theory Follower_Props
  imports Follower Sample_Store
begin

text \<open>
  What the follower guarantees: a node that adopts a settled block reaches the very store of the node
  that settled it, and what that node serves is what the follower adopts; a pull in flight always has
  its timer; a node considers itself behind only on the word of more members than may be faulty. And
  one behaviour to know of: the source of the last good pull is asked again and again while it fails.
\<close>

section \<open>Replication\<close>

lemma adopt_commits:
  assumes "tip_of c (fl_db fl) = Inr tip" "mgmt_reader c (fl_db fl) = Inr m" "mg_roster c m = Inr roster"
    and "sr_anchor (fl_db fl) = Inr anchor" "advance c tip [sb] roster anchor = Inr (Inr sb)"
    and "set (bl_hashes (sb_block sb)) = op_hash c ` set bodies" "list_all (stx_verify c) bodies"
    and "canonical_batch c bodies = bodies"
    and "screen_block c fuel (fl_db fl) bodies = Inr (L, sc)" "sc_rejects sc = []"
    and "anchors_of c (fl_db fl) L (sc_survivors sc) (an_block_num (sb_anchors sb)) (an_prev_block (sb_anchors sb)) = Inr (sb_anchors sb)"
    and "commit_block c fuel (an_block_num (sb_anchors sb)) (sr_head (fl_db fl) + 1) (sb_encode sb) (block_hash c sb) bodies
           (mgmt_auth c m) (fl_db fl) = Inr (out, db')"
  shows "adopt c fuel \<lparr>sbb_block = sb, sbb_bodies = bodies\<rparr> fl = Inr (True, fo_post [BlockCommitted] (fl\<lparr>fl_db := db'\<rparr>))"
  using assms by (simp add: adopt_def Let_def bodies_canonical_def preview_matches_def)

lemma apply_to_loop_verified:
  "apply_to_loop c fuel auth batch ov seen keep dropped = Inr (ov', sc) \<Longrightarrow>
     \<forall>tx \<in> set (sc_survivors sc). tx \<in> set keep \<or> stx_verify c tx"
proof (induction batch arbitrary: ov seen keep dropped)
  case (Cons tx batch)
  show ?case
  proof (cases "op_hash c tx \<in> seen")
    case True
    then show ?thesis using Cons by simp
  next
    case False
    then obtain v layer where ev: "evaluate c fuel (overlay_reader fuel ov) tx auth = Inr (v, layer)"
      using Cons.prems by (auto simp: rbind_Inr_conv)
    show ?thesis
    proof (cases "vd_ok v")
      case True
      then have "stx_verify c tx" using ev by (auto simp: evaluate_def rejected_def vd_ok_def split: if_splits)
      moreover obtain t where "apply_to_loop c fuel auth batch t (insert (op_hash c tx) seen) (keep @ [tx]) dropped = Inr (ov', sc)"
        using Cons.prems False ev True by (auto simp: rbind_Inr_conv)
      ultimately show ?thesis using Cons.IH by fastforce
    next
      case no: False
      then have "apply_to_loop c fuel auth batch ov seen keep (dropped @ [\<lparr>rj_tx = tx, rj_verdict = v\<rparr>]) = Inr (ov', sc)"
        using Cons.prems False ev by simp
      then show ?thesis using Cons.IH by blast
    qed
  qed
qed auto

lemma screened_verified:
  assumes "screen_block c fuel db batch = Inr (L, sc)" "sc_rejects sc = []"
  shows "list_all (stx_verify c) batch"
  using assms screen_survivors[OF assms] apply_to_loop_verified
  by (fastforce simp: screen_block_def rbind_Inr_conv apply_to_def list_all_iff)

text \<open>The slot that a promotion fills names the bodies of the ratified block, in canonical order, and the store's roster.\<close>

definition slot_backed :: "prims \<Rightarrow> Db \<Rightarrow> Settling \<Rightarrow> bool" where
  "slot_backed c db s \<longleftrightarrow> set (bl_hashes (st_block s)) = op_hash c ` set (st_applied s) \<and>
     canonical_batch c (st_applied s) = st_applied s \<and>
     (\<forall>m. mgmt_reader c db = Inr m \<longrightarrow> mg_roster c m = Inr (sr_roster (st_round s)))"

lemma ratified_slice:
  assumes "sign_correct c" "round_run c r" "rn_ratified r = Some b"
  shows "set (bl_hashes b) = op_hash c ` set (rn_slice_bodies r)" "canonical_batch c (rn_slice_bodies r) = rn_slice_bodies r"
proof -
  have inv: "fate_ok c r" "cut_ok c r"
    using round_run_bodies[OF assms(2)] round_run_inv[OF assms(1,2)] by auto
  have gone: "rn_state r = GONE" and hs: "bl_hashes b = sorted_list_of_set (rn_pending_slice r)"
    using inv(2) assms(3) by (auto simp: cut_ok_def)
  obtain bodies where "rn_local r = Some bodies" using inv(1) gone by (auto simp: fate_ok_def split: option.splits)
  then have "rn_pending_slice r = op_hash c ` set (rn_slice_bodies r) \<and> canonical_batch c (rn_slice_bodies r) = rn_slice_bodies r"
    using inv(1) gone by (simp add: fate_ok_def)
  then show "set (bl_hashes b) = op_hash c ` set (rn_slice_bodies r)" "canonical_batch c (rn_slice_bodies r) = rn_slice_bodies r"
    using hs by simp_all
qed

lemma promote_slot_backed:
  assumes "sign_correct c" "co_inv c co" "promote_to_settling c fuel co = Inr co1" "co_settling co = None" "co_settling co1 = Some s"
  shows "slot_backed c (co_db co) s"
  using assms(3)
proof (cases rule: promote_cases)
  case dropped
  then show ?thesis using assms(4,5) by (simp add: drop_round_def cancel_round_timers_def)
next
  case (promoted r block m roster L sc a sr s0)
  have s: "s = s0\<lparr>st_round := snd (settle_outbox sr)\<rparr>"
    using assms(5) unfolding promoted(12)
    by (auto simp: promoted(11) flush_settle_def drop_round_def cancel_round_timers_def co_post_def split: prod.splits)
  have "sc_survivors sc = rn_slice_bodies r" by (rule screen_survivors[OF promoted(7,8)])
  moreover have "sr_roster (snd (settle_outbox sr)) = roster"
    using settle_new_frame[OF promoted(10)] by (simp add: settle_outbox_def)
  ultimately show ?thesis
    using ratified_slice[OF assms(1) co_invD(1)[OF assms(2) promoted(1)] promoted(2)] promoted(5,6)
    by (simp add: slot_backed_def s promoted(11))
qed

lemma slot_backed_receive:
  "slot_backed c db s \<Longrightarrow> settle_receive c msg from (st_round s) = Inr r \<Longrightarrow> slot_backed c db (s\<lparr>st_round := r\<rparr>)"
  by (erule settle_receive_cases) (auto simp: slot_backed_def dest: try_settle_frame)

lemma anchor_of_reader: "mgmt_reader c db = Inr m \<Longrightarrow> \<exists>anchor. sr_anchor db = Inr anchor"
  by (auto simp: mgmt_reader_def mgmt_new_def rbind_Inr_conv store_reader_sel session_anchor_def)

section \<open>Serving what was committed\<close>

definition entry_rows :: "int \<Rightarrow> SignedTransaction list \<Rightarrow> (int \<times> bytes) list" where
  "entry_rows base txs = zip [base + 1 .. base + int (length txs)] (map stx_raw txs)"

lemma entry_rows_Cons: "entry_rows base (tx # txs) = (base + 1, stx_raw tx) # entry_rows (base + 1) txs"
proof -
  have "base + 1 + int (length txs) = base + int (length (tx # txs))" by simp
  then show ?thesis by (simp add: entry_rows_def upto_rec1 algebra_simps)
qed

abbreviation raw_log :: "Db \<Rightarrow> (int \<times> bytes) list" where
  "raw_log db \<equiv> map (\<lambda>e. (en_idx e, en_raw e)) (db_entry db)"

lemma commit_tx_entry:
  assumes "commit_tx c idx tx ms acc db = Inr (db', acc')"
  shows "raw_log db' = raw_log db @ [(idx, stx_raw tx)]"
proof -
  from assms obtain db1 db2 where
    ins: "insert_entry idx (op_hash c tx) (stx_raw tx) (stx_author tx) (stx_ts tx) db = Inr db1" and
    log: "log_add c idx (op_hash c tx) db1 = Inr db2" and
    com: "commit_mutations c (stx_raw tx) ms (db2, acc) = Inr (db', acc')"
    by (auto simp: commit_tx_def rbind_Inr_conv)
  have "raw_log db1 = raw_log db @ [(idx, stx_raw tx)]"
    using ins by (auto simp: insert_entry_def rbind_Inr_conv split: if_splits)
  moreover have "db_entry db2 = db_entry db1" using log by (auto simp: log_add_def rbind_Inr_conv set_meta_def)
  ultimately show ?thesis using commit_mutations_frame[OF com] by simp
qed

text \<open>A batch of which nothing is dropped is logged as it is.\<close>

lemma apply_loop_entries:
  "apply_loop c fuel auth batch already idx acc out db = Inr (out', acc', db') \<Longrightarrow>
     \<exists>ds. ap_dropped out' = ap_dropped out @ ds \<and> (ds = [] \<longrightarrow> raw_log db' = raw_log db @ entry_rows idx batch)"
proof (induction batch arbitrary: already idx acc out db)
  case Nil
  then show ?case by (simp add: entry_rows_def)
next
  case (Cons tx batch)
  have drop: ?case if "apply_loop c fuel auth batch already idx acc (out\<lparr>ap_dropped := ap_dropped out @ [d]\<rparr>) db = Inr (out', acc', db')" for d
    using Cons.IH[OF that] by auto
  show ?case
  proof (cases "op_hash c tx \<in> already")
    case True
    then show ?thesis using Cons.prems drop by simp
  next
    case False
    then obtain v layer where ev: "evaluate c fuel (store_reader c db) tx auth = Inr (v, layer)"
      using Cons.prems by (auto simp: rbind_Inr_conv)
    show ?thesis
    proof (cases "vd_why v")
      case None
      then obtain db1 acc1 where com: "commit_tx c (idx + 1) tx (ov_log layer) acc db = Inr (db1, acc1)"
          "apply_loop c fuel auth batch (insert (op_hash c tx) already) (idx + 1) acc1
            (out\<lparr>ap_settled := ap_settled out @ [(idx + 1, op_hash c tx)]\<rparr>) db1 = Inr (out', acc', db')"
        using Cons.prems False ev by (auto simp: rbind_Inr_conv)
      show ?thesis using Cons.IH[OF com(2)] commit_tx_entry[OF com(1)] by (auto simp: entry_rows_Cons)
    next
      case (Some why)
      then show ?thesis using Cons.prems False ev drop by simp
    qed
  qed
qed

lemma apply_within_entries:
  assumes "apply_within c fuel batch auth db = Inr (out, db')" "ap_dropped out = []"
  shows "raw_log db' = raw_log db @ entry_rows (sr_head db) batch"
proof -
  obtain acc acc' db1 where "apply_loop c fuel auth batch (sr_has_settled db (map (op_hash c) batch)) (sr_head db) acc
      \<lparr>ap_settled = [], ap_dropped = []\<rparr> db = Inr (out, acc', db1)" "db' = set_meta ''acc'' acc' db1"
    using assms(1) by (auto simp: apply_within_def rbind_Inr_conv)
  then show ?thesis using apply_loop_entries assms(2) by (fastforce simp: set_meta_def)
qed

lemma served_entries:
  assumes "batch \<noteq> []" and log: "raw_log db' = raw_log db @ entry_rows (sr_head db) batch" and ok: "\<forall>tx \<in> set batch. stx_ok tx"
    and range: "0 \<le> sr_head db" "sr_head db + int (length batch) < 2 ^ 63"
  shows "\<exists>es. sr_entries db' (sr_head db + 1) (Some (sr_head db + int (length batch))) = Inr es \<and> map ent_item es = batch"
proof -
  let ?k = "length (db_entry db)" and ?lo = "sr_head db + 1" and ?hi = "sr_head db + int (length batch)"
  define old new where "old = take ?k (db_entry db')" and "new = drop ?k (db_entry db')"
  have split: "db_entry db' = old @ new" by (simp add: old_def new_def)
  have old: "map (\<lambda>e. (en_idx e, en_raw e)) old = raw_log db" and new: "map (\<lambda>e. (en_idx e, en_raw e)) new = entry_rows (sr_head db) batch"
    using log by (simp_all add: old_def new_def take_map[symmetric] drop_map[symmetric])
  have len: "length [?lo..?hi] = length batch" by simp
  have idx: "map en_idx new = [?lo..?hi]" and raw: "map en_raw new = map stx_raw batch"
    using arg_cong[OF new, of "map fst"] arg_cong[OF new, of "map snd"] len by (simp_all add: comp_def entry_rows_def)
  have "e \<notin> set old" if "?lo \<le> en_idx e" for e
  proof
    assume "e \<in> set old"
    then have "en_idx e \<in> fst ` set (raw_log db)" unfolding old[symmetric] by force
    then have "en_idx e \<in> en_idx ` set (db_entry db)" by auto
    then have "en_idx e \<le> sr_head db" by (auto simp: sr_head_def)
    then show False using that by simp
  qed
  then have none: "filter (\<lambda>e. ?lo \<le> en_idx e \<and> en_idx e \<le> ?hi) old = []" by (auto simp: filter_empty_conv)
  have "en_idx e \<in> {?lo..?hi}" if "e \<in> set new" for e
  proof -
    have "en_idx e \<in> set (map en_idx new)" using that by simp
    then show ?thesis unfolding idx by simp
  qed
  then have all: "filter (\<lambda>e. ?lo \<le> en_idx e \<and> en_idx e \<le> ?hi) new = new" by (simp add: filter_id_conv)
  have sorted: "sort_key en_idx new = new" by (rule sort_key_id_if_sorted) (simp add: idx sorted_upto)
  have sel: "sort_key en_idx (filter (\<lambda>e. ?lo \<le> en_idx e \<and> en_idx e \<le> ?hi) (db_entry db')) = new"
    by (simp add: split none all sorted)
  let ?f = "\<lambda>e. rbind (stx_decode (en_raw e)) (\<lambda>tx. Inr \<lparr>ent_idx = en_idx e, ent_item = tx\<rparr>)"
  have "\<exists>es. mapM ?f new = Inr es \<and> map ent_item es = batch"
    using raw ok
  proof (induction new arbitrary: batch)
    case (Cons e new)
    then obtain tx txs where b: "batch = tx # txs" "en_raw e = stx_raw tx" "map en_raw new = map stx_raw txs" by (cases batch) auto
    then obtain es where "mapM ?f new = Inr es" "map ent_item es = txs" using Cons.IH[of txs] Cons.prems(2) by auto
    moreover have "stx_decode (stx_raw tx) = Inr tx" using Cons.prems(2) b(1) by (simp add: stx_wire.dec_enc)
    ultimately show ?case using b by simp
  qed simp
  moreover have "1 \<le> int (length batch)" using \<open>batch \<noteq> []\<close> by (cases batch) simp_all
  then have "sql_int ?lo = Inr ()" "sql_int ?hi = Inr ()" using range by (simp_all add: sql_int_def guard_exn_def)
  ultimately show ?thesis by (auto simp: sr_entries_def sel)
qed

lemma commit_block_serves:
  assumes com: "commit_block c fuel n (sr_head db + 1) (sb_encode sb) hsh batch auth db = Inr (out, db')"
    and fresh: "find_block db n = None" and all: "ap_dropped out = []" "map snd (ap_settled out) = map (op_hash c) batch"
    and ok: "sb_ok sb" "\<forall>tx \<in> set batch. stx_ok tx" and range: "0 \<le> sr_head db" "sr_head db + int (length batch) < 2 ^ 63"
  shows "serve_blocks db' (Suc k) n = rbind (serve_blocks db' k (n + 1)) (\<lambda>rest. Inr (\<lparr>sbb_block = sb, sbb_bodies = batch\<rparr> # rest))"
proof -
  obtain db1 where w: "apply_within c fuel batch auth db = Inr (out, db1)" and n: "sql_int n = Inr ()"
      and db': "db' = db1\<lparr>db_block := db_block db1 @ [\<lparr>bk_block_num = n, bk_first_height = sr_head db + 1, bk_height = sr_head db1,
         bk_bytes = sb_encode sb, bk_hash = hsh\<rparr>]\<rparr>"
    using com fresh by (auto simp: commit_block_def rbind_Inr_conv split: if_splits)
  have head: "sr_head db1 = sr_head db + int (length batch)" and blocks: "db_block db1 = db_block db"
    using apply_within_log(2,5)[OF w] all(2) by (simp_all add: length_map[of snd, symmetric] del: length_map) simp
  have found: "find_block db' n = Some \<lparr>bk_block_num = n, bk_first_height = sr_head db + 1, bk_height = sr_head db1,
      bk_bytes = sb_encode sb, bk_hash = hsh\<rparr>"
    using fresh by (simp add: find_block_def db' blocks find_append)
  have "raw_log db' = raw_log db @ entry_rows (sr_head db) batch" using apply_within_entries[OF w all(1)] by (simp add: db')
  note es = served_entries[OF _ this ok(2) range]
  have "sr_bodies_of_block db' n = Inr batch"
  proof (cases "batch = []")
    case False
    then show ?thesis using es[OF False] by (auto simp: sr_bodies_of_block_def found n head)
  qed (simp add: sr_bodies_of_block_def found n head)
  then show ?thesis using n ok(1) by (simp add: sr_settled_at_def found sb_wire.dec_enc)
qed

lemma try_pull_db [simp]: "fl_db (try_pull now fl) = fl_db fl"
  by (simp add: try_pull_def pull_from_def fo_post_def cancel_pull_timer_def Let_def split: option.splits)

lemma commit_block_blocks:
  assumes "commit_block c fuel n fh bs hsh batch auth db = Inr (out, db')" "find_block db n = None"
  shows "\<exists>row. db_block db' = db_block db @ [row] \<and> bk_block_num row = n"
proof -
  obtain db1 where w: "apply_within c fuel batch auth db = Inr (out, db1)" "\<exists>row. db_block db' = db_block db1 @ [row] \<and> bk_block_num row = n"
    using assms by (auto simp: commit_block_def rbind_Inr_conv split: if_splits)
  then show ?thesis using apply_within_log(5)[OF w(1)] by simp
qed

text \<open>A settled slot on the store it was filled for: the commit, the answer to a peer, and the adoption.\<close>

lemma slot_commits:
  assumes "sign_correct c" "slot_exact c fuel (co_db co) s" "co_settling co = Some s" "sr_settled (st_round s) = Some sb"
    and "exact_preview c G (co_db co) (st_applied s)" "block_hash c sb \<notin> bk_hash ` set (db_block (co_db co))"
    and "in_range (next_num (co_db co))" "in_range (st_first_height s)"
  obtains m out db' where "mgmt_reader c (co_db co) = Inr m"
    "commit_block c fuel (next_num (co_db co)) (sr_head (co_db co) + 1) (sb_encode sb) (block_hash c sb) (st_applied s) (mgmt_auth c m) (co_db co) = Inr (out, db')"
    "map snd (ap_settled out) = map (op_hash c) (st_applied s)" "ap_dropped out = []" "find_block (co_db co) (next_num (co_db co)) = None"
    "do_settled c fuel co = Inr (co_post [BlockSettled, BucketTick]
       (co\<lparr>co_db := db', co_mempool := evict_settled db' (co_mempool co), co_settling := None, co_stalls := 0\<rparr>))"
proof -
  let ?db = "co_db co" and ?n = "next_num (co_db co)" and ?batch = "st_applied s"
  obtain m L sc prev where ok: "slot_ok c s" "st_first_height s = sr_head ?db + 1"
      and x: "mgmt_reader c ?db = Inr m" "screen_block c fuel ?db ?batch = Inr (L, sc)" "sc_rejects sc = []"
        "anchors_of c ?db L (sc_survivors sc) ?n prev = Inr (st_anchors s)"
    using assms(2) by (auto simp: slot_exact_def)
  have fresh: "find_block ?db ?n = None" using below_next by (force simp: find_block_def find_None_iff)
  have ranges: "in_range ?n" "in_range (sr_head ?db + 1)" using assms(7,8) ok(2) by simp_all
  obtain out db' where com: "commit_block c fuel ?n (sr_head ?db + 1) (sb_encode sb) (block_hash c sb) ?batch (mgmt_auth c m) ?db = Inr (out, db')"
      and post: "expect_anchors c (st_anchors s) db' = Inr ()" and outs: "map snd (ap_settled out) = map (op_hash c) ?batch" "ap_dropped out = []"
    by (rule commit_screened_block[OF assms(5) x fresh ranges assms(6)])
  have "an_block_num (st_anchors s) = ?n" using anchors_of_names[OF x(4)] by simp
  then have "do_settled c fuel co = Inr (co_post [BlockSettled, BucketTick]
      (co\<lparr>co_db := db', co_mempool := evict_settled db' (co_mempool co), co_settling := None, co_stalls := 0\<rparr>))"
    using assms(3,4) x(1) com post ok(2) by (simp add: do_settled_def co_mgmt_def)
  then show thesis by (rule that[OF x(1) com outs fresh])
qed

lemma commit_served:
  assumes com: "commit_block c fuel (next_num db) (sr_head db + 1) (sb_encode sb) hsh batch auth db = Inr (out, db')"
    and fresh: "find_block db (next_num db) = None" and outs: "ap_dropped out = []" "map snd (ap_settled out) = map (op_hash c) batch"
    and ok: "sb_ok sb" "\<forall>tx \<in> set batch. stx_ok tx" and range: "0 \<le> sr_head db" "sr_head db + int (length batch) < 2 ^ 63"
    and "in_range (next_num db + 1)" "0 < cnt" "0 < cap"
  shows "serve_getblocks db' (next_num db) cnt cap = Inr (SettledBlockReply [\<lparr>sbb_block = sb, sbb_bodies = batch\<rparr>])"
proof -
  let ?n = "next_num db"
  obtain row where row: "db_block db' = db_block db @ [row]" "bk_block_num row = ?n" using commit_block_blocks[OF com fresh] by blast
  have "b \<in> set (db_block db) \<Longrightarrow> bk_block_num b \<noteq> ?n + 1" for b using below_next[of b db] by simp
  then have "find_block db' (?n + 1) = None" using row by (auto simp: find_block_def find_None_iff)
  moreover have "sql_int (?n + 1) = Inr ()" using assms(9) by simp
  ultimately have "serve_blocks db' k (?n + 1) = Inr []" for k by (cases k) (simp_all add: sr_settled_at_def)
  moreover obtain k where "nat (max 0 (min cnt cap)) = Suc k" using assms(10,11) by (cases "nat (max 0 (min cnt cap))") auto
  ultimately show ?thesis using commit_block_serves[OF com fresh outs ok range] by (simp add: serve_getblocks_def)
qed

lemma slot_adopted:
  assumes "sign_correct c" "slot_exact c fuel db s" "slot_backed c db s" "sr_settled (st_round s) = Some sb" "fl_db fl = db"
    and m: "mgmt_reader c db = Inr m"
    and com: "commit_block c fuel (next_num db) (sr_head db + 1) (sb_encode sb) (block_hash c sb) (st_applied s) (mgmt_auth c m) db = Inr (out, db')"
  shows "an_block_num (sb_anchors sb) = next_num db"
    and "adopt c fuel \<lparr>sbb_block = sb, sbb_bodies = st_applied s\<rparr> fl = Inr (True, fo_post [BlockCommitted] (fl\<lparr>fl_db := db'\<rparr>))"
proof -
  obtain L sc prev where ok: "slot_ok c s"
      and x: "screen_block c fuel db (st_applied s) = Inr (L, sc)" "sc_rejects sc = []"
        "anchors_of c db L (sc_survivors sc) (next_num db) prev = Inr (st_anchors s)" and tip: "tip_of c db = Inr prev"
    using assms(2) by (auto simp: slot_exact_def)
  have so: "settled_ok (st_round s)" "settle_run c (st_round s)"
    using settle_run_inv[OF assms(1), of "st_round s"] ok by (simp_all add: slot_ok_def)
  then have anch: "sb_anchors sb = st_anchors s" and blk: "sb_block sb = st_block s"
    using ok assms(4) by (simp_all add: settled_ok_def slot_ok_def)
  have num: "an_block_num (st_anchors s) = next_num db" "an_prev_block (st_anchors s) = prev" using anchors_of_names[OF x(3)] by simp_all
  then show "an_block_num (sb_anchors sb) = next_num db" by (simp add: anch)
  obtain anchor where anchor: "sr_anchor db = Inr anchor" using anchor_of_reader[OF m] by blast
  have "az_verify c (block_authorization c sb (sr_roster (st_round s)) anchor) = Inr True"
    using settled_block_verifies[OF assms(1) so(2), where anchor = anchor] assms(4) by (simp add: block_authorization_def)
  then have adv: "advance c prev [sb] (sr_roster (st_round s)) anchor = Inr (Inr sb)" by (simp add: advance_def anch num(2))
  have roster: "mg_roster c m = Inr (sr_roster (st_round s))" using assms(3) m by (simp add: slot_backed_def)
  show "adopt c fuel \<lparr>sbb_block = sb, sbb_bodies = st_applied s\<rparr> fl = Inr (True, fo_post [BlockCommitted] (fl\<lparr>fl_db := db'\<rparr>))"
    by (rule adopt_commits[where tip = prev and roster = "sr_roster (st_round s)" and anchor = anchor and m = m and L = L and sc = sc and out = out])
      (use tip x m roster anchor adv assms(3) screened_verified[OF x(1,2)] com num in \<open>simp_all add: assms(5) slot_backed_def blk anch\<close>)
qed

text \<open>
  C5: Replication. A node that fills its settle slot by promoting a ratified round fills it with the
  bodies of the ratified block and the roster of its store. When the slot has settled, and previews
  are exact on its store and transactions: the node commits the block; asked for the block by a
  follower whose store is what the node's store was, it answers with the block and its transactions;
  and the follower, when that answer comes in from the peer it is pulling from, adopts the block and
  has then the same store, table for table, as the node that settled it.
\<close>

theorem settled_blocks_replicate:
  assumes "sign_correct c" "slot_exact c fuel (co_db co) s" "slot_backed c (co_db co) s"
    and "co_settling co = Some s" "sr_settled (st_round s) = Some sb"
    and "exact_preview c G (co_db co) (st_applied s)" "block_hash c sb \<notin> bk_hash ` set (db_block (co_db co))"
    and "in_range (next_num (co_db co))" "in_range (next_num (co_db co) + 1)" "in_range (st_first_height s)"
    and "sb_ok sb" "\<forall>tx \<in> set (st_applied s). stx_ok tx"
    and "fl_db fl = co_db co" "fl_pulling fl = Some p" "pf_frm p = head_num (fl_db fl) + 1" "pf_peer p \<noteq> kp_public c (fl_me fl)"
    and "0 < pf_count p" "0 < cap"
  shows "(co_inv c co0 \<and> promote_to_settling c fuel co0 = Inr co1 \<and> co_settling co0 = None \<and> co_settling co1 = Some s1 \<longrightarrow>
      slot_backed c (co_db co0) s1 \<and>
      (settle_receive c msg from (st_round s1) = Inr r' \<longrightarrow> slot_backed c (co_db co0) (s1\<lparr>st_round := r'\<rparr>))) \<and>
    (\<exists>co2 reply fl'. do_settled c fuel co = Inr co2 \<and>
      serve_getblocks (co_db co2) (pf_frm p) (pf_count p) cap = Inr reply \<and>
      fo_handle c fuel (PeerMessage reply (pf_peer p)) now now2 fl = Inr fl' \<and> fl_db fl' = co_db co2)"
proof -
  let ?db = "co_db co" and ?n = "next_num (co_db co)" and ?batch = "st_applied s"
  obtain m out db' where mr: "mgmt_reader c ?db = Inr m"
      and com: "commit_block c fuel ?n (sr_head ?db + 1) (sb_encode sb) (block_hash c sb) ?batch (mgmt_auth c m) ?db = Inr (out, db')"
      and outs: "map snd (ap_settled out) = map (op_hash c) ?batch" "ap_dropped out = []" and fresh: "find_block ?db ?n = None"
      and commit: "do_settled c fuel co = Inr (co_post [BlockSettled, BucketTick]
        (co\<lparr>co_db := db', co_mempool := evict_settled db' (co_mempool co), co_settling := None, co_stalls := 0\<rparr>))"
    by (rule slot_commits[OF assms(1,2,4-8,10)])
  have frm: "pf_frm p = ?n" using assms(13,15) by (simp add: head_num_def next_num_def)
  have range: "0 \<le> sr_head ?db" "sr_head ?db + int (length ?batch) < 2 ^ 63" using assms(6) by (simp_all add: exact_preview_def)
  have serve: "serve_getblocks db' (pf_frm p) (pf_count p) cap = Inr (SettledBlockReply [\<lparr>sbb_block = sb, sbb_bodies = ?batch\<rparr>])"
    unfolding frm by (rule commit_served[OF com fresh outs(2,1) assms(11,12) range assms(9,17,18)])
  have "fl_db (end_pull fl) = ?db" using assms(13) by (simp add: end_pull_def cancel_pull_timer_def)
  note adopted = slot_adopted[OF assms(1-3,5) this mr com]
  then have "\<exists>fl'. fo_handle c fuel (PeerMessage (SettledBlockReply [\<lparr>sbb_block = sb, sbb_bodies = ?batch\<rparr>]) (pf_peer p)) now now2 fl = Inr fl' \<and> fl_db fl' = db'"
    using assms(14,16) frm by (simp add: on_peer_message_def on_settled_blocks_def fo_post_def)
  then have main: "\<exists>co2 reply fl'. do_settled c fuel co = Inr co2 \<and> serve_getblocks (co_db co2) (pf_frm p) (pf_count p) cap = Inr reply \<and>
      fo_handle c fuel (PeerMessage reply (pf_peer p)) now now2 fl = Inr fl' \<and> fl_db fl' = co_db co2"
    using commit serve by (auto simp: co_post_def)
  have fills: "slot_backed c (co_db co0) s1"
    if "co_inv c co0 \<and> promote_to_settling c fuel co0 = Inr co1 \<and> co_settling co0 = None \<and> co_settling co1 = Some s1"
    using that promote_slot_backed[OF assms(1)] by blast
  show ?thesis by (intro conjI impI fills slot_backed_receive main) simp_all
qed

lemma seat_me: "kp_public seat_prims [2] \<noteq> sole_seed"
proof -
  have "hd (kp_public seat_prims [2]) = 2" "hd sole_seed = 7" by (simp_all add: seat_public pad_to_def sole_seed_def)
  then show ?thesis by auto
qed

lemma seat_slot:
  obtains s sb where "slot_exact seat_prims 5 db_seat s" "slot_backed seat_prims db_seat s" "sr_settled (st_round s) = Some sb" "sb_ok sb"
    "st_applied s = []" "st_first_height s = 1"
proof -
  let ?c = seat_prims and ?b = "\<lparr>bl_bucket = 4, bl_hashes = []\<rparr>"
  obtain sr sb where sr: "settle_new ?c ?b sole_seed [sole_seed] seat_anchors 20 = Inr sr" "sr_settled sr = Some sb" "sb_ok sb"
    by (rule seat_settles)
  obtain L where L: "screen_block ?c 5 db_seat [] = Inr (L, \<lparr>sc_survivors = [], sc_rejects = []\<rparr>)"
      "anchors_of ?c db_seat L [] 1 (an_prev_block seat_anchors) = Inr seat_anchors" by (rule seat_screen)
  define s where "s = \<lparr>st_bucket = 4, st_block = ?b, st_layer = L, st_applied = [], st_surviving = [], st_anchors = seat_anchors,
     st_first_height = 1, st_round = sr\<rparr>"
  have tip: "tip_of ?c db_seat = Inr (an_prev_block seat_anchors)" by (simp add: seat_reads seat_anchors_def)
  have slot: "slot_exact ?c 5 db_seat s"
    using settle_run.start[OF sr(1)] settle_new_frame[OF sr(1)] L tip
    by (simp add: slot_exact_def slot_ok_def s_def seat_reads seat_reader)
  have backed: "slot_backed ?c db_seat s"
    using settle_new_frame[OF sr(1)] seat_roster by (simp add: slot_backed_def s_def seat_reader canonical_batch_def)
  show thesis by (rule that[OF slot backed _ sr(3)]) (simp_all add: s_def sr(2))
qed

theorem settled_blocks_replicate_witness:
  "\<exists>s sb co2 reply fl'. let co = (co_new sole_seed db_seat DEFAULT)\<lparr>co_settling := Some s\<rparr>;
       fl = pull_from sole_seed 5 (follower_new [2] db_seat DEFAULT) in
     sr_settled (st_round s) = Some sb \<and> do_settled seat_prims 5 co = Inr co2 \<and>
     serve_getblocks (co_db co2) 1 32 32 = Inr reply \<and>
     fo_handle seat_prims 5 (PeerMessage reply sole_seed) 7 8 fl = Inr fl' \<and> fl_db fl' = co_db co2"
proof -
  let ?c = seat_prims
  obtain s sb where s: "slot_exact ?c 5 db_seat s" "slot_backed ?c db_seat s" "sr_settled (st_round s) = Some sb" "sb_ok sb"
      "st_applied s = []" "st_first_height s = 1" by (rule seat_slot)
  let ?co = "(co_new sole_seed db_seat DEFAULT)\<lparr>co_settling := Some s\<rparr>"
  let ?fl = "pull_from sole_seed 5 (follower_new [2] db_seat DEFAULT)"
  have db: "co_db ?co = db_seat" by (simp add: co_new_def)
  have exact: "exact_preview ?c {b. length b = 32} (co_db ?co) (st_applied s)" using seat_exact by (simp add: db s)
  have pull: "fl_pulling ?fl = Some \<lparr>pf_peer = sole_seed, pf_frm = 1, pf_count = 32, pf_sent_at = 5\<rparr>" "fl_db ?fl = db_seat" "fl_me ?fl = [2]"
    by (simp_all add: pull_from_def follower_new_def head_num_def seat_reads cancel_pull_timer_def fo_post_def DEFAULT_def)
  have "\<exists>co2 reply fl'. do_settled ?c 5 ?co = Inr co2 \<and> serve_getblocks (co_db co2) 1 32 32 = Inr reply \<and>
      fo_handle ?c 5 (PeerMessage reply sole_seed) 7 8 ?fl = Inr fl' \<and> fl_db fl' = co_db co2"
    using settled_blocks_replicate[OF seat_laws(2) _ _ _ s(3) exact, where fl = ?fl and cap = 32 and now = 7 and ?now2.0 = 8,
        OF _ _ _ _ _ _ _ s(4) _ _ pull(1)] s seat_me
    by (simp add: pull db seat_sel seat_reads in_range_def head_num_def)
  then show ?thesis using s(3) unfolding Let_def by (intro exI[of _ s] exI[of _ sb]) simp
qed

section \<open>Pulls and their timers\<close>

text \<open>A pull in flight has exactly its own expiry scheduled; without one nothing is.\<close>

definition pull_armed :: "Follower \<Rightarrow> bool" where
  "pull_armed fl \<longleftrightarrow> fl_pull_timer fl =
     map_option (\<lambda>p. (pf_sent_at p + pull_timeout (fl_tunables fl), PullExpiry (pf_peer p) (pf_sent_at p))) (fl_pulling fl)"

definition fl_inv :: "Follower \<Rightarrow> bool" where
  "fl_inv fl \<longleftrightarrow> pull_armed fl \<and> distinct (map fst (fl_heads fl)) \<and>
     (\<forall>(peer, at, e) \<in> set (fl_poll_timers fl). e = PollPeer peer) \<and> distinct (map fst (fl_poll_timers fl))"

inductive fo_run :: "prims \<Rightarrow> seed \<Rightarrow> Tunables \<Rightarrow> Follower \<Rightarrow> bool" for c me t where
  start: "fo_run c me t (follower_new me db t)"
| handle: "fo_run c me t fl \<Longrightarrow> fo_handle c fuel e now now2 fl = Inr fl' \<Longrightarrow> fo_run c me t fl'"
| others: "fo_run c me t fl \<Longrightarrow> fo_run c me t (fl\<lparr>fl_db := db\<rparr>)"
| clear: "fo_run c me t fl \<Longrightarrow> fo_run c me t (clear_compacted fl)"

lemmas follower_defs = pull_from_def fo_post_def cancel_pull_timer_def end_pull_def fail_at_def schedule_poll_def

lemma fl_inv_frame:
  assumes "fl_inv fl" "fl_pulling fl' = fl_pulling fl" "fl_pull_timer fl' = fl_pull_timer fl" "fl_tunables fl' = fl_tunables fl"
    "fl_heads fl' = fl_heads fl" "fl_poll_timers fl' = fl_poll_timers fl"
  shows "fl_inv fl'"
  using assms by (simp add: fl_inv_def pull_armed_def)

lemma end_pull_inv: "fl_inv fl \<Longrightarrow> fl_inv (end_pull fl)"
  by (simp add: fl_inv_def pull_armed_def follower_defs)

lemma fail_at_inv: "fl_inv fl \<Longrightarrow> fl_inv (fail_at peer now fl)"
  by (erule fl_inv_frame) (simp_all add: fail_at_def)

lemma heads_inv: "fl_inv fl \<Longrightarrow> fl_inv (fl\<lparr>fl_heads := AList.update k v (fl_heads fl)\<rparr>)"
  by (simp add: fl_inv_def pull_armed_def distinct_update)

lemma try_pull_inv: "fl_inv fl \<Longrightarrow> fl_inv (try_pull now fl)"
  by (auto simp: fl_inv_def pull_armed_def try_pull_def follower_defs Let_def split: option.split)

lemma schedule_poll_inv: "fl_inv fl \<Longrightarrow> fl_inv (schedule_poll peer at fl)"
  using set_alist_update[of peer "(at, PollPeer peer)" "fl_poll_timers fl"]
  by (auto simp: fl_inv_def pull_armed_def schedule_poll_def distinct_update)

lemma adopt_cases:
  assumes "adopt c fuel offer fl = Inr (b, fl')"
  obtains (refused) "\<not> b" "fl' = fl"
  | (adopted) tip m roster anchor head out db' where "b" "fl' = fo_post [BlockCommitted] (fl\<lparr>fl_db := db'\<rparr>)"
      "tip_of c (fl_db fl) = Inr tip" "mgmt_reader c (fl_db fl) = Inr m" "mg_roster c m = Inr roster" "sr_anchor (fl_db fl) = Inr anchor"
      "advance c tip [sbb_block offer] roster anchor = Inr (Inr head)"
      "set (bl_hashes (sb_block (sbb_block offer))) = op_hash c ` set (sbb_bodies offer)" "list_all (stx_verify c) (sbb_bodies offer)"
      "preview_matches c fuel (bodies_canonical c (sbb_bodies offer)) (sb_anchors (sbb_block offer)) (fl_db fl) = Inr True"
      "commit_block c fuel (an_block_num (sb_anchors (sbb_block offer))) (sr_head (fl_db fl) + 1) (sb_encode (sbb_block offer))
         (block_hash c (sbb_block offer)) (bodies_canonical c (sbb_bodies offer)) (mgmt_auth c m) (fl_db fl) = Inr (out, db')"
proof -
  obtain tip m roster anchor walked where pre: "tip_of c (fl_db fl) = Inr tip" "mgmt_reader c (fl_db fl) = Inr m" "mg_roster c m = Inr roster"
      "sr_anchor (fl_db fl) = Inr anchor" "advance c tip [sbb_block offer] roster anchor = Inr walked"
    using assms by (auto simp: adopt_def Let_def rbind_Inr_conv)
  show thesis
  proof (cases walked)
    case (Inl r)
    then show thesis using assms pre refused by (simp add: adopt_def)
  next
    case (Inr head)
    show thesis
    proof (cases "set (bl_hashes (sb_block (sbb_block offer))) = op_hash c ` set (sbb_bodies offer) \<and> list_all (stx_verify c) (sbb_bodies offer)")
      case False
      then have "op_hash c ` set (sbb_bodies offer) \<noteq> set (bl_hashes (sb_block (sbb_block offer))) \<or> \<not> list_all (stx_verify c) (sbb_bodies offer)"
        by (metis (no_types))
      then have "adopt c fuel offer fl = Inr (False, fl)" using pre Inr by (simp add: adopt_def Let_def)
      then show thesis using assms refused by simp
    next
      case True
      then obtain good where good: "preview_matches c fuel (bodies_canonical c (sbb_bodies offer)) (sb_anchors (sbb_block offer)) (fl_db fl) = Inr good"
        using assms pre Inr by (auto simp: adopt_def Let_def rbind_Inr_conv)
      show thesis
      proof (cases good)
        case False
        then have "adopt c fuel offer fl = Inr (False, fl)" using pre Inr True good by (simp add: adopt_def)
        then show thesis using assms refused by simp
      next
        case ok: True
        then have eq: "adopt c fuel offer fl = rbind (commit_block c fuel (an_block_num (sb_anchors (sbb_block offer))) (sr_head (fl_db fl) + 1)
            (sb_encode (sbb_block offer)) (block_hash c (sbb_block offer)) (bodies_canonical c (sbb_bodies offer)) (mgmt_auth c m) (fl_db fl))
            (\<lambda>(_, db'). Inr (True, fo_post [BlockCommitted] (fl\<lparr>fl_db := db'\<rparr>)))"
          using pre Inr True good by (simp add: adopt_def Let_def)
        then obtain out db' where com: "commit_block c fuel (an_block_num (sb_anchors (sbb_block offer))) (sr_head (fl_db fl) + 1)
            (sb_encode (sbb_block offer)) (block_hash c (sbb_block offer)) (bodies_canonical c (sbb_bodies offer)) (mgmt_auth c m) (fl_db fl) = Inr (out, db')"
          using assms unfolding eq by (auto simp: rbind_Inr_conv)
        then have "b" "fl' = fo_post [BlockCommitted] (fl\<lparr>fl_db := db'\<rparr>)" using eq assms by simp_all
        then show thesis using pre Inr True good ok com by (intro adopted) simp_all
      qed
    qed
  qed
qed

lemma adopt_run_inv: "adopt_run c fuel frm offers served fl = Inr (r, fl') \<Longrightarrow> fl_inv fl \<Longrightarrow> fl_inv fl'"
proof (induction offers arbitrary: served fl)
  case (Cons offer offers)
  have post: "fl_inv fl \<Longrightarrow> fl_inv (fo_post [BlockCommitted] (fl\<lparr>fl_db := db\<rparr>))" for db
    by (erule fl_inv_frame) (simp_all add: fo_post_def)
  show ?case
  proof (cases "an_block_num (sb_anchors (sbb_block offer)) = frm + served")
    case True
    then obtain b fl1 where a: "adopt c fuel offer fl = Inr (b, fl1)" using Cons.prems(1) by (auto simp: rbind_Inr_conv)
    then have "fl_inv fl1" by (cases rule: adopt_cases) (use Cons.prems(2) post in auto)
    then show ?thesis using True a Cons.prems(1) Cons.IH by (cases b) auto
  qed (use Cons.prems in simp)
qed simp

lemma on_settled_blocks_inv:
  assumes "fl_inv fl" "on_settled_blocks c fuel payload frm now now2 fl = Inr fl'"
  shows "fl_inv fl'"
proof (cases "\<exists>p. fl_pulling fl = Some p \<and> frm = pf_peer p")
  case True
  then obtain p served fl1 where p: "fl_pulling fl = Some p" "frm = pf_peer p"
      and run: "adopt_run c fuel (pf_frm p) payload 0 (end_pull fl) = Inr (served, fl1)"
    using assms(2) by (auto simp: on_settled_blocks_def rbind_Inr_conv)
  have inv: "fl_inv fl1" by (rule adopt_run_inv[OF run end_pull_inv[OF assms(1)]])
  then have "fl_inv (fl1\<lparr>fl_last_ok := ok\<rparr>)" for ok by (rule fl_inv_frame) simp_all
  then show ?thesis using assms(2) p run inv by (cases served) (auto simp: on_settled_blocks_def intro: fail_at_inv try_pull_inv split: if_splits)
next
  case False
  then have "fl' = fl" using assms(2) by (auto simp: on_settled_blocks_def split: option.splits)
  then show ?thesis using assms(1) by simp
qed

lemma on_refused_inv:
  assumes "fl_inv fl"
  shows "fl_inv (on_refused reason at frm now now2 fl)"
proof -
  have "fl_inv ((end_pull fl)\<lparr>fl_compacted := x\<rparr>)" for x by (rule fl_inv_frame[OF end_pull_inv[OF assms]]) simp_all
  then show ?thesis
    using assms end_pull_inv[OF assms] heads_inv[OF end_pull_inv[OF assms]]
    by (auto simp: on_refused_def Let_def intro!: try_pull_inv fail_at_inv split: option.splits)
qed

lemma on_peer_removed_inv: "fl_inv fl \<Longrightarrow> fl_inv (on_peer_removed peer fl)"
proof -
  assume inv: "fl_inv fl"
  have "fl_inv (fl\<lparr>fl_poll_timers := AList.delete peer (fl_poll_timers fl), fl_heads := AList.delete peer (fl_heads fl),
     fl_last_ok := a, fl_last_fail := b\<rparr>)" for a b
    using inv by (auto simp: fl_inv_def pull_armed_def AList.delete_eq distinct_map_filter)
  then show ?thesis using end_pull_inv by (auto simp: on_peer_removed_def Let_def split: option.split)
qed

lemma fo_handle_inv:
  assumes "fl_inv fl" "fo_handle c fuel e now now2 fl = Inr fl'"
  shows "fl_inv fl'"
proof -
  have post: "fl_inv (fo_post es fl)" for es by (rule fl_inv_frame[OF assms(1)]) (simp_all add: fo_post_def)
  show ?thesis
  proof (cases e)
    case (PeerMessage msg frm)
    then show ?thesis using assms
      by (cases msg) (auto simp: on_peer_message_def on_height_reply_def intro: on_settled_blocks_inv on_refused_inv try_pull_inv heads_inv split: if_splits)
  qed (use assms post in \<open>auto simp: on_peer_added_def on_pull_cancelled_def on_poll_peer_def on_pull_expiry_def
      intro!: on_peer_removed_inv schedule_poll_inv try_pull_inv fail_at_inv end_pull_inv split: option.splits\<close>)
qed

lemma fo_run_inv: "fo_run c me t fl \<Longrightarrow> fl_inv fl"
proof (induction rule: fo_run.induct)
  case (start db)
  show ?case by (simp add: follower_new_def fl_inv_def pull_armed_def)
next
  case (handle fl fuel e now now2 fl')
  show ?case by (rule fo_handle_inv[OF handle.IH handle.hyps(2)])
next
  case (others fl db)
  show ?case by (rule fl_inv_frame[OF others.IH]) simp_all
next
  case (clear fl)
  show ?case by (rule fl_inv_frame[OF clear.IH]) (simp_all add: clear_compacted_def)
qed

lemma try_pull_fresh:
  assumes "fl_pulling fl = None"
  shows "fl_last_fail (try_pull now fl) = fl_last_fail fl"
    and "fl_pulling (try_pull now fl) = Some q \<Longrightarrow> pf_sent_at q = now \<and>
      fl_pull_timer (try_pull now fl) = Some (now + pull_timeout (fl_tunables fl), PullExpiry (pf_peer q) now)"
  using assms by (cases "pick_pull_source fl"; auto simp: try_pull_def follower_defs Let_def)+

text \<open>
  Every pull ends. In every run of a follower, whatever events come in whatever order: a pull in
  flight has its own expiry scheduled, one pull timeout after it was sent, and no expiry is scheduled
  without a pull; and when that expiry is handled, the pull is over, the peer is marked as failed and
  what may be in flight afterwards is a new pull with an expiry of its own.
\<close>

lemma pull_always_expires:
  assumes "fo_run c me t fl"
  shows "(fl_pulling fl = None \<longrightarrow> fl_pull_timer fl = None) \<and>
    (\<forall>p. fl_pulling fl = Some p \<longrightarrow>
       fl_pull_timer fl = Some (pf_sent_at p + pull_timeout (fl_tunables fl), PullExpiry (pf_peer p) (pf_sent_at p)) \<and>
       (\<exists>fl'. fo_handle c fuel (PullExpiry (pf_peer p) (pf_sent_at p)) now now2 fl = Inr fl' \<and>
          map_of (fl_last_fail fl') (pf_peer p) = Some now \<and>
          (\<forall>q. fl_pulling fl' = Some q \<longrightarrow> pf_sent_at q = now2 \<and>
             fl_pull_timer fl' = Some (now2 + pull_timeout (fl_tunables fl), PullExpiry (pf_peer q) now2))))"
proof -
  have armed: "pull_armed fl" using fo_run_inv[OF assms] by (simp add: fl_inv_def)
  have ends: "\<exists>fl'. fo_handle c fuel (PullExpiry (pf_peer p) (pf_sent_at p)) now now2 fl = Inr fl' \<and>
      map_of (fl_last_fail fl') (pf_peer p) = Some now \<and>
      (\<forall>q. fl_pulling fl' = Some q \<longrightarrow> pf_sent_at q = now2 \<and>
         fl_pull_timer fl' = Some (now2 + pull_timeout (fl_tunables fl), PullExpiry (pf_peer q) now2))" if p: "fl_pulling fl = Some p" for p
  proof -
    let ?fl = "fail_at (pf_peer p) now (end_pull fl)"
    have "fl_pulling ?fl = None" "map_of (fl_last_fail ?fl) (pf_peer p) = Some now" "fl_tunables ?fl = fl_tunables fl"
      by (simp_all add: follower_defs update_conv)
    moreover have "fo_handle c fuel (PullExpiry (pf_peer p) (pf_sent_at p)) now now2 fl = Inr (try_pull now2 ?fl)"
      using p by (simp add: on_pull_expiry_def)
    ultimately show ?thesis using try_pull_fresh[of ?fl now2] by metis
  qed
  show ?thesis
  proof (intro conjI allI impI ends)
    show "fl_pull_timer fl = None" if "fl_pulling fl = None" using armed that by (simp add: pull_armed_def)
    show "fl_pull_timer fl = Some (pf_sent_at p + pull_timeout (fl_tunables fl), PullExpiry (pf_peer p) (pf_sent_at p))"
      if "fl_pulling fl = Some p" for p using armed that by (simp add: pull_armed_def)
  qed
qed

text \<open>A follower that has heard from the seated node, and pulls from it.\<close>

definition heard :: "int \<Rightarrow> int \<Rightarrow> Follower res" where
  "heard now now2 = fo_handle seat_prims 5 (PeerMessage (HeightReply 9 (replicate 32 0)) sole_seed) now now2 (follower_new [2] db_seat DEFAULT)"

lemma heard_pulls:
  obtains fl where "heard now now2 = Inr fl" "fo_run seat_prims [2] DEFAULT fl" "fl_db fl = db_seat"
    "fl_pulling fl = Some \<lparr>pf_peer = sole_seed, pf_frm = 1, pf_count = 32, pf_sent_at = now2\<rparr>"
    "fl_heads fl = [(sole_seed, \<lparr>hr_block_num = 9, hr_tip_hash = replicate 32 0, hr_at = now\<rparr>)]" "fl_last_ok fl = []" "fl_tunables fl = DEFAULT"
proof -
  let ?fl0 = "(follower_new [2] db_seat DEFAULT)\<lparr>fl_heads := [(sole_seed, \<lparr>hr_block_num = 9, hr_tip_hash = replicate 32 0, hr_at = now\<rparr>)]\<rparr>"
  have pick: "pick_pull_source ?fl0 = Some sole_seed"
    by (simp add: pick_pull_source_def pull_candidates_def follower_new_def head_num_def seat_reads)
  have eq: "heard now now2 = Inr (pull_from sole_seed now2 ?fl0)"
    using seat_me pick by (auto simp: heard_def on_peer_message_def on_height_reply_def try_pull_def) (simp_all add: follower_new_def)
  moreover have "fo_run seat_prims [2] DEFAULT (pull_from sole_seed now2 ?fl0)"
    using fo_run.handle[OF fo_run.start eq[unfolded heard_def]] .
  ultimately show thesis
    by (rule that) (simp_all add: pull_from_def follower_new_def head_num_def seat_reads cancel_pull_timer_def fo_post_def DEFAULT_def Let_def)
qed

lemma pull_always_expires_witness:
  "\<exists>fl fl'. heard 4 5 = Inr fl \<and> fl_pull_timer fl = Some (5 + pull_timeout DEFAULT, PullExpiry sole_seed 5) \<and>
     fo_handle seat_prims 5 (PullExpiry sole_seed 5) 9 10 fl = Inr fl' \<and> map_of (fl_last_fail fl') sole_seed = Some 9"
proof -
  obtain fl where fl: "heard 4 5 = Inr fl" "fo_run seat_prims [2] DEFAULT fl"
      "fl_pulling fl = Some \<lparr>pf_peer = sole_seed, pf_frm = 1, pf_count = 32, pf_sent_at = 5\<rparr>" "fl_tunables fl = DEFAULT"
    by (rule heard_pulls[of 4 5]) blast
  show ?thesis using pull_always_expires[OF fl(2), of 5 9 10] fl by auto
qed

section \<open>What a follower adopts\<close>

text \<open>
  C24: A follower adopts only what was endorsed, and then holds exactly what was signed. An offer that
  is refused changes nothing. An offer that is adopted links to the tip, carries the signature of the
  manager or of a quorum of the roster on its slice and anchors, and its transactions are those the
  block names, each with a valid signature; and on a store and with transactions for which previews
  are exact, the store then has the height, the state root and both accumulators of the anchors.
\<close>

theorem adopted_blocks_are_endorsed:
  assumes "adopt c fuel offer fl = Inr (b, fl')"
  shows "(\<not> b \<longrightarrow> fl' = fl) \<and>
    (b \<longrightarrow> (\<exists>m roster anchor. mgmt_reader c (fl_db fl) = Inr m \<and> mg_roster c m = Inr roster \<and> sr_anchor (fl_db fl) = Inr anchor \<and>
         endorsed c roster anchor (sbb_block offer)) \<and>
       tip_of c (fl_db fl) = Inr (an_prev_block (sb_anchors (sbb_block offer))) \<and>
       op_hash c ` set (sbb_bodies offer) = set (bl_hashes (sb_block (sbb_block offer))) \<and> list_all (stx_verify c) (sbb_bodies offer) \<and>
       (exact_preview c G (fl_db fl) (bodies_canonical c (sbb_bodies offer)) \<and>
        find_block (fl_db fl) (an_block_num (sb_anchors (sbb_block offer))) = None \<longrightarrow>
          expect_anchors c (sb_anchors (sbb_block offer)) (fl_db fl') = Inr ()))"
  using assms
proof (cases rule: adopt_cases)
  case (adopted tip m roster anchor head out db')
  let ?sb = "sbb_block offer" and ?ordered = "bodies_canonical c (sbb_bodies offer)"
  have adv: "an_prev_block (sb_anchors ?sb) = tip" "az_verify c (block_authorization c ?sb roster anchor) = Inr True"
    using adopted(7) by (auto simp: advance_def rbind_Inr_conv split: if_splits)
  have exact: "expect_anchors c (sb_anchors ?sb) db' = Inr ()"
    if e: "exact_preview c G (fl_db fl) ?ordered" and fresh: "find_block (fl_db fl) (an_block_num (sb_anchors ?sb)) = None"
  proof -
    obtain L sc where L: "screen_block c fuel (fl_db fl) ?ordered = Inr (L, sc)" "sc_rejects sc = []"
        "anchors_of c (fl_db fl) L (sc_survivors sc) (an_block_num (sb_anchors ?sb)) (an_prev_block (sb_anchors ?sb)) = Inr (sb_anchors ?sb)"
      using adopted(10) by (auto simp: preview_matches_def rbind_Inr_conv split: if_splits)
    note free = commit_block_fresh[OF adopted(11) fresh]
    obtain out2 db2 where "commit_block c fuel (an_block_num (sb_anchors ?sb)) (sr_head (fl_db fl) + 1) (sb_encode ?sb) (block_hash c ?sb)
        ?ordered (mgmt_auth c m) (fl_db fl) = Inr (out2, db2)" "expect_anchors c (sb_anchors ?sb) db2 = Inr ()"
      by (rule commit_screened_block[OF e adopted(4) L fresh free])
    then show ?thesis using adopted(11) by simp
  qed
  have after: "fl_db fl' = db'" by (simp add: adopted(2) fo_post_def)
  show ?thesis using adopted(1,3-6,8,9) adv az_verify_endorsed[OF adv(2)] exact unfolding after by simp
qed simp

theorem adopted_blocks_are_endorsed_witness:
  "\<exists>offer fl'. adopt seat_prims 5 offer (follower_new [2] db_seat DEFAULT) = Inr (True, fl') \<and>
     endorsed seat_prims [sole_seed] (kp_public seat_prims [1]) (sbb_block offer) \<and>
     expect_anchors seat_prims (sb_anchors (sbb_block offer)) (fl_db fl') = Inr ()"
proof -
  let ?c = seat_prims and ?fl = "follower_new [2] db_seat DEFAULT"
  let ?co = "(co_new sole_seed db_seat DEFAULT)"
  obtain s sb where s: "slot_exact ?c 5 db_seat s" "slot_backed ?c db_seat s" "sr_settled (st_round s) = Some sb" "sb_ok sb"
      "st_applied s = []" "st_first_height s = 1" by (rule seat_slot)
  have db: "fl_db ?fl = db_seat" by (simp add: follower_new_def)
  have exact: "exact_preview ?c {b. length b = 32} db_seat (st_applied s)" using seat_exact s(5) by simp
  obtain m out db' where m: "mgmt_reader ?c db_seat = Inr m"
      and com: "commit_block ?c 5 (next_num db_seat) (sr_head db_seat + 1) (sb_encode sb) (block_hash ?c sb) (st_applied s) (mgmt_auth ?c m) db_seat = Inr (out, db')"
    using slot_commits[OF seat_laws(2), of 5 "?co\<lparr>co_settling := Some s\<rparr>" s sb "{b. length b = 32}"] s exact
    by (simp add: co_new_def seat_sel seat_reads in_range_def) blast
  note ad = slot_adopted[OF seat_laws(2) s(1-3) db m com]
  let ?fl' = "fo_post [BlockCommitted] (?fl\<lparr>fl_db := db'\<rparr>)"
  have ex: "exact_preview ?c {b. length b = 32} (fl_db ?fl) (bodies_canonical ?c (sbb_bodies \<lparr>sbb_block = sb, sbb_bodies = st_applied s\<rparr>))"
    using seat_exact by (simp add: db s(5) bodies_canonical_def canonical_batch_def)
  have "find_block db_seat (an_block_num (sb_anchors sb)) = None" by (simp add: find_block_def seat_sel)
  then show ?thesis
    using adopted_blocks_are_endorsed[OF ad(2), where G = "{b. length b = 32}"] ad(2) ex seat_roster
    by (intro exI[of _ "\<lparr>sbb_block = sb, sbb_bodies = st_applied s\<rparr>"] exI[of _ ?fl']) (simp add: db seat_reader seat_reads)
qed

section \<open>Being behind\<close>

text \<open>
  C25: A node holds itself to be behind only on honest word. In every run, the follower says that it is
  behind exactly when more members of the roster than the quorum rule tolerates as faulty have each
  reported, within the freshness window, a block above its own head; so whatever set of members is
  faulty, if the rule tolerates its size then one of the reports comes from outside of it.
\<close>

theorem behind_is_corroborated:
  assumes "fo_run c me t fl" "behind c now fl = Inr b" "mgmt_reader c (fl_db fl) = Inr m" "mg_roster c m = Inr roster"
    and "tolerates (int (length roster)) = Inr f"
  shows "(b \<longleftrightarrow> roster \<noteq> [] \<and> f < int (card {peer \<in> set roster. \<exists>hr. map_of (fl_heads fl) peer = Some hr \<and>
            now - hr_at hr \<le> freshness_window (fl_tunables fl) \<and> hr_block_num hr > head_num (fl_db fl)})) \<and>
    (b \<longrightarrow> (\<forall>F. finite F \<and> int (card F) \<le> f \<longrightarrow> (\<exists>peer hr. peer \<in> set roster - F \<and> map_of (fl_heads fl) peer = Some hr \<and>
            now - hr_at hr \<le> freshness_window (fl_tunables fl) \<and> hr_block_num hr > head_num (fl_db fl))))"
proof -
  let ?R = "\<lambda>peer. \<exists>hr. map_of (fl_heads fl) peer = Some hr \<and>
     now - hr_at hr \<le> freshness_window (fl_tunables fl) \<and> hr_block_num hr > head_num (fl_db fl)"
  let ?A = "{peer \<in> set roster. ?R peer}"
  have d: "distinct (map fst (fl_heads fl))" using fo_run_inv[OF assms(1)] by (simp add: fl_inv_def)
  have "set (map fst (ahead_of fl roster now)) = ?A"
    using d by (force simp: ahead_of_def not_less)
  moreover have "distinct (map fst (ahead_of fl roster now))" using d by (simp add: ahead_of_def distinct_map_filter)
  ultimately have "card ?A = length (map fst (ahead_of fl roster now))" using distinct_card by fastforce
  then have iff: "b \<longleftrightarrow> roster \<noteq> [] \<and> f < int (card ?A)"
    using assms by (auto simp: behind_def corroboration_def split: if_splits)
  have "\<exists>peer. peer \<in> ?A \<and> peer \<notin> F" if "b" "finite F" "int (card F) \<le> f" for F
  proof (rule ccontr)
    assume "\<not> ?thesis"
    then have "?A \<subseteq> F" by blast
    then have "card ?A \<le> card F" using that(2) by (rule card_mono[rotated])
    then show False using iff that(1,3) by simp
  qed
  then show ?thesis using iff by blast
qed

theorem behind_is_corroborated_witness:
  "\<exists>fl b. heard 4 5 = Inr fl \<and> behind seat_prims 6 fl = Inr b \<and> b"
proof -
  obtain fl where fl: "heard 4 5 = Inr fl" "fo_run seat_prims [2] DEFAULT fl" "fl_db fl = db_seat"
      "fl_heads fl = [(sole_seed, \<lparr>hr_block_num = 9, hr_tip_hash = replicate 32 0, hr_at = 4\<rparr>)]" "fl_tunables fl = DEFAULT"
    by (rule heard_pulls[of 4 5]) blast
  have tol: "tolerates (int (length [sole_seed])) = Inr 0" by (simp add: tolerates_def intersection_def quorum_one)
  have fresh: "2 \<le> freshness_window DEFAULT" by code_simp
  obtain b where b: "behind seat_prims 6 fl = Inr b"
    using tol by (simp add: behind_def fl seat_reader seat_roster corroboration_def)
  have "{peer \<in> set [sole_seed]. \<exists>hr. map_of (fl_heads fl) peer = Some hr \<and> 6 - hr_at hr \<le> freshness_window (fl_tunables fl) \<and>
      hr_block_num hr > head_num (fl_db fl)} = {sole_seed}"
    using fresh by (auto simp: fl head_num_def seat_reads)
  then have "b" using behind_is_corroborated[OF fl(2) b seat_reader[folded fl(3)] _ tol] seat_roster fl by simp
  then show ?thesis using fl(1) b by blast
qed

section \<open>The favoured source\<close>

text \<open>
  The source that last delivered, as long as it has reported a block above the own head, and the pull
  in flight with it.
\<close>

definition captured :: "public_key \<Rightarrow> Follower \<Rightarrow> bool" where
  "captured q fl \<longleftrightarrow> distinct (map fst (fl_heads fl)) \<and>
     (\<exists>hr. map_of (fl_heads fl) q = Some hr \<and> hr_block_num hr > head_num (fl_db fl)) \<and>
     0 < dict_get (fl_last_ok fl) q \<and> (\<forall>q'. q' \<noteq> q \<longrightarrow> dict_get (fl_last_ok fl) q' < dict_get (fl_last_ok fl) q) \<and>
     (\<exists>p. fl_pulling fl = Some p \<and> pf_peer p = q)"

lemma favoured_is_picked:
  assumes "distinct (map fst (fl_heads fl))" "map_of (fl_heads fl) q = Some hr" "hr_block_num hr > head_num (fl_db fl)"
    and "\<And>q'. q' \<noteq> q \<Longrightarrow> dict_get (fl_last_ok fl) q' < dict_get (fl_last_ok fl) q"
  shows "pick_pull_source fl = Some q"
proof -
  have mem: "(q, hr) \<in> set (pull_candidates fl)" using assms(2,3) by (simp add: pull_candidates_def map_of_SomeD)
  let ?l = "sort_key (source_key fl) (pull_candidates fl)"
  have "?l \<noteq> []" using mem by (metis set_sort empty_iff list.set(1))
  then obtain peer h rest where l: "?l = (peer, h) # rest" by (cases ?l) auto
  have "sorted (map (source_key fl) ?l)" by simp
  moreover have "(q, hr) \<in> set ?l" using mem by simp
  ultimately have "source_key fl (peer, h) \<le> source_key fl (q, hr)" unfolding l by auto
  then have "\<not> dict_get (fl_last_ok fl) peer < dict_get (fl_last_ok fl) q" by (auto simp: source_key_def less_eq_prod_def)
  then have "peer = q" using assms(4) by blast
  then show ?thesis by (simp add: pick_pull_source_def l)
qed

lemma captured_again:
  assumes "captured q fl" "fl_heads fl' = fl_heads fl" "fl_last_ok fl' = fl_last_ok fl" "fl_db fl' = fl_db fl" "fl_pulling fl' = None"
  shows "captured q (try_pull now fl')"
proof -
  have "pick_pull_source fl' = Some q" using assms(1) by (auto simp: captured_def assms(2-4) intro: favoured_is_picked)
  then show ?thesis
    using assms(1) by (auto simp: captured_def try_pull_def pull_from_def fo_post_def cancel_pull_timer_def Let_def assms(2-5))
qed

text \<open>The events among which none comes from the source and none removes it.\<close>

fun silent :: "public_key \<Rightarrow> FoEvent \<Rightarrow> bool" where
  "silent q (PeerMessage msg frm) = (frm \<noteq> q)"
| "silent q (PeerRemoved peer) = (peer \<noteq> q)"
| "silent q e = True"

inductive silent_run :: "prims \<Rightarrow> public_key \<Rightarrow> Follower \<Rightarrow> Follower \<Rightarrow> bool" for c q fl where
  here: "silent_run c q fl fl"
| step: "silent_run c q fl fl1 \<Longrightarrow> silent q e \<Longrightarrow> fo_handle c fuel e now now2 fl1 = Inr fl2 \<Longrightarrow> silent_run c q fl fl2"

lemma captured_frame:
  assumes "captured q fl" "fl_heads fl' = fl_heads fl" "fl_last_ok fl' = fl_last_ok fl" "fl_db fl' = fl_db fl" "fl_pulling fl' = fl_pulling fl"
  shows "captured q fl'"
  using assms(1) unfolding captured_def assms(2-5) .

lemma dict_get_delete: "dict_get (AList.delete k d) x = (if x = k then 0 else dict_get d x)"
  by (simp add: dict_get_def delete_conv)

lemma captured_heads:
  assumes "captured q fl" "frm \<noteq> q"
  shows "captured q (try_pull now (fl\<lparr>fl_heads := AList.update frm hr (fl_heads fl)\<rparr>))"
  using assms by (auto simp: captured_def try_pull_def update_conv distinct_update)

lemma captured_removed: "captured q fl \<Longrightarrow> peer \<noteq> q \<Longrightarrow> captured q (on_peer_removed peer fl)"
  by (auto simp: captured_def on_peer_removed_def Let_def dict_get_delete delete_conv distinct_delete)

lemma captured_pull: "captured q fl \<Longrightarrow> \<exists>p. fl_pulling fl = Some p \<and> pf_peer p = q"
  by (simp add: captured_def)

lemma captured_step:
  assumes cap: "captured q fl" and e: "silent q e" "fo_handle c fuel e now now2 fl = Inr fl'"
  shows "captured q fl'"
proof -
  obtain p where p: "fl_pulling fl = Some p" "pf_peer p = q" using cap by (auto simp: captured_def)
  have again: "captured q (try_pull now2 (fail_at q now (end_pull fl)))"
    by (rule captured_again[OF cap]) (simp_all add: follower_defs)
  have same: "captured q (fo_post es fl)" "captured q (schedule_poll peer at (fo_post es fl))" "captured q (schedule_poll peer at fl)" for peer at es
    by (rule captured_frame[OF cap]; simp add: follower_defs)+
  show ?thesis
  proof (cases e)
    case (PeerMessage msg frm)
    then have "frm \<noteq> q" using e(1) by simp
    then show ?thesis using PeerMessage e(2) cap p captured_heads[OF cap]
      by (cases msg) (auto simp: on_peer_message_def on_height_reply_def on_settled_blocks_def on_refused_def split: if_splits)
  next
    case (PeerRemoved peer)
    then show ?thesis using e captured_removed[OF cap] by auto
  next
    case (PullCancelled peer)
    then show ?thesis using e(2) cap p again by (auto simp: on_pull_cancelled_def split: if_splits)
  next
    case (PullExpiry peer sent)
    then show ?thesis using e(2) cap p again by (auto simp: on_pull_expiry_def split: if_splits)
  qed (use e(2) cap same in \<open>auto simp: on_peer_added_def on_poll_peer_def split: if_splits\<close>)
qed

lemma silent_keeps_db:
  assumes "captured q fl" "silent q e" "fo_handle c fuel e now now2 fl = Inr fl'"
  shows "fl_db fl' = fl_db fl"
proof -
  obtain p where p: "fl_pulling fl = Some p" "pf_peer p = q" using assms(1) by (auto simp: captured_def)
  show ?thesis
  proof (cases e)
    case (PeerMessage msg frm)
    then show ?thesis using assms(2,3) p
      by (cases msg) (auto simp: on_peer_message_def on_height_reply_def on_settled_blocks_def on_refused_def split: if_splits)
  qed (use assms(3) p in \<open>auto simp: on_peer_added_def on_poll_peer_def on_peer_removed_def on_pull_cancelled_def on_pull_expiry_def
      follower_defs Let_def split: if_splits\<close>)
qed

text \<open>
  The source that last delivered is asked for ever. Sources are ordered first by when they last
  delivered and only then by when they last failed; so a peer that has delivered more recently than
  every other, has reported a block above the own head and is being pulled from, stays the source of
  every pull as long as it says nothing: whatever the other peers report and however often the pull
  expires, the next pull goes to it again, and the store stays where it is.
\<close>

lemma silent_source_is_asked_for_ever:
  assumes "captured q fl" "silent_run c q fl fl'"
  shows "(\<exists>p. fl_pulling fl' = Some p \<and> pf_peer p = q) \<and> fl_db fl' = fl_db fl \<and>
    (\<forall>sent_at now now2. \<exists>fl2. fo_handle c fuel (PullExpiry q sent_at) now now2 fl' = Inr fl2 \<and> (\<exists>p. fl_pulling fl2 = Some p \<and> pf_peer p = q))"
proof -
  have "captured q fl' \<and> fl_db fl' = fl_db fl"
    using assms(2)
  proof (induction rule: silent_run.induct)
    case (step fl1 e fuel now now2 fl2)
    have "captured q fl2" using captured_step step.IH step.hyps(2,3) by blast
    moreover have "fl_db fl2 = fl_db fl1"
      using step.IH step.hyps(2,3) silent_keeps_db by blast
    ultimately show ?case using step.IH by simp
  qed (use assms(1) in simp)
  moreover have "\<exists>fl2. fo_handle c fuel (PullExpiry q sent_at) now now2 fl' = Inr fl2 \<and> captured q fl2" if "captured q fl'" for sent_at now now2
    using captured_step[OF that, of "PullExpiry q sent_at" c fuel now now2] by simp
  ultimately show ?thesis using captured_pull by blast
qed

lemma silent_source_is_asked_for_ever_witness:
  "\<exists>fl. heard 4 5 = Inr fl \<and>
     (\<forall>fl'. silent_run seat_prims sole_seed (fl\<lparr>fl_last_ok := [(sole_seed, 3)]\<rparr>) fl' \<longrightarrow>
        (\<exists>p. fl_pulling fl' = Some p \<and> pf_peer p = sole_seed) \<and> fl_db fl' = db_seat)"
proof -
  obtain fl where fl: "heard 4 5 = Inr fl" "fl_db fl = db_seat"
      "fl_pulling fl = Some \<lparr>pf_peer = sole_seed, pf_frm = 1, pf_count = 32, pf_sent_at = 5\<rparr>"
      "fl_heads fl = [(sole_seed, \<lparr>hr_block_num = 9, hr_tip_hash = replicate 32 0, hr_at = 4\<rparr>)]"
    by (rule heard_pulls[of 4 5]) blast
  have "captured sole_seed (fl\<lparr>fl_last_ok := [(sole_seed, 3)]\<rparr>)"
    by (simp add: captured_def fl head_num_def seat_reads dict_get_def)
  from silent_source_is_asked_for_ever[OF this] fl show ?thesis by auto
qed

end
