(* ===== verification/Tree_Sync.thy ===== *)
theory Tree_Sync
  imports Store_Inv
begin

text \<open>
  \<^verbatim>\<open>dude/store/smt_sync.py\<close>: the state of one node is cut into chunks, subtrees of the
  sparse Merkle tree that fit a byte budget, and another node inserts the rows of each chunk and
  compares the hash of the subtree. The two abstract base classes of the module are the records
  \<open>ExportSource\<close> and \<open>ImportTarget\<close>; what the exporter and the importer rely on is stated as the
  locales \<open>export_source\<close> and \<open>import_target\<close>, which the reader and the writer of the store
  satisfy.
\<close>

record Chunk =
  ck_depth :: int
  ck_prefix :: bytes
  ck_subtree_hash :: digest
  ck_rows :: "PathRow list"

record ExportSource =
  es_subtree_data_size :: "bytes \<Rightarrow> nat \<Rightarrow> int res"
  es_subtree_rows :: "bytes \<Rightarrow> nat \<Rightarrow> PathRow list res"
  es_hash_under :: "bytes \<Rightarrow> nat \<Rightarrow> digest res"

section \<open>The exporter\<close>

text \<open>\<^verbatim>\<open>TreeExporter._walk\<close>; it ends because the depth grows up to \<^const>\<open>MAX_DEPTH\<close>.\<close>

function tree_walk :: "ExportSource \<Rightarrow> int \<Rightarrow> bytes \<Rightarrow> nat \<Rightarrow> Chunk list res" where
  "tree_walk src budget pfx depth =
     rbind (es_subtree_data_size src pfx depth) (\<lambda>sz.
     if sz = 0 then Inr []
     else if sz \<le> budget \<or> MAX_DEPTH \<le> depth then
       rbind (es_subtree_rows src pfx depth) (\<lambda>rows.
       rbind (es_hash_under src pfx depth) (\<lambda>hsh.
       Inr [\<lparr>ck_depth = int depth, ck_prefix = pfx, ck_subtree_hash = hsh, ck_rows = rows\<rparr>]))
     else
       rbind (with_bit pfx depth True) (\<lambda>one.
       rbind (bit_at pfx depth) (\<lambda>b.
       rbind (tree_walk src budget (if b = 1 then one else pfx) (depth + 1)) (\<lambda>xs.
       rbind (tree_walk src budget (if b = 1 then pfx else one) (depth + 1)) (\<lambda>ys.
       Inr (xs @ ys))))))"
  by pat_completeness auto
termination by (relation "measure (\<lambda>(src, budget, pfx, depth). MAX_DEPTH - depth)") auto

declare tree_walk.simps [simp del]

definition tree_chunks :: "ExportSource \<Rightarrow> int \<Rightarrow> Chunk list res" where
  "tree_chunks src budget = tree_walk src budget (replicate DIGEST_SIZE 0) 0"

section \<open>The importer\<close>

record 's ImportTarget =
  it_insert_live_row :: "PathRow \<Rightarrow> 's \<Rightarrow> 's res"
  it_hash_under :: "bytes \<Rightarrow> int \<Rightarrow> 's \<Rightarrow> (digest \<times> 's) res"
  it_state_root :: "'s \<Rightarrow> (digest \<times> 's) res"

fun insert_rows :: "'s ImportTarget \<Rightarrow> PathRow list \<Rightarrow> 's \<Rightarrow> 's res" where
  "insert_rows t [] s = Inr s"
| "insert_rows t (r # rs) s = rbind (it_insert_live_row t r s) (insert_rows t rs)"

definition importer_load :: "'s ImportTarget \<Rightarrow> Chunk \<Rightarrow> 's \<Rightarrow> 's res" where
  "importer_load t chunk s =
     rbind (insert_rows t (ck_rows chunk) s) (\<lambda>s1.
     rbind (it_hash_under t (ck_prefix chunk) (ck_depth chunk) s1) (\<lambda>(computed, s2).
     rbind (guard_exn (computed = ck_subtree_hash chunk) TreeSyncError) (\<lambda>_. Inr s2)))"

definition importer_verify :: "'s ImportTarget \<Rightarrow> digest \<Rightarrow> 's \<Rightarrow> (digest \<times> 's) res" where
  "importer_verify t expected_root s =
     rbind (it_state_root t s) (\<lambda>(root, s1).
     rbind (guard_exn (root = expected_root) TreeSyncError) (\<lambda>_. Inr (root, s1)))"

text \<open>The loop of a client over the chunks it holds.\<close>

fun load_all :: "'s ImportTarget \<Rightarrow> Chunk list \<Rightarrow> 's \<Rightarrow> 's res" where
  "load_all t [] s = Inr s"
| "load_all t (ch # chs) s = rbind (importer_load t ch s) (load_all t chs)"

section \<open>The reader and the writer of the store\<close>

definition store_source :: "prims \<Rightarrow> Db \<Rightarrow> ExportSource" where
  "store_source c db = \<lparr>es_subtree_data_size = sr_subtree_data_size db, es_subtree_rows = sr_subtree_rows db,
     es_hash_under = sr_hash_under c db\<rparr>"

text \<open>
  The depth of a chunk comes from the wire and may be any integer. Below zero Python's floor
  division and indices from the end of a sequence give \<^verbatim>\<open>bounds\<close> a value all the same. No
  node is ever memoised at such a depth, one row or none is hashed as usual, and with two rows the
  depth does not fit the two bytes of \<^verbatim>\<open>branch_hash\<close>.
\<close>

definition bounds_below :: "bytes \<Rightarrow> int \<Rightarrow> (bytes \<times> bytes) res" where
  "bounds_below path depth =
     (let full = depth div 8; rem = nat (depth mod 8); at = int (length path) + full;
          head = take (nat at) path; mask = push_bit (8 - rem) (255 :: byte)
      in rbind (if rem \<noteq> 0
                then if 0 \<le> at
                     then Inr (head @ [path ! nat at AND mask], head @ [(path ! nat at AND mask) OR NOT mask])
                     else Inl IndexError
                else Inr (head, head))
         (\<lambda>(lo, hi).
          if length lo \<le> DIGEST_SIZE
          then Inr (lo @ replicate (DIGEST_SIZE - length lo) 0, hi @ replicate (DIGEST_SIZE - length lo) 255)
          else Inl ValueError))"

definition hash_below :: "prims \<Rightarrow> live_row list \<Rightarrow> bytes \<Rightarrow> int \<Rightarrow> digest res" where
  "hash_below c live path depth =
     rbind (bounds_below path depth) (\<lambda>(lo, hi).
     rbind (sql_int depth) (\<lambda>_.
     rbind (mapM (row_leaf c) (take 2 (select_range live lo hi))) (\<lambda>found.
     case found of [] \<Rightarrow> Inr EMPTY | [x] \<Rightarrow> Inr (snd x) | _ \<Rightarrow> Inl OverflowError)))"

definition wr_hash_under :: "prims \<Rightarrow> bytes \<Rightarrow> int \<Rightarrow> Db \<Rightarrow> (digest \<times> Db) res" where
  "wr_hash_under c pfx depth db =
     (if depth < 0 then rbind (hash_below c (db_live db) pfx depth) (\<lambda>d. Inr (d, db))
      else rbind (bounds pfx (nat depth)) (\<lambda>_.
        rbind (sql_int depth) (\<lambda>_.
        rbind (hash_under c True (db_live db) pfx (nat depth) (db_memo db)) (\<lambda>(d, memo).
        Inr (d, db\<lparr>db_memo := memo\<rparr>)))))"

definition wr_state_root :: "prims \<Rightarrow> Db \<Rightarrow> (digest \<times> Db) res" where
  "wr_state_root c db =
     rbind (tree_root c True (db_live db) (db_memo db)) (\<lambda>(d, memo). Inr (d, db\<lparr>db_memo := memo\<rparr>))"

definition store_target :: "prims \<Rightarrow> Db ImportTarget" where
  "store_target c = \<lparr>it_insert_live_row = insert_live_row c, it_hash_under = wr_hash_under c,
     it_state_root = wr_state_root c\<rparr>"

section \<open>What is transferred\<close>

text \<open>
  The rows of a table under a prefix, as a chunk carries them. A row counts for the budget by its
  value and credential: a subtree whose rows have neither is skipped.
\<close>

definition honest_chunk :: "prims \<Rightarrow> live_row list \<Rightarrow> Chunk \<Rightarrow> bool" where
  "honest_chunk c live ch \<longleftrightarrow>
     (\<exists>p d. length p = 32 \<and> d \<le> 256 \<and>
        ch = \<lparr>ck_depth = int d, ck_prefix = p, ck_subtree_hash = node_hash c live p d,
              ck_rows = map path_row (sort_key lr_path (subtree live p d))\<rparr>)"

definition row_data :: "live_row \<Rightarrow> nat" where
  "row_data r = length (lr_value r) + length (lr_cred r)"

locale export_source =
  fixes src :: "'s \<Rightarrow> ExportSource"
    and prims_of :: "'s \<Rightarrow> prims"
    and table :: "'s \<Rightarrow> live_row list"
    and ok :: "'s \<Rightarrow> bool"
  assumes rows_law: "ok s \<Longrightarrow> length p = 32 \<Longrightarrow> d \<le> 256 \<Longrightarrow>
      es_subtree_rows (src s) p d = Inr (map path_row (sort_key lr_path (subtree (table s) p d)))"
    and size_law: "ok s \<Longrightarrow> length p = 32 \<Longrightarrow> d \<le> 256 \<Longrightarrow>
      es_subtree_data_size (src s) p d = Inr (int (sum_list (map row_data (subtree (table s) p d))))"
    and hash_law: "ok s \<Longrightarrow> length p = 32 \<Longrightarrow> d \<le> 256 \<Longrightarrow>
      es_hash_under (src s) p d = Inr (node_hash (prims_of s) (table s) p d)"
begin

text \<open>The chunks of a subtree are honest, and their rows are its rows, each once.\<close>

lemma walk_partitions:
  assumes "ok s" "\<forall>r \<in> set (table s). 0 < row_data r"
  shows "length p = 32 \<Longrightarrow> d \<le> 256 \<Longrightarrow> \<forall>i. d \<le> i \<and> i < 256 \<longrightarrow> \<not> path_bit p i \<Longrightarrow>
    \<exists>chs. tree_walk (src s) budget p d = Inr chs \<and> (\<forall>ch \<in> set chs. honest_chunk (prims_of s) (table s) ch \<and> ck_rows ch \<noteq> []) \<and>
      mset (concat (map ck_rows chs)) = mset (map path_row (subtree (table s) p d))"
proof (induction "256 - d" arbitrary: p d rule: less_induct)
  case less
  let ?T = "subtree (table s) p d"
  let ?sz = "int (sum_list (map row_data ?T))"
  note laws = rows_law[OF assms(1) less.prems(1,2)] size_law[OF assms(1) less.prems(1,2)] hash_law[OF assms(1) less.prems(1,2)]
  consider "?sz = 0" | "?sz \<noteq> 0" "?sz \<le> budget \<or> MAX_DEPTH \<le> d" | "?sz \<noteq> 0" "\<not> (?sz \<le> budget \<or> MAX_DEPTH \<le> d)" by blast
  then show ?case
  proof cases
    case 1
    have "?T = []" using 1 assms(2) by (cases ?T) (auto simp: subtree_def filter_eq_Cons_iff)
    then show ?thesis using 1 laws by (subst tree_walk.simps) simp
  next
    case 2
    have "tree_walk (src s) budget p d = Inr [\<lparr>ck_depth = int d, ck_prefix = p,
        ck_subtree_hash = node_hash (prims_of s) (table s) p d, ck_rows = map path_row (sort_key lr_path ?T)\<rparr>]"
      using 2 laws by (subst tree_walk.simps) simp
    moreover have "?T \<noteq> []" using 2 by auto
    then have "sort_key lr_path ?T \<noteq> []" by (metis mset_sort mset_zero_iff)
    ultimately show ?thesis using less.prems by (auto simp: honest_chunk_def)
  next
    case 3
    then have d: "d < 256" by (simp add: MAX_DEPTH_def)
    obtain q where q: "with_bit p d True = Inr q" "length q = 32" "\<And>j. path_bit q j = (if j = d then True else path_bit p j)"
      by (rule with_bit_path[OF less.prems(1) d, of True]) blast
    have b: "bit_at p d = Inr 0" using less.prems d by simp
    have lt: "256 - Suc d < 256 - d" using d by simp
    obtain xs where xs: "tree_walk (src s) budget p (Suc d) = Inr xs" "\<forall>ch \<in> set xs. honest_chunk (prims_of s) (table s) ch \<and> ck_rows ch \<noteq> []"
        "mset (concat (map ck_rows xs)) = mset (map path_row (subtree (table s) p (Suc d)))"
      using less.hyps[OF lt less.prems(1)] d less.prems(3) by auto
    obtain ys where ys: "tree_walk (src s) budget q (Suc d) = Inr ys" "\<forall>ch \<in> set ys. honest_chunk (prims_of s) (table s) ch \<and> ck_rows ch \<noteq> []"
        "mset (concat (map ck_rows ys)) = mset (map path_row (subtree (table s) q (Suc d)))"
      using less.hyps[OF lt q(2)] d less.prems(3) q(3) by auto
    have "subtree (table s) q d = ?T" by (rule subtree_cong) (simp add: agree_def q(3))
    then have halves: "subtree (table s) p (Suc d) = filter (\<lambda>r. \<not> path_bit (lr_path r) d) ?T"
        "subtree (table s) q (Suc d) = filter (\<lambda>r. \<not> \<not> path_bit (lr_path r) d) ?T"
      using less.prems(3) d q(3) by (simp_all add: subtree_Suc)
    have "mset ?T = mset (subtree (table s) p (Suc d)) + mset (subtree (table s) q (Suc d))"
      unfolding halves by (simp only: mset_filter multiset_partition[symmetric])
    moreover have "tree_walk (src s) budget p d = Inr (xs @ ys)"
      using 3 laws q(1) b xs(1) ys(1) by (subst tree_walk.simps) auto
    ultimately show ?thesis using xs(2,3) ys(2,3) by (auto simp: image_mset_union)
  qed
qed

end

text \<open>
  What an import target promises: inserting a row sets its key, hashing reports the reference hash,
  and both keep the invariant.
\<close>

locale import_target =
  fixes tgt :: "prims \<Rightarrow> 's ImportTarget"
    and table :: "'s \<Rightarrow> live_row list"
    and ok :: "prims \<Rightarrow> 's \<Rightarrow> bool"
    and same :: "'s \<Rightarrow> 's \<Rightarrow> bool"
  assumes table_law: "ok c s \<Longrightarrow> table_ok c (table s)"
    and insert_law: "ok c s \<Longrightarrow> digest_width c \<Longrightarrow> in_range (fst k) \<Longrightarrow> in_range (held_epoch x) \<Longrightarrow> 0 \<le> held_epoch x \<Longrightarrow>
      inj_on (key_path c) (insert k (row_key ` set (table s))) \<Longrightarrow>
      \<exists>s'. it_insert_live_row (tgt c) (path_row (mk_row c k x)) s = Inr s' \<and> ok c s' \<and> same s s' \<and>
        table s' = table_set c k (Some x) (table s)"
    and hash_law: "ok c s \<Longrightarrow> digest_width c \<Longrightarrow> length p = 32 \<Longrightarrow> d \<le> 256 \<Longrightarrow>
      \<exists>s'. it_hash_under (tgt c) p (int d) s = Inr (node_hash c (table s) p d, s') \<and> ok c s' \<and> same s s' \<and> table s' = table s"
    and root_law: "ok c s \<Longrightarrow> digest_width c \<Longrightarrow>
      \<exists>s'. it_state_root (tgt c) s = Inr (node_hash c (table s) (replicate 32 0) 0, s') \<and> ok c s' \<and> same s s' \<and> table s' = table s"
    and same_refl: "same s s"
    and same_trans: "same s s' \<Longrightarrow> same s' s'' \<Longrightarrow> same s s''"
begin

definition into :: "prims \<Rightarrow> live_row list \<Rightarrow> 's \<Rightarrow> bool" where
  "into c live s \<longleftrightarrow> ok c s \<and> set (table s) \<subseteq> set live"

lemma insert_rows_into:
  assumes "table_ok c live" "digest_width c" "\<forall>r \<in> set live. in_range (lr_store r) \<and> in_range (lr_epoch r)"
  shows "into c live s \<Longrightarrow> set rs \<subseteq> set live \<Longrightarrow>
    \<exists>s'. insert_rows (tgt c) (map path_row rs) s = Inr s' \<and> into c live s' \<and> same s s' \<and> set (table s') = set (table s) \<union> set rs"
proof (induction rs arbitrary: s)
  case (Cons r rs)
  have r: "r \<in> set live" and ok: "ok c s" and sub: "set (table s) \<subseteq> set live" using Cons.prems by (auto simp: into_def)
  have mk: "mk_row c (row_key r) (held_of r) = r"
    using r assms(1) keyed_path[of c live r] by (cases r) (auto simp: table_ok_def mk_row_def row_key_def held_of_def key_path_def)
  have inj: "inj_on (key_path c) (row_key ` set live)"
  proof (rule inj_on_imageI)
    have "inj_on lr_path (set live)" using assms(1) by (auto simp: table_ok_def rows_ok_def distinct_map)
    then show "inj_on (key_path c \<circ> row_key) (set live)"
      using assms(1) keyed_path[of c live] by (simp add: inj_on_def table_ok_def)
  qed
  have "inj_on (key_path c) (insert (row_key r) (row_key ` set (table s)))"
    by (rule inj_on_subset[OF inj]) (use r sub in auto)
  then obtain s1 where s1: "it_insert_live_row (tgt c) (path_row r) s = Inr s1" "ok c s1" "same s s1"
      "table s1 = table_set c (row_key r) (Some (held_of r)) (table s)"
    using insert_law[OF ok assms(2), of "row_key r" "held_of r"] assms(1,3) r rows_okD(2)[of live r]
    unfolding mk by (auto simp: row_key_def held_of_def table_ok_def)
  have "q = r" if "q \<in> set live" "row_key q = row_key r" for q
    using that r assms(1) keyed_path[of c live] by (auto simp: table_ok_def rows_ok_def distinct_map inj_on_def)
  then have "set (table s1) = insert r (set (table s))"
    using s1(4) sub r by (auto simp: table_set_def held_rows_def mk)
  then show ?case
    using Cons.IH[of s1] Cons.prems s1(1,2,3) r by (auto simp: into_def intro: same_trans)
qed (auto simp: same_refl)

lemma load_honest:
  assumes "table_ok c live" "digest_width c" "\<forall>r \<in> set live. in_range (lr_store r) \<and> in_range (lr_epoch r)"
    "into c live s" "honest_chunk c live ch"
  shows "\<exists>s' rs. importer_load (tgt c) ch s = Inr s' \<and> into c live s' \<and> same s s' \<and>
    ck_rows ch = map path_row rs \<and> set rs \<subseteq> set live \<and> set (table s') = set (table s) \<union> set rs"
proof -
  obtain p d where ch: "length p = 32" "d \<le> 256" "ch = \<lparr>ck_depth = int d, ck_prefix = p,
      ck_subtree_hash = node_hash c live p d, ck_rows = map path_row (sort_key lr_path (subtree live p d))\<rparr>"
    using assms(5) by (auto simp: honest_chunk_def)
  let ?rs = "sort_key lr_path (subtree live p d)"
  have rs: "set ?rs \<subseteq> set live" by (auto simp: subtree_def)
  obtain s1 where s1: "insert_rows (tgt c) (map path_row ?rs) s = Inr s1" "into c live s1" "same s s1"
      "set (table s1) = set (table s) \<union> set ?rs"
    using insert_rows_into[OF assms(1-4) rs] by blast
  have ok1: "ok c s1" "set (table s1) \<subseteq> set live" using s1(2) by (auto simp: into_def)
  obtain s2 where s2: "it_hash_under (tgt c) p (int d) s1 = Inr (node_hash c (table s1) p d, s2)" "ok c s2" "same s1 s2" "table s2 = table s1"
    using hash_law[OF ok1(1) assms(2) ch(1,2)] by blast
  have dist: "distinct (subtree (table s1) p d)" "distinct (subtree live p d)"
    using table_law[OF ok1(1)] assms(1) by (auto simp: table_ok_def rows_ok_def distinct_map subtree_def)
  have "set (subtree (table s1) p d) = set (subtree live p d)"
    using s1(4) ok1(2) by (auto simp: subtree_def)
  then have "node_hash c (table s1) p d = node_hash c live p d"
    using dist table_law[OF ok1(1)] ch(2) by (intro node_hash_mset) (auto simp: table_ok_def set_eq_iff_mset_eq_distinct)
  then have "importer_load (tgt c) ch s = Inr s2" using s1(1) s2(1) ch(3) by (simp add: importer_load_def)
  then show ?thesis
    using s1 s2 ch(3) rs by (intro exI[of _ s2] exI[of _ ?rs]) (auto simp: into_def intro: same_trans)
qed

lemma load_all_honest:
  assumes "table_ok c live" "digest_width c" "\<forall>r \<in> set live. in_range (lr_store r) \<and> in_range (lr_epoch r)"
  shows "into c live s \<Longrightarrow> \<forall>ch \<in> set chs. honest_chunk c live ch \<Longrightarrow>
    \<exists>s' rs. load_all (tgt c) chs s = Inr s' \<and> into c live s' \<and> same s s' \<and>
      concat (map ck_rows chs) = map path_row rs \<and> set rs \<subseteq> set live \<and> set (table s') = set (table s) \<union> set rs"
proof (induction chs arbitrary: s)
  case (Cons ch chs)
  obtain s1 rs1 where s1: "importer_load (tgt c) ch s = Inr s1" "into c live s1" "same s s1" "ck_rows ch = map path_row rs1"
      "set rs1 \<subseteq> set live" "set (table s1) = set (table s) \<union> set rs1"
    using load_honest[OF assms Cons.prems(1), of ch] Cons.prems(2) by auto
  obtain s2 rs2 where s2: "load_all (tgt c) chs s1 = Inr s2" "into c live s2" "same s1 s2" "concat (map ck_rows chs) = map path_row rs2"
      "set rs2 \<subseteq> set live" "set (table s2) = set (table s1) \<union> set rs2"
    using Cons.IH[OF s1(2)] Cons.prems(2) by auto
  show ?case
    using s1 s2 by (intro exI[of _ s2] exI[of _ "rs1 @ rs2"]) (auto intro: same_trans)
qed (auto simp: same_refl)

text \<open>Honest chunks that carry every row rebuild the table and its root.\<close>

lemma import_rebuilds:
  assumes "table_ok c live" "digest_width c" "\<forall>r \<in> set live. in_range (lr_store r) \<and> in_range (lr_epoch r)"
    "ok c s" "table s = []" "\<forall>ch \<in> set chs. honest_chunk c live ch"
    "mset (concat (map ck_rows chs)) = mset (map path_row live)"
  shows "\<exists>s1 s'. load_all (tgt c) chs s = Inr s1 \<and>
    importer_verify (tgt c) (node_hash c live (replicate 32 0) 0) s1 = Inr (node_hash c live (replicate 32 0) 0, s') \<and>
    ok c s' \<and> same s s' \<and> mset (table s') = mset live"
proof -
  obtain s1 rs where s1: "load_all (tgt c) chs s = Inr s1" "into c live s1" "same s s1"
      "concat (map ck_rows chs) = map path_row rs" "set rs \<subseteq> set live" "set (table s1) = set rs"
    using load_all_honest[OF assms(1-3) _ assms(6), of s] assms(4,5) by (auto simp: into_def)
  have inj: "q = r" if "q \<in> set live" "r \<in> set live" "path_row q = path_row r" for q r
  proof -
    have "row_key q = row_key r" using that(3) by (simp add: path_row_def row_key_def)
    then have "lr_path q = lr_path r" using that assms(1) keyed_path[of c live] by (simp add: table_ok_def)
    then show ?thesis using that(3) by (cases q; cases r) (simp add: path_row_def)
  qed
  have "path_row ` set rs = path_row ` set live"
    using arg_cong[OF assms(7), of set_mset] s1(4) by (metis set_map set_mset_mset)
  then have sets: "set rs = set live" using s1(5) inj by (blast dest: equalityD2)
  have ok1: "ok c s1" using s1(2) by (simp add: into_def)
  have mset: "mset (table s1) = mset live"
    using table_mset_eq[OF table_law[OF ok1] assms(1)] s1(6) sets by simp
  have "node_hash c (table s1) (replicate 32 0) 0 = node_hash c live (replicate 32 0) 0"
    using table_law[OF ok1] mset by (intro node_hash_mset) (auto simp: table_ok_def)
  then show ?thesis
    using root_law[OF ok1 assms(2)] s1(1,3) mset by (auto simp: importer_verify_def intro: same_trans)
qed

end

section \<open>The store provides both\<close>

definition source_ok :: "prims \<times> Db \<Rightarrow> bool" where
  "source_ok s \<longleftrightarrow> digest_width (fst s) \<and> table_ok (fst s) (db_live (snd s)) \<and> memo_ok (fst s) (db_live (snd s)) (db_memo (snd s))"

interpretation reader: export_source "\<lambda>(c, db). store_source c db" fst "\<lambda>s. db_live (snd s)" source_ok
proof
  fix s :: "prims \<times> Db" and p :: bytes and d :: nat
  assume ok: "source_ok s" and p: "length p = 32" "d \<le> 256"
  obtain c db where s: "s = (c, db)" by force
  have rok: "rows_ok (db_live db)" "digest_width c" "memo_ok c (db_live db) (db_memo db)" using ok s by (auto simp: source_ok_def table_ok_def)
  note range = select_range_subtree[OF rok(1) p]
  show "es_subtree_rows (case s of (c, db) \<Rightarrow> store_source c db) p d =
      Inr (map path_row (sort_key lr_path (subtree (db_live (snd s)) p d)))"
    using p range s by (simp add: store_source_def sr_subtree_rows_def sr_rows_in_path_range_def)
  have "sum_list (map row_data (sort_key lr_path (subtree (db_live db) p d))) = sum_list (map row_data (subtree (db_live db) p d))"
    by (metis mset_map mset_sort sum_mset_sum_list)
  then show "es_subtree_data_size (case s of (c, db) \<Rightarrow> store_source c db) p d =
      Inr (int (sum_list (map row_data (subtree (db_live (snd s)) p d))))"
    using p range s by (simp add: store_source_def sr_subtree_data_size_def row_data_def[abs_def])
  show "es_hash_under (case s of (c, db) \<Rightarrow> store_source c db) p d = Inr (node_hash (fst s) (db_live (snd s)) p d)"
    using hash_under_node_hash[OF rok(2,1,3) p, of False] s by (auto simp: store_source_def sr_hash_under_def)
qed

definition target_ok :: "prims \<Rightarrow> Db \<Rightarrow> bool" where
  "target_ok c db \<longleftrightarrow> table_ok c (db_live db) \<and> memo_ok c (db_live db) (db_memo db)"

text \<open>What an import leaves alone.\<close>

definition same_rest :: "Db \<Rightarrow> Db \<Rightarrow> bool" where
  "same_rest db db' \<longleftrightarrow> db_entry db' = db_entry db \<and> db_meta db' = db_meta db \<and> db_block db' = db_block db \<and>
     db_checkpoint db' = db_checkpoint db"

interpretation writer: import_target store_target db_live target_ok same_rest
proof
  fix c :: prims and db :: Db and k :: key and x :: Held
  assume a: "target_ok c db" "digest_width c" "in_range (fst k)" "in_range (held_epoch x)" "0 \<le> held_epoch x"
    "inj_on (key_path c) (insert k (row_key ` set (db_live db)))"
  have tok: "table_ok c (db_live db)" and memo: "memo_ok c (db_live db) (db_memo db)" using a(1) by (auto simp: target_ok_def)
  let ?rows = "table_set c k (Some x) (db_live db)"
  have len: "length (key_path c k) = 32" using length_path_of[OF a(2)] by (simp add: key_path_def)
  have same: "mset (filter (\<lambda>r. lr_path r \<noteq> key_path c k) (db_live db)) = mset (filter (\<lambda>r. lr_path r \<noteq> key_path c k) ?rows)"
    by (rule arg_cong[OF table_set_other_paths[OF tok a(6)]])
  obtain memo' where m: "invalidate (key_path c k) (db_memo db) = Inr memo'" "memo_ok c ?rows memo'"
    by (rule invalidate_keeps_memo_ok[OF _ memo len same]) (use tok in \<open>auto simp: table_ok_def\<close>)
  have "table_ok c ?rows" using a(4,5) by (intro table_ok_set[OF tok a(2) _ a(6)]) (auto simp: in_range_def)
  then show "\<exists>s'. it_insert_live_row (store_target c) (path_row (mk_row c k x)) db = Inr s' \<and> target_ok c s' \<and> same_rest db s' \<and> db_live s' = ?rows"
    using m a(3,4) live_upsert_table_set[OF tok a(6), of x]
    by (simp add: store_target_def insert_live_row_def path_row_def mk_row_def key_path_def target_ok_def same_rest_def)
next
  fix c :: prims and db :: Db and p :: bytes and d :: nat
  assume a: "target_ok c db" "digest_width c" "length p = 32" "d \<le> 256"
  have "in_range (int d)" using a(4) by (simp add: in_range_def)
  then show "\<exists>s'. it_hash_under (store_target c) p (int d) db = Inr (node_hash c (db_live db) p d, s') \<and> target_ok c s' \<and> same_rest db s' \<and> db_live s' = db_live db"
    using hash_under_node_hash[of c "db_live db" "db_memo db" p d True] a
    by (auto simp: store_target_def wr_hash_under_def target_ok_def table_ok_def same_rest_def)
next
  fix c :: prims and db :: Db
  assume a: "target_ok c db" "digest_width c"
  show "\<exists>s'. it_state_root (store_target c) db = Inr (node_hash c (db_live db) (replicate 32 0) 0, s') \<and> target_ok c s' \<and> same_rest db s' \<and> db_live s' = db_live db"
    using hash_under_node_hash[of c "db_live db" "db_memo db" "replicate 32 0" 0 True] a
    by (auto simp: store_target_def wr_state_root_def tree_root_def target_ok_def table_ok_def same_rest_def DIGEST_SIZE_def)
qed (auto simp: target_ok_def same_rest_def)

end
