(* ===== verification/Checkpoint.thy ===== *)
theory Checkpoint
  imports Tree_Sync Chain Follower
begin

text \<open>
  Checkpoints: the certificate of a checkpoint (\<^verbatim>\<open>dude/store/checkpoint.py\<close>), the messages
  that carry it and its chunks (\<^verbatim>\<open>dude/sync/checkpoint_adapter.py\<close>), the server that persists
  and pages them (\<^verbatim>\<open>dude/sync/checkpoint_server.py\<close>), the writer operation that installs one
  (\<^verbatim>\<open>StoreWriter.bootstrap_checkpoint\<close>), and the two ends in \<^verbatim>\<open>dude/node.py\<close>: the
  handlers that serve requests and the download that runs on a thread of its own.
\<close>

section \<open>The certificate\<close>

definition CHECKPOINT_DOMAIN :: bytes where "CHECKPOINT_DOMAIN = ascii ''dude.checkpoint:''"

record CheckpointMeta =
  cm_settled_block_bytes :: bytes
  cm_anchor :: public_key
  cm_compactor :: public_key
  cm_grant_cert :: Cert
  cm_sig :: signature

definition checkpoint_payload :: "bytes \<Rightarrow> public_key \<Rightarrow> bytes" where
  "checkpoint_payload settled_block_bytes anchor =
     CHECKPOINT_DOMAIN @ benc (BSeq [BBytes settled_block_bytes, BBytes anchor])"

definition cm_create :: "prims \<Rightarrow> bytes \<Rightarrow> public_key \<Rightarrow> seed \<Rightarrow> Cert \<Rightarrow> CheckpointMeta" where
  "cm_create c settled_block_bytes anchor compactor grant_cert =
     \<lparr>cm_settled_block_bytes = settled_block_bytes, cm_anchor = anchor, cm_compactor = kp_public c compactor,
      cm_grant_cert = grant_cert, cm_sig = kp_sign c compactor (checkpoint_payload settled_block_bytes anchor)\<rparr>"

definition cm_settled_block :: "CheckpointMeta \<Rightarrow> SettledBlock res" where
  "cm_settled_block m = sb_decode (cm_settled_block_bytes m)"

definition cm_anchors :: "CheckpointMeta \<Rightarrow> Anchors res" where
  "cm_anchors m = rbind (cm_settled_block m) (\<lambda>sb. Inr (sb_anchors sb))"

definition cm_state_root :: "CheckpointMeta \<Rightarrow> digest res" where
  "cm_state_root m = rbind (cm_anchors m) (\<lambda>a. Inr (an_state_root a))"

definition cm_block_hash :: "prims \<Rightarrow> CheckpointMeta \<Rightarrow> digest res" where
  "cm_block_hash c m = rbind (cm_settled_block m) (\<lambda>sb. Inr (block_hash c sb))"

text \<open>The texts the two verifications return, one constructor each.\<close>

datatype CheckpointFault = AnchorMismatch | GrantNotByAnchor | GrantPurpose | GrantInvalid | CompactorSignature | QuorumSignature

definition verify_compactor :: "prims \<Rightarrow> CheckpointMeta \<Rightarrow> public_key \<Rightarrow> CheckpointFault option" where
  "verify_compactor c m known_anchor =
     (let gc = cm_grant_cert m in
      if cm_anchor m \<noteq> known_anchor then Some AnchorMismatch
      else if ct_signer gc \<noteq> known_anchor then Some GrantNotByAnchor
      else if ct_purpose gc \<noteq> role_value COMPACTOR then Some GrantPurpose
      else if ct_subject gc \<noteq> cm_compactor m \<or> \<not> cert_verify c gc then Some GrantInvalid
      else if \<not> pk_verify c (cm_compactor m) (checkpoint_payload (cm_settled_block_bytes m) (cm_anchor m)) (cm_sig m)
      then Some CompactorSignature else None)"

definition verify_quorum :: "prims \<Rightarrow> CheckpointMeta \<Rightarrow> public_key list \<Rightarrow> CheckpointFault option res" where
  "verify_quorum c m roster =
     rbind (cm_settled_block m) (\<lambda>sb.
     rbind (az_verify c \<lparr>az_multisig = sb_multisig sb,
        az_payload = settle_payload (block_slice_hash c (sb_block sb)) (sb_anchors sb),
        az_roster = roster, az_anchor = cm_anchor m\<rparr>) (\<lambda>good.
     Inr (if good then None else Some QuorumSignature)))"

definition cm_bval :: "CheckpointMeta \<Rightarrow> bval" where
  "cm_bval m = BSeq [BBytes (cm_settled_block_bytes m), BBytes (cm_anchor m), BBytes (cm_compactor m),
     BBytes (cert_encode (cm_grant_cert m)), BBytes (cm_sig m)]"

definition cm_encode :: "CheckpointMeta \<Rightarrow> bytes" where
  "cm_encode m = benc (cm_bval m)"

text \<open>Only a \<^verbatim>\<open>StoreError\<close> is turned into a \<^verbatim>\<open>CheckpointError\<close>.\<close>

definition cm_decode :: "bytes \<Rightarrow> CheckpointMeta res" where
  "cm_decode raw =
     rewrap is_store_error CheckpointError
       (rbind (decode_seq raw (Some 5)) (\<lambda>p.
        rbind (as_bytes (p ! 0)) (\<lambda>sbb.
        rbind (rbind (as_bytes (p ! 1)) PublicKey) (\<lambda>anchor.
        rbind (rbind (as_bytes (p ! 2)) PublicKey) (\<lambda>compactor.
        rbind (rbind (as_bytes (p ! 3)) cert_decode) (\<lambda>cert.
        rbind (rbind (as_bytes (p ! 4)) Signature) (\<lambda>sig.
        Inr \<lparr>cm_settled_block_bytes = sbb, cm_anchor = anchor, cm_compactor = compactor, cm_grant_cert = cert, cm_sig = sig\<rparr>)))))))"

definition cm_ok :: "CheckpointMeta \<Rightarrow> bool" where
  "cm_ok m \<longleftrightarrow> length (cm_anchor m) = KEY_SIZE \<and> length (cm_compactor m) = KEY_SIZE \<and> cert_ok (cm_grant_cert m) \<and>
     length (cm_sig m) = SIG_SIZE \<and> bencodable (cm_bval m)"

interpretation cm_wire: wire cm_encode cm_decode cm_ok
  by unfold_locales (simp add: cm_encode_def cm_decode_def cm_ok_def cm_bval_def cert_wire.dec_enc)

section \<open>The messages\<close>

record GetChunks =
  gk_checkpoint_id :: digest
  gk_offset :: int

definition get_chunks_encode :: "GetChunks \<Rightarrow> bytes" where
  "get_chunks_encode g = benc (BSeq [BBytes (gk_checkpoint_id g), BInt (gk_offset g)])"

definition get_chunks_decode :: "bytes \<Rightarrow> GetChunks res" where
  "get_chunks_decode body =
     rewrap is_dude_error CheckpointAdapterError
       (rbind (decode_seq body (Some 2)) (\<lambda>p.
        rbind (rbind (as_bytes (p ! 0)) Digest) (\<lambda>i.
        rbind (as_int (p ! 1)) (\<lambda>offset.
        Inr \<lparr>gk_checkpoint_id = i, gk_offset = offset\<rparr>))))"

definition get_chunks_ok :: "GetChunks \<Rightarrow> bool" where
  "get_chunks_ok g \<longleftrightarrow> length (gk_checkpoint_id g) = DIGEST_SIZE \<and> bencodable (BSeq [BBytes (gk_checkpoint_id g), BInt (gk_offset g)])"

interpretation get_chunks_wire: wire get_chunks_encode get_chunks_decode get_chunks_ok
  by unfold_locales (simp add: get_chunks_encode_def get_chunks_decode_def get_chunks_ok_def)

definition row_bval :: "PathRow \<Rightarrow> bval" where
  "row_bval r = BSeq [BInt (pr_store r), BBytes (pr_name r), BBytes (pr_value r), BBytes (pr_credential r), BInt (pr_epoch r)]"

definition chunk_bval :: "Chunk \<Rightarrow> bval" where
  "chunk_bval ch = BSeq [BInt (ck_depth ch), BBytes (ck_prefix ch), BBytes (ck_subtree_hash ch), BSeq (map row_bval (ck_rows ch))]"

definition encode_chunk :: "Chunk \<Rightarrow> bytes" where
  "encode_chunk ch = benc (chunk_bval ch)"

definition row_of :: "bval \<Rightarrow> PathRow res" where
  "row_of item =
     rbind (as_seq item (Some 5)) (\<lambda>r.
     rbind (as_int (r ! 0)) (\<lambda>st.
     rbind (as_bytes (r ! 1)) (\<lambda>nm.
     rbind (as_bytes (r ! 2)) (\<lambda>v.
     rbind (as_bytes (r ! 3)) (\<lambda>cr.
     rbind (as_int (r ! 4)) (\<lambda>ep.
     Inr \<lparr>pr_store = st, pr_name = nm, pr_value = v, pr_credential = cr, pr_epoch = ep\<rparr>))))))"

definition decode_chunk :: "bytes \<Rightarrow> Chunk res" where
  "decode_chunk raw =
     rbind (decode_seq raw (Some 4)) (\<lambda>p.
     rbind (as_int (p ! 0)) (\<lambda>depth.
     rbind (as_bytes (p ! 1)) (\<lambda>pfx.
     rbind (rbind (as_bytes (p ! 2)) Digest) (\<lambda>hsh.
     rbind (rbind (as_seq (p ! 3) None) (mapM row_of)) (\<lambda>rows.
     Inr \<lparr>ck_depth = depth, ck_prefix = pfx, ck_subtree_hash = hsh, ck_rows = rows\<rparr>)))))"

definition chunk_ok :: "Chunk \<Rightarrow> bool" where
  "chunk_ok ch \<longleftrightarrow> length (ck_subtree_hash ch) = DIGEST_SIZE \<and> bencodable (chunk_bval ch) \<and> bvalid (BBytes (encode_chunk ch))"

lemma row_of_bval [simp]: "row_of (row_bval r) = Inr r"
  by (simp add: row_of_def row_bval_def)

interpretation chunk_wire: wire encode_chunk decode_chunk chunk_ok
  by unfold_locales (simp add: encode_chunk_def decode_chunk_def chunk_ok_def chunk_bval_def)

record ChunksReply =
  cr_chunks :: "Chunk list"
  cr_more :: bool

definition chunks_reply_encode :: "ChunksReply \<Rightarrow> bytes" where
  "chunks_reply_encode r = benc (BSeq [bytes_seq (map encode_chunk (cr_chunks r)), BInt (if cr_more r then 1 else 0)])"

definition chunks_reply_decode :: "bytes \<Rightarrow> ChunksReply res" where
  "chunks_reply_decode body =
     rewrap is_dude_error CheckpointAdapterError
       (rbind (decode_seq body (Some 2)) (\<lambda>p.
        rbind (rbind (as_seq (p ! 0) None) (mapM (\<lambda>x. rbind (as_bytes x) decode_chunk))) (\<lambda>chunks.
        rbind (as_int (p ! 1)) (\<lambda>more.
        Inr \<lparr>cr_chunks = chunks, cr_more = (more \<noteq> 0)\<rparr>))))"

definition chunks_reply_ok :: "ChunksReply \<Rightarrow> bool" where
  "chunks_reply_ok r \<longleftrightarrow> (\<forall>ch \<in> set (cr_chunks r). chunk_ok ch)"

lemma reply_bencodable: "\<forall>b \<in> set bs. bvalid (BBytes b) \<Longrightarrow> bencodable (BSeq [bytes_seq bs, BInt (if mo then 1 else 0)])"
proof -
  have "fold max (map bdepth (map BBytes bs)) 0 = 0" by (induction bs) auto
  then show "\<forall>b \<in> set bs. bvalid (BBytes b) \<Longrightarrow> ?thesis"
    by (auto simp: bencodable_def bytes_seq_def list_all_iff small_int_digits MAX_DEPTH_codec_def comp_def bdepth.simps)
qed

interpretation chunks_reply_wire: wire chunks_reply_encode chunks_reply_decode chunks_reply_ok
proof
  fix r :: ChunksReply assume ok: "chunks_reply_ok r"
  have "mapM (\<lambda>x. rbind (as_bytes x) decode_chunk) (map BBytes (map encode_chunk (cr_chunks r))) = Inr (cr_chunks r)"
    using ok by (simp add: chunks_reply_ok_def chunk_wire.dec_enc comp_def)
  moreover have "bencodable (BSeq [bytes_seq (map encode_chunk (cr_chunks r)), BInt (if cr_more r then 1 else 0)])"
    using ok by (intro reply_bencodable) (auto simp: chunks_reply_ok_def chunk_ok_def)
  ultimately show "chunks_reply_decode (chunks_reply_encode r) = Inr r"
    by (cases r) (simp add: chunks_reply_encode_def chunks_reply_decode_def bytes_seq_def)
qed

section \<open>The server\<close>

record CheckpointServer =
  cs_batch_size :: int
  cs_checkpoint_id :: "digest option"

definition server_new :: "prims \<Rightarrow> Db \<Rightarrow> int \<Rightarrow> CheckpointServer" where
  "server_new c db batch_size =
     \<lparr>cs_batch_size = batch_size, cs_checkpoint_id = map_option (h c) (sr_checkpoint_meta_bytes db)\<rparr>"

definition create_and_persist :: "prims \<Rightarrow> CheckpointMeta \<Rightarrow> int \<Rightarrow> int \<Rightarrow> Db \<Rightarrow> (CheckpointServer \<times> Db) res" where
  "create_and_persist c meta max_chunk_bytes batch_size db =
     rbind (tree_chunks (store_source c db) max_chunk_bytes) (\<lambda>chunks.
     let db' = persist_checkpoint c (cm_encode meta) (map encode_chunk chunks) db
     in Inr (server_new c db' batch_size, db'))"

definition serve_meta :: "Db \<Rightarrow> bytes" where
  "serve_meta db = (case sr_checkpoint_meta_bytes db of None \<Rightarrow> [] | Some raw \<Rightarrow> raw)"

definition serve_chunks :: "CheckpointServer \<Rightarrow> Db \<Rightarrow> GetChunks \<Rightarrow> ChunksReply option res" where
  "serve_chunks srv db req =
     (if cs_checkpoint_id srv \<noteq> Some (gk_checkpoint_id req) then Inr None
      else rbind (sr_checkpoint_chunks db (gk_offset req) (cs_batch_size srv)) (\<lambda>blobs.
        rbind (mapM decode_chunk blobs) (\<lambda>chunks.
        let total = sr_checkpoint_chunk_count db; served_up_to = gk_offset req + int (length chunks)
        in Inr (Some \<lparr>cr_chunks = chunks, cr_more = (served_up_to < total)\<rparr>))))"

section \<open>Serving a peer\<close>

definition replica_authorised :: "prims \<Rightarrow> Db \<Rightarrow> public_key \<Rightarrow> bool res" where
  "replica_authorised c db who =
     rbind (sr_anchor db) (\<lambda>a.
     if who = a then Inr True
     else rbind (mgmt_reader c db) (\<lambda>m.
       rbind (is_member c m who) (\<lambda>member.
       if member then Inr True
       else rbind (read_grant m who None) (\<lambda>g.
         Inr (case g of None \<Rightarrow> False | Some gr \<Rightarrow> gr_role gr \<in> {MANAGER, COMPACTOR})))))"

text \<open>A handler returns the verb and body of the reply it sends.\<close>

definition refuse :: "SyncRefusedReason \<Rightarrow> Verb \<times> bytes" where
  "refuse reason = (sync_verb (SyncRefused reason None), sync_encode_inner (SyncRefused reason None))"

definition on_get_checkpoint :: "prims \<Rightarrow> CheckpointServer option \<Rightarrow> Db \<Rightarrow> public_key \<Rightarrow> (Verb \<times> bytes) res" where
  "on_get_checkpoint c srv db frm =
     rbind (replica_authorised c db frm) (\<lambda>allowed.
     if \<not> allowed then Inr (refuse R_UNAUTHORISED)
     else case srv of
       None \<Rightarrow> Inr (refuse R_NO_STATE)
     | Some _ \<Rightarrow> Inr (V_CHECKPOINT_META, serve_meta db))"

definition on_get_chunks :: "prims \<Rightarrow> CheckpointServer option \<Rightarrow> Db \<Rightarrow> public_key \<Rightarrow> bytes \<Rightarrow> (Verb \<times> bytes) res" where
  "on_get_chunks c srv db frm body =
     rbind (replica_authorised c db frm) (\<lambda>allowed.
     if \<not> allowed then Inr (refuse R_UNAUTHORISED)
     else case srv of
       None \<Rightarrow> Inr (refuse R_NO_STATE)
     | Some s \<Rightarrow>
         (case get_chunks_decode body of
            Inl e \<Rightarrow> if e = CheckpointAdapterError then Inr (refuse R_MALFORMED_QUERY) else Inl e
          | Inr req \<Rightarrow>
              rbind (serve_chunks s db req) (\<lambda>reply.
              Inr (case reply of
                     None \<Rightarrow> refuse R_CHECKPOINT_STALE
                   | Some r \<Rightarrow> (V_CHUNKS_REPLY, chunks_reply_encode r)))))"

section \<open>Installing\<close>

definition insert_block :: "BlockRow \<Rightarrow> Db \<Rightarrow> Db res" where
  "insert_block b db =
     rbind (sql_int (bk_block_num b)) (\<lambda>_.
     rbind (sql_int (bk_first_height b)) (\<lambda>_.
     rbind (sql_int (bk_height b)) (\<lambda>_.
     if list_ex (\<lambda>b'. bk_block_num b' = bk_block_num b \<or> bk_hash b' = bk_hash b) (db_block db) then Inl IntegrityError
     else Inr (db\<lparr>db_block := db_block db @ [b]\<rparr>))))"

definition bootstrap_checkpoint :: "prims \<Rightarrow> public_key \<Rightarrow> bytes \<Rightarrow> Db \<Rightarrow> Db res" where
  "bootstrap_checkpoint c anchor settled_block_bytes db =
     rbind (sb_decode settled_block_bytes) (\<lambda>sb.
     let a = sb_anchors sb in
     rbind (provision anchor [] db) (\<lambda>db1.
     let db2 = set_meta ''acc_log'' (an_acc_log a) (set_meta ''acc'' (an_acc_state a) db1) in
     rbind (to_bytes 8 (an_height a)) (\<lambda>floor_bytes.
     insert_block \<lparr>bk_block_num = an_block_num a, bk_first_height = an_height a + 1, bk_height = an_height a,
         bk_bytes = settled_block_bytes, bk_hash = block_hash c sb\<rparr>
       (set_meta ''head_floor'' floor_bytes db2))))"

text \<open>The body of the write transaction of \<^verbatim>\<open>_do_download\<close>.\<close>

definition install :: "prims \<Rightarrow> CheckpointMeta \<Rightarrow> Chunk list \<Rightarrow> Db \<Rightarrow> (unit \<times> Db) res" where
  "install c meta chunks db =
     (let db0 = reset_for_checkpoint db in
      rbind (cm_state_root meta) (\<lambda>root.
      rbind (load_all (store_target c) chunks db0) (\<lambda>db1.
      rbind (importer_verify (store_target c) root db1) (\<lambda>(_, db2).
      rbind (bootstrap_checkpoint c (cm_anchor meta) (cm_settled_block_bytes meta) db2) (\<lambda>db3.
      Inr ((), db3))))))"

section \<open>The download\<close>

text \<open>
  The download asks one peer after another. \<open>ask k peer verb body\<close> is the reply to its request
  number \<open>k\<close>, or nothing when the wait times out; \<open>alive k\<close> tells whether the event loop still
  runs after \<open>k\<close> requests. Nothing bounds the number of pages a peer may announce, so the loop over
  the pages has fuel, and \<^const>\<open>None\<close> says that it is still asking.
\<close>

type_synonym asker = "nat \<Rightarrow> public_key \<Rightarrow> Verb \<Rightarrow> bytes \<Rightarrow> (Verb \<times> bytes) option"

fun fetch_chunks ::
  "(nat \<Rightarrow> bool) \<Rightarrow> asker \<Rightarrow> nat \<Rightarrow> public_key \<Rightarrow> digest \<Rightarrow> Chunk list \<Rightarrow> int \<Rightarrow> nat \<Rightarrow> ((bool \<times> Chunk list) res \<times> nat) option" where
  "fetch_chunks alive ask 0 peer i chunks offset k = None"
| "fetch_chunks alive ask (Suc fuel) peer i chunks offset k =
     (if \<not> alive k then Some (Inr (True, chunks), k)
      else case ask k peer V_GET_CHUNKS (get_chunks_encode \<lparr>gk_checkpoint_id = i, gk_offset = offset\<rparr>) of
        None \<Rightarrow> Some (Inr (False, chunks), Suc k)
      | Some (v, body) \<Rightarrow>
          if v \<noteq> V_CHUNKS_REPLY then Some (Inr (False, chunks), Suc k)
          else case chunks_reply_decode body of
            Inl e \<Rightarrow> Some (Inl e, Suc k)
          | Inr reply \<Rightarrow>
              if \<not> cr_more reply then Some (Inr (True, chunks @ cr_chunks reply), Suc k)
              else fetch_chunks alive ask fuel peer i (chunks @ cr_chunks reply) (offset + int (length (cr_chunks reply))) (Suc k))"

text \<open>The roster that the node reads after the installation goes through the memo of its reader.\<close>

definition check_installed :: "prims \<Rightarrow> RosterCache \<Rightarrow> CheckpointMeta \<Rightarrow> Db \<Rightarrow> (CheckpointFault option \<times> RosterCache) res" where
  "check_installed c cache meta db =
     rbind (mgmt_reader c db) (\<lambda>m.
     rbind (roster_cached c m (Some (sr_head_block_num db)) cache) (\<lambda>(roster, cache').
     rbind (verify_quorum c meta (sort roster)) (\<lambda>fault. Inr (fault, cache'))))"

text \<open>
  \<^verbatim>\<open>_do_download\<close>: the outcome tells whether the follower's record of compacted peers is
  cleared; an exception leaves the thread.
\<close>

fun do_download ::
  "prims \<Rightarrow> (nat \<Rightarrow> bool) \<Rightarrow> asker \<Rightarrow> nat \<Rightarrow> public_key list \<Rightarrow> nat \<Rightarrow> RosterCache \<Rightarrow> Db \<Rightarrow> (bool res \<times> Db) option" where
  "do_download c alive ask fuel [] k cache db = Some (Inr False, db)"
| "do_download c alive ask fuel (peer # peers) k cache db =
     (if \<not> alive k then Some (Inr False, db)
      else case ask k peer V_GET_CHECKPOINT [] of
        None \<Rightarrow> do_download c alive ask fuel peers (Suc k) cache db
      | Some (v, body) \<Rightarrow>
          if v \<noteq> V_CHECKPOINT_META \<or> body = [] then do_download c alive ask fuel peers (Suc k) cache db
          else case rbind (cm_decode body) (\<lambda>meta. rbind (sr_anchor db) (\<lambda>a. Inr (meta, verify_compactor c meta a))) of
            Inl e \<Rightarrow> Some (Inl e, db)
          | Inr (meta, Some fault) \<Rightarrow> do_download c alive ask fuel peers (Suc k) cache db
          | Inr (meta, None) \<Rightarrow>
              (case fetch_chunks alive ask fuel peer (h c body) [] 0 (Suc k) of
                 None \<Rightarrow> None
               | Some (Inl e, _) \<Rightarrow> Some (Inl e, db)
               | Some (Inr (good, chunks), k') \<Rightarrow>
                   if \<not> good \<or> \<not> alive k' then do_download c alive ask fuel peers k' cache db
                   else case store_write (install c meta chunks) db of
                     (Inl e, db') \<Rightarrow> Some (Inl e, db')
                   | (Inr _, db') \<Rightarrow>
                       (case check_installed c cache meta db' of
                          Inl e \<Rightarrow> Some (Inl e, db')
                        | Inr (None, _) \<Rightarrow> Some (Inr True, db')
                        | Inr (Some fault, cache') \<Rightarrow> do_download c alive ask fuel peers k' cache' db')))"

text \<open>\<^verbatim>\<open>_download_checkpoint\<close> starts no second download and none without a compacted peer.\<close>

definition download_starts :: "Follower \<Rightarrow> bool \<Rightarrow> bool" where
  "download_starts fl downloading \<longleftrightarrow> compacted_peers fl \<noteq> [] \<and> \<not> downloading"

definition download_worker ::
  "prims \<Rightarrow> (nat \<Rightarrow> bool) \<Rightarrow> asker \<Rightarrow> nat \<Rightarrow> Follower \<Rightarrow> RosterCache \<Rightarrow> (unit res \<times> Follower) option" where
  "download_worker c alive ask fuel fl cache =
     (case do_download c alive ask fuel (compacted_peers fl) 0 cache (fl_db fl) of
        None \<Rightarrow> None
      | Some (Inl e, db') \<Rightarrow> Some (Inl e, fl\<lparr>fl_db := db'\<rparr>)
      | Some (Inr cleared, db') \<Rightarrow>
          Some (Inr (), if cleared then clear_compacted (fl\<lparr>fl_db := db'\<rparr>) else fl\<lparr>fl_db := db'\<rparr>))"

end
