(* ===== verification/Checkpoint_Props.thy ===== *)
theory Checkpoint_Props
  imports Checkpoint Sample_Store
begin

text \<open>
  What the download of a checkpoint achieves: from a server that persisted one, the pages, the chunks
  and the rows arrive complete, and the store ends with the state of the source and the block of the
  certificate as its head. What it does not achieve: the signatures of the settled block are looked at
  after the transaction that installs it.
\<close>

section \<open>Pages of a persisted checkpoint\<close>

lemma numbered_above:
  assumes "off \<le> length bbs"
  shows "filter (\<lambda>(seq, _). seq > int off) (zip (map int [1..<Suc (length bbs)]) bbs) =
    drop off (zip (map int [1..<Suc (length bbs)]) bbs)"
proof -
  let ?z = "zip (map int [1..<Suc (length bbs)]) bbs"
  have nth: "i < length bbs \<Longrightarrow> fst (?z ! i) = int (Suc i)" for i by (simp del: upt_Suc)
  have low: "filter (\<lambda>(seq, _). seq > int off) (take off ?z) = []"
  proof -
    have "fst x \<le> int off" if "x \<in> set (take off ?z)" for x
    proof -
      obtain i where "i < off" "x = ?z ! i" using \<open>x \<in> _\<close> assms by (auto simp: in_set_conv_nth simp del: upt_Suc)
      then show ?thesis using nth[of i] assms by (simp del: upt_Suc)
    qed
    then show ?thesis by (auto simp: filter_empty_conv simp del: upt_Suc) (meson fst_conv leD)
  qed
  have high: "filter (\<lambda>(seq, _). seq > int off) (drop off ?z) = drop off ?z"
  proof -
    have "int off < fst x" if "x \<in> set (drop off ?z)" for x
    proof -
      obtain i where "i < length bbs - off" "x = ?z ! (off + i)" using \<open>x \<in> _\<close> assms by (auto simp: in_set_conv_nth simp del: upt_Suc)
      then show ?thesis using nth[of "off + i"] by (simp del: upt_Suc)
    qed
    then show ?thesis by (intro filter_True) auto
  qed
  have "filter (\<lambda>(seq, _). seq > int off) ?z =
      filter (\<lambda>(seq, _). seq > int off) (take off ?z) @ filter (\<lambda>(seq, _). seq > int off) (drop off ?z)"
    by (simp only: filter_append[symmetric] append_take_drop_id)
  then show ?thesis by (simp only: low high append_Nil)
qed

lemma persisted_reads:
  fixes c :: prims and raw :: bytes and db :: Db
  assumes "off \<le> length bbs" "in_range (int off)" "in_range limit" "0 \<le> limit"
  defines "db' \<equiv> persist_checkpoint c raw bbs db"
  shows "sr_checkpoint_meta_bytes db' = Some raw" "sr_checkpoint_chunk_count db' = int (length bbs)"
    "sr_checkpoint_chunks db' (int off) limit = Inr (take (nat limit) (drop off bbs))"
proof -
  let ?z = "zip (map int [1..<Suc (length bbs)]) bbs"
  have cp: "db_checkpoint db' = (0, raw) # ?z" by (simp add: db'_def persist_checkpoint_def set_meta_def del: upt_Suc)
  show "sr_checkpoint_meta_bytes db' = Some raw" by (simp add: sr_checkpoint_meta_bytes_def cp del: upt_Suc)
  show "sr_checkpoint_chunk_count db' = int (length bbs)"
    using numbered_above[of 0 bbs] by (simp add: sr_checkpoint_chunk_count_def cp del: upt_Suc)
  have "sorted (map fst (drop off ?z))"
    by (simp add: drop_map[symmetric] drop_zip sorted_map sorted_wrt_upt del: upt_Suc)
  then have "sort_key fst (drop off ?z) = drop off ?z" by (rule sort_key_id_if_sorted)
  moreover have "map snd (drop off ?z) = drop off bbs" by (simp add: drop_map[symmetric] del: upt_Suc)
  ultimately show "sr_checkpoint_chunks db' (int off) limit = Inr (take (nat limit) (drop off bbs))"
    using numbered_above[OF assms(1)] assms(2-4) by (simp add: sr_checkpoint_chunks_def cp del: upt_Suc)
qed

section \<open>An honest server\<close>

text \<open>The replies of a node whose store is \<open>db\<close> to the requests of \<open>me\<close>; a handler that raises sends none.\<close>

definition served :: "prims \<Rightarrow> CheckpointServer \<Rightarrow> Db \<Rightarrow> public_key \<Rightarrow> asker" where
  "served c srv db me k peer verb body =
     (case (if verb = V_GET_CHECKPOINT then on_get_checkpoint c (Some srv) db me
            else if verb = V_GET_CHUNKS then on_get_chunks c (Some srv) db me body else Inl KeyError) of
        Inl _ \<Rightarrow> None | Inr reply \<Rightarrow> Some reply)"

lemma length_nat_ascii_pow: "n < 10 ^ Suc k \<Longrightarrow> length (nat_ascii n) \<le> Suc k"
proof (induction k arbitrary: n)
  case 0
  then show ?case by (subst nat_ascii.simps) simp
next
  case (Suc k)
  then have "length (nat_ascii (n div 10)) \<le> Suc k" by (intro Suc.IH) (simp add: less_mult_imp_div_less)
  then show ?case by (subst nat_ascii.simps) simp
qed

lemma in_range_digits: "in_range n \<Longrightarrow> int_digits n \<le> MAX_INT_DIGITS"
proof -
  assume "in_range n"
  then have "\<bar>n\<bar> < 10 ^ 19" by (auto simp: in_range_def)
  then have "nat \<bar>n\<bar> < 10 ^ Suc 18" by (simp add: nat_less_iff)
  from length_nat_ascii_pow[OF this] show ?thesis by (simp add: int_digits_def MAX_INT_DIGITS_def)
qed

lemma request_ok: "length i = 32 \<Longrightarrow> in_range off \<Longrightarrow> get_chunks_ok \<lparr>gk_checkpoint_id = i, gk_offset = off\<rparr>"
  by (simp add: get_chunks_ok_def bencodable_def bdepth.simps in_range_digits small_int_digits MAX_DEPTH_codec_def DIGEST_SIZE_def)

lemma served_page:
  fixes c :: prims and raw :: bytes and db :: Db
  assumes "digest_width c" "\<forall>ch \<in> set chs. chunk_ok ch" "off \<le> length chs" "int (length chs) < 2 ^ 63" "0 < batch" "in_range batch"
  defines "db' \<equiv> persist_checkpoint c raw (map encode_chunk chs) db"
  assumes "replica_authorised c db' me = Inr True"
  shows "\<exists>body. served c (server_new c db' batch) db' me k peer V_GET_CHUNKS
      (get_chunks_encode \<lparr>gk_checkpoint_id = h c raw, gk_offset = int off\<rparr>) = Some (V_CHUNKS_REPLY, body) \<and>
    chunks_reply_decode body = Inr \<lparr>cr_chunks = take (nat batch) (drop off chs),
      cr_more = (off + length (take (nat batch) (drop off chs)) < length chs)\<rparr>"
proof -
  have off: "in_range (int off)" using assms(3,4) by (simp add: in_range_def)
  note reads = persisted_reads[of off "map encode_chunk chs" batch c raw db, folded db'_def]
  let ?req = "\<lparr>gk_checkpoint_id = h c raw, gk_offset = int off\<rparr>" and ?page = "take (nat batch) (drop off chs)"
  let ?reply = "\<lparr>cr_chunks = ?page, cr_more = (off + length ?page < length chs)\<rparr>"
  have page: "\<forall>ch \<in> set ?page. chunk_ok ch" using assms(2) by (meson in_set_dropD in_set_takeD)
  have "mapM decode_chunk (take (nat batch) (drop off (map encode_chunk chs))) = Inr ?page"
    using page by (simp add: take_map drop_map chunk_wire.dec_enc)
  then have "serve_chunks (server_new c db' batch) db' ?req = Inr (Some ?reply)"
    using reads off assms(3-6)
    by (simp add: serve_chunks_def server_new_def del: length_take length_drop) (simp only: of_nat_add[symmetric] of_nat_less_iff)
  moreover have "get_chunks_decode (get_chunks_encode ?req) = Inr ?req"
    by (rule get_chunks_wire.dec_enc[OF request_ok[OF _ off]]) (use assms(1) in \<open>simp add: h_def digest_width_def\<close>)
  moreover have "chunks_reply_decode (chunks_reply_encode ?reply) = Inr ?reply"
    by (rule chunks_reply_wire.dec_enc) (use page in \<open>simp add: chunks_reply_ok_def\<close>)
  ultimately show ?thesis using assms(8) by (simp add: served_def on_get_chunks_def)
qed

lemma fetch_complete:
  fixes c :: prims and raw :: bytes and db :: Db
  assumes "digest_width c" "\<forall>ch \<in> set chs. chunk_ok ch" "int (length chs) < 2 ^ 63" "0 < batch" "in_range batch"
  defines "db' \<equiv> persist_checkpoint c raw (map encode_chunk chs) db"
  assumes "replica_authorised c db' me = Inr True"
  shows "off \<le> length chs \<Longrightarrow> length chs - off < fuel \<Longrightarrow>
    \<exists>k'. fetch_chunks (\<lambda>_. True) (served c (server_new c db' batch) db' me) fuel peer (h c raw) acc (int off) k =
      Some (Inr (True, acc @ drop off chs), k')"
proof (induction fuel arbitrary: off acc k)
  case (Suc fuel)
  let ?page = "take (nat batch) (drop off chs)"
  obtain body where body: "served c (server_new c db' batch) db' me k peer V_GET_CHUNKS
      (get_chunks_encode \<lparr>gk_checkpoint_id = h c raw, gk_offset = int off\<rparr>) = Some (V_CHUNKS_REPLY, body)"
    "chunks_reply_decode body = Inr \<lparr>cr_chunks = ?page, cr_more = (off + length ?page < length chs)\<rparr>"
    using served_page[OF assms(1,2) Suc.prems(1) assms(3-5) assms(7)[unfolded db'_def]] unfolding db'_def by blast
  show ?case
  proof (cases "off + length ?page < length chs")
    case True
    then have len: "length ?page = nat batch" by simp
    then have "length chs - (off + nat batch) < fuel" using Suc.prems True assms(4) by linarith
    then obtain k' where "fetch_chunks (\<lambda>_. True) (served c (server_new c db' batch) db' me) fuel peer (h c raw) (acc @ ?page) (int (off + nat batch)) (Suc k) =
        Some (Inr (True, (acc @ ?page) @ drop (off + nat batch) chs), k')"
      using Suc.IH[of "off + nat batch" "acc @ ?page" "Suc k"] True len by auto
    moreover have "?page @ drop (off + nat batch) chs = drop off chs"
      by (metis append_take_drop_id drop_drop add.commute)
    ultimately show ?thesis using body True len by (simp del: length_take length_drop)
  next
    case False
    then have "?page = drop off chs" by (auto simp: min_def split: if_splits)
    then show ?thesis using body False by (simp del: length_take length_drop)
  qed
qed simp

section \<open>Installing what an honest server sent\<close>

lemma bootstrap_on_imported:
  assumes "sb_ok sb" "same_rest (reset_for_checkpoint tgt) db" "0 \<le> an_height (sb_anchors sb)" "an_height (sb_anchors sb) + 1 < 2 ^ 63"
    "in_range (an_block_num (sb_anchors sb))" "length anchor = 32" "digest_width c"
  shows "\<exists>db'. bootstrap_checkpoint c anchor (sb_encode sb) db = Inr db' \<and> db_live db' = db_live db \<and> db_memo db' = db_memo db \<and>
    db_entry db' = [] \<and> sr_accumulator db' = Inr (an_acc_state (sb_anchors sb)) \<and> get_meta db' ''acc'' ACC_IDENTITY = an_acc_state (sb_anchors sb) \<and>
    sr_log_accumulator db' = Inr (an_acc_log (sb_anchors sb)) \<and> sr_head db' = an_height (sb_anchors sb) \<and>
    sr_head_block_num db' = Some (an_block_num (sb_anchors sb)) \<and> sr_head_block_hash db' = Inr (Some (block_hash c sb)) \<and>
    sr_settled_at db' (an_block_num (sb_anchors sb)) = Inr (Some (sb_encode sb)) \<and> sr_anchor db' = Inr anchor"
proof -
  let ?a = "sb_anchors sb"
  have rest: "db_entry db = []" "db_meta db = Map.empty" "db_block db = []"
    using assms(2) by (simp_all add: same_rest_def reset_for_checkpoint_def db_empty_def)
  have ok: "anchors_ok ?a" "sb_decode (sb_encode sb) = Inr sb" using assms(1) by (simp_all add: sb_ok_def sb_wire.dec_enc)
  have hash: "Digest (block_hash c sb) = Inr (block_hash c sb)" using assms(7) by (simp add: fixed_def block_hash_def h_def digest_width_def)
  have ne: "anchor \<noteq> []" using assms(6) by auto
  have floor: "to_bytes 8 (an_height ?a) = Inr (be_bytes 8 (nat (an_height ?a)))" "from_bytes (be_bytes 8 (nat (an_height ?a))) = nat (an_height ?a)"
    using assms(3,4) by (simp_all add: to_bytes_def from_bytes_be_bytes nat_less_iff)
  have range: "in_range (an_height ?a + 1)" "in_range (an_height ?a)" using assms(3,4) by (simp_all add: in_range_def)
  have lens: "length (block_hash c sb) = 32" "length (an_acc_state ?a) = 32" "length (an_acc_log ?a) = 32"
    using ok(1) assms(7) by (simp_all add: anchors_ok_def block_hash_def h_def digest_width_def)
  have acc: "Accumulator (an_acc_state ?a) = Inr (an_acc_state ?a)" "Accumulator (an_acc_log ?a) = Inr (an_acc_log ?a)"
    using ok(1) by (simp_all add: anchors_ok_def fixed_def)
  show ?thesis
    using assms(3,5,6) ne lens
    by (simp add: bootstrap_checkpoint_def ok(2) provision_def get_meta_def set_meta_def rest floor range insert_block_def acc
      sr_accumulator_def sr_log_accumulator_def sr_head_def sr_head_block_num_def sr_head_block_hash_def hash sr_anchor_def fixed_def
      sr_settled_at_def find_block_def Let_def)
qed

text \<open>What a store shows once the checkpoint of \<open>src\<close> at the block \<open>sb\<close> is installed in it.\<close>

definition holds_checkpoint :: "prims \<Rightarrow> SettledBlock \<Rightarrow> Db \<Rightarrow> Db \<Rightarrow> bool" where
  "holds_checkpoint c sb src db \<longleftrightarrow>
     mset (db_live db) = mset (db_live src) \<and> sr_state_root c db = Inr (an_state_root (sb_anchors sb)) \<and> db_entry db = [] \<and>
     sr_accumulator db = Inr (an_acc_state (sb_anchors sb)) \<and> sr_log_accumulator db = Inr (an_acc_log (sb_anchors sb)) \<and>
     sr_head db = an_height (sb_anchors sb) \<and> sr_head_block_num db = Some (an_block_num (sb_anchors sb)) \<and>
     sr_head_block_hash db = Inr (Some (block_hash c sb)) \<and> sr_settled_at db (an_block_num (sb_anchors sb)) = Inr (Some (sb_encode sb))"

text \<open>A store that can be exported whole, and a block that claims its root.\<close>

definition exportable :: "prims \<Rightarrow> int \<Rightarrow> Db \<Rightarrow> bool" where
  "exportable c budget db \<longleftrightarrow>
     db_ok c db \<and> (\<forall>r \<in> set (db_live db). in_range (lr_epoch r) \<and> 0 < row_data r) \<and> int (length (db_live db)) < 2 ^ 63 \<and>
     (\<forall>chs. tree_chunks (store_source c db) budget = Inr chs \<longrightarrow> (\<forall>ch \<in> set chs. chunk_ok ch))"

definition pivot_ok :: "prims \<Rightarrow> SettledBlock \<Rightarrow> Db \<Rightarrow> bool" where
  "pivot_ok c sb src \<longleftrightarrow>
     sb_ok sb \<and> sr_state_root c src = Inr (an_state_root (sb_anchors sb)) \<and> 0 \<le> an_height (sb_anchors sb) \<and>
     an_height (sb_anchors sb) + 1 < 2 ^ 63 \<and> in_range (an_block_num (sb_anchors sb))"

lemma export_chunks:
  assumes "digest_width c" "exportable c budget src"
  obtains chs where "tree_chunks (store_source c src) budget = Inr chs" "\<forall>ch \<in> set chs. honest_chunk c (db_live src) ch \<and> chunk_ok ch"
    "mset (concat (map ck_rows chs)) = mset (map path_row (db_live src))" "length chs \<le> length (db_live src)"
proof -
  have ok: "source_ok (c, src)" using assms by (simp add: source_ok_def exportable_def db_ok_def)
  have data: "\<forall>r \<in> set (db_live (snd (c, src))). 0 < row_data r" using assms(2) by (simp add: exportable_def)
  obtain chs where chs: "tree_walk (store_source c src) budget (replicate 32 0) 0 = Inr chs"
      "\<forall>ch \<in> set chs. honest_chunk c (db_live src) ch \<and> ck_rows ch \<noteq> []"
      "mset (concat (map ck_rows chs)) = mset (map path_row (db_live src))"
    using reader.walk_partitions[OF ok data, of "replicate 32 0" 0 budget] by (auto simp: has_signer_def index_in_path)
  have "length (concat (map ck_rows chs)) = length (db_live src)" using arg_cong[OF chs(3), of size] by simp
  moreover have "length chs \<le> length (concat (map ck_rows chs))" using chs(2)
    by (induction chs) (auto simp: neq_Nil_conv)
  ultimately show thesis
    using chs assms(2) that[of chs] by (simp add: tree_chunks_def DIGEST_SIZE_def exportable_def)
qed

lemma install_honest:
  assumes "digest_width c" "exportable c budget src" "pivot_ok c sb src" "length anchor = 32"
    "\<forall>ch \<in> set chs. honest_chunk c (db_live src) ch" "mset (concat (map ck_rows chs)) = mset (map path_row (db_live src))"
    "cm_settled_block_bytes meta = sb_encode sb" "cm_anchor meta = anchor"
  shows "\<exists>db'. install c meta chs tgt = Inr ((), db') \<and> holds_checkpoint c sb src db' \<and> sr_anchor db' = Inr anchor \<and>
    target_ok c db' \<and> get_meta db' ''acc'' ACC_IDENTITY = an_acc_state (sb_anchors sb)"
proof -
  let ?live = "db_live src" and ?root = "node_hash c (db_live src) (replicate 32 0) 0"
  have src: "table_ok c ?live" "memo_ok c ?live (db_memo src)" "\<forall>r \<in> set ?live. in_range (lr_store r) \<and> in_range (lr_epoch r)"
    using assms(2) by (auto simp: exportable_def db_ok_def)
  have sb: "sb_ok sb" "sr_state_root c src = Inr (an_state_root (sb_anchors sb))" "0 \<le> an_height (sb_anchors sb)"
      "an_height (sb_anchors sb) + 1 < 2 ^ 63" "in_range (an_block_num (sb_anchors sb))"
    using assms(3) by (simp_all add: pivot_ok_def)
  have root: "an_state_root (sb_anchors sb) = ?root"
    using sb(2) hash_under_node_hash[OF assms(1) _ src(2), of "replicate 32 0" 0 False] src(1)
    by (auto simp: sr_state_root_def tree_root_def table_ok_def DIGEST_SIZE_def)
  have fresh: "target_ok c (reset_for_checkpoint tgt)" "db_live (reset_for_checkpoint tgt) = []"
    by (simp_all add: target_ok_def reset_for_checkpoint_def db_empty_def table_ok_def rows_ok_def keyed_def)
  obtain db1 db2 where db2: "load_all (store_target c) chs (reset_for_checkpoint tgt) = Inr db1"
      "importer_verify (store_target c) ?root db1 = Inr (?root, db2)" "target_ok c db2" "same_rest (reset_for_checkpoint tgt) db2"
      "mset (db_live db2) = mset ?live"
    using writer.import_rebuilds[OF src(1) assms(1) src(3) fresh assms(5,6)] by blast
  obtain db3 where db3: "bootstrap_checkpoint c anchor (sb_encode sb) db2 = Inr db3" "db_live db3 = db_live db2" "db_memo db3 = db_memo db2"
      "db_entry db3 = []" "sr_accumulator db3 = Inr (an_acc_state (sb_anchors sb))" "get_meta db3 ''acc'' ACC_IDENTITY = an_acc_state (sb_anchors sb)"
      "sr_log_accumulator db3 = Inr (an_acc_log (sb_anchors sb))" "sr_head db3 = an_height (sb_anchors sb)"
      "sr_head_block_num db3 = Some (an_block_num (sb_anchors sb))" "sr_head_block_hash db3 = Inr (Some (block_hash c sb))"
      "sr_settled_at db3 (an_block_num (sb_anchors sb)) = Inr (Some (sb_encode sb))" "sr_anchor db3 = Inr anchor"
    using bootstrap_on_imported[OF sb(1) db2(4) sb(3-5) assms(4,1)] by blast
  have t3: "target_ok c db3" using db2(3) db3(2,3) by (simp add: target_ok_def)
  then have "sr_state_root c db3 = Inr (node_hash c (db_live db3) (replicate 32 0) 0)"
    using hash_under_node_hash[OF assms(1), of "db_live db3" "db_memo db3" "replicate 32 0" 0 False]
    by (auto simp: sr_state_root_def tree_root_def table_ok_def target_ok_def DIGEST_SIZE_def)
  moreover have "node_hash c (db_live db3) (replicate 32 0) 0 = ?root"
    using t3 db3(2) db2(5) by (intro node_hash_mset) (auto simp: target_ok_def table_ok_def)
  ultimately have "holds_checkpoint c sb src db3" using db3 db2(5) root by (simp add: holds_checkpoint_def)
  moreover have "install c meta chs tgt = Inr ((), db3)"
    using db2(1,2) db3(1) assms(7,8) sb(1) root by (simp add: install_def cm_state_root_def cm_anchors_def cm_settled_block_def sb_wire.dec_enc)
  ultimately show ?thesis using db3(6,12) t3 by blast
qed

text \<open>The download from one honest server, up to the check that follows the installation.\<close>

lemma download_installs:
  fixes c :: prims and src :: Db and sb :: SettledBlock and master cmp :: seed
  assumes "digest_width c" "sign_correct c" "exportable c budget src" "pivot_ok c sb src" "0 < batch" "in_range batch"
  defines "meta \<equiv> cm_create c (sb_encode sb) (kp_public c master) cmp (sign_grant c master (kp_public c cmp) COMPACTOR)"
  assumes "cm_ok meta" "create_and_persist c meta budget batch src = Inr (srv, src')" "replica_authorised c src' me = Inr True"
    "sr_anchor tgt = Inr (kp_public c master)" "length (db_live src) < fuel"
  shows "\<exists>tgt'. do_download c (\<lambda>_. True) (served c srv src' me) fuel [peer] k cache tgt =
      Some (rbind (check_installed c cache meta tgt') (\<lambda>(fault, _). Inr (fault = None)), tgt') \<and>
    holds_checkpoint c sb src tgt' \<and> sr_anchor tgt' = sr_anchor tgt \<and> target_ok c tgt' \<and>
    get_meta tgt' ''acc'' ACC_IDENTITY = an_acc_state (sb_anchors sb)"
proof -
  obtain chs where chs: "tree_chunks (store_source c src) budget = Inr chs" "\<forall>ch \<in> set chs. honest_chunk c (db_live src) ch \<and> chunk_ok ch"
      "mset (concat (map ck_rows chs)) = mset (map path_row (db_live src))" "length chs \<le> length (db_live src)"
    by (rule export_chunks[OF assms(1,3)])
  have srv: "srv = server_new c src' batch" "src' = persist_checkpoint c (cm_encode meta) (map encode_chunk chs) src"
    using assms(9) chs(1) by (auto simp: create_and_persist_def Let_def)
  have few: "int (length chs) < 2 ^ 63" using chs(4) assms(3) by (simp add: exportable_def)
  have raw: "serve_meta src' = cm_encode meta" "cm_encode meta \<noteq> []"
    using persisted_reads(1)[of 0 "map encode_chunk chs" 0 c "cm_encode meta" src]
    by (simp_all add: serve_meta_def srv(2) in_range_def cm_encode_def)
  have first: "served c srv src' me k peer V_GET_CHECKPOINT [] = Some (V_CHECKPOINT_META, cm_encode meta)"
    using assms(10) raw by (simp add: served_def on_get_checkpoint_def)
  have trusted: "verify_compactor c meta (kp_public c master) = None"
    using assms(2) by (simp add: verify_compactor_def meta_def cm_create_def sign_grant_def cert_sign_def cert_verify_def)
  obtain k' where fetch: "fetch_chunks (\<lambda>_. True) (served c srv src' me) fuel peer (h c (cm_encode meta)) [] 0 (Suc k) = Some (Inr (True, chs), k')"
    using fetch_complete[OF assms(1) _ few assms(5,6), of "cm_encode meta" src me 0 fuel peer "[]" "Suc k"] chs(2,4) assms(10,12)
    unfolding srv by auto
  have anchor: "length (kp_public c master) = 32" "cm_anchor meta = kp_public c master" "cm_settled_block_bytes meta = sb_encode sb"
    using assms(8) by (simp_all add: cm_ok_def meta_def cm_create_def KEY_SIZE_def)
  obtain tgt' where t: "install c meta chs tgt = Inr ((), tgt')" "holds_checkpoint c sb src tgt'" "sr_anchor tgt' = Inr (kp_public c master)"
      "target_ok c tgt'" "get_meta tgt' ''acc'' ACC_IDENTITY = an_acc_state (sb_anchors sb)"
    using install_honest[OF assms(1,3,4) anchor(1) _ chs(3) anchor(3,2), of tgt] chs(2) by blast
  have "do_download c (\<lambda>_. True) (served c srv src' me) fuel [peer] k cache tgt =
      Some (rbind (check_installed c cache meta tgt') (\<lambda>(fault, _). Inr (fault = None)), tgt')"
  proof -
    have w: "store_write (install c meta chs) tgt = (Inr (), tgt')" using t(1) by (simp add: store_write_def)
    consider e where "check_installed c cache meta tgt' = Inl e" | ch where "check_installed c cache meta tgt' = Inr (None, ch)"
      | fault ch where "check_installed c cache meta tgt' = Inr (Some fault, ch)"
      by (cases "check_installed c cache meta tgt'") (auto, metis option.exhaust)
    then show ?thesis
      by cases (simp_all add: first raw(2) trusted fetch w assms(11) cm_wire.dec_enc[OF assms(8)] del: fetch_chunks.simps)
  qed
  then show ?thesis using t assms(11) by auto
qed

lemma unsigned_not_endorsed: "ms_sigs (sb_multisig sb) = [] \<Longrightarrow> \<not> endorsed c roster anchor sb"
  using quorum_size_bounds by (fastforce simp: endorsed_def Let_def)

lemma quorum_check:
  assumes "sb_ok sb" "cm_settled_block_bytes meta = sb_encode sb"
  shows "verify_quorum c meta roster = Inr None \<longleftrightarrow> az_verify c (block_authorization c sb roster (cm_anchor meta)) = Inr True"
proof -
  obtain good where "az_verify c (block_authorization c sb roster (cm_anchor meta)) = Inr good" using az_verify_total by blast
  then show ?thesis
    using assms by (simp add: verify_quorum_def cm_settled_block_def sb_wire.dec_enc block_authorization_def)
qed

lemma installed_and_endorsed:
  assumes "sb_ok sb" "cm_settled_block_bytes meta = sb_encode sb"
    "rbind (check_installed c cache meta db) (\<lambda>(fault, _). Inr (fault = None)) = Inr True"
  shows "\<exists>roster. endorsed c roster (cm_anchor meta) sb"
proof -
  obtain roster where "verify_quorum c meta (sort roster) = Inr None"
    using assms(3) by (auto simp: check_installed_def rbind_Inr_conv)
  then show ?thesis using quorum_check[OF assms(1,2)] az_verify_endorsed by blast
qed

text \<open>
  C6: A checkpoint replicates the state. A node that holds a compactor grant of the manager exports
  its store into chunks of a byte budget, persists them with a certificate over a settled block that
  claims the state root of the store, and serves them in pages. A node of the same manager that
  downloads from it ends the download after finitely many requests, whatever it held before. Its table
  then has exactly the rows of the source, its root is the claimed one, its head, accumulators and head
  block are those of the settled block, and its manager is unchanged. If the block also claims the
  accumulator of the rows, the store satisfies the invariant of a store. The download is recorded as
  a success only if the settled block is signed by the manager or by a quorum of some roster.
\<close>

theorem checkpoint_replicates_state:
  assumes "digest_width c" "sign_correct c" "acc_laws c G" "exportable c budget src" "pivot_ok c sb src" "0 < batch" "in_range batch"
    "meta = cm_create c (sb_encode sb) (kp_public c master) cmp (sign_grant c master (kp_public c cmp) COMPACTOR)" "cm_ok meta"
    "create_and_persist c meta budget batch src = Inr (srv, src')" "replica_authorised c src' me = Inr True"
    "sr_anchor tgt = Inr (kp_public c master)" "length (db_live src) < fuel"
  shows "\<exists>out tgt'. do_download c (\<lambda>_. True) (served c srv src' me) fuel [peer] k cache tgt = Some (out, tgt') \<and>
    holds_checkpoint c sb src tgt' \<and> sr_anchor tgt' = sr_anchor tgt \<and>
    (an_acc_state (sb_anchors sb) = acc_sum c (db_live src) \<longrightarrow> db_ok c tgt') \<and>
    (out = Inr True \<longrightarrow> (\<exists>roster. endorsed c roster (kp_public c master) sb))"
proof -
  obtain tgt' where t: "do_download c (\<lambda>_. True) (served c srv src' me) fuel [peer] k cache tgt =
      Some (rbind (check_installed c cache meta tgt') (\<lambda>(fault, _). Inr (fault = None)), tgt')"
      "holds_checkpoint c sb src tgt'" "sr_anchor tgt' = sr_anchor tgt" "target_ok c tgt'"
      "get_meta tgt' ''acc'' ACC_IDENTITY = an_acc_state (sb_anchors sb)"
    using download_installs[OF assms(1,2,4-7) assms(9,10)[unfolded assms(8)] assms(11-13)] unfolding assms(8) by blast
  have mset: "mset (db_live tgt') = mset (db_live src)" using t(2) by (simp add: holds_checkpoint_def)
  have "db_ok c tgt'" if "an_acc_state (sb_anchors sb) = acc_sum c (db_live src)"
    using t(4,5) that acc_sum_mset[OF assms(3) mset] assms(4) arg_cong[OF mset, of set_mset]
    by (auto simp: db_ok_def target_ok_def exportable_def)
  moreover have "\<exists>roster. endorsed c roster (kp_public c master) sb"
    if "rbind (check_installed c cache meta tgt') (\<lambda>(fault, _). Inr (fault = None)) = Inr True"
    using installed_and_endorsed[of sb meta c cache tgt'] that assms(5) by (simp add: assms(8) cm_create_def pivot_ok_def)
  ultimately show ?thesis using t(1-3) by blast
qed

text \<open>
  C34: A checkpoint that nobody settled replaces the state all the same. When the settled block of the
  certificate carries no signature at all, the download from the holder of the compactor grant is not
  recorded as a success, but by then the transaction has committed: the rows, the log and the
  chain that the node held are gone and it shows the rows, root, height and head block the compactor made
  up.
\<close>

theorem unsigned_checkpoint_replaces_state:
  assumes "digest_width c" "sign_correct c" "exportable c budget src" "pivot_ok c sb src" "0 < batch" "in_range batch"
    "meta = cm_create c (sb_encode sb) (kp_public c master) cmp (sign_grant c master (kp_public c cmp) COMPACTOR)" "cm_ok meta"
    "create_and_persist c meta budget batch src = Inr (srv, src')" "replica_authorised c src' me = Inr True"
    "sr_anchor tgt = Inr (kp_public c master)" "length (db_live src) < fuel" "ms_sigs (sb_multisig sb) = []"
  shows "\<exists>out tgt'. do_download c (\<lambda>_. True) (served c srv src' me) fuel [peer] k cache tgt = Some (out, tgt') \<and>
    out \<noteq> Inr True \<and> holds_checkpoint c sb src tgt'"
proof -
  obtain tgt' where t: "do_download c (\<lambda>_. True) (served c srv src' me) fuel [peer] k cache tgt =
      Some (rbind (check_installed c cache meta tgt') (\<lambda>(fault, _). Inr (fault = None)), tgt')" "holds_checkpoint c sb src tgt'"
    using download_installs[OF assms(1-6) assms(8,9)[unfolded assms(7)] assms(10-12)] unfolding assms(7) by blast
  have "rbind (check_installed c cache meta tgt') (\<lambda>(fault, _). Inr (fault = None)) \<noteq> Inr True"
    using installed_and_endorsed[of sb meta c cache tgt'] unsigned_not_endorsed[OF assms(13)] assms(4)
    by (auto simp: assms(7) cm_create_def pivot_ok_def)
  then show ?thesis using t by blast
qed

section \<open>A checkpoint of the sample store\<close>

definition seat_pivot :: "MultiSig \<Rightarrow> SettledBlock" where
  "seat_pivot ms = \<lparr>sb_block = \<lparr>bl_bucket = 4, bl_hashes = []\<rparr>, sb_anchors = seat_anchors, sb_multisig = ms\<rparr>"

definition seat_meta :: "MultiSig \<Rightarrow> CheckpointMeta" where
  "seat_meta ms = cm_create seat_prims (sb_encode (seat_pivot ms)) (kp_public seat_prims [1]) [2]
     (sign_grant seat_prims [1] (kp_public seat_prims [2]) COMPACTOR)"

definition few_sigs :: "MultiSig \<Rightarrow> bool" where
  "few_sigs ms \<longleftrightarrow> length (ms_bitmap ms) \<le> 1 \<and> (ms_sigs ms = [] \<or> (\<exists>s. ms_sigs ms = [s] \<and> length s = 64))"

lemma seat_anchor_lengths: "length (an_prev_block seat_anchors) = 32" "length (an_state_root seat_anchors) = 32"
    "length (an_acc_state seat_anchors) = 32" "length (an_acc_log seat_anchors) = 32" "an_block_num seat_anchors = 1" "an_height seat_anchors = 0"
  using seat_anchors_ok by (simp_all add: anchors_ok_def) (simp_all add: seat_anchors_def)

lemma seat_pivot_sizes:
  assumes "few_sigs ms"
  shows "length (identity_bytes (seat_pivot ms)) < 200" "length (sb_encode (seat_pivot ms)) < 300"
proof -
  show id: "length (identity_bytes (seat_pivot ms)) < 200"
    using seat_anchor_lengths
    by (simp add: identity_bytes_def identity_bval_def anchors_fields_def seat_pivot_def bytes_seq_def hashes_canonical_def benc.simps
      encode_bytes_def int_ascii_def nat_ascii.simps)
  have idl: "length (nat_ascii (length (identity_bytes (seat_pivot ms)))) \<le> 3"
    using length_nat_ascii_pow[of "length (identity_bytes (seat_pivot ms))" 2] id by simp
  have bm: "length (nat_ascii (length (ms_bitmap ms))) \<le> 2"
    using length_nat_ascii_le[of "length (ms_bitmap ms)"] assms by (simp add: few_sigs_def)
  have split: "length (sb_encode (seat_pivot ms)) = length (encode_bytes (identity_bytes (seat_pivot ms))) + length (encode_bytes (ms_bitmap ms)) +
      length (benc (bytes_seq (ms_sigs ms))) + 2"
    by (simp add: sb_encode_def sb_bval_def benc.simps seat_pivot_def)
  have enc: "length (encode_bytes x) = length (nat_ascii (length x)) + 1 + length x" for x
    by (simp add: encode_bytes_def int_ascii_def)
  have sigs: "length (benc (bytes_seq (ms_sigs ms))) \<le> 70"
    using assms by (auto simp: few_sigs_def bytes_seq_def benc.simps encode_bytes_def int_ascii_def nat_ascii.simps)
  show "length (sb_encode (seat_pivot ms)) < 300"
    using split enc[of "identity_bytes (seat_pivot ms)"] enc[of "ms_bitmap ms"] id idl bm sigs assms by (simp add: few_sigs_def)
qed

lemma seat_pivot_ok: "few_sigs ms \<Longrightarrow> pivot_ok seat_prims (seat_pivot ms) db_seat"
proof -
  assume few: "few_sigs ms"
  have "sb_ok (seat_pivot ms)"
    using seat_anchors_ok seat_anchor_lengths few seat_pivot_sizes(1)[OF few]
    by (auto simp: sb_ok_def identity_bval_def sb_bval_def small_bval bytes_seq_def anchors_fields_def few_sigs_def)
      (simp_all add: seat_pivot_def hashes_canonical_def small_bval seat_anchor_lengths seat_anchors_ok)
  moreover have "sr_state_root seat_prims db_seat = Inr (node_hash seat_prims seat_live (replicate 32 0) 0)"
    using hash_under_node_hash[OF seat_laws(1), of seat_live Map.empty "replicate 32 0" 0 False] seat_table
    by (auto simp: sr_state_root_def tree_root_def table_ok_def seat_sel DIGEST_SIZE_def)
  ultimately show ?thesis
    using seat_anchor_lengths by (simp add: pivot_ok_def in_range_def) (simp add: seat_pivot_def seat_anchors_def)
qed

lemma seat_meta_ok: "few_sigs ms \<Longrightarrow> cm_ok (seat_meta ms)"
proof -
  assume few: "few_sigs ms"
  let ?ct = "sign_grant seat_prims [1] (kp_public seat_prims [2]) COMPACTOR"
  have len: "length (ct_signer ?ct) = 32" "length (ct_sig ?ct) = 64" "length (ct_subject ?ct) = 32" "length (ct_purpose ?ct) = 9"
    by (simp_all add: sign_grant_def cert_sign_def seat_public seat_sig)
  have "cert_ok ?ct" using len by (simp add: cert_ok_def cert_bval_def small_bval)
  moreover have "length (cert_encode ?ct) < 300"
    using len by (simp add: cert_encode_def cert_bval_def benc.simps encode_bytes_def int_ascii_def nat_ascii.simps)
  ultimately show ?thesis
    using seat_pivot_sizes(2)[OF few]
    by (simp add: cm_ok_def seat_meta_def cm_create_def seat_public seat_sig cm_bval_def small_bval)
qed

lemma seat_row_sizes:
  assumes "r \<in> set seat_live"
  shows "length (lr_name r) < 50" "length (lr_value r) < 500" "0 < length (lr_value r)" "lr_cred r = []" "lr_store r = 0" "lr_epoch r = 0"
proof -
  have "length (nat_ascii (length (nr_encode_row (seat_record seat_prims)))) \<le> 3"
    using length_nat_ascii_pow[of "length (nr_encode_row (seat_record seat_prims))" 2] seat_cert(3) by simp
  then have v: "length (entry_encode 0 (nr_encode_row (seat_record seat_prims))) < 500" "0 < length (entry_encode 0 (nr_encode_row (seat_record seat_prims)))"
    using seat_cert(3) by (simp_all add: entry_encode_def benc.simps encode_bytes_def int_ascii_def nat_ascii.simps)
  have w: "length (meta_encode 1 ACC_IDENTITY) < 500" "0 < length (meta_encode 1 ACC_IDENTITY)"
    using length_ACC_IDENTITY by (simp_all add: meta_encode_def benc.simps encode_bytes_def int_ascii_def nat_ascii.simps)
  show "length (lr_name r) < 50" "length (lr_value r) < 500" "0 < length (lr_value r)" "lr_cred r = []" "lr_store r = 0" "lr_epoch r = 0"
    using assms v w by (auto simp: seat_live_def seat_rows_def mk_row_def meta_name_def entry_name_def P_NODE_def sole_seed_def)
qed

lemma seat_row_bytes:
  assumes "r \<in> set seat_live"
  shows "length (benc (row_bval (path_row r))) < 600"
proof -
  note sz = seat_row_sizes[OF assms]
  have "length (nat_ascii (length (lr_name r))) \<le> 3" "length (nat_ascii (length (lr_value r))) \<le> 3"
    using length_nat_ascii_pow[of "length (lr_name r)" 2] length_nat_ascii_pow[of "length (lr_value r)" 2] sz by simp_all
  then show ?thesis using sz by (simp add: row_bval_def path_row_def benc.simps encode_bytes_def int_ascii_def nat_ascii.simps)
qed

lemma seat_chunk_ok:
  assumes "honest_chunk seat_prims seat_live ch"
  shows "chunk_ok ch"
proof -
  obtain p d where ch: "length p = 32" "d \<le> 256" "ch = \<lparr>ck_depth = int d, ck_prefix = p,
      ck_subtree_hash = node_hash seat_prims seat_live p d, ck_rows = map path_row (sort_key lr_path (subtree seat_live p d))\<rparr>"
    using assms by (auto simp: honest_chunk_def)
  let ?rs = "sort_key lr_path (subtree seat_live p d)"
  have rs: "set ?rs \<subseteq> set seat_live" "length ?rs \<le> 3"
    using length_filter_le[of _ seat_live] by (auto simp: subtree_def seat_live_def seat_rows_def)
  have hash: "length (node_hash seat_prims seat_live p d) = 32" by (rule length_node_hash[OF seat_laws(1)])
  have "sum_list (map (\<lambda>r. length (benc (row_bval (path_row r)))) rs) \<le> 600 * length rs" if "set rs \<subseteq> set seat_live" for rs
    using that by (induction rs) (use seat_row_bytes in \<open>auto simp: less_imp_le add_mono\<close>)
  from this[OF rs(1)] have rows: "sum_list (map (\<lambda>r. length (benc (row_bval (path_row r)))) ?rs) \<le> 1800" using rs(2) by linarith
  have "length (nat_ascii d) \<le> 3" using length_nat_ascii_pow[of d 2] ch(2) by simp
  then have "length (encode_chunk ch) < 4096"
    using rows ch(1) hash
    by (simp add: encode_chunk_def chunk_bval_def ch(3) benc.simps encode_bytes_def int_ascii_def nat_ascii.simps length_concat comp_def)
  moreover have "bencodable (chunk_bval ch)"
  proof -
    have "bvalid (row_bval (path_row r)) \<and> bdepth (row_bval (path_row r)) = 1" if "r \<in> set ?rs" for r
      using seat_row_sizes[of r] rs(1) that by (auto simp: row_bval_def path_row_def small_int_digits bdepth.simps)
    then have "bvalid (chunk_bval ch) \<and> (\<forall>v \<in> set (map row_bval (ck_rows ch)). bdepth v \<le> 1)"
      using ch hash by (auto simp: chunk_bval_def list_all_iff small_int_digits)
    then show ?thesis
      unfolding bencodable_def chunk_bval_def MAX_DEPTH_codec_def
      using bdepth_BSeq_le[of 0 _ 64] by (auto simp: bdepth_BSeq_le[of 0 _ 64, simplified] bdepth_BSeq_le[of 1 _ 64, simplified])
  qed
  ultimately show ?thesis using ch(3) hash by (simp add: chunk_ok_def small_int_digits DIGEST_SIZE_def)
qed

lemma seat_exportable: "exportable seat_prims budget db_seat"
proof -
  have data: "\<forall>r \<in> set (db_live (snd (seat_prims, db_seat))). 0 < row_data r" using seat_row_sizes by (auto simp: row_data_def seat_sel)
  have ok: "source_ok (seat_prims, db_seat)" using seat_laws(1) seat_table by (simp add: source_ok_def seat_sel)
  obtain chs where chs: "tree_chunks (store_source seat_prims db_seat) budget = Inr chs" "\<forall>ch \<in> set chs. honest_chunk seat_prims seat_live ch"
    using reader.walk_partitions[OF ok data, of "replicate 32 0" 0 budget]
    by (auto simp: tree_chunks_def DIGEST_SIZE_def seat_sel has_signer_def index_in_path)
  have few: "int (length (db_live db_seat)) < 2 ^ 63" by (simp add: seat_sel seat_live_def seat_rows_def)
  have "\<forall>r \<in> set (db_live db_seat). in_range (lr_epoch r) \<and> 0 < row_data r"
    using data seat_row_sizes(6) by (auto simp: seat_sel in_range_def)
  moreover have "\<forall>ch \<in> set chs. chunk_ok ch" using chs(2) seat_chunk_ok by blast
  ultimately show ?thesis unfolding exportable_def using seat_db_ok few chs(1) by simp
qed

lemma seat_serves:
  obtains srv src' where "create_and_persist seat_prims (seat_meta ms) 100 2 db_seat = Inr (srv, src')"
    "replica_authorised seat_prims src' (kp_public seat_prims [1]) = Inr True"
proof -
  obtain chs where chs: "tree_chunks (store_source seat_prims db_seat) 100 = Inr chs"
    by (rule export_chunks[OF seat_laws(1) seat_exportable])
  have "length (kp_public seat_prims [1]) = 32" "kp_public seat_prims [1] \<noteq> []" by (auto simp: seat_public simp flip: length_greater_0_conv)
  then have "replica_authorised seat_prims (persist_checkpoint seat_prims (cm_encode (seat_meta ms)) (map encode_chunk chs) db_seat)
      (kp_public seat_prims [1]) = Inr True"
    using seat_sel(5)
    by (simp add: replica_authorised_def sr_anchor_def persist_checkpoint_def set_meta_def get_meta_def fixed_def split: option.splits)
  then show thesis using that chs by (simp add: create_and_persist_def Let_def)
qed

definition seat_blank :: Db where
  "seat_blank = set_meta ''anchor'' (kp_public seat_prims [1]) db_empty"

lemma seat_blank_anchor: "sr_anchor seat_blank = Inr (kp_public seat_prims [1])"
proof -
  have "length (kp_public seat_prims [1]) = 32" by (simp add: seat_public)
  then show ?thesis by (auto simp: sr_anchor_def seat_blank_def get_meta_def set_meta_def fixed_def Let_def)
qed

theorem checkpoint_replicates_state_witness:
  "\<exists>srv src' out tgt'. create_and_persist seat_prims (seat_meta \<lparr>ms_bitmap = [128], ms_sigs = [kp_sign seat_prims sole_seed []]\<rparr>) 100 2 db_seat = Inr (srv, src') \<and>
     do_download seat_prims (\<lambda>_. True) (served seat_prims srv src' (kp_public seat_prims [1])) 4 [sole_seed] 0 \<lparr>rch_roster = None, rch_serial = None\<rparr> seat_blank = Some (out, tgt') \<and>
     mset (db_live tgt') = mset seat_live \<and> db_ok seat_prims tgt' \<and> sr_head_block_num tgt' = Some 1"
proof -
  let ?ms = "\<lparr>ms_bitmap = [128], ms_sigs = [kp_sign seat_prims sole_seed []]\<rparr>"
  have few: "few_sigs ?ms" by (simp add: few_sigs_def seat_sig)
  obtain srv src' where s: "create_and_persist seat_prims (seat_meta ?ms) 100 2 db_seat = Inr (srv, src')"
      "replica_authorised seat_prims src' (kp_public seat_prims [1]) = Inr True" by (rule seat_serves)
  have "length (db_live db_seat) < 4" "in_range 2" by (simp_all add: seat_sel seat_live_def seat_rows_def in_range_def)
  from checkpoint_replicates_state[OF seat_laws seat_exportable seat_pivot_ok[OF few] _ this(2) seat_meta_def seat_meta_ok[OF few] s
      seat_blank_anchor this(1), of sole_seed 0 "\<lparr>rch_roster = None, rch_serial = None\<rparr>"] s(1)
  show ?thesis by (auto simp: holds_checkpoint_def seat_sel) (auto simp: seat_pivot_def seat_anchors_def)
qed

theorem unsigned_checkpoint_replaces_state_witness:
  "\<exists>srv src' out tgt'. create_and_persist seat_prims (seat_meta \<lparr>ms_bitmap = [], ms_sigs = []\<rparr>) 100 2 db_seat = Inr (srv, src') \<and>
     do_download seat_prims (\<lambda>_. True) (served seat_prims srv src' (kp_public seat_prims [1])) 4 [sole_seed] 0 \<lparr>rch_roster = None, rch_serial = None\<rparr> seat_blank = Some (out, tgt') \<and>
     out \<noteq> Inr True \<and> mset (db_live tgt') = mset seat_live"
proof -
  let ?ms = "\<lparr>ms_bitmap = [], ms_sigs = []\<rparr>"
  have few: "few_sigs ?ms" "ms_sigs (sb_multisig (seat_pivot ?ms)) = []" by (simp_all add: few_sigs_def seat_pivot_def)
  obtain srv src' where s: "create_and_persist seat_prims (seat_meta ?ms) 100 2 db_seat = Inr (srv, src')"
      "replica_authorised seat_prims src' (kp_public seat_prims [1]) = Inr True" by (rule seat_serves)
  have "length (db_live db_seat) < 4" "in_range 2" by (simp_all add: seat_sel seat_live_def seat_rows_def in_range_def)
  from unsigned_checkpoint_replaces_state[OF seat_laws(1,2) seat_exportable seat_pivot_ok[OF few(1)] _ this(2) seat_meta_def seat_meta_ok[OF few(1)] s
      seat_blank_anchor this(1) few(2), of sole_seed 0 "\<lparr>rch_roster = None, rch_serial = None\<rparr>"] s(1)
  show ?thesis by (auto simp: holds_checkpoint_def seat_sel)
qed

end
