(* ===== verification/Lite_Adapter.thy ===== *)
theory Lite_Adapter
  imports Sync_Adapter
begin

text \<open>
  \<^verbatim>\<open>dude/sync/lite_adapter.py\<close>: the messages of the light clients and their wire forms. A
  message class is a record, and \<open>LiteMsg\<close> is their union; each encoder and decoder is the method
  of its class, with the errors it converts and those it lets through.
\<close>

section \<open>Records inside the messages\<close>

record RosterBundle =
  rb_commitment_serial :: int
  rb_commitment_members :: "public_key list"
  rb_commitment_cert :: Cert
  rb_entries :: "NodeRecord list"
  rb_managers :: "Grant list"

definition bundle_bval :: "RosterBundle \<Rightarrow> bval" where
  "bundle_bval b = BSeq [BInt (rb_commitment_serial b), bytes_seq (sort (rb_commitment_members b)),
     BBytes (cert_encode (rb_commitment_cert b)), bytes_seq (map nr_encode (rb_entries b)),
     bytes_seq (map grant_encode (rb_managers b))]"

definition bundle_encode :: "RosterBundle \<Rightarrow> bytes" where
  "bundle_encode b = benc (bundle_bval b)"

definition bundle_decode :: "bytes \<Rightarrow> RosterBundle res" where
  "bundle_decode raw =
     rewrap is_dude_error LiteAdapterError
       (rbind (decode_seq raw (Some 5)) (\<lambda>p.
        rbind (as_int (p ! 0)) (\<lambda>serial.
        rbind (rbind (as_seq (p ! 1) None) (mapM (\<lambda>m. rbind (as_bytes m) PublicKey))) (\<lambda>members.
        rbind (rbind (as_bytes (p ! 2)) cert_decode) (\<lambda>ct.
        rbind (rbind (as_seq (p ! 3) None) (mapM (\<lambda>e. rbind (as_bytes e) nr_decode))) (\<lambda>entries.
        rbind (rbind (as_seq (p ! 4) None) (mapM (\<lambda>g. rbind (as_bytes g) grant_decode))) (\<lambda>managers.
        Inr \<lparr>rb_commitment_serial = serial, rb_commitment_members = members, rb_commitment_cert = ct,
             rb_entries = entries, rb_managers = managers\<rparr>)))))))"

record TrustedBlock =
  tb_block_num :: int
  tb_block_hash :: digest

definition tb_encode :: "TrustedBlock \<Rightarrow> bytes" where
  "tb_encode t = benc (BSeq [BInt (tb_block_num t), BBytes (tb_block_hash t)])"

definition tb_decode :: "bytes \<Rightarrow> TrustedBlock res" where
  "tb_decode raw =
     rbind (decode_seq raw (Some 2)) (\<lambda>p.
     rbind (as_int (p ! 0)) (\<lambda>n.
     rbind (rbind (as_bytes (p ! 1)) Digest) (\<lambda>d. Inr \<lparr>tb_block_num = n, tb_block_hash = d\<rparr>)))"

definition tb_encode_optional :: "TrustedBlock option \<Rightarrow> bytes" where
  "tb_encode_optional t = (case t of None \<Rightarrow> [] | Some x \<Rightarrow> tb_encode x)"

definition tb_decode_optional :: "bytes \<Rightarrow> TrustedBlock option res" where
  "tb_decode_optional raw = (if raw = [] then Inr None else rbind (tb_decode raw) (\<lambda>t. Inr (Some t)))"

text \<open>\<^verbatim>\<open>x or b""\<close> and \<^verbatim>\<open>crypto.Digest(raw) if raw else None\<close>.\<close>

definition fp_raw :: "digest option \<Rightarrow> bytes" where
  "fp_raw fp = (case fp of None \<Rightarrow> [] | Some d \<Rightarrow> d)"

definition fp_of :: "bytes \<Rightarrow> digest option res" where
  "fp_of raw = (if raw = [] then Inr None else rbind (Digest raw) (\<lambda>d. Inr (Some d)))"

definition bundle_raw :: "RosterBundle option \<Rightarrow> bytes" where
  "bundle_raw b = (case b of None \<Rightarrow> [] | Some x \<Rightarrow> bundle_encode x)"

definition bundle_of :: "bytes \<Rightarrow> RosterBundle option res" where
  "bundle_of raw = (if raw = [] then Inr None else rbind (bundle_decode raw) (\<lambda>b. Inr (Some b)))"

definition headers_of :: "bval \<Rightarrow> SettledBlock list res" where
  "headers_of v = rbind (as_seq v None) (mapM (\<lambda>x. rbind (as_bytes x) sb_decode))"

section \<open>The messages\<close>

record GetAnchors =
  ga_known_roster_fingerprint :: "digest option"
  ga_known_trusted_block :: "TrustedBlock option"

record AnchorsReply =
  ar_head :: SettledBlock
  ar_roster_fingerprint :: digest
  ar_bundle :: "RosterBundle option"
  ar_headers :: "SettledBlock list"

record GetProof =
  gp_store_id :: int
  gp_name :: bytes
  gp_block_num :: int
  gp_known_roster_fingerprint :: "digest option"
  gp_known_trusted_block :: "TrustedBlock option"

definition ABSENT_MARKER :: bytes where "ABSENT_MARKER = []"

record ProofReply =
  pp_name :: bytes
  pp_value :: bytes
  pp_credential :: bytes
  pp_absent :: bool
  pp_proof :: bytes
  pp_epoch :: int
  pp_head :: SettledBlock
  pp_roster_fingerprint :: digest
  pp_bundle :: "RosterBundle option"
  pp_headers :: "SettledBlock list"

record CountPrefix =
  cp_store_id :: int
  cp_prefix :: bytes

record NthPrefix =
  np_store_id :: int
  np_prefix :: bytes
  np_n :: int
  np_descending :: bool
  np_block_num :: int
  np_known_roster_fingerprint :: "digest option"
  np_known_trusted_block :: "TrustedBlock option"

datatype LiteMsg =
    LGetAnchors GetAnchors
  | LAnchorsReply AnchorsReply
  | LGetProof GetProof
  | LProofReply ProofReply
  | LiteRefused SyncRefusedReason
  | LTxStatus digest
  | LCountPrefix CountPrefix
  | LCountPrefixReply int
  | LNthPrefix NthPrefix

fun lite_verb :: "LiteMsg \<Rightarrow> Verb" where
  "lite_verb (LGetAnchors _) = V_GET_ANCHORS"
| "lite_verb (LAnchorsReply _) = V_ANCHORS_REPLY"
| "lite_verb (LGetProof _) = V_GET_PROOF"
| "lite_verb (LProofReply _) = V_PROOF_REPLY"
| "lite_verb (LiteRefused _) = V_LITE_REFUSED"
| "lite_verb (LTxStatus _) = V_TX_STATUS"
| "lite_verb (LCountPrefix _) = V_COUNT_PREFIX"
| "lite_verb (LCountPrefixReply _) = V_COUNT_PREFIX_REPLY"
| "lite_verb (LNthPrefix _) = V_NTH_PREFIX"

definition flag :: "bool \<Rightarrow> bval" where
  "flag b = BInt (if b then 1 else 0)"

definition get_anchors_bval :: "GetAnchors \<Rightarrow> bval" where
  "get_anchors_bval m = BSeq [BBytes (fp_raw (ga_known_roster_fingerprint m)), BBytes (tb_encode_optional (ga_known_trusted_block m))]"

definition anchors_reply_bval :: "AnchorsReply \<Rightarrow> bval" where
  "anchors_reply_bval m = BSeq [BBytes (sb_encode (ar_head m)), BBytes (ar_roster_fingerprint m), BBytes (bundle_raw (ar_bundle m)),
     bytes_seq (map sb_encode (ar_headers m))]"

definition get_proof_bval :: "GetProof \<Rightarrow> bval" where
  "get_proof_bval m = BSeq [BInt (gp_store_id m), BBytes (gp_name m), BInt (gp_block_num m),
     BBytes (fp_raw (gp_known_roster_fingerprint m)), BBytes (tb_encode_optional (gp_known_trusted_block m))]"

definition proof_reply_bval :: "ProofReply \<Rightarrow> bval" where
  "proof_reply_bval m = BSeq [BBytes (pp_name m), BBytes (pp_value m), BBytes (pp_credential m), flag (pp_absent m),
     BBytes (pp_proof m), BInt (pp_epoch m), BBytes (sb_encode (pp_head m)), BBytes (pp_roster_fingerprint m),
     BBytes (bundle_raw (pp_bundle m)), bytes_seq (map sb_encode (pp_headers m))]"

definition count_prefix_bval :: "CountPrefix \<Rightarrow> bval" where
  "count_prefix_bval m = BSeq [BInt (cp_store_id m), BBytes (cp_prefix m)]"

definition nth_prefix_bval :: "NthPrefix \<Rightarrow> bval" where
  "nth_prefix_bval m = BSeq [BInt (np_store_id m), BBytes (np_prefix m), BInt (np_n m), flag (np_descending m), BInt (np_block_num m),
     BBytes (fp_raw (np_known_roster_fingerprint m)), BBytes (tb_encode_optional (np_known_trusted_block m))]"

fun lite_encode_inner :: "LiteMsg \<Rightarrow> bytes" where
  "lite_encode_inner (LGetAnchors m) = benc (get_anchors_bval m)"
| "lite_encode_inner (LAnchorsReply m) = benc (anchors_reply_bval m)"
| "lite_encode_inner (LGetProof m) = benc (get_proof_bval m)"
| "lite_encode_inner (LProofReply m) = benc (proof_reply_bval m)"
| "lite_encode_inner (LiteRefused reason) = reason_value reason"
| "lite_encode_inner (LTxStatus oph) = benc (BSeq [BBytes oph])"
| "lite_encode_inner (LCountPrefix m) = benc (count_prefix_bval m)"
| "lite_encode_inner (LCountPrefixReply n) = benc (BSeq [BInt n])"
| "lite_encode_inner (LNthPrefix m) = benc (nth_prefix_bval m)"

text \<open>The fingerprint of \<^verbatim>\<open>GET_ANCHORS\<close> is checked outside the \<^verbatim>\<open>try\<close>.\<close>

definition get_anchors_decode :: "bytes \<Rightarrow> LiteMsg res" where
  "get_anchors_decode body =
     rbind (rewrap is_dude_error LiteAdapterError
       (rbind (decode_seq body (Some 2)) (\<lambda>p.
        rbind (as_bytes (p ! 0)) (\<lambda>raw.
        rbind (rbind (as_bytes (p ! 1)) tb_decode_optional) (\<lambda>trusted. Inr (raw, trusted)))))) (\<lambda>(raw, trusted).
     rbind (fp_of raw) (\<lambda>fp.
     Inr (LGetAnchors \<lparr>ga_known_roster_fingerprint = fp, ga_known_trusted_block = trusted\<rparr>)))"

definition anchors_reply_decode :: "bytes \<Rightarrow> LiteMsg res" where
  "anchors_reply_decode body =
     rewrap is_dude_error LiteAdapterError
       (rbind (decode_seq body (Some 4)) (\<lambda>p.
        rbind (rbind (as_bytes (p ! 0)) sb_decode) (\<lambda>hd.
        rbind (rbind (as_bytes (p ! 1)) Digest) (\<lambda>fp.
        rbind (rbind (as_bytes (p ! 2)) bundle_of) (\<lambda>bundle.
        rbind (headers_of (p ! 3)) (\<lambda>headers.
        Inr (LAnchorsReply \<lparr>ar_head = hd, ar_roster_fingerprint = fp, ar_bundle = bundle, ar_headers = headers\<rparr>)))))))"

definition get_proof_decode :: "bytes \<Rightarrow> LiteMsg res" where
  "get_proof_decode body =
     rewrap is_dude_error LiteAdapterError
       (rbind (decode_seq body (Some 5)) (\<lambda>p.
        rbind (as_bytes (p ! 3)) (\<lambda>raw.
        rbind (rbind (as_bytes (p ! 4)) tb_decode_optional) (\<lambda>trusted.
        rbind (as_int (p ! 0)) (\<lambda>st.
        rbind (as_bytes (p ! 1)) (\<lambda>nm.
        rbind (as_int (p ! 2)) (\<lambda>n.
        rbind (fp_of raw) (\<lambda>fp.
        Inr (LGetProof \<lparr>gp_store_id = st, gp_name = nm, gp_block_num = n, gp_known_roster_fingerprint = fp,
          gp_known_trusted_block = trusted\<rparr>)))))))))"

definition proof_reply_decode :: "bytes \<Rightarrow> LiteMsg res" where
  "proof_reply_decode body =
     rewrap is_dude_error LiteAdapterError
       (rbind (decode_seq body (Some 10)) (\<lambda>p.
        rbind (rbind (as_bytes (p ! 6)) sb_decode) (\<lambda>hd.
        rbind (rbind (as_bytes (p ! 7)) Digest) (\<lambda>fp.
        rbind (rbind (as_bytes (p ! 8)) bundle_of) (\<lambda>bundle.
        rbind (headers_of (p ! 9)) (\<lambda>headers.
        rbind (as_bytes (p ! 0)) (\<lambda>nm.
        rbind (as_bytes (p ! 1)) (\<lambda>v.
        rbind (as_bytes (p ! 2)) (\<lambda>cr.
        rbind (as_int (p ! 3)) (\<lambda>ab.
        rbind (as_bytes (p ! 4)) (\<lambda>pf.
        rbind (as_int (p ! 5)) (\<lambda>ep.
        Inr (LProofReply \<lparr>pp_name = nm, pp_value = v, pp_credential = cr, pp_absent = (ab = 1), pp_proof = pf, pp_epoch = ep,
          pp_head = hd, pp_roster_fingerprint = fp, pp_bundle = bundle, pp_headers = headers\<rparr>)))))))))))))"

definition lite_refused_decode :: "bytes \<Rightarrow> LiteMsg res" where
  "lite_refused_decode body = rewrap (\<lambda>e. e = ValueError) LiteAdapterError (rbind (reason_of body) (\<lambda>r. Inr (LiteRefused r)))"

definition tx_status_decode :: "bytes \<Rightarrow> LiteMsg res" where
  "tx_status_decode body =
     rewrap (\<lambda>e. is_dude_error e \<or> e = ValueError) LiteAdapterError
       (rbind (decode_seq body (Some 1)) (\<lambda>p. rbind (rbind (as_bytes (p ! 0)) Digest) (\<lambda>d. Inr (LTxStatus d))))"

definition count_prefix_decode :: "bytes \<Rightarrow> LiteMsg res" where
  "count_prefix_decode body =
     rewrap is_dude_error LiteAdapterError
       (rbind (decode_seq body (Some 2)) (\<lambda>p.
        rbind (as_int (p ! 0)) (\<lambda>st.
        rbind (as_bytes (p ! 1)) (\<lambda>pfx. Inr (LCountPrefix \<lparr>cp_store_id = st, cp_prefix = pfx\<rparr>)))))"

definition count_prefix_reply_decode :: "bytes \<Rightarrow> LiteMsg res" where
  "count_prefix_reply_decode body =
     rewrap is_dude_error LiteAdapterError
       (rbind (decode_seq body (Some 1)) (\<lambda>p. rbind (as_int (p ! 0)) (\<lambda>n. Inr (LCountPrefixReply n))))"

definition nth_prefix_decode :: "bytes \<Rightarrow> LiteMsg res" where
  "nth_prefix_decode body =
     rewrap is_dude_error LiteAdapterError
       (rbind (decode_seq body (Some 7)) (\<lambda>p.
        rbind (as_bytes (p ! 5)) (\<lambda>raw.
        rbind (rbind (as_bytes (p ! 6)) tb_decode_optional) (\<lambda>trusted.
        rbind (as_int (p ! 0)) (\<lambda>st.
        rbind (as_bytes (p ! 1)) (\<lambda>pfx.
        rbind (as_int (p ! 2)) (\<lambda>n.
        rbind (as_int (p ! 3)) (\<lambda>desc.
        rbind (as_int (p ! 4)) (\<lambda>b.
        rbind (fp_of raw) (\<lambda>fp.
        Inr (LNthPrefix \<lparr>np_store_id = st, np_prefix = pfx, np_n = n, np_descending = (desc = 1), np_block_num = b,
          np_known_roster_fingerprint = fp, np_known_trusted_block = trusted\<rparr>)))))))))))"

fun lite_decode :: "Verb \<Rightarrow> bytes \<Rightarrow> LiteMsg res" where
  "lite_decode V_GET_ANCHORS body = get_anchors_decode body"
| "lite_decode V_ANCHORS_REPLY body = anchors_reply_decode body"
| "lite_decode V_GET_PROOF body = get_proof_decode body"
| "lite_decode V_PROOF_REPLY body = proof_reply_decode body"
| "lite_decode V_LITE_REFUSED body = lite_refused_decode body"
| "lite_decode V_TX_STATUS body = tx_status_decode body"
| "lite_decode V_COUNT_PREFIX body = count_prefix_decode body"
| "lite_decode V_COUNT_PREFIX_REPLY body = count_prefix_reply_decode body"
| "lite_decode V_NTH_PREFIX body = nth_prefix_decode body"
| "lite_decode _ body = Inl LiteAdapterError"

section \<open>Round trips\<close>

definition nr_ok :: "NodeRecord \<Rightarrow> bool" where
  "nr_ok r \<longleftrightarrow> length (nr_identity r) = KEY_SIZE \<and> (\<forall>e \<in> set (nr_endpoints r). endpoint_ok e) \<and>
     sorted (map endpoint_encode (nr_endpoints r)) \<and> finite (nr_domains r) \<and> cert_ok (nr_cert r) \<and>
     bencodable (BSeq (BBytes (nr_identity r) # nr_fields r))"

interpretation nr_wire: wire nr_encode nr_decode nr_ok
proof
  fix r :: NodeRecord assume ok: "nr_ok r"
  have eps: "mapM (\<lambda>e. rbind (as_bytes e) endpoint_parse) (map BBytes (map endpoint_encode (nr_endpoints r))) = Inr (nr_endpoints r)"
    using ok by (simp add: nr_ok_def endpoint_wire.dec_enc comp_def)
  have "sort (map endpoint_encode (nr_endpoints r)) = map endpoint_encode (nr_endpoints r)"
    using ok by (simp add: nr_ok_def sorted_sort_id)
  then have "nr_of_fields (nr_identity r) (nr_fields r) = Inr r"
    using ok eps by (simp add: nr_of_fields_def nr_fields_def bytes_seq_def nr_ok_def cert_wire.dec_enc)
  then show "nr_decode (nr_encode r) = Inr r"
    using ok by (simp add: nr_decode_def nr_encode_def nr_ok_def) (simp add: nr_fields_def)
qed

definition grant_ok :: "Grant \<Rightarrow> bool" where
  "grant_ok g \<longleftrightarrow> length (gr_identity g) = KEY_SIZE \<and> finite (gr_stores g) \<and> finite (gr_kinds g) \<and> cert_ok (gr_cert g) \<and>
     bencodable (BSeq (BBytes (gr_identity g) # grant_fields g))"

interpretation grant_wire: wire grant_encode grant_decode grant_ok
proof
  fix g :: Grant assume ok: "grant_ok g"
  have role: "role_of (role_value r) = Inr r" for r by (cases r) (simp_all add: role_of_def)
  have "grant_of_fields (gr_identity g) (grant_fields g) = Inr g"
    using ok by (simp add: grant_of_fields_def grant_fields_def ints_seq_def grant_ok_def cert_wire.dec_enc role)
  then show "grant_decode (grant_encode g) = Inr g"
    using ok by (simp add: grant_decode_def grant_encode_def grant_ok_def) (simp add: grant_fields_def)
qed

definition bundle_ok :: "RosterBundle \<Rightarrow> bool" where
  "bundle_ok b \<longleftrightarrow> sorted (rb_commitment_members b) \<and> (\<forall>m \<in> set (rb_commitment_members b). length m = KEY_SIZE) \<and>
     cert_ok (rb_commitment_cert b) \<and> (\<forall>r \<in> set (rb_entries b). nr_ok r) \<and> (\<forall>g \<in> set (rb_managers b). grant_ok g) \<and>
     bencodable (bundle_bval b)"

interpretation bundle_wire: wire bundle_encode bundle_decode bundle_ok
proof
  fix b :: RosterBundle assume ok: "bundle_ok b"
  have "mapM (\<lambda>e. rbind (as_bytes e) nr_decode) (map BBytes (map nr_encode (rb_entries b))) = Inr (rb_entries b)"
    "mapM (\<lambda>g. rbind (as_bytes g) grant_decode) (map BBytes (map grant_encode (rb_managers b))) = Inr (rb_managers b)"
    using ok by (simp_all add: bundle_ok_def nr_wire.dec_enc grant_wire.dec_enc comp_def)
  moreover have "mapM (\<lambda>m. rbind (as_bytes m) PublicKey) (map BBytes (rb_commitment_members b)) = Inr (rb_commitment_members b)"
    using ok by (intro mapM_bytes_fixed) (simp add: bundle_ok_def)
  moreover have "sort (rb_commitment_members b) = rb_commitment_members b" using ok by (simp add: bundle_ok_def sorted_sort_id)
  ultimately show "bundle_decode (bundle_encode b) = Inr b"
    using ok by (simp add: bundle_decode_def bundle_encode_def bundle_bval_def bytes_seq_def bundle_ok_def cert_wire.dec_enc)
qed

definition tb_opt_ok :: "TrustedBlock option \<Rightarrow> bool" where
  "tb_opt_ok t \<longleftrightarrow> (\<forall>x. t = Some x \<longrightarrow> length (tb_block_hash x) = DIGEST_SIZE \<and> bencodable (BSeq [BInt (tb_block_num x), BBytes (tb_block_hash x)]))"

definition fp_ok :: "digest option \<Rightarrow> bool" where
  "fp_ok fp \<longleftrightarrow> (\<forall>d. fp = Some d \<longrightarrow> length d = DIGEST_SIZE)"

definition bundle_opt_ok :: "RosterBundle option \<Rightarrow> bool" where
  "bundle_opt_ok b \<longleftrightarrow> (\<forall>x. b = Some x \<longrightarrow> bundle_ok x)"

lemma optional_round_trips [simp]:
  "tb_opt_ok t \<Longrightarrow> tb_decode_optional (tb_encode_optional t) = Inr t"
  "fp_ok fp \<Longrightarrow> fp_of (fp_raw fp) = Inr fp"
  "bundle_opt_ok b \<Longrightarrow> bundle_of (bundle_raw b) = Inr b"
proof -
  show "tb_decode_optional (tb_encode_optional t) = Inr t" if "tb_opt_ok t"
    using that by (cases t) (auto simp: tb_opt_ok_def tb_decode_optional_def tb_encode_optional_def tb_encode_def tb_decode_def)
  show "fp_of (fp_raw fp) = Inr fp" if "fp_ok fp"
    using that by (cases fp) (auto simp: fp_ok_def fp_of_def fp_raw_def DIGEST_SIZE_def fixed_def)
  show "bundle_of (bundle_raw b) = Inr b" if "bundle_opt_ok b"
    using that bundle_wire.dec_enc by (cases b) (auto simp: bundle_opt_ok_def bundle_of_def bundle_raw_def, simp add: bundle_encode_def)
qed

lemma headers_round_trip [simp]: "\<forall>s \<in> set hs. sb_ok s \<Longrightarrow> headers_of (bytes_seq (map sb_encode hs)) = Inr hs"
  by (simp add: headers_of_def bytes_seq_def sb_wire.dec_enc comp_def)

fun lite_ok :: "LiteMsg \<Rightarrow> bool" where
  "lite_ok (LGetAnchors m) \<longleftrightarrow> fp_ok (ga_known_roster_fingerprint m) \<and> tb_opt_ok (ga_known_trusted_block m) \<and> bencodable (get_anchors_bval m)"
| "lite_ok (LAnchorsReply m) \<longleftrightarrow> sb_ok (ar_head m) \<and> length (ar_roster_fingerprint m) = DIGEST_SIZE \<and> bundle_opt_ok (ar_bundle m) \<and>
     (\<forall>s \<in> set (ar_headers m). sb_ok s) \<and> bencodable (anchors_reply_bval m)"
| "lite_ok (LGetProof m) \<longleftrightarrow> fp_ok (gp_known_roster_fingerprint m) \<and> tb_opt_ok (gp_known_trusted_block m) \<and> bencodable (get_proof_bval m)"
| "lite_ok (LProofReply m) \<longleftrightarrow> sb_ok (pp_head m) \<and> length (pp_roster_fingerprint m) = DIGEST_SIZE \<and> bundle_opt_ok (pp_bundle m) \<and>
     (\<forall>s \<in> set (pp_headers m). sb_ok s) \<and> bencodable (proof_reply_bval m)"
| "lite_ok (LiteRefused reason) \<longleftrightarrow> True"
| "lite_ok (LTxStatus oph) \<longleftrightarrow> length oph = DIGEST_SIZE \<and> bencodable (BSeq [BBytes oph])"
| "lite_ok (LCountPrefix m) \<longleftrightarrow> bencodable (count_prefix_bval m)"
| "lite_ok (LCountPrefixReply n) \<longleftrightarrow> bencodable (BSeq [BInt n])"
| "lite_ok (LNthPrefix m) \<longleftrightarrow> fp_ok (np_known_roster_fingerprint m) \<and> tb_opt_ok (np_known_trusted_block m) \<and> bencodable (nth_prefix_bval m)"

interpretation lite_wire: wire "\<lambda>m. (lite_verb m, lite_encode_inner m)" "\<lambda>(v, b). lite_decode v b" lite_ok
proof
  fix m assume ok: "lite_ok m"
  show "(case (lite_verb m, lite_encode_inner m) of (v, b) \<Rightarrow> lite_decode v b) = Inr m"
  proof (cases m)
    case (LGetAnchors x)
    then show ?thesis using ok by (simp add: get_anchors_decode_def get_anchors_bval_def)
  next
    case (LAnchorsReply x)
    then show ?thesis using ok by (simp add: anchors_reply_decode_def anchors_reply_bval_def sb_wire.dec_enc)
  next
    case (LGetProof x)
    then show ?thesis using ok by (simp add: get_proof_decode_def get_proof_bval_def)
  next
    case (LProofReply x)
    then show ?thesis using ok by (simp add: proof_reply_decode_def proof_reply_bval_def sb_wire.dec_enc flag_def)
  next
    case (LNthPrefix x)
    then show ?thesis using ok by (simp add: nth_prefix_decode_def nth_prefix_bval_def flag_def)
  qed (use ok in \<open>simp_all add: lite_refused_decode_def tx_status_decode_def count_prefix_decode_def count_prefix_bval_def count_prefix_reply_decode_def\<close>)
qed

end
