(* ===== verification/Lite.thy ===== *)
theory Lite
  imports Lite_Adapter Checkpoint
begin

text \<open>
  \<^verbatim>\<open>dude/sync/lite.py\<close>: how a node answers a light client: the head block with the headers
  that lead to it, a row with its proof, counts and the n-th row of a prefix. Every answer is computed
  from one snapshot of the store.
\<close>

definition check_trusted :: "prims \<Rightarrow> Db \<Rightarrow> int \<Rightarrow> TrustedBlock option \<Rightarrow> SyncRefusedReason option res" where
  "check_trusted c db hn tb =
     (case tb of
        None \<Rightarrow> Inr None
      | Some t \<Rightarrow>
          if tb_block_num t \<le> hn
          then rbind (sr_settled_at db (tb_block_num t)) (\<lambda>raw.
            case raw of
              None \<Rightarrow> Inr (Some R_COMPACTED)
            | Some b \<Rightarrow> rbind (sb_decode b) (\<lambda>sb. Inr (if block_hash c sb \<noteq> tb_block_hash t then Some R_FORK_DETECTED else None)))
          else Inr None)"

definition build_bundle :: "prims \<Rightarrow> MgmtReader \<Rightarrow> RosterCommitment \<Rightarrow> RosterBundle res" where
  "build_bundle c m commitment =
     rbind (mg_nodes m) (\<lambda>ns.
     rbind (manager_grants c m) (\<lambda>managers.
     Inr \<lparr>rb_commitment_serial = rc_serial commitment, rb_commitment_members = rc_members commitment,
          rb_commitment_cert = rc_cert commitment,
          rb_entries = sort_key nr_identity (List.map_filter (map_of ns) (rc_members commitment)),
          rb_managers = managers\<rparr>))"

fun headers_loop :: "Db \<Rightarrow> nat \<Rightarrow> int \<Rightarrow> SettledBlock list res" where
  "headers_loop db 0 n = Inr []"
| "headers_loop db (Suc k) n =
     rbind (sr_settled_at db n) (\<lambda>raw.
     case raw of
       None \<Rightarrow> Inr []
     | Some b \<Rightarrow> rbind (sb_decode b) (\<lambda>sb. rbind (headers_loop db k (n + 1)) (\<lambda>rest. Inr (sb # rest))))"

definition headers_since :: "Db \<Rightarrow> TrustedBlock option \<Rightarrow> int \<Rightarrow> int \<Rightarrow> SettledBlock list res" where
  "headers_since db tb hn cap =
     (case tb of
        None \<Rightarrow> Inr []
      | Some t \<Rightarrow>
          let from_num = tb_block_num t in
          if from_num \<ge> hn then Inr []
          else headers_loop db (nat (min hn (from_num + cap) - from_num)) (from_num + 1))"

text \<open>\<^verbatim>\<open>not hn\<close>: no block, or block zero.\<close>

definition lite_head :: "Db \<Rightarrow> int option" where
  "lite_head db = (case sr_head_block_num db of None \<Rightarrow> None | Some n \<Rightarrow> if n = 0 then None else Some n)"

definition bundle_for :: "prims \<Rightarrow> MgmtReader \<Rightarrow> RosterCommitment \<Rightarrow> digest option \<Rightarrow> RosterBundle option res" where
  "bundle_for c m commitment known =
     (if known = None then rbind (build_bundle c m commitment) (\<lambda>b. Inr (Some b)) else Inr None)"

definition serve_get_anchors :: "prims \<Rightarrow> Db \<Rightarrow> GetAnchors \<Rightarrow> int \<Rightarrow> LiteMsg res" where
  "serve_get_anchors c db request cap =
     rbind (mgmt_reader c db) (\<lambda>m.
     case lite_head db of
       None \<Rightarrow> Inr (LiteRefused R_NO_STATE)
     | Some hn \<Rightarrow>
         rbind (roster_commitment c m) (\<lambda>rc.
         case rc of
           None \<Rightarrow> Inr (LiteRefused R_NO_STATE)
         | Some commitment \<Rightarrow>
             rbind (sr_settled_at db hn) (\<lambda>raw.
             case raw of
               None \<Rightarrow> Inr (LiteRefused R_INTERNAL)
             | Some b \<Rightarrow>
                 rbind (sb_decode b) (\<lambda>hd.
                 rbind (check_trusted c db hn (ga_known_trusted_block request)) (\<lambda>fault.
                 case fault of
                   Some reason \<Rightarrow> Inr (LiteRefused reason)
                 | None \<Rightarrow>
                     rbind (Digest (ct_subject (rc_cert commitment))) (\<lambda>fp.
                     rbind (bundle_for c m commitment (ga_known_roster_fingerprint request)) (\<lambda>bundle.
                     rbind (headers_since db (ga_known_trusted_block request) hn cap) (\<lambda>headers.
                     Inr (LAnchorsReply \<lparr>ar_head = hd, ar_roster_fingerprint = fp, ar_bundle = bundle, ar_headers = headers\<rparr>)))))))))"

definition serve_get_proof :: "prims \<Rightarrow> Db \<Rightarrow> GetProof \<Rightarrow> int \<Rightarrow> LiteMsg res" where
  "serve_get_proof c db request cap =
     rbind (mgmt_reader c db) (\<lambda>m.
     case lite_head db of
       None \<Rightarrow> Inr (LiteRefused R_NO_STATE)
     | Some hn \<Rightarrow>
         if gp_block_num request > hn then Inr (LiteRefused R_NOT_YET_SETTLED)
         else if gp_block_num request < 1 then Inr (LiteRefused R_MALFORMED_QUERY)
         else if gp_name request = [] then Inr (LiteRefused R_MALFORMED_QUERY)
         else rbind (roster_commitment c m) (\<lambda>rc.
         case rc of
           None \<Rightarrow> Inr (LiteRefused R_NO_STATE)
         | Some commitment \<Rightarrow>
             rbind (sr_settled_at db hn) (\<lambda>raw.
             case raw of
               None \<Rightarrow> Inr (LiteRefused R_INTERNAL)
             | Some b \<Rightarrow>
                 rbind (sb_decode b) (\<lambda>hd.
                 rbind (check_trusted c db hn (gp_known_trusted_block request)) (\<lambda>fault.
                 case fault of
                   Some reason \<Rightarrow> Inr (LiteRefused reason)
                 | None \<Rightarrow>
                     rbind (sr_get db (gp_store_id request) (gp_name request)) (\<lambda>held.
                     rbind (sr_prove c db (gp_store_id request) (gp_name request)) (\<lambda>pf.
                     rbind (Digest (ct_subject (rc_cert commitment))) (\<lambda>fp.
                     rbind (bundle_for c m commitment (gp_known_roster_fingerprint request)) (\<lambda>bundle.
                     rbind (headers_since db (gp_known_trusted_block request) hn cap) (\<lambda>headers.
                     Inr (LProofReply \<lparr>pp_name = gp_name request,
                       pp_value = (case held of None \<Rightarrow> ABSENT_MARKER | Some x \<Rightarrow> held_value x),
                       pp_credential = (case held of None \<Rightarrow> [] | Some x \<Rightarrow> held_cred x),
                       pp_absent = (held = None), pp_proof = proof_encode pf,
                       pp_epoch = (case held of None \<Rightarrow> EPOCH_NONE | Some x \<Rightarrow> held_epoch x),
                       pp_head = hd, pp_roster_fingerprint = fp, pp_bundle = bundle, pp_headers = headers\<rparr>)))))))))))"

definition serve_count_prefix :: "Db \<Rightarrow> CountPrefix \<Rightarrow> LiteMsg res" where
  "serve_count_prefix db request =
     rbind (sr_count_prefix db (cp_store_id request) (cp_prefix request)) (\<lambda>n. Inr (LCountPrefixReply n))"

definition serve_nth_prefix :: "prims \<Rightarrow> Db \<Rightarrow> NthPrefix \<Rightarrow> int \<Rightarrow> LiteMsg res" where
  "serve_nth_prefix c db request cap =
     rbind (mgmt_reader c db) (\<lambda>m.
     case lite_head db of
       None \<Rightarrow> Inr (LiteRefused R_NO_STATE)
     | Some hn \<Rightarrow>
         rbind (sr_nth_prefix db (np_store_id request) (np_prefix request) (np_n request) (np_descending request)) (\<lambda>found.
         case found of
           None \<Rightarrow> Inr (LiteRefused R_NOT_YET_SETTLED)
         | Some (name, held) \<Rightarrow>
             rbind (sr_prove c db (np_store_id request) name) (\<lambda>pf.
             rbind (roster_commitment c m) (\<lambda>rc.
             case rc of
               None \<Rightarrow> Inr (LiteRefused R_NO_STATE)
             | Some commitment \<Rightarrow>
                 rbind (sr_settled_at db hn) (\<lambda>raw.
                 case raw of
                   None \<Rightarrow> Inr (LiteRefused R_INTERNAL)
                 | Some b \<Rightarrow>
                     rbind (sb_decode b) (\<lambda>hd.
                     rbind (Digest (ct_subject (rc_cert commitment))) (\<lambda>fp.
                     rbind (bundle_for c m commitment (np_known_roster_fingerprint request)) (\<lambda>bundle.
                     rbind (headers_since db (np_known_trusted_block request) hn cap) (\<lambda>headers.
                     Inr (LProofReply \<lparr>pp_name = name, pp_value = held_value held, pp_credential = held_cred held, pp_absent = False,
                       pp_proof = proof_encode pf, pp_epoch = held_epoch held, pp_head = hd, pp_roster_fingerprint = fp,
                       pp_bundle = bundle, pp_headers = headers\<rparr>))))))))))"

end
