(* ===== verification/Node.thy ===== *)
theory Node
  imports Lite
begin

text \<open>
  \<^verbatim>\<open>dude/node.py\<close>: the node dispatches delivered messages to the coordinator, the follower
  and the servers of its store. Its handlers run one at a time on the event loop that the coordinator
  and the follower share; an exception that leaves a handler ends the thread of the loop, and
  \<^verbatim>\<open>dude/core/crashonly.py\<close> then ends the process. Both components hold the same store:
  \<open>nd_set_db\<close> writes it through both. What a handler sends is returned, in order, as a list of
  \<open>NodeOut\<close>. The snapshot of \<^verbatim>\<open>introspect.py\<close> depends on counters of the transport and is an
  argument, \<open>status\<close>.
\<close>

section \<open>State and effects\<close>

record Delivered =
  dl_frm :: public_key
  dl_mid :: MessageId
  dl_verb :: Verb
  dl_body :: bytes
  dl_in_reply_to :: "MessageId option"

record Node =
  nd_co :: Coordinator
  nd_fo :: Follower
  nd_checkpoint_server :: "CheckpointServer option"
  nd_inflight :: "bytes set"
  nd_commit_seq :: int
  nd_downloading :: bool

datatype NodeOut =
    Reply Delivered Verb bytes
  | SendRaw public_key Verb bytes
  | Broadcast Verb bytes
  | SyncPeers "(public_key \<times> Endpoint list) list" "public_key set"
  | HandleReply bytes Verb bytes
  | HandleExpired bytes
  | StartDownload "public_key list"
  | ScheduleReconcile int

definition nd_db :: "Node \<Rightarrow> Db" where
  "nd_db n = co_db (nd_co n)"

definition nd_set_db :: "Db \<Rightarrow> Node \<Rightarrow> Node" where
  "nd_set_db db n = n\<lparr>nd_co := (nd_co n)\<lparr>co_db := db\<rparr>, nd_fo := (nd_fo n)\<lparr>fl_db := db\<rparr>\<rparr>"

definition nd_tunables :: "Node \<Rightarrow> Tunables" where
  "nd_tunables n = co_tunables (nd_co n)"

definition nd_post_co :: "CoEvent \<Rightarrow> Node \<Rightarrow> Node" where
  "nd_post_co e n = n\<lparr>nd_co := co_post [e] (nd_co n)\<rparr>"

definition nd_post_fo :: "FoEvent \<Rightarrow> Node \<Rightarrow> Node" where
  "nd_post_fo e n = n\<lparr>nd_fo := fo_post [e] (nd_fo n)\<rparr>"

section \<open>Pending requests\<close>

definition inflight_register :: "MessageId \<Rightarrow> bytes set \<Rightarrow> bytes set" where
  "inflight_register mid pend = insert (correlation_id mid) pend"

definition inflight_on_reply :: "bytes \<Rightarrow> bytes set \<Rightarrow> bool \<times> bytes set" where
  "inflight_on_reply i pend = (i \<in> pend, pend - {i})"

definition on_message_expired :: "bytes \<Rightarrow> Node \<Rightarrow> Node \<times> NodeOut list" where
  "on_message_expired i n =
     (n\<lparr>nd_inflight := nd_inflight n - {i}\<rparr>, if i \<in> nd_inflight n then [HandleExpired i] else [])"

section \<open>Who may ask\<close>

definition is_node :: "prims \<Rightarrow> Db \<Rightarrow> public_key \<Rightarrow> bool res" where
  "is_node c db who =
     rbind (sr_anchor db) (\<lambda>a. if who = a then Inr True else rbind (mgmt_reader c db) (\<lambda>m. is_member c m who))"

definition manager_authorised :: "prims \<Rightarrow> Db \<Rightarrow> public_key \<Rightarrow> bool res" where
  "manager_authorised c db who =
     rbind (sr_anchor db) (\<lambda>a.
     if who = a then Inr True
     else rbind (mgmt_reader c db) (\<lambda>m.
       rbind (valid_grant c m who None) (\<lambda>g. Inr (case g of None \<Rightarrow> False | Some gr \<Rightarrow> gr_role gr = MANAGER))))"

definition lite_authorised :: "prims \<Rightarrow> Db \<Rightarrow> public_key \<Rightarrow> bool res" where
  "lite_authorised c db who =
     rbind (sr_anchor db) (\<lambda>a.
     if who = a then Inr True
     else rbind (mgmt_reader c db) (\<lambda>m.
       rbind (is_member c m who) (\<lambda>member.
       if member then Inr True
       else rbind (valid_grant c m who None) (\<lambda>g. Inr (g \<noteq> None)))))"

section \<open>Peers\<close>

text \<open>
  \<^verbatim>\<open>_reconcile_peers\<close>; the roster is that of the store, as in the follower.
\<close>

definition reconcile_peers :: "prims \<Rightarrow> Node \<Rightarrow> NodeOut res" where
  "reconcile_peers c n =
     rbind (mgmt_reader c (nd_db n)) (\<lambda>m.
     rbind (mg_nodes m) (\<lambda>ns.
     rbind (mg_roster c m) (\<lambda>roster.
     rbind (authorized_identities c m) (\<lambda>allowed.
     let others = filter (\<lambda>pk. pk \<noteq> kp_public c (co_me (nd_co n))) roster;
         peers = List.map_filter (\<lambda>pk. case map_of ns pk of
                   None \<Rightarrow> None
                 | Some r \<Rightarrow> if nr_endpoints r = [] then None else Some (pk, nr_endpoints r)) others
     in Inr (SyncPeers peers allowed)))))"

definition notify_followers :: "prims \<Rightarrow> Node \<Rightarrow> NodeOut res" where
  "notify_followers c n =
     rbind (serve_height c (nd_db n)) (\<lambda>reply. Inr (Broadcast (sync_verb reply) (sync_encode_inner reply)))"

section \<open>Requests\<close>

definition reply_sync :: "Delivered \<Rightarrow> SyncMsg \<Rightarrow> NodeOut" where
  "reply_sync d m = Reply d (sync_verb m) (sync_encode_inner m)"

definition reply_lite :: "Delivered \<Rightarrow> LiteMsg \<Rightarrow> NodeOut" where
  "reply_lite d m = Reply d (lite_verb m) (lite_encode_inner m)"

fun refusal_value :: "Refusal \<Rightarrow> bytes" where
  "refusal_value RF_INVALID = ascii ''invalid''"
| "refusal_value TOO_OLD = ascii ''ts-too-old''"
| "refusal_value TOO_NEW = ascii ''ts-too-new''"
| "refusal_value DUPLICATE = ascii ''duplicate''"
| "refusal_value UNSIGNED = ascii ''signature''"
| "refusal_value CANNOT_APPLY = ascii ''cannot-apply''"
| "refusal_value NOT_IN_ROSTER = ascii ''not-in-roster''"
| "refusal_value REPEATED_OP = ascii ''repeated-op''"

definition on_node_status :: "prims \<Rightarrow> (Node \<Rightarrow> bytes) \<Rightarrow> Node \<Rightarrow> Delivered \<Rightarrow> NodeOut list res" where
  "on_node_status c status n d =
     rbind (manager_authorised c (nd_db n) (dl_frm d)) (\<lambda>ok.
     Inr (if \<not> ok then [Reply d V_REFUSED (ascii ''unauthorised'')] else [Reply d V_NODE_STATUS_REPLY (status n)]))"

definition on_submit :: "prims \<Rightarrow> nat \<Rightarrow> int \<Rightarrow> Node \<Rightarrow> Delivered \<Rightarrow> (Node \<times> NodeOut list) res" where
  "on_submit c fuel now n d =
     rbind (stx_decode (dl_body d)) (\<lambda>tx.
     rbind (co_submit c fuel tx now (nd_co n)) (\<lambda>(refusal, co).
     Inr (n\<lparr>nd_co := co\<rparr>,
       case refusal of
         Some r \<Rightarrow> [Reply d V_REFUSED (refusal_value r)]
       | None \<Rightarrow> [Reply d V_ACCEPTED (op_hash c tx)])))"

definition on_provision :: "prims \<Rightarrow> nat \<Rightarrow> Node \<Rightarrow> Delivered \<Rightarrow> (Node \<times> NodeOut list) res" where
  "on_provision c fuel n d =
     rbind (sr_anchor (nd_db n)) (\<lambda>a.
     if dl_frm d \<noteq> a then Inr (n, [])
     else if sr_head_block_num (nd_db n) \<noteq> None then Inr (n, [Reply d V_REFUSED (ascii ''already provisioned'')])
     else
       rbind (decode_seq (dl_body d) (Some 2)) (\<lambda>outer.
       rbind (as_bytes (outer ! 0)) (\<lambda>block_bytes.
       rbind (rbind (as_seq (outer ! 1) None) (mapM (\<lambda>x. rbind (as_bytes x) stx_decode))) (\<lambda>bodies.
       rbind (sb_decode block_bytes) (\<lambda>sb.
       rbind (mgmt_reader c (nd_db n)) (\<lambda>m.
       case store_commit_block c fuel (an_block_num (sb_anchors sb)) 1 block_bytes (block_hash c sb) (bodies_canonical c bodies)
              (mgmt_auth c m) (nd_db n) of
         (Inl e, _) \<Rightarrow> Inl e
       | (Inr _, db') \<Rightarrow>
           rbind (reconcile_peers c (nd_set_db db' n)) (\<lambda>peers.
           Inr (nd_set_db db' n, [peers, Reply d V_ACCEPTED (ascii ''provisioned'')]))))))))"

definition on_height :: "prims \<Rightarrow> Node \<Rightarrow> Delivered \<Rightarrow> NodeOut list res" where
  "on_height c n d = rbind (serve_height c (nd_db n)) (\<lambda>m. Inr [reply_sync d m])"

definition on_getblock :: "prims \<Rightarrow> Node \<Rightarrow> Delivered \<Rightarrow> NodeOut list res" where
  "on_getblock c n d =
     rbind (replica_authorised c (nd_db n) (dl_frm d)) (\<lambda>ok.
     if \<not> ok then Inr [reply_sync d (SyncRefused R_UNAUTHORISED None)]
     else case sync_decode (dl_verb d) (dl_body d) of
       Inl e \<Rightarrow> if e = SyncAdapterError then Inr [reply_sync d (SyncRefused R_UNKNOWN None)] else Inl e
     | Inr (GetBlocks frm cnt) \<Rightarrow>
         rbind (serve_getblocks (nd_db n) frm cnt (pull_batch (nd_tunables n))) (\<lambda>m. Inr [reply_sync d m])
     | Inr _ \<Rightarrow> Inr [])"

text \<open>The first steps of the five handlers for light clients: the standing of the sender, then the request.\<close>

definition lite_request :: "prims \<Rightarrow> Node \<Rightarrow> Delivered \<Rightarrow> (LiteMsg \<Rightarrow> NodeOut list res) \<Rightarrow> NodeOut list res" where
  "lite_request c n d serve =
     rbind (lite_authorised c (nd_db n) (dl_frm d)) (\<lambda>ok.
     if \<not> ok then Inr [reply_lite d (LiteRefused R_UNAUTHORISED)]
     else case lite_decode (dl_verb d) (dl_body d) of
       Inl e \<Rightarrow> if is_dude_error e then Inr [reply_lite d (LiteRefused R_MALFORMED_QUERY)] else Inl e
     | Inr req \<Rightarrow> serve req)"

definition if_may_read :: "prims \<Rightarrow> Node \<Rightarrow> Delivered \<Rightarrow> int \<Rightarrow> LiteMsg res \<Rightarrow> NodeOut list res" where
  "if_may_read c n d store_id answer =
     rbind (mgmt_reader c (nd_db n)) (\<lambda>m.
     rbind (may_read c m (store_reader c (nd_db n)) (dl_frm d) store_id) (\<lambda>ok.
     if \<not> ok then Inr [reply_lite d (LiteRefused R_UNAUTHORISED)]
     else rbind answer (\<lambda>m. Inr [reply_lite d m])))"

definition on_get_anchors :: "prims \<Rightarrow> Node \<Rightarrow> Delivered \<Rightarrow> NodeOut list res" where
  "on_get_anchors c n d =
     lite_request c n d (\<lambda>req. case req of
       LGetAnchors r \<Rightarrow> rbind (serve_get_anchors c (nd_db n) r (liveness_window (nd_tunables n))) (\<lambda>m. Inr [reply_lite d m])
     | _ \<Rightarrow> Inr [])"

definition on_get_proof :: "prims \<Rightarrow> Node \<Rightarrow> Delivered \<Rightarrow> NodeOut list res" where
  "on_get_proof c n d =
     lite_request c n d (\<lambda>req. case req of
       LGetProof r \<Rightarrow> if_may_read c n d (gp_store_id r) (serve_get_proof c (nd_db n) r (liveness_window (nd_tunables n)))
     | _ \<Rightarrow> Inr [])"

definition on_count_prefix :: "prims \<Rightarrow> Node \<Rightarrow> Delivered \<Rightarrow> NodeOut list res" where
  "on_count_prefix c n d =
     lite_request c n d (\<lambda>req. case req of
       LCountPrefix r \<Rightarrow> rbind (serve_count_prefix (nd_db n) r) (\<lambda>m. Inr [reply_lite d m])
     | _ \<Rightarrow> Inr [])"

definition on_nth_prefix :: "prims \<Rightarrow> Node \<Rightarrow> Delivered \<Rightarrow> NodeOut list res" where
  "on_nth_prefix c n d =
     lite_request c n d (\<lambda>req. case req of
       LNthPrefix r \<Rightarrow> if_may_read c n d (np_store_id r) (serve_nth_prefix c (nd_db n) r (liveness_window (nd_tunables n)))
     | _ \<Rightarrow> Inr [])"

definition on_tx_status :: "prims \<Rightarrow> Node \<Rightarrow> Delivered \<Rightarrow> NodeOut list res" where
  "on_tx_status c n d =
     lite_request c n d (\<lambda>req. case req of
       LTxStatus oph \<Rightarrow>
         rbind (sr_settlement_of (nd_db n) oph) (\<lambda>info.
         let result = (case info of
               Some r \<Rightarrow> r
             | None \<Rightarrow> if oph \<in> all_hashes (co_mempool (nd_co n)) then Pending else Unknown)
         in Inr [Reply d V_TX_STATUS_REPLY (settle_encode result)])
     | _ \<Rightarrow> Inr [])"

section \<open>Messages of the synchronisation\<close>

definition nd_on_height_reply :: "Node \<Rightarrow> Delivered \<Rightarrow> Node res" where
  "nd_on_height_reply n d =
     (case sync_decode (dl_verb d) (dl_body d) of
        Inl e \<Rightarrow> if e = SyncAdapterError then Inr n else Inl e
      | Inr m \<Rightarrow> Inr (nd_post_fo (PeerMessage m (dl_frm d)) n))"

definition on_settled_block :: "Node \<Rightarrow> Delivered \<Rightarrow> Node res" where
  "on_settled_block n d =
     (case sync_decode (dl_verb d) (dl_body d) of
        Inl e \<Rightarrow> if is_dude_error e then Inr (nd_post_fo (PullCancelled (dl_frm d)) n) else Inl e
      | Inr m \<Rightarrow> Inr (nd_post_fo (PeerMessage m (dl_frm d)) n))"

definition on_sync_refused :: "Node \<Rightarrow> Delivered \<Rightarrow> Node res" where
  "on_sync_refused n d =
     (case sync_decode (dl_verb d) (dl_body d) of
        Inl e \<Rightarrow> if e = SyncAdapterError then Inr n else Inl e
      | Inr m \<Rightarrow> Inr (nd_post_fo (PeerMessage m (dl_frm d)) n))"

section \<open>Dispatch\<close>

definition CONSENSUS_ONLY :: "Verb list" where
  "CONSENSUS_ONLY = [V_BODIES, V_HELD, V_SIG, V_SETTLE_SIG]"

definition quietly :: "Node res \<Rightarrow> (Node \<times> NodeOut list) res" where
  "quietly r = rbind r (\<lambda>n. Inr (n, []))"

definition answering :: "Node \<Rightarrow> NodeOut list res \<Rightarrow> (Node \<times> NodeOut list) res" where
  "answering n r = rbind r (\<lambda>outs. Inr (n, outs))"

definition checkpoint_reply :: "Delivered \<Rightarrow> (Verb \<times> bytes) res \<Rightarrow> NodeOut list res" where
  "checkpoint_reply d r = rbind r (\<lambda>(v, b). Inr [Reply d v b])"

definition dispatch :: "prims \<Rightarrow> nat \<Rightarrow> (Node \<Rightarrow> bytes) \<Rightarrow> int \<Rightarrow> Node \<Rightarrow> Delivered \<Rightarrow> (Node \<times> NodeOut list) res" where
  "dispatch c fuel status now n d =
     (case dl_verb d of
        V_SUBMIT \<Rightarrow> on_submit c fuel now n d
      | V_HELD \<Rightarrow> Inr (nd_post_co (RoundMessage (dl_frm d) V_HELD (dl_body d)) n, [])
      | V_SIG \<Rightarrow> Inr (nd_post_co (RoundMessage (dl_frm d) V_SIG (dl_body d)) n, [])
      | V_BODIES \<Rightarrow> Inr (nd_post_co (RoundMessage (dl_frm d) V_BODIES (dl_body d)) n, [])
      | V_SETTLE_SIG \<Rightarrow> Inr (nd_post_co (SettleMessage (dl_frm d) V_SETTLE_SIG (dl_body d)) n, [])
      | V_HEIGHT \<Rightarrow> answering n (on_height c n d)
      | V_HEIGHT_REPLY \<Rightarrow> quietly (nd_on_height_reply n d)
      | V_GETBLOCK \<Rightarrow> answering n (on_getblock c n d)
      | V_SETTLED_BLOCK \<Rightarrow> quietly (on_settled_block n d)
      | V_SYNC_REFUSED \<Rightarrow> quietly (on_sync_refused n d)
      | V_GET_ANCHORS \<Rightarrow> answering n (on_get_anchors c n d)
      | V_GET_PROOF \<Rightarrow> answering n (on_get_proof c n d)
      | V_TX_STATUS \<Rightarrow> answering n (on_tx_status c n d)
      | V_COUNT_PREFIX \<Rightarrow> answering n (on_count_prefix c n d)
      | V_NTH_PREFIX \<Rightarrow> answering n (on_nth_prefix c n d)
      | V_GET_CHECKPOINT \<Rightarrow> answering n (checkpoint_reply d (on_get_checkpoint c (nd_checkpoint_server n) (nd_db n) (dl_frm d)))
      | V_GET_CHUNKS \<Rightarrow> answering n (checkpoint_reply d (on_get_chunks c (nd_checkpoint_server n) (nd_db n) (dl_frm d) (dl_body d)))
      | V_PROVISION \<Rightarrow> on_provision c fuel n d
      | V_NODE_STATUS \<Rightarrow> answering n (on_node_status c status n d)
      | _ \<Rightarrow> Inr (n, []))"

definition on_delivered :: "prims \<Rightarrow> nat \<Rightarrow> (Node \<Rightarrow> bytes) \<Rightarrow> int \<Rightarrow> Node \<Rightarrow> Delivered \<Rightarrow> (Node \<times> NodeOut list) res" where
  "on_delivered c fuel status now n d =
     (case dl_in_reply_to d of
        Some mid \<Rightarrow>
          (case inflight_on_reply (correlation_id mid) (nd_inflight n) of
             (True, pend) \<Rightarrow> Inr (n\<lparr>nd_inflight := pend\<rparr>, [HandleReply (correlation_id mid) (dl_verb d) (dl_body d)])
           | (False, _) \<Rightarrow>
               if dl_verb d \<in> set CONSENSUS_ONLY
               then rbind (is_node c (nd_db n) (dl_frm d)) (\<lambda>ok. if ok then dispatch c fuel status now n d else Inr (n, []))
               else dispatch c fuel status now n d)
      | None \<Rightarrow>
          if dl_verb d \<in> set CONSENSUS_ONLY
          then rbind (is_node c (nd_db n) (dl_frm d)) (\<lambda>ok. if ok then dispatch c fuel status now n d else Inr (n, []))
          else dispatch c fuel status now n d)"

text \<open>A replica answers nothing: it only follows.\<close>

definition replica_on_delivered :: "Node \<Rightarrow> Delivered \<Rightarrow> (Node \<times> NodeOut list) res" where
  "replica_on_delivered n d =
     (case dl_in_reply_to d of
        Some mid \<Rightarrow>
          (case inflight_on_reply (correlation_id mid) (nd_inflight n) of
             (True, pend) \<Rightarrow> Inr (n\<lparr>nd_inflight := pend\<rparr>, [HandleReply (correlation_id mid) (dl_verb d) (dl_body d)])
           | (False, _) \<Rightarrow>
               (case dl_verb d of
                  V_HEIGHT_REPLY \<Rightarrow> quietly (nd_on_height_reply n d)
                | V_SETTLED_BLOCK \<Rightarrow> quietly (on_settled_block n d)
                | V_SYNC_REFUSED \<Rightarrow> quietly (on_sync_refused n d)
                | _ \<Rightarrow> Inr (n, [])))
      | None \<Rightarrow>
          (case dl_verb d of
             V_HEIGHT_REPLY \<Rightarrow> quietly (nd_on_height_reply n d)
           | V_SETTLED_BLOCK \<Rightarrow> quietly (on_settled_block n d)
           | V_SYNC_REFUSED \<Rightarrow> quietly (on_sync_refused n d)
           | _ \<Rightarrow> Inr (n, [])))"

section \<open>The other events of the loop\<close>

definition download_checkpoint :: "Node \<Rightarrow> Node \<times> NodeOut list" where
  "download_checkpoint n =
     (if download_starts (nd_fo n) (nd_downloading n)
      then (n\<lparr>nd_downloading := True\<rparr>, [StartDownload (compacted_peers (nd_fo n))])
      else (n, []))"

definition maybe_download :: "Node \<Rightarrow> Node \<times> NodeOut list" where
  "maybe_download n = (if needs_checkpoint (nd_fo n) \<noteq> None then download_checkpoint n else (n, []))"

definition on_block_committed :: "prims \<Rightarrow> Node \<Rightarrow> (Node \<times> NodeOut list) res" where
  "on_block_committed c n =
     (let n1 = n\<lparr>nd_commit_seq := nd_commit_seq n + 1\<rparr> in
      rbind (notify_followers c n1) (\<lambda>tell.
      rbind (reconcile_peers c n1) (\<lambda>peers.
      let (n2, outs) = maybe_download n1 in Inr (n2, tell # peers # outs))))"

definition on_reconcile_peers :: "prims \<Rightarrow> int \<Rightarrow> Node \<Rightarrow> (Node \<times> NodeOut list) res" where
  "on_reconcile_peers c now n =
     rbind (reconcile_peers c n) (\<lambda>peers.
     let (n1, outs) = maybe_download n
     in Inr (n1, peers # outs @ [ScheduleReconcile (now + block_time (nd_tunables n))]))"

definition on_block_settled :: "prims \<Rightarrow> Node \<Rightarrow> (Node \<times> NodeOut list) res" where
  "on_block_settled c n =
     rbind (reconcile_peers c n) (\<lambda>peers. rbind (notify_followers c n) (\<lambda>tell. Inr (n, [peers, tell])))"

fun consensus_wire :: "Encodable \<Rightarrow> Verb \<times> bytes" where
  "consensus_wire (E_Round m) = (msg_verb m, encode_inner m)"
| "consensus_wire (E_Settle m) = (V_SETTLE_SIG, settle_sig_encode m)"

definition on_consensus_send :: "public_key \<Rightarrow> Encodable \<Rightarrow> Node \<Rightarrow> Node \<times> NodeOut list" where
  "on_consensus_send peer m n = (n, [case consensus_wire m of (v, b) \<Rightarrow> SendRaw peer v b])"

definition on_send_to_peer :: "public_key \<Rightarrow> SyncMsg \<Rightarrow> Node \<Rightarrow> Node \<times> NodeOut list" where
  "on_send_to_peer peer m n = (n, [SendRaw peer (sync_verb m) (sync_encode_inner m)])"

end
