(* ===== verification/Node_Props.thy ===== *)
theory Node_Props
  imports Node Checkpoint_Props
begin

text \<open>
  What the dispatch of a node guarantees: a sender without standing is refused and never reaches the
  store, and a proof served to a light client verifies against the head block served beside it. And
  what it does not: some requests raise out of the handlers, which ends the process.
\<close>

section \<open>Senders without standing\<close>

definition outsider :: "prims \<Rightarrow> Db \<Rightarrow> public_key \<Rightarrow> bool" where
  "outsider c db who \<longleftrightarrow>
     (\<exists>a m. sr_anchor db = Inr a \<and> mgmt_reader c db = Inr m \<and> who \<noteq> a \<and> is_member c m who = Inr False \<and>
        read_grant m who None = Inr None)"

lemma outsider_unauthorised:
  assumes "outsider c db who"
  shows "is_node c db who = Inr False" "replica_authorised c db who = Inr False" "lite_authorised c db who = Inr False"
    "manager_authorised c db who = Inr False" "\<exists>a. sr_anchor db = Inr a \<and> who \<noteq> a"
  using assms
  by (auto simp: outsider_def is_node_def replica_authorised_def lite_authorised_def manager_authorised_def valid_grant_def)

definition not_awaited :: "Node \<Rightarrow> Delivered \<Rightarrow> bool" where
  "not_awaited n d \<longleftrightarrow> (\<forall>mid. dl_in_reply_to d = Some mid \<longrightarrow> correlation_id mid \<notin> nd_inflight n)"

lemma delivered_dispatch:
  "not_awaited n d \<Longrightarrow> on_delivered c fuel status now n d =
     (if dl_verb d \<in> set CONSENSUS_ONLY
      then rbind (is_node c (nd_db n) (dl_frm d)) (\<lambda>ok. if ok then dispatch c fuel status now n d else Inr (n, []))
      else dispatch c fuel status now n d)"
  by (auto simp: on_delivered_def not_awaited_def inflight_on_reply_def split: option.split)

definition unauthorised_replies :: "Delivered \<Rightarrow> NodeOut set" where
  "unauthorised_replies d =
     {Reply d V_REFUSED (ascii ''unauthorised''), reply_sync d (SyncRefused R_UNAUTHORISED None), reply_lite d (LiteRefused R_UNAUTHORISED)}"

lemma co_submit_db: "co_submit c fuel tx now co = Inr (r, co') \<Longrightarrow> co_db co' = co_db co"
  by (auto simp: co_submit_def rbind_Inr_conv split: if_splits)

lemma posts_keep_db [simp]: "nd_db (nd_post_co e n) = nd_db n" "nd_db (nd_post_fo e' n) = nd_db n"
  by (simp_all add: nd_db_def nd_post_co_def nd_post_fo_def co_post_def)

lemma sync_handlers_keep_db:
  "nd_on_height_reply n d = Inr n' \<Longrightarrow> nd_db n' = nd_db n"
  "on_settled_block n d = Inr n' \<Longrightarrow> nd_db n' = nd_db n"
  "on_sync_refused n d = Inr n' \<Longrightarrow> nd_db n' = nd_db n"
  by (auto simp: nd_on_height_reply_def on_settled_block_def on_sync_refused_def split: sum.splits if_splits)

lemma dispatch_keeps_db:
  assumes "dispatch c fuel status now n d = Inr (n', outs)" "sr_anchor (nd_db n) = Inr a" "dl_frm d \<noteq> a"
  shows "nd_db n' = nd_db n"
proof (cases "dl_verb d")
  case V_SUBMIT
  then show ?thesis
    using assms co_submit_db by (fastforce simp: dispatch_def on_submit_def rbind_Inr_conv nd_db_def)
next
  case V_PROVISION
  then show ?thesis using assms by (simp add: dispatch_def on_provision_def)
qed (use assms in \<open>auto simp: dispatch_def quietly_def answering_def rbind_Inr_conv dest!: sync_handlers_keep_db\<close>)

lemma delivered_keeps_db:
  assumes "on_delivered c fuel status now n d = Inr (n', outs)" "sr_anchor (nd_db n) = Inr a" "dl_frm d \<noteq> a"
  shows "nd_db n' = nd_db n"
proof (cases "not_awaited n d")
  case True
  then show ?thesis
    using assms dispatch_keeps_db by (auto simp: delivered_dispatch rbind_Inr_conv split: if_splits)
next
  case False
  then show ?thesis using assms(1) by (auto simp: not_awaited_def on_delivered_def inflight_on_reply_def nd_db_def)
qed

text \<open>
  C10: A sender without standing is confined. A message that no pending request awaits, from a key that
  is neither the manager nor seated and holds no grant, leaves the node as it was and is answered by
  nothing or by one refusal, whatever its body. The exceptions are a submission, the question for the
  height, and the three kinds of reply that are handed to the follower. And the handler of a message changes
  the store for the manager alone: a message of any other sender, seated or with a grant or awaited as it may be, leaves the
  store as it was. (What the handler posts to the coordinator and to the follower is handled later, under their own rules.)
\<close>

theorem outsiders_are_confined:
  shows "(outsider c (nd_db n) (dl_frm d) \<and> not_awaited n d \<and>
      dl_verb d \<notin> {V_SUBMIT, V_HEIGHT, V_HEIGHT_REPLY, V_SETTLED_BLOCK, V_SYNC_REFUSED} \<longrightarrow>
      (\<exists>outs. on_delivered c fuel status now n d = Inr (n, outs) \<and> length outs \<le> 1 \<and> set outs \<subseteq> unauthorised_replies d)) \<and>
    (\<forall>manager n' outs. sr_anchor (nd_db n) = Inr manager \<and> dl_frm d \<noteq> manager \<and>
      on_delivered c fuel status now n d = Inr (n', outs) \<longrightarrow> nd_db n' = nd_db n)"
proof (intro conjI impI allI)
  assume out: "outsider c (nd_db n) (dl_frm d) \<and> not_awaited n d \<and>
    dl_verb d \<notin> {V_SUBMIT, V_HEIGHT, V_HEIGHT_REPLY, V_SETTLED_BLOCK, V_SYNC_REFUSED}"
  note no = outsider_unauthorised[OF conjunct1[OF out]]
  show "\<exists>outs. on_delivered c fuel status now n d = Inr (n, outs) \<and> length outs \<le> 1 \<and> set outs \<subseteq> unauthorised_replies d"
    using out no delivered_dispatch[of n d]
    by (cases "dl_verb d")
      (auto simp: CONSENSUS_ONLY_def dispatch_def answering_def on_getblock_def lite_request_def on_get_anchors_def on_get_proof_def
        on_tx_status_def on_count_prefix_def on_nth_prefix_def on_get_checkpoint_def on_get_chunks_def checkpoint_reply_def
        refuse_def on_provision_def on_node_status_def unauthorised_replies_def reply_sync_def)
next
  show "nd_db n' = nd_db n"
    if "sr_anchor (nd_db n) = Inr manager \<and> dl_frm d \<noteq> manager \<and> on_delivered c fuel status now n d = Inr (n', outs)" for manager n' outs
    using that delivered_keeps_db by blast
qed

section \<open>Requests that raise\<close>

text \<open>
  C37: Requests that end a node. An exception that leaves a handler ends the process, and these
  requests raise. A submission that does not decode, from anyone; a count of the rows of a store whose
  number does not fit 64 bits, from anyone who may ask a light client's questions; and a question for
  blocks from a number that does not fit 64 bits, from anyone who may replicate.
\<close>

theorem malformed_requests_end_the_node:
  assumes "not_awaited n d"
  shows "(dl_verb d = V_SUBMIT \<and> stx_decode (dl_body d) = Inl e \<longrightarrow> on_delivered c fuel status now n d = Inl e) \<and>
    (dl_verb d = V_COUNT_PREFIX \<and> dl_body d = lite_encode_inner (LCountPrefix r) \<and> lite_ok (LCountPrefix r) \<and>
       lite_authorised c (nd_db n) (dl_frm d) = Inr True \<and> \<not> in_range (cp_store_id r) \<longrightarrow>
       on_delivered c fuel status now n d = Inl OverflowError) \<and>
    (dl_verb d = V_GETBLOCK \<and> dl_body d = sync_encode_inner (GetBlocks frm cnt) \<and> sync_ok (GetBlocks frm cnt) \<and>
       replica_authorised c (nd_db n) (dl_frm d) = Inr True \<and> \<not> in_range frm \<and> 1 \<le> cnt \<and> 1 \<le> pull_batch (nd_tunables n) \<longrightarrow>
       on_delivered c fuel status now n d = Inl OverflowError)"
proof (intro conjI impI; elim conjE)
  note go = delivered_dispatch[OF assms]
  show "on_delivered c fuel status now n d = Inl e" if "dl_verb d = V_SUBMIT" "stx_decode (dl_body d) = Inl e"
    using that by (simp add: go CONSENSUS_ONLY_def dispatch_def on_submit_def)
  show "on_delivered c fuel status now n d = Inl OverflowError"
    if "dl_verb d = V_COUNT_PREFIX" "dl_body d = lite_encode_inner (LCountPrefix r)" "lite_ok (LCountPrefix r)"
      "lite_authorised c (nd_db n) (dl_frm d) = Inr True" "\<not> in_range (cp_store_id r)"
    using that lite_wire.dec_enc[OF that(3)]
    by (simp add: go CONSENSUS_ONLY_def dispatch_def answering_def on_count_prefix_def lite_request_def serve_count_prefix_def sr_count_prefix_def)
  show "on_delivered c fuel status now n d = Inl OverflowError"
    if "dl_verb d = V_GETBLOCK" "dl_body d = sync_encode_inner (GetBlocks frm cnt)" "sync_ok (GetBlocks frm cnt)"
      "replica_authorised c (nd_db n) (dl_frm d) = Inr True" "\<not> in_range frm" "1 \<le> cnt" "1 \<le> pull_batch (nd_tunables n)"
  proof -
    note hyp = that
    obtain k where k: "nat (min cnt (pull_batch (nd_tunables n))) = Suc k"
      using hyp(6,7) by (cases "nat (min cnt (pull_batch (nd_tunables n)))") auto
    show ?thesis
      using hyp sync_wire.dec_enc[OF hyp(3)]
      by (simp add: go CONSENSUS_ONLY_def dispatch_def answering_def on_getblock_def serve_getblocks_def k sr_settled_at_def)
  qed
qed

section \<open>Proofs for light clients\<close>

lemma proof_bencodable:
  assumes "list_all (\<lambda>d. length d = 32) sibs" "\<And>p d. occ = Some (p, d) \<Longrightarrow> length p = 32 \<and> length d = 32"
  shows "proof_ok \<lparr>pf_siblings = sibs, pf_occupant = occ\<rparr>"
proof -
  have "fold max (map bdepth (map BBytes sibs)) 0 = 0" by (induction sibs) auto
  then have "bvalid (bytes_seq sibs) \<and> bdepth (bytes_seq sibs) \<le> 1"
    using assms(1) by (auto simp: bytes_seq_def list_all_iff small_int_digits bdepth.simps)
  then show ?thesis
    using assms
    by (cases occ) (auto simp: proof_ok_def proof_bval_def bytes_seq_def bencodable_def MAX_DEPTH_codec_def bdepth.simps small_int_digits)
qed

lemma prove_encodable:
  assumes "digest_width c" "rows_ok live" "keyed c live" "memo_ok c live memo"
    "own_path c live store name" "length (subtree live (path_of c store name) 255) \<le> 1"
  shows "\<exists>pf memo'. prove c False live store name memo = Inr (pf, memo') \<and> proof_decode (proof_encode pf) = Inr pf \<and>
    smt_verify c (node_hash c live (replicate 32 0) 0) store name (live_get live store name) pf = Inr True"
proof -
  let ?p = "path_of c store name"
  have p: "length ?p = 32" using length_path_of[OF assms(1)] .
  have "sibling_path c live ?p []" by (simp add: sibling_path_def)
  from prove_from_sibling_path[OF assms(1,2) p assms(6,4) this, of MAX_DEPTH False]
  obtain sibs memo' where pf: "prove c False live store name memo =
      Inr (\<lparr>pf_siblings = sibs, pf_occupant = (if subtree live ?p (length sibs) = [] then None
         else Some (leaf_of c (hd (subtree live ?p (length sibs)))))\<rparr>, memo')"
      "sibling_path c live ?p sibs" "length sibs \<le> 256" "length (subtree live ?p (length sibs)) \<le> 1"
    unfolding prove_def by (auto simp: MAX_DEPTH_def)
  have sibs: "list_all (\<lambda>d. length d = 32) sibs"
    using pf(2) length_node_hash[OF assms(1)] by (auto simp: sibling_path_def list_all_length)
  have "length (fst (leaf_of c r)) = 32 \<and> length (snd (leaf_of c r)) = 32" if "r \<in> set live" for r
    using rows_okD(1)[OF assms(2) that] length_row_digest[OF assms(1)] by (simp add: leaf_of_def)
  moreover have "hd (subtree live ?p (length sibs)) \<in> set live" if "subtree live ?p (length sibs) \<noteq> []"
    using hd_in_set[OF that] by (simp add: subtree_def)
  ultimately have "proof_ok \<lparr>pf_siblings = sibs, pf_occupant = (if subtree live ?p (length sibs) = [] then None
         else Some (leaf_of c (hd (subtree live ?p (length sibs)))))\<rparr>"
    by (intro proof_bencodable[OF sibs]) (auto split: if_splits, metis fst_conv, metis snd_conv)
  moreover have "node_hash c live (replicate 32 0) 0 = node_hash c live ?p 0" by (rule node_hash_cong) simp
  ultimately show ?thesis
    using pf(1) verify_node_hash[OF assms(2,3,5,1) pf(2-4)] proof_wire.dec_enc by metis
qed

text \<open>The head block of a store describes its state.\<close>

definition head_describes :: "prims \<Rightarrow> Db \<Rightarrow> int \<Rightarrow> SettledBlock \<Rightarrow> bool" where
  "head_describes c db hn sb \<longleftrightarrow>
     lite_head db = Some hn \<and> sr_settled_at db hn = Inr (Some (sb_encode sb)) \<and> sb_ok sb \<and>
     sr_state_root c db = Inr (an_state_root (sb_anchors sb))"

text \<open>What a light client checks of a reply: the proof against the root of the head block beside it.\<close>

definition reply_verifies :: "prims \<Rightarrow> int \<Rightarrow> ProofReply \<Rightarrow> bool" where
  "reply_verifies c store p \<longleftrightarrow>
     (\<exists>pf. proof_decode (pp_proof p) = Inr pf \<and>
        smt_verify c (an_state_root (sb_anchors (pp_head p))) store (pp_name p)
          (if pp_absent p then None else Some \<lparr>held_value = pp_value p, held_epoch = pp_epoch p, held_cred = pp_credential p\<rparr>) pf = Inr True)"

text \<open>
  C9: A light client's proof verifies. On a store whose head block describes its state, a node that has
  a roster commitment answers a well-formed question for a row at its own head: with the row it
  holds, or with its absence, the head block, and a proof that decodes and verifies against the state
  root in that very block.
\<close>

theorem served_proofs_verify:
  assumes "digest_width c" "db_ok c db" "head_describes c db hn sb" "mgmt_reader c db = Inr m" "roster_commitment c m = Inr (Some rc)"
    "1 \<le> gp_block_num r" "gp_block_num r \<le> hn" "gp_name r \<noteq> []" "in_range (gp_store_id r)"
    "check_trusted c db hn (gp_known_trusted_block r) = Inr None" "headers_since db (gp_known_trusted_block r) hn cap = Inr hs"
    "bundle_for c m rc (gp_known_roster_fingerprint r) = Inr bundle"
    "own_path c (db_live db) (gp_store_id r) (gp_name r)" "length (subtree (db_live db) (path_of c (gp_store_id r) (gp_name r)) 255) \<le> 1"
  shows "\<exists>p. serve_get_proof c db r cap = Inr (LProofReply p) \<and> pp_name p = gp_name r \<and> pp_head p = sb \<and> pp_headers p = hs \<and>
    pp_absent p = (live_get (db_live db) (gp_store_id r) (gp_name r) = None) \<and> reply_verifies c (gp_store_id r) p"
proof -
  let ?live = "db_live db"
  have db: "rows_ok ?live" "keyed c ?live" "memo_ok c ?live (db_memo db)" using assms(2) by (simp_all add: db_ok_def table_ok_def)
  obtain pf memo' where pf: "prove c False ?live (gp_store_id r) (gp_name r) (db_memo db) = Inr (pf, memo')" "proof_decode (proof_encode pf) = Inr pf"
      "smt_verify c (node_hash c ?live (replicate 32 0) 0) (gp_store_id r) (gp_name r) (live_get ?live (gp_store_id r) (gp_name r)) pf = Inr True"
    using prove_encodable[OF assms(1) db(1,2,3) assms(13,14)] by blast
  have hd: "lite_head db = Some hn" "sr_settled_at db hn = Inr (Some (sb_encode sb))" "sb_decode (sb_encode sb) = Inr sb"
      "sr_state_root c db = Inr (an_state_root (sb_anchors sb))"
    using assms(3) by (simp_all add: head_describes_def sb_wire.dec_enc)
  have root: "an_state_root (sb_anchors sb) = node_hash c ?live (replicate 32 0) 0"
    using hd(4) hash_under_node_hash[OF assms(1) db(1,3), of "replicate 32 0" 0 False]
    by (auto simp: sr_state_root_def tree_root_def DIGEST_SIZE_def)
  have "rc_attests c rc"
    using assms(5) by (auto simp: roster_commitment_def rbind_Inr_conv Let_def split: if_splits sum.splits)
  then have fp: "Digest (ct_subject (rc_cert rc)) = Inr (ct_subject (rc_cert rc))"
    using assms(1) by (simp add: rc_attests_def rc_subject_def fixed_def h_def digest_width_def DIGEST_SIZE_def)
  have pv: "sr_prove c db (gp_store_id r) (gp_name r) = Inr pf" using pf(1) by (simp add: sr_prove_def)
  show ?thesis
  proof (cases "live_get ?live (gp_store_id r) (gp_name r)")
    case None
    then show ?thesis using assms(4-12) hd fp pf(2,3) root pv by (auto simp: serve_get_proof_def sr_get_eq reply_verifies_def)
  next
    case (Some x)
    then show ?thesis using assms(4-12) hd fp pf(2,3) root pv by (cases x) (auto simp: serve_get_proof_def sr_get_eq reply_verifies_def)
  qed
qed

section \<open>A store with a roster commitment\<close>

definition lite_rc :: RosterCommitment where
  "lite_rc = (let fp = rc_fingerprint (sample []) [] in
     \<lparr>rc_serial = 1, rc_members = [], rc_state_fingerprint = fp,
      rc_cert = cert_sign (sample []) [1] (h (sample []) (rc_content 1 [] fp)) CERT_PURPOSE_ROSTER_COMMITMENT\<rparr>)"

definition lite_row :: live_row where
  "lite_row = mk_row (sample []) (0, P_ROSTER) \<lparr>held_value = rc_encode_row lite_rc, held_epoch = 0, held_cred = []\<rparr>"

definition lite_anchors :: Anchors where
  "lite_anchors = \<lparr>an_block_num = 1, an_height = 0, an_prev_block = replicate 32 0,
     an_state_root = node_hash (sample []) [lite_row] (replicate 32 0) 0, an_acc_state = replicate 32 0, an_acc_log = replicate 32 0\<rparr>"

definition lite_sb :: SettledBlock where
  "lite_sb = \<lparr>sb_block = \<lparr>bl_bucket = 4, bl_hashes = []\<rparr>, sb_anchors = lite_anchors, sb_multisig = \<lparr>ms_bitmap = [], ms_sigs = []\<rparr>\<rparr>"

definition db_lite :: Db where
  "db_lite = set_meta ''acc'' (acc_sum (sample []) [lite_row]) (set_meta ''anchor'' (kp_public (sample []) [1])
     db_empty\<lparr>db_live := [lite_row], db_block := [\<lparr>bk_block_num = 1, bk_first_height = 1, bk_height = 0, bk_bytes = sb_encode lite_sb,
        bk_hash = block_hash (sample []) lite_sb\<rparr>]\<rparr>)"

lemma lite_laws: "digest_width (sample [])" "sign_correct (sample [])" "length (kp_public (sample []) [1]) = 32"
    "length (kp_sign (sample []) sd msg) = 64" "length (h (sample []) msg) = 32"
  using sample_digest_width by (simp_all add: sample_sign_correct) (simp_all add: kp_public_def kp_sign_def h_def sample_def digest_width_def)

lemma lite_rc_row: "rc_decode_row (rc_encode_row lite_rc) = Inr lite_rc" "rc_attests (sample []) lite_rc" "rc_members lite_rc = []"
    "rc_state_fingerprint lite_rc = rc_fingerprint (sample []) []" "ct_signer (rc_cert lite_rc) = kp_public (sample []) [1]"
    "cert_verify (sample []) (rc_cert lite_rc)" "ct_purpose (rc_cert lite_rc) = CERT_PURPOSE_ROSTER_COMMITMENT"
proof -
  let ?ct = "rc_cert lite_rc"
  have len: "length (ct_signer ?ct) = 32" "length (ct_sig ?ct) = 64" "length (ct_subject ?ct) = 32" "length (ct_purpose ?ct) < 50"
      "length (rc_state_fingerprint lite_rc) = 32" "rc_serial lite_rc = 1" "rc_members lite_rc = []"
    by (simp_all add: lite_rc_def cert_sign_def lite_laws CERT_PURPOSE_ROSTER_COMMITMENT_def Let_def rc_fingerprint_def)
  have ok: "cert_ok ?ct" using len by (simp add: cert_ok_def cert_bval_def small_bval)
  have "length (nat_ascii (length (ct_purpose ?ct))) \<le> 3" using length_nat_ascii_pow[of "length (ct_purpose ?ct)" 2] len by simp
  then have "length (cert_encode ?ct) < 300"
    using len by (simp add: cert_encode_def cert_bval_def benc.simps encode_bytes_def int_ascii_def nat_ascii.simps)
  then have "bencodable (BSeq [BInt 1, bytes_seq [], BBytes (rc_state_fingerprint lite_rc), BBytes (cert_encode ?ct)])"
    using len by (simp add: small_bval bytes_seq_def)
  then show "rc_decode_row (rc_encode_row lite_rc) = Inr lite_rc"
    using len cert_wire.dec_enc[OF ok] by (simp add: rc_decode_row_def rc_encode_row_def bytes_seq_def DIGEST_SIZE_def)
  show "rc_attests (sample []) lite_rc" "rc_members lite_rc = []"
    "rc_state_fingerprint lite_rc = rc_fingerprint (sample []) []" "ct_signer ?ct = kp_public (sample []) [1]"
    "cert_verify (sample []) ?ct" "ct_purpose ?ct = CERT_PURPOSE_ROSTER_COMMITMENT"
    using lite_laws(2) by (simp_all add: lite_rc_def rc_attests_def rc_subject_def cert_sign_def cert_verify_def Let_def)
qed

lemma lite_sel: "db_live db_lite = [lite_row]" "db_memo db_lite = Map.empty" "get_meta db_lite ''anchor'' [] = kp_public (sample []) [1]"
    "get_meta db_lite ''acc'' ACC_IDENTITY = acc_sum (sample []) [lite_row]"
    "lr_store lite_row = 0" "lr_name lite_row = P_ROSTER" "lr_epoch lite_row = 0" "lr_path lite_row = path_of (sample []) 0 P_ROSTER"
  by (simp_all add: db_lite_def set_meta_def db_empty_def get_meta_def lite_row_def mk_row_def)

lemma lite_table: "table_ok (sample []) [lite_row]"
  using length_path_of[OF lite_laws(1)] by (simp add: table_ok_def rows_ok_def keyed_def lite_sel)

lemma lite_db_ok: "db_ok (sample []) db_lite"
  using lite_table by (simp add: db_ok_def lite_sel in_range_def)

lemma lite_anchor: "sr_anchor db_lite = Inr (kp_public (sample []) [1])"
  using lite_laws(3) by (auto simp: sr_anchor_def lite_sel fixed_def Let_def)

lemma lite_head_describes: "head_describes (sample []) db_lite 1 lite_sb"
proof -
  have len: "length (node_hash (sample []) [lite_row] (replicate 32 0) 0) = 32" by (rule length_node_hash[OF lite_laws(1)])
  have "length (identity_bytes lite_sb) < 4096"
    using len by (simp add: identity_bytes_def identity_bval_def anchors_fields_def lite_sb_def lite_anchors_def bytes_seq_def
      hashes_canonical_def benc.simps encode_bytes_def int_ascii_def nat_ascii.simps)
  then have "sb_ok lite_sb"
    using len by (simp add: sb_ok_def identity_bval_def sb_bval_def small_bval bytes_seq_def anchors_fields_def anchors_ok_def)
      (simp add: lite_sb_def lite_anchors_def hashes_canonical_def small_bval)
  moreover have "lite_head db_lite = Some 1" "sr_settled_at db_lite 1 = Inr (Some (sb_encode lite_sb))"
    by (simp_all add: lite_head_def sr_head_block_num_def sr_settled_at_def find_block_def in_range_def db_lite_def set_meta_def)
  moreover have "sr_state_root (sample []) db_lite = Inr (an_state_root (sb_anchors lite_sb))"
    using hash_under_node_hash[OF lite_laws(1), of "[lite_row]" Map.empty "replicate 32 0" 0 False] lite_table
    by (auto simp: sr_state_root_def tree_root_def table_ok_def lite_sel DIGEST_SIZE_def lite_sb_def lite_anchors_def)
  ultimately show ?thesis by (simp add: head_describes_def)
qed

definition lite_mgmt :: MgmtReader where
  "lite_mgmt = \<lparr>mg_session = \<lparr>se_reader = store_reader (sample []) db_lite, se_store_id = 0\<rparr>, mg_anchor = kp_public (sample []) [1]\<rparr>"

lemma lite_get: "sr_get db_lite 0 nm = Inr (if nm = P_ROSTER then Some \<lparr>held_value = rc_encode_row lite_rc, held_epoch = 0, held_cred = []\<rparr> else None)"
  by (simp add: sr_get_eq in_range_def lite_sel live_get_def held_of_def) (simp add: lite_row_def mk_row_def)

lemma lite_map_get: "nm \<noteq> P_ROSTER \<Longrightarrow> mmap_get (mg_session lite_mgmt) nm = Inr None"
  by (simp add: mmap_get_def session_get_def get_record_def session_token_def session_decrypt_def store_reader_sel lite_get lite_mgmt_def)

lemma lite_reader: "mgmt_reader (sample []) db_lite = Inr lite_mgmt" "roster_commitment (sample []) lite_mgmt = Inr (Some lite_rc)"
proof -
  show "mgmt_reader (sample []) db_lite = Inr lite_mgmt"
    by (simp add: mgmt_reader_def mgmt_new_def session_anchor_def store_reader_sel lite_anchor lite_mgmt_def)
  have "mg_nodes lite_mgmt = Inr []"
    using lite_map_get[of "meta_name P_NODE"]
    by (simp add: mg_nodes_def mmap_keys_def mmap_meta_def map_filter_simps dict_update_def meta_name_def P_NODE_def P_ROSTER_def)
  moreover have "verify_cert (sample []) lite_mgmt (rc_cert lite_rc) None = Inr True"
    using lite_rc_row by (simp add: verify_cert_def anchor_only_purposes_def anchor_or_manager_purposes_def lite_mgmt_def)
  ultimately show "roster_commitment (sample []) lite_mgmt = Inr (Some lite_rc)"
    using lite_rc_row
    by (simp add: roster_commitment_def session_get_def get_record_def session_token_def session_decrypt_def)
      (simp add: store_reader_sel lite_get lite_mgmt_def)
qed

theorem served_proofs_verify_witness:
  "\<exists>p. serve_get_proof (sample []) db_lite \<lparr>gp_store_id = 0, gp_name = P_ROSTER, gp_block_num = 1,
       gp_known_roster_fingerprint = Some (replicate 32 0), gp_known_trusted_block = None\<rparr> 2 = Inr (LProofReply p) \<and>
     \<not> pp_absent p \<and> reply_verifies (sample []) 0 p"
proof -
  let ?r = "\<lparr>gp_store_id = 0, gp_name = P_ROSTER, gp_block_num = 1, gp_known_roster_fingerprint = Some (replicate 32 0), gp_known_trusted_block = None\<rparr>"
  have "own_path (sample []) (db_live db_lite) (gp_store_id ?r) (gp_name ?r)" "length (subtree (db_live db_lite) (path_of (sample []) (gp_store_id ?r) (gp_name ?r)) 255) \<le> 1"
      "live_get (db_live db_lite) 0 P_ROSTER \<noteq> None"
    by (simp_all add: own_path_def lite_sel subtree_def live_get_def)
  then show ?thesis
    using served_proofs_verify[OF lite_laws(1) lite_db_ok lite_head_describes lite_reader, of ?r 2 "[]" None]
    by (auto simp: P_ROSTER_def in_range_def check_trusted_def headers_since_def bundle_for_def)
qed

section \<open>A node with that store\<close>

definition lite_node :: Node where
  "lite_node = \<lparr>nd_co = co_new [1] db_lite DEFAULT, nd_fo = follower_new [1] db_lite DEFAULT, nd_checkpoint_server = None,
     nd_inflight = {}, nd_commit_seq = 0, nd_downloading = False\<rparr>"

definition ask_of :: "public_key \<Rightarrow> Verb \<Rightarrow> bytes \<Rightarrow> Delivered" where
  "ask_of frm v body = \<lparr>dl_frm = frm, dl_mid = [], dl_verb = v, dl_body = body, dl_in_reply_to = None\<rparr>"

lemma lite_node_sel: "nd_db lite_node = db_lite" "not_awaited lite_node (ask_of frm v body)"
    "dl_frm (ask_of frm v body) = frm" "dl_verb (ask_of frm v body) = v" "dl_body (ask_of frm v body) = body"
    "pull_batch (nd_tunables lite_node) = 32"
  by (simp_all add: nd_db_def lite_node_def co_new_def not_awaited_def ask_of_def nd_tunables_def DEFAULT_def)

lemma lite_outsider: "outsider (sample []) db_lite (replicate 32 9)"
proof -
  have "mmap_entry (mg_session lite_mgmt) P_NODE who = Inr None" "mmap_entry (mg_session lite_mgmt) P_GRANT who = Inr None" for who
    using lite_map_get[of "entry_name P_NODE who"] lite_map_get[of "entry_name P_GRANT who"]
    by (simp_all add: mmap_entry_def entry_name_def P_NODE_def P_GRANT_def P_ROSTER_def)
  moreover have "replicate 32 9 \<noteq> kp_public (sample []) [1]" by (simp add: kp_public_def sample_def) code_simp
  ultimately show ?thesis by (simp add: outsider_def lite_anchor lite_reader is_member_def read_grant_def)
qed

theorem outsiders_are_confined_witness:
  "\<exists>outs. on_delivered (sample []) 5 (\<lambda>_. []) 7 lite_node (ask_of (replicate 32 9) V_GET_PROOF []) = Inr (lite_node, outs) \<and>
     set outs \<subseteq> unauthorised_replies (ask_of (replicate 32 9) V_GET_PROOF [])"
  using outsiders_are_confined[of "sample []" lite_node "ask_of (replicate 32 9) V_GET_PROOF []" 5 "\<lambda>_. []" 7] lite_outsider
  by (auto simp: lite_node_sel)

theorem malformed_requests_end_the_node_witness:
  "on_delivered (sample []) 5 (\<lambda>_. []) 7 lite_node (ask_of (replicate 32 9) V_SUBMIT []) = Inl CodecError \<and>
   on_delivered (sample []) 5 (\<lambda>_. []) 7 lite_node (ask_of (kp_public (sample []) [1]) V_COUNT_PREFIX
     (lite_encode_inner (LCountPrefix \<lparr>cp_store_id = 2 ^ 63, cp_prefix = []\<rparr>))) = Inl OverflowError \<and>
   on_delivered (sample []) 5 (\<lambda>_. []) 7 lite_node (ask_of (kp_public (sample []) [1]) V_GETBLOCK (sync_encode_inner (GetBlocks (2 ^ 63) 1))) = Inl OverflowError"
proof -
  have bad: "stx_decode [] = Inl CodecError" by code_simp
  have digits: "int_digits (2 ^ 63) \<le> MAX_INT_DIGITS"
    using length_nat_ascii_pow[of "2 ^ 63" 18] by (simp add: int_digits_def MAX_INT_DIGITS_def nat_power_eq)
  have ok: "lite_ok (LCountPrefix \<lparr>cp_store_id = 2 ^ 63, cp_prefix = []\<rparr>)" "sync_ok (GetBlocks (2 ^ 63) 1)"
    using digits by (simp_all add: count_prefix_bval_def bencodable_def MAX_DEPTH_codec_def bdepth.simps small_int_digits)
  have "lite_authorised (sample []) db_lite (kp_public (sample []) [1]) = Inr True" "replica_authorised (sample []) db_lite (kp_public (sample []) [1]) = Inr True"
    by (simp_all add: lite_authorised_def replica_authorised_def lite_anchor)
  moreover have "\<not> in_range (2 ^ 63)" by (simp add: in_range_def)
  ultimately show ?thesis
    using malformed_requests_end_the_node[OF lite_node_sel(2)[of "replicate 32 9" V_SUBMIT "[]"], of CodecError "sample []" 5 "\<lambda>_. []" 7] bad
      malformed_requests_end_the_node[OF lite_node_sel(2)[of "kp_public (sample []) [1]" V_COUNT_PREFIX
        "lite_encode_inner (LCountPrefix \<lparr>cp_store_id = 2 ^ 63, cp_prefix = []\<rparr>)"], of CodecError "sample []" 5 "\<lambda>_. []" 7
        "\<lparr>cp_store_id = 2 ^ 63, cp_prefix = []\<rparr>"]
      malformed_requests_end_the_node[OF lite_node_sel(2)[of "kp_public (sample []) [1]" V_GETBLOCK "sync_encode_inner (GetBlocks (2 ^ 63) 1)"],
        of CodecError "sample []" 5 "\<lambda>_. []" 7 _ "2 ^ 63" 1] ok
    unfolding lite_node_sel by auto
qed

end
