(* ===== verification/Lite_Client.thy ===== *)
theory Lite_Client
  imports Node
begin

text \<open>
  \<^verbatim>\<open>dude/sync/lite_client.py\<close>: a light client keeps no state of its own. It learns the
  roster and a head block from several nodes, walks its head along settled blocks, and believes a row
  only with a proof against the head it trusts. The handlers run on the event loop of the client; the
  clock readings are arguments; a request is registered in \<open>lc_inflight\<close> under the message
  identifier the argument \<open>mids\<close> draws for it, and returned.
  The callbacks \<^verbatim>\<open>on_ready\<close>, \<^verbatim>\<open>on_block\<close> and \<^verbatim>\<open>on_trust_lost\<close> are appended to
  \<open>lc_signals\<close>. A dict is an association list in insertion order.
\<close>

section \<open>State\<close>

datatype LcState = UNBOOTSTRAPPED | BOOTSTRAPPING | READY | FAILED

record TrustedState =
  ts_roster :: "public_key list"
  ts_managers :: "public_key list"
  ts_node_endpoints :: "(public_key \<times> Endpoint list) list"
  ts_roster_fingerprint :: digest
  ts_head :: SettledBlock

record GetResult =
  gt_value :: bytes
  gt_credential :: bytes
  gt_absent :: bool
  gt_epoch :: int
  gt_block_num :: int
  gt_state_root :: digest

datatype ReadResult = Got GetResult | Failed bytes

record PeerView =
  pv_last_block_num :: int
  pv_last_activity :: int
  pv_consecutive_failures :: int

record ReadReq =
  rq_peer :: public_key
  rq_store_id :: int
  rq_name :: bytes
  rq_result :: "ReadResult option"

record NthHandle =
  nh_store_id :: int
  nh_done :: bool
  nh_result :: "(bytes \<times> Held) option"

record SubmitFanOut =
  fan_total :: int
  fan_accepted :: bool
  fan_refuse_count :: int
  fan_reply :: "(public_key option \<times> Verb \<times> bytes) option"

text \<open>The handles of the pending requests; those of one submission share the fan at an index of \<open>lc_fans\<close>.\<close>

datatype LcHandle =
    HRead ReadReq
  | HBootstrap public_key
  | HCount "int option"
  | HNth NthHandle
  | HTx public_key "SettleResult option"
  | HSubmit public_key nat

record BootstrapReply =
  br_fingerprint :: "digest option"
  br_bundle :: "RosterBundle option"
  br_anchors_reply :: "AnchorsReply option"

datatype LcSignal = OnReady TrustedState | OnBlock SettledBlock | OnTrustLost

record LightClient =
  lc_me :: seed
  lc_anchor :: public_key
  lc_tunables :: Tunables
  lc_state :: LcState
  lc_trusted :: "TrustedState option"
  lc_bootstrap_peers :: "(public_key \<times> BootstrapReply) list"
  lc_peer_views :: "(public_key \<times> PeerView) list"
  lc_inflight :: "(bytes \<times> LcHandle) list"
  lc_fans :: "SubmitFanOut list"
  lc_draws :: nat
  lc_commit_seq :: int
  lc_signals :: "LcSignal list"

definition lc_new :: "seed \<Rightarrow> public_key \<Rightarrow> Tunables \<Rightarrow> LightClient" where
  "lc_new me anchor t = \<lparr>lc_me = me, lc_anchor = anchor, lc_tunables = t, lc_state = UNBOOTSTRAPPED, lc_trusted = None,
     lc_bootstrap_peers = [], lc_peer_views = [], lc_inflight = [], lc_fans = [], lc_draws = 0, lc_commit_seq = 0, lc_signals = []\<rparr>"

definition lc_signal :: "LcSignal \<Rightarrow> LightClient \<Rightarrow> LightClient" where
  "lc_signal s lc = lc\<lparr>lc_signals := lc_signals lc @ [s]\<rparr>"

section \<open>Requests\<close>

record LcOut =
  lo_peer :: public_key
  lo_verb :: Verb
  lo_body :: bytes
  lo_mid :: MessageId

definition request_raw :: "(nat \<Rightarrow> MessageId) \<Rightarrow> public_key \<Rightarrow> Verb \<Rightarrow> bytes \<Rightarrow> LcHandle \<Rightarrow> LightClient \<Rightarrow> LightClient \<times> LcOut" where
  "request_raw mids peer verb body hdl lc =
     (let mid = mids (lc_draws lc) in
      (lc\<lparr>lc_inflight := AList.update (correlation_id mid) hdl (lc_inflight lc), lc_draws := Suc (lc_draws lc)\<rparr>,
       \<lparr>lo_peer = peer, lo_verb = verb, lo_body = body, lo_mid = mid\<rparr>))"

definition lc_request :: "(nat \<Rightarrow> MessageId) \<Rightarrow> public_key \<Rightarrow> LiteMsg \<Rightarrow> LcHandle \<Rightarrow> LightClient \<Rightarrow> LightClient \<times> LcOut" where
  "lc_request mids peer msg = request_raw mids peer (lite_verb msg) (lite_encode_inner msg)"

section \<open>Views of the peers\<close>

definition blank_view :: PeerView where
  "blank_view = \<lparr>pv_last_block_num = 0, pv_last_activity = 0, pv_consecutive_failures = 0\<rparr>"

definition peer_view :: "public_key \<Rightarrow> LightClient \<Rightarrow> PeerView" where
  "peer_view peer lc = (case map_of (lc_peer_views lc) peer of None \<Rightarrow> blank_view | Some v \<Rightarrow> v)"

definition set_view :: "public_key \<Rightarrow> PeerView \<Rightarrow> LightClient \<Rightarrow> LightClient" where
  "set_view peer v lc = lc\<lparr>lc_peer_views := AList.update peer v (lc_peer_views lc)\<rparr>"

definition note_read_result :: "ReadReq \<Rightarrow> int \<Rightarrow> LightClient \<Rightarrow> LightClient" where
  "note_read_result req now lc =
     (let pv = (peer_view (rq_peer req) lc)\<lparr>pv_last_activity := now\<rparr> in
      set_view (rq_peer req)
        (case rq_result req of
           Some (Got g) \<Rightarrow> pv\<lparr>pv_last_block_num := gt_block_num g, pv_consecutive_failures := 0\<rparr>
         | Some (Failed _) \<Rightarrow> pv\<lparr>pv_consecutive_failures := pv_consecutive_failures pv + 1\<rparr>
         | None \<Rightarrow> pv) lc)"

section \<open>Certificates of the roster\<close>

definition verify_grant_cert :: "prims \<Rightarrow> Grant \<Rightarrow> public_key \<Rightarrow> Role \<Rightarrow> bool" where
  "verify_grant_cert c grant anchor expected_role \<longleftrightarrow>
     gr_role grant = expected_role \<and> ct_subject (gr_cert grant) = gr_identity grant \<and>
     ct_purpose (gr_cert grant) = role_value expected_role \<and> cert_verify c (gr_cert grant) \<and>
     \<not> (expected_role \<in> {MANAGER, COMPACTOR} \<and> ct_signer (gr_cert grant) \<noteq> anchor)"

definition verify_bundle :: "prims \<Rightarrow> public_key \<Rightarrow> RosterBundle \<Rightarrow> bool" where
  "verify_bundle c anchor b \<longleftrightarrow>
     (let manager_pubkeys = gr_identity ` set (rb_managers b); ct = rb_commitment_cert b in
      list_all (\<lambda>g. verify_grant_cert c g anchor MANAGER) (rb_managers b) \<and>
      (ct_signer ct = anchor \<or> ct_signer ct \<in> manager_pubkeys) \<and>
      ct_purpose ct = CERT_PURPOSE_ROSTER_COMMITMENT \<and> cert_verify c ct \<and>
      ct_subject ct = h c (rc_content (rb_commitment_serial b) (rb_commitment_members b) (rc_fingerprint c (rb_entries b))) \<and>
      list_all (\<lambda>r. ct_subject (nr_cert r) = nr_identity r \<and> ct_purpose (nr_cert r) = CERT_PURPOSE_ROSTER \<and>
        cert_verify c (nr_cert r) \<and> (ct_signer (nr_cert r) = anchor \<or> ct_signer (nr_cert r) \<in> manager_pubkeys)) (rb_entries b))"

definition verify_settle_sigs :: "prims \<Rightarrow> public_key \<Rightarrow> AnchorsReply \<Rightarrow> RosterBundle \<Rightarrow> bool res" where
  "verify_settle_sigs c anchor reply bundle =
     az_verify c (block_authorization c (ar_head reply) (sort (rb_commitment_members bundle)) anchor)"

section \<open>Bootstrap\<close>

definition blank_reply :: BootstrapReply where
  "blank_reply = \<lparr>br_fingerprint = None, br_bundle = None, br_anchors_reply = None\<rparr>"

definition add_bootstrap_peer :: "public_key \<Rightarrow> LightClient \<Rightarrow> LightClient" where
  "add_bootstrap_peer peer lc = lc\<lparr>lc_bootstrap_peers := AList.update peer blank_reply (lc_bootstrap_peers lc)\<rparr>"

definition anchors_request :: LiteMsg where
  "anchors_request = LGetAnchors \<lparr>ga_known_roster_fingerprint = None, ga_known_trusted_block = None\<rparr>"

fun ask_for_anchors :: "(nat \<Rightarrow> MessageId) \<Rightarrow> public_key list \<Rightarrow> LightClient \<Rightarrow> LightClient \<times> LcOut list" where
  "ask_for_anchors mids [] lc = (lc, [])"
| "ask_for_anchors mids (peer # peers) lc =
     (let (lc1, m) = lc_request mids peer anchors_request (HBootstrap peer) lc; (lc2, ms) = ask_for_anchors mids peers lc1 in (lc2, m # ms))"

text \<open>The first step of \<^verbatim>\<open>bootstrap\<close>; what follows is a wait for the state to change.\<close>

definition begin_bootstrap :: "(nat \<Rightarrow> MessageId) \<Rightarrow> LightClient \<Rightarrow> (LightClient \<times> LcOut list) res" where
  "begin_bootstrap mids lc =
     (if lc_state lc = UNBOOTSTRAPPED
      then if lc_bootstrap_peers lc = [] then Inl LightClientError
           else Inr (ask_for_anchors mids (map fst (lc_bootstrap_peers lc)) (lc\<lparr>lc_state := BOOTSTRAPPING\<rparr>))
      else Inr (lc, []))"

definition lc_start :: "(nat \<Rightarrow> MessageId) \<Rightarrow> LightClient \<Rightarrow> LightClient \<times> LcOut list" where
  "lc_start mids lc =
     (if lc_state lc = UNBOOTSTRAPPED \<and> lc_bootstrap_peers lc \<noteq> []
      then ask_for_anchors mids (map fst (lc_bootstrap_peers lc)) (lc\<lparr>lc_state := BOOTSTRAPPING\<rparr>)
      else (lc, []))"

definition reply_stale :: "Tunables \<Rightarrow> int \<Rightarrow> AnchorsReply \<Rightarrow> bool" where
  "reply_stale t now r = is_stale (bl_bucket (sb_block (ar_head r))) now t"

definition waiting_peers :: "LightClient \<Rightarrow> public_key list" where
  "waiting_peers lc = List.map_filter (\<lambda>(_, hdl). case hdl of HBootstrap p \<Rightarrow> Some p | _ \<Rightarrow> None) (lc_inflight lc)"

definition ask_stale_peers :: "(nat \<Rightarrow> MessageId) \<Rightarrow> int \<Rightarrow> LightClient \<Rightarrow> LightClient \<times> LcOut list" where
  "ask_stale_peers mids now lc =
     ask_for_anchors mids (map fst (filter (\<lambda>(peer, entry). peer \<notin> set (waiting_peers lc) \<and>
       (case br_anchors_reply entry of None \<Rightarrow> True | Some r \<Rightarrow> reply_stale (lc_tunables lc) now r)) (lc_bootstrap_peers lc))) lc"

definition on_check_stale_peers :: "(nat \<Rightarrow> MessageId) \<Rightarrow> int \<Rightarrow> LightClient \<Rightarrow> LightClient \<times> LcOut list" where
  "on_check_stale_peers mids now lc = (if lc_state lc = BOOTSTRAPPING then ask_stale_peers mids now lc else (lc, []))"

definition promote_to_ready :: "digest \<Rightarrow> BootstrapReply \<Rightarrow> LightClient \<Rightarrow> LightClient res" where
  "promote_to_ready fingerprint corroborated lc =
     (case (br_bundle corroborated, br_anchors_reply corroborated) of
        (Some bundle, Some reply) \<Rightarrow>
          let ts = \<lparr>ts_roster = sort (rb_commitment_members bundle), ts_managers = sort (map gr_identity (rb_managers bundle)),
                ts_node_endpoints = dict_update [] (map (\<lambda>r. (nr_identity r, nr_endpoints r)) (rb_entries bundle)),
                ts_roster_fingerprint = fingerprint, ts_head = ar_head reply\<rparr>
          in Inr (lc_signal (OnReady ts) (lc\<lparr>lc_trusted := Some ts, lc_state := READY\<rparr>))
      | _ \<Rightarrow> Inl LightClientError)"

text \<open>The entries that count, grouped by the fingerprint they claim, in the order in which each appears first.\<close>

definition fresh_entries :: "int \<Rightarrow> LightClient \<Rightarrow> (digest \<times> BootstrapReply) list" where
  "fresh_entries now lc =
     List.map_filter (\<lambda>(_, e). case (br_fingerprint e, br_anchors_reply e) of
       (Some fp, Some r) \<Rightarrow> if reply_stale (lc_tunables lc) now r then None else Some (fp, e)
     | _ \<Rightarrow> None) (lc_bootstrap_peers lc)"

fun group_entries :: "(digest \<times> BootstrapReply) list \<Rightarrow> (digest \<times> BootstrapReply list) list \<Rightarrow> (digest \<times> BootstrapReply list) list" where
  "group_entries [] agreed = agreed"
| "group_entries ((fp, e) # rest) agreed =
     group_entries rest (AList.update fp ((case map_of agreed fp of None \<Rightarrow> [] | Some es \<Rightarrow> es) @ [e]) agreed)"

fun converge :: "(digest \<times> BootstrapReply list) list \<Rightarrow> LightClient \<Rightarrow> LightClient res" where
  "converge [] lc = Inr lc"
| "converge ((fp, entries) # rest) lc =
     (case entries of
        [] \<Rightarrow> Inl IndexError
      | first # _ \<Rightarrow>
          (case (br_bundle first, br_anchors_reply first) of
             (Some bundle, Some _) \<Rightarrow>
               rbind (corroboration (int (length (rb_commitment_members bundle)))) (\<lambda>threshold.
               if int (length entries) \<ge> threshold then promote_to_ready fp first lc else converge rest lc)
           | _ \<Rightarrow> converge rest lc))"

definition check_bootstrap_convergence :: "int \<Rightarrow> LightClient \<Rightarrow> LightClient res" where
  "check_bootstrap_convergence now lc = converge (group_entries (fresh_entries now lc) []) lc"

definition forget_bootstrap_peer :: "public_key \<Rightarrow> LightClient \<Rightarrow> LightClient" where
  "forget_bootstrap_peer peer lc = lc\<lparr>lc_bootstrap_peers := AList.delete peer (lc_bootstrap_peers lc)\<rparr>"

definition store_reply :: "public_key \<Rightarrow> AnchorsReply \<Rightarrow> RosterBundle \<Rightarrow> int \<Rightarrow> LightClient \<Rightarrow> LightClient" where
  "store_reply peer r bundle now lc =
     set_view peer \<lparr>pv_last_block_num = an_block_num (sb_anchors (ar_head r)), pv_last_activity = now, pv_consecutive_failures = 0\<rparr>
       (lc\<lparr>lc_bootstrap_peers := AList.update peer
         \<lparr>br_fingerprint = Some (ar_roster_fingerprint r), br_bundle = Some bundle, br_anchors_reply = Some r\<rparr> (lc_bootstrap_peers lc)\<rparr>)"

text \<open>
  \<^verbatim>\<open>on_bootstrap_reply\<close> returns what it left behind and, when it raised, the exception: the
  check of the convergence runs after the reply was stored.
\<close>

definition converged :: "int \<Rightarrow> LightClient \<Rightarrow> LightClient \<times> exn option" where
  "converged now lc = (case check_bootstrap_convergence now lc of Inl e \<Rightarrow> (lc, Some e) | Inr lc' \<Rightarrow> (lc', None))"

definition on_bootstrap_reply :: "prims \<Rightarrow> public_key \<Rightarrow> LiteMsg \<Rightarrow> int \<Rightarrow> LightClient \<Rightarrow> LightClient \<times> exn option" where
  "on_bootstrap_reply c peer msg now lc =
     (if lc_state lc \<noteq> BOOTSTRAPPING then (lc, None)
      else case msg of
        LiteRefused _ \<Rightarrow> converged now lc
      | LAnchorsReply r \<Rightarrow>
          (case ar_bundle r of
             None \<Rightarrow> (lc, None)
           | Some bundle \<Rightarrow>
               if \<not> verify_bundle c (lc_anchor lc) bundle then (lc, None)
               else case verify_settle_sigs c (lc_anchor lc) r bundle of
                 Inl e \<Rightarrow> (lc, Some e)
               | Inr good \<Rightarrow> if \<not> good then (lc, None) else converged now (store_reply peer r bundle now lc))
      | _ \<Rightarrow> (lc, None))"

text \<open>\<^verbatim>\<open>_BootstrapRequest.on_reply\<close>.\<close>

definition bootstrap_on_reply :: "prims \<Rightarrow> public_key \<Rightarrow> Verb \<Rightarrow> bytes \<Rightarrow> int \<Rightarrow> LightClient \<Rightarrow> LightClient res" where
  "bootstrap_on_reply c peer verb body now lc =
     (case lite_decode verb body of
        Inl e \<Rightarrow> if is_dude_error e then Inr lc else Inl e
      | Inr msg \<Rightarrow>
          (case on_bootstrap_reply c peer msg now lc of
             (lc', Some e) \<Rightarrow> if is_dude_error e then Inr (forget_bootstrap_peer peer lc') else Inl e
           | (lc', None) \<Rightarrow> Inr lc'))"

section \<open>Walking the head\<close>

definition by_num :: "SettledBlock list \<Rightarrow> int \<Rightarrow> SettledBlock option" where
  "by_num offered = map_of (rev (map (\<lambda>b. (an_block_num (sb_anchors b), b)) offered))"

lemma by_num_Some: "by_num offered n = Some b \<Longrightarrow> b \<in> set offered \<and> an_block_num (sb_anchors b) = n"
  by (auto simp: by_num_def dest!: map_of_SomeD)

function contiguous_from :: "int \<Rightarrow> SettledBlock list \<Rightarrow> SettledBlock list" where
  "contiguous_from hn offered =
     (case by_num offered (hn + 1) of None \<Rightarrow> [] | Some b \<Rightarrow> b # contiguous_from (hn + 1) offered)"
  by pat_completeness auto
termination
proof (relation "measure (\<lambda>(hn, offered). length (filter (\<lambda>b. hn < an_block_num (sb_anchors b)) offered))")
  fix hn :: int and offered :: "SettledBlock list" and b
  assume b: "by_num offered (hn + 1) = Some b"
  have "length (filter (\<lambda>b. hn + 1 < an_block_num (sb_anchors b)) offered) =
      length (filter (\<lambda>b. hn + 1 < an_block_num (sb_anchors b)) (filter (\<lambda>b. hn < an_block_num (sb_anchors b)) offered))"
    by (simp add: conj_commute) (metis (mono_tags, lifting) add1_zle_eq dual_order.strict_trans order_less_imp_le zle_add1_eq_le)
  also have "\<dots> < length (filter (\<lambda>b. hn < an_block_num (sb_anchors b)) offered)"
    using by_num_Some[OF b] by (intro length_filter_less[of b]) auto
  finally show "((hn + 1, offered), (hn, offered)) \<in> measure (\<lambda>(hn, offered). length (filter (\<lambda>b. hn < an_block_num (sb_anchors b)) offered))"
    by simp
qed simp

declare contiguous_from.simps [simp del]

text \<open>\<^verbatim>\<open>_advance_head\<close>: whether the offered blocks are acceptable, and the client after it.\<close>

definition advance_head :: "prims \<Rightarrow> SettledBlock list \<Rightarrow> SettledBlock \<Rightarrow> LightClient \<Rightarrow> (bool \<times> LightClient) res" where
  "advance_head c headers responder_head lc =
     (case lc_trusted lc of
        None \<Rightarrow> Inr (False, lc)
      | Some ts \<Rightarrow>
          let above = contiguous_from (an_block_num (sb_anchors (ts_head ts))) (headers @ [responder_head]) in
          if above = [] then Inr (True, lc)
          else rbind (advance c (block_hash c (ts_head ts)) above (ts_roster ts) (lc_anchor lc)) (\<lambda>walked.
            case walked of
              Inl _ \<Rightarrow> Inr (False, lc)
            | Inr b \<Rightarrow> Inr (True, lc_signal (OnBlock b) (lc\<lparr>lc_trusted := Some (ts\<lparr>ts_head := b\<rparr>)\<rparr>))))"

section \<open>Reads\<close>

definition trusted_block :: "prims \<Rightarrow> TrustedState \<Rightarrow> TrustedBlock" where
  "trusted_block c ts = \<lparr>tb_block_num = an_block_num (sb_anchors (ts_head ts)), tb_block_hash = block_hash c (ts_head ts)\<rparr>"

definition request_get :: "prims \<Rightarrow> (nat \<Rightarrow> MessageId) \<Rightarrow> int \<Rightarrow> bytes \<Rightarrow> public_key \<Rightarrow> LightClient \<Rightarrow> (LightClient \<times> LcOut) res" where
  "request_get c mids store_id name peer lc =
     (case lc_trusted lc of
        Some ts \<Rightarrow>
          if lc_state lc = READY
          then Inr (lc_request mids peer
                 (LGetProof \<lparr>gp_store_id = store_id, gp_name = name, gp_block_num = an_block_num (sb_anchors (ts_head ts)),
                   gp_known_roster_fingerprint = Some (ts_roster_fingerprint ts), gp_known_trusted_block = Some (trusted_block c ts)\<rparr>)
                 (HRead \<lparr>rq_peer = peer, rq_store_id = store_id, rq_name = name, rq_result = None\<rparr>) lc)
          else Inl LightClientError
      | None \<Rightarrow> Inl LightClientError)"

definition lose_trust :: "LightClient \<Rightarrow> LightClient" where
  "lose_trust lc = lc_signal OnTrustLost (lc\<lparr>lc_state := UNBOOTSTRAPPED, lc_trusted := None\<rparr>)"

definition reply_held :: "ProofReply \<Rightarrow> Held option" where
  "reply_held m = (if pp_absent m then None else Some \<lparr>held_value = pp_value m, held_epoch = pp_epoch m, held_cred = pp_credential m\<rparr>)"

definition failed_with :: "string \<Rightarrow> ReadReq \<Rightarrow> LightClient \<Rightarrow> (ReadReq \<times> LightClient) res" where
  "failed_with why req lc = Inr (req\<lparr>rq_result := Some (Failed (ascii why))\<rparr>, lc)"

text \<open>The part of \<^verbatim>\<open>resolve_read\<close> after the head has been walked.\<close>

definition check_proof :: "prims \<Rightarrow> ReadReq \<Rightarrow> ProofReply \<Rightarrow> int \<Rightarrow> TrustedState \<Rightarrow> LightClient \<Rightarrow> (ReadReq \<times> LightClient) res" where
  "check_proof c req m now ts lc =
     (if block_hash c (ts_head ts) \<noteq> block_hash c (pp_head m) then failed_with ''behind the responder; retry'' req lc
      else if is_stale (bl_bucket (sb_block (ts_head ts))) now (lc_tunables lc) then failed_with ''responder head is stale'' req lc
      else case proof_decode (pp_proof m) of
        Inl e \<Rightarrow> if is_dude_error e then failed_with ''malformed proof'' req lc else Inl e
      | Inr pf \<Rightarrow>
          if pp_name m \<noteq> rq_name req then failed_with ''reply name does not match request'' req lc
          else rbind (smt_verify c (an_state_root (sb_anchors (ts_head ts))) (rq_store_id req) (pp_name m) (reply_held m) pf) (\<lambda>good.
            if \<not> good then failed_with ''proof-verify-failed'' req lc
            else Inr (req\<lparr>rq_result := Some (Got \<lparr>gt_value = pp_value m, gt_credential = pp_credential m, gt_absent = pp_absent m,
              gt_epoch = pp_epoch m, gt_block_num = an_block_num (sb_anchors (pp_head m)),
              gt_state_root = an_state_root (sb_anchors (pp_head m))\<rparr>)\<rparr>, lc)))"

definition resolve_read :: "prims \<Rightarrow> ReadReq \<Rightarrow> LiteMsg \<Rightarrow> int \<Rightarrow> LightClient \<Rightarrow> (ReadReq \<times> LightClient) res" where
  "resolve_read c req msg now lc =
     (case msg of
        LiteRefused reason \<Rightarrow>
          Inr (req\<lparr>rq_result := Some (Failed (reason_value reason))\<rparr>,
               if reason \<in> {R_FORK_DETECTED, R_COMPACTED} then lose_trust lc else lc)
      | LProofReply m \<Rightarrow>
          (case lc_trusted lc of
             None \<Rightarrow> failed_with ''trusted state lost; re-bootstrap'' req lc
           | Some ts \<Rightarrow>
               if pp_roster_fingerprint m \<noteq> ts_roster_fingerprint ts
               then failed_with ''roster changed; re-bootstrap'' req (lose_trust lc)
               else rbind (advance_head c (pp_headers m) (pp_head m) lc) (\<lambda>(good, lc1).
                 if \<not> good then failed_with ''header chain-link or settle_sigs verify failed'' req lc1
                 else case lc_trusted lc1 of
                   None \<Rightarrow> failed_with ''trusted state lost; re-bootstrap'' req lc1
                 | Some ts1 \<Rightarrow> check_proof c req m now ts1 lc1))
      | _ \<Rightarrow> failed_with ''unexpected reply verb'' req lc)"

text \<open>
  \<^verbatim>\<open>Read.on_reply\<close>. An exception that \<^verbatim>\<open>resolve_read\<close> raises comes before it changes
  the client or, after the head was walked, from the proof; only a \<^verbatim>\<open>DudeError\<close> is caught, and
  the verification of a proof raises none.
\<close>

definition read_on_reply :: "prims \<Rightarrow> ReadReq \<Rightarrow> Verb \<Rightarrow> bytes \<Rightarrow> int \<Rightarrow> LightClient \<Rightarrow> (ReadReq \<times> LightClient) res" where
  "read_on_reply c req verb body now lc =
     (case lite_decode verb body of
        Inl e \<Rightarrow> if is_dude_error e then failed_with ''malformed reply'' req lc else Inl e
      | Inr msg \<Rightarrow>
          (case resolve_read c req msg now lc of
             Inl e \<Rightarrow>
               if is_dude_error e
               then let req' = req\<lparr>rq_result := Some (Failed (ascii ''responder reply refused''))\<rparr> in Inr (req', note_read_result req' now lc)
               else Inl e
           | Inr (req', lc') \<Rightarrow> Inr (req', note_read_result req' now lc')))"

definition read_on_expired :: "ReadReq \<Rightarrow> ReadReq" where
  "read_on_expired req = req\<lparr>rq_result := Some (Failed (ascii ''request expired''))\<rparr>"

section \<open>Prefix queries\<close>

definition count_on_reply :: "Verb \<Rightarrow> bytes \<Rightarrow> int option \<Rightarrow> int option res" where
  "count_on_reply verb body cnt =
     (if verb = V_COUNT_PREFIX_REPLY
      then case count_prefix_reply_decode body of
        Inr (LCountPrefixReply n) \<Rightarrow> Inr (Some n)
      | Inr _ \<Rightarrow> Inr cnt
      | Inl e \<Rightarrow> if is_dude_error e then Inr (Some 0) else Inl e
      else Inr cnt)"

definition nth_finish :: "NthHandle \<Rightarrow> NthHandle" where
  "nth_finish hdl = hdl\<lparr>nh_done := True\<rparr>"

definition nth_on_reply :: "prims \<Rightarrow> NthHandle \<Rightarrow> Verb \<Rightarrow> bytes \<Rightarrow> LightClient \<Rightarrow> (NthHandle \<times> LightClient) res" where
  "nth_on_reply c hdl verb body lc =
     (if verb \<noteq> V_PROOF_REPLY then Inr (nth_finish hdl, lc)
      else case proof_reply_decode body of
        Inl e \<Rightarrow> if is_dude_error e then Inr (nth_finish hdl, lc) else Inl e
      | Inr (LProofReply m) \<Rightarrow>
          if pp_absent m then Inr (nth_finish hdl, lc)
          else rbind (advance_head c (pp_headers m) (pp_head m) lc) (\<lambda>(good, lc1).
            if \<not> good then Inr (nth_finish hdl, lc1)
            else case lc_trusted lc1 of
              None \<Rightarrow> Inr (nth_finish hdl, lc1)
            | Some ts \<Rightarrow>
                let held = \<lparr>held_value = pp_value m, held_epoch = pp_epoch m, held_cred = pp_credential m\<rparr> in
                (case proof_decode (pp_proof m) of
                   Inl e \<Rightarrow> if is_dude_error e then Inr (nth_finish hdl, lc1) else Inl e
                 | Inr pf \<Rightarrow>
                     rbind (smt_verify c (an_state_root (sb_anchors (ts_head ts))) (nh_store_id hdl) (pp_name m) (Some held) pf) (\<lambda>ok.
                     if \<not> ok then Inr (nth_finish hdl, lc1)
                     else Inr (nth_finish (hdl\<lparr>nh_result := Some (pp_name m, held)\<rparr>), lc1))))
      | Inr _ \<Rightarrow> Inr (nth_finish hdl, lc))"

section \<open>Choosing peers\<close>

definition peer_rank :: "int \<Rightarrow> (public_key \<times> PeerView) list \<Rightarrow> public_key \<Rightarrow> int \<times> int \<times> int" where
  "peer_rank hn views peer =
     (case map_of views peer of
        None \<Rightarrow> (1, 0, 0)
      | Some pv \<Rightarrow> (if pv_last_block_num pv \<ge> hn then 1 else 0, - pv_consecutive_failures pv, pv_last_block_num pv))"

text \<open>\<^verbatim>\<open>sorted(..., reverse=True)\<close> keeps the order of equal elements.\<close>

definition ranked_peers :: "LightClient \<Rightarrow> public_key list" where
  "ranked_peers lc =
     (case lc_trusted lc of
        Some ts \<Rightarrow>
          if ts_roster ts = [] then map fst (lc_bootstrap_peers lc)
          else rev (sort_key (peer_rank (an_block_num (sb_anchors (ts_head ts))) (lc_peer_views lc)) (rev (ts_roster ts)))
      | None \<Rightarrow> map fst (lc_bootstrap_peers lc))"

definition pick_peer :: "LightClient \<Rightarrow> public_key res" where
  "pick_peer lc = (case ranked_peers lc of [] \<Rightarrow> Inl LightClientError | p # _ \<Rightarrow> Inr p)"

section \<open>Submissions and the status of a transaction\<close>

definition submit_targets :: "LightClient \<Rightarrow> public_key list res" where
  "submit_targets lc =
     (let peers = ranked_peers lc in
      if peers = [] then Inl LightClientError
      else rbind (case lc_trusted lc of Some ts \<Rightarrow> corroboration (int (length (ts_roster ts))) | None \<Rightarrow> Inr 1) (\<lambda>cnt.
        Inr (take (nat (max cnt 1)) peers)))"

fun fan_out :: "(nat \<Rightarrow> MessageId) \<Rightarrow> bytes \<Rightarrow> nat \<Rightarrow> public_key list \<Rightarrow> LightClient \<Rightarrow> LightClient \<times> LcOut list" where
  "fan_out mids raw fan [] lc = (lc, [])"
| "fan_out mids raw fan (target # targets) lc =
     (let (lc1, m) = request_raw mids target V_SUBMIT raw (HSubmit target fan) lc; (lc2, ms) = fan_out mids raw fan targets lc1 in (lc2, m # ms))"

text \<open>\<^verbatim>\<open>_LiteSubstrate.submit\<close> of a transaction already signed.\<close>

definition lc_submit :: "(nat \<Rightarrow> MessageId) \<Rightarrow> bytes \<Rightarrow> LightClient \<Rightarrow> (LightClient \<times> LcOut list) res" where
  "lc_submit mids raw lc =
     rbind (submit_targets lc) (\<lambda>targets.
       Inr (fan_out mids raw (length (lc_fans lc)) targets
         (lc\<lparr>lc_fans := lc_fans lc @ [\<lparr>fan_total = int (length targets), fan_accepted = False, fan_refuse_count = 0, fan_reply = None\<rparr>]\<rparr>)))"

text \<open>
  \<^verbatim>\<open>_SubmitPeerHandle.on_reply\<close>: the first acceptance, or the last of the refusals, reaches
  the handle of the submission, with the peer that accepted.
\<close>

definition fan_on_reply :: "public_key \<Rightarrow> Verb \<Rightarrow> bytes \<Rightarrow> SubmitFanOut \<Rightarrow> SubmitFanOut" where
  "fan_on_reply peer verb body fan =
     (if fan_accepted fan then fan
      else if verb = V_ACCEPTED then fan\<lparr>fan_accepted := True, fan_reply := Some (Some peer, verb, body)\<rparr>
      else if verb = V_REFUSED then
        let fan1 = fan\<lparr>fan_refuse_count := fan_refuse_count fan + 1\<rparr> in
        (if fan_refuse_count fan1 \<ge> fan_total fan1 then fan1\<lparr>fan_reply := Some (None, verb, body)\<rparr> else fan1)
      else fan)"

definition touch_view :: "public_key \<Rightarrow> int \<Rightarrow> LightClient \<Rightarrow> LightClient" where
  "touch_view peer now lc = set_view peer ((peer_view peer lc)\<lparr>pv_last_activity := now, pv_consecutive_failures := 0\<rparr>) lc"

definition submit_on_reply :: "public_key \<Rightarrow> nat \<Rightarrow> Verb \<Rightarrow> bytes \<Rightarrow> int \<Rightarrow> LightClient \<Rightarrow> LightClient" where
  "submit_on_reply peer fan verb body now lc =
     (touch_view peer now lc)\<lparr>lc_fans := (lc_fans lc)[fan := fan_on_reply peer verb body (lc_fans lc ! fan)]\<rparr>"

definition tx_status_on_reply :: "public_key \<Rightarrow> Verb \<Rightarrow> bytes \<Rightarrow> int \<Rightarrow> SettleResult option \<Rightarrow> LightClient \<Rightarrow> (SettleResult option \<times> LightClient) res" where
  "tx_status_on_reply peer verb body now result lc =
     (if verb \<noteq> V_TX_STATUS_REPLY then Inr (result, lc)
      else rbind (settle_decode body) (\<lambda>r. Inr (Some r, touch_view peer now lc)))"

section \<open>The requests of the substrate\<close>

definition request_count_prefix :: "(nat \<Rightarrow> MessageId) \<Rightarrow> int \<Rightarrow> bytes \<Rightarrow> LightClient \<Rightarrow> (LightClient \<times> LcOut) res" where
  "request_count_prefix mids store pre lc =
     rbind (pick_peer lc) (\<lambda>peer. Inr (lc_request mids peer (LCountPrefix \<lparr>cp_store_id = store, cp_prefix = pre\<rparr>) (HCount None) lc))"

definition request_nth_prefix :: "prims \<Rightarrow> (nat \<Rightarrow> MessageId) \<Rightarrow> int \<Rightarrow> bytes \<Rightarrow> int \<Rightarrow> bool \<Rightarrow> LightClient \<Rightarrow> (LightClient \<times> LcOut) option res" where
  "request_nth_prefix c mids store pre n descending lc =
     (case lc_trusted lc of
        None \<Rightarrow> Inr None
      | Some ts \<Rightarrow>
          rbind (pick_peer lc) (\<lambda>peer. Inr (Some (lc_request mids peer
            (LNthPrefix \<lparr>np_store_id = store, np_prefix = pre, np_n = n, np_descending = descending,
               np_block_num = an_block_num (sb_anchors (ts_head ts)),
               np_known_roster_fingerprint = Some (ts_roster_fingerprint ts), np_known_trusted_block = Some (trusted_block c ts)\<rparr>)
            (HNth \<lparr>nh_store_id = store, nh_done = False, nh_result = None\<rparr>) lc))))"

definition request_tx_status :: "(nat \<Rightarrow> MessageId) \<Rightarrow> digest \<Rightarrow> LightClient \<Rightarrow> (LightClient \<times> LcOut) res" where
  "request_tx_status mids oph lc = rbind (pick_peer lc) (\<lambda>peer. Inr (lc_request mids peer (LTxStatus oph) (HTx peer None) lc))"

definition lc_head :: "prims \<Rightarrow> LightClient \<Rightarrow> BlockHead option" where
  "lc_head c lc = map_option (\<lambda>ts. \<lparr>bh_block_num = an_block_num (sb_anchors (ts_head ts)), bh_block_hash = block_hash c (ts_head ts)\<rparr>) (lc_trusted lc)"

section \<open>Deliveries\<close>

text \<open>What \<^verbatim>\<open>on_reply\<close> and \<^verbatim>\<open>on_expired\<close> of each handle do.\<close>

fun handle_on_reply :: "prims \<Rightarrow> LcHandle \<Rightarrow> Verb \<Rightarrow> bytes \<Rightarrow> int \<Rightarrow> LightClient \<Rightarrow> (LcHandle \<times> LightClient) res" where
  "handle_on_reply c (HRead req) verb body now lc = rbind (read_on_reply c req verb body now lc) (\<lambda>(req', lc'). Inr (HRead req', lc'))"
| "handle_on_reply c (HBootstrap peer) verb body now lc = rbind (bootstrap_on_reply c peer verb body now lc) (\<lambda>lc'. Inr (HBootstrap peer, lc'))"
| "handle_on_reply c (HCount n) verb body now lc = rbind (count_on_reply verb body n) (\<lambda>n'. Inr (HCount n', lc))"
| "handle_on_reply c (HNth nh) verb body now lc = rbind (nth_on_reply c nh verb body lc) (\<lambda>(nh', lc'). Inr (HNth nh', lc'))"
| "handle_on_reply c (HTx peer r) verb body now lc = rbind (tx_status_on_reply peer verb body now r lc) (\<lambda>(r', lc'). Inr (HTx peer r', lc'))"
| "handle_on_reply c (HSubmit peer fan) verb body now lc = Inr (HSubmit peer fan, submit_on_reply peer fan verb body now lc)"

fun handle_on_expired :: "LcHandle \<Rightarrow> LcHandle" where
  "handle_on_expired (HRead req) = HRead (read_on_expired req)"
| "handle_on_expired (HBootstrap peer) = HBootstrap peer"
| "handle_on_expired (HCount _) = HCount (Some 0)"
| "handle_on_expired (HNth nh) = HNth (nth_finish nh)"
| "handle_on_expired (HTx peer _) = HTx peer (Some Unknown)"
| "handle_on_expired (HSubmit peer fan) = HSubmit peer fan"

text \<open>The handle that was woken is returned with the client: its fields are what the waiting thread reads.\<close>

definition lc_on_delivered :: "prims \<Rightarrow> int \<Rightarrow> LightClient \<Rightarrow> Delivered \<Rightarrow> (LightClient \<times> LcHandle option) res" where
  "lc_on_delivered c now lc d =
     (case dl_in_reply_to d of
        None \<Rightarrow> Inr (if dl_verb d = V_HEIGHT_REPLY then lc\<lparr>lc_commit_seq := lc_commit_seq lc + 1\<rparr> else lc, None)
      | Some mid \<Rightarrow>
          (case map_of (lc_inflight lc) (correlation_id mid) of
             None \<Rightarrow> Inr (lc, None)
           | Some hdl \<Rightarrow>
               rbind (handle_on_reply c hdl (dl_verb d) (dl_body d) now (lc\<lparr>lc_inflight := AList.delete (correlation_id mid) (lc_inflight lc)\<rparr>)) (\<lambda>(hdl', lc').
               Inr (lc', Some hdl'))))"

definition lc_on_expired :: "bytes \<Rightarrow> LightClient \<Rightarrow> LightClient \<times> LcHandle option" where
  "lc_on_expired pre lc =
     (lc\<lparr>lc_inflight := AList.delete pre (lc_inflight lc)\<rparr>, map_option handle_on_expired (map_of (lc_inflight lc) pre))"

end
