(* ===== verification/Lite_Client_Props.thy ===== *)
theory Lite_Client_Props
  imports Lite_Client Node_Props
begin

text \<open>
  What a light client may believe. Every state it reaches trusts a roster that the manager, or someone
  whose grant the manager signed, has certified, and a head that this roster endorsed; a row it
  returns as present is in every state with the root of that head. It does not follow that the roster
  is the current one, nor that a row returned as absent is absent.
\<close>

section \<open>Facts about association lists\<close>

lemma snd_update: "e \<in> snd ` set (AList.update k v al) \<Longrightarrow> e = v \<or> e \<in> snd ` set al"
  by (induction al) (auto split: if_splits)

lemma update_all: "\<forall>e \<in> snd ` set al. P e \<Longrightarrow> P v \<Longrightarrow> \<forall>e \<in> snd ` set (AList.update k v al). P e"
  using snd_update[of _ k v al] by blast

lemma map_filter_update:
  "List.map_filter f al = [] \<Longrightarrow> f (k, v) = Some y \<Longrightarrow> List.map_filter f (AList.update k v al) = [y]"
  by (induction al) (auto simp: map_filter_simps split: option.splits if_splits)

lemma snd_map_filter: "y \<in> set (List.map_filter f al) \<Longrightarrow> \<exists>x \<in> set al. f x = Some y"
  by (induction al) (auto simp: map_filter_simps split: option.splits)

section \<open>Reachable clients\<close>

inductive lc_run :: "prims \<Rightarrow> public_key \<Rightarrow> LightClient \<Rightarrow> bool" for c anchor where
  start: "lc_run c anchor (lc_new me anchor t)"
| peer: "lc_run c anchor lc \<Longrightarrow> lc_run c anchor (add_bootstrap_peer p lc)"
| boot: "lc_run c anchor lc \<Longrightarrow> begin_bootstrap mids lc = Inr (lc', ms) \<Longrightarrow> lc_run c anchor lc'"
| begun: "lc_run c anchor lc \<Longrightarrow> lc_start mids lc = (lc', ms) \<Longrightarrow> lc_run c anchor lc'"
| stale: "lc_run c anchor lc \<Longrightarrow> on_check_stale_peers mids now lc = (lc', ms) \<Longrightarrow> lc_run c anchor lc'"
| delivered: "lc_run c anchor lc \<Longrightarrow> lc_on_delivered c now lc d = Inr (lc', hdl) \<Longrightarrow> lc_run c anchor lc'"
| expired: "lc_run c anchor lc \<Longrightarrow> lc_on_expired i lc = (lc', hdl') \<Longrightarrow> lc_run c anchor lc'"
| get: "lc_run c anchor lc \<Longrightarrow> request_get c mids store name p lc = Inr (lc', m) \<Longrightarrow> lc_run c anchor lc'"
| cnt: "lc_run c anchor lc \<Longrightarrow> request_count_prefix mids store name lc = Inr (lc', m) \<Longrightarrow> lc_run c anchor lc'"
| nth: "lc_run c anchor lc \<Longrightarrow> request_nth_prefix c mids store name n desc lc = Inr (Some (lc', m)) \<Longrightarrow> lc_run c anchor lc'"
| tx: "lc_run c anchor lc \<Longrightarrow> request_tx_status mids oph lc = Inr (lc', m) \<Longrightarrow> lc_run c anchor lc'"
| submit: "lc_run c anchor lc \<Longrightarrow> lc_submit mids raw lc = Inr (lc', ms) \<Longrightarrow> lc_run c anchor lc'"

text \<open>The fields the invariant reads; most steps leave them alone.\<close>

definition lc_core :: "LightClient \<Rightarrow> public_key \<times> LcState \<times> TrustedState option \<times> (public_key \<times> BootstrapReply) list" where
  "lc_core lc = (lc_anchor lc, lc_state lc, lc_trusted lc, lc_bootstrap_peers lc)"

lemma core_set_view [simp]: "lc_core (set_view p v lc) = lc_core lc"
  by (simp add: lc_core_def set_view_def)

lemma core_touch_view [simp]: "lc_core (touch_view p now lc) = lc_core lc"
  by (simp add: touch_view_def)

lemma core_note_read [simp]: "lc_core (note_read_result req now lc) = lc_core lc"
  by (simp add: note_read_result_def Let_def)

lemma core_request_raw: "request_raw mids p v b hdl lc = (lc', m) \<Longrightarrow> lc_core lc' = lc_core lc"
  by (auto simp: request_raw_def Let_def lc_core_def)

lemma core_request: "lc_request mids p msg hdl lc = (lc', m) \<Longrightarrow> lc_core lc' = lc_core lc"
  by (auto simp: lc_request_def dest: core_request_raw)

lemma core_ask: "ask_for_anchors mids ps lc = (lc', ms) \<Longrightarrow> lc_core lc' = lc_core lc"
  by (induction ps arbitrary: lc lc' ms) (auto dest!: core_request split: prod.splits)

lemma core_fan_out: "fan_out mids raw fan ps lc = (lc', ms) \<Longrightarrow> lc_core lc' = lc_core lc"
  by (induction ps arbitrary: lc lc' ms) (auto dest!: core_request_raw split: prod.splits)

lemma core_request_get: "request_get c mids store name p lc = Inr (lc', m) \<Longrightarrow> lc_core lc' = lc_core lc"
  by (auto simp: request_get_def split: option.splits if_splits dest: core_request)

lemma core_request_count: "request_count_prefix mids store name lc = Inr (lc', m) \<Longrightarrow> lc_core lc' = lc_core lc"
  by (auto simp: request_count_prefix_def rbind_Inr_conv dest: core_request)

lemma core_request_nth: "request_nth_prefix c mids store name n desc lc = Inr (Some (lc', m)) \<Longrightarrow> lc_core lc' = lc_core lc"
  by (auto simp: request_nth_prefix_def rbind_Inr_conv split: option.splits dest: core_request)

lemma core_request_tx: "request_tx_status mids oph lc = Inr (lc', m) \<Longrightarrow> lc_core lc' = lc_core lc"
  by (auto simp: request_tx_status_def rbind_Inr_conv dest: core_request)

lemma core_submit: "lc_submit mids raw lc = Inr (lc', ms) \<Longrightarrow> lc_core lc' = lc_core lc"
  by (auto simp: lc_submit_def rbind_Inr_conv dest!: core_fan_out) (simp add: lc_core_def)

lemma core_stale: "on_check_stale_peers mids now lc = (lc', ms) \<Longrightarrow> lc_core lc' = lc_core lc"
  by (auto simp: on_check_stale_peers_def ask_stale_peers_def split: if_splits dest: core_ask)

lemma core_expired: "lc_on_expired i lc = (lc', hdl) \<Longrightarrow> lc_core lc' = lc_core lc"
  by (auto simp: lc_on_expired_def lc_core_def)

section \<open>What is trusted\<close>

text \<open>
  A roster is certified when someone entitled to has signed its commitment: the manager itself, or a
  key for which the manager has signed a grant of its role.
\<close>

definition certified_roster :: "prims \<Rightarrow> public_key \<Rightarrow> public_key list \<Rightarrow> bool" where
  "certified_roster c anchor roster \<longleftrightarrow>
     (\<exists>signer serial members fp sg. roster = sort members \<and>
        (signer = anchor \<or> (\<exists>sg'. pk_verify c anchor (cert_message (role_value MANAGER) signer) sg')) \<and>
        pk_verify c signer (cert_message CERT_PURPOSE_ROSTER_COMMITMENT (h c (rc_content serial members fp))) sg)"

lemma verify_bundle_certified:
  assumes "verify_bundle c anchor b"
  shows "certified_roster c anchor (sort (rb_commitment_members b))"
proof -
  let ?ct = "rb_commitment_cert b"
  have who: "ct_signer ?ct = anchor \<or> (\<exists>g \<in> set (rb_managers b). gr_identity g = ct_signer ?ct \<and> verify_grant_cert c g anchor MANAGER)"
    using assms by (auto simp: verify_bundle_def Let_def list_all_iff)
  have "ct_signer ?ct = anchor \<or> (\<exists>sg'. pk_verify c anchor (cert_message (role_value MANAGER) (ct_signer ?ct)) sg')"
    using who by (auto simp: verify_grant_cert_def cert_verify_def)
  moreover have "pk_verify c (ct_signer ?ct) (cert_message CERT_PURPOSE_ROSTER_COMMITMENT
      (h c (rc_content (rb_commitment_serial b) (rb_commitment_members b) (rc_fingerprint c (rb_entries b))))) (ct_sig ?ct)"
    using assms by (auto simp: verify_bundle_def Let_def cert_verify_def)
  ultimately show ?thesis unfolding certified_roster_def by blast
qed

definition endorsed_head :: "prims \<Rightarrow> public_key list \<Rightarrow> public_key \<Rightarrow> SettledBlock \<Rightarrow> bool" where
  "endorsed_head c roster anchor b \<longleftrightarrow> az_verify c (block_authorization c b roster anchor) = Inr True"

definition entry_ok :: "prims \<Rightarrow> public_key \<Rightarrow> BootstrapReply \<Rightarrow> bool" where
  "entry_ok c anchor e \<longleftrightarrow>
     (\<forall>b r. br_bundle e = Some b \<and> br_anchors_reply e = Some r \<longrightarrow>
        certified_roster c anchor (sort (rb_commitment_members b)) \<and> endorsed_head c (sort (rb_commitment_members b)) anchor (ar_head r))"

definition trust_ok :: "prims \<Rightarrow> public_key \<Rightarrow> TrustedState \<Rightarrow> bool" where
  "trust_ok c anchor ts \<longleftrightarrow> certified_roster c anchor (ts_roster ts) \<and> endorsed_head c (ts_roster ts) anchor (ts_head ts)"

definition lc_inv :: "prims \<Rightarrow> public_key \<Rightarrow> LightClient \<Rightarrow> bool" where
  "lc_inv c anchor lc \<longleftrightarrow>
     (case lc_core lc of (a, st, tr, ps) \<Rightarrow>
        a = anchor \<and> (st = READY \<longleftrightarrow> tr \<noteq> None) \<and> pred_option (trust_ok c anchor) tr \<and> (\<forall>e \<in> snd ` set ps. entry_ok c anchor e))"

lemma inv_core: "lc_inv c anchor lc \<Longrightarrow> lc_core lc' = lc_core lc \<Longrightarrow> lc_inv c anchor lc'"
  by (simp add: lc_inv_def)

lemma inv_boot: "lc_inv c anchor lc \<Longrightarrow> lc_state lc = UNBOOTSTRAPPED \<Longrightarrow> lc_inv c anchor (lc\<lparr>lc_state := BOOTSTRAPPING\<rparr>)"
  by (simp add: lc_inv_def lc_core_def)

lemma inv_lose: "lc_inv c anchor lc \<Longrightarrow> lc_inv c anchor (lose_trust lc)"
  by (simp add: lc_inv_def lc_core_def lose_trust_def lc_signal_def)

section \<open>Convergence\<close>

lemma group_entries_from:
  assumes "\<forall>(fp, e) \<in> set xs. P e" "\<forall>(fp, es) \<in> set agreed. \<forall>e \<in> set es. P e"
  shows "\<forall>(fp, es) \<in> set (group_entries xs agreed). \<forall>e \<in> set es. P e"
  using assms
proof (induction xs agreed rule: group_entries.induct)
  case (2 fp e rest agreed)
  let ?old = "case map_of agreed fp of None \<Rightarrow> [] | Some es \<Rightarrow> es"
  have old: "\<forall>x \<in> set ?old. P x" using 2(3) by (fastforce dest: map_of_SomeD split: option.splits)
  have "\<forall>(fp, es) \<in> set (AList.update fp (?old @ [e]) agreed). \<forall>x \<in> set es. P x"
    using snd_update[of _ fp "?old @ [e]" agreed] old 2(2,3) by fastforce
  then show ?case using 2(1) 2(2) by simp
qed simp

lemma converge_Inr:
  assumes "converge groups lc = Inr lc'"
  shows "lc' = lc \<or> (\<exists>fp es. (fp, es) \<in> set groups \<and> es \<noteq> [] \<and> promote_to_ready fp (hd es) lc = Inr lc')"
  using assms
proof (induction groups)
  case (Cons g rest)
  obtain fp entries where g: "g = (fp, entries)" by (cases g)
  consider "converge rest lc = Inr lc'" | "entries \<noteq> []" "promote_to_ready fp (hd entries) lc = Inr lc'"
    using Cons(2) unfolding g by (auto simp: rbind_Inr_conv split: list.splits option.splits if_splits)
  then show ?case using Cons(1) unfolding g by cases (auto, blast?)
qed simp

lemma promote_ready_inv:
  assumes "lc_inv c anchor lc" "entry_ok c anchor e" "promote_to_ready fp e lc = Inr lc'"
  shows "lc_inv c anchor lc'"
  using assms by (auto simp: promote_to_ready_def lc_inv_def lc_core_def lc_signal_def entry_ok_def trust_ok_def Let_def split: option.splits)

lemma convergence_inv:
  assumes "lc_inv c anchor lc" "check_bootstrap_convergence now lc = Inr lc'"
  shows "lc_inv c anchor lc'"
proof -
  have "\<forall>(fp, e) \<in> set (fresh_entries now lc). entry_ok c anchor e"
    using assms(1) unfolding fresh_entries_def
    by (fastforce dest!: snd_map_filter simp: lc_inv_def lc_core_def split: option.splits if_splits)
  then have ok: "\<forall>(fp, es) \<in> set (group_entries (fresh_entries now lc) []). \<forall>e \<in> set es. entry_ok c anchor e"
    by (intro group_entries_from) simp_all
  from converge_Inr[OF assms(2)[unfolded check_bootstrap_convergence_def]] show ?thesis
  proof (elim disjE exE conjE)
    fix fp es assume "(fp, es) \<in> set (group_entries (fresh_entries now lc) [])" "es \<noteq> []" "promote_to_ready fp (hd es) lc = Inr lc'"
    then show ?thesis using promote_ready_inv[OF assms(1)] ok by (metis (no_types, lifting) case_prodD list.set_sel(1))
  qed (use assms(1) in simp)
qed

lemma converged_inv: "lc_inv c anchor lc \<Longrightarrow> lc_inv c anchor (fst (converged now lc))"
  using convergence_inv by (auto simp: converged_def split: sum.splits)

lemma store_reply_inv:
  assumes "lc_inv c anchor lc" "verify_bundle c anchor b" "verify_settle_sigs c anchor r b = Inr True"
  shows "lc_inv c anchor (store_reply p r b now lc)"
proof -
  let ?e = "\<lparr>br_fingerprint = Some (ar_roster_fingerprint r), br_bundle = Some b, br_anchors_reply = Some r\<rparr>"
  have "entry_ok c anchor ?e"
    using verify_bundle_certified[OF assms(2)] assms(3) by (simp add: entry_ok_def endorsed_head_def verify_settle_sigs_def)
  then have "\<forall>e \<in> snd ` set (AList.update p ?e (lc_bootstrap_peers lc)). entry_ok c anchor e"
    using assms(1) by (intro update_all) (simp_all add: lc_inv_def lc_core_def)
  then show ?thesis using assms(1) by (simp add: store_reply_def lc_inv_def lc_core_def set_view_def)
qed

lemma on_bootstrap_reply_inv:
  assumes "lc_inv c anchor lc"
  shows "lc_inv c anchor (fst (on_bootstrap_reply c p msg now lc))"
proof -
  have "lc_anchor lc = anchor" using assms by (simp add: lc_inv_def lc_core_def)
  then show ?thesis
    using assms converged_inv[OF assms] converged_inv[OF store_reply_inv[OF assms]]
    by (auto simp: on_bootstrap_reply_def split: LiteMsg.split option.split sum.split)
qed

lemma forget_inv: "lc_inv c anchor lc \<Longrightarrow> lc_inv c anchor (forget_bootstrap_peer p lc)"
  by (auto simp: lc_inv_def lc_core_def forget_bootstrap_peer_def AList.delete_eq)

lemma bootstrap_on_reply_inv:
  assumes "lc_inv c anchor lc" "bootstrap_on_reply c p v body now lc = Inr lc'"
  shows "lc_inv c anchor lc'"
proof -
  have "lc_inv c anchor (fst (on_bootstrap_reply c p msg now lc))" for msg using on_bootstrap_reply_inv[OF assms(1)] .
  then show ?thesis
    using assms forget_inv by (auto simp: bootstrap_on_reply_def split: sum.splits prod.splits option.splits if_splits) (metis fst_conv)+
qed

section \<open>Walking the head\<close>

lemma advance_head_cases:
  assumes "advance_head c headers rhead lc = Inr (good, lc')"
  obtains "lc' = lc"
  | ts blocks where "lc_trusted lc = Some ts" "good" "blocks \<noteq> []" "linked c (block_hash c (ts_head ts)) blocks"
      "\<forall>b \<in> set blocks. endorsed_head c (ts_roster ts) (lc_anchor lc) b"
      "lc' = lc_signal (OnBlock (last blocks)) (lc\<lparr>lc_trusted := Some (ts\<lparr>ts_head := last blocks\<rparr>)\<rparr>)"
proof (cases "lc_trusted lc")
  case None
  then show ?thesis using assms that(1) by (simp add: advance_head_def)
next
  case (Some ts)
  let ?above = "contiguous_from (an_block_num (sb_anchors (ts_head ts))) (headers @ [rhead])"
  obtain out where out: "advance c (block_hash c (ts_head ts)) ?above (ts_roster ts) (lc_anchor lc) = Inr out" using advance_total by blast
  show ?thesis
  proof (cases "?above = [] \<or> isl out")
    case True
    then show ?thesis using assms that(1) out Some by (auto simp: advance_head_def Let_def isl_def split: if_splits)
  next
    case False
    then obtain b where b: "out = Inr b" by (cases out) auto
    show ?thesis
      using that(2)[OF Some _ _ _ _, of ?above] assms out[unfolded b advance_iff] out False b Some
      by (simp add: advance_head_def Let_def endorsed_head_def)
  qed
qed

lemma advance_head_inv:
  assumes "lc_inv c anchor lc" "advance_head c headers rhead lc = Inr (good, lc')"
  shows "lc_inv c anchor lc'"
  using assms(2)
proof (cases rule: advance_head_cases)
  case (2 ts blocks)
  then show ?thesis
    using assms(1) by (auto simp: lc_inv_def lc_core_def lc_signal_def trust_ok_def)
qed (use assms(1) in simp)

lemma check_proof_core: "check_proof c req m now ts lc = Inr (req', lc') \<Longrightarrow> lc' = lc"
  by (auto simp: check_proof_def failed_with_def rbind_Inr_conv split: if_splits sum.splits)

lemma resolve_read_inv:
  assumes "lc_inv c anchor lc" "resolve_read c req msg now lc = Inr (req', lc')"
  shows "lc_inv c anchor lc'"
  using assms advance_head_inv[OF assms(1)] inv_lose[OF assms(1)]
  by (auto simp: resolve_read_def failed_with_def rbind_Inr_conv split: LiteMsg.splits option.splits if_splits dest!: check_proof_core)

lemma read_on_reply_inv:
  assumes "lc_inv c anchor lc" "read_on_reply c req v body now lc = Inr (req', lc')"
  shows "lc_inv c anchor lc'"
  using assms resolve_read_inv[OF assms(1)] inv_core[OF _ core_note_read]
  by (auto simp: read_on_reply_def failed_with_def Let_def split: sum.splits if_splits)

lemma nth_on_reply_inv:
  assumes "lc_inv c anchor lc" "nth_on_reply c nh v body lc = Inr (nh', lc')"
  shows "lc_inv c anchor lc'"
proof -
  consider "lc' = lc" | m :: ProofReply and good where "advance_head c (pp_headers m) (pp_head m) lc = Inr (good, lc')"
  proof (cases "\<exists>m. v = V_PROOF_REPLY \<and> proof_reply_decode body = Inr (LProofReply m) \<and> \<not> pp_absent m")
    case True
    then obtain m where m: "v = V_PROOF_REPLY" "proof_reply_decode body = Inr (LProofReply m)" "\<not> pp_absent m" by blast
    then obtain good lc1 where a: "advance_head c (pp_headers m) (pp_head m) lc = Inr (good, lc1)"
      using assms(2) by (cases "advance_head c (pp_headers m) (pp_head m) lc") (auto simp: nth_on_reply_def)
    then have "lc' = lc1"
      using m assms(2) by (auto simp: nth_on_reply_def rbind_Inr_conv Let_def split: sum.splits option.splits if_splits)
    then show ?thesis using a that(2) by blast
  next
    case False
    then show ?thesis
      using assms(2) that(1) by (auto simp: nth_on_reply_def split: sum.splits LiteMsg.splits if_splits)
  qed
  then show ?thesis using assms(1) advance_head_inv[OF assms(1)] by cases auto
qed

lemma handle_on_reply_inv:
  assumes "lc_inv c anchor lc" "handle_on_reply c hdl v body now lc = Inr (hdl', lc')"
  shows "lc_inv c anchor lc'"
proof (cases hdl)
  case (HTx p r)
  then show ?thesis
    using assms inv_core[OF assms(1)] by (auto simp: tx_status_on_reply_def rbind_Inr_conv split: if_splits)
next
  case (HSubmit p fan)
  then show ?thesis using assms(2) inv_core[OF assms(1), of lc'] by (auto simp: submit_on_reply_def lc_core_def touch_view_def set_view_def)
qed (use assms in \<open>auto simp: rbind_Inr_conv dest: read_on_reply_inv bootstrap_on_reply_inv nth_on_reply_inv\<close>)

lemma begin_bootstrap_inv:
  assumes "lc_inv c anchor lc" "begin_bootstrap mids lc = Inr (lc', ms)"
  shows "lc_inv c anchor lc'"
  using assms inv_core[OF inv_boot[OF assms(1)] core_ask] by (auto simp: begin_bootstrap_def split: if_splits)

lemma lc_start_inv:
  assumes "lc_inv c anchor lc" "lc_start mids lc = (lc', ms)"
  shows "lc_inv c anchor lc'"
  using assms inv_core[OF inv_boot[OF assms(1)] core_ask] by (auto simp: lc_start_def split: if_splits)

lemma delivered_inv:
  assumes "lc_inv c anchor lc" "lc_on_delivered c now lc d = Inr (lc', hdl)"
  shows "lc_inv c anchor lc'"
proof (cases "dl_in_reply_to d")
  case None
  then show ?thesis using assms(2) inv_core[OF assms(1), of lc'] by (auto simp: lc_on_delivered_def lc_core_def split: if_splits)
next
  case (Some mid)
  have "lc_inv c anchor (lc\<lparr>lc_inflight := x\<rparr>)" for x using inv_core[OF assms(1)] by (simp add: lc_core_def)
  then show ?thesis
    using assms Some by (cases "map_of (lc_inflight lc) (correlation_id mid)") (auto simp: lc_on_delivered_def rbind_Inr_conv dest: handle_on_reply_inv)
qed

lemma initial_inv: "lc_inv c anchor (lc_new me anchor t)"
  by (simp add: lc_inv_def lc_core_def lc_new_def)

lemma add_peer_inv:
  assumes "lc_inv c anchor lc"
  shows "lc_inv c anchor (add_bootstrap_peer p lc)"
proof -
  have "entry_ok c anchor blank_reply" by (simp add: entry_ok_def blank_reply_def)
  then have "\<forall>e \<in> snd ` set (AList.update p blank_reply (lc_bootstrap_peers lc)). entry_ok c anchor e"
    using assms by (intro update_all) (simp_all add: lc_inv_def lc_core_def)
  then show ?thesis using assms by (simp add: lc_inv_def lc_core_def add_bootstrap_peer_def)
qed

lemma lc_run_inv: "lc_run c anchor lc \<Longrightarrow> lc_inv c anchor lc"
  by (induction rule: lc_run.induct)
    (blast intro: initial_inv add_peer_inv begin_bootstrap_inv lc_start_inv delivered_inv inv_core core_stale core_expired
      core_request_get core_request_count core_request_nth core_request_tx core_submit)+

text \<open>
  C7: What a light client trusts. In every state a client reaches, whatever it was sent, it is ready
  exactly when it trusts something; the roster it trusts carries the signature of the manager, or of a
  key whose grant the manager signed, on its commitment; and the head it trusts is endorsed by that
  roster.
\<close>

theorem trusted_state_is_certified:
  assumes "lc_run c anchor lc"
  shows "(lc_state lc = READY \<longleftrightarrow> lc_trusted lc \<noteq> None) \<and>
    (\<forall>ts. lc_trusted lc = Some ts \<longrightarrow> certified_roster c anchor (ts_roster ts) \<and> endorsed c (ts_roster ts) anchor (ts_head ts))"
  using lc_run_inv[OF assms] az_verify_endorsed
  by (auto simp: lc_inv_def lc_core_def trust_ok_def endorsed_head_def)

section \<open>Reads\<close>

text \<open>A head is reached from another along linked blocks, each endorsed by the trusted roster.\<close>

definition head_walk :: "prims \<Rightarrow> public_key \<Rightarrow> TrustedState \<Rightarrow> TrustedState \<Rightarrow> bool" where
  "head_walk c anchor ts ts' \<longleftrightarrow> ts' = ts \<or>
     (\<exists>blocks. blocks \<noteq> [] \<and> linked c (block_hash c (ts_head ts)) blocks \<and> (\<forall>b \<in> set blocks. endorsed c (ts_roster ts) anchor b) \<and>
        ts' = ts\<lparr>ts_head := last blocks\<rparr>)"

lemma advance_head_walk:
  assumes "advance_head c headers rhead lc = Inr (good, lc')" "lc_trusted lc = Some ts"
  shows "\<exists>ts'. lc_trusted lc' = Some ts' \<and> head_walk c (lc_anchor lc) ts ts' \<and> lc_tunables lc' = lc_tunables lc"
  using assms(1)
proof (cases rule: advance_head_cases)
  case (2 ts1 blocks)
  then show ?thesis
    using assms(2) by (auto simp: head_walk_def endorsed_head_def lc_signal_def intro!: az_verify_endorsed exI[of _ blocks])
qed (use assms(2) in \<open>simp add: head_walk_def\<close>)

lemma resolve_read_Got:
  assumes "resolve_read c req msg now lc = Inr (req', lc')" "rq_result req' = Some (Got g)" "lc_trusted lc = Some ts"
  obtains m ts' where "msg = LProofReply m" "lc_trusted lc' = Some ts'" "head_walk c (lc_anchor lc) ts ts'"
    "lc_tunables lc' = lc_tunables lc" "check_proof c req m now ts' lc' = Inr (req', lc')"
proof (cases msg)
  case (LProofReply m)
  obtain good lc1 where a: "advance_head c (pp_headers m) (pp_head m) lc = Inr (good, lc1)"
    using assms by (cases "advance_head c (pp_headers m) (pp_head m) lc") (auto simp: LProofReply resolve_read_def failed_with_def split: if_splits)
  obtain ts' where t: "lc_trusted lc1 = Some ts'" "head_walk c (lc_anchor lc) ts ts'" "lc_tunables lc1 = lc_tunables lc"
    using advance_head_walk[OF a assms(3)] by blast
  have "check_proof c req m now ts' lc1 = Inr (req', lc')"
    using assms a t(1) by (auto simp: LProofReply resolve_read_def failed_with_def split: if_splits)
  then show ?thesis using that[OF LProofReply] t check_proof_core by blast
qed (use assms in \<open>auto simp: resolve_read_def failed_with_def split: if_splits\<close>)

definition got_held :: "GetResult \<Rightarrow> Held" where
  "got_held g = \<lparr>held_value = gt_value g, held_epoch = gt_epoch g, held_cred = gt_credential g\<rparr>"

lemma check_proof_Got:
  assumes "check_proof c req m now ts lc = Inr (req', lc')" "rq_result req' = Some (Got g)"
  obtains pf where "proof_decode (pp_proof m) = Inr pf" "\<not> is_stale (bl_bucket (sb_block (ts_head ts))) now (lc_tunables lc)"
    "smt_verify c (an_state_root (sb_anchors (ts_head ts))) (rq_store_id req) (rq_name req)
       (if gt_absent g then None else Some (got_held g)) pf = Inr True"
  using assms
  by (auto simp: check_proof_def failed_with_def reply_held_def got_held_def rbind_Inr_conv split: if_splits sum.splits)

lemma proof_decode_siblings: "proof_decode raw = Inr pf \<Longrightarrow> \<forall>s \<in> set (pf_siblings pf). length s = 32"
proof -
  have "mapM (\<lambda>s. rbind (as_bytes s) Digest) xs = Inr ys \<Longrightarrow> \<forall>s \<in> set ys. length s = 32" for xs ys
    by (induction xs arbitrary: ys) (auto simp: rbind_Inr_conv fixed_def split: if_splits)
  then show "proof_decode raw = Inr pf \<Longrightarrow> \<forall>s \<in> set (pf_siblings pf). length s = 32"
    by (auto simp: proof_decode_def rbind_Inr_conv)
qed

text \<open>The hash inputs that a check of a presence proof, and the tree behind the root, are made of.\<close>

definition proof_inputs :: "prims \<Rightarrow> live_row list \<Rightarrow> bytes \<Rightarrow> Held \<Rightarrow> Proof \<Rightarrow> (bytes \<times> bytes) set" where
  "proof_inputs c live p held pf = tree_inputs c live \<union> {leaf_input c p (held_value held) (held_cred held) (held_epoch held)} \<union>
     set (fold_inputs c p (pf_siblings pf) (length (pf_siblings pf)) (snd (the (pf_occupant pf))))"

text \<open>
  C8: Reads of a light client. When a read returns, the client trusts a head that it reached from the
  head it trusted before along blocks that are linked and endorsed by the roster it trusts, and that
  head is not stale. A row it returns as present is in every table whose root is the state root of
  that head, with the value, epoch and credential returned, unless the hash collides on the inputs of
  the check and of the tree.
\<close>

theorem lite_read_sound:
  assumes "digest_width c" "resolve_read c req msg now lc = Inr (req', lc')" "rq_result req' = Some (Got g)" "lc_trusted lc = Some ts"
  shows "\<exists>m ts' pf. msg = LProofReply m \<and> proof_decode (pp_proof m) = Inr pf \<and> lc_trusted lc' = Some ts' \<and>
    head_walk c (lc_anchor lc) ts ts' \<and> \<not> is_stale (bl_bucket (sb_block (ts_head ts'))) now (lc_tunables lc) \<and>
    (\<not> gt_absent g \<longrightarrow> (\<forall>live. rows_ok live \<and> an_state_root (sb_anchors (ts_head ts')) = merkle c 256 (map (leaf_of c) live) \<and>
       no_clash c (proof_inputs c live (path_of c (rq_store_id req) (rq_name req)) (got_held g) pf) \<and>
       inj_on (h c) (blobs live \<union> {gt_value g, gt_credential g}) \<longrightarrow>
       (\<exists>r \<in> set live. lr_path r = path_of c (rq_store_id req) (rq_name req) \<and> held_of r = got_held g)))"
proof -
  obtain m ts' where m: "msg = LProofReply m" "lc_trusted lc' = Some ts'" "head_walk c (lc_anchor lc) ts ts'"
      "lc_tunables lc' = lc_tunables lc" "check_proof c req m now ts' lc' = Inr (req', lc')"
    using resolve_read_Got[OF assms(2-4)] by metis
  obtain pf where pf: "proof_decode (pp_proof m) = Inr pf" "\<not> is_stale (bl_bucket (sb_block (ts_head ts'))) now (lc_tunables lc')"
      "smt_verify c (an_state_root (sb_anchors (ts_head ts'))) (rq_store_id req) (rq_name req)
         (if gt_absent g then None else Some (got_held g)) pf = Inr True"
    using check_proof_Got[OF m(5) assms(3)] by metis
  note sound = presence_proof_sound[OF assms(1) _ _ proof_decode_siblings[OF pf(1)], of _ "rq_store_id req" "rq_name req" "got_held g"]
  show ?thesis
    by (intro exI[of _ m] exI[of _ ts'] exI[of _ pf] conjI impI allI m(1-3) pf(1), use pf(2) m(4) in simp, elim conjE, rule sound)
      (use pf(3) in \<open>simp_all add: proof_inputs_def got_held_def\<close>)
qed

section \<open>Absence\<close>

text \<open>What a responder sends that wants a row to be absent: the trusted head, and the root as the digest of another path.\<close>

definition forged_proof :: "bytes \<Rightarrow> TrustedState \<Rightarrow> Proof" where
  "forged_proof other ts = \<lparr>pf_siblings = [], pf_occupant = Some (other, an_state_root (sb_anchors (ts_head ts)))\<rparr>"

definition forged_absence :: "bytes \<Rightarrow> ReadReq \<Rightarrow> TrustedState \<Rightarrow> ProofReply" where
  "forged_absence other req ts =
     \<lparr>pp_name = rq_name req, pp_value = [], pp_credential = [], pp_absent = True, pp_proof = proof_encode (forged_proof other ts),
      pp_epoch = 0, pp_head = ts_head ts, pp_roster_fingerprint = ts_roster_fingerprint ts, pp_bundle = None, pp_headers = []\<rparr>"

lemma contiguous_own: "contiguous_from (an_block_num (sb_anchors b)) [b] = []"
  by (subst contiguous_from.simps) (simp add: by_num_def)

text \<open>
  C35: A light client believes any absence. Whatever the state holds, the node that answers a read of
  a client makes it return that the row is absent, by sending back the head the client trusts with a
  proof of one step that names any other path; the client keeps its trust in that head.
\<close>

theorem lite_client_believes_absence:
  assumes "lc_trusted lc = Some ts" "\<not> is_stale (bl_bucket (sb_block (ts_head ts))) now (lc_tunables lc)"
    "other \<noteq> path_of c (rq_store_id req) (rq_name req)" "proof_ok (forged_proof other ts)"
  shows "\<exists>req' g. resolve_read c req (LProofReply (forged_absence other req ts)) now lc = Inr (req', lc) \<and>
    rq_result req' = Some (Got g) \<and> gt_absent g \<and> gt_state_root g = an_state_root (sb_anchors (ts_head ts))"
  using assms(1,2) absence_proof_forgeable[OF assms(3)] proof_wire.dec_enc[OF assms(4)]
  by (simp add: resolve_read_def advance_head_def forged_absence_def contiguous_own check_proof_def reply_held_def)
    (simp add: forged_proof_def)

section \<open>One reply\<close>

lemma corroboration_one: "n = 1 \<or> n = 3 \<Longrightarrow> corroboration n = Inr 1"
  by (auto simp: corroboration_def tolerates_def intersection_def quorum_size_def)

lemma one_reply_promotes:
  assumes "lc_state lc = BOOTSTRAPPING" "fresh_entries now lc = []" "ar_bundle r = Some b"
    "verify_bundle c (lc_anchor lc) b" "verify_settle_sigs c (lc_anchor lc) r b = Inr True" "\<not> reply_stale (lc_tunables lc) now r"
    "length (rb_commitment_members b) = 1 \<or> length (rb_commitment_members b) = 3"
  shows "\<exists>lc' ts. on_bootstrap_reply c p (LAnchorsReply r) now lc = (lc', None) \<and> lc_state lc' = READY \<and> lc_trusted lc' = Some ts \<and>
    ts_roster ts = sort (rb_commitment_members b) \<and> ts_roster_fingerprint ts = ar_roster_fingerprint r \<and> ts_head ts = ar_head r"
proof -
  let ?e = "\<lparr>br_fingerprint = Some (ar_roster_fingerprint r), br_bundle = Some b, br_anchors_reply = Some r\<rparr>"
  have sel: "lc_tunables (store_reply p r b now lc) = lc_tunables lc"
      "lc_bootstrap_peers (store_reply p r b now lc) = AList.update p ?e (lc_bootstrap_peers lc)"
    by (simp_all add: store_reply_def set_view_def)
  have fresh: "fresh_entries now (store_reply p r b now lc) = [(ar_roster_fingerprint r, ?e)]"
    using assms(2,6) unfolding fresh_entries_def sel by (simp add: map_filter_update)
  have "corroboration (int (length (rb_commitment_members b))) = Inr 1" using assms(7) by (intro corroboration_one) auto
  then show ?thesis
    using assms by (simp add: on_bootstrap_reply_def converged_def check_bootstrap_convergence_def fresh promote_to_ready_def lc_signal_def Let_def)
qed

text \<open>
  C36: One reply can bootstrap a light client, with a roster long superseded. The number of peers that
  must agree is taken from the number of seats in the first reply itself: one, when its roster has one
  or three seats. The serial number of the commitment is compared with nothing, and the fingerprint
  that the replies are grouped by, and that the client keeps, is the one the reply claims: it may be
  anything.
\<close>

theorem one_reply_bootstraps:
  assumes "lc_state lc = BOOTSTRAPPING" "fresh_entries now lc = []" "ar_bundle r = Some b"
    "verify_bundle c (lc_anchor lc) b" "verify_settle_sigs c (lc_anchor lc) r b = Inr True" "\<not> reply_stale (lc_tunables lc) now r"
    "length (rb_commitment_members b) = 1 \<or> length (rb_commitment_members b) = 3"
  shows "\<forall>fp. \<exists>lc' ts. on_bootstrap_reply c p (LAnchorsReply (r\<lparr>ar_roster_fingerprint := fp\<rparr>)) now lc = (lc', None) \<and>
    lc_state lc' = READY \<and> lc_trusted lc' = Some ts \<and> ts_roster ts = sort (rb_commitment_members b) \<and>
    ts_roster_fingerprint ts = fp \<and> ts_head ts = ar_head r"
proof
  fix fp
  have "verify_settle_sigs c (lc_anchor lc) (r\<lparr>ar_roster_fingerprint := fp\<rparr>) b = Inr True" "\<not> reply_stale (lc_tunables lc) now (r\<lparr>ar_roster_fingerprint := fp\<rparr>)"
    using assms(5,6) by (simp_all add: verify_settle_sigs_def reply_stale_def)
  then show "\<exists>lc' ts. on_bootstrap_reply c p (LAnchorsReply (r\<lparr>ar_roster_fingerprint := fp\<rparr>)) now lc = (lc', None) \<and>
      lc_state lc' = READY \<and> lc_trusted lc' = Some ts \<and> ts_roster ts = sort (rb_commitment_members b) \<and>
      ts_roster_fingerprint ts = fp \<and> ts_head ts = ar_head r"
    using one_reply_promotes[of lc now "r\<lparr>ar_roster_fingerprint := fp\<rparr>" b c p] assms by simp
qed

section \<open>A client, its peer and a read\<close>

definition seat_bundle :: RosterBundle where
  "seat_bundle = \<lparr>rb_commitment_serial = 0, rb_commitment_members = [sole_seed],
     rb_commitment_cert = sign_roster_commitment seat_prims [1] (rc_content 0 [sole_seed] (rc_fingerprint seat_prims [])),
     rb_entries = [], rb_managers = []\<rparr>"

definition seat_reply :: "SettledBlock \<Rightarrow> AnchorsReply" where
  "seat_reply sb = \<lparr>ar_head = sb, ar_roster_fingerprint = replicate 32 3, ar_bundle = Some seat_bundle, ar_headers = []\<rparr>"

definition seat_mid :: "nat \<Rightarrow> MessageId" where
  "seat_mid i = replicate 16 5"

definition seat_client :: LightClient where
  "seat_client = add_bootstrap_peer sole_seed (lc_new [2] (kp_public seat_prims [1]) DEFAULT)"

definition seat_asking :: LightClient where
  "seat_asking = fst (ask_for_anchors seat_mid [sole_seed] (seat_client\<lparr>lc_state := BOOTSTRAPPING\<rparr>))"

lemma seat_asking_sel: "lc_state seat_asking = BOOTSTRAPPING" "fresh_entries now seat_asking = []" "lc_anchor seat_asking = kp_public seat_prims [1]"
    "lc_tunables seat_asking = DEFAULT" "map_of (lc_inflight seat_asking) (correlation_id (seat_mid 0)) = Some (HBootstrap sole_seed)"
  by (simp_all add: seat_asking_def seat_client_def add_bootstrap_peer_def lc_new_def lc_request_def request_raw_def fresh_entries_def
      blank_reply_def map_filter_simps Let_def)

lemma seat_bundle_verifies: "verify_bundle seat_prims (kp_public seat_prims [1]) seat_bundle"
  using seat_laws(2)
  by (simp add: verify_bundle_def Let_def seat_bundle_def sign_roster_commitment_def cert_sign_def cert_verify_def sign_correct_def)

lemma seat_head:
  obtains ms where "few_sigs ms" "verify_settle_sigs seat_prims (kp_public seat_prims [1]) (seat_reply (seat_pivot ms)) seat_bundle = Inr True"
    "\<not> reply_stale DEFAULT 0 (seat_reply (seat_pivot ms))"
proof -
  let ?b = "\<lparr>bl_bucket = 4, bl_hashes = []\<rparr>"
  let ?sig = "ss_sig (settle_sign seat_prims sole_seed (block_slice_hash seat_prims ?b) seat_anchors)"
  obtain bm where bm: "ms_combine [(0, ?sig)] 2 = Inr \<lparr>ms_bitmap = bm, ms_sigs = [?sig]\<rparr>" "length bm = 1" using sole_multisig by blast
  let ?ms = "\<lparr>ms_bitmap = bm, ms_sigs = [?sig]\<rparr>"
  have few: "few_sigs ?ms" using bm(2) by (simp add: few_sigs_def settle_sign_def seat_sig)
  have pk: "kp_public seat_prims sole_seed = sole_seed" by (simp only: seat_public)
  obtain sr where s: "settle_new seat_prims ?b sole_seed [sole_seed] seat_anchors 20 = Inr sr" "sr_settled sr = Some (seat_pivot ?ms)" "sr_roster sr = [sole_seed]"
    using bm(1) by (simp add: settle_new_def Let_def quorum_one try_settle_def settle_shares_def enumerate_Suc_eq map_filter_simps numeral_2_eq_2 pk seat_pivot_def)
  have inv: "settle_shares_ok seat_prims sr" "settled_ok sr" using settle_run_inv[OF seat_laws(2) settle_run.start[OF s(1)]] by auto
  have "az_verify seat_prims (block_authorization seat_prims (seat_pivot ?ms) (sr_roster sr) (kp_public seat_prims [1])) = Inr True"
    using settle_combine[OF inv(1), of "kp_public seat_prims [1]"] inv s(2) by (auto simp: block_authorization_def settled_ok_def settle_shares_ok_def)
  moreover have "\<not> is_stale 4 0 DEFAULT" by code_simp
  ultimately show thesis
    using that[OF few] s(3) by (simp add: verify_settle_sigs_def seat_reply_def seat_bundle_def reply_stale_def seat_pivot_def)
qed

theorem one_reply_bootstraps_witness:
  "\<exists>r lc'. on_bootstrap_reply seat_prims sole_seed (LAnchorsReply (r\<lparr>ar_roster_fingerprint := replicate 32 8\<rparr>)) 0 seat_asking = (lc', None) \<and>
     lc_state lc' = READY"
proof -
  obtain ms where "few_sigs ms" "verify_settle_sigs seat_prims (kp_public seat_prims [1]) (seat_reply (seat_pivot ms)) seat_bundle = Inr True"
    "\<not> reply_stale DEFAULT 0 (seat_reply (seat_pivot ms))"
    by (rule seat_head)
  then show ?thesis
    using one_reply_bootstraps[of seat_asking 0 "seat_reply (seat_pivot ms)" seat_bundle seat_prims sole_seed] seat_asking_sel seat_bundle_verifies
    by (fastforce simp: seat_reply_def seat_bundle_def)
qed

lemma seat_bundle_ok: "bundle_ok seat_bundle" "length (bundle_encode seat_bundle) < 4000"
proof -
  let ?ct = "rb_commitment_cert seat_bundle"
  have len: "length (ct_signer ?ct) = 32" "length (ct_sig ?ct) = 64" "length (ct_subject ?ct) = 32" "length (ct_purpose ?ct) = 17"
    using seat_laws(1) by (simp_all add: seat_bundle_def sign_roster_commitment_def cert_sign_def seat_public seat_sig pad_to_def h_def digest_width_def
        CERT_PURPOSE_ROSTER_COMMITMENT_def)
  then have ct: "cert_ok ?ct" by (simp add: cert_ok_def cert_bval_def small_bval)
  have l: "length (cert_encode ?ct) < 400"
    using len by (simp add: cert_encode_def cert_bval_def benc.simps encode_bytes_def int_ascii_def nat_ascii.simps)
  with ct show "bundle_ok seat_bundle"
    by (simp add: bundle_ok_def bundle_bval_def small_bval bytes_seq_def) (simp add: seat_bundle_def sole_seed_def small_int_digits)
  have "length (nat_ascii (length (cert_encode ?ct))) \<le> 400" using length_nat_ascii_le[of "length (cert_encode ?ct)"] l by simp
  then show "length (bundle_encode seat_bundle) < 4000"
    using l by (simp add: bundle_encode_def bundle_bval_def bytes_seq_def benc.simps encode_bytes_def int_ascii_def)
      (simp add: seat_bundle_def sole_seed_def benc.simps encode_bytes_def int_ascii_def nat_ascii.simps[of 32] nat_ascii.simps[of 3] nat_ascii.simps[of 0])
qed

lemma seat_reaches_ready:
  obtains lc ts where "lc_run seat_prims (kp_public seat_prims [1]) lc" "lc_state lc = READY" "lc_trusted lc = Some ts" "ts_roster ts = [sole_seed]"
proof -
  let ?a = "kp_public seat_prims [1]"
  obtain ms where ms: "few_sigs ms" "verify_settle_sigs seat_prims ?a (seat_reply (seat_pivot ms)) seat_bundle = Inr True"
      "\<not> reply_stale DEFAULT 0 (seat_reply (seat_pivot ms))"
    by (rule seat_head)
  let ?r = "seat_reply (seat_pivot ms)"
  let ?d = "\<lparr>dl_frm = sole_seed, dl_mid = [], dl_verb = V_ANCHORS_REPLY, dl_body = lite_encode_inner (LAnchorsReply ?r),
    dl_in_reply_to = Some (seat_mid 0)\<rparr>"
  let ?lc = "seat_asking\<lparr>lc_inflight := AList.delete (correlation_id (seat_mid 0)) (lc_inflight seat_asking)\<rparr>"
  have t: "lc_tunables ?lc = lc_tunables seat_asking" "lc_bootstrap_peers ?lc = lc_bootstrap_peers seat_asking" by simp_all
  have sel: "lc_state ?lc = BOOTSTRAPPING" "fresh_entries 0 ?lc = []" "lc_anchor ?lc = ?a" "lc_tunables ?lc = DEFAULT"
    using seat_asking_sel(1,3,4) seat_asking_sel(2)[of 0] unfolding fresh_entries_def t by simp_all
  obtain lc ts where lc: "on_bootstrap_reply seat_prims sole_seed (LAnchorsReply ?r) 0 ?lc = (lc, None)" "lc_state lc = READY"
      "lc_trusted lc = Some ts" "ts_roster ts = [sole_seed]"
    using one_reply_promotes[of ?lc 0 ?r seat_bundle seat_prims sole_seed] ms sel seat_bundle_verifies
    by (auto simp: seat_reply_def seat_bundle_def)
  have "sb_ok (seat_pivot ms)" using seat_pivot_ok[OF ms(1)] by (simp add: pivot_ok_def)
  then have ok: "lite_ok (LAnchorsReply ?r)"
    using seat_bundle_ok seat_pivot_sizes(2)[OF ms(1)]
    by (simp add: seat_reply_def bundle_opt_ok_def anchors_reply_bval_def bundle_raw_def small_bval bytes_seq_def)
  have "begin_bootstrap seat_mid seat_client = Inr (ask_for_anchors seat_mid [sole_seed] (seat_client\<lparr>lc_state := BOOTSTRAPPING\<rparr>))"
    by (simp add: begin_bootstrap_def seat_client_def add_bootstrap_peer_def lc_new_def)
  then have "begin_bootstrap seat_mid seat_client = Inr (seat_asking, snd (ask_for_anchors seat_mid [sole_seed] (seat_client\<lparr>lc_state := BOOTSTRAPPING\<rparr>)))"
    by (simp add: seat_asking_def)
  then have "lc_run seat_prims ?a seat_asking"
    by (rule lc_run.boot[rotated]) (simp add: seat_client_def lc_run.start lc_run.peer)
  moreover have "lc_on_delivered seat_prims 0 seat_asking ?d = Inr (lc, Some (HBootstrap sole_seed))"
    using lc(1) lite_wire.dec_enc[OF ok] by (simp add: lc_on_delivered_def seat_asking_sel(5) bootstrap_on_reply_def)
  ultimately have "lc_run seat_prims ?a lc" by (rule lc_run.delivered)
  then show thesis using lc that by blast
qed

theorem trusted_state_is_certified_witness:
  "\<exists>lc ts. lc_run seat_prims (kp_public seat_prims [1]) lc \<and> lc_state lc = READY \<and> lc_trusted lc = Some ts \<and> ts_roster ts = [sole_seed] \<and>
     certified_roster seat_prims (kp_public seat_prims [1]) [sole_seed] \<and> endorsed seat_prims [sole_seed] (kp_public seat_prims [1]) (ts_head ts)"
proof -
  obtain lc ts where lc: "lc_run seat_prims (kp_public seat_prims [1]) lc" "lc_state lc = READY" "lc_trusted lc = Some ts" "ts_roster ts = [sole_seed]"
    by (rule seat_reaches_ready)
  then show ?thesis using trusted_state_is_certified[OF lc(1)] by metis
qed

text \<open>A client that trusts a head over the table of one row, and a read of that row.\<close>

definition row_root :: digest where
  "row_root = merkle (sample []) 256 (map (leaf_of (sample [])) [sample_row])"

definition row_trust :: TrustedState where
  "row_trust = \<lparr>ts_roster = [], ts_managers = [], ts_node_endpoints = [], ts_roster_fingerprint = replicate 32 3,
     ts_head = \<lparr>sb_block = \<lparr>bl_bucket = 4, bl_hashes = []\<rparr>,
       sb_anchors = \<lparr>an_block_num = 1, an_height = 1, an_prev_block = replicate 32 0, an_state_root = row_root,
         an_acc_state = ACC_IDENTITY, an_acc_log = ACC_IDENTITY\<rparr>,
       sb_multisig = \<lparr>ms_bitmap = [], ms_sigs = []\<rparr>\<rparr>\<rparr>"

definition row_client :: LightClient where
  "row_client = (lc_new [2] (replicate 32 9) DEFAULT)\<lparr>lc_state := READY, lc_trusted := Some row_trust\<rparr>"

definition row_read :: ReadReq where
  "row_read = \<lparr>rq_peer = [], rq_store_id = 1, rq_name = [7], rq_result = None\<rparr>"

definition row_proof :: Proof where
  "row_proof = \<lparr>pf_siblings = [], pf_occupant = Some (leaf_of (sample []) sample_row)\<rparr>"

definition row_reply :: ProofReply where
  "row_reply = \<lparr>pp_name = [7], pp_value = lr_value sample_row, pp_credential = lr_cred sample_row, pp_absent = False,
     pp_proof = proof_encode row_proof, pp_epoch = lr_epoch sample_row, pp_head = ts_head row_trust,
     pp_roster_fingerprint = replicate 32 3, pp_bundle = None, pp_headers = []\<rparr>"

lemma row_client_sel: "lc_trusted row_client = Some row_trust" "lc_tunables row_client = DEFAULT"
    "\<not> is_stale (bl_bucket (sb_block (ts_head row_trust))) 0 DEFAULT"
proof -
  show "\<not> is_stale (bl_bucket (sb_block (ts_head row_trust))) 0 DEFAULT" unfolding row_trust_def by simp code_simp
qed (simp_all add: row_client_def lc_new_def)

lemma row_root_length: "length row_root = 32"
  using length_node_hash[OF sample_digest_width, of "[]" "[sample_row]" "replicate 32 0" 0] by (simp add: row_root_def node_hash_root)

theorem lite_client_believes_absence_witness:
  "live_get [sample_row] 1 [7] \<noteq> None \<and>
   (\<exists>req' g. resolve_read (sample []) row_read (LProofReply (forged_absence [] row_read row_trust)) 0 row_client = Inr (req', row_client) \<and>
      rq_result req' = Some (Got g) \<and> gt_absent g \<and> gt_state_root g = row_root)"
proof
  show "live_get [sample_row] 1 [7] \<noteq> None" by (simp add: live_get_def sample_row_def)
  have "[] \<noteq> path_of (sample []) (rq_store_id row_read) (rq_name row_read)"
    using length_path_of[OF sample_digest_width, of "[]" "rq_store_id row_read" "rq_name row_read"] by auto
  moreover have "proof_ok (forged_proof [] row_trust)"
    using row_root_length by (simp add: proof_ok_def forged_proof_def row_trust_def proof_bval_def small_bval)
  ultimately show "\<exists>req' g. resolve_read (sample []) row_read (LProofReply (forged_absence [] row_read row_trust)) 0 row_client = Inr (req', row_client) \<and>
      rq_result req' = Some (Got g) \<and> gt_absent g \<and> gt_state_root g = row_root"
    using lite_client_believes_absence[OF row_client_sel(1), of 0 "[]" "sample []" row_read] row_client_sel
    by (simp add: row_trust_def)
qed

lemma row_proof_ok: "proof_ok row_proof" "path_of (sample []) 1 [7] = lr_path sample_row"
proof -
  have "lr_path sample_row = path_of (sample []) 1 [7]" by (simp add: sample_row_def)
  then have "length (lr_path sample_row) = 32" using length_path_of[OF sample_digest_width] by simp
  moreover have "length (row_digest (sample []) sample_row) = 32"
    using row_root_length by (simp add: row_root_def merkle_few leaf_of_def)
  ultimately show "proof_ok row_proof" by (simp add: proof_ok_def row_proof_def proof_bval_def small_bval leaf_of_def)
qed (simp add: sample_row_def)

lemma row_read_resolves:
  "\<exists>req' g. resolve_read (sample []) row_read (LProofReply row_reply) 0 row_client = Inr (req', row_client) \<and>
     rq_result req' = Some (Got g) \<and> \<not> gt_absent g \<and> got_held g = held_of sample_row"
proof -
  have "smt_verify (sample []) row_root 1 [7] (Some (held_of sample_row)) row_proof = Inr True"
    using leaf_hash_row[OF sample_rows_ok(1), of sample_row "sample []"]
    by (simp add: smt_verify_def smt_present_def smt_fold_def merkle_few leaf_of_def held_of_def row_root_def row_proof_def)
      (simp add: sample_row_def smt_fold_def)
  then show ?thesis
    using row_client_sel proof_wire.dec_enc[OF row_proof_ok(1)]
    by (simp add: resolve_read_def advance_head_def row_reply_def contiguous_own check_proof_def reply_held_def got_held_def held_of_def row_read_def)
      (simp add: row_trust_def)
qed

theorem lite_read_sound_witness:
  "\<exists>req' g. resolve_read (sample []) row_read (LProofReply row_reply) 0 row_client = Inr (req', row_client) \<and>
     rq_result req' = Some (Got g) \<and> (\<exists>r \<in> set [sample_row]. lr_path r = path_of (sample []) 1 [7] \<and> held_of r = got_held g)"
proof -
  let ?c = "sample []"
  obtain req' g where got: "resolve_read ?c row_read (LProofReply row_reply) 0 row_client = Inr (req', row_client)"
      "rq_result req' = Some (Got g)" "\<not> gt_absent g" "got_held g = held_of sample_row"
    using row_read_resolves by blast
  have pf: "proof_decode (pp_proof row_reply) = Inr row_proof" using proof_wire.dec_enc[OF row_proof_ok(1)] by (simp add: row_reply_def)
  have "leaf_input ?c (path_of ?c 1 [7]) (held_value (held_of sample_row)) (held_cred (held_of sample_row)) (held_epoch (held_of sample_row)) = row_input ?c sample_row"
    by (simp add: row_input_def held_of_def) (simp add: sample_row_def)
  then have "no_clash ?c (proof_inputs ?c [sample_row] (path_of ?c 1 [7]) (got_held g) row_proof)"
    using sample_no_clash[of "row_input ?c sample_row"] by (simp add: sample_tree_inputs proof_inputs_def got(4) row_proof_def)
  moreover have "gt_value g = lr_value sample_row" "gt_credential g = lr_cred sample_row"
    using got(4) by (simp_all add: got_held_def held_of_def)
  then have "inj_on (h ?c) (blobs [sample_row] \<union> {gt_value g, gt_credential g})" by (simp add: blobs_def sample_row_def)
  ultimately have "\<exists>r \<in> set [sample_row]. lr_path r = path_of ?c 1 [7] \<and> held_of r = got_held g"
    using lite_read_sound[OF sample_digest_width got(1,2) row_client_sel(1)] got(3) pf sample_rows_ok(1)
    by (auto simp: row_client_sel row_trust_def row_root_def row_read_def dest!: spec[of _ "[sample_row]"])
  then show ?thesis using got(1,2) by blast
qed

end
