(* ===== verification/Key_Cache.thy ===== *)
theory Key_Cache
  imports Management Sealing
begin

text \<open>
  The key cache of \<^verbatim>\<open>dude/session.py\<close>: the name key of each store and the master of each
  epoch, unsealed once from the rows that wrap them for this key pair, and the sealing and decryption
  of values with them. The reader is an argument of each operation, because the rows behind it change.
  Unicode normalisation (NFC) on encoded names is the parameter \<open>nfc\<close>, and the nonce of a sealed value is an
  argument. An operation that raises keeps in the cache what it had fetched before.
\<close>

record StoreKeys =
  sk_blinding :: "bytes option"
  sk_name_key :: "bytes option"
  sk_masters :: "(int \<times> bytes) list"
  sk_current_epoch :: "int option"

definition no_keys :: StoreKeys where
  "no_keys = \<lparr>sk_blinding = None, sk_name_key = None, sk_masters = [], sk_current_epoch = None\<rparr>"

record KeyCache =
  kc_kp :: seed
  kc_stores :: "(int \<times> StoreKeys) list"

definition kc_new :: "seed \<Rightarrow> KeyCache" where
  "kc_new kp = \<lparr>kc_kp = kp, kc_stores = []\<rparr>"

definition store_keys :: "KeyCache \<Rightarrow> int \<Rightarrow> StoreKeys" where
  "store_keys kc s = (case map_of (kc_stores kc) s of None \<Rightarrow> no_keys | Some sk \<Rightarrow> sk)"

definition keep_keys :: "int \<Rightarrow> StoreKeys \<Rightarrow> KeyCache \<Rightarrow> KeyCache" where
  "keep_keys s sk kc = kc\<lparr>kc_stores := AList.update s sk (kc_stores kc)\<rparr>"

lemma store_keys_keep [simp]: "store_keys (keep_keys s sk kc) s' = (if s' = s then sk else store_keys kc s')"
  by (simp add: store_keys_def keep_keys_def update_conv)

lemma kp_keep [simp]: "kc_kp (keep_keys s sk kc) = kc_kp kc"
  by (simp add: keep_keys_def)

text \<open>A row that wraps a master for this key pair.\<close>

definition unwrap :: "boxes \<Rightarrow> Reader \<Rightarrow> seed \<Rightarrow> bytes \<Rightarrow> bytes res" where
  "unwrap x rd kp row =
     rbind (rd_get rd STORE_MANAGEMENT row) (\<lambda>raw.
     case raw of None \<Rightarrow> Inl SessionError | Some held \<Rightarrow> rbind (open_sealed_raw x kp (held_value held)) Master)"

definition ensure_blinding :: "prims \<Rightarrow> boxes \<Rightarrow> Reader \<Rightarrow> int \<Rightarrow> KeyCache \<Rightarrow> (bytes \<times> KeyCache) res" where
  "ensure_blinding c x rd s kc =
     (let sk = store_keys kc s in
      case sk_name_key sk of
        Some nk \<Rightarrow> Inr (nk, kc)
      | None \<Rightarrow>
          rbind (blind_key s (kp_public c (kc_kp kc))) (\<lambda>row.
          rbind (unwrap x rd (kc_kp kc) row) (\<lambda>b.
          let nk = derive_name_key c b in
          Inr (nk, keep_keys s (sk\<lparr>sk_blinding := Some b, sk_name_key := Some nk\<rparr>) kc))))"

definition cached_value_key :: "prims \<Rightarrow> boxes \<Rightarrow> Reader \<Rightarrow> int \<Rightarrow> int \<Rightarrow> KeyCache \<Rightarrow> (bytes \<times> KeyCache) res" where
  "cached_value_key c x rd s epoch kc =
     (let sk = store_keys kc s in
      case map_of (sk_masters sk) epoch of
        Some m \<Rightarrow> Inr (derive_value_key c m, kc)
      | None \<Rightarrow>
          rbind (wrap_key s epoch (kp_public c (kc_kp kc))) (\<lambda>row.
          rbind (unwrap x rd (kc_kp kc) row) (\<lambda>m.
          Inr (derive_value_key c m, keep_keys s (sk\<lparr>sk_masters := AList.update epoch m (sk_masters sk)\<rparr>) kc))))"

definition cached_epoch :: "Reader \<Rightarrow> int \<Rightarrow> KeyCache \<Rightarrow> (int \<times> KeyCache) res" where
  "cached_epoch rd s kc =
     (let sk = store_keys kc s in
      case sk_current_epoch sk of
        Some e \<Rightarrow> Inr (e, kc)
      | None \<Rightarrow>
          rbind (epoch_key s) (\<lambda>row.
          rbind (rd_get rd STORE_MANAGEMENT row) (\<lambda>raw.
          case raw of
            None \<Rightarrow> Inr (EPOCH_NONE, kc)
          | Some held \<Rightarrow>
              rbind (rbind (decode (held_value held)) as_int) (\<lambda>e.
              Inr (e, keep_keys s (sk\<lparr>sk_current_epoch := Some e\<rparr>) kc)))))"

text \<open>Sequencing that keeps the cache when a later part raises.\<close>

definition keeping :: "('a \<times> KeyCache) res \<Rightarrow> KeyCache \<Rightarrow> 'a res \<times> KeyCache" where
  "keeping m kc = (case m of Inl e \<Rightarrow> (Inl e, kc) | Inr (v, kc') \<Rightarrow> (Inr v, kc'))"

definition kthen :: "'a res \<times> KeyCache \<Rightarrow> ('a \<Rightarrow> KeyCache \<Rightarrow> 'b res \<times> KeyCache) \<Rightarrow> 'b res \<times> KeyCache" where
  "kthen m f = (case m of (Inl e, kc) \<Rightarrow> (Inl e, kc) | (Inr v, kc) \<Rightarrow> f v kc)"

lemma kthen_simps [simp]: "kthen (Inl e, kc) f = (Inl e, kc)" "kthen (Inr v, kc) f = f v kc"
  by (simp_all add: kthen_def)

lemma keeping_simps [simp]: "keeping (Inl e) kc = (Inl e, kc)" "keeping (Inr (v, kc')) kc = (Inr v, kc')"
  by (simp_all add: keeping_def)

lemma kthen_Inr: "kthen m f = (Inr v, kc') \<longleftrightarrow> (\<exists>u kc. m = (Inr u, kc) \<and> f u kc = (Inr v, kc'))"
  by (cases m; cases "fst m") auto

lemma keeping_Inr: "keeping m kc = (Inr v, kc') \<longleftrightarrow> m = Inr (v, kc')"
  by (cases m) auto

definition kc_token :: "prims \<Rightarrow> boxes \<Rightarrow> (bytes \<Rightarrow> bytes) \<Rightarrow> Reader \<Rightarrow> int \<Rightarrow> bytes \<Rightarrow> bool \<Rightarrow> KeyCache \<Rightarrow> bytes res \<times> KeyCache" where
  "kc_token c x nfc rd s nm plaintext kc =
     (if plaintext then (Inr (nfc nm), kc)
      else kthen (keeping (ensure_blinding c x rd s kc) kc) (\<lambda>nk kc1. (Inr (derive_name_token c nk (nfc nm)), kc1)))"

definition value_aad :: "int \<Rightarrow> bytes \<Rightarrow> int \<Rightarrow> bytes" where
  "value_aad s nt epoch = benc (BSeq [BInt s, BBytes nt, BInt epoch])"

text \<open>The token and the key that \<^verbatim>\<open>seal\<close> and \<^verbatim>\<open>decrypt\<close> both compute.\<close>

definition item_key :: "prims \<Rightarrow> boxes \<Rightarrow> (bytes \<Rightarrow> bytes) \<Rightarrow> Reader \<Rightarrow> int \<Rightarrow> bytes \<Rightarrow> int \<Rightarrow> KeyCache \<Rightarrow> (bytes \<times> bytes) res \<times> KeyCache" where
  "item_key c x nfc rd s nm epoch kc =
     kthen (kc_token c x nfc rd s nm False kc) (\<lambda>t kc1.
     kthen (fixed DIGEST_SIZE t, kc1) (\<lambda>nt kc1.
     kthen (keeping (cached_value_key c x rd s epoch kc1) kc1) (\<lambda>vk kc2.
     (Inr (nt, derive_item_key c vk nt), kc2))))"

definition kc_seal ::
  "prims \<Rightarrow> boxes \<Rightarrow> (bytes \<Rightarrow> bytes) \<Rightarrow> bytes \<Rightarrow> Reader \<Rightarrow> int \<Rightarrow> bytes \<Rightarrow> bytes \<Rightarrow> bool \<Rightarrow> KeyCache \<Rightarrow> Sealed res \<times> KeyCache" where
  "kc_seal c x nfc nonce rd s nm v plaintext kc =
     (if plaintext then (Inr \<lparr>sl_token = nfc nm, sl_ciphertext = v, sl_epoch = EPOCH_NONE\<rparr>, kc)
      else kthen (keeping (cached_epoch rd s kc) kc) (\<lambda>epoch kc1.
        kthen (item_key c x nfc rd s nm epoch kc1) (\<lambda>(nt, item) kc2.
        (Inr \<lparr>sl_token = nt, sl_ciphertext = aead_seal x item (value_aad s nt epoch) nonce v, sl_epoch = epoch\<rparr>, kc2))))"

definition kc_decrypt ::
  "prims \<Rightarrow> boxes \<Rightarrow> (bytes \<Rightarrow> bytes) \<Rightarrow> Reader \<Rightarrow> int \<Rightarrow> bytes \<Rightarrow> bytes \<Rightarrow> int \<Rightarrow> KeyCache \<Rightarrow> bytes res \<times> KeyCache" where
  "kc_decrypt c x nfc rd s nm ciphertext epoch kc =
     (if epoch = EPOCH_NONE then (Inr ciphertext, kc)
      else kthen (item_key c x nfc rd s nm epoch kc) (\<lambda>(nt, item) kc1.
        (aead_open x item (value_aad s nt epoch) ciphertext, kc1)))"

section \<open>Shared keys\<close>

text \<open>
  The rows of the reader give this key pair the blinding master \<open>b\<close> of the store and the master \<open>m\<close> of the
  epoch, and what the cache holds already is the same.
\<close>

definition holds_keys :: "prims \<Rightarrow> boxes \<Rightarrow> Reader \<Rightarrow> int \<Rightarrow> int \<Rightarrow> bytes \<Rightarrow> bytes \<Rightarrow> KeyCache \<Rightarrow> bool" where
  "holds_keys c x rd s epoch b m kc \<longleftrightarrow>
     (\<exists>r r'. blind_key s (kp_public c (kc_kp kc)) = Inr r \<and> unwrap x rd (kc_kp kc) r = Inr b \<and>
        wrap_key s epoch (kp_public c (kc_kp kc)) = Inr r' \<and> unwrap x rd (kc_kp kc) r' = Inr m) \<and>
     sk_name_key (store_keys kc s) \<in> {None, Some (derive_name_key c b)} \<and>
     map_of (sk_masters (store_keys kc s)) epoch \<in> {None, Some m}"

text \<open>A row that wraps a master is made by sealing it to the key.\<close>

lemma unwrap_sealed:
  assumes "boxes_correct c x" "rd_get rd STORE_MANAGEMENT row = Inr (Some held)" "pk_seal x (kp_public c kp) rnd m = Inr (held_value held)"
    "length m = MASTER_SIZE"
  shows "unwrap x rd kp row = Inr m"
  using assms open_seal[OF assms(1), of kp rnd m] by (simp add: unwrap_def fixed_def)

lemma item_key_of_masters:
  assumes "digest_width c" "holds_keys c x rd s epoch b m kc"
  shows "\<exists>kc'. item_key c x nfc rd s nm epoch kc =
    (Inr (derive_name_token c (derive_name_key c b) (nfc nm),
          derive_item_key c (derive_value_key c m) (derive_name_token c (derive_name_key c b) (nfc nm))), kc')"
proof -
  let ?nt = "derive_name_token c (derive_name_key c b) (nfc nm)"
  have len: "length ?nt = DIGEST_SIZE" using assms(1) by (simp add: derive_name_token_def digest_width_def)
  obtain r r' where r: "blind_key s (kp_public c (kc_kp kc)) = Inr r" "unwrap x rd (kc_kp kc) r = Inr b"
      "wrap_key s epoch (kp_public c (kc_kp kc)) = Inr r'" "unwrap x rd (kc_kp kc) r' = Inr m"
    and c1: "sk_name_key (store_keys kc s) \<in> {None, Some (derive_name_key c b)}"
    and c2: "map_of (sk_masters (store_keys kc s)) epoch \<in> {None, Some m}"
    using assms(2) unfolding holds_keys_def by blast
  obtain kc1 where kc1: "ensure_blinding c x rd s kc = Inr (derive_name_key c b, kc1)" "kc_kp kc1 = kc_kp kc"
      "sk_masters (store_keys kc1 s) = sk_masters (store_keys kc s)"
    using r c1 by (cases "sk_name_key (store_keys kc s)") (auto simp: ensure_blinding_def Let_def)
  have "\<exists>kc2. cached_value_key c x rd s epoch kc1 = Inr (derive_value_key c m, kc2)"
    using r c2 kc1 by (cases "map_of (sk_masters (store_keys kc s)) epoch") (auto simp: cached_value_key_def Let_def)
  then show ?thesis using kc1(1) len by (auto simp: item_key_def kc_token_def fixed_def)
qed

lemma cached_epoch_keeps:
  assumes "cached_epoch rd s kc = Inr (e, kc')"
  shows "kc_kp kc' = kc_kp kc" "sk_name_key (store_keys kc' s') = sk_name_key (store_keys kc s')"
    "sk_masters (store_keys kc' s') = sk_masters (store_keys kc s')"
  using assms by (auto simp: cached_epoch_def Let_def rbind_Inr_conv split: option.splits)

lemma holds_keys_cached_epoch:
  "cached_epoch rd s kc = Inr (e, kc') \<Longrightarrow> holds_keys c x rd0 s epoch b m kc \<Longrightarrow> holds_keys c x rd0 s epoch b m kc'"
  by (simp add: holds_keys_def cached_epoch_keeps)

text \<open>
  Values sealed by one client open for another. What a client seals under a name, in an epoch of the
  store, every client decrypts to the value whose rows wrap the same two masters for its own key, whatever each has in its
  cache from those rows before.
\<close>

lemma sealed_values_open:
  assumes "boxes_correct c x" "digest_width c" "length nonce = NONCE_SIZE"
    "kc_seal c x nfc nonce rd s nm v False kc = (Inr sealed, kc1)" "sl_epoch sealed \<noteq> EPOCH_NONE"
    "holds_keys c x rd s (sl_epoch sealed) b m kc" "holds_keys c x rd' s (sl_epoch sealed) b m kc'"
  shows "\<exists>kc2. kc_decrypt c x nfc rd' s nm (sl_ciphertext sealed) (sl_epoch sealed) kc' = (Inr v, kc2)"
proof -
  let ?e = "sl_epoch sealed" and ?nt = "derive_name_token c (derive_name_key c b) (nfc nm)"
  let ?k = "derive_item_key c (derive_value_key c m) ?nt"
  obtain kc0 where kc0: "cached_epoch rd s kc = Inr (?e, kc0)"
    using assms(4) by (auto simp: kc_seal_def kthen_Inr keeping_Inr)
  have "holds_keys c x rd s ?e b m kc0" using holds_keys_cached_epoch[OF kc0 assms(6)] .
  from item_key_of_masters[OF assms(2) this, of nfc nm] have "sl_ciphertext sealed = aead_seal x ?k (value_aad s ?nt ?e) nonce v"
    using assms(4) kc0 by (cases sealed) (auto simp: kc_seal_def)
  then show ?thesis
    using item_key_of_masters[OF assms(2,7), of nfc nm] aead_open_seal[OF assms(1,3)] assms(5) by (auto simp: kc_decrypt_def)
qed

lemma epoch_stays_cached:
  assumes "sk_current_epoch (store_keys kc s) = Some e" "kc_seal c x nfc nonce rd s nm v False kc = (Inr sealed, kc')"
  shows "sl_epoch sealed = e \<and> sk_current_epoch (store_keys kc' s) = Some e"
proof -
  have b: "ensure_blinding c x rd s k = Inr (nk, k') \<Longrightarrow> sk_current_epoch (store_keys k' s) = sk_current_epoch (store_keys k s)" for nk k k'
    by (auto simp: ensure_blinding_def Let_def rbind_Inr_conv split: option.splits)
  have w: "cached_value_key c x rd s ep k = Inr (vk, k') \<Longrightarrow> sk_current_epoch (store_keys k' s) = sk_current_epoch (store_keys k s)" for ep vk k k'
    by (auto simp: cached_value_key_def Let_def rbind_Inr_conv split: option.splits)
  show ?thesis
    using assms by (auto simp: kc_seal_def cached_epoch_def item_key_def kc_token_def kthen_Inr keeping_Inr dest!: b w)
qed

definition key_rows :: "seed \<Rightarrow> (bytes \<times> bytes) list" where
  "key_rows kp =
     [(P_EPOCH @ be_bytes 8 1, benc (BInt 5)),
      (P_BLIND @ be_bytes 8 1 @ pad_to 32 kp, box_encrypt sample_boxes (kp_public (sample []) kp) [] (replicate 32 1)),
      (P_WRAP @ be_bytes 8 1 @ be_bytes 8 5 @ pad_to 32 kp, box_encrypt sample_boxes (kp_public (sample []) kp) [] (replicate 32 2))]"

definition key_reader :: "seed \<Rightarrow> Reader" where
  "key_reader kp =
     \<lparr>rd_get = (\<lambda>st nm. Inr (map_option (\<lambda>v. \<lparr>held_value = v, held_epoch = 0, held_cred = []\<rparr>) (map_of (key_rows kp) nm))),
      rd_anchor = Inr [], rd_count_prefix = (\<lambda>_ _. Inr 0), rd_nth_prefix = (\<lambda>_ _ _ _. Inr None)\<rparr>"

lemma sample_public: "kp_public (sample []) kp = pad_to 32 kp"
  by (simp add: kp_public_def sample_def)

lemma sample_key_ok: "box_key_ok sample_boxes (kp_public (sample []) kp)"
  using sample_boxes_correct[of "[]"] by (simp add: boxes_correct_def)

lemma key_reader_rows: "(nm, v) \<in> set (key_rows kp) \<Longrightarrow> rd_get (key_reader kp) st nm = Inr (Some \<lparr>held_value = v, held_epoch = 0, held_cred = []\<rparr>)"
  by (auto simp: key_reader_def key_rows_def P_EPOCH_def P_BLIND_def P_WRAP_def)

lemma sample_holds_keys: "holds_keys (sample []) sample_boxes (key_reader kp) 1 5 (replicate 32 1) (replicate 32 2) (kc_new kp)"
proof -
  have "blind_key 1 (kp_public (sample []) kp) = Inr (P_BLIND @ be_bytes 8 1 @ pad_to 32 kp)"
    "wrap_key 1 5 (kp_public (sample []) kp) = Inr (P_WRAP @ be_bytes 8 1 @ be_bytes 8 5 @ pad_to 32 kp)"
    by (simp_all add: blind_key_def wrap_key_def store_key_def to_bytes_def sample_public)
  moreover have "unwrap sample_boxes (key_reader kp) kp (P_BLIND @ be_bytes 8 1 @ pad_to 32 kp) = Inr (replicate 32 1)"
    "unwrap sample_boxes (key_reader kp) kp (P_WRAP @ be_bytes 8 1 @ be_bytes 8 5 @ pad_to 32 kp) = Inr (replicate 32 2)"
    by (rule unwrap_sealed[where c = "sample []" and rnd = "[]", OF sample_boxes_correct key_reader_rows], simp_all add: key_rows_def MASTER_SIZE_def pk_seal_Inr sample_key_ok)+
  ultimately show ?thesis by (simp add: holds_keys_def kc_new_def store_keys_def no_keys_def)
qed

lemma sample_epoch: "cached_epoch (key_reader kp) 1 (kc_new kp) = Inr (5, keep_keys 1 (no_keys\<lparr>sk_current_epoch := Some 5\<rparr>) (kc_new kp))"
proof -
  have "bencodable (BInt 5)" by (simp add: bencodable_def bdepth.simps MAX_DEPTH_codec_def small_int_digits)
  then have "rbind (decode (benc (BInt 5))) as_int = Inr 5" by (simp add: decode_benc)
  moreover have "epoch_key 1 = Inr (P_EPOCH @ be_bytes 8 1)" by (simp add: epoch_key_def store_key_def to_bytes_def)
  moreover have "rd_get (key_reader kp) st (P_EPOCH @ be_bytes 8 1) = Inr (Some \<lparr>held_value = benc (BInt 5), held_epoch = 0, held_cred = []\<rparr>)" for st
    by (rule key_reader_rows) (simp add: key_rows_def)
  ultimately show ?thesis by (simp add: cached_epoch_def) (simp add: store_keys_def kc_new_def no_keys_def)
qed

lemma sample_seals:
  obtains sealed kc1 where "kc_seal (sample []) sample_boxes id (replicate 24 0) (key_reader kp) 1 [65] [7, 7] False (kc_new kp) = (Inr sealed, kc1)"
    "sl_epoch sealed = 5" "sk_current_epoch (store_keys kc1 1) = Some 5"
proof -
  let ?kc0 = "keep_keys 1 (no_keys\<lparr>sk_current_epoch := Some 5\<rparr>) (kc_new kp)"
  have "holds_keys (sample []) sample_boxes (key_reader kp) 1 5 (replicate 32 1) (replicate 32 2) ?kc0"
    using holds_keys_cached_epoch[OF sample_epoch sample_holds_keys] .
  from item_key_of_masters[OF sample_digest_width this, of id "[65]"]
  obtain sealed kc1 where s: "kc_seal (sample []) sample_boxes id (replicate 24 0) (key_reader kp) 1 [65] [7, 7] False (kc_new kp) = (Inr sealed, kc1)"
      "kc_seal (sample []) sample_boxes id (replicate 24 0) (key_reader kp) 1 [65] [7, 7] False ?kc0 = (Inr sealed, kc1)"
    by (auto simp: kc_seal_def sample_epoch) (simp add: cached_epoch_def)
  show thesis using that[OF s(1)] epoch_stays_cached[OF _ s(2)] by simp
qed

lemma sealed_values_open_witness:
  "\<exists>sealed kc1 kc2. kc_seal (sample []) sample_boxes id (replicate 24 0) (key_reader [1]) 1 [65] [7, 7] False (kc_new [1]) = (Inr sealed, kc1) \<and>
     kc_decrypt (sample []) sample_boxes id (key_reader [2]) 1 [65] (sl_ciphertext sealed) (sl_epoch sealed) (kc_new [2]) = (Inr [7, 7], kc2)"
proof -
  obtain sealed kc1 where s: "kc_seal (sample []) sample_boxes id (replicate 24 0) (key_reader [1]) 1 [65] [7, 7] False (kc_new [1]) = (Inr sealed, kc1)"
    "sl_epoch sealed = 5" by (rule sample_seals)
  have "\<exists>kc2. kc_decrypt (sample []) sample_boxes id (key_reader [2]) 1 [65] (sl_ciphertext sealed) (sl_epoch sealed) (kc_new [2]) = (Inr [7, 7], kc2)"
    by (rule sealed_values_open[OF sample_boxes_correct sample_digest_width _ s(1), where b = "replicate 32 1" and m = "replicate 32 2"])
      (simp_all add: s(2) NONCE_SIZE_def EPOCH_NONE_def sample_holds_keys)
  with s(1) show ?thesis by blast
qed

section \<open>Stale epochs\<close>

text \<open>The writes of one client, sealed one after the other while the rows behind the reader change.\<close>

inductive seals :: "prims \<Rightarrow> boxes \<Rightarrow> (bytes \<Rightarrow> bytes) \<Rightarrow> int \<Rightarrow> KeyCache \<Rightarrow> Sealed list \<Rightarrow> KeyCache \<Rightarrow> bool" for c x nfc s where
  none: "seals c x nfc s kc [] kc"
| more: "kc_seal c x nfc nonce rd s nm v False kc = (Inr sealed, kc1) \<Longrightarrow> seals c x nfc s kc1 rest kc2 \<Longrightarrow> seals c x nfc s kc (sealed # rest) kc2"

lemma seals_epoch:
  assumes "seals c x nfc s kc ss kc'" "sk_current_epoch (store_keys kc s) = Some e"
  shows "\<forall>sealed \<in> set ss. sl_epoch sealed = e"
  using assms by induction (auto dest: epoch_stays_cached)

text \<open>
  A client that has seen one epoch never writes in another. Once the cache holds the epoch of a
  store, every value the client seals carries that epoch, whatever the store holds by then; and when the
  store has moved two epochs on, settlement refuses each of these writes.
\<close>

lemma cached_epoch_outlives_rotation:
  assumes "sk_current_epoch (store_keys kc s) = Some e" "seals c x nfc s kc ss kc'" "sealed \<in> set ss"
    "s \<noteq> STORE_MANAGEMENT" "e \<noteq> EPOCH_NONE" "2 \<le> cur" "e < cur - 1"
    "stx_txn tx = \<lparr>step_guards = gs, step_mutation = Set s (sl_token sealed) (sl_ciphertext sealed) (sl_epoch sealed), step_soft = soft\<rparr> # rest"
    "au_current_epoch auth s (overlay_reader fuel (overlay_new rd)) = Inr cur"
    "evaluate c fuel rd tx auth = Inr (verdict, layer)"
  shows "sl_epoch sealed = e \<and> \<not> vd_ok verdict"
proof -
  have e: "sl_epoch sealed = e" using seals_epoch[OF assms(2,1)] assms(3) by blast
  then have "data_row_shape (overlay_reader fuel (overlay_new rd)) auth (Set s (sl_token sealed) (sl_ciphertext sealed) (sl_epoch sealed)) \<noteq> Inr None"
    using assms(4-7,9) by (auto simp: data_row_shape_def)
  then show ?thesis
    using e assms(8,10) by (auto simp: evaluate_def vd_ok_def rejected_def rbind_Inr_conv Let_def split: if_splits option.splits)
qed

text \<open>A client that wrote in the fifth epoch, while the store has moved to the seventh.\<close>

definition seventh_epoch :: Authoriser where
  "seventh_epoch = \<lparr>au_may_write = (\<lambda>_ _ _. Inr True), au_current_epoch = (\<lambda>_ _. Inr 7), au_epoch_target = (\<lambda>_. None)\<rparr>"

definition late_write :: "Sealed \<Rightarrow> SignedTransaction" where
  "late_write sealed = tx_sign (sample [])
     [\<lparr>step_guards = [], step_mutation = Set 1 (sl_token sealed) (sl_ciphertext sealed) (sl_epoch sealed), step_soft = False\<rparr>] [1] 0"

lemma cached_epoch_outlives_rotation_witness:
  "\<exists>kc sealed kc' verdict layer. kc_seal (sample []) sample_boxes id (replicate 24 0) (key_reader [1]) 1 [65] [7, 7] False kc = (Inr sealed, kc') \<and>
     evaluate (sample []) 5 (key_reader [1]) (late_write sealed) seventh_epoch = Inr (verdict, layer) \<and> sl_epoch sealed = 5 \<and> \<not> vd_ok verdict"
proof -
  let ?kc = "keep_keys 1 (no_keys\<lparr>sk_current_epoch := Some 5\<rparr>) (kc_new [1])"
  have "holds_keys (sample []) sample_boxes (key_reader [1]) 1 5 (replicate 32 1) (replicate 32 2) ?kc"
    using holds_keys_cached_epoch[OF sample_epoch sample_holds_keys] .
  from item_key_of_masters[OF sample_digest_width this, of id "[65]"]
  obtain sealed kc' where s: "kc_seal (sample []) sample_boxes id (replicate 24 0) (key_reader [1]) 1 [65] [7, 7] False ?kc = (Inr sealed, kc')"
      "length (sl_token sealed) = 32"
    using sample_digest_width[of "[]"] by (auto simp: kc_seal_def cached_epoch_def derive_name_token_def digest_width_def DIGEST_SIZE_def)
  have e: "sl_epoch sealed = 5" using epoch_stays_cached[OF _ s(1), of 5] by simp
  have run: "seals (sample []) sample_boxes id 1 ?kc [sealed] kc'" by (rule seals.more[OF s(1) seals.none])
  have tx: "stx_txn (late_write sealed) = [\<lparr>step_guards = [], step_mutation = Set 1 (sl_token sealed) (sl_ciphertext sealed) (sl_epoch sealed), step_soft = False\<rparr>]"
    "stx_verify (sample []) (late_write sealed)"
    using sample_sign_correct[of "[]"] by (simp_all add: late_write_def tx_sign_def stx_verify_def stx_body_def)
  have ev: "evaluate (sample []) 5 (key_reader [1]) (late_write sealed) seventh_epoch = Inr (rejected R_EPOCH (Some 0), overlay_new (key_reader [1]))"
    using tx s(2) e by (simp add: evaluate_def seventh_epoch_def data_row_shape_def MAX_NAME_BYTES_def STORE_MANAGEMENT_def EPOCH_NONE_def DIGEST_SIZE_def)
  have "sl_epoch sealed = 5 \<and> \<not> vd_ok (rejected R_EPOCH (Some 0))"
    by (rule cached_epoch_outlives_rotation[OF _ run _ _ _ _ _ tx(1) _ ev, of 5 7])
      (simp_all add: seventh_epoch_def STORE_MANAGEMENT_def EPOCH_NONE_def)
  with s(1) ev show ?thesis by blast
qed

end
