(* ===== verification/Queue.thy ===== *)
theory Queue
  imports Session
begin

text \<open>
  \<^verbatim>\<open>dude/ds/plaintext_map.py\<close> and \<^verbatim>\<open>dude/ds/queue.py\<close>: a map whose keys are the row
  names after a prefix, and a queue of jobs in three such maps: pending jobs, the active jobs of each
  worker, and leases ordered by their deadline. Reads go through a session; every change is a
  transaction that the caller submits. The iterators of Python read row by row; here the reader does not
  change between the rows. The random choices are arguments.
\<close>

section \<open>Plaintext maps\<close>

record PlaintextMap =
  pm_prefix :: bytes
  pm_session :: Session

definition full_name :: "PlaintextMap \<Rightarrow> bytes \<Rightarrow> bytes" where
  "full_name m key = pm_prefix m @ key"

definition pm_get :: "PlaintextMap \<Rightarrow> bytes \<Rightarrow> SRecord res" where
  "pm_get m key = session_get (pm_session m) (Bytes (full_name m key)) True"

definition pm_count :: "PlaintextMap \<Rightarrow> int res" where
  "pm_count m = session_count_prefix (pm_session m) (pm_prefix m)"

definition pm_nth :: "PlaintextMap \<Rightarrow> int \<Rightarrow> bool \<Rightarrow> (bytes \<times> SRecord) option res" where
  "pm_nth m n descending =
     rbind (session_nth_prefix (pm_session m) (pm_prefix m) n descending) (\<lambda>result.
     Inr (map_option (\<lambda>(nm, held). (drop (length (pm_prefix m)) nm,
       \<lparr>rec_name = Bytes nm, rec_store_id = se_store_id (pm_session m), rec_token = nm, rec_value = held_value held,
        rec_raw = held_value held, rec_epoch = held_epoch held, rec_absent = False\<rparr>)) result))"

fun records_from :: "PlaintextMap \<Rightarrow> int \<Rightarrow> nat \<Rightarrow> (bytes \<times> SRecord) list res" where
  "records_from m i 0 = Inr []"
| "records_from m i (Suc k) =
     rbind (pm_nth m i False) (\<lambda>result.
     case result of None \<Rightarrow> Inr [] | Some r \<Rightarrow> rbind (records_from m (i + 1) k) (\<lambda>rs. Inr (r # rs)))"

definition pm_records :: "PlaintextMap \<Rightarrow> (bytes \<times> SRecord) list res" where
  "pm_records m = rbind (pm_count m) (\<lambda>n. records_from m 0 (nat n))"

definition pm_keys :: "PlaintextMap \<Rightarrow> bytes list res" where
  "pm_keys m = rbind (pm_records m) (\<lambda>rs. Inr (map fst rs))"

definition pm_items :: "PlaintextMap \<Rightarrow> (bytes \<times> bytes) list res" where
  "pm_items m = rbind (pm_records m) (\<lambda>rs. Inr (map (\<lambda>(k, r). (k, rec_value r)) rs))"

definition pm_tx_put :: "prims \<Rightarrow> PlaintextMap \<Rightarrow> bytes \<Rightarrow> bytes \<Rightarrow> GuardOpts \<Rightarrow> Transaction res" where
  "pm_tx_put c m key value opts =
     rbind (build_step c (Set (se_store_id (pm_session m)) (full_name m key) value EPOCH_NONE) opts) (\<lambda>st. Inr [st])"

definition pm_tx_delete :: "prims \<Rightarrow> PlaintextMap \<Rightarrow> bytes \<Rightarrow> GuardOpts \<Rightarrow> Transaction res" where
  "pm_tx_delete c m key opts = rbind (build_step c (Del (se_store_id (pm_session m)) (full_name m key)) opts) (\<lambda>st. Inr [st])"

section \<open>Lease keys\<close>

text \<open>\<^verbatim>\<open>%08X\<close>: capital hexadecimal digits, padded with zeros to eight places, the sign included.\<close>

definition hex_digit :: "nat \<Rightarrow> byte" where
  "hex_digit n = of_nat (if n < 10 then 48 + n else 55 + n)"

fun hex_digits :: "nat \<Rightarrow> bytes" where
  "hex_digits n = (if n < 16 then [hex_digit n] else hex_digits (n div 16) @ [hex_digit (n mod 16)])"

declare hex_digits.simps [simp del]

definition zero_pad :: "nat \<Rightarrow> bytes \<Rightarrow> bytes" where
  "zero_pad w ds = replicate (w - length ds) 48 @ ds"

definition fmt_08X :: "int \<Rightarrow> bytes" where
  "fmt_08X n = (if n < 0 then 45 # zero_pad 7 (hex_digits (nat (- n))) else zero_pad 8 (hex_digits (nat n)))"

definition lease_key :: "int \<Rightarrow> bytes \<Rightarrow> bytes" where
  "lease_key deadline job_id = fmt_08X deadline @ [47] @ job_id"

text \<open>
  \<^verbatim>\<open>int(b, 16)\<close>: white space around, a sign, a prefix \<^verbatim>\<open>0x\<close> and single underscores
  between digits are accepted.
\<close>

definition is_space :: "byte \<Rightarrow> bool" where
  "is_space b \<longleftrightarrow> b = 32 \<or> (9 \<le> b \<and> b \<le> 13)"

definition hex_val :: "byte \<Rightarrow> nat option" where
  "hex_val b =
     (if 48 \<le> b \<and> b \<le> 57 then Some (unat b - 48)
      else if 65 \<le> b \<and> b \<le> 70 then Some (unat b - 55)
      else if 97 \<le> b \<and> b \<le> 102 then Some (unat b - 87) else None)"

definition drop_sign :: "bytes \<Rightarrow> bool \<times> bytes" where
  "drop_sign s = (case s of [] \<Rightarrow> (False, s) | b # r \<Rightarrow> if b = 45 then (True, r) else if b = 43 then (False, r) else (False, s))"

definition drop_0x :: "bytes \<Rightarrow> bytes" where
  "drop_0x s =
     (case s of
        a # b # r \<Rightarrow> if a = 48 \<and> (b = 120 \<or> b = 88) then (case r of [] \<Rightarrow> [] | u # r' \<Rightarrow> if u = 95 then r' else r) else s
      | _ \<Rightarrow> s)"

definition hex_body_ok :: "bytes \<Rightarrow> bool" where
  "hex_body_ok ds \<longleftrightarrow> ds \<noteq> [] \<and> hd ds \<noteq> 95 \<and> last ds \<noteq> 95 \<and> list_all (\<lambda>(a, b). \<not> (a = 95 \<and> b = 95)) (zip ds (tl ds))"

definition hex_number :: "bytes \<Rightarrow> nat" where
  "hex_number ds = foldl (\<lambda>n b. case hex_val b of None \<Rightarrow> n | Some d \<Rightarrow> 16 * n + d) 0 ds"

definition int_base16 :: "bytes \<Rightarrow> int res" where
  "int_base16 s =
     (let (neg, s1) = drop_sign (dropWhile is_space s);
          s2 = drop_0x s1;
          in_body = (\<lambda>b. hex_val b \<noteq> None \<or> b = 95);
          ds = takeWhile in_body s2
      in if hex_body_ok ds \<and> list_all is_space (dropWhile in_body s2)
         then Inr (if neg then - int (hex_number ds) else int (hex_number ds)) else Inl ValueError)"

text \<open>\<^verbatim>\<open>key.split(b"/", 1)\<close> must give two parts.\<close>

definition parse_lease_key :: "bytes \<Rightarrow> (int \<times> bytes) res" where
  "parse_lease_key key =
     (if 47 \<in> set key
      then rbind (int_base16 (takeWhile (\<lambda>b. b \<noteq> 47) key)) (\<lambda>d. Inr (d, tl (dropWhile (\<lambda>b. b \<noteq> 47) key)))
      else Inl ValueError)"

section \<open>The queue\<close>

record Claim =
  cl_job_id :: bytes
  cl_payload :: bytes
  cl_worker :: bytes
  cl_deadline :: int

record Queue =
  qu_prefix :: bytes
  qu_session :: Session

definition pending_map :: "Queue \<Rightarrow> PlaintextMap" where
  "pending_map q = \<lparr>pm_prefix = qu_prefix q @ ascii ''P/'', pm_session = qu_session q\<rparr>"

definition lease_map :: "Queue \<Rightarrow> PlaintextMap" where
  "lease_map q = \<lparr>pm_prefix = qu_prefix q @ ascii ''L/'', pm_session = qu_session q\<rparr>"

definition active_map :: "Queue \<Rightarrow> bytes \<Rightarrow> PlaintextMap" where
  "active_map q worker = \<lparr>pm_prefix = qu_prefix q @ ascii ''A/'' @ worker @ ascii ''/'', pm_session = qu_session q\<rparr>"

definition pending_count :: "Queue \<Rightarrow> int res" where
  "pending_count q = pm_count (pending_map q)"

definition active_count :: "Queue \<Rightarrow> bytes \<Rightarrow> int res" where
  "active_count q worker = pm_count (active_map q worker)"

definition if_absent :: GuardOpts where
  "if_absent = no_opts\<lparr>go_absent := Some True\<rparr>"

definition expecting :: "SRecord \<Rightarrow> GuardOpts" where
  "expecting r = no_opts\<lparr>go_expect := ExpectOne r\<rparr>"

definition queue_submit :: "prims \<Rightarrow> Queue \<Rightarrow> bytes \<Rightarrow> bytes \<Rightarrow> Transaction res" where
  "queue_submit c q job_id payload = pm_tx_put c (pending_map q) job_id payload if_absent"

text \<open>\<^verbatim>\<open>_claim_job\<close>.\<close>

definition claim_of :: "prims \<Rightarrow> Queue \<Rightarrow> bytes \<Rightarrow> int \<Rightarrow> bytes \<Rightarrow> bytes \<Rightarrow> SRecord \<Rightarrow> (Claim \<times> Transaction) res" where
  "claim_of c q worker deadline job_id payload r =
     rbind (pm_tx_delete c (pending_map q) job_id (expecting r)) (\<lambda>t1.
     rbind (pm_tx_put c (active_map q worker) job_id payload if_absent) (\<lambda>t2.
     rbind (pm_tx_put c (lease_map q) (lease_key deadline job_id) worker if_absent) (\<lambda>t3.
     Inr (\<lparr>cl_job_id = job_id, cl_payload = payload, cl_worker = worker, cl_deadline = deadline\<rparr>, tx_add (tx_add t1 t2) t3))))"

definition claim_at :: "prims \<Rightarrow> Queue \<Rightarrow> bytes \<Rightarrow> int \<Rightarrow> int \<Rightarrow> (Claim \<times> Transaction) option res" where
  "claim_at c q worker deadline index =
     rbind (pm_nth (pending_map q) index False) (\<lambda>result.
     case result of
       None \<Rightarrow> Inr None
     | Some (job_id, r) \<Rightarrow> rbind (claim_of c q worker deadline job_id (rec_value r) r) (\<lambda>x. Inr (Some x)))"

definition claim_job :: "prims \<Rightarrow> Queue \<Rightarrow> bytes \<Rightarrow> int \<Rightarrow> bytes \<Rightarrow> (Claim \<times> Transaction) option res" where
  "claim_job c q worker deadline job_id =
     rbind (pm_get (pending_map q) job_id) (\<lambda>r.
     if rec_absent r then Inr None
     else rbind (claim_of c q worker deadline job_id (rec_value r) r) (\<lambda>x. Inr (Some x)))"

text \<open>\<open>pick n\<close> is what \<^verbatim>\<open>random.randrange(n)\<close> returns.\<close>

definition claim_random :: "prims \<Rightarrow> (int \<Rightarrow> int) \<Rightarrow> Queue \<Rightarrow> bytes \<Rightarrow> int \<Rightarrow> (Claim \<times> Transaction) option res" where
  "claim_random c pick q worker deadline =
     rbind (pm_count (pending_map q)) (\<lambda>n. if n = 0 then Inr None else claim_at c q worker deadline (pick n))"

definition claim_complete :: "prims \<Rightarrow> Queue \<Rightarrow> Claim \<Rightarrow> Transaction res" where
  "claim_complete c q cl =
     (let active = active_map q (cl_worker cl); lk = lease_key (cl_deadline cl) (cl_job_id cl) in
      rbind (pm_get active (cl_job_id cl)) (\<lambda>r.
      rbind (pm_get (lease_map q) lk) (\<lambda>lr.
      rbind (pm_tx_delete c active (cl_job_id cl) (expecting r)) (\<lambda>t1.
      rbind (pm_tx_delete c (lease_map q) lk (expecting lr)) (\<lambda>t2. Inr (tx_add t1 t2))))))"

definition claim_reclaim :: "prims \<Rightarrow> Queue \<Rightarrow> Claim \<Rightarrow> Transaction res" where
  "claim_reclaim c q cl =
     (let active = active_map q (cl_worker cl); lk = lease_key (cl_deadline cl) (cl_job_id cl) in
      rbind (pm_get active (cl_job_id cl)) (\<lambda>r.
      rbind (pm_get (lease_map q) lk) (\<lambda>lr.
      rbind (pm_tx_delete c active (cl_job_id cl) (expecting r)) (\<lambda>t1.
      rbind (pm_tx_delete c (lease_map q) lk (expecting lr)) (\<lambda>t2.
      rbind (pm_tx_put c (pending_map q) (cl_job_id cl) (rec_value r) no_opts) (\<lambda>t3. Inr (tx_add (tx_add t1 t2) t3)))))))"

definition renew_lease :: "prims \<Rightarrow> Queue \<Rightarrow> Claim \<Rightarrow> int \<Rightarrow> (Claim \<times> Transaction) res" where
  "renew_lease c q cl new_deadline =
     (let old_lk = lease_key (cl_deadline cl) (cl_job_id cl) in
      rbind (pm_get (lease_map q) old_lk) (\<lambda>old.
      rbind (pm_tx_delete c (lease_map q) old_lk (expecting old)) (\<lambda>t1.
      rbind (pm_tx_put c (lease_map q) (lease_key new_deadline (cl_job_id cl)) (cl_worker cl) if_absent) (\<lambda>t2.
      Inr (cl\<lparr>cl_deadline := new_deadline\<rparr>, tx_add t1 t2)))))"

text \<open>The loop of \<^verbatim>\<open>reclaim_expired\<close> over the leases from the \<open>i\<close>-th on.\<close>

fun reclaim_from :: "prims \<Rightarrow> Queue \<Rightarrow> int \<Rightarrow> int \<Rightarrow> int \<Rightarrow> nat \<Rightarrow> bytes list \<Rightarrow> Transaction \<Rightarrow> (bytes list \<times> Transaction) res" where
  "reclaim_from c q now limit i 0 ejected tx = Inr (ejected, tx)"
| "reclaim_from c q now limit i (Suc k) ejected tx =
     (if int (length ejected) \<ge> limit then Inr (ejected, tx)
      else rbind (pm_nth (lease_map q) i False) (\<lambda>result.
        case result of
          None \<Rightarrow> Inr (ejected, tx)
        | Some (key, lr) \<Rightarrow>
            rbind (parse_lease_key key) (\<lambda>(deadline, job_id).
            if deadline > now then Inr (ejected, tx)
            else
              let active = active_map q (rec_value lr) in
              rbind (pm_get active job_id) (\<lambda>ar.
              rbind (pm_tx_delete c (lease_map q) key (expecting lr)) (\<lambda>t1.
              rbind (pm_tx_delete c active job_id (expecting ar)) (\<lambda>t2.
              rbind (pm_tx_put c (pending_map q) job_id (rec_value ar) no_opts) (\<lambda>t3.
              reclaim_from c q now limit (i + 1) k (ejected @ [job_id]) (tx_add (tx_add (tx_add tx t1) t2) t3))))))))"

definition reclaim_expired :: "prims \<Rightarrow> Queue \<Rightarrow> int \<Rightarrow> int \<Rightarrow> (bytes list \<times> Transaction) res" where
  "reclaim_expired c q now limit = rbind (pm_count (lease_map q)) (\<lambda>n. reclaim_from c q now limit 0 (nat n) [] [])"

end
