(* ===== verification/Queue_Props.thy ===== *)
theory Queue_Props
  imports Queue Sample_Prims
begin

text \<open>
  The leases of a queue. A lease key sorts by its deadline as long as the deadline has at most eight hexadecimal digits,
  and parses back into the deadline and the job; hence the scan of \<^verbatim>\<open>reclaim_expired\<close>, which
  stops at the first lease that has not expired, finds every expired lease.
\<close>

section \<open>Hexadecimal digits\<close>

fun hexw :: "nat \<Rightarrow> nat \<Rightarrow> bytes" where
  "hexw 0 n = []"
| "hexw (Suc k) n = hexw k (n div 16) @ [hex_digit (n mod 16)]"

lemma length_hexw [simp]: "length (hexw k n) = k"
  by (induction k arbitrary: n) auto

lemma hexw_0: "hexw k 0 = replicate k 48"
  by (induction k) (simp_all add: hex_digit_def replicate_append_same)

lemma length_hex_digits: "n < 16 ^ Suc k \<Longrightarrow> length (hex_digits n) \<le> Suc k"
proof (induction k arbitrary: n)
  case 0
  then show ?case by (simp add: hex_digits.simps[of n])
next
  case (Suc k)
  then have "n div 16 < 16 ^ Suc k" by (simp add: less_mult_imp_div_less mult.commute)
  from Suc.IH[OF this] show ?case by (subst hex_digits.simps) simp
qed

lemma zero_pad_hex: "n < 16 ^ Suc k \<Longrightarrow> zero_pad (Suc k) (hex_digits n) = hexw (Suc k) n"
proof (induction k arbitrary: n)
  case 0
  then show ?case by (simp add: hex_digits.simps[of n] zero_pad_def)
next
  case (Suc k)
  show ?case
  proof (cases "n < 16")
    case True
    then show ?thesis by (simp add: hex_digits.simps[of n] zero_pad_def hexw_0 hex_digit_def replicate_append_same)
  next
    case False
    have lt: "n div 16 < 16 ^ Suc k" using Suc.prems by (simp add: less_mult_imp_div_less mult.commute)
    have "zero_pad (Suc (Suc k)) (hex_digits n) = zero_pad (Suc k) (hex_digits (n div 16)) @ [hex_digit (n mod 16)]"
      using False by (subst hex_digits.simps) (simp add: zero_pad_def)
    then show ?thesis using Suc.IH[OF lt] by simp
  qed
qed

lemma append_less_append:
  "length xs = length ys \<Longrightarrow> (xs @ us < ys @ vs) \<longleftrightarrow> xs < ys \<or> xs = ys \<and> us < (vs :: ('a :: linorder) list)"
  by (induction xs ys rule: list_induct2) auto

lemma hex_digit_less: "m < n \<Longrightarrow> n < 16 \<Longrightarrow> hex_digit m < hex_digit n"
  by (simp add: hex_digit_def word_less_nat_alt unat_of_nat)

lemma hexw_less: "m < n \<Longrightarrow> n < 16 ^ k \<Longrightarrow> hexw k m < hexw k n"
proof (induction k arbitrary: m n)
  case (Suc k)
  have lt: "n div 16 < 16 ^ k" using Suc.prems(2) by (simp add: less_mult_imp_div_less mult.commute)
  consider "m div 16 < n div 16" | "m div 16 = n div 16" "m mod 16 < n mod 16"
    using Suc.prems(1) by (metis div_le_mono div_mult_mod_eq le_neq_implies_less less_imp_le_nat nat_add_left_cancel_less)
  then show ?case
    by cases (use Suc.IH[OF _ lt] hex_digit_less in \<open>auto simp: append_less_append\<close>)
qed simp

section \<open>Lease keys\<close>

lemma lease_key_less:
  assumes "0 \<le> d1" "d1 < d2" "d2 < 2 ^ 32"
  shows "lease_key d1 j1 < lease_key d2 j2"
proof -
  have "nat d1 < nat d2" "nat d2 < 16 ^ 8" using assms by auto
  from hexw_less[OF this] show ?thesis
    using assms zero_pad_hex[of "nat d1" 7] zero_pad_hex[of "nat d2" 7]
    by (simp add: lease_key_def fmt_08X_def append_less_append)
qed

lemma hex_digit_facts:
  "\<forall>n \<in> set [0 ..< 16]. hex_val (hex_digit n) = Some n \<and> hex_digit n \<notin> {47, 95, 45, 43, 120, 88} \<and> \<not> is_space (hex_digit n)"
  by code_simp

lemma hex_val_digit: "n < 16 \<Longrightarrow> hex_val (hex_digit n) = Some n"
  and hex_digit_plain: "n < 16 \<Longrightarrow> hex_digit n \<notin> {47, 95, 45, 43, 120, 88} \<and> \<not> is_space (hex_digit n)"
  using hex_digit_facts by (simp_all add: Ball_def)

lemma hex_digits_set: "set (hex_digits n) \<subseteq> hex_digit ` {..<16}"
proof (induction n rule: hex_digits.induct)
  case (1 n)
  then show ?case by (subst hex_digits.simps) auto
qed

lemma hex_number_append: "hex_number (xs @ [hex_digit n]) = 16 * hex_number xs + n" if "n < 16"
  using that by (simp add: hex_number_def hex_val_digit)

lemma hex_number_digits: "hex_number (hex_digits n) = n"
proof (induction n rule: hex_digits.induct)
  case (1 n)
  show ?case
  proof (cases "n < 16")
    case True
    then show ?thesis using hex_number_append[of n "[]"] by (subst hex_digits.simps) (simp add: hex_number_def)
  next
    case False
    then show ?thesis using 1 by (subst hex_digits.simps) (simp add: hex_number_append)
  qed
qed

lemma hex_number_zeros: "hex_number (replicate k 48 @ ds) = hex_number ds"
proof -
  have "foldl (\<lambda>n b. case hex_val b of None \<Rightarrow> n | Some d \<Rightarrow> 16 * n + d) 0 (replicate k 48) = 0"
    by (induction k) (simp_all add: hex_val_def)
  then show ?thesis by (simp add: hex_number_def)
qed

lemma int_base16_digits:
  assumes "set ds \<subseteq> hex_digit ` {..<16}" "ds \<noteq> []"
  shows "int_base16 ds = Inr (int (hex_number ds))"
proof -
  have plain: "b \<notin> {47, 95, 45, 43, 120, 88} \<and> \<not> is_space b \<and> hex_val b \<noteq> None" if mem: "b \<in> set ds" for b
  proof -
    obtain n where "n < 16" "b = hex_digit n" using mem assms(1) by auto
    then show ?thesis using hex_digit_plain[of n] hex_val_digit[of n] by simp
  qed
  have lead: "dropWhile is_space ds = ds" "drop_sign ds = (False, ds)" "drop_0x ds = ds"
  proof -
    obtain a r where ds: "ds = a # r" using assms(2) by (cases ds) auto
    show "dropWhile is_space ds = ds" "drop_sign ds = (False, ds)" using plain[of a] by (simp_all add: ds drop_sign_def)
    show "drop_0x ds = ds" using plain by (cases r) (simp_all add: ds drop_0x_def)
  qed
  have body: "takeWhile (\<lambda>b. hex_val b \<noteq> None \<or> b = 95) ds = ds" "dropWhile (\<lambda>b. hex_val b \<noteq> None \<or> b = 95) ds = []"
    using plain by (auto simp: takeWhile_eq_all_conv)
  have "hex_body_ok ds"
    using plain assms(2) by (auto simp: hex_body_ok_def list_all_iff dest: set_zip_leftD)
  then show ?thesis unfolding int_base16_def Let_def lead prod.case body by simp
qed

lemma split_at_slash:
  assumes "47 \<notin> set ds"
  shows "takeWhile (\<lambda>b. b \<noteq> 47) (ds @ 47 # job) = (ds :: bytes)" "dropWhile (\<lambda>b. b \<noteq> 47) (ds @ 47 # job) = 47 # job"
  using assms by (induction ds) auto

lemma parse_lease_key_inverse:
  assumes "0 \<le> d"
  shows "parse_lease_key (lease_key d job) = Inr (d, job)"
proof -
  let ?ds = "zero_pad 8 (hex_digits (nat d))"
  have z: "(48 :: byte) \<in> hex_digit ` {..<16}" by (auto simp: hex_digit_def intro!: image_eqI[where x = 0])
  have ds: "set ?ds \<subseteq> hex_digit ` {..<16}" "?ds \<noteq> []"
    using hex_digits_set[of "nat d"] z hex_digits.simps[of "nat d"] by (auto simp: zero_pad_def)
  have num: "hex_number ?ds = nat d" by (simp add: zero_pad_def hex_number_zeros hex_number_digits)
  have ne: "47 \<notin> set ?ds" using ds(1) hex_digit_plain by fastforce
  note split = split_at_slash[OF ne, of job]
  have "lease_key d job = ?ds @ 47 # job" using assms by (simp add: lease_key_def fmt_08X_def)
  then show ?thesis using int_base16_digits[OF ds] assms by (simp add: parse_lease_key_def split num)
qed

section \<open>Reclaiming expired jobs\<close>

text \<open>A lease with the row it is about: deadline, job, worker and payload.\<close>

record LeasedJob =
  lj_deadline :: int
  lj_job :: bytes
  lj_worker :: bytes
  lj_payload :: bytes

abbreviation lj_key :: "LeasedJob \<Rightarrow> bytes" where
  "lj_key l \<equiv> lease_key (lj_deadline l) (lj_job l)"

abbreviation q_reader :: "Queue \<Rightarrow> Reader" where
  "q_reader q \<equiv> se_reader (qu_session q)"

abbreviation q_store :: "Queue \<Rightarrow> int" where
  "q_store q \<equiv> se_store_id (qu_session q)"

text \<open>The reader holds the leases in the order of their keys, each with the active job of its worker.\<close>

definition holds_leases :: "Queue \<Rightarrow> LeasedJob list \<Rightarrow> bool" where
  "holds_leases q ls \<longleftrightarrow>
     rd_count_prefix (q_reader q) (q_store q) (qu_prefix q @ ascii ''L/'') = Inr (int (length ls)) \<and>
     (\<forall>i < length ls. \<exists>held. held_value held = lj_worker (ls ! i) \<and>
        rd_nth_prefix (q_reader q) (q_store q) (qu_prefix q @ ascii ''L/'') (int i) False =
          Inr (Some (qu_prefix q @ ascii ''L/'' @ lj_key (ls ! i), held))) \<and>
     (\<forall>l \<in> set ls. \<exists>held. held_value held = lj_payload l \<and> held_epoch held = EPOCH_NONE \<and>
        rd_get (q_reader q) (q_store q) (qu_prefix q @ ascii ''A/'' @ lj_worker l @ ascii ''/'' @ lj_job l) = Inr (Some held))"

definition reclaim_steps :: "prims \<Rightarrow> Queue \<Rightarrow> LeasedJob \<Rightarrow> Transaction" where
  "reclaim_steps c q l =
     (let lease = qu_prefix q @ ascii ''L/'' @ lj_key l;
          active = qu_prefix q @ ascii ''A/'' @ lj_worker l @ ascii ''/'' @ lj_job l
      in [\<lparr>step_guards = [Holds (q_store q) lease (value_digest c (lj_worker l))], step_mutation = Del (q_store q) lease, step_soft = False\<rparr>,
          \<lparr>step_guards = [Holds (q_store q) active (value_digest c (lj_payload l))], step_mutation = Del (q_store q) active, step_soft = False\<rparr>,
          \<lparr>step_guards = [], step_mutation = Set (q_store q) (qu_prefix q @ ascii ''P/'' @ lj_job l) (lj_payload l) EPOCH_NONE, step_soft = False\<rparr>])"

lemmas queue_rows = pm_nth_def pm_get_def session_nth_prefix_def session_get_def get_record_def session_token_def session_decrypt_def
  lease_map_def active_map_def pending_map_def full_name_def

lemmas queue_txs = pm_tx_delete_def pm_tx_put_def build_step_def collect_guards_def expecting_def no_opts_def expect_guards_def

lemma reclaim_one:
  assumes "holds_leases q ls" "i < length ls" "int (length ejected) < limit" "0 \<le> lj_deadline (ls ! i)"
  shows "reclaim_from c q now limit (int i) (Suc k) ejected tx =
    (if lj_deadline (ls ! i) > now then Inr (ejected, tx)
     else reclaim_from c q now limit (int (Suc i)) k (ejected @ [lj_job (ls ! i)]) (tx @ reclaim_steps c q (ls ! i)))"
proof -
  let ?l = "ls ! i"
  obtain h1 where h1: "held_value h1 = lj_worker ?l"
      "rd_nth_prefix (q_reader q) (q_store q) (qu_prefix q @ ascii ''L/'') (int i) False = Inr (Some (qu_prefix q @ ascii ''L/'' @ lj_key ?l, h1))"
    using assms(1,2) by (auto simp: holds_leases_def)
  obtain h2 where h2: "held_value h2 = lj_payload ?l" "held_epoch h2 = EPOCH_NONE"
      "rd_get (q_reader q) (q_store q) (qu_prefix q @ ascii ''A/'' @ lj_worker ?l @ ascii ''/'' @ lj_job ?l) = Inr (Some h2)"
    using assms(1) nth_mem[OF assms(2)] unfolding holds_leases_def by blast
  obtain lr where lr: "pm_nth (lease_map q) (int i) False = Inr (Some (lj_key ?l, lr))" "rec_value lr = lj_worker ?l"
      "rec_raw lr = lj_worker ?l" "\<not> rec_absent lr"
    using h1 by (simp add: queue_rows)
  obtain ar where ar: "pm_get (active_map q (lj_worker ?l)) (lj_job ?l) = Inr ar" "rec_value ar = lj_payload ?l"
      "rec_raw ar = lj_payload ?l" "\<not> rec_absent ar"
    using h2 by (simp add: queue_rows)
  obtain t1 t2 t3 where tx: "pm_tx_delete c (lease_map q) (lj_key ?l) (expecting lr) = Inr t1"
      "pm_tx_delete c (active_map q (lj_worker ?l)) (lj_job ?l) (expecting ar) = Inr t2"
      "pm_tx_put c (pending_map q) (lj_job ?l) (lj_payload ?l) no_opts = Inr t3" "t1 @ t2 @ t3 = reclaim_steps c q ?l"
    using lr(3,4) ar(3,4) by (simp add: queue_txs reclaim_steps_def Let_def lease_map_def active_map_def pending_map_def full_name_def)
  show ?thesis
    using assms(3) parse_lease_key_inverse[OF assms(4), of "lj_job ?l"] unfolding tx(4)[symmetric]
    by (simp add: lr(1,2) ar(1,2) tx(1,2,3) tx_add_def Let_def add.commute)
qed

lemma reclaim_scan:
  assumes "holds_leases q ls" "\<forall>l \<in> set ls. 0 \<le> lj_deadline l"
  shows "i + k = length ls \<Longrightarrow>
    reclaim_from c q now limit (int i) k ejected tx =
      (let out = take (nat limit - length ejected) (takeWhile (\<lambda>l. lj_deadline l \<le> now) (drop i ls))
       in Inr (ejected @ map lj_job out, tx @ concat (map (reclaim_steps c q) out)))"
proof (induction k arbitrary: i ejected tx)
  case (Suc k)
  have d: "drop i ls = ls ! i # drop (Suc i) ls" using Suc.prems by (simp add: Cons_nth_drop_Suc)
  show ?case
  proof (cases "int (length ejected) < limit")
    case True
    then obtain r where r: "nat limit - length ejected = Suc r" "nat limit - Suc (length ejected) = r"
      by (metis Suc_diff_Suc zless_nat_eq_int_zless)
    have "0 \<le> lj_deadline (ls ! i)" using assms(2) Suc.prems by simp
    then show ?thesis
      using Suc.IH[of "Suc i" "ejected @ [lj_job (ls ! i)]" "tx @ reclaim_steps c q (ls ! i)"] Suc.prems
      by (simp only: reclaim_one[OF assms(1) _ True] d) (simp add: Let_def r)
  next
    case False
    then show ?thesis by (simp add: Let_def)
  qed
qed (simp add: Let_def)

lemma lease_order:
  assumes "sorted (map lj_key ls)" "\<forall>l \<in> set ls. 0 \<le> lj_deadline l \<and> lj_deadline l < 2 ^ 32"
  shows "sorted (map lj_deadline ls)"
proof (rule sorted_iff_nth_mono[THEN iffD2], intro allI impI, simp)
  fix i j assume ij: "i \<le> j" "j < length ls"
  then have "lj_key (ls ! i) \<le> lj_key (ls ! j)" using assms(1) sorted_nth_mono by fastforce
  then show "lj_deadline (ls ! i) \<le> lj_deadline (ls ! j)"
    using lease_key_less[of "lj_deadline (ls ! j)" "lj_deadline (ls ! i)"] assms(2) ij by (meson leD leI nth_mem order.strict_trans2 le_less_trans)
qed

lemma sorted_takeWhile_filter: "sorted (map f ls) \<Longrightarrow> takeWhile (\<lambda>l. f l \<le> (now :: int)) ls = filter (\<lambda>l. f l \<le> now) ls"
  by (induction ls) (auto simp: filter_empty_conv eq_commute[of "[]"])

text \<open>
  C30: On leases whose deadlines have at most 32 bits, \<^verbatim>\<open>reclaim_expired\<close> returns the jobs of the expired leases,
  the earliest first and at most \<open>limit\<close> of them, and a transaction that for each deletes the lease and the
  active row it read and makes the job pending with its payload.
\<close>

theorem reclaim_finds_the_expired:
  assumes "holds_leases q ls" "sorted (map lj_key ls)" "\<forall>l \<in> set ls. 0 \<le> lj_deadline l \<and> lj_deadline l < 2 ^ 32"
  shows "reclaim_expired c q now limit =
    (let out = take (nat limit) (filter (\<lambda>l. lj_deadline l \<le> now) ls)
     in Inr (map lj_job out, concat (map (reclaim_steps c q) out)))"
proof -
  have "pm_count (lease_map q) = Inr (int (length ls))"
    using assms(1) by (simp add: holds_leases_def pm_count_def session_count_prefix_def lease_map_def)
  then show ?thesis
    using reclaim_scan[OF assms(1), of 0 "length ls" c now limit "[]" "[]"] assms(3) sorted_takeWhile_filter[OF lease_order[OF assms(2,3)]]
    by (simp add: reclaim_expired_def)
qed

definition lease_reader :: Reader where
  "lease_reader = \<lparr>rd_get = (\<lambda>st nm. Inr (if nm = ascii ''A/w/j'' then Some \<lparr>held_value = [5], held_epoch = 0, held_cred = []\<rparr> else None)),
     rd_anchor = Inr [],
     rd_count_prefix = (\<lambda>st pre. Inr (if pre = ascii ''L/'' then 1 else 0)),
     rd_nth_prefix = (\<lambda>st pre n desc. Inr (Some (ascii ''L/'' @ lease_key 255 (ascii ''j''), \<lparr>held_value = ascii ''w'', held_epoch = 0, held_cred = []\<rparr>)))\<rparr>"

theorem reclaim_finds_the_expired_witness:
  "\<exists>q tx. reclaim_expired (sample []) q 254 1 = Inr ([], []) \<and> reclaim_expired (sample []) q 255 1 = Inr ([ascii ''j''], tx) \<and> length tx = 3"
proof -
  let ?q = "\<lparr>qu_prefix = [], qu_session = \<lparr>se_reader = lease_reader, se_store_id = 1\<rparr>\<rparr>"
  let ?l = "\<lparr>lj_deadline = 255, lj_job = ascii ''j'', lj_worker = ascii ''w'', lj_payload = [5]\<rparr>"
  have "holds_leases ?q [?l]" by (simp add: holds_leases_def lease_reader_def EPOCH_NONE_def ascii_def)
  note all = reclaim_finds_the_expired[OF this, of "sample []"]
  show ?thesis using all[of 254 1] all[of 255 1] by (intro exI[of _ ?q]) (simp add: Let_def reclaim_steps_def)
qed

end
