(* ===== verification/Worker.thy ===== *)
theory Worker
  imports Queue Address
begin

text \<open>
  \<^verbatim>\<open>dude/ds/worker.py\<close>: workers that register under a group, keep a heartbeat, reclaim expired
  jobs, claim a job and run its handler in a thread. The world behind the sessions is the type \<open>'w\<close>: \<open>en_session\<close>
  is what a session reads of it, and \<open>en_submit\<close> what \<^verbatim>\<open>session.submit(tx).wait()\<close> returns
  and leaves. A clock reading is an argument, in milliseconds, and so is the lease duration;
  \<^verbatim>\<open>Seconds\<close> is a float in the program, whose rounding is not modelled. The handler thread is its
  state: it runs, or it has ended with or without an error; the payload it loads (JSON) and what it does
  are not modelled. Log messages are left out.
\<close>

section \<open>Submissions\<close>

text \<open>\<^verbatim>\<open>SubmitHandle\<close>: what the replies make of it, and what \<^verbatim>\<open>wait_ack\<close> makes of that once the event is set.\<close>

record SubmitHandle =
  sh_op_hash :: digest
  sh_accepted :: bool
  sh_refused_reason :: "bytes option"
  sh_expired :: bool
  sh_ack :: bool

datatype WaitResult = Accepted digest | SubmitRefused bytes | Status SettleResult

definition handle_new :: "digest \<Rightarrow> SubmitHandle" where
  "handle_new oph = \<lparr>sh_op_hash = oph, sh_accepted = False, sh_refused_reason = None, sh_expired = False, sh_ack = False\<rparr>"

definition sh_on_reply :: "bool option \<Rightarrow> bytes \<Rightarrow> SubmitHandle \<Rightarrow> SubmitHandle" where
  "sh_on_reply verdict body sh =
     (case verdict of
        Some True \<Rightarrow> sh\<lparr>sh_accepted := True, sh_ack := True\<rparr>
      | Some False \<Rightarrow> sh\<lparr>sh_refused_reason := Some body, sh_ack := True\<rparr>
      | None \<Rightarrow> sh\<lparr>sh_ack := True\<rparr>)"

definition mark_accepted :: "SubmitHandle \<Rightarrow> SubmitHandle" where
  "mark_accepted sh = sh\<lparr>sh_accepted := True, sh_ack := True\<rparr>"

definition sh_on_expired :: "SubmitHandle \<Rightarrow> SubmitHandle" where
  "sh_on_expired sh = (if \<not> sh_accepted sh \<and> sh_refused_reason sh = None then sh\<lparr>sh_expired := True, sh_ack := True\<rparr> else sh\<lparr>sh_ack := True\<rparr>)"

definition wait_ack :: "SubmitHandle \<Rightarrow> WaitResult res" where
  "wait_ack sh =
     (if \<not> sh_ack sh then Inl SessionError
      else case sh_refused_reason sh of
        Some reason \<Rightarrow> Inr (SubmitRefused reason)
      | None \<Rightarrow> if sh_expired sh then Inl SessionError else Inr (Accepted (sh_op_hash sh)))"

text \<open>
  \<^verbatim>\<open>wait\<close>; the statuses are the answers to the polls of \<^verbatim>\<open>wait_settled\<close> until the
  deadline, after which it raises.
\<close>

fun wait_settled :: "SettleResult list \<Rightarrow> WaitResult res" where
  "wait_settled [] = Inl SessionError"
| "wait_settled (r # rs) = (if r = Pending then wait_settled rs else Inr (Status r))"

definition sh_wait :: "SubmitHandle \<Rightarrow> SettleResult list \<Rightarrow> WaitResult res" where
  "sh_wait sh statuses = rbind (wait_ack sh) (\<lambda>ack. case ack of Accepted _ \<Rightarrow> wait_settled statuses | _ \<Rightarrow> Inr ack)"

section \<open>The world of a worker\<close>

record 'w Env =
  en_session :: "'w \<Rightarrow> Session"
  en_submit :: "Transaction \<Rightarrow> 'w \<Rightarrow> (WaitResult \<times> 'w) res"

text \<open>\<^verbatim>\<open>_submit\<close>: an empty transaction is not submitted, and the result of the wait is dropped.\<close>

definition wk_submit :: "'w Env \<Rightarrow> Transaction \<Rightarrow> 'w \<Rightarrow> 'w res" where
  "wk_submit en tx w = (if tx = [] then Inr w else rbind (en_submit en tx w) (\<lambda>(_, w'). Inr w'))"

section \<open>Jobs\<close>

record BoundQueue =
  bq_name :: bytes
  bq_group :: bytes

definition bq_queue :: "BoundQueue \<Rightarrow> Session \<Rightarrow> Queue" where
  "bq_queue bq s = \<lparr>qu_prefix = bq_group bq @ bq_name bq @ ascii ''/'', qu_session = s\<rparr>"

definition data_key :: "BoundQueue \<Rightarrow> bytes \<Rightarrow> bytes res" where
  "data_key bq job_id = (let k = bq_group bq @ ascii ''d/'' @ job_id in if utf8_valid k then Inr k else Inl ValueError)"

text \<open>\<^verbatim>\<open>BoundQueue.submit\<close>, of a payload already encoded under a job identifier already chosen.\<close>

definition bq_submit :: "prims \<Rightarrow> BoundQueue \<Rightarrow> SessionRW \<Rightarrow> Session \<Rightarrow> bytes \<Rightarrow> bytes \<Rightarrow> (bytes \<times> Transaction) res" where
  "bq_submit c bq rw s payload jid =
     rbind (data_key bq jid) (\<lambda>dk.
     rbind (builder_put c rw [] dk payload False no_opts) (\<lambda>steps.
     rbind (builder_as_tx steps) (\<lambda>data_tx.
     rbind (queue_submit c (bq_queue bq s) jid dk) (\<lambda>tx.
     Inr (jid, tx_add data_tx tx)))))"

section \<open>The registry\<close>

definition encode_worker :: "int \<Rightarrow> bytes list \<Rightarrow> bytes" where
  "encode_worker ts queues = benc (BSeq [BInt ts, BSeq (map BBytes (sort queues))])"

definition decode_worker :: "bytes \<Rightarrow> (int \<times> bytes list) res" where
  "decode_worker raw =
     rbind (decode_seq raw (Some 2)) (\<lambda>p.
     rbind (as_int (p ! 0)) (\<lambda>ts.
     rbind (as_seq (p ! 1) None) (\<lambda>qs.
     rbind (mapM as_bytes qs) (\<lambda>names. Inr (ts, names)))))"

definition workers_map :: "bytes \<Rightarrow> Session \<Rightarrow> PlaintextMap" where
  "workers_map grp s = \<lparr>pm_prefix = grp @ ascii ''w/'', pm_session = s\<rparr>"

definition qw_map :: "bytes \<Rightarrow> bytes \<Rightarrow> Session \<Rightarrow> PlaintextMap" where
  "qw_map grp queue_name s = \<lparr>pm_prefix = grp @ ascii ''qw/'' @ queue_name @ ascii ''/'', pm_session = s\<rparr>"

fun deregister_queues :: "prims \<Rightarrow> bytes \<Rightarrow> bytes \<Rightarrow> bytes list \<Rightarrow> Session \<Rightarrow> Transaction res" where
  "deregister_queues c grp wid [] s = Inr []"
| "deregister_queues c grp wid (name # names) s =
     rbind (pm_get (qw_map grp name s) wid) (\<lambda>r.
     rbind (if rec_absent r then Inr [] else pm_tx_delete c (qw_map grp name s) wid (expecting r)) (\<lambda>t.
     rbind (deregister_queues c grp wid names s) (\<lambda>ts. Inr (tx_add t ts))))"

definition deregister_tx :: "prims \<Rightarrow> bytes \<Rightarrow> bytes \<Rightarrow> bytes list \<Rightarrow> Session \<Rightarrow> Transaction res" where
  "deregister_tx c grp wid queue_names s =
     rbind (pm_get (workers_map grp s) wid) (\<lambda>r.
     if rec_absent r then Inr []
     else rbind (pm_tx_delete c (workers_map grp s) wid (expecting r)) (\<lambda>t.
       rbind (deregister_queues c grp wid queue_names s) (\<lambda>ts. Inr (tx_add t ts))))"

fun register_queues :: "prims \<Rightarrow> bytes \<Rightarrow> bytes \<Rightarrow> bytes list \<Rightarrow> Session \<Rightarrow> Transaction res" where
  "register_queues c grp wid [] s = Inr []"
| "register_queues c grp wid (name # names) s =
     rbind (pm_tx_put c (qw_map grp name s) wid [] if_absent) (\<lambda>t.
     rbind (register_queues c grp wid names s) (\<lambda>ts. Inr (tx_add t ts)))"

definition register_tx :: "prims \<Rightarrow> bytes \<Rightarrow> bytes \<Rightarrow> bytes list \<Rightarrow> int \<Rightarrow> Session \<Rightarrow> Transaction res" where
  "register_tx c grp wid queue_names now s =
     rbind (pm_tx_put c (workers_map grp s) wid (encode_worker now queue_names) if_absent) (\<lambda>t.
     rbind (register_queues c grp wid queue_names s) (\<lambda>ts. Inr (tx_add t ts)))"

fun heartbeat_queues :: "prims \<Rightarrow> bytes \<Rightarrow> bytes \<Rightarrow> bytes list \<Rightarrow> (bytes \<times> bytes) option \<Rightarrow> Session \<Rightarrow> Transaction res" where
  "heartbeat_queues c grp wid [] active s = Inr []"
| "heartbeat_queues c grp wid (name # names) active s =
     rbind (pm_get (qw_map grp name s) wid) (\<lambda>r.
     rbind (if rec_absent r then Inr []
            else pm_tx_put c (qw_map grp name s) wid (case active of Some (q, job) \<Rightarrow> if q = name then job else [] | None \<Rightarrow> []) (expecting r)) (\<lambda>t.
     rbind (heartbeat_queues c grp wid names active s) (\<lambda>ts. Inr (tx_add t ts))))"

definition heartbeat_tx :: "prims \<Rightarrow> bytes \<Rightarrow> bytes \<Rightarrow> bytes list \<Rightarrow> (bytes \<times> bytes) option \<Rightarrow> int \<Rightarrow> Session \<Rightarrow> Transaction res" where
  "heartbeat_tx c grp wid queue_names active now s =
     rbind (pm_get (workers_map grp s) wid) (\<lambda>r.
     if rec_absent r then Inr []
     else rbind (pm_tx_put c (workers_map grp s) wid (encode_worker now queue_names) (expecting r)) (\<lambda>t.
       rbind (heartbeat_queues c grp wid queue_names active s) (\<lambda>ts. Inr (tx_add t ts))))"

text \<open>The loop of \<^verbatim>\<open>cleanup_stale\<close>; without a limit it visits every worker.\<close>

fun cleanup_loop :: "prims \<Rightarrow> bytes \<Rightarrow> int \<Rightarrow> int \<Rightarrow> int option \<Rightarrow> Session \<Rightarrow> (bytes \<times> SRecord) list \<Rightarrow> int \<Rightarrow> Transaction \<Rightarrow> (int \<times> Transaction) res" where
  "cleanup_loop c grp now threshold limit s [] cleaned tx = Inr (cleaned, tx)"
| "cleanup_loop c grp now threshold limit s ((wid, r) # rest) cleaned tx =
     (if (case limit of None \<Rightarrow> False | Some l \<Rightarrow> cleaned \<ge> l) then Inr (cleaned, tx)
      else rbind (decode_worker (rec_value r)) (\<lambda>(ts, queue_names).
        if now - ts \<le> threshold then cleanup_loop c grp now threshold limit s rest cleaned tx
        else rbind (deregister_tx c grp wid queue_names s) (\<lambda>t.
          cleanup_loop c grp now threshold limit s rest (cleaned + 1) (tx_add tx t))))"

definition cleanup_stale :: "prims \<Rightarrow> bytes \<Rightarrow> int \<Rightarrow> int \<Rightarrow> int option \<Rightarrow> Session \<Rightarrow> (int \<times> Transaction) res" where
  "cleanup_stale c grp now threshold limit s =
     rbind (pm_records (workers_map grp s)) (\<lambda>rs. cleanup_loop c grp now threshold limit s rs 0 [])"

definition list_workers :: "bytes \<Rightarrow> Session \<Rightarrow> (bytes \<times> int \<times> bytes list) list res" where
  "list_workers grp s =
     rbind (pm_records (workers_map grp s)) (\<lambda>rs.
     mapM (\<lambda>(wid, r). rbind (decode_worker (rec_value r)) (\<lambda>(ts, qs). Inr (wid, ts, qs))) rs)"

definition workers_for_queue :: "bytes \<Rightarrow> bytes \<Rightarrow> Session \<Rightarrow> (bytes \<times> bytes) list res" where
  "workers_for_queue grp queue_name s = pm_items (qw_map grp queue_name s)"

section \<open>A worker\<close>

datatype ThreadState = Alive | Ended bool \<comment> \<open>whether the handler raised\<close>

record ActiveJob =
  aj_claim :: Claim
  aj_bq :: BoundQueue
  aj_thread :: ThreadState
  aj_cancelled :: bool

record Worker =
  wk_id :: bytes
  wk_group :: bytes
  wk_lease :: int
  wk_stopping :: bool
  wk_active :: "ActiveJob option"
  wk_bindings :: "(bytes \<times> BoundQueue) list"
  wk_membership :: "bytes list option"

definition worker_new :: "bytes \<Rightarrow> bytes \<Rightarrow> int \<Rightarrow> Worker" where
  "worker_new wid grp lease = \<lparr>wk_id = wid, wk_group = grp, wk_lease = lease, wk_stopping = False, wk_active = None,
     wk_bindings = [], wk_membership = None\<rparr>"

definition wk_bind :: "bytes \<Rightarrow> Worker \<Rightarrow> Worker" where
  "wk_bind name wk = wk\<lparr>wk_bindings := AList.update name \<lparr>bq_name = name, bq_group = wk_group wk\<rparr> (wk_bindings wk)\<rparr>"

definition wk_queue_names :: "Worker \<Rightarrow> bytes list" where
  "wk_queue_names wk = sort (map fst (wk_bindings wk))"

definition wk_deadline :: "int \<Rightarrow> Worker \<Rightarrow> int" where
  "wk_deadline now wk = (now + wk_lease wk) div 1000"

definition wk_register :: "prims \<Rightarrow> 'w Env \<Rightarrow> int \<Rightarrow> Worker \<Rightarrow> 'w \<Rightarrow> (Worker \<times> 'w) res" where
  "wk_register c en now wk w =
     rbind (register_tx c (wk_group wk) (wk_id wk) (wk_queue_names wk) now (en_session en w)) (\<lambda>tx.
     rbind (wk_submit en tx w) (\<lambda>w'. Inr (wk\<lparr>wk_membership := Some (wk_queue_names wk)\<rparr>, w')))"

definition wk_deregister :: "prims \<Rightarrow> 'w Env \<Rightarrow> Worker \<Rightarrow> 'w \<Rightarrow> (Worker \<times> 'w) res" where
  "wk_deregister c en wk w =
     (case wk_membership wk of
        None \<Rightarrow> Inr (wk, w)
      | Some names \<Rightarrow>
          rbind (deregister_tx c (wk_group wk) (wk_id wk) names (en_session en w)) (\<lambda>tx.
          rbind (wk_submit en tx w) (\<lambda>w'. Inr (wk\<lparr>wk_membership := None\<rparr>, w'))))"

definition wk_heartbeat_tx :: "prims \<Rightarrow> 'w Env \<Rightarrow> int \<Rightarrow> Worker \<Rightarrow> 'w \<Rightarrow> Transaction res" where
  "wk_heartbeat_tx c en now wk w =
     (case wk_membership wk of
        None \<Rightarrow> Inr []
      | Some names \<Rightarrow>
          heartbeat_tx c (wk_group wk) (wk_id wk) names
            (map_option (\<lambda>a. (bq_name (aj_bq a), cl_job_id (aj_claim a))) (wk_active wk)) now (en_session en w))"

definition wk_heartbeat :: "prims \<Rightarrow> 'w Env \<Rightarrow> int \<Rightarrow> Worker \<Rightarrow> 'w \<Rightarrow> 'w res" where
  "wk_heartbeat c en now wk w = rbind (wk_heartbeat_tx c en now wk w) (\<lambda>tx. wk_submit en tx w)"

definition wk_cleanup :: "prims \<Rightarrow> 'w Env \<Rightarrow> int \<Rightarrow> Worker \<Rightarrow> 'w \<Rightarrow> (int \<times> 'w) res" where
  "wk_cleanup c en now wk w =
     rbind (cleanup_stale c (wk_group wk) now (3 * wk_lease wk) None (en_session en w)) (\<lambda>(n, tx).
     rbind (wk_submit en tx w) (\<lambda>w'. Inr (n, w')))"

definition finish_handler :: "prims \<Rightarrow> 'w Env \<Rightarrow> Worker \<Rightarrow> 'w \<Rightarrow> (Worker \<times> 'w) res" where
  "finish_handler c en wk w =
     (case wk_active wk of
        None \<Rightarrow> Inr (wk, w)
      | Some a \<Rightarrow>
          (case aj_thread a of
             Alive \<Rightarrow> Inr (wk, w)
           | Ended failed \<Rightarrow>
               let q = bq_queue (aj_bq a) (en_session en w) in
               rbind (if failed then claim_reclaim c q (aj_claim a) else claim_complete c q (aj_claim a)) (\<lambda>tx.
               rbind (wk_submit en tx w) (\<lambda>w'. Inr (wk\<lparr>wk_active := None\<rparr>, w')))))"

text \<open>
  The loop of \<^verbatim>\<open>_try_claim\<close>: the claim is submitted, the result of the wait is dropped,
  and the handler is started.
\<close>

fun try_claim :: "prims \<Rightarrow> (int \<Rightarrow> int) \<Rightarrow> 'w Env \<Rightarrow> int \<Rightarrow> BoundQueue list \<Rightarrow> Worker \<Rightarrow> 'w \<Rightarrow> (Worker \<times> 'w) res" where
  "try_claim c pick en now [] wk w = Inr (wk, w)"
| "try_claim c pick en now (bq # bqs) wk w =
     rbind (claim_random c pick (bq_queue bq (en_session en w)) (wk_id wk) (wk_deadline now wk)) (\<lambda>result.
     case result of
       None \<Rightarrow> try_claim c pick en now bqs wk w
     | Some (cl, tx) \<Rightarrow>
         rbind (wk_submit en tx w) (\<lambda>w'.
         Inr (wk\<lparr>wk_active := Some \<lparr>aj_claim = cl, aj_bq = bq, aj_thread = Alive, aj_cancelled = False\<rparr>\<rparr>, w')))"

fun reclaim_all :: "prims \<Rightarrow> int \<Rightarrow> BoundQueue list \<Rightarrow> Session \<Rightarrow> Transaction res" where
  "reclaim_all c now [] s = Inr []"
| "reclaim_all c now (bq # bqs) s =
     rbind (reclaim_expired c (bq_queue bq s) now 1) (\<lambda>(ejected, t).
     rbind (reclaim_all c now bqs s) (\<lambda>ts. Inr (tx_add (if ejected = [] then [] else t) ts)))"

text \<open>One turn of the worker; \<open>n1\<close>, \<open>n2\<close> and \<open>n3\<close> are its readings of the clock.\<close>

definition wk_tick :: "prims \<Rightarrow> (int \<Rightarrow> int) \<Rightarrow> 'w Env \<Rightarrow> int \<Rightarrow> int \<Rightarrow> int \<Rightarrow> Worker \<Rightarrow> 'w \<Rightarrow> (Worker \<times> 'w) res" where
  "wk_tick c pick en n1 n2 n3 wk w =
     rbind (wk_heartbeat_tx c en n1 wk w) (\<lambda>hb.
     rbind (reclaim_all c (n2 div 1000) (map snd (wk_bindings wk)) (en_session en w)) (\<lambda>rc.
     let tx = tx_add hb rc;
         idle = rbind (wk_submit en tx w) (\<lambda>w1.
           rbind (finish_handler c en wk w1) (\<lambda>(wk2, w2). try_claim c pick en n3 (map snd (wk_bindings wk2)) wk2 w2))
     in case wk_active wk of
          Some a \<Rightarrow>
            if aj_thread a = Alive
            then rbind (renew_lease c (bq_queue (aj_bq a) (en_session en w)) (aj_claim a) (wk_deadline n3 wk)) (\<lambda>(cl, t).
              rbind (wk_submit en (tx_add tx t) w) (\<lambda>w'. Inr (wk\<lparr>wk_active := Some (a\<lparr>aj_claim := cl\<rparr>)\<rparr>, w')))
            else idle
        | None \<Rightarrow> idle))"

text \<open>The end of the handler thread, which happens on its own.\<close>

definition handler_ends :: "bool \<Rightarrow> Worker \<Rightarrow> Worker" where
  "handler_ends failed wk = wk\<lparr>wk_active := map_option (\<lambda>a. a\<lparr>aj_thread := Ended failed\<rparr>) (wk_active wk)\<rparr>"

definition wk_stop :: "Worker \<Rightarrow> Worker" where
  "wk_stop wk = wk\<lparr>wk_stopping := True, wk_active := map_option (\<lambda>a. a\<lparr>aj_cancelled := True\<rparr>) (wk_active wk)\<rparr>"

definition shutdown_handler :: "prims \<Rightarrow> 'w Env \<Rightarrow> Worker \<Rightarrow> 'w \<Rightarrow> (Worker \<times> 'w) res" where
  "shutdown_handler c en wk w = finish_handler c en (wk\<lparr>wk_active := map_option (\<lambda>a. a\<lparr>aj_cancelled := True\<rparr>) (wk_active wk)\<rparr>) w"

end
