(* ===== verification/Worker_Props.thy ===== *)
theory Worker_Props
  imports Worker Settle_Props
begin

text \<open>
  What the queue guarantees and what the worker makes of it. Of two claims of one job settled in one
  batch, at most one applies, and it moves the job from the pending jobs to the active jobs of its worker with a lease.
  The worker does not look at the outcome: the one whose claim was rejected runs the job as well.
\<close>

section \<open>The transaction of a claim\<close>

definition pending_name :: "Queue \<Rightarrow> bytes \<Rightarrow> bytes" where
  "pending_name q job = full_name (pending_map q) job"

definition active_name :: "Queue \<Rightarrow> bytes \<Rightarrow> bytes \<Rightarrow> bytes" where
  "active_name q worker job = full_name (active_map q worker) job"

definition lease_name :: "Queue \<Rightarrow> int \<Rightarrow> bytes \<Rightarrow> bytes" where
  "lease_name q deadline job = full_name (lease_map q) (lease_key deadline job)"

lemmas queue_names = pending_name_def active_name_def lease_name_def full_name_def pending_map_def active_map_def lease_map_def

lemma queue_names_differ:
  "pending_name q job \<noteq> active_name q w job'" "pending_name q job \<noteq> lease_name q d job'" "active_name q w job \<noteq> lease_name q d job'"
  by (simp_all add: queue_names)

abbreviation queue_store :: "Queue \<Rightarrow> int" where
  "queue_store q \<equiv> se_store_id (qu_session q)"

definition claim_steps :: "prims \<Rightarrow> Queue \<Rightarrow> Claim \<Rightarrow> bytes \<Rightarrow> Transaction" where
  "claim_steps c q cl raw =
     [\<lparr>step_guards = [Holds (queue_store q) (pending_name q (cl_job_id cl)) (value_digest c raw)],
       step_mutation = Del (queue_store q) (pending_name q (cl_job_id cl)), step_soft = False\<rparr>,
      \<lparr>step_guards = [Absent (queue_store q) (active_name q (cl_worker cl) (cl_job_id cl))],
       step_mutation = Set (queue_store q) (active_name q (cl_worker cl) (cl_job_id cl)) (cl_payload cl) EPOCH_NONE, step_soft = False\<rparr>,
      \<lparr>step_guards = [Absent (queue_store q) (lease_name q (cl_deadline cl) (cl_job_id cl))],
       step_mutation = Set (queue_store q) (lease_name q (cl_deadline cl) (cl_job_id cl)) (cl_worker cl) EPOCH_NONE, step_soft = False\<rparr>]"

lemma claim_of_steps:
  "claim_of c q w d job payload r = Inr (cl, tx) \<Longrightarrow> tx = claim_steps c q cl (rec_raw r) \<and> cl_job_id cl = job \<and> cl_worker cl = w \<and> cl_deadline cl = d"
  by (auto simp: claim_of_def claim_steps_def pm_tx_delete_def pm_tx_put_def build_step_def collect_guards_def expecting_def if_absent_def
      no_opts_def expect_guards_def rbind_Inr_conv tx_add_def queue_names split: if_splits)

lemma claim_random_steps:
  assumes "claim_random c pick q w d = Inr (Some (cl, tx))"
  shows "\<exists>raw. tx = claim_steps c q cl raw" "cl_worker cl = w"
  using assms claim_of_steps by (fastforce simp: claim_random_def claim_at_def rbind_Inr_conv split: if_splits option.splits)+

lemma claim_job_steps:
  assumes "claim_job c q w d job = Inr (Some (cl, tx))"
  shows "\<exists>raw. tx = claim_steps c q cl raw" "cl_worker cl = w" "cl_job_id cl = job"
  using assms claim_of_steps by (fastforce simp: claim_job_def rbind_Inr_conv split: if_splits)+

section \<open>Settling a claim\<close>

lemma claim_needs_the_row:
  assumes "stx_txn tx = claim_steps c q cl raw" "rd_get rd (queue_store q) (pending_name q (cl_job_id cl)) = Inr None"
    "evaluate c fuel rd tx auth = Inr (v, layer)"
  shows "\<not> vd_ok v"
  using assms
  by (auto simp: evaluate_def claim_steps_def overlay_reader_def overlay_new_get rejected_def vd_ok_def rbind_Inr_conv Let_def
      split: if_splits option.splits)

lemma hard_step_ok:
  assumes "evaluate_steps c fuel auth who raw i (st # sts) ov = Inr (v, ov')" "vd_ok v" "\<not> step_soft st"
  shows "\<exists>ov1. ov_apply ov (step_mutation st) raw = Inr ov1 \<and> evaluate_steps c fuel auth who raw (i + 1) sts ov1 = Inr (v, ov')"
  using assms by (auto simp: Let_def rbind_Inr_conv rejected_def vd_ok_def split: if_splits option.splits)

lemma claim_moves_the_job:
  assumes "stx_txn tx = claim_steps c q cl raw" "evaluate c fuel rd tx auth = Inr (v, layer)" "vd_ok v"
  shows "ov_get layer (queue_store q) (pending_name q (cl_job_id cl)) = Inr None"
    "\<exists>held. ov_get layer (queue_store q) (active_name q (cl_worker cl) (cl_job_id cl)) = Inr (Some held) \<and> held_value held = cl_payload cl"
    "\<exists>held. ov_get layer (queue_store q) (lease_name q (cl_deadline cl) (cl_job_id cl)) = Inr (Some held) \<and> held_value held = cl_worker cl"
proof -
  have "evaluate_steps c fuel auth (stx_author tx) (stx_raw tx) 0 (claim_steps c q cl raw) (overlay_new rd) = Inr (v, layer)"
    using assms by (auto simp: evaluate_def rejected_def vd_ok_def split: if_splits)
  then obtain o1 o2 where
      a: "ov_apply (overlay_new rd) (Del (queue_store q) (pending_name q (cl_job_id cl))) (stx_raw tx) = Inr o1"
         "ov_apply o1 (Set (queue_store q) (active_name q (cl_worker cl) (cl_job_id cl)) (cl_payload cl) EPOCH_NONE) (stx_raw tx) = Inr o2"
         "ov_apply o2 (Set (queue_store q) (lease_name q (cl_deadline cl) (cl_job_id cl)) (cl_worker cl) EPOCH_NONE) (stx_raw tx) = Inr layer"
    unfolding claim_steps_def using assms(3) by (fastforce dest!: hard_step_ok)
  note get = ov_get_apply[OF a(3)] ov_get_apply[OF a(2)] ov_get_apply[OF a(1)]
  show "ov_get layer (queue_store q) (pending_name q (cl_job_id cl)) = Inr None"
    "\<exists>held. ov_get layer (queue_store q) (active_name q (cl_worker cl) (cl_job_id cl)) = Inr (Some held) \<and> held_value held = cl_payload cl"
    "\<exists>held. ov_get layer (queue_store q) (lease_name q (cl_deadline cl) (cl_job_id cl)) = Inr (Some held) \<and> held_value held = cl_worker cl"
    using queue_names_differ by (auto simp: get held_after_def)
qed

lemma absorbed_get:
  assumes "evaluate c fuel (overlay_reader fuel target) tx auth = Inr (v, layer)" "ov_absorb target layer = Inr target'"
  shows "ov_get target' st nm = ov_get layer st nm"
proof -
  obtain ms where "extends_by (overlay_new (overlay_reader fuel target)) (stx_raw tx) ms layer"
    using assms(1) evaluate_steps_extends extends_by_refl by (fastforce simp: evaluate_def split: if_splits)
  then have l: "ov_base layer = overlay_reader fuel target" "distinct (map fst (ov_delta layer))"
    by (simp_all add: extends_by_def overlay_new_def)
  have "map_of (ov_delta target') = map_of (ov_delta target) ++ map_of (ov_delta layer)" "ov_base target' = ov_base target"
    using assms(2) map_of_rev_distinct[OF l(2)] by (auto simp: ov_absorb_def map_of_dict_update split: if_splits)
  then show ?thesis by (auto simp: ov_get_def l(1) overlay_reader_def map_add_def split: option.split)
qed

section \<open>Claims of one job exclude each other\<close>

text \<open>\<open>claim_of_job c st pre job s cl\<close>: \<open>s\<close> carries a claim of \<open>job\<close> made on the queue \<open>pre\<close> of the store \<open>st\<close>, by whatever worker.\<close>

inductive claim_of_job :: "prims \<Rightarrow> int \<Rightarrow> bytes \<Rightarrow> bytes \<Rightarrow> SignedTransaction \<Rightarrow> Claim \<Rightarrow> bool" for c st pre job where
  random: "\<lbrakk>claim_random c pick q w d = Inr (Some (cl, stx_txn s)); queue_store q = st; qu_prefix q = pre; cl_job_id cl = job\<rbrakk> \<Longrightarrow>
    claim_of_job c st pre job s cl"
| chosen: "\<lbrakk>claim_job c q w d job = Inr (Some (cl, stx_txn s)); queue_store q = st; qu_prefix q = pre\<rbrakk> \<Longrightarrow> claim_of_job c st pre job s cl"

lemma claim_of_job_steps:
  "claim_of_job c st pre job s cl \<Longrightarrow>
     \<exists>q raw. queue_store q = st \<and> qu_prefix q = pre \<and> cl_job_id cl = job \<and> stx_txn s = claim_steps c q cl raw"
  by (induction rule: claim_of_job.induct) (metis claim_random_steps(1), metis claim_job_steps(1,3))

definition job_taken :: "int \<Rightarrow> bytes \<Rightarrow> bytes \<Rightarrow> Claim \<Rightarrow> ('r Reader_scheme, 'a) Overlay_scheme \<Rightarrow> bool" where
  "job_taken st pre job cl ov \<longleftrightarrow>
     ov_get ov st (pre @ ascii ''P/'' @ job) = Inr None \<and>
     (\<exists>held. ov_get ov st (pre @ ascii ''A/'' @ cl_worker cl @ ascii ''/'' @ job) = Inr (Some held) \<and> held_value held = cl_payload cl) \<and>
     (\<exists>held. ov_get ov st (pre @ ascii ''L/'' @ lease_key (cl_deadline cl) job) = Inr (Some held) \<and> held_value held = cl_worker cl)"

lemma taken_job_rejects_claims:
  "apply_to_loop c fuel auth batch target seen keep dropped = Inr (target', sc) \<Longrightarrow>
     \<forall>s \<in> set batch. \<exists>cl. claim_of_job c st pre job s cl \<Longrightarrow> ov_get target st (pre @ ascii ''P/'' @ job) = Inr None \<Longrightarrow>
     target' = target \<and> sc_survivors sc = keep"
proof (induction batch arbitrary: dropped)
  case (Cons s batch)
  obtain q cl raw where q: "queue_store q = st" "qu_prefix q = pre" "cl_job_id cl = job" "stx_txn s = claim_steps c q cl raw"
    using Cons.prems(2) claim_of_job_steps by (metis list.set_intros(1))
  have "\<not> vd_ok v" if "evaluate c fuel (overlay_reader fuel target) s auth = Inr (v, layer)" for v layer
    using claim_needs_the_row[OF q(4) _ that] q Cons.prems(3) by (simp add: queue_names overlay_reader_get)
  then obtain dropped' where "apply_to_loop c fuel auth batch target seen keep dropped' = Inr (target', sc)"
    using Cons.prems(1) by (auto simp: rbind_Inr_conv split: if_splits)
  then show ?case using Cons.IH Cons.prems(2,3) by simp
qed auto

lemma claims_settle_once:
  "apply_to_loop c fuel auth batch target seen [] dropped = Inr (target', sc) \<Longrightarrow>
     \<forall>s \<in> set batch. \<exists>cl. claim_of_job c st pre job s cl \<Longrightarrow>
     sc_survivors sc = [] \<or> (\<exists>s cl. sc_survivors sc = [s] \<and> s \<in> set batch \<and> claim_of_job c st pre job s cl \<and> job_taken st pre job cl target')"
proof (induction batch arbitrary: dropped)
  case (Cons s batch)
  obtain cl where cl: "claim_of_job c st pre job s cl" using Cons.prems(2) by auto
  obtain q raw where q: "queue_store q = st" "qu_prefix q = pre" "cl_job_id cl = job" "stx_txn s = claim_steps c q cl raw"
    using claim_of_job_steps[OF cl] by auto
  consider dropped' where "apply_to_loop c fuel auth batch target seen [] dropped' = Inr (target', sc)"
    | v layer t where "evaluate c fuel (overlay_reader fuel target) s auth = Inr (v, layer)" "vd_ok v" "ov_absorb target layer = Inr t"
        "apply_to_loop c fuel auth batch t (insert (op_hash c s) seen) [s] dropped = Inr (target', sc)"
    using Cons.prems(1) by (auto simp: rbind_Inr_conv split: if_splits)
  then show ?case
  proof cases
    case 1
    then show ?thesis using Cons.IH Cons.prems(2) by fastforce
  next
    case 2
    have "job_taken st pre job cl t"
      using claim_moves_the_job[OF q(4) 2(1,2)] q by (simp add: job_taken_def absorbed_get[OF 2(1,3)] queue_names)
    then show ?thesis using taken_job_rejects_claims[OF 2(4)] Cons.prems(2) cl by (fastforce simp: job_taken_def)
  qed
qed auto

text \<open>
  C15: However many workers claim one job in one batch, at most one claim settles, and after it the job is no
  longer pending, its payload is among the active jobs of the worker that claimed it, and a lease with that
  worker's deadline names the worker.
\<close>

theorem claims_are_exclusive:
  assumes "\<forall>s \<in> set batch. \<exists>cl. claim_of_job c st pre job s cl" "apply_to c fuel target batch auth = Inr (target', sc)"
  shows "sc_survivors sc = [] \<or>
    (\<exists>s cl. sc_survivors sc = [s] \<and> s \<in> set batch \<and> claim_of_job c st pre job s cl \<and> job_taken st pre job cl target')"
  using claims_settle_once assms by (simp add: apply_to_def)

lemma claim_settles:
  assumes "stx_verify c s" "stx_txn s = claim_steps c q cl raw" "\<And>r. au_may_write auth r (stx_author s) (queue_store q) = Inr True"
    "queue_store q \<noteq> STORE_MANAGEMENT"
    "length (pending_name q (cl_job_id cl)) \<le> MAX_NAME_BYTES" "length (active_name q (cl_worker cl) (cl_job_id cl)) \<le> MAX_NAME_BYTES"
    "length (lease_name q (cl_deadline cl) (cl_job_id cl)) \<le> MAX_NAME_BYTES"
    "rd_get rd (queue_store q) (pending_name q (cl_job_id cl)) = Inr (Some held)" "held_value held = raw"
    "rd_get rd (queue_store q) (active_name q (cl_worker cl) (cl_job_id cl)) = Inr None"
    "rd_get rd (queue_store q) (lease_name q (cl_deadline cl) (cl_job_id cl)) = Inr None"
  shows "\<exists>layer. evaluate c fuel rd s auth = Inr (OK_verdict, layer)"
  using assms queue_names_differ queue_names_differ[THEN not_sym]
  by (simp add: held_after_def evaluate_def claim_steps_def Let_def data_row_shape_def overlay_reader_get overlay_new_get EPOCH_NONE_def
      ov_apply_def overlay_new_def ov_get_def update_conv')

lemma late_claim_is_rejected:
  assumes "stx_verify c s" "stx_txn s = claim_steps c q cl raw" "\<And>r. au_may_write auth r (stx_author s) (queue_store q) = Inr True"
    "queue_store q \<noteq> STORE_MANAGEMENT" "length (pending_name q (cl_job_id cl)) \<le> MAX_NAME_BYTES"
    "rd_get rd (queue_store q) (pending_name q (cl_job_id cl)) = Inr None"
  shows "evaluate c fuel rd s auth = Inr (rejected R_GUARD (Some 0), overlay_new rd)"
  using assms by (simp add: evaluate_def claim_steps_def Let_def data_row_shape_def overlay_reader_get overlay_new_get)

text \<open>A job \<^verbatim>\<open>j\<close> that two workers claim.\<close>

definition job_row :: Held where
  "job_row = \<lparr>held_value = [5], held_epoch = 0, held_cred = []\<rparr>"

definition job_reader :: Reader where
  "job_reader = \<lparr>rd_get = (\<lambda>st nm. Inr (if st = 1 \<and> nm = ascii ''q/P/j'' then Some job_row else None)),
     rd_anchor = Inr (kp_public (sample []) [1]),
     rd_count_prefix = (\<lambda>st pre. Inr (if st = 1 \<and> pre = ascii ''q/P/'' then 1 else 0)),
     rd_nth_prefix = (\<lambda>st pre n desc. Inr (if st = 1 \<and> pre = ascii ''q/P/'' \<and> n = 0 then Some (ascii ''q/P/j'', job_row) else None))\<rparr>"

definition job_session :: Session where
  "job_session = \<lparr>se_reader = job_reader, se_store_id = 1\<rparr>"

definition job_bq :: BoundQueue where
  "job_bq = \<lparr>bq_name = ascii ''q'', bq_group = []\<rparr>"

abbreviation job_queue :: Queue where
  "job_queue \<equiv> bq_queue job_bq job_session"

definition job_claim :: "bytes \<Rightarrow> Claim" where
  "job_claim w = \<lparr>cl_job_id = ascii ''j'', cl_payload = [5], cl_worker = w, cl_deadline = 255\<rparr>"

definition job_signed :: "bytes \<Rightarrow> SignedTransaction" where
  "job_signed w = tx_sign (sample []) (claim_steps (sample []) job_queue (job_claim w) [5]) [1] 3"

definition job_mgmt :: MgmtReader where
  "job_mgmt = \<lparr>mg_session = job_session, mg_anchor = kp_public (sample []) [1]\<rparr>"

lemma job_claimed:
  "claim_random (sample []) (\<lambda>n. 0) job_queue w 255 = Inr (Some (job_claim w, stx_txn (job_signed w)))"
proof -
  have s: "job_queue = \<lparr>qu_prefix = ascii ''q/'', qu_session = job_session\<rparr>" "qu_session job_queue = job_session"
    by (simp_all add: bq_queue_def job_bq_def ascii_def)
  show ?thesis unfolding s
    by (simp add: claim_random_def pm_count_def session_count_prefix_def pending_map_def job_session_def job_reader_def ascii_def
        claim_at_def pm_nth_def session_nth_prefix_def claim_of_def pm_tx_delete_def pm_tx_put_def build_step_def collect_guards_def
        expecting_def if_absent_def no_opts_def expect_guards_def tx_add_def job_signed_def tx_sign_def claim_steps_def queue_names job_claim_def
        bq_queue_def job_bq_def job_row_def)
qed

lemma six_zeros: "replicate 6 (48 :: byte) = [48, 48, 48, 48, 48, 48]"
  by code_simp

lemma job_names:
  "pending_name job_queue [106] = ascii ''q/P/j''" "active_name job_queue w [106] = ascii ''q/A/'' @ w @ ascii ''/j''"
  "lease_name job_queue 255 [106] = ascii ''q/L/000000FF/j''" "queue_store job_queue = 1" "qu_prefix job_queue = ascii ''q/''"
  by (simp_all add: queue_names bq_queue_def job_bq_def job_session_def ascii_def lease_key_def fmt_08X_def hex_digits.simps hex_digit_def zero_pad_def
      six_zeros)

lemma job_settles:
  assumes "length w \<le> 8"
  shows "stx_verify (sample []) (job_signed w)"
    "stx_txn (job_signed w) = claim_steps (sample []) job_queue (job_claim w) [5]"
    "au_may_write (mgmt_auth (sample []) job_mgmt) r (stx_author (job_signed w)) (queue_store job_queue) = Inr True"
    "\<exists>layer. evaluate (sample []) fuel (overlay_reader fuel (overlay_new job_reader)) (job_signed w) (mgmt_auth (sample []) job_mgmt) = Inr (OK_verdict, layer)"
proof -
  show basics: "stx_verify (sample []) (job_signed w)" "stx_txn (job_signed w) = claim_steps (sample []) job_queue (job_claim w) [5]"
    "\<And>r. au_may_write (mgmt_auth (sample []) job_mgmt) r (stx_author (job_signed w)) (queue_store job_queue) = Inr True"
    by (simp_all add: job_signed_def tx_sign_def stx_verify_def stx_body_def sample_sign_correct mgmt_auth_def may_write_def job_mgmt_def)
  show "\<exists>layer. evaluate (sample []) fuel (overlay_reader fuel (overlay_new job_reader)) (job_signed w) (mgmt_auth (sample []) job_mgmt) = Inr (OK_verdict, layer)"
    by (rule claim_settles[OF basics, where held = job_row])
      (use assms in \<open>simp_all add: job_claim_def job_names overlay_reader_get overlay_new_get job_reader_def job_row_def ascii_def\<close>)
qed

lemma two_claims_settle:
  "\<exists>target' sc. apply_to (sample []) 5 (overlay_new job_reader) [job_signed [1], job_signed [2]] (mgmt_auth (sample []) job_mgmt) = Inr (target', sc) \<and>
     sc_survivors sc \<noteq> []"
proof -
  let ?auth = "mgmt_auth (sample []) job_mgmt" and ?t = "overlay_new job_reader"
  note first = job_settles[of "[1]"] and second = job_settles[of "[2]"]
  obtain layer where ev: "evaluate (sample []) 5 (overlay_reader 5 ?t) (job_signed [1]) ?auth = Inr (OK_verdict, layer)"
    using first(4) by auto
  obtain t where t: "ov_absorb ?t layer = Inr t" by (simp add: ov_absorb_def overlay_new_def)
  have "rd_get (overlay_reader 5 t) (queue_store job_queue) (pending_name job_queue (cl_job_id (job_claim [2]))) = Inr None"
    using claim_moves_the_job(1)[OF first(2) ev] by (simp add: overlay_reader_get absorbed_get[OF ev t] vd_ok_def OK_verdict_def job_claim_def)
  then have "evaluate (sample []) 5 (overlay_reader 5 t) (job_signed [2]) ?auth = Inr (rejected R_GUARD (Some 0), overlay_new (overlay_reader 5 t))"
    using late_claim_is_rejected[OF second(1,2,3)] by (simp add: job_names job_claim_def ascii_def)
  then show ?thesis by (auto simp: apply_to_def ev t vd_ok_def OK_verdict_def rejected_def)
qed

theorem claims_are_exclusive_witness:
  "\<exists>target' sc. apply_to (sample []) 5 (overlay_new job_reader) [job_signed [1], job_signed [2]] (mgmt_auth (sample []) job_mgmt) = Inr (target', sc) \<and>
     (\<exists>s cl. sc_survivors sc = [s] \<and> s \<in> {job_signed [1], job_signed [2]} \<and>
       claim_of_job (sample []) 1 (ascii ''q/'') (ascii ''j'') s cl \<and> job_taken 1 (ascii ''q/'') (ascii ''j'') cl target')"
proof -
  obtain target' sc where run: "apply_to (sample []) 5 (overlay_new job_reader) [job_signed [1], job_signed [2]] (mgmt_auth (sample []) job_mgmt) = Inr (target', sc)"
      "sc_survivors sc \<noteq> []"
    using two_claims_settle by blast
  have "\<forall>s \<in> set [job_signed [1], job_signed [2]]. \<exists>cl. claim_of_job (sample []) 1 (ascii ''q/'') (ascii ''j'') s cl"
    using claim_of_job.random[OF job_claimed job_names(4,5)] by (auto simp: job_claim_def)
  from claims_are_exclusive[OF this run(1)] run show ?thesis by auto
qed

section \<open>A worker does not look at the outcome of its claim\<close>

lemma try_claim_runs_the_job:
  assumes "claim_random c pick (bq_queue bq (en_session en w)) (wk_id wk) (wk_deadline now wk) = Inr (Some (cl, tx))"
    "en_submit en tx w = Inr (outcome, w')"
  shows "try_claim c pick en now (bq # bqs) wk w =
    Inr (wk\<lparr>wk_active := Some \<lparr>aj_claim = cl, aj_bq = bq, aj_thread = Alive, aj_cancelled = False\<rparr>\<rparr>, w')"
proof -
  obtain raw where "tx = claim_steps c (bq_queue bq (en_session en w)) cl raw" using claim_random_steps(1)[OF assms(1)] by auto
  then have "tx \<noteq> []" by (simp add: claim_steps_def)
  then show ?thesis using assms by (simp add: wk_submit_def)
qed

text \<open>
  C39: Two workers claim one job, and the block that settles the claims applies at most one of them; whatever the
  two waits return, refusals included, both workers start the handler of the job.
\<close>

theorem losing_worker_runs_the_job:
  assumes "claim_random c pick (bq_queue bq (en_session en w)) (wk_id wk1) (wk_deadline now wk1) = Inr (Some (cl1, stx_txn s1))"
    "claim_random c pick (bq_queue bq (en_session en w)) (wk_id wk2) (wk_deadline now wk2) = Inr (Some (cl2, stx_txn s2))"
    "cl_job_id cl1 = cl_job_id cl2"
    "en_submit en (stx_txn s1) w = Inr (outcome1, w1)" "en_submit en (stx_txn s2) w = Inr (outcome2, w2)"
    "apply_to c fuel target [s1, s2] auth = Inr (target', sc)"
  shows "length (sc_survivors sc) \<le> 1 \<and>
    try_claim c pick en now (bq # bqs) wk1 w = Inr (wk1\<lparr>wk_active := Some \<lparr>aj_claim = cl1, aj_bq = bq, aj_thread = Alive, aj_cancelled = False\<rparr>\<rparr>, w1) \<and>
    try_claim c pick en now (bq # bqs) wk2 w = Inr (wk2\<lparr>wk_active := Some \<lparr>aj_claim = cl2, aj_bq = bq, aj_thread = Alive, aj_cancelled = False\<rparr>\<rparr>, w2)"
proof -
  let ?q = "bq_queue bq (en_session en w)"
  have "claim_of_job c (queue_store ?q) (qu_prefix ?q) (cl_job_id cl1) s1 cl1" "claim_of_job c (queue_store ?q) (qu_prefix ?q) (cl_job_id cl1) s2 cl2"
    using claim_of_job.random[OF assms(1)] claim_of_job.random[OF assms(2)] assms(3) by simp_all
  then have "\<forall>s \<in> set [s1, s2]. \<exists>cl. claim_of_job c (queue_store ?q) (qu_prefix ?q) (cl_job_id cl1) s cl" by auto
  from claims_settle_once[OF assms(6)[unfolded apply_to_def] this] have "length (sc_survivors sc) \<le> 1" by auto
  then show ?thesis using try_claim_runs_the_job assms(1,2,4,5) by metis
qed

definition refusing_env :: "unit Env" where
  "refusing_env = \<lparr>en_session = (\<lambda>_. job_session), en_submit = (\<lambda>tx w. Inr (SubmitRefused [], w))\<rparr>"

theorem losing_worker_runs_the_job_witness:
  "\<exists>target' sc wk2. apply_to (sample []) 5 (overlay_new job_reader) [job_signed [1], job_signed [2]] (mgmt_auth (sample []) job_mgmt) = Inr (target', sc) \<and>
     length (sc_survivors sc) \<le> 1 \<and>
     try_claim (sample []) (\<lambda>n. 0) refusing_env 5000 [job_bq] (worker_new [2] [] 250000) () = Inr (wk2, ()) \<and>
     wk_active wk2 = Some \<lparr>aj_claim = job_claim [2], aj_bq = job_bq, aj_thread = Alive, aj_cancelled = False\<rparr>"
proof -
  have cl: "claim_random (sample []) (\<lambda>n. 0) (bq_queue job_bq (en_session refusing_env ())) (wk_id (worker_new w [] 250000))
      (wk_deadline 5000 (worker_new w [] 250000)) = Inr (Some (job_claim w, stx_txn (job_signed w)))" for w
    using job_claimed by (simp add: refusing_env_def worker_new_def wk_deadline_def)
  obtain target' sc where run: "apply_to (sample []) 5 (overlay_new job_reader) [job_signed [1], job_signed [2]] (mgmt_auth (sample []) job_mgmt) = Inr (target', sc)"
    using two_claims_settle by blast
  have "en_submit refusing_env tx () = Inr (SubmitRefused [], ())" for tx by (simp add: refusing_env_def)
  from losing_worker_runs_the_job[OF cl cl _ this this run, of "[]"] run show ?thesis by (auto simp: job_claim_def)
qed

end
