(* ===== verification/Link.thy ===== *)
theory Link
  imports Complex_Main Envelope Address Tunables
begin

text \<open>
  \<^verbatim>\<open>dude/net/link.py\<close> and \<^verbatim>\<open>dude/net/plan.py\<close>: a link to a peer with its estimate of the
  round-trip time and its circuit breaker, a peer with its links, and what to do next with a message.
  A link object is known by a number and stands in a table; a peer lists the numbers. The estimates are
  floats in the program and rational numbers here, so their rounding is not modelled. What the transport does
  with a frame is an argument: whether it takes it, or raises \<^verbatim>\<open>LinkError\<close>.
\<close>

section \<open>Links\<close>

datatype LinkDirection = INBOUND | OUTBOUND
datatype LinkSendRefused = CIRCUIT_OPEN | TRANSPORT

record Link =
  lk_address :: Address
  lk_identity :: "public_key option"
  lk_direction :: LinkDirection
  lk_last_activity :: int
  lk_srtt :: "rat option"
  lk_rttvar :: rat
  lk_last_rtt_at :: int
  lk_breaker_failures :: int
  lk_breaker_opened_at :: int
  lk_breaker_open :: bool
  lk_msgs_sent :: int
  lk_bytes_sent :: int
  lk_closed :: bool
  lk_close_notified :: bool

definition link_new :: "Address \<Rightarrow> public_key option \<Rightarrow> LinkDirection \<Rightarrow> Link" where
  "link_new a who dir = \<lparr>lk_address = a, lk_identity = who, lk_direction = dir, lk_last_activity = 0, lk_srtt = None, lk_rttvar = 0,
     lk_last_rtt_at = 0, lk_breaker_failures = 0, lk_breaker_opened_at = 0, lk_breaker_open = False, lk_msgs_sent = 0, lk_bytes_sent = 0,
     lk_closed = False, lk_close_notified = False\<rparr>"

definition BREAKER_COOLDOWN :: int where "BREAKER_COOLDOWN = 10000"

text \<open>\<^verbatim>\<open>close\<close> and \<^verbatim>\<open>notify_closed\<close>: the flag says whether \<^verbatim>\<open>on_close\<close> is called.\<close>

definition lk_notify_closed :: "Link \<Rightarrow> Link \<times> bool" where
  "lk_notify_closed l = (if lk_close_notified l then (l, False) else (l\<lparr>lk_close_notified := True\<rparr>, True))"

definition lk_close :: "Link \<Rightarrow> Link \<times> bool" where
  "lk_close l = (if lk_closed l then (l, False) else lk_notify_closed (l\<lparr>lk_closed := True\<rparr>))"

definition lk_on_failed :: "int \<Rightarrow> Link \<Rightarrow> Link" where
  "lk_on_failed now l =
     (let n = lk_breaker_failures l + 1; l' = l\<lparr>lk_breaker_failures := n\<rparr>
      in if n \<ge> 5 then l'\<lparr>lk_breaker_open := True, lk_breaker_opened_at := now\<rparr> else l')"

text \<open>
  \<^verbatim>\<open>send\<close>: the refusal, if any, whether \<^verbatim>\<open>on_close\<close> is called, and whether the frame
  was handed to the transport.
\<close>

definition lk_send :: "bool \<Rightarrow> int \<Rightarrow> Frame \<Rightarrow> Link \<Rightarrow> LinkSendRefused option \<times> bool \<times> Link" where
  "lk_send takes now f l =
     (if lk_closed l then (Some TRANSPORT, False, l)
      else if lk_breaker_open l \<and> now - lk_breaker_opened_at l < BREAKER_COOLDOWN then (Some CIRCUIT_OPEN, False, l)
      else let l' = l\<lparr>lk_breaker_open := False\<rparr> in
        if takes then (None, False, l'\<lparr>lk_msgs_sent := lk_msgs_sent l' + 1, lk_bytes_sent := lk_bytes_sent l' + int (length (frame_raw f)),
                        lk_last_activity := now\<rparr>)
        else let (l2, called) = lk_close (lk_on_failed now l') in (Some TRANSPORT, called, l2))"

definition lk_on_reply :: "int \<Rightarrow> int option \<Rightarrow> Link \<Rightarrow> Link" where
  "lk_on_reply now rtt l =
     (let l' = l\<lparr>lk_last_activity := now, lk_breaker_failures := 0, lk_breaker_open := False\<rparr> in
      case rtt of
        None \<Rightarrow> l'
      | Some n \<Rightarrow>
          let r = of_int n in
          case lk_srtt l of
            None \<Rightarrow> l'\<lparr>lk_last_rtt_at := now, lk_srtt := Some r, lk_rttvar := r / 2\<rparr>
          | Some s \<Rightarrow> l'\<lparr>lk_last_rtt_at := now, lk_rttvar := 3 / 4 * lk_rttvar l + 1 / 4 * \<bar>s - r\<bar>, lk_srtt := Some (7 / 8 * s + 1 / 8 * r)\<rparr>)"

text \<open>\<^verbatim>\<open>int(x)\<close> of a float rounds towards zero.\<close>

definition trunc :: "rat \<Rightarrow> int" where
  "trunc x = (if x \<ge> 0 then \<lfloor>x\<rfloor> else - \<lfloor>- x\<rfloor>)"

definition lk_rto :: "int \<Rightarrow> Link \<Rightarrow> int" where
  "lk_rto initial l = (case lk_srtt l of None \<Rightarrow> initial | Some s \<Rightarrow> max 2 (trunc (s + max 1 (4 * lk_rttvar l))))"

definition lk_available :: "int \<Rightarrow> Link \<Rightarrow> bool" where
  "lk_available now l \<longleftrightarrow> \<not> lk_closed l \<and> \<not> (lk_breaker_open l \<and> now - lk_breaker_opened_at l < BREAKER_COOLDOWN)"

definition lk_bind :: "public_key \<Rightarrow> Link \<Rightarrow> Link res" where
  "lk_bind who l =
     (case lk_identity l of
        Some i \<Rightarrow> if i \<noteq> who then Inl LinkError else Inr l
      | None \<Rightarrow> Inr (l\<lparr>lk_identity := Some who\<rparr>))"

section \<open>Peers\<close>

type_synonym LinkTable = "(nat \<times> Link) list"

record Peer =
  pe_identity :: public_key
  pe_dial_targets :: "(Address \<times> Endpoint) list"
  pe_links :: "nat list"

definition peer_new :: "public_key \<Rightarrow> Peer" where
  "peer_new who = \<lparr>pe_identity = who, pe_dial_targets = [], pe_links = []\<rparr>"

text \<open>Closes the links one after the other; the numbers returned are those whose \<^verbatim>\<open>on_close\<close> is called.\<close>

fun close_links :: "nat list \<Rightarrow> LinkTable \<Rightarrow> LinkTable \<times> nat list" where
  "close_links [] tab = (tab, [])"
| "close_links (i # is) tab =
     (case map_of tab i of
        None \<Rightarrow> close_links is tab
      | Some l \<Rightarrow> let (l', called) = lk_close l; (tab', cs) = close_links is (AList.update i l' tab) in (tab', if called then i # cs else cs))"

definition pe_wanted :: "Endpoint list \<Rightarrow> (Address \<times> Endpoint) list" where
  "pe_wanted eps = foldl (\<lambda>d e. AList.update (ep_address e) e d) [] eps"

definition pe_reconfigure :: "Endpoint list \<Rightarrow> Peer \<Rightarrow> LinkTable \<Rightarrow> Peer \<times> LinkTable \<times> nat list" where
  "pe_reconfigure eps p tab =
     (let wanted = pe_wanted eps;
          gone = filter (\<lambda>i. case map_of tab i of None \<Rightarrow> False | Some l \<Rightarrow> lk_direction l = OUTBOUND \<and> lk_address l \<notin> fst ` set wanted) (pe_links p);
          (tab', cs) = close_links gone tab
      in (p\<lparr>pe_dial_targets := wanted\<rparr>, tab', cs))"

definition pe_disconnect :: "Peer \<Rightarrow> LinkTable \<Rightarrow> Peer \<times> LinkTable \<times> nat list" where
  "pe_disconnect p tab = (let (tab', cs) = close_links (pe_links p) tab in (p\<lparr>pe_links := []\<rparr>, tab', cs))"

definition link_available :: "LinkTable \<Rightarrow> int \<Rightarrow> nat \<Rightarrow> bool" where
  "link_available tab now i = (case map_of tab i of None \<Rightarrow> False | Some l \<Rightarrow> lk_available now l)"

definition link_rto :: "LinkTable \<Rightarrow> int \<Rightarrow> nat \<Rightarrow> int" where
  "link_rto tab initial i = (case map_of tab i of None \<Rightarrow> initial | Some l \<Rightarrow> lk_rto initial l)"

definition pe_usable :: "Tunables \<Rightarrow> LinkTable \<Rightarrow> int \<Rightarrow> Peer \<Rightarrow> nat list" where
  "pe_usable t tab now p = sort_key (link_rto tab (rtt_max t)) (filter (link_available tab now) (pe_links p))"

definition pe_deliverable :: "LinkTable \<Rightarrow> int \<Rightarrow> Peer \<Rightarrow> bool" where
  "pe_deliverable tab now p = list_ex (link_available tab now) (pe_links p)"

section \<open>What to do with a message\<close>

datatype Stalled = NO_USABLE_LINK | DEADLINE | ATTEMPTS
datatype Decision = Send nat "int option" | Wait int Stalled | GiveUp Stalled

definition backoff :: "Tunables \<Rightarrow> int \<Rightarrow> int" where
  "backoff t attempts =
     (let hi = min (backoff_cap t) (backoff_base t * 3 ^ nat (max 1 attempts)) in backoff_base t + (hi - backoff_base t) div 2)"

definition retry_at :: "Tunables \<Rightarrow> int \<Rightarrow> int \<Rightarrow> int" where
  "retry_at t attempts now = now + backoff t attempts"

definition plan_next :: "Tunables \<Rightarrow> LinkTable \<Rightarrow> Peer \<Rightarrow> int \<Rightarrow> int \<Rightarrow> int \<Rightarrow> Decision" where
  "plan_next t tab p attempts now deadline =
     (if now \<ge> deadline then GiveUp DEADLINE
      else if attempts \<ge> max_attempts t then GiveUp ATTEMPTS
      else case pe_usable t tab now p of
        [] \<Rightarrow> Wait (min deadline (now + backoff t attempts)) NO_USABLE_LINK
      | best # rest \<Rightarrow> Send best (if rest \<noteq> [] then Some (now + min (stagger_cap t) (link_rto tab (rtt_max t) best)) else None))"

text \<open>\<^verbatim>\<open>decorrelated\<close>, with the eight random bytes as an argument.\<close>

definition decorrelated :: "bytes \<Rightarrow> int \<Rightarrow> int \<Rightarrow> int" where
  "decorrelated rnd lo hi = (if hi \<le> lo then lo else lo + int (from_bytes rnd) mod (hi - lo + 1))"

section \<open>Properties\<close>

lemma lk_send_taken:
  "lk_send takes now f l = (None, called, l') \<Longrightarrow> takes \<and> lk_available now l \<and> \<not> called"
  by (auto simp: lk_send_def lk_available_def Let_def split: if_splits prod.splits)

lemma plan_sends_on_an_available_link:
  "plan_next t tab p attempts now deadline = Send i again \<Longrightarrow>
     i \<in> set (pe_links p) \<and> link_available tab now i \<and> now < deadline \<and> attempts < max_attempts t \<and>
     (\<forall>j \<in> set (pe_links p). link_available tab now j \<longrightarrow> link_rto tab (rtt_max t) i \<le> link_rto tab (rtt_max t) j)"
proof -
  assume a: "plan_next t tab p attempts now deadline = Send i again"
  then obtain rest where u: "pe_usable t tab now p = i # rest"
    by (auto simp: plan_next_def split: if_splits list.splits)
  have set_u: "set (pe_usable t tab now p) = {j \<in> set (pe_links p). link_available tab now j}" by (auto simp: pe_usable_def)
  have "sorted (map (link_rto tab (rtt_max t)) (i # rest))" unfolding u[symmetric] pe_usable_def by simp
  then have "\<forall>j \<in> set (pe_usable t tab now p). link_rto tab (rtt_max t) i \<le> link_rto tab (rtt_max t) j" using u by auto
  then show ?thesis using a u set_u by (auto simp: plan_next_def split: if_splits)
qed

lemma plan_waits_at_most_the_deadline: "plan_next t tab p attempts now deadline = Wait until why \<Longrightarrow> until \<le> deadline"
  by (auto simp: plan_next_def split: if_splits list.splits)

lemma backoff_bounds:
  assumes "tunables_ok t"
  shows "backoff_base t \<le> backoff t attempts" "backoff t attempts \<le> max (backoff_base t) (backoff_cap t)"
proof -
  have b: "0 < backoff_base t" using assms by (simp add: tunables_ok_def backoff_base_def)
  have "(1 :: int) \<le> 3 ^ nat (max 1 attempts)" by simp
  then have "backoff_base t * 1 \<le> backoff_base t * 3 ^ nat (max 1 attempts)" using b by (intro mult_left_mono) auto
  moreover have "backoff_base t \<le> backoff_cap t"
    using wave_pos[OF assms] tunables_okD[OF assms] by (simp add: backoff_base_def backoff_cap_def ttl_longest_def ttl_exchange_def)
  ultimately show "backoff_base t \<le> backoff t attempts" "backoff t attempts \<le> max (backoff_base t) (backoff_cap t)"
    by (auto simp: backoff_def Let_def)
qed

end
