(* ===== verification/Mailbox.thy ===== *)
theory Mailbox
  imports Link
begin

text \<open>
  \<^verbatim>\<open>dude/net/mailbox.py\<close>: the messages on their way, under the first seven bytes of their message
  identifier. A dictionary is an association list in the order of insertion. The random identifiers that
  \<^verbatim>\<open>post\<close> draws while its prefix is taken are an argument; \<^const>\<open>None\<close> means that all of them were taken.
\<close>

datatype Expiry = UNDELIVERED | UNANSWERED

record Transmit =
  tm_to :: public_key
  tm_envelope :: Envelope
  tm_prefix :: bytes
  tm_attempt :: int

record Attempt =
  at_address :: Address
  at_sent_at :: int

record MailReply =
  mr_prefix :: bytes
  mr_address :: "Address option"
  mr_rtt :: "int option"

record Expired =
  ex_prefix :: bytes
  ex_to :: public_key
  ex_why :: Expiry
  ex_attempts :: int
  ex_address :: "Address option"

record MailPending =
  ml_envelope :: "Envelope option"
  ml_to :: public_key
  ml_prefix :: bytes
  ml_deadline :: int
  ml_next_at :: int
  ml_attempts :: "(int \<times> Attempt) list"
  ml_in_flight :: bool
  ml_awaiting_reply :: bool

type_synonym Mailbox = "(bytes \<times> MailPending) list"

definition fresh_prefix :: "Mailbox \<Rightarrow> bytes \<Rightarrow> bytes list \<Rightarrow> bytes option" where
  "fresh_prefix m pre draws = find (\<lambda>p. p \<notin> fst ` set m) (pre # map correlation_id draws)"

definition mb_post :: "bytes list \<Rightarrow> Envelope \<Rightarrow> int \<Rightarrow> int \<Rightarrow> bool \<Rightarrow> Mailbox \<Rightarrow> (bytes \<times> Mailbox) option" where
  "mb_post draws env now ttl await_reply m =
     map_option (\<lambda>pre. (pre, AList.update pre \<lparr>ml_envelope = Some env, ml_to = ev_to env, ml_prefix = pre, ml_deadline = now + ttl,
         ml_next_at = now, ml_attempts = [], ml_in_flight = False, ml_awaiting_reply = await_reply\<rparr> m))
       (fresh_prefix m (correlation_id (ev_mid env)) draws)"

definition mb_expect :: "bytes \<Rightarrow> public_key \<Rightarrow> int \<Rightarrow> int \<Rightarrow> Mailbox \<Rightarrow> Mailbox" where
  "mb_expect pre to now ttl m =
     AList.update pre \<lparr>ml_envelope = None, ml_to = to, ml_prefix = pre, ml_deadline = now + ttl, ml_next_at = now + ttl, ml_attempts = [],
       ml_in_flight = True, ml_awaiting_reply = True\<rparr> m"

definition is_due :: "int \<Rightarrow> MailPending \<Rightarrow> bool" where
  "is_due now p \<longleftrightarrow> ml_envelope p \<noteq> None \<and> \<not> ml_in_flight p \<and> ml_next_at p \<le> now \<and> now < ml_deadline p"

definition mb_due :: "int \<Rightarrow> Mailbox \<Rightarrow> Transmit list \<times> Mailbox" where
  "mb_due now m =
     (map (\<lambda>(pre, p). \<lparr>tm_to = ml_to p, tm_envelope = the (ml_envelope p), tm_prefix = pre, tm_attempt = int (length (ml_attempts p))\<rparr>)
        (filter (\<lambda>(pre, p). is_due now p) (sort_key (\<lambda>(pre, p). (ml_deadline p, pre)) m)),
      map (\<lambda>(pre, p). (pre, if is_due now p then p\<lparr>ml_in_flight := True\<rparr> else p)) m)"

definition mb_sent :: "bytes \<Rightarrow> int \<Rightarrow> Address \<Rightarrow> int \<Rightarrow> int option \<Rightarrow> Mailbox \<Rightarrow> Mailbox" where
  "mb_sent pre attempt addr now again_at m =
     (case map_of m pre of
        None \<Rightarrow> m
      | Some p \<Rightarrow>
          let p' = p\<lparr>ml_attempts := AList.update attempt \<lparr>at_address = addr, at_sent_at = now\<rparr> (ml_attempts p)\<rparr> in
          if ml_awaiting_reply p then
            (case again_at of
               Some t \<Rightarrow> AList.update pre (p'\<lparr>ml_in_flight := False, ml_next_at := t\<rparr>) m
             | None \<Rightarrow> AList.update pre (p'\<lparr>ml_in_flight := True\<rparr>) m)
          else AList.delete pre m)"

definition mb_failed :: "bytes \<Rightarrow> int \<Rightarrow> Mailbox \<Rightarrow> Mailbox" where
  "mb_failed pre when m = (case map_of m pre of None \<Rightarrow> m | Some p \<Rightarrow> AList.update pre (p\<lparr>ml_in_flight := False, ml_next_at := when\<rparr>) m)"

definition mb_arrived :: "SignedEnvelope \<Rightarrow> int \<Rightarrow> Mailbox \<Rightarrow> MailReply option \<times> Mailbox" where
  "mb_arrived s now m =
     (let reply_to = ev_reply_to (se_env s); cid = correlation_id reply_to in
      if length reply_to \<noteq> MID_SIZE then (None, m)
      else case map_of m cid of
        None \<Rightarrow> (None, m)
      | Some p \<Rightarrow>
          if ml_to p \<noteq> se_frm s then (None, m)
          else (Some (case map_of (ml_attempts p) (uint (reply_to ! MID_PREFIX_SIZE)) of
                        None \<Rightarrow> \<lparr>mr_prefix = cid, mr_address = None, mr_rtt = None\<rparr>
                      | Some a \<Rightarrow> \<lparr>mr_prefix = cid, mr_address = Some (at_address a), mr_rtt = Some (now - at_sent_at a)\<rparr>),
                AList.delete cid m))"

text \<open>\<^verbatim>\<open>p.attempts[max(p.attempts)]\<close>.\<close>

definition last_attempt :: "MailPending \<Rightarrow> Attempt option" where
  "last_attempt p = (if ml_attempts p = [] then None else map_of (ml_attempts p) (Max (fst ` set (ml_attempts p))))"

definition hit_by :: "Address \<Rightarrow> MailPending \<Rightarrow> bool" where
  "hit_by addr p \<longleftrightarrow> ml_in_flight p \<and> map_option at_address (last_attempt p) = Some addr"

definition mb_failed_on :: "Address \<Rightarrow> int \<Rightarrow> Mailbox \<Rightarrow> int \<times> Mailbox" where
  "mb_failed_on addr when m =
     (int (length (filter (hit_by addr \<circ> snd) m)),
      map (\<lambda>(pre, p). (pre, if hit_by addr p then p\<lparr>ml_in_flight := False, ml_next_at := when\<rparr> else p)) m)"

definition charge :: "MailPending \<Rightarrow> Address option" where
  "charge p = (case ml_attempts p of [(_, a)] \<Rightarrow> Some (at_address a) | _ \<Rightarrow> None)"

definition mb_expire :: "bytes \<Rightarrow> Mailbox \<Rightarrow> Expired option \<times> Mailbox" where
  "mb_expire pre m =
     (case map_of m pre of
        None \<Rightarrow> (None, m)
      | Some p \<Rightarrow> (Some \<lparr>ex_prefix = pre, ex_to = ml_to p, ex_why = UNDELIVERED, ex_attempts = int (length (ml_attempts p)), ex_address = charge p\<rparr>,
                   AList.delete pre m))"

definition expiry_of :: "bytes \<Rightarrow> MailPending \<Rightarrow> Expired" where
  "expiry_of pre p =
     \<lparr>ex_prefix = pre, ex_to = ml_to p, ex_why = (if ml_attempts p \<noteq> [] \<and> ml_awaiting_reply p then UNANSWERED else UNDELIVERED),
      ex_attempts = int (length (ml_attempts p)), ex_address = charge p\<rparr>"

definition mb_expired :: "int \<Rightarrow> Mailbox \<Rightarrow> Expired list \<times> Mailbox" where
  "mb_expired now m =
     (map (\<lambda>pre. expiry_of pre (the (map_of m pre))) (sort (map fst (filter (\<lambda>(pre, p). ml_deadline p \<le> now) m))),
      filter (\<lambda>(pre, p). \<not> ml_deadline p \<le> now) m)"

definition mb_deadline :: "bytes \<Rightarrow> Mailbox \<Rightarrow> int" where
  "mb_deadline pre m = (case map_of m pre of None \<Rightarrow> 0 | Some p \<Rightarrow> ml_deadline p)"

definition mb_outstanding :: "Mailbox \<Rightarrow> bytes list" where
  "mb_outstanding m = map fst m"

section \<open>Well-formed mailboxes\<close>

text \<open>An entry stands under its own prefix, its message is for its recipient, and its attempts are numbered from zero; there are at most \<open>k\<close>.\<close>

definition pend_ok :: "int \<Rightarrow> bytes \<Rightarrow> MailPending \<Rightarrow> bool" where
  "pend_ok k pre p \<longleftrightarrow> ml_prefix p = pre \<and> (\<forall>env. ml_envelope p = Some env \<longrightarrow> ev_to env = ml_to p) \<and> map fst (ml_attempts p) = map int [0 ..< length (ml_attempts p)] \<and> int (length (ml_attempts p)) \<le> k"

definition mb_ok :: "int \<Rightarrow> Mailbox \<Rightarrow> bool" where
  "mb_ok k m \<longleftrightarrow> distinct (map fst m) \<and> (\<forall>pre p. map_of m pre = Some p \<longrightarrow> pend_ok k pre p)"

text \<open>No entry of the second mailbox is new, and none has another deadline.\<close>

definition keeps_deadlines :: "Mailbox \<Rightarrow> Mailbox \<Rightarrow> bool" where
  "keeps_deadlines m m' \<longleftrightarrow> (\<forall>pre p'. map_of m' pre = Some p' \<longrightarrow> (\<exists>p. map_of m pre = Some p \<and> ml_deadline p' = ml_deadline p))"

lemma keeps_deadlines_refl [simp]: "keeps_deadlines m m"
  by (simp add: keeps_deadlines_def)

lemma keeps_deadlines_trans: "keeps_deadlines m m1 \<Longrightarrow> keeps_deadlines m1 m2 \<Longrightarrow> keeps_deadlines m m2"
  unfolding keeps_deadlines_def by metis

lemma mb_ok_update: "mb_ok k m \<Longrightarrow> pend_ok k pre p \<Longrightarrow> mb_ok k (AList.update pre p m)"
  by (auto simp: mb_ok_def update_conv' distinct_update)

lemma mb_ok_delete: "mb_ok k m \<Longrightarrow> mb_ok k (AList.delete pre m)"
  by (auto simp: mb_ok_def delete_conv' distinct_delete split: if_splits)

lemma map_of_map_snd: "map_of (map (\<lambda>(pre, p). (pre, f p)) m) pre = map_option f (map_of m pre)"
  by (induction m) auto

lemma mb_ok_map: "mb_ok k m \<Longrightarrow> (\<And>pre p. pend_ok k pre p \<Longrightarrow> pend_ok k pre (f p)) \<Longrightarrow> mb_ok k (map (\<lambda>(pre, p). (pre, f p)) m)"
  unfolding mb_ok_def by (auto simp: map_of_map_snd comp_def case_prod_beta)

lemma map_of_filter_snd:
  "distinct (map fst m) \<Longrightarrow> map_of (filter (\<lambda>(pre, p). P p) m) pre = (case map_of m pre of None \<Rightarrow> None | Some p \<Rightarrow> if P p then Some p else None)"
  by (induction m) (auto split: option.splits dest: map_of_SomeD intro: rev_image_eqI)

lemma mb_ok_filter: "mb_ok k m \<Longrightarrow> mb_ok k (filter (\<lambda>(pre, p). P p) m)"
  by (auto simp: mb_ok_def map_of_filter_snd distinct_map_filter split: option.splits if_splits)

lemma fresh_prefix_new: "fresh_prefix m pre draws = Some q \<Longrightarrow> q \<notin> fst ` set m"
  by (auto simp: fresh_prefix_def find_Some_iff split: if_splits)

lemma mb_post_ok: "mb_post draws env now ttl aw m = Some (pre, m') \<Longrightarrow> mb_ok k m \<Longrightarrow> 0 \<le> k \<Longrightarrow> mb_ok k m'"
  by (auto simp: mb_post_def intro!: mb_ok_update) (simp add: pend_ok_def)

lemma mb_post_keeps: "mb_post draws env now ttl aw m = Some (pre, m') \<Longrightarrow> map_of m q = Some p \<Longrightarrow> map_of m' q = Some p"
  by (auto simp: mb_post_def update_conv' weak_map_of_SomeI dest!: fresh_prefix_new) (metis fst_conv image_eqI map_of_SomeD)

lemma mb_due_ok: "mb_ok k m \<Longrightarrow> mb_ok k (snd (mb_due now m))"
  by (auto simp: mb_due_def pend_ok_def intro!: mb_ok_map)

lemma mb_due_map_of: "map_of (snd (mb_due now m)) pre = map_option (\<lambda>p. if is_due now p then p\<lparr>ml_in_flight := True\<rparr> else p) (map_of m pre)"
  by (simp add: mb_due_def map_of_map_snd)

lemma mb_due_transmits:
  assumes "distinct (map fst m)" "t \<in> set (fst (mb_due now m))"
  shows "\<exists>p. map_of m (tm_prefix t) = Some p \<and> is_due now p \<and> tm_attempt t = int (length (ml_attempts p)) \<and> tm_to t = ml_to p \<and> Some (tm_envelope t) = ml_envelope p"
  using assms by (auto simp: mb_due_def is_due_def)

lemma mb_due_distinct: "distinct (map fst m) \<Longrightarrow> distinct (map tm_prefix (fst (mb_due now m)))"
proof -
  assume d: "distinct (map fst m)"
  have "mset (map fst (sort_key (\<lambda>(pre, p). (ml_deadline p, pre)) m)) = mset (map fst m)" by simp
  then have "distinct (map fst (sort_key (\<lambda>(pre, p). (ml_deadline p, pre)) m))" using d mset_eq_imp_distinct_iff by blast
  then have "distinct (map fst (filter (\<lambda>(pre, p). is_due now p) (sort_key (\<lambda>(pre, p). (ml_deadline p, pre)) m)))"
    by (rule distinct_map_filter)
  moreover have "map tm_prefix (fst (mb_due now m)) = map fst (filter (\<lambda>(pre, p). is_due now p) (sort_key (\<lambda>(pre, p). (ml_deadline p, pre)) m))"
    by (auto simp: mb_due_def)
  ultimately show ?thesis by simp
qed

lemma mb_failed_ok: "mb_ok k m \<Longrightarrow> mb_ok k (mb_failed pre when m)"
  by (auto simp: mb_failed_def split: option.split intro!: mb_ok_update) (auto simp: mb_ok_def pend_ok_def)

lemma mb_expire_ok: "mb_ok k m \<Longrightarrow> mb_ok k (snd (mb_expire pre m))"
  by (auto simp: mb_expire_def mb_ok_delete split: option.split)

lemma attempt_appended:
  "map fst as = map int [0 ..< length as] \<Longrightarrow> AList.update (int (length as)) a as = as @ [(int (length as), a)]"
proof -
  have "k \<notin> fst ` set xs \<Longrightarrow> AList.update k a xs = xs @ [(k, a)]" for k and xs :: "(int \<times> 'a) list" by (induction xs) auto
  moreover assume "map fst as = map int [0 ..< length as]"
  then have "int (length as) \<notin> fst ` set as" by (metis (mono_tags, lifting) atLeastLessThan_iff image_iff list.set_map nat_less_le of_nat_eq_iff set_upt)
  ultimately show ?thesis by blast
qed

lemma mb_sent_ok:
  assumes "mb_ok k m" "map_of m pre = Some p" "n = int (length (ml_attempts p))" "n < k"
  shows "mb_ok k (mb_sent pre n addr now again m)"
proof -
  have p: "pend_ok k pre p" using assms by (simp add: mb_ok_def)
  then have "map fst (ml_attempts p) = map int [0 ..< length (ml_attempts p)]" by (simp add: pend_ok_def)
  from attempt_appended[OF this]
  have "AList.update n \<lparr>at_address = addr, at_sent_at = now\<rparr> (ml_attempts p) = ml_attempts p @ [(n, \<lparr>at_address = addr, at_sent_at = now\<rparr>)]"
    unfolding assms(3) .
  then have "pend_ok k pre (p\<lparr>ml_attempts := AList.update n \<lparr>at_address = addr, at_sent_at = now\<rparr> (ml_attempts p), ml_in_flight := b\<rparr>)"
      "pend_ok k pre (p\<lparr>ml_attempts := AList.update n \<lparr>at_address = addr, at_sent_at = now\<rparr> (ml_attempts p), ml_in_flight := b, ml_next_at := t\<rparr>)" for b t
    using p assms(3,4) by (simp_all add: pend_ok_def)
  then show ?thesis using assms(1,2) by (auto simp: mb_sent_def Let_def split: option.split intro!: mb_ok_update mb_ok_delete)
qed

lemma mb_arrived_ok: "mb_ok k m \<Longrightarrow> mb_ok k (snd (mb_arrived s now m))"
  by (auto simp: mb_arrived_def Let_def mb_ok_delete split: option.split)

lemma mb_failed_on_ok: "mb_ok k m \<Longrightarrow> mb_ok k (snd (mb_failed_on addr when m))"
  by (auto simp: mb_failed_on_def pend_ok_def intro!: mb_ok_map)

lemma mb_expired_ok: "mb_ok k m \<Longrightarrow> mb_ok k (snd (mb_expired now m))"
  unfolding mb_expired_def snd_conv by (rule mb_ok_filter)

lemmas mb_ok_steps = mb_due_ok mb_failed_ok mb_expire_ok mb_arrived_ok mb_failed_on_ok mb_expired_ok

lemma mb_step_deadlines:
  "keeps_deadlines m (snd (mb_due now m))" "keeps_deadlines m (mb_failed pre when m)" "keeps_deadlines m (snd (mb_expire pre m))"
  "keeps_deadlines m (mb_sent pre n addr now again m)" "keeps_deadlines m (snd (mb_arrived s now m))" "keeps_deadlines m (snd (mb_failed_on addr when m))"
  by (auto simp: keeps_deadlines_def mb_due_map_of mb_failed_def mb_expire_def mb_sent_def mb_arrived_def mb_failed_on_def map_of_map_snd update_conv' delete_conv'
      Let_def split: option.splits if_splits)

text \<open>The other entries are left alone.\<close>

lemma mb_step_others:
  "q \<noteq> pre \<Longrightarrow> map_of (mb_failed pre when m) q = map_of m q" "q \<noteq> pre \<Longrightarrow> map_of (snd (mb_expire pre m)) q = map_of m q"
  "q \<noteq> pre \<Longrightarrow> map_of (mb_sent pre n addr now again m) q = map_of m q"
  by (auto simp: mb_failed_def mb_expire_def mb_sent_def update_conv' delete_conv' Let_def split: option.splits if_splits)

lemma mb_expired_exact:
  assumes "distinct (map fst m)"
  shows "set (fst (mb_expired now m)) = {expiry_of pre p | pre p. map_of m pre = Some p \<and> ml_deadline p \<le> now}"
    "map_of (snd (mb_expired now m)) pre = (case map_of m pre of None \<Rightarrow> None | Some p \<Rightarrow> if now < ml_deadline p then Some p else None)"
proof -
  show "set (fst (mb_expired now m)) = {expiry_of pre p | pre p. map_of m pre = Some p \<and> ml_deadline p \<le> now}"
    using assms by (force simp: mb_expired_def image_iff)
  show "map_of (snd (mb_expired now m)) pre = (case map_of m pre of None \<Rightarrow> None | Some p \<Rightarrow> if now < ml_deadline p then Some p else None)"
    using map_of_filter_snd[OF assms, of "\<lambda>p. \<not> ml_deadline p \<le> now"] by (auto simp: mb_expired_def not_le split: option.splits)
qed

end
