(* ===== verification/Tcp.thy ===== *)
theory Tcp
  imports Link
begin

text \<open>
  \<^verbatim>\<open>dude/net/transports/tcp.py\<close>: the stream of a TCP connection, which carries frames with a length before
  each, and the dialers, which keep one worker per address and wait longer after each failure. The
  outbox is the list of the byte strings the writer thread has still to send; the connection attempt itself is not modelled: a
  worker is alive, or it has ended after it was connected or not. Times are milliseconds, where the program has seconds as floats;
  of the floats the model keeps that \<^verbatim>\<open>2**n\<close> does not fit one from \<open>n = 1024\<close> on.
\<close>

section \<open>Connections\<close>

definition OUTBOX_DEPTH :: nat where "OUTBOX_DEPTH = 64"

record TcpConn =
  tc_closed :: bool
  tc_out :: "bytes list"
  tc_bad_frames :: int
  tc_msgs_recv :: int
  tc_bytes_recv :: int

definition tc_enqueue :: "Frame \<Rightarrow> TcpConn \<Rightarrow> TcpConn res" where
  "tc_enqueue f tc =
     (let payload = frame_raw f in
      if tc_closed tc then Inl LinkError
      else if int (length payload) > MAX_FRAME_BYTES then Inl LinkError
      else if length (tc_out tc) \<ge> OUTBOX_DEPTH then Inl LinkError
      else Inr (tc\<lparr>tc_out := tc_out tc @ [be_bytes 4 (length payload) @ payload]\<rparr>))"

text \<open>
  \<^verbatim>\<open>_extract\<close>: the frames found in the buffer, the bytes left, the length of each frame, and whether a frame was
  bad. Only a \<^verbatim>\<open>DudeError\<close> of \<^verbatim>\<open>Frame.decode\<close> is caught, and it raises no other.
\<close>

function tc_extract :: "bytes \<Rightarrow> (Frame \<times> nat) list \<times> bytes \<times> bool" where
  "tc_extract buf =
     (if length buf < 4 then ([], buf, False)
      else let n = from_bytes (take 4 buf) in
        if int n > MAX_FRAME_BYTES then ([], buf, True)
        else if length buf < 4 + n then ([], buf, False)
        else case frame_decode (take n (drop 4 buf)) of
          Inl e \<Rightarrow> ([], drop (4 + n) buf, True)
        | Inr f \<Rightarrow> let (fs, rest, bad) = tc_extract (drop (4 + n) buf) in ((f, n) # fs, rest, bad))"
  by pat_completeness auto
termination
  by (relation "measure length") auto

declare tc_extract.simps [simp del]

text \<open>\<^verbatim>\<open>_read_loop\<close> on the chunks that arrive: the frames passed on, and what is left in the buffer if the loop goes on.\<close>

fun read_chunks :: "bytes \<Rightarrow> bytes list \<Rightarrow> TcpConn \<Rightarrow> Frame list \<times> bytes option \<times> TcpConn" where
  "read_chunks buf [] tc = ([], Some buf, tc)"
| "read_chunks buf (chunk # chunks) tc =
     (if chunk = [] then ([], None, tc\<lparr>tc_closed := True\<rparr>)
      else let (fs, buf', bad) = tc_extract (buf @ chunk);
               tc1 = tc\<lparr>tc_msgs_recv := tc_msgs_recv tc + int (length fs), tc_bytes_recv := tc_bytes_recv tc + int (sum_list (map snd fs))\<rparr>
           in if bad then (map fst fs, None, tc1\<lparr>tc_bad_frames := tc_bad_frames tc1 + 1, tc_closed := True\<rparr>)
              else let (gs, end_buf, tc2) = read_chunks buf' chunks tc1 in (map fst fs @ gs, end_buf, tc2))"

section \<open>Dialers\<close>

datatype DialState = Dialling | DialEnded bool \<comment> \<open>whether it was connected\<close>

record TcpDialer =
  di_accepts :: "Address \<Rightarrow> Address option"
  di_connect_ms :: int
  di_running :: bool
  di_workers :: "(Address \<times> DialState) list"
  di_failures :: "(Address \<times> nat) list"
  di_cooldown :: "(Address \<times> int) list"

definition dialer_new :: "(Address \<Rightarrow> Address option) \<Rightarrow> Tunables \<Rightarrow> TcpDialer" where
  "dialer_new accepts t = \<lparr>di_accepts = accepts, di_connect_ms = tcp_connect t, di_running = False, di_workers = [], di_failures = [], di_cooldown = []\<rparr>"

definition dialer_start :: "TcpDialer \<Rightarrow> TcpDialer" where
  "dialer_start d = d\<lparr>di_running := True\<rparr>"

definition tcp_accepts :: "bool \<Rightarrow> Address \<Rightarrow> Address option" where
  "tcp_accepts enabled a = (if ad_scheme a \<noteq> TCP \<or> \<not> enabled then None else Some a)"

definition onion_accepts :: "bool \<Rightarrow> Address \<Rightarrow> Address option" where
  "onion_accepts enabled a =
     (if ad_scheme a \<noteq> ONION \<or> \<not> enabled \<or> \<not> suffix (ascii ''.onion'') (takeWhile (\<lambda>b. b \<noteq> 58) (ad_value a)) then None else Some a)"

text \<open>\<^verbatim>\<open>connect_sec * (2**n)\<close> converts the integer to a float, which raises from \<open>2 ^ 1024\<close> on.\<close>

definition dial_backoff :: "TcpDialer \<Rightarrow> nat \<Rightarrow> int res" where
  "dial_backoff d n = (if n \<ge> 1024 then Inl OverflowError else Inr (min (di_connect_ms d * 2 ^ n) (di_connect_ms d * 30)))"

text \<open>The part of \<^verbatim>\<open>dial\<close> after the cooldown: whether a worker dials the address.\<close>

definition dial_worker :: "int \<Rightarrow> Address \<Rightarrow> TcpDialer \<Rightarrow> (bool \<times> TcpDialer) res" where
  "dial_worker now a d =
     (case map_of (di_workers d) a of
        Some Dialling \<Rightarrow> Inr (True, d)
      | Some (DialEnded was_connected) \<Rightarrow>
          if was_connected
          then Inr (True, d\<lparr>di_workers := AList.update a Dialling (AList.delete a (di_workers d)), di_failures := AList.delete a (di_failures d)\<rparr>)
          else
            let n = (case map_of (di_failures d) a of None \<Rightarrow> 0 | Some k \<Rightarrow> k) + 1
            in rbind (dial_backoff d n) (\<lambda>wait.
               Inr (False, d\<lparr>di_workers := AList.delete a (di_workers d), di_failures := AList.update a n (di_failures d),
                 di_cooldown := AList.update a (now + wait) (di_cooldown d)\<rparr>))
      | None \<Rightarrow> Inr (True, d\<lparr>di_workers := AList.update a Dialling (di_workers d)\<rparr>))"

definition dial :: "int \<Rightarrow> Address \<Rightarrow> TcpDialer \<Rightarrow> (bool \<times> TcpDialer) res" where
  "dial now address d =
     (if \<not> di_running d then Inr (False, d)
      else case di_accepts d address of
        None \<Rightarrow> Inr (False, d)
      | Some a \<Rightarrow>
          (case map_of (di_cooldown d) a of
             Some until \<Rightarrow> if now < until then Inr (False, d) else dial_worker now a (d\<lparr>di_cooldown := AList.delete a (di_cooldown d)\<rparr>)
           | None \<Rightarrow> dial_worker now a d))"

definition worker_ends :: "Address \<Rightarrow> bool \<Rightarrow> TcpDialer \<Rightarrow> TcpDialer" where
  "worker_ends a was_connected d = d\<lparr>di_workers := map (\<lambda>(b, w). (b, if b = a \<and> w = Dialling then DialEnded was_connected else w)) (di_workers d)\<rparr>"

section \<open>The stream is the sequence of its frames\<close>

definition on_wire :: "Frame \<Rightarrow> bytes" where
  "on_wire f = be_bytes 4 (length (frame_raw f)) @ frame_raw f"

definition frame_fits :: "Frame \<Rightarrow> bool" where
  "frame_fits f \<longleftrightarrow> frame_ok f \<and> int (length (frame_raw f)) \<le> MAX_FRAME_BYTES"

lemma on_wire_length: "frame_fits f \<Longrightarrow> from_bytes (be_bytes 4 (length (frame_raw f))) = length (frame_raw f)"
  by (rule from_bytes_be_bytes) (simp add: frame_fits_def MAX_FRAME_BYTES_def)

lemma extract_frame:
  assumes "frame_fits f"
  shows "tc_extract (on_wire f @ rest) = (let (fs, left, bad) = tc_extract rest in ((f, length (frame_raw f)) # fs, left, bad))"
proof -
  have n: "from_bytes (take 4 (on_wire f @ rest)) = length (frame_raw f)" using on_wire_length[OF assms] by (simp add: on_wire_def)
  have d: "drop (4 + length (frame_raw f)) (on_wire f @ rest) = rest" "take (length (frame_raw f)) (drop 4 (on_wire f @ rest)) = frame_raw f"
    by (simp_all add: on_wire_def)
  have l: "\<not> length (on_wire f @ rest) < 4" "\<not> length (on_wire f @ rest) < 4 + length (frame_raw f)" by (simp_all add: on_wire_def)
  have s: "\<not> int (length (frame_raw f)) > MAX_FRAME_BYTES" using assms by (simp add: frame_fits_def)
  have dec: "frame_decode (frame_raw f) = Inr f" using assms by (simp add: frame_fits_def frame_wire.dec_enc)
  show ?thesis by (subst tc_extract.simps) (simp only: n d l s dec Let_def if_False sum.case)
qed

lemma extract_partial:
  assumes "frame_fits f" "on_wire f = part @ tail" "tail \<noteq> []"
  shows "tc_extract part = ([], part, False)"
proof (cases "length part < 4")
  case True
  then show ?thesis by (subst tc_extract.simps) simp
next
  case False
  have "take 4 part = be_bytes 4 (length (frame_raw f))"
    using assms(2) False by (metis append_eq_conv_conj length_be_bytes not_less on_wire_def take_append take_all append_Nil2 diff_is_0_eq take0 take_eq_Nil)
  then have "from_bytes (take 4 part) = length (frame_raw f)" using on_wire_length[OF assms(1)] by simp
  moreover have "length part < 4 + length (frame_raw f)"
    using arg_cong[OF assms(2), of length] assms(3) by (simp add: on_wire_def)
  moreover have "\<not> int (length (frame_raw f)) > MAX_FRAME_BYTES" using assms(1) by (simp add: frame_fits_def)
  ultimately show ?thesis using False by (subst tc_extract.simps) simp
qed

text \<open>What is in the buffer is always the beginning of the frames still to come.\<close>

lemma extract_prefix:
  "list_all frame_fits fs \<Longrightarrow> buf @ tail = concat (map on_wire fs) \<Longrightarrow>
     \<exists>gs hs left. fs = gs @ hs \<and> tc_extract buf = (map (\<lambda>f. (f, length (frame_raw f))) gs, left, False) \<and> left @ tail = concat (map on_wire hs)"
proof (induction fs arbitrary: buf)
  case Nil
  then show ?case by (intro exI[of _ "[]"]) (simp add: tc_extract.simps)
next
  case (Cons f fs)
  have f: "frame_fits f" using Cons.prems by simp
  show ?case
  proof (cases "length (on_wire f) \<le> length buf")
    case True
    then obtain buf' where b: "buf = on_wire f @ buf'" "buf' @ tail = concat (map on_wire fs)"
      using Cons.prems(2) by (auto simp: append_eq_append_conv_if split: if_splits) (metis append_eq_append_conv2 append_take_drop_id)
    then obtain gs hs left where "fs = gs @ hs" "tc_extract buf' = (map (\<lambda>f. (f, length (frame_raw f))) gs, left, False)" "left @ tail = concat (map on_wire hs)"
      using Cons.IH[OF _ b(2)] Cons.prems(1) by auto
    then show ?thesis using extract_frame[OF f, of buf'] b(1) by (intro exI[of _ "f # gs"] exI[of _ hs] exI[of _ left]) auto
  next
    case False
    then obtain rest where r: "on_wire f = buf @ rest"
      using Cons.prems(2) by (auto simp: append_eq_append_conv2 intro: sym)
    moreover have "rest \<noteq> []" using r False by auto
    ultimately have "tc_extract buf = ([], buf, False)" by (rule extract_partial[OF f])
    then show ?thesis using Cons.prems(2) by (intro exI[of _ "[]"] exI[of _ "f # fs"] exI[of _ buf]) simp
  qed
qed

lemma extract_left: "tc_extract buf = (fs, left, False) \<Longrightarrow> tc_extract left = ([], left, False)"
proof (induction buf arbitrary: fs left rule: tc_extract.induct)
  case (1 buf)
  show ?case
  proof (cases "fs")
    case Nil
    then have "left = buf" using 1(2) by (subst (asm) tc_extract.simps) (auto simp: Let_def split: if_splits sum.splits prod.splits)
    then show ?thesis using 1(2) Nil by simp
  next
    case (Cons p ps)
    let ?n = "from_bytes (take 4 buf)"
    have c: "\<not> length buf < 4" "\<not> int ?n > MAX_FRAME_BYTES" "\<not> length buf < 4 + ?n" and
        d: "\<exists>f. frame_decode (take ?n (drop 4 buf)) = Inr f" and r: "tc_extract (drop (4 + ?n) buf) = (ps, left, False)"
      using 1(2) Cons by (subst (asm) tc_extract.simps; auto simp: Let_def split: if_splits sum.splits prod.splits)+
    then show ?thesis using 1(1)[OF c(1) refl c(2,3)] by auto
  qed
qed

lemma read_chunks_frames:
  "list_all frame_fits fs \<Longrightarrow> list_all (\<lambda>b. b \<noteq> []) chunks \<Longrightarrow> buf @ concat chunks = concat (map on_wire fs) \<Longrightarrow> tc_extract buf = ([], buf, False) \<Longrightarrow>
     fst (read_chunks buf chunks tc) = fs \<and> fst (snd (read_chunks buf chunks tc)) = Some [] \<and> tc_closed (snd (snd (read_chunks buf chunks tc))) = tc_closed tc"
proof (induction chunks arbitrary: buf fs tc)
  case Nil
  from extract_prefix[OF Nil(1), of buf "[]"] Nil(3,4) obtain gs hs where g: "fs = gs @ hs" "map (\<lambda>f. (f, length (frame_raw f))) gs = []" "buf = concat (map on_wire hs)"
    by auto
  have "hs = []"
  proof (rule ccontr)
    assume "hs \<noteq> []"
    then obtain f hs' where h: "hs = f # hs'" by (cases hs) auto
    then have "frame_fits f" using Nil(1) g(1) by simp
    from extract_frame[OF this, of "concat (map on_wire hs')"] show False using Nil(4) g(3) h by (auto simp: Let_def split: prod.splits)
  qed
  then show ?case using g by simp
next
  case (Cons chunk chunks)
  obtain gs hs left where e: "fs = gs @ hs" "tc_extract (buf @ chunk) = (map (\<lambda>f. (f, length (frame_raw f))) gs, left, False)" "left @ concat chunks = concat (map on_wire hs)"
    using extract_prefix[OF Cons.prems(1), of "buf @ chunk" "concat chunks"] Cons.prems(3) by auto
  have "tc_extract left = ([], left, False)"
    using e(2) extract_left by (metis fst_conv snd_conv)
  then show ?case using Cons.IH[of hs left] Cons.prems(1,2) e by (auto simp: Let_def case_prod_beta comp_def)
qed

text \<open>
  C31: A TCP stream carries its frames whole. However the network cuts up the bytes of a sequence of frames that fit,
  the reader passes on exactly these frames, in their order, has nothing left over, and keeps the connection open.
\<close>

theorem tcp_stream_carries_frames:
  assumes "list_all frame_fits fs" "list_all (\<lambda>b. b \<noteq> []) chunks" "concat chunks = concat (map on_wire fs)"
  shows "fst (read_chunks [] chunks tc) = fs \<and> fst (snd (read_chunks [] chunks tc)) = Some [] \<and>
    tc_closed (snd (snd (read_chunks [] chunks tc))) = tc_closed tc"
  by (rule read_chunks_frames) (use assms in \<open>simp_all add: tc_extract.simps\<close>)

text \<open>What is queued for the writer is the frame as the reader expects it.\<close>

lemma enqueue_on_wire: "tc_enqueue f tc = Inr tc' \<Longrightarrow> tc_out tc' = tc_out tc @ [on_wire f]"
  by (auto simp: tc_enqueue_def on_wire_def Let_def split: if_splits)

definition tiny_frame :: Frame where
  "tiny_frame = \<lparr>fr_tag = replicate 16 1, fr_sealed = [2]\<rparr>"

theorem tcp_stream_carries_frames_witness:
  "fst (read_chunks [] (map (\<lambda>b. [b]) (on_wire tiny_frame @ on_wire tiny_frame))
     \<lparr>tc_closed = False, tc_out = [], tc_bad_frames = 0, tc_msgs_recv = 0, tc_bytes_recv = 0\<rparr>) = [tiny_frame, tiny_frame]"
proof -
  have "length (frame_raw tiny_frame) \<le> 100"
    using length_encode_bytes[of "replicate 16 (1 :: byte)"] length_encode_bytes[of "[2]"] by (simp add: frame_raw_def tiny_frame_def benc.simps)
  then have "frame_fits tiny_frame"
    by (simp add: frame_fits_def MAX_FRAME_BYTES_def frame_ok_def SCREEN_TAG_SIZE_def) (simp add: tiny_frame_def env_small)
  then have "list_all frame_fits [tiny_frame, tiny_frame]" by simp
  from tcp_stream_carries_frames[OF this, of "map (\<lambda>b. [b]) (on_wire tiny_frame @ on_wire tiny_frame)"] show ?thesis
    by (simp add: list_all_iff)
qed

section \<open>Dialling\<close>

text \<open>An address that failed is left alone until its cooldown is over, which is at most thirty connection time-outs.\<close>

lemma dial_cooldown:
  assumes "map_of (di_cooldown d) a = Some until" "now < until" "di_accepts d a = Some a"
  shows "dial now a d = Inr (False, d)"
  using assms by (simp add: dial_def)

lemma dial_backoff_bounds:
  "0 < di_connect_ms d \<Longrightarrow> dial_backoff d n = Inr wait \<Longrightarrow> di_connect_ms d \<le> wait \<and> wait \<le> 30 * di_connect_ms d"
  by (auto simp: dial_backoff_def split: if_splits)

text \<open>Dialling raises in one case only: the worker of an address ended unconnected for the 1024th time in a row.\<close>

lemma dial_raises_iff:
  "dial now address d = Inl e \<longleftrightarrow>
     e = OverflowError \<and> di_running d \<and>
     (\<exists>a. di_accepts d address = Some a \<and> (\<forall>until. map_of (di_cooldown d) a = Some until \<longrightarrow> until \<le> now) \<and>
        map_of (di_workers d) a = Some (DialEnded False) \<and> (\<exists>n. map_of (di_failures d) a = Some n \<and> 1023 \<le> n))"
proof -
  have w: "dial_worker now a d' = Inl e \<longleftrightarrow> e = OverflowError \<and> map_of (di_workers d') a = Some (DialEnded False) \<and>
      (\<exists>n. map_of (di_failures d') a = Some n \<and> 1023 \<le> n)" for a d'
    by (auto simp: dial_worker_def dial_backoff_def Let_def split: option.split DialState.split)
  show ?thesis by (auto simp: dial_def w not_less split: option.split)
qed

end
