(* ===== verification/Postman.thy ===== *)
theory Postman
  imports Mailbox Node Tcp
begin

text \<open>
  \<^verbatim>\<open>dude/net/postman.py\<close>: the actor that owns the peers, their links and the mailbox. A handler of the
  event loop is a function of the postman's state; what it does to the outside is appended to \<open>po_out\<close>: outputs
  for the node, frames handed to a transport, links closed (each posts \<^verbatim>\<open>_LinkDown\<close>), and unbound
  links to be reaped. The dialers are part of the state: a handler that dials runs \<^verbatim>\<open>dialer.dial\<close>, and what it raises leaves the
  handler. A link enters with the \<^verbatim>\<open>_LinkUp\<close> event its transport posts before it
  passes on frames. A timer is the time its event is scheduled for; the loop never runs a
  cancelled event. \<open>now\<close> is the time a handler reads first and \<open>later\<close> the one it reads when it sets a timer. Links are
  compared by their number: the comparison of the dataclass includes the closures of the transport.
  The callbacks \<^verbatim>\<open>on_output\<close> and \<^verbatim>\<open>on_peers_changed\<close> are outside. The status reports, the in-process
  transport and further dialers are not modelled.
\<close>

section \<open>State\<close>

record VerbStats =
  vs_sent :: int
  vs_recv :: int
  vs_bytes_sent :: int
  vs_bytes_recv :: int
  vs_retries :: int

datatype Effect =
    OutDelivered Delivered
  | OutExpired "Expired list"
  | FrameOut nat Frame
  | PostLinkDown nat
  | PeersChanged "public_key set" "public_key set"
  | PostReapUnbound int nat

record Postman =
  po_me :: seed
  po_tunables :: Tunables
  po_mailbox :: Mailbox
  po_peers :: "(public_key \<times> Peer) list"
  po_links :: LinkTable
  po_verb_stats :: "((public_key \<times> Verb) \<times> VerbStats) list"
  po_authorized :: "public_key set"
  po_retry_timer :: "int option"
  po_reap_timer :: "int option"
  po_link_timer :: "int option"
  po_keepalive_timer :: "int option"
  po_keepalive_pending :: "(bytes \<times> nat \<times> int) list"
  po_dialers :: "TcpDialer list"
  po_out :: "Effect list"

text \<open>
  What lies outside: the primitives, whether a transport takes a frame, the nonce a seal draws, the
  identifiers drawn for a link and for a peer and for a taken prefix, the random keepalive interval, and the monotonic clock
  in milliseconds when an address is dialled.
\<close>

record NetEnv =
  ne_prims :: prims
  ne_boxes :: boxes
  ne_takes :: "nat \<Rightarrow> Frame \<Rightarrow> bool"
  ne_nonce :: "SignedEnvelope \<Rightarrow> bytes"
  ne_link_mid :: "nat \<Rightarrow> bytes"
  ne_peer_mid :: "public_key \<Rightarrow> bytes"
  ne_draws :: "bytes list"
  ne_keepalive_interval :: int
  ne_monotonic :: "Address \<Rightarrow> int"

text \<open>Which transports the configuration enables, of the part of \<^verbatim>\<open>Tunables\<close> about transports.\<close>

record Transports =
  tp_tcp :: bool
  tp_onion :: bool

definition postman_new :: "seed \<Rightarrow> Tunables \<Rightarrow> Transports \<Rightarrow> Postman" where
  "postman_new me t tp = \<lparr>po_me = me, po_tunables = t, po_mailbox = [], po_peers = [], po_links = [], po_verb_stats = [], po_authorized = {},
     po_retry_timer = None, po_reap_timer = None, po_link_timer = None, po_keepalive_timer = None, po_keepalive_pending = [],
     po_dialers = [dialer_new (tcp_accepts (tp_tcp tp)) t, dialer_new (onion_accepts (tp_onion tp)) t], po_out = []\<rparr>"

definition emit :: "Effect list \<Rightarrow> Postman \<Rightarrow> Postman" where
  "emit es po = po\<lparr>po_out := po_out po @ es\<rparr>"

definition po_verb :: "public_key \<Rightarrow> Verb \<Rightarrow> (VerbStats \<Rightarrow> VerbStats) \<Rightarrow> Postman \<Rightarrow> Postman" where
  "po_verb who v f po =
     (let s = (case map_of (po_verb_stats po) (who, v) of
                 None \<Rightarrow> \<lparr>vs_sent = 0, vs_recv = 0, vs_bytes_sent = 0, vs_bytes_recv = 0, vs_retries = 0\<rparr>
               | Some s \<Rightarrow> s)
      in po\<lparr>po_verb_stats := AList.update (who, v) (f s) (po_verb_stats po)\<rparr>)"

section \<open>Timers\<close>

definition may_retry :: "int \<Rightarrow> MailPending \<Rightarrow> bool" where
  "may_retry now p \<longleftrightarrow> ml_envelope p \<noteq> None \<and> \<not> ml_in_flight p \<and> ml_next_at p < ml_deadline p \<and> now < ml_deadline p"

definition earliest :: "int list \<Rightarrow> int option" where
  "earliest ts = (if ts = [] then None else Some (Min (set ts)))"

definition schedule_retry :: "int \<Rightarrow> Postman \<Rightarrow> Postman" where
  "schedule_retry now po = po\<lparr>po_retry_timer := earliest (map ml_next_at (filter (may_retry now) (map snd (po_mailbox po))))\<rparr>"

definition schedule_reap :: "Postman \<Rightarrow> Postman" where
  "schedule_reap po = po\<lparr>po_reap_timer := earliest (map ml_deadline (map snd (po_mailbox po)))\<rparr>"

definition schedule_link_maintenance :: "int \<Rightarrow> Postman \<Rightarrow> Postman" where
  "schedule_link_maintenance now po = po\<lparr>po_link_timer := Some (now + link_maintenance_interval (po_tunables po))\<rparr>"

definition schedule_keepalive :: "NetEnv \<Rightarrow> int \<Rightarrow> Postman \<Rightarrow> Postman" where
  "schedule_keepalive en now po = po\<lparr>po_keepalive_timer := Some (now + ne_keepalive_interval en)\<rparr>"

definition po_start :: "NetEnv \<Rightarrow> int \<Rightarrow> Postman \<Rightarrow> Postman" where
  "po_start en now po = schedule_keepalive en now (schedule_link_maintenance now (po\<lparr>po_dialers := map dialer_start (po_dialers po)\<rparr>))"

section \<open>Links\<close>

definition close_link :: "nat \<Rightarrow> Postman \<Rightarrow> Postman" where
  "close_link i po = (let (tab, cs) = close_links [i] (po_links po) in emit (map PostLinkDown cs) (po\<lparr>po_links := tab\<rparr>))"

definition update_link :: "nat \<Rightarrow> (Link \<Rightarrow> Link) \<Rightarrow> Postman \<Rightarrow> Postman" where
  "update_link i f po = (case map_of (po_links po) i of None \<Rightarrow> po | Some l \<Rightarrow> po\<lparr>po_links := AList.update i (f l) (po_links po)\<rparr>)"

text \<open>\<^verbatim>\<open>link.send(frame, now)\<close>, with the refusal.\<close>

definition send_on :: "NetEnv \<Rightarrow> nat \<Rightarrow> Frame \<Rightarrow> int \<Rightarrow> Postman \<Rightarrow> LinkSendRefused option \<times> Postman" where
  "send_on en i f now po =
     (case map_of (po_links po) i of
        None \<Rightarrow> (Some TRANSPORT, po)
      | Some l \<Rightarrow>
          let (refused, called, l') = lk_send (ne_takes en i f) now f l; po' = po\<lparr>po_links := AList.update i l' (po_links po)\<rparr>
          in (refused, emit ((if refused = None then [FrameOut i f] else []) @ (if called then [PostLinkDown i] else [])) po'))"

text \<open>\<^verbatim>\<open>for dialer in self._dialers: if dialer.dial(address): break\<close>, and over the addresses.\<close>

fun dial_first :: "int \<Rightarrow> Address \<Rightarrow> TcpDialer list \<Rightarrow> TcpDialer list res" where
  "dial_first now a [] = Inr []"
| "dial_first now a (d # ds) =
     rbind (dial now a d) (\<lambda>(taken, d').
     if taken then Inr (d' # ds) else rbind (dial_first now a ds) (\<lambda>ds'. Inr (d' # ds')))"

fun dial_addresses :: "NetEnv \<Rightarrow> Address list \<Rightarrow> TcpDialer list \<Rightarrow> TcpDialer list res" where
  "dial_addresses en [] ds = Inr ds"
| "dial_addresses en (a # as) ds = rbind (dial_first (ne_monotonic en a) a ds) (dial_addresses en as)"

definition dial_peer :: "NetEnv \<Rightarrow> Peer \<Rightarrow> Postman \<Rightarrow> Postman res" where
  "dial_peer en p po =
     (if int (length (pe_links p)) \<ge> desired_links_per_peer (po_tunables po) then Inr po
      else rbind (dial_addresses en
              (filter (\<lambda>a. \<not> list_ex (\<lambda>i. map_option lk_address (map_of (po_links po) i) = Some a) (pe_links p)) (map fst (pe_dial_targets p)))
              (po_dialers po))
            (\<lambda>ds. Inr (po\<lparr>po_dialers := ds\<rparr>)))"

fun dial_peers :: "NetEnv \<Rightarrow> Peer list \<Rightarrow> Postman \<Rightarrow> Postman res" where
  "dial_peers en [] po = Inr po"
| "dial_peers en (p # ps) po = rbind (dial_peer en p po) (dial_peers en ps)"

definition maintain_links :: "NetEnv \<Rightarrow> Postman \<Rightarrow> Postman res" where
  "maintain_links en po = dial_peers en (map snd (po_peers po)) po"

definition set_peer :: "public_key \<Rightarrow> Peer \<Rightarrow> Postman \<Rightarrow> Postman" where
  "set_peer who p po = po\<lparr>po_peers := AList.update who p (po_peers po)\<rparr>"

definition link_established :: "int \<Rightarrow> nat \<Rightarrow> Postman \<Rightarrow> Postman res" where
  "link_established later i po =
     (case map_of (po_links po) i of
        None \<Rightarrow> Inr po
      | Some l \<Rightarrow>
          rbind (if lk_identity l = None
                 then (case find (\<lambda>(who, p). lk_address l \<in> fst ` set (pe_dial_targets p)) (po_peers po) of
                         None \<Rightarrow> Inr l
                       | Some (_, p) \<Rightarrow> lk_bind (pe_identity p) l)
                 else Inr l) (\<lambda>l.
          let po = po\<lparr>po_links := AList.update i l (po_links po)\<rparr> in
          Inr (case lk_identity l of
                 None \<Rightarrow> emit [PostReapUnbound (later + unauthenticated_link_lifetime (po_tunables po)) i] po
               | Some who \<Rightarrow>
                   (case map_of (po_peers po) who of
                      Some p \<Rightarrow> if i \<in> set (pe_links p) then po else set_peer who (p\<lparr>pe_links := pe_links p @ [i]\<rparr>) po
                    | None \<Rightarrow>
                        if who \<notin> po_authorized po then close_link i po
                        else set_peer who ((peer_new who)\<lparr>pe_links := [i]\<rparr>) po))))"

definition link_died :: "nat \<Rightarrow> Postman \<Rightarrow> Postman" where
  "link_died i po =
     (case map_of (po_links po) i of
        None \<Rightarrow> po
      | Some l \<Rightarrow>
          (case lk_identity l of
             None \<Rightarrow> po
           | Some who \<Rightarrow>
               (case map_of (po_peers po) who of
                  None \<Rightarrow> po
                | Some p \<Rightarrow> set_peer who (p\<lparr>pe_links := filter (\<lambda>j. j \<noteq> i) (pe_links p)\<rparr>) po)))"

section \<open>Peers\<close>

definition do_remove_peer :: "public_key \<Rightarrow> Postman \<Rightarrow> Postman" where
  "do_remove_peer who po =
     (case map_of (po_peers po) who of
        None \<Rightarrow> po
      | Some p \<Rightarrow>
          let (_, tab, cs) = pe_disconnect p (po_links po)
          in emit (map PostLinkDown cs) (po\<lparr>po_peers := AList.delete who (po_peers po), po_links := tab\<rparr>))"

definition do_add_peer :: "public_key \<Rightarrow> Endpoint list \<Rightarrow> Postman \<Rightarrow> Postman" where
  "do_add_peer who eps po =
     (let p = (case map_of (po_peers po) who of None \<Rightarrow> peer_new who | Some p \<Rightarrow> p);
          (p', tab, cs) = pe_reconfigure eps p (po_links po)
      in emit (map PostLinkDown cs) (set_peer who p' (po\<lparr>po_links := tab\<rparr>)))"

definition do_sync :: "(public_key \<times> Endpoint list) list \<Rightarrow> public_key set \<Rightarrow> Postman \<Rightarrow> Postman" where
  "do_sync wanted authorized po =
     (let po1 = po\<lparr>po_authorized := authorized\<rparr>;
          gone = filter (\<lambda>who. who \<notin> fst ` set wanted \<and> who \<notin> authorized) (map fst (po_peers po1));
          po2 = foldl (\<lambda>po' who. do_remove_peer who po') po1 gone
      in foldl (\<lambda>po' (who, eps). do_add_peer who eps po') po2 wanted)"

definition notify_peers_changed :: "public_key set \<Rightarrow> public_key set \<Rightarrow> Postman \<Rightarrow> Postman" where
  "notify_peers_changed added removed po = (if added \<noteq> {} \<or> removed \<noteq> {} then emit [PeersChanged added removed] po else po)"

definition dial_known :: "NetEnv \<Rightarrow> public_key \<Rightarrow> Postman \<Rightarrow> Postman res" where
  "dial_known en who po = (case map_of (po_peers po) who of None \<Rightarrow> Inr po | Some p \<Rightarrow> dial_peer en p po)"

fun dial_all_known :: "NetEnv \<Rightarrow> public_key list \<Rightarrow> Postman \<Rightarrow> Postman res" where
  "dial_all_known en [] po = Inr po"
| "dial_all_known en (who # ws) po = rbind (dial_known en who po) (dial_all_known en ws)"

definition on_sync_peers :: "NetEnv \<Rightarrow> (public_key \<times> Endpoint list) list \<Rightarrow> public_key set \<Rightarrow> Postman \<Rightarrow> Postman res" where
  "on_sync_peers en wanted authorized po =
     (let before = fst ` set (po_peers po)
      in rbind (dial_all_known en (map fst wanted) (do_sync wanted authorized po)) (\<lambda>po1.
         let after = fst ` set (po_peers po1)
         in Inr (notify_peers_changed (after - before) (before - after) po1)))"

definition on_add_peer :: "NetEnv \<Rightarrow> public_key \<Rightarrow> Endpoint list \<Rightarrow> Postman \<Rightarrow> Postman res" where
  "on_add_peer en who eps po =
     (let was_new = who \<notin> fst ` set (po_peers po)
      in rbind (dial_known en who (do_add_peer who eps po)) (\<lambda>po1.
         Inr (if was_new \<and> who \<in> fst ` set (po_peers po1) then notify_peers_changed {who} {} po1 else po1)))"

definition on_remove_peer :: "public_key \<Rightarrow> Postman \<Rightarrow> Postman" where
  "on_remove_peer who po =
     (let po1 = do_remove_peer who po in if who \<in> fst ` set (po_peers po) then notify_peers_changed {} {who} po1 else po1)"

definition on_link_down :: "NetEnv \<Rightarrow> nat \<Rightarrow> Postman \<Rightarrow> Postman res" where
  "on_link_down en i po =
     (let po1 = link_died i po
      in case map_of (po_links po1) i of
           None \<Rightarrow> Inr po1
         | Some l \<Rightarrow> (case lk_identity l of None \<Rightarrow> Inr po1 | Some who \<Rightarrow> dial_known en who po1))"

definition links_at :: "Address \<Rightarrow> Postman \<Rightarrow> nat list" where
  "links_at a po = filter (\<lambda>i. map_option lk_address (map_of (po_links po) i) = Some a) (concat (map (pe_links \<circ> snd) (po_peers po)))"

definition on_link_broken :: "Address \<Rightarrow> int \<Rightarrow> int \<Rightarrow> Postman \<Rightarrow> Postman" where
  "on_link_broken a now later po =
     (let po1 = foldl (\<lambda>po' i. update_link i (lk_on_failed now) po') po (links_at a po)
      in schedule_retry later (po1\<lparr>po_mailbox := snd (mb_failed_on a (retry_at (po_tunables po) 0 now) (po_mailbox po1))\<rparr>))"

text \<open>A transport whose connection has ended calls \<^verbatim>\<open>notify_closed\<close> from its own thread.\<close>

definition transport_ends :: "nat \<Rightarrow> Postman \<Rightarrow> Postman" where
  "transport_ends i po =
     (case map_of (po_links po) i of
        None \<Rightarrow> po
      | Some l \<Rightarrow>
          let (l', called) = lk_notify_closed l
          in emit (if called then [PostLinkDown i] else []) (po\<lparr>po_links := AList.update i l' (po_links po)\<rparr>))"

text \<open>The thread of the \<open>k\<close>-th dialer that dials an address ends.\<close>

definition dial_worker_ends :: "nat \<Rightarrow> Address \<Rightarrow> bool \<Rightarrow> Postman \<Rightarrow> Postman" where
  "dial_worker_ends k a was_connected po =
     (if k < length (po_dialers po) then po\<lparr>po_dialers := (po_dialers po)[k := worker_ends a was_connected (po_dialers po ! k)]\<rparr> else po)"

definition on_reap_unbound :: "nat \<Rightarrow> Postman \<Rightarrow> Postman" where
  "on_reap_unbound i po =
     (case map_of (po_links po) i of None \<Rightarrow> po | Some l \<Rightarrow> if lk_identity l = None then close_link i po else po)"

section \<open>Sending\<close>

text \<open>\<^verbatim>\<open>_do_post\<close>; \<^const>\<open>None\<close> while the loop of \<^verbatim>\<open>Mailbox.post\<close> has not found a free prefix.\<close>

definition do_post :: "NetEnv \<Rightarrow> int \<Rightarrow> int \<Rightarrow> public_key \<Rightarrow> Verb \<Rightarrow> bytes \<Rightarrow> int \<Rightarrow> bool \<Rightarrow> bytes \<Rightarrow> bytes \<Rightarrow> Postman \<Rightarrow> Postman option" where
  "do_post en now later to verb body ttl await_reply reply_to mid po =
     map_option (\<lambda>(_, m). schedule_reap (schedule_retry later (po\<lparr>po_mailbox := m\<rparr>)))
       (mb_post (ne_draws en) \<lparr>ev_to = to, ev_verb = verb, ev_mid = mid @ [0], ev_body = body, ev_reply_to = reply_to\<rparr> now ttl await_reply (po_mailbox po))"

fun broadcast_to :: "NetEnv \<Rightarrow> int \<Rightarrow> int \<Rightarrow> public_key list \<Rightarrow> Verb \<Rightarrow> bytes \<Rightarrow> int \<Rightarrow> Postman \<Rightarrow> Postman option" where
  "broadcast_to en now later [] verb body ttl po = Some po"
| "broadcast_to en now later (who # ws) verb body ttl po =
     Option.bind (do_post en now later who verb body ttl False [] (ne_peer_mid en who) po) (broadcast_to en now later ws verb body ttl)"

text \<open>\<^verbatim>\<open>_act\<close>.\<close>

definition act :: "NetEnv \<Rightarrow> Decision \<Rightarrow> Transmit \<Rightarrow> int \<Rightarrow> Postman \<Rightarrow> Postman res" where
  "act en d t now po =
     (case d of
        GiveUp _ \<Rightarrow>
          (case mb_expire (tm_prefix t) (po_mailbox po) of
             (None, m) \<Rightarrow> Inr (po\<lparr>po_mailbox := m\<rparr>)
           | (Some e, m) \<Rightarrow> Inr (emit [OutExpired [e]] (po\<lparr>po_mailbox := m\<rparr>)))
      | Wait until _ \<Rightarrow> Inr (po\<lparr>po_mailbox := mb_failed (tm_prefix t) until (po_mailbox po)\<rparr>)
      | Send i again_at \<Rightarrow>
          rbind (with_attempt (tm_prefix t) (tm_attempt t)) (\<lambda>mid.
          let s = env_sign (ne_prims en) ((tm_envelope t)\<lparr>ev_mid := mid\<rparr>) (po_me po) now in
          rbind (se_seal (ne_prims en) (ne_boxes en) s (ne_nonce en s)) (\<lambda>f.
          let (refused, po1) = send_on en i f now po
          in Inr (if refused = None
                  then po_verb (tm_to t) (ev_verb (tm_envelope t)) (\<lambda>vs. vs\<lparr>vs_sent := vs_sent vs + 1,
                         vs_bytes_sent := vs_bytes_sent vs + int (length (frame_raw f)), vs_retries := vs_retries vs + (if tm_attempt t > 0 then 1 else 0)\<rparr>)
                         (po1\<lparr>po_mailbox := mb_sent (tm_prefix t) (tm_attempt t)
                            (case map_of (po_links po1) i of Some l \<Rightarrow> lk_address l | None \<Rightarrow> \<lparr>ad_scheme = TCP, ad_value = []\<rparr>) now again_at (po_mailbox po1)\<rparr>)
                  else po1\<lparr>po_mailbox := mb_failed (tm_prefix t) (retry_at (po_tunables po) (tm_attempt t) now) (po_mailbox po1)\<rparr>))))"

definition transmit :: "NetEnv \<Rightarrow> int \<Rightarrow> Transmit \<Rightarrow> Postman \<Rightarrow> Postman res" where
  "transmit en now t po =
     (case map_of (po_peers po) (tm_to t) of
        None \<Rightarrow> Inr (po\<lparr>po_mailbox := mb_failed (tm_prefix t) (retry_at (po_tunables po) (tm_attempt t) now) (po_mailbox po)\<rparr>)
      | Some p \<Rightarrow> act en (plan_next (po_tunables po) (po_links po) p (tm_attempt t) now (mb_deadline (tm_prefix t) (po_mailbox po))) t now po)"

fun transmit_all :: "NetEnv \<Rightarrow> int \<Rightarrow> Transmit list \<Rightarrow> Postman \<Rightarrow> Postman res" where
  "transmit_all en now [] po = Inr po"
| "transmit_all en now (t # ts) po = rbind (transmit en now t po) (transmit_all en now ts)"

definition on_retry_due :: "NetEnv \<Rightarrow> int \<Rightarrow> int \<Rightarrow> Postman \<Rightarrow> Postman res" where
  "on_retry_due en now later po =
     (let (ts, m) = mb_due now (po_mailbox po)
      in rbind (transmit_all en now ts (po\<lparr>po_retry_timer := None, po_mailbox := m\<rparr>)) (\<lambda>po1. Inr (schedule_retry later po1)))"

section \<open>Expiry and keepalive\<close>

text \<open>The first link of the peer at an address.\<close>

definition link_at :: "Address \<Rightarrow> Peer \<Rightarrow> Postman \<Rightarrow> nat option" where
  "link_at a p po = find (\<lambda>i. map_option lk_address (map_of (po_links po) i) = Some a) (pe_links p)"

definition charge_expired :: "int \<Rightarrow> Expired \<Rightarrow> Postman \<Rightarrow> Postman" where
  "charge_expired now e po =
     (case (map_of (po_peers po) (ex_to e), ex_address e) of
        (Some p, Some a) \<Rightarrow> (case link_at a p po of None \<Rightarrow> po | Some i \<Rightarrow> update_link i (lk_on_failed now) po)
      | _ \<Rightarrow> po)"

definition on_reap_check :: "int \<Rightarrow> Postman \<Rightarrow> Postman" where
  "on_reap_check now po =
     (let (done, m) = mb_expired now (po_mailbox po);
          po1 = foldl (\<lambda>po' e. charge_expired now e po') (po\<lparr>po_reap_timer := None, po_mailbox := m\<rparr>) done
      in schedule_reap (if done \<noteq> [] then emit [OutExpired done] po1 else po1))"

definition reply_pong :: "NetEnv \<Rightarrow> public_key \<Rightarrow> MessageId \<Rightarrow> nat \<Rightarrow> int \<Rightarrow> Postman \<Rightarrow> Postman res" where
  "reply_pong en to ping_mid i now po =
     rbind (mid_random (ne_link_mid en i) 0) (\<lambda>mid.
     let s = env_sign (ne_prims en) \<lparr>ev_to = to, ev_verb = V_PONG, ev_mid = mid, ev_body = [], ev_reply_to = ping_mid\<rparr> (po_me po) now
     in rbind (se_seal (ne_prims en) (ne_boxes en) s (ne_nonce en s)) (\<lambda>f. Inr (snd (send_on en i f now po))))"

definition ping_link :: "NetEnv \<Rightarrow> Peer \<Rightarrow> nat \<Rightarrow> int \<Rightarrow> Postman \<Rightarrow> Postman res" where
  "ping_link en p i now po =
     rbind (mid_random (ne_link_mid en i) 0) (\<lambda>mid.
     let s = env_sign (ne_prims en) \<lparr>ev_to = pe_identity p, ev_verb = V_PING, ev_mid = mid, ev_body = [], ev_reply_to = []\<rparr> (po_me po) now in
     rbind (se_seal (ne_prims en) (ne_boxes en) s (ne_nonce en s)) (\<lambda>f.
     let (refused, po1) = send_on en i f now po
     in Inr (if refused = None then po1\<lparr>po_keepalive_pending := AList.update (correlation_id mid) (i, now) (po_keepalive_pending po1)\<rparr> else po1)))"

fun ping_links :: "NetEnv \<Rightarrow> (Peer \<times> nat) list \<Rightarrow> int \<Rightarrow> Postman \<Rightarrow> Postman res" where
  "ping_links en [] now po = Inr po"
| "ping_links en ((p, i) # rest) now po =
     rbind (case map_of (po_links po) i of
              None \<Rightarrow> Inr po
            | Some l \<Rightarrow> if lk_available now l \<and> lk_last_rtt_at l < now - keepalive_threshold (po_tunables po) then ping_link en p i now po else Inr po)
       (ping_links en rest now)"

definition on_keepalive :: "NetEnv \<Rightarrow> int \<Rightarrow> int \<Rightarrow> Postman \<Rightarrow> Postman res" where
  "on_keepalive en now later po =
     rbind (ping_links en (concat (map (\<lambda>(_, p). map (Pair p) (pe_links p)) (po_peers po))) now (po\<lparr>po_keepalive_timer := None\<rparr>))
       (\<lambda>po1. Inr (schedule_keepalive en later po1))"

section \<open>Frames\<close>

definition credit :: "public_key \<Rightarrow> MailReply \<Rightarrow> int \<Rightarrow> Postman \<Rightarrow> Postman" where
  "credit frm r now po =
     (case map_of (po_peers po) frm of
        None \<Rightarrow> po
      | Some p \<Rightarrow>
          (case mr_address r of
             None \<Rightarrow> foldl (\<lambda>po' i. update_link i (lk_on_reply now None) po') po (pe_links p)
           | Some a \<Rightarrow> (case link_at a p po of None \<Rightarrow> po | Some i \<Rightarrow> update_link i (lk_on_reply now (mr_rtt r)) po)))"

text \<open>From the binding of the link on, for an envelope that passed.\<close>

definition dispatch_envelope :: "NetEnv \<Rightarrow> int \<Rightarrow> int \<Rightarrow> Frame \<Rightarrow> nat \<Rightarrow> SignedEnvelope \<Rightarrow> Postman \<Rightarrow> Postman res" where
  "dispatch_envelope en now later f i s po =
     rbind (case map_of (po_links po) i of
              None \<Rightarrow> Inr po
            | Some l \<Rightarrow>
                if lk_identity l = None
                then rbind (lk_bind (se_frm s) l) (\<lambda>l'. link_established later i (po\<lparr>po_links := AList.update i l' (po_links po)\<rparr>))
                else Inr po) (\<lambda>po1.
     let po2 = po_verb (se_frm s) (ev_verb (se_env s)) (\<lambda>vs. vs\<lparr>vs_recv := vs_recv vs + 1, vs_bytes_recv := vs_bytes_recv vs + int (length (frame_raw f))\<rparr>) po1 in
     if ev_verb (se_env s) = V_PING then reply_pong en (se_frm s) (ev_mid (se_env s)) i now po2
     else Inr (emit [OutDelivered \<lparr>dl_frm = se_frm s, dl_mid = ev_mid (se_env s), dl_verb = ev_verb (se_env s), dl_body = ev_body (se_env s),
       dl_in_reply_to = (if ev_reply_to (se_env s) \<noteq> [] then Some (ev_reply_to (se_env s)) else None)\<rparr>] po2))"

definition do_deliver :: "NetEnv \<Rightarrow> int \<Rightarrow> int \<Rightarrow> Frame \<Rightarrow> nat \<Rightarrow> Postman \<Rightarrow> Postman res" where
  "do_deliver en now later f i po =
     (let me = kp_public (ne_prims en) (po_me po) in
      if \<not> addressed_to (ne_prims en) f me then Inr (close_link i po)
      else case rbind (unseal (ne_boxes en) f (po_me po)) (\<lambda>s. rbind (se_accept (ne_prims en) s me now (window (po_tunables po)) None) (\<lambda>_. Inr s)) of
        Inl e \<Rightarrow> if is_dude_error e then Inr (close_link i po) else Inl e
      | Inr s \<Rightarrow>
          (case mb_arrived s now (po_mailbox po) of
             (Some r, m) \<Rightarrow> dispatch_envelope en now later f i s (credit (se_frm s) r now (po\<lparr>po_mailbox := m\<rparr>))
           | (None, m) \<Rightarrow>
               let reply_to = ev_reply_to (se_env s);
                   ka = (if reply_to \<noteq> [] \<and> length reply_to \<ge> MID_SIZE then map_of (po_keepalive_pending po) (correlation_id reply_to) else None)
               in case ka of
                    Some (j, sent_at) \<Rightarrow>
                      Inr (update_link j (lk_on_reply now (Some (now - sent_at)))
                        (po\<lparr>po_keepalive_pending := AList.delete (correlation_id reply_to) (po_keepalive_pending po)\<rparr>))
                  | None \<Rightarrow>
                      if se_frm s \<notin> fst ` set (po_peers po) \<and> se_frm s \<notin> po_authorized po then Inr po
                      else dispatch_envelope en now later f i s po))"

section \<open>The loop\<close>

datatype PostmanEvent =
    PostSend public_key Verb bytes int bool bytes bytes
  | PSyncPeers "(public_key \<times> Endpoint list) list" "public_key set"
  | AddPeer public_key "Endpoint list"
  | RemovePeer public_key
  | FrameIn Frame nat
  | LinkUp nat Link
  | LinkDown nat
  | LinkBroken Address
  | RetryDue
  | ReapCheck
  | MaintainLinks
  | PBroadcast Verb bytes int
  | KeepAlive
  | ReapUnbound nat
  | TransportEnds nat
  | WorkerEnds nat Address bool

text \<open>The handler the loop runs for an event, and what a transport does on its own; \<^const>\<open>None\<close> while \<^verbatim>\<open>post\<close> looks for a free prefix.\<close>

definition po_handle :: "NetEnv \<Rightarrow> int \<Rightarrow> int \<Rightarrow> PostmanEvent \<Rightarrow> Postman \<Rightarrow> Postman res option" where
  "po_handle en now later ev po =
     (case ev of
        PostSend to verb body ttl await_reply reply_to mid \<Rightarrow> map_option Inr (do_post en now later to verb body ttl await_reply reply_to mid po)
      | PSyncPeers wanted authorized \<Rightarrow> Some (on_sync_peers en wanted authorized po)
      | AddPeer who eps \<Rightarrow> Some (on_add_peer en who eps po)
      | RemovePeer who \<Rightarrow> Some (Inr (on_remove_peer who po))
      | FrameIn f i \<Rightarrow> Some (do_deliver en now later f i po)
      | LinkUp i l \<Rightarrow> Some (link_established later i (po\<lparr>po_links := AList.update i l (po_links po)\<rparr>))
      | LinkDown i \<Rightarrow> Some (on_link_down en i po)
      | LinkBroken a \<Rightarrow> Some (Inr (on_link_broken a now later po))
      | RetryDue \<Rightarrow> Some (on_retry_due en now later po)
      | ReapCheck \<Rightarrow> Some (Inr (on_reap_check now po))
      | MaintainLinks \<Rightarrow> Some (rbind (maintain_links en po) (\<lambda>po1. Inr (schedule_link_maintenance later po1)))
      | PBroadcast verb body ttl \<Rightarrow> map_option Inr (broadcast_to en now later (map fst (po_peers po)) verb body ttl po)
      | KeepAlive \<Rightarrow> Some (on_keepalive en now later po)
      | ReapUnbound i \<Rightarrow> Some (Inr (on_reap_unbound i po))
      | TransportEnds i \<Rightarrow> Some (Inr (transport_ends i po))
      | WorkerEnds k a was_connected \<Rightarrow> Some (Inr (dial_worker_ends k a was_connected po)))"

end
