(* ===== verification/Postman_Props.thy ===== *)
theory Postman_Props
  imports Postman
begin

text \<open>
  What the postman guarantees: only authentic messages reach the node, every message leaves the mailbox by its deadline after
  a bounded number of attempts, and no frame ends the loop; which two things do end it; and that a request whose link
  died is not sent again.
\<close>

section \<open>Handlers that only add effects\<close>

text \<open>A relation between the states before and after that is kept along loops.\<close>

locale step_relation =
  fixes R :: "'s \<Rightarrow> 's \<Rightarrow> bool"
  assumes R_refl [simp, intro]: "R s s" and R_trans [trans]: "R s t \<Longrightarrow> R t u \<Longrightarrow> R s u"
begin

lemma R_foldl: "(\<And>x s. R s (f s x)) \<Longrightarrow> R s (foldl f s xs)"
  by (induction xs arbitrary: s) (auto intro: R_trans)

lemma R_bind: "rbind m f = Inr t \<Longrightarrow> (\<And>u. m = Inr u \<Longrightarrow> R s u) \<Longrightarrow> (\<And>u. f u = Inr t \<Longrightarrow> R u t) \<Longrightarrow> R s t"
  by (auto simp: rbind_Inr_conv intro: R_trans)

end

fun delivers :: "Effect \<Rightarrow> bool" where
  "delivers (OutDelivered d) = True"
| "delivers _ = False"

text \<open>A peer stands under its own key.\<close>

definition named :: "Postman \<Rightarrow> bool" where
  "named po \<longleftrightarrow> (\<forall>(who, p) \<in> set (po_peers po). pe_identity p = who)"

definition quiet :: "Postman \<Rightarrow> Postman \<Rightarrow> bool" where
  "quiet po po' \<longleftrightarrow> po_me po' = po_me po \<and> po_tunables po' = po_tunables po \<and> (named po \<longrightarrow> named po') \<and> (\<exists>es. po_out po' = po_out po @ es \<and> list_all (\<lambda>e. \<not> delivers e) es)"

definition same_mail :: "Postman \<Rightarrow> Postman \<Rightarrow> bool" where
  "same_mail po po' \<longleftrightarrow> po_mailbox po' = po_mailbox po \<and> po_reap_timer po' = po_reap_timer po \<and> po_tunables po' = po_tunables po"

interpretation quiet: step_relation quiet
  by unfold_locales (auto simp: quiet_def)

interpretation same_mail: step_relation same_mail
  by unfold_locales (auto simp: same_mail_def)

lemma quiet_emit: "list_all (\<lambda>e. \<not> delivers e) es \<Longrightarrow> quiet po (emit es po)"
  by (auto simp: quiet_def emit_def named_def)

lemma named_fields [simp]:
  "named (po\<lparr>po_links := a\<rparr>) = named po" "named (po\<lparr>po_mailbox := m\<rparr>) = named po" "named (po\<lparr>po_retry_timer := t\<rparr>) = named po"
  "named (po\<lparr>po_reap_timer := t\<rparr>) = named po" "named (po\<lparr>po_link_timer := t\<rparr>) = named po" "named (po\<lparr>po_keepalive_timer := t\<rparr>) = named po"
  "named (po\<lparr>po_keepalive_pending := k\<rparr>) = named po" "named (po\<lparr>po_authorized := w\<rparr>) = named po" "named (po\<lparr>po_verb_stats := v\<rparr>) = named po"
  "named (po\<lparr>po_dialers := ds\<rparr>) = named po" "named (emit es po) = named po"
  by (simp_all add: named_def emit_def)

lemma quiet_fields:
  "quiet (po\<lparr>po_links := a\<rparr>) po' \<longleftrightarrow> quiet po po'" "quiet po (po'\<lparr>po_links := a\<rparr>) \<longleftrightarrow> quiet po po'"
  "quiet (po\<lparr>po_mailbox := m\<rparr>) po' \<longleftrightarrow> quiet po po'" "quiet po (po'\<lparr>po_mailbox := m\<rparr>) \<longleftrightarrow> quiet po po'"
  "quiet po (po'\<lparr>po_dialers := ds\<rparr>) \<longleftrightarrow> quiet po po'" "quiet (po\<lparr>po_dialers := ds\<rparr>) po' \<longleftrightarrow> quiet po po'"
  "quiet po (po'\<lparr>po_retry_timer := t\<rparr>) \<longleftrightarrow> quiet po po'" "quiet (po\<lparr>po_retry_timer := t\<rparr>) po' \<longleftrightarrow> quiet po po'"
  "quiet po (po'\<lparr>po_reap_timer := t\<rparr>) \<longleftrightarrow> quiet po po'" "quiet (po\<lparr>po_reap_timer := t\<rparr>) po' \<longleftrightarrow> quiet po po'"
  "quiet po (po'\<lparr>po_link_timer := t\<rparr>) \<longleftrightarrow> quiet po po'" "quiet po (po'\<lparr>po_keepalive_timer := t\<rparr>) \<longleftrightarrow> quiet po po'"
  "quiet (po\<lparr>po_keepalive_timer := t\<rparr>) po' \<longleftrightarrow> quiet po po'"
  "quiet po (po'\<lparr>po_keepalive_pending := k\<rparr>) \<longleftrightarrow> quiet po po'" "quiet (po\<lparr>po_authorized := w\<rparr>) po' \<longleftrightarrow> quiet po po'"
  "quiet po (po'\<lparr>po_authorized := w\<rparr>) \<longleftrightarrow> quiet po po'" "quiet po (po'\<lparr>po_verb_stats := v\<rparr>) \<longleftrightarrow> quiet po po'"
  by (simp_all add: quiet_def)

lemma same_mail_fields:
  "same_mail (po\<lparr>po_links := a\<rparr>) po' \<longleftrightarrow> same_mail po po'" "same_mail po (po'\<lparr>po_links := a\<rparr>) \<longleftrightarrow> same_mail po po'"
  "same_mail po (po'\<lparr>po_peers := x\<rparr>) \<longleftrightarrow> same_mail po po'" "same_mail (po\<lparr>po_peers := x\<rparr>) po' \<longleftrightarrow> same_mail po po'"
  "same_mail po (po'\<lparr>po_dialers := ds\<rparr>) \<longleftrightarrow> same_mail po po'" "same_mail po (po'\<lparr>po_link_timer := t\<rparr>) \<longleftrightarrow> same_mail po po'" "same_mail po (po'\<lparr>po_keepalive_timer := t\<rparr>) \<longleftrightarrow> same_mail po po'"
  "same_mail (po\<lparr>po_keepalive_timer := t\<rparr>) po' \<longleftrightarrow> same_mail po po'"
  "same_mail po (po'\<lparr>po_keepalive_pending := k\<rparr>) \<longleftrightarrow> same_mail po po'" "same_mail (po\<lparr>po_authorized := w\<rparr>) po' \<longleftrightarrow> same_mail po po'"
  "same_mail po (po'\<lparr>po_authorized := w\<rparr>) \<longleftrightarrow> same_mail po po'" "same_mail po (po'\<lparr>po_verb_stats := v\<rparr>) \<longleftrightarrow> same_mail po po'"
  "same_mail po (emit es po') \<longleftrightarrow> same_mail po po'"
  by (simp_all add: same_mail_def emit_def)

text \<open>Both relations at once, for the handlers that leave the mailbox alone.\<close>

definition calm :: "Postman \<Rightarrow> Postman \<Rightarrow> bool" where
  "calm po po' \<longleftrightarrow> quiet po po' \<and> same_mail po po'"

interpretation calm: step_relation calm
  by unfold_locales (auto simp: calm_def intro: quiet.R_trans same_mail.R_trans)

lemma calm_emit: "list_all (\<lambda>e. \<not> delivers e) es \<Longrightarrow> calm po po' \<Longrightarrow> calm po (emit es po')"
  by (auto simp: calm_def same_mail_fields intro: quiet.R_trans quiet_emit)

lemma quiet_downs [simp]: "list_all (\<lambda>e. \<not> delivers e) (map PostLinkDown cs)"
  by (simp add: list_all_iff)

lemmas calm_fields = calm_def quiet_fields same_mail_fields

lemma calm_close_link: "calm po (close_link i po)"
  unfolding close_link_def by (auto simp: Let_def split: prod.split intro!: calm_emit) (simp add: calm_fields)

lemma calm_update_link: "calm po (update_link i f po)"
  by (auto simp: update_link_def calm_fields split: option.split)

lemma calm_send_on: "calm po (snd (send_on en i f now po))"
  unfolding send_on_def by (auto simp: Let_def split: option.split prod.split intro!: calm_emit) (simp_all add: calm_fields)

lemma calm_dialers: "calm po (po\<lparr>po_dialers := ds\<rparr>)"
  by (simp add: calm_fields)

lemma calm_dial_peer: "dial_peer en p po = Inr po' \<Longrightarrow> calm po po'"
  by (auto simp: dial_peer_def rbind_Inr_conv calm_dialers split: if_splits)

lemma calm_dial_peers: "dial_peers en ps po = Inr po' \<Longrightarrow> calm po po'"
  by (induction ps arbitrary: po) (auto simp: rbind_Inr_conv intro: calm.R_trans calm_dial_peer)

lemma set_alist_update_peers: "set (AList.update k v xs) \<subseteq> insert (k, v) (set xs)"
  by (induction xs) auto

lemma calm_set_peer: "(named po \<Longrightarrow> pe_identity p = who) \<Longrightarrow> calm po (set_peer who p po)"
  using set_alist_update_peers[of who p "po_peers po"]
  by (auto simp: set_peer_def calm_def quiet_def same_mail_def named_def)

lemma named_peer: "named po \<Longrightarrow> map_of (po_peers po) who = Some p \<Longrightarrow> pe_identity p = who"
  by (auto simp: named_def dest!: map_of_SomeD)

lemma calm_po_verb: "calm po (po_verb who v f po)"
  by (simp add: po_verb_def Let_def calm_fields)

lemma calm_dial_known: "dial_known en who po = Inr po' \<Longrightarrow> calm po po'"
  by (auto simp: dial_known_def split: option.splits dest: calm_dial_peer)

lemma calm_dial_all_known: "dial_all_known en ws po = Inr po' \<Longrightarrow> calm po po'"
  by (induction ws arbitrary: po) (auto simp: rbind_Inr_conv intro: calm.R_trans calm_dial_known)

lemma calm_link_died: "calm po (link_died i po)"
  by (auto simp: link_died_def named_peer split: option.split intro!: calm_set_peer)

lemma calm_on_link_down: "on_link_down en i po = Inr po' \<Longrightarrow> calm po po'"
  unfolding on_link_down_def Let_def
  by (auto split: option.splits intro: calm_link_died calm.R_trans[OF calm_link_died calm_dial_known])

lemma calm_links: "calm po (po\<lparr>po_links := tab\<rparr>)"
  by (simp add: calm_fields)

lemma calm_link_established: "link_established later i po = Inr po' \<Longrightarrow> calm po po'"
proof -
  assume e: "link_established later i po = Inr po'"
  show "calm po po'"
  proof (cases "map_of (po_links po) i")
    case (Some l)
    let ?po = "\<lambda>l. po\<lparr>po_links := AList.update i l (po_links po)\<rparr>"
    obtain l' where "po' = (case lk_identity l' of
        None \<Rightarrow> emit [PostReapUnbound (later + unauthenticated_link_lifetime (po_tunables (?po l'))) i] (?po l')
      | Some who \<Rightarrow>
          (case map_of (po_peers (?po l')) who of
             Some p \<Rightarrow> if i \<in> set (pe_links p) then ?po l' else set_peer who (p\<lparr>pe_links := pe_links p @ [i]\<rparr>) (?po l')
           | None \<Rightarrow> if who \<notin> po_authorized (?po l') then close_link i (?po l') else set_peer who ((peer_new who)\<lparr>pe_links := [i]\<rparr>) (?po l')))"
      using e unfolding link_established_def Some option.case Let_def rbind_Inr_conv sum.inject by blast
    then show ?thesis
      by (auto simp: named_peer peer_new_def split: option.split
          intro!: calm_emit calm_links calm.R_trans[OF calm_links calm_close_link] calm.R_trans[OF calm_links calm_set_peer])
  qed (use e in \<open>simp add: link_established_def\<close>)
qed

lemma calm_do_remove_peer: "calm po (do_remove_peer who po)"
  unfolding do_remove_peer_def
  by (auto split: option.split prod.split intro!: calm_emit) (auto simp: calm_def quiet_def same_mail_def named_def AList.delete_eq)

lemma calm_do_add_peer: "calm po (do_add_peer who eps po)"
proof -
  have "pe_identity (fst (pe_reconfigure eps p tab)) = pe_identity p" for p tab
    by (simp add: pe_reconfigure_def Let_def case_prod_beta)
  then have "named po \<Longrightarrow> pe_identity (fst (pe_reconfigure eps (case map_of (po_peers po) who of None \<Rightarrow> peer_new who | Some p \<Rightarrow> p) (po_links po))) = who"
    by (auto simp: named_peer peer_new_def split: option.split)
  then show ?thesis
    unfolding do_add_peer_def Let_def case_prod_beta by (auto intro!: calm_emit calm.R_trans[OF calm_links calm_set_peer])
qed

lemma calm_do_sync: "calm po (do_sync wanted authorized po)"
proof -
  have "calm po (po\<lparr>po_authorized := authorized\<rparr>)" by (simp add: calm_fields)
  then show ?thesis
    unfolding do_sync_def Let_def
    by (rule calm.R_trans) (auto intro!: calm.R_trans[OF calm.R_foldl calm.R_foldl] simp: calm_do_remove_peer calm_do_add_peer)
qed

lemma calm_notify: "calm po po' \<Longrightarrow> calm po (notify_peers_changed added removed po')"
  by (auto simp: notify_peers_changed_def intro!: calm_emit)

lemma calm_on_sync_peers: "on_sync_peers en wanted authorized po = Inr po' \<Longrightarrow> calm po po'"
  unfolding on_sync_peers_def Let_def
  using calm.R_trans[OF calm_do_sync calm_dial_all_known] by (auto simp: rbind_Inr_conv intro!: calm_notify)

lemma calm_on_add_peer: "on_add_peer en who eps po = Inr po' \<Longrightarrow> calm po po'"
  unfolding on_add_peer_def Let_def
  using calm.R_trans[OF calm_do_add_peer calm_dial_known] by (auto simp: rbind_Inr_conv intro!: calm_notify)

lemma calm_on_remove_peer: "calm po (on_remove_peer who po)"
  using calm_do_remove_peer by (auto simp: on_remove_peer_def Let_def notify_peers_changed_def intro!: calm_emit)

lemma calm_maintain_links: "maintain_links en po = Inr po1 \<Longrightarrow> calm po (schedule_link_maintenance later po1)"
  by (auto simp: maintain_links_def schedule_link_maintenance_def calm_fields dest!: calm_dial_peers)

lemma calm_worker_ends: "calm po (dial_worker_ends k a was po)"
  by (simp add: dial_worker_ends_def calm_dialers)

lemma calm_reap_unbound: "calm po (on_reap_unbound i po)"
  by (auto simp: on_reap_unbound_def calm_close_link split: option.split)

lemma calm_transport_ends: "calm po (transport_ends i po)"
  unfolding transport_ends_def Let_def by (auto split: option.split prod.split intro!: calm_emit calm_links)

lemma calm_sent: "send_on en i f now po = (r, po1) \<Longrightarrow> calm po po1"
  using calm_send_on[of po en i f now] by simp

lemma calm_ping_link: "ping_link en p i now po = Inr po' \<Longrightarrow> calm po po'"
  using calm_send_on[of po en i _ now] by (auto simp: ping_link_def rbind_Inr_conv Let_def case_prod_beta calm_fields)

lemma calm_ping_links: "ping_links en xs now po = Inr po' \<Longrightarrow> calm po po'"
proof (induction en xs now po rule: ping_links.induct)
  case (2 en p i rest now po)
  then show ?case
    by (auto simp: rbind_Inr_conv split: option.splits if_splits intro: calm.R_trans calm_ping_link)
qed auto

lemma calm_on_keepalive: "on_keepalive en now later po = Inr po' \<Longrightarrow> calm po po'"
  by (auto simp: on_keepalive_def rbind_Inr_conv schedule_keepalive_def dest!: calm_ping_links) (simp add: calm_fields)

lemma calm_credit: "calm po (credit frm r now po)"
  by (auto simp: credit_def calm_update_link split: option.split intro!: calm.R_foldl)

section \<open>Deliveries\<close>

lemma quiet_schedule: "quiet po (schedule_retry now po')  \<longleftrightarrow> quiet po po'" "quiet po (schedule_reap po') \<longleftrightarrow> quiet po po'"
  by (simp_all add: schedule_retry_def schedule_reap_def quiet_fields)

lemma quiet_do_post: "do_post en now later to verb body ttl aw reply_to mid po = Some po' \<Longrightarrow> quiet po po'"
  by (auto simp: do_post_def quiet_schedule quiet_fields)

lemma quiet_broadcast: "broadcast_to en now later ws verb body ttl po = Some po' \<Longrightarrow> quiet po po'"
  by (induction ws arbitrary: po) (auto simp: bind_eq_Some_conv intro: quiet.R_trans quiet_do_post)

lemma calm_quiet: "calm po po' \<Longrightarrow> quiet po po'"
  by (simp add: calm_def)

text \<open>What a decision does to the mailbox.\<close>

definition after_act :: "Decision \<Rightarrow> Transmit \<Rightarrow> int \<Rightarrow> Mailbox \<Rightarrow> Mailbox \<Rightarrow> bool" where
  "after_act d t now m m' \<longleftrightarrow>
     m' = snd (mb_expire (tm_prefix t) m) \<or> (\<exists>when. m' = mb_failed (tm_prefix t) when m) \<or>
     (\<exists>i again addr. d = Send i again \<and> m' = mb_sent (tm_prefix t) (tm_attempt t) addr now again m)"

lemma act_effect:
  assumes "act en d t now po = Inr po'"
  shows "quiet po po' \<and> po_reap_timer po' = po_reap_timer po \<and> after_act d t now (po_mailbox po) (po_mailbox po')"
proof (cases d)
  case (GiveUp why)
  have "quiet po (emit [OutExpired [e]] (po\<lparr>po_mailbox := m\<rparr>))" for e m
    using quiet.R_trans[OF _ quiet_emit, of po "po\<lparr>po_mailbox := m\<rparr>"] by (simp add: quiet_fields)
  then show ?thesis
    using assms GiveUp by (auto simp: act_def after_act_def emit_def quiet_fields split: prod.splits option.splits)
next
  case (Wait until why)
  then show ?thesis using assms by (auto simp: act_def after_act_def quiet_fields)
next
  case (Send i again)
  obtain mid where "with_attempt (tm_prefix t) (tm_attempt t) = Inr mid" using assms Send by (auto simp: act_def rbind_Inr_conv)
  moreover from this obtain f where "(let s = env_sign (ne_prims en) ((tm_envelope t)\<lparr>ev_mid := mid\<rparr>) (po_me po) now
      in se_seal (ne_prims en) (ne_boxes en) s (ne_nonce en s)) = Inr f" using assms Send by (auto simp: act_def rbind_Inr_conv Let_def)
  moreover obtain r po1 where s: "send_on en i f now po = (r, po1)" by fastforce
  ultimately have out: "(\<exists>addr g. po' = po_verb (tm_to t) (ev_verb (tm_envelope t)) g (po1\<lparr>po_mailbox := mb_sent (tm_prefix t) (tm_attempt t) addr now again (po_mailbox po1)\<rparr>)) \<or>
        (\<exists>when. po' = po1\<lparr>po_mailbox := mb_failed (tm_prefix t) when (po_mailbox po1)\<rparr>)"
    using assms Send by (cases "r = None") (auto simp: act_def Let_def)
  have "quiet po po1" "po_mailbox po1 = po_mailbox po" "po_reap_timer po1 = po_reap_timer po"
    using calm_sent[OF s] by (simp_all add: calm_def same_mail_def)
  then show ?thesis using out Send by (auto simp: after_act_def po_verb_def Let_def quiet_fields)
qed

lemma transmit_effect:
  assumes "transmit en now t po = Inr po'"
  shows "quiet po po' \<and> po_reap_timer po' = po_reap_timer po \<and>
    (\<exists>d. after_act d t now (po_mailbox po) (po_mailbox po') \<and> (\<forall>i again. d = Send i again \<longrightarrow> tm_attempt t < max_attempts (po_tunables po)))"
proof (cases "map_of (po_peers po) (tm_to t)")
  case None
  then have "after_act (GiveUp DEADLINE) t now (po_mailbox po) (po_mailbox po')" "quiet po po'" "po_reap_timer po' = po_reap_timer po"
    using assms by (auto simp: transmit_def after_act_def quiet_fields)
  then show ?thesis by blast
next
  case (Some p)
  then have "act en (plan_next (po_tunables po) (po_links po) p (tm_attempt t) now (mb_deadline (tm_prefix t) (po_mailbox po))) t now po = Inr po'"
    using assms by (simp add: transmit_def)
  from act_effect[OF this] show ?thesis using plan_sends_on_an_available_link by blast
qed

lemma quiet_transmit_all: "transmit_all en now ts po = Inr po' \<Longrightarrow> quiet po po' \<and> po_reap_timer po' = po_reap_timer po"
  by (induction ts arbitrary: po) (auto simp: rbind_Inr_conv dest!: transmit_effect intro: quiet.R_trans)

lemma quiet_on_retry_due: "on_retry_due en now later po = Inr po' \<Longrightarrow> quiet po po'"
  by (auto simp: on_retry_due_def rbind_Inr_conv quiet_schedule quiet_fields split: prod.splits dest!: quiet_transmit_all)

lemma quiet_on_reap_check: "quiet po (on_reap_check now po)"
proof -
  have "calm (po\<lparr>po_reap_timer := None, po_mailbox := m\<rparr>) (foldl (\<lambda>po' e. charge_expired now e po') (po\<lparr>po_reap_timer := None, po_mailbox := m\<rparr>) es)" for m es
    by (rule calm.R_foldl) (auto simp: charge_expired_def calm_update_link split: option.split)
  then have "quiet po (foldl (\<lambda>po' e. charge_expired now e po') (po\<lparr>po_reap_timer := None, po_mailbox := m\<rparr>) es)" for m es
    by (simp add: calm_def quiet_fields)
  then show ?thesis
    by (auto simp: on_reap_check_def Let_def quiet_schedule quiet_fields split: prod.split intro: quiet.R_trans[OF _ quiet_emit])
qed

lemma quiet_on_link_broken: "quiet po (on_link_broken a now later po)"
proof -
  have "calm po (foldl (\<lambda>po' i. update_link i (lk_on_failed now) po') po (links_at a po))"
    by (auto intro!: calm.R_foldl simp: calm_update_link)
  then show ?thesis by (simp add: on_link_broken_def Let_def quiet_schedule quiet_fields calm_def)
qed

text \<open>The delivery an envelope becomes.\<close>

definition delivery_of :: "SignedEnvelope \<Rightarrow> Delivered" where
  "delivery_of s = \<lparr>dl_frm = se_frm s, dl_mid = ev_mid (se_env s), dl_verb = ev_verb (se_env s), dl_body = ev_body (se_env s),
     dl_in_reply_to = (if ev_reply_to (se_env s) \<noteq> [] then Some (ev_reply_to (se_env s)) else None)\<rparr>"

lemma dispatch_delivers:
  assumes "dispatch_envelope en now later f i s po = Inr po'"
  shows "quiet po po' \<or> (\<exists>po1. quiet po po1 \<and> po' = emit [OutDelivered (delivery_of s)] po1)" "same_mail po po'"
proof -
  obtain po1 where b: "calm po po1" and
      r: "(let po2 = po_verb (se_frm s) (ev_verb (se_env s)) (\<lambda>vs. vs\<lparr>vs_recv := vs_recv vs + 1, vs_bytes_recv := vs_bytes_recv vs + int (length (frame_raw f))\<rparr>) po1 in
        if ev_verb (se_env s) = V_PING then reply_pong en (se_frm s) (ev_mid (se_env s)) i now po2
        else Inr (emit [OutDelivered (delivery_of s)] po2)) = Inr po'"
  proof -
    obtain po1 where po1: "(case map_of (po_links po) i of None \<Rightarrow> Inr po | Some l \<Rightarrow> if lk_identity l = None
        then rbind (lk_bind (se_frm s) l) (\<lambda>l'. link_established later i (po\<lparr>po_links := AList.update i l' (po_links po)\<rparr>)) else Inr po) = Inr po1"
      using assms unfolding dispatch_envelope_def by (auto simp only: rbind_Inr_conv)
    then have "calm po po1"
      by (auto simp: rbind_Inr_conv split: option.splits if_splits dest!: calm_link_established intro: calm.R_trans[OF calm_links])
    then show thesis using that assms unfolding dispatch_envelope_def po1 delivery_of_def rbind_simps by blast
  qed
  let ?po2 = "po_verb (se_frm s) (ev_verb (se_env s)) (\<lambda>vs. vs\<lparr>vs_recv := vs_recv vs + 1, vs_bytes_recv := vs_bytes_recv vs + int (length (frame_raw f))\<rparr>) po1"
  have c: "calm po ?po2" by (rule calm.R_trans[OF b calm_po_verb])
  have "calm ?po2 po'" if "reply_pong en (se_frm s) (ev_mid (se_env s)) i now ?po2 = Inr po'"
    using that by (auto simp: reply_pong_def rbind_Inr_conv Let_def intro: calm_send_on)
  then show "quiet po po' \<or> (\<exists>po1. quiet po po1 \<and> po' = emit [OutDelivered (delivery_of s)] po1)" "same_mail po po'"
    using c r calm.R_trans[OF c] by (auto simp: Let_def calm_def same_mail_fields split: if_splits)
qed

text \<open>An envelope that passes the checks of \<^verbatim>\<open>_do_deliver\<close>.\<close>

definition authentic :: "NetEnv \<Rightarrow> int \<Rightarrow> Postman \<Rightarrow> Frame \<Rightarrow> SignedEnvelope \<Rightarrow> bool" where
  "authentic en now po f s \<longleftrightarrow>
     unseal (ne_boxes en) f (po_me po) = Inr s \<and> ev_to (se_env s) = kp_public (ne_prims en) (po_me po) \<and>
     se_verify (ne_prims en) s \<and> \<bar>now - se_ts s\<bar> \<le> window (po_tunables po)"

definition expected_from :: "Postman \<Rightarrow> SignedEnvelope \<Rightarrow> bool" where
  "expected_from po s \<longleftrightarrow> se_frm s \<in> fst ` set (po_peers po) \<or> se_frm s \<in> po_authorized po \<or>
     (\<exists>p. map_of (po_mailbox po) (correlation_id (ev_reply_to (se_env s))) = Some p \<and> ml_to p = se_frm s)"

lemma deliver_cases:
  assumes "do_deliver en now later f i po = Inr po'"
  shows "calm po po' \<or> (\<exists>s po1. authentic en now po f s \<and> expected_from po s \<and> quiet po po1 \<and>
      po_mailbox po1 = snd (mb_arrived s now (po_mailbox po)) \<and> po_reap_timer po1 = po_reap_timer po \<and>
      dispatch_envelope en now later f i s po1 = Inr po')"
proof -
  let ?me = "kp_public (ne_prims en) (po_me po)"
  let ?read = "rbind (unseal (ne_boxes en) f (po_me po)) (\<lambda>s. rbind (se_accept (ne_prims en) s ?me now (window (po_tunables po)) None) (\<lambda>_. Inr s))"
  consider (drop) "calm po po'" | (pass) s where "addressed_to (ne_prims en) f ?me" "?read = Inr s"
    using assms calm_close_link by (cases ?read) (auto simp: do_deliver_def Let_def split: if_splits)
  then show ?thesis
  proof cases
    case (pass s)
    have auth: "authentic en now po f s"
      using pass(2) by (auto simp: authentic_def rbind_Inr_conv se_accept_def se_fresh_def split: if_splits)
    obtain r m where arr: "mb_arrived s now (po_mailbox po) = (r, m)" by fastforce
    show ?thesis
    proof (cases r)
      case (Some reply)
      have asked: "expected_from po s"
        using arr Some by (auto simp: mb_arrived_def expected_from_def Let_def split: if_splits option.splits)
      let ?po1 = "credit (se_frm s) reply now (po\<lparr>po_mailbox := m\<rparr>)"
      have "calm (po\<lparr>po_mailbox := m\<rparr>) ?po1" by (rule calm_credit)
      then have "quiet po ?po1" "po_mailbox ?po1 = m" "po_reap_timer ?po1 = po_reap_timer po"
        by (simp_all add: calm_def quiet_fields same_mail_def)
      moreover have "dispatch_envelope en now later f i s ?po1 = Inr po'"
        using assms pass arr Some by (simp add: do_deliver_def Let_def)
      ultimately show ?thesis using auth asked arr by auto
    next
      case None
      then have m: "m = po_mailbox po" using arr by (auto simp: mb_arrived_def Let_def split: if_splits option.splits)
      have "calm po po' \<or> (expected_from po s \<and> dispatch_envelope en now later f i s po = Inr po')"
      proof -
        have keep: "calm po (update_link j g (po\<lparr>po_keepalive_pending := k\<rparr>))" for j g k
          by (rule calm.R_trans[OF _ calm_update_link]) (simp add: calm_fields)
        show ?thesis using assms pass arr None keep
          by (auto simp: do_deliver_def Let_def expected_from_def split: option.splits if_splits)
      qed
      then show ?thesis using auth arr m by (metis quiet.R_refl snd_conv)
    qed
  qed auto
qed

lemma other_events_are_quiet:
  assumes "po_handle en now later ev po = Some (Inr po')" "\<And>f i. ev \<noteq> FrameIn f i"
  shows "quiet po po'"
  using assms
  by (cases ev)
    (auto simp: po_handle_def map_option_case rbind_Inr_conv split: option.splits dest!: calm_link_established calm_on_keepalive
      intro: quiet_do_post quiet_broadcast quiet_on_retry_due quiet_on_reap_check quiet_on_link_broken
        calm_quiet[OF calm_on_sync_peers] calm_quiet[OF calm_on_add_peer] calm_quiet[OF calm_on_remove_peer] calm_quiet[OF calm_on_link_down]
        calm_quiet[OF calm_maintain_links] calm_quiet[OF calm_reap_unbound] calm_quiet[OF calm_transport_ends] calm_quiet[OF calm_worker_ends]
        calm_quiet calm_quiet[OF calm.R_trans[OF calm_links]])

text \<open>
  C11: Whatever the postman passes on to the node is the content of a frame that just arrived, that only the node's key
  opens, addressed to the node, signed by the named sender and stamped within the window; and the sender is a
  peer, an authorised key, or the one a pending request with that identifier was sent to.
\<close>

theorem deliveries_are_authentic:
  assumes "po_handle en now later ev po = Some (Inr po')" "po_out po' = po_out po @ es" "OutDelivered d \<in> set es"
  shows "\<exists>f i s. ev = FrameIn f i \<and> authentic en now po f s \<and> expected_from po s \<and> d = delivery_of s"
proof (cases "\<exists>f i. ev = FrameIn f i")
  case False
  then have "quiet po po'" using other_events_are_quiet[OF assms(1)] by blast
  then show ?thesis using assms(2,3) by (auto simp: quiet_def list_all_iff)
next
  case True
  then obtain f i where ev: "ev = FrameIn f i" by blast
  then have "do_deliver en now later f i po = Inr po'" using assms(1) by (simp add: po_handle_def)
  from deliver_cases[OF this] show ?thesis
  proof
    assume "calm po po'"
    then show ?thesis using assms(2,3) by (auto simp: calm_def quiet_def list_all_iff)
  next
    assume "\<exists>s po1. authentic en now po f s \<and> expected_from po s \<and> quiet po po1 \<and>
      po_mailbox po1 = snd (mb_arrived s now (po_mailbox po)) \<and> po_reap_timer po1 = po_reap_timer po \<and> dispatch_envelope en now later f i s po1 = Inr po'"
    then obtain s po1 where s: "authentic en now po f s" "expected_from po s" "quiet po po1" "dispatch_envelope en now later f i s po1 = Inr po'" by blast
    obtain po2 where "quiet po1 po'  \<or> (quiet po1 po2 \<and> po' = emit [OutDelivered (delivery_of s)] po2)" using dispatch_delivers(1)[OF s(4)] by blast
    then have "d = delivery_of s"
      using quiet.R_trans[OF s(3)] assms(2,3) by (fastforce simp: quiet_def emit_def list_all_iff)
    then show ?thesis using s ev by blast
  qed
qed

section \<open>The mailbox in every reachable state\<close>

text \<open>The states of a postman; the world outside may answer differently at every step.\<close>

inductive po_reachable :: "seed \<Rightarrow> Tunables \<Rightarrow> Transports \<Rightarrow> Postman \<Rightarrow> bool" for me t tp where
  start: "po_reachable me t tp (postman_new me t tp)"
| started: "po_reachable me t tp po \<Longrightarrow> po_reachable me t tp (po_start en now po)"
| step: "po_reachable me t tp po \<Longrightarrow> po_handle en now later ev po = Some (Inr po') \<Longrightarrow> po_reachable me t tp po'"

lemma calm_po_start: "calm po (po_start en now po)"
  by (simp add: po_start_def schedule_keepalive_def schedule_link_maintenance_def calm_fields)

definition reap_ok :: "int option \<Rightarrow> Mailbox \<Rightarrow> bool" where
  "reap_ok timer m \<longleftrightarrow> (\<forall>pre p. map_of m pre = Some p \<longrightarrow> (\<exists>at'. timer = Some at' \<and> at' \<le> ml_deadline p))"

definition po_inv :: "Postman \<Rightarrow> bool" where
  "po_inv po \<longleftrightarrow> 0 \<le> max_attempts (po_tunables po) \<and> mb_ok (max_attempts (po_tunables po)) (po_mailbox po) \<and> reap_ok (po_reap_timer po) (po_mailbox po)"

lemma reap_ok_keeps: "reap_ok timer m \<Longrightarrow> keeps_deadlines m m' \<Longrightarrow> reap_ok timer m'"
  unfolding reap_ok_def keeps_deadlines_def by metis

lemma schedule_reap_ok: "reap_ok (po_reap_timer (schedule_reap po)) (po_mailbox po)"
proof -
  have "\<exists>at'. earliest (map ml_deadline (map snd (po_mailbox po))) = Some at' \<and> at' \<le> ml_deadline p" if "map_of (po_mailbox po) pre = Some p" for pre p
  proof -
    have "ml_deadline p \<in> set (map ml_deadline (map snd (po_mailbox po)))" using map_of_SomeD[OF that] by force
    then show ?thesis by (auto simp: earliest_def)
  qed
  then show ?thesis by (simp add: reap_ok_def schedule_reap_def)
qed

lemma po_inv_calm: "calm po po' \<Longrightarrow> po_inv po \<Longrightarrow> po_inv po'"
  by (simp add: po_inv_def calm_def same_mail_def)

lemma po_inv_quiet:
  assumes "quiet po po'" "po_inv po" "mb_ok (max_attempts (po_tunables po)) (po_mailbox po')" "po_reap_timer po' = po_reap_timer po"
    "keeps_deadlines (po_mailbox po) (po_mailbox po')"
  shows "po_inv po'"
  using assms reap_ok_keeps by (auto simp: po_inv_def quiet_def)

lemma po_inv_do_post:
  assumes "do_post en now later to verb body ttl aw reply_to mid po = Some po'" "po_inv po"
  shows "po_inv po'"
proof -
  obtain pre m where m: "mb_post (ne_draws en) \<lparr>ev_to = to, ev_verb = verb, ev_mid = mid @ [0], ev_body = body, ev_reply_to = reply_to\<rparr> now ttl aw (po_mailbox po) = Some (pre, m)"
      and po': "po' = schedule_reap (schedule_retry later (po\<lparr>po_mailbox := m\<rparr>))"
    using assms(1) by (auto simp: do_post_def)
  have "mb_ok (max_attempts (po_tunables po)) m" using mb_post_ok[OF m] assms(2) by (simp add: po_inv_def)
  then show ?thesis using schedule_reap_ok[of "schedule_retry later (po\<lparr>po_mailbox := m\<rparr>)"] assms(2) po'
    by (simp add: po_inv_def schedule_reap_def schedule_retry_def)
qed

lemma po_inv_broadcast: "broadcast_to en now later ws verb body ttl po = Some po' \<Longrightarrow> po_inv po \<Longrightarrow> po_inv po'"
  by (induction ws arbitrary: po) (auto simp: bind_eq_Some_conv intro: po_inv_do_post)

text \<open>The transmissions that are left are those of entries not yet touched.\<close>

definition queued :: "Transmit list \<Rightarrow> Mailbox \<Rightarrow> bool" where
  "queued ts m \<longleftrightarrow> distinct (map tm_prefix ts) \<and> (\<forall>t \<in> set ts. \<exists>p. map_of m (tm_prefix t) = Some p \<and> tm_attempt t = int (length (ml_attempts p)))"

lemma after_act_props:
  assumes "after_act d t now m m'" "\<forall>i again. d = Send i again \<longrightarrow> tm_attempt t < k" "mb_ok k m"
    "map_of m (tm_prefix t) = Some p" "tm_attempt t = int (length (ml_attempts p))"
  shows "mb_ok k m'" "keeps_deadlines m m'" "q \<noteq> tm_prefix t \<Longrightarrow> map_of m' q = map_of m q"
  using assms mb_sent_ok[OF assms(3,4,5)] mb_step_deadlines mb_step_others mb_failed_ok mb_expire_ok by (auto simp: after_act_def)

lemma transmit_all_props:
  "transmit_all en now ts po = Inr po' \<Longrightarrow> queued ts (po_mailbox po) \<Longrightarrow> mb_ok (max_attempts (po_tunables po)) (po_mailbox po) \<Longrightarrow>
     mb_ok (max_attempts (po_tunables po)) (po_mailbox po') \<and> keeps_deadlines (po_mailbox po) (po_mailbox po') \<and>
     (\<forall>q. q \<notin> tm_prefix ` set ts \<longrightarrow> map_of (po_mailbox po') q = map_of (po_mailbox po) q)"
proof (induction ts arbitrary: po)
  case (Cons t ts)
  obtain po1 where po1: "transmit en now t po = Inr po1" "transmit_all en now ts po1 = Inr po'" using Cons.prems(1) by (auto simp: rbind_Inr_conv)
  obtain p where p: "map_of (po_mailbox po) (tm_prefix t) = Some p" "tm_attempt t = int (length (ml_attempts p))" using Cons.prems(2) by (auto simp: queued_def)
  obtain d where d: "after_act d t now (po_mailbox po) (po_mailbox po1)" "\<forall>i again. d = Send i again \<longrightarrow> tm_attempt t < max_attempts (po_tunables po)"
    and same: "po_tunables po1 = po_tunables po"
    using transmit_effect[OF po1(1)] by (auto simp: quiet_def)
  note step = after_act_props[OF d Cons.prems(3) p]
  have "map_of (po_mailbox po1) (tm_prefix u) = map_of (po_mailbox po) (tm_prefix u)" if "u \<in> set ts" for u
    by (rule step(3)) (use Cons.prems(2) that in \<open>auto simp: queued_def image_iff\<close>)
  then have "queued ts (po_mailbox po1)" using Cons.prems(2) by (simp add: queued_def)
  from Cons.IH[OF po1(2) this] step same show ?case using keeps_deadlines_trans by (auto simp: image_iff)
qed auto

lemma queued_due:
  assumes "distinct (map fst m)"
  shows "queued (fst (mb_due now m)) (snd (mb_due now m))"
  unfolding queued_def using mb_due_distinct[OF assms] mb_due_transmits[OF assms] by (fastforce simp: mb_due_map_of)

lemma po_inv_on_retry_due:
  assumes "on_retry_due en now later po = Inr po'" "po_inv po"
  shows "po_inv po'" "\<And>q p. map_of (po_mailbox po) q = Some p \<Longrightarrow> \<not> is_due now p \<Longrightarrow> map_of (po_mailbox po') q = Some p"
proof -
  let ?ts = "fst (mb_due now (po_mailbox po))" and ?m = "snd (mb_due now (po_mailbox po))"
  let ?po0 = "po\<lparr>po_retry_timer := None, po_mailbox := ?m\<rparr>"
  obtain po1 where t: "transmit_all en now ?ts ?po0 = Inr po1" and po': "po' = schedule_retry later po1"
    using assms(1) by (auto simp: on_retry_due_def rbind_Inr_conv case_prod_beta)
  have ok: "mb_ok (max_attempts (po_tunables po)) (po_mailbox po)" and d: "distinct (map fst (po_mailbox po))"
    using assms(2) by (simp_all add: po_inv_def mb_ok_def)
  note props = transmit_all_props[OF t]
  have p: "mb_ok (max_attempts (po_tunables po)) (po_mailbox po1)" "keeps_deadlines (po_mailbox po) (po_mailbox po1)"
      "\<forall>q. q \<notin> tm_prefix ` set ?ts \<longrightarrow> map_of (po_mailbox po1) q = map_of ?m q"
    using props queued_due[OF d] mb_due_ok[OF ok] keeps_deadlines_trans[OF mb_step_deadlines(1)[of "po_mailbox po" now]] by auto
  have q: "quiet po po1" "po_reap_timer po1 = po_reap_timer po" using quiet_transmit_all[OF t] by (simp_all add: quiet_fields)
  show "po_inv po'" using po_inv_quiet[OF q(1) assms(2) p(1) q(2) p(2)] po' by (simp add: po_inv_def schedule_retry_def)
  fix k r assume k: "map_of (po_mailbox po) k = Some r" "\<not> is_due now r"
  then have "k \<notin> tm_prefix ` set ?ts" using mb_due_transmits[OF d] by fastforce
  then show "map_of (po_mailbox po') k = Some r" using p(3) k po' by (simp add: mb_due_map_of schedule_retry_def)
qed

lemma on_reap_check_mail:
  "po_mailbox (on_reap_check now po) = snd (mb_expired now (po_mailbox po)) \<and> po_tunables (on_reap_check now po) = po_tunables po \<and>
   reap_ok (po_reap_timer (on_reap_check now po)) (po_mailbox (on_reap_check now po))"
proof -
  have "calm (po\<lparr>po_reap_timer := None, po_mailbox := m\<rparr>) (foldl (\<lambda>po' e. charge_expired now e po') (po\<lparr>po_reap_timer := None, po_mailbox := m\<rparr>) es)" for m es
    by (rule calm.R_foldl) (auto simp: charge_expired_def calm_update_link split: option.split)
  then have *: "po_mailbox (foldl (\<lambda>po' e. charge_expired now e po') (po\<lparr>po_reap_timer := None, po_mailbox := m\<rparr>) es) = m"
      "po_tunables (foldl (\<lambda>po' e. charge_expired now e po') (po\<lparr>po_reap_timer := None, po_mailbox := m\<rparr>) es) = po_tunables po" for m es
    by (simp_all add: calm_def same_mail_def)
  have "\<exists>po1. on_reap_check now po = schedule_reap po1 \<and> po_mailbox po1 = snd (mb_expired now (po_mailbox po)) \<and> po_tunables po1 = po_tunables po"
    by (auto simp: on_reap_check_def Let_def case_prod_beta emit_def *)
  then obtain po1 where "on_reap_check now po = schedule_reap po1" "po_mailbox po1 = snd (mb_expired now (po_mailbox po))" "po_tunables po1 = po_tunables po"
    by blast
  then show ?thesis using schedule_reap_ok[of po1] by (simp add: schedule_reap_def)
qed

lemma po_inv_step:
  assumes "po_handle en now later ev po = Some (Inr po')" "po_inv po"
  shows "po_inv po'"
proof (cases ev)
  case (FrameIn f i)
  then have "do_deliver en now later f i po = Inr po'" using assms(1) by (simp add: po_handle_def)
  from deliver_cases[OF this] show ?thesis
  proof
    assume "\<exists>s po1. authentic en now po f s \<and> expected_from po s \<and> quiet po po1 \<and>
      po_mailbox po1 = snd (mb_arrived s now (po_mailbox po)) \<and> po_reap_timer po1 = po_reap_timer po \<and> dispatch_envelope en now later f i s po1 = Inr po'"
    then obtain s po1 where s: "quiet po po1" "po_mailbox po1 = snd (mb_arrived s now (po_mailbox po))" "po_reap_timer po1 = po_reap_timer po"
        "dispatch_envelope en now later f i s po1 = Inr po'" by blast
    have "po_inv po1"
      by (rule po_inv_quiet[OF s(1) assms(2) _ s(3)]) (use mb_arrived_ok mb_step_deadlines(5) assms(2) s(2) in \<open>auto simp: po_inv_def\<close>)
    then show ?thesis using dispatch_delivers(2)[OF s(4)] by (simp add: po_inv_def same_mail_def)
  qed (use assms(2) po_inv_calm in blast)
next
  case (LinkBroken a)
  have c: "calm po (foldl (\<lambda>po' i. update_link i (lk_on_failed now) po') po (links_at a po))"
    by (auto intro!: calm.R_foldl simp: calm_update_link)
  then have "po_mailbox po' = snd (mb_failed_on a (retry_at (po_tunables po) 0 now) (po_mailbox po))" "po_reap_timer po' = po_reap_timer po"
    using LinkBroken assms(1) by (auto simp: po_handle_def on_link_broken_def Let_def schedule_retry_def calm_def same_mail_def)
  moreover have "quiet po po'" using LinkBroken assms(1) quiet_on_link_broken by (auto simp: po_handle_def)
  ultimately show ?thesis
    by (intro po_inv_quiet[OF _ assms(2)]) (use mb_failed_on_ok mb_step_deadlines(6) assms(2) in \<open>auto simp: po_inv_def\<close>)
next
  case ReapCheck
  then have "po' = on_reap_check now po" using assms(1) by (simp add: po_handle_def)
  then show ?thesis using on_reap_check_mail[of now po] assms(2) mb_expired_ok by (auto simp: po_inv_def)
qed (use assms in \<open>auto simp: po_handle_def map_option_case rbind_Inr_conv split: option.splits dest!: calm_link_established calm_on_keepalive
      intro: po_inv_do_post po_inv_broadcast po_inv_on_retry_due(1) po_inv_calm[OF calm_on_sync_peers] po_inv_calm[OF calm_on_add_peer]
        po_inv_calm[OF calm_on_remove_peer] po_inv_calm[OF calm_on_link_down] po_inv_calm[OF calm_maintain_links] po_inv_calm[OF calm_reap_unbound]
        po_inv_calm[OF calm_transport_ends] po_inv_calm[OF calm_worker_ends] po_inv_calm po_inv_calm[OF calm.R_trans[OF calm_links]]\<close>)

lemma po_reachable_inv: "po_reachable me t tp po \<Longrightarrow> 0 \<le> max_attempts t \<Longrightarrow> po_inv po"
proof (induction rule: po_reachable.induct)
  case start
  then show ?case by (simp add: po_inv_def postman_new_def mb_ok_def reap_ok_def)
next
  case (started po en now)
  then show ?case using po_inv_calm[OF calm_po_start] by blast
next
  case (step po en now later ev po')
  then show ?case using po_inv_step by blast
qed

lemma po_handle_keeps:
  assumes "po_handle en now later ev po = Some (Inr po')"
  shows "po_tunables po' = po_tunables po \<and> (named po \<longrightarrow> named po')"
proof (cases "\<exists>f i. ev = FrameIn f i")
  case False
  then show ?thesis using other_events_are_quiet[OF assms] by (auto simp: quiet_def)
next
  case True
  then obtain f i where "do_deliver en now later f i po = Inr po'" using assms by (auto simp: po_handle_def)
  from deliver_cases[OF this] show ?thesis
  proof
    assume "\<exists>s po1. authentic en now po f s \<and> expected_from po s \<and> quiet po po1 \<and>
      po_mailbox po1 = snd (mb_arrived s now (po_mailbox po)) \<and> po_reap_timer po1 = po_reap_timer po \<and> dispatch_envelope en now later f i s po1 = Inr po'"
    then obtain s po1 where s: "quiet po po1" "dispatch_envelope en now later f i s po1 = Inr po'" by blast
    from dispatch_delivers[OF s(2)] show ?thesis using s(1) by (auto simp: quiet_def same_mail_def)
  qed (simp add: calm_def quiet_def)
qed

lemma po_reachable_keeps: "po_reachable me t tp po \<Longrightarrow> po_tunables po = t \<and> named po"
proof (induction rule: po_reachable.induct)
  case (started po en now)
  then show ?case using calm_po_start[of po en now] by (simp add: calm_def quiet_def)
next
  case (step po en now later ev po')
  then show ?case using po_handle_keeps by metis
qed (simp add: postman_new_def named_def)

lemma po_reachable_tunables: "po_reachable me t tp po \<Longrightarrow> po_tunables po = t"
  using po_reachable_keeps by blast

lemma on_reap_check_reports:
  assumes "distinct (map fst (po_mailbox po))" "map_of (po_mailbox po) pre = Some p" "ml_deadline p \<le> now"
  shows "\<exists>es. OutExpired es \<in> set (po_out (on_reap_check now po)) \<and> expiry_of pre p \<in> set es"
proof -
  have e: "expiry_of pre p \<in> set (fst (mb_expired now (po_mailbox po)))" using assms mb_expired_exact(1) by blast
  then have "fst (mb_expired now (po_mailbox po)) \<noteq> []" by auto
  then have "OutExpired (fst (mb_expired now (po_mailbox po))) \<in> set (po_out (on_reap_check now po))"
    by (simp add: on_reap_check_def Let_def case_prod_beta schedule_reap_def emit_def)
  then show ?thesis using e by blast
qed

text \<open>
  C13: In every state the postman reaches, a message in the mailbox has been sent at most \<^verbatim>\<open>max_attempts\<close> times and
  the reap timer is set for its deadline or earlier; and when the timer's handler runs, the message is reported as
  expired and leaves the mailbox if its deadline has passed, and stays as it is otherwise.
\<close>

theorem messages_expire:
  assumes "po_reachable me t tp po" "0 \<le> max_attempts t" "map_of (po_mailbox po) pre = Some p"
  shows "int (length (ml_attempts p)) \<le> max_attempts t \<and>
    (\<exists>at'. po_reap_timer po = Some at' \<and> at' \<le> ml_deadline p) \<and>
    (if ml_deadline p \<le> now
     then map_of (po_mailbox (on_reap_check now po)) pre = None \<and>
       (\<exists>es. OutExpired es \<in> set (po_out (on_reap_check now po)) \<and> expiry_of pre p \<in> set es)
     else map_of (po_mailbox (on_reap_check now po)) pre = Some p)"
proof -
  have inv: "po_inv po" "po_tunables po = t" using po_reachable_inv[OF assms(1,2)] po_reachable_tunables[OF assms(1)] by auto
  then have "pend_ok (max_attempts t) pre p" "distinct (map fst (po_mailbox po))" using assms(3) by (simp_all add: po_inv_def mb_ok_def)
  moreover have "\<exists>at'. po_reap_timer po = Some at' \<and> at' \<le> ml_deadline p" using inv assms(3) unfolding po_inv_def reap_ok_def by blast
  ultimately show ?thesis
    using mb_expired_exact(2)[of "po_mailbox po" now pre] on_reap_check_mail[of now po] on_reap_check_reports[OF _ assms(3)] assms(3)
    by (simp add: pend_ok_def)
qed

section \<open>What ends the loop\<close>

lemma env_decode_error:
  assumes "env_decode raw = Inl e"
  shows "e = EnvelopeError"
  using assms unfolding env_decode_def
  by (auto simp: rbind_Inl_conv rewrap_def verb_of_def split: sum.splits if_splits option.splits
      dest!: decode_seq_error accessor_errors(1,2) fixed_error)

lemma unseal_error:
  assumes "unseal x f kp = Inl e"
  shows "is_dude_error e"
  using assms unfolding unseal_def se_decode_def
  by (auto simp: rbind_Inl_conv rewrap_def open_sealed_raw_def split: sum.splits if_splits option.splits
      dest!: decode_seq_error accessor_errors(1,2) fixed_error env_decode_error)

lemma se_seal_error: "se_seal c x s rnd = Inl e \<longleftrightarrow> e = RuntimeError \<and> \<not> box_key_ok x (ev_to (se_env s))"
  by (auto simp: se_seal_def pk_seal_def rbind_Inl_conv)

subsection \<open>Frames never do\<close>

lemma link_established_total: "\<exists>po'. link_established later i po = Inr po'"
  by (auto simp: link_established_def lk_bind_def Let_def split: option.split prod.split)

lemma reply_pong_total: "box_key_ok (ne_boxes en) to \<Longrightarrow> \<exists>po'. reply_pong en to mid i now po = Inr po'"
  by (simp add: reply_pong_def mid_random_def attempt_byte_def Let_def se_seal_def pk_seal_def env_sign_def)

lemma dispatch_total:
  assumes "box_key_ok (ne_boxes en) (se_frm s)"
  shows "\<exists>po'. dispatch_envelope en now later f i s po = Inr po'"
proof -
  obtain po1 where "(case map_of (po_links po) i of None \<Rightarrow> Inr po | Some l \<Rightarrow> if lk_identity l = None
      then rbind (lk_bind (se_frm s) l) (\<lambda>l'. link_established later i (po\<lparr>po_links := AList.update i l' (po_links po)\<rparr>)) else Inr po) = Inr po1"
    using link_established_total by (fastforce simp: lk_bind_def split: option.split)
  then show ?thesis using reply_pong_total[OF assms] unfolding dispatch_envelope_def by (simp add: Let_def)
qed

text \<open>A sender whose signature verifies has a key that can be answered.\<close>

lemma deliver_total:
  assumes "points_convert (ne_prims en) (ne_boxes en)"
  shows "\<exists>po'. do_deliver en now later f i po = Inr po'"
proof -
  let ?me = "kp_public (ne_prims en) (po_me po)"
  let ?read = "rbind (unseal (ne_boxes en) f (po_me po)) (\<lambda>s. rbind (se_accept (ne_prims en) s ?me now (window (po_tunables po)) None) (\<lambda>_. Inr s))"
  have dude: "is_dude_error e" if "?read = Inl e" for e
    using that unseal_error by (auto simp: rbind_Inl_conv se_accept_def split: if_splits)
  have key: "box_key_ok (ne_boxes en) (se_frm s)" if "?read = Inr s" for s
    using that assms by (auto simp: rbind_Inr_conv se_accept_def se_verify_def pk_verify_def ed25519_verify_def points_convert_def split: if_splits)
  show ?thesis using dude dispatch_total[OF key]
    by (cases ?read) (auto simp: do_deliver_def Let_def split: option.split prod.split)
qed

subsection \<open>Sealing to a peer\<close>

lemma ping_links_raise:
  "ping_links en xs now po = Inl e \<Longrightarrow> e = RuntimeError \<and> (\<exists>(p, i) \<in> set xs. \<not> box_key_ok (ne_boxes en) (pe_identity p))"
proof (induction en xs now po rule: ping_links.induct)
  case (2 en p i rest now po)
  have "ping_link en p i now po = Inl e \<Longrightarrow> e = RuntimeError \<and> \<not> box_key_ok (ne_boxes en) (pe_identity p)"
    by (auto simp: ping_link_def mid_random_def attempt_byte_def Let_def case_prod_beta rbind_Inl_conv se_seal_error env_sign_def)
  then show ?case using 2 by (auto simp: rbind_Inl_conv split: option.splits if_splits)
qed simp

lemma keepalive_raises:
  assumes "on_keepalive en now later po = Inl e" "named po"
  shows "e = RuntimeError \<and> (\<exists>who \<in> fst ` set (po_peers po). \<not> box_key_ok (ne_boxes en) who)"
proof -
  have "ping_links en (concat (map (\<lambda>(_, p). map (Pair p) (pe_links p)) (po_peers po))) now (po\<lparr>po_keepalive_timer := None\<rparr>) = Inl e"
    using assms(1) by (auto simp: on_keepalive_def rbind_Inl_conv)
  from ping_links_raise[OF this] show ?thesis using assms(2) by (force simp: named_def)
qed

lemma send_on_peers [simp]: "po_peers (snd (send_on en i f now po)) = po_peers po"
  by (auto simp: send_on_def Let_def emit_def split: option.split prod.split)

lemma po_verb_peers [simp]: "po_peers (po_verb who v f po) = po_peers po"
  by (simp add: po_verb_def Let_def)

lemma act_peers: "act en d t now po = Inr po' \<Longrightarrow> po_peers po' = po_peers po"
  by (cases d) (auto simp: act_def emit_def rbind_Inr_conv case_prod_beta Let_def split: option.splits)

lemma transmit_peers: "transmit en now t po = Inr po' \<Longrightarrow> po_peers po' = po_peers po"
  by (auto simp: transmit_def split: option.splits dest: act_peers)

lemma transmit_raises:
  assumes "transmit en now t po = Inl e" "0 \<le> tm_attempt t" "max_attempts (po_tunables po) \<le> 256" "ev_to (tm_envelope t) = tm_to t"
  shows "e = RuntimeError \<and> tm_to t \<in> fst ` set (po_peers po) \<and> \<not> box_key_ok (ne_boxes en) (tm_to t)"
proof -
  obtain p where p: "map_of (po_peers po) (tm_to t) = Some p"
    using assms(1) by (auto simp: transmit_def split: option.splits)
  let ?d = "plan_next (po_tunables po) (po_links po) p (tm_attempt t) now (mb_deadline (tm_prefix t) (po_mailbox po))"
  have act: "act en ?d t now po = Inl e" using assms(1) p by (simp add: transmit_def)
  then obtain i again where d: "?d = Send i again" by (cases ?d) (auto simp: act_def split: prod.splits option.splits)
  have "tm_attempt t < 256" using plan_sends_on_an_available_link[OF d] assms(3) by simp
  then show ?thesis
    using act d assms(2,4) map_of_SomeD[OF p]
    by (auto simp: act_def with_attempt_def attempt_byte_def Let_def case_prod_beta rbind_Inl_conv se_seal_error env_sign_def intro: rev_image_eqI)
qed

lemma transmit_all_raises:
  "transmit_all en now ts po = Inl e \<Longrightarrow> \<forall>t \<in> set ts. 0 \<le> tm_attempt t \<and> ev_to (tm_envelope t) = tm_to t \<Longrightarrow> max_attempts (po_tunables po) \<le> 256 \<Longrightarrow>
     e = RuntimeError \<and> (\<exists>who \<in> fst ` set (po_peers po). \<not> box_key_ok (ne_boxes en) who)"
proof (induction ts arbitrary: po)
  case (Cons t ts)
  show ?case
  proof (cases "transmit en now t po")
    case (Inl e')
    then have "e' = e" "transmit en now t po = Inl e" using Cons.prems(1) by simp_all
    from transmit_raises[OF this(2)] Cons.prems(2,3) show ?thesis by (metis list.set_intros(1))
  next
    case (Inr po1)
    have "po_tunables po1 = po_tunables po" using transmit_effect[OF Inr] by (simp add: quiet_def)
    then show ?thesis using Cons.IH[of po1] Cons.prems Inr transmit_peers[OF Inr] by simp
  qed
qed simp

lemma retry_raises:
  assumes "on_retry_due en now later po = Inl e" "po_inv po" "max_attempts (po_tunables po) \<le> 256"
  shows "e = RuntimeError \<and> (\<exists>who \<in> fst ` set (po_peers po). \<not> box_key_ok (ne_boxes en) who)"
proof -
  let ?ts = "fst (mb_due now (po_mailbox po))" and ?po = "po\<lparr>po_retry_timer := None, po_mailbox := snd (mb_due now (po_mailbox po))\<rparr>"
  have d: "distinct (map fst (po_mailbox po))" and ok: "\<And>pre p. map_of (po_mailbox po) pre = Some p \<Longrightarrow> pend_ok (max_attempts (po_tunables po)) pre p"
    using assms(2) by (simp_all add: po_inv_def mb_ok_def)
  have "\<forall>u \<in> set ?ts. 0 \<le> tm_attempt u \<and> ev_to (tm_envelope u) = tm_to u"
    using mb_due_transmits[OF d] ok unfolding pend_ok_def by (metis of_nat_0_le_iff)
  moreover have "transmit_all en now ?ts ?po = Inl e" using assms(1) by (auto simp: on_retry_due_def case_prod_beta rbind_Inl_conv)
  ultimately show ?thesis using transmit_all_raises[of en now ?ts ?po e] assms(3) by simp
qed

subsection \<open>Dialling\<close>

text \<open>The worker of an address has ended unconnected, after 1023 failures or more were counted.\<close>

definition worn_out :: "TcpDialer \<Rightarrow> Address \<Rightarrow> bool" where
  "worn_out d a \<longleftrightarrow> map_of (di_workers d) a = Some (DialEnded False) \<and> (\<exists>n. map_of (di_failures d) a = Some n \<and> 1023 \<le> n)"

definition exhausted :: "TcpDialer list \<Rightarrow> bool" where
  "exhausted ds \<longleftrightarrow> (\<exists>d \<in> set ds. \<exists>a. worn_out d a)"

lemma dial_raises: "dial now a d = Inl e \<Longrightarrow> e = OverflowError \<and> (\<exists>b. worn_out d b)"
  by (auto simp: dial_raises_iff worn_out_def)

lemma dial_wears_no_further: "dial now a d = Inr (taken, d') \<Longrightarrow> worn_out d' b \<Longrightarrow> worn_out d b"
  by (auto simp: dial_def dial_worker_def worn_out_def rbind_Inr_conv Let_def update_conv' delete_conv'
      split: if_splits option.splits DialState.splits)

lemma dial_first_raises: "dial_first now a ds = Inl e \<Longrightarrow> e = OverflowError \<and> exhausted ds"
  by (induction ds) (auto simp: exhausted_def rbind_Inl_conv split: if_splits dest: dial_raises)

lemma dial_first_exhausts: "dial_first now a ds = Inr ds' \<Longrightarrow> exhausted ds' \<Longrightarrow> exhausted ds"
proof (induction ds arbitrary: ds')
  case (Cons d ds)
  then obtain taken d' where d: "dial now a d = Inr (taken, d')" by (auto simp: rbind_Inr_conv)
  obtain rest where "ds' = d' # rest" "rest = ds \<or> dial_first now a ds = Inr rest"
    using Cons.prems(1) d by (auto simp: rbind_Inr_conv split: if_splits)
  then have "(\<exists>b. worn_out d' b) \<or> exhausted ds" using Cons.IH Cons.prems(2) by (auto simp: exhausted_def)
  then show ?case using dial_wears_no_further[OF d] by (auto simp: exhausted_def)
qed simp

lemma dial_addresses_raise:
  "dial_addresses en as ds = Inl e \<Longrightarrow> e = OverflowError \<and> exhausted ds"
  "dial_addresses en as ds = Inr ds' \<Longrightarrow> exhausted ds' \<Longrightarrow> exhausted ds"
  by (induction as arbitrary: ds) (auto simp: rbind_Inl_conv rbind_Inr_conv dest: dial_first_raises dial_first_exhausts)

lemma dial_peer_raises:
  "dial_peer en p po = Inl e \<Longrightarrow> e = OverflowError \<and> exhausted (po_dialers po)"
  "dial_peer en p po = Inr po' \<Longrightarrow> exhausted (po_dialers po') \<Longrightarrow> exhausted (po_dialers po)"
  by (auto simp: dial_peer_def rbind_Inl_conv rbind_Inr_conv split: if_splits dest: dial_addresses_raise)

lemma dial_peers_raise: "dial_peers en ps po = Inl e \<Longrightarrow> e = OverflowError \<and> exhausted (po_dialers po)"
  by (induction ps arbitrary: po) (auto simp: rbind_Inl_conv dest: dial_peer_raises)

lemma dial_known_raises:
  "dial_known en who po = Inl e \<Longrightarrow> e = OverflowError \<and> exhausted (po_dialers po)"
  "dial_known en who po = Inr po' \<Longrightarrow> exhausted (po_dialers po') \<Longrightarrow> exhausted (po_dialers po)"
  by (auto simp: dial_known_def split: option.splits dest: dial_peer_raises)

lemma dial_all_known_raises: "dial_all_known en ws po = Inl e \<Longrightarrow> e = OverflowError \<and> exhausted (po_dialers po)"
  by (induction ws arbitrary: po) (auto simp: rbind_Inl_conv dest: dial_known_raises)

definition same_dialers :: "Postman \<Rightarrow> Postman \<Rightarrow> bool" where
  "same_dialers po po' \<longleftrightarrow> po_dialers po' = po_dialers po"

interpretation same_dialers: step_relation same_dialers
  by unfold_locales (simp_all add: same_dialers_def)

lemma same_dialers_remove: "same_dialers po (do_remove_peer who po)"
  by (auto simp: same_dialers_def do_remove_peer_def emit_def split: option.split prod.split)

lemma same_dialers_add: "same_dialers po (do_add_peer who eps po)"
  by (auto simp: same_dialers_def do_add_peer_def set_peer_def emit_def Let_def split: prod.split)

lemma same_dialers_sync: "po_dialers (do_sync wanted authorized po) = po_dialers po"
proof -
  have "same_dialers (po\<lparr>po_authorized := authorized\<rparr>) (do_sync wanted authorized po)"
    unfolding do_sync_def Let_def
    by (rule same_dialers.R_trans[OF same_dialers.R_foldl same_dialers.R_foldl]) (auto simp: same_dialers_remove same_dialers_add)
  then show ?thesis by (simp add: same_dialers_def)
qed

lemma same_dialers_died: "po_dialers (link_died i po) = po_dialers po"
  by (auto simp: link_died_def set_peer_def split: option.split)

fun dials :: "PostmanEvent \<Rightarrow> bool" where
  "dials (PSyncPeers wanted authorized) = True"
| "dials (AddPeer who eps) = True"
| "dials (LinkDown i) = True"
| "dials MaintainLinks = True"
| "dials _ = False"

lemma dialling_raises:
  assumes "po_handle en now later ev po = Some (Inl e)" "dials ev"
  shows "e = OverflowError \<and> exhausted (po_dialers po)"
  using assms same_dialers_add[of po]
  by (cases ev) (auto simp: po_handle_def on_sync_peers_def on_add_peer_def on_link_down_def maintain_links_def Let_def rbind_Inl_conv same_dialers_sync
      same_dialers_died same_dialers_def split: option.splits dest!: dial_all_known_raises dial_known_raises(1) dial_peers_raise)

text \<open>
  C12: Two things end the postman's loop, and no frame is one of them. If a handler of a reachable postman raises, then either it is the
  one that sends due messages or the keepalive, and a peer has been added whose key is no point that can be sealed to
  (\<^verbatim>\<open>RuntimeError\<close> of PyNaCl); or it is one that dials, and an address has failed for the 1024th time in a row, where the
  backoff does not fit a float (\<^verbatim>\<open>OverflowError\<close>). So whatever frames arrive and whatever the transports and the clock do, a
  postman with neither raises nothing, as long as the attempts of a message fit in the byte that numbers them.
\<close>

theorem what_ends_the_postman:
  assumes "po_reachable me t tp po" "0 \<le> max_attempts t" "max_attempts t \<le> 256" "points_convert (ne_prims en) (ne_boxes en)"
    "po_handle en now later ev po = Some (Inl e)"
  shows "(e = RuntimeError \<and> ev \<in> {RetryDue, KeepAlive} \<and> (\<exists>who \<in> fst ` set (po_peers po). \<not> box_key_ok (ne_boxes en) who)) \<or>
    (e = OverflowError \<and> dials ev \<and> exhausted (po_dialers po))"
proof (cases "dials ev")
  case True
  then show ?thesis using dialling_raises[OF assms(5)] by blast
next
  case False
  have inv: "po_inv po" "po_tunables po = t" "named po"
    using po_reachable_inv[OF assms(1,2)] po_reachable_keeps[OF assms(1)] by simp_all
  show ?thesis
  proof (cases ev)
    case (FrameIn f i)
    then show ?thesis using assms(5) deliver_total[OF assms(4), of now later f i po] by (auto simp: po_handle_def)
  next
    case (LinkUp i l)
    then show ?thesis
      using assms(5) link_established_total[of later i "po\<lparr>po_links := AList.update i l (po_links po)\<rparr>"] by (auto simp: po_handle_def)
  next
    case RetryDue
    then show ?thesis using assms(5) retry_raises[of en now later po e] inv assms(3) by (auto simp: po_handle_def)
  next
    case KeepAlive
    then show ?thesis using assms(5) keepalive_raises[of en now later po e] inv by (auto simp: po_handle_def)
  qed (use False assms(5) in \<open>auto simp: po_handle_def\<close>)
qed

section \<open>A request on a dead link\<close>

lemma broadcast_keeps: "broadcast_to en now later ws verb body ttl po = Some po' \<Longrightarrow> map_of (po_mailbox po) pre = Some p \<Longrightarrow> map_of (po_mailbox po') pre = Some p"
proof (induction ws arbitrary: po)
  case (Cons w ws)
  then obtain po1 where "do_post en now later w verb body ttl False [] (ne_peer_mid en w) po = Some po1" "broadcast_to en now later ws verb body ttl po1 = Some po'"
    by (auto simp: bind_eq_Some_conv)
  then show ?case using Cons by (auto simp: do_post_def schedule_reap_def schedule_retry_def dest!: mb_post_keeps)
qed simp

lemma calm_keeps: "calm po po' \<Longrightarrow> map_of (po_mailbox po') pre = map_of (po_mailbox po) pre"
  by (simp add: calm_def same_mail_def)

text \<open>
  C40: A request that was sent and awaits its answer is not sent again. Except for \<^verbatim>\<open>_LinkBroken\<close>, which nothing in the
  program posts, every event leaves the entry as it is, in flight, or removes it because a frame arrived or its deadline
  passed; the end of the link it was sent on and the rise of another one change nothing.
\<close>

theorem requests_in_flight_are_not_resent:
  assumes "po_reachable me t tp po" "0 \<le> max_attempts t" "map_of (po_mailbox po) pre = Some p" "ml_in_flight p"
    "po_handle en now later ev po = Some (Inr po')" "\<forall>a. ev \<noteq> LinkBroken a"
  shows "map_of (po_mailbox po') pre = Some p \<or> (map_of (po_mailbox po') pre = None \<and> (ev = ReapCheck \<or> (\<exists>f i. ev = FrameIn f i)))"
proof -
  have inv: "po_inv po" using po_reachable_inv[OF assms(1,2)] .
  show ?thesis
  proof (cases ev)
    case (FrameIn f i)
    then have "do_deliver en now later f i po = Inr po'" using assms(5) by (simp add: po_handle_def)
    from deliver_cases[OF this] show ?thesis
    proof
      assume "\<exists>s po1. authentic en now po f s \<and> expected_from po s \<and> quiet po po1 \<and>
        po_mailbox po1 = snd (mb_arrived s now (po_mailbox po)) \<and> po_reap_timer po1 = po_reap_timer po \<and> dispatch_envelope en now later f i s po1 = Inr po'"
      then obtain s where "po_mailbox po' = snd (mb_arrived s now (po_mailbox po))" using dispatch_delivers(2) by (auto simp: same_mail_def)
      then show ?thesis using assms(3) FrameIn by (auto simp: mb_arrived_def Let_def delete_conv' split: option.split)
    qed (use assms(3) calm_keeps in fastforce)
  next
    case ReapCheck
    then have "po' = on_reap_check now po" using assms(5) by (simp add: po_handle_def)
    then show ?thesis using on_reap_check_mail[of now po] mb_expired_exact(2)[of "po_mailbox po" now pre] inv assms(3) ReapCheck
      by (auto simp: po_inv_def mb_ok_def)
  next
    case RetryDue
    then show ?thesis using po_inv_on_retry_due(2)[OF _ inv assms(3)] assms(4,5) by (auto simp: po_handle_def is_due_def)
  next
    case (PostSend to verb body ttl aw reply_to mid)
    then show ?thesis using assms(3,5)
      by (auto simp: po_handle_def do_post_def schedule_reap_def schedule_retry_def dest!: mb_post_keeps)
  next
    case (PBroadcast verb body ttl)
    then show ?thesis using broadcast_keeps assms(3,5) by (auto simp: po_handle_def)
  next
    case (LinkUp i l)
    then have "link_established later i (po\<lparr>po_links := AList.update i l (po_links po)\<rparr>) = Inr po'" using assms(5) by (simp add: po_handle_def)
    from calm_keeps[OF calm_link_established[OF this], of pre] show ?thesis using assms(3) by simp
  qed (use assms(3,5,6) in \<open>auto simp: po_handle_def rbind_Inr_conv calm_keeps[OF calm_on_remove_peer] calm_keeps[OF calm_reap_unbound] calm_keeps[OF calm_transport_ends]
        calm_keeps[OF calm_worker_ends] dest!: calm_on_sync_peers calm_on_add_peer calm_on_link_down calm_maintain_links[where later = later]
        calm_on_keepalive dest: calm_keeps[where pre = pre]\<close>)
qed

section \<open>A postman at work\<close>

definition sample_net :: NetEnv where
  "sample_net = \<lparr>ne_prims = sample [], ne_boxes = sample_boxes, ne_takes = (\<lambda>i f. True), ne_nonce = (\<lambda>s. []), ne_link_mid = (\<lambda>i. replicate 8 3),
     ne_peer_mid = (\<lambda>w. replicate 8 4), ne_draws = [], ne_keepalive_interval = 5, ne_monotonic = (\<lambda>a. 0)\<rparr>"

abbreviation both :: Transports where "both \<equiv> \<lparr>tp_tcp = True, tp_onion = True\<rparr>"

abbreviation remote :: public_key where "remote \<equiv> kp_public (sample []) [1]"

definition remote_address :: Address where "remote_address = \<lparr>ad_scheme = TCP, ad_value = ascii ''h:1''\<rparr>"

abbreviation request_mid :: bytes where "request_mid \<equiv> [7, 7, 7, 7, 7, 7, 7, 0]"

abbreviation request_event :: PostmanEvent where "request_event \<equiv> PostSend remote V_HEIGHT [] 1000 True [] request_mid"

definition request_entry :: MailPending where
  "request_entry = \<lparr>ml_envelope = Some \<lparr>ev_to = remote, ev_verb = V_HEIGHT, ev_mid = request_mid @ [0], ev_body = [], ev_reply_to = []\<rparr>, ml_to = remote,
     ml_prefix = [7, 7, 7, 7, 7, 7, 7], ml_deadline = 1000, ml_next_at = 0, ml_attempts = [], ml_in_flight = False, ml_awaiting_reply = True\<rparr>"

definition posted :: "Postman \<Rightarrow> Postman" where
  "posted po = schedule_reap (schedule_retry 0 (po\<lparr>po_mailbox := [([7, 7, 7, 7, 7, 7, 7], request_entry)]\<rparr>))"

lemma request_posted: "po_mailbox po = [] \<Longrightarrow> po_handle sample_net 0 0 request_event po = Some (Inr (posted po))"
  by (simp add: po_handle_def do_post_def mb_post_def fresh_prefix_def correlation_id_def MID_PREFIX_SIZE_def posted_def request_entry_def)

lemma DEFAULT_attempts: "max_attempts DEFAULT = 8"
  by (simp add: DEFAULT_def)

theorem messages_expire_witness:
  "\<exists>po. po_reachable [2] DEFAULT both po \<and> map_of (po_mailbox po) [7, 7, 7, 7, 7, 7, 7] = Some request_entry \<and>
     map_of (po_mailbox (on_reap_check 1000 po)) [7, 7, 7, 7, 7, 7, 7] = None \<and>
     (\<exists>es. OutExpired es \<in> set (po_out (on_reap_check 1000 po)) \<and> expiry_of [7, 7, 7, 7, 7, 7, 7] request_entry \<in> set es)"
proof -
  let ?po = "posted (postman_new [2] DEFAULT both)"
  have r: "po_reachable [2] DEFAULT both ?po"
    by (rule po_reachable.step[OF po_reachable.start request_posted]) (simp add: postman_new_def)
  have m: "map_of (po_mailbox ?po) [7, 7, 7, 7, 7, 7, 7] = Some request_entry" by (simp add: posted_def schedule_reap_def schedule_retry_def)
  from messages_expire[OF r _ m, of 1000] r m show ?thesis by (auto simp: DEFAULT_attempts request_entry_def)
qed

definition inbound :: Link where "inbound = link_new remote_address (Some remote) INBOUND"

definition linked_postman :: Postman where
  "linked_postman = (postman_new [2] DEFAULT both)\<lparr>po_peers := [(remote, (peer_new remote)\<lparr>pe_links := [0]\<rparr>)], po_links := [(0, inbound)], po_out := [PeersChanged {remote} {}]\<rparr>"

lemma linked_reachable: "po_reachable [2] DEFAULT both linked_postman"
proof -
  let ?po = "(postman_new [2] DEFAULT both)\<lparr>po_peers := [(remote, peer_new remote)], po_out := [PeersChanged {remote} {}]\<rparr>"
  have "po_handle sample_net 0 0 (AddPeer remote []) (postman_new [2] DEFAULT both) = Some (Inr ?po)"
    by (simp add: po_handle_def on_add_peer_def do_add_peer_def postman_new_def pe_reconfigure_def pe_wanted_def peer_new_def set_peer_def
        dial_known_def dial_peer_def notify_peers_changed_def emit_def)
  moreover have "po_handle sample_net 0 0 (LinkUp 0 inbound) ?po = Some (Inr linked_postman)"
    by (simp add: po_handle_def link_established_def inbound_def link_new_def linked_postman_def postman_new_def peer_new_def set_peer_def)
  ultimately show ?thesis using po_reachable.step[OF po_reachable.step[OF po_reachable.start]] by blast
qed

lemma sample_key_converts: "box_key_ok sample_boxes (kp_public (sample []) k)"
  using sample_boxes_correct[of "[]"] by (simp add: boxes_correct_def)

lemma request_in_flight:
  "\<exists>po. po_handle sample_net 0 0 RetryDue (posted linked_postman) = Some (Inr po) \<and> po_dialers po = po_dialers linked_postman \<and>
     map_of (po_mailbox po) [7, 7, 7, 7, 7, 7, 7] = Some (request_entry\<lparr>ml_in_flight := True, ml_attempts := [(0, \<lparr>at_address = remote_address, at_sent_at = 0\<rparr>)]\<rparr>)"
  by (simp add: po_handle_def on_retry_due_def mb_due_def posted_def schedule_reap_def schedule_retry_def request_entry_def is_due_def linked_postman_def
      postman_new_def transmit_def plan_next_def mb_deadline_def pe_usable_def link_available_def lk_available_def inbound_def link_new_def
      DEFAULT_attempts act_def with_attempt_def attempt_byte_def Let_def send_on_def lk_send_def sample_net_def emit_def po_verb_def mb_sent_def
      correlation_id_def MID_PREFIX_SIZE_def se_seal_def pk_seal_def sample_key_converts env_sign_def)

theorem requests_in_flight_are_not_resent_witness:
  "\<exists>po po' p. po_reachable [2] DEFAULT both po \<and> map_of (po_mailbox po) [7, 7, 7, 7, 7, 7, 7] = Some p \<and> ml_in_flight p \<and>
     po_handle sample_net 1 1 (LinkDown 0) po = Some (Inr po') \<and> map_of (po_mailbox po') [7, 7, 7, 7, 7, 7, 7] = Some p"
proof -
  obtain po where po: "po_handle sample_net 0 0 RetryDue (posted linked_postman) = Some (Inr po)"
      and dialers: "po_dialers po = po_dialers linked_postman" and m:
    "map_of (po_mailbox po) [7, 7, 7, 7, 7, 7, 7] = Some (request_entry\<lparr>ml_in_flight := True, ml_attempts := [(0, \<lparr>at_address = remote_address, at_sent_at = 0\<rparr>)]\<rparr>)"
    using request_in_flight by blast
  have "po_reachable [2] DEFAULT both (posted linked_postman)"
    by (rule po_reachable.step[OF linked_reachable request_posted]) (simp add: linked_postman_def postman_new_def)
  then have r: "po_reachable [2] DEFAULT both po" using po by (rule po_reachable.step)
  have "\<not> exhausted (po_dialers po)"
    by (simp add: dialers linked_postman_def postman_new_def exhausted_def worn_out_def dialer_new_def)
  then obtain po' where h: "po_handle sample_net 1 1 (LinkDown 0) po = Some (Inr po')"
    using dialling_raises[of sample_net 1 1 "LinkDown 0" po] by (cases "on_link_down sample_net 0 po") (auto simp: po_handle_def)
  from requests_in_flight_are_not_resent[OF r _ m _ h] h r m show ?thesis by (fastforce simp: DEFAULT_attempts)
qed

theorem deliveries_are_authentic_witness:
  "\<exists>s po'. po_handle sample_net 5 5 (FrameIn sample_frame 0) (linked_postman\<lparr>po_out := []\<rparr>) = Some (Inr po') \<and> po_out po' = [OutDelivered (delivery_of s)] \<and>
     authentic sample_net 5 (linked_postman\<lparr>po_out := []\<rparr>) sample_frame s \<and> se_frm s = remote"
proof -
  let ?s = "env_sign (sample []) sample_env [1] 3" and ?po = "linked_postman\<lparr>po_out := []\<rparr>"
  have me: "po_me ?po = [2]" by (simp add: linked_postman_def postman_new_def)
  have u: "unseal sample_boxes sample_frame [2] = Inr ?s"
    and a: "addressed_to (sample []) sample_frame (kp_public (sample []) [2])"
    using envelope_delivery_witness frame_wire.dec_enc[OF sample_frame_ok] by simp_all
  have w: "2 \<le> window DEFAULT" by code_simp
  have acc: "se_accept (sample []) ?s (kp_public (sample []) [2]) 5 (window DEFAULT) None = Inr ()"
    using w by (simp add: se_accept_def se_fresh_def se_verify_def se_body_def env_sign_def sample_env_def sample_sign_correct)
  have arr: "mb_arrived ?s 5 m = (None, m)" for m
    by (simp add: mb_arrived_def env_sign_def sample_env_def MID_SIZE_def)
  have sel: "ne_prims sample_net = sample []" "ne_boxes sample_net = sample_boxes" "po_tunables ?po = DEFAULT" "se_frm ?s \<in> fst ` set (po_peers ?po)"
      "ev_reply_to (se_env ?s) = []"
    by (simp_all add: sample_net_def linked_postman_def postman_new_def env_sign_def sample_env_def)
  have "do_deliver sample_net 5 5 sample_frame 0 ?po = dispatch_envelope sample_net 5 5 sample_frame 0 ?s ?po"
    unfolding do_deliver_def Let_def me sel u rbind_simps acc using a sel(4) by (simp add: arr sel(5))
  moreover obtain po' where po': "dispatch_envelope sample_net 5 5 sample_frame 0 ?s ?po = Inr po'" "po_out po' = [OutDelivered (delivery_of ?s)]"
    by (simp add: dispatch_envelope_def linked_postman_def inbound_def link_new_def postman_new_def po_verb_def Let_def emit_def delivery_of_def)
      (simp add: env_sign_def sample_env_def emit_def)
  ultimately have h: "po_handle sample_net 5 5 (FrameIn sample_frame 0) ?po = Some (Inr po')" by (simp add: po_handle_def)
  from deliveries_are_authentic[OF h, of "[OutDelivered (delivery_of ?s)]" "delivery_of ?s"] po'(2) obtain s where
      s: "authentic sample_net 5 ?po sample_frame s" "delivery_of ?s = delivery_of s" by auto
  moreover have "se_frm s = remote" using s(2) by (simp add: delivery_of_def env_sign_def)
  ultimately show ?thesis using h po'(2) by auto
qed

text \<open>A world in which one key only is a point, and a peer with another.\<close>

definition strict_net :: NetEnv where
  "strict_net = sample_net\<lparr>ne_prims := (sample [])\<lparr>ed25519_is_valid_point := (\<lambda>pk. pk = remote)\<rparr>,
     ne_boxes := sample_boxes\<lparr>box_key_ok := (\<lambda>pk. pk = remote)\<rparr>\<rparr>"

abbreviation stranger :: public_key where "stranger \<equiv> replicate 32 9"

definition stranger_postman :: Postman where
  "stranger_postman = (postman_new [2] DEFAULT both)\<lparr>po_peers := [(stranger, (peer_new stranger)\<lparr>pe_links := [0]\<rparr>)],
     po_links := [(0, link_new remote_address (Some stranger) INBOUND)], po_out := [PeersChanged {stranger} {}]\<rparr>"

lemma stranger_reachable: "po_reachable [2] DEFAULT both stranger_postman"
proof -
  let ?po = "(postman_new [2] DEFAULT both)\<lparr>po_peers := [(stranger, peer_new stranger)], po_out := [PeersChanged {stranger} {}]\<rparr>"
  have "po_handle strict_net 0 0 (AddPeer stranger []) (postman_new [2] DEFAULT both) = Some (Inr ?po)"
    by (simp add: po_handle_def on_add_peer_def do_add_peer_def postman_new_def pe_reconfigure_def pe_wanted_def peer_new_def set_peer_def
        dial_known_def dial_peer_def notify_peers_changed_def emit_def)
  moreover have "po_handle strict_net 0 0 (LinkUp 0 (link_new remote_address (Some stranger) INBOUND)) ?po = Some (Inr stranger_postman)"
    by (simp add: po_handle_def link_established_def link_new_def stranger_postman_def postman_new_def peer_new_def set_peer_def)
  ultimately show ?thesis using po_reachable.step[OF po_reachable.step[OF po_reachable.start]] by blast
qed

theorem what_ends_the_postman_witness:
  "po_reachable [2] DEFAULT both stranger_postman \<and> points_convert (ne_prims strict_net) (ne_boxes strict_net) \<and>
   po_handle strict_net 1000000 1000000 KeepAlive stranger_postman = Some (Inl RuntimeError) \<and>
   (\<exists>who \<in> fst ` set (po_peers stranger_postman). \<not> box_key_ok (ne_boxes strict_net) who)"
proof -
  have other: "stranger \<noteq> remote" by (simp add: kp_public_def sample_def) code_simp
  have old: "0 < 1000000 - keepalive_threshold DEFAULT" by code_simp
  have h: "po_handle strict_net 1000000 1000000 KeepAlive stranger_postman = Some (Inl RuntimeError)"
    using other old
    by (simp add: po_handle_def on_keepalive_def stranger_postman_def postman_new_def peer_new_def link_new_def lk_available_def ping_link_def
        mid_random_def attempt_byte_def Let_def se_seal_def pk_seal_def env_sign_def strict_net_def)
  have c: "points_convert (ne_prims strict_net) (ne_boxes strict_net)" by (simp add: points_convert_def strict_net_def)
  from what_ends_the_postman[OF stranger_reachable _ _ c h] have "\<exists>who \<in> fst ` set (po_peers stranger_postman). \<not> box_key_ok (ne_boxes strict_net) who"
    by (auto simp: DEFAULT_attempts)
  then show ?thesis using stranger_reachable c h by blast
qed

end
