(* ===== verification/Event_Loop.thy ===== *)
theory Event_Loop
  imports Dude_Prelude
begin

text \<open>
  \<^verbatim>\<open>dude/core/event_loop.py\<close>: a queue of events ordered by time and by a sequence number, from which one
  thread takes the events that are due. \<^verbatim>\<open>heapq\<close> keeps the least entry first; here the whole heap is kept
  in order. An entry object is known by its sequence number, which is unique as long as two threads do not schedule at
  the same moment (\<^verbatim>\<open>schedule\<close> reads the counter before it takes the lock). Waiting on the condition is
  a result that says until when. The kind of an event is its Python type.
\<close>

section \<open>State\<close>

record 'e Scheduled =
  sd_at :: int
  sd_seq :: nat
  sd_event :: 'e
  sd_cancelled :: bool
  sd_timed :: bool \<comment> \<open>whether it has a \<^verbatim>\<open>_requeue\<close>\<close>

record ('e, 'k, 'h) EventLoop =
  el_heap :: "'e Scheduled list"
  el_seq :: nat
  el_handlers :: "('k \<times> 'h) list"
  el_stopping :: bool

definition sd_key :: "'e Scheduled \<Rightarrow> int \<times> nat" where
  "sd_key s = (sd_at s, sd_seq s)"

definition loop_new :: "('e, 'k, 'h) EventLoop" where
  "loop_new = \<lparr>el_heap = [], el_seq = 0, el_handlers = [], el_stopping = False\<rparr>"

definition el_register :: "'k \<Rightarrow> 'h \<Rightarrow> ('e, 'k, 'h) EventLoop \<Rightarrow> ('e, 'k, 'h) EventLoop res" where
  "el_register k h el = (if k \<in> fst ` set (el_handlers el) then Inl TypeError else Inr (el\<lparr>el_handlers := (k, h) # el_handlers el\<rparr>))"

definition el_push :: "'e Scheduled \<Rightarrow> ('e, 'k, 'h) EventLoop \<Rightarrow> ('e, 'k, 'h) EventLoop" where
  "el_push s el = el\<lparr>el_heap := insort_key sd_key s (el_heap el), el_seq := el_seq el + 1\<rparr>"

definition el_post :: "'e \<Rightarrow> ('e, 'k, 'h) EventLoop \<Rightarrow> ('e, 'k, 'h) EventLoop" where
  "el_post e el = el_push \<lparr>sd_at = 0, sd_seq = el_seq el, sd_event = e, sd_cancelled = False, sd_timed = False\<rparr> el"

definition el_schedule :: "int \<Rightarrow> 'e \<Rightarrow> ('e, 'k, 'h) EventLoop \<Rightarrow> ('e, 'k, 'h) EventLoop" where
  "el_schedule when e el = el_push \<lparr>sd_at = when, sd_seq = el_seq el, sd_event = e, sd_cancelled = False, sd_timed = True\<rparr> el"

definition el_cancel :: "nat \<Rightarrow> ('e, 'k, 'h) EventLoop \<Rightarrow> ('e, 'k, 'h) EventLoop" where
  "el_cancel n el = el\<lparr>el_heap := map (\<lambda>s. if sd_seq s = n then s\<lparr>sd_cancelled := True\<rparr> else s) (el_heap el)\<rparr>"

text \<open>\<^verbatim>\<open>reschedule\<close> of an entry the caller holds, which may have run already.\<close>

definition el_reschedule :: "int \<Rightarrow> 'e Scheduled \<Rightarrow> ('e, 'k, 'h) EventLoop \<Rightarrow> ('e, 'k, 'h) EventLoop res" where
  "el_reschedule when s el =
     (let el' = el_cancel (sd_seq s) el in if sd_timed s then Inr (el_schedule when (sd_event s) el') else Inl RuntimeError)"

definition el_pending :: "('e, 'k, 'h) EventLoop \<Rightarrow> nat" where
  "el_pending el = length (filter (\<lambda>s. \<not> sd_cancelled s) (el_heap el))"

definition el_stop :: "('e, 'k, 'h) EventLoop \<Rightarrow> ('e, 'k, 'h) EventLoop" where
  "el_stop el = el\<lparr>el_stopping := True\<rparr>"

section \<open>Taking entries\<close>

datatype 'e Next = Stopped | WaitFor "int option" | Take "'e Scheduled"

text \<open>One pass of the loop of \<^verbatim>\<open>_next_entry\<close>.\<close>

definition next_entry :: "int \<Rightarrow> ('e, 'k, 'h) EventLoop \<Rightarrow> 'e Next \<times> ('e, 'k, 'h) EventLoop" where
  "next_entry now el =
     (if el_stopping el then (Stopped, el)
      else case dropWhile sd_cancelled (el_heap el) of
        [] \<Rightarrow> (WaitFor None, el\<lparr>el_heap := []\<rparr>)
      | s # rest \<Rightarrow>
          if sd_at s > now then (WaitFor (Some (sd_at s)), el\<lparr>el_heap := s # rest\<rparr>)
          else (Take s, el\<lparr>el_heap := rest\<rparr>))"

text \<open>The handler of an entry, or the \<^verbatim>\<open>TypeError\<close> that ends the thread.\<close>

definition el_dispatch :: "('e \<Rightarrow> 'k) \<Rightarrow> 'e Scheduled \<Rightarrow> ('e, 'k, 'h) EventLoop \<Rightarrow> 'h res" where
  "el_dispatch kind s el = (case map_of (el_handlers el) (kind (sd_event s)) of None \<Rightarrow> Inl TypeError | Some h \<Rightarrow> Inr h)"

text \<open>What the thread takes at one moment, until it would wait.\<close>

function (sequential) drain :: "int \<Rightarrow> ('e, 'k, 'h) EventLoop \<Rightarrow> 'e Scheduled list \<times> ('e, 'k, 'h) EventLoop" where
  "drain now el =
     (case next_entry now el of
        (Take s, el') \<Rightarrow> let (ss, el2) = drain now el' in (s # ss, el2)
      | (_, el') \<Rightarrow> ([], el'))"
  by pat_completeness auto

lemma next_entry_takes: "next_entry now el = (Take s, el') \<Longrightarrow> length (el_heap el') < length (el_heap el)"
proof -
  assume "next_entry now el = (Take s, el')"
  then have "dropWhile sd_cancelled (el_heap el) = s # el_heap el'" by (auto simp: next_entry_def split: if_splits list.splits)
  then show ?thesis using length_dropWhile_le[of sd_cancelled "el_heap el"] by simp
qed

termination drain
  by (relation "measure (\<lambda>(now, el). length (el_heap el))") (auto dest: next_entry_takes[OF sym])

declare drain.simps [simp del]

section \<open>Properties\<close>

text \<open>The heap is in order and numbered below the counter.\<close>

definition loop_ok :: "('e, 'k, 'h) EventLoop \<Rightarrow> bool" where
  "loop_ok el \<longleftrightarrow> sorted_wrt (\<lambda>a b. sd_key a < sd_key b) (el_heap el) \<and> (\<forall>s \<in> set (el_heap el). sd_seq s < el_seq el)"

lemma sorted_insort_strict:
  "sorted_wrt (\<lambda>a b. f a < f b) xs \<Longrightarrow> f x \<notin> f ` set xs \<Longrightarrow> sorted_wrt (\<lambda>a b. f a < (f b :: 'b :: linorder)) (insort_key f x xs)"
  by (induction xs) (auto simp: set_insort_key)

lemma loop_ok_push: "loop_ok el \<Longrightarrow> sd_seq s = el_seq el \<Longrightarrow> loop_ok (el_push s el)"
proof -
  assume a: "loop_ok el" "sd_seq s = el_seq el"
  then have "sd_key s \<notin> sd_key ` set (el_heap el)" by (force simp: loop_ok_def sd_key_def)
  then show ?thesis using a sorted_insort_strict[of sd_key "el_heap el" s] by (auto simp: loop_ok_def el_push_def set_insort_key less_Suc_eq)
qed

lemma sd_key_cancel: "sd_key (s\<lparr>sd_cancelled := True\<rparr>) = sd_key s"
  by (simp add: sd_key_def)

lemma loop_ok_ops:
  "loop_ok loop_new" "loop_ok el \<Longrightarrow> loop_ok (el_post e el)" "loop_ok el \<Longrightarrow> loop_ok (el_schedule when e el)"
  "loop_ok el \<Longrightarrow> loop_ok (el_cancel n el)" "loop_ok el \<Longrightarrow> loop_ok (el_stop el)"
proof -
  show "loop_ok loop_new" by (simp add: loop_ok_def loop_new_def)
  show "loop_ok el \<Longrightarrow> loop_ok (el_post e el)" "loop_ok el \<Longrightarrow> loop_ok (el_schedule when e el)"
    by (simp_all add: el_post_def el_schedule_def loop_ok_push)
  show "loop_ok el \<Longrightarrow> loop_ok (el_cancel n el)" by (auto simp: loop_ok_def el_cancel_def sorted_wrt_map sd_key_cancel if_distrib[of sd_key] cong: if_cong)
  show "loop_ok el \<Longrightarrow> loop_ok (el_stop el)" by (simp add: loop_ok_def el_stop_def)
qed

definition is_ready :: "int \<Rightarrow> 'e Scheduled \<Rightarrow> bool" where
  "is_ready now s \<longleftrightarrow> \<not> sd_cancelled s \<and> sd_at s \<le> now"

lemma dropWhile_filter: "filter (\<lambda>x. \<not> P x \<and> Q x) (dropWhile P xs) = filter (\<lambda>x. \<not> P x \<and> Q x) xs"
  by (induction xs) auto

lemma sorted_wrt_dropWhile: "sorted_wrt R xs \<Longrightarrow> sorted_wrt R (dropWhile P xs)"
  by (metis sorted_wrt_append takeWhile_dropWhile_id)

lemma next_entry_cases:
  assumes "loop_ok el" "\<not> el_stopping el"
  shows "(\<exists>s el'. next_entry now el = (Take s, el') \<and> filter (is_ready now) (el_heap el) = s # filter (is_ready now) (el_heap el') \<and>
        filter (\<lambda>x. \<not> sd_cancelled x) (el_heap el) = s # filter (\<lambda>x. \<not> sd_cancelled x) (el_heap el') \<and> loop_ok el' \<and> \<not> el_stopping el') \<or>
    (\<exists>w el'. next_entry now el = (WaitFor w, el') \<and> filter (is_ready now) (el_heap el) = [] \<and>
        filter (\<lambda>x. \<not> sd_cancelled x) (el_heap el') = filter (\<lambda>x. \<not> sd_cancelled x) (el_heap el))"
proof (cases "dropWhile sd_cancelled (el_heap el)")
  case Nil
  then have "\<forall>x \<in> set (el_heap el). sd_cancelled x" by (simp add: dropWhile_eq_Nil_conv)
  then have "filter (is_ready now) (el_heap el) = []" "filter (\<lambda>x. \<not> sd_cancelled x) (el_heap el) = []" by (auto simp: is_ready_def filter_empty_conv)
  moreover have "next_entry now el = (WaitFor None, el\<lparr>el_heap := []\<rparr>)" unfolding next_entry_def Nil using assms(2) by simp
  ultimately show ?thesis by (metis EventLoop.select_convs(1) EventLoop.surjective EventLoop.update_convs(1) filter.simps(1))
next
  case (Cons s rest)
  have live: "\<not> sd_cancelled s" using hd_dropWhile[of sd_cancelled "el_heap el"] Cons by auto
  have ord: "sorted_wrt (\<lambda>a b. sd_key a < sd_key b) (s # rest)" using sorted_wrt_dropWhile assms(1) Cons unfolding loop_ok_def by metis
  have sub: "set (s # rest) \<subseteq> set (el_heap el)" unfolding Cons[symmetric] by (auto dest: set_dropWhileD)
  have f: "filter (is_ready now) (el_heap el) = filter (is_ready now) (s # rest)"
      "filter (\<lambda>x. \<not> sd_cancelled x) (el_heap el) = filter (\<lambda>x. \<not> sd_cancelled x) (s # rest)"
    using dropWhile_filter[of sd_cancelled "\<lambda>x. sd_at x \<le> now" "el_heap el"] dropWhile_filter[of sd_cancelled "\<lambda>x. True" "el_heap el"] Cons
    by (simp_all add: is_ready_def[abs_def])
  show ?thesis
  proof (cases "sd_at s > now")
    case True
    then have "\<forall>x \<in> set (s # rest). sd_at x > now" using ord by (fastforce simp: sd_key_def)
    then have "filter (is_ready now) (s # rest) = []" by (auto simp: is_ready_def filter_empty_conv)
    then show ?thesis using True Cons assms(2) f by (auto simp: next_entry_def)
  next
    case False
    have "loop_ok (el\<lparr>el_heap := rest\<rparr>)" using assms(1) ord sub by (auto simp: loop_ok_def)
    then show ?thesis using False Cons assms(2) f live by (auto simp: next_entry_def is_ready_def)
  qed
qed

text \<open>
  C32: At one moment the loop takes exactly the entries that are due and not cancelled, in the order of their times and
  for equal times in the order they were queued; every other entry that is not cancelled stays. In
  particular a posted event, whose time is zero, runs before every timer.
\<close>

theorem loop_takes_what_is_due:
  assumes "loop_ok el" "\<not> el_stopping el"
  shows "fst (drain now el) = filter (is_ready now) (el_heap el) \<and>
    filter (\<lambda>s. \<not> sd_cancelled s) (el_heap (snd (drain now el))) = filter (\<lambda>s. \<not> sd_cancelled s \<and> now < sd_at s) (el_heap el) \<and>
    sorted_wrt (\<lambda>a b. sd_key a < sd_key b) (fst (drain now el))"
proof -
  have "fst (drain now el) = filter (is_ready now) (el_heap el) \<and>
    filter (\<lambda>s. \<not> sd_cancelled s) (el_heap (snd (drain now el))) = filter (\<lambda>s. \<not> sd_cancelled s \<and> now < sd_at s) (el_heap el)"
    using assms
  proof (induction now el rule: drain.induct)
    case (1 now el)
    have late: "filter (\<lambda>s. \<not> sd_cancelled s \<and> now < sd_at s) xs = filter (\<lambda>s. now < sd_at s) (filter (\<lambda>s. \<not> sd_cancelled s) xs)" for xs :: "'a Scheduled list"
      by (simp add: conj_commute)
    from next_entry_cases[OF 1(2,3), of now] show ?case
    proof (elim disjE exE conjE)
      fix s el' assume n: "next_entry now el = (Take s, el')" "filter (is_ready now) (el_heap el) = s # filter (is_ready now) (el_heap el')"
        "filter (\<lambda>x. \<not> sd_cancelled x) (el_heap el) = s # filter (\<lambda>x. \<not> sd_cancelled x) (el_heap el')" "loop_ok el'" "\<not> el_stopping el'"
      have "sd_at s \<le> now" using n(2) by (metis filter_eq_Cons_iff is_ready_def)
      then show ?thesis using 1(1)[OF n(1)[symmetric] refl n(4,5)] n(1,2,3) unfolding late
        by (subst (1 2) drain.simps) (simp add: case_prod_beta)
    next
      fix w el' assume n: "next_entry now el = (WaitFor w, el')" "filter (is_ready now) (el_heap el) = []"
        "filter (\<lambda>x. \<not> sd_cancelled x) (el_heap el') = filter (\<lambda>x. \<not> sd_cancelled x) (el_heap el)"
      have "\<forall>s \<in> set (el_heap el). \<not> sd_cancelled s \<longrightarrow> now < sd_at s" using n(2) by (auto simp: filter_empty_conv is_ready_def)
      then have "filter (\<lambda>s. \<not> sd_cancelled s) (el_heap el) = filter (\<lambda>s. \<not> sd_cancelled s \<and> now < sd_at s) (el_heap el)" by (auto intro: filter_cong)
      then show ?thesis using n by (subst (1 2) drain.simps) simp
    qed
  qed
  then show ?thesis using assms(1) by (auto simp: loop_ok_def intro: sorted_wrt_filter)
qed

definition sample_loop :: "(nat, nat, nat) EventLoop" where
  "sample_loop = el_cancel 1 (el_post 3 (el_schedule 5 2 (el_schedule 5 1 (el_schedule 9 0 loop_new))))"

theorem loop_takes_what_is_due_witness:
  "map sd_event (fst (drain 6 sample_loop)) = [3, 2] \<and> map sd_event (fst (drain 9 sample_loop)) = [3, 2, 0]"
proof -
  have "loop_ok sample_loop" "\<not> el_stopping sample_loop"
    by (simp_all add: sample_loop_def loop_ok_ops) (simp add: el_cancel_def el_post_def el_schedule_def el_push_def loop_new_def)
  note d = loop_takes_what_is_due[OF this]
  show ?thesis using d[of 6] d[of 9]
    by (simp add: sample_loop_def el_cancel_def el_post_def el_schedule_def el_push_def loop_new_def sd_key_def is_ready_def)
qed

end
