(* ===== verification/Socket.thy ===== *)
theory Socket
  imports Worker Envelope
begin

text \<open>
  \<^verbatim>\<open>dude/net/socket_framing.py\<close>, \<^verbatim>\<open>dude/net/socket_server.py\<close> and
  \<^verbatim>\<open>dude/net/socket_substrate.py\<close>: frames on a Unix socket, the server that answers requests from a node's
  substrate, and the substrate that asks it. What the peer's end of a socket returns is the list of the chunks still to
  come, so that a byte string may arrive in any pieces; after them the connection is closed. A Python \<^verbatim>\<open>str\<close> is its UTF-8 encoding.
  Threads, the notification of commits and time-outs are not modelled: a request waits for its own answer.
\<close>

section \<open>Frames\<close>

datatype Request = Q_GET | Q_ANCHOR | Q_EVICT | Q_TOKEN | Q_SEAL | Q_DECRYPT | Q_SUBMIT | Q_QUERY | Q_COUNT_PREFIX | Q_NTH_PREFIX

datatype Response = R_GET | R_ANCHOR | R_EVICT | R_TOKEN | R_SEAL | R_DECRYPT | R_SUBMIT_ACK | R_QUERY | R_COMMIT | R_COUNT_PREFIX | R_NTH_PREFIX

fun request_value :: "Request \<Rightarrow> bytes" where
  "request_value Q_GET = ascii ''g''" | "request_value Q_ANCHOR = ascii ''a''" | "request_value Q_EVICT = ascii ''e''"
| "request_value Q_TOKEN = ascii ''t''" | "request_value Q_SEAL = ascii ''l''" | "request_value Q_DECRYPT = ascii ''y''"
| "request_value Q_SUBMIT = ascii ''s''" | "request_value Q_QUERY = ascii ''q''" | "request_value Q_COUNT_PREFIX = ascii ''c''"
| "request_value Q_NTH_PREFIX = ascii ''n''"

fun response_value :: "Response \<Rightarrow> bytes" where
  "response_value R_GET = ascii ''G''" | "response_value R_ANCHOR = ascii ''A''" | "response_value R_EVICT = ascii ''E''"
| "response_value R_TOKEN = ascii ''T''" | "response_value R_SEAL = ascii ''L''" | "response_value R_DECRYPT = ascii ''Y''"
| "response_value R_SUBMIT_ACK = ascii ''S''" | "response_value R_QUERY = ascii ''Q''" | "response_value R_COMMIT = ascii ''C''"
| "response_value R_COUNT_PREFIX = ascii ''K''" | "response_value R_NTH_PREFIX = ascii ''N''"

definition all_requests :: "Request list" where
  "all_requests = [Q_GET, Q_ANCHOR, Q_EVICT, Q_TOKEN, Q_SEAL, Q_DECRYPT, Q_SUBMIT, Q_QUERY, Q_COUNT_PREFIX, Q_NTH_PREFIX]"

definition all_responses :: "Response list" where
  "all_responses = [R_GET, R_ANCHOR, R_EVICT, R_TOKEN, R_SEAL, R_DECRYPT, R_SUBMIT_ACK, R_QUERY, R_COMMIT, R_COUNT_PREFIX, R_NTH_PREFIX]"

definition request_of :: "bytes \<Rightarrow> Request option" where
  "request_of b = find (\<lambda>t. request_value t = b) all_requests"

definition response_of :: "bytes \<Rightarrow> Response option" where
  "response_of b = find (\<lambda>t. response_value t = b) all_responses"

definition QUERY_PENDING :: bytes where "QUERY_PENDING = ascii ''P''"
definition QUERY_UNKNOWN :: bytes where "QUERY_UNKNOWN = ascii ''U''"
definition MAX_FRAME :: nat where "MAX_FRAME = 2 ^ 24"

text \<open>\<^verbatim>\<open>_send\<close>: the bytes written; a length of more than 32 bits raises \<^verbatim>\<open>struct.error\<close>.\<close>

definition send_frame :: "bytes \<Rightarrow> bytes \<Rightarrow> bytes \<Rightarrow> bytes res" where
  "send_frame tag corr_id payload =
     (let body = benc (BSeq [BBytes tag, BBytes corr_id, BBytes payload])
      in rbind (to_bytes 4 (int (length body))) (\<lambda>hdr. Inr (hdr @ body)))"

text \<open>\<^verbatim>\<open>sock.recv(n)\<close>.\<close>

fun sock_recv :: "nat \<Rightarrow> bytes list \<Rightarrow> bytes \<times> bytes list" where
  "sock_recv n [] = ([], [])"
| "sock_recv n (chunk # rest) = (if length chunk \<le> n then (chunk, rest) else (take n chunk, drop n chunk # rest))"

function recv_loop :: "nat \<Rightarrow> bytes \<Rightarrow> bytes list \<Rightarrow> (bytes option \<times> bytes list) res" where
  "recv_loop n buf sock =
     (if length buf < n then
        let (chunk, sock') = sock_recv (n - length buf) sock in
        if chunk = [] then (if buf \<noteq> [] then Inl FramingError else Inr (None, sock'))
        else recv_loop n (buf @ chunk) sock'
      else Inr (Some buf, sock))"
  by pat_completeness auto
termination
  by (relation "measure (\<lambda>(n, buf, sock). n - length buf)") (auto intro!: diff_less_mono2)

declare recv_loop.simps [simp del]

definition recv_exact :: "nat \<Rightarrow> bytes list \<Rightarrow> (bytes option \<times> bytes list) res" where
  "recv_exact n sock = recv_loop n [] sock"

definition read_frame :: "(bytes \<Rightarrow> 't option) \<Rightarrow> bytes list \<Rightarrow> (('t \<times> bytes \<times> bytes) option \<times> bytes list) res" where
  "read_frame lookup sock =
     rbind (recv_exact 4 sock) (\<lambda>(raw_len, sock1).
     case raw_len of
       None \<Rightarrow> Inr (None, sock1)
     | Some hdr \<Rightarrow>
         if from_bytes hdr > MAX_FRAME then Inl FramingError
         else rbind (recv_exact (from_bytes hdr) sock1) (\<lambda>(raw_body, sock2).
           case raw_body of
             None \<Rightarrow> Inl FramingError
           | Some body \<Rightarrow>
               rbind (decode_seq body (Some 3)) (\<lambda>parts.
               rbind (as_bytes (parts ! 0)) (\<lambda>raw_tag.
               case lookup raw_tag of
                 None \<Rightarrow> Inl FramingError
               | Some tag \<Rightarrow>
                   rbind (as_bytes (parts ! 1)) (\<lambda>corr_id.
                   rbind (as_bytes (parts ! 2)) (\<lambda>payload. Inr (Some (tag, corr_id, payload), sock2)))))))"

section \<open>The server\<close>

text \<open>
  The substrate behind the server: what it reads, the milliseconds of \<^verbatim>\<open>evict_after_sec\<close>, the operation hash that
  \<^verbatim>\<open>submit\<close> returns and what \<^verbatim>\<open>poll\<close> says of it.
\<close>

record ServedSubstrate = Substrate +
  ss_evict_ms :: int
  ss_submit :: "Transaction \<Rightarrow> digest res"
  ss_poll :: "digest \<Rightarrow> WaitResult res"

text \<open>\<^verbatim>\<open>codec.as_bytes(parts[1]).decode()\<close>.\<close>

definition as_str :: "bval \<Rightarrow> bytes res" where
  "as_str v = rbind (as_bytes v) (\<lambda>b. if utf8_valid b then Inr b else Inl ValueError)"

definition sv_query :: "ServedSubstrate \<Rightarrow> bytes \<Rightarrow> bytes \<Rightarrow> digest list \<Rightarrow> (digest list \<times> Response \<times> bytes \<times> bytes) res" where
  "sv_query sub corr_id payload inflight =
     rbind (Digest payload) (\<lambda>oh.
     if oh \<notin> set inflight then Inr (inflight, R_QUERY, corr_id, QUERY_UNKNOWN)
     else rbind (ss_poll sub oh) (\<lambda>result.
       case result of
         Status (Settled a n b) \<Rightarrow> Inr (filter (\<lambda>d. d \<noteq> oh) inflight, R_QUERY, corr_id, settle_encode (Settled a n b))
       | SubmitRefused _ \<Rightarrow> Inr (filter (\<lambda>d. d \<noteq> oh) inflight, R_QUERY, corr_id, QUERY_UNKNOWN)
       | _ \<Rightarrow> Inr (inflight, R_QUERY, corr_id, QUERY_PENDING)))"

definition sv_dispatch :: "ServedSubstrate \<Rightarrow> Request \<Rightarrow> bytes \<Rightarrow> bytes \<Rightarrow> digest list \<Rightarrow> (digest list \<times> Response \<times> bytes \<times> bytes) res" where
  "sv_dispatch sub tag corr_id payload inflight =
     (case tag of
        Q_GET \<Rightarrow>
          rbind (decode_seq payload (Some 2)) (\<lambda>parts.
          rbind (as_int (parts ! 0)) (\<lambda>store.
          rbind (as_bytes (parts ! 1)) (\<lambda>nm.
          rbind (rd_get sub store nm) (\<lambda>held.
          Inr (inflight, R_GET, corr_id, case held of None \<Rightarrow> [] | Some row \<Rightarrow> held_encode row)))))
      | Q_ANCHOR \<Rightarrow> rbind (rd_anchor sub) (\<lambda>a. Inr (inflight, R_ANCHOR, corr_id, a))
      | Q_EVICT \<Rightarrow> Inr (inflight, R_EVICT, corr_id, benc (BInt (ss_evict_ms sub)))
      | Q_TOKEN \<Rightarrow>
          rbind (decode_seq payload (Some 2)) (\<lambda>parts.
          rbind (as_int (parts ! 0)) (\<lambda>store.
          rbind (as_str (parts ! 1)) (\<lambda>nm.
          rbind (sub_token sub store nm) (\<lambda>t. Inr (inflight, R_TOKEN, corr_id, t)))))
      | Q_SEAL \<Rightarrow>
          rbind (decode_seq payload (Some 3)) (\<lambda>parts.
          rbind (as_int (parts ! 0)) (\<lambda>store.
          rbind (as_str (parts ! 1)) (\<lambda>nm.
          rbind (as_bytes (parts ! 2)) (\<lambda>value.
          rbind (sub_seal sub store nm value) (\<lambda>s.
          Inr (inflight, R_SEAL, corr_id, benc (BSeq [BBytes (sl_token s), BBytes (sl_ciphertext s), BInt (sl_epoch s)])))))))
      | Q_DECRYPT \<Rightarrow>
          rbind (decode_seq payload (Some 4)) (\<lambda>parts.
          rbind (as_int (parts ! 0)) (\<lambda>store.
          rbind (as_str (parts ! 1)) (\<lambda>nm.
          rbind (as_bytes (parts ! 2)) (\<lambda>ct.
          rbind (as_int (parts ! 3)) (\<lambda>epoch.
          rbind (sub_decrypt sub store nm ct epoch) (\<lambda>pt. Inr (inflight, R_DECRYPT, corr_id, pt)))))))
      | Q_SUBMIT \<Rightarrow>
          rbind (tx_decode payload) (\<lambda>tx.
          rbind (ss_submit sub tx) (\<lambda>oh. Inr (if oh \<in> set inflight then inflight else inflight @ [oh], R_SUBMIT_ACK, corr_id, oh)))
      | Q_QUERY \<Rightarrow> sv_query sub corr_id payload inflight
      | Q_COUNT_PREFIX \<Rightarrow>
          rbind (decode_seq payload (Some 2)) (\<lambda>parts.
          rbind (as_int (parts ! 0)) (\<lambda>store.
          rbind (as_bytes (parts ! 1)) (\<lambda>pfx.
          rbind (rd_count_prefix sub store pfx) (\<lambda>n. Inr (inflight, R_COUNT_PREFIX, corr_id, benc (BInt n))))))
      | Q_NTH_PREFIX \<Rightarrow>
          rbind (decode_seq payload (Some 4)) (\<lambda>parts.
          rbind (as_int (parts ! 0)) (\<lambda>store.
          rbind (as_bytes (parts ! 1)) (\<lambda>pfx.
          rbind (as_int (parts ! 2)) (\<lambda>n.
          rbind (as_int (parts ! 3)) (\<lambda>d.
          rbind (rd_nth_prefix sub store pfx n (d = 1)) (\<lambda>result.
          Inr (inflight, R_NTH_PREFIX, corr_id,
            case result of
              None \<Rightarrow> []
            | Some (nm, row) \<Rightarrow> benc (BSeq [BBytes nm, BBytes (held_value row), BInt (held_epoch row), BBytes (held_cred row)])))))))))"

text \<open>
  What the reader thread of a connection makes of one request: an answer, the end of the connection, or an exception
  that leaves the thread. An exception while the frame is read is not caught; one of the dispatch is, if it is a
  \<^verbatim>\<open>DudeError\<close>.
\<close>

datatype ServerTurn = Answer "digest list" Response bytes bytes "bytes list" | Hangup | ThreadDies exn

definition sv_turn :: "ServedSubstrate \<Rightarrow> digest list \<Rightarrow> bytes list \<Rightarrow> ServerTurn" where
  "sv_turn sub inflight sock =
     (case read_frame request_of sock of
        Inl e \<Rightarrow> ThreadDies e
      | Inr (None, _) \<Rightarrow> Hangup
      | Inr (Some (tag, corr_id, payload), sock') \<Rightarrow>
          (case sv_dispatch sub tag corr_id payload inflight of
             Inl e \<Rightarrow> if is_dude_error e then Hangup else ThreadDies e
           | Inr (inflight', r, cid, reply) \<Rightarrow> Answer inflight' r cid reply sock'))"

section \<open>The substrate on the other side\<close>

text \<open>
  \<^verbatim>\<open>_request\<close>: the frame is sent in whatever pieces, the server answers, and the reader thread puts the answer
  with the same correlation identifier into the slot. A lost connection raises \<^verbatim>\<open>ConnectionLostError\<close>.
\<close>

record SocketPath =
  sp_there :: "bytes \<Rightarrow> bytes list"
  sp_back :: "bytes \<Rightarrow> bytes list"
  sp_corr_id :: bytes

definition sk_request :: "ServedSubstrate \<Rightarrow> SocketPath \<Rightarrow> digest list \<Rightarrow> Request \<Rightarrow> bytes \<Rightarrow> (digest list \<times> bytes) res" where
  "sk_request sub path inflight tag payload =
     rbind (send_frame (request_value tag) (sp_corr_id path) payload) (\<lambda>out.
     case sv_turn sub inflight (sp_there path out) of
       Answer inflight' r cid reply _ \<Rightarrow>
         (case rbind (send_frame (response_value r) cid reply) (\<lambda>back. read_frame response_of (sp_back path back)) of
            Inr (Some (r', cid', reply'), _) \<Rightarrow> if cid' = sp_corr_id path \<and> r' \<noteq> R_COMMIT then Inr (inflight', reply') else Inl SocketSubstrateError
          | _ \<Rightarrow> Inl SocketSubstrateError)
     | _ \<Rightarrow> Inl SocketSubstrateError)"

definition sk_call :: "ServedSubstrate \<Rightarrow> SocketPath \<Rightarrow> Request \<Rightarrow> bytes \<Rightarrow> bytes res" where
  "sk_call sub path tag payload = rbind (sk_request sub path [] tag payload) (\<lambda>(_, reply). Inr reply)"

definition sk_anchor :: "ServedSubstrate \<Rightarrow> SocketPath \<Rightarrow> public_key res" where
  "sk_anchor sub path = rbind (sk_call sub path Q_ANCHOR []) PublicKey"

definition sk_get :: "ServedSubstrate \<Rightarrow> SocketPath \<Rightarrow> int \<Rightarrow> bytes \<Rightarrow> Held option res" where
  "sk_get sub path store nm =
     rbind (sk_call sub path Q_GET (benc (BSeq [BInt store, BBytes nm]))) (\<lambda>reply.
     if reply = [] then Inr None else rbind (held_decode reply) (\<lambda>row. Inr (Some row)))"

definition sk_token :: "ServedSubstrate \<Rightarrow> SocketPath \<Rightarrow> int \<Rightarrow> bytes \<Rightarrow> bool \<Rightarrow> bytes res" where
  "sk_token sub path store nm plaintext =
     (if plaintext then Inr nm else sk_call sub path Q_TOKEN (benc (BSeq [BInt store, BBytes nm])))"

definition sk_seal :: "ServedSubstrate \<Rightarrow> SocketPath \<Rightarrow> int \<Rightarrow> bytes \<Rightarrow> bytes \<Rightarrow> bool \<Rightarrow> Sealed res" where
  "sk_seal sub path store nm value plaintext =
     (if plaintext then Inr \<lparr>sl_token = nm, sl_ciphertext = value, sl_epoch = EPOCH_NONE\<rparr>
      else rbind (sk_call sub path Q_SEAL (benc (BSeq [BInt store, BBytes nm, BBytes value]))) (\<lambda>reply.
        rbind (decode_seq reply (Some 3)) (\<lambda>p.
        rbind (as_bytes (p ! 0)) (\<lambda>t.
        rbind (as_bytes (p ! 1)) (\<lambda>ct.
        rbind (as_int (p ! 2)) (\<lambda>e. Inr \<lparr>sl_token = t, sl_ciphertext = ct, sl_epoch = e\<rparr>))))))"

definition sk_decrypt :: "ServedSubstrate \<Rightarrow> SocketPath \<Rightarrow> int \<Rightarrow> bytes \<Rightarrow> bytes \<Rightarrow> int \<Rightarrow> bytes res" where
  "sk_decrypt sub path store nm ct epoch = sk_call sub path Q_DECRYPT (benc (BSeq [BInt store, BBytes nm, BBytes ct, BInt epoch]))"

definition sk_count_prefix :: "ServedSubstrate \<Rightarrow> SocketPath \<Rightarrow> int \<Rightarrow> bytes \<Rightarrow> int res" where
  "sk_count_prefix sub path store pfx =
     rbind (sk_call sub path Q_COUNT_PREFIX (benc (BSeq [BInt store, BBytes pfx]))) (\<lambda>reply. rbind (decode reply) as_int)"

definition sk_nth_prefix :: "ServedSubstrate \<Rightarrow> SocketPath \<Rightarrow> int \<Rightarrow> bytes \<Rightarrow> int \<Rightarrow> bool \<Rightarrow> (bytes \<times> Held) option res" where
  "sk_nth_prefix sub path store pfx n descending =
     rbind (sk_call sub path Q_NTH_PREFIX (benc (BSeq [BInt store, BBytes pfx, BInt n, BInt (if descending then 1 else 0)]))) (\<lambda>reply.
     if reply = [] then Inr None
     else rbind (decode_seq reply (Some 4)) (\<lambda>p.
       rbind (as_bytes (p ! 0)) (\<lambda>nm.
       rbind (as_bytes (p ! 1)) (\<lambda>v.
       rbind (as_int (p ! 2)) (\<lambda>e.
       rbind (as_bytes (p ! 3)) (\<lambda>cr. Inr (Some (nm, \<lparr>held_value = v, held_epoch = e, held_cred = cr\<rparr>))))))))"

definition sk_submit :: "ServedSubstrate \<Rightarrow> SocketPath \<Rightarrow> digest list \<Rightarrow> Transaction \<Rightarrow> (digest list \<times> SubmitHandle) res" where
  "sk_submit sub path inflight tx =
     rbind (sk_request sub path inflight Q_SUBMIT (tx_encode tx)) (\<lambda>(inflight', reply).
     rbind (Digest reply) (\<lambda>oh. Inr (inflight', mark_accepted (handle_new oh))))"

definition sk_tx_status :: "ServedSubstrate \<Rightarrow> SocketPath \<Rightarrow> digest list \<Rightarrow> digest \<Rightarrow> (digest list \<times> SettleResult) res" where
  "sk_tx_status sub path inflight oh =
     rbind (sk_request sub path inflight Q_QUERY oh) (\<lambda>(inflight', reply).
     if reply = QUERY_PENDING then Inr (inflight', Pending)
     else if reply = QUERY_UNKNOWN then Inr (inflight', Unknown)
     else rbind (settle_decode reply) (\<lambda>r. Inr (inflight', r)))"

section \<open>Frames arrive whole\<close>

abbreviation pieces :: "bytes list \<Rightarrow> bool" where
  "pieces sock \<equiv> list_all (\<lambda>b. b \<noteq> []) sock"

lemma sock_recv_pieces:
  assumes "pieces sock" "0 < n" "concat sock \<noteq> []" "sock_recv n sock = (chunk, sock')"
  shows "chunk \<noteq> []" "length chunk \<le> n" "chunk @ concat sock' = concat sock" "pieces sock'"
  using assms by (cases sock; auto split: if_splits)+

lemma recv_loop_exact:
  "pieces sock \<Longrightarrow> length buf \<le> n \<Longrightarrow> n \<le> length buf + length (concat sock) \<Longrightarrow>
     \<exists>sock'. recv_loop n buf sock = Inr (Some (take n (buf @ concat sock)), sock') \<and> concat sock' = drop (n - length buf) (concat sock) \<and> pieces sock'"
proof (induction n buf sock rule: recv_loop.induct)
  case (1 n buf sock)
  show ?case
  proof (cases "length buf < n")
    case False
    then show ?thesis using 1(2-4) by (subst recv_loop.simps) auto
  next
    case True
    obtain chunk sock' where r: "sock_recv (n - length buf) sock = (chunk, sock')" by fastforce
    have "concat sock \<noteq> []" using True 1(4) by (intro notI) simp
    note p = sock_recv_pieces[OF 1(2) _ this r]
    have n: "0 < n - length buf" using True by simp
    have c: "concat sock = chunk @ concat sock'" using p(3)[OF n] by simp
    have "length (buf @ chunk) \<le> n" "n \<le> length (buf @ chunk) + length (concat sock')"
      using p(2)[OF n] True 1(4) by (simp_all add: c)
    then obtain sock2 where "recv_loop n (buf @ chunk) sock' = Inr (Some (take n ((buf @ chunk) @ concat sock')), sock2)"
        "concat sock2 = drop (n - length (buf @ chunk)) (concat sock')" "pieces sock2"
      using 1(1)[OF True r[symmetric] refl p(1)[OF n] p(4)[OF n]] by blast
    moreover have "recv_loop n buf sock = recv_loop n (buf @ chunk) sock'" using True r p(1)[OF n] by (subst recv_loop.simps) simp
    ultimately show ?thesis using p(2)[OF n] by (auto simp: c)
  qed
qed

lemma recv_exact_pieces:
  assumes "pieces sock" "concat sock = a @ rest" "length a = n"
  shows "\<exists>sock'. recv_exact n sock = Inr (Some a, sock') \<and> concat sock' = rest \<and> pieces sock'"
  using recv_loop_exact[OF assms(1), of "[]" n] assms(2,3) by (auto simp: recv_exact_def)

definition fits :: "bytes \<Rightarrow> bytes \<Rightarrow> bytes \<Rightarrow> bool" where
  "fits tag cid payload \<longleftrightarrow> bencodable (BSeq [BBytes tag, BBytes cid, BBytes payload]) \<and> length (benc (BSeq [BBytes tag, BBytes cid, BBytes payload])) \<le> MAX_FRAME"

lemma frame_arrives:
  assumes "fits tag cid payload" "lookup tag = Some t"
  shows "\<exists>out. send_frame tag cid payload = Inr out \<and>
    (\<forall>sock rest. pieces sock \<longrightarrow> concat sock = out @ rest \<longrightarrow>
      (\<exists>sock'. read_frame lookup sock = Inr (Some (t, cid, payload), sock') \<and> concat sock' = rest \<and> pieces sock'))"
proof -
  let ?body = "benc (BSeq [BBytes tag, BBytes cid, BBytes payload])"
  have len: "length ?body \<le> MAX_FRAME" and ok: "bencodable (BSeq [BBytes tag, BBytes cid, BBytes payload])" using assms(1) by (auto simp: fits_def)
  have small: "length ?body < 256 ^ 4" using len by (simp add: MAX_FRAME_def)
  have out: "send_frame tag cid payload = Inr (be_bytes 4 (length ?body) @ ?body)"
    using small by (simp add: send_frame_def to_bytes_def Let_def)
  have num: "from_bytes (be_bytes 4 (length ?body)) = length ?body" by (rule from_bytes_be_bytes[OF small])
  have "\<exists>sock'. read_frame lookup sock = Inr (Some (t, cid, payload), sock') \<and> concat sock' = rest \<and> pieces sock'"
    if sock: "pieces sock" "concat sock = (be_bytes 4 (length ?body) @ ?body) @ rest" for sock rest
  proof -
    obtain s1 where s1: "recv_exact 4 sock = Inr (Some (be_bytes 4 (length ?body)), s1)" "concat s1 = ?body @ rest" "pieces s1"
      using recv_exact_pieces[of sock "be_bytes 4 (length ?body)" "?body @ rest" 4] sock by auto
    obtain s2 where s2: "recv_exact (length ?body) s1 = Inr (Some ?body, s2)" "concat s2 = rest" "pieces s2"
      using recv_exact_pieces[OF s1(3,2) refl] by auto
    have "\<not> from_bytes (be_bytes 4 (length ?body)) > MAX_FRAME" using num len by simp
    then show ?thesis using s1(1) s2 ok assms(2) by (simp add: read_frame_def num)
  qed
  then show ?thesis using out by blast
qed

lemma tags_known [simp]: "request_of (request_value q) = Some q" "response_of (response_value r) = Some r"
proof -
  show "request_of (request_value q) = Some q" by (cases q) (simp_all add: request_of_def all_requests_def ascii_def)
  show "response_of (response_value r) = Some r" by (cases r) (simp_all add: response_of_def all_responses_def ascii_def)
qed

section \<open>Reads over the socket\<close>

definition path_ok :: "SocketPath \<Rightarrow> bool" where
  "path_ok path \<longleftrightarrow> (\<forall>b. pieces (sp_there path b) \<and> concat (sp_there path b) = b) \<and> (\<forall>b. pieces (sp_back path b) \<and> concat (sp_back path b) = b)"

lemma request_answered:
  assumes "path_ok path" "fits (request_value tag) (sp_corr_id path) payload"
    "sv_dispatch sub tag (sp_corr_id path) payload inflight = Inr (inflight', r, sp_corr_id path, reply)" "r \<noteq> R_COMMIT"
    "fits (response_value r) (sp_corr_id path) reply"
  shows "sk_request sub path inflight tag payload = Inr (inflight', reply)"
proof -
  obtain out where out: "send_frame (request_value tag) (sp_corr_id path) payload = Inr out" and
      there: "\<And>sock rest. pieces sock \<Longrightarrow> concat sock = out @ rest \<Longrightarrow> \<exists>s. read_frame request_of sock = Inr (Some (tag, sp_corr_id path, payload), s)"
    using frame_arrives[OF assms(2), of request_of tag] tags_known(1) by blast
  obtain ret where ret: "send_frame (response_value r) (sp_corr_id path) reply = Inr ret" and
      home: "\<And>sock rest. pieces sock \<Longrightarrow> concat sock = ret @ rest \<Longrightarrow> \<exists>s. read_frame response_of sock = Inr (Some (r, sp_corr_id path, reply), s)"
    using frame_arrives[OF assms(5), of response_of r] tags_known(2) by blast
  obtain s1 s2 where "read_frame request_of (sp_there path out) = Inr (Some (tag, sp_corr_id path, payload), s1)"
      "read_frame response_of (sp_back path ret) = Inr (Some (r, sp_corr_id path, reply), s2)"
    using there[of "sp_there path out" "[]"] home[of "sp_back path ret" "[]"] assms(1) by (auto simp: path_ok_def)
  then show ?thesis using out ret assms(3,4) by (simp add: sk_request_def sv_turn_def)
qed

text \<open>What must fit: the request, and the answer of the server.\<close>

definition room_for :: "SocketPath \<Rightarrow> Request \<Rightarrow> bytes \<Rightarrow> Response \<Rightarrow> bytes \<Rightarrow> bool" where
  "room_for path tag payload r reply \<longleftrightarrow> fits (request_value tag) (sp_corr_id path) payload \<and> fits (response_value r) (sp_corr_id path) reply"

lemma call_answered:
  assumes "path_ok path" "room_for path tag payload r reply" "r \<noteq> R_COMMIT"
    "sv_dispatch sub tag (sp_corr_id path) payload [] = Inr (inflight', r, sp_corr_id path, reply)"
  shows "sk_call sub path tag payload = Inr reply"
  using request_answered[OF assms(1) _ assms(4,3)] assms(2) by (simp add: sk_call_def room_for_def)

text \<open>
  C14: Reading through the socket is reading directly: in whatever pieces the bytes travel, and as long as question and
  answer can be encoded and fit in a frame, a read of a row, a count, a row by its place and a name token through the socket
  substrate return what the node's own substrate returns.
\<close>

theorem socket_reads_are_direct:
  assumes "path_ok path"
  shows "(let q = benc (BSeq [BInt store, BBytes nm]) in
      bencodable (BSeq [BInt store, BBytes nm]) \<longrightarrow>
      (\<forall>held. rd_get sub store nm = Inr held \<longrightarrow> (\<forall>row. held = Some row \<longrightarrow> bencodable (held_bval row)) \<longrightarrow>
         room_for path Q_GET q R_GET (case held of None \<Rightarrow> [] | Some row \<Rightarrow> held_encode row) \<longrightarrow> sk_get sub path store nm = Inr held) \<and>
      (\<forall>n. rd_count_prefix sub store nm = Inr n \<longrightarrow> bencodable (BInt n) \<longrightarrow>
         room_for path Q_COUNT_PREFIX q R_COUNT_PREFIX (benc (BInt n)) \<longrightarrow> sk_count_prefix sub path store nm = Inr n) \<and>
      (\<forall>t. utf8_valid nm \<longrightarrow> sub_token sub store nm = Inr t \<longrightarrow> room_for path Q_TOKEN q R_TOKEN t \<longrightarrow> sk_token sub path store nm False = Inr t)) \<and>
    (let q = [BInt store, BBytes nm, BInt i, BInt (if descending then 1 else 0)] in
      bencodable (BSeq q) \<longrightarrow>
      (\<forall>found. rd_nth_prefix sub store nm i descending = Inr found \<longrightarrow>
        (let reply = (case found of None \<Rightarrow> [] | Some (k, row) \<Rightarrow> benc (BSeq [BBytes k, BBytes (held_value row), BInt (held_epoch row), BBytes (held_cred row)])) in
         (\<forall>k row. found = Some (k, row) \<longrightarrow> bencodable (BSeq [BBytes k, BBytes (held_value row), BInt (held_epoch row), BBytes (held_cred row)])) \<longrightarrow>
         room_for path Q_NTH_PREFIX (benc (BSeq q)) R_NTH_PREFIX reply \<longrightarrow> sk_nth_prefix sub path store nm i descending = Inr found)))"
proof -
  note call = call_answered[OF assms]
  let ?q = "benc (BSeq [BInt store, BBytes nm])"
  have get: "sk_get sub path store nm = Inr held"
    if "bencodable (BSeq [BInt store, BBytes nm])" "rd_get sub store nm = Inr held" "\<And>row. held = Some row \<Longrightarrow> bencodable (held_bval row)"
      "room_for path Q_GET ?q R_GET (case held of None \<Rightarrow> [] | Some row \<Rightarrow> held_encode row)" for held
    using that call[OF that(4), of sub "[]"] benc_nonempty held_wire.dec_enc
    by (cases held) (auto simp: sk_get_def sv_dispatch_def held_encode_def)
  have cnt: "sk_count_prefix sub path store nm = Inr n"
    if "bencodable (BSeq [BInt store, BBytes nm])" "rd_count_prefix sub store nm = Inr n" "bencodable (BInt n)"
      "room_for path Q_COUNT_PREFIX ?q R_COUNT_PREFIX (benc (BInt n))" for n
    using that call[OF that(4), of sub "[]"] by (simp add: sk_count_prefix_def sv_dispatch_def bencode.dec_enc)
  have tok: "sk_token sub path store nm False = Inr t"
    if "bencodable (BSeq [BInt store, BBytes nm])" "utf8_valid nm" "sub_token sub store nm = Inr t" "room_for path Q_TOKEN ?q R_TOKEN t" for t
    using that call[OF that(4), of sub "[]"] by (simp add: sk_token_def sv_dispatch_def as_str_def)
  have nth: "sk_nth_prefix sub path store nm i descending = Inr found"
    if "bencodable (BSeq [BInt store, BBytes nm, BInt i, BInt (if descending then 1 else 0)])" "rd_nth_prefix sub store nm i descending = Inr found"
      "\<And>k row. found = Some (k, row) \<Longrightarrow> bencodable (BSeq [BBytes k, BBytes (held_value row), BInt (held_epoch row), BBytes (held_cred row)])"
      "room_for path Q_NTH_PREFIX (benc (BSeq [BInt store, BBytes nm, BInt i, BInt (if descending then 1 else 0)])) R_NTH_PREFIX
        (case found of None \<Rightarrow> [] | Some (k, row) \<Rightarrow> benc (BSeq [BBytes k, BBytes (held_value row), BInt (held_epoch row), BBytes (held_cred row)]))" for found
    using that call[OF that(4), of sub "[]"] benc_nonempty
    by (cases found; cases descending) (auto simp: sk_nth_prefix_def sv_dispatch_def split: prod.splits)
  show ?thesis unfolding Let_def using get cnt tok nth by blast
qed

text \<open>
  A settled transaction is reported once. After a query that answered with its block the server has forgotten it, and every
  later query, on this connection as on any other one, is answered as for a transaction nobody ever submitted; and a
  transaction the node refused or does not know is reported as unknown or as pending.
\<close>

lemma settlement_is_reported_once:
  assumes "length oh = DIGEST_SIZE" "oh \<in> set inflight"
  shows "(ss_poll sub oh = Inr (Status (Settled a n b)) \<longrightarrow>
      (\<exists>inflight'. sv_query sub cid oh inflight = Inr (inflight', R_QUERY, cid, settle_encode (Settled a n b)) \<and>
        sv_query sub cid' oh inflight' = Inr (inflight', R_QUERY, cid', QUERY_UNKNOWN))) \<and>
    (ss_poll sub oh = Inr (SubmitRefused why) \<longrightarrow>
      (\<exists>inflight'. sv_query sub cid oh inflight = Inr (inflight', R_QUERY, cid, QUERY_UNKNOWN))) \<and>
    (ss_poll sub oh = Inr (Status Unknown) \<longrightarrow> sv_query sub cid oh inflight = Inr (inflight, R_QUERY, cid, QUERY_PENDING))"
  using assms by (simp add: sv_query_def fixed_ok)

text \<open>
  A frame the server cannot read ends its thread with an exception of the program's own, which nothing catches, and a name that is no
  UTF-8 ends it with a \<^verbatim>\<open>ValueError\<close>.
\<close>

lemma bad_frame_ends_the_thread:
  "read_frame request_of sock = Inl e \<Longrightarrow> sv_turn sub inflight sock = ThreadDies e"
  "bencodable (BSeq [BInt store, BBytes nm]) \<Longrightarrow> \<not> utf8_valid nm \<Longrightarrow>
     read_frame request_of sock = Inr (Some (Q_TOKEN, cid, benc (BSeq [BInt store, BBytes nm])), sock') \<Longrightarrow> sv_turn sub inflight sock = ThreadDies ValueError"
  by (simp_all add: sv_turn_def sv_dispatch_def as_str_def)

section \<open>A concrete socket\<close>

definition byte_by_byte :: SocketPath where
  "byte_by_byte = \<lparr>sp_there = map (\<lambda>b. [b]), sp_back = map (\<lambda>b. [b]), sp_corr_id = [1]\<rparr>"

definition served_row :: Held where "served_row = \<lparr>held_value = [5], held_epoch = 0, held_cred = [6]\<rparr>"

definition served :: ServedSubstrate where
  "served = \<lparr>rd_get = (\<lambda>st nm. Inr (Some served_row)), rd_anchor = Inr [], rd_count_prefix = (\<lambda>st p. Inr 1),
     rd_nth_prefix = (\<lambda>st p n d. Inr None), sub_token = (\<lambda>st nm. Inr nm), sub_seal = (\<lambda>st nm v. Inl SessionError),
     sub_decrypt = (\<lambda>st nm v e. Inl SessionError), ss_evict_ms = 1, ss_submit = (\<lambda>tx. Inl SessionError),
     ss_poll = (\<lambda>oh. Inr (Status (Settled oh 7 oh)))\<rparr>"

lemma byte_by_byte_ok: "path_ok byte_by_byte"
  by (simp add: path_ok_def byte_by_byte_def list_all_iff)

lemma fits_small:
  assumes "length tag + length cid + length payload \<le> 1000"
  shows "fits tag cid payload"
proof -
  have "length (benc (BSeq [BBytes tag, BBytes cid, BBytes payload])) \<le> 2 * (length tag + length cid + length payload) + 8"
    using length_encode_bytes[of tag] length_encode_bytes[of cid] length_encode_bytes[of payload] by (simp add: benc.simps)
  then show ?thesis using assms by (simp add: fits_def env_small MAX_FRAME_def)
qed

theorem socket_reads_are_direct_witness: "sk_get served byte_by_byte 1 [65] = Inr (Some served_row)"
proof -
  have one: "length (int_ascii 1) = 1" "length (int_ascii 0) = 1" by (simp_all add: int_ascii_def nat_ascii.simps)
  have "length (benc (BSeq [BInt 1, BBytes [65]])) \<le> 20" "length (held_encode served_row) \<le> 20"
    using length_encode_bytes[of "[65]"] length_encode_bytes[of "[5]"] length_encode_bytes[of "[6]"] one
    by (simp_all add: benc.simps held_encode_def held_bval_def served_row_def)
  then have "room_for byte_by_byte Q_GET (benc (BSeq [BInt 1, BBytes [65]])) R_GET (held_encode served_row)"
    unfolding room_for_def by (intro conjI fits_small) (simp_all add: byte_by_byte_def ascii_def)
  moreover have "bencodable (BSeq [BInt 1, BBytes [65]])" "bencodable (held_bval served_row)"
    by (simp_all add: held_bval_def served_row_def env_small)
  moreover have "rd_get served 1 [65] = Inr (Some served_row)" by (simp add: served_def)
  ultimately show ?thesis using socket_reads_are_direct[OF byte_by_byte_ok, of 1 "[65]" served] by (simp add: Let_def)
qed

lemma settlement_is_reported_once_witness:
  "\<exists>inflight'. sv_query served [1] (replicate 32 3) [replicate 32 3] =
      Inr (inflight', R_QUERY, [1], settle_encode (Settled (replicate 32 3) 7 (replicate 32 3))) \<and>
    sv_query served [2] (replicate 32 3) inflight' = Inr (inflight', R_QUERY, [2], QUERY_UNKNOWN)"
proof -
  have "length (replicate 32 (3 :: byte)) = DIGEST_SIZE" by (simp add: DIGEST_SIZE_def)
  from settlement_is_reported_once[OF this, of "[replicate 32 3]" served "replicate 32 3" 7 "replicate 32 3"] show ?thesis by (simp add: served_def)
qed

end
