(* ===== verification/Spec2Isabelle.thy ===== *)
theory Spec2Isabelle
  imports Codec_Canonical Quorum Crypto Wire Sample_Prims Ops Smt_Proofs Layer_View Store Store_Log
    Tunables Mempool Envelope Round_Safety Silent_Run Follower_Props Checkpoint_Props
    Node_Props Lite_Client_Props Key_Cache Queue_Props Worker_Props Postman_Props Event_Loop Socket Tcp
begin

text \<open>
  A verification of DudeFS, the Python package \<^verbatim>\<open>src/dude\<close>: a replicated, authenticated and
  encrypted key-value store for a small group. A manager, whose key is the anchor of trust, seats nodes;
  the nodes agree on blocks of signed transactions, settle them and serve reads; light clients verify what
  the nodes serve; sessions, maps, a job queue and workers are built on top.

  \<^bold>\<open>The parts and how they work together.\<close>

  A client signs a \<^emph>\<open>transaction\<close>: steps, each a write under guard predicates, soft or hard. A node
  admits it to its mempool. Per bucket of time the \<^emph>\<open>coordinator\<close> opens a \<^emph>\<open>round\<close>: members tell
  each other what they hold, fetch what they lack, cut out the largest set a quorum has in common and sign
  it. A ratified slice is settled on a \<^emph>\<open>layer\<close> over the store, which gives the anchors of the block to
  come (state root, accumulators, height); a \<^emph>\<open>settle round\<close> collects a quorum of signatures on the
  anchors, and only then is the block committed to the store. The \<^emph>\<open>follower\<close> pulls settled blocks
  that a node missed, or names a \<^emph>\<open>checkpoint\<close> to download where the blocks have been compacted. A
  \<^emph>\<open>light client\<close> bootstraps a roster and a head, walks signed blocks, and checks Merkle proofs. The
  \<^emph>\<open>node\<close> dispatches messages to these parts; the \<^emph>\<open>postman\<close> carries the messages over links; an
  \<^emph>\<open>event loop\<close> runs handlers one at a time.

  \<^bold>\<open>Conventions.\<close>

  \<^item> A class is a record, a tagged union a datatype with the constructors of the source, a method a function from
    the object to the updated object. Python's integers are \<open>int\<close>, its \<^verbatim>\<open>bytes\<close> lists of 8-bit words,
    its dicts association lists where the order of insertion matters and maps elsewhere.
  \<^item> What the source raises is a value: \<open>'a res\<close> is \<open>exn + 'a\<close>, \<open>rbind\<close> its sequencing. That
    includes errors the source does not name, such as \<^verbatim>\<open>OverflowError\<close> of \<^verbatim>\<open>to_bytes\<close> and
    \<^verbatim>\<open>IndexError\<close>. \<^verbatim>\<open>except DudeError\<close> is written with the predicate on \<open>exn\<close> that tells
    which classes it catches.
  \<^item> A failed SQLite transaction returns the error and the database of before (rollback). Tables are lists of rows;
    SQL statements are list operations, ordered as their \<^verbatim>\<open>ORDER BY\<close> says.
  \<^item> The actors (coordinator, follower, postman) are handlers on their record. Timers that are set and events that are posted
    are recorded in it. The clock and random choices are arguments. Runs are inductive predicates over the
    handlers.
  \<^item> Cryptography outside the repository (hashlib, PyNaCl) is the record \<open>prims\<close> of functions, and what the
    program relies on are hypotheses on it by name: widths of digests, that an opened box is the one sealed, that two given
    inputs do not collide. \<open>Sample_Prims\<close> is a concrete instance, on which every such hypothesis is
    evaluated in the witnesses.

  \<^bold>\<open>The theories.\<close>

  Foundations:
  \<^item> \<open>Dude_Prelude\<close>: exceptions, results, big-endian integers, shared lemmas.
  \<^item> \<open>Codec\<close>, \<open>Codec_Canonical\<close> (\<^verbatim>\<open>core/codec.py\<close>): the bencoder and its strict decoder. A byte string
    decodes exactly when it is the one encoding of a value within the limits; decoding always ends, with \<^verbatim>\<open>CodecError\<close> at
    worst.
  \<^item> \<open>Wire\<close>: the locale \<open>wire\<close> of an encoder with a decoder that inverts it, interpreted for the type of every message
    and record that travels or is stored.
  \<^item> \<open>Quorum\<close> (\<^verbatim>\<open>quorum.py\<close>): quorum sizes and failure domains; the locale \<open>quorum_rule\<close> gives the
    consensus proofs an honest member in common.
  \<^item> \<open>Crypto\<close>, \<open>Sealing\<close>, \<open>Sample_Prims\<close> (\<^verbatim>\<open>core/crypto.py\<close>): fixed widths, keys, signatures,
    signer bitmaps, multisignatures, the accumulator; sealed boxes, authenticated encryption, key derivation.
  \<^item> \<open>Tunables\<close> (\<^verbatim>\<open>tunables.py\<close>): the dials and the times derived from them.
  \<^item> \<open>Event_Loop\<close> (\<^verbatim>\<open>core/event_loop.py\<close>): the queue of timed events; what is due is taken, once and in order.

  The store:
  \<^item> \<open>Ops\<close> (\<^verbatim>\<open>store/ops.py\<close>): mutations, predicates, steps, signed transactions and their identity.
  \<^item> \<open>Smt\<close>, \<open>Smt_Paths\<close>, \<open>Smt_Tree\<close>, \<open>Smt_Proofs\<close> (\<^verbatim>\<open>store/smt.py\<close>): the sparse Merkle tree over SQL
    ranges with its memo; it computes the reference hash \<open>merkle\<close> of the set of rows, the root determines the rows up to
    collisions, and the proofs it makes verify.
  \<^item> \<open>Layer\<close>, \<open>Tables\<close>, \<open>Layer_View\<close> (\<^verbatim>\<open>store/layer.py\<close>): readers, views, overlays and layers; a
    layer is the view of the changed table.
  \<^item> \<open>Settle\<close>, \<open>Settle_Props\<close> (\<^verbatim>\<open>store/settle.py\<close>): evaluation of transactions and batches; authority
    and key epochs.
  \<^item> \<open>Management\<close>, \<open>Managed_Map\<close>, \<open>Session\<close>, \<open>Address\<close>
    (\<^verbatim>\<open>store/management.py\<close>, \<^verbatim>\<open>ds/managed_map.py\<close>, \<^verbatim>\<open>session.py\<close>,
    \<^verbatim>\<open>net/address.py\<close>): the management rows: nodes, grants, roster commitments, key epochs.
  \<^item> \<open>Store\<close>, \<open>Store_Inv\<close>, \<open>Preview\<close>, \<open>Store_Log\<close> (\<^verbatim>\<open>store/store.py\<close>): the tables and every
    write. The locales \<open>state_view\<close> and \<open>view_pair\<close> state what store and layer have in common; previewing a
    batch and committing it is one computation; blocks, the log, garbage collection and replay.
  \<^item> \<open>Tree_Sync\<close> (\<^verbatim>\<open>store/smt_sync.py\<close>): export and import of the state in chunks, over the locales \<open>export_source\<close>
    and \<open>import_target\<close>, which the store interprets.

  Consensus:
  \<^item> \<open>Mempool\<close> (\<^verbatim>\<open>consensus/canonical.py\<close>, \<^verbatim>\<open>consensus/mempool.py\<close>): canonical order, admission, eviction.
  \<^item> \<open>Round\<close>, \<open>Round_Safety\<close>, \<open>Round_Cut\<close> (\<^verbatim>\<open>consensus/round.py\<close>): the agreement round; agreement of
    ratified slices, the cut, and that no transaction is lost.
  \<^item> \<open>Settle_Round\<close>, \<open>Settle_Safety\<close> (\<^verbatim>\<open>consensus/settle_round.py\<close>): signatures on anchors, agreement
    of settled blocks.
  \<^item> \<open>Chain\<close>, \<open>Anchoring\<close>, \<open>Bootstrap\<close> (\<^verbatim>\<open>sync/chain.py\<close>, \<^verbatim>\<open>consensus/bootstrap.py\<close>): the walk
    of settled blocks, the anchors of a block to come, and the blocks of the manager.
  \<^item> \<open>Coordinator\<close>, \<open>Coordinator_Props\<close> (\<^verbatim>\<open>consensus/coordinator.py\<close>): every handler, the
    invariant over all of them, and that the committed store is what was signed. \<open>Silent_Run\<close>: the runs that no message
    interrupts, in which a node alone in its roster commits nothing.

  Replication and clients:
  \<^item> \<open>Sync_Adapter\<close>, \<open>Follower\<close>, \<open>Follower_Props\<close> (\<^verbatim>\<open>sync/refusal.py\<close>, \<^verbatim>\<open>sync/adapter.py\<close>,
    \<^verbatim>\<open>sync/follower.py\<close>): polling, pulling and adopting blocks; the follower ends with the store of the node it
    follows.
  \<^item> \<open>Checkpoint\<close>, \<open>Checkpoint_Props\<close> (\<^verbatim>\<open>store/checkpoint.py\<close>, \<^verbatim>\<open>sync/checkpoint_adapter.py\<close>,
    \<^verbatim>\<open>sync/checkpoint_server.py\<close>, the download of \<^verbatim>\<open>node.py\<close>): from creating a checkpoint to installing it.
  \<^item> \<open>Lite_Adapter\<close>, \<open>Lite\<close>, \<open>Lite_Client\<close>, \<open>Lite_Client_Props\<close> (\<^verbatim>\<open>sync/lite_adapter.py\<close>,
    \<^verbatim>\<open>sync/lite.py\<close>, \<^verbatim>\<open>sync/lite_client.py\<close>): what a node answers a light client and what the client may believe.
  \<^item> \<open>Node\<close>, \<open>Node_Props\<close> (\<^verbatim>\<open>node.py\<close>): the dispatch with its authorisation; outsiders are confined.
  \<^item> \<open>Sample_Store\<close>: a small provisioned store for the witnesses.

  Network:
  \<^item> \<open>Envelope\<close> (\<^verbatim>\<open>net/envelope.py\<close>): verbs, envelopes, signatures, sealed frames.
  \<^item> \<open>Link\<close>, \<open>Mailbox\<close> (\<^verbatim>\<open>net/link.py\<close>, \<^verbatim>\<open>net/plan.py\<close>, \<^verbatim>\<open>net/mailbox.py\<close>): links with their
    estimates and breakers, the plan for a message, and the messages on their way.
  \<^item> \<open>Postman\<close>, \<open>Postman_Props\<close> (\<^verbatim>\<open>net/postman.py\<close>): deliveries are authentic, messages expire, and a handler
    raises in two cases only; the locale \<open>step_relation\<close> carries a relation between states through every handler.
  \<^item> \<open>Tcp\<close> (\<^verbatim>\<open>net/transports/tcp.py\<close>): frames of a stream that may be cut anywhere; the dialers, which the postman runs.
  \<^item> \<open>Socket\<close> (\<^verbatim>\<open>net/socket_framing.py\<close>, \<^verbatim>\<open>net/socket_server.py\<close>,
    \<^verbatim>\<open>net/socket_substrate.py\<close>): the substrate of a node used by another process.

  Applications:
  \<^item> \<open>Key_Cache\<close> (\<^verbatim>\<open>KeyCache\<close> of \<^verbatim>\<open>session.py\<close>): keys of the stores, sealing and opening of values.
  \<^item> \<open>Queue\<close>, \<open>Queue_Props\<close> (\<^verbatim>\<open>ds/plaintext_map.py\<close>, \<^verbatim>\<open>ds/queue.py\<close>): jobs, leases and their recovery.
  \<^item> \<open>Worker\<close>, \<open>Worker_Props\<close> (\<^verbatim>\<open>ds/worker.py\<close>): registration, turns, claims; claims are exclusive, and
    what a worker makes of losing one.

  \<^bold>\<open>What goes wrong.\<close> Some of the theorems state behaviour that the source does not mean to have: a light client believes that
  a row is absent on a forged proof, a single reply bootstraps it, a checkpoint without signatures replaces the state,
  malformed requests raise out of the handlers, a node alone in its roster commits no block until a message reaches it, a peer with a
  key that is no point and an address that fails 1024 times end the postman's loop, a worker that lost a claim runs
  the job, and a request whose link ended is not sent again.

  \<^bold>\<open>Bounds and fuel.\<close> Loops whose end is visible are total functions with termination proofs. These have fuel:
  \<^item> \<open>Layer.base_entries\<close>, the \<^verbatim>\<open>while True\<close> of \<^verbatim>\<open>nth_prefix\<close> on an overlay, which asks the base for
    its entries until there are no more; without fuel it raises \<open>OutOfFuel\<close>, an exception of its own. Evaluating a transaction
    passes the fuel on. \<open>Preview\<close> shows that its result does not depend on the fuel: predicates of transactions read
    single rows only.
  \<^item> \<open>Smt.prove_from\<close> counts the 256 levels of the tree; no fuel is ever missing, as the loop of the source is
    \<^verbatim>\<open>for depth in range(MAX_DEPTH)\<close>.
  \<^item> \<open>Codec.decode\<close> starts with \<open>2 * length data + 2\<close>, which the canonicity theorem shows to be enough for
    every input.
  \<^item> \<open>Checkpoint.fetch_chunks\<close> asks for page after page; \<^const>\<open>None\<close> means that it still asks. From a
    server that holds the checkpoint, one more than the number of rows is enough; a server that never ends its pages keeps it asking with any fuel.

  \<^bold>\<open>Not modelled.\<close> Threads, locks and condition variables (each operation is one step), sockets and
  processes (\<^verbatim>\<open>core/crashonly.py\<close>, the listeners, the SOCKS proxy, \<^verbatim>\<open>cli\<close>), reports for operators
  (\<^verbatim>\<open>introspect.py\<close>, \<^verbatim>\<open>sync/observer.py\<close>), JSON by reflection (\<^verbatim>\<open>core/serde.py\<close>), the
  in-process transport of the tests, the thin base class \<^verbatim>\<open>participant.py\<close>, and Python's own limits on recursion and on the digits of integers. Floats
  (round-trip estimates) are rational numbers, without rounding; the seconds of the dialers are milliseconds, with the one overflow that raises.
\<close>

end
